(* ===== verification/Prelude.thy ===== *)
theory Prelude
  imports Main "HOL-Library.AList" "HOL-Library.Word"
begin

text \<open>
  What the components share: the model's types for Go values (times and durations in nanoseconds,
  byte strings, Go maps as association lists with distinct keys), the fragments of Go's
  \<open>strings\<close> package the sources call, and the lemmas on association lists that the registries and
  caches rest on. The collection \<open>amap\<close> holds the association-list facts the component proofs
  give to the simplifier, \<open>go_str\<close> the definitions of the string functions.
\<close>

named_theorems amap \<open>facts on Go maps modelled as association lists\<close>
named_theorems go_str \<open>definitions of the modelled functions of the Go strings package\<close>

section \<open>Go values\<close>

text \<open>
  A \<open>time.Time\<close> is a number of nanoseconds and a \<open>time.Duration\<close> a difference of two; the
  zero \<open>time.Time\<close>, which the sources use as ``unset'', is \<open>None\<close> where they test
  \<open>IsZero\<close>. A Go map is an association list with distinct keys: \<open>range\<close> visits the pairs in
  list order, \<open>len\<close> is the length.
\<close>

type_synonym time = int
type_synonym duration = int
type_synonym ('k, 'v) gomap = "('k \<times> 'v) list"

definition Nanosecond :: duration where "Nanosecond = 1"
definition Millisecond :: duration where "Millisecond = 1000000"
definition Second :: duration where "Second = 1000000000"
definition Minute :: duration where "Minute = 60 * Second"
definition Hour :: duration where "Hour = 60 * Minute"

lemmas duration_defs = Nanosecond_def Millisecond_def Second_def Minute_def Hour_def

text \<open>Integer division of Go truncates towards zero and panics on a zero divisor.\<close>

datatype panic = DivideByZero | IndexOutOfRange | NilDereference | ExplicitPanic string

definition go_div :: "int \<Rightarrow> int \<Rightarrow> panic + int" where
  "go_div a b = (if b = 0 then Inl DivideByZero else Inr (sgn a * sgn b * (\<bar>a\<bar> div \<bar>b\<bar>)))"

lemma go_div_pos: "0 \<le> a \<Longrightarrow> 0 < b \<Longrightarrow> go_div a b = Inr (a div b)"
  by (cases "a = 0") (auto simp: go_div_def)

section \<open>Go maps\<close>

definition map_ok :: "('k, 'v) gomap \<Rightarrow> bool" where
  "map_ok m \<longleftrightarrow> distinct (map fst m)"

abbreviation lookup :: "('k, 'v) gomap \<Rightarrow> 'k \<Rightarrow> 'v option" where
  "lookup \<equiv> map_of"

lemma map_ok_Nil [simp, intro]: "map_ok []"
  by (simp add: map_ok_def)

lemma map_ok_update [simp, intro]: "map_ok m \<Longrightarrow> map_ok (AList.update k v m)"
  by (simp add: map_ok_def distinct_update)

lemma map_ok_delete [simp, intro]: "map_ok m \<Longrightarrow> map_ok (AList.delete k m)"
  by (simp add: map_ok_def distinct_delete)

lemma map_ok_filter [simp, intro]: "map_ok m \<Longrightarrow> map_ok (filter P m)"
  by (simp add: map_ok_def distinct_map_filter)

lemma lookup_update [amap]: "lookup (AList.update k v m) k' = (if k' = k then Some v else lookup m k')"
  by (simp add: update_conv')

lemma lookup_delete [amap]: "lookup (AList.delete k m) k' = (if k' = k then None else lookup m k')"
  by (simp add: delete_conv')

lemma lookup_filter [amap]:
  "map_ok m \<Longrightarrow> lookup (filter P m) k =
     (case lookup m k of None \<Rightarrow> None | Some v \<Rightarrow> if P (k, v) then Some v else None)"
  by (induction m) (auto simp: map_ok_def split: option.splits dest: map_of_SomeD intro: rev_image_eqI)

lemma length_update_new [amap]:
  "lookup m k = None \<Longrightarrow> length (AList.update k v m) = Suc (length m)"
  by (induction m) (auto split: if_splits)

lemma length_update_old [amap]:
  "lookup m k \<noteq> None \<Longrightarrow> length (AList.update k v m) = length m"
  by (induction m) (auto split: if_splits)

lemma length_update_le: "length (AList.update k v m) \<le> Suc (length m)"
  by (cases "lookup m k") (auto simp: amap)

lemma length_delete_old:
  "map_ok m \<Longrightarrow> lookup m k = Some v \<Longrightarrow> Suc (length (AList.delete k m)) = length m"
proof (induction m)
  case (Cons a m)
  show ?case
  proof (cases "fst a = k")
    case True
    with Cons.prems(1) have "k \<notin> fst ` set m" by (auto simp: map_ok_def)
    then have "AList.delete k m = m" by (simp add: delete_id)
    with True show ?thesis by (cases a) simp
  next
    case False
    with Cons show ?thesis by (cases a) (auto simp: map_ok_def)
  qed
qed simp

lemma set_update_eq:
  "map_ok m \<Longrightarrow> set (AList.update k v m) = insert (k, v) {p \<in> set m. fst p \<noteq> k}"
  by (induction m) (auto simp: map_ok_def split: if_splits intro: rev_image_eqI)

lemma lookup_Some_iff: "map_ok m \<Longrightarrow> lookup m k = Some v \<longleftrightarrow> (k, v) \<in> set m"
  by (simp add: map_ok_def)

lemma length_filter_split: "length xs - length (filter P xs) = length (filter (\<lambda>x. \<not> P x) xs)"
  using sum_length_filter_compl [of P xs] by simp

text \<open>A sum over the values of a map changes at one key only when one key is updated.\<close>

definition sum_map :: "('v \<Rightarrow> int) \<Rightarrow> ('k, 'v) gomap \<Rightarrow> int" where
  "sum_map f m = (\<Sum>p\<leftarrow>m. f (snd p))"

lemma sum_map_simps [simp]:
  "sum_map f [] = 0" "sum_map f (p # m) = f (snd p) + sum_map f m"
  by (simp_all add: sum_map_def)

lemma sum_map_update:
  "map_ok m \<Longrightarrow> sum_map f (AList.update k v m) =
     sum_map f m - (case lookup m k of None \<Rightarrow> 0 | Some w \<Rightarrow> f w) + f v"
  by (induction m) (auto simp: map_ok_def split: option.splits dest: map_of_SomeD intro: rev_image_eqI)

lemma sum_map_filter_zero:
  "(\<And>p. p \<in> set m \<Longrightarrow> \<not> P p \<Longrightarrow> f (snd p) = 0) \<Longrightarrow> sum_map f (filter P m) = sum_map f m"
  by (induction m) auto

lemma sum_map_nonneg: "(\<And>p. p \<in> set m \<Longrightarrow> 0 \<le> f (snd p)) \<Longrightarrow> 0 \<le> sum_map f m"
  by (induction m) (auto intro: add_nonneg_nonneg)

lemma sum_map_ge_member:
  assumes "\<And>p. p \<in> set m \<Longrightarrow> 0 \<le> f (snd p)" and "(k, v) \<in> set m"
  shows "f v \<le> sum_map f m"
  using assms
proof (induction m)
  case (Cons p m)
  have "0 \<le> sum_map f m" using Cons.prems(1) by (intro sum_map_nonneg) auto
  moreover have "0 \<le> f (snd p)" using Cons.prems(1) by auto
  ultimately show ?case using Cons by fastforce
qed simp

lemma sum_list_map_update:
  "i < length xs \<Longrightarrow>
     (\<Sum>x\<leftarrow>xs[i := y]. f x) = (\<Sum>x\<leftarrow>xs. f x) + f y - (f (xs ! i) :: int)"
  by (induction xs arbitrary: i) (auto simp: nth_Cons split: nat.split)

text \<open>Counting in a list under an update at one index.\<close>

definition count_if :: "('a \<Rightarrow> bool) \<Rightarrow> 'a list \<Rightarrow> int" where
  "count_if P xs = int (length (filter P xs))"

lemma count_if_simps [simp]:
  "count_if P [] = 0"
  "count_if P (x # xs) = (if P x then 1 else 0) + count_if P xs"
  "count_if P (xs @ ys) = count_if P xs + count_if P ys"
  by (simp_all add: count_if_def)

lemma count_if_update:
  "i < length xs \<Longrightarrow> count_if P (xs[i := y]) =
     count_if P xs - (if P (xs ! i) then 1 else 0) + (if P y then 1 else 0)"
  by (induction xs arbitrary: i) (auto simp: nth_Cons split: nat.split)

lemma count_if_nonneg [simp]: "0 \<le> count_if P xs"
  by (simp add: count_if_def)

lemma count_if_zero: "count_if P xs = 0 \<longleftrightarrow> (\<forall>x \<in> set xs. \<not> P x)"
  by (auto simp: count_if_def filter_empty_conv)

lemma count_if_pos: "0 < count_if P xs \<longleftrightarrow> (\<exists>x \<in> set xs. P x)"
  using count_if_zero [of P xs] count_if_nonneg [of P xs] by (auto simp: less_le)

lemma count_if_mono: "(\<And>x. x \<in> set xs \<Longrightarrow> P x \<Longrightarrow> Q x) \<Longrightarrow> count_if P xs \<le> count_if Q xs"
  by (induction xs) auto

lemma count_if_cong: "(\<And>x. x \<in> set xs \<Longrightarrow> P x = Q x) \<Longrightarrow> count_if P xs = count_if Q xs"
  by (induction xs) auto

lemma AList_update_fresh: "k \<notin> fst ` set m \<Longrightarrow> AList.update k v m = m @ [(k, v)]"
  by (induction m) auto

lemma unat_mod_of_nat_less:
  assumes "0 < n" "n < 2 ^ 64"
  shows "unat ((h :: 64 word) mod of_nat n) < n"
proof -
  have "unat (of_nat n :: 64 word) = n"
    using assms by (simp add: unat_of_nat)
  then show ?thesis using assms by (simp add: unat_mod_distrib)
qed

lemma map_sum_eq_Inr: "map_sum f g x = Inr y \<longleftrightarrow> (\<exists>z. x = Inr z \<and> y = g z)"
  by (cases x) auto

section \<open>Strings\<close>

text \<open>
  A Go string is a sequence of bytes, here a \<open>char list\<close>. \<open>strings.TrimSpace\<close> removes Unicode
  white space at both ends; \<open>space_encodings\<close> lists the UTF-8 encodings of the code points that
  \<open>unicode.IsSpace\<close> accepts.
\<close>

definition ascii_spaces :: "string list" where
  "ascii_spaces = [[CHR 0x09], [CHR 0x0A], [CHR 0x0B], [CHR 0x0C], [CHR 0x0D], [CHR 0x20]]"

definition unicode_spaces :: "string list" where
  "unicode_spaces =
     [[CHR 0xC2, CHR 0x85], [CHR 0xC2, CHR 0xA0],
      [CHR 0xE1, CHR 0x9A, CHR 0x80], [CHR 0xE2, CHR 0x80, CHR 0xA8],
      [CHR 0xE2, CHR 0x80, CHR 0xA9], [CHR 0xE2, CHR 0x80, CHR 0xAF],
      [CHR 0xE2, CHR 0x81, CHR 0x9F], [CHR 0xE3, CHR 0x80, CHR 0x80],
      [CHR 0xE2, CHR 0x80, CHR 0x80], [CHR 0xE2, CHR 0x80, CHR 0x81],
      [CHR 0xE2, CHR 0x80, CHR 0x82], [CHR 0xE2, CHR 0x80, CHR 0x83],
      [CHR 0xE2, CHR 0x80, CHR 0x84], [CHR 0xE2, CHR 0x80, CHR 0x85],
      [CHR 0xE2, CHR 0x80, CHR 0x86], [CHR 0xE2, CHR 0x80, CHR 0x87],
      [CHR 0xE2, CHR 0x80, CHR 0x88], [CHR 0xE2, CHR 0x80, CHR 0x89],
      [CHR 0xE2, CHR 0x80, CHR 0x8A]]"

definition space_encodings :: "string list" where
  "space_encodings = ascii_spaces @ unicode_spaces"

fun starts_with :: "'a list \<Rightarrow> 'a list \<Rightarrow> bool" where
  "starts_with [] s = True"
| "starts_with (p # ps) [] = False"
| "starts_with (p # ps) (c # s) = (p = c \<and> starts_with ps s)"

lemma starts_with_iff: "starts_with p s \<longleftrightarrow> (\<exists>r. s = p @ r)"
  by (induction p s rule: starts_with.induct) auto

fun strip_one :: "'a list list \<Rightarrow> 'a list \<Rightarrow> 'a list option" where
  "strip_one [] s = None"
| "strip_one (p # ps) s =
     (if p \<noteq> [] \<and> starts_with p s then Some (drop (length p) s) else strip_one ps s)"

lemma strip_one_length: "strip_one ps s = Some r \<Longrightarrow> length r < length s"
  by (induction ps) (auto simp: starts_with_iff split: if_splits)

lemma strip_one_Nil [simp]: "strip_one ps [] = None"
  by (induction ps) (auto simp: starts_with_iff)

function strip_all :: "'a list list \<Rightarrow> 'a list \<Rightarrow> 'a list" where
  "strip_all ps s = (case strip_one ps s of None \<Rightarrow> s | Some r \<Rightarrow> strip_all ps r)"
  by pat_completeness auto
termination
  by (relation "measure (\<lambda>(ps, s). length s)") (auto dest: strip_one_length)

declare strip_all.simps [simp del]

lemma strip_all_fixed: "strip_one ps (strip_all ps s) = None"
proof (induction ps s rule: strip_all.induct)
  case (1 ps s)
  then show ?case by (subst strip_all.simps) (auto split: option.split)
qed

lemma strip_all_id: "strip_one ps s = None \<Longrightarrow> strip_all ps s = s"
  by (subst strip_all.simps) simp

lemma strip_all_idem [simp]: "strip_all ps (strip_all ps s) = strip_all ps s"
  by (rule strip_all_id [OF strip_all_fixed])

lemma strip_all_length: "length (strip_all ps s) \<le> length s"
proof (induction ps s rule: strip_all.induct)
  case (1 ps s)
  then show ?case
    by (subst strip_all.simps) (fastforce split: option.split dest: strip_one_length)
qed

definition TrimSpace :: "string \<Rightarrow> string" where
  "TrimSpace s = rev (strip_all (map rev space_encodings) (rev (strip_all space_encodings s)))"

lemma TrimSpace_Nil [simp]: "TrimSpace [] = []"
  by (simp add: TrimSpace_def strip_all.simps)

lemma TrimSpace_length: "length (TrimSpace s) \<le> length s"
  using strip_all_length [of "map rev space_encodings" "rev (strip_all space_encodings s)"]
    strip_all_length [of space_encodings s]
  by (simp add: TrimSpace_def)

lemma strip_one_prefix: "strip_one ps (s @ r) = None \<Longrightarrow> strip_one ps s = None"
  by (induction ps) (auto simp: starts_with_iff split: if_splits)

lemma strip_one_suffix: "strip_one ps s = Some r \<Longrightarrow> \<exists>a. s = a @ r"
  by (induction ps) (auto simp: starts_with_iff split: if_splits)

lemma strip_all_suffix: "\<exists>a. s = a @ strip_all ps s"
proof (induction ps s rule: strip_all.induct)
  case (1 ps s)
  show ?case
  proof (cases "strip_one ps s")
    case (Some r)
    obtain a b where "s = a @ r" "r = b @ strip_all ps r"
      using strip_one_suffix [OF Some] 1 [OF Some] by blast
    then have "s = (a @ b) @ strip_all ps r" by simp
    then show ?thesis using Some by (subst strip_all.simps) auto
  qed (simp add: strip_all_id)
qed

lemma TrimSpace_idem [simp]: "TrimSpace (TrimSpace s) = TrimSpace s"
proof -
  define l where "l = strip_all space_encodings s"
  obtain a where a: "rev l = a @ strip_all (map rev space_encodings) (rev l)"
    using strip_all_suffix by blast
  then have "l = TrimSpace s @ rev a"
    by (metis TrimSpace_def l_def rev_append rev_rev_ident)
  then have "strip_one space_encodings (TrimSpace s) = None"
    using strip_one_prefix strip_all_fixed l_def by metis
  then have "strip_all space_encodings (TrimSpace s) = TrimSpace s" by (rule strip_all_id)
  then show ?thesis by (simp add: TrimSpace_def)
qed

lemma strip_all_other_start:
  assumes "\<And>p. p \<in> set ps \<Longrightarrow> p \<noteq> [] \<and> hd p \<noteq> c"
  shows "strip_all ps (c # s) = c # s"
proof -
  have "strip_one ps (c # s) = None" using assms
  proof (induction ps)
    case (Cons p ps)
    from Cons.prems [of p] have "p \<noteq> []" "hd p \<noteq> c" by auto
    with Cons show ?case by (cases p) auto
  qed simp
  then show ?thesis by (rule strip_all_id)
qed

text \<open>A string that starts and ends with bytes no white space starts or ends with is kept.\<close>

lemma TrimSpace_id:
  assumes "s \<noteq> []" "hd s \<notin> hd ` set space_encodings" "last s \<notin> last ` set space_encodings"
  shows "TrimSpace s = s"
proof -
  have ne: "p \<noteq> []" if "p \<in> set space_encodings" for p
    using that by (auto simp: space_encodings_def ascii_spaces_def unicode_spaces_def)
  have l: "strip_all space_encodings s = s"
    using assms(1,2) ne by (cases s) (auto intro!: strip_all_other_start)
  obtain t where t: "rev s = last s # t" using assms(1) by (cases s rule: rev_cases) auto
  have "strip_all (map rev space_encodings) (last s # t) = last s # t"
  proof (rule strip_all_other_start)
    fix p assume "p \<in> set (map rev space_encodings)"
    then obtain q where "q \<in> set space_encodings" "p = rev q" by auto
    then show "p \<noteq> [] \<and> hd p \<noteq> last s" using assms(3) ne [of q]
      by (metis hd_rev image_eqI rev_is_Nil_conv)
  qed
  then have "strip_all (map rev space_encodings) (rev s) = rev s" by (simp only: t)
  then show ?thesis by (simp add: TrimSpace_def l)
qed

definition to_lower :: "char \<Rightarrow> char" where
  "to_lower c = (let n = of_char c :: int in if 65 \<le> n \<and> n \<le> 90 then char_of (n + 32) else c)"

text \<open>
  \<open>strings.EqualFold\<close> against an ASCII word without the letters k and s, whose fold orbits are
  the only ASCII ones that reach beyond ASCII.
\<close>

definition EqualFold :: "string \<Rightarrow> string \<Rightarrow> bool" where
  "EqualFold s t \<longleftrightarrow> map to_lower s = map to_lower t"

definition HasPrefix :: "string \<Rightarrow> string \<Rightarrow> bool" where
  "HasPrefix s p \<longleftrightarrow> starts_with p s"

definition HasSuffix :: "string \<Rightarrow> string \<Rightarrow> bool" where
  "HasSuffix s p \<longleftrightarrow> starts_with (rev p) (rev s)"

definition ContainsAny :: "string \<Rightarrow> string \<Rightarrow> bool" where
  "ContainsAny s cs \<longleftrightarrow> list_ex (\<lambda>c. c \<in> set cs) s"

fun IndexByte :: "string \<Rightarrow> char \<Rightarrow> nat option" where
  "IndexByte [] c = None"
| "IndexByte (x # xs) c = (if x = c then Some 0 else map_option Suc (IndexByte xs c))"

lemma IndexByte_Some: "IndexByte s c = Some i \<Longrightarrow> i < length s \<and> s ! i = c"
  by (induction s arbitrary: i) (auto split: if_splits)

lemma IndexByte_None: "IndexByte s c = None \<longleftrightarrow> c \<notin> set s"
  by (induction s) auto

definition LastIndexByte :: "string \<Rightarrow> char \<Rightarrow> nat option" where
  "LastIndexByte s c = map_option (\<lambda>i. length s - 1 - i) (IndexByte (rev s) c)"

text \<open>Lower-case hexadecimal bytes, as \<open>%x\<close> and \<open>encoding/hex\<close> write them.\<close>

definition hex_digit :: "int \<Rightarrow> char" where
  "hex_digit n = (if n < 10 then char_of (48 + n) else char_of (87 + n))"

definition hex :: "int list \<Rightarrow> string" where
  "hex bs = concat (map (\<lambda>b. [hex_digit (b div 16), hex_digit (b mod 16)]) bs)"

lemma hex_Nil [simp]: "hex [] = []" and hex_Cons [simp]:
  "hex (b # bs) = hex_digit (b div 16) # hex_digit (b mod 16) # hex bs"
  by (simp_all add: hex_def)

lemma hex_append [simp]: "hex (a @ b) = hex a @ hex b"
  by (simp add: hex_def)

declare EqualFold_def [go_str] HasPrefix_def [go_str] HasSuffix_def [go_str]
  ContainsAny_def [go_str] LastIndexByte_def [go_str]

end
