(* ===== verification/Netip.thy ===== *)
theory Netip
  imports Prelude
begin

text \<open>
  The part of Go's \<open>net/netip\<close> and \<open>net/http\<close> packages the request path uses: addresses and
  prefixes, \<open>ParseAddr\<close>, \<open>ParseAddrPort\<close>, \<open>Addr.Unmap\<close>, \<open>Addr.As16\<close>, \<open>Prefix.Contains\<close>,
  a request with its header map, and the response a handler writes. The parsers follow the
  standard library's loops, so that concrete header values evaluate; the lemmas show that what they
  return is well formed (four or sixteen bytes) and that \<open>Unmap\<close> yields a canonical address.
\<close>

section \<open>Addresses\<close>

type_synonym byte = "8 word"

datatype Addr = V4 "byte list" | V6 "byte list" string

fun wf_addr :: "Addr \<Rightarrow> bool" where
  "wf_addr (V4 bs) \<longleftrightarrow> length bs = 4"
| "wf_addr (V6 bs z) \<longleftrightarrow> length bs = 16"

fun Zone :: "Addr \<Rightarrow> string" where
  "Zone (V4 bs) = []"
| "Zone (V6 bs z) = z"

fun Is4 :: "Addr \<Rightarrow> bool" where
  "Is4 (V4 bs) = True"
| "Is4 (V6 bs z) = False"

definition v4_in_v6_prefix :: "byte list" where
  "v4_in_v6_prefix = replicate 10 0 @ [255, 255]"

fun Is4In6 :: "Addr \<Rightarrow> bool" where
  "Is4In6 (V4 bs) = False"
| "Is4In6 (V6 bs z) \<longleftrightarrow> take 12 bs = v4_in_v6_prefix"

fun Unmap :: "Addr \<Rightarrow> Addr" where
  "Unmap (V4 bs) = V4 bs"
| "Unmap (V6 bs z) = (if Is4In6 (V6 bs z) then V4 (drop 12 bs) else V6 bs z)"

fun As16 :: "Addr \<Rightarrow> byte list" where
  "As16 (V4 bs) = v4_in_v6_prefix @ bs"
| "As16 (V6 bs z) = bs"

definition canonical :: "Addr \<Rightarrow> bool" where
  "canonical a \<longleftrightarrow> wf_addr a \<and> Zone a = [] \<and> \<not> Is4In6 a"

lemma canonical_Unmap: "wf_addr a \<Longrightarrow> Zone a = [] \<Longrightarrow> canonical (Unmap a)"
  by (cases a) (auto simp: canonical_def)

lemma Unmap_canonical: "canonical a \<Longrightarrow> Unmap a = a"
  by (cases a) (auto simp: canonical_def)

lemma length_As16: "wf_addr a \<Longrightarrow> length (As16 a) = 16"
  by (cases a) (auto simp: v4_in_v6_prefix_def)

text \<open>On canonical addresses the sixteen-byte form identifies the address.\<close>

lemma As16_inj:
  assumes "canonical a" "canonical b" "As16 a = As16 b"
  shows "a = b"
  using assms by (cases a; cases b) (auto simp: canonical_def v4_in_v6_prefix_def)

section \<open>Prefixes\<close>

record Prefix =
  prefix_addr :: Addr
  prefix_bits :: nat

definition addr_bits :: "byte list \<Rightarrow> bool list" where
  "addr_bits bs = concat (map (\<lambda>b. map (bit b) (rev [0..<8])) bs)"

fun addr_bytes :: "Addr \<Rightarrow> byte list" where
  "addr_bytes (V4 bs) = bs"
| "addr_bytes (V6 bs z) = bs"

text \<open>
  \<open>Prefix.Contains\<close>: never for an address with a zone, never across address families, else the
  first \<open>prefix_bits\<close> bits agree.
\<close>

definition Contains :: "Prefix \<Rightarrow> Addr \<Rightarrow> bool" where
  "Contains p a \<longleftrightarrow>
     prefix_bits p \<le> 8 * length (addr_bytes (prefix_addr p)) \<and>
     Zone a = [] \<and> Is4 a = Is4 (prefix_addr p) \<and>
     take (prefix_bits p) (addr_bits (addr_bytes a)) =
     take (prefix_bits p) (addr_bits (addr_bytes (prefix_addr p)))"

lemma Contains_family: "Contains p a \<Longrightarrow> Is4 a = Is4 (prefix_addr p)"
  by (simp add: Contains_def)

section \<open>Parsing addresses\<close>

definition is_digit :: "char \<Rightarrow> bool" where
  "is_digit c \<longleftrightarrow> (let n = of_char c :: int in 48 \<le> n \<and> n \<le> 57)"

definition digit_val :: "char \<Rightarrow> nat" where
  "digit_val c = nat (of_char c - 48)"

definition is_hex :: "char \<Rightarrow> bool" where
  "is_hex c \<longleftrightarrow> (let n = of_char c :: int in
     48 \<le> n \<and> n \<le> 57 \<or> 97 \<le> n \<and> n \<le> 102 \<or> 65 \<le> n \<and> n \<le> 70)"

definition hex_val :: "char \<Rightarrow> nat" where
  "hex_val c = (let n = of_char c :: int in
     nat (if n \<le> 57 then n - 48 else if 97 \<le> n then n - 87 else n - 55))"

definition hex_number :: "string \<Rightarrow> nat" where
  "hex_number ds = foldl (\<lambda>acc c. 16 * acc + hex_val c) 0 ds"

definition dec_number :: "string \<Rightarrow> int" where
  "dec_number ds = foldl (\<lambda>acc c. 10 * acc + int (digit_val c)) 0 ds"

text \<open>
  \<open>parseIPv4Fields\<close>: the flag says that the byte before was a dot or that there was none, \<open>val\<close>
  and \<open>digLen\<close> describe the field being read, \<open>flds\<close> the flds already stored.
\<close>

fun parseIPv4_loop :: "string \<Rightarrow> bool \<Rightarrow> nat \<Rightarrow> nat \<Rightarrow> nat list \<Rightarrow> nat list option" where
  "parseIPv4_loop [] fresh val digLen flds =
     (if length flds < 3 then None else Some (flds @ [val]))"
| "parseIPv4_loop (c # s) fresh val digLen flds =
     (if is_digit c then
        if digLen = 1 \<and> val = 0 then None
        else let v = val * 10 + digit_val c in
          if 255 < v then None else parseIPv4_loop s False v (Suc digLen) flds
      else if c = CHR ''.'' then
        if fresh \<or> s = [] then None
        else if length flds = 3 then None
        else parseIPv4_loop s True 0 0 (flds @ [val])
      else None)"

definition parseIPv4Fields :: "string \<Rightarrow> nat list option" where
  "parseIPv4Fields s = parseIPv4_loop s True 0 0 []"

lemma parseIPv4_loop_length:
  "parseIPv4_loop s fresh val dl flds = Some r \<Longrightarrow> length flds \<le> 3 \<Longrightarrow> length r = 4"
  by (induction s fresh val dl flds rule: parseIPv4_loop.induct)
    (auto simp: Let_def split: if_splits)

lemma parseIPv4Fields_length: "parseIPv4Fields s = Some r \<Longrightarrow> length r = 4"
  using parseIPv4_loop_length [of s True 0 0 "[]" r] by (simp add: parseIPv4Fields_def)

definition parseIPv4 :: "string \<Rightarrow> Addr option" where
  "parseIPv4 s = map_option (\<lambda>fs. V4 (map of_nat fs)) (parseIPv4Fields s)"

definition chunk_bytes :: "nat \<Rightarrow> byte list" where
  "chunk_bytes n = [of_nat (n div 256), of_nat (n mod 256)]"

text \<open>
  The loop of \<open>parseIPv6\<close>: the bytes read so far, the position of the ellipsis, the text left.
  It returns these three when the loop ends, \<open>None\<close> on a parse error.
\<close>

function parseIPv6_loop ::
  "byte list \<Rightarrow> nat option \<Rightarrow> string \<Rightarrow> (byte list \<times> nat option \<times> string) option" where
  "parseIPv6_loop bs e s =
     (if 16 \<le> length bs then Some (bs, e, s)
      else
        let ds = takeWhile is_hex s; bs' = bs @ chunk_bytes (hex_number ds)
        in if ds = [] \<or> 4 < length ds then None
        else (case dropWhile is_hex s of
            [] \<Rightarrow> Some (bs', e, [])
          | c # r \<Rightarrow>
              if c = CHR ''.'' then
                if e = None \<and> length bs \<noteq> 12 then None
                else if 16 < length bs + 4 then None
                else map_option (\<lambda>fs. (bs @ map of_nat fs, e, [])) (parseIPv4Fields s)
              else if c \<noteq> CHR '':'' then None
              else (case r of
                  [] \<Rightarrow> None
                | c' # r' \<Rightarrow>
                    if c' = CHR '':'' then
                      if e \<noteq> None then None
                      else if r' = [] then Some (bs', Some (length bs'), [])
                      else parseIPv6_loop bs' (Some (length bs')) r'
                    else parseIPv6_loop bs' e r)))"
  by pat_completeness auto
termination
proof (relation "measure (\<lambda>(bs, e, s). length s)", goal_cases)
  case (2 bs e s ds bs' c r c' r')
  then have "length r < length (dropWhile is_hex s)" by simp
  then show ?case using 2 length_dropWhile_le [of is_hex s] by simp
next
  case (3 bs e s ds bs' c r c' r')
  then have "length r < length (dropWhile is_hex s)" by simp
  then show ?case using length_dropWhile_le [of is_hex s] by simp
qed simp

declare parseIPv6_loop.simps [simp del]

definition expand_ellipsis :: "(byte list \<times> nat option \<times> string) \<Rightarrow> byte list option" where
  "expand_ellipsis r = (case r of (bs, e, s) \<Rightarrow>
     if s \<noteq> [] then None
     else if length bs < 16 then
       (case e of None \<Rightarrow> None
        | Some k \<Rightarrow> Some (take k bs @ replicate (16 - length bs) 0 @ drop k bs))
     else if e \<noteq> None then None
     else Some bs)"

definition parseIPv6 :: "string \<Rightarrow> Addr option" where
  "parseIPv6 inp =
     (let (s, zone, zone_ok) =
        (case IndexByte inp (CHR ''%'') of
           None \<Rightarrow> (inp, [], True)
         | Some i \<Rightarrow> (take i inp, drop (Suc i) inp, drop (Suc i) inp \<noteq> []))
      in if \<not> zone_ok then None
      else if starts_with ''::'' s then
        if drop 2 s = [] then Some (V6 (replicate 16 0) zone)
        else map_option (\<lambda>bs. V6 bs zone)
          (Option.bind (parseIPv6_loop [] (Some 0) (drop 2 s)) expand_ellipsis)
      else map_option (\<lambda>bs. V6 bs zone)
          (Option.bind (parseIPv6_loop [] None s) expand_ellipsis))"

lemma parseIPv6_loop_length:
  "parseIPv6_loop bs e s = Some (bs', e', s') \<Longrightarrow> length bs \<le> 16 \<Longrightarrow> even (length bs) \<Longrightarrow>
     length bs' \<le> 16"
proof (induction bs e s rule: parseIPv6_loop.induct)
  case (1 bs e s)
  have ev: "length bs < 16 \<Longrightarrow> length bs + 2 \<le> 16" using "1.prems"(3) by presburger
  note step = "1.prems"(1) [unfolded parseIPv6_loop.simps [of bs e s]]
  show ?case
    using step "1.prems"(2,3) "1.IH" ev
    by (auto simp: Let_def chunk_bytes_def parseIPv4Fields_length
        split: if_splits list.splits)
qed

lemma expand_ellipsis_length:
  "expand_ellipsis (bs, e, s) = Some r \<Longrightarrow> length bs \<le> 16 \<Longrightarrow> length r = 16"
  by (auto simp: expand_ellipsis_def split: if_splits option.splits)

lemma parseIPv6_wf: "parseIPv6 s = Some a \<Longrightarrow> wf_addr a"
  by (fastforce simp: parseIPv6_def Let_def bind_eq_Some_conv
      dest: parseIPv6_loop_length expand_ellipsis_length split: if_splits option.splits)

text \<open>\<open>ParseAddr\<close> dispatches on the first dot, colon or percent sign.\<close>

fun addr_kind :: "string \<Rightarrow> char option" where
  "addr_kind [] = None"
| "addr_kind (c # s) =
     (if c = CHR ''.'' \<or> c = CHR '':'' \<or> c = CHR ''%'' then Some c else addr_kind s)"

definition ParseAddr :: "string \<Rightarrow> Addr option" where
  "ParseAddr s = (case addr_kind s of
      None \<Rightarrow> None
    | Some c \<Rightarrow> if c = CHR ''.'' then parseIPv4 s
        else if c = CHR '':'' then parseIPv6 s else None)"

lemma ParseAddr_wf: "ParseAddr s = Some a \<Longrightarrow> wf_addr a"
  by (auto simp: ParseAddr_def parseIPv4_def parseIPv4Fields_length parseIPv6_wf
      split: option.splits if_splits)

definition ParseUint16 :: "string \<Rightarrow> int option" where
  "ParseUint16 s = (if s \<noteq> [] \<and> list_all is_digit s \<and> dec_number s < 65536
     then Some (dec_number s) else None)"

definition ParseAddrPort :: "string \<Rightarrow> (Addr \<times> int) option" where
  "ParseAddrPort s = (case LastIndexByte s (CHR '':'') of
      None \<Rightarrow> None
    | Some i \<Rightarrow>
        let ip = take i s; port = drop (Suc i) s in
        if ip = [] \<or> port = [] then None
        else
          let v6 = (hd ip = CHR ''['') in
          if v6 \<and> (length ip < 2 \<or> last ip \<noteq> CHR '']'') then None
          else
            let ip' = (if v6 then butlast (tl ip) else ip) in
            (case ParseUint16 port of
               None \<Rightarrow> None
             | Some p \<Rightarrow> (case ParseAddr ip' of
                 None \<Rightarrow> None
               | Some a \<Rightarrow> if v6 = Is4 a then None else Some (a, p))))"

lemma ParseAddrPort_wf: "ParseAddrPort s = Some (a, p) \<Longrightarrow> wf_addr a"
  by (auto simp: ParseAddrPort_def Let_def ParseAddr_wf split: option.splits if_splits)

section \<open>Requests and responses\<close>

text \<open>
  \<open>http.Header\<close> is a Go map from names to value lists. A handler either writes an error response
  (status, body and the headers it set before) or calls the next handler.
\<close>

type_synonym Header = "(string, string list) gomap"

record Request =
  RemoteAddr :: string
  header :: Header

definition header_values :: "Header \<Rightarrow> string \<Rightarrow> string list" where
  "header_values h name = (case lookup h name of None \<Rightarrow> [] | Some vs \<Rightarrow> vs)"

record http_error =
  status :: int
  message :: string
  set_headers :: "(string \<times> string) list"

definition http_Error :: "int \<Rightarrow> string \<Rightarrow> http_error" where
  "http_Error code msg = \<lparr>status = code, message = msg, set_headers = []\<rparr>"

abbreviation StatusBadRequest :: int where "StatusBadRequest \<equiv> 400"
abbreviation StatusUnauthorized :: int where "StatusUnauthorized \<equiv> 401"
abbreviation StatusForbidden :: int where "StatusForbidden \<equiv> 403"
abbreviation StatusTooManyRequests :: int where "StatusTooManyRequests \<equiv> 429"
abbreviation StatusInternalServerError :: int where "StatusInternalServerError \<equiv> 500"
abbreviation StatusServiceUnavailable :: int where "StatusServiceUnavailable \<equiv> 503"

end
