(* ===== verification/Rate_Lib.thy ===== *)
theory Rate_Lib
  imports Netip
begin

text \<open>
  What the limiters share. \<open>rate_lib\<close> is the interface of the token buckets of
  \<open>golang.org/x/time/rate\<close>, which is not part of the repository: the definitions take it as an
  argument, and no property of its buckets is assumed. \<open>integer_buckets\<close> is one concrete
  instance (credit counted in nanoseconds), used where a theorem is applied to concrete inputs. The
  locale \<open>expiring_registry\<close> is the contract of a capacity-bounded registry whose entries expire
  and which keeps a lower bound of the next expiry, with the facts its clients need proved once.
\<close>

record ('b, 'l) rate_lib =
  Every :: "duration \<Rightarrow> 'l"
  NewLimiter :: "'l \<Rightarrow> int \<Rightarrow> 'b"
  AllowN :: "'b \<Rightarrow> time \<Rightarrow> int \<Rightarrow> bool \<times> 'b"
  SetLimitAt :: "'b \<Rightarrow> time \<Rightarrow> 'l \<Rightarrow> 'b"
  SetBurstAt :: "'b \<Rightarrow> time \<Rightarrow> int \<Rightarrow> 'b"

record integer_bucket =
  interval :: duration
  burst :: int
  credit :: int
  last_update :: time

definition refill :: "time \<Rightarrow> integer_bucket \<Rightarrow> integer_bucket" where
  "refill now b = b\<lparr>credit := min (burst b * interval b) (credit b + max 0 (now - last_update b)),
     last_update := max now (last_update b)\<rparr>"

definition integer_buckets :: "(integer_bucket, duration) rate_lib" where
  "integer_buckets =
     \<lparr>Every = id,
      NewLimiter = (\<lambda>l n. \<lparr>interval = l, burst = n, credit = n * l, last_update = 0\<rparr>),
      AllowN = (\<lambda>b now n. let r = refill now b in
         if n * interval r \<le> credit r
         then (True, r\<lparr>credit := credit r - n * interval r\<rparr>) else (False, r)),
      SetLimitAt = (\<lambda>b now l. let r = refill now b in r\<lparr>interval := l\<rparr>),
      SetBurstAt = (\<lambda>b now n. let r = refill now b in r\<lparr>burst := n\<rparr>)\<rparr>"

text \<open>A handler either answers the request itself or passes it on to the next handler.\<close>

datatype 'r outcome = Respond http_error | Next 'r

definition too_many_requests :: http_error where
  "too_many_requests =
     \<lparr>status = StatusTooManyRequests, message = ''rate limit exceeded'',
      set_headers = [(''Retry-After'', ''60'')]\<rparr>"

section \<open>Expiry bookkeeping\<close>

text \<open>
  Both registries lower the time of the next expiry check to the expiry of an entry just seen:
  \<open>recordPotentialExpiryLocked\<close>, and the same two lines inside the cleanup loops.
\<close>

definition recordPotentialExpiry :: "duration \<Rightarrow> time option \<Rightarrow> time \<Rightarrow> time option" where
  "recordPotentialExpiry ttl nextCheck lastSeen =
     (let entryExpiry = lastSeen + ttl in
      case nextCheck of
        None \<Rightarrow> Some entryExpiry
      | Some t \<Rightarrow> if entryExpiry < t then Some entryExpiry else Some t)"

definition bounds_expiry :: "time option \<Rightarrow> time \<Rightarrow> bool" where
  "bounds_expiry nextCheck expiry \<longleftrightarrow> (\<exists>t. nextCheck = Some t \<and> t \<le> expiry)"

lemma bounds_expiry_record:
  "bounds_expiry (recordPotentialExpiry ttl n lastSeen) x \<longleftrightarrow>
     bounds_expiry n x \<or> lastSeen + ttl \<le> x"
  by (cases n) (auto simp: bounds_expiry_def recordPotentialExpiry_def Let_def split: if_splits)

lemma bounds_expiry_record_self [simp]:
  "bounds_expiry (recordPotentialExpiry ttl n lastSeen) (lastSeen + ttl)"
  by (simp add: bounds_expiry_record)

lemma bounds_expiry_record_mono:
  "bounds_expiry n x \<Longrightarrow> bounds_expiry (recordPotentialExpiry ttl n lastSeen) x"
  by (simp add: bounds_expiry_record)

definition earliest_expiry :: "duration \<Rightarrow> time list \<Rightarrow> time option" where
  "earliest_expiry ttl seen = foldl (recordPotentialExpiry ttl) None seen"

lemma bounds_expiry_foldl:
  "bounds_expiry (foldl (recordPotentialExpiry ttl) n seen) x \<longleftrightarrow>
     bounds_expiry n x \<or> (\<exists>s \<in> set seen. s + ttl \<le> x)"
  by (induction seen arbitrary: n) (auto simp: bounds_expiry_record)

lemma earliest_expiry_bounds: "s \<in> set seen \<Longrightarrow> bounds_expiry (earliest_expiry ttl seen) (s + ttl)"
  by (auto simp: earliest_expiry_def bounds_expiry_foldl)

lemma earliest_expiry_map:
  "p \<in> set ps \<Longrightarrow> bounds_expiry (earliest_expiry ttl (map f ps)) (f p + ttl)"
  by (rule earliest_expiry_bounds) simp

section \<open>The registry contract\<close>

locale expiring_registry =
  fixes reg_entries :: "'s \<Rightarrow> ('k, 'e) gomap"
    and reg_capacity :: "'s \<Rightarrow> int"
    and reg_expiry :: "'s \<Rightarrow> 'e \<Rightarrow> time"
    and reg_next :: "'s \<Rightarrow> time option"
    and reg_inv :: "'s \<Rightarrow> bool"
    and reg_step :: "'op \<Rightarrow> 's \<Rightarrow> 's"
  assumes reg_inv_step: "reg_inv s \<Longrightarrow> reg_inv (reg_step x s)"
    and reg_capacity_step: "reg_inv s \<Longrightarrow> reg_capacity (reg_step x s) = reg_capacity s"
    and reg_within: "reg_inv s \<Longrightarrow> int (length (reg_entries s)) \<le> reg_capacity s"
    and reg_distinct: "reg_inv s \<Longrightarrow> map_ok (reg_entries s)"
    and reg_next_bound:
      "reg_inv s \<Longrightarrow> (k, e) \<in> set (reg_entries s) \<Longrightarrow> bounds_expiry (reg_next s) (reg_expiry s e)"
begin

lemma reg_run_inv: "reg_inv s \<Longrightarrow> reg_inv (fold reg_step xs s)"
  by (induction xs arbitrary: s) (auto intro: reg_inv_step)

lemma reg_run_capacity: "reg_inv s \<Longrightarrow> reg_capacity (fold reg_step xs s) = reg_capacity s"
  by (induction xs arbitrary: s) (simp_all add: reg_capacity_step reg_inv_step)

lemma reg_run_bounded:
  "reg_inv s \<Longrightarrow> int (length (reg_entries (fold reg_step xs s))) \<le> reg_capacity s"
  using reg_within [OF reg_run_inv] reg_run_capacity by metis

lemma reg_run_distinct: "reg_inv s \<Longrightarrow> map_ok (reg_entries (fold reg_step xs s))"
  by (rule reg_distinct [OF reg_run_inv])

text \<open>Before the time of the next check no entry has expired: skipping the scan loses nothing.\<close>

lemma reg_no_entry_expired_before_check:
  assumes "reg_inv s" and "reg_next s = None \<or> (\<exists>t. reg_next s = Some t \<and> now \<le> t)"
    and "(k, e) \<in> set (reg_entries s)"
  shows "now \<le> reg_expiry s e"
  using reg_next_bound [OF assms(1,3)] assms(2) by (auto simp: bounds_expiry_def)

end

end
