(* ===== verification/Client_IP.thy ===== *)
theory Client_IP
  imports Netip "HOL-Library.Multiset"
begin

text \<open>
  The client identity resolver, \<open>internal/ratelimit/client_ip.go\<close>: which address a request is
  rate limited under. Direct mode takes the connection's peer address; trusted-proxy mode first
  authenticates the peer against the configured prefixes and then requires forwarding headers that
  are single, bounded, parseable and in agreement. The theorems state that every address accepted is
  canonical, that direct mode does not read the headers, that no header of an untrusted peer is
  accepted, that the hop loop is the split-and-check specification, and that the result does not
  depend on the order in which Go iterates over the header map.
\<close>

section \<open>Configuration\<close>

datatype client_ip_error =
    ErrInvalidClientIPIdentity
  | ErrInvalidForwardedClientIPHeaders
  | ErrUntrustedClientIPPeer

type_synonym ClientIPMode = string

definition ClientIPModeDirect :: ClientIPMode where
  "ClientIPModeDirect = ''direct''"

definition ClientIPModeTrustedProxy :: ClientIPMode where
  "ClientIPModeTrustedProxy = ''trusted_proxy''"

record ClientIPResolverConfig =
  cfg_Mode :: ClientIPMode
  cfg_TrustedProxyPrefixes :: "Prefix list"
  cfg_MaximumRealIPHeaderBytes :: int
  cfg_MaximumForwardedForHeaderBytes :: int
  cfg_MaximumForwardedHops :: int

record ClientIPResolver =
  ipmode :: ClientIPMode
  trustedProxyPrefixes :: "Prefix list"
  maximumRealIPHeaderBytes :: int
  maximumForwardedForHeaderBytes :: int
  maximumForwardedHops :: int

definition defaultMaximumRealIPHeaderBytes :: int where
  "defaultMaximumRealIPHeaderBytes = 64"
definition defaultMaximumForwardedForHeaderBytes :: int where
  "defaultMaximumForwardedForHeaderBytes = 512"
definition defaultMaximumForwardedHops :: int where
  "defaultMaximumForwardedHops = 16"

definition NewClientIPResolverWithConfig :: "ClientIPResolverConfig \<Rightarrow> ClientIPResolver" where
  "NewClientIPResolverWithConfig config =
     \<lparr>ipmode = (if cfg_Mode config \<noteq> ClientIPModeTrustedProxy then ClientIPModeDirect
        else cfg_Mode config),
      trustedProxyPrefixes = cfg_TrustedProxyPrefixes config,
      maximumRealIPHeaderBytes =
        (if cfg_MaximumRealIPHeaderBytes config \<le> 0 then defaultMaximumRealIPHeaderBytes
         else cfg_MaximumRealIPHeaderBytes config),
      maximumForwardedForHeaderBytes =
        (if cfg_MaximumForwardedForHeaderBytes config \<le> 0
         then defaultMaximumForwardedForHeaderBytes
         else cfg_MaximumForwardedForHeaderBytes config),
      maximumForwardedHops =
        (if cfg_MaximumForwardedHops config \<le> 0 then defaultMaximumForwardedHops
         else cfg_MaximumForwardedHops config)\<rparr>"

definition NewClientIPResolver :: ClientIPResolver where
  "NewClientIPResolver = NewClientIPResolverWithConfig
     \<lparr>cfg_Mode = [], cfg_TrustedProxyPrefixes = [], cfg_MaximumRealIPHeaderBytes = 0,
      cfg_MaximumForwardedForHeaderBytes = 0, cfg_MaximumForwardedHops = 0\<rparr>"

section \<open>Parsing\<close>

definition parseRemoteAddress :: "string \<Rightarrow> client_ip_error + Addr" where
  "parseRemoteAddress remoteAddress =
     (let addressText = TrimSpace remoteAddress in
      if addressText = [] then Inl ErrInvalidClientIPIdentity
      else case ParseAddrPort addressText of
          Some (address, port) \<Rightarrow>
            if Zone address \<noteq> [] then Inl ErrInvalidClientIPIdentity else Inr (Unmap address)
        | None \<Rightarrow> (case ParseAddr addressText of
              None \<Rightarrow> Inl ErrInvalidClientIPIdentity
            | Some address \<Rightarrow>
                if Zone address \<noteq> [] then Inl ErrInvalidClientIPIdentity
                else Inr (Unmap address)))"

text \<open>
  \<open>readSingleHeaderValue\<close>: the loop over the header map, with \<open>found\<close> and \<open>value\<close> as its
  state. The result is the value and whether the header was present.
\<close>

fun readSingleHeaderValue_loop ::
  "Header \<Rightarrow> string \<Rightarrow> bool \<Rightarrow> string \<Rightarrow> client_ip_error + (string \<times> bool)" where
  "readSingleHeaderValue_loop [] targetName found val = Inr (val, found)"
| "readSingleHeaderValue_loop ((headerName, headerValues) # rest) targetName found val =
     (if \<not> EqualFold headerName targetName
      then readSingleHeaderValue_loop rest targetName found val
      else if found \<or> length headerValues \<noteq> 1 then Inl ErrInvalidForwardedClientIPHeaders
      else readSingleHeaderValue_loop rest targetName True (hd headerValues))"

definition readSingleHeaderValue :: "Header \<Rightarrow> string \<Rightarrow> client_ip_error + (string \<times> bool)" where
  "readSingleHeaderValue hdr targetName = readSingleHeaderValue_loop hdr targetName False []"

definition parseForwardedAddress :: "string \<Rightarrow> client_ip_error + Addr" where
  "parseForwardedAddress rawAddress =
     (let addressText = TrimSpace rawAddress in
      if addressText = [] then Inl ErrInvalidForwardedClientIPHeaders
      else
        let parsed =
          (case ParseAddr addressText of
             Some address \<Rightarrow> Some address
           | None \<Rightarrow> (case ParseAddrPort addressText of
                 Some (address, port) \<Rightarrow> Some address
               | None \<Rightarrow>
                   if HasPrefix addressText ''['' \<and> HasSuffix addressText '']'' then
                     ParseAddr (take (length addressText - 2) (drop 1 addressText))
                   else None))
        in case parsed of
            None \<Rightarrow> Inl ErrInvalidForwardedClientIPHeaders
          | Some address \<Rightarrow>
              if Zone address \<noteq> [] then Inl ErrInvalidForwardedClientIPHeaders
              else Inr (Unmap address))"

text \<open>
  The hop loop of \<open>parseForwardedForAddresses\<close>; the argument is what is left of the value from
  \<open>hopStart\<close> on.
\<close>

function parseForwardedFor_loop ::
  "int \<Rightarrow> int \<Rightarrow> Addr option \<Rightarrow> string \<Rightarrow> client_ip_error + Addr" where
  "parseForwardedFor_loop maximumHops hopCount firstAddress remainingValue =
     (let hopCount = hopCount + 1 in
      if maximumHops < hopCount then Inl ErrInvalidForwardedClientIPHeaders
      else
        let separatorOffset = IndexByte remainingValue (CHR '','');
            hop = (case separatorOffset of None \<Rightarrow> remainingValue
                     | Some off \<Rightarrow> take off remainingValue)
        in case parseForwardedAddress hop of
            Inl err \<Rightarrow> Inl err
          | Inr address \<Rightarrow>
              let firstAddress = (if hopCount = 1 then Some address else firstAddress) in
              case separatorOffset of
                None \<Rightarrow> (case firstAddress of Some a \<Rightarrow> Inr a
                          | None \<Rightarrow> Inl ErrInvalidForwardedClientIPHeaders)
              | Some off \<Rightarrow>
                  parseForwardedFor_loop maximumHops hopCount firstAddress
                    (drop (Suc off) remainingValue))"
  by pat_completeness auto
termination
  by (relation "measure (\<lambda>(m, h, f, s). length s)") (auto dest!: IndexByte_Some [OF sym])

declare parseForwardedFor_loop.simps [simp del]

definition parseForwardedForAddresses :: "string \<Rightarrow> int \<Rightarrow> client_ip_error + Addr" where
  "parseForwardedForAddresses val maximumHops =
     (if maximumHops \<le> 0 then Inl ErrInvalidForwardedClientIPHeaders
      else parseForwardedFor_loop maximumHops 0 None val)"

definition isTrustedProxy :: "ClientIPResolver \<Rightarrow> Addr \<Rightarrow> bool" where
  "isTrustedProxy resolver peerAddress =
     list_ex (\<lambda>trustedProxyPrefix. Contains trustedProxyPrefix peerAddress)
       (trustedProxyPrefixes resolver)"

section \<open>Resolution\<close>

text \<open>
  The part of \<open>ResolveAddress\<close> after the peer is trusted: the two headers, their bounds, their
  addresses and their agreement.
\<close>

definition resolveForwarded :: "ClientIPResolver \<Rightarrow> Header \<Rightarrow> client_ip_error + Addr" where
  "resolveForwarded resolver hdr =
     (case readSingleHeaderValue hdr ''X-Real-IP'' of
        Inl err \<Rightarrow> Inl err
      | Inr (realIPValue, hasRealIP) \<Rightarrow>
     (case readSingleHeaderValue hdr ''X-Forwarded-For'' of
        Inl err \<Rightarrow> Inl err
      | Inr (forwardedForValue, hasForwardedFor) \<Rightarrow>
     if \<not> hasRealIP \<and> \<not> hasForwardedFor then Inl ErrInvalidForwardedClientIPHeaders
     else if hasRealIP \<and> maximumRealIPHeaderBytes resolver < int (length realIPValue)
       then Inl ErrInvalidForwardedClientIPHeaders
     else
     (case (if hasRealIP then map_sum id Some (parseForwardedAddress realIPValue)
            else Inr None) of
        Inl err \<Rightarrow> Inl err
      | Inr realIPAddress \<Rightarrow>
     if hasForwardedFor \<and>
        maximumForwardedForHeaderBytes resolver < int (length forwardedForValue)
       then Inl ErrInvalidForwardedClientIPHeaders
     else
     (case (if hasForwardedFor
            then map_sum id Some
              (parseForwardedForAddresses forwardedForValue (maximumForwardedHops resolver))
            else Inr None) of
        Inl err \<Rightarrow> Inl err
      | Inr firstForwardedAddress \<Rightarrow>
     (case (realIPAddress, firstForwardedAddress) of
        (Some r, Some f) \<Rightarrow> if r \<noteq> f then Inl ErrInvalidForwardedClientIPHeaders else Inr r
      | (Some r, None) \<Rightarrow> Inr r
      | (None, Some f) \<Rightarrow> Inr f
      | (None, None) \<Rightarrow> Inl ErrInvalidForwardedClientIPHeaders)))))"

definition ResolveAddress ::
  "ClientIPResolver option \<Rightarrow> Request option \<Rightarrow> client_ip_error + Addr" where
  "ResolveAddress resolver request =
     (case request of
        None \<Rightarrow> Inl ErrInvalidClientIPIdentity
      | Some r \<Rightarrow>
        (case parseRemoteAddress (RemoteAddr r) of
           Inl err \<Rightarrow> Inl err
         | Inr peerAddress \<Rightarrow>
           (case resolver of
              None \<Rightarrow> Inr peerAddress
            | Some rs \<Rightarrow>
                if ipmode rs \<noteq> ClientIPModeTrustedProxy then Inr peerAddress
                else if \<not> isTrustedProxy rs peerAddress then Inl ErrUntrustedClientIPPeer
                else resolveForwarded rs (header r))))"

section \<open>Every accepted address is canonical\<close>

lemma parseRemoteAddress_canonical:
  "parseRemoteAddress s = Inr a \<Longrightarrow> canonical a"
  by (auto simp: parseRemoteAddress_def Let_def
      intro!: canonical_Unmap dest: ParseAddr_wf ParseAddrPort_wf split: if_splits option.splits)

lemma parseForwardedAddress_canonical:
  "parseForwardedAddress s = Inr a \<Longrightarrow> canonical a"
  by (auto simp: parseForwardedAddress_def Let_def
      intro!: canonical_Unmap dest: ParseAddr_wf ParseAddrPort_wf split: if_splits option.splits)

lemma parseForwardedFor_loop_canonical:
  "parseForwardedFor_loop m h first s = Inr a \<Longrightarrow> (\<And>f. first = Some f \<Longrightarrow> canonical f) \<Longrightarrow>
     canonical a"
proof (induction m h first s rule: parseForwardedFor_loop.induct)
  case (1 m h first s)
  note step = "1.prems"(1) [unfolded parseForwardedFor_loop.simps [of m h first s]]
  show ?case
    using step "1.prems"(2) "1.IH"
    by (auto simp: Let_def parseForwardedAddress_canonical
        split: if_splits sum.splits option.splits)
qed

lemma parseForwardedForAddresses_canonical:
  "parseForwardedForAddresses s m = Inr a \<Longrightarrow> canonical a"
  by (auto simp: parseForwardedForAddresses_def split: if_splits
      dest: parseForwardedFor_loop_canonical)

lemma map_sum_Some_eq_Inr: "map_sum id Some x = Inr y \<longleftrightarrow> (\<exists>z. x = Inr z \<and> y = Some z)"
  by (cases x) auto

lemma resolveForwarded_canonical: "resolveForwarded rs h = Inr a \<Longrightarrow> canonical a"
  by (auto simp: resolveForwarded_def map_sum_Some_eq_Inr
      dest: parseForwardedAddress_canonical parseForwardedForAddresses_canonical
      split: sum.splits prod.splits if_splits option.splits)

lemma ResolveAddress_canonical: "ResolveAddress rs r = Inr a \<Longrightarrow> canonical a"
  by (auto simp: ResolveAddress_def parseRemoteAddress_canonical resolveForwarded_canonical
      split: option.splits sum.splits if_splits)

section \<open>The hop loop and its specification\<close>

text \<open>
  The specification: split the value at the commas, refuse more than \<open>maximumHops\<close> hops,
  refuse any hop that does not parse, return the first.
\<close>

fun split_commas :: "string \<Rightarrow> string list" where
  "split_commas [] = [[]]"
| "split_commas (c # s) =
     (if c = CHR '','' then [] # split_commas s
      else (case split_commas s of [] \<Rightarrow> [[c]] | h # t \<Rightarrow> (c # h) # t))"

definition forwarded_spec :: "int \<Rightarrow> string list \<Rightarrow> client_ip_error + Addr" where
  "forwarded_spec maximumHops hops =
     (if hops = [] \<or> maximumHops < int (length hops) \<or>
         (\<exists>h \<in> set hops. \<exists>e. parseForwardedAddress h = Inl e)
      then Inl ErrInvalidForwardedClientIPHeaders
      else parseForwardedAddress (hd hops))"

lemma split_commas_not_Nil [simp]: "split_commas s \<noteq> []"
  by (cases s) (auto split: list.splits)

lemma split_commas_IndexByte:
  "split_commas s = (case IndexByte s (CHR '','') of
      None \<Rightarrow> [s] | Some i \<Rightarrow> take i s # split_commas (drop (Suc i) s))"
  by (induction s) (auto split: option.splits list.splits)

lemma parseForwardedAddress_err:
  "parseForwardedAddress s = Inl e \<Longrightarrow> e = ErrInvalidForwardedClientIPHeaders"
  by (auto simp: parseForwardedAddress_def Let_def split: if_splits option.splits)

definition forwarded_rest :: "int \<Rightarrow> int \<Rightarrow> Addr option \<Rightarrow> string list \<Rightarrow> client_ip_error + Addr" where
  "forwarded_rest m h first hops =
     (if m < h + int (length hops) \<or> (\<exists>x \<in> set hops. \<exists>e. parseForwardedAddress x = Inl e)
      then Inl ErrInvalidForwardedClientIPHeaders
      else if h = 0 then parseForwardedAddress (hd hops)
      else (case first of Some a \<Rightarrow> Inr a | None \<Rightarrow> Inl ErrInvalidForwardedClientIPHeaders))"

lemma parseForwardedFor_loop_rest:
  "0 \<le> h \<Longrightarrow> (0 < h \<Longrightarrow> first \<noteq> None) \<Longrightarrow>
     parseForwardedFor_loop m h first s = forwarded_rest m h first (split_commas s)"
proof (induction m h first s rule: parseForwardedFor_loop.induct)
  case (1 m h first s)
  show ?case
  proof (cases "IndexByte s (CHR '','')")
    case None
    then show ?thesis
      using "1.prems"
      by (auto simp: parseForwardedFor_loop.simps [of m h first s] split_commas_IndexByte [of s]
          forwarded_rest_def Let_def dest: parseForwardedAddress_err
          split: sum.splits option.splits)
  next
    case (Some off)
    note IH = "1.IH" [OF refl _ refl refl]
    let ?rest = "drop (Suc off) s"
    have len: "0 < int (length (split_commas ?rest))" by simp
    show ?thesis
    proof (cases "parseForwardedAddress (take off s)")
      case (Inl e)
      then show ?thesis
        using Some
        by (auto simp: parseForwardedFor_loop.simps [of m h first s] split_commas_IndexByte [of s]
            forwarded_rest_def Let_def dest: parseForwardedAddress_err)
    next
      case (Inr a)
      let ?first = "if h + 1 = 1 then Some a else first"
      have "m < h + 1 \<or> parseForwardedFor_loop m (h + 1) ?first ?rest =
          forwarded_rest m (h + 1) ?first (split_commas ?rest)"
        using "1.prems" IH [of a ?first off] Some Inr by (cases "m < h + 1") auto
      then show ?thesis
        using Some Inr "1.prems" len
        by (auto simp: parseForwardedFor_loop.simps [of m h first s] split_commas_IndexByte [of s]
            forwarded_rest_def Let_def split: option.splits)
    qed
  qed
qed

lemma parseForwardedForAddresses_spec:
  "parseForwardedForAddresses s m = forwarded_spec m (split_commas s)"
proof (cases "m \<le> 0")
  case True
  moreover have "0 < int (length (split_commas s))" by simp
  ultimately have "m < int (length (split_commas s))" by linarith
  with True show ?thesis
    by (simp add: parseForwardedForAddresses_def forwarded_spec_def)
next
  case False
  then show ?thesis
    using parseForwardedFor_loop_rest [of 0 None m s]
    by (simp add: parseForwardedForAddresses_def forwarded_spec_def forwarded_rest_def)
qed

section \<open>Header lookup does not depend on the iteration order\<close>

definition matching_values :: "Header \<Rightarrow> string \<Rightarrow> string list list" where
  "matching_values h name = map snd (filter (\<lambda>p. EqualFold (fst p) name) h)"

lemma readSingleHeaderValue_loop_eq:
  "readSingleHeaderValue_loop h name found v =
     (if found then (if matching_values h name = [] then Inr (v, True)
                     else Inl ErrInvalidForwardedClientIPHeaders)
      else (case matching_values h name of
          [] \<Rightarrow> Inr (v, False)
        | [[x]] \<Rightarrow> Inr (x, True)
        | _ \<Rightarrow> Inl ErrInvalidForwardedClientIPHeaders))"
  by (induction h name found v rule: readSingleHeaderValue_loop.induct)
    (auto simp: matching_values_def length_Suc_conv split: list.splits)

lemma readSingleHeaderValue_eq:
  "readSingleHeaderValue h name =
     (case matching_values h name of
        [] \<Rightarrow> Inr ([], False)
      | [[x]] \<Rightarrow> Inr (x, True)
      | _ \<Rightarrow> Inl ErrInvalidForwardedClientIPHeaders)"
  by (simp add: readSingleHeaderValue_def readSingleHeaderValue_loop_eq)

lemma matching_values_perm:
  "mset h = mset h' \<Longrightarrow> mset (matching_values h name) = mset (matching_values h' name)"
  by (simp add: matching_values_def mset_filter)

lemma single_list_case_perm:
  assumes "mset xs = mset ys"
  shows "(case xs of [] \<Rightarrow> a | [[x]] \<Rightarrow> f x | _ \<Rightarrow> b) = (case ys of [] \<Rightarrow> a | [[x]] \<Rightarrow> f x | _ \<Rightarrow> b)"
proof (cases "length xs \<le> 1")
  case True
  then have "xs = ys"
    using assms by (cases xs; cases ys) (auto dest: mset_eq_length)
  then show ?thesis by simp
next
  case False
  moreover have "length ys = length xs" using assms by (metis mset_eq_length)
  ultimately obtain x1 x2 xs' y1 y2 ys' where "xs = x1 # x2 # xs'" "ys = y1 # y2 # ys'"
    by (cases xs; cases "tl xs"; cases ys; cases "tl ys") auto
  then show ?thesis by (auto split: list.splits)
qed

lemma readSingleHeaderValue_perm:
  "mset h = mset h' \<Longrightarrow> readSingleHeaderValue h name = readSingleHeaderValue h' name"
  unfolding readSingleHeaderValue_eq by (rule single_list_case_perm [OF matching_values_perm])

lemma resolveForwarded_perm:
  "mset h = mset h' \<Longrightarrow> resolveForwarded rs h = resolveForwarded rs h'"
  by (simp only: resolveForwarded_def readSingleHeaderValue_perm [of h h'])

section \<open>Properties\<close>

text \<open>
  The hop loop of \<open>parseForwardedForAddresses\<close> computes its specification: split the
  \<open>X-Forwarded-For\<close> value at the commas, refuse more hops than the bound and any hop that is not an
  address, otherwise return the first one.
\<close>

theorem forwarded_for_matches_spec:
  "parseForwardedForAddresses s maximumHops = forwarded_spec maximumHops (split_commas s)"
  by (rule parseForwardedForAddresses_spec)

text \<open>
  A resolver built for any mode other than trusted-proxy never reads a forwarding header: the
  identity is a function of the connection's remote address alone.
\<close>

theorem direct_mode_ignores_headers:
  assumes "cfg_Mode config \<noteq> ClientIPModeTrustedProxy"
  shows "ResolveAddress (Some (NewClientIPResolverWithConfig config)) (Some r) =
    parseRemoteAddress (RemoteAddr r)"
  using assms by (auto simp: ResolveAddress_def NewClientIPResolverWithConfig_def
      ClientIPModeDirect_def ClientIPModeTrustedProxy_def split: sum.split)

theorem direct_mode_ignores_headers_witness:
  "ResolveAddress (Some NewClientIPResolver)
     (Some \<lparr>RemoteAddr = ''10.0.0.7:443'', header = [(''X-Real-Ip'', [''1.2.3.4''])]\<rparr>) =
   Inr (V4 [10, 0, 0, 7])"
proof -
  have "parseRemoteAddress ''10.0.0.7:443'' = Inr (V4 [10, 0, 0, 7])" by code_simp
  then show ?thesis unfolding NewClientIPResolver_def
    by (subst direct_mode_ignores_headers) (simp_all add: ClientIPModeTrustedProxy_def)
qed

text \<open>
  (C25) Trusted-proxy mode accepts an identity only from a peer inside a configured prefix, only with
  at least one forwarding header, each present at most once; the address is canonical, it is the one
  \<open>X-Real-IP\<close> names when that header is present, and the first \<open>X-Forwarded-For\<close> hop otherwise
  (with both present they agree).
\<close>

theorem trusted_proxy_sound:
  assumes "ipmode rs = ClientIPModeTrustedProxy"
    and "ResolveAddress (Some rs) (Some r) = Inr a"
  shows "\<exists>peer rv hr fv hf.
    parseRemoteAddress (RemoteAddr r) = Inr peer \<and>
    (\<exists>p \<in> set (trustedProxyPrefixes rs). Contains p peer) \<and>
    readSingleHeaderValue (header r) ''X-Real-IP'' = Inr (rv, hr) \<and>
    readSingleHeaderValue (header r) ''X-Forwarded-For'' = Inr (fv, hf) \<and>
    (hr \<or> hf) \<and> canonical a \<and>
    (hr \<longrightarrow> parseForwardedAddress rv = Inr a \<and> int (length rv) \<le> maximumRealIPHeaderBytes rs) \<and>
    (hf \<longrightarrow> forwarded_spec (maximumForwardedHops rs) (split_commas fv) = Inr a \<and>
       int (length fv) \<le> maximumForwardedForHeaderBytes rs)"
proof -
  obtain peer where peer: "parseRemoteAddress (RemoteAddr r) = Inr peer"
    and trusted: "isTrustedProxy rs peer" and fwd: "resolveForwarded rs (header r) = Inr a"
    using assms by (auto simp: ResolveAddress_def split: sum.splits if_splits)
  obtain rv hr fv hf where
      hdrs: "readSingleHeaderValue (header r) ''X-Real-IP'' = Inr (rv, hr)"
        "readSingleHeaderValue (header r) ''X-Forwarded-For'' = Inr (fv, hf)"
    and some: "hr \<or> hf"
    and real: "hr \<longrightarrow> parseForwardedAddress rv = Inr a \<and> int (length rv) \<le> maximumRealIPHeaderBytes rs"
    and first: "hf \<longrightarrow> parseForwardedForAddresses fv (maximumForwardedHops rs) = Inr a \<and>
       int (length fv) \<le> maximumForwardedForHeaderBytes rs"
    using fwd
    by (auto simp: resolveForwarded_def map_sum_Some_eq_Inr
        split: sum.splits prod.splits if_splits option.splits)
  have "\<exists>p \<in> set (trustedProxyPrefixes rs). Contains p peer"
    using trusted by (auto simp: isTrustedProxy_def list_ex_iff)
  with peer hdrs some real first resolveForwarded_canonical [OF fwd] show ?thesis
    unfolding parseForwardedForAddresses_spec by blast
qed

definition demo_proxy_resolver :: ClientIPResolver where
  "demo_proxy_resolver = NewClientIPResolverWithConfig
     \<lparr>cfg_Mode = ''trusted_proxy'',
      cfg_TrustedProxyPrefixes = [\<lparr>prefix_addr = V4 [10, 0, 0, 0], prefix_bits = 8\<rparr>],
      cfg_MaximumRealIPHeaderBytes = 0, cfg_MaximumForwardedForHeaderBytes = 0,
      cfg_MaximumForwardedHops = 0\<rparr>"

definition demo_proxy_request :: Request where
  "demo_proxy_request = \<lparr>RemoteAddr = ''10.0.0.7:443'',
     header = [(''X-Real-Ip'', [''1.2.3.4'']), (''X-Forwarded-For'', [''1.2.3.4, 10.0.0.9''])]\<rparr>"

lemma demo_proxy_mode: "ipmode demo_proxy_resolver = ClientIPModeTrustedProxy"
  by code_simp

lemma demo_proxy_resolves:
  "ResolveAddress (Some demo_proxy_resolver) (Some demo_proxy_request) = Inr (V4 [1, 2, 3, 4])"
  by code_simp

theorem trusted_proxy_sound_witness:
  "\<exists>peer. parseRemoteAddress (RemoteAddr demo_proxy_request) = Inr peer \<and>
     (\<exists>p \<in> set (trustedProxyPrefixes demo_proxy_resolver). Contains p peer)"
  using trusted_proxy_sound [OF demo_proxy_mode demo_proxy_resolves] by blast

text \<open>
  The resolved identity does not depend on the order in which Go iterates over the header map.
\<close>

theorem resolution_order_independent:
  assumes "mset (header r) = mset h'"
  shows "ResolveAddress rs (Some r) = ResolveAddress rs (Some (r\<lparr>header := h'\<rparr>))"
  unfolding ResolveAddress_def using resolveForwarded_perm [OF assms]
  by (auto split: option.split sum.split)

theorem resolution_order_independent_witness:
  "ResolveAddress (Some demo_proxy_resolver)
     (Some (demo_proxy_request\<lparr>header := rev (header demo_proxy_request)\<rparr>)) = Inr (V4 [1, 2, 3, 4])"
  using resolution_order_independent [of demo_proxy_request "rev (header demo_proxy_request)"
      "Some demo_proxy_resolver"] demo_proxy_resolves
  by simp

end
