(* ===== verification/IP_Limiter.thy ===== *)
theory IP_Limiter
  imports Rate_Lib Client_IP
begin

text \<open>
  The sharded per-address limiter, \<open>internal/ratelimit/ip_limiter.go\<close>: shards of bounded
  capacity, dedicated token buckets with an idle time-to-live, shared fallback buckets for
  addresses that find their shard full, incremental cleanup, and the middleware that resolves the
  client address and rejects over-limit requests. \<open>allowAt\<close> is one critical section together with
  the bucket call after it. \<open>ip_inv\<close> is the invariant every operation keeps: capacity, placement
  of addresses, the entry counter and the lower bound on the next expiry.
\<close>

section \<open>State\<close>

record 'b ipEntry =
  ip_limiter :: 'b
  ip_lastSeen :: time

record 'b ipLimiterShard =
  sh_entries :: "(Addr, 'b ipEntry) gomap"
  sh_fallbackLimiters :: "'b list"
  sh_maximumEntries :: int
  sh_highWatermark :: int
  sh_nextExpiryCheck :: "time option"

record IPLimiterConfig =
  ipc_RequestsPerMinute :: int
  ipc_ClientIPResolver :: "ClientIPResolver option"
  ipc_ShardCount :: int
  ipc_EntryIdleTTL :: duration
  ipc_CleanupInterval :: duration
  ipc_CleanupShardBatchSize :: int
  ipc_MaximumEntriesPerShard :: int
  ipc_FallbackBucketsPerShard :: int

text \<open>\<open>ip_fallbackHash\<close> is \<open>maphash.Bytes\<close> under the limiter's random seed.\<close>

record 'b IPLimiter =
  ip_requestsPerMinute :: int
  ip_clientIPResolver :: ClientIPResolver
  ip_shards :: "'b ipLimiterShard list"
  ip_entryIdleTTL :: duration
  ip_cleanupInterval :: duration
  ip_cleanupShardBatchSize :: nat
  ip_cleanupCursor :: nat
  ip_fallbackHash :: "byte list \<Rightarrow> 64 word"
  ip_currentEntries :: int
  ip_dedicatedAdmissions :: "64 word"
  ip_expiredEntriesRemoved :: "64 word"
  ip_fallbackRequests :: "64 word"
  ip_fallbackRejections :: "64 word"

record IPLimiterMetricsSnapshot =
  ipm_CurrentEntries :: int
  ipm_MaximumEntries :: int
  ipm_FallbackBucketCount :: int
  ipm_DedicatedAdmissions :: "64 word"
  ipm_ExpiredEntriesRemoved :: "64 word"
  ipm_FallbackRequests :: "64 word"
  ipm_FallbackRejections :: "64 word"

definition minimumShardHighWatermarkForRebuild :: int where
  "minimumShardHighWatermarkForRebuild = 256"
definition shardHighWatermarkRebuildDivisor :: int where
  "shardHighWatermarkRebuildDivisor = 4"

definition positive_or :: "int \<Rightarrow> int \<Rightarrow> int" where
  "positive_or v d = (if v \<le> 0 then d else v)"

definition newTokenBucket :: "('b, 'l) rate_lib \<Rightarrow> int \<Rightarrow> 'b" where
  "newTokenBucket lib requestsPerMinute =
     NewLimiter lib (Every lib (Minute div requestsPerMinute)) requestsPerMinute"

definition NewIPLimiterWithConfig ::
  "('b, 'l) rate_lib \<Rightarrow> (byte list \<Rightarrow> 64 word) \<Rightarrow> IPLimiterConfig \<Rightarrow> 'b IPLimiter" where
  "NewIPLimiterWithConfig lib seededHash config =
     (let requestsPerMinute = positive_or (ipc_RequestsPerMinute config) 60;
          resolver = (case ipc_ClientIPResolver config of None \<Rightarrow> NewClientIPResolver | Some r \<Rightarrow> r);
          shardCount = positive_or (ipc_ShardCount config) 64;
          entryIdleTTL = positive_or (ipc_EntryIdleTTL config) (5 * Minute);
          cleanupInterval = positive_or (ipc_CleanupInterval config) (10 * Second);
          batch = min (positive_or (ipc_CleanupShardBatchSize config) 4) shardCount;
          maximumEntries = min (positive_or (ipc_MaximumEntriesPerShard config) 2048) 65536;
          fallbacks = min (positive_or (ipc_FallbackBucketsPerShard config) 16) 1024
      in \<lparr>ip_requestsPerMinute = requestsPerMinute, ip_clientIPResolver = resolver,
          ip_shards = replicate (nat shardCount)
            \<lparr>sh_entries = [],
             sh_fallbackLimiters = replicate (nat fallbacks) (newTokenBucket lib requestsPerMinute),
             sh_maximumEntries = maximumEntries, sh_highWatermark = 0,
             sh_nextExpiryCheck = None\<rparr>,
          ip_entryIdleTTL = entryIdleTTL, ip_cleanupInterval = cleanupInterval,
          ip_cleanupShardBatchSize = nat batch, ip_cleanupCursor = 0,
          ip_fallbackHash = seededHash, ip_currentEntries = 0, ip_dedicatedAdmissions = 0,
          ip_expiredEntriesRemoved = 0, ip_fallbackRequests = 0, ip_fallbackRejections = 0\<rparr>)"

section \<open>Hashing\<close>

definition fnv_step :: "64 word \<Rightarrow> byte \<Rightarrow> 64 word" where
  "fnv_step hash b = (xor hash (ucast b)) * 1099511628211"

definition shardIndexFor :: "nat \<Rightarrow> Addr \<Rightarrow> nat" where
  "shardIndexFor shardCount clientAddress =
     unat (foldl fnv_step 1469598103934665603 (As16 clientAddress) mod of_nat shardCount)"

definition fallbackBucketIndexFor :: "(byte list \<Rightarrow> 64 word) \<Rightarrow> Addr \<Rightarrow> nat \<Rightarrow> nat" where
  "fallbackBucketIndexFor seededHash clientAddress fallbackBucketCount =
     unat (seededHash (As16 clientAddress) mod of_nat fallbackBucketCount)"

section \<open>Cleanup\<close>

definition ip_expired :: "duration \<Rightarrow> time \<Rightarrow> 'b ipEntry \<Rightarrow> bool" where
  "ip_expired ttl now entry \<longleftrightarrow> ip_lastSeen entry < now - ttl"

text \<open>
  \<open>cleanupShardLocked\<close>: drop the expired entries, recompute the next check from the rest, count
  what was removed, and rebuild the map when it shrank far below its high watermark.
\<close>

definition cleanupShardLocked ::
  "duration \<Rightarrow> time \<Rightarrow> 'b ipLimiterShard \<Rightarrow> 'b ipLimiterShard \<times> nat" where
  "cleanupShardLocked ttl now shard =
     (let kept = filter (\<lambda>p. \<not> ip_expired ttl now (snd p)) (sh_entries shard);
          removedEntryCount = length (sh_entries shard) - length kept;
          shard' = shard\<lparr>sh_entries := kept,
            sh_nextExpiryCheck := earliest_expiry ttl (map (\<lambda>p. ip_lastSeen (snd p)) kept)\<rparr>;
          shouldRebuild = (minimumShardHighWatermarkForRebuild \<le> sh_highWatermark shard \<and>
            int (length kept) \<le> sh_highWatermark shard div shardHighWatermarkRebuildDivisor)
      in (if shouldRebuild then shard'\<lparr>sh_highWatermark := int (length kept)\<rparr> else shard',
          removedEntryCount))"

definition cleanupShard :: "nat \<Rightarrow> time \<Rightarrow> 'b IPLimiter \<Rightarrow> 'b IPLimiter" where
  "cleanupShard shardIndex now limiter =
     (let (shard, removed) =
        cleanupShardLocked (ip_entryIdleTTL limiter) now (ip_shards limiter ! shardIndex)
      in limiter\<lparr>ip_shards := (ip_shards limiter)[shardIndex := shard],
           ip_currentEntries := ip_currentEntries limiter - int removed,
           ip_expiredEntriesRemoved := ip_expiredEntriesRemoved limiter + of_nat removed\<rparr>)"

fun cleanup_batch :: "nat \<Rightarrow> time \<Rightarrow> 'b IPLimiter \<Rightarrow> 'b IPLimiter" where
  "cleanup_batch 0 now limiter = limiter"
| "cleanup_batch (Suc n) now limiter =
     (let limiter' = cleanupShard (ip_cleanupCursor limiter) now limiter
      in cleanup_batch n now
           (limiter'\<lparr>ip_cleanupCursor :=
              (ip_cleanupCursor limiter' + 1) mod length (ip_shards limiter')\<rparr>))"

definition cleanupNextShards :: "time \<Rightarrow> 'b IPLimiter \<Rightarrow> 'b IPLimiter" where
  "cleanupNextShards now limiter = cleanup_batch (ip_cleanupShardBatchSize limiter) now limiter"

section \<open>Admission\<close>

definition allowAt ::
  "('b, 'l) rate_lib \<Rightarrow> Addr \<Rightarrow> time \<Rightarrow> 'b IPLimiter \<Rightarrow> bool \<times> 'b IPLimiter" where
  "allowAt lib clientAddress now limiter =
     (let i = shardIndexFor (length (ip_shards limiter)) clientAddress;
          shard = ip_shards limiter ! i;
          ttl = ip_entryIdleTTL limiter
      in case lookup (sh_entries shard) clientAddress of
        Some entry \<Rightarrow>
          (let (allowed, bucket) = AllowN lib (ip_limiter entry) now 1;
               entry' = entry\<lparr>ip_lastSeen := now, ip_limiter := bucket\<rparr>;
               shard' = shard\<lparr>sh_entries := AList.update clientAddress entry' (sh_entries shard),
                 sh_nextExpiryCheck := recordPotentialExpiry ttl (sh_nextExpiryCheck shard) now\<rparr>
           in (allowed, limiter\<lparr>ip_shards := (ip_shards limiter)[i := shard']\<rparr>))
      | None \<Rightarrow>
          (let shouldCheckForExpiredEntries =
                 (case sh_nextExpiryCheck shard of None \<Rightarrow> True | Some t \<Rightarrow> t < now);
               limiter1 =
                 (if sh_maximumEntries shard \<le> int (length (sh_entries shard)) \<and>
                     shouldCheckForExpiredEntries
                  then cleanupShard i now limiter else limiter);
               shard1 = ip_shards limiter1 ! i
           in if int (length (sh_entries shard1)) < sh_maximumEntries shard1 then
                (let (allowed, bucket) =
                       AllowN lib (newTokenBucket lib (ip_requestsPerMinute limiter1)) now 1;
                     entries' = AList.update clientAddress
                       \<lparr>ip_limiter = bucket, ip_lastSeen = now\<rparr> (sh_entries shard1);
                     shard' = shard1\<lparr>sh_entries := entries',
                       sh_nextExpiryCheck :=
                         recordPotentialExpiry ttl (sh_nextExpiryCheck shard1) now,
                       sh_highWatermark := max (sh_highWatermark shard1) (int (length entries'))\<rparr>
                 in (allowed, limiter1\<lparr>ip_shards := (ip_shards limiter1)[i := shard'],
                      ip_currentEntries := ip_currentEntries limiter1 + 1,
                      ip_dedicatedAdmissions := ip_dedicatedAdmissions limiter1 + 1\<rparr>))
              else
                (let fallbackIndex = fallbackBucketIndexFor (ip_fallbackHash limiter1)
                       clientAddress (length (sh_fallbackLimiters shard1));
                     (allowed, bucket) =
                       AllowN lib (sh_fallbackLimiters shard1 ! fallbackIndex) now 1;
                     shard' = shard1\<lparr>sh_fallbackLimiters :=
                       (sh_fallbackLimiters shard1)[fallbackIndex := bucket]\<rparr>
                 in (allowed, limiter1\<lparr>ip_shards := (ip_shards limiter1)[i := shard'],
                      ip_fallbackRequests := ip_fallbackRequests limiter1 + 1,
                      ip_fallbackRejections :=
                        ip_fallbackRejections limiter1 + (if allowed then 0 else 1)\<rparr>))))"

definition ip_Metrics :: "'b IPLimiter option \<Rightarrow> IPLimiterMetricsSnapshot" where
  "ip_Metrics limiter =
     (case limiter of
        None \<Rightarrow> \<lparr>ipm_CurrentEntries = 0, ipm_MaximumEntries = 0, ipm_FallbackBucketCount = 0,
           ipm_DedicatedAdmissions = 0, ipm_ExpiredEntriesRemoved = 0, ipm_FallbackRequests = 0,
           ipm_FallbackRejections = 0\<rparr>
      | Some l \<Rightarrow>
         (let shardCount = int (length (ip_shards l));
              maximumEntriesPerShard =
                (case ip_shards l of [] \<Rightarrow> 0 | s # _ \<Rightarrow> sh_maximumEntries s);
              fallbackBucketsPerShard =
                (case ip_shards l of [] \<Rightarrow> 0 | s # _ \<Rightarrow> int (length (sh_fallbackLimiters s)))
          in \<lparr>ipm_CurrentEntries = ip_currentEntries l,
              ipm_MaximumEntries = shardCount * maximumEntriesPerShard,
              ipm_FallbackBucketCount = shardCount * fallbackBucketsPerShard,
              ipm_DedicatedAdmissions = ip_dedicatedAdmissions l,
              ipm_ExpiredEntriesRemoved = ip_expiredEntriesRemoved l,
              ipm_FallbackRequests = ip_fallbackRequests l,
              ipm_FallbackRejections = ip_fallbackRejections l\<rparr>))"

definition ip_Middleware ::
  "('b, 'l) rate_lib \<Rightarrow> time \<Rightarrow> Request \<Rightarrow> 'b IPLimiter \<Rightarrow> Request outcome \<times> 'b IPLimiter" where
  "ip_Middleware lib now r limiter =
     (case ResolveAddress (Some (ip_clientIPResolver limiter)) (Some r) of
        Inl err \<Rightarrow>
          (Respond (if err = ErrUntrustedClientIPPeer
             then http_Error StatusForbidden ''untrusted client IP peer''
             else http_Error StatusBadRequest ''invalid client IP identity''), limiter)
      | Inr clientAddress \<Rightarrow>
          (let (allowed, limiter') = allowAt lib clientAddress now limiter
           in (if allowed then Next r else Respond too_many_requests, limiter')))"

section \<open>The invariant\<close>

definition shard_inv :: "duration \<Rightarrow> nat \<Rightarrow> nat \<Rightarrow> 'b ipLimiterShard \<Rightarrow> bool" where
  "shard_inv ttl n i sh \<longleftrightarrow>
     map_ok (sh_entries sh) \<and>
     0 < sh_maximumEntries sh \<and>
     int (length (sh_entries sh)) \<le> sh_maximumEntries sh \<and>
     int (length (sh_entries sh)) \<le> sh_highWatermark sh \<and>
     0 < length (sh_fallbackLimiters sh) \<and> length (sh_fallbackLimiters sh) < 2 ^ 64 \<and>
     (\<forall>p \<in> set (sh_entries sh).
        bounds_expiry (sh_nextExpiryCheck sh) (ip_lastSeen (snd p) + ttl) \<and>
        shardIndexFor n (fst p) = i)"

definition ip_inv :: "'b IPLimiter \<Rightarrow> bool" where
  "ip_inv l \<longleftrightarrow>
     0 < length (ip_shards l) \<and> length (ip_shards l) < 2 ^ 64 \<and>
     ip_cleanupCursor l < length (ip_shards l) \<and>
     0 < ip_requestsPerMinute l \<and>
     (\<forall>i < length (ip_shards l).
        shard_inv (ip_entryIdleTTL l) (length (ip_shards l)) i (ip_shards l ! i)) \<and>
     ip_currentEntries l = (\<Sum>sh\<leftarrow>ip_shards l. int (length (sh_entries sh)))"

lemma shardIndexFor_less: "ip_inv l \<Longrightarrow> shardIndexFor (length (ip_shards l)) a < length (ip_shards l)"
  unfolding shardIndexFor_def ip_inv_def by (intro unat_mod_of_nat_less) auto

lemma fallbackIndex_less:
  "shard_inv ttl n i sh \<Longrightarrow>
     fallbackBucketIndexFor h a (length (sh_fallbackLimiters sh)) < length (sh_fallbackLimiters sh)"
  unfolding fallbackBucketIndexFor_def shard_inv_def by (intro unat_mod_of_nat_less) auto

lemma ip_inv_shard:
  "ip_inv l \<Longrightarrow> i < length (ip_shards l) \<Longrightarrow>
     shard_inv (ip_entryIdleTTL l) (length (ip_shards l)) i (ip_shards l ! i)"
  by (simp add: ip_inv_def)

text \<open>An operation that replaces one shard and accounts for its entries keeps the invariant.\<close>

lemma ip_inv_replace_shard:
  assumes "ip_inv l" and "i < length (ip_shards l)"
    and "shard_inv (ip_entryIdleTTL l) (length (ip_shards l)) i sh"
    and "ip_shards l' = (ip_shards l)[i := sh]"
    and "ip_entryIdleTTL l' = ip_entryIdleTTL l"
    and "ip_requestsPerMinute l' = ip_requestsPerMinute l"
    and "ip_cleanupCursor l' = ip_cleanupCursor l"
    and "ip_currentEntries l' = ip_currentEntries l + int (length (sh_entries sh)) -
           int (length (sh_entries (ip_shards l ! i)))"
  shows "ip_inv l'"
  using assms by (auto simp: ip_inv_def nth_list_update sum_list_map_update)

lemma cleanupShardLocked_inv:
  assumes "shard_inv ttl n i sh"
  shows "shard_inv ttl n i (fst (cleanupShardLocked ttl now sh))"
proof -
  let ?kept = "filter (\<lambda>p. \<not> ip_expired ttl now (snd p)) (sh_entries sh)"
  have le: "int (length ?kept) \<le> int (length (sh_entries sh))" by simp
  have "bounds_expiry (earliest_expiry ttl (map (\<lambda>p. ip_lastSeen (snd p)) ?kept))
      (ip_lastSeen (snd p) + ttl)" if "p \<in> set ?kept" for p
    using earliest_expiry_map [OF that, of ttl "\<lambda>p. ip_lastSeen (snd p)"] .
  then show ?thesis
    using assms le order_trans [OF le]
    by (simp add: shard_inv_def cleanupShardLocked_def Let_def)
qed

lemma cleanupShardLocked_count:
  "int (snd (cleanupShardLocked ttl now sh)) =
     int (length (sh_entries sh)) - int (length (sh_entries (fst (cleanupShardLocked ttl now sh))))"
  using length_filter_le [of "\<lambda>p. \<not> ip_expired ttl now (snd p)" "sh_entries sh"]
  by (auto simp: cleanupShardLocked_def Let_def)

lemma cleanupShard_simps [simp]:
  "ip_shards (cleanupShard i now l) = (ip_shards l)
     [i := fst (cleanupShardLocked (ip_entryIdleTTL l) now (ip_shards l ! i))]"
  "ip_entryIdleTTL (cleanupShard i now l) = ip_entryIdleTTL l"
  "ip_requestsPerMinute (cleanupShard i now l) = ip_requestsPerMinute l"
  "ip_cleanupCursor (cleanupShard i now l) = ip_cleanupCursor l"
  "ip_fallbackHash (cleanupShard i now l) = ip_fallbackHash l"
  "ip_clientIPResolver (cleanupShard i now l) = ip_clientIPResolver l"
  by (simp_all add: cleanupShard_def split_def Let_def)

lemma cleanupShard_currentEntries:
  "ip_currentEntries (cleanupShard i now l) = ip_currentEntries l -
     int (snd (cleanupShardLocked (ip_entryIdleTTL l) now (ip_shards l ! i)))"
  by (simp add: cleanupShard_def split_def Let_def)

lemma cleanupShard_inv: "ip_inv l \<Longrightarrow> i < length (ip_shards l) \<Longrightarrow> ip_inv (cleanupShard i now l)"
  by (rule ip_inv_replace_shard [where i = i and l = l and
        sh = "fst (cleanupShardLocked (ip_entryIdleTTL l) now (ip_shards l ! i))"])
    (simp_all add: cleanupShardLocked_inv ip_inv_shard cleanupShard_currentEntries
      cleanupShardLocked_count)

lemma cleanup_batch_inv: "ip_inv l \<Longrightarrow> ip_inv (cleanup_batch n now l)"
proof (induction n arbitrary: l)
  case (Suc n)
  let ?l = "cleanupShard (ip_cleanupCursor l) now l"
  have "ip_inv ?l" using Suc.prems by (intro cleanupShard_inv) (auto simp: ip_inv_def)
  then have "ip_inv (?l\<lparr>ip_cleanupCursor := (ip_cleanupCursor ?l + 1) mod length (ip_shards ?l)\<rparr>)"
    by (simp add: ip_inv_def)
  then show ?case using Suc.IH by (simp add: Let_def)
qed simp

lemma cleanupNextShards_inv: "ip_inv l \<Longrightarrow> ip_inv (cleanupNextShards now l)"
  by (simp add: cleanupNextShards_def cleanup_batch_inv)

text \<open>What cleanup leaves: exactly the entries that have not expired, so a full shard stays full.\<close>

lemma cleanupShardLocked_entries [simp]:
  "sh_entries (fst (cleanupShardLocked ttl now sh)) =
     filter (\<lambda>p. \<not> ip_expired ttl now (snd p)) (sh_entries sh)"
  by (simp add: cleanupShardLocked_def Let_def)

lemma cleanupShardLocked_other [simp]:
  "sh_fallbackLimiters (fst (cleanupShardLocked ttl now sh)) = sh_fallbackLimiters sh"
  "sh_maximumEntries (fst (cleanupShardLocked ttl now sh)) = sh_maximumEntries sh"
  by (simp_all add: cleanupShardLocked_def Let_def)

section \<open>Admission keeps the invariant\<close>

text \<open>
  \<open>ip_prepared\<close> is the limiter after the optional synchronous cleanup of \<open>allowAt\<close>; the lemmas
  below name its three branches: an address with a dedicated entry, a new entry, a fallback bucket.
\<close>

definition ip_index :: "'b IPLimiter \<Rightarrow> Addr \<Rightarrow> nat" where
  "ip_index l a = shardIndexFor (length (ip_shards l)) a"

definition ip_shard_of :: "'b IPLimiter \<Rightarrow> Addr \<Rightarrow> 'b ipLimiterShard" where
  "ip_shard_of l a = ip_shards l ! ip_index l a"

definition ip_entry_of :: "'b IPLimiter \<Rightarrow> Addr \<Rightarrow> 'b ipEntry option" where
  "ip_entry_of l a = lookup (sh_entries (ip_shard_of l a)) a"

definition ip_prepared :: "Addr \<Rightarrow> time \<Rightarrow> 'b IPLimiter \<Rightarrow> 'b IPLimiter" where
  "ip_prepared a now l =
     (let sh = ip_shard_of l a in
      if sh_maximumEntries sh \<le> int (length (sh_entries sh)) \<and>
         (case sh_nextExpiryCheck sh of None \<Rightarrow> True | Some t \<Rightarrow> t < now)
      then cleanupShard (ip_index l a) now l else l)"

lemmas ip_view_defs = ip_index_def ip_shard_of_def ip_entry_of_def

lemma ip_index_less: "ip_inv l \<Longrightarrow> ip_index l a < length (ip_shards l)"
  by (simp add: ip_index_def shardIndexFor_less)

lemma ip_shard_of_inv:
  "ip_inv l \<Longrightarrow> shard_inv (ip_entryIdleTTL l) (length (ip_shards l)) (ip_index l a) (ip_shard_of l a)"
  by (simp add: ip_shard_of_def ip_inv_shard ip_index_less)

lemma ip_prepared_simps [simp]:
  "length (ip_shards (ip_prepared a now l)) = length (ip_shards l)"
  "ip_index (ip_prepared a now l) b = ip_index l b"
  "ip_entryIdleTTL (ip_prepared a now l) = ip_entryIdleTTL l"
  "ip_requestsPerMinute (ip_prepared a now l) = ip_requestsPerMinute l"
  "ip_cleanupCursor (ip_prepared a now l) = ip_cleanupCursor l"
  by (simp_all add: ip_prepared_def ip_index_def Let_def)

lemma ip_prepared_inv: "ip_inv l \<Longrightarrow> ip_inv (ip_prepared a now l)"
  by (simp add: ip_prepared_def Let_def cleanupShard_inv ip_index_less)

lemma ip_prepared_entries:
  "ip_inv l \<Longrightarrow> sh_entries (ip_shard_of (ip_prepared a now l) a) = sh_entries (ip_shard_of l a) \<or>
     sh_entries (ip_shard_of (ip_prepared a now l) a) =
       filter (\<lambda>p. \<not> ip_expired (ip_entryIdleTTL l) now (snd p)) (sh_entries (ip_shard_of l a))"
  using ip_index_less [of l a]
  by (auto simp: ip_prepared_def ip_shard_of_def ip_index_def Let_def)

lemma ip_prepared_absent:
  "ip_inv l \<Longrightarrow> ip_entry_of l a = None \<Longrightarrow> ip_entry_of (ip_prepared a now l) a = None"
  using ip_prepared_entries [of l a now] ip_shard_of_inv [of l a]
  by (auto simp: ip_entry_of_def amap shard_inv_def)

definition ip_hit :: "('b, 'l) rate_lib \<Rightarrow> Addr \<Rightarrow> time \<Rightarrow> 'b ipEntry \<Rightarrow> 'b ipLimiterShard \<Rightarrow>
    duration \<Rightarrow> 'b ipLimiterShard" where
  "ip_hit lib a now e sh ttl = sh\<lparr>
     sh_entries := AList.update a
       (e\<lparr>ip_lastSeen := now, ip_limiter := snd (AllowN lib (ip_limiter e) now 1)\<rparr>) (sh_entries sh),
     sh_nextExpiryCheck := recordPotentialExpiry ttl (sh_nextExpiryCheck sh) now\<rparr>"

definition ip_admit :: "('b, 'l) rate_lib \<Rightarrow> Addr \<Rightarrow> time \<Rightarrow> int \<Rightarrow> 'b ipLimiterShard \<Rightarrow>
    duration \<Rightarrow> 'b ipLimiterShard" where
  "ip_admit lib a now rpm sh ttl =
     (let es = AList.update a
        \<lparr>ip_limiter = snd (AllowN lib (newTokenBucket lib rpm) now 1), ip_lastSeen = now\<rparr>
        (sh_entries sh)
      in sh\<lparr>sh_entries := es,
        sh_nextExpiryCheck := recordPotentialExpiry ttl (sh_nextExpiryCheck sh) now,
        sh_highWatermark := max (sh_highWatermark sh) (int (length es))\<rparr>)"

lemma allowAt_hit:
  "ip_entry_of l a = Some e \<Longrightarrow>
     allowAt lib a now l = (fst (AllowN lib (ip_limiter e) now 1),
       l\<lparr>ip_shards := (ip_shards l)[ip_index l a :=
          ip_hit lib a now e (ip_shard_of l a) (ip_entryIdleTTL l)]\<rparr>)"
  by (simp add: allowAt_def ip_view_defs ip_hit_def Let_def split_def)

lemma allowAt_admit:
  assumes "ip_entry_of l a = None"
    and "int (length (sh_entries (ip_shard_of (ip_prepared a now l) a))) <
           sh_maximumEntries (ip_shard_of (ip_prepared a now l) a)"
  shows "allowAt lib a now l =
    (fst (AllowN lib (newTokenBucket lib (ip_requestsPerMinute l)) now 1),
     (ip_prepared a now l)\<lparr>ip_shards := (ip_shards (ip_prepared a now l))[ip_index l a :=
        ip_admit lib a now (ip_requestsPerMinute l) (ip_shard_of (ip_prepared a now l) a)
          (ip_entryIdleTTL l)],
      ip_currentEntries := ip_currentEntries (ip_prepared a now l) + 1,
      ip_dedicatedAdmissions := ip_dedicatedAdmissions (ip_prepared a now l) + 1\<rparr>)"
  using assms
  by (auto simp: allowAt_def ip_view_defs ip_prepared_def ip_admit_def Let_def split_def)

lemma allowAt_fallback:
  assumes "ip_entry_of l a = None"
    and "\<not> int (length (sh_entries (ip_shard_of (ip_prepared a now l) a))) <
           sh_maximumEntries (ip_shard_of (ip_prepared a now l) a)"
  obtains allowed j bs where
    "fst (allowAt lib a now l) = allowed"
    "j = fallbackBucketIndexFor (ip_fallbackHash (ip_prepared a now l)) a
       (length (sh_fallbackLimiters (ip_shard_of (ip_prepared a now l) a)))"
    "length bs = length (sh_fallbackLimiters (ip_shard_of (ip_prepared a now l) a))"
    "allowed = fst (AllowN lib (sh_fallbackLimiters (ip_shard_of (ip_prepared a now l) a) ! j) now 1)"
    "snd (allowAt lib a now l) =
       (ip_prepared a now l)\<lparr>ip_shards := (ip_shards (ip_prepared a now l))[ip_index l a :=
          (ip_shard_of (ip_prepared a now l) a)\<lparr>sh_fallbackLimiters := bs\<rparr>],
        ip_fallbackRequests := ip_fallbackRequests (ip_prepared a now l) + 1,
        ip_fallbackRejections :=
          ip_fallbackRejections (ip_prepared a now l) + (if allowed then 0 else 1)\<rparr>"
proof -
  let ?l = "ip_prepared a now l" and ?sh = "ip_shard_of (ip_prepared a now l) a"
  let ?j = "fallbackBucketIndexFor (ip_fallbackHash ?l) a (length (sh_fallbackLimiters ?sh))"
  let ?r = "AllowN lib (sh_fallbackLimiters ?sh ! ?j) now 1"
  have "allowAt lib a now l = (fst ?r, ?l\<lparr>ip_shards := (ip_shards ?l)[ip_index l a :=
      ?sh\<lparr>sh_fallbackLimiters := (sh_fallbackLimiters ?sh)[?j := snd ?r]\<rparr>],
      ip_fallbackRequests := ip_fallbackRequests ?l + 1,
      ip_fallbackRejections := ip_fallbackRejections ?l + (if fst ?r then 0 else 1)\<rparr>)"
    using assms by (auto simp: allowAt_def ip_view_defs ip_prepared_def Let_def split_def)
  then show ?thesis by (intro that) auto
qed

lemma ip_hit_inv:
  assumes "shard_inv ttl n i sh" and "lookup (sh_entries sh) a = Some e"
  shows "shard_inv ttl n i (ip_hit lib a now e sh ttl)"
proof -
  have "(a, e) \<in> set (sh_entries sh)" using assms(2) by (rule map_of_SomeD)
  then have "shardIndexFor n a = i" using assms(1) by (auto simp: shard_inv_def)
  then show ?thesis
    using assms by (auto simp: shard_inv_def ip_hit_def set_update_eq length_update_old
        bounds_expiry_record_mono)
qed

lemma ip_admit_inv:
  assumes "shard_inv ttl n i sh" and "lookup (sh_entries sh) a = None"
    and "int (length (sh_entries sh)) < sh_maximumEntries sh" and "shardIndexFor n a = i"
  shows "shard_inv ttl n i (ip_admit lib a now rpm sh ttl)"
  using assms by (auto simp: shard_inv_def ip_admit_def Let_def set_update_eq length_update_new
      bounds_expiry_record_mono)

lemma allowAt_inv: "ip_inv l \<Longrightarrow> ip_inv (snd (allowAt lib a now l))"
proof (cases "ip_entry_of l a")
  case (Some e)
  assume l: "ip_inv l"
  let ?sh = "ip_shard_of l a"
  let ?new = "ip_hit lib a now e ?sh (ip_entryIdleTTL l)"
  have e: "lookup (sh_entries ?sh) a = Some e" using Some by (simp add: ip_entry_of_def)
  have new: "shard_inv (ip_entryIdleTTL l) (length (ip_shards l)) (ip_index l a) ?new"
    by (rule ip_hit_inv [OF ip_shard_of_inv [OF l] e])
  have len: "length (sh_entries ?new) = length (sh_entries (ip_shards l ! ip_index l a))"
    using e by (simp add: ip_hit_def ip_shard_of_def length_update_old)
  show ?thesis unfolding allowAt_hit [OF Some]
    by (rule ip_inv_replace_shard [OF l ip_index_less [OF l] new]) (simp_all add: len)
next
  case None
  assume l: "ip_inv l"
  let ?l = "ip_prepared a now l" and ?sh = "ip_shard_of (ip_prepared a now l) a"
  have p: "ip_inv ?l" and abs: "lookup (sh_entries ?sh) a = None"
    using ip_prepared_inv [OF l] ip_prepared_absent [OF l None] by (auto simp: ip_entry_of_def)
  have i: "ip_index l a < length (ip_shards ?l)" using l by (simp add: ip_index_less)
  have sh: "shard_inv (ip_entryIdleTTL l) (length (ip_shards l)) (ip_index l a) ?sh"
    using ip_shard_of_inv [OF p, of a] by simp
  show ?thesis
  proof (cases "int (length (sh_entries ?sh)) < sh_maximumEntries ?sh")
    case True
    have idx: "shardIndexFor (length (ip_shards l)) a = ip_index l a" by (simp add: ip_index_def)
    let ?new = "ip_admit lib a now (ip_requestsPerMinute l) ?sh (ip_entryIdleTTL l)"
    have new: "shard_inv (ip_entryIdleTTL ?l) (length (ip_shards ?l)) (ip_index l a) ?new"
      using ip_admit_inv [OF sh abs True idx] by simp
    have len: "length (sh_entries ?new) = Suc (length (sh_entries (ip_shards ?l ! ip_index l a)))"
      using abs by (simp add: ip_admit_def Let_def length_update_new ip_shard_of_def)
    show ?thesis unfolding allowAt_admit [OF None True]
      by (rule ip_inv_replace_shard [OF p i new]) (simp_all add: len)
  next
    case False
    then show ?thesis
    proof (rule allowAt_fallback [OF None, of now lib], goal_cases)
      case (1 allowed j bs)
      have new: "shard_inv (ip_entryIdleTTL ?l) (length (ip_shards ?l)) (ip_index l a)
          (?sh\<lparr>sh_fallbackLimiters := bs\<rparr>)"
        using sh 1(3) by (auto simp: shard_inv_def)
      show ?case unfolding 1(5)
        by (rule ip_inv_replace_shard [OF p i new]) (simp_all add: ip_shard_of_def)
    qed
  qed
qed

section \<open>What admission leaves alone\<close>

lemma cleanupShard_maximum [simp]:
  "map sh_maximumEntries (ip_shards (cleanupShard i now l)) = map sh_maximumEntries (ip_shards l)"
  by (cases "i < length (ip_shards l)")
    (auto simp: map_update list_update_beyond intro!: nth_equalityI simp: nth_list_update)

lemma cleanup_batch_static:
  "map sh_maximumEntries (ip_shards (cleanup_batch n now l)) = map sh_maximumEntries (ip_shards l)"
  "ip_entryIdleTTL (cleanup_batch n now l) = ip_entryIdleTTL l"
proof (induction n arbitrary: l)
  case (Suc n)
  { case 1
    show ?case using cleanupShard_maximum by (simp add: Let_def Suc del: cleanupShard_simps) }
  { case 2 show ?case by (simp add: Let_def Suc) }
qed simp_all

lemma ip_prepared_maximum [simp]:
  "map sh_maximumEntries (ip_shards (ip_prepared a now l)) = map sh_maximumEntries (ip_shards l)"
  by (simp add: ip_prepared_def Let_def del: cleanupShard_simps)

lemma list_update_map_same:
  "i < length xs \<Longrightarrow> f y = f (xs ! i) \<Longrightarrow> map f (xs[i := y]) = map f xs"
  by (simp add: map_update list_update_same_conv)

lemma allowAt_static:
  assumes l: "ip_inv l"
  shows "map sh_maximumEntries (ip_shards (snd (allowAt lib a now l))) =
           map sh_maximumEntries (ip_shards l)"
    and "ip_entryIdleTTL (snd (allowAt lib a now l)) = ip_entryIdleTTL l"
proof -
  let ?l = "ip_prepared a now l"
  have i: "ip_index l a < length (ip_shards ?l)" and i': "ip_index l a < length (ip_shards l)"
    using l by (simp_all add: ip_index_less)
  have "map sh_maximumEntries (ip_shards (snd (allowAt lib a now l))) =
          map sh_maximumEntries (ip_shards l) \<and>
        ip_entryIdleTTL (snd (allowAt lib a now l)) = ip_entryIdleTTL l"
  proof (cases "ip_entry_of l a")
    case (Some e)
    then show ?thesis
      using i' by (simp add: allowAt_hit list_update_map_same ip_hit_def ip_shard_of_def)
  next
    case None
    show ?thesis
    proof (cases "int (length (sh_entries (ip_shard_of ?l a))) < sh_maximumEntries (ip_shard_of ?l a)")
      case True
      then show ?thesis
        using i None by (simp add: allowAt_admit list_update_map_same ip_admit_def Let_def ip_shard_of_def)
    next
      case False
      then show ?thesis
        by (rule allowAt_fallback [OF None, of now lib])
          (simp add: i' list_update_map_same ip_shard_of_def)
    qed
  qed
  then show "map sh_maximumEntries (ip_shards (snd (allowAt lib a now l))) =
      map sh_maximumEntries (ip_shards l)"
    and "ip_entryIdleTTL (snd (allowAt lib a now l)) = ip_entryIdleTTL l" by auto
qed

text \<open>Another address's live entry, in the same shard or not, is untouched.\<close>

lemma ip_entry_of_replace:
  assumes "ip_inv l" and "ip_shards l' = (ip_shards l)[i := sh]" and "i < length (ip_shards l)"
  shows "ip_entry_of l' b =
    (if ip_index l b = i then lookup (sh_entries sh) b else ip_entry_of l b)"
  using assms by (auto simp: ip_view_defs)

lemma ip_prepared_entry:
  assumes "ip_inv l" and "ip_entry_of l b = Some e" and "\<not> ip_expired (ip_entryIdleTTL l) now e"
  shows "ip_entry_of (ip_prepared a now l) b = Some e"
proof -
  have ok: "map_ok (sh_entries (ip_shard_of l b))" for b
    using ip_shard_of_inv [OF assms(1), of b] by (simp add: shard_inv_def)
  show ?thesis
    using assms ok [of b] ip_index_less [OF assms(1)]
    by (auto simp: ip_prepared_def Let_def ip_view_defs nth_list_update amap)
qed

lemma allowAt_other_entry:
  assumes l: "ip_inv l" and e: "ip_entry_of l b = Some e"
    and live: "\<not> ip_expired (ip_entryIdleTTL l) now e" and ne: "b \<noteq> a"
  shows "ip_entry_of (snd (allowAt lib a now l)) b = Some e"
proof (cases "ip_entry_of l a")
  case (Some e')
  have "ip_entry_of (snd (allowAt lib a now l)) b =
      (if ip_index l b = ip_index l a
       then lookup (sh_entries (ip_hit lib a now e' (ip_shard_of l a) (ip_entryIdleTTL l))) b
       else ip_entry_of l b)"
    unfolding allowAt_hit [OF Some] by (rule ip_entry_of_replace [OF l _ ip_index_less [OF l]]) simp
  then show ?thesis using e ne by (auto simp: ip_hit_def amap ip_entry_of_def ip_shard_of_def)
next
  case None
  let ?l = "ip_prepared a now l" and ?i = "ip_index l a"
  note rep = ip_entry_of_replace [OF ip_prepared_inv [OF l], where i = ?i and b = b]
  have p: "ip_entry_of ?l b = Some e" by (rule ip_prepared_entry [OF l e live])
  have same: "ip_index l b = ?i \<Longrightarrow> lookup (sh_entries (ip_shard_of ?l a)) b = Some e"
    using p by (simp add: ip_entry_of_def ip_shard_of_def)
  have i: "?i < length (ip_shards ?l)" using l by (simp add: ip_index_less)
  show ?thesis
  proof (cases "int (length (sh_entries (ip_shard_of ?l a))) < sh_maximumEntries (ip_shard_of ?l a)")
    case True
    show ?thesis unfolding allowAt_admit [OF None True] snd_conv
      by (subst rep [OF _ i]) (auto simp: p same ip_admit_def Let_def amap ne)
  next
    case False
    then show ?thesis
    proof (rule allowAt_fallback [OF None, of now lib], goal_cases)
      case 1
      show ?case unfolding 1(5) by (subst rep [OF _ i]) (auto simp: p same)
    qed
  qed
qed

lemma ip_prepared_full:
  assumes l: "ip_inv l"
    and full: "\<not> int (length (sh_entries (ip_shard_of (ip_prepared a now l) a))) <
        sh_maximumEntries (ip_shard_of (ip_prepared a now l) a)"
    and p: "(k, e) \<in> set (sh_entries (ip_shard_of (ip_prepared a now l) a))"
  shows "\<not> ip_expired (ip_entryIdleTTL l) now e"
proof (cases "sh_maximumEntries (ip_shard_of l a) \<le> int (length (sh_entries (ip_shard_of l a))) \<and>
    (case sh_nextExpiryCheck (ip_shard_of l a) of None \<Rightarrow> True | Some t \<Rightarrow> t < now)")
  case True
  then show ?thesis using p ip_index_less [OF l, of a]
    by (auto simp: ip_prepared_def Let_def ip_shard_of_def ip_index_def)
next
  case False
  then have same: "ip_prepared a now l = l" by (auto simp: ip_prepared_def Let_def)
  then have "bounds_expiry (sh_nextExpiryCheck (ip_shard_of l a)) (ip_lastSeen e + ip_entryIdleTTL l)"
    using p ip_shard_of_inv [OF l, of a] by (auto simp: shard_inv_def)
  then show ?thesis using False full same
    by (auto simp: bounds_expiry_def ip_expired_def)
qed

section \<open>The registry contract, discharged for every shard\<close>

datatype ip_op = IpAllow Addr time | IpCleanup time

fun ip_step :: "('b, 'l) rate_lib \<Rightarrow> ip_op \<Rightarrow> 'b IPLimiter \<Rightarrow> 'b IPLimiter" where
  "ip_step lib (IpAllow a now) l = snd (allowAt lib a now l)"
| "ip_step lib (IpCleanup now) l = cleanupNextShards now l"

definition ip_nth_shard :: "nat \<Rightarrow> 'b IPLimiter \<Rightarrow> 'b ipLimiterShard" where
  "ip_nth_shard i l = ip_shards l ! (i mod length (ip_shards l))"

lemma ip_step_inv: "ip_inv l \<Longrightarrow> ip_inv (ip_step lib x l)"
  by (cases x) (simp_all add: allowAt_inv cleanupNextShards_inv)

lemma ip_step_maximum:
  "ip_inv l \<Longrightarrow>
     map sh_maximumEntries (ip_shards (ip_step lib x l)) = map sh_maximumEntries (ip_shards l)"
  by (cases x) (simp_all add: allowAt_static cleanupNextShards_def cleanup_batch_static)

lemma ip_nth_shard_inv:
  "ip_inv l \<Longrightarrow> shard_inv (ip_entryIdleTTL l) (length (ip_shards l))
     (i mod length (ip_shards l)) (ip_nth_shard i l)"
  unfolding ip_nth_shard_def by (rule ip_inv_shard) (auto simp: ip_inv_def)

lemma ip_nth_shard_capacity:
  assumes "ip_inv l"
  shows "sh_maximumEntries (ip_nth_shard i (ip_step lib x l)) = sh_maximumEntries (ip_nth_shard i l)"
proof -
  note m = ip_step_maximum [OF assms, of lib x]
  from arg_cong [OF m, of length] have len: "length (ip_shards (ip_step lib x l)) = length (ip_shards l)"
    by simp
  have "i mod length (ip_shards l) < length (ip_shards l)" using assms by (auto simp: ip_inv_def)
  then show ?thesis
    using arg_cong [OF m, of "\<lambda>xs. xs ! (i mod length (ip_shards l))"] len
    by (simp add: ip_nth_shard_def)
qed

interpretation ipreg: expiring_registry
  "\<lambda>l. sh_entries (ip_nth_shard i l)"
  "\<lambda>l. sh_maximumEntries (ip_nth_shard i l)"
  "\<lambda>l e. ip_lastSeen e + ip_entryIdleTTL l"
  "\<lambda>l. sh_nextExpiryCheck (ip_nth_shard i l)"
  ip_inv "ip_step lib" for lib i
proof (unfold_locales, goal_cases)
  case (1 s x) then show ?case by (rule ip_step_inv)
next
  case (2 s x) then show ?case by (rule ip_nth_shard_capacity)
qed (use ip_nth_shard_inv in \<open>force simp: shard_inv_def\<close>)+

lemma New_ip_inv:
  assumes "ipc_ShardCount config < 2 ^ 63"
  shows "ip_inv (NewIPLimiterWithConfig lib h config)"
  using assms
  by (auto simp: NewIPLimiterWithConfig_def Let_def ip_inv_def shard_inv_def positive_or_def
      sum_list_replicate nat_less_iff)

lemma New_ip_maximum:
  "sh \<in> set (ip_shards (NewIPLimiterWithConfig lib h config)) \<Longrightarrow>
     sh_maximumEntries sh =
       min (positive_or (ipc_MaximumEntriesPerShard config) 2048) 65536"
  by (auto simp: NewIPLimiterWithConfig_def Let_def)

section \<open>A small concrete limiter\<close>

text \<open>One shard with one dedicated entry and one fallback bucket, after one request.\<close>

definition ip_demo_config :: IPLimiterConfig where
  "ip_demo_config = \<lparr>ipc_RequestsPerMinute = 2, ipc_ClientIPResolver = None, ipc_ShardCount = 1,
     ipc_EntryIdleTTL = 0, ipc_CleanupInterval = 0, ipc_CleanupShardBatchSize = 0,
     ipc_MaximumEntriesPerShard = 1, ipc_FallbackBucketsPerShard = 1\<rparr>"

definition ip_demo :: "integer_bucket IPLimiter" where
  "ip_demo = fold (ip_step integer_buckets) [IpAllow (V4 [10, 0, 0, 1]) 0]
     (NewIPLimiterWithConfig integer_buckets (\<lambda>_. 0) ip_demo_config)"

definition ip_demo_entry :: "integer_bucket ipEntry" where
  "ip_demo_entry = \<lparr>ip_limiter =
     \<lparr>interval = 30000000000, burst = 2, credit = 30000000000, last_update = 0\<rparr>, ip_lastSeen = 0\<rparr>"

lemma ip_demo_inv: "ip_inv ip_demo"
  unfolding ip_demo_def by (rule ipreg.reg_run_inv [OF New_ip_inv]) (simp add: ip_demo_config_def)

lemma ip_demo_entry: "ip_entry_of ip_demo (V4 [10, 0, 0, 1]) = Some ip_demo_entry"
  by code_simp

lemma ip_demo_live: "\<not> ip_expired (ip_entryIdleTTL ip_demo) 1 ip_demo_entry"
  by code_simp

lemma ip_demo_overflow:
  "ip_entry_of (snd (allowAt integer_buckets (V4 [10, 0, 0, 2]) 1 ip_demo)) (V4 [10, 0, 0, 2]) = None"
  by code_simp

section \<open>Properties\<close>

text \<open>
  Bounded memory: after any sequence of admissions and cleanups, in any order and at any
  times, no shard of the limiter holds more entries than its configured maximum, which the
  constructor caps at 65536; and the entry counter the metrics report is the number of entries.
\<close>

theorem ip_limiter_bounded:
  assumes "ipc_ShardCount config < 2 ^ 63"
  shows "let l = fold (ip_step lib) ops (NewIPLimiterWithConfig lib h config) in
    (\<forall>sh \<in> set (ip_shards l). int (length (sh_entries sh)) \<le> sh_maximumEntries sh \<and>
       sh_maximumEntries sh \<le> 65536) \<and>
    ip_currentEntries l = (\<Sum>sh\<leftarrow>ip_shards l. int (length (sh_entries sh)))"
proof -
  let ?init = "NewIPLimiterWithConfig lib h config"
  let ?l = "fold (ip_step lib) ops ?init"
  note inv0 = New_ip_inv [OF assms, of lib h]
  have inv: "ip_inv ?l" by (rule ipreg.reg_run_inv [OF inv0])
  have "int (length (sh_entries sh)) \<le> sh_maximumEntries sh \<and> sh_maximumEntries sh \<le> 65536"
    if sh: "sh \<in> set (ip_shards ?l)" for sh
  proof -
    obtain i where i: "ip_nth_shard i ?l = sh"
      using sh by (auto simp: in_set_conv_nth ip_nth_shard_def) (metis mod_less)
    have "0 < length (ip_shards ?init)" using inv0 by (simp add: ip_inv_def)
    then have "ip_nth_shard i ?init \<in> set (ip_shards ?init)" by (simp add: ip_nth_shard_def)
    then show ?thesis
      using ipreg.reg_run_bounded [OF inv0, of i lib ops] ipreg.reg_run_capacity [OF inv0, of i lib ops]
        New_ip_maximum [of _ lib h config] i by auto
  qed
  with inv show ?thesis by (simp add: Let_def ip_inv_def)
qed

theorem ip_limiter_bounded_witness:
  "let l = fold (ip_step integer_buckets) [IpAllow (V4 [10, 0, 0, 1]) 0, IpCleanup 5]
       (NewIPLimiterWithConfig integer_buckets (\<lambda>_. 0) ip_demo_config) in
    (\<forall>sh \<in> set (ip_shards l). int (length (sh_entries sh)) \<le> sh_maximumEntries sh \<and>
       sh_maximumEntries sh \<le> 65536) \<and>
    ip_currentEntries l = (\<Sum>sh\<leftarrow>ip_shards l. int (length (sh_entries sh)))"
  by (rule ip_limiter_bounded) (simp add: ip_demo_config_def)

text \<open>
  Isolation: a request never touches the dedicated entry (token bucket and last-seen time) of
  another address that is still within its idle time-to-live, whichever branch it takes; and the
  verdict on an address that has an entry is the verdict of its own bucket.
\<close>

theorem ip_limiter_isolation:
  assumes "ip_inv l" and "ip_entry_of l b = Some e"
    and "\<not> ip_expired (ip_entryIdleTTL l) now e" and "b \<noteq> a"
  shows "ip_entry_of (snd (allowAt lib a now l)) b = Some e \<and>
    fst (allowAt lib b now l) = fst (AllowN lib (ip_limiter e) now 1)"
  using allowAt_other_entry [OF assms] by (simp add: allowAt_hit [OF assms(2)])

theorem ip_limiter_isolation_witness:
  "ip_entry_of (snd (allowAt integer_buckets (V4 [10, 0, 0, 2]) 1 ip_demo)) (V4 [10, 0, 0, 1]) =
     Some ip_demo_entry \<and>
   fst (allowAt integer_buckets (V4 [10, 0, 0, 1]) 1 ip_demo) =
     fst (AllowN integer_buckets (ip_limiter ip_demo_entry) 1 1)"
  by (rule ip_limiter_isolation [OF ip_demo_inv ip_demo_entry ip_demo_live]) simp

text \<open>
  No premature degradation: a request is served from a shared fallback bucket (it leaves no
  dedicated entry for its address) only when its shard is full of entries none of which has
  expired, although the limiter skips the expiry scan until the recorded next expiry.
\<close>

theorem ip_limiter_fallback_only_when_full:
  assumes "ip_inv l" and "ip_entry_of (snd (allowAt lib a now l)) a = None"
  shows "let sh = ip_shard_of (snd (allowAt lib a now l)) a in
    int (length (sh_entries sh)) = sh_maximumEntries sh \<and>
    (\<forall>p \<in> set (sh_entries sh). \<not> ip_expired (ip_entryIdleTTL l) now (snd p))"
proof -
  let ?l = "ip_prepared a now l" and ?sh' = "ip_shard_of (snd (allowAt lib a now l)) a"
  have i: "ip_index l a < length (ip_shards l)" by (rule ip_index_less [OF assms(1)])
  have none: "ip_entry_of l a = None"
    using assms i by (cases "ip_entry_of l a")
      (auto simp: allowAt_hit ip_hit_def ip_view_defs amap)
  have full: "\<not> int (length (sh_entries (ip_shard_of ?l a))) < sh_maximumEntries (ip_shard_of ?l a)"
    using assms i none
    by (auto simp: allowAt_admit ip_admit_def ip_view_defs Let_def amap)
  from full have sh: "sh_entries ?sh' = sh_entries (ip_shard_of ?l a) \<and>
      sh_maximumEntries ?sh' = sh_maximumEntries (ip_shard_of ?l a)"
    by (rule allowAt_fallback [OF none, of now lib]) (use i in \<open>simp add: ip_shard_of_def ip_index_def\<close>)
  have "int (length (sh_entries ?sh')) = sh_maximumEntries ?sh'"
    using sh full ip_shard_of_inv [OF ip_prepared_inv [OF assms(1)], of a now a]
    by (auto simp: shard_inv_def)
  moreover have "\<forall>p \<in> set (sh_entries ?sh'). \<not> ip_expired (ip_entryIdleTTL l) now (snd p)"
    using sh ip_prepared_full [OF assms(1) full] by auto
  ultimately show ?thesis by (simp add: Let_def)
qed

theorem ip_limiter_fallback_only_when_full_witness:
  "let sh = ip_shard_of (snd (allowAt integer_buckets (V4 [10, 0, 0, 2]) 1 ip_demo)) (V4 [10, 0, 0, 2]) in
    int (length (sh_entries sh)) = sh_maximumEntries sh \<and>
    (\<forall>p \<in> set (sh_entries sh). \<not> ip_expired (ip_entryIdleTTL ip_demo) 1 (snd p))"
  by (rule ip_limiter_fallback_only_when_full [OF ip_demo_inv ip_demo_overflow])

text \<open>
  The middleware lets a request through exactly when its address resolves to a canonical
  client address that the limiter admits. A request without an acceptable identity is answered 403
  (untrusted peer) or 400 and consumes no rate-limit state; a rejected one is answered 429.
\<close>

theorem ip_middleware_outcomes:
  "case ResolveAddress (Some (ip_clientIPResolver l)) (Some r) of
     Inl err \<Rightarrow>
       (\<exists>e. ip_Middleware lib now r l = (Respond e, l) \<and>
          status e = (if err = ErrUntrustedClientIPPeer then 403 else 400))
   | Inr a \<Rightarrow> canonical a \<and>
       (if fst (allowAt lib a now l)
        then ip_Middleware lib now r l = (Next r, snd (allowAt lib a now l))
        else \<exists>e. ip_Middleware lib now r l = (Respond e, snd (allowAt lib a now l)) \<and>
               status e = 429)"
  by (auto simp: ip_Middleware_def http_Error_def too_many_requests_def split_def
      ResolveAddress_canonical split: sum.split)

end
