(* ===== verification/Domain.thy ===== *)
theory Domain
  imports Netip
begin

text \<open>
  The domain model of \<open>internal/store/store.go\<close> with its error values, the runtime settings of
  \<open>internal/settings/runtime.go\<close>, the authenticated user of \<open>internal/auth\<close> and the request
  context the middlewares share. Also the two time formats the store uses: a database timestamp has
  second resolution, a quota period is the UTC month \<open>YYYY-MM\<close> of an instant, computed with the
  proleptic Gregorian calendar as Go's \<open>time.Format\<close> does.
\<close>

section \<open>Errors\<close>

datatype store_error =
    ErrUserNotFound
  | ErrLastAdmin
  | ErrUsernameTaken
  | ErrTierNotFound
  | ErrTierNameTaken
  | ErrDefaultTierProtected
  | ErrDefaultTierMissing
  | ErrTierNotAssignable
  | ErrQuotaSuccess
  | ErrAPIKeyLimit
  | ErrInviteCodeNotFound
  | ErrInviteCodeSecretUnavailable
  | ErrInviteCodeInvalid
  | ErrInviteCodeDisabled
  | ErrInviteCodeExhausted
  | ErrInviteCodeLimitTooLow
  | ErrServerSettingsConflict
  | ErrUsageRecordNotFound
  | ErrRegistrationDisabled
  | StoreErrorf string

section \<open>Settings\<close>

type_synonym UpstreamProtocol = string

definition UpstreamProtocolResponses :: UpstreamProtocol where
  "UpstreamProtocolResponses = ''responses''"
definition UpstreamProtocolChatCompletions :: UpstreamProtocol where
  "UpstreamProtocolChatCompletions = ''chat_completions''"
definition UpstreamProtocolAnthropicMessages :: UpstreamProtocol where
  "UpstreamProtocolAnthropicMessages = ''anthropic_messages''"

type_synonym RegistrationMode = string

definition RegistrationModeFree :: RegistrationMode where
  "RegistrationModeFree = ''free''"
definition RegistrationModeInvite :: RegistrationMode where
  "RegistrationModeInvite = ''invite''"
definition RegistrationModeDisabled :: RegistrationMode where
  "RegistrationModeDisabled = ''disabled''"

lemmas registration_modes =
  RegistrationModeFree_def RegistrationModeInvite_def RegistrationModeDisabled_def

definition NormalizeRegistrationMode :: "RegistrationMode \<Rightarrow> store_error + RegistrationMode" where
  "NormalizeRegistrationMode m =
     (if m = RegistrationModeFree then Inr RegistrationModeFree
      else if m = RegistrationModeInvite then Inr RegistrationModeInvite
      else if m = RegistrationModeDisabled then Inr RegistrationModeDisabled
      else Inl (StoreErrorf ''registration_mode must be one of free, invite, or disabled''))"

lemma NormalizeRegistrationMode_Inr:
  "NormalizeRegistrationMode m = Inr m' \<longleftrightarrow>
     m' = m \<and> m \<in> {RegistrationModeFree, RegistrationModeInvite, RegistrationModeDisabled}"
  by (auto simp: NormalizeRegistrationMode_def)

record Runtime =
  CPABaseURL :: string
  CPAAPIKey :: string
  rt_UpstreamProtocol :: UpstreamProtocol
  Model :: string
  TimeoutSeconds :: int
  MCPGlobalSearchConcurrency :: int
  MCPUserSearchConcurrency :: int
  ProxyURL :: string
  ProxyEnabled :: bool
  rt_RegistrationMode :: RegistrationMode
  TurnstileEnabled :: bool
  TurnstileSiteKey :: string
  TurnstileSecretKey :: string
  Debug :: bool
  OperationsMetricsEnabled :: bool

record ServerSettings = Runtime +
  ss_ID :: string
  ss_Revision :: int
  ss_ExpectedRevision :: "int option"
  ss_CreatedAt :: time
  ss_UpdatedAt :: time

section \<open>Entities\<close>

datatype UserRole = RoleAdmin | RoleUser | RoleOther string

record User =
  u_ID :: string
  u_Username :: string
  u_PasswordHash :: string
  u_Role :: UserRole
  u_Enabled :: bool
  u_TierID :: string
  u_SuccessCalls :: int
  u_SuccessPeriod :: string
  u_TokenVersion :: int
  u_CreatedAt :: time
  u_UpdatedAt :: time

record SuccessQuotaReservation =
  r_ID :: string
  r_UserID :: string
  r_Period :: string

record Tier =
  t_ID :: string
  t_Name :: string
  t_RPM :: int
  t_SuccessLimit :: int
  t_IsDefault :: bool
  t_CreatedAt :: time
  t_UpdatedAt :: time

record APIKey =
  k_ID :: string
  k_UserID :: string
  k_Name :: string
  k_KeyHash :: string
  k_KeyPrefix :: string
  k_Enabled :: bool
  k_CreatedAt :: time
  k_UpdatedAt :: time
  k_LastUsedAt :: "time option"
  k_TotalCalls :: int
  k_keyCiphertext :: string
  k_keyNonce :: string
  k_keyEncryptionVersion :: int

record InviteCode =
  ic_ID :: string
  ic_CodeHash :: string
  ic_CodePrefix :: string
  ic_RegistrationLimit :: int
  ic_RegistrationCount :: int
  ic_Enabled :: bool
  ic_CreatedByUserID :: "string option"
  ic_CreatedAt :: time
  ic_UpdatedAt :: time
  ic_codeCiphertext :: string
  ic_codeNonce :: string
  ic_codeEncryptionVersion :: int

record InviteCodeRedemption =
  red_ID :: string
  red_InviteCodeID :: string
  red_InviteCodePrefix :: string
  red_UserID :: string
  red_Username :: string
  red_RedeemedAt :: time

record KeyUpdates =
  ku_Name :: "string option"
  ku_Enabled :: "bool option"

record UserUpdates =
  uu_Enabled :: "bool option"
  uu_Role :: "UserRole option"
  uu_TierID :: "string option"
  uu_RevokeTokens :: "bool option"
  uu_PasswordHash :: "string option"

record TierUpdates =
  tu_Name :: "string option"
  tu_RPM :: "int option"
  tu_SuccessLimit :: "int option"
  tu_IsDefault :: "bool option"

record InviteCodeUpdates =
  icu_RegistrationLimit :: "int option"
  icu_Enabled :: "bool option"

record TimeIDCursor =
  cur_Timestamp :: time
  cur_ID :: string

section \<open>The request context\<close>

text \<open>
  \<open>AuthenticatedUser\<close> is the stored user with the limits of its tier. The context keys of
  \<open>auth\<close>, \<open>usage\<close> and \<open>ratelimit\<close> are the fields of one record; \<open>None\<close> is an absent key.
\<close>

record AuthenticatedUser =
  au_User :: User
  au_RPM :: int
  au_SuccessLimit :: int

record Context =
  ctx_ToolName :: "string option"
  ctx_User :: "AuthenticatedUser option"
  ctx_APIKey :: "APIKey option"
  ctx_Reservation :: "SuccessQuotaReservation option"

definition emptyContext :: Context where
  "emptyContext = \<lparr>ctx_ToolName = None, ctx_User = None, ctx_APIKey = None, ctx_Reservation = None\<rparr>"

section \<open>Times in the store\<close>

text \<open>
  \<open>formatTime\<close> and \<open>parseTime\<close> use the layout \<open>2006-01-02 15:04:05\<close>: what comes back is the
  instant cut to whole seconds. Timestamps compare as strings in SQL exactly as the instants do for
  the years 0 to 9999.
\<close>

definition db_time :: "time \<Rightarrow> time" where
  "db_time t = t div Second * Second"

lemma db_time_idem [simp]: "db_time (db_time t) = db_time t"
  by (simp add: db_time_def duration_defs)

lemma db_time_mono: "s \<le> t \<Longrightarrow> db_time s \<le> db_time t"
  by (simp add: db_time_def duration_defs zdiv_mono1)

text \<open>
  The civil year and month of a day number (days since 1970-01-01), with the steps of Go's
  \<open>time\<close> package: cut off 400-year, 100-year, 4-year and 1-year cycles, then find the month of the
  day of the year.
\<close>

definition is_leap :: "int \<Rightarrow> bool" where
  "is_leap y \<longleftrightarrow> y mod 4 = 0 \<and> (y mod 100 \<noteq> 0 \<or> y mod 400 = 0)"

definition daysBefore :: "int list" where
  "daysBefore = [31, 59, 90, 120, 151, 181, 212, 243, 273, 304, 334]"

definition month_of_yday :: "int \<Rightarrow> int" where
  "month_of_yday d = 1 + int (length (filter (\<lambda>b. b \<le> d) daysBefore))"

definition year_yday :: "int \<Rightarrow> int \<times> int" where
  "year_yday days =
     (let d = days + 719162;
          n400 = d div 146097; d = d - 146097 * n400;
          n100 = d div 36524; n100 = n100 - n100 div 4; d = d - 36524 * n100;
          n4 = d div 1461; d = d - 1461 * n4;
          n1 = d div 365; n1 = n1 - n1 div 4; d = d - 365 * n1
      in (1 + 400 * n400 + 100 * n100 + 4 * n4 + n1, d))"

definition civil_month :: "int \<Rightarrow> int \<times> int" where
  "civil_month days = (case year_yday days of (y, d) \<Rightarrow>
     (y, if is_leap y \<and> d = 59 then 2
         else month_of_yday (if is_leap y \<and> 59 < d then d - 1 else d)))"

definition digit_char :: "int \<Rightarrow> char" where
  "digit_char d = char_of (48 + d)"

definition format_period :: "int \<times> int \<Rightarrow> string" where
  "format_period ym = (case ym of (y, m) \<Rightarrow>
     map digit_char [y div 1000 mod 10, y div 100 mod 10, y div 10 mod 10, y mod 10] @ ''-'' @
     map digit_char [m div 10 mod 10, m mod 10])"

definition successQuotaPeriod :: "time \<Rightarrow> string" where
  "successQuotaPeriod t = format_period (civil_month (t div (24 * Hour)))"

text \<open>
  \<open>time.Parse\<close> of that layout takes four digits, a dash and a two-digit month from 01 to 12, and
  formatting the result gives the text back.
\<close>

definition valid_period :: "string \<Rightarrow> bool" where
  "valid_period s \<longleftrightarrow>
     (case s of [a, b, c, d, e, f, g] \<Rightarrow>
        list_all is_digit [a, b, c, d, f, g] \<and> e = CHR ''-'' \<and>
        (let m = 10 * int (digit_val f) + int (digit_val g) in 1 \<le> m \<and> m \<le> 12)
      | _ \<Rightarrow> False)"

definition IsValid :: "SuccessQuotaReservation \<Rightarrow> bool" where
  "IsValid reservation \<longleftrightarrow>
     TrimSpace (r_ID reservation) \<noteq> [] \<and> TrimSpace (r_UserID reservation) \<noteq> [] \<and>
     TrimSpace (r_Period reservation) \<noteq> [] \<and> valid_period (r_Period reservation)"

lemma digit_char_val:
  assumes "0 \<le> d" "d \<le> 9"
  shows "is_digit (digit_char d)" and "int (digit_val (digit_char d)) = d"
proof -
  have "(of_char (char_of (48 + d)) :: int) = 48 + d"
    using assms by (simp add: of_char_of take_bit_eq_mod)
  then show "is_digit (digit_char d)" and "int (digit_val (digit_char d)) = d"
    using assms by (simp_all add: is_digit_def digit_val_def digit_char_def Let_def)
qed

lemma month_of_yday_range: "1 \<le> month_of_yday d \<and> month_of_yday d \<le> 12"
proof -
  have "length (filter (\<lambda>b. b \<le> d) daysBefore) \<le> 11"
  proof -
    have "length daysBefore = 11" by (simp add: daysBefore_def)
    then show ?thesis using length_filter_le [of "\<lambda>b. b \<le> d" daysBefore] by simp
  qed
  then show ?thesis by (simp add: month_of_yday_def)
qed

lemma civil_month_range: "1 \<le> snd (civil_month days) \<and> snd (civil_month days) \<le> 12"
  by (simp add: civil_month_def split_def month_of_yday_range)

lemma valid_format_period:
  assumes "1 \<le> m" "m \<le> 12"
  shows "valid_period (format_period (y, m))"
proof -
  have d: "is_digit (digit_char (x mod 10))" for x :: int
    by (rule digit_char_val) auto
  have v: "int (digit_val (digit_char (x mod 10))) = x mod 10" for x :: int
    by (rule digit_char_val) auto
  have q: "m div 10 = 0 \<or> m div 10 = 1" using assms by presburger
  have m: "is_digit (digit_char (m div 10))" "int (digit_val (digit_char (m div 10))) = m div 10"
    using q by (auto intro!: digit_char_val)
  have "m = 10 * (m div 10) + m mod 10" by simp
  moreover have "m div 10 mod 10 = m div 10" using q by auto
  ultimately show ?thesis
    using assms m by (simp add: valid_period_def format_period_def d v Let_def)
qed

lemma valid_period_trim: "valid_period s \<Longrightarrow> TrimSpace s \<noteq> []"
proof -
  assume "valid_period s"
  then obtain a b c d f g where s: "s = [a, b, c, d, CHR ''-'', f, g]" "is_digit a" "is_digit g"
    by (auto simp: valid_period_def split: list.splits)
  have "x \<notin> hd ` set space_encodings" "x \<notin> last ` set space_encodings" if "is_digit x" for x
  proof -
    have "\<forall>x \<in> hd ` set space_encodings \<union> last ` set space_encodings. \<not> is_digit x" by code_simp
    then show "x \<notin> hd ` set space_encodings" "x \<notin> last ` set space_encodings" using that by blast+
  qed
  then have "TrimSpace s = s" using s by (intro TrimSpace_id) simp_all
  then show ?thesis using s(1) by simp
qed

lemma valid_successQuotaPeriod: "valid_period (successQuotaPeriod t)"
  using civil_month_range [of "t div (24 * Hour)"] valid_format_period
  by (cases "civil_month (t div (24 * Hour))") (simp add: successQuotaPeriod_def)

end
