(* ===== verification/User_Limiter.thy ===== *)
theory User_Limiter
  imports Rate_Lib Domain IP_Limiter
begin

text \<open>
  The per-user limiter, \<open>internal/ratelimit/user_limiter.go\<close>: one token bucket per user id whose
  rate follows the user's tier, a bounded registry and shared fallback buckets. A rate of zero
  would make \<open>time.Minute / time.Duration(rpm)\<close> panic in the branches that change a bucket's rate;
  the panic is a value of the model, and the middleware is shown never to cause it.
\<close>

section \<open>State\<close>

record 'b userEntry =
  ue_limiter :: 'b
  ue_rpm :: int
  ue_lastSeen :: time

record 'b userLimiterFallbackBucket =
  fb_limiter :: "'b option"
  fb_rpm :: int
  fb_lastSeen :: time

record UserLimiterConfig =
  ulc_MaximumEntries :: int
  ulc_FallbackBucketCount :: int
  ulc_EntryIdleTTL :: duration
  ulc_CleanupInterval :: duration

record 'b UserLimiter =
  ul_entries :: "(string, 'b userEntry) gomap"
  ul_fallbackBuckets :: "'b userLimiterFallbackBucket list"
  ul_maximumEntries :: int
  ul_entryIdleTTL :: duration
  ul_nextExpiryCheck :: "time option"
  ul_fallbackHash :: "string \<Rightarrow> 64 word"
  ul_currentEntries :: int
  ul_dedicatedAdmissions :: "64 word"
  ul_expiredEntries :: "64 word"
  ul_fallbackRequests :: "64 word"
  ul_fallbackRejections :: "64 word"
  ul_cleanupInterval :: duration

record UserLimiterMetricsSnapshot =
  ulm_CurrentEntries :: int
  ulm_MaximumEntries :: int
  ulm_FallbackBucketCount :: int
  ulm_DedicatedAdmissions :: "64 word"
  ulm_ExpiredEntriesRemoved :: "64 word"
  ulm_FallbackRequests :: "64 word"
  ulm_FallbackRejections :: "64 word"

definition NewUserLimiterWithConfig ::
  "(string \<Rightarrow> 64 word) \<Rightarrow> UserLimiterConfig \<Rightarrow> 'b UserLimiter" where
  "NewUserLimiterWithConfig seededHash config =
     (let maximumEntries = min (positive_or (ulc_MaximumEntries config) 16384) 65536;
          fallbackBucketCount = min (positive_or (ulc_FallbackBucketCount config) 64) 1024;
          entryIdleTTL = positive_or (ulc_EntryIdleTTL config) (30 * Minute);
          cleanupInterval = positive_or (ulc_CleanupInterval config) (10 * Minute)
      in \<lparr>ul_entries = [],
          ul_fallbackBuckets = replicate (nat fallbackBucketCount)
            \<lparr>fb_limiter = None, fb_rpm = 0, fb_lastSeen = 0\<rparr>,
          ul_maximumEntries = maximumEntries, ul_entryIdleTTL = entryIdleTTL,
          ul_nextExpiryCheck = None, ul_fallbackHash = seededHash, ul_currentEntries = 0,
          ul_dedicatedAdmissions = 0, ul_expiredEntries = 0, ul_fallbackRequests = 0,
          ul_fallbackRejections = 0, ul_cleanupInterval = cleanupInterval\<rparr>)"

section \<open>Operations\<close>

definition limitFor :: "('b, 'l) rate_lib \<Rightarrow> int \<Rightarrow> 'b" where
  "limitFor lib rpm =
     (let perMin = (if rpm \<le> 0 then 1 else rpm);
          burst = (if perMin < 1 then 1 else perMin)
      in NewLimiter lib (Every lib (Minute div perMin)) burst)"

text \<open>\<open>SetLimitAt(now, rate.Every(time.Minute/time.Duration(rpm)))\<close> and \<open>SetBurstAt(now, rpm)\<close>.\<close>

definition setRate :: "('b, 'l) rate_lib \<Rightarrow> 'b \<Rightarrow> time \<Rightarrow> int \<Rightarrow> panic + 'b" where
  "setRate lib bucket now rpm =
     map_sum id (\<lambda>d. SetBurstAt lib (SetLimitAt lib bucket now (Every lib d)) now rpm)
       (go_div Minute rpm)"

definition user_fallbackBucketIndexFor :: "'b UserLimiter \<Rightarrow> string \<Rightarrow> nat" where
  "user_fallbackBucketIndexFor l userID =
     unat (ul_fallbackHash l userID mod of_nat (length (ul_fallbackBuckets l)))"

definition cleanupExpiredEntriesLocked :: "time \<Rightarrow> 'b UserLimiter \<Rightarrow> 'b UserLimiter" where
  "cleanupExpiredEntriesLocked now l =
     (let ttl = ul_entryIdleTTL l;
          kept = filter (\<lambda>p. now < ue_lastSeen (snd p) + ttl) (ul_entries l);
          removedEntryCount = length (ul_entries l) - length kept
      in l\<lparr>ul_entries := kept,
           ul_nextExpiryCheck := earliest_expiry ttl (map (\<lambda>p. ue_lastSeen (snd p)) kept),
           ul_currentEntries := ul_currentEntries l - int removedEntryCount,
           ul_expiredEntries := ul_expiredEntries l + of_nat removedEntryCount\<rparr>)"

text \<open>The fallback bucket a request uses after \<open>allowAt\<close> refreshed or tightened it.\<close>

definition refreshedFallback ::
  "('b, 'l) rate_lib \<Rightarrow> int \<Rightarrow> time \<Rightarrow> duration \<Rightarrow> 'b userLimiterFallbackBucket \<Rightarrow>
     panic + ('b \<times> int)" where
  "refreshedFallback lib rpm now ttl fallbackBucket =
     (case fb_limiter fallbackBucket of
        None \<Rightarrow> Inr (limitFor lib rpm, rpm)
      | Some bucket \<Rightarrow>
          if \<not> now < fb_lastSeen fallbackBucket + ttl then Inr (limitFor lib rpm, rpm)
          else if rpm < fb_rpm fallbackBucket
          then map_sum id (\<lambda>b. (b, rpm)) (setRate lib bucket now rpm)
          else Inr (bucket, fb_rpm fallbackBucket))"

definition user_allowAt ::
  "('b, 'l) rate_lib \<Rightarrow> string \<Rightarrow> int \<Rightarrow> time \<Rightarrow> 'b UserLimiter \<Rightarrow>
     panic + (bool \<times> 'b UserLimiter)" where
  "user_allowAt lib userID rpm now l =
     (let ttl = ul_entryIdleTTL l in
      case lookup (ul_entries l) userID of
        Some userEntry \<Rightarrow>
          (case (if ue_rpm userEntry \<noteq> rpm then setRate lib (ue_limiter userEntry) now rpm
                 else Inr (ue_limiter userEntry)) of
             Inl p \<Rightarrow> Inl p
           | Inr bucket \<Rightarrow>
               (let (allowed, bucket') = AllowN lib bucket now 1
                in Inr (allowed, l\<lparr>ul_entries := AList.update userID
                      \<lparr>ue_limiter = bucket', ue_rpm = rpm, ue_lastSeen = now\<rparr> (ul_entries l),
                    ul_nextExpiryCheck :=
                      recordPotentialExpiry ttl (ul_nextExpiryCheck l) now\<rparr>)))
      | None \<Rightarrow>
          (let shouldCheckForExpiredEntries =
                 (case ul_nextExpiryCheck l of None \<Rightarrow> True | Some t \<Rightarrow> \<not> now < t);
               l1 = (if ul_maximumEntries l \<le> int (length (ul_entries l)) \<and>
                        shouldCheckForExpiredEntries
                     then cleanupExpiredEntriesLocked now l else l)
           in if int (length (ul_entries l1)) < ul_maximumEntries l1 then
                (let (allowed, bucket') = AllowN lib (limitFor lib rpm) now 1
                 in Inr (allowed, l1\<lparr>ul_entries := AList.update userID
                       \<lparr>ue_limiter = bucket', ue_rpm = rpm, ue_lastSeen = now\<rparr> (ul_entries l1),
                     ul_nextExpiryCheck :=
                       recordPotentialExpiry ttl (ul_nextExpiryCheck l1) now,
                     ul_currentEntries := ul_currentEntries l1 + 1,
                     ul_dedicatedAdmissions := ul_dedicatedAdmissions l1 + 1\<rparr>))
              else
                (let i = user_fallbackBucketIndexFor l1 userID
                 in case refreshedFallback lib rpm now ttl (ul_fallbackBuckets l1 ! i) of
                      Inl p \<Rightarrow> Inl p
                    | Inr (bucket, bucketRPM) \<Rightarrow>
                        (let (allowed, bucket') = AllowN lib bucket now 1
                         in Inr (allowed, l1\<lparr>ul_fallbackBuckets := (ul_fallbackBuckets l1)
                               [i := \<lparr>fb_limiter = Some bucket', fb_rpm = bucketRPM,
                                  fb_lastSeen = now\<rparr>],
                             ul_fallbackRequests := ul_fallbackRequests l1 + 1,
                             ul_fallbackRejections :=
                               ul_fallbackRejections l1 + (if allowed then 0 else 1)\<rparr>)))))"

definition user_Metrics :: "'b UserLimiter option \<Rightarrow> UserLimiterMetricsSnapshot" where
  "user_Metrics l =
     (case l of
        None \<Rightarrow> \<lparr>ulm_CurrentEntries = 0, ulm_MaximumEntries = 0, ulm_FallbackBucketCount = 0,
           ulm_DedicatedAdmissions = 0, ulm_ExpiredEntriesRemoved = 0, ulm_FallbackRequests = 0,
           ulm_FallbackRejections = 0\<rparr>
      | Some u \<Rightarrow> \<lparr>ulm_CurrentEntries = ul_currentEntries u, ulm_MaximumEntries = ul_maximumEntries u,
           ulm_FallbackBucketCount = int (length (ul_fallbackBuckets u)),
           ulm_DedicatedAdmissions = ul_dedicatedAdmissions u,
           ulm_ExpiredEntriesRemoved = ul_expiredEntries u,
           ulm_FallbackRequests = ul_fallbackRequests u,
           ulm_FallbackRejections = ul_fallbackRejections u\<rparr>)"

definition UserMiddleware ::
  "('b, 'l) rate_lib \<Rightarrow> time \<Rightarrow> Context \<Rightarrow> 'b UserLimiter \<Rightarrow>
     panic + (Context outcome \<times> 'b UserLimiter)" where
  "UserMiddleware lib now ctx l =
     (case ctx_ToolName ctx of
        None \<Rightarrow> Inr (Next ctx, l)
      | Some toolName \<Rightarrow>
          if toolName = [] then Inr (Next ctx, l)
          else (case ctx_User ctx of
              None \<Rightarrow> Inr (Next ctx, l)
            | Some user \<Rightarrow>
                if au_RPM user < 0
                then Inr (Respond (http_Error StatusInternalServerError ''invalid rate limit''), l)
                else if au_RPM user = 0 then Inr (Next ctx, l)
                else (case user_allowAt lib (u_ID (au_User user)) (au_RPM user) now l of
                    Inl p \<Rightarrow> Inl p
                  | Inr (allowed, l') \<Rightarrow>
                      Inr (if allowed then Next ctx else Respond too_many_requests, l'))))"

section \<open>The invariant\<close>

definition user_inv :: "'b UserLimiter \<Rightarrow> bool" where
  "user_inv l \<longleftrightarrow>
     map_ok (ul_entries l) \<and>
     int (length (ul_entries l)) \<le> ul_maximumEntries l \<and>
     0 < length (ul_fallbackBuckets l) \<and> length (ul_fallbackBuckets l) < 2 ^ 64 \<and>
     ul_currentEntries l = int (length (ul_entries l)) \<and>
     (\<forall>p \<in> set (ul_entries l).
        bounds_expiry (ul_nextExpiryCheck l) (ue_lastSeen (snd p) + ul_entryIdleTTL l))"

definition user_expired :: "duration \<Rightarrow> time \<Rightarrow> 'b userEntry \<Rightarrow> bool" where
  "user_expired ttl now e \<longleftrightarrow> ue_lastSeen e + ttl \<le> now"

definition user_prepared :: "time \<Rightarrow> 'b UserLimiter \<Rightarrow> 'b UserLimiter" where
  "user_prepared now l =
     (if ul_maximumEntries l \<le> int (length (ul_entries l)) \<and>
         (case ul_nextExpiryCheck l of None \<Rightarrow> True | Some t \<Rightarrow> \<not> now < t)
      then cleanupExpiredEntriesLocked now l else l)"

lemma cleanupExpired_inv:
  assumes "user_inv l"
  shows "user_inv (cleanupExpiredEntriesLocked now l)"
proof -
  let ?kept = "filter (\<lambda>p. now < ue_lastSeen (snd p) + ul_entryIdleTTL l) (ul_entries l)"
  have le: "length ?kept \<le> length (ul_entries l)" by simp
  have "bounds_expiry (earliest_expiry (ul_entryIdleTTL l) (map (\<lambda>p. ue_lastSeen (snd p)) ?kept))
      (ue_lastSeen (snd p) + ul_entryIdleTTL l)" if "p \<in> set ?kept" for p
    using earliest_expiry_map [OF that, of "ul_entryIdleTTL l" "\<lambda>p. ue_lastSeen (snd p)"] .
  moreover have "int (length ?kept) \<le> ul_maximumEntries l"
  proof -
    have "int (length ?kept) \<le> int (length (ul_entries l))" using le by linarith
    also have "\<dots> \<le> ul_maximumEntries l" using assms by (simp add: user_inv_def)
    finally show ?thesis .
  qed
  ultimately show ?thesis
    using assms le by (simp add: user_inv_def cleanupExpiredEntriesLocked_def Let_def of_nat_diff)
qed

lemma user_prepared_inv: "user_inv l \<Longrightarrow> user_inv (user_prepared now l)"
  by (simp add: user_prepared_def cleanupExpired_inv)

lemma cleanupExpired_simps [simp]:
  "ul_entries (cleanupExpiredEntriesLocked now l) =
     filter (\<lambda>p. \<not> user_expired (ul_entryIdleTTL l) now (snd p)) (ul_entries l)"
  "ul_fallbackBuckets (cleanupExpiredEntriesLocked now l) = ul_fallbackBuckets l"
  "ul_maximumEntries (cleanupExpiredEntriesLocked now l) = ul_maximumEntries l"
  "ul_entryIdleTTL (cleanupExpiredEntriesLocked now l) = ul_entryIdleTTL l"
  by (simp_all add: cleanupExpiredEntriesLocked_def Let_def user_expired_def not_le)

lemma user_prepared_simps [simp]:
  "ul_fallbackBuckets (user_prepared now l) = ul_fallbackBuckets l"
  "ul_maximumEntries (user_prepared now l) = ul_maximumEntries l"
  "ul_entryIdleTTL (user_prepared now l) = ul_entryIdleTTL l"
  by (simp_all add: user_prepared_def)

lemma user_prepared_absent:
  "user_inv l \<Longrightarrow> lookup (ul_entries l) u = None \<Longrightarrow> lookup (ul_entries (user_prepared now l)) u = None"
  by (simp add: user_prepared_def user_inv_def amap)

text \<open>The three branches of \<open>user_allowAt\<close> that return.\<close>

lemma user_allowAt_cases:
  assumes "user_allowAt lib u rpm now l = Inr (ok, l')"
  obtains
    (hit) e b where "lookup (ul_entries l) u = Some e"
      "l' = l\<lparr>ul_entries := AList.update u \<lparr>ue_limiter = b, ue_rpm = rpm, ue_lastSeen = now\<rparr> (ul_entries l),
         ul_nextExpiryCheck := recordPotentialExpiry (ul_entryIdleTTL l) (ul_nextExpiryCheck l) now\<rparr>"
  | (admit) b where "lookup (ul_entries l) u = None"
      "int (length (ul_entries (user_prepared now l))) < ul_maximumEntries l"
      "l' = (user_prepared now l)\<lparr>ul_entries := AList.update u
           \<lparr>ue_limiter = b, ue_rpm = rpm, ue_lastSeen = now\<rparr> (ul_entries (user_prepared now l)),
         ul_nextExpiryCheck :=
           recordPotentialExpiry (ul_entryIdleTTL l) (ul_nextExpiryCheck (user_prepared now l)) now,
         ul_currentEntries := ul_currentEntries (user_prepared now l) + 1,
         ul_dedicatedAdmissions := ul_dedicatedAdmissions (user_prepared now l) + 1\<rparr>"
  | (fallback) b' b r where "lookup (ul_entries l) u = None"
      "\<not> int (length (ul_entries (user_prepared now l))) < ul_maximumEntries l"
      "refreshedFallback lib rpm now (ul_entryIdleTTL l)
         (ul_fallbackBuckets l ! user_fallbackBucketIndexFor (user_prepared now l) u) = Inr (b, r)"
      "l' = (user_prepared now l)\<lparr>ul_fallbackBuckets := (ul_fallbackBuckets l)
             [user_fallbackBucketIndexFor (user_prepared now l) u :=
                \<lparr>fb_limiter = Some b', fb_rpm = r, fb_lastSeen = now\<rparr>],
         ul_fallbackRequests := ul_fallbackRequests (user_prepared now l) + 1,
         ul_fallbackRejections :=
           ul_fallbackRejections (user_prepared now l) + (if ok then 0 else 1)\<rparr>"
proof (cases "lookup (ul_entries l) u")
  case (Some e)
  show ?thesis
    using assms Some by (auto simp: user_allowAt_def Let_def split_def split: sum.splits intro: hit)
next
  case None
  let ?l = "user_prepared now l"
  have eq: "(if ul_maximumEntries l \<le> int (length (ul_entries l)) \<and>
      (case ul_nextExpiryCheck l of None \<Rightarrow> True | Some t \<Rightarrow> \<not> now < t)
      then cleanupExpiredEntriesLocked now l else l) = ?l" by (simp add: user_prepared_def)
  note step = assms [unfolded user_allowAt_def Let_def None option.case eq]
  show ?thesis
  proof (cases "int (length (ul_entries ?l)) < ul_maximumEntries l")
    case True
    with step None show ?thesis by (intro admit) (auto simp: split_def)
  next
    case False
    with step None show ?thesis
      by (auto simp: split_def split: sum.splits intro!: fallback)
  qed
qed

lemma user_allowAt_inv:
  assumes "user_inv l" and "user_allowAt lib u rpm now l = Inr (ok, l')"
  shows "user_inv l'"
  using assms(2)
proof (cases rule: user_allowAt_cases)
  case (hit e b)
  with assms(1) show ?thesis
    by (auto simp: user_inv_def set_update_eq length_update_old bounds_expiry_record_mono)
next
  case (admit b)
  have "user_inv (user_prepared now l)" by (rule user_prepared_inv [OF assms(1)])
  moreover have "lookup (ul_entries (user_prepared now l)) u = None"
    by (rule user_prepared_absent [OF assms(1) admit(1)])
  ultimately show ?thesis using admit
    by (auto simp: user_inv_def set_update_eq length_update_new bounds_expiry_record_mono)
next
  case (fallback b' b r)
  with user_prepared_inv [OF assms(1), of now] show ?thesis by (auto simp: user_inv_def)
qed

section \<open>The registry contract\<close>

datatype user_op = UlRequest Context time | UlTick time

fun user_step :: "('b, 'l) rate_lib \<Rightarrow> user_op \<Rightarrow> 'b UserLimiter \<Rightarrow> 'b UserLimiter" where
  "user_step lib (UlRequest ctx now) l =
     (case UserMiddleware lib now ctx l of Inl p \<Rightarrow> l | Inr (_, l') \<Rightarrow> l')"
| "user_step lib (UlTick now) l = cleanupExpiredEntriesLocked now l"

lemma UserMiddleware_state:
  assumes "UserMiddleware lib now ctx l = Inr (out, l')"
  shows "l' = l \<or> (\<exists>u rpm ok. 0 < rpm \<and> user_allowAt lib u rpm now l = Inr (ok, l'))"
  using assms by (fastforce simp: UserMiddleware_def split: option.splits if_splits sum.splits)

lemma user_allowAt_maximum: "user_allowAt lib u rpm now l = Inr (ok, l') \<Longrightarrow>
    ul_maximumEntries l' = ul_maximumEntries l \<and> ul_entryIdleTTL l' = ul_entryIdleTTL l"
  by (erule user_allowAt_cases) auto

lemma user_step_inv: "user_inv l \<Longrightarrow> user_inv (user_step lib x l)"
  by (cases x) (auto simp: cleanupExpired_inv split: sum.split
      dest: UserMiddleware_state user_allowAt_inv)

lemma user_step_maximum: "ul_maximumEntries (user_step lib x l) = ul_maximumEntries l"
  by (cases x) (auto split: sum.split dest!: UserMiddleware_state dest: user_allowAt_maximum)

interpretation ulreg: expiring_registry
  ul_entries ul_maximumEntries "\<lambda>l e. ue_lastSeen e + ul_entryIdleTTL l" ul_nextExpiryCheck
  user_inv "user_step lib" for lib
proof (unfold_locales, goal_cases)
  case (1 s x) then show ?case by (rule user_step_inv)
next
  case (2 s x) show ?case by (rule user_step_maximum)
qed (auto simp: user_inv_def)

lemma New_user_inv: "user_inv (NewUserLimiterWithConfig h config)"
  by (auto simp: NewUserLimiterWithConfig_def Let_def user_inv_def positive_or_def nat_less_iff)

section \<open>No panic\<close>

lemma setRate_ok: "0 < rpm \<Longrightarrow> \<exists>b'. setRate lib b now rpm = Inr b'"
  by (simp add: setRate_def go_div_pos duration_defs)

lemma refreshedFallback_ok: "0 < rpm \<Longrightarrow> \<exists>b r. refreshedFallback lib rpm now ttl fb = Inr (b, r)"
proof (cases "fb_limiter fb")
  case (Some b)
  assume "0 < rpm"
  then show ?thesis using setRate_ok [of rpm lib b now] Some by (auto simp: refreshedFallback_def)
qed (simp add: refreshedFallback_def)

lemma user_allowAt_ok:
  assumes "0 < rpm"
  shows "\<exists>ok l'. user_allowAt lib u rpm now l = Inr (ok, l')"
proof (cases "lookup (ul_entries l) u")
  case (Some e)
  then show ?thesis using setRate_ok [OF assms, of lib "ue_limiter e" now]
    by (auto simp: user_allowAt_def Let_def split_def)
next
  case None
  let ?l = "user_prepared now l"
  have eq: "(if ul_maximumEntries l \<le> int (length (ul_entries l)) \<and>
      (case ul_nextExpiryCheck l of None \<Rightarrow> True | Some t \<Rightarrow> \<not> now < t)
      then cleanupExpiredEntriesLocked now l else l) = ?l" by (simp add: user_prepared_def)
  obtain b r where "refreshedFallback lib rpm now (ul_entryIdleTTL l)
      (ul_fallbackBuckets ?l ! user_fallbackBucketIndexFor ?l u) = Inr (b, r)"
    using refreshedFallback_ok [OF assms, of lib now "ul_entryIdleTTL l"
        "ul_fallbackBuckets ?l ! user_fallbackBucketIndexFor ?l u"] by auto
  then show ?thesis unfolding user_allowAt_def Let_def None option.case eq
    by (simp add: split_def)
qed

lemma refreshedFallback_active:
  assumes "refreshedFallback lib rpm now ttl fb = Inr (b, r)"
    and "fb_limiter fb \<noteq> None" and "now < fb_lastSeen fb + ttl"
  shows "r = min rpm (fb_rpm fb)"
  using assms by (auto simp: refreshedFallback_def map_sum_eq_Inr split: option.splits if_splits)

section \<open>A small concrete limiter\<close>

definition demo_user :: "string \<Rightarrow> User" where
  "demo_user i = \<lparr>u_ID = i, u_Username = i, u_PasswordHash = ''h'', u_Role = RoleUser,
     u_Enabled = True, u_TierID = ''t1'', u_SuccessCalls = 0, u_SuccessPeriod = ''2023-11'',
     u_TokenVersion = 0, u_CreatedAt = 0, u_UpdatedAt = 0\<rparr>"

definition demo_ctx :: "string \<Rightarrow> int \<Rightarrow> Context" where
  "demo_ctx i rpm = emptyContext\<lparr>ctx_ToolName := Some ''web_search'',
     ctx_User := Some \<lparr>au_User = demo_user i, au_RPM = rpm, au_SuccessLimit = 0\<rparr>\<rparr>"

definition user_demo_config :: UserLimiterConfig where
  "user_demo_config = \<lparr>ulc_MaximumEntries = 1, ulc_FallbackBucketCount = 1, ulc_EntryIdleTTL = 0,
     ulc_CleanupInterval = 0\<rparr>"

definition user_demo :: "integer_bucket UserLimiter" where
  "user_demo = fold (user_step integer_buckets)
     [UlRequest (demo_ctx ''a'' 2) 0, UlRequest (demo_ctx ''b'' 9) 1]
     (NewUserLimiterWithConfig (\<lambda>_. 0) user_demo_config)"

lemma user_demo_inv: "user_inv user_demo"
  unfolding user_demo_def by (rule ulreg.reg_run_inv [OF New_user_inv])

section \<open>Properties\<close>

text \<open>
  The per-user registry is bounded: after any sequence of requests through the middleware and
  cleanup ticks it holds at most the configured maximum of entries, capped at 65536, one per user id,
  and the reported entry count is exact.
\<close>

theorem user_limiter_bounded:
  "let l = fold (user_step lib) ops (NewUserLimiterWithConfig h config) in
    int (length (ul_entries l)) \<le> ul_maximumEntries l \<and> ul_maximumEntries l \<le> 65536 \<and>
    map_ok (ul_entries l) \<and>
    ulm_CurrentEntries (user_Metrics (Some l)) = int (length (ul_entries l))"
proof -
  let ?init = "NewUserLimiterWithConfig h config"
  let ?l = "fold (user_step lib) ops ?init"
  have "ul_maximumEntries ?init \<le> 65536" by (simp add: NewUserLimiterWithConfig_def Let_def)
  moreover have "user_inv ?l" by (rule ulreg.reg_run_inv [OF New_user_inv])
  ultimately show ?thesis
    using ulreg.reg_run_bounded [OF New_user_inv, of lib ops h config]
      ulreg.reg_run_capacity [OF New_user_inv, of lib ops h config]
    by (simp add: Let_def user_inv_def user_Metrics_def)
qed

text \<open>
  The middleware never panics, whatever the tier's rate: the branches that divide a minute by
  the rate are reached with a positive rate only. Requests that carry no tool name or no user, and
  users whose tier is unlimited (rate 0), pass without touching the limiter; a negative rate is
  answered 500.
\<close>

theorem user_middleware_never_panics:
  "\<exists>out l'. UserMiddleware lib now ctx l = Inr (out, l') \<and>
    (case (ctx_ToolName ctx, ctx_User ctx) of
       (Some tool, Some user) \<Rightarrow>
         (tool = [] \<or> au_RPM user = 0 \<longrightarrow> out = Next ctx \<and> l' = l) \<and>
         (tool \<noteq> [] \<and> au_RPM user < 0 \<longrightarrow> l' = l \<and> (\<exists>e. out = Respond e \<and> status e = 500)) \<and>
         (tool \<noteq> [] \<and> 0 < au_RPM user \<longrightarrow>
            (\<exists>ok. user_allowAt lib (u_ID (au_User user)) (au_RPM user) now l = Inr (ok, l') \<and>
               out = (if ok then Next ctx else Respond too_many_requests)))
     | _ \<Rightarrow> out = Next ctx \<and> l' = l)"
proof (cases "ctx_ToolName ctx")
  case (Some tool)
  note tool = Some
  show ?thesis
  proof (cases "ctx_User ctx")
    case (Some user)
    show ?thesis
    proof (cases "0 < au_RPM user")
      case True
      then show ?thesis
        using user_allowAt_ok [OF True, of lib "u_ID (au_User user)" now l] tool Some
        by (auto simp: UserMiddleware_def)
    next
      case False
      then show ?thesis using tool Some by (auto simp: UserMiddleware_def http_Error_def)
    qed
  qed (use tool in \<open>auto simp: UserMiddleware_def\<close>)
qed (simp add: UserMiddleware_def)

theorem user_middleware_never_panics_witness:
  "\<exists>out l'. UserMiddleware integer_buckets 5 (demo_ctx ''a'' 7) user_demo = Inr (out, l') \<and>
     (\<exists>ok. user_allowAt integer_buckets ''a'' 7 5 user_demo = Inr (ok, l'))"
  using user_middleware_never_panics [of integer_buckets 5 "demo_ctx ''a'' 7" user_demo]
  by (auto simp: demo_ctx_def emptyContext_def demo_user_def)

text \<open>
  A shared fallback bucket never becomes more permissive while it is active: an overflow user
  with a higher rate keeps the bucket's lower rate, one with a lower rate tightens it. Only a bucket
  idle for the whole time-to-live is reset.
\<close>

theorem fallback_bucket_only_tightens:
  assumes "user_inv l" and "0 < rpm"
    and "lookup (ul_entries l) u = None"
    and "user_allowAt lib u rpm now l = Inr (ok, l')"
    and "lookup (ul_entries l') u = None"
    and "i = user_fallbackBucketIndexFor (user_prepared now l) u"
    and "fb_limiter (ul_fallbackBuckets l ! i) \<noteq> None"
    and "now < fb_lastSeen (ul_fallbackBuckets l ! i) + ul_entryIdleTTL l"
  shows "fb_rpm (ul_fallbackBuckets l' ! i) = min rpm (fb_rpm (ul_fallbackBuckets l ! i)) \<and>
    (\<forall>j. j \<noteq> i \<longrightarrow> ul_fallbackBuckets l' ! j = ul_fallbackBuckets l ! j)"
  using assms(4)
proof (cases rule: user_allowAt_cases)
  case (fallback b' b r)
  have "i < length (ul_fallbackBuckets l)"
    using user_prepared_inv [OF assms(1), of now] assms(6)
    unfolding user_fallbackBucketIndexFor_def user_inv_def
    by (metis unat_mod_of_nat_less user_prepared_simps(1))
  moreover have "r = min rpm (fb_rpm (ul_fallbackBuckets l ! i))"
    using refreshedFallback_active [OF fallback(3)] assms(6-8) by simp
  ultimately show ?thesis using fallback(4) assms(6) by simp
qed (use assms(3,5) in \<open>auto simp: amap\<close>)

lemma user_demo_facts:
  "lookup (ul_entries user_demo) ''c'' = None"
  "user_fallbackBucketIndexFor (user_prepared 5 user_demo) ''c'' = 0"
  "fb_limiter (ul_fallbackBuckets user_demo ! 0) \<noteq> None"
  "5 < fb_lastSeen (ul_fallbackBuckets user_demo ! 0) + ul_entryIdleTTL user_demo"
  "fb_rpm (ul_fallbackBuckets user_demo ! 0) = 9"
  "case user_allowAt integer_buckets ''c'' 3 5 user_demo of
     Inr (ok, l') \<Rightarrow> lookup (ul_entries l') ''c'' = None | Inl _ \<Rightarrow> False"
  by code_simp+

theorem fallback_bucket_only_tightens_witness:
  "\<exists>ok l'. user_allowAt integer_buckets ''c'' 3 5 user_demo = Inr (ok, l') \<and>
     fb_rpm (ul_fallbackBuckets l' ! 0) = 3"
proof -
  obtain ok l' where r: "user_allowAt integer_buckets ''c'' 3 5 user_demo = Inr (ok, l')"
    and n: "lookup (ul_entries l') ''c'' = None"
    using user_demo_facts(6) by (auto split: sum.splits)
  show ?thesis
    using r fallback_bucket_only_tightens [OF user_demo_inv _ user_demo_facts(1) r n
        user_demo_facts(2) [symmetric] user_demo_facts(3,4)] user_demo_facts(5)
    by simp
qed

end
