(* ===== verification/Search_Concurrency.thy ===== *)
theory Search_Concurrency
  imports Rate_Lib Domain "HOL-Library.Multiset"
begin

text \<open>
  The search concurrency limiter, \<open>internal/ratelimit/search_concurrency_limiter.go\<close>. A release
  function captures the pointer to the user's entry, while cleanup may remove the entry from the
  map: the entries live in an explicit heap, the map holds addresses, and a lease holds the address
  it was granted on. The steps of all requests interleave freely in the relation \<open>sc_step\<close>; the
  invariant shows that the counters are exactly the leases outstanding and that no lease ever points
  to an entry that has been dropped.
\<close>

section \<open>State\<close>

record userConcurrencyEntry =
  ce_active :: int
  ce_lastSeen :: time

record lease =
  l_user :: string
  l_addr :: nat
  l_released :: bool

text \<open>
  The limiter's fields, the heap of its entries and the release functions handed out so far, each
  with the state of its \<open>sync.Once\<close>.
\<close>

record SearchConcurrencyLimiter =
  sc_globalLimit :: int
  sc_perUserLimit :: int
  sc_globalActive :: int
  sc_entries :: "(string, nat) gomap"
  sc_heap :: "userConcurrencyEntry list"
  sc_leases :: "lease list"

definition searchConcurrencyEntryIdleTimeout :: duration where
  "searchConcurrencyEntryIdleTimeout = 30 * Minute"

definition NewSearchConcurrencyLimiter :: "int \<Rightarrow> int \<Rightarrow> panic + SearchConcurrencyLimiter" where
  "NewSearchConcurrencyLimiter globalLimit perUserLimit =
     (if globalLimit \<le> 0
      then Inl (ExplicitPanic ''global search concurrency limit must be positive'')
      else if perUserLimit \<le> 0
      then Inl (ExplicitPanic ''per-user search concurrency limit must be positive'')
      else if globalLimit < perUserLimit
      then Inl (ExplicitPanic ''per-user search concurrency limit must not exceed global limit'')
      else Inr \<lparr>sc_globalLimit = globalLimit, sc_perUserLimit = perUserLimit, sc_globalActive = 0,
        sc_entries = [], sc_heap = [], sc_leases = []\<rparr>)"

section \<open>Operations\<close>

definition UpdateLimits ::
  "int \<Rightarrow> int \<Rightarrow> SearchConcurrencyLimiter \<Rightarrow> string + SearchConcurrencyLimiter" where
  "UpdateLimits globalLimit perUserLimit s =
     (if globalLimit \<le> 0 then Inl ''global search concurrency limit must be positive''
      else if perUserLimit \<le> 0 then Inl ''per-user search concurrency limit must be positive''
      else if globalLimit < perUserLimit
      then Inl ''per-user search concurrency limit must not exceed global limit''
      else Inr (s\<lparr>sc_globalLimit := globalLimit, sc_perUserLimit := perUserLimit\<rparr>))"

text \<open>The user's entry, allocated and stored in the map when it is missing.\<close>

definition userEntryFor ::
  "string \<Rightarrow> SearchConcurrencyLimiter \<Rightarrow> nat \<times> SearchConcurrencyLimiter" where
  "userEntryFor userID s =
     (case lookup (sc_entries s) userID of
        Some a \<Rightarrow> (a, s)
      | None \<Rightarrow> (length (sc_heap s),
          s\<lparr>sc_heap := sc_heap s @ [\<lparr>ce_active = 0, ce_lastSeen = 0\<rparr>],
            sc_entries := AList.update userID (length (sc_heap s)) (sc_entries s)\<rparr>))"

text \<open>\<open>tryAcquire\<close> returns the number of the lease granted, or the rejection message.\<close>

definition tryAcquire ::
  "string \<Rightarrow> time \<Rightarrow> SearchConcurrencyLimiter \<Rightarrow> (string + nat) \<times> SearchConcurrencyLimiter" where
  "tryAcquire userID now s =
     (if sc_globalLimit s \<le> sc_globalActive s
      then (Inl ''global search concurrency limit reached'', s)
      else
        let (a, s1) = userEntryFor userID s;
            s2 = s1\<lparr>sc_heap := (sc_heap s1)[a := (sc_heap s1 ! a)\<lparr>ce_lastSeen := now\<rparr>]\<rparr>
        in if sc_perUserLimit s2 \<le> ce_active (sc_heap s2 ! a)
           then (Inl ''user search concurrency limit reached'', s2)
           else (Inr (length (sc_leases s2)),
             s2\<lparr>sc_globalActive := sc_globalActive s2 + 1,
                sc_heap := (sc_heap s2)[a := (sc_heap s2 ! a)
                  \<lparr>ce_active := ce_active (sc_heap s2 ! a) + 1\<rparr>],
                sc_leases := sc_leases s2 @
                  [\<lparr>l_user = userID, l_addr = a, l_released = False\<rparr>]\<rparr>))"

text \<open>The release function of lease \<open>n\<close>; \<open>sync.Once\<close> makes a second call do nothing.\<close>

definition release :: "nat \<Rightarrow> time \<Rightarrow> SearchConcurrencyLimiter \<Rightarrow> SearchConcurrencyLimiter" where
  "release n now s =
     (if length (sc_leases s) \<le> n \<or> l_released (sc_leases s ! n) then s
      else let l = sc_leases s ! n; e = sc_heap s ! l_addr l
        in s\<lparr>sc_globalActive := sc_globalActive s - 1,
             sc_heap := (sc_heap s)[l_addr l :=
               e\<lparr>ce_active := ce_active e - 1, ce_lastSeen := now\<rparr>],
             sc_leases := (sc_leases s)[n := l\<lparr>l_released := True\<rparr>]\<rparr>)"

definition cleanupIdleEntries ::
  "time \<Rightarrow> SearchConcurrencyLimiter \<Rightarrow> SearchConcurrencyLimiter" where
  "cleanupIdleEntries now s =
     (let cutoff = now - searchConcurrencyEntryIdleTimeout
      in s\<lparr>sc_entries := filter (\<lambda>p. \<not> (ce_active (sc_heap s ! snd p) = 0 \<and>
             ce_lastSeen (sc_heap s ! snd p) < cutoff)) (sc_entries s)\<rparr>)"

text \<open>
  The admission half of \<open>Middleware\<close>: the request passes without a lease, passes holding the
  lease that its deferred \<open>release\<close> returns, or is answered 503.
\<close>

definition sc_Middleware ::
  "(string \<Rightarrow> bool) option \<Rightarrow> Context \<Rightarrow> time \<Rightarrow> SearchConcurrencyLimiter \<Rightarrow>
     (Context \<times> nat option) outcome \<times> SearchConcurrencyLimiter" where
  "sc_Middleware isSearchTool ctx now s =
     (case (ctx_ToolName ctx, isSearchTool) of
        (Some toolName, Some isSearch) \<Rightarrow>
          if toolName = [] \<or> \<not> isSearch toolName then (Next (ctx, None), s)
          else (case ctx_User ctx of
              None \<Rightarrow> (Next (ctx, None), s)
            | Some user \<Rightarrow>
                if u_ID (au_User user) = [] then (Next (ctx, None), s)
                else (case tryAcquire (u_ID (au_User user)) now s of
                    (Inl rejectionMessage, s') \<Rightarrow>
                      (Respond \<lparr>status = StatusServiceUnavailable, message = rejectionMessage,
                         set_headers = [(''Retry-After'', ''1'')]\<rparr>, s')
                  | (Inr n, s') \<Rightarrow> (Next (ctx, Some n), s')))
      | _ \<Rightarrow> (Next (ctx, None), s))"

section \<open>Interleaved steps\<close>

inductive sc_step :: "SearchConcurrencyLimiter \<Rightarrow> SearchConcurrencyLimiter \<Rightarrow> bool" where
  step_acquire: "sc_step s (snd (tryAcquire userID now s))"
| step_release: "sc_step s (release n now s)"
| step_update: "UpdateLimits g u s = Inr s' \<Longrightarrow> sc_step s s'"
| step_cleanup: "sc_step s (cleanupIdleEntries now s)"

inductive sc_reachable :: "SearchConcurrencyLimiter \<Rightarrow> bool" where
  sc_start: "NewSearchConcurrencyLimiter g u = Inr s \<Longrightarrow> sc_reachable s"
| sc_next: "sc_reachable s \<Longrightarrow> sc_step s s' \<Longrightarrow> sc_reachable s'"

inductive_cases sc_stepE: "sc_step s s'"

definition outstanding :: "string \<Rightarrow> SearchConcurrencyLimiter \<Rightarrow> int" where
  "outstanding u s = count_if (\<lambda>l. \<not> l_released l \<and> l_user l = u) (sc_leases s)"

definition sc_inv :: "SearchConcurrencyLimiter \<Rightarrow> bool" where
  "sc_inv s \<longleftrightarrow>
     map_ok (sc_entries s) \<and> distinct (map snd (sc_entries s)) \<and>
     (\<forall>u a. (u, a) \<in> set (sc_entries s) \<longrightarrow> a < length (sc_heap s) \<and>
        ce_active (sc_heap s ! a) = outstanding u s) \<and>
     (\<forall>l \<in> set (sc_leases s). \<not> l_released l \<longrightarrow> (l_user l, l_addr l) \<in> set (sc_entries s)) \<and>
     sc_globalActive s = count_if (\<lambda>l. \<not> l_released l) (sc_leases s) \<and>
     0 < sc_perUserLimit s \<and> sc_perUserLimit s \<le> sc_globalLimit s"

lemma sc_inv_addr_unique:
  "sc_inv s \<Longrightarrow> (u, a) \<in> set (sc_entries s) \<Longrightarrow> (v, a) \<in> set (sc_entries s) \<Longrightarrow> u = v"
  unfolding sc_inv_def by (metis (no_types, lifting) distinct_map inj_on_def prod.inject snd_conv)

lemma outstanding_absent:
  assumes "sc_inv s" and "lookup (sc_entries s) u = None"
  shows "outstanding u s = 0"
proof -
  have "u \<notin> fst ` set (sc_entries s)" using assms(2) by (simp add: map_of_eq_None_iff)
  then show ?thesis
    using assms(1) by (force simp: outstanding_def count_if_zero sc_inv_def)
qed

lemma userEntryFor_inv:
  assumes inv: "sc_inv s" and r: "userEntryFor u s = (a, s1)"
  shows "sc_inv s1 \<and> (u, a) \<in> set (sc_entries s1) \<and> sc_leases s1 = sc_leases s \<and>
    sc_globalActive s1 = sc_globalActive s \<and> sc_globalLimit s1 = sc_globalLimit s \<and>
    sc_perUserLimit s1 = sc_perUserLimit s"
proof (cases "lookup (sc_entries s) u")
  case (Some b)
  with assms show ?thesis by (auto simp: userEntryFor_def dest: map_of_SomeD)
next
  case None
  have ok: "map_ok (sc_entries s)" and hp: "\<And>v b. (v, b) \<in> set (sc_entries s) \<Longrightarrow> b < length (sc_heap s)"
    using inv by (auto simp: sc_inv_def)
  have fresh: "u \<notin> fst ` set (sc_entries s)" using None by (simp add: map_of_eq_None_iff)
  have s1: "s1 = s\<lparr>sc_heap := sc_heap s @ [\<lparr>ce_active = 0, ce_lastSeen = 0\<rparr>],
      sc_entries := AList.update u (length (sc_heap s)) (sc_entries s)\<rparr>"
    and a: "a = length (sc_heap s)" using r None by (auto simp: userEntryFor_def)
  have upd: "AList.update u (length (sc_heap s)) (sc_entries s) = sc_entries s @ [(u, length (sc_heap s))]"
    using fresh by (rule AList_update_fresh)
  have "length (sc_heap s) \<notin> snd ` set (sc_entries s)" using hp by force
  then show ?thesis
    using inv fresh outstanding_absent [OF inv None] hp
    by (fastforce simp: s1 a sc_inv_def upd map_ok_def outstanding_def nth_append)
qed

lemma touch_inv:
  assumes "sc_inv s"
  shows "sc_inv (s\<lparr>sc_heap := (sc_heap s)[a := (sc_heap s ! a)\<lparr>ce_lastSeen := now\<rparr>]\<rparr>)"
proof -
  have "ce_active ((sc_heap s)[a := (sc_heap s ! a)\<lparr>ce_lastSeen := now\<rparr>] ! b) = ce_active (sc_heap s ! b)"
    if "b < length (sc_heap s)" for b
    using that by (cases "a = b") simp_all
  then show ?thesis using assms by (auto simp: sc_inv_def outstanding_def)
qed

text \<open>Granting a lease on the entry \<open>a\<close> of user \<open>u\<close> keeps the accounting.\<close>

lemma grant_inv:
  assumes inv: "sc_inv s" and e: "(u, a) \<in> set (sc_entries s)"
  shows "sc_inv (s\<lparr>sc_globalActive := sc_globalActive s + 1,
     sc_heap := (sc_heap s)[a := (sc_heap s ! a)\<lparr>ce_active := ce_active (sc_heap s ! a) + 1\<rparr>],
     sc_leases := sc_leases s @ [\<lparr>l_user = u, l_addr = a, l_released = False\<rparr>]\<rparr>)"
    (is "sc_inv ?t")
proof -
  have "b < length (sc_heap ?t) \<and> ce_active (sc_heap ?t ! b) = outstanding v ?t"
    if vb: "(v, b) \<in> set (sc_entries s)" for v b
  proof -
    have "a = b \<longleftrightarrow> u = v" using sc_inv_addr_unique [OF inv] e vb inv
      by (metis eq_key_imp_eq_value map_ok_def sc_inv_def)
    then show ?thesis using inv e vb
      by (auto simp: sc_inv_def outstanding_def nth_list_update)
  qed
  then show ?thesis using inv e by (auto simp: sc_inv_def)
qed

lemma count_if_release:
  assumes "n < length ls" and "\<not> l_released (ls ! n)"
  shows "count_if (\<lambda>l. \<not> l_released l \<and> Q (l_user l)) (ls[n := (ls ! n)\<lparr>l_released := True\<rparr>]) =
    count_if (\<lambda>l. \<not> l_released l \<and> Q (l_user l)) ls - (if Q (l_user (ls ! n)) then 1 else 0)"
  using assms by (simp add: count_if_update)

lemma release_inv:
  assumes inv: "sc_inv s"
  shows "sc_inv (release n now s)"
proof (cases "length (sc_leases s) \<le> n \<or> l_released (sc_leases s ! n)")
  case True
  then show ?thesis using inv by (simp add: release_def)
next
  case False
  define l where "l = sc_leases s ! n"
  have n: "n < length (sc_leases s)" "\<not> l_released (sc_leases s ! n)" using False by auto
  then have e: "(l_user l, l_addr l) \<in> set (sc_entries s)"
    using inv by (simp add: sc_inv_def l_def)
  let ?t = "release n now s"
  have acc: "b < length (sc_heap ?t) \<and> ce_active (sc_heap ?t ! b) = outstanding v ?t"
    if vb: "(v, b) \<in> set (sc_entries s)" for v b
  proof -
    have "l_addr l = b \<longleftrightarrow> l_user l = v" using sc_inv_addr_unique [OF inv] e vb inv
      by (metis eq_key_imp_eq_value map_ok_def sc_inv_def)
    then show ?thesis using inv vb n count_if_release [OF n, of "\<lambda>x. x = v"]
      by (auto simp: sc_inv_def outstanding_def release_def Let_def nth_list_update l_def)
  qed
  have "sc_globalActive ?t = count_if (\<lambda>l. \<not> l_released l) (sc_leases ?t)"
    using inv n count_if_release [OF n, of "\<lambda>_. True"]
    by (simp add: sc_inv_def release_def Let_def)
  moreover have "\<forall>k \<in> set (sc_leases ?t). \<not> l_released k \<longrightarrow> (l_user k, l_addr k) \<in> set (sc_entries s)"
    using inv n by (auto simp: sc_inv_def release_def Let_def dest!: set_update_subset_insert [THEN subsetD])
  ultimately show ?thesis using inv n acc
    by (simp add: sc_inv_def release_def Let_def)
qed

lemma outstanding_pos:
  "l \<in> set (sc_leases s) \<Longrightarrow> \<not> l_released l \<Longrightarrow> 0 < outstanding (l_user l) s"
  by (auto simp: outstanding_def count_if_pos)

lemma cleanupIdleEntries_inv:
  assumes inv: "sc_inv s"
  shows "sc_inv (cleanupIdleEntries now s)"
proof -
  have keep: "(l_user l, l_addr l) \<in> set (sc_entries (cleanupIdleEntries now s))"
    if "l \<in> set (sc_leases s)" "\<not> l_released l" for l
    using inv that outstanding_pos [OF that] by (auto simp: sc_inv_def cleanupIdleEntries_def Let_def)
  have "map_ok (filter P (sc_entries s))" "distinct (map snd (filter P (sc_entries s)))" for P
    using inv by (auto simp: sc_inv_def map_ok_def distinct_map_filter)
  then show ?thesis using inv keep
    by (auto simp: sc_inv_def cleanupIdleEntries_def Let_def outstanding_def)
qed

lemma UpdateLimits_inv: "sc_inv s \<Longrightarrow> UpdateLimits g u s = Inr s' \<Longrightarrow> sc_inv s'"
  by (auto simp: UpdateLimits_def sc_inv_def outstanding_def split: if_splits)

text \<open>The three outcomes of \<open>tryAcquire\<close>, by the entry it works on.\<close>

lemma tryAcquire_cases:
  assumes "tryAcquire u now s = (r, s')"
  obtains (global) "sc_globalLimit s \<le> sc_globalActive s"
      "r = Inl ''global search concurrency limit reached''" "s' = s"
  | (user) a s1 where "sc_globalActive s < sc_globalLimit s" "userEntryFor u s = (a, s1)"
      "r = Inl ''user search concurrency limit reached''"
      "s' = s1\<lparr>sc_heap := (sc_heap s1)[a := (sc_heap s1 ! a)\<lparr>ce_lastSeen := now\<rparr>]\<rparr>"
      "sc_perUserLimit s' \<le> ce_active (sc_heap s' ! a)"
  | (granted) a s1 s2 where "sc_globalActive s < sc_globalLimit s" "userEntryFor u s = (a, s1)"
      "s2 = s1\<lparr>sc_heap := (sc_heap s1)[a := (sc_heap s1 ! a)\<lparr>ce_lastSeen := now\<rparr>]\<rparr>"
      "ce_active (sc_heap s2 ! a) < sc_perUserLimit s2" "r = Inr (length (sc_leases s2))"
      "s' = s2\<lparr>sc_globalActive := sc_globalActive s2 + 1,
         sc_heap := (sc_heap s2)[a := (sc_heap s2 ! a)\<lparr>ce_active := ce_active (sc_heap s2 ! a) + 1\<rparr>],
         sc_leases := sc_leases s2 @ [\<lparr>l_user = u, l_addr = a, l_released = False\<rparr>]\<rparr>"
  using assms unfolding tryAcquire_def Let_def
  by (cases "userEntryFor u s") (fastforce split: if_splits)

lemma tryAcquire_inv:
  assumes "sc_inv s"
  shows "sc_inv (snd (tryAcquire u now s))"
proof -
  obtain r s' where t: "tryAcquire u now s = (r, s')" by fastforce
  show ?thesis using t
  proof (cases rule: tryAcquire_cases)
    case global with t assms show ?thesis by simp
  next
    case (user a s1) with t userEntryFor_inv [OF assms user(2)] touch_inv show ?thesis by simp
  next
    case (granted a s1 s2)
    then have "sc_inv s2" "(u, a) \<in> set (sc_entries s2)"
      using userEntryFor_inv [OF assms granted(2)] touch_inv by simp_all
    then show ?thesis using t granted(6) grant_inv by simp
  qed
qed

lemma sc_step_inv: "sc_step s s' \<Longrightarrow> sc_inv s \<Longrightarrow> sc_inv s'"
  by (erule sc_stepE) (auto intro: tryAcquire_inv release_inv UpdateLimits_inv cleanupIdleEntries_inv)

lemma sc_reachable_inv: "sc_reachable s \<Longrightarrow> sc_inv s"
proof (induction rule: sc_reachable.induct)
  case (sc_start g u s)
  then show ?case
    by (auto simp: NewSearchConcurrencyLimiter_def sc_inv_def map_ok_def split: if_splits)
qed (rule sc_step_inv)

section \<open>Specification\<close>

text \<open>
  What the limiter promises, without entries, heap or counters: the users whose searches are
  running, as a multiset. A search starts when fewer than the global limit run and its user runs
  fewer than the per-user limit; a release ends one search of its user.
\<close>

definition running :: "SearchConcurrencyLimiter \<Rightarrow> string multiset" where
  "running s = image_mset l_user (mset (filter (\<lambda>l. \<not> l_released l) (sc_leases s)))"

definition start_search :: "int \<Rightarrow> int \<Rightarrow> string \<Rightarrow> string multiset \<Rightarrow> bool \<times> string multiset" where
  "start_search globalLimit perUserLimit u M =
     (if int (size M) < globalLimit \<and> int (count M u) < perUserLimit
      then (True, add_mset u M) else (False, M))"

definition end_search :: "lease option \<Rightarrow> string multiset \<Rightarrow> string multiset" where
  "end_search l M = (case l of Some k \<Rightarrow> (if l_released k then M else M - {#l_user k#}) | None \<Rightarrow> M)"

definition lease_at :: "nat \<Rightarrow> SearchConcurrencyLimiter \<Rightarrow> lease option" where
  "lease_at n s = (if n < length (sc_leases s) then Some (sc_leases s ! n) else None)"

lemma count_running: "int (count (running s) u) = outstanding u s"
proof -
  have "int (count (image_mset l_user (mset (filter (\<lambda>l. \<not> l_released l) ls))) u) =
    count_if (\<lambda>l. \<not> l_released l \<and> l_user l = u) ls" for ls :: "lease list"
    by (induction ls) auto
  then show ?thesis by (simp add: running_def outstanding_def)
qed

lemma size_running: "sc_inv s \<Longrightarrow> int (size (running s)) = sc_globalActive s"
  by (simp add: sc_inv_def running_def count_if_def flip: mset_filter)

lemma entry_active:
  "sc_inv s \<Longrightarrow> (u, a) \<in> set (sc_entries s) \<Longrightarrow>
     a < length (sc_heap s) \<and> ce_active (sc_heap s ! a) = int (count (running s) u)"
  by (simp add: sc_inv_def count_running)

lemma tryAcquire_refines:
  assumes inv: "sc_inv s" and t: "tryAcquire u now s = (r, s')"
  shows "start_search (sc_globalLimit s) (sc_perUserLimit s) u (running s) = (\<not> isl r, running s')"
  using t
proof (cases rule: tryAcquire_cases)
  case global
  then show ?thesis using size_running [OF inv] by (simp add: start_search_def)
next
  case (user a s1)
  note f = userEntryFor_inv [OF inv user(2)]
  have "running s' = running s" using f user(4) by (simp add: running_def)
  moreover have "sc_perUserLimit s \<le> int (count (running s) u)"
    using entry_active [of s1 u a] f user(4,5) by (simp add: running_def)
  ultimately show ?thesis using user(3) by (simp add: start_search_def)
next
  case (granted a s1 s2)
  note f = userEntryFor_inv [OF inv granted(2)]
  have "running s' = add_mset u (running s)"
    using f granted(3,6) by (simp add: running_def)
  moreover have "int (count (running s) u) < sc_perUserLimit s"
    using entry_active [of s1 u a] f granted(3,4) by (simp add: running_def)
  ultimately show ?thesis using granted(1,5) size_running [OF inv] by (simp add: start_search_def)
qed

lemma tryAcquire_lease:
  assumes inv: "sc_inv s" and t: "tryAcquire v now s = (r, s')"
  shows "\<forall>n. r = Inr n \<longrightarrow> lease_at n s = None \<and> (\<exists>k. lease_at n s' = Some k \<and> l_user k = v \<and> \<not> l_released k)"
  using t
proof (cases rule: tryAcquire_cases)
  case (granted a s1 s2)
  then show ?thesis using userEntryFor_inv [OF inv granted(2)] by (simp add: lease_at_def)
qed simp_all

lemma release_refines: "running (release n now s) = end_search (lease_at n s) (running s)"
proof -
  have "image_mset l_user (mset (filter (\<lambda>l. \<not> l_released l) (ls[n := (ls ! n)\<lparr>l_released := True\<rparr>]))) =
      image_mset l_user (mset (filter (\<lambda>l. \<not> l_released l) ls)) - {#l_user (ls ! n)#}"
    if "n < length ls" "\<not> l_released (ls ! n)" for ls :: "lease list"
    using that
  proof (induction ls arbitrary: n)
    case (Cons l ls)
    show ?case
    proof (cases n)
      case 0 with Cons show ?thesis by simp
    next
      case (Suc m)
      then have "l_user (ls ! m) \<in># image_mset l_user (mset (filter (\<lambda>l. \<not> l_released l) ls))"
        using Cons.prems by auto
      with Suc Cons show ?thesis by simp
    qed
  qed simp
  then show ?thesis
    by (auto simp: running_def release_def end_search_def lease_at_def Let_def not_le)
qed

text \<open>A lease ends its search once: calling its release function again does nothing.\<close>

lemma release_again: "release n now' (release n now s) = release n now s"
  by (auto simp: release_def Let_def)

lemma release_granted:
  assumes inv: "sc_inv s" and t: "tryAcquire v now s = (Inr n, s1)"
  shows "running (release n now' s1) = running s"
proof -
  obtain k where "lease_at n s1 = Some k" "l_user k = v" "\<not> l_released k"
    using tryAcquire_lease [OF inv t] by auto
  moreover have "running s1 = add_mset v (running s)"
    using tryAcquire_refines [OF inv t] by (auto simp: start_search_def split: if_splits)
  ultimately show ?thesis by (simp add: release_refines end_search_def)
qed

section \<open>A small concrete limiter\<close>

text \<open>Limits 2 and 1; user \<open>a\<close> holds a lease.\<close>

definition sc_demo_new :: SearchConcurrencyLimiter where
  "sc_demo_new = \<lparr>sc_globalLimit = 2, sc_perUserLimit = 1, sc_globalActive = 0,
     sc_entries = [], sc_heap = [], sc_leases = []\<rparr>"

definition sc_demo :: SearchConcurrencyLimiter where
  "sc_demo = snd (tryAcquire ''a'' 7 sc_demo_new)"

lemma sc_demo_reachable: "sc_reachable sc_demo"
proof -
  have "NewSearchConcurrencyLimiter 2 1 = Inr sc_demo_new"
    by (simp add: NewSearchConcurrencyLimiter_def sc_demo_new_def)
  then show ?thesis unfolding sc_demo_def by (blast intro: sc_next sc_start step_acquire)
qed

lemma sc_demo_eq: "sc_demo = \<lparr>sc_globalLimit = 2, sc_perUserLimit = 1, sc_globalActive = 1,
  sc_entries = [(''a'', 0)], sc_heap = [\<lparr>ce_active = 1, ce_lastSeen = 7\<rparr>],
  sc_leases = [\<lparr>l_user = ''a'', l_addr = 0, l_released = False\<rparr>]\<rparr>"
  by code_simp

lemma sc_demo_running: "running sc_demo = {#''a''#}"
  by (simp add: sc_demo_eq running_def)

definition sc_demo_ctx :: Context where
  "sc_demo_ctx = emptyContext\<lparr>ctx_ToolName := Some ''web_search'',
     ctx_User := Some \<lparr>au_User = \<lparr>u_ID = ''a'', u_Username = ''a'', u_PasswordHash = [],
       u_Role = RoleUser, u_Enabled = True, u_TierID = ''t'', u_SuccessCalls = 0,
       u_SuccessPeriod = [], u_TokenVersion = 0, u_CreatedAt = 0, u_UpdatedAt = 0\<rparr>,
       au_RPM = 1, au_SuccessLimit = 1\<rparr>\<rparr>"

section \<open>Properties\<close>

text \<open>
  (C24) The limiter refines its specification. From any reachable state, however acquisitions,
  releases, limit updates and cleanups were interleaved: \<open>tryAcquire\<close> grants exactly when the
  specification starts the search, and the searches running afterwards are the specification's;
  the release function of any lease ends one search of its user, and none when it was released
  before; a limit update and a cleanup leave the running searches alone.
\<close>

theorem search_concurrency_refines:
  assumes "sc_reachable s"
  shows "start_search (sc_globalLimit s) (sc_perUserLimit s) u (running s) =
      (\<not> isl (fst (tryAcquire u now s)), running (snd (tryAcquire u now s))) \<and>
    running (release n now s) = end_search (lease_at n s) (running s) \<and>
    (\<forall>s'. UpdateLimits g p s = Inr s' \<longrightarrow> running s' = running s) \<and>
    running (cleanupIdleEntries now s) = running s"
proof -
  have "\<forall>s'. UpdateLimits g p s = Inr s' \<longrightarrow> running s' = running s"
    and "running (cleanupIdleEntries now s) = running s"
    by (auto simp: UpdateLimits_def cleanupIdleEntries_def running_def Let_def split: if_splits)
  then show ?thesis
    using tryAcquire_refines [OF sc_reachable_inv [OF assms] prod.collapse [symmetric]] release_refines
    by blast
qed

theorem search_concurrency_refines_witness:
  "start_search (sc_globalLimit sc_demo) (sc_perUserLimit sc_demo) ''b'' (running sc_demo) =
     (\<not> isl (fst (tryAcquire ''b'' 9 sc_demo)), running (snd (tryAcquire ''b'' 9 sc_demo))) \<and>
   fst (tryAcquire ''b'' 9 sc_demo) = Inr 1 \<and> running (release 0 9 sc_demo) = {#}"
proof -
  have "fst (tryAcquire ''b'' 9 sc_demo) = Inr 1" by code_simp
  then show ?thesis
    using search_concurrency_refines [OF sc_demo_reachable, of "''b''" 9 0]
    by (simp add: sc_demo_running end_search_def lease_at_def) (simp add: sc_demo_eq)
qed

text \<open>
  The accounting is exact and alias-safe. In every reachable state the global counter is the
  number of release functions not yet called, the counter of each user's entry is the number of
  that user's, and the entry captured by an outstanding release function is the one the map still
  holds for its user: cleanup never drops an entry in use, so no two live entries of a user can
  split its count.
\<close>

theorem search_accounting_exact:
  assumes "sc_reachable s"
  shows "sc_globalActive s = int (size (running s)) \<and> 0 \<le> sc_globalActive s \<and>
    (\<forall>u a. lookup (sc_entries s) u = Some a \<longrightarrow> a < length (sc_heap s) \<and>
       ce_active (sc_heap s ! a) = int (count (running s) u)) \<and>
    (\<forall>l \<in> set (sc_leases s). \<not> l_released l \<longrightarrow> lookup (sc_entries s) (l_user l) = Some (l_addr l))"
proof -
  have inv: "sc_inv s" using assms by (rule sc_reachable_inv)
  have "\<forall>l \<in> set (sc_leases s). \<not> l_released l \<longrightarrow> lookup (sc_entries s) (l_user l) = Some (l_addr l)"
    using inv by (auto simp: sc_inv_def map_ok_def)
  then show ?thesis using size_running [OF inv] entry_active [OF inv]
    by (auto dest: map_of_SomeD)
qed

theorem search_accounting_exact_witness:
  "sc_globalActive sc_demo = int (size (running sc_demo)) \<and> sc_leases sc_demo \<noteq> [] \<and>
   lookup (sc_entries sc_demo) ''a'' = Some 0"
  using search_accounting_exact [OF sc_demo_reachable] by (simp add: sc_demo_eq)

lemma running_step_bound:
  assumes "sc_inv s" and "sc_step s s'"
  shows "int (size (running s')) \<le> max (int (size (running s))) (sc_globalLimit s) \<and>
    int (count (running s') u) \<le> max (int (count (running s) u)) (sc_perUserLimit s)"
  using assms(2)
proof cases
  case (step_acquire userID now)
  then show ?thesis
    using tryAcquire_refines [OF assms(1) prod.collapse [symmetric], of userID now]
    by (auto simp: start_search_def split: if_splits dest!: sym [of "add_mset _ _"])
next
  case (step_release n now)
  have "end_search l M \<subseteq># M" for l and M :: "string multiset"
    by (auto simp: end_search_def split: option.splits)
  then have "running s' \<subseteq># running s" using step_release release_refines by metis
  then have "size (running s') \<le> size (running s)" "count (running s') u \<le> count (running s) u"
    by (simp_all add: size_mset_mono mset_subset_eq_count)
  then show ?thesis by linarith
qed (auto simp: UpdateLimits_def cleanupIdleEntries_def running_def Let_def split: if_splits)

text \<open>
  Backpressure. No step raises the number of running searches above the global limit in
  force, nor the number of one user's above the per-user limit in force: after limits are lowered
  the excess only drains.
\<close>

theorem search_backpressure:
  assumes "sc_reachable s" and "sc_step s s'"
  shows "int (size (running s')) \<le> max (int (size (running s))) (sc_globalLimit s) \<and>
    int (count (running s') u) \<le> max (int (count (running s) u)) (sc_perUserLimit s)"
  by (rule running_step_bound [OF sc_reachable_inv [OF assms(1)] assms(2)])

theorem search_backpressure_witness:
  "int (size (running (snd (tryAcquire ''b'' 9 sc_demo)))) \<le> 2 \<and>
   int (count (running (snd (tryAcquire ''b'' 9 sc_demo))) ''b'') \<le> 1"
  using search_backpressure [OF sc_demo_reachable step_acquire [of sc_demo "''b''" 9], of "''b''"]
  by (simp add: sc_demo_running) (simp add: sc_demo_eq)

text \<open>
  The middleware. Requests without a tool name, without a classifier, for a tool that is not
  a search, or without an authenticated user pass without a lease and leave the limiter as it is;
  every other request either runs under a fresh lease of its user or is answered 503 with
  \<open>Retry-After: 1\<close>, the latter exactly when one of the two limits is reached.
\<close>

theorem search_middleware_outcomes:
  assumes "sc_reachable s"
  shows "let searching = (\<exists>tool isSearch user. ctx_ToolName ctx = Some tool \<and> tool \<noteq> [] \<and>
           cls = Some isSearch \<and> isSearch tool \<and> ctx_User ctx = Some user \<and> u_ID (au_User user) \<noteq> []);
         u = u_ID (au_User (the (ctx_User ctx)))
    in case sc_Middleware cls ctx now s of
      (Next (ctx', None), s') \<Rightarrow> \<not> searching \<and> ctx' = ctx \<and> s' = s
    | (Next (ctx', Some n), s') \<Rightarrow> searching \<and> ctx' = ctx \<and>
        lease_at n s = None \<and> (\<exists>k. lease_at n s' = Some k \<and> l_user k = u \<and> \<not> l_released k) \<and>
        running s' = add_mset u (running s)
    | (Respond e, s') \<Rightarrow> searching \<and> status e = 503 \<and> set_headers e = [(''Retry-After'', ''1'')] \<and>
        running s' = running s \<and>
        (sc_globalLimit s \<le> int (size (running s)) \<or> sc_perUserLimit s \<le> int (count (running s) u))"
proof -
  note refine = tryAcquire_refines [OF sc_reachable_inv [OF assms], of _ now]
  show ?thesis
  proof (cases "\<exists>tool isSearch user. ctx_ToolName ctx = Some tool \<and> tool \<noteq> [] \<and>
      cls = Some isSearch \<and> isSearch tool \<and> ctx_User ctx = Some user \<and> u_ID (au_User user) \<noteq> []")
    case False
    then have "sc_Middleware cls ctx now s = (Next (ctx, None), s)"
      by (auto simp: sc_Middleware_def split: option.split)
    with False show ?thesis by simp
  next
    case True
    then obtain tool isSearch user where c: "ctx_ToolName ctx = Some tool" "tool \<noteq> []"
      "cls = Some isSearch" "isSearch tool" "ctx_User ctx = Some user" "u_ID (au_User user) \<noteq> []"
      by blast
    obtain r s' where t: "tryAcquire (u_ID (au_User user)) now s = (r, s')" by fastforce
    show ?thesis using refine [OF t] tryAcquire_lease [OF sc_reachable_inv [OF assms] t] t c
      by (cases r) (auto simp: sc_Middleware_def Let_def start_search_def not_less split: if_splits)
  qed
qed

theorem search_middleware_outcomes_witness:
  "case sc_Middleware (Some (\<lambda>t. t = ''web_search'')) sc_demo_ctx 9 sc_demo of
     (Respond e, s') \<Rightarrow> status e = 503 \<and> running s' = running sc_demo | _ \<Rightarrow> False"
proof -
  have "case fst (sc_Middleware (Some (\<lambda>t. t = ''web_search'')) sc_demo_ctx 9 sc_demo) of
    Respond e \<Rightarrow> True | _ \<Rightarrow> False" by code_simp
  then show ?thesis
    using search_middleware_outcomes [OF sc_demo_reachable, of sc_demo_ctx
        "Some (\<lambda>t. t = ''web_search'')" 9]
    by (auto simp: Let_def split: prod.splits outcome.splits)
qed

end
