(* ===== verification/Pagination.thy ===== *)
theory Pagination
  imports Domain "HOL-Library.Char_ord" "HOL-Library.List_Lexorder" "HOL-Library.Product_Lexorder"
begin

text \<open>
  Keyset pagination, \<open>internal/store/pagination.go\<close> and \<open>normalizePanelPageLimit\<close> of
  \<open>sqlite_helpers.go\<close>. A list query selects the rows after the cursor in \<open>(time, id)\<close> order, one
  more than the page holds; the extra row only tells that there is a next page. The theory shows
  that following the cursors visits every row exactly once, in order.
\<close>

section \<open>The page code\<close>

datatype timeIDSortDirection = timeIDAscending | timeIDDescending

text \<open>Byte order of ids is SQLite's BINARY collation; times compare as instants.\<close>

definition timeIDCursorPredicate ::
  "timeIDSortDirection \<Rightarrow> time \<times> 'k::linorder \<Rightarrow> time \<times> 'k \<Rightarrow> bool" where
  "timeIDCursorPredicate direction cursor row = (case direction of
     timeIDAscending \<Rightarrow> fst cursor < fst row \<or> fst row = fst cursor \<and> snd cursor < snd row
   | timeIDDescending \<Rightarrow> fst row < fst cursor \<or> fst row = fst cursor \<and> snd row < snd cursor)"

definition normalizePanelPageLimit :: "int \<Rightarrow> int" where
  "normalizePanelPageLimit limit = (if limit \<le> 0 then 50 else if 100 < limit then 100 else limit)"

definition keysetFetchLimit :: "int \<Rightarrow> int" where
  "keysetFetchLimit pageLimit = pageLimit + 1"

definition finalizeTimeIDPage ::
  "'r list \<Rightarrow> int \<Rightarrow> ('r \<Rightarrow> 'c) \<Rightarrow> 'r list \<times> bool \<times> 'c option" where
  "finalizeTimeIDPage fetchedItems pageLimit cursorForItem =
     (if int (length fetchedItems) \<le> pageLimit then (fetchedItems, False, None)
      else let items = take (nat pageLimit) fetchedItems
        in (items, True, Some (cursorForItem (last items))))"

text \<open>
  The query \<open>SELECT .. WHERE <cursor predicate> ORDER BY time, id LIMIT n\<close>, both columns in the
  direction given; the cursor's time goes through \<open>formatTime\<close>, which cuts it to seconds.
\<close>

definition ordered_rows ::
  "timeIDSortDirection \<Rightarrow> ('r \<Rightarrow> time \<times> 'k::linorder) \<Rightarrow> 'r list \<Rightarrow> 'r list" where
  "ordered_rows direction key rows = (case direction of
     timeIDAscending \<Rightarrow> sort_key key rows
   | timeIDDescending \<Rightarrow> rev (sort_key key rows))"

definition rows_after ::
  "timeIDSortDirection \<Rightarrow> ('r \<Rightarrow> time \<times> 'k::linorder) \<Rightarrow> (time \<times> 'k) option \<Rightarrow> 'r list \<Rightarrow> 'r list" where
  "rows_after direction key cursor rows = (case cursor of
     None \<Rightarrow> ordered_rows direction key rows
   | Some c \<Rightarrow> filter (\<lambda>r. timeIDCursorPredicate direction (map_prod db_time id c) (key r))
       (ordered_rows direction key rows))"

definition keyset_query ::
  "timeIDSortDirection \<Rightarrow> ('r \<Rightarrow> time \<times> 'k::linorder) \<Rightarrow> (time \<times> 'k) option \<Rightarrow> int \<Rightarrow> 'r list \<Rightarrow> 'r list" where
  "keyset_query direction key cursor limit rows = take (nat limit) (rows_after direction key cursor rows)"

text \<open>One page, as every list operation of the store assembles it.\<close>

definition keyset_page ::
  "timeIDSortDirection \<Rightarrow> ('r \<Rightarrow> time \<times> 'k::linorder) \<Rightarrow> (time \<times> 'k) option \<Rightarrow> int \<Rightarrow> 'r list \<Rightarrow>
     'r list \<times> bool \<times> (time \<times> 'k) option" where
  "keyset_page direction key cursor limit rows =
     (let pageLimit = normalizePanelPageLimit limit
      in finalizeTimeIDPage
           (keyset_query direction key cursor (keysetFetchLimit pageLimit) rows) pageLimit key)"

section \<open>Walking the pages\<close>

text \<open>A client that follows \<open>NextCursor\<close> from one page function, at most \<open>fuel\<close> pages.\<close>

fun walk :: "nat \<Rightarrow> ('c option \<Rightarrow> 'r list \<times> bool \<times> 'c option) \<Rightarrow> 'c option \<Rightarrow> 'r list list" where
  "walk 0 page cursor = []"
| "walk (Suc fuel) page cursor =
     (case page cursor of (items, hasMore, nextCursor) \<Rightarrow>
        items # (if hasMore then walk fuel page nextCursor else []))"

lemma walk_map:
  assumes "\<And>c. page' c = (case page c of (items, m, n) \<Rightarrow> (map f items, m, n))"
  shows "walk fuel page' cursor = map (map f) (walk fuel page cursor)"
  using assms by (induction fuel arbitrary: cursor) (auto split: prod.split)

text \<open>A table whose rows can be paged: distinct keys, times as the database stores them.\<close>

definition pageable :: "('r \<Rightarrow> time \<times> 'k) \<Rightarrow> 'r list \<Rightarrow> bool" where
  "pageable key rows \<longleftrightarrow> distinct (map key rows) \<and> (\<forall>r \<in> set rows. db_time (fst (key r)) = fst (key r))"

definition before :: "timeIDSortDirection \<Rightarrow> time \<times> 'k::linorder \<Rightarrow> time \<times> 'k \<Rightarrow> bool" where
  "before direction a b = (case direction of timeIDAscending \<Rightarrow> a < b | timeIDDescending \<Rightarrow> b < a)"

lemma cursor_predicate_before: "timeIDCursorPredicate direction c k = before direction c k"
  by (cases c; cases k) (auto simp: timeIDCursorPredicate_def before_def less_prod_def
      split: timeIDSortDirection.split)

lemma before_trans: "before d a b \<Longrightarrow> before d b c \<Longrightarrow> before d a c"
  by (auto simp: before_def split: timeIDSortDirection.splits)

lemma before_irrefl [simp]: "\<not> before d a a"
  by (simp add: before_def split: timeIDSortDirection.split)

lemma ordered_rows_strict:
  assumes "distinct (map key rows)"
  shows "sorted_wrt (\<lambda>a b. before direction (key a) (key b)) (ordered_rows direction key rows)"
proof -
  have d: "distinct (map key (sort_key key rows))"
    using assms by (simp add: distinct_map)
  have "sorted_wrt (<) (map key (sort_key key rows))"
    using d by (simp add: strict_sorted_iff)
  then show ?thesis
    by (cases direction)
      (simp_all add: ordered_rows_def before_def sorted_wrt_map sorted_wrt_rev)
qed

lemma set_ordered_rows [simp]: "set (ordered_rows direction key rows) = set rows"
  by (simp add: ordered_rows_def split: timeIDSortDirection.split)

lemma length_ordered_rows [simp]: "length (ordered_rows direction key rows) = length rows"
  by (simp add: ordered_rows_def split: timeIDSortDirection.split)

lemma filter_after_prefix:
  assumes "sorted_wrt (\<lambda>a b. before d (key a) (key b)) xs" and "0 < n" and "n \<le> length xs"
  shows "filter (\<lambda>r. before d (key (last (take n xs))) (key r)) xs = drop n xs"
proof -
  have xs: "sorted_wrt (\<lambda>a b. before d (key a) (key b)) (take n xs @ drop n xs)"
    using assms(1) by simp
  have split: "last (take n xs) \<in> set (take n xs)" using assms(2,3) by (intro last_in_set) auto
  have "\<not> before d (key (last (take n xs))) (key r)" if "r \<in> set (take n xs)" for r
  proof -
    have "sorted_wrt (\<lambda>a b. before d (key a) (key b)) (take n xs)"
      using xs by (simp only: sorted_wrt_append)
    moreover have "take n xs = butlast (take n xs) @ [last (take n xs)]" using assms(2,3) by (cases "take n xs") auto
    ultimately have "r = last (take n xs) \<or> before d (key r) (key (last (take n xs)))"
      using that by (metis (no_types, lifting) Un_iff append_is_Nil_conv list.set_intros(1) set_ConsD set_append
          sorted_wrt_append empty_iff list.set(1))
    then show ?thesis using before_trans before_irrefl by blast
  qed
  moreover have "before d (key (last (take n xs))) (key r)" if "r \<in> set (drop n xs)" for r
    using xs split that by (simp only: sorted_wrt_append)
  ultimately have "filter (\<lambda>r. before d (key (last (take n xs))) (key r)) (take n xs @ drop n xs) = drop n xs"
    unfolding filter_append by (simp add: filter_id_conv filter_empty_conv)
  then show ?thesis by simp
qed

lemma rows_after_next:
  assumes p: "pageable key rows" and n: "0 < n" "n \<le> length (rows_after d key cursor rows)"
  shows "rows_after d key (Some (key (last (take n (rows_after d key cursor rows))))) rows =
    drop n (rows_after d key cursor rows)"
proof -
  let ?o = "ordered_rows d key rows" and ?x = "rows_after d key cursor rows"
  let ?l = "last (take n ?x)"
  have srt: "sorted_wrt (\<lambda>a b. before d (key a) (key b)) ?o"
    using p by (intro ordered_rows_strict) (simp add: pageable_def)
  then have srtx: "sorted_wrt (\<lambda>a b. before d (key a) (key b)) ?x"
    by (auto simp: rows_after_def sorted_wrt_filter split: option.split)
  have lx: "?l \<in> set ?x" using n by (metis last_in_set in_set_takeD length_0_conv length_take
        min.absorb4 not_less_iff_gr_or_eq leD min_def)
  then have lrow: "?l \<in> set rows" by (auto simp: rows_after_def split: option.splits)
  then have norm: "map_prod db_time id (key ?l) = key ?l"
    using p by (cases "key ?l") (force simp: pageable_def)
  have "filter (\<lambda>r. before d (key ?l) (key r)) ?o = filter (\<lambda>r. before d (key ?l) (key r)) ?x"
  proof (cases cursor)
    case (Some c)
    have "before d (map_prod db_time id c) (key ?l)"
      using lx by (simp add: rows_after_def Some cursor_predicate_before)
    then show ?thesis
      by (auto simp: rows_after_def Some cursor_predicate_before intro!: filter_cong dest: before_trans)
  qed (simp add: rows_after_def)
  then show ?thesis using filter_after_prefix [OF srtx n] norm
    by (simp add: rows_after_def [of d key "Some (key ?l)"] cursor_predicate_before)
qed

lemma page_limit_range: "1 \<le> normalizePanelPageLimit limit \<and> normalizePanelPageLimit limit \<le> 100"
  by (simp add: normalizePanelPageLimit_def)

lemma keyset_page_eq:
  assumes "pageable key rows"
  shows "case keyset_page d key cursor limit rows of (items, hasMore, nextCursor) \<Rightarrow>
    length items \<le> 100 \<and> set items \<subseteq> set rows \<and>
    (if hasMore then items \<noteq> [] \<and> nextCursor \<noteq> None \<and>
         rows_after d key cursor rows = items @ rows_after d key nextCursor rows
     else nextCursor = None \<and> rows_after d key cursor rows = items)"
proof -
  define n where "n = nat (normalizePanelPageLimit limit)"
  have n: "0 < n" "n \<le> 100" "normalizePanelPageLimit limit = int n"
    using page_limit_range [of limit] by (auto simp: n_def)
  have s: "set (rows_after d key cursor rows) \<subseteq> set rows"
    by (auto simp: rows_after_def split: option.split)
  then have t: "set (take n (rows_after d key cursor rows)) \<subseteq> set rows"
    using set_take_subset by fastforce
  show ?thesis
  proof (cases "length (rows_after d key cursor rows) \<le> n")
    case True
    then have "keyset_page d key cursor limit rows = (rows_after d key cursor rows, False, None)"
      by (simp add: keyset_page_def keyset_query_def keysetFetchLimit_def finalizeTimeIDPage_def
          Let_def n(3) nat_add_distrib)
    moreover have "length (rows_after d key cursor rows) \<le> 100" using True n(2) by linarith
    ultimately show ?thesis using s by simp
  next
    case False
    then have "keyset_page d key cursor limit rows =
        (take n (rows_after d key cursor rows), True, Some (key (last (take n (rows_after d key cursor rows)))))"
      using n by (simp add: keyset_page_def keyset_query_def keysetFetchLimit_def finalizeTimeIDPage_def
          Let_def nat_add_distrib min_def)
    then show ?thesis using False n t rows_after_next [OF assms, of n d cursor] by auto
  qed
qed

text \<open>The pages of one table, as a function of the cursor.\<close>

definition page_at ::
  "timeIDSortDirection \<Rightarrow> ('r \<Rightarrow> time \<times> 'k::linorder) \<Rightarrow> int \<Rightarrow> 'r list \<Rightarrow> (time \<times> 'k) option \<Rightarrow>
     'r list \<times> bool \<times> (time \<times> 'k) option" where
  "page_at direction key limit rows cursor = keyset_page direction key cursor limit rows"

text \<open>
  The contract of a listing and what its client gets: whenever the state is consistent, the rows
  listed are pageable; then following the cursors from the start yields every row exactly once, in
  order, in pages of at most a hundred rows.
\<close>

locale keyset_listing =
  fixes ok :: "'s \<Rightarrow> bool" and listed :: "'s \<Rightarrow> 'r list"
    and key :: "'r \<Rightarrow> time \<times> 'k::linorder" and direction :: timeIDSortDirection
  assumes listed_pageable: "ok s \<Longrightarrow> pageable key (listed s)"
begin

lemma walk_from:
  assumes "ok s" and "length (rows_after direction key cursor (listed s)) < fuel"
  shows "concat (walk fuel (page_at direction key limit (listed s)) cursor) = rows_after direction key cursor (listed s) \<and>
    (\<forall>p \<in> set (walk fuel (page_at direction key limit (listed s)) cursor). length p \<le> 100)"
  using assms(2)
proof (induction fuel arbitrary: cursor)
  case (Suc fuel)
  obtain items hasMore nextCursor where pg: "page_at direction key limit (listed s) cursor = (items, hasMore, nextCursor)"
    by (metis prod_cases3)
  note step = keyset_page_eq [OF listed_pageable [OF assms(1)], of direction cursor limit,
      folded page_at_def [of direction key limit "listed s"], unfolded pg, simplified]
  show ?case
  proof (cases hasMore)
    case True
    with step have "length (rows_after direction key nextCursor (listed s)) <
        length (rows_after direction key cursor (listed s))" by auto
    then have "length (rows_after direction key nextCursor (listed s)) < fuel" using Suc.prems by linarith
    with Suc.IH [of nextCursor] step True show ?thesis by (simp add: pg)
  qed (use step in \<open>simp add: pg\<close>)
qed simp

lemma walk_complete:
  assumes "ok s" and "length (listed s) < fuel"
  shows "concat (walk fuel (page_at direction key limit (listed s)) None) = ordered_rows direction key (listed s) \<and>
    (\<forall>p \<in> set (walk fuel (page_at direction key limit (listed s)) None). length p \<le> 100)"
  using walk_from [OF assms(1), of None fuel limit] assms(2) by (simp add: rows_after_def)

end

end
