(* ===== verification/Store_DB.thy ===== *)
theory Store_DB
  imports Pagination
begin

text \<open>
  The database below \<open>internal/store\<close>: the tables of \<open>migrations/*.sql\<close> as row lists, the
  statements the store issues as functions on them with their constraint errors, and write
  transactions that either commit or leave the database as it was. The write connection is a single
  serialized one (\<open>SetMaxOpenConns(1)\<close>), so operations of the store follow one another. SQLite is
  read as documented: UNIQUE (NOCASE folds ASCII letters), PRIMARY KEY, CHECK and FOREIGN KEY
  constraints abort the statement; ON DELETE CASCADE, SET NULL and RESTRICT act on the referring
  rows. Failures of the engine itself (disk, locks, cancellation) are not modelled; they end a
  transaction without commit, like every modelled error.
\<close>

section \<open>Tables\<close>

text \<open>A stored reservation carries its creation time beside the fields of the Go struct.\<close>

record reservation_row = SuccessQuotaReservation +
  r_CreatedAt :: time

record usage_row =
  ur_ID :: int
  ur_KeyID :: string
  ur_ToolName :: string
  ur_Timestamp :: time
  ur_DurationMs :: int
  ur_Success :: bool

record rollup_row =
  ro_KeyID :: string
  ro_BucketStart :: time
  ro_ToolName :: string
  ro_TotalCalls :: int
  ro_SuccessCalls :: int
  ro_DurationMsTotal :: int

record debug_row =
  dr_UsageID :: int
  dr_KeyID :: string
  dr_UsageTimestamp :: time
  dr_DebugJSON :: string
  dr_RequestBody :: string
  dr_ResponseBody :: string
  dr_RequestObservedBytes :: int
  dr_ResponseObservedBytes :: int
  dr_RequestTruncated :: bool
  dr_ResponseTruncated :: bool
  dr_CreatedAt :: time

record stored_secret =
  s_ciphertext :: string
  s_nonce :: string
  s_encryptionVersion :: int

record settings_row =
  sr_Settings :: ServerSettings
  sr_APIKey :: stored_secret
  sr_TurnstileSecretKey :: stored_secret

record DB =
  users :: "User list"
  tiers :: "Tier list"
  apikeys :: "APIKey list"
  invite_codes :: "InviteCode list"
  redemptions :: "InviteCodeRedemption list"
  reservations :: "reservation_row list"
  server_settings :: "settings_row option"
  usage_log :: "usage_row list"
  usage_seq :: int
  hourly_rollups :: "rollup_row list"
  daily_rollups :: "rollup_row list"
  usage_debug :: "debug_row list"

section \<open>Statements\<close>

datatype sql_error = UNIQUE_constraint | FOREIGN_KEY_constraint | CHECK_constraint

definition nocase :: "string \<Rightarrow> string" where
  "nocase s = map to_lower s"

definition update_where :: "('r \<Rightarrow> bool) \<Rightarrow> ('r \<Rightarrow> 'r) \<Rightarrow> 'r list \<Rightarrow> 'r list" where
  "update_where P f rows = map (\<lambda>r. if P r then f r else r) rows"

definition delete_where :: "('r \<Rightarrow> bool) \<Rightarrow> 'r list \<Rightarrow> 'r list" where
  "delete_where P rows = filter (\<lambda>r. \<not> P r) rows"

definition rows_affected :: "('r \<Rightarrow> bool) \<Rightarrow> 'r list \<Rightarrow> int" where
  "rows_affected P rows = count_if P rows"

definition user_row :: "string \<Rightarrow> DB \<Rightarrow> User option" where
  "user_row i db = find (\<lambda>u. u_ID u = i) (users db)"

definition tier_row :: "string \<Rightarrow> DB \<Rightarrow> Tier option" where
  "tier_row i db = find (\<lambda>t. t_ID t = i) (tiers db)"

definition key_row :: "string \<Rightarrow> DB \<Rightarrow> APIKey option" where
  "key_row i db = find (\<lambda>k. k_ID k = i) (apikeys db)"

definition default_tier :: "DB \<Rightarrow> Tier option" where
  "default_tier db = find t_IsDefault (tiers db)"

definition enabled_admins :: "DB \<Rightarrow> int" where
  "enabled_admins db = count_if (\<lambda>u. u_Role u = RoleAdmin \<and> u_Enabled u) (users db)"

definition insert_user :: "User \<Rightarrow> DB \<Rightarrow> sql_error + DB" where
  "insert_user u db =
     (if u_Role u \<notin> {RoleAdmin, RoleUser} then Inl CHECK_constraint
      else if list_ex (\<lambda>v. u_ID v = u_ID u \<or> nocase (u_Username v) = nocase (u_Username u)) (users db)
      then Inl UNIQUE_constraint
      else if tier_row (u_TierID u) db = None then Inl FOREIGN_KEY_constraint
      else Inr (db\<lparr>users := users db @ [u]\<rparr>))"

text \<open>Deleting API keys takes their usage rows and rollups along.\<close>

definition delete_apikeys :: "(APIKey \<Rightarrow> bool) \<Rightarrow> DB \<Rightarrow> DB" where
  "delete_apikeys P db =
     (let gone = map k_ID (filter P (apikeys db))
      in db\<lparr>apikeys := delete_where P (apikeys db),
            usage_log := delete_where (\<lambda>r. ur_KeyID r \<in> set gone) (usage_log db),
            hourly_rollups := delete_where (\<lambda>r. ro_KeyID r \<in> set gone) (hourly_rollups db),
            daily_rollups := delete_where (\<lambda>r. ro_KeyID r \<in> set gone) (daily_rollups db)\<rparr>)"

text \<open>
  Deleting a user takes its keys and reservations along and clears it as creator of invite codes.
\<close>

definition delete_user :: "string \<Rightarrow> DB \<Rightarrow> DB" where
  "delete_user i db =
     (let db' = delete_apikeys (\<lambda>k. k_UserID k = i) db
      in db'\<lparr>users := delete_where (\<lambda>u. u_ID u = i) (users db'),
             reservations := delete_where (\<lambda>r. r_UserID r = i) (reservations db'),
             invite_codes := update_where (\<lambda>c. ic_CreatedByUserID c = Some i)
               (\<lambda>c. c\<lparr>ic_CreatedByUserID := None\<rparr>) (invite_codes db')\<rparr>)"

section \<open>Transactions\<close>

type_synonym 'a tx = "DB \<Rightarrow> store_error + 'a \<times> DB"

text \<open>\<open>BeginTx\<close>, the body, \<open>Commit\<close>; the deferred \<open>Rollback\<close> undoes the body's writes on every error.\<close>

definition run_tx :: "'a tx \<Rightarrow> DB \<Rightarrow> (store_error + 'a) \<times> DB" where
  "run_tx body db = (case body db of Inl e \<Rightarrow> (Inl e, db) | Inr (x, db') \<Rightarrow> (Inr x, db'))"

lemma run_tx_Inl: "run_tx body db = (Inl e, db') \<longleftrightarrow> body db = Inl e \<and> db' = db"
  by (auto simp: run_tx_def split: sum.split)

lemma run_tx_Inr: "run_tx body db = (Inr x, db') \<longleftrightarrow> body db = Inr (x, db')"
  by (auto simp: run_tx_def split: sum.split)

lemma snd_run_tx: "snd (run_tx body db) = (case body db of Inl e \<Rightarrow> db | Inr (x, db') \<Rightarrow> db')"
  by (simp add: run_tx_def split: sum.split)

section \<open>Identifiers\<close>

text \<open>
  \<open>randomID\<close> of \<open>sqlite_helpers.go\<close> on the 16 bytes \<open>crypto/rand\<close> returns; \<open>None\<close> is its failure.
\<close>

definition slice :: "nat \<Rightarrow> nat \<Rightarrow> 'a list \<Rightarrow> 'a list" where
  "slice a b xs = take (b - a) (drop a xs)"

type_synonym entropy = "int list option"

definition random_ok :: "nat \<Rightarrow> entropy \<Rightarrow> bool" where
  "random_ok n rnd \<longleftrightarrow> (\<forall>b. rnd = Some b \<longrightarrow> length b = n \<and> (\<forall>x \<in> set b. 0 \<le> x \<and> x < 256))"

definition randomID :: "entropy \<Rightarrow> store_error + string" where
  "randomID rnd = (case rnd of
     None \<Rightarrow> Inl (StoreErrorf ''crypto/rand'')
   | Some b \<Rightarrow>
       let b = b[6 := b ! 6 mod 16 + 64];
           b = b[8 := b ! 8 mod 64 + 128]
       in Inr (hex (slice 0 4 b) @ ''-'' @ hex (slice 4 6 b) @ ''-'' @ hex (slice 6 8 b) @ ''-'' @
            hex (slice 8 10 b) @ ''-'' @ hex (slice 10 16 b)))"

lemma hex_digit_not_space:
  assumes "0 \<le> n" "n < 16"
  shows "hex_digit n \<notin> hd ` set space_encodings" "hex_digit n \<notin> last ` set space_encodings"
proof -
  have "n \<in> set [0..15]" using assms by simp
  moreover have "\<forall>n \<in> set [0..15].
      hex_digit n \<notin> hd ` set space_encodings \<and> hex_digit n \<notin> last ` set space_encodings" by code_simp
  ultimately show "hex_digit n \<notin> hd ` set space_encodings" "hex_digit n \<notin> last ` set space_encodings"
    by blast+
qed

lemma randomID_trimmed:
  assumes "random_ok 16 rnd" "randomID rnd = Inr i"
  shows "i \<noteq> []" "TrimSpace i = i"
proof -
  obtain b where b: "rnd = Some b" "length b = 16" "\<And>x. x \<in> set b \<Longrightarrow> 0 \<le> x \<and> x < 256"
    using assms by (cases rnd) (auto simp: randomID_def random_ok_def)
  define c where "c = b[6 := b ! 6 mod 16 + 64, 8 := b[6 := b ! 6 mod 16 + 64] ! 8 mod 64 + 128]"
  have len: "length c = 16" by (simp add: c_def b(2))
  have c0: "c ! 0 = b ! 0" "c ! 15 = b ! 15" by (simp_all add: c_def b(2))
  have i: "i = hex (slice 0 4 c) @ ''-'' @ hex (slice 4 6 c) @ ''-'' @ hex (slice 6 8 c) @ ''-'' @
      hex (slice 8 10 c) @ ''-'' @ hex (slice 10 16 c)"
    using assms(2) by (simp add: randomID_def b(1) Let_def c_def)
  have s4: "slice 0 4 c = c ! 0 # slice 1 4 c"
    using len by (simp add: slice_def take_Suc_conv_app_nth Cons_nth_drop_Suc [symmetric] numeral_eq_Suc)
  have s16: "slice 10 16 c = slice 10 15 c @ [c ! 15]"
    using take_Suc_conv_app_nth [of 5 "drop 10 c"] len by (simp add: slice_def)
  have hd: "hd i = hex_digit (b ! 0 div 16)" and ne: "i \<noteq> []" by (simp_all add: i s4 c0)
  have last: "last i = hex_digit (b ! 15 mod 16)" by (simp add: i s16 c0)
  have "0 \<le> b ! 0 \<and> b ! 0 < 256" using b(2) by (intro b(3)) simp
  then have "0 \<le> b ! 0 div 16" "b ! 0 div 16 < 16" by (auto simp: pos_imp_zdiv_nonneg_iff)
  from hex_digit_not_space(1) [OF this] have "hd i \<notin> hd ` set space_encodings" by (simp add: hd)
  moreover have "last i \<notin> last ` set space_encodings"
    using hex_digit_not_space(2) [of "b ! 15 mod 16"] by (simp add: last)
  ultimately show "i \<noteq> []" "TrimSpace i = i" using ne TrimSpace_id by auto
qed

section \<open>Row lists\<close>

text \<open>Facts on the statements, collected for the component proofs.\<close>

named_theorems rows \<open>effects of the statements on row lists\<close>

lemma set_delete_where [rows]: "set (delete_where P xs) = {x \<in> set xs. \<not> P x}"
  by (auto simp: delete_where_def)

lemma set_update_where [rows]: "set (update_where P f xs) = (\<lambda>r. if P r then f r else r) ` set xs"
  by (simp add: update_where_def)

lemma length_update_where [rows]: "length (update_where P f xs) = length xs"
  by (simp add: update_where_def)

lemma map_update_where:
  "(\<And>r. g (f r) = g r) \<Longrightarrow> map g (update_where P f xs) = map g xs"
  by (simp add: update_where_def)

lemma image_update_where:
  "(\<And>r. g (f r) = g r) \<Longrightarrow> g ` set (update_where P f xs) = g ` set xs"
  using map_update_where [of g f P xs] by (metis set_map)

lemma update_where_cong:
  "(\<And>r. r \<in> set xs \<Longrightarrow> P r \<Longrightarrow> f r = g r) \<Longrightarrow> update_where P f xs = update_where P g xs"
  by (simp add: update_where_def)

lemma update_where_cong_pred:
  "(\<And>r. r \<in> set xs \<Longrightarrow> P r = Q r) \<Longrightarrow> update_where P f xs = update_where Q f xs"
  by (simp add: update_where_def)

lemma distinct_delete_where: "distinct (map g xs) \<Longrightarrow> distinct (map g (delete_where P xs))"
  by (simp add: delete_where_def distinct_map_filter)

lemma count_update_where_same:
  "(\<And>r. Q (f r) = Q r) \<Longrightarrow> count_if Q (update_where P f xs) = count_if Q xs"
  by (induction xs) (auto simp: update_where_def)

lemma fresh_key: "distinct (map g (a # xs)) \<Longrightarrow> y \<in> set xs \<Longrightarrow> g y \<noteq> g a"
  by (metis distinct.simps(2) image_eqI list.simps(9) set_map)

lemma count_delete_where_le: "count_if Q (delete_where P xs) \<le> count_if Q xs"
  by (induction xs) (auto simp: delete_where_def)

lemma distinct_map_change:
  assumes "distinct (map f xs)" "\<And>s. s \<in> set xs \<Longrightarrow> s \<noteq> t \<Longrightarrow> f s \<noteq> c"
  shows "distinct (map (\<lambda>s. if s = t then c else f s) xs)"
proof -
  have "inj_on (\<lambda>s. if s = t then c else f s) (set xs)"
  proof (rule inj_onI)
    fix x y assume xy: "x \<in> set xs" "y \<in> set xs" "(if x = t then c else f x) = (if y = t then c else f y)"
    show "x = y"
    proof (cases "x = t \<or> y = t")
      case True
      then show ?thesis using xy assms(2) [of x] assms(2) [of y] by (auto split: if_splits)
    next
      case False
      then show ?thesis using xy assms(1) by (auto simp: distinct_map dest: inj_onD)
    qed
  qed
  then show ?thesis using assms(1) by (simp add: distinct_map)
qed

lemma find_key: "distinct (map g xs) \<Longrightarrow> x \<in> set xs \<Longrightarrow> find (\<lambda>y. g y = g x) xs = Some x"
  by (induction xs) (auto simp: rev_image_eqI)

lemma find_Some_set: "find P xs = Some x \<Longrightarrow> x \<in> set xs \<and> P x"
  by (auto simp: find_Some_iff)

lemma find_None_set: "find P xs = None \<longleftrightarrow> (\<forall>x \<in> set xs. \<not> P x)"
  by (auto simp: find_None_iff)

lemma find_append_fresh: "find P xs = None \<Longrightarrow> find P (xs @ [x]) = (if P x then Some x else None)"
  by (induction xs) (auto split: if_splits)

lemma count_delete_key:
  "distinct (map g xs) \<Longrightarrow> x \<in> set xs \<Longrightarrow>
     count_if P (delete_where (\<lambda>y. g y = g x) xs) = count_if P xs - (if P x then 1 else 0)"
proof (induction xs)
  case (Cons a xs)
  show ?case
  proof (cases "a = x")
    case True
    then have "\<forall>y \<in> set xs. g y \<noteq> g x" using fresh_key [OF Cons.prems(1)] by simp
    then have "delete_where (\<lambda>y. g y = g x) xs = xs"
      by (simp add: delete_where_def filter_id_conv)
    with True show ?thesis by (simp add: delete_where_def)
  next
    case False
    then have "g a \<noteq> g x" "x \<in> set xs" using Cons.prems by (auto simp: rev_image_eqI)
    with Cons show ?thesis by (simp add: delete_where_def)
  qed
qed simp

lemma count_update_key:
  "distinct (map g xs) \<Longrightarrow> x \<in> set xs \<Longrightarrow>
     count_if P (update_where (\<lambda>y. g y = g x) f xs) =
       count_if P xs - (if P x then 1 else 0) + (if P (f x) then 1 else 0)"
proof (induction xs)
  case (Cons a xs)
  show ?case
  proof (cases "a = x")
    case True
    then have "\<forall>y \<in> set xs. g y \<noteq> g x" using fresh_key [OF Cons.prems(1)] by simp
    then have "update_where (\<lambda>y. g y = g x) f xs = xs"
      unfolding update_where_def by (intro map_idI) simp
    with True show ?thesis by (simp add: update_where_def)
  next
    case False
    then have "g a \<noteq> g x" "x \<in> set xs" using Cons.prems by (auto simp: rev_image_eqI)
    with Cons show ?thesis by (simp add: update_where_def)
  qed
qed simp

lemma sum_update_key:
  fixes f :: "'r \<Rightarrow> int"
  shows "distinct (map g xs) \<Longrightarrow> x \<in> set xs \<Longrightarrow>
     (\<Sum>y\<leftarrow>update_where (\<lambda>y. g y = g x) h xs. f y) = (\<Sum>y\<leftarrow>xs. f y) - f x + f (h x)"
proof (induction xs)
  case (Cons a xs)
  show ?case
  proof (cases "a = x")
    case True
    then have "\<forall>y \<in> set xs. g y \<noteq> g x" using fresh_key [OF Cons.prems(1)] by simp
    then have "update_where (\<lambda>y. g y = g x) h xs = xs"
      unfolding update_where_def by (intro map_idI) simp
    with True show ?thesis by (simp add: update_where_def)
  next
    case False
    then have "g a \<noteq> g x" "x \<in> set xs" using Cons.prems by (auto simp: rev_image_eqI)
    with Cons show ?thesis by (simp add: update_where_def)
  qed
qed simp

lemma sum_delete_where:
  fixes f :: "'r \<Rightarrow> int"
  shows "(\<Sum>y\<leftarrow>delete_where P xs. f y) = (\<Sum>y\<leftarrow>xs. f y) - (\<Sum>y\<leftarrow>filter P xs. f y)"
  by (induction xs) (auto simp: delete_where_def)

lemma find_update_key:
  assumes "\<And>r. g (f r) = g r"
  shows "find (\<lambda>y. g y = k) (update_where (\<lambda>y. g y = i) f xs) =
    (if k = i then map_option f (find (\<lambda>y. g y = k) xs) else find (\<lambda>y. g y = k) xs)"
  using assms by (induction xs) (auto simp: update_where_def)

section \<open>The invariant of the database\<close>

text \<open>
  What the schema declares (keys, references, checks) and what the store's code promises on top of
  it: exactly one default tier, times cut to seconds, identifiers that survive trimming, and for
  every user at least as many counted calls in its stored month as reservations outstanding for
  that month, and no reservation for a later month.
\<close>

definition users_ok :: "User list \<Rightarrow> bool" where
  "users_ok us \<longleftrightarrow> distinct (map u_ID us) \<and> distinct (map (\<lambda>u. nocase (u_Username u)) us) \<and>
     (\<forall>u \<in> set us. u_Role u \<in> {RoleAdmin, RoleUser} \<and> 0 \<le> u_SuccessCalls u \<and> 0 \<le> u_TokenVersion u \<and>
        u_ID u \<noteq> [] \<and> TrimSpace (u_ID u) = u_ID u \<and> u_Username u \<noteq> [] \<and>
        db_time (u_CreatedAt u) = u_CreatedAt u)"

definition tiers_ok :: "Tier list \<Rightarrow> bool" where
  "tiers_ok ts \<longleftrightarrow> distinct (map t_ID ts) \<and> distinct (map (\<lambda>t. nocase (t_Name t)) ts) \<and>
     count_if t_IsDefault ts = 1 \<and>
     (\<forall>t \<in> set ts. t_ID t \<noteq> [] \<and> TrimSpace (t_ID t) = t_ID t \<and> t_Name t \<noteq> [] \<and> 0 \<le> t_RPM t \<and> 0 \<le> t_SuccessLimit t \<and>
        db_time (t_CreatedAt t) = t_CreatedAt t)"

definition keys_ok :: "APIKey list \<Rightarrow> bool" where
  "keys_ok ks \<longleftrightarrow> distinct (map k_ID ks) \<and> distinct (map k_KeyHash ks) \<and>
     (\<forall>k \<in> set ks. k_keyCiphertext k \<noteq> [] \<and> k_keyNonce k \<noteq> [] \<and> 0 < k_keyEncryptionVersion k \<and>
        0 \<le> k_TotalCalls k \<and> db_time (k_CreatedAt k) = k_CreatedAt k)"

definition invites_ok :: "InviteCode list \<Rightarrow> bool" where
  "invites_ok cs \<longleftrightarrow> distinct (map ic_ID cs) \<and> distinct (map ic_CodeHash cs) \<and>
     (\<forall>c \<in> set cs. 0 \<le> ic_RegistrationCount c \<and> ic_RegistrationCount c \<le> ic_RegistrationLimit c \<and>
        0 < ic_RegistrationLimit c \<and> db_time (ic_CreatedAt c) = ic_CreatedAt c)"

definition redemptions_ok :: "InviteCodeRedemption list \<Rightarrow> bool" where
  "redemptions_ok rs \<longleftrightarrow> distinct (map red_ID rs) \<and> distinct (map red_UserID rs) \<and>
     (\<forall>r \<in> set rs. db_time (red_RedeemedAt r) = red_RedeemedAt r)"

definition reservations_ok :: "reservation_row list \<Rightarrow> bool" where
  "reservations_ok rs \<longleftrightarrow> distinct (map r_ID rs)"

definition usage_ok :: "usage_row list \<Rightarrow> int \<Rightarrow> bool" where
  "usage_ok rs seq \<longleftrightarrow> distinct (map ur_ID rs) \<and> 0 \<le> seq \<and>
     (\<forall>r \<in> set rs. 0 < ur_ID r \<and> ur_ID r \<le> seq \<and> db_time (ur_Timestamp r) = ur_Timestamp r)"

definition rollups_ok :: "rollup_row list \<Rightarrow> bool" where
  "rollups_ok rs \<longleftrightarrow> distinct (map (\<lambda>r. (ro_KeyID r, ro_BucketStart r, ro_ToolName r)) rs)"

definition outstanding_reservations :: "User \<Rightarrow> reservation_row list \<Rightarrow> int" where
  "outstanding_reservations u rs =
     count_if (\<lambda>r. r_UserID r = u_ID u \<and> r_Period r = u_SuccessPeriod u) rs"

definition user_quota_ok :: "User \<Rightarrow> reservation_row list \<Rightarrow> bool" where
  "user_quota_ok u rs \<longleftrightarrow> outstanding_reservations u rs \<le> u_SuccessCalls u \<and>
     (\<forall>r \<in> set rs. r_UserID r = u_ID u \<longrightarrow> r_Period r \<le> u_SuccessPeriod u)"

definition quota_ok :: "User list \<Rightarrow> reservation_row list \<Rightarrow> bool" where
  "quota_ok us rs \<longleftrightarrow> (\<forall>u \<in> set us. user_quota_ok u rs)"

lemma user_quota_ok_cong:
  "u_ID u = u_ID v \<Longrightarrow> u_SuccessPeriod u = u_SuccessPeriod v \<Longrightarrow> u_SuccessCalls u = u_SuccessCalls v \<Longrightarrow>
     user_quota_ok u rs = user_quota_ok v rs"
  by (simp add: user_quota_ok_def outstanding_reservations_def)

lemma user_quota_ok_delete: "user_quota_ok u rs \<Longrightarrow> user_quota_ok u (delete_where P rs)"
  using count_delete_where_le [of "\<lambda>r. r_UserID r = u_ID u \<and> r_Period r = u_SuccessPeriod u" P rs]
  by (auto simp: user_quota_ok_def outstanding_reservations_def rows intro: order_trans)

text \<open>The foreign keys.\<close>

definition references_ok :: "DB \<Rightarrow> bool" where
  "references_ok db \<longleftrightarrow>
     u_TierID ` set (users db) \<subseteq> t_ID ` set (tiers db) \<and>
     k_UserID ` set (apikeys db) \<subseteq> u_ID ` set (users db) \<and>
     r_UserID ` set (reservations db) \<subseteq> u_ID ` set (users db) \<and>
     (\<forall>c \<in> set (invite_codes db). \<forall>u. ic_CreatedByUserID c = Some u \<longrightarrow> u \<in> u_ID ` set (users db)) \<and>
     ur_KeyID ` set (usage_log db) \<subseteq> k_ID ` set (apikeys db) \<and>
     ro_KeyID ` set (hourly_rollups db) \<subseteq> k_ID ` set (apikeys db) \<and>
     ro_KeyID ` set (daily_rollups db) \<subseteq> k_ID ` set (apikeys db)"

definition db_ok :: "DB \<Rightarrow> bool" where
  "db_ok db \<longleftrightarrow> users_ok (users db) \<and> tiers_ok (tiers db) \<and> keys_ok (apikeys db) \<and>
     invites_ok (invite_codes db) \<and> redemptions_ok (redemptions db) \<and>
     reservations_ok (reservations db) \<and> usage_ok (usage_log db) (usage_seq db) \<and>
     rollups_ok (hourly_rollups db) \<and> rollups_ok (daily_rollups db) \<and>
     quota_ok (users db) (reservations db) \<and> references_ok db"

lemma db_ok_users: "db_ok db \<Longrightarrow> users_ok (users db)"
  and db_ok_tiers: "db_ok db \<Longrightarrow> tiers_ok (tiers db)"
  and db_ok_keys: "db_ok db \<Longrightarrow> keys_ok (apikeys db)"
  and db_ok_quota: "db_ok db \<Longrightarrow> quota_ok (users db) (reservations db)"
  and db_ok_references: "db_ok db \<Longrightarrow> references_ok db"
  by (simp_all add: db_ok_def)

lemma reservation_user:
  "db_ok db \<Longrightarrow> r \<in> set (reservations db) \<Longrightarrow> r_UserID r \<in> u_ID ` set (users db)"
  using db_ok_references [of db] by (auto simp: references_ok_def)

lemma user_row_Some:
  "db_ok db \<Longrightarrow> user_row i db = Some u \<longleftrightarrow> u \<in> set (users db) \<and> u_ID u = i"
  by (auto simp: user_row_def db_ok_def users_ok_def find_key dest!: find_Some_set)

lemma user_row_None: "user_row i db = None \<longleftrightarrow> i \<notin> u_ID ` set (users db)"
  by (auto simp: user_row_def find_None_set)

lemma tier_row_Some:
  "db_ok db \<Longrightarrow> tier_row i db = Some t \<longleftrightarrow> t \<in> set (tiers db) \<and> t_ID t = i"
  by (auto simp: tier_row_def db_ok_def tiers_ok_def find_key dest!: find_Some_set)

lemma tier_row_None: "tier_row i db = None \<longleftrightarrow> i \<notin> t_ID ` set (tiers db)"
  by (auto simp: tier_row_def find_None_set)

lemma key_row_Some:
  "db_ok db \<Longrightarrow> key_row i db = Some k \<longleftrightarrow> k \<in> set (apikeys db) \<and> k_ID k = i"
  by (auto simp: key_row_def db_ok_def keys_ok_def find_key dest!: find_Some_set)

lemma default_tier_exists: "db_ok db \<Longrightarrow> \<exists>t. default_tier db = Some t \<and> t \<in> set (tiers db) \<and> t_IsDefault t"
proof -
  assume "db_ok db"
  then have "0 < count_if t_IsDefault (tiers db)" by (simp add: db_ok_def tiers_ok_def)
  then obtain t where "t \<in> set (tiers db)" "t_IsDefault t" by (auto simp: count_if_pos)
  then have "default_tier db \<noteq> None" by (auto simp: default_tier_def find_None_set)
  then show ?thesis using find_Some_set by (fastforce simp: default_tier_def)
qed

lemma insert_user_Inr:
  "insert_user u db = Inr db' \<longleftrightarrow> db' = db\<lparr>users := users db @ [u]\<rparr> \<and>
     u_Role u \<in> {RoleAdmin, RoleUser} \<and>
     (\<forall>v \<in> set (users db). u_ID v \<noteq> u_ID u \<and> nocase (u_Username v) \<noteq> nocase (u_Username u)) \<and>
     u_TierID u \<in> t_ID ` set (tiers db)"
  unfolding insert_user_def
  by (auto simp: list_ex_iff tier_row_None split: if_splits)

section \<open>A small concrete database\<close>

text \<open>
  Two tiers, an administrator and a user with two calls in November 2023, one of them reserved, an
  API key of the user and an invite code used once.
\<close>

definition demo_time :: time where
  "demo_time = 1700000000 * Second"

definition demo_user_row :: "string \<Rightarrow> UserRole \<Rightarrow> int \<Rightarrow> User" where
  "demo_user_row i role calls = \<lparr>u_ID = i, u_Username = i, u_PasswordHash = ''h'', u_Role = role,
     u_Enabled = True, u_TierID = ''t0'', u_SuccessCalls = calls, u_SuccessPeriod = ''2023-11'',
     u_TokenVersion = 0, u_CreatedAt = 0, u_UpdatedAt = 0\<rparr>"

definition demo_tier_row :: "string \<Rightarrow> bool \<Rightarrow> Tier" where
  "demo_tier_row i d = \<lparr>t_ID = i, t_Name = i, t_RPM = 10, t_SuccessLimit = 3, t_IsDefault = d,
     t_CreatedAt = 0, t_UpdatedAt = 0\<rparr>"

definition demo_db :: DB where
  "demo_db = \<lparr>users = [demo_user_row ''root'' RoleAdmin 0, demo_user_row ''ann'' RoleUser 2],
     tiers = [demo_tier_row ''t0'' True, demo_tier_row ''t1'' False],
     apikeys = [\<lparr>k_ID = ''k1'', k_UserID = ''ann'', k_Name = ''n'', k_KeyHash = ''h1'', k_KeyPrefix = ''p'',
       k_Enabled = True, k_CreatedAt = 0, k_UpdatedAt = 0, k_LastUsedAt = None, k_TotalCalls = 0,
       k_keyCiphertext = ''c'', k_keyNonce = ''n'', k_keyEncryptionVersion = 1\<rparr>],
     invite_codes = [\<lparr>ic_ID = ''i1'', ic_CodeHash = ''ih'', ic_CodePrefix = ''ip'', ic_RegistrationLimit = 2,
       ic_RegistrationCount = 1, ic_Enabled = True, ic_CreatedByUserID = Some ''root'', ic_CreatedAt = 0,
       ic_UpdatedAt = 0, ic_codeCiphertext = ''c'', ic_codeNonce = ''n'', ic_codeEncryptionVersion = 1\<rparr>],
     redemptions = [], reservations = [\<lparr>r_ID = ''r1'', r_UserID = ''ann'', r_Period = ''2023-11'', r_CreatedAt = 0\<rparr>],
     server_settings = None,
     usage_log = [\<lparr>ur_ID = 1, ur_KeyID = ''k1'', ur_ToolName = ''web_search'', ur_Timestamp = 0,
       ur_DurationMs = 5, ur_Success = True\<rparr>], usage_seq = 1,
     hourly_rollups = [], daily_rollups = [], usage_debug = []\<rparr>"

lemma demo_db_ok: "db_ok demo_db"
proof -
  have "users_ok (users demo_db)" by code_simp
  moreover have "tiers_ok (tiers demo_db)" by code_simp
  moreover have "keys_ok (apikeys demo_db)" by code_simp
  moreover have "invites_ok (invite_codes demo_db)" by code_simp
  moreover have "usage_ok (usage_log demo_db) (usage_seq demo_db)" by code_simp
  moreover have "quota_ok (users demo_db) (reservations demo_db)" by code_simp
  moreover have "references_ok demo_db"
    by (simp add: references_ok_def demo_db_def demo_user_row_def demo_tier_row_def)
  ultimately show ?thesis
    by (simp add: db_ok_def redemptions_ok_def reservations_ok_def rollups_ok_def) (simp add: demo_db_def)
qed

definition demo_entropy :: entropy where
  "demo_entropy = Some [0, 1, 2, 3, 4, 5, 6, 7, 8, 9, 10, 11, 12, 13, 14, 15]"

lemma demo_entropy_ok: "random_ok 16 demo_entropy"
  by (simp add: random_ok_def demo_entropy_def)

end
