(* ===== verification/Store_Users.thy ===== *)
theory Store_Users
  imports Store_DB
begin

text \<open>
  Users and the monthly success quota, \<open>internal/store/users.go\<close>. Each operation takes the random
  bytes and the clock reading it uses as arguments; the clock is read once per operation.
\<close>

section \<open>Operations on users\<close>

text \<open>A user row read in another month shows that month with no calls.\<close>

definition scanUser :: "time \<Rightarrow> User \<Rightarrow> User" where
  "scanUser now u =
     (let currentPeriod = successQuotaPeriod now
      in if u_SuccessPeriod u \<noteq> currentPeriod
         then u\<lparr>u_SuccessCalls := 0, u_SuccessPeriod := currentPeriod\<rparr> else u)"

definition new_user_row ::
  "time \<Rightarrow> string \<Rightarrow> string \<Rightarrow> string \<Rightarrow> UserRole \<Rightarrow> string \<Rightarrow> User" where
  "new_user_row now i username passwordHash role tierID =
     \<lparr>u_ID = i, u_Username = username, u_PasswordHash = passwordHash, u_Role = role,
      u_Enabled = True, u_TierID = tierID, u_SuccessCalls = 0,
      u_SuccessPeriod = successQuotaPeriod now, u_TokenVersion = 0,
      u_CreatedAt = db_time now, u_UpdatedAt = db_time now\<rparr>"

definition CreateUser ::
  "entropy \<Rightarrow> time \<Rightarrow> string \<Rightarrow> string \<Rightarrow> UserRole \<Rightarrow> DB \<Rightarrow> (store_error + User) \<times> DB" where
  "CreateUser rnd now rawUsername passwordHash role db =
     (let username = TrimSpace rawUsername
      in if username = [] then (Inl (StoreErrorf ''username is required''), db)
         else if role \<noteq> RoleAdmin \<and> role \<noteq> RoleUser then (Inl (StoreErrorf ''invalid role''), db)
         else case randomID rnd of
             Inl e \<Rightarrow> (Inl e, db)
           | Inr i \<Rightarrow> run_tx (\<lambda>db.
               case default_tier db of
                 None \<Rightarrow> Inl ErrTierNotFound
               | Some tier \<Rightarrow>
                   let row = new_user_row now i username passwordHash role (t_ID tier)
                   in case insert_user row db of
                        Inl e \<Rightarrow> Inl (if e = UNIQUE_constraint then ErrUsernameTaken
                                     else StoreErrorf ''insert user'')
                      | Inr db' \<Rightarrow> Inr (scanUser now row, db')) db)"

definition GetUserByUsername :: "time \<Rightarrow> string \<Rightarrow> DB \<Rightarrow> store_error + User option" where
  "GetUserByUsername now username db =
     Inr (map_option (scanUser now)
       (find (\<lambda>u. nocase (u_Username u) = nocase (TrimSpace username)) (users db)))"

definition GetUserByID :: "time \<Rightarrow> string \<Rightarrow> DB \<Rightarrow> store_error + User" where
  "GetUserByID now i db =
     (case user_row i db of None \<Rightarrow> Inl ErrUserNotFound | Some u \<Rightarrow> Inr (scanUser now u))"

record UserPage =
  up_Users :: "User list"
  up_TotalCount :: int
  up_HasMore :: bool
  up_NextCursor :: "(time \<times> string) option"

definition user_key :: "User \<Rightarrow> time \<times> string" where
  "user_key u = (u_CreatedAt u, u_ID u)"

definition ListUsersPage :: "time \<Rightarrow> (time \<times> string) option \<Rightarrow> int \<Rightarrow> DB \<Rightarrow> UserPage" where
  "ListUsersPage now cursor limit db =
     (case keyset_page timeIDAscending user_key cursor limit (users db) of
        (rows, hasMore, nextCursor) \<Rightarrow>
          \<lparr>up_Users = map (scanUser now) rows, up_TotalCount = int (length (users db)),
           up_HasMore = hasMore, up_NextCursor = nextCursor\<rparr>)"

definition validateAssignableTierID :: "string \<Rightarrow> DB \<Rightarrow> store_error option" where
  "validateAssignableTierID tierID db =
     (if tier_row (TrimSpace tierID) db = None then Some ErrTierNotAssignable else None)"

text \<open>
  The SET clauses of \<open>UpdateUser\<close> in the order the code appends them, with the flag that asks for
  a new token version, or the error of the first check that fails.
\<close>

definition user_sets ::
  "User \<Rightarrow> UserUpdates \<Rightarrow> DB \<Rightarrow> store_error + (User \<Rightarrow> User) list \<times> bool" where
  "user_sets existingUser updates db =
     (let (enabledSets, bump1) = (case uu_Enabled updates of
            Some e \<Rightarrow> if e \<noteq> u_Enabled existingUser then ([\<lambda>u. u\<lparr>u_Enabled := e\<rparr>], True) else ([], False)
          | None \<Rightarrow> ([], False))
      in case (case uu_Role updates of
            Some role \<Rightarrow>
              if role \<noteq> RoleAdmin \<and> role \<noteq> RoleUser then Inl (StoreErrorf ''invalid role'')
              else if role \<noteq> u_Role existingUser then Inr ([\<lambda>u. u\<lparr>u_Role := role\<rparr>], True)
              else Inr ([], False)
          | None \<Rightarrow> Inr ([], False)) of
         Inl e \<Rightarrow> Inl e
       | Inr (roleSets, bump2) \<Rightarrow>
         (case (case uu_TierID updates of
             Some rawTierID \<Rightarrow>
               let tierID = TrimSpace rawTierID
               in if tierID = [] then Inl ErrTierNotAssignable
                  else (case validateAssignableTierID tierID db of
                      Some e \<Rightarrow> Inl e
                    | None \<Rightarrow> Inr [\<lambda>u. u\<lparr>u_TierID := tierID\<rparr>])
           | None \<Rightarrow> Inr []) of
            Inl e \<Rightarrow> Inl e
          | Inr tierSets \<Rightarrow>
            (case (case uu_PasswordHash updates of
                Some rawHash \<Rightarrow>
                  let passwordHash = TrimSpace rawHash
                  in if passwordHash = [] then Inl (StoreErrorf ''password_hash must not be empty'')
                     else Inr ([\<lambda>u. u\<lparr>u_PasswordHash := passwordHash\<rparr>], True)
              | None \<Rightarrow> Inr ([], False)) of
               Inl e \<Rightarrow> Inl e
             | Inr (hashSets, bump3) \<Rightarrow>
                 let bump = (bump1 \<or> bump2 \<or> bump3 \<or> uu_RevokeTokens updates = Some True)
                 in Inr (enabledSets @ roleSets @ tierSets @ hashSets @
                      (if bump then [\<lambda>u. u\<lparr>u_TokenVersion := u_TokenVersion u + 1\<rparr>] else []), bump))))"

definition apply_sets :: "('r \<Rightarrow> 'r) list \<Rightarrow> 'r \<Rightarrow> 'r" where
  "apply_sets sets r = fold (\<lambda>f. f) sets r"

definition UpdateUser :: "time \<Rightarrow> string \<Rightarrow> UserUpdates \<Rightarrow> DB \<Rightarrow> (store_error + User) \<times> DB" where
  "UpdateUser now i updates = run_tx (\<lambda>db.
     case user_row i db of
       None \<Rightarrow> Inl ErrUserNotFound
     | Some row \<Rightarrow>
         let existingUser = scanUser now row
         in case user_sets existingUser updates db of
              Inl e \<Rightarrow> Inl e
            | Inr (sets, bump) \<Rightarrow>
                if length sets = 0 then Inr (existingUser, db)
                else
                  let db' = db\<lparr>users := update_where (\<lambda>u. u_ID u = i)
                        (\<lambda>u. (apply_sets sets u)\<lparr>u_UpdatedAt := db_time now\<rparr>) (users db)\<rparr>;
                      updatedRole = (case uu_Role updates of Some r \<Rightarrow> r | None \<Rightarrow> u_Role existingUser);
                      updatedEnabled = (case uu_Enabled updates of Some e \<Rightarrow> e | None \<Rightarrow> u_Enabled existingUser);
                      removesEnabledAdmin = (u_Role existingUser = RoleAdmin \<and> u_Enabled existingUser \<and>
                        (updatedRole \<noteq> RoleAdmin \<or> \<not> updatedEnabled))
                  in if removesEnabledAdmin \<and> enabled_admins db' < 1 then Inl ErrLastAdmin
                     else (case user_row i db' of
                         None \<Rightarrow> Inl ErrUserNotFound
                       | Some updatedRow \<Rightarrow> Inr (scanUser now updatedRow, db')))"

text \<open>
  The debug database is cleaned after the commit, on a best-effort basis: \<open>debugOk\<close> tells whether
  that second database accepted the statement.
\<close>

definition deleteUsageDebugByKeyIDsBestEffort :: "bool \<Rightarrow> string list \<Rightarrow> DB \<Rightarrow> DB" where
  "deleteUsageDebugByKeyIDsBestEffort debugOk keyIDs db =
     (if keyIDs = [] \<or> \<not> debugOk then db
      else db\<lparr>usage_debug := delete_where (\<lambda>r. dr_KeyID r \<in> set keyIDs) (usage_debug db)\<rparr>)"

definition DeleteUser :: "bool \<Rightarrow> string \<Rightarrow> DB \<Rightarrow> (store_error + unit) \<times> DB" where
  "DeleteUser debugOk i db =
     (case run_tx (\<lambda>db.
        case user_row i db of
          None \<Rightarrow> Inl ErrUserNotFound
        | Some u \<Rightarrow>
            if u_Role u = RoleAdmin \<and> u_Enabled u \<and> enabled_admins db \<le> 1 then Inl ErrLastAdmin
            else
              let keyIDs = map k_ID (filter (\<lambda>k. k_UserID k = i) (apikeys db));
                  db1 = db\<lparr>usage_log := delete_where (\<lambda>r. ur_KeyID r \<in> set keyIDs) (usage_log db)\<rparr>;
                  db2 = delete_apikeys (\<lambda>k. k_UserID k = i) db1
              in if rows_affected (\<lambda>u. u_ID u = i) (users db2) = 0 then Inl ErrUserNotFound
                 else Inr (keyIDs, delete_user i db2)) db of
        (Inl e, db') \<Rightarrow> (Inl e, db')
      | (Inr keyIDs, db') \<Rightarrow> (Inr (), deleteUsageDebugByKeyIDsBestEffort debugOk keyIDs db'))"

definition CountUsers :: "DB \<Rightarrow> int" where
  "CountUsers db = int (length (users db))"

definition CountEnabledAdmins :: "DB \<Rightarrow> int" where
  "CountEnabledAdmins db = enabled_admins db"

section \<open>The success quota\<close>

definition calls_in :: "string \<Rightarrow> User \<Rightarrow> int" where
  "calls_in period u = (if u_SuccessPeriod u = period then u_SuccessCalls u else 0)"

definition ReserveSuccessCall ::
  "entropy \<Rightarrow> time \<Rightarrow> string \<Rightarrow> int \<Rightarrow> DB \<Rightarrow> (store_error + SuccessQuotaReservation) \<times> DB" where
  "ReserveSuccessCall rnd now userID successLimit db =
     (case randomID rnd of
        Inl e \<Rightarrow> (Inl (StoreErrorf ''generate success quota reservation ID''), db)
      | Inr reservationID \<Rightarrow>
          let period = successQuotaPeriod now;
              reservation = \<lparr>r_ID = reservationID, r_UserID = userID, r_Period = period\<rparr>;
              eligible = (\<lambda>u. u_ID u = userID \<and> (successLimit \<le> 0 \<or> calls_in period u < successLimit))
          in run_tx (\<lambda>db.
            if rows_affected eligible (users db) = 0
            then (if user_row userID db = None then Inl ErrUserNotFound else Inl ErrQuotaSuccess)
            else
              let db' = db\<lparr>users := update_where eligible
                    (\<lambda>u. u\<lparr>u_SuccessCalls := (if u_SuccessPeriod u = period then u_SuccessCalls u + 1 else 1),
                           u_SuccessPeriod := period\<rparr>) (users db)\<rparr>
              in if list_ex (\<lambda>r. r_ID r = reservationID) (reservations db')
                 then Inl (StoreErrorf ''insert success quota reservation'')
                 else Inr (reservation, db'\<lparr>reservations := reservations db' @
                   [\<lparr>r_ID = reservationID, r_UserID = userID, r_Period = period,
                     r_CreatedAt = db_time now\<rparr>]\<rparr>)) db)"

definition matches :: "SuccessQuotaReservation \<Rightarrow> reservation_row \<Rightarrow> bool" where
  "matches reservation r \<longleftrightarrow> r_ID r = r_ID reservation \<and> r_UserID r = r_UserID reservation \<and>
     r_Period r = r_Period reservation"

definition CompleteSuccessCall ::
  "SuccessQuotaReservation \<Rightarrow> bool \<Rightarrow> DB \<Rightarrow> (store_error + unit) \<times> DB" where
  "CompleteSuccessCall reservation succeeded db =
     (if \<not> IsValid reservation then (Inl (StoreErrorf ''invalid success quota reservation''), db)
      else run_tx (\<lambda>db.
        let deletedReservations = rows_affected (matches reservation) (reservations db);
            db1 = db\<lparr>reservations := delete_where (matches reservation) (reservations db)\<rparr>;
            db2 = (if 0 < deletedReservations \<and> \<not> succeeded
              then db1\<lparr>users := update_where
                (\<lambda>u. u_ID u = r_UserID reservation \<and> u_SuccessPeriod u = r_Period reservation \<and>
                   0 < u_SuccessCalls u)
                (\<lambda>u. u\<lparr>u_SuccessCalls := u_SuccessCalls u - 1\<rparr>) (users db1)\<rparr>
              else db1)
        in Inr ((), db2)) db)"

section \<open>The operations keep the invariant\<close>

lemma insert_user_ok:
  assumes ok: "db_ok db" and ins: "insert_user u db = Inr db'"
    and u: "u_SuccessCalls u = 0" "u_ID u \<noteq> []" "TrimSpace (u_ID u) = u_ID u" "u_Username u \<noteq> []"
      "db_time (u_CreatedAt u) = u_CreatedAt u" "u_TokenVersion u = 0"
  shows "db_ok db'"
proof -
  have new: "db' = db\<lparr>users := users db @ [u]\<rparr>" "u_Role u \<in> {RoleAdmin, RoleUser}"
    "u_TierID u \<in> t_ID ` set (tiers db)"
    "\<And>v. v \<in> set (users db) \<Longrightarrow> u_ID v \<noteq> u_ID u \<and> nocase (u_Username v) \<noteq> nocase (u_Username u)"
    using ins by (simp_all add: insert_user_Inr)
  have "r_UserID r \<noteq> u_ID u" if "r \<in> set (reservations db)" for r
    using reservation_user [OF ok that] new(4) by (metis imageE)
  moreover from this have "outstanding_reservations u (reservations db) = 0"
    by (auto simp: outstanding_reservations_def count_if_zero)
  ultimately have "user_quota_ok u (reservations db)" using u(1) by (auto simp: user_quota_ok_def)
  then have "quota_ok (users db @ [u]) (reservations db)"
    using db_ok_quota [OF ok] by (simp add: quota_ok_def)
  moreover have "users_ok (users db @ [u])"
  proof -
    have "u_ID u \<notin> u_ID ` set (users db)" "nocase (u_Username u) \<notin> (\<lambda>v. nocase (u_Username v)) ` set (users db)"
      using new(4) by (metis (no_types, lifting) imageE)+
    then show ?thesis using ok u new(2) by (simp add: db_ok_def users_ok_def)
  qed
  moreover have "references_ok db'"
    using ok new(3) by (auto simp: db_ok_def references_ok_def new(1))
  ultimately show ?thesis using ok by (simp add: db_ok_def new(1))
qed

lemma CreateUser_ok:
  assumes "db_ok db" "random_ok 16 rnd"
  shows "db_ok (snd (CreateUser rnd now username passwordHash role db))"
proof -
  have "db_ok db'" if "randomID rnd = Inr i" "TrimSpace username \<noteq> []"
    "insert_user (new_user_row now i (TrimSpace username) passwordHash role t) db = Inr db'" for i t db'
    using insert_user_ok [OF assms(1) that(3)] randomID_trimmed [OF assms(2) that(1)] that(2)
    by (simp add: new_user_row_def)
  then show ?thesis using assms(1)
    by (auto simp: CreateUser_def Let_def snd_run_tx split: sum.split option.split)
qed

text \<open>An UPDATE of users that keeps identity, name and creation time, and respects the quota.\<close>

lemma update_users_ok:
  assumes ok: "db_ok db"
    and id: "\<And>u. u_ID (f u) = u_ID u" "\<And>u. u_Username (f u) = u_Username u"
      "\<And>u. u_CreatedAt (f u) = u_CreatedAt u"
    and f: "\<And>u. u \<in> set (users db) \<Longrightarrow> P u \<Longrightarrow> u_Role (f u) \<in> {RoleAdmin, RoleUser} \<and>
      u_TierID (f u) \<in> t_ID ` set (tiers db) \<and> 0 \<le> u_SuccessCalls (f u) \<and> 0 \<le> u_TokenVersion (f u) \<and>
      user_quota_ok (f u) (reservations db)"
  shows "db_ok (db\<lparr>users := update_where P f (users db)\<rparr>)"
proof -
  let ?us = "update_where P f (users db)"
  have ids: "map u_ID ?us = map u_ID (users db)"
    and names: "map (\<lambda>u. nocase (u_Username u)) ?us = map (\<lambda>u. nocase (u_Username u)) (users db)"
    by (simp_all add: map_update_where id)
  have idset: "u_ID ` set ?us = u_ID ` set (users db)" using ids by (metis set_map)
  have "users_ok ?us"
    using ok f ids names by (auto simp: db_ok_def users_ok_def rows id)
  moreover have "quota_ok ?us (reservations db)"
    using ok f by (auto simp: db_ok_def quota_ok_def rows)
  moreover have "u_TierID ` set ?us \<subseteq> t_ID ` set (tiers db)"
    using ok f by (auto simp: db_ok_def references_ok_def rows)
  ultimately show ?thesis using ok by (simp add: db_ok_def references_ok_def idset)
qed

text \<open>What the SET clauses of \<open>UpdateUser\<close> do, as one function of the row.\<close>

definition updated_user :: "UserUpdates \<Rightarrow> bool \<Rightarrow> User \<Rightarrow> User" where
  "updated_user updates bump u = u\<lparr>
     u_Enabled := case_option (u_Enabled u) id (uu_Enabled updates),
     u_Role := case_option (u_Role u) id (uu_Role updates),
     u_TierID := case_option (u_TierID u) TrimSpace (uu_TierID updates),
     u_PasswordHash := case_option (u_PasswordHash u) TrimSpace (uu_PasswordHash updates),
     u_TokenVersion := u_TokenVersion u + (if bump then 1 else 0)\<rparr>"

text \<open>Whether an update must invalidate the tokens issued before it.\<close>

definition revokes :: "UserUpdates \<Rightarrow> User \<Rightarrow> bool" where
  "revokes updates u \<longleftrightarrow>
     (\<exists>e. uu_Enabled updates = Some e \<and> e \<noteq> u_Enabled u) \<or>
     (\<exists>r. uu_Role updates = Some r \<and> r \<noteq> u_Role u) \<or>
     uu_PasswordHash updates \<noteq> None \<or> uu_RevokeTokens updates = Some True"

definition updates_valid :: "UserUpdates \<Rightarrow> DB \<Rightarrow> bool" where
  "updates_valid updates db \<longleftrightarrow>
     (\<forall>r. uu_Role updates = Some r \<longrightarrow> r \<in> {RoleAdmin, RoleUser}) \<and>
     (\<forall>t. uu_TierID updates = Some t \<longrightarrow> TrimSpace t \<noteq> [] \<and> TrimSpace (TrimSpace t) \<in> t_ID ` set (tiers db)) \<and>
     (\<forall>p. uu_PasswordHash updates = Some p \<longrightarrow> TrimSpace p \<noteq> [])"

lemma user_sets_spec:
  assumes "u_Enabled e = u_Enabled u" "u_Role e = u_Role u"
  shows "user_sets e updates db = Inr (sets, bump) \<Longrightarrow>
    updates_valid updates db \<and> bump = revokes updates u \<and>
    apply_sets sets u = updated_user updates bump u \<and>
    (length sets = 0 \<longrightarrow> updated_user updates bump u = u)"
  using assms unfolding user_sets_def Let_def
  by (auto simp: updates_valid_def revokes_def apply_sets_def updated_user_def validateAssignableTierID_def
      tier_row_None split: option.splits if_splits sum.splits prod.splits)

definition stamped :: "time \<Rightarrow> UserUpdates \<Rightarrow> bool \<Rightarrow> User \<Rightarrow> User" where
  "stamped now updates bump u = (updated_user updates bump u)\<lparr>u_UpdatedAt := db_time now\<rparr>"

lemma scanUser_fields [simp]:
  "u_ID (scanUser now u) = u_ID u" "u_Username (scanUser now u) = u_Username u"
  "u_Enabled (scanUser now u) = u_Enabled u" "u_Role (scanUser now u) = u_Role u"
  "u_TierID (scanUser now u) = u_TierID u" "u_TokenVersion (scanUser now u) = u_TokenVersion u"
  "u_PasswordHash (scanUser now u) = u_PasswordHash u"
  "u_CreatedAt (scanUser now u) = u_CreatedAt u"
  "u_SuccessPeriod (scanUser now u) = successQuotaPeriod now"
  "u_SuccessCalls (scanUser now u) = calls_in (successQuotaPeriod now) u"
  by (simp_all add: scanUser_def calls_in_def Let_def)

lemma UpdateUser_cases:
  assumes ok: "db_ok db" and upd: "UpdateUser now i updates db = (r, db')"
  obtains (error) e where "r = Inl e" "db' = db"
  | (unchanged) u where "user_row i db = Some u" "r = Inr (scanUser now u)" "db' = db"
      "updates_valid updates db" "\<not> revokes updates u" "updated_user updates False u = u"
  | (changed) u where "user_row i db = Some u" "updates_valid updates db"
      "db' = db\<lparr>users := update_where (\<lambda>v. u_ID v = i) (stamped now updates (revokes updates u)) (users db)\<rparr>"
      "r = Inr (scanUser now (stamped now updates (revokes updates u) u))"
      "u_Role u = RoleAdmin \<and> u_Enabled u \<longrightarrow>
         u_Role (stamped now updates (revokes updates u) u) = RoleAdmin \<and>
         u_Enabled (stamped now updates (revokes updates u) u) \<or> 1 \<le> enabled_admins db'"
proof (cases "user_row i db")
  case None
  then show ?thesis using upd that(1) by (auto simp: UpdateUser_def run_tx_def)
next
  case (Some u)
  show ?thesis
  proof (cases "user_sets (scanUser now u) updates db")
    case (Inl e)
    then show ?thesis using upd Some that(1) by (auto simp: UpdateUser_def run_tx_def)
  next
    case (Inr sb)
    obtain sets bump where sb: "sb = (sets, bump)" by fastforce
    have spec: "updates_valid updates db" "bump = revokes updates u"
      "apply_sets sets u = updated_user updates bump u"
      "length sets = 0 \<Longrightarrow> updated_user updates bump u = u"
      using user_sets_spec [of "scanUser now u" u updates db sets bump] Inr sb by auto
    have uniq: "v = u" if "v \<in> set (users db)" "u_ID v = i" for v
      using user_row_Some [OF ok] Some that by (metis option.inject)
    show ?thesis
    proof (cases "length sets = 0")
      case True
      then have "u_TokenVersion (updated_user updates bump u) = u_TokenVersion u" using spec(4) by simp
      then have "\<not> bump" by (simp add: updated_user_def split: if_splits)
      then show ?thesis using upd Some Inr sb True spec that(2) [of u] by (auto simp: UpdateUser_def run_tx_def)
    next
      case False
      define f where "f = stamped now updates (revokes updates u)"
      have f: "update_where (\<lambda>v. u_ID v = i) (\<lambda>v. (apply_sets sets v)\<lparr>u_UpdatedAt := db_time now\<rparr>) (users db) =
          update_where (\<lambda>v. u_ID v = i) f (users db)"
        by (rule update_where_cong) (use uniq spec in \<open>auto simp: f_def stamped_def\<close>)
      have "u_ID (f v) = u_ID v" for v by (simp add: f_def stamped_def updated_user_def)
      then have row: "user_row i (db\<lparr>users := update_where (\<lambda>v. u_ID v = i) f (users db)\<rparr>) = Some (f u)"
        using Some by (simp add: user_row_def find_update_key)
      have e: "(case uu_Enabled updates of Some e \<Rightarrow> e | None \<Rightarrow> u_Enabled (scanUser now u)) = u_Enabled (f u)"
        "(case uu_Role updates of Some r \<Rightarrow> r | None \<Rightarrow> u_Role (scanUser now u)) = u_Role (f u)"
        by (auto simp: f_def stamped_def updated_user_def split: option.split)
      show ?thesis using upd Some Inr sb False that(1) that(3) [of u] spec(1)
        by (auto simp: UpdateUser_def run_tx_def Let_def f row e f_def [symmetric] split: if_splits)
    qed
  qed
qed

lemma stamped_fields [simp]:
  "u_ID (stamped now updates b u) = u_ID u" "u_Username (stamped now updates b u) = u_Username u"
  "u_CreatedAt (stamped now updates b u) = u_CreatedAt u"
  "u_SuccessCalls (stamped now updates b u) = u_SuccessCalls u"
  "u_SuccessPeriod (stamped now updates b u) = u_SuccessPeriod u"
  by (simp_all add: stamped_def updated_user_def)

lemma UpdateUser_ok:
  assumes ok: "db_ok db"
  shows "db_ok (snd (UpdateUser now i updates db))"
proof -
  obtain r db' where upd: "UpdateUser now i updates db = (r, db')" by fastforce
  from ok upd show ?thesis
  proof (cases rule: UpdateUser_cases)
    case (changed u)
    let ?f = "stamped now updates (revokes updates u)"
    have valid: "u_Role (?f v) \<in> {RoleAdmin, RoleUser} \<and> u_TierID (?f v) \<in> t_ID ` set (tiers db) \<and>
        0 \<le> u_SuccessCalls (?f v) \<and> 0 \<le> u_TokenVersion (?f v) \<and> user_quota_ok (?f v) (reservations db)"
      if v: "v \<in> set (users db)" for v
    proof -
      have "u_Role v \<in> {RoleAdmin, RoleUser}" "0 \<le> u_SuccessCalls v" "0 \<le> u_TokenVersion v"
        "user_quota_ok v (reservations db)" "u_TierID v \<in> t_ID ` set (tiers db)"
        using db_ok_users [OF ok] db_ok_quota [OF ok] db_ok_references [OF ok] v
        by (auto simp: users_ok_def quota_ok_def references_ok_def)
      then show ?thesis using changed(2) user_quota_ok_cong [of "?f v" v]
        by (auto simp: updates_valid_def stamped_def updated_user_def split: option.split)
    qed
    show ?thesis unfolding upd snd_conv changed(3)
      by (rule update_users_ok [OF ok]) (use valid in auto)
  qed (use ok upd in auto)
qed

lemma enabled_admins_update:
  assumes ok: "db_ok db" and row: "user_row i db = Some u" and f: "\<And>v. u_ID (f v) = u_ID v"
  shows "enabled_admins (db\<lparr>users := update_where (\<lambda>v. u_ID v = i) f (users db)\<rparr>) = enabled_admins db -
    (if u_Role u = RoleAdmin \<and> u_Enabled u then 1 else 0) +
    (if u_Role (f u) = RoleAdmin \<and> u_Enabled (f u) then 1 else 0)"
proof -
  have "u \<in> set (users db)" "u_ID u = i" using row user_row_Some [OF ok] by auto
  then show ?thesis
    using count_update_key [of u_ID "users db" u _ f] db_ok_users [OF ok]
    by (simp add: enabled_admins_def users_ok_def)
qed

lemma UpdateUser_admins:
  assumes ok: "db_ok db" and "1 \<le> enabled_admins db"
  shows "1 \<le> enabled_admins (snd (UpdateUser now i updates db))"
proof -
  obtain r db' where upd: "UpdateUser now i updates db = (r, db')" by fastforce
  from ok upd show ?thesis
  proof (cases rule: UpdateUser_cases)
    case (changed u)
    have "enabled_admins db' = enabled_admins db - (if u_Role u = RoleAdmin \<and> u_Enabled u then 1 else 0) +
      (if u_Role (stamped now updates (revokes updates u) u) = RoleAdmin \<and>
         u_Enabled (stamped now updates (revokes updates u) u) then 1 else 0)"
      unfolding changed(3) by (rule enabled_admins_update [OF ok changed(1)]) simp
    then show ?thesis using changed(5) assms(2) by (auto simp: upd split: if_splits)
  qed (use assms upd in auto)
qed

text \<open>Deleting keys and users.\<close>

lemma delete_apikeys_ok:
  assumes "db_ok db"
  shows "db_ok (delete_apikeys P db)"
proof -
  have key: "k_ID k \<in> k_ID ` set (delete_where P (apikeys db))"
    if "k \<in> set (apikeys db)" "k_ID k \<notin> k_ID ` {x \<in> set (apikeys db). P x}" for k
    using that by (auto simp: rows)
  have refs: "f ` set (delete_where (\<lambda>r. f r \<in> k_ID ` {x \<in> set (apikeys db). P x}) rs) \<subseteq>
      k_ID ` set (delete_where P (apikeys db))"
    if sub: "f ` set rs \<subseteq> k_ID ` set (apikeys db)" for f :: "'b \<Rightarrow> string" and rs
  proof
    fix x assume "x \<in> f ` set (delete_where (\<lambda>r. f r \<in> k_ID ` {x \<in> set (apikeys db). P x}) rs)"
    then obtain r where r: "r \<in> set rs" "x = f r" "f r \<notin> k_ID ` {x \<in> set (apikeys db). P x}"
      by (auto simp: rows)
    then obtain k where "k \<in> set (apikeys db)" "f r = k_ID k" using sub by auto
    then show "x \<in> k_ID ` set (delete_where P (apikeys db))" using key [of k] r by simp
  qed
  have "keys_ok (delete_where P (apikeys db))" "usage_ok (delete_where Q (usage_log db)) (usage_seq db)"
    "rollups_ok (delete_where R (hourly_rollups db))" "rollups_ok (delete_where R (daily_rollups db))" for Q R
    using assms
    by (auto simp: db_ok_def keys_ok_def usage_ok_def rollups_ok_def rows intro!: distinct_delete_where)
  moreover have "references_ok (delete_apikeys P db)"
  proof -
    note r = db_ok_references [OF assms, unfolded references_ok_def]
    have "ur_KeyID ` set (usage_log db) \<subseteq> k_ID ` set (apikeys db)"
      "ro_KeyID ` set (hourly_rollups db) \<subseteq> k_ID ` set (apikeys db)"
      "ro_KeyID ` set (daily_rollups db) \<subseteq> k_ID ` set (apikeys db)" using r by blast+
    note r' = this [THEN refs]
    have "k_UserID ` set (delete_where P (apikeys db)) \<subseteq> u_ID ` set (users db)"
      using r by (auto simp: rows)
    then show ?thesis using r r' by (simp add: delete_apikeys_def Let_def references_ok_def)
  qed
  ultimately show ?thesis using assms by (simp add: delete_apikeys_def Let_def db_ok_def)
qed

lemma delete_user_ok:
  assumes ok: "db_ok db"
  shows "db_ok (delete_user i db)"
proof -
  define d where "d = delete_apikeys (\<lambda>k. k_UserID k = i) db"
  have d: "db_ok d" unfolding d_def by (rule delete_apikeys_ok [OF ok])
  have keys: "\<And>k. k \<in> set (apikeys d) \<Longrightarrow> k_UserID k \<noteq> i"
    by (auto simp: d_def delete_apikeys_def Let_def rows)
  define us rs cs where "us = delete_where (\<lambda>u. u_ID u = i) (users d)"
    and "rs = delete_where (\<lambda>r. r_UserID r = i) (reservations d)"
    and "cs = update_where (\<lambda>c. ic_CreatedByUserID c = Some i)
      (\<lambda>c. c\<lparr>ic_CreatedByUserID := None\<rparr>) (invite_codes d)"
  have ids: "u_ID ` set us = u_ID ` set (users d) - {i}" by (auto simp: us_def rows)
  have "users_ok us" "reservations_ok rs"
    using d by (auto simp: db_ok_def users_ok_def reservations_ok_def us_def rs_def rows
        intro!: distinct_delete_where)
  moreover have "invites_ok cs"
    using d by (auto simp: db_ok_def invites_ok_def cs_def rows map_update_where)
  moreover have "quota_ok us rs"
    using db_ok_quota [OF d] by (auto simp: quota_ok_def us_def rs_def rows intro: user_quota_ok_delete)
  moreover have "references_ok (d\<lparr>users := us, reservations := rs, invite_codes := cs\<rparr>)"
    using db_ok_references [OF d] keys ids
    by (auto simp: references_ok_def us_def rs_def cs_def rows split: if_splits)
  ultimately show ?thesis using d
    by (simp add: delete_user_def Let_def d_def [symmetric] us_def [symmetric] rs_def [symmetric]
        cs_def [symmetric] db_ok_def)
qed

lemma delete_usage_ok:
  "db_ok db \<Longrightarrow> db_ok (db\<lparr>usage_log := delete_where P (usage_log db)\<rparr>)"
  by (auto simp: db_ok_def usage_ok_def references_ok_def rows intro!: distinct_delete_where)

lemma debug_ok: "db_ok (db\<lparr>usage_debug := x\<rparr>) = db_ok db"
  by (simp add: db_ok_def references_ok_def)

lemma deleteUsageDebug_ok [simp]:
  "db_ok (deleteUsageDebugByKeyIDsBestEffort b ks db) = db_ok db"
  "enabled_admins (deleteUsageDebugByKeyIDsBestEffort b ks db) = enabled_admins db"
  by (simp_all add: deleteUsageDebugByKeyIDsBestEffort_def debug_ok enabled_admins_def)

lemma DeleteUser_cases:
  assumes "DeleteUser debugOk i db = (r, db')"
  obtains (error) e where "r = Inl e" "db' = db"
  | (deleted) u keyIDs P where "r = Inr ()" "user_row i db = Some u"
      "\<not> (u_Role u = RoleAdmin \<and> u_Enabled u \<and> enabled_admins db \<le> 1)"
      "keyIDs = map k_ID (filter (\<lambda>k. k_UserID k = i) (apikeys db))"
      "db' = deleteUsageDebugByKeyIDsBestEffort debugOk keyIDs (delete_user i
         (delete_apikeys (\<lambda>k. k_UserID k = i) (db\<lparr>usage_log := delete_where P (usage_log db)\<rparr>)))"
  using assms unfolding DeleteUser_def run_tx_def Let_def
  by (fastforce split: option.splits if_splits)

lemma DeleteUser_ok:
  assumes "db_ok db"
  shows "db_ok (snd (DeleteUser debugOk i db))"
proof -
  obtain r db' where d: "DeleteUser debugOk i db = (r, db')" by fastforce
  then show ?thesis using assms
    by (cases rule: DeleteUser_cases) (simp_all add: d delete_user_ok delete_apikeys_ok delete_usage_ok)
qed

lemma enabled_admins_delete_user:
  assumes ok: "db_ok db" and row: "user_row i db = Some u"
  shows "enabled_admins (delete_user i db) =
    enabled_admins db - (if u_Role u = RoleAdmin \<and> u_Enabled u then 1 else 0)"
proof -
  have "u \<in> set (users db)" "u_ID u = i" using row user_row_Some [OF ok] by auto
  then show ?thesis using count_delete_key [of u_ID "users db" u] db_ok_users [OF ok]
    by (simp add: enabled_admins_def delete_user_def delete_apikeys_def Let_def users_ok_def)
qed

lemma DeleteUser_admins:
  assumes "db_ok db" "1 \<le> enabled_admins db"
  shows "1 \<le> enabled_admins (snd (DeleteUser debugOk i db))"
proof -
  obtain r db' where d: "DeleteUser debugOk i db = (r, db')" by fastforce
  then show ?thesis
  proof (cases rule: DeleteUser_cases)
    case (deleted u keyIDs P)
    let ?d = "delete_apikeys (\<lambda>k. k_UserID k = i) (db\<lparr>usage_log := delete_where P (usage_log db)\<rparr>)"
    have "db_ok ?d" by (intro delete_apikeys_ok delete_usage_ok assms)
    moreover have "user_row i ?d = Some u" using deleted(2) by (simp add: user_row_def delete_apikeys_def Let_def)
    moreover have "enabled_admins ?d = enabled_admins db"
      by (simp add: enabled_admins_def delete_apikeys_def Let_def)
    ultimately show ?thesis using enabled_admins_delete_user [of ?d i u] deleted(3,5) assms(2)
      by (auto simp: d)
  qed (use assms d in auto)
qed

text \<open>The quota operations.\<close>

definition reserved_user :: "string \<Rightarrow> User \<Rightarrow> User" where
  "reserved_user period u = u\<lparr>u_SuccessCalls := calls_in period u + 1, u_SuccessPeriod := period\<rparr>"

lemma ReserveSuccessCall_cases:
  assumes ok: "db_ok db" and res: "ReserveSuccessCall rnd now userID successLimit db = (r, db')"
  obtains (error) e where "r = Inl e" "db' = db" "e = ErrUserNotFound \<longrightarrow> user_row userID db = None"
      "e = ErrQuotaSuccess \<longrightarrow> 0 < successLimit \<and>
         (\<exists>u. user_row userID db = Some u \<and> successLimit \<le> calls_in (successQuotaPeriod now) u)"
      "e \<notin> {ErrUserNotFound, ErrQuotaSuccess} \<longrightarrow> (\<forall>i. randomID rnd = Inr i \<longrightarrow> i \<in> r_ID ` set (reservations db))"
  | (reserved) i u where "r = Inr \<lparr>r_ID = i, r_UserID = userID, r_Period = successQuotaPeriod now\<rparr>"
      "randomID rnd = Inr i" "user_row userID db = Some u"
      "successLimit \<le> 0 \<or> calls_in (successQuotaPeriod now) u < successLimit"
      "i \<notin> r_ID ` set (reservations db)"
      "db' = db\<lparr>users := update_where (\<lambda>v. u_ID v = userID) (reserved_user (successQuotaPeriod now)) (users db),
         reservations := reservations db @ [\<lparr>r_ID = i, r_UserID = userID,
           r_Period = successQuotaPeriod now, r_CreatedAt = db_time now\<rparr>]\<rparr>"
proof (cases "randomID rnd")
  case (Inl e)
  then show ?thesis using res that(1) by (auto simp: ReserveSuccessCall_def)
next
  case (Inr i)
  define period where "period = successQuotaPeriod now"
  let ?el = "\<lambda>u. u_ID u = userID \<and> (successLimit \<le> 0 \<or> calls_in period u < successLimit)"
  show ?thesis
  proof (cases "rows_affected ?el (users db) = 0")
    case True
    then have none: "\<And>u. u \<in> set (users db) \<Longrightarrow> u_ID u = userID \<Longrightarrow> 0 < successLimit \<and> successLimit \<le> calls_in period u"
      by (auto simp: rows_affected_def count_if_zero)
    show ?thesis
    proof (cases "user_row userID db")
      case None
      then show ?thesis using res that(1) Inr True
        by (auto simp: ReserveSuccessCall_def run_tx_def period_def)
    next
      case (Some u)
      then have "0 < successLimit \<and> successLimit \<le> calls_in period u"
        using none user_row_Some [OF ok] by blast
      then show ?thesis using res that(1) [of ErrQuotaSuccess] Inr True Some
        by (auto simp: ReserveSuccessCall_def run_tx_def period_def)
    qed
  next
    case False
    then obtain u where u: "u \<in> set (users db)" "?el u"
      by (auto simp: rows_affected_def count_if_zero)
    then have row: "user_row userID db = Some u" using user_row_Some [OF ok] by blast
    have uniq: "v = u" if "v \<in> set (users db)" "u_ID v = userID" for v
      using user_row_Some [OF ok] row that by (metis option.inject)
    have upd: "update_where ?el f (users db) = update_where (\<lambda>v. u_ID v = userID) f (users db)" for f
      by (rule update_where_cong_pred) (use uniq u in auto)
    have f: "(\<lambda>u. u\<lparr>u_SuccessCalls := (if u_SuccessPeriod u = period then u_SuccessCalls u + 1 else 1),
        u_SuccessPeriod := period\<rparr>) = reserved_user period"
      by (rule ext) (simp add: reserved_user_def calls_in_def)
    show ?thesis
    proof (cases "i \<in> r_ID ` set (reservations db)")
      case True
      then have "list_ex (\<lambda>r. r_ID r = i) (reservations db)" by (auto simp: list_ex_iff)
      with True show ?thesis using res that(1) Inr False
        by (auto simp: ReserveSuccessCall_def run_tx_def period_def [symmetric] Let_def)
    next
      case fresh: False
      then have "\<not> list_ex (\<lambda>r. r_ID r = i) (reservations db)" by (auto simp: list_ex_iff)
      then show ?thesis
        using res that(2) [of i u] Inr False row u(2) fresh
        by (simp add: ReserveSuccessCall_def run_tx_def period_def [symmetric] Let_def f upd)
    qed
  qed
qed

text \<open>The clock has not gone back behind a month already counted in.\<close>

definition clock_ok :: "time \<Rightarrow> DB \<Rightarrow> bool" where
  "clock_ok now db \<longleftrightarrow> (\<forall>u \<in> set (users db). u_SuccessPeriod u \<le> successQuotaPeriod now)"

lemma reserved_user_quota_ok:
  assumes q: "user_quota_ok u rs" and c: "u_SuccessPeriod u \<le> p"
    and r: "r_UserID r = u_ID u" "r_Period r = p" and n: "0 \<le> u_SuccessCalls u"
  shows "user_quota_ok (reserved_user p u) (rs @ [r])"
proof (cases "u_SuccessPeriod u = p")
  case True
  then show ?thesis using q r
    by (auto simp: user_quota_ok_def reserved_user_def outstanding_reservations_def calls_in_def)
next
  case False
  with c have "u_SuccessPeriod u < p" by simp
  then have "count_if (\<lambda>r. r_UserID r = u_ID u \<and> r_Period r = p) rs = 0"
    using q by (fastforce simp: user_quota_ok_def count_if_zero)
  moreover have "\<forall>r \<in> set rs. r_UserID r = u_ID u \<longrightarrow> r_Period r \<le> p"
    using q c by (auto simp: user_quota_ok_def)
  ultimately show ?thesis using False r
    by (auto simp: user_quota_ok_def reserved_user_def outstanding_reservations_def calls_in_def)
qed

lemma user_quota_ok_other:
  "user_quota_ok u rs \<Longrightarrow> r_UserID r \<noteq> u_ID u \<Longrightarrow> user_quota_ok u (rs @ [r])"
  by (auto simp: user_quota_ok_def outstanding_reservations_def)

lemma reserve_state_ok:
  assumes ok: "db_ok db" and clock: "clock_ok now db" and row: "user_row userID db = Some u"
    and i: "i \<notin> r_ID ` set (reservations db)"
  shows "db_ok (db\<lparr>users := update_where (\<lambda>v. u_ID v = userID) (reserved_user (successQuotaPeriod now)) (users db),
     reservations := reservations db @ [\<lparr>r_ID = i, r_UserID = userID,
       r_Period = successQuotaPeriod now, r_CreatedAt = db_time now\<rparr>]\<rparr>)"
    (is "db_ok (db\<lparr>users := ?us, reservations := reservations db @ [?r]\<rparr>)")
proof -
  have ids: "u_ID ` set ?us = u_ID ` set (users db)"
    by (rule image_update_where) (simp add: reserved_user_def)
  have "users_ok ?us"
    using db_ok_users [OF ok]
    by (auto simp: users_ok_def rows reserved_user_def map_update_where calls_in_def)
  moreover have "quota_ok ?us (reservations db @ [?r])"
  proof -
    have "user_quota_ok (if u_ID v = userID then reserved_user (successQuotaPeriod now) v else v)
        (reservations db @ [?r])" if v: "v \<in> set (users db)" for v
      using reserved_user_quota_ok [of v "reservations db" "successQuotaPeriod now" ?r]
        user_quota_ok_other [of v "reservations db" ?r] clock db_ok_quota [OF ok] db_ok_users [OF ok] v
      by (auto simp: clock_ok_def quota_ok_def users_ok_def)
    then show ?thesis unfolding quota_ok_def set_update_where by blast
  qed
  moreover have "reservations_ok (reservations db @ [?r])"
    using ok i by (auto simp: db_ok_def reservations_ok_def)
  moreover have "u_TierID ` set ?us \<subseteq> t_ID ` set (tiers db)"
    using db_ok_references [OF ok] by (auto simp: references_ok_def rows reserved_user_def)
  moreover have "userID \<in> u_ID ` set (users db)" using row by (metis option.distinct(1) user_row_None)
  ultimately show ?thesis using ok by (simp add: db_ok_def references_ok_def ids)
qed

lemma ReserveSuccessCall_ok:
  assumes ok: "db_ok db" and clock: "clock_ok now db"
  shows "db_ok (snd (ReserveSuccessCall rnd now userID successLimit db))"
proof -
  obtain r db' where res: "ReserveSuccessCall rnd now userID successLimit db = (r, db')" by fastforce
  from ok res show ?thesis
  proof (cases rule: ReserveSuccessCall_cases)
    case (reserved i u)
    then show ?thesis using reserve_state_ok [OF ok clock reserved(3,5)] by (simp add: res)
  qed (use ok res in auto)
qed

text \<open>What completing an outstanding reservation does to the users.\<close>

definition completed_user :: "SuccessQuotaReservation \<Rightarrow> User \<Rightarrow> User" where
  "completed_user reservation u =
     (if u_ID u = r_UserID reservation \<and> u_SuccessPeriod u = r_Period reservation \<and> 0 < u_SuccessCalls u
      then u\<lparr>u_SuccessCalls := u_SuccessCalls u - 1\<rparr> else u)"

lemma CompleteSuccessCall_eq:
  "CompleteSuccessCall reservation succeeded db =
     (if \<not> IsValid reservation then (Inl (StoreErrorf ''invalid success quota reservation''), db)
      else (Inr (), db\<lparr>reservations := delete_where (matches reservation) (reservations db),
        users := (if (\<exists>r \<in> set (reservations db). matches reservation r) \<and> \<not> succeeded
          then map (completed_user reservation) (users db) else users db)\<rparr>))"
  by (simp add: CompleteSuccessCall_def run_tx_def Let_def update_where_def completed_user_def [abs_def]
      rows_affected_def count_if_pos)

lemma completed_user_quota_ok:
  assumes q: "user_quota_ok u rs" and d: "distinct (map r_ID rs)"
    and r: "r \<in> set rs" "matches reservation r"
  shows "user_quota_ok (completed_user reservation u) (delete_where (matches reservation) rs)"
proof -
  have eq: "delete_where (matches reservation) rs = delete_where (\<lambda>x. r_ID x = r_ID r) rs"
  proof -
    have "matches reservation x \<longleftrightarrow> r_ID x = r_ID r" if "x \<in> set rs" for x
      using d r that by (auto simp: matches_def distinct_map inj_on_def)
    then show ?thesis unfolding delete_where_def by (intro filter_cong) auto
  qed
  have "outstanding_reservations u (delete_where (matches reservation) rs) =
      outstanding_reservations u rs - (if r_UserID r = u_ID u \<and> r_Period r = u_SuccessPeriod u then 1 else 0)"
    unfolding eq outstanding_reservations_def by (rule count_delete_key [OF d r(1)])
  then show ?thesis using q r(2)
    by (auto simp: user_quota_ok_def completed_user_def outstanding_reservations_def matches_def rows)
qed

lemma CompleteSuccessCall_ok:
  assumes ok: "db_ok db"
  shows "db_ok (snd (CompleteSuccessCall reservation succeeded db))"
proof -
  define rs where "rs = delete_where (matches reservation) (reservations db)"
  define us where "us = (if (\<exists>r \<in> set (reservations db). matches reservation r) \<and> \<not> succeeded
      then map (completed_user reservation) (users db) else users db)"
  have fields: "u_ID (completed_user reservation u) = u_ID u"
    "u_Username (completed_user reservation u) = u_Username u"
    "u_CreatedAt (completed_user reservation u) = u_CreatedAt u"
    "u_Role (completed_user reservation u) = u_Role u"
    "u_TokenVersion (completed_user reservation u) = u_TokenVersion u"
    "u_TierID (completed_user reservation u) = u_TierID u" for u
    by (simp_all add: completed_user_def)
  have ids: "u_ID ` set us = u_ID ` set (users db)" "u_TierID ` set us = u_TierID ` set (users db)"
    by (auto simp: us_def fields image_image)
  have "users_ok us" using db_ok_users [OF ok]
    by (auto simp: users_ok_def us_def fields comp_def) (auto simp: completed_user_def)
  moreover have "reservations_ok rs" using ok
    by (auto simp: db_ok_def reservations_ok_def rs_def intro: distinct_delete_where)
  moreover have "quota_ok us rs"
    using db_ok_quota [OF ok] ok completed_user_quota_ok user_quota_ok_delete
    by (auto simp: quota_ok_def us_def rs_def db_ok_def reservations_ok_def)
  moreover have "r_UserID ` set rs \<subseteq> u_ID ` set (users db)"
    using reservation_user [OF ok] by (auto simp: rs_def rows)
  ultimately have "db_ok (db\<lparr>reservations := rs, users := us\<rparr>)"
    using ok by (simp add: db_ok_def references_ok_def ids)
  then show ?thesis using ok by (simp add: CompleteSuccessCall_eq rs_def us_def)
qed

section \<open>Properties\<close>

lemma user_row_update:
  "(\<And>v. u_ID (f v) = u_ID v) \<Longrightarrow>
     user_row j (db\<lparr>users := update_where (\<lambda>v. u_ID v = i) f (users db)\<rparr>) =
       (if j = i then map_option f (user_row j db) else user_row j db)"
  by (simp add: user_row_def find_update_key)

text \<open>
  (C2) Reserving a success call. With a fresh reservation id, \<open>ReserveSuccessCall\<close> fails only
  because the user does not exist or because its calls of the current month have reached a positive
  limit, and then changes nothing. Otherwise it counts exactly one more call of that user for the
  month, never beyond a positive limit, touches no other user, and returns a reservation that is
  valid and stored.
\<close>

theorem reserve_success_call_exact:
  assumes ok: "db_ok db" and rnd: "random_ok 16 rnd" "randomID rnd = Inr i"
    and fresh: "i \<notin> r_ID ` set (reservations db)"
  shows "case ReserveSuccessCall rnd now userID limit db of
      (Inl e, db') \<Rightarrow> db' = db \<and> (e = ErrUserNotFound \<and> user_row userID db = None \<or>
        e = ErrQuotaSuccess \<and> 0 < limit \<and>
        (\<exists>u. user_row userID db = Some u \<and> limit \<le> calls_in (successQuotaPeriod now) u))
    | (Inr reservation, db') \<Rightarrow> IsValid reservation \<and> r_UserID reservation = userID \<and>
        r_Period reservation = successQuotaPeriod now \<and>
        list_ex (matches reservation) (reservations db') \<and>
        (\<exists>u u'. user_row userID db = Some u \<and> user_row userID db' = Some u' \<and>
          calls_in (successQuotaPeriod now) u' = calls_in (successQuotaPeriod now) u + 1 \<and>
          (0 < limit \<longrightarrow> calls_in (successQuotaPeriod now) u' \<le> limit)) \<and>
        (\<forall>j. j \<noteq> userID \<longrightarrow> user_row j db' = user_row j db)"
proof -
  obtain r db' where res: "ReserveSuccessCall rnd now userID limit db = (r, db')" by fastforce
  from ok res show ?thesis
  proof (cases rule: ReserveSuccessCall_cases)
    case (error e)
    then show ?thesis using rnd(2) fresh by (auto simp: res)
  next
    case (reserved i' u)
    have "i' = i" using reserved(2) rnd(2) by simp
    have u: "u \<in> set (users db)" "u_ID u = userID" using reserved(3) user_row_Some [OF ok] by auto
    then have "userID \<noteq> []" "TrimSpace userID = userID"
      using db_ok_users [OF ok] by (auto simp: users_ok_def)
    then have valid: "IsValid \<lparr>r_ID = i, r_UserID = userID, r_Period = successQuotaPeriod now\<rparr>"
      using randomID_trimmed [OF rnd] valid_successQuotaPeriod [of now] valid_period_trim [of "successQuotaPeriod now"]
      by (simp add: IsValid_def)
    have row: "user_row j db' = (if j = userID then map_option (reserved_user (successQuotaPeriod now)) (user_row j db)
        else user_row j db)" for j
      by (simp add: reserved(6) user_row_def find_update_key reserved_user_def)
    show ?thesis using valid reserved(1,3,4) \<open>i' = i\<close>
      by (simp add: res row) (auto simp: reserved(6) matches_def reserved_user_def calls_in_def)
  qed
qed

definition demo_id :: string where
  "demo_id = ''00010203-0405-4607-8809-0a0b0c0d0e0f''"

lemma demo_id_eq: "randomID demo_entropy = Inr demo_id"
  by code_simp

lemma demo_id_fresh: "demo_id \<notin> r_ID ` set (reservations demo_db)"
  by code_simp

theorem reserve_success_call_exact_witness:
  "(case ReserveSuccessCall demo_entropy demo_time ''ann'' 3 demo_db of
      (Inr reservation, db') \<Rightarrow> IsValid reservation \<and>
        (\<exists>u'. user_row ''ann'' db' = Some u' \<and> calls_in ''2023-11'' u' = 3)
    | _ \<Rightarrow> False)"
proof -
  have "case fst (ReserveSuccessCall demo_entropy demo_time ''ann'' 3 demo_db) of
    Inr reservation \<Rightarrow> True | Inl _ \<Rightarrow> False" by code_simp
  moreover have "successQuotaPeriod demo_time = ''2023-11''" by code_simp
  moreover have "user_row ''ann'' demo_db = Some (demo_user_row ''ann'' RoleUser 2)" by code_simp
  moreover have "calls_in ''2023-11'' (demo_user_row ''ann'' RoleUser 2) = 2" by code_simp
  ultimately show ?thesis
    using reserve_success_call_exact [OF demo_db_ok demo_entropy_ok demo_id_eq demo_id_fresh,
        where now = demo_time and userID = "''ann''" and limit = 3]
    by (auto split: prod.splits sum.splits)
qed

text \<open>
  (C3) Completing a success call is exact and idempotent. In a consistent database, a valid
  reservation that is still outstanding is removed; when the tool failed and the user's counter is
  still in the reserved month it gives back exactly the one call it took (the guard against
  negative counters never bites), otherwise the counter stays. A reservation that is not
  outstanding changes nothing, and completing again, with whatever result, changes nothing.
\<close>

theorem complete_success_call_exact:
  assumes ok: "db_ok db" and valid: "IsValid reservation"
  shows "let db1 = snd (CompleteSuccessCall reservation succeeded db);
      outstanding = list_ex (matches reservation) (reservations db);
      refund = (if outstanding \<and> \<not> succeeded then 1 else 0)
    in fst (CompleteSuccessCall reservation succeeded db) = Inr () \<and>
      (\<not> outstanding \<longrightarrow> db1 = db) \<and> \<not> list_ex (matches reservation) (reservations db1) \<and>
      (\<forall>j. user_row j db1 = map_option (\<lambda>u.
         if j = r_UserID reservation \<and> u_SuccessPeriod u = r_Period reservation
         then u\<lparr>u_SuccessCalls := u_SuccessCalls u - refund\<rparr> else u) (user_row j db)) \<and>
      CompleteSuccessCall reservation again db1 = (Inr (), db1)"
proof -
  let ?out = "list_ex (matches reservation) (reservations db)"
  let ?db1 = "snd (CompleteSuccessCall reservation succeeded db)"
  have out: "?out = (\<exists>r \<in> set (reservations db). matches reservation r)" by (auto simp: list_ex_iff)
  have gone: "\<not> list_ex (matches reservation) (reservations ?db1)"
    by (auto simp: CompleteSuccessCall_eq valid list_ex_iff rows)
  have stay: "?db1 = db" if "\<not> ?out"
  proof -
    have "delete_where (matches reservation) (reservations db) = reservations db"
      using that by (simp add: delete_where_def filter_id_conv list_ex_iff)
    then show ?thesis using that by (simp add: CompleteSuccessCall_eq valid out)
  qed
  have again: "CompleteSuccessCall reservation again ?db1 = (Inr (), ?db1)"
  proof -
    have "delete_where (matches reservation) (reservations ?db1) = reservations ?db1"
      using gone by (simp add: delete_where_def filter_id_conv list_ex_iff)
    then show ?thesis using gone by (simp add: CompleteSuccessCall_eq [of _ _ ?db1] valid list_ex_iff)
  qed
  have pos: "0 < u_SuccessCalls u" if o: ?out and "user_row (r_UserID reservation) db = Some u"
    "u_SuccessPeriod u = r_Period reservation" for u
  proof -
    have u: "u \<in> set (users db)" "u_ID u = r_UserID reservation"
      using that(2) user_row_Some [OF ok] by auto
    have "0 < outstanding_reservations u (reservations db)"
      using o u(2) that(3) by (auto simp: outstanding_reservations_def count_if_pos list_ex_iff matches_def)
    then show ?thesis using db_ok_quota [OF ok] u(1) by (force simp: quota_ok_def user_quota_ok_def)
  qed
  have "find (\<lambda>u. u_ID u = j) (map (completed_user reservation) us) =
      map_option (completed_user reservation) (find (\<lambda>u. u_ID u = j) us)" for j us
    by (induction us) (auto simp: completed_user_def)
  then have row: "user_row j ?db1 = (if ?out \<and> \<not> succeeded then map_option (completed_user reservation) (user_row j db)
      else user_row j db)" for j
    by (simp add: CompleteSuccessCall_eq valid user_row_def out)
  have refund: "completed_user reservation u = (if j = r_UserID reservation \<and> u_SuccessPeriod u = r_Period reservation
      then u\<lparr>u_SuccessCalls := u_SuccessCalls u - 1\<rparr> else u)"
    if "?out" "user_row j db = Some u" for j u
    using pos [OF that(1), of u] that(2) find_Some_set [of "\<lambda>u. u_ID u = j" "users db" u]
    by (auto simp: completed_user_def user_row_def)
  have "user_row j ?db1 = map_option (\<lambda>u.
         if j = r_UserID reservation \<and> u_SuccessPeriod u = r_Period reservation
         then u\<lparr>u_SuccessCalls := u_SuccessCalls u - (if ?out \<and> \<not> succeeded then 1 else 0)\<rparr> else u) (user_row j db)" for j
    using refund [of j] by (cases "user_row j db") (auto simp: row)
  then show ?thesis using gone stay again by (simp add: Let_def CompleteSuccessCall_eq valid)
qed

definition demo_reservation :: SuccessQuotaReservation where
  "demo_reservation = \<lparr>r_ID = ''r1'', r_UserID = ''ann'', r_Period = ''2023-11''\<rparr>"

theorem complete_success_call_exact_witness:
  "\<exists>u. user_row ''ann'' (snd (CompleteSuccessCall demo_reservation False demo_db)) = Some u \<and>
     u_SuccessCalls u = 1"
proof -
  have "IsValid demo_reservation" by code_simp
  moreover have "list_ex (matches demo_reservation) (reservations demo_db)" by code_simp
  moreover have "user_row ''ann'' demo_db = Some (demo_user_row ''ann'' RoleUser 2)" by code_simp
  ultimately show ?thesis
    using complete_success_call_exact [OF demo_db_ok, of demo_reservation False]
    by (simp add: Let_def demo_user_row_def demo_reservation_def)
qed

text \<open>
  Token revocation. A successful update of a user changes exactly the fields it names and only
  on that user; the token version grows by one exactly when the enabled flag or the role really
  changes, the password is reset or revocation is asked for, and stays otherwise. Hence a session
  token survives an update only if nothing it depends on changed.
\<close>

theorem update_user_exact:
  assumes ok: "db_ok db" and upd: "UpdateUser now i updates db = (Inr u', db')"
  shows "\<exists>u. user_row i db = Some u \<and> updates_valid updates db \<and>
    u_TokenVersion u' = u_TokenVersion u + (if revokes updates u then 1 else 0) \<and>
    u_Enabled u' = case_option (u_Enabled u) id (uu_Enabled updates) \<and>
    u_Role u' = case_option (u_Role u) id (uu_Role updates) \<and>
    u_TierID u' = case_option (u_TierID u) TrimSpace (uu_TierID updates) \<and>
    u_PasswordHash u' = case_option (u_PasswordHash u) TrimSpace (uu_PasswordHash updates) \<and>
    u_SuccessCalls u' = calls_in (successQuotaPeriod now) u \<and>
    map_option (scanUser now) (user_row i db') = Some u' \<and>
    (\<forall>j. j \<noteq> i \<longrightarrow> user_row j db' = user_row j db)"
  using ok upd
proof (cases rule: UpdateUser_cases)
  case (unchanged u)
  have f: "u_Enabled (updated_user updates False u) = u_Enabled u"
    "u_Role (updated_user updates False u) = u_Role u"
    "u_TierID (updated_user updates False u) = u_TierID u"
    "u_PasswordHash (updated_user updates False u) = u_PasswordHash u"
    by (simp_all add: unchanged(6))
  then show ?thesis using unchanged by (simp add: updated_user_def)
next
  case (changed u)
  have "calls_in p (stamped now updates b u) = calls_in p u" for p b by (simp add: calls_in_def)
  then show ?thesis using changed(1,2,4)
    by (simp add: changed(3) user_row_update) (simp add: stamped_def updated_user_def)
qed simp

definition demo_updates :: UserUpdates where
  "demo_updates = \<lparr>uu_Enabled = Some False, uu_Role = None, uu_TierID = Some ''t1'',
     uu_RevokeTokens = None, uu_PasswordHash = None\<rparr>"

theorem update_user_exact_witness:
  "\<exists>u' db'. UpdateUser demo_time ''ann'' demo_updates demo_db = (Inr u', db') \<and> u_TokenVersion u' = 1 \<and>
     \<not> u_Enabled u' \<and> u_TierID u' = ''t1''"
proof -
  have "case fst (UpdateUser demo_time ''ann'' demo_updates demo_db) of Inr u \<Rightarrow> True | Inl _ \<Rightarrow> False"
    by code_simp
  then obtain u' db' where upd: "UpdateUser demo_time ''ann'' demo_updates demo_db = (Inr u', db')"
    by (cases "UpdateUser demo_time ''ann'' demo_updates demo_db") (auto split: sum.splits)
  have "user_row ''ann'' demo_db = Some (demo_user_row ''ann'' RoleUser 2)"
    and "TrimSpace ''t1'' = ''t1''" by code_simp+
  then show ?thesis using update_user_exact [OF demo_db_ok upd] upd
    by (auto simp: demo_updates_def revokes_def demo_user_row_def)
qed

section \<open>Listing\<close>

interpretation users_listing: keyset_listing db_ok users user_key timeIDAscending
proof
  fix db :: DB assume "db_ok db"
  then have "users_ok (users db)" by (rule db_ok_users)
  then show "pageable user_key (users db)"
    by (auto simp: users_ok_def pageable_def user_key_def distinct_map inj_on_def)
qed

definition users_page :: "time \<Rightarrow> int \<Rightarrow> DB \<Rightarrow> (time \<times> string) option \<Rightarrow> User list \<times> bool \<times> (time \<times> string) option" where
  "users_page now limit db cursor =
     (let p = ListUsersPage now cursor limit db in (up_Users p, up_HasMore p, up_NextCursor p))"

text \<open>
  The user list is complete. In a consistent database, following the cursors of
  \<open>ListUsersPage\<close> with any page limit returns every user exactly once, oldest first, in pages of at
  most a hundred, and then ends; one page more than there are users is always enough.
\<close>

theorem list_users_complete:
  assumes "db_ok db" and "length (users db) < fuel"
  shows "concat (walk fuel (users_page now limit db) None) =
      map (scanUser now) (ordered_rows timeIDAscending user_key (users db)) \<and>
    (\<forall>p \<in> set (walk fuel (users_page now limit db) None). length p \<le> 100)"
proof -
  have "walk fuel (users_page now limit db) None = map (map (scanUser now)) (walk fuel (page_at timeIDAscending user_key limit (users db)) None)"
    by (rule walk_map) (simp add: users_page_def ListUsersPage_def page_at_def Let_def split: prod.split)
  then show ?thesis using users_listing.walk_complete [OF assms, of limit] by (auto simp: map_concat [symmetric])
qed

theorem list_users_complete_witness:
  "concat (walk 3 (users_page demo_time 1 demo_db) None) =
     map (scanUser demo_time) (ordered_rows timeIDAscending user_key (users demo_db)) \<and>
   length (walk 3 (users_page demo_time 1 demo_db) None) = 2"
proof -
  have "length (users demo_db) < 3" by code_simp
  moreover have "length (walk 3 (users_page demo_time 1 demo_db) None) = 2" by code_simp
  ultimately show ?thesis using list_users_complete [OF demo_db_ok, of 3 demo_time 1] by simp
qed

end
