(* ===== verification/Keycrypt.thy ===== *)
theory Keycrypt
  imports Domain
begin

text \<open>
  Secrets at rest, \<open>internal/keycrypt/keycrypt.go\<close>, and the hash encoding of
  \<open>internal/keyhash/keyhash.go\<close>. AES-GCM, HMAC and SHA-256 are parameters: the record \<open>aead\<close> holds
  the operations of \<open>cipher.AEAD\<close>, whose law (opening what was sealed gives it back) is the named
  hypothesis \<open>aead_ok\<close>. The unpadded base64 encoding of Go's \<open>encoding/base64\<close> is modelled, and
  its round trip is proved.
\<close>

section \<open>Base64 without padding\<close>

definition b64_char :: "int \<Rightarrow> char" where
  "b64_char n = (if n < 26 then char_of (65 + n) else if n < 52 then char_of (71 + n)
     else if n < 62 then char_of (n - 4) else if n = 62 then CHR ''+'' else CHR ''/'')"

definition b64_val :: "char \<Rightarrow> int option" where
  "b64_val c = (let n = of_char c :: int in
     if 65 \<le> n \<and> n \<le> 90 then Some (n - 65) else if 97 \<le> n \<and> n \<le> 122 then Some (n - 71)
     else if 48 \<le> n \<and> n \<le> 57 then Some (n + 4) else if n = 43 then Some 62
     else if n = 47 then Some 63 else None)"

definition byte :: "char \<Rightarrow> int" where
  "byte c = of_char c"

fun b64_sextets :: "string \<Rightarrow> int list" where
  "b64_sextets [] = []"
| "b64_sextets [a] = [byte a div 4, byte a mod 4 * 16]"
| "b64_sextets [a, b] = [byte a div 4, byte a mod 4 * 16 + byte b div 16, byte b mod 16 * 4]"
| "b64_sextets (a # b # c # rest) =
     [byte a div 4, byte a mod 4 * 16 + byte b div 16, byte b mod 16 * 4 + byte c div 64,
      byte c mod 64] @ b64_sextets rest"

definition RawStdEncoding_Encode :: "string \<Rightarrow> string" where
  "RawStdEncoding_Encode s = map b64_char (b64_sextets s)"

fun b64_quads :: "int list \<Rightarrow> string option" where
  "b64_quads [] = Some []"
| "b64_quads [p] = None"
| "b64_quads [p, q] = Some [char_of (p * 4 + q div 16)]"
| "b64_quads [p, q, r] = Some [char_of (p * 4 + q div 16), char_of (q mod 16 * 16 + r div 4)]"
| "b64_quads (p # q # r # s # rest) =
     map_option (\<lambda>t. char_of (p * 4 + q div 16) # char_of (q mod 16 * 16 + r div 4) #
       char_of (r mod 4 * 64 + s) # t) (b64_quads rest)"

text \<open>Decoding skips line breaks, and fails on any other byte outside the alphabet.\<close>

definition RawStdEncoding_Decode :: "string \<Rightarrow> string option" where
  "RawStdEncoding_Decode s =
     (let cs = filter (\<lambda>c. c \<noteq> CHR 0x0A \<and> c \<noteq> CHR 0x0D) s;
          vs = map b64_val cs
      in if None \<in> set vs then None else b64_quads (map the vs))"

lemma byte_range: "0 \<le> byte c" "byte c < 256"
proof -
  have "byte c = byte c mod 256" using of_char_of [of "byte c"] by (simp add: byte_def)
  then show "0 \<le> byte c" "byte c < 256" using pos_mod_bound [of 256 "byte c"] pos_mod_sign [of 256 "byte c"] by linarith+
qed

lemma char_of_byte [simp]: "char_of (byte c) = c"
  by (simp add: byte_def)

lemma b64_char_val:
  assumes "0 \<le> n" "n < 64"
  shows "b64_val (b64_char n) = Some n" "b64_char n \<noteq> CHR 0x0A" "b64_char n \<noteq> CHR 0x0D"
proof -
  have "n \<in> set [0..63]" using assms by simp
  moreover have "\<forall>n \<in> set [0..63]. b64_val (b64_char n) = Some n \<and> b64_char n \<noteq> CHR 0x0A \<and> b64_char n \<noteq> CHR 0x0D"
    by code_simp
  ultimately show "b64_val (b64_char n) = Some n" "b64_char n \<noteq> CHR 0x0A" "b64_char n \<noteq> CHR 0x0D" by blast+
qed

lemma byte_parts:
  "0 \<le> byte c div 4" "byte c div 4 < 64" "0 \<le> byte c div 16" "byte c div 16 < 16"
  "0 \<le> byte c div 64" "byte c div 64 < 4"
  using byte_range [of c] by presburger+

lemma digit_join:
  fixes x q n :: int
  assumes "0 \<le> q" "q < n"
  shows "(x * n + q) div n = x" "(x * n + q) mod n = q"
  using assms by simp_all

lemma digit_bound: "0 \<le> x mod 4 * 16" "x mod 4 * 16 \<le> 48" "0 \<le> x mod 16 * 4" "x mod 16 * 4 \<le> 60" for x :: int
  by presburger+

lemma sextet_join:
  "0 \<le> x mod 4 * 16 + byte b div 16 \<and> x mod 4 * 16 + byte b div 16 < 64"
  "0 \<le> x mod 16 * 4 + byte b div 64 \<and> x mod 16 * 4 + byte b div 64 < 64"
  "0 \<le> x mod 4 * 16 \<and> x mod 4 * 16 < 64" "0 \<le> x mod 16 * 4 \<and> x mod 16 * 4 < 64"
  "0 \<le> x mod 64 \<and> x mod 64 < 64"
  using digit_bound [of x] byte_parts [of b] by linarith+

lemma b64_sextets_range: "\<forall>n \<in> set (b64_sextets s). 0 \<le> n \<and> n < 64"
proof (induction s rule: b64_sextets.induct)
  case (2 a)
  show ?case unfolding b64_sextets.simps using byte_parts(1,2) [of a] sextet_join(3) [of "byte a"]
    by (simp only: list.set ball_simps)
next
  case (3 a b)
  show ?case unfolding b64_sextets.simps
    using byte_parts(1,2) [of a] sextet_join(1) [of "byte a" b] sextet_join(4) [of "byte b"]
    by (simp only: list.set ball_simps)
next
  case (4 a b c rest)
  show ?case unfolding b64_sextets.simps
    using 4 byte_parts(1,2) [of a] sextet_join(1) [of "byte a" b] sextet_join(2) [of "byte b" c] sextet_join(5) [of "byte c"]
    by (simp only: list.set ball_simps append.simps)
qed simp

lemma b64_quads_sextets: "b64_quads (b64_sextets s) = Some s"
proof (induction s rule: b64_sextets.induct)
  case (2 a)
  have "byte a div 4 * 4 + byte a mod 4 * 16 div 16 = byte a" by simp
  then show ?case by (simp only: b64_sextets.simps b64_quads.simps char_of_byte)
next
  case (3 a b)
  have "(byte a mod 4 * 16 + byte b div 16) div 16 = byte a mod 4" "(byte a mod 4 * 16 + byte b div 16) mod 16 = byte b div 16"
    using digit_join byte_parts [of b] by blast+
  then have "byte a div 4 * 4 + (byte a mod 4 * 16 + byte b div 16) div 16 = byte a"
    "(byte a mod 4 * 16 + byte b div 16) mod 16 * 16 + byte b mod 16 * 4 div 4 = byte b" by simp_all
  then show ?case by (simp only: b64_sextets.simps b64_quads.simps char_of_byte)
next
  case (4 a b c rest)
  have "(byte a mod 4 * 16 + byte b div 16) div 16 = byte a mod 4" "(byte a mod 4 * 16 + byte b div 16) mod 16 = byte b div 16"
    "(byte b mod 16 * 4 + byte c div 64) div 4 = byte b mod 16" "(byte b mod 16 * 4 + byte c div 64) mod 4 = byte c div 64"
    using digit_join byte_parts [of b] byte_parts [of c] by blast+
  then have "byte a div 4 * 4 + (byte a mod 4 * 16 + byte b div 16) div 16 = byte a"
    "(byte a mod 4 * 16 + byte b div 16) mod 16 * 16 + (byte b mod 16 * 4 + byte c div 64) div 4 = byte b"
    "(byte b mod 16 * 4 + byte c div 64) mod 4 * 64 + byte c mod 64 = byte c"
    by (simp_all only: div_mult_mod_eq)
  then show ?case using 4 by (simp only: b64_sextets.simps b64_quads.simps char_of_byte append.simps option.map)
qed simp

lemma base64_roundtrip: "RawStdEncoding_Decode (RawStdEncoding_Encode s) = Some s"
proof -
  have f: "filter (\<lambda>c. c \<noteq> CHR 0x0A \<and> c \<noteq> CHR 0x0D) (map b64_char ns) = map b64_char ns"
    and v: "map b64_val (map b64_char ns) = map Some ns" if "\<forall>n \<in> set ns. 0 \<le> n \<and> n < 64" for ns
    using that b64_char_val by (auto simp: filter_id_conv)
  note r = b64_sextets_range [of s]
  show ?thesis
    unfolding RawStdEncoding_Decode_def RawStdEncoding_Encode_def Let_def f [OF r] v [OF r]
    using b64_quads_sextets [of s] by (simp add: comp_def)
qed

lemma base64_nonempty: "RawStdEncoding_Encode s = [] \<longleftrightarrow> s = []"
  by (cases s rule: b64_sextets.cases) (simp_all add: RawStdEncoding_Encode_def)

section \<open>The cipher\<close>

record aead =
  NonceSize :: nat
  Seal :: "string \<Rightarrow> string \<Rightarrow> string \<Rightarrow> string"
  Open :: "string \<Rightarrow> string \<Rightarrow> string \<Rightarrow> string option"

text \<open>The documented law of \<open>cipher.AEAD\<close>, and that a sealed text carries an authentication tag.\<close>

definition aead_ok :: "aead \<Rightarrow> bool" where
  "aead_ok c \<longleftrightarrow> 0 < NonceSize c \<and>
     (\<forall>nonce plaintext identity. length nonce = NonceSize c \<longrightarrow>
       Seal c nonce plaintext identity \<noteq> [] \<and>
       Open c nonce (Seal c nonce plaintext identity) identity = Some plaintext)"

text \<open>A \<open>*Cipher\<close>: nil, or with an AEAD.\<close>

type_synonym Cipher = "aead option"

definition encryptionVersionOne :: int where
  "encryptionVersionOne = 1"

text \<open>\<open>derive\<close> is HMAC-SHA256 of the fixed label under the secret; \<open>newGCM\<close> is AES-GCM of the key.\<close>

definition keycrypt_New :: "(string \<Rightarrow> string) \<Rightarrow> (string \<Rightarrow> string + aead) \<Rightarrow> string \<Rightarrow> store_error + Cipher" where
  "keycrypt_New derive newGCM applicationSecret =
     (let trimmedSecret = TrimSpace applicationSecret
      in if trimmedSecret = [] then Inl (StoreErrorf ''application secret is required'')
         else case newGCM (derive trimmedSecret) of
             Inl e \<Rightarrow> Inl (StoreErrorf e)
           | Inr c \<Rightarrow> Inr (Some c))"

text \<open>\<open>nonceBytes\<close> are the bytes read from \<open>crypto/rand\<close>, \<open>None\<close> its failure.\<close>

definition Encrypt ::
  "Cipher \<Rightarrow> string option \<Rightarrow> string \<Rightarrow> string \<Rightarrow> store_error + string \<times> string \<times> int" where
  "Encrypt c nonceBytes plaintext recordIdentity =
     (case c of
        None \<Rightarrow> Inl (StoreErrorf ''secret encryption is not configured'')
      | Some a \<Rightarrow>
          (case nonceBytes of
             None \<Rightarrow> Inl (StoreErrorf ''generate secret encryption nonce'')
           | Some n \<Rightarrow> Inr (RawStdEncoding_Encode (Seal a n plaintext recordIdentity),
               RawStdEncoding_Encode n, encryptionVersionOne)))"

definition Decrypt :: "Cipher \<Rightarrow> string \<Rightarrow> string \<Rightarrow> string \<Rightarrow> int \<Rightarrow> store_error + string" where
  "Decrypt c ciphertext nonce recordIdentity version =
     (case c of
        None \<Rightarrow> Inl (StoreErrorf ''secret encryption is not configured'')
      | Some a \<Rightarrow>
          if version \<noteq> encryptionVersionOne then Inl (StoreErrorf ''unsupported secret encryption version'')
          else (case RawStdEncoding_Decode ciphertext of
              None \<Rightarrow> Inl (StoreErrorf ''decode secret ciphertext'')
            | Some ciphertextBytes \<Rightarrow>
                (case RawStdEncoding_Decode nonce of
                   None \<Rightarrow> Inl (StoreErrorf ''decode secret nonce'')
                 | Some nonceBytes \<Rightarrow>
                     if length nonceBytes \<noteq> NonceSize a then Inl (StoreErrorf ''invalid secret nonce length'')
                     else (case Open a nonceBytes ciphertextBytes recordIdentity of
                         None \<Rightarrow> Inl (StoreErrorf ''decrypt secret'')
                       | Some plaintextBytes \<Rightarrow> Inr plaintextBytes))))"

definition cipher_ok :: "Cipher \<Rightarrow> bool" where
  "cipher_ok c \<longleftrightarrow> (\<exists>a. c = Some a \<and> aead_ok a)"

definition nonce_ok :: "Cipher \<Rightarrow> string option \<Rightarrow> bool" where
  "nonce_ok c n \<longleftrightarrow> (\<forall>a b. c = Some a \<longrightarrow> n = Some b \<longrightarrow> length b = NonceSize a)"

lemma encrypt_decrypt:
  assumes "cipher_ok c" "nonce_ok c nonceBytes"
    and "Encrypt c nonceBytes plaintext identity = Inr (ciphertext, nonce, version)"
  shows "Decrypt c ciphertext nonce identity version = Inr plaintext"
    and "ciphertext \<noteq> []" and "nonce \<noteq> []" and "version = 1"
  using assms
  by (auto simp: Encrypt_def Decrypt_def cipher_ok_def nonce_ok_def aead_ok_def base64_roundtrip
      base64_nonempty encryptionVersionOne_def split: option.splits)

section \<open>Key hashes\<close>

text \<open>\<open>HashAPIKey\<close>: the lower-case hexadecimal form of the SHA-256 digest; the digest is a parameter.\<close>

definition HashAPIKey :: "(string \<Rightarrow> string) \<Rightarrow> string \<Rightarrow> string" where
  "HashAPIKey sha256 raw = hex (map byte (sha256 raw))"

end
