(* ===== verification/Store_Keys.thy ===== *)
theory Store_Keys
  imports Store_Users Keycrypt
begin

text \<open>
  API keys, \<open>internal/store/sqlite_keys.go\<close>. The plaintext of a key exists only in the answer to its
  creation: the table keeps its hash, by which requests authenticate, and its ciphertext, which an
  explicit reveal opens again.
\<close>

section \<open>Operations\<close>

record crypto =
  sha256 :: "string \<Rightarrow> string"
  secretCipher :: Cipher

definition ConfigureAPIKeyEncryption ::
  "(string \<Rightarrow> string) \<Rightarrow> (string \<Rightarrow> string + aead) \<Rightarrow> string \<Rightarrow> crypto \<Rightarrow> (store_error + unit) \<times> crypto" where
  "ConfigureAPIKeyEncryption derive newGCM applicationSecret cr =
     (case keycrypt_New derive newGCM applicationSecret of
        Inl e \<Rightarrow> (Inl e, cr)
      | Inr c \<Rightarrow> (Inr (), cr\<lparr>secretCipher := c\<rparr>))"

definition apiKeyRecordIdentity :: "string \<Rightarrow> string \<Rightarrow> string" where
  "apiKeyRecordIdentity keyID userID = ''api-key:'' @ keyID @ '':user:'' @ userID"

definition generateRawKey :: "entropy \<Rightarrow> store_error + string" where
  "generateRawKey rnd = (case rnd of
     None \<Rightarrow> Inl (StoreErrorf ''crypto/rand'') | Some b \<Rightarrow> Inr (''grok_'' @ hex b))"

definition insert_apikey :: "APIKey \<Rightarrow> DB \<Rightarrow> sql_error + DB" where
  "insert_apikey k db =
     (if k_keyCiphertext k = [] \<or> k_keyNonce k = [] \<or> k_keyEncryptionVersion k \<le> 0 then Inl CHECK_constraint
      else if list_ex (\<lambda>j. k_ID j = k_ID k \<or> k_KeyHash j = k_KeyHash k) (apikeys db) then Inl UNIQUE_constraint
      else if user_row (k_UserID k) db = None then Inl FOREIGN_KEY_constraint
      else Inr (db\<lparr>apikeys := apikeys db @ [k]\<rparr>))"

definition keys_of :: "string \<Rightarrow> DB \<Rightarrow> APIKey list" where
  "keys_of userID db = filter (\<lambda>k. k_UserID k = userID) (apikeys db)"

definition CreateKey ::
  "crypto \<Rightarrow> entropy \<Rightarrow> entropy \<Rightarrow> string option \<Rightarrow> time \<Rightarrow> string \<Rightarrow> string \<Rightarrow> int \<Rightarrow> DB \<Rightarrow>
     (store_error + APIKey \<times> string) \<times> DB" where
  "CreateKey cr keyBytes idBytes nonceBytes now rawUserID rawName maximumKeys db =
     (let name = TrimSpace rawName; userID = TrimSpace rawUserID
      in if name = [] then (Inl (StoreErrorf ''name is required''), db)
         else if userID = [] then (Inl (StoreErrorf ''user_id is required''), db)
         else if maximumKeys \<le> 0 then (Inl (StoreErrorf ''maximum API keys must be positive''), db)
         else case generateRawKey keyBytes of
             Inl e \<Rightarrow> (Inl e, db)
           | Inr raw \<Rightarrow>
        (case randomID idBytes of
             Inl e \<Rightarrow> (Inl e, db)
           | Inr i \<Rightarrow>
        (let prefix = (if 8 < length raw then take 8 raw else raw)
         in case Encrypt (secretCipher cr) nonceBytes raw (apiKeyRecordIdentity i userID) of
             Inl e \<Rightarrow> (Inl e, db)
           | Inr (ciphertext, nonce, encryptionVersion) \<Rightarrow>
               run_tx (\<lambda>db.
                 if user_row userID db = None then Inl ErrUserNotFound
                 else if maximumKeys \<le> int (length (keys_of userID db)) then Inl ErrAPIKeyLimit
                 else
                   let k = \<lparr>k_ID = i, k_UserID = userID, k_Name = name,
                     k_KeyHash = HashAPIKey (sha256 cr) raw, k_KeyPrefix = prefix, k_Enabled = True,
                     k_CreatedAt = db_time now, k_UpdatedAt = db_time now, k_LastUsedAt = None,
                     k_TotalCalls = 0, k_keyCiphertext = ciphertext, k_keyNonce = nonce,
                     k_keyEncryptionVersion = encryptionVersion\<rparr>
                   in (case insert_apikey k db of
                         Inl e \<Rightarrow> Inl (StoreErrorf ''insert apikey'')
                       | Inr db' \<Rightarrow> Inr ((k, raw), db'))) db)))"

definition GetKeyByID :: "string \<Rightarrow> DB \<Rightarrow> store_error + APIKey" where
  "GetKeyByID i db = (case key_row i db of None \<Rightarrow> Inl (StoreErrorf ''api key not found'') | Some k \<Rightarrow> Inr k)"

definition RevealKey :: "crypto \<Rightarrow> string \<Rightarrow> DB \<Rightarrow> store_error + string" where
  "RevealKey cr i db =
     (case GetKeyByID i db of
        Inl e \<Rightarrow> Inl e
      | Inr k \<Rightarrow>
          if k_keyCiphertext k = [] \<or> k_keyNonce k = [] \<or> k_keyEncryptionVersion k = 0
          then Inl (StoreErrorf ''api key secret is unavailable'')
          else Decrypt (secretCipher cr) (k_keyCiphertext k) (k_keyNonce k)
                 (apiKeyRecordIdentity (k_ID k) (k_UserID k)) (k_keyEncryptionVersion k))"

definition GetKeyByHash :: "string \<Rightarrow> DB \<Rightarrow> store_error + APIKey option" where
  "GetKeyByHash hash db = Inr (find (\<lambda>k. k_KeyHash k = hash) (apikeys db))"

record APIKeyPage =
  kp_Keys :: "APIKey list"
  kp_TotalCount :: int
  kp_ActiveCount :: int
  kp_HasMore :: bool
  kp_NextCursor :: "(time \<times> string) option"

definition apikey_key :: "APIKey \<Rightarrow> time \<times> string" where
  "apikey_key k = (k_CreatedAt k, k_ID k)"

definition ListKeysByUserPage :: "string \<Rightarrow> (time \<times> string) option \<Rightarrow> int \<Rightarrow> DB \<Rightarrow> APIKeyPage" where
  "ListKeysByUserPage userID cursor limit db =
     (case keyset_page timeIDDescending apikey_key cursor limit (keys_of userID db) of
        (rows, hasMore, nextCursor) \<Rightarrow>
          \<lparr>kp_Keys = rows, kp_TotalCount = int (length (keys_of userID db)),
           kp_ActiveCount = count_if k_Enabled (keys_of userID db),
           kp_HasMore = hasMore, kp_NextCursor = nextCursor\<rparr>)"

definition CountKeys :: "DB \<Rightarrow> int \<times> int" where
  "CountKeys db = (int (length (apikeys db)), count_if k_Enabled (apikeys db))"

definition UpdateKey :: "time \<Rightarrow> string \<Rightarrow> KeyUpdates \<Rightarrow> DB \<Rightarrow> (store_error + APIKey) \<times> DB" where
  "UpdateKey now i updates db =
     (case GetKeyByID i db of
        Inl e \<Rightarrow> (Inl e, db)
      | Inr existingAPIKey \<Rightarrow>
          (case (case ku_Name updates of
              Some rawName \<Rightarrow>
                let name = TrimSpace rawName
                in if name = [] then Inl (StoreErrorf ''name must not be empty'')
                   else Inr [\<lambda>k. k\<lparr>k_Name := name\<rparr>]
            | None \<Rightarrow> Inr []) of
             Inl e \<Rightarrow> (Inl e, db)
           | Inr nameSets \<Rightarrow>
               let sets = nameSets @ (case ku_Enabled updates of
                     Some e \<Rightarrow> [\<lambda>k. k\<lparr>k_Enabled := e\<rparr>] | None \<Rightarrow> [])
               in if length sets = 0 then (Inr existingAPIKey, db)
                  else
                    let db' = db\<lparr>apikeys := update_where (\<lambda>k. k_ID k = i)
                          (\<lambda>k. (apply_sets sets k)\<lparr>k_UpdatedAt := db_time now\<rparr>) (apikeys db)\<rparr>
                    in (case key_row i db' of
                          None \<Rightarrow> (Inl (StoreErrorf ''api key not found''), db')
                        | Some k \<Rightarrow> (Inr k, db'))))"

definition DeleteKey :: "bool \<Rightarrow> string \<Rightarrow> DB \<Rightarrow> (store_error + unit) \<times> DB" where
  "DeleteKey debugOk i db =
     (if rows_affected (\<lambda>k. k_ID k = i) (apikeys db) = 0
      then (Inl (StoreErrorf ''api key not found''), db)
      else (Inr (), deleteUsageDebugByKeyIDsBestEffort debugOk [i] (delete_apikeys (\<lambda>k. k_ID k = i) db)))"

section \<open>The operations keep the invariant\<close>

lemma insert_apikey_Inr:
  "insert_apikey k db = Inr db' \<longleftrightarrow> db' = db\<lparr>apikeys := apikeys db @ [k]\<rparr> \<and>
     k_keyCiphertext k \<noteq> [] \<and> k_keyNonce k \<noteq> [] \<and> 0 < k_keyEncryptionVersion k \<and>
     (\<forall>j \<in> set (apikeys db). k_ID j \<noteq> k_ID k \<and> k_KeyHash j \<noteq> k_KeyHash k) \<and>
     k_UserID k \<in> u_ID ` set (users db)"
  unfolding insert_apikey_def
  by (auto simp: list_ex_iff user_row_None split: if_splits)

lemma insert_apikey_ok:
  assumes ok: "db_ok db" and ins: "insert_apikey k db = Inr db'"
    and k: "k_TotalCalls k = 0" "db_time (k_CreatedAt k) = k_CreatedAt k"
  shows "db_ok db'"
proof -
  note new = ins [unfolded insert_apikey_Inr]
  have "k_ID k \<notin> k_ID ` set (apikeys db)" "k_KeyHash k \<notin> k_KeyHash ` set (apikeys db)"
    using new by (metis imageE)+
  then have "keys_ok (apikeys db @ [k])" using db_ok_keys [OF ok] new k by (simp add: keys_ok_def)
  moreover have "references_ok db'" using db_ok_references [OF ok] new
    by (auto simp: references_ok_def)
  ultimately show ?thesis using ok new by (simp add: db_ok_def)
qed

lemma CreateKey_cases:
  assumes "CreateKey cr keyBytes idBytes nonceBytes now userID name maximumKeys db = (r, db')"
  obtains (error) e where "r = Inl e" "db' = db"
  | (created) k raw where "r = Inr (k, raw)" "insert_apikey k db = Inr db'"
      "generateRawKey keyBytes = Inr raw" "randomID idBytes = Inr (k_ID k)"
      "k_UserID k = TrimSpace userID" "k_KeyHash k = HashAPIKey (sha256 cr) raw" "k_Enabled k"
      "k_TotalCalls k = 0" "k_CreatedAt k = db_time now" "int (length (keys_of (TrimSpace userID) db)) < maximumKeys"
      "Encrypt (secretCipher cr) nonceBytes raw (apiKeyRecordIdentity (k_ID k) (k_UserID k)) =
         Inr (k_keyCiphertext k, k_keyNonce k, k_keyEncryptionVersion k)"
proof (cases "\<exists>e. r = Inl e \<and> db' = db")
  case True
  then show ?thesis using that(1) by blast
next
  case False
  obtain raw where raw: "generateRawKey keyBytes = Inr raw"
    using False assms unfolding CreateKey_def Let_def by (cases "generateRawKey keyBytes") (auto split: if_splits)
  obtain i where i: "randomID idBytes = Inr i"
    using False assms raw unfolding CreateKey_def Let_def by (cases "randomID idBytes") (auto split: if_splits)
  obtain c n v where enc: "Encrypt (secretCipher cr) nonceBytes raw (apiKeyRecordIdentity i (TrimSpace userID)) = Inr (c, n, v)"
    using False assms raw i unfolding CreateKey_def Let_def
    by (cases "Encrypt (secretCipher cr) nonceBytes raw (apiKeyRecordIdentity i (TrimSpace userID))") (auto split: if_splits)
  show ?thesis using False assms raw i enc unfolding CreateKey_def Let_def
    by (auto simp: run_tx_def not_le split: if_splits sum.splits intro!: that(2))
qed

lemma CreateKey_ok:
  assumes "db_ok db"
  shows "db_ok (snd (CreateKey cr keyBytes idBytes nonceBytes now userID name maximumKeys db))"
proof -
  obtain r db' where c: "CreateKey cr keyBytes idBytes nonceBytes now userID name maximumKeys db = (r, db')" by fastforce
  then show ?thesis
  proof (cases rule: CreateKey_cases)
    case (created k raw)
    then show ?thesis using insert_apikey_ok [OF assms created(2)] by (simp add: c)
  qed (use assms c in auto)
qed

lemma update_apikeys_ok:
  assumes ok: "db_ok db"
    and f: "\<And>k. k_ID (f k) = k_ID k" "\<And>k. k_UserID (f k) = k_UserID k" "\<And>k. k_KeyHash (f k) = k_KeyHash k"
      "\<And>k. k_keyCiphertext (f k) = k_keyCiphertext k" "\<And>k. k_keyNonce (f k) = k_keyNonce k"
      "\<And>k. k_keyEncryptionVersion (f k) = k_keyEncryptionVersion k" "\<And>k. k_TotalCalls k \<le> k_TotalCalls (f k)"
      "\<And>k. k_CreatedAt (f k) = k_CreatedAt k"
  shows "db_ok (db\<lparr>apikeys := update_where P f (apikeys db)\<rparr>)"
proof -
  let ?ks = "update_where P f (apikeys db)"
  have ids: "map k_ID ?ks = map k_ID (apikeys db)" "map k_KeyHash ?ks = map k_KeyHash (apikeys db)"
    "k_ID ` set ?ks = k_ID ` set (apikeys db)" "k_UserID ` set ?ks = k_UserID ` set (apikeys db)"
    by (simp_all add: map_update_where image_update_where f)
  have "0 \<le> k_TotalCalls (f k)" if "k \<in> set (apikeys db)" for k
    using db_ok_keys [OF ok] that f(7) [of k] by (auto simp: keys_ok_def)
  then have "keys_ok ?ks" using db_ok_keys [OF ok] ids(1,2) by (auto simp: keys_ok_def rows f)
  then show ?thesis using ok by (simp add: db_ok_def references_ok_def ids)
qed

lemma UpdateKey_ok:
  assumes ok: "db_ok db"
  shows "db_ok (snd (UpdateKey now i updates db))"
proof -
  have f: "db_ok (db\<lparr>apikeys := update_where (\<lambda>k. k_ID k = i)
      (\<lambda>k. (apply_sets sets k)\<lparr>k_UpdatedAt := db_time now\<rparr>) (apikeys db)\<rparr>)"
    if "set sets \<subseteq> range (\<lambda>n k. k\<lparr>k_Name := n\<rparr>) \<union> range (\<lambda>e k. k\<lparr>k_Enabled := e\<rparr>)" for sets
  proof -
    have "k_ID (apply_sets sets k) = k_ID k \<and> k_UserID (apply_sets sets k) = k_UserID k \<and>
      k_KeyHash (apply_sets sets k) = k_KeyHash k \<and> k_keyCiphertext (apply_sets sets k) = k_keyCiphertext k \<and>
      k_keyNonce (apply_sets sets k) = k_keyNonce k \<and>
      k_keyEncryptionVersion (apply_sets sets k) = k_keyEncryptionVersion k \<and>
      k_TotalCalls (apply_sets sets k) = k_TotalCalls k \<and> k_CreatedAt (apply_sets sets k) = k_CreatedAt k" for k
      using that unfolding apply_sets_def by (induction sets arbitrary: k) auto
    then show ?thesis by (intro update_apikeys_ok [OF ok]) simp_all
  qed
  show ?thesis using ok
    by (auto simp: UpdateKey_def Let_def split: sum.split option.split intro!: f)
qed

lemma DeleteKey_ok: "db_ok db \<Longrightarrow> db_ok (snd (DeleteKey debugOk i db))"
  by (simp add: DeleteKey_def delete_apikeys_ok)

section \<open>Properties\<close>

text \<open>
  A created key works and stays recoverable. With a cipher that obeys the AEAD law, a
  successful \<open>CreateKey\<close> stores a key that is found, enabled and owned by the user, under the hash
  of the plaintext handed out; \<open>RevealKey\<close> returns that plaintext; the user now has exactly one key
  more and at most \<open>maximumKeys\<close>; no other key changed.
\<close>

theorem create_key_usable:
  assumes ok: "db_ok db" and crypto: "cipher_ok (secretCipher cr)" "nonce_ok (secretCipher cr) nonceBytes"
    and new: "CreateKey cr keyBytes idBytes nonceBytes now userID name maximumKeys db = (Inr (k, raw), db')"
  shows "GetKeyByHash (HashAPIKey (sha256 cr) raw) db' = Inr (Some k) \<and> k_Enabled k \<and>
    k_UserID k = TrimSpace userID \<and> user_row (k_UserID k) db \<noteq> None \<and>
    RevealKey cr (k_ID k) db' = Inr raw \<and> HasPrefix raw ''grok_'' \<and>
    keys_of (k_UserID k) db' = keys_of (k_UserID k) db @ [k] \<and>
    int (length (keys_of (k_UserID k) db')) \<le> maximumKeys \<and>
    (\<forall>j. j \<noteq> k_ID k \<longrightarrow> key_row j db' = key_row j db)"
  using new
proof (cases rule: CreateKey_cases)
  case (created k2 raw2)
  have eq: "k2 = k" "raw2 = raw" using created(1) by simp_all
  note ins = created(2) [unfolded insert_apikey_Inr eq]
  have hash: "find (\<lambda>j. k_KeyHash j = k_KeyHash k) (apikeys db) = None"
    and id: "find (\<lambda>j. k_ID j = k_ID k) (apikeys db) = None" using ins by (auto simp: find_None_set)
  have app: "find P (xs @ [x]) = (case find P xs of None \<Rightarrow> (if P x then Some x else None) | Some y \<Rightarrow> Some y)"
    for P and xs :: "APIKey list" and x by (induction xs) auto
  have row: "key_row (k_ID k) db' = Some k" using ins id by (simp add: key_row_def app)
  have "RevealKey cr (k_ID k) db' = Inr raw"
    using encrypt_decrypt [OF crypto created(11) [unfolded eq]] row
    by (simp add: RevealKey_def GetKeyByID_def)
  moreover have "GetKeyByHash (HashAPIKey (sha256 cr) raw) db' = Inr (Some k)"
    using hash ins created(6) eq by (simp add: GetKeyByHash_def app)
  moreover have "HasPrefix raw ''grok_''"
    using created(3) eq by (auto simp: generateRawKey_def go_str split: option.splits)
  moreover have "user_row (k_UserID k) db \<noteq> None" using ins by (simp add: user_row_None)
  moreover have "key_row j db' = key_row j db" if "j \<noteq> k_ID k" for j
    using ins that by (simp add: key_row_def app split: option.split)
  ultimately show ?thesis using ins created(5,7,10) eq by (auto simp: keys_of_def)
qed simp

text \<open>A cipher that is no cipher, to show the hypotheses can hold.\<close>

definition demo_aead :: aead where
  "demo_aead = \<lparr>NonceSize = 1, Seal = (\<lambda>n p a. CHR ''#'' # p), Open = (\<lambda>n c a. Some (drop 1 c))\<rparr>"

definition demo_crypto :: crypto where
  "demo_crypto = \<lparr>sha256 = (\<lambda>s. s), secretCipher = Some demo_aead\<rparr>"

lemma demo_crypto_ok:
  "cipher_ok (secretCipher demo_crypto)" "nonce_ok (secretCipher demo_crypto) (Some ''n'')"
  by (simp_all add: cipher_ok_def nonce_ok_def aead_ok_def demo_crypto_def demo_aead_def)

definition demo_create_key :: "(store_error + APIKey \<times> string) \<times> DB" where
  "demo_create_key = CreateKey demo_crypto (Some [1, 2]) demo_entropy (Some ''n'') demo_time ''ann'' ''k'' 2 demo_db"

theorem create_key_usable_witness:
  "\<exists>k raw db'. demo_create_key = (Inr (k, raw), db') \<and> RevealKey demo_crypto (k_ID k) db' = Inr raw \<and>
     length (keys_of ''ann'' db') = 2"
proof -
  have "case fst demo_create_key of Inr (k, raw) \<Rightarrow> k_UserID k = ''ann'' | Inl _ \<Rightarrow> False" by code_simp
  then obtain k raw db' where c: "demo_create_key = (Inr (k, raw), db')" "k_UserID k = ''ann''"
    by (auto split: sum.splits prod.splits) (metis prod.collapse)
  have "length (keys_of ''ann'' demo_db) = 1" by code_simp
  then show ?thesis
    using create_key_usable [OF demo_db_ok demo_crypto_ok c(1) [unfolded demo_create_key_def]] c
    by (intro exI [of _ k] exI [of _ raw] exI [of _ db']) simp
qed

interpretation keys_listing: keyset_listing db_ok "keys_of userID" apikey_key timeIDDescending for userID
proof
  fix db :: DB assume "db_ok db"
  then have "keys_ok (apikeys db)" by (rule db_ok_keys)
  then show "pageable apikey_key (keys_of userID db)"
    by (auto simp: keys_ok_def pageable_def apikey_key_def keys_of_def distinct_map inj_on_def)
qed

definition keys_page :: "string \<Rightarrow> int \<Rightarrow> DB \<Rightarrow> (time \<times> string) option \<Rightarrow> APIKey list \<times> bool \<times> (time \<times> string) option" where
  "keys_page userID limit db cursor =
     (let p = ListKeysByUserPage userID cursor limit db in (kp_Keys p, kp_HasMore p, kp_NextCursor p))"

lemma list_keys_complete:
  assumes "db_ok db" and "length (keys_of userID db) < fuel"
  shows "concat (walk fuel (keys_page userID limit db) None) =
      ordered_rows timeIDDescending apikey_key (keys_of userID db)"
proof -
  have "keys_page userID limit db = page_at timeIDDescending apikey_key limit (keys_of userID db)"
    by (rule ext) (simp add: keys_page_def ListKeysByUserPage_def page_at_def Let_def split: prod.split)
  then show ?thesis using keys_listing.walk_complete [OF assms, of limit] by simp
qed

end
