(* ===== verification/Store_Invites.thy ===== *)
theory Store_Invites
  imports Store_Keys
begin

text \<open>
  Invite codes and public registration, \<open>internal/store/invite_codes.go\<close> and
  \<open>internal/store/registration.go\<close>. Registration reads the mode, checks and consumes the invite code
  and inserts the user in one transaction.
\<close>

section \<open>Invite codes\<close>

definition invite_row :: "string \<Rightarrow> DB \<Rightarrow> InviteCode option" where
  "invite_row i db = find (\<lambda>c. ic_ID c = i) (invite_codes db)"

definition inviteCodeRecordIdentity :: "string \<Rightarrow> string" where
  "inviteCodeRecordIdentity inviteCodeID = ''invite-code:'' @ inviteCodeID"

definition getInviteCodeByID :: "string \<Rightarrow> DB \<Rightarrow> store_error + InviteCode" where
  "getInviteCodeByID i db =
     (case invite_row (TrimSpace i) db of None \<Rightarrow> Inl ErrInviteCodeNotFound | Some c \<Rightarrow> Inr c)"

definition insert_invite :: "InviteCode \<Rightarrow> DB \<Rightarrow> sql_error + DB" where
  "insert_invite c db =
     (if ic_RegistrationLimit c \<le> 0 \<or> ic_RegistrationCount c < 0 \<or> ic_RegistrationLimit c < ic_RegistrationCount c
      then Inl CHECK_constraint
      else if list_ex (\<lambda>d. ic_ID d = ic_ID c \<or> ic_CodeHash d = ic_CodeHash c) (invite_codes db)
      then Inl UNIQUE_constraint
      else if \<not> (case ic_CreatedByUserID c of None \<Rightarrow> True | Some u \<Rightarrow> user_row u db \<noteq> None)
      then Inl FOREIGN_KEY_constraint
      else Inr (db\<lparr>invite_codes := invite_codes db @ [c]\<rparr>))"

definition CreateInviteCode ::
  "crypto \<Rightarrow> entropy \<Rightarrow> entropy \<Rightarrow> string option \<Rightarrow> time \<Rightarrow> string \<Rightarrow> int \<Rightarrow> DB \<Rightarrow>
     (store_error + InviteCode \<times> string) \<times> DB" where
  "CreateInviteCode cr keyBytes idBytes nonceBytes now rawCreatedBy registrationLimit db =
     (let createdByUserID = TrimSpace rawCreatedBy
      in if registrationLimit \<le> 0 then (Inl (StoreErrorf ''registration_limit must be positive''), db)
         else case generateRawKey keyBytes of
             Inl e \<Rightarrow> (Inl e, db)
           | Inr raw \<Rightarrow>
        (case randomID idBytes of
             Inl e \<Rightarrow> (Inl e, db)
           | Inr i \<Rightarrow>
        (let prefix = (if 12 < length raw then take 12 raw else raw)
         in case Encrypt (secretCipher cr) nonceBytes raw (inviteCodeRecordIdentity i) of
             Inl e \<Rightarrow> (Inl (StoreErrorf ''encrypt invite code''), db)
           | Inr (ciphertext, nonce, encryptionVersion) \<Rightarrow>
               let c = \<lparr>ic_ID = i, ic_CodeHash = HashAPIKey (sha256 cr) raw, ic_CodePrefix = prefix,
                 ic_RegistrationLimit = registrationLimit, ic_RegistrationCount = 0, ic_Enabled = True,
                 ic_CreatedByUserID = Some createdByUserID, ic_CreatedAt = db_time now, ic_UpdatedAt = db_time now,
                 ic_codeCiphertext = ciphertext, ic_codeNonce = nonce, ic_codeEncryptionVersion = encryptionVersion\<rparr>
               in (case insert_invite c db of
                     Inl e \<Rightarrow> (Inl (StoreErrorf ''insert invite code''), db)
                   | Inr db' \<Rightarrow> (Inr (c, raw), db')))))"

definition RevealInviteCode :: "crypto \<Rightarrow> string \<Rightarrow> DB \<Rightarrow> store_error + string" where
  "RevealInviteCode cr i db =
     (case getInviteCodeByID i db of
        Inl e \<Rightarrow> Inl e
      | Inr c \<Rightarrow>
          if ic_codeCiphertext c = [] \<or> ic_codeNonce c = [] \<or> ic_codeEncryptionVersion c = 0
          then Inl ErrInviteCodeSecretUnavailable
          else (case Decrypt (secretCipher cr) (ic_codeCiphertext c) (ic_codeNonce c)
                  (inviteCodeRecordIdentity (ic_ID c)) (ic_codeEncryptionVersion c) of
              Inl e \<Rightarrow> Inl (StoreErrorf ''decrypt invite code'')
            | Inr raw \<Rightarrow>
                if HashAPIKey (sha256 cr) raw \<noteq> ic_CodeHash c
                then Inl (StoreErrorf ''decrypted invite code does not match stored hash'')
                else Inr raw))"

definition UpdateInviteCode ::
  "time \<Rightarrow> string \<Rightarrow> InviteCodeUpdates \<Rightarrow> DB \<Rightarrow> (store_error + InviteCode) \<times> DB" where
  "UpdateInviteCode now i updates db =
     (if (case icu_RegistrationLimit updates of Some l \<Rightarrow> l \<le> 0 | None \<Rightarrow> False)
      then (Inl (StoreErrorf ''registration_limit must be positive''), db)
      else
        let sets = (case icu_RegistrationLimit updates of Some l \<Rightarrow> [\<lambda>c. c\<lparr>ic_RegistrationLimit := l\<rparr>] | None \<Rightarrow> []) @
              (case icu_Enabled updates of Some e \<Rightarrow> [\<lambda>c. c\<lparr>ic_Enabled := e\<rparr>] | None \<Rightarrow> [])
        in if length sets = 0 then (getInviteCodeByID i db, db)
           else
             let trimmed = TrimSpace i;
                 eligible = (\<lambda>c. ic_ID c = trimmed \<and> (case icu_RegistrationLimit updates of
                   Some l \<Rightarrow> ic_RegistrationCount c \<le> l | None \<Rightarrow> True));
                 update = (\<lambda>c. (apply_sets sets c)\<lparr>ic_UpdatedAt := db_time now\<rparr>)
             in (case find eligible (invite_codes db) of
                   Some c \<Rightarrow> (Inr (update c), db\<lparr>invite_codes := update_where eligible update (invite_codes db)\<rparr>)
                 | None \<Rightarrow>
                     if invite_row trimmed db = None then (Inl ErrInviteCodeNotFound, db)
                     else (Inl ErrInviteCodeLimitTooLow, db)))"

definition DeleteInviteCode :: "string \<Rightarrow> DB \<Rightarrow> (store_error + unit) \<times> DB" where
  "DeleteInviteCode i db =
     (if rows_affected (\<lambda>c. ic_ID c = TrimSpace i) (invite_codes db) = 0 then (Inl ErrInviteCodeNotFound, db)
      else (Inr (), db\<lparr>invite_codes := delete_where (\<lambda>c. ic_ID c = TrimSpace i) (invite_codes db)\<rparr>))"

definition InviteCodeExists :: "crypto \<Rightarrow> string \<Rightarrow> DB \<Rightarrow> bool" where
  "InviteCodeExists cr rawInviteCode db =
     (let raw = TrimSpace rawInviteCode
      in raw \<noteq> [] \<and> list_ex (\<lambda>c. ic_CodeHash c = HashAPIKey (sha256 cr) raw) (invite_codes db))"

record InviteCodePage =
  ip_InviteCodes :: "InviteCode list"
  ip_TotalCount :: int
  ip_HasMore :: bool
  ip_NextCursor :: "(time \<times> string) option"

definition invite_key :: "InviteCode \<Rightarrow> time \<times> string" where
  "invite_key c = (ic_CreatedAt c, ic_ID c)"

definition ListInviteCodesPage :: "(time \<times> string) option \<Rightarrow> int \<Rightarrow> DB \<Rightarrow> InviteCodePage" where
  "ListInviteCodesPage cursor limit db =
     (case keyset_page timeIDDescending invite_key cursor limit (invite_codes db) of
        (rows, hasMore, nextCursor) \<Rightarrow>
          \<lparr>ip_InviteCodes = rows, ip_TotalCount = int (length (invite_codes db)),
           ip_HasMore = hasMore, ip_NextCursor = nextCursor\<rparr>)"

record InviteCodeRedemptionPage =
  rp_Redemptions :: "InviteCodeRedemption list"
  rp_HasMore :: bool
  rp_NextCursor :: "(time \<times> string) option"

definition redemption_key :: "InviteCodeRedemption \<Rightarrow> time \<times> string" where
  "redemption_key r = (red_RedeemedAt r, red_ID r)"

definition redemptions_of :: "string \<Rightarrow> DB \<Rightarrow> InviteCodeRedemption list" where
  "redemptions_of inviteCodeID db =
     filter (\<lambda>r. red_InviteCodeID r = TrimSpace inviteCodeID) (redemptions db)"

definition ListInviteCodeRedemptionsPage ::
  "string \<Rightarrow> (time \<times> string) option \<Rightarrow> int \<Rightarrow> DB \<Rightarrow> InviteCodeRedemptionPage" where
  "ListInviteCodeRedemptionsPage inviteCodeID cursor limit db =
     (case keyset_page timeIDDescending redemption_key cursor limit (redemptions_of inviteCodeID db) of
        (rows, hasMore, nextCursor) \<Rightarrow>
          \<lparr>rp_Redemptions = rows, rp_HasMore = hasMore, rp_NextCursor = nextCursor\<rparr>)"

section \<open>Registration\<close>

definition serverSettingsID :: string where
  "serverSettingsID = ''default''"

definition readRegistrationMode :: "RegistrationMode \<Rightarrow> DB \<Rightarrow> store_error + RegistrationMode" where
  "readRegistrationMode fallbackMode db =
     (case server_settings db of
        None \<Rightarrow> Inr fallbackMode
      | Some row \<Rightarrow> NormalizeRegistrationMode (rt_RegistrationMode (sr_Settings row)))"

definition registerUserInTransaction :: "entropy \<Rightarrow> time \<Rightarrow> string \<Rightarrow> string \<Rightarrow> string tx" where
  "registerUserInTransaction idBytes now username passwordHash db =
     (case randomID idBytes of
        Inl e \<Rightarrow> Inl e
      | Inr i \<Rightarrow>
          (case default_tier db of
             None \<Rightarrow> Inl ErrTierNotFound
           | Some tier \<Rightarrow>
               (case insert_user (new_user_row now i username passwordHash RoleUser (t_ID tier)) db of
                  Inl e \<Rightarrow> Inl (if e = UNIQUE_constraint then ErrUsernameTaken else StoreErrorf ''insert user'')
                | Inr db' \<Rightarrow> Inr (i, db'))))"

definition recordInviteCodeRedemptionInTransaction ::
  "entropy \<Rightarrow> time \<Rightarrow> InviteCode \<Rightarrow> string \<Rightarrow> string \<Rightarrow> unit tx" where
  "recordInviteCodeRedemptionInTransaction redemptionBytes now inviteCode userID username db =
     (case randomID redemptionBytes of
        Inl e \<Rightarrow> Inl e
      | Inr redemptionID \<Rightarrow>
          if list_ex (\<lambda>r. red_ID r = redemptionID \<or> red_UserID r = userID) (redemptions db)
          then Inl (StoreErrorf ''insert invite code redemption'')
          else Inr ((), db\<lparr>redemptions := redemptions db @
            [\<lparr>red_ID = redemptionID, red_InviteCodeID = ic_ID inviteCode,
              red_InviteCodePrefix = ic_CodePrefix inviteCode, red_UserID = userID, red_Username = username,
              red_RedeemedAt = db_time now\<rparr>]\<rparr>))"

definition registerUserWithInviteCodeInTransaction ::
  "crypto \<Rightarrow> entropy \<Rightarrow> entropy \<Rightarrow> time \<Rightarrow> string \<Rightarrow> string \<Rightarrow> string \<Rightarrow> string tx" where
  "registerUserWithInviteCodeInTransaction cr idBytes redemptionBytes now username passwordHash rawInviteCode db =
     (let raw = TrimSpace rawInviteCode
      in if raw = [] then Inl ErrInviteCodeInvalid
         else case find (\<lambda>c. ic_CodeHash c = HashAPIKey (sha256 cr) raw) (invite_codes db) of
             None \<Rightarrow> Inl ErrInviteCodeInvalid
           | Some inviteCode \<Rightarrow>
               if \<not> ic_Enabled inviteCode then Inl ErrInviteCodeDisabled
               else if ic_RegistrationLimit inviteCode \<le> ic_RegistrationCount inviteCode
               then Inl ErrInviteCodeExhausted
               else (case registerUserInTransaction idBytes now username passwordHash db of
                   Inl e \<Rightarrow> Inl e
                 | Inr (userID, db1) \<Rightarrow>
                     let eligible = (\<lambda>c. ic_ID c = ic_ID inviteCode \<and> ic_Enabled c \<and>
                           ic_RegistrationCount c < ic_RegistrationLimit c);
                         db2 = db1\<lparr>invite_codes := update_where eligible
                           (\<lambda>c. c\<lparr>ic_RegistrationCount := ic_RegistrationCount c + 1, ic_UpdatedAt := db_time now\<rparr>)
                           (invite_codes db1)\<rparr>
                     in if rows_affected eligible (invite_codes db1) \<noteq> 1 then Inl ErrInviteCodeExhausted
                        else (case recordInviteCodeRedemptionInTransaction redemptionBytes now inviteCode userID username db2 of
                            Inl e \<Rightarrow> Inl e
                          | Inr (_, db3) \<Rightarrow> Inr (userID, db3))))"

definition RegisterUserWithCurrentMode ::
  "crypto \<Rightarrow> entropy \<Rightarrow> entropy \<Rightarrow> time \<Rightarrow> string \<Rightarrow> string \<Rightarrow> string \<Rightarrow> RegistrationMode \<Rightarrow> DB \<Rightarrow>
     (store_error + User) \<times> DB" where
  "RegisterUserWithCurrentMode cr idBytes redemptionBytes now rawUsername passwordHash rawInviteCode rawFallbackMode db =
     (let username = TrimSpace rawUsername
      in if username = [] then (Inl (StoreErrorf ''username is required''), db)
         else case NormalizeRegistrationMode rawFallbackMode of
             Inl e \<Rightarrow> (Inl e, db)
           | Inr fallbackMode \<Rightarrow> run_tx (\<lambda>db.
               case readRegistrationMode fallbackMode db of
                 Inl e \<Rightarrow> Inl e
               | Inr registrationMode \<Rightarrow>
                   (case (if registrationMode = RegistrationModeDisabled then Inl ErrRegistrationDisabled
                          else if registrationMode = RegistrationModeFree
                          then registerUserInTransaction idBytes now username passwordHash db
                          else if registrationMode = RegistrationModeInvite
                          then registerUserWithInviteCodeInTransaction cr idBytes redemptionBytes now username
                                 passwordHash rawInviteCode db
                          else Inl (StoreErrorf ''unsupported registration mode'')) of
                      Inl e \<Rightarrow> Inl e
                    | Inr (userID, db') \<Rightarrow>
                        (case user_row userID db' of
                           None \<Rightarrow> Inl (StoreErrorf ''sql: no rows in result set'')
                         | Some row \<Rightarrow> Inr (scanUser now row, db')))) db)"

section \<open>The operations keep the invariant\<close>

lemma db_ok_invites: "db_ok db \<Longrightarrow> invites_ok (invite_codes db)"
  by (simp add: db_ok_def)

lemma db_ok_invites_replace:
  "db_ok db \<Longrightarrow> invites_ok cs \<Longrightarrow>
     (\<forall>c \<in> set cs. \<forall>u. ic_CreatedByUserID c = Some u \<longrightarrow> u \<in> u_ID ` set (users db)) \<Longrightarrow>
     db_ok (db\<lparr>invite_codes := cs\<rparr>)"
  by (simp add: db_ok_def references_ok_def)

lemma invite_creators:
  "db_ok db \<Longrightarrow> c \<in> set (invite_codes db) \<Longrightarrow> ic_CreatedByUserID c = Some u \<Longrightarrow> u \<in> u_ID ` set (users db)"
  using db_ok_references [of db] by (simp add: references_ok_def)

lemma insert_invite_ok:
  assumes ok: "db_ok db" and ins: "insert_invite c db = Inr db'" and c: "db_time (ic_CreatedAt c) = ic_CreatedAt c"
  shows "db_ok db'"
proof -
  have new: "db' = db\<lparr>invite_codes := invite_codes db @ [c]\<rparr>"
    "0 < ic_RegistrationLimit c" "0 \<le> ic_RegistrationCount c" "ic_RegistrationCount c \<le> ic_RegistrationLimit c"
    "\<And>d. d \<in> set (invite_codes db) \<Longrightarrow> ic_ID d \<noteq> ic_ID c \<and> ic_CodeHash d \<noteq> ic_CodeHash c"
    "\<And>u. ic_CreatedByUserID c = Some u \<Longrightarrow> u \<in> u_ID ` set (users db)"
    using ins by (auto simp: insert_invite_def list_ex_iff user_row_None split: if_splits option.splits)
  have "ic_ID c \<notin> ic_ID ` set (invite_codes db)" "ic_CodeHash c \<notin> ic_CodeHash ` set (invite_codes db)"
    using new(5) by (metis imageE)+
  then have "invites_ok (invite_codes db @ [c])"
    using db_ok_invites [OF ok] new(2-4) c by (simp add: invites_ok_def)
  then show ?thesis unfolding new(1)
    using new(6) invite_creators [OF ok] by (intro db_ok_invites_replace [OF ok]) auto
qed

lemma CreateInviteCode_ok:
  "db_ok db \<Longrightarrow> db_ok (snd (CreateInviteCode cr keyBytes idBytes nonceBytes now createdBy registrationLimit db))"
  by (auto simp: CreateInviteCode_def Let_def split: sum.split elim!: insert_invite_ok)

lemma update_invites_ok:
  assumes ok: "db_ok db"
    and f: "\<And>c. ic_ID (f c) = ic_ID c" "\<And>c. ic_CodeHash (f c) = ic_CodeHash c"
      "\<And>c. ic_CreatedAt (f c) = ic_CreatedAt c" "\<And>c. ic_CreatedByUserID (f c) = ic_CreatedByUserID c"
    and bounds: "\<And>c. c \<in> set (invite_codes db) \<Longrightarrow> P c \<Longrightarrow> 0 \<le> ic_RegistrationCount (f c) \<and>
      ic_RegistrationCount (f c) \<le> ic_RegistrationLimit (f c) \<and> 0 < ic_RegistrationLimit (f c)"
  shows "db_ok (db\<lparr>invite_codes := update_where P f (invite_codes db)\<rparr>)"
proof (rule db_ok_invites_replace [OF ok])
  show "invites_ok (update_where P f (invite_codes db))"
    using db_ok_invites [OF ok] bounds by (auto simp: invites_ok_def map_update_where f rows)
  show "\<forall>c \<in> set (update_where P f (invite_codes db)). \<forall>u. ic_CreatedByUserID c = Some u \<longrightarrow> u \<in> u_ID ` set (users db)"
    using invite_creators [OF ok] by (auto simp: rows f)
qed

lemma UpdateInviteCode_ok:
  assumes ok: "db_ok db"
  shows "db_ok (snd (UpdateInviteCode now i updates db))"
proof -
  have "db_ok (db\<lparr>invite_codes := update_where
      (\<lambda>c. ic_ID c = TrimSpace i \<and> (case icu_RegistrationLimit updates of
         Some l \<Rightarrow> ic_RegistrationCount c \<le> l | None \<Rightarrow> True))
      (\<lambda>c. (apply_sets ((case icu_RegistrationLimit updates of Some l \<Rightarrow> [\<lambda>c. c\<lparr>ic_RegistrationLimit := l\<rparr>] | None \<Rightarrow> []) @
         (case icu_Enabled updates of Some e \<Rightarrow> [\<lambda>c. c\<lparr>ic_Enabled := e\<rparr>] | None \<Rightarrow> [])) c)\<lparr>ic_UpdatedAt := db_time now\<rparr>)
      (invite_codes db)\<rparr>)"
    if "\<not> (case icu_RegistrationLimit updates of Some l \<Rightarrow> l \<le> 0 | None \<Rightarrow> False)"
    using that db_ok_invites [OF ok]
    by (intro update_invites_ok [OF ok]) (auto simp: apply_sets_def invites_ok_def split: option.splits)
  then show ?thesis using ok
    by (cases "icu_RegistrationLimit updates"; cases "icu_Enabled updates")
      (auto simp: UpdateInviteCode_def Let_def split: option.split)
qed

lemma DeleteInviteCode_ok:
  assumes ok: "db_ok db"
  shows "db_ok (snd (DeleteInviteCode i db))"
proof -
  have "db_ok (db\<lparr>invite_codes := delete_where P (invite_codes db)\<rparr>)" for P
    using db_ok_invites [OF ok] invite_creators [OF ok]
    by (intro db_ok_invites_replace [OF ok]) (auto simp: invites_ok_def rows intro: distinct_delete_where)
  then show ?thesis using ok by (simp add: DeleteInviteCode_def)
qed

lemma registerUser_Inr:
  assumes "registerUserInTransaction idBytes now username passwordHash db = Inr (i, db')"
  obtains t where "randomID idBytes = Inr i" "default_tier db = Some t"
    "insert_user (new_user_row now i username passwordHash RoleUser (t_ID t)) db = Inr db'"
  using assms by (auto simp: registerUserInTransaction_def split: sum.splits option.splits)

lemma registerUser_ok:
  assumes "db_ok db" "random_ok 16 idBytes" "username \<noteq> []"
    and r: "registerUserInTransaction idBytes now username passwordHash db = Inr (i, db')"
  shows "db_ok db'"
  using r
proof (cases rule: registerUser_Inr)
  case (1 t)
  then show ?thesis
    using insert_user_ok [OF assms(1) 1(3)] randomID_trimmed [OF assms(2) 1(1)] assms(3)
    by (simp add: new_user_row_def)
qed

lemma registerInvite_Inr:
  assumes "registerUserWithInviteCodeInTransaction cr idBytes redemptionBytes now username passwordHash raw db = Inr (i, db')"
  obtains c db1 rid where
    "find (\<lambda>c. ic_CodeHash c = HashAPIKey (sha256 cr) (TrimSpace raw)) (invite_codes db) = Some c"
    "TrimSpace raw \<noteq> []" "ic_Enabled c" "ic_RegistrationCount c < ic_RegistrationLimit c"
    "registerUserInTransaction idBytes now username passwordHash db = Inr (i, db1)"
    "randomID redemptionBytes = Inr rid"
    "\<And>r. r \<in> set (redemptions db1) \<Longrightarrow> red_ID r \<noteq> rid \<and> red_UserID r \<noteq> i"
    "db' = db1\<lparr>invite_codes := update_where (\<lambda>d. ic_ID d = ic_ID c \<and> ic_Enabled d \<and>
           ic_RegistrationCount d < ic_RegistrationLimit d)
         (\<lambda>c. c\<lparr>ic_RegistrationCount := ic_RegistrationCount c + 1, ic_UpdatedAt := db_time now\<rparr>) (invite_codes db1),
       redemptions := redemptions db1 @ [\<lparr>red_ID = rid, red_InviteCodeID = ic_ID c,
         red_InviteCodePrefix = ic_CodePrefix c, red_UserID = i, red_Username = username, red_RedeemedAt = db_time now\<rparr>]\<rparr>"
  using assms unfolding registerUserWithInviteCodeInTransaction_def recordInviteCodeRedemptionInTransaction_def Let_def
  by (auto simp: list_ex_iff not_le split: if_splits option.splits sum.splits)

lemma registerInvite_ok:
  assumes ok: "db_ok db" and rnd: "random_ok 16 idBytes" and name: "username \<noteq> []"
    and r: "registerUserWithInviteCodeInTransaction cr idBytes redemptionBytes now username passwordHash raw db = Inr (i, db')"
  shows "db_ok db'"
  using r
proof (cases rule: registerInvite_Inr)
  case (1 c db1 rid)
  have ok1: "db_ok db1" using registerUser_ok [OF ok rnd name 1(5)] .
  let ?db2 = "db1\<lparr>invite_codes := update_where (\<lambda>d. ic_ID d = ic_ID c \<and> ic_Enabled d \<and>
           ic_RegistrationCount d < ic_RegistrationLimit d)
         (\<lambda>c. c\<lparr>ic_RegistrationCount := ic_RegistrationCount c + 1, ic_UpdatedAt := db_time now\<rparr>) (invite_codes db1)\<rparr>"
  have ok2: "db_ok ?db2"
    using db_ok_invites [OF ok1] by (intro update_invites_ok [OF ok1]) (auto simp: invites_ok_def)
  have "rid \<notin> red_ID ` set (redemptions db1)" "i \<notin> red_UserID ` set (redemptions db1)"
    using 1(7) by (metis imageE)+
  then have "redemptions_ok (redemptions db1 @ [\<lparr>red_ID = rid, red_InviteCodeID = ic_ID c,
      red_InviteCodePrefix = ic_CodePrefix c, red_UserID = i, red_Username = username, red_RedeemedAt = db_time now\<rparr>])"
    using ok1 by (simp add: db_ok_def redemptions_ok_def)
  then show ?thesis unfolding 1(8) using ok2 by (simp add: db_ok_def references_ok_def)
qed

lemma Register_cases:
  assumes "RegisterUserWithCurrentMode cr idBytes redemptionBytes now rawUsername passwordHash raw fallback db = (r, db')"
  obtains (error) e where "r = Inl e" "db' = db"
  | (free) i u where "readRegistrationMode fallback db = Inr RegistrationModeFree" "TrimSpace rawUsername \<noteq> []"
      "registerUserInTransaction idBytes now (TrimSpace rawUsername) passwordHash db = Inr (i, db')"
      "user_row i db' = Some u" "r = Inr (scanUser now u)"
  | (invite) i u where "readRegistrationMode fallback db = Inr RegistrationModeInvite" "TrimSpace rawUsername \<noteq> []"
      "registerUserWithInviteCodeInTransaction cr idBytes redemptionBytes now (TrimSpace rawUsername) passwordHash raw db = Inr (i, db')"
      "user_row i db' = Some u" "r = Inr (scanUser now u)"
proof (cases "\<exists>e. r = Inl e \<and> db' = db")
  case True
  then show ?thesis using that(1) by blast
next
  case False
  have name: "TrimSpace rawUsername \<noteq> []" using False assms by (auto simp: RegisterUserWithCurrentMode_def)
  obtain m where m: "NormalizeRegistrationMode fallback = Inr m"
    using False assms name by (cases "NormalizeRegistrationMode fallback") (auto simp: RegisterUserWithCurrentMode_def)
  then have "m = fallback" by (simp add: NormalizeRegistrationMode_Inr)
  obtain mode where mode: "readRegistrationMode fallback db = Inr mode"
    using False assms name m \<open>m = fallback\<close>
    by (cases "readRegistrationMode fallback db") (auto simp: RegisterUserWithCurrentMode_def run_tx_def)
  have ne: "RegistrationModeFree \<noteq> RegistrationModeDisabled" "RegistrationModeInvite \<noteq> RegistrationModeDisabled"
    "RegistrationModeInvite \<noteq> RegistrationModeFree" by (simp_all add: registration_modes)
  consider "mode = RegistrationModeFree" | "mode = RegistrationModeInvite"
    using False assms name m mode \<open>m = fallback\<close>
    by (auto simp: RegisterUserWithCurrentMode_def run_tx_def Let_def split: if_splits)
  then show ?thesis
  proof cases
    case 1
    then show ?thesis
      using False assms name m mode \<open>m = fallback\<close> ne that(2)
      by (auto simp: RegisterUserWithCurrentMode_def run_tx_def Let_def split: sum.splits option.splits)
  next
    case 2
    then show ?thesis
      using False assms name m mode \<open>m = fallback\<close> ne that(3)
      by (auto simp: RegisterUserWithCurrentMode_def run_tx_def Let_def split: sum.splits option.splits)
  qed
qed

lemma RegisterUser_ok:
  assumes "db_ok db" "random_ok 16 idBytes"
  shows "db_ok (snd (RegisterUserWithCurrentMode cr idBytes redemptionBytes now rawUsername passwordHash raw fallback db))"
proof -
  obtain r db' where c: "RegisterUserWithCurrentMode cr idBytes redemptionBytes now rawUsername passwordHash raw fallback db = (r, db')"
    by fastforce
  then show ?thesis
  proof (cases rule: Register_cases)
    case (free i u)
    then show ?thesis using registerUser_ok [OF assms free(2,3)] by (simp add: c)
  next
    case (invite i u)
    then show ?thesis using registerInvite_ok [OF assms invite(2,3)] by (simp add: c)
  qed (use assms c in auto)
qed

section \<open>Properties\<close>

text \<open>What one redemption does to the invite codes.\<close>

definition redeemed :: "time \<Rightarrow> InviteCode \<Rightarrow> InviteCode" where
  "redeemed now c = c\<lparr>ic_RegistrationCount := ic_RegistrationCount c + 1, ic_UpdatedAt := db_time now\<rparr>"

lemma register_users:
  assumes "registerUserInTransaction idBytes now username passwordHash db = Inr (i, db')"
  shows "\<exists>t. default_tier db = Some t \<and> i \<notin> u_ID ` set (users db) \<and>
    (\<forall>v \<in> set (users db). nocase (u_Username v) \<noteq> nocase username) \<and>
    db' = db\<lparr>users := users db @ [new_user_row now i username passwordHash RoleUser (t_ID t)]\<rparr>"
  using assms
proof (cases rule: registerUser_Inr)
  case (1 t)
  then show ?thesis by (auto simp: insert_user_Inr new_user_row_def)
qed

lemma redeem_update:
  assumes ok: "invites_ok cs" and c: "c \<in> set cs" "ic_Enabled c" "ic_RegistrationCount c < ic_RegistrationLimit c"
  shows "update_where (\<lambda>d. ic_ID d = ic_ID c \<and> ic_Enabled d \<and> ic_RegistrationCount d < ic_RegistrationLimit d) f cs =
    update_where (\<lambda>d. d = c) f cs"
  using assms by (intro update_where_cong_pred) (auto simp: invites_ok_def distinct_map dest: inj_onD)

text \<open>The user a registration creates, whichever mode is in force.\<close>

lemma Register_user:
  assumes reg: "RegisterUserWithCurrentMode cr idBytes redemptionBytes now username passwordHash code fallback db = (Inr u, db')"
  shows "\<exists>mode t. readRegistrationMode fallback db = Inr mode \<and> mode \<in> {RegistrationModeFree, RegistrationModeInvite} \<and>
    default_tier db = Some t \<and> u = new_user_row now (u_ID u) (TrimSpace username) passwordHash RoleUser (t_ID t) \<and>
    (\<forall>v \<in> set (users db). nocase (u_Username v) \<noteq> nocase (TrimSpace username)) \<and> users db' = users db @ [u]"
proof -
  have created: "\<exists>t. default_tier db = Some t \<and> scanUser now row = new_user_row now (u_ID row) (TrimSpace username) passwordHash RoleUser (t_ID t) \<and>
      (\<forall>v \<in> set (users db). nocase (u_Username v) \<noteq> nocase (TrimSpace username)) \<and> users db' = users db @ [scanUser now row]"
    if reg1: "registerUserInTransaction idBytes now (TrimSpace username) passwordHash db = Inr (i, db1)" and us: "users db' = users db1"
      and found: "user_row i db' = Some row" for i row db1
  proof -
    obtain t where t: "default_tier db = Some t" "i \<notin> u_ID ` set (users db)"
      "\<forall>v \<in> set (users db). nocase (u_Username v) \<noteq> nocase (TrimSpace username)"
      "db1 = db\<lparr>users := users db @ [new_user_row now i (TrimSpace username) passwordHash RoleUser (t_ID t)]\<rparr>"
      using register_users [OF reg1] by blast
    then have "find (\<lambda>u. u_ID u = i) (users db) = None" by (auto simp: find_None_set)
    then have "row = new_user_row now i (TrimSpace username) passwordHash RoleUser (t_ID t)"
      using us found t(4) by (simp add: user_row_def new_user_row_def find_append_fresh)
    then show ?thesis using t us by (simp add: scanUser_def new_user_row_def)
  qed
  from reg show ?thesis
  proof (cases rule: Register_cases)
    case (free i row)
    then show ?thesis using created [OF free(3) refl free(4)] by auto
  next
    case (invite i row)
    from invite(3) show ?thesis
    proof (cases rule: registerInvite_Inr)
      case (1 c db1 rid)
      have "users db' = users db1" by (simp add: 1(8))
      from created [OF 1(5) this invite(4)] show ?thesis using invite(1,5) by auto
    qed
  qed simp
qed

text \<open>
  (C4) Registration follows the mode of the moment. A registration that succeeds happened while the
  mode was free or invite; it adds exactly one user: new id, new name, ordinary role, enabled, on
  the default tier. In invite mode the code presented belongs to an enabled invite with
  registrations left, exactly that invite counts one more, and the redemption is recorded for that
  user; in free mode invites and redemptions stay as they are. A registration that fails, for
  whatever reason, changes nothing.
\<close>

theorem registration_exact:
  assumes ok: "db_ok db"
    and reg: "RegisterUserWithCurrentMode cr idBytes redemptionBytes now username passwordHash code fallback db = (r, db')"
  shows "case r of Inl e \<Rightarrow> db' = db
    | Inr u \<Rightarrow> \<exists>mode t. readRegistrationMode fallback db = Inr mode \<and>
        mode \<in> {RegistrationModeFree, RegistrationModeInvite} \<and> default_tier db = Some t \<and>
        u = new_user_row now (u_ID u) (TrimSpace username) passwordHash RoleUser (t_ID t) \<and>
        u_ID u \<notin> u_ID ` set (users db) \<and>
        (\<forall>v \<in> set (users db). nocase (u_Username v) \<noteq> nocase (TrimSpace username)) \<and>
        users db' = users db @ [u] \<and>
        (mode = RegistrationModeFree \<longrightarrow> invite_codes db' = invite_codes db \<and> redemptions db' = redemptions db) \<and>
        (mode = RegistrationModeInvite \<longrightarrow> (\<exists>c rid. c \<in> set (invite_codes db) \<and>
           ic_CodeHash c = HashAPIKey (sha256 cr) (TrimSpace code) \<and> ic_Enabled c \<and>
           ic_RegistrationCount c < ic_RegistrationLimit c \<and>
           invite_codes db' = update_where (\<lambda>d. d = c) (redeemed now) (invite_codes db) \<and>
           redemptions db' = redemptions db @ [\<lparr>red_ID = rid, red_InviteCodeID = ic_ID c,
             red_InviteCodePrefix = ic_CodePrefix c, red_UserID = u_ID u, red_Username = TrimSpace username,
             red_RedeemedAt = db_time now\<rparr>]))"
  using reg
proof (cases rule: Register_cases)
  case (free i row)
  have ne: "RegistrationModeFree \<noteq> RegistrationModeInvite" by (simp add: registration_modes)
  obtain t where t: "default_tier db = Some t" "i \<notin> u_ID ` set (users db)"
    "\<forall>v \<in> set (users db). nocase (u_Username v) \<noteq> nocase (TrimSpace username)"
    "db' = db\<lparr>users := users db @ [new_user_row now i (TrimSpace username) passwordHash RoleUser (t_ID t)]\<rparr>"
    using register_users [OF free(3)] by blast
  then have "find (\<lambda>u. u_ID u = i) (users db) = None" by (auto simp: find_None_set)
  then have "row = new_user_row now i (TrimSpace username) passwordHash RoleUser (t_ID t)"
    using free(4) t(4) by (simp add: user_row_def new_user_row_def find_append_fresh)
  then show ?thesis using free(1,5) t ne by (simp add: scanUser_def new_user_row_def)
next
  case (invite i row)
  have ne: "RegistrationModeInvite \<noteq> RegistrationModeFree" by (simp add: registration_modes)
  from invite(3) show ?thesis
  proof (cases rule: registerInvite_Inr)
    case (1 c db1 rid)
    obtain t where t: "default_tier db = Some t" "i \<notin> u_ID ` set (users db)"
      "\<forall>v \<in> set (users db). nocase (u_Username v) \<noteq> nocase (TrimSpace username)"
      "db1 = db\<lparr>users := users db @ [new_user_row now i (TrimSpace username) passwordHash RoleUser (t_ID t)]\<rparr>"
      using register_users [OF 1(5)] by blast
    then have "find (\<lambda>u. u_ID u = i) (users db) = None" by (auto simp: find_None_set)
    then have row: "row = new_user_row now i (TrimSpace username) passwordHash RoleUser (t_ID t)"
      using invite(4) 1(8) t(4) by (simp add: user_row_def new_user_row_def find_append_fresh)
    have c: "c \<in> set (invite_codes db)" "ic_CodeHash c = HashAPIKey (sha256 cr) (TrimSpace code)"
      using find_Some_set [OF 1(1)] by auto
    have "invite_codes db' = update_where (\<lambda>d. d = c) (redeemed now) (invite_codes db)"
      using redeem_update [OF db_ok_invites [OF ok] c(1) 1(3,4)] t(4)
      by (simp add: 1(8) redeemed_def [abs_def])
    then show ?thesis using invite(1,5) t ne row c 1(3,4,8) by (auto simp: scanUser_def new_user_row_def)
  qed
qed simp

definition demo_register :: "RegistrationMode \<Rightarrow> (store_error + User) \<times> DB" where
  "demo_register mode = RegisterUserWithCurrentMode demo_crypto demo_entropy demo_entropy demo_time '' bob ''
     ''pw'' ''x'' mode demo_db"

theorem registration_exact_witness:
  "(case demo_register RegistrationModeFree of
      (Inr u, db') \<Rightarrow> users db' = users demo_db @ [u] \<and> u_Username u = ''bob'' \<and> invite_codes db' = invite_codes demo_db
    | _ \<Rightarrow> False) \<and> demo_register RegistrationModeInvite = (Inl ErrInviteCodeInvalid, demo_db)"
proof -
  obtain r1 d1 where r1: "demo_register RegistrationModeFree = (r1, d1)" by fastforce
  obtain r2 d2 where r2: "demo_register RegistrationModeInvite = (r2, d2)" by fastforce
  have "case fst (demo_register RegistrationModeFree) of Inr u \<Rightarrow> u_Username u = ''bob'' | Inl _ \<Rightarrow> False" by code_simp
  moreover have "fst (demo_register RegistrationModeInvite) = Inl ErrInviteCodeInvalid" by code_simp
  moreover have "readRegistrationMode RegistrationModeFree demo_db = Inr RegistrationModeFree" by code_simp
  ultimately show ?thesis
    using registration_exact [OF demo_db_ok r1 [unfolded demo_register_def]]
      registration_exact [OF demo_db_ok r2 [unfolded demo_register_def]] r1 r2
    by (auto split: sum.splits)
qed

interpretation invites_listing: keyset_listing db_ok invite_codes invite_key timeIDDescending
proof
  fix db :: DB assume "db_ok db"
  then have "invites_ok (invite_codes db)" by (rule db_ok_invites)
  then show "pageable invite_key (invite_codes db)"
    by (auto simp: invites_ok_def pageable_def invite_key_def distinct_map inj_on_def)
qed

interpretation redemptions_listing: keyset_listing db_ok "redemptions_of inviteCodeID" redemption_key timeIDDescending
  for inviteCodeID
proof
  fix db :: DB assume "db_ok db"
  then have "redemptions_ok (redemptions db)" by (simp add: db_ok_def)
  then show "pageable redemption_key (redemptions_of inviteCodeID db)"
    by (auto simp: redemptions_ok_def pageable_def redemption_key_def redemptions_of_def distinct_map inj_on_def)
qed

end
