(* ===== verification/Store_Settings.thy ===== *)
theory Store_Settings
  imports Store_Invites
begin

text \<open>
  The persisted runtime settings, \<open>internal/store/sqlite_settings.go\<close>: one row, its two secrets
  encrypted under identities of their own, written with an optimistic revision check.
\<close>

section \<open>Operations\<close>

definition serverSettingsAPIKeyRecordIdentity :: "string \<Rightarrow> string" where
  "serverSettingsAPIKeyRecordIdentity settingsID = ''server-settings:'' @ settingsID @ '':cpa-api-key''"

definition turnstileSecretKeyRecordIdentity :: "string \<Rightarrow> string" where
  "turnstileSecretKeyRecordIdentity settingsID = ''server-settings:'' @ settingsID @ '':turnstile-secret-key''"

definition decryptServerSettingsAPIKey :: "crypto \<Rightarrow> string \<Rightarrow> stored_secret \<Rightarrow> store_error + string" where
  "decryptServerSettingsAPIKey cr settingsID storedAPIKey =
     (if \<not> (s_ciphertext storedAPIKey \<noteq> [] \<and> s_nonce storedAPIKey \<noteq> [] \<and> s_encryptionVersion storedAPIKey \<noteq> 0)
      then Inl (StoreErrorf ''server settings CPA API key ciphertext is incomplete'')
      else case Decrypt (secretCipher cr) (s_ciphertext storedAPIKey) (s_nonce storedAPIKey)
             (serverSettingsAPIKeyRecordIdentity settingsID) (s_encryptionVersion storedAPIKey) of
          Inl e \<Rightarrow> Inl (StoreErrorf ''decrypt server settings CPA API key'')
        | Inr plaintext \<Rightarrow> Inr plaintext)"

definition decryptTurnstileSecretKey :: "crypto \<Rightarrow> string \<Rightarrow> stored_secret \<Rightarrow> store_error + string" where
  "decryptTurnstileSecretKey cr settingsID storedSecretKey =
     (if s_ciphertext storedSecretKey = [] \<and> s_nonce storedSecretKey = [] \<and> s_encryptionVersion storedSecretKey = 0
      then Inr []
      else if \<not> (s_ciphertext storedSecretKey \<noteq> [] \<and> s_nonce storedSecretKey \<noteq> [] \<and> s_encryptionVersion storedSecretKey \<noteq> 0)
      then Inl (StoreErrorf ''server settings Turnstile secret key ciphertext is incomplete'')
      else case Decrypt (secretCipher cr) (s_ciphertext storedSecretKey) (s_nonce storedSecretKey)
             (turnstileSecretKeyRecordIdentity settingsID) (s_encryptionVersion storedSecretKey) of
          Inl e \<Rightarrow> Inl (StoreErrorf ''decrypt server settings Turnstile secret key'')
        | Inr plaintext \<Rightarrow> Inr plaintext)"

definition scanAndDecryptServerSettings ::
  "crypto \<Rightarrow> settings_row option \<Rightarrow> store_error + ServerSettings option" where
  "scanAndDecryptServerSettings cr row =
     (case row of
        None \<Rightarrow> Inr None
      | Some r \<Rightarrow>
          (case NormalizeRegistrationMode (rt_RegistrationMode (sr_Settings r)) of
             Inl e \<Rightarrow> Inl e
           | Inr mode \<Rightarrow>
          (case decryptServerSettingsAPIKey cr (ss_ID (sr_Settings r)) (sr_APIKey r) of
             Inl e \<Rightarrow> Inl e
           | Inr apiKey \<Rightarrow>
          (case decryptTurnstileSecretKey cr (ss_ID (sr_Settings r)) (sr_TurnstileSecretKey r) of
             Inl e \<Rightarrow> Inl e
           | Inr secretKey \<Rightarrow>
               Inr (Some ((sr_Settings r)\<lparr>rt_RegistrationMode := mode, CPAAPIKey := apiKey,
                 TurnstileSecretKey := secretKey\<rparr>))))))"

definition GetServerSettings :: "crypto \<Rightarrow> DB \<Rightarrow> store_error + ServerSettings option" where
  "GetServerSettings cr db = scanAndDecryptServerSettings cr (server_settings db)"

text \<open>The checks of the schema on the row written.\<close>

definition settings_checks :: "settings_row \<Rightarrow> bool" where
  "settings_checks r \<longleftrightarrow>
     s_ciphertext (sr_APIKey r) \<noteq> [] \<and> s_nonce (sr_APIKey r) \<noteq> [] \<and> 0 < s_encryptionVersion (sr_APIKey r) \<and>
     rt_UpstreamProtocol (sr_Settings r) \<in>
       {UpstreamProtocolResponses, UpstreamProtocolChatCompletions, UpstreamProtocolAnthropicMessages} \<and>
     0 < TimeoutSeconds (sr_Settings r) \<and>
     rt_RegistrationMode (sr_Settings r) \<in> {RegistrationModeFree, RegistrationModeInvite, RegistrationModeDisabled} \<and>
     0 < ss_Revision (sr_Settings r)"

text \<open>The trimmed settings as validated, or the first validation error.\<close>

definition validateServerSettings :: "ServerSettings \<Rightarrow> store_error + ServerSettings" where
  "validateServerSettings settings =
     (let s = settings\<lparr>CPABaseURL := TrimSpace (CPABaseURL settings), CPAAPIKey := TrimSpace (CPAAPIKey settings),
            rt_UpstreamProtocol := TrimSpace (rt_UpstreamProtocol settings), Model := TrimSpace (Model settings),
            ProxyURL := TrimSpace (ProxyURL settings), TurnstileSiteKey := TrimSpace (TurnstileSiteKey settings),
            TurnstileSecretKey := TrimSpace (TurnstileSecretKey settings)\<rparr>
      in if CPABaseURL s = [] then Inl (StoreErrorf ''cpa_base_url is required'')
         else if CPAAPIKey s = [] then Inl (StoreErrorf ''cpa_api_key is required'')
         else if rt_UpstreamProtocol s = [] then Inl (StoreErrorf ''upstream_protocol is required'')
         else if Model s = [] then Inl (StoreErrorf ''model is required'')
         else if TimeoutSeconds s \<le> 0 then Inl (StoreErrorf ''timeout_seconds must be positive'')
         else if MCPGlobalSearchConcurrency s \<le> 0
         then Inl (StoreErrorf ''mcp_global_search_concurrency must be positive'')
         else if MCPUserSearchConcurrency s \<le> 0
         then Inl (StoreErrorf ''mcp_user_search_concurrency must be positive'')
         else if MCPGlobalSearchConcurrency s < MCPUserSearchConcurrency s
         then Inl (StoreErrorf ''mcp_user_search_concurrency must not exceed mcp_global_search_concurrency'')
         else case NormalizeRegistrationMode (rt_RegistrationMode s) of
             Inl e \<Rightarrow> Inl e
           | Inr mode \<Rightarrow>
               if TurnstileEnabled s \<and> TurnstileSiteKey s = []
               then Inl (StoreErrorf ''turnstile_site_key is required when Turnstile is enabled'')
               else if TurnstileEnabled s \<and> TurnstileSecretKey s = []
               then Inl (StoreErrorf ''turnstile_secret_key is required when Turnstile is enabled'')
               else Inr (s\<lparr>rt_RegistrationMode := mode\<rparr>))"

definition encryptTurnstile ::
  "crypto \<Rightarrow> string option \<Rightarrow> string \<Rightarrow> store_error + stored_secret" where
  "encryptTurnstile cr nonceBytes turnstileSecretKey =
     (if turnstileSecretKey = [] then Inr \<lparr>s_ciphertext = [], s_nonce = [], s_encryptionVersion = 0\<rparr>
      else case Encrypt (secretCipher cr) nonceBytes turnstileSecretKey (turnstileSecretKeyRecordIdentity serverSettingsID) of
          Inl e \<Rightarrow> Inl (StoreErrorf ''encrypt server settings Turnstile secret key'')
        | Inr (c, n, v) \<Rightarrow> Inr \<lparr>s_ciphertext = c, s_nonce = n, s_encryptionVersion = v\<rparr>)"

definition settings_row_of ::
  "ServerSettings \<Rightarrow> stored_secret \<Rightarrow> stored_secret \<Rightarrow> int \<Rightarrow> time \<Rightarrow> time \<Rightarrow> settings_row" where
  "settings_row_of s apiKey secretKey revision createdAt updatedAt =
     \<lparr>sr_Settings = s\<lparr>CPAAPIKey := [], TurnstileSecretKey := [], ss_ID := serverSettingsID, ss_Revision := revision,
        ss_ExpectedRevision := None, ss_CreatedAt := createdAt, ss_UpdatedAt := updatedAt\<rparr>,
      sr_APIKey = apiKey, sr_TurnstileSecretKey = secretKey\<rparr>"

text \<open>
  \<open>INSERT .. ON CONFLICT(id) DO UPDATE .. WHERE expected IS NULL OR revision = expected RETURNING\<close>:
  the row returned, if any, and the new table.
\<close>

definition upsert_settings ::
  "int option \<Rightarrow> (int \<Rightarrow> time \<Rightarrow> settings_row) \<Rightarrow> time \<Rightarrow> settings_row option \<Rightarrow>
     sql_error + settings_row option \<times> settings_row option" where
  "upsert_settings expectedRevision mk now old =
     (case old of
        None \<Rightarrow>
          let r = mk 1 (db_time now) in if settings_checks r then Inr (Some r, Some r) else Inl CHECK_constraint
      | Some o' \<Rightarrow>
          if expectedRevision = None \<or> expectedRevision = Some (ss_Revision (sr_Settings o'))
          then (let r = mk (ss_Revision (sr_Settings o') + 1) (ss_CreatedAt (sr_Settings o'))
                in if settings_checks r then Inr (Some r, Some r) else Inl CHECK_constraint)
          else Inr (None, old))"

definition UpsertServerSettings ::
  "crypto \<Rightarrow> string option \<Rightarrow> string option \<Rightarrow> time \<Rightarrow> ServerSettings \<Rightarrow> DB \<Rightarrow>
     (store_error + ServerSettings option) \<times> DB" where
  "UpsertServerSettings cr nonce1 nonce2 now settings db =
     (case validateServerSettings settings of
        Inl e \<Rightarrow> (Inl e, db)
      | Inr s \<Rightarrow>
     (case Encrypt (secretCipher cr) nonce1 (CPAAPIKey s) (serverSettingsAPIKeyRecordIdentity serverSettingsID) of
        Inl e \<Rightarrow> (Inl (StoreErrorf ''encrypt server settings CPA API key''), db)
      | Inr (c, n, v) \<Rightarrow>
     (case encryptTurnstile cr nonce2 (TurnstileSecretKey s) of
        Inl e \<Rightarrow> (Inl e, db)
      | Inr secretKey \<Rightarrow>
          (case upsert_settings (ss_ExpectedRevision settings)
             (\<lambda>revision createdAt. settings_row_of s \<lparr>s_ciphertext = c, s_nonce = n, s_encryptionVersion = v\<rparr>
                secretKey revision createdAt (db_time now)) now (server_settings db) of
             Inl e \<Rightarrow> (Inl (StoreErrorf ''upsert server settings''), db)
           | Inr (returned, table) \<Rightarrow>
               let db' = db\<lparr>server_settings := table\<rparr>
               in (case scanAndDecryptServerSettings cr returned of
                     Inl e \<Rightarrow> (Inl (StoreErrorf ''upsert server settings''), db')
                   | Inr stored \<Rightarrow>
                       if stored = None \<and> ss_ExpectedRevision settings \<noteq> None
                       then (Inl ErrServerSettingsConflict, db')
                       else (Inr stored, db'))))))"

section \<open>Properties\<close>

lemma Upsert_ok: "db_ok (snd (UpsertServerSettings cr n1 n2 now settings db)) = db_ok db"
  by (simp add: UpsertServerSettings_def Let_def db_ok_def references_ok_def split: sum.split prod.split)

definition stored_settings :: "ServerSettings \<Rightarrow> int \<Rightarrow> time \<Rightarrow> time \<Rightarrow> ServerSettings" where
  "stored_settings s revision createdAt updatedAt =
     s\<lparr>ss_ID := serverSettingsID, ss_Revision := revision, ss_ExpectedRevision := None,
       ss_CreatedAt := createdAt, ss_UpdatedAt := updatedAt\<rparr>"

lemma stored_settings_revision: "ss_Revision (stored_settings s revision createdAt updatedAt) = revision"
  by (simp add: stored_settings_def)

definition revision_of :: "DB \<Rightarrow> int" where
  "revision_of db = (case server_settings db of None \<Rightarrow> 0 | Some r \<Rightarrow> ss_Revision (sr_Settings r))"

lemma scan_stored:
  assumes c: "cipher_ok (secretCipher cr)" "nonce_ok (secretCipher cr) n1" "nonce_ok (secretCipher cr) n2"
    and v: "validateServerSettings settings = Inr s"
    and e1: "Encrypt (secretCipher cr) n1 (CPAAPIKey s) (serverSettingsAPIKeyRecordIdentity serverSettingsID) = Inr (ct, no, ver)"
    and e2: "encryptTurnstile cr n2 (TurnstileSecretKey s) = Inr sk"
  shows "scanAndDecryptServerSettings cr (Some (settings_row_of s \<lparr>s_ciphertext = ct, s_nonce = no, s_encryptionVersion = ver\<rparr> sk revision cre upd)) =
    Inr (Some (stored_settings s revision cre upd))"
proof -
  have mode: "NormalizeRegistrationMode (rt_RegistrationMode s) = Inr (rt_RegistrationMode s)"
    using v by (auto simp: validateServerSettings_def Let_def NormalizeRegistrationMode_Inr split: if_splits sum.splits)
  have d1: "decryptServerSettingsAPIKey cr serverSettingsID \<lparr>s_ciphertext = ct, s_nonce = no, s_encryptionVersion = ver\<rparr> = Inr (CPAAPIKey s)"
    using encrypt_decrypt [OF c(1,2) e1] by (simp add: decryptServerSettingsAPIKey_def)
  have d2: "decryptTurnstileSecretKey cr serverSettingsID sk = Inr (TurnstileSecretKey s)"
  proof (cases "TurnstileSecretKey s = []")
    case True
    then show ?thesis using e2 by (auto simp: encryptTurnstile_def decryptTurnstileSecretKey_def)
  next
    case False
    then obtain a b d where enc: "Encrypt (secretCipher cr) n2 (TurnstileSecretKey s) (turnstileSecretKeyRecordIdentity serverSettingsID) = Inr (a, b, d)"
      and sk: "sk = \<lparr>s_ciphertext = a, s_nonce = b, s_encryptionVersion = d\<rparr>"
      using e2 by (auto simp: encryptTurnstile_def split: sum.splits)
    show ?thesis using encrypt_decrypt [OF c(1,3) enc] by (simp add: decryptTurnstileSecretKey_def sk)
  qed
  show ?thesis using mode d1 d2
    by (simp add: scanAndDecryptServerSettings_def settings_row_of_def stored_settings_def)
qed

lemma upsert_outcome:
  assumes c: "cipher_ok (secretCipher cr)" "nonce_ok (secretCipher cr) n1" "nonce_ok (secretCipher cr) n2"
    and up: "UpsertServerSettings cr n1 n2 now settings db = (r, db')"
  shows "case r of
      Inl e \<Rightarrow> db' = db \<and> (e = ErrServerSettingsConflict \<longrightarrow> server_settings db \<noteq> None \<and>
        (\<exists>x. ss_ExpectedRevision settings = Some x \<and> x \<noteq> revision_of db))
    | Inr stored \<Rightarrow> \<exists>s t. validateServerSettings settings = Inr s \<and> stored = Some t \<and>
        t = stored_settings s (revision_of db + 1) (ss_CreatedAt t) (db_time now) \<and>
        GetServerSettings cr db' = Inr (Some t) \<and> revision_of db' = revision_of db + 1 \<and>
        (\<forall>x. server_settings db \<noteq> None \<longrightarrow> ss_ExpectedRevision settings = Some x \<longrightarrow> x = revision_of db)"
proof (cases "validateServerSettings settings")
  case (Inl e)
  then show ?thesis using up by (auto simp: UpsertServerSettings_def validateServerSettings_def Let_def
      NormalizeRegistrationMode_def split: if_splits)
next
  case v: (Inr s)
  show ?thesis
  proof (cases "Encrypt (secretCipher cr) n1 (CPAAPIKey s) (serverSettingsAPIKeyRecordIdentity serverSettingsID)")
    case (Inl e)
    then show ?thesis using up v by (auto simp: UpsertServerSettings_def)
  next
    case e1: (Inr cnv)
    obtain ct no ver where cnv: "cnv = (ct, no, ver)" by (cases cnv)
    show ?thesis
    proof (cases "encryptTurnstile cr n2 (TurnstileSecretKey s)")
      case (Inl e)
      then show ?thesis using up v e1 cnv
        by (auto simp: UpsertServerSettings_def encryptTurnstile_def split: if_splits sum.splits)
    next
      case e2: (Inr sk)
      note scan = scan_stored [OF c v e1 [unfolded cnv] e2]
      show ?thesis
      proof (cases "server_settings db")
        case None
        then show ?thesis using up v e1 cnv e2 scan
          by (auto simp: UpsertServerSettings_def upsert_settings_def Let_def GetServerSettings_def revision_of_def
              settings_row_of_def stored_settings_def split: if_splits)
      next
        case (Some old)
        then show ?thesis using up v e1 cnv e2 scan
          by (auto simp: UpsertServerSettings_def upsert_settings_def Let_def GetServerSettings_def revision_of_def
              scanAndDecryptServerSettings_def [of cr None] settings_row_of_def stored_settings_def split: if_splits)
      qed
    qed
  qed
qed

text \<open>
  (C23) Settings round trip and versioning. With a working cipher, an upsert that succeeds returns
  the validated settings, secrets included, and reading them back gives the same; the revision is
  one more than before (the first is 1), and a caller that expected a revision of an existing row
  only succeeds when that is the stored one. An upsert that fails leaves the stored settings as
  they were; in particular a stale expectation is answered with a conflict.
\<close>

theorem settings_roundtrip:
  assumes c: "cipher_ok (secretCipher cr)" "nonce_ok (secretCipher cr) n1" "nonce_ok (secretCipher cr) n2"
    and up: "UpsertServerSettings cr n1 n2 now settings db = (r, db')"
  shows "case r of
      Inl e \<Rightarrow> db' = db \<and> (e = ErrServerSettingsConflict \<longrightarrow> server_settings db \<noteq> None \<and>
        (\<exists>x. ss_ExpectedRevision settings = Some x \<and> x \<noteq> revision_of db))
    | Inr stored \<Rightarrow> \<exists>s t. validateServerSettings settings = Inr s \<and> stored = Some t \<and>
        t = stored_settings s (revision_of db + 1) (ss_CreatedAt t) (db_time now) \<and>
        GetServerSettings cr db' = Inr (Some t) \<and> revision_of db' = revision_of db + 1 \<and>
        (\<forall>x. server_settings db \<noteq> None \<longrightarrow> ss_ExpectedRevision settings = Some x \<longrightarrow> x = revision_of db)"
  by (rule upsert_outcome [OF c up])

definition demo_settings :: "int option \<Rightarrow> ServerSettings" where
  "demo_settings expected = \<lparr>CPABaseURL = ''http://u'', CPAAPIKey = '' k '', rt_UpstreamProtocol = ''responses'',
     Model = ''m'', TimeoutSeconds = 60, MCPGlobalSearchConcurrency = 4, MCPUserSearchConcurrency = 2, ProxyURL = [],
     ProxyEnabled = False, rt_RegistrationMode = ''free'', TurnstileEnabled = True, TurnstileSiteKey = ''s'',
     TurnstileSecretKey = ''t'', Debug = False, OperationsMetricsEnabled = False, ss_ID = [], ss_Revision = 0,
     ss_ExpectedRevision = expected, ss_CreatedAt = 0, ss_UpdatedAt = 0\<rparr>"

definition demo_upsert :: "int option \<Rightarrow> DB \<Rightarrow> (store_error + ServerSettings option) \<times> DB" where
  "demo_upsert expected db = UpsertServerSettings demo_crypto (Some ''n'') (Some ''n'') demo_time (demo_settings expected) db"

lemmas demo_cipher = demo_crypto_ok(1) demo_crypto_ok(2) demo_crypto_ok(2)

theorem settings_roundtrip_witness:
  "\<exists>t. fst (demo_upsert None demo_db) = Inr (Some t) \<and> ss_Revision t = 1 \<and>
     GetServerSettings demo_crypto (snd (demo_upsert None demo_db)) = Inr (Some t)"
proof -
  have "case fst (demo_upsert None demo_db) of Inr _ \<Rightarrow> True | Inl _ \<Rightarrow> False" by code_simp
  moreover have "revision_of demo_db = 0" by code_simp
  moreover have "UpsertServerSettings demo_crypto (Some ''n'') (Some ''n'') demo_time (demo_settings None) demo_db =
      (fst (demo_upsert None demo_db), snd (demo_upsert None demo_db))" by (simp add: demo_upsert_def)
  ultimately obtain s t where t: "fst (demo_upsert None demo_db) = Inr (Some t)"
    "t = stored_settings s 1 (ss_CreatedAt t) (db_time demo_time)"
    "GetServerSettings demo_crypto (snd (demo_upsert None demo_db)) = Inr (Some t)"
    using settings_roundtrip [OF demo_cipher, of demo_time "demo_settings None" demo_db
        "fst (demo_upsert None demo_db)" "snd (demo_upsert None demo_db)"]
    by (auto split: sum.splits)
  from t(2) have "ss_Revision t = 1" by (metis stored_settings_revision)
  with t show ?thesis by blast
qed

text \<open>
  No lost updates. Of two writers that loaded the same revision of existing settings, the
  second to write gets a conflict and changes nothing.
\<close>

theorem settings_no_lost_update:
  assumes c: "cipher_ok (secretCipher cr)" "nonce_ok (secretCipher cr) n1" "nonce_ok (secretCipher cr) n2"
    "nonce_ok (secretCipher cr) m1" "nonce_ok (secretCipher cr) m2"
    and first: "UpsertServerSettings cr n1 n2 now settings db = (Inr stored, db1)"
    and same: "server_settings db \<noteq> None" "ss_ExpectedRevision settings = Some x" "ss_ExpectedRevision other = Some x"
  shows "(\<exists>e. fst (UpsertServerSettings cr m1 m2 later other db1) = Inl e) \<and>
    snd (UpsertServerSettings cr m1 m2 later other db1) = db1"
proof -
  have rev: "revision_of db1 = x + 1" "x = revision_of db" "server_settings db1 \<noteq> None"
    using upsert_outcome [OF c(1-3) first] same
    by (auto simp: GetServerSettings_def scanAndDecryptServerSettings_def split: option.splits)
  obtain r db2 where second: "UpsertServerSettings cr m1 m2 later other db1 = (r, db2)" by fastforce
  show ?thesis using upsert_outcome [OF c(1,4,5) second] rev same(3) second
    by (cases r) auto
qed

theorem settings_no_lost_update_witness:
  "\<exists>e. demo_upsert (Some 1) (snd (demo_upsert (Some 1) (snd (demo_upsert None demo_db)))) =
     (Inl e, snd (demo_upsert (Some 1) (snd (demo_upsert None demo_db))))"
proof -
  let ?db = "snd (demo_upsert None demo_db)"
  have "case fst (demo_upsert (Some 1) ?db) of Inr _ \<Rightarrow> True | Inl _ \<Rightarrow> False" by code_simp
  then obtain stored where f: "UpsertServerSettings demo_crypto (Some ''n'') (Some ''n'') demo_time (demo_settings (Some 1)) ?db =
      (Inr stored, snd (demo_upsert (Some 1) ?db))"
    by (auto simp: demo_upsert_def split: sum.splits) (metis prod.collapse)
  have "case server_settings ?db of Some _ \<Rightarrow> True | None \<Rightarrow> False" by code_simp
  then have "server_settings ?db \<noteq> None" by (auto split: option.splits)
  moreover have "ss_ExpectedRevision (demo_settings (Some 1)) = Some 1" by (simp add: demo_settings_def)
  ultimately show ?thesis
    using settings_no_lost_update [OF demo_cipher demo_crypto_ok(2) demo_crypto_ok(2) f,
        of 1 "demo_settings (Some 1)" demo_time, folded demo_upsert_def]
    by (metis prod.collapse)
qed

end
