(* ===== verification/Store_Tiers.thy ===== *)
theory Store_Tiers
  imports Store_Users
begin

text \<open>
  Tiers, \<open>internal/store/tiers.go\<close>. A tier carries the limits of its users; exactly one tier is the
  default, which new users get and to which the users of a deleted tier move.
\<close>

section \<open>Operations\<close>

definition insert_tier :: "Tier \<Rightarrow> DB \<Rightarrow> sql_error + DB" where
  "insert_tier t db =
     (if list_ex (\<lambda>s. t_ID s = t_ID t \<or> nocase (t_Name s) = nocase (t_Name t) \<or>
           t_IsDefault s \<and> t_IsDefault t) (tiers db)
      then Inl UNIQUE_constraint else Inr (db\<lparr>tiers := tiers db @ [t]\<rparr>))"

text \<open>An UPDATE of one tier, with the UNIQUE constraints checked against the other rows.\<close>

definition update_tier :: "string \<Rightarrow> (Tier \<Rightarrow> Tier) \<Rightarrow> DB \<Rightarrow> sql_error + DB" where
  "update_tier i f db =
     (if list_ex (\<lambda>t. t_ID t = i \<and> list_ex (\<lambda>s. t_ID s \<noteq> i \<and>
           (nocase (t_Name s) = nocase (t_Name (f t)) \<or> t_IsDefault s \<and> t_IsDefault (f t))) (tiers db)) (tiers db)
      then Inl UNIQUE_constraint
      else Inr (db\<lparr>tiers := update_where (\<lambda>t. t_ID t = i) f (tiers db)\<rparr>))"

definition GetTierByID :: "string \<Rightarrow> DB \<Rightarrow> store_error + Tier" where
  "GetTierByID i db = (case tier_row i db of None \<Rightarrow> Inl ErrTierNotFound | Some t \<Rightarrow> Inr t)"

definition GetDefaultTier :: "DB \<Rightarrow> store_error + Tier" where
  "GetDefaultTier db = (case default_tier db of None \<Rightarrow> Inl ErrTierNotFound | Some t \<Rightarrow> Inr t)"

text \<open>The distinct, trimmed, non-empty ids in first-occurrence order.\<close>

fun uniqueTierIDs_loop :: "string list \<Rightarrow> string list \<Rightarrow> string list" where
  "uniqueTierIDs_loop [] seen = seen"
| "uniqueTierIDs_loop (rawTierID # rest) seen =
     (let tierID = TrimSpace rawTierID
      in if tierID = [] \<or> tierID \<in> set seen then uniqueTierIDs_loop rest seen
         else uniqueTierIDs_loop rest (seen @ [tierID]))"

definition GetTiersByIDs :: "string list \<Rightarrow> DB \<Rightarrow> (string, Tier) gomap" where
  "GetTiersByIDs ids db =
     (let uniqueTierIDs = uniqueTierIDs_loop ids []
      in if uniqueTierIDs = [] then []
         else fold (\<lambda>tier m. AList.update (t_ID tier) tier m)
                (filter (\<lambda>t. t_ID t \<in> set uniqueTierIDs) (tiers db)) [])"

record TierPage =
  tp_Tiers :: "Tier list"
  tp_TotalCount :: int
  tp_HasMore :: bool
  tp_NextCursor :: "(time \<times> string) option"

definition tier_key :: "Tier \<Rightarrow> time \<times> string" where
  "tier_key t = (t_CreatedAt t, t_ID t)"

definition ListTiersPage :: "(time \<times> string) option \<Rightarrow> int \<Rightarrow> DB \<Rightarrow> TierPage" where
  "ListTiersPage cursor limit db =
     (let pageLimit = normalizePanelPageLimit limit;
          fetched = keyset_query timeIDAscending tier_key cursor (pageLimit + 1) (tiers db);
          hasMore = (pageLimit < int (length fetched));
          page = (if hasMore then take (nat pageLimit) fetched else fetched)
      in \<lparr>tp_Tiers = page, tp_TotalCount = int (length (tiers db)), tp_HasMore = hasMore,
          tp_NextCursor = (if hasMore \<and> 0 < length page then Some (tier_key (last page)) else None)\<rparr>)"

definition demote :: "time \<Rightarrow> Tier \<Rightarrow> Tier" where
  "demote now t = t\<lparr>t_IsDefault := False, t_UpdatedAt := db_time now\<rparr>"

definition CreateTier ::
  "entropy \<Rightarrow> time \<Rightarrow> string \<Rightarrow> int \<Rightarrow> int \<Rightarrow> bool \<Rightarrow> DB \<Rightarrow> (store_error + Tier) \<times> DB" where
  "CreateTier rnd now rawName rpm successLimit isDefault db =
     (let name = TrimSpace rawName
      in if name = [] then (Inl (StoreErrorf ''tier name is required''), db)
         else if rpm < 0 then (Inl (StoreErrorf ''rpm must be >= 0''), db)
         else if successLimit < 0 then (Inl (StoreErrorf ''success_limit must be >= 0''), db)
         else case randomID rnd of
             Inl e \<Rightarrow> (Inl e, db)
           | Inr i \<Rightarrow> run_tx (\<lambda>db.
               let defaultTierCount = count_if t_IsDefault (tiers db);
                   shouldBecomeDefault = (isDefault \<or> defaultTierCount = 0);
                   db1 = (if shouldBecomeDefault \<and> 0 < defaultTierCount
                     then db\<lparr>tiers := update_where t_IsDefault (demote now) (tiers db)\<rparr> else db);
                   row = \<lparr>t_ID = i, t_Name = name, t_RPM = rpm, t_SuccessLimit = successLimit,
                     t_IsDefault = shouldBecomeDefault, t_CreatedAt = db_time now, t_UpdatedAt = db_time now\<rparr>
               in case insert_tier row db1 of
                    Inl e \<Rightarrow> Inl (if e = UNIQUE_constraint then ErrTierNameTaken else StoreErrorf ''insert tier'')
                  | Inr db' \<Rightarrow> Inr (row, db')) db)"

text \<open>
  The SET clauses of \<open>UpdateTier\<close>, and whether the tier takes over as default, or the error of the
  first check that fails.
\<close>

definition tier_sets :: "Tier \<Rightarrow> TierUpdates \<Rightarrow> store_error + (Tier \<Rightarrow> Tier) list \<times> bool" where
  "tier_sets existingTier updates =
     (case (case tu_Name updates of
         Some rawName \<Rightarrow>
           let name = TrimSpace rawName
           in if name = [] then Inl (StoreErrorf ''tier name must not be empty'')
              else Inr [\<lambda>t. t\<lparr>t_Name := name\<rparr>]
       | None \<Rightarrow> Inr []) of
        Inl e \<Rightarrow> Inl e
      | Inr nameSets \<Rightarrow>
      (case (case tu_RPM updates of
          Some rpm \<Rightarrow> if rpm < 0 then Inl (StoreErrorf ''rpm must be >= 0'') else Inr [\<lambda>t. t\<lparr>t_RPM := rpm\<rparr>]
        | None \<Rightarrow> Inr []) of
         Inl e \<Rightarrow> Inl e
       | Inr rpmSets \<Rightarrow>
       (case (case tu_SuccessLimit updates of
           Some l \<Rightarrow> if l < 0 then Inl (StoreErrorf ''success_limit must be >= 0'') else Inr [\<lambda>t. t\<lparr>t_SuccessLimit := l\<rparr>]
         | None \<Rightarrow> Inr []) of
          Inl e \<Rightarrow> Inl e
        | Inr limitSets \<Rightarrow>
        (case (case tu_IsDefault updates of
            Some d \<Rightarrow>
              if \<not> d \<and> t_IsDefault existingTier then Inl ErrDefaultTierProtected
              else if d \<and> \<not> t_IsDefault existingTier then Inr ([\<lambda>t. t\<lparr>t_IsDefault := True\<rparr>], True)
              else Inr ([], False)
          | None \<Rightarrow> Inr ([], False)) of
           Inl e \<Rightarrow> Inl e
         | Inr (defaultSets, takesOver) \<Rightarrow>
             Inr (nameSets @ rpmSets @ limitSets @ defaultSets, takesOver)))))"

definition UpdateTier :: "time \<Rightarrow> string \<Rightarrow> TierUpdates \<Rightarrow> DB \<Rightarrow> (store_error + Tier) \<times> DB" where
  "UpdateTier now i updates = run_tx (\<lambda>db.
     case tier_row i db of
       None \<Rightarrow> Inl ErrTierNotFound
     | Some existingTier \<Rightarrow>
         (case tier_sets existingTier updates of
            Inl e \<Rightarrow> Inl e
          | Inr (sets, takesOver) \<Rightarrow>
              let db1 = (if takesOver
                then db\<lparr>tiers := update_where (\<lambda>t. t_IsDefault t \<and> t_ID t \<noteq> i) (demote now) (tiers db)\<rparr> else db)
              in if length sets = 0 then Inr (existingTier, db1)
                 else (case update_tier i (\<lambda>t. (apply_sets sets t)\<lparr>t_UpdatedAt := db_time now\<rparr>) db1 of
                     Inl e \<Rightarrow> Inl ErrTierNameTaken
                   | Inr db2 \<Rightarrow>
                       (case tier_row i db2 of
                          None \<Rightarrow> Inl (StoreErrorf ''sql: no rows in result set'')
                        | Some updatedTier \<Rightarrow> Inr (updatedTier, db2)))))"

definition DeleteTier :: "time \<Rightarrow> string \<Rightarrow> DB \<Rightarrow> (store_error + unit) \<times> DB" where
  "DeleteTier now i = run_tx (\<lambda>db.
     case tier_row i db of
       None \<Rightarrow> Inl ErrTierNotFound
     | Some tier \<Rightarrow>
         if t_IsDefault tier then Inl ErrDefaultTierProtected
         else (case default_tier db of
             None \<Rightarrow> Inl ErrDefaultTierMissing
           | Some defaultTier \<Rightarrow>
               let db1 = db\<lparr>users := update_where (\<lambda>u. u_TierID u = i)
                     (\<lambda>u. u\<lparr>u_TierID := t_ID defaultTier, u_UpdatedAt := db_time now\<rparr>) (users db)\<rparr>
               in if list_ex (\<lambda>u. u_TierID u = i) (users db1)
                  then Inl (StoreErrorf ''FOREIGN KEY constraint failed'')
                  else if rows_affected (\<lambda>t. t_ID t = i) (tiers db1) = 0 then Inl ErrTierNotFound
                  else Inr ((), db1\<lparr>tiers := delete_where (\<lambda>t. t_ID t = i) (tiers db1)\<rparr>)))"

definition CountUsersByTier :: "string \<Rightarrow> DB \<Rightarrow> int" where
  "CountUsersByTier tierID db = count_if (\<lambda>u. u_TierID u = tierID) (users db)"

section \<open>The operations keep the invariant\<close>

text \<open>Replacing the tier table by one with at least the same ids.\<close>

lemma db_ok_tiers_replace:
  "db_ok db \<Longrightarrow> tiers_ok ts \<Longrightarrow> u_TierID ` set (users db) \<subseteq> t_ID ` set ts \<Longrightarrow> db_ok (db\<lparr>tiers := ts\<rparr>)"
  by (simp add: db_ok_def references_ok_def)

lemma user_tiers: "db_ok db \<Longrightarrow> u_TierID ` set (users db) \<subseteq> t_ID ` set (tiers db)"
  by (simp add: db_ok_def references_ok_def)

lemma demote_fields [simp]:
  "t_ID (demote now t) = t_ID t" "t_Name (demote now t) = t_Name t" "t_RPM (demote now t) = t_RPM t"
  "t_SuccessLimit (demote now t) = t_SuccessLimit t" "t_CreatedAt (demote now t) = t_CreatedAt t"
  "\<not> t_IsDefault (demote now t)"
  by (simp_all add: demote_def)

lemma count_demote_all: "count_if t_IsDefault (update_where t_IsDefault (demote now) ts) = 0"
  by (auto simp: count_if_zero rows)

lemma append_tier_ok:
  assumes ts: "tiers_ok ts"
    and ts': "ts' = (if t_IsDefault t then update_where t_IsDefault (demote now) ts else ts)"
    and new: "\<And>s. s \<in> set ts' \<Longrightarrow> t_ID s \<noteq> t_ID t \<and> nocase (t_Name s) \<noteq> nocase (t_Name t)"
    and t: "t_Name t \<noteq> []" "0 \<le> t_RPM t" "0 \<le> t_SuccessLimit t" "db_time (t_CreatedAt t) = t_CreatedAt t"
      "t_ID t \<noteq> []" "TrimSpace (t_ID t) = t_ID t"
  shows "tiers_ok (ts' @ [t])"
proof -
  have maps: "map t_ID ts' = map t_ID ts" "map (\<lambda>t. nocase (t_Name t)) ts' = map (\<lambda>t. nocase (t_Name t)) ts"
    by (simp_all add: ts' map_update_where)
  have "t_ID t \<notin> set (map t_ID ts')" "nocase (t_Name t) \<notin> set (map (\<lambda>t. nocase (t_Name t)) ts')"
    using new by (metis (no_types, lifting) imageE set_map)+
  moreover have "count_if t_IsDefault (ts' @ [t]) = 1"
    using ts by (simp add: ts' count_demote_all tiers_ok_def)
  moreover have "\<forall>s \<in> set ts'. t_ID s \<noteq> [] \<and> TrimSpace (t_ID s) = t_ID s \<and> t_Name s \<noteq> [] \<and> 0 \<le> t_RPM s \<and> 0 \<le> t_SuccessLimit s \<and>
      db_time (t_CreatedAt s) = t_CreatedAt s"
    using ts by (auto simp: tiers_ok_def ts' rows)
  ultimately show ?thesis using ts t maps by (simp add: tiers_ok_def del: set_map)
qed

lemma CreateTier_ok:
  assumes ok: "db_ok db" and rnd: "random_ok 16 rnd"
  shows "db_ok (snd (CreateTier rnd now name rpm successLimit isDefault db))"
proof -
  have one: "count_if t_IsDefault (tiers db) = 1" using ok by (simp add: db_ok_def tiers_ok_def)
  define ts' where "ts' = (if isDefault then update_where t_IsDefault (demote now) (tiers db) else tiers db)"
  have "db_ok (db\<lparr>tiers := ts' @ [t]\<rparr>)"
    if t: "insert_tier t (db\<lparr>tiers := ts'\<rparr>) = Inr d" "t_IsDefault t = isDefault" "t_Name t \<noteq> []"
      "0 \<le> t_RPM t" "0 \<le> t_SuccessLimit t" "db_time (t_CreatedAt t) = t_CreatedAt t" "randomID rnd = Inr (t_ID t)" for t d
  proof (rule db_ok_tiers_replace [OF ok])
    show "tiers_ok (ts' @ [t])"
      using t randomID_trimmed [OF rnd t(7)] by (intro append_tier_ok [OF db_ok_tiers [OF ok], where now = now])
        (auto simp: ts'_def insert_tier_def list_ex_iff split: if_splits)
    have "t_ID ` set ts' = t_ID ` set (tiers db)" by (simp add: ts'_def image_update_where)
    then show "u_TierID ` set (users db) \<subseteq> t_ID ` set (ts' @ [t])" using user_tiers [OF ok] by auto
  qed
  moreover have "insert_tier t d = Inr d' \<Longrightarrow> d' = d\<lparr>tiers := tiers d @ [t]\<rparr>" for t d d'
    by (simp add: insert_tier_def split: if_splits)
  moreover have "(if isDefault then db\<lparr>tiers := update_where t_IsDefault (demote now) (tiers db)\<rparr> else db) = db\<lparr>tiers := ts'\<rparr>"
    by (simp add: ts'_def)
  ultimately show ?thesis using ok
    by (auto simp: CreateTier_def Let_def snd_run_tx one split: sum.split) fastforce+
qed

definition updated_tier :: "TierUpdates \<Rightarrow> Tier \<Rightarrow> Tier" where
  "updated_tier updates t = t\<lparr>
     t_Name := case_option (t_Name t) TrimSpace (tu_Name updates),
     t_RPM := case_option (t_RPM t) id (tu_RPM updates),
     t_SuccessLimit := case_option (t_SuccessLimit t) id (tu_SuccessLimit updates),
     t_IsDefault := (t_IsDefault t \<or> tu_IsDefault updates = Some True)\<rparr>"

definition tier_updates_valid :: "TierUpdates \<Rightarrow> Tier \<Rightarrow> bool" where
  "tier_updates_valid updates t \<longleftrightarrow>
     (\<forall>n. tu_Name updates = Some n \<longrightarrow> TrimSpace n \<noteq> []) \<and>
     (\<forall>x. tu_RPM updates = Some x \<longrightarrow> 0 \<le> x) \<and> (\<forall>x. tu_SuccessLimit updates = Some x \<longrightarrow> 0 \<le> x) \<and>
     (tu_IsDefault updates = Some False \<longrightarrow> \<not> t_IsDefault t)"

lemma tier_sets_spec:
  "tier_sets t updates = Inr (sets, takesOver) \<Longrightarrow>
     tier_updates_valid updates t \<and> takesOver = (tu_IsDefault updates = Some True \<and> \<not> t_IsDefault t) \<and>
     apply_sets sets t = updated_tier updates t \<and> (length sets = 0 \<longrightarrow> \<not> takesOver \<and> updated_tier updates t = t)"
  unfolding tier_sets_def Let_def
  by (auto simp: tier_updates_valid_def apply_sets_def updated_tier_def
      split: option.splits if_splits sum.splits prod.splits bool.splits)

lemma tier_sets_error:
  "tier_sets t updates = Inl e \<Longrightarrow> \<not> tier_updates_valid updates t"
  unfolding tier_sets_def Let_def
  by (auto simp: tier_updates_valid_def not_le split: option.splits if_splits sum.splits prod.splits bool.splits)

text \<open>The table after an update that takes over, or not, as the default.\<close>

definition tiers_after :: "time \<Rightarrow> string \<Rightarrow> TierUpdates \<Rightarrow> Tier list \<Rightarrow> Tier list" where
  "tiers_after now i updates ts =
     map (\<lambda>t. if t_ID t = i then (updated_tier updates t)\<lparr>t_UpdatedAt := db_time now\<rparr>
       else if tu_IsDefault updates = Some True \<and> t_IsDefault t then demote now t else t) ts"

lemma UpdateTier_cases:
  assumes ok: "db_ok db" and upd: "UpdateTier now i updates db = (r, db')"
  obtains (error) e where "r = Inl e" "db' = db"
  | (unchanged) t where "tier_row i db = Some t" "r = Inr t" "db' = db" "updated_tier updates t = t"
      "tier_updates_valid updates t"
  | (changed) t where "tier_row i db = Some t" "tier_updates_valid updates t"
      "db' = db\<lparr>tiers := tiers_after now i updates (tiers db)\<rparr>"
      "r = Inr ((updated_tier updates t)\<lparr>t_UpdatedAt := db_time now\<rparr>)"
      "\<And>s. s \<in> set (tiers db) \<Longrightarrow> t_ID s \<noteq> i \<Longrightarrow> nocase (t_Name s) \<noteq> nocase (t_Name (updated_tier updates t))"
proof (cases "tier_row i db")
  case None
  then show ?thesis using upd that(1) by (auto simp: UpdateTier_def run_tx_def)
next
  case (Some t)
  have t: "t \<in> set (tiers db)" "t_ID t = i" using Some tier_row_Some [OF ok] by auto
  have uniq: "s = t" if "s \<in> set (tiers db)" "t_ID s = i" for s
    using tier_row_Some [OF ok] Some that by (metis option.inject)
  show ?thesis
  proof (cases "tier_sets t updates")
    case (Inl e)
    then show ?thesis using upd Some that(1) by (auto simp: UpdateTier_def run_tx_def)
  next
    case (Inr st)
    obtain sets takesOver where st: "st = (sets, takesOver)" by fastforce
    note spec = tier_sets_spec [OF Inr [unfolded st]]
    let ?f = "\<lambda>t. (apply_sets sets t)\<lparr>t_UpdatedAt := db_time now\<rparr>"
    define db1 where "db1 = (if takesOver
      then db\<lparr>tiers := update_where (\<lambda>t. t_IsDefault t \<and> t_ID t \<noteq> i) (demote now) (tiers db)\<rparr> else db)"
    show ?thesis
    proof (cases "length sets = 0")
      case True
      then have "\<not> takesOver" "updated_tier updates t = t" "tier_updates_valid updates t"
        using spec by blast+
      moreover have "UpdateTier now i updates db = (Inr t, db)"
        unfolding UpdateTier_def run_tx_def using True calculation(1) Some Inr st by simp
      ultimately show ?thesis using upd Some by (intro that(2) [of t]) simp_all
    next
      case False
      have one: "\<not> t_IsDefault s" if "t_IsDefault t" "s \<in> set (tiers db)" "t_ID s \<noteq> i" for s
      proof
        assume "t_IsDefault s"
        have "count_if t_IsDefault (delete_where (\<lambda>x. t_ID x = t_ID t) (tiers db)) = 0"
          using count_delete_key [of t_ID "tiers db" t t_IsDefault] db_ok_tiers [OF ok] t that(1)
          by (simp add: tiers_ok_def)
        then show False using \<open>t_IsDefault s\<close> that(2,3) t(2) by (auto simp: count_if_zero rows)
      qed
      have after: "update_where (\<lambda>t. t_ID t = i) ?f (tiers db1) = tiers_after now i updates (tiers db)"
        unfolding tiers_after_def update_where_def db1_def
        using spec uniq one by (auto simp: update_where_def)
      have fnd: "find (\<lambda>x. t_ID x = i) (map (\<lambda>t. if t_ID t = i then g t else h t) ts) =
          map_option g (find (\<lambda>x. t_ID x = i) ts)"
        if "\<And>x. t_ID (g x) = t_ID x" "\<And>x. t_ID (h x) = t_ID x" for g h and ts :: "Tier list"
        using that by (induction ts) auto
      have row: "tier_row i (db\<lparr>tiers := tiers_after now i updates (tiers db)\<rparr>) =
          Some ((updated_tier updates t)\<lparr>t_UpdatedAt := db_time now\<rparr>)"
        using Some unfolding tier_row_def tiers_after_def
        by (simp add: fnd updated_tier_def)
      show ?thesis
      proof (cases "update_tier i ?f db1")
        case ut: (Inl e)
        then show ?thesis using upd Some Inr st False that(1)
          by (auto simp: UpdateTier_def run_tx_def db1_def [symmetric])
      next
        case ut: (Inr db2)
        have db2: "db2 = db\<lparr>tiers := tiers_after now i updates (tiers db)\<rparr>"
          using ut after by (auto simp: update_tier_def db1_def split: if_splits)
        have names: "nocase (t_Name s) \<noteq> nocase (t_Name (updated_tier updates t))"
          if s: "s \<in> set (tiers db)" "t_ID s \<noteq> i" for s
        proof -
          let ?s = "if takesOver \<and> t_IsDefault s then demote now s else s"
          have "?s \<in> set (tiers db1)" "t_ID ?s \<noteq> i" using s by (auto simp: db1_def rows)
          moreover have "t \<in> set (tiers db1)" using t spec by (auto simp: db1_def rows)
          ultimately have "nocase (t_Name ?s) \<noteq> nocase (t_Name (?f t))"
            using ut t(2) unfolding update_tier_def by (fastforce simp: list_ex_iff split: if_splits)
          then show ?thesis using spec by (simp split: if_splits)
        qed
        have "UpdateTier now i updates db = (Inr ((updated_tier updates t)\<lparr>t_UpdatedAt := db_time now\<rparr>), db2)"
          unfolding UpdateTier_def run_tx_def using Some Inr st False ut row
          by (simp add: db1_def [symmetric] db2)
        then show ?thesis using upd db2 spec by (intro that(3) [OF Some _ _ _ names]) simp_all
      qed
    qed
  qed
qed

lemma count_tiers_after:
  assumes "distinct (map t_ID ts)" "t \<in> set ts" "t_ID t = i" "count_if t_IsDefault ts = 1"
  shows "count_if t_IsDefault (tiers_after now i updates ts) = 1"
proof (cases "tu_IsDefault updates = Some True")
  case True
  then have "count_if t_IsDefault (tiers_after now i updates ts) = count_if (\<lambda>t. t_ID t = i) ts"
    unfolding tiers_after_def by (induction ts) (auto simp: updated_tier_def)
  also have "\<dots> = 1" using assms(1-3)
  proof (induction ts)
    case (Cons a ts)
    show ?case
    proof (cases "t_ID a = i")
      case True
      then have "count_if (\<lambda>t. t_ID t = i) ts = 0"
        using fresh_key [OF Cons.prems(1)] by (auto simp: count_if_zero)
      with True show ?thesis by simp
    qed (use Cons in auto)
  qed simp
  finally show ?thesis .
next
  case False
  then have "count_if t_IsDefault (tiers_after now i updates ts) = count_if t_IsDefault ts"
    unfolding tiers_after_def by (induction ts) (auto simp: updated_tier_def)
  then show ?thesis using assms(4) by simp
qed

lemma UpdateTier_ok:
  assumes ok: "db_ok db"
  shows "db_ok (snd (UpdateTier now i updates db))"
proof -
  obtain r db' where upd: "UpdateTier now i updates db = (r, db')" by fastforce
  from ok upd show ?thesis
  proof (cases rule: UpdateTier_cases)
    case (changed t)
    let ?ts = "tiers_after now i updates (tiers db)"
    have ts: "tiers_ok (tiers db)" using db_ok_tiers [OF ok] .
    have t: "t \<in> set (tiers db)" "t_ID t = i" using changed(1) tier_row_Some [OF ok] by auto
    have uniq: "s = t" if "s \<in> set (tiers db)" "t_ID s = i" for s
      using tier_row_Some [OF ok] changed(1) that by (metis option.inject)
    have ids: "map t_ID ?ts = map t_ID (tiers db)" by (simp add: tiers_after_def updated_tier_def)
    have names: "distinct (map (\<lambda>t. nocase (t_Name t)) ?ts)"
    proof -
      have nm: "map (\<lambda>t. nocase (t_Name t)) ?ts =
          map (\<lambda>s. if s = t then nocase (t_Name (updated_tier updates t)) else nocase (t_Name s)) (tiers db)"
      proof -
        have "(t_ID s = i) = (s = t)" if "s \<in> set (tiers db)" for s using uniq [OF that] t(2) by blast
        then show ?thesis unfolding tiers_after_def map_map by (intro map_cong) simp_all
      qed
      have "distinct (map (\<lambda>t. nocase (t_Name t)) (tiers db))" using ts by (simp add: tiers_ok_def)
      moreover have "s \<in> set (tiers db) \<Longrightarrow> s \<noteq> t \<Longrightarrow>
          nocase (t_Name s) \<noteq> nocase (t_Name (updated_tier updates t))" for s
        using changed(5) uniq by blast
      ultimately show ?thesis unfolding nm by (rule distinct_map_change)
    qed
    have each: "\<forall>s \<in> set ?ts. t_ID s \<noteq> [] \<and> TrimSpace (t_ID s) = t_ID s \<and> t_Name s \<noteq> [] \<and> 0 \<le> t_RPM s \<and> 0 \<le> t_SuccessLimit s \<and>
        db_time (t_CreatedAt s) = t_CreatedAt s"
      using ts changed(2)
      by (auto simp: tiers_after_def tiers_ok_def tier_updates_valid_def updated_tier_def split: option.splits)
    have "count_if t_IsDefault ?ts = 1"
      using count_tiers_after [OF _ t] ts by (simp add: tiers_ok_def)
    then have "tiers_ok ?ts" using names each ids ts by (simp add: tiers_ok_def)
    moreover have "t_ID ` set ?ts = t_ID ` set (tiers db)" using ids by (metis set_map)
    ultimately show ?thesis using db_ok_tiers_replace [OF ok] user_tiers [OF ok] by (simp add: upd changed(3))
  qed (use ok upd in auto)
qed

text \<open>Deleting a tier: what it does when it succeeds, and that nothing but the two guards fails.\<close>

definition moved_user :: "time \<Rightarrow> string \<Rightarrow> string \<Rightarrow> User \<Rightarrow> User" where
  "moved_user now i d u = (if u_TierID u = i then u\<lparr>u_TierID := d, u_UpdatedAt := db_time now\<rparr> else u)"

lemma DeleteTier_cases:
  assumes ok: "db_ok db"
  obtains (missing) "tier_row i db = None" "DeleteTier now i db = (Inl ErrTierNotFound, db)"
  | (protected) t where "tier_row i db = Some t" "t_IsDefault t" "DeleteTier now i db = (Inl ErrDefaultTierProtected, db)"
  | (deleted) t d where "tier_row i db = Some t" "\<not> t_IsDefault t" "default_tier db = Some d" "t_ID d \<noteq> i"
      "t_IsDefault d" "d \<in> set (tiers db)"
      "DeleteTier now i db = (Inr (), db\<lparr>users := map (moved_user now i (t_ID d)) (users db),
         tiers := delete_where (\<lambda>t. t_ID t = i) (tiers db)\<rparr>)"
proof (cases "tier_row i db")
  case None
  then show ?thesis using that(1) by (simp add: DeleteTier_def run_tx_def)
next
  case (Some t)
  show ?thesis
  proof (cases "t_IsDefault t")
    case True
    then show ?thesis using that(2) Some by (simp add: DeleteTier_def run_tx_def)
  next
    case False
    obtain d where d: "default_tier db = Some d" "d \<in> set (tiers db)" "t_IsDefault d"
      using default_tier_exists [OF ok] by blast
    have t: "t \<in> set (tiers db)" "t_ID t = i" using Some tier_row_Some [OF ok] by auto
    have ne: "t_ID d \<noteq> i"
      using False Some tier_row_Some [OF ok] d(2,3) by (metis option.inject)
    have us: "update_where (\<lambda>u. u_TierID u = i) (\<lambda>u. u\<lparr>u_TierID := t_ID d, u_UpdatedAt := db_time now\<rparr>) (users db) =
        map (moved_user now i (t_ID d)) (users db)"
      by (simp add: update_where_def moved_user_def)
    have "\<not> list_ex (\<lambda>u. u_TierID u = i) (map (moved_user now i (t_ID d)) (users db))"
      using ne by (auto simp: list_ex_iff moved_user_def)
    moreover have "rows_affected (\<lambda>t. t_ID t = i) (tiers db) \<noteq> 0"
      using t by (auto simp: rows_affected_def count_if_zero)
    ultimately show ?thesis using that(3) Some False d ne
      by (simp add: DeleteTier_def run_tx_def Let_def us)
  qed
qed

lemma DeleteTier_ok:
  assumes ok: "db_ok db"
  shows "db_ok (snd (DeleteTier now i db))"
  using ok
proof (cases rule: DeleteTier_cases [where i = i and now = now])
  case (deleted t d)
  let ?us = "map (moved_user now i (t_ID d)) (users db)" and ?ts = "delete_where (\<lambda>t. t_ID t = i) (tiers db)"
  have f: "moved_user now i (t_ID d) = (\<lambda>u. if u_TierID u = i
      then u\<lparr>u_TierID := t_ID d, u_UpdatedAt := db_time now\<rparr> else u)"
    by (rule ext) (simp add: moved_user_def)
  have us: "db_ok (db\<lparr>users := ?us\<rparr>)"
  proof -
    have "db_ok (db\<lparr>users := update_where (\<lambda>u. u_TierID u = i)
        (\<lambda>u. u\<lparr>u_TierID := t_ID d, u_UpdatedAt := db_time now\<rparr>) (users db)\<rparr>)"
    proof (rule update_users_ok [OF ok])
      fix u assume u: "u \<in> set (users db)"
      then show "u_Role (u\<lparr>u_TierID := t_ID d, u_UpdatedAt := db_time now\<rparr>) \<in> {RoleAdmin, RoleUser} \<and>
        u_TierID (u\<lparr>u_TierID := t_ID d, u_UpdatedAt := db_time now\<rparr>) \<in> t_ID ` set (tiers db) \<and>
        0 \<le> u_SuccessCalls (u\<lparr>u_TierID := t_ID d, u_UpdatedAt := db_time now\<rparr>) \<and>
        0 \<le> u_TokenVersion (u\<lparr>u_TierID := t_ID d, u_UpdatedAt := db_time now\<rparr>) \<and>
        user_quota_ok (u\<lparr>u_TierID := t_ID d, u_UpdatedAt := db_time now\<rparr>) (reservations db)"
        using db_ok_users [OF ok] db_ok_quota [OF ok] deleted(6)
          user_quota_ok_cong [of "u\<lparr>u_TierID := t_ID d, u_UpdatedAt := db_time now\<rparr>" u]
        by (auto simp: users_ok_def quota_ok_def)
    qed simp_all
    then show ?thesis by (simp add: f update_where_def)
  qed
  have "count_if t_IsDefault ?ts = 1"
    using count_delete_key [of t_ID "tiers db" t t_IsDefault] deleted(1,2) tier_row_Some [OF ok, of i t] db_ok_tiers [OF ok]
    by (simp add: tiers_ok_def)
  then have "tiers_ok ?ts"
    using db_ok_tiers [OF ok] by (auto simp: tiers_ok_def rows intro: distinct_delete_where)
  moreover have "u_TierID ` set ?us \<subseteq> t_ID ` set ?ts"
  proof
    fix x assume "x \<in> u_TierID ` set ?us"
    then obtain u where u: "u \<in> set (users db)" "x = u_TierID (moved_user now i (t_ID d) u)" by auto
    show "x \<in> t_ID ` set ?ts"
    proof (cases "u_TierID u = i")
      case True
      then show ?thesis using u deleted(4,6) by (auto simp: rows moved_user_def)
    next
      case False
      moreover obtain s where "s \<in> set (tiers db)" "u_TierID u = t_ID s" using user_tiers [OF ok] u(1) by auto
      ultimately show ?thesis using u(2) by (auto simp: rows moved_user_def)
    qed
  qed
  ultimately show ?thesis using db_ok_tiers_replace [OF us] by (simp add: deleted(7))
qed (use ok in auto)

section \<open>Properties\<close>

text \<open>
  Deleting a tier never strands a user. In a consistent database \<open>DeleteTier\<close> fails only when
  the tier does not exist or is the default one, and then changes nothing; otherwise the tier is
  gone, exactly its users have moved to the default tier, every other user is untouched, and the
  database is consistent again. The error paths for a missing default tier and for a violated
  foreign key are unreachable.
\<close>

theorem delete_tier_migrates:
  assumes ok: "db_ok db"
  shows "case DeleteTier now i db of
      (Inl e, db') \<Rightarrow> db' = db \<and> (e = ErrTierNotFound \<and> tier_row i db = None \<or>
        e = ErrDefaultTierProtected \<and> (\<exists>t. tier_row i db = Some t \<and> t_IsDefault t))
    | (Inr _, db') \<Rightarrow> tier_row i db' = None \<and> db_ok db' \<and>
        (\<exists>d. default_tier db = Some d \<and> default_tier db' = Some d \<and>
          (\<forall>j. user_row j db' = map_option (moved_user now i (t_ID d)) (user_row j db)))"
  using ok
proof (cases rule: DeleteTier_cases [where i = i and now = now])
  case (deleted t d)
  let ?db' = "db\<lparr>users := map (moved_user now i (t_ID d)) (users db),
      tiers := delete_where (\<lambda>t. t_ID t = i) (tiers db)\<rparr>"
  have "find (\<lambda>u. u_ID u = j) (map (moved_user now i (t_ID d)) us) =
      map_option (moved_user now i (t_ID d)) (find (\<lambda>u. u_ID u = j) us)" for j us
    by (induction us) (auto simp: moved_user_def)
  then have users: "user_row j ?db' = map_option (moved_user now i (t_ID d)) (user_row j db)" for j
    by (simp add: user_row_def)
  have gone: "tier_row i ?db' = None" by (auto simp: tier_row_None rows)
  have "find t_IsDefault (delete_where (\<lambda>t. t_ID t = i) ts) = Some d"
    if "find t_IsDefault ts = Some d" "\<And>x. x \<in> set ts \<Longrightarrow> t_ID x = i \<Longrightarrow> \<not> t_IsDefault x" for ts
    using that by (induction ts) (auto simp: delete_where_def split: if_splits)
  moreover have "\<not> t_IsDefault x" if "x \<in> set (tiers db)" "t_ID x = i" for x
    using deleted(1,2) tier_row_Some [OF ok] that by (metis option.inject)
  ultimately have "default_tier ?db' = Some d" using deleted(3) by (simp add: default_tier_def)
  moreover have "db_ok ?db'" using DeleteTier_ok [OF ok, of now i] by (simp add: deleted(7))
  ultimately show ?thesis using deleted(3,7) users gone by simp
qed simp_all

theorem delete_tier_migrates_witness:
  "(case DeleteTier demo_time ''t1'' demo_db of (Inr _, db') \<Rightarrow> tier_row ''t1'' db' = None \<and> db_ok db' | _ \<Rightarrow> False) \<and>
   DeleteTier demo_time ''t0'' demo_db = (Inl ErrDefaultTierProtected, demo_db)"
proof -
  have "case fst (DeleteTier demo_time ''t1'' demo_db) of Inr _ \<Rightarrow> True | Inl _ \<Rightarrow> False" by code_simp
  moreover have "fst (DeleteTier demo_time ''t0'' demo_db) = Inl ErrDefaultTierProtected" by code_simp
  ultimately show ?thesis
    using delete_tier_migrates [OF demo_db_ok, where now = demo_time and i = "''t1''"]
      delete_tier_migrates [OF demo_db_ok, where now = demo_time and i = "''t0''"]
    by (auto split: prod.splits sum.splits)
qed

text \<open>
  Handing over the default. After a successful update that asks for it, the tier is the
  default one and no other tier is; an update that does not ask for it leaves the default where it
  was. No update can leave the system without a default tier or with two.
\<close>

theorem update_tier_default:
  assumes ok: "db_ok db" and upd: "UpdateTier now i updates db = (Inr t', db')"
  shows "\<exists>d d'. default_tier db = Some d \<and> default_tier db' = Some d' \<and>
    t_ID d' = (if tu_IsDefault updates = Some True then i else t_ID d) \<and>
    (\<forall>t \<in> set (tiers db'). t_IsDefault t \<longrightarrow> t = d')"
proof -
  have ok': "db_ok db'" using UpdateTier_ok [OF ok, of now i updates] upd by simp
  have single: "s = t" if d: "db_ok x" and "s \<in> set (tiers x)" "t \<in> set (tiers x)" "t_IsDefault s" "t_IsDefault t" for s t x
  proof (rule ccontr)
    assume "s \<noteq> t"
    have dist: "distinct (map t_ID (tiers x))" "count_if t_IsDefault (tiers x) = 1"
      using d by (simp_all add: db_ok_def tiers_ok_def)
    have "t_ID s \<noteq> t_ID t" using \<open>s \<noteq> t\<close> that(2,3) dist(1) by (auto simp: distinct_map dest: inj_onD)
    then have "0 < count_if t_IsDefault (delete_where (\<lambda>y. t_ID y = t_ID s) (tiers x))"
      using that(3,5) by (auto simp: count_if_pos rows)
    then show False using count_delete_key [OF dist(1) that(2), of t_IsDefault] that(4) dist(2) by simp
  qed
  obtain d where d: "default_tier db = Some d" "d \<in> set (tiers db)" "t_IsDefault d"
    using default_tier_exists [OF ok] by blast
  obtain d' where d': "default_tier db' = Some d'" "d' \<in> set (tiers db')" "t_IsDefault d'"
    using default_tier_exists [OF ok'] by blast
  have "t_ID d' = (if tu_IsDefault updates = Some True then i else t_ID d)"
    using ok upd
  proof (cases rule: UpdateTier_cases)
    case (unchanged t)
    have "t_IsDefault t" if "tu_IsDefault updates = Some True"
      using arg_cong [OF unchanged(4), of t_IsDefault] that by (simp add: updated_tier_def)
    then show ?thesis
      using unchanged(1,3) d d' single [OF ok] tier_row_Some [OF ok, of i t] by (cases "tu_IsDefault updates = Some True") auto
  next
    case (changed t)
    obtain s where s: "s \<in> set (tiers db)" "d' = (if t_ID s = i then (updated_tier updates s)\<lparr>t_UpdatedAt := db_time now\<rparr>
        else if tu_IsDefault updates = Some True \<and> t_IsDefault s then demote now s else s)"
      using d'(2) by (auto simp: changed(3) tiers_after_def)
    then have "t_ID d' = t_ID s" by (simp add: updated_tier_def)
    moreover have "t_ID s = i" if "tu_IsDefault updates = Some True"
      using s(2) d'(3) that by (auto split: if_splits)
    moreover have "s = d" if "tu_IsDefault updates \<noteq> Some True"
      using s d'(3) that single [OF ok, of s d] d(2,3) by (auto simp: updated_tier_def split: if_splits)
    ultimately show ?thesis by auto
  qed simp
  then show ?thesis using d(1) d' single [OF ok'] by auto
qed

definition demo_tier_updates :: TierUpdates where
  "demo_tier_updates = \<lparr>tu_Name = None, tu_RPM = None, tu_SuccessLimit = None, tu_IsDefault = Some True\<rparr>"

theorem update_tier_default_witness:
  "\<exists>d. default_tier (snd (UpdateTier demo_time ''t1'' demo_tier_updates demo_db)) = Some d \<and> t_ID d = ''t1''"
proof -
  have "case fst (UpdateTier demo_time ''t1'' demo_tier_updates demo_db) of Inr _ \<Rightarrow> True | Inl _ \<Rightarrow> False"
    by code_simp
  then obtain t' db' where "UpdateTier demo_time ''t1'' demo_tier_updates demo_db = (Inr t', db')"
    by (cases "UpdateTier demo_time ''t1'' demo_tier_updates demo_db") (auto split: sum.splits)
  then show ?thesis using update_tier_default [OF demo_db_ok, of demo_time "''t1''" demo_tier_updates t' db']
    by (auto simp: demo_tier_updates_def)
qed

end
