(* ===== verification/Store_Usage.thy ===== *)
theory Store_Usage
  imports Store_Keys
begin

text \<open>
  Usage accounting: \<open>internal/store/sqlite_usage_write.go\<close> (a batch of usage records and the
  counters of their keys in one transaction), the debug rows of \<open>sqlite_debug.go\<close> that follow it, and
  the retention work of \<open>usage_maintenance.go\<close>, which moves raw rows into hourly rollups and hourly
  rollups into daily ones. Spooled debug bodies are read through the parameter \<open>spool\<close>, the contents
  of a file or its read error; the WAL checkpoints have no effect on the data.
\<close>

section \<open>Recording a batch\<close>

record UsageRecord =
  rec_KeyID :: string
  rec_ToolName :: string
  rec_Timestamp :: time
  rec_DurationMs :: int
  rec_Success :: bool
  rec_DebugJSON :: string
  rec_RequestObservedBytes :: int
  rec_ResponseObservedBytes :: int
  rec_RequestTruncated :: bool
  rec_ResponseTruncated :: bool
  rec_RequestBodyPath :: string
  rec_ResponseBodyPath :: string

record apiKeyUsageUpdate =
  up_callCount :: int
  up_latestTimestamp :: "time option"

definition insert_usage :: "UsageRecord \<Rightarrow> DB \<Rightarrow> store_error + int \<times> DB" where
  "insert_usage r db =
     (if key_row (rec_KeyID r) db = None then Inl (StoreErrorf ''insert usage record'')
      else let i = usage_seq db + 1
        in Inr (i, db\<lparr>usage_log := usage_log db @ [\<lparr>ur_ID = i, ur_KeyID = rec_KeyID r,
             ur_ToolName = rec_ToolName r, ur_Timestamp = db_time (rec_Timestamp r),
             ur_DurationMs = rec_DurationMs r, ur_Success = rec_Success r\<rparr>], usage_seq := i\<rparr>))"

definition note_key_update ::
  "UsageRecord \<Rightarrow> (string, apiKeyUsageUpdate) gomap \<Rightarrow> (string, apiKeyUsageUpdate) gomap" where
  "note_key_update r keyUpdates =
     (let usageTimestamp = db_time (rec_Timestamp r);
          old = (case lookup keyUpdates (rec_KeyID r) of
            Some u \<Rightarrow> u | None \<Rightarrow> \<lparr>up_callCount = 0, up_latestTimestamp = None\<rparr>)
      in AList.update (rec_KeyID r)
           \<lparr>up_callCount = up_callCount old + 1,
            up_latestTimestamp = (case up_latestTimestamp old of
              None \<Rightarrow> Some usageTimestamp
            | Some t \<Rightarrow> if t < usageTimestamp then Some usageTimestamp else Some t)\<rparr> keyUpdates)"

fun insert_usage_loop ::
  "UsageRecord list \<Rightarrow> (int \<times> UsageRecord) list \<Rightarrow> (string, apiKeyUsageUpdate) gomap \<Rightarrow> DB \<Rightarrow>
     store_error + ((int \<times> UsageRecord) list \<times> (string, apiKeyUsageUpdate) gomap) \<times> DB" where
  "insert_usage_loop [] persisted keyUpdates db = Inr ((persisted, keyUpdates), db)"
| "insert_usage_loop (r # rs) persisted keyUpdates db =
     (case insert_usage r db of
        Inl e \<Rightarrow> Inl e
      | Inr (i, db') \<Rightarrow> insert_usage_loop rs (persisted @ [(i, r)]) (note_key_update r keyUpdates) db')"

definition apply_key_update :: "apiKeyUsageUpdate \<Rightarrow> APIKey \<Rightarrow> APIKey" where
  "apply_key_update u k = k\<lparr>
     k_LastUsedAt := (case (k_LastUsedAt k, up_latestTimestamp u) of
        (None, l) \<Rightarrow> l
      | (Some t, Some l) \<Rightarrow> if t < l then Some l else Some t
      | (Some t, None) \<Rightarrow> Some t),
     k_TotalCalls := k_TotalCalls k + up_callCount u\<rparr>"

fun updateAPIKeyUsageBatch :: "(string, apiKeyUsageUpdate) gomap \<Rightarrow> DB \<Rightarrow> DB" where
  "updateAPIKeyUsageBatch [] db = db"
| "updateAPIKeyUsageBatch ((keyID, u) # rest) db =
     updateAPIKeyUsageBatch rest
       (db\<lparr>apikeys := update_where (\<lambda>k. k_ID k = keyID) (apply_key_update u) (apikeys db)\<rparr>)"

definition persistPrimaryUsageBatch ::
  "UsageRecord list \<Rightarrow> DB \<Rightarrow> (store_error + (int \<times> UsageRecord) list) \<times> DB" where
  "persistPrimaryUsageBatch records = run_tx (\<lambda>db.
     case insert_usage_loop records [] [] db of
       Inl e \<Rightarrow> Inl e
     | Inr ((persisted, keyUpdates), db') \<Rightarrow> Inr (persisted, updateAPIKeyUsageBatch keyUpdates db'))"

section \<open>Debug rows\<close>

definition maxPersistedDebugBodyBytes :: nat where
  "maxPersistedDebugBodyBytes = 1048576"

definition readBoundedDebugBody :: "(string \<Rightarrow> string option) \<Rightarrow> string \<Rightarrow> (string \<times> int \<times> bool) option" where
  "readBoundedDebugBody spool path =
     (if TrimSpace path = [] then Some ([], 0, False)
      else map_option (\<lambda>body. (take maxPersistedDebugBodyBytes body, int (length body),
             maxPersistedDebugBodyBytes < length body)) (spool path))"

definition prepareUsageDebugRecord ::
  "(string \<Rightarrow> string option) \<Rightarrow> time \<Rightarrow> int \<times> UsageRecord \<Rightarrow> debug_row option option" where
  "prepareUsageDebugRecord spool now p =
     (case p of (usageID, r) \<Rightarrow>
        if TrimSpace (rec_DebugJSON r) = [] \<and> TrimSpace (rec_RequestBodyPath r) = [] \<and>
           TrimSpace (rec_ResponseBodyPath r) = [] then Some None
        else case readBoundedDebugBody spool (rec_RequestBodyPath r) of
            None \<Rightarrow> None
          | Some (requestBody, requestSpoolBytes, requestCut) \<Rightarrow>
              (case readBoundedDebugBody spool (rec_ResponseBodyPath r) of
                 None \<Rightarrow> None
               | Some (responseBody, responseSpoolBytes, responseCut) \<Rightarrow>
                   Some (Some \<lparr>dr_UsageID = usageID, dr_KeyID = rec_KeyID r,
                     dr_UsageTimestamp = db_time (rec_Timestamp r), dr_DebugJSON = rec_DebugJSON r,
                     dr_RequestBody = requestBody, dr_ResponseBody = responseBody,
                     dr_RequestObservedBytes = max (rec_RequestObservedBytes r) requestSpoolBytes,
                     dr_ResponseObservedBytes = max (rec_ResponseObservedBytes r) responseSpoolBytes,
                     dr_RequestTruncated = (rec_RequestTruncated r \<or> requestCut),
                     dr_ResponseTruncated = (rec_ResponseTruncated r \<or> responseCut),
                     dr_CreatedAt = db_time now\<rparr>)))"

definition upsert_debug :: "debug_row \<Rightarrow> debug_row list \<Rightarrow> debug_row list" where
  "upsert_debug r rs =
     (if list_ex (\<lambda>x. dr_UsageID x = dr_UsageID r) rs
      then update_where (\<lambda>x. dr_UsageID x = dr_UsageID r) (\<lambda>_. r) rs else rs @ [r])"

text \<open>
  The debug batch after the primary commit. A body that cannot be read drops the whole debug batch;
  rows of keys deleted meanwhile are skipped. Its failure is only logged.
\<close>

definition persistUsageDebugRecords ::
  "(string \<Rightarrow> string option) \<Rightarrow> time \<Rightarrow> (int \<times> UsageRecord) list \<Rightarrow> DB \<Rightarrow> DB" where
  "persistUsageDebugRecords spool now persisted db =
     (let prepared = map (prepareUsageDebugRecord spool now) persisted
      in if None \<in> set prepared then db
         else
           let rows = concat (map (\<lambda>p. case p of Some (Some r) \<Rightarrow> [r] | _ \<Rightarrow> []) prepared);
               existing = filter (\<lambda>r. key_row (dr_KeyID r) db \<noteq> None) rows
           in db\<lparr>usage_debug := fold upsert_debug existing (usage_debug db)\<rparr>)"

definition RecordUsageBatch ::
  "(string \<Rightarrow> string option) \<Rightarrow> bool \<Rightarrow> time \<Rightarrow> UsageRecord list \<Rightarrow> DB \<Rightarrow> (store_error + unit) \<times> DB" where
  "RecordUsageBatch spool debugOk now records db =
     (if records = [] then (Inr (), db)
      else case persistPrimaryUsageBatch records db of
          (Inl e, db') \<Rightarrow> (Inl e, db')
        | (Inr persisted, db') \<Rightarrow>
            (Inr (), if debugOk then persistUsageDebugRecords spool now persisted db' else db'))"

definition RecordUsage ::
  "(string \<Rightarrow> string option) \<Rightarrow> bool \<Rightarrow> time \<Rightarrow> UsageRecord \<Rightarrow> DB \<Rightarrow> (store_error + unit) \<times> DB" where
  "RecordUsage spool debugOk now r = RecordUsageBatch spool debugOk now [r]"

section \<open>Retention\<close>

record UsageRetentionPolicy =
  RawRetention :: duration
  HourlyRetention :: duration
  DailyRetention :: duration

definition policy_Validate :: "UsageRetentionPolicy \<Rightarrow> store_error option" where
  "policy_Validate policy =
     (if RawRetention policy \<le> 0 then Some (StoreErrorf ''raw usage retention must be positive'')
      else if HourlyRetention policy \<le> RawRetention policy
      then Some (StoreErrorf ''hourly usage retention must exceed raw usage retention'')
      else if DailyRetention policy \<le> HourlyRetention policy
      then Some (StoreErrorf ''daily usage retention must exceed hourly usage retention'')
      else None)"

definition Day :: duration where
  "Day = 24 * Hour"

text \<open>\<open>Truncate\<close> counts from the year 1, a whole number of days before 1970.\<close>

definition truncate_to :: "duration \<Rightarrow> time \<Rightarrow> time" where
  "truncate_to d t = t div d * d"

definition min_before :: "time option \<Rightarrow> time \<Rightarrow> time list \<Rightarrow> time option" where
  "min_before searchStart cutoff ts =
     (let xs = filter (\<lambda>t. (case searchStart of None \<Rightarrow> True | Some s \<Rightarrow> db_time s \<le> t) \<and> t < db_time cutoff) ts
      in if xs = [] then None else Some (foldr min xs (hd xs)))"

definition findNextRawUsageHour :: "time option \<Rightarrow> time \<Rightarrow> DB \<Rightarrow> time option" where
  "findNextRawUsageHour searchStart cutoff db =
     map_option (truncate_to Hour) (min_before searchStart cutoff (map ur_Timestamp (usage_log db)))"

definition findNextHourlyUsageDay :: "time option \<Rightarrow> time \<Rightarrow> DB \<Rightarrow> time option" where
  "findNextHourlyUsageDay searchStart cutoff db =
     map_option (truncate_to Day) (min_before searchStart cutoff (map ro_BucketStart (hourly_rollups db)))"

definition findNextExpiredDailyUsageDay :: "time option \<Rightarrow> time \<Rightarrow> DB \<Rightarrow> time option" where
  "findNextExpiredDailyUsageDay searchStart cutoff db =
     map_option (truncate_to Day) (min_before searchStart cutoff (map ro_BucketStart (daily_rollups db)))"

text \<open>\<open>INSERT .. ON CONFLICT DO UPDATE\<close> of one rollup row.\<close>

definition upsert_rollup :: "rollup_row \<Rightarrow> rollup_row list \<Rightarrow> rollup_row list" where
  "upsert_rollup r rs =
     (let same = (\<lambda>x. ro_KeyID x = ro_KeyID r \<and> ro_BucketStart x = ro_BucketStart r \<and> ro_ToolName x = ro_ToolName r)
      in if list_ex same rs
         then update_where same (\<lambda>x. x\<lparr>ro_TotalCalls := ro_TotalCalls x + ro_TotalCalls r,
                ro_SuccessCalls := ro_SuccessCalls x + ro_SuccessCalls r,
                ro_DurationMsTotal := ro_DurationMsTotal x + ro_DurationMsTotal r\<rparr>) rs
         else rs @ [r])"

definition raw_group :: "time \<Rightarrow> usage_row list \<Rightarrow> string \<times> string \<Rightarrow> rollup_row" where
  "raw_group bucketStart rs g =
     (let xs = filter (\<lambda>r. (ur_KeyID r, ur_ToolName r) = g) rs
      in \<lparr>ro_KeyID = fst g, ro_BucketStart = bucketStart, ro_ToolName = snd g,
          ro_TotalCalls = int (length xs), ro_SuccessCalls = (\<Sum>r\<leftarrow>xs. if ur_Success r then 1 else 0),
          ro_DurationMsTotal = (\<Sum>r\<leftarrow>xs. ur_DurationMs r)\<rparr>)"

definition hourly_group :: "time \<Rightarrow> rollup_row list \<Rightarrow> string \<times> string \<Rightarrow> rollup_row" where
  "hourly_group bucketStart rs g =
     (let xs = filter (\<lambda>r. (ro_KeyID r, ro_ToolName r) = g) rs
      in \<lparr>ro_KeyID = fst g, ro_BucketStart = bucketStart, ro_ToolName = snd g,
          ro_TotalCalls = (\<Sum>r\<leftarrow>xs. ro_TotalCalls r), ro_SuccessCalls = (\<Sum>r\<leftarrow>xs. ro_SuccessCalls r),
          ro_DurationMsTotal = (\<Sum>r\<leftarrow>xs. ro_DurationMsTotal r)\<rparr>)"

definition in_bucket :: "time \<Rightarrow> duration \<Rightarrow> time \<Rightarrow> bool" where
  "in_bucket bucketStart d t \<longleftrightarrow> bucketStart \<le> t \<and> t < bucketStart + d"

definition compactRawUsageHour :: "time \<Rightarrow> DB \<Rightarrow> int \<times> DB" where
  "compactRawUsageHour bucketStart db =
     (let old = filter (\<lambda>r. in_bucket bucketStart Hour (ur_Timestamp r)) (usage_log db);
          groups = remdups (map (\<lambda>r. (ur_KeyID r, ur_ToolName r)) old)
      in (int (length old),
          db\<lparr>hourly_rollups := fold (\<lambda>g. upsert_rollup (raw_group bucketStart old g)) groups (hourly_rollups db),
             usage_log := delete_where (\<lambda>r. in_bucket bucketStart Hour (ur_Timestamp r)) (usage_log db)\<rparr>))"

definition compactHourlyUsageDay :: "time \<Rightarrow> DB \<Rightarrow> int \<times> DB" where
  "compactHourlyUsageDay bucketStart db =
     (let old = filter (\<lambda>r. in_bucket bucketStart Day (ro_BucketStart r)) (hourly_rollups db);
          groups = remdups (map (\<lambda>r. (ro_KeyID r, ro_ToolName r)) old)
      in (int (length old),
          db\<lparr>daily_rollups := fold (\<lambda>g. upsert_rollup (hourly_group bucketStart old g)) groups (daily_rollups db),
             hourly_rollups := delete_where (\<lambda>r. in_bucket bucketStart Day (ro_BucketStart r)) (hourly_rollups db)\<rparr>))"

definition deleteDailyUsageDay :: "time \<Rightarrow> DB \<Rightarrow> int \<times> DB" where
  "deleteDailyUsageDay bucketStart db =
     (rows_affected (\<lambda>r. in_bucket bucketStart Day (ro_BucketStart r)) (daily_rollups db),
      db\<lparr>daily_rollups := delete_where (\<lambda>r. in_bucket bucketStart Day (ro_BucketStart r)) (daily_rollups db)\<rparr>)"

text \<open>
  The three loops end because each round removes at least the row it found; that is the content of
  the termination proofs.
\<close>

lemma foldr_min_in: "foldr min xs m \<in> insert m (set xs)" for m :: "'a::linorder"
  by (induction xs) (auto simp: min_def)

lemma foldr_min_le: "x \<in> set xs \<Longrightarrow> foldr min xs m \<le> x" for m :: "'a::linorder"
  by (induction xs) (auto simp: min.coboundedI2)

lemma min_before_Some:
  assumes "min_before searchStart cutoff ts = Some m"
  shows "m \<in> set ts" "m < db_time cutoff"
  using assms foldr_min_in [of "filter (\<lambda>t. (case searchStart of None \<Rightarrow> True | Some s \<Rightarrow> db_time s \<le> t) \<and> t < db_time cutoff) ts"
      "hd (filter (\<lambda>t. (case searchStart of None \<Rightarrow> True | Some s \<Rightarrow> db_time s \<le> t) \<and> t < db_time cutoff) ts)"]
    hd_in_set [of "filter (\<lambda>t. (case searchStart of None \<Rightarrow> True | Some s \<Rightarrow> db_time s \<le> t) \<and> t < db_time cutoff) ts"]
  by (auto simp: min_before_def Let_def split: if_splits)

lemma min_before_None:
  "min_before searchStart cutoff ts = None \<Longrightarrow> t \<in> set ts \<Longrightarrow>
     (case searchStart of None \<Rightarrow> True | Some s \<Rightarrow> db_time s \<le> t) \<Longrightarrow> db_time cutoff \<le> t"
  by (auto simp: min_before_def Let_def filter_empty_conv not_less split: if_splits)

lemma duration_pos: "0 < Second" "0 < Minute" "0 < Hour" "0 < Day"
  by (simp_all add: duration_defs Day_def)

lemma in_bucket_truncate:
  assumes "0 < d"
  shows "in_bucket (truncate_to d t) d t"
  using pos_mod_bound [OF assms, of t] pos_mod_sign [OF assms, of t] div_mult_mod_eq [of t d]
  unfolding in_bucket_def truncate_to_def by linarith

lemma length_delete_where_less: "x \<in> set xs \<Longrightarrow> P x \<Longrightarrow> length (delete_where P xs) < length xs"
  unfolding delete_where_def by (rule length_filter_less) auto

lemma raw_round_shrinks:
  assumes "findNextRawUsageHour searchStart cutoff db = Some b"
  shows "length (usage_log (snd (compactRawUsageHour b db))) < length (usage_log db)"
proof -
  obtain m where "min_before searchStart cutoff (map ur_Timestamp (usage_log db)) = Some m" "b = truncate_to Hour m"
    using assms by (auto simp: findNextRawUsageHour_def)
  then obtain r where "r \<in> set (usage_log db)" "in_bucket b Hour (ur_Timestamp r)"
    using min_before_Some(1) in_bucket_truncate [OF duration_pos(3)] by fastforce
  then show ?thesis by (simp add: compactRawUsageHour_def Let_def length_delete_where_less)
qed

lemma hourly_round_shrinks:
  assumes "findNextHourlyUsageDay searchStart cutoff db = Some b"
  shows "length (hourly_rollups (snd (compactHourlyUsageDay b db))) < length (hourly_rollups db)"
proof -
  obtain m where "min_before searchStart cutoff (map ro_BucketStart (hourly_rollups db)) = Some m" "b = truncate_to Day m"
    using assms by (auto simp: findNextHourlyUsageDay_def)
  then obtain r where "r \<in> set (hourly_rollups db)" "in_bucket b Day (ro_BucketStart r)"
    using min_before_Some(1) in_bucket_truncate [OF duration_pos(4)] by fastforce
  then show ?thesis by (simp add: compactHourlyUsageDay_def Let_def length_delete_where_less)
qed

lemma daily_round_shrinks:
  assumes "findNextExpiredDailyUsageDay searchStart cutoff db = Some b"
  shows "length (daily_rollups (snd (deleteDailyUsageDay b db))) < length (daily_rollups db)"
proof -
  obtain m where "min_before searchStart cutoff (map ro_BucketStart (daily_rollups db)) = Some m" "b = truncate_to Day m"
    using assms by (auto simp: findNextExpiredDailyUsageDay_def)
  then obtain r where "r \<in> set (daily_rollups db)" "in_bucket b Day (ro_BucketStart r)"
    using min_before_Some(1) in_bucket_truncate [OF duration_pos(4)] by fastforce
  then show ?thesis by (simp add: deleteDailyUsageDay_def Let_def length_delete_where_less)
qed

function raw_loop :: "time option \<Rightarrow> time \<Rightarrow> int \<Rightarrow> DB \<Rightarrow> int \<times> DB" where
  "raw_loop searchStart cutoff compacted db =
     (case findNextRawUsageHour searchStart cutoff db of
        None \<Rightarrow> (compacted, db)
      | Some bucketStart \<Rightarrow>
          raw_loop (Some (bucketStart + Hour)) cutoff
            (compacted + fst (compactRawUsageHour bucketStart db)) (snd (compactRawUsageHour bucketStart db)))"
  by pat_completeness auto
termination
  by (relation "measure (\<lambda>(_, _, _, db). length (usage_log db))") (auto intro: raw_round_shrinks)

function hourly_loop :: "time option \<Rightarrow> time \<Rightarrow> int \<Rightarrow> DB \<Rightarrow> int \<times> DB" where
  "hourly_loop searchStart cutoff compacted db =
     (case findNextHourlyUsageDay searchStart cutoff db of
        None \<Rightarrow> (compacted, db)
      | Some bucketStart \<Rightarrow>
          hourly_loop (Some (bucketStart + Day)) cutoff
            (compacted + fst (compactHourlyUsageDay bucketStart db)) (snd (compactHourlyUsageDay bucketStart db)))"
  by pat_completeness auto
termination
  by (relation "measure (\<lambda>(_, _, _, db). length (hourly_rollups db))") (auto intro: hourly_round_shrinks)

function daily_loop :: "time option \<Rightarrow> time \<Rightarrow> int \<Rightarrow> DB \<Rightarrow> int \<times> DB" where
  "daily_loop searchStart cutoff deleted db =
     (case findNextExpiredDailyUsageDay searchStart cutoff db of
        None \<Rightarrow> (deleted, db)
      | Some bucketStart \<Rightarrow>
          daily_loop (Some (bucketStart + Day)) cutoff
            (deleted + fst (deleteDailyUsageDay bucketStart db)) (snd (deleteDailyUsageDay bucketStart db)))"
  by pat_completeness auto
termination
  by (relation "measure (\<lambda>(_, _, _, db). length (daily_rollups db))") (auto intro: daily_round_shrinks)

declare raw_loop.simps [simp del] hourly_loop.simps [simp del] daily_loop.simps [simp del]

record UsageMaintenanceResult =
  RawRowsCompacted :: int
  HourlyRowsCompacted :: int
  DailyRowsDeleted :: int
  DebugRowsDeleted :: int

definition compactPrimaryUsage :: "time \<Rightarrow> time \<Rightarrow> time \<Rightarrow> DB \<Rightarrow> UsageMaintenanceResult \<times> DB" where
  "compactPrimaryUsage rawCutoff hourlyCutoff dailyCutoff db =
     (case raw_loop None rawCutoff 0 db of (rawRows, db1) \<Rightarrow>
      (case hourly_loop None hourlyCutoff 0 db1 of (hourlyRows, db2) \<Rightarrow>
       (case daily_loop None dailyCutoff 0 db2 of (dailyRows, db3) \<Rightarrow>
          (\<lparr>RawRowsCompacted = rawRows, HourlyRowsCompacted = hourlyRows, DailyRowsDeleted = dailyRows,
            DebugRowsDeleted = 0\<rparr>, db3))))"

definition raw_cutoff :: "UsageRetentionPolicy \<Rightarrow> time \<Rightarrow> time" where
  "raw_cutoff policy now = truncate_to Hour (truncate_to Second now - RawRetention policy)"

definition hourly_cutoff :: "UsageRetentionPolicy \<Rightarrow> time \<Rightarrow> time" where
  "hourly_cutoff policy now = truncate_to Day (truncate_to Second now - HourlyRetention policy)"

definition daily_cutoff :: "UsageRetentionPolicy \<Rightarrow> time \<Rightarrow> time" where
  "daily_cutoff policy now = truncate_to Day (truncate_to Second now - DailyRetention policy)"

text \<open>\<open>debugOk\<close>: the debug database accepted its DELETE.\<close>

definition RunUsageMaintenance ::
  "bool \<Rightarrow> UsageRetentionPolicy \<Rightarrow> time \<Rightarrow> DB \<Rightarrow> (store_error + UsageMaintenanceResult) \<times> DB" where
  "RunUsageMaintenance debugOk policy now db =
     (case policy_Validate policy of
        Some e \<Rightarrow> (Inl e, db)
      | None \<Rightarrow>
          (case compactPrimaryUsage (raw_cutoff policy now) (hourly_cutoff policy now) (daily_cutoff policy now) db of
             (result, db') \<Rightarrow>
               let expired = (\<lambda>r. dr_UsageTimestamp r < db_time (raw_cutoff policy now))
               in if debugOk
                  then (Inr (result\<lparr>DebugRowsDeleted := rows_affected expired (usage_debug db')\<rparr>),
                        db'\<lparr>usage_debug := delete_where expired (usage_debug db')\<rparr>)
                  else (Inl (StoreErrorf ''delete usage_debug''), db')))"

section \<open>Compaction conserves usage\<close>

text \<open>
  Calls, successful calls and duration of one key and tool from a time \<open>c\<close> on, over all three
  resolutions.
\<close>

datatype usage_metric = MetricCalls | MetricSuccesses | MetricDuration

definition raw_value :: "time \<Rightarrow> usage_metric \<Rightarrow> string \<times> string \<Rightarrow> usage_row \<Rightarrow> int" where
  "raw_value c m g r = (if (ur_KeyID r, ur_ToolName r) = g \<and> c \<le> ur_Timestamp r then (case m of
     MetricCalls \<Rightarrow> 1 | MetricSuccesses \<Rightarrow> if ur_Success r then 1 else 0 | MetricDuration \<Rightarrow> ur_DurationMs r) else 0)"

definition rollup_value :: "time \<Rightarrow> usage_metric \<Rightarrow> string \<times> string \<Rightarrow> rollup_row \<Rightarrow> int" where
  "rollup_value c m g r = (if (ro_KeyID r, ro_ToolName r) = g \<and> c \<le> ro_BucketStart r then (case m of
     MetricCalls \<Rightarrow> ro_TotalCalls r | MetricSuccesses \<Rightarrow> ro_SuccessCalls r | MetricDuration \<Rightarrow> ro_DurationMsTotal r) else 0)"

definition usage_since :: "time \<Rightarrow> usage_metric \<Rightarrow> string \<times> string \<Rightarrow> DB \<Rightarrow> int" where
  "usage_since c m g db = (\<Sum>r\<leftarrow>usage_log db. raw_value c m g r) +
     (\<Sum>r\<leftarrow>hourly_rollups db. rollup_value c m g r) + (\<Sum>r\<leftarrow>daily_rollups db. rollup_value c m g r)"

definition rollup_pk :: "rollup_row \<Rightarrow> string \<times> time \<times> string" where
  "rollup_pk r = (ro_KeyID r, ro_BucketStart r, ro_ToolName r)"

lemma rollups_ok_pk: "rollups_ok rs \<longleftrightarrow> distinct (map rollup_pk rs)"
  by (simp add: rollups_ok_def rollup_pk_def [abs_def])

definition add_rollup :: "rollup_row \<Rightarrow> rollup_row \<Rightarrow> rollup_row" where
  "add_rollup r x = x\<lparr>ro_TotalCalls := ro_TotalCalls x + ro_TotalCalls r,
     ro_SuccessCalls := ro_SuccessCalls x + ro_SuccessCalls r,
     ro_DurationMsTotal := ro_DurationMsTotal x + ro_DurationMsTotal r\<rparr>"

lemma upsert_rollup_eq:
  "upsert_rollup r rs = (if rollup_pk r \<in> rollup_pk ` set rs
     then update_where (\<lambda>x. rollup_pk x = rollup_pk r) (add_rollup r) rs else rs @ [r])"
proof -
  have "(\<lambda>x. ro_KeyID x = ro_KeyID r \<and> ro_BucketStart x = ro_BucketStart r \<and> ro_ToolName x = ro_ToolName r) =
      (\<lambda>x. rollup_pk x = rollup_pk r)" by (rule ext) (auto simp: rollup_pk_def)
  moreover have "list_ex (\<lambda>x. rollup_pk x = rollup_pk r) rs \<longleftrightarrow> rollup_pk r \<in> rollup_pk ` set rs"
    by (auto simp: list_ex_iff image_iff) metis
  ultimately show ?thesis by (simp add: upsert_rollup_def Let_def add_rollup_def [abs_def])
qed

lemma upsert_rollup_facts:
  assumes "rollups_ok rs"
  shows "rollups_ok (upsert_rollup r rs)"
    and "(\<Sum>x\<leftarrow>upsert_rollup r rs. rollup_value c m g x) = (\<Sum>x\<leftarrow>rs. rollup_value c m g x) + rollup_value c m g r"
    and "ro_KeyID ` set (upsert_rollup r rs) \<subseteq> insert (ro_KeyID r) (ro_KeyID ` set rs)"
    and "ro_BucketStart ` set (upsert_rollup r rs) \<subseteq> insert (ro_BucketStart r) (ro_BucketStart ` set rs)"
proof -
  have d: "distinct (map rollup_pk rs)" using assms by (simp add: rollups_ok_pk)
  have pk: "rollup_pk (add_rollup r x) = rollup_pk x" for x by (simp add: rollup_pk_def add_rollup_def)
  show "rollups_ok (upsert_rollup r rs)"
    using d by (auto simp: rollups_ok_pk upsert_rollup_eq map_update_where pk)
  show "(\<Sum>x\<leftarrow>upsert_rollup r rs. rollup_value c m g x) = (\<Sum>x\<leftarrow>rs. rollup_value c m g x) + rollup_value c m g r"
  proof (cases "rollup_pk r \<in> rollup_pk ` set rs")
    case True
    then obtain x where x: "x \<in> set rs" "rollup_pk x = rollup_pk r" by auto
    have "rollup_value c m g (add_rollup r x) = rollup_value c m g x + rollup_value c m g r"
      using x(2) by (auto simp: rollup_value_def add_rollup_def rollup_pk_def split: usage_metric.split)
    then show ?thesis
      using sum_update_key [OF d x(1), of "rollup_value c m g" "add_rollup r"] True x(2)
      by (simp add: upsert_rollup_eq)
  qed (simp add: upsert_rollup_eq)
  have "ro_KeyID (add_rollup r x) = ro_KeyID x" "ro_BucketStart (add_rollup r x) = ro_BucketStart x" for x
    by (simp_all add: add_rollup_def)
  then show "ro_KeyID ` set (upsert_rollup r rs) \<subseteq> insert (ro_KeyID r) (ro_KeyID ` set rs)"
    "ro_BucketStart ` set (upsert_rollup r rs) \<subseteq> insert (ro_BucketStart r) (ro_BucketStart ` set rs)"
    by (auto simp: upsert_rollup_eq rows)
qed

text \<open>Upserting the aggregates of all groups of a bucket adds exactly what the bucket held.\<close>

lemma subset_step: "X \<subseteq> A \<union> Y \<Longrightarrow> Y \<subseteq> insert a Z \<Longrightarrow> X \<subseteq> insert a A \<union> Z"
  by blast

lemma subset_chain: "X \<subseteq> A \<union> Y \<Longrightarrow> A \<subseteq> B \<Longrightarrow> B \<subseteq> K \<Longrightarrow> Y \<subseteq> K \<Longrightarrow> X \<subseteq> K"
  by blast

lemma upsert_groups:
  assumes "rollups_ok rs" "distinct groups" "\<And>h. (ro_KeyID (agg h), ro_ToolName (agg h)) = h"
  shows "rollups_ok (fold (\<lambda>h. upsert_rollup (agg h)) groups rs) \<and>
    (\<Sum>x\<leftarrow>fold (\<lambda>h. upsert_rollup (agg h)) groups rs. rollup_value c m g x) =
      (\<Sum>x\<leftarrow>rs. rollup_value c m g x) + (if g \<in> set groups then rollup_value c m g (agg g) else 0) \<and>
    ro_KeyID ` set (fold (\<lambda>h. upsert_rollup (agg h)) groups rs) \<subseteq> fst ` set groups \<union> ro_KeyID ` set rs \<and>
    ro_BucketStart ` set (fold (\<lambda>h. upsert_rollup (agg h)) groups rs) \<subseteq>
      (\<lambda>h. ro_BucketStart (agg h)) ` set groups \<union> ro_BucketStart ` set rs"
  using assms(1,2)
proof (induction groups arbitrary: rs)
  case (Cons h groups)
  note u = upsert_rollup_facts [OF Cons.prems(1), where r = "agg h"]
  have v: "rollup_value c m g (agg h) = (if g = h then rollup_value c m g (agg g) else 0)"
    using assms(3) [of h] by (auto simp: rollup_value_def)
  have k: "ro_KeyID (agg h) = fst h" using assms(3) [of h] by (metis fst_conv)
  let ?fold = "fold (\<lambda>h. upsert_rollup (agg h)) groups (upsert_rollup (agg h) rs)"
  have ih: "rollups_ok ?fold \<and> (\<Sum>x\<leftarrow>?fold. rollup_value c m g x) =
      (\<Sum>x\<leftarrow>upsert_rollup (agg h) rs. rollup_value c m g x) + (if g \<in> set groups then rollup_value c m g (agg g) else 0)"
    "ro_KeyID ` set ?fold \<subseteq> fst ` set groups \<union> ro_KeyID ` set (upsert_rollup (agg h) rs)"
    "ro_BucketStart ` set ?fold \<subseteq> (\<lambda>h. ro_BucketStart (agg h)) ` set groups \<union> ro_BucketStart ` set (upsert_rollup (agg h) rs)"
    using Cons.IH [OF u(1)] Cons.prems(2) by simp_all
  have "ro_KeyID ` set ?fold \<subseteq> fst ` set (h # groups) \<union> ro_KeyID ` set rs"
    using ih(2) u(3) unfolding k list.set image_insert by (rule subset_step)
  moreover have "ro_BucketStart ` set ?fold \<subseteq> (\<lambda>h. ro_BucketStart (agg h)) ` set (h # groups) \<union> ro_BucketStart ` set rs"
    using ih(3) u(4) unfolding list.set image_insert by (rule subset_step)
  moreover have "(\<Sum>x\<leftarrow>?fold. rollup_value c m g x) =
      (\<Sum>x\<leftarrow>rs. rollup_value c m g x) + (if g \<in> set (h # groups) then rollup_value c m g (agg g) else 0)"
    using ih(1) u(2) [where c = c and m = m and g = g] v Cons.prems(2) by auto
  ultimately show ?case using ih(1) by simp
qed simp

lemma sum_list_zero: "(\<And>x. x \<in> set xs \<Longrightarrow> f x = (0::int)) \<Longrightarrow> sum_list (map f xs) = 0"
  by (induction xs) auto

lemma raw_group_value:
  assumes "\<And>r. r \<in> set old \<Longrightarrow> c \<le> ur_Timestamp r \<longleftrightarrow> c \<le> b"
  shows "(if g \<in> set (remdups (map (\<lambda>r. (ur_KeyID r, ur_ToolName r)) old)) then rollup_value c m g (raw_group b old g) else 0) =
     (\<Sum>r\<leftarrow>old. raw_value c m g r)"
proof (cases "c \<le> b")
  case True
  let ?mine = "filter (\<lambda>r. (ur_KeyID r, ur_ToolName r) = g) old"
  have mine: "(\<Sum>r\<leftarrow>?mine. raw_value c m g r) = (\<Sum>r\<leftarrow>old. raw_value c m g r)"
    by (rule sum_list_map_filter) (auto simp: raw_value_def)
  have "(\<Sum>r\<leftarrow>?mine. raw_value c m g r) = (\<Sum>r\<leftarrow>?mine. (case m of MetricCalls \<Rightarrow> 1
      | MetricSuccesses \<Rightarrow> if ur_Success r then 1 else 0 | MetricDuration \<Rightarrow> ur_DurationMs r))"
    by (rule arg_cong [of _ _ sum_list], rule map_cong) (auto simp: raw_value_def True assms)
  then have "rollup_value c m g (raw_group b old g) = (\<Sum>r\<leftarrow>old. raw_value c m g r)"
    unfolding mine by (cases m) (simp_all add: rollup_value_def raw_group_def Let_def sum_list_triv True)
  moreover have "(\<Sum>r\<leftarrow>old. raw_value c m g r) = 0" if "g \<notin> (\<lambda>r. (ur_KeyID r, ur_ToolName r)) ` set old"
    using that by (intro sum_list_zero) (auto simp: raw_value_def)
  ultimately show ?thesis by auto
next
  case False
  then have "(\<Sum>r\<leftarrow>old. raw_value c m g r) = 0" by (intro sum_list_zero) (auto simp: raw_value_def assms)
  with False show ?thesis by (simp add: rollup_value_def raw_group_def Let_def)
qed

lemma hourly_group_value:
  assumes "\<And>r. r \<in> set old \<Longrightarrow> c \<le> ro_BucketStart r \<longleftrightarrow> c \<le> b"
  shows "(if g \<in> set (remdups (map (\<lambda>r. (ro_KeyID r, ro_ToolName r)) old)) then rollup_value c m g (hourly_group b old g) else 0) =
     (\<Sum>r\<leftarrow>old. rollup_value c m g r)"
proof (cases "c \<le> b")
  case True
  let ?mine = "filter (\<lambda>r. (ro_KeyID r, ro_ToolName r) = g) old"
  have mine: "(\<Sum>r\<leftarrow>?mine. rollup_value c m g r) = (\<Sum>r\<leftarrow>old. rollup_value c m g r)"
    by (rule sum_list_map_filter) (auto simp: rollup_value_def)
  have "(\<Sum>r\<leftarrow>?mine. rollup_value c m g r) = (\<Sum>r\<leftarrow>?mine. (case m of MetricCalls \<Rightarrow> ro_TotalCalls r
      | MetricSuccesses \<Rightarrow> ro_SuccessCalls r | MetricDuration \<Rightarrow> ro_DurationMsTotal r))"
    by (rule arg_cong [of _ _ sum_list], rule map_cong) (auto simp: rollup_value_def True assms)
  moreover have "rollup_value c m g (hourly_group b old g) = (\<Sum>r\<leftarrow>?mine. (case m of MetricCalls \<Rightarrow> ro_TotalCalls r
      | MetricSuccesses \<Rightarrow> ro_SuccessCalls r | MetricDuration \<Rightarrow> ro_DurationMsTotal r))"
    by (cases m) (simp_all add: rollup_value_def hourly_group_def Let_def True)
  ultimately have "rollup_value c m g (hourly_group b old g) = (\<Sum>r\<leftarrow>old. rollup_value c m g r)"
    unfolding mine by simp
  moreover have "(\<Sum>r\<leftarrow>old. rollup_value c m g r) = 0" if "g \<notin> (\<lambda>r. (ro_KeyID r, ro_ToolName r)) ` set old"
    using that by (intro sum_list_zero) (auto simp: rollup_value_def)
  ultimately show ?thesis by auto
next
  case False
  then have "(\<Sum>r\<leftarrow>old. rollup_value c m g r) = 0" by (intro sum_list_zero) (auto simp: rollup_value_def assms)
  with False show ?thesis by (simp add: rollup_value_def hourly_group_def Let_def)
qed

text \<open>Whole multiples of a bucket width.\<close>

definition aligned :: "duration \<Rightarrow> time \<Rightarrow> bool" where
  "aligned d t \<longleftrightarrow> t mod d = 0"

lemma aligned_truncate: "aligned d (truncate_to d t)"
  by (simp add: aligned_def truncate_to_def)

lemma aligned_step: "0 < d \<Longrightarrow> aligned d a \<Longrightarrow> aligned d b \<Longrightarrow> a < b \<Longrightarrow> a + d \<le> b"
  by (auto simp: aligned_def elim!: dvdE simp flip: dvd_eq_mod_eq_0) (metis add.commute mult.commute
      mult_less_cancel_left_pos mult_le_cancel_left_pos distrib_left mult.right_neutral zless_imp_add1_zle)

lemma aligned_add: "aligned d a \<Longrightarrow> aligned d (a + d)"
  by (simp add: aligned_def)

lemma widths: "0 < Hour" "0 < Day" "aligned Second Hour" "aligned Second Day"
  by (simp_all add: aligned_def Day_def Hour_def Minute_def Second_def)

lemma aligned_bucket:
  "0 < d \<Longrightarrow> aligned d b \<Longrightarrow> aligned d c \<Longrightarrow> in_bucket b d t \<Longrightarrow> c \<le> t \<longleftrightarrow> c \<le> b"
  using aligned_step [of d b c] by (cases "b < c") (auto simp: in_bucket_def)

text \<open>One round of each loop: the invariant, the totals, and what is left in the bucket.\<close>

lemma usage_keys:
  "db_ok db \<Longrightarrow> ur_KeyID ` set (usage_log db) \<subseteq> k_ID ` set (apikeys db)"
  "db_ok db \<Longrightarrow> ro_KeyID ` set (hourly_rollups db) \<subseteq> k_ID ` set (apikeys db)"
  "db_ok db \<Longrightarrow> ro_KeyID ` set (daily_rollups db) \<subseteq> k_ID ` set (apikeys db)"
  by (simp_all add: db_ok_def references_ok_def)

lemma db_ok_rollups:
  "db_ok db \<Longrightarrow> rollups_ok (hourly_rollups db)" "db_ok db \<Longrightarrow> rollups_ok (daily_rollups db)"
  "db_ok db \<Longrightarrow> usage_ok (usage_log db) (usage_seq db)"
  by (simp_all add: db_ok_def)

lemma db_ok_usage_replace:
  assumes "db_ok db" "usage_ok l (usage_seq db)" "rollups_ok h" "rollups_ok d"
    "ur_KeyID ` set l \<subseteq> k_ID ` set (apikeys db)" "ro_KeyID ` set h \<subseteq> k_ID ` set (apikeys db)"
    "ro_KeyID ` set d \<subseteq> k_ID ` set (apikeys db)"
  shows "db_ok (db\<lparr>usage_log := l, hourly_rollups := h, daily_rollups := d\<rparr>)"
  using assms by (simp add: db_ok_def references_ok_def)

lemma compactRaw_facts:
  assumes ok: "db_ok db"
  shows "db_ok (snd (compactRawUsageHour b db))"
    and "aligned Hour b \<Longrightarrow> aligned Hour c \<Longrightarrow> usage_since c m g (snd (compactRawUsageHour b db)) = usage_since c m g db"
    and "usage_log (snd (compactRawUsageHour b db)) =
      delete_where (\<lambda>r. in_bucket b Hour (ur_Timestamp r)) (usage_log db)"
proof -
  define old where "old = filter (\<lambda>r. in_bucket b Hour (ur_Timestamp r)) (usage_log db)"
  define groups where "groups = remdups (map (\<lambda>r. (ur_KeyID r, ur_ToolName r)) old)"
  define h where "h = fold (\<lambda>g. upsert_rollup (raw_group b old g)) groups (hourly_rollups db)"
  define l where "l = delete_where (\<lambda>r. in_bucket b Hour (ur_Timestamp r)) (usage_log db)"
  have eq: "snd (compactRawUsageHour b db) = db\<lparr>usage_log := l, hourly_rollups := h, daily_rollups := daily_rollups db\<rparr>"
    by (simp add: compactRawUsageHour_def Let_def old_def groups_def h_def l_def)
  have facts: "rollups_ok h" "(\<And>r. r \<in> set old \<Longrightarrow> c \<le> ur_Timestamp r \<longleftrightarrow> c \<le> b) \<Longrightarrow> (\<Sum>x\<leftarrow>h. rollup_value c m g x) = (\<Sum>x\<leftarrow>hourly_rollups db. rollup_value c m g x) + (\<Sum>r\<leftarrow>old. raw_value c m g r)"
    "ro_KeyID ` set h \<subseteq> fst ` set groups \<union> ro_KeyID ` set (hourly_rollups db)" for c m g
    using upsert_groups [OF db_ok_rollups(1) [OF ok], of groups "raw_group b old" c m g] raw_group_value [of old c b g m]
    unfolding h_def [symmetric] groups_def [symmetric]
    by (simp_all add: groups_def raw_group_def Let_def)
  have "fst ` set groups \<subseteq> ur_KeyID ` set (usage_log db)" by (auto simp: groups_def old_def)
  with facts(3) have "ro_KeyID ` set h \<subseteq> k_ID ` set (apikeys db)" using usage_keys(1,2) [OF ok] by (rule subset_chain)
  moreover have "usage_ok l (usage_seq db)"
    using db_ok_rollups(3) [OF ok] by (auto simp: usage_ok_def l_def rows intro: distinct_delete_where)
  moreover have "ur_KeyID ` set l \<subseteq> k_ID ` set (apikeys db)"
    using usage_keys(1) [OF ok] by (auto simp: l_def rows)
  ultimately show "db_ok (snd (compactRawUsageHour b db))" unfolding eq
    using db_ok_usage_replace [OF ok _ facts(1) db_ok_rollups(2) [OF ok] _ _ usage_keys(3) [OF ok]] by simp
  {
    assume "aligned Hour b" "aligned Hour c"
    then have "\<And>r. r \<in> set old \<Longrightarrow> c \<le> ur_Timestamp r \<longleftrightarrow> c \<le> b"
      using aligned_bucket [OF widths(1)] by (simp add: old_def)
    from facts(2) [of c m g, OF this] show "usage_since c m g (snd (compactRawUsageHour b db)) = usage_since c m g db"
      unfolding eq
      by (simp add: usage_since_def l_def sum_delete_where old_def)
  }
  show "usage_log (snd (compactRawUsageHour b db)) = delete_where (\<lambda>r. in_bucket b Hour (ur_Timestamp r)) (usage_log db)"
    by (simp add: eq l_def)
qed

lemma compactHourly_facts:
  assumes ok: "db_ok db"
  shows "db_ok (snd (compactHourlyUsageDay b db))"
    and "aligned Day b \<Longrightarrow> aligned Day c \<Longrightarrow> usage_since c m g (snd (compactHourlyUsageDay b db)) = usage_since c m g db"
    and "usage_log (snd (compactHourlyUsageDay b db)) = usage_log db"
    and "hourly_rollups (snd (compactHourlyUsageDay b db)) =
      delete_where (\<lambda>r. in_bucket b Day (ro_BucketStart r)) (hourly_rollups db)"
proof -
  define old where "old = filter (\<lambda>r. in_bucket b Day (ro_BucketStart r)) (hourly_rollups db)"
  define groups where "groups = remdups (map (\<lambda>r. (ro_KeyID r, ro_ToolName r)) old)"
  define d where "d = fold (\<lambda>g. upsert_rollup (hourly_group b old g)) groups (daily_rollups db)"
  define h where "h = delete_where (\<lambda>r. in_bucket b Day (ro_BucketStart r)) (hourly_rollups db)"
  have eq: "snd (compactHourlyUsageDay b db) = db\<lparr>usage_log := usage_log db, hourly_rollups := h, daily_rollups := d\<rparr>"
    by (simp add: compactHourlyUsageDay_def Let_def old_def groups_def h_def d_def)
  have facts: "rollups_ok d" "(\<And>r. r \<in> set old \<Longrightarrow> c \<le> ro_BucketStart r \<longleftrightarrow> c \<le> b) \<Longrightarrow> (\<Sum>x\<leftarrow>d. rollup_value c m g x) = (\<Sum>x\<leftarrow>daily_rollups db. rollup_value c m g x) + (\<Sum>r\<leftarrow>old. rollup_value c m g r)"
    "ro_KeyID ` set d \<subseteq> fst ` set groups \<union> ro_KeyID ` set (daily_rollups db)" for c m g
    using upsert_groups [OF db_ok_rollups(2) [OF ok], of groups "hourly_group b old" c m g] hourly_group_value [of old c b g m]
    unfolding d_def [symmetric] groups_def [symmetric]
    by (simp_all add: groups_def hourly_group_def Let_def)
  have "fst ` set groups \<subseteq> ro_KeyID ` set (hourly_rollups db)" by (auto simp: groups_def old_def)
  with facts(3) have "ro_KeyID ` set d \<subseteq> k_ID ` set (apikeys db)" using usage_keys(2,3) [OF ok] by (rule subset_chain)
  moreover have "rollups_ok h"
    using db_ok_rollups(1) [OF ok] by (auto simp: rollups_ok_def h_def intro: distinct_delete_where)
  moreover have "ro_KeyID ` set h \<subseteq> k_ID ` set (apikeys db)"
    using usage_keys(2) [OF ok] by (auto simp: h_def rows)
  ultimately show "db_ok (snd (compactHourlyUsageDay b db))" unfolding eq
    using db_ok_usage_replace [OF ok db_ok_rollups(3) [OF ok] _ facts(1) usage_keys(1) [OF ok]] by simp
  {
    assume "aligned Day b" "aligned Day c"
    then have "\<And>r. r \<in> set old \<Longrightarrow> c \<le> ro_BucketStart r \<longleftrightarrow> c \<le> b"
      using aligned_bucket [OF widths(2)] by (simp add: old_def)
    from facts(2) [of c m g, OF this] show "usage_since c m g (snd (compactHourlyUsageDay b db)) = usage_since c m g db"
      unfolding eq
      by (simp add: usage_since_def h_def sum_delete_where old_def)
  }
  show "usage_log (snd (compactHourlyUsageDay b db)) = usage_log db"
    "hourly_rollups (snd (compactHourlyUsageDay b db)) = delete_where (\<lambda>r. in_bucket b Day (ro_BucketStart r)) (hourly_rollups db)"
    by (simp_all add: eq h_def)
qed

section \<open>The loops\<close>

text \<open>
  What the three loops have in common, as an interface: times sorted into buckets of one width, a
  round that removes one bucket, and a loop that runs rounds from the earliest bucket before the
  cutoff. The client's lemma: the loop leaves exactly the times from the cutoff on, counts what it
  removed, and keeps whatever each round keeps.
\<close>

lemma min_before_least:
  assumes "min_before searchStart cutoff ts = Some m" "t \<in> set ts" "t < db_time cutoff"
    "case searchStart of None \<Rightarrow> True | Some s \<Rightarrow> db_time s \<le> t"
  shows "m \<le> t"
  using assms by (auto simp: min_before_def Let_def intro!: foldr_min_le split: if_splits)

locale bucket_compaction =
  fixes ok :: "'s \<Rightarrow> bool" and tbl :: "'s \<Rightarrow> 'r list" and stamp :: "'r \<Rightarrow> time" and width :: duration
    and round :: "time \<Rightarrow> 's \<Rightarrow> int \<times> 's"
    and loop :: "time option \<Rightarrow> time \<Rightarrow> int \<Rightarrow> 's \<Rightarrow> int \<times> 's"
  assumes loop_unfold: "loop searchStart cutoff n s =
      (case map_option (truncate_to width) (min_before searchStart cutoff (map stamp (tbl s))) of
         None \<Rightarrow> (n, s)
       | Some b \<Rightarrow> loop (Some (b + width)) cutoff (n + fst (round b s)) (snd (round b s)))"
    and width_pos: "0 < width" and width_seconds: "aligned Second width"
    and round_ok: "ok s \<Longrightarrow> ok (snd (round b s))"
    and round_tbl: "ok s \<Longrightarrow> tbl (snd (round b s)) = delete_where (\<lambda>r. in_bucket b width (stamp r)) (tbl s)"
    and round_count: "ok s \<Longrightarrow> fst (round b s) = rows_affected (\<lambda>r. in_bucket b width (stamp r)) (tbl s)"
begin

lemma seconds: "aligned width t \<Longrightarrow> db_time t = t"
proof -
  assume "aligned width t"
  then have "Second dvd t" using width_seconds
    by (metis aligned_def dvd_trans mod_0_imp_dvd)
  then show ?thesis by (simp add: db_time_def)
qed

lemma loop_spec:
  assumes "ok s" "aligned width cutoff" "P s"
    and "case searchStart of None \<Rightarrow> True
      | Some x \<Rightarrow> aligned width x \<and> (\<forall>r \<in> set (tbl s). stamp r < cutoff \<longrightarrow> x \<le> stamp r)"
    and keep: "\<And>b s. aligned width b \<Longrightarrow> ok s \<Longrightarrow> P s \<Longrightarrow> P (snd (round b s))"
  shows "ok (snd (loop searchStart cutoff n s)) \<and> P (snd (loop searchStart cutoff n s)) \<and>
    tbl (snd (loop searchStart cutoff n s)) = delete_where (\<lambda>r. stamp r < cutoff) (tbl s) \<and>
    fst (loop searchStart cutoff n s) = n + rows_affected (\<lambda>r. stamp r < cutoff) (tbl s)"
  using assms(1-4)
proof (induction "length (tbl s)" arbitrary: s searchStart n rule: less_induct)
  case less
  have all: "case searchStart of None \<Rightarrow> True | Some x \<Rightarrow> db_time x \<le> stamp r"
    if "r \<in> set (tbl s)" "stamp r < cutoff" for r
    using less.prems(4) that seconds by (auto split: option.splits)
  have cut: "db_time cutoff = cutoff" using less.prems(2) by (rule seconds)
  show ?case
  proof (cases "min_before searchStart cutoff (map stamp (tbl s))")
    case None
    have "\<forall>r \<in> set (tbl s). \<not> stamp r < cutoff"
    proof
      fix r assume r: "r \<in> set (tbl s)"
      then have "stamp r \<in> set (map stamp (tbl s))" by simp
      then show "\<not> stamp r < cutoff"
        using min_before_None [OF None] all [OF r] cut by (metis not_le)
    qed
    then have "delete_where (\<lambda>r. stamp r < cutoff) (tbl s) = tbl s" "rows_affected (\<lambda>r. stamp r < cutoff) (tbl s) = 0"
      by (auto simp: delete_where_def rows_affected_def filter_id_conv count_if_zero)
    then show ?thesis using None less.prems by (simp add: loop_unfold [of searchStart])
  next
    case (Some m)
    define b where "b = truncate_to width m"
    define s' where "s' = snd (round b s)"
    obtain q where q: "q \<in> set (tbl s)" "stamp q = m" using min_before_Some(1) [OF Some] by auto
    have m: "m < cutoff" using min_before_Some(2) [OF Some] cut by simp
    have b: "aligned width b" "in_bucket b width m"
      using aligned_truncate in_bucket_truncate [OF width_pos] by (auto simp: b_def)
    then have "b + width \<le> cutoff"
      using aligned_step [OF width_pos b(1) less.prems(2)] m by (simp add: in_bucket_def)
    then have before: "t < cutoff" if "in_bucket b width t" for t using that by (simp add: in_bucket_def)
    have s': "ok s'" "P s'" "tbl s' = delete_where (\<lambda>r. in_bucket b width (stamp r)) (tbl s)"
      using less.prems keep b(1) by (simp_all add: s'_def round_ok round_tbl)
    have "length (tbl s') < length (tbl s)"
      using q b(2) unfolding s'(3) delete_where_def by (intro length_filter_less) auto
    moreover have "b + width \<le> stamp r" if "r \<in> set (tbl s')" "stamp r < cutoff" for r
    proof -
      have r: "r \<in> set (tbl s)" "\<not> in_bucket b width (stamp r)" using that(1) s'(3) by (auto simp: rows)
      then have "m \<le> stamp r" using min_before_least [OF Some _ _ all] that(2) cut by simp
      then show ?thesis using r(2) b(2) by (auto simp: in_bucket_def)
    qed
    ultimately have ih: "ok (snd (loop (Some (b + width)) cutoff k s')) \<and> P (snd (loop (Some (b + width)) cutoff k s')) \<and>
        tbl (snd (loop (Some (b + width)) cutoff k s')) = delete_where (\<lambda>r. stamp r < cutoff) (tbl s') \<and>
        fst (loop (Some (b + width)) cutoff k s') = k + rows_affected (\<lambda>r. stamp r < cutoff) (tbl s')" for k
      using less.hyps [of s' "Some (b + width)" k] s'(1,2) less.prems(2) aligned_add [OF b(1)] by auto
    have split: "delete_where (\<lambda>r. stamp r < cutoff) (delete_where (\<lambda>r. in_bucket b width (stamp r)) xs) =
        delete_where (\<lambda>r. stamp r < cutoff) xs \<and>
      rows_affected (\<lambda>r. stamp r < cutoff) xs = rows_affected (\<lambda>r. in_bucket b width (stamp r)) xs +
        rows_affected (\<lambda>r. stamp r < cutoff) (delete_where (\<lambda>r. in_bucket b width (stamp r)) xs)" for xs
      by (induction xs) (auto simp: delete_where_def rows_affected_def dest: before)
    have "loop searchStart cutoff n s = loop (Some (b + width)) cutoff (n + fst (round b s)) s'"
      by (subst loop_unfold) (simp add: Some b_def s'_def)
    then show ?thesis using ih split [of "tbl s"] round_count [OF less.prems(1), of b] by (simp add: s'(3))
  qed
qed

end

text \<open>The three loops are such loops.\<close>

lemma deleteDaily_facts:
  assumes ok: "db_ok db"
  shows "db_ok (snd (deleteDailyUsageDay b db))"
proof -
  let ?d = "delete_where (\<lambda>r. in_bucket b Day (ro_BucketStart r)) (daily_rollups db)"
  have "rollups_ok ?d"
    using db_ok_rollups(2) [OF ok] by (auto simp: rollups_ok_def intro: distinct_delete_where)
  moreover have "ro_KeyID ` set ?d \<subseteq> k_ID ` set (apikeys db)"
    using usage_keys(3) [OF ok] by (auto simp: rows)
  ultimately show ?thesis
    using db_ok_usage_replace [OF ok db_ok_rollups(3) [OF ok] db_ok_rollups(1) [OF ok] _ usage_keys(1,2) [OF ok], of ?d]
    by (simp add: deleteDailyUsageDay_def)
qed

interpretation raw_compaction:
  bucket_compaction db_ok usage_log ur_Timestamp Hour compactRawUsageHour raw_loop
proof unfold_locales
  show "raw_loop searchStart cutoff n s =
      (case map_option (truncate_to Hour) (min_before searchStart cutoff (map ur_Timestamp (usage_log s))) of
         None \<Rightarrow> (n, s)
       | Some b \<Rightarrow> raw_loop (Some (b + Hour)) cutoff (n + fst (compactRawUsageHour b s)) (snd (compactRawUsageHour b s)))"
    for searchStart cutoff n s
    by (subst raw_loop.simps) (simp only: findNextRawUsageHour_def)
qed (simp_all add: widths compactRaw_facts, simp add: compactRawUsageHour_def Let_def rows_affected_def count_if_def)

interpretation hourly_compaction:
  bucket_compaction db_ok hourly_rollups ro_BucketStart Day compactHourlyUsageDay hourly_loop
proof unfold_locales
  show "hourly_loop searchStart cutoff n s =
      (case map_option (truncate_to Day) (min_before searchStart cutoff (map ro_BucketStart (hourly_rollups s))) of
         None \<Rightarrow> (n, s)
       | Some b \<Rightarrow> hourly_loop (Some (b + Day)) cutoff (n + fst (compactHourlyUsageDay b s)) (snd (compactHourlyUsageDay b s)))"
    for searchStart cutoff n s
    by (subst hourly_loop.simps) (simp only: findNextHourlyUsageDay_def)
qed (simp_all add: widths compactHourly_facts, simp add: compactHourlyUsageDay_def Let_def rows_affected_def count_if_def)

interpretation daily_expiry:
  bucket_compaction db_ok daily_rollups ro_BucketStart Day deleteDailyUsageDay daily_loop
proof unfold_locales
  show "daily_loop searchStart cutoff n s =
      (case map_option (truncate_to Day) (min_before searchStart cutoff (map ro_BucketStart (daily_rollups s))) of
         None \<Rightarrow> (n, s)
       | Some b \<Rightarrow> daily_loop (Some (b + Day)) cutoff (n + fst (deleteDailyUsageDay b s)) (snd (deleteDailyUsageDay b s)))"
    for searchStart cutoff n s
    by (subst daily_loop.simps) (simp only: findNextExpiredDailyUsageDay_def)
qed (simp_all add: widths deleteDaily_facts, simp_all add: deleteDailyUsageDay_def)

section \<open>Maintenance\<close>

lemma cutoffs_aligned:
  "aligned Hour (raw_cutoff policy now)" "aligned Day (hourly_cutoff policy now)" "aligned Day (daily_cutoff policy now)"
  by (simp_all add: raw_cutoff_def hourly_cutoff_def daily_cutoff_def aligned_truncate)

lemma aligned_Day_Hour: "aligned Day t \<Longrightarrow> aligned Hour t"
  by (auto simp: aligned_def Day_def simp flip: dvd_eq_mod_eq_0)

lemma truncate_to_mono: "0 < d \<Longrightarrow> s \<le> t \<Longrightarrow> truncate_to d s \<le> truncate_to d t"
  by (simp add: truncate_to_def zdiv_mono1)

lemma cutoffs_ordered:
  assumes "policy_Validate policy = None"
  shows "daily_cutoff policy now \<le> hourly_cutoff policy now" "hourly_cutoff policy now \<le> raw_cutoff policy now"
    "raw_cutoff policy now \<le> now"
proof -
  have p: "0 < RawRetention policy" "RawRetention policy < HourlyRetention policy" "HourlyRetention policy < DailyRetention policy"
    using assms by (auto simp: policy_Validate_def split: if_splits)
  show "daily_cutoff policy now \<le> hourly_cutoff policy now"
    unfolding daily_cutoff_def hourly_cutoff_def using p by (intro truncate_to_mono widths) simp
  have below: "truncate_to d t \<le> t" if "0 < d" for d t
    using that by (simp add: truncate_to_def minus_mod_eq_div_mult [symmetric])
  have "hourly_cutoff policy now \<le> truncate_to Second now - RawRetention policy"
    unfolding hourly_cutoff_def using p by (intro order_trans [OF below]) (auto simp: widths)
  then have "truncate_to Hour (hourly_cutoff policy now) \<le> raw_cutoff policy now"
    unfolding raw_cutoff_def by (intro truncate_to_mono widths)
  moreover have "truncate_to Hour (hourly_cutoff policy now) = hourly_cutoff policy now"
    using aligned_Day_Hour [OF cutoffs_aligned(2) [of policy now]]
    by (simp add: truncate_to_def aligned_def minus_mod_eq_div_mult [symmetric])
  ultimately show "hourly_cutoff policy now \<le> raw_cutoff policy now" by simp
  have "raw_cutoff policy now \<le> truncate_to Second now - RawRetention policy"
    unfolding raw_cutoff_def by (rule below) (rule widths)
  moreover have "truncate_to Second now \<le> now" by (rule below) (simp add: Second_def)
  ultimately show "raw_cutoff policy now \<le> now" using p by simp
qed

text \<open>What every round keeps: the other tables, and the usage since any day.\<close>

definition without_usage :: "DB \<Rightarrow> DB" where
  "without_usage db = db\<lparr>usage_log := [], hourly_rollups := [], daily_rollups := []\<rparr>"

definition usage_by_day :: "DB \<Rightarrow> time \<times> usage_metric \<times> string \<times> string \<Rightarrow> int" where
  "usage_by_day db = (\<lambda>(c, m, g). if aligned Day c then usage_since c m g db else 0)"

lemma rounds_keep:
  "aligned Hour b \<Longrightarrow> db_ok db \<Longrightarrow> usage_by_day (snd (compactRawUsageHour b db)) = usage_by_day db"
  "aligned Day b \<Longrightarrow> db_ok db \<Longrightarrow> usage_by_day (snd (compactHourlyUsageDay b db)) = usage_by_day db"
  "without_usage (snd (compactRawUsageHour b db)) = without_usage db"
  "without_usage (snd (compactHourlyUsageDay b db)) = without_usage db"
  "without_usage (snd (deleteDailyUsageDay b db)) = without_usage db"
  by (simp add: usage_by_day_def compactRaw_facts(2) aligned_Day_Hour fun_eq_iff)
     (simp add: usage_by_day_def compactHourly_facts(2) fun_eq_iff,
      simp_all add: without_usage_def compactRawUsageHour_def compactHourlyUsageDay_def deleteDailyUsageDay_def Let_def)

lemma raw_loop_spec:
  assumes "db_ok db" "aligned Hour rc" "raw_loop None rc 0 db = (n, db')"
  shows "db_ok db' \<and> usage_by_day db' = usage_by_day db \<and> without_usage db' = without_usage db \<and>
    usage_log db' = delete_where (\<lambda>r. ur_Timestamp r < rc) (usage_log db) \<and>
    n = rows_affected (\<lambda>r. ur_Timestamp r < rc) (usage_log db)"
  using raw_compaction.loop_spec [OF assms(1,2), of "\<lambda>d. usage_by_day d = usage_by_day db \<and> without_usage d = without_usage db" None 0]
    assms(3) by (simp add: rounds_keep)

lemma hourly_loop_spec:
  assumes "db_ok db" "aligned Day hc" "hourly_loop None hc 0 db = (n, db')"
  shows "db_ok db' \<and> usage_by_day db' = usage_by_day db \<and> without_usage db' = without_usage db \<and>
    usage_log db' = usage_log db \<and> hourly_rollups db' = delete_where (\<lambda>r. ro_BucketStart r < hc) (hourly_rollups db) \<and>
    n = rows_affected (\<lambda>r. ro_BucketStart r < hc) (hourly_rollups db)"
  using hourly_compaction.loop_spec [OF assms(1,2), of "\<lambda>d. usage_by_day d = usage_by_day db \<and>
      without_usage d = without_usage db \<and> usage_log d = usage_log db" None 0]
    assms(3) by (simp add: rounds_keep compactHourly_facts(3))

lemma daily_loop_spec:
  assumes "db_ok db" "aligned Day dc" "daily_loop None dc 0 db = (n, db')"
  shows "db_ok db' \<and> without_usage db' = without_usage db \<and>
    usage_log db' = usage_log db \<and> hourly_rollups db' = hourly_rollups db \<and>
    daily_rollups db' = delete_where (\<lambda>r. ro_BucketStart r < dc) (daily_rollups db) \<and>
    n = rows_affected (\<lambda>r. ro_BucketStart r < dc) (daily_rollups db)"
  using daily_expiry.loop_spec [OF assms(1,2), of "\<lambda>d. without_usage d = without_usage db \<and>
      usage_log d = usage_log db \<and> hourly_rollups d = hourly_rollups db" None 0]
    assms(3) by (simp add: rounds_keep) (simp add: deleteDailyUsageDay_def)

lemma expired_value:
  "dc \<le> c \<Longrightarrow> (\<Sum>r\<leftarrow>delete_where (\<lambda>r. ro_BucketStart r < dc) xs. rollup_value c m g r) = (\<Sum>r\<leftarrow>xs. rollup_value c m g r)"
  by (induction xs) (auto simp: delete_where_def rollup_value_def)

lemma compactPrimaryUsage_spec:
  assumes ok: "db_ok db" and al: "aligned Hour rc" "aligned Day hc" "aligned Day dc"
    and run: "compactPrimaryUsage rc hc dc db = (result, db')"
  shows "db_ok db'" "without_usage db' = without_usage db"
    and "usage_log db' = delete_where (\<lambda>r. ur_Timestamp r < rc) (usage_log db)"
    and "\<forall>r \<in> set (hourly_rollups db'). hc \<le> ro_BucketStart r"
    and "\<forall>r \<in> set (daily_rollups db'). dc \<le> ro_BucketStart r"
    and "aligned Day c \<Longrightarrow> dc \<le> c \<Longrightarrow> usage_since c m g db' = usage_since c m g db"
    and "RawRowsCompacted result = rows_affected (\<lambda>r. ur_Timestamp r < rc) (usage_log db)"
proof -
  obtain n1 db1 where r1: "raw_loop None rc 0 db = (n1, db1)" by force
  obtain n2 db2 where r2: "hourly_loop None hc 0 db1 = (n2, db2)" by force
  obtain n3 db3 where r3: "daily_loop None dc 0 db2 = (n3, db3)" by force
  have eq: "db' = db3" "RawRowsCompacted result = n1"
    using run r1 r2 r3 by (auto simp: compactPrimaryUsage_def)
  note raw = raw_loop_spec [OF ok al(1) r1]
  then have "db_ok db1" by simp
  note hourly = hourly_loop_spec [OF this al(2) r2]
  then have "db_ok db2" by simp
  note daily = daily_loop_spec [OF this al(3) r3]
  show "db_ok db'" "without_usage db' = without_usage db"
    "usage_log db' = delete_where (\<lambda>r. ur_Timestamp r < rc) (usage_log db)"
    "RawRowsCompacted result = rows_affected (\<lambda>r. ur_Timestamp r < rc) (usage_log db)"
    "\<forall>r \<in> set (hourly_rollups db'). hc \<le> ro_BucketStart r" "\<forall>r \<in> set (daily_rollups db'). dc \<le> ro_BucketStart r"
    using raw hourly daily eq by (auto simp: rows)
  assume c: "aligned Day c" "dc \<le> c"
  have "usage_since c m g db3 = usage_since c m g db2"
    using daily by (simp add: usage_since_def expired_value [OF c(2)])
  moreover have "usage_by_day db2 (c, m, g) = usage_by_day db (c, m, g)" using raw hourly by simp
  ultimately show "usage_since c m g db' = usage_since c m g db" using c(1) eq by (simp add: usage_by_day_def)
qed

text \<open>
  Usage retention keeps the books (C5): for a valid policy one maintenance pass moves exactly the raw
  rows from before the raw cutoff out of the log and leaves the others as they are, leaves no hourly
  rollup from before the hourly cutoff and no daily rollup from before the daily cutoff, and for every
  key and tool the number of calls, of successful calls and the duration since any day not before the
  daily cutoff stay what they were, whatever resolution they are now kept at. The pass ends, whatever
  the tables hold, and an invalid policy changes nothing.
\<close>

theorem usage_maintenance_conserves:
  assumes ok: "db_ok db" and run: "RunUsageMaintenance debugOk policy now db = (res, db')"
  shows "(policy_Validate policy \<noteq> None \<longrightarrow> db' = db) \<and>
    (policy_Validate policy = None \<longrightarrow>
       db_ok db' \<and> (debugOk \<longrightarrow> \<not> isl res) \<and>
       usage_log db' = delete_where (\<lambda>r. ur_Timestamp r < raw_cutoff policy now) (usage_log db) \<and>
       (\<forall>r \<in> set (hourly_rollups db'). hourly_cutoff policy now \<le> ro_BucketStart r) \<and>
       (\<forall>r \<in> set (daily_rollups db'). daily_cutoff policy now \<le> ro_BucketStart r) \<and>
       (\<forall>c m g. aligned Day c \<and> daily_cutoff policy now \<le> c \<longrightarrow> usage_since c m g db' = usage_since c m g db) \<and>
       daily_cutoff policy now \<le> hourly_cutoff policy now \<and> hourly_cutoff policy now \<le> raw_cutoff policy now \<and>
       raw_cutoff policy now \<le> now)"
proof (cases "policy_Validate policy")
  case None
  obtain result db1 where c: "compactPrimaryUsage (raw_cutoff policy now) (hourly_cutoff policy now)
      (daily_cutoff policy now) db = (result, db1)" by force
  note spec = compactPrimaryUsage_spec [OF ok cutoffs_aligned c]
  have "\<exists>x. db' = db1\<lparr>usage_debug := x\<rparr>" "debugOk \<longrightarrow> \<not> isl res"
    using run None c by (auto simp: RunUsageMaintenance_def Let_def split: if_splits intro: exI [of _ "usage_debug db1"])
  then obtain x where x: "db' = db1\<lparr>usage_debug := x\<rparr>" "debugOk \<longrightarrow> \<not> isl res" by blast
  have "usage_since c m g db' = usage_since c m g db1" for c m g by (simp add: usage_since_def x(1))
  then show ?thesis
    using None x cutoffs_ordered [OF None, of now] spec by (simp add: debug_ok)
qed (use run in \<open>simp add: RunUsageMaintenance_def\<close>)

definition demo_policy :: UsageRetentionPolicy where
  "demo_policy = \<lparr>RawRetention = 24 * Hour, HourlyRetention = 48 * Hour, DailyRetention = 96 * Hour\<rparr>"

theorem usage_maintenance_conserves_witness:
  "policy_Validate demo_policy = None \<and>
   usage_log (snd (RunUsageMaintenance True demo_policy (30 * Hour) demo_db)) = [] \<and>
   usage_since 0 MetricCalls (''k1'', ''web_search'') (snd (RunUsageMaintenance True demo_policy (30 * Hour) demo_db)) = 1"
proof -
  have v: "policy_Validate demo_policy = None" by code_simp
  have d: "daily_cutoff demo_policy (30 * Hour) \<le> 0" by code_simp
  have r: "raw_cutoff demo_policy (30 * Hour) = 6 * Hour" by code_simp
  obtain res db' where run: "RunUsageMaintenance True demo_policy (30 * Hour) demo_db = (res, db')" by force
  note p = usage_maintenance_conserves [OF demo_db_ok run]
  have "usage_since 0 MetricCalls (''k1'', ''web_search'') demo_db = 1" by code_simp
  moreover have "delete_where (\<lambda>r. ur_Timestamp r < 6 * Hour) (usage_log demo_db) = []" by code_simp
  moreover have "aligned Day 0" by (simp add: aligned_def)
  ultimately show ?thesis using p v d r run by simp
qed

section \<open>What a batch records\<close>

text \<open>
  The rows a batch appends, numbered from the table's sequence, and what it charges to a key: one
  call for each of its records, and the latest of their times and its own.
\<close>

fun usage_rows :: "int \<Rightarrow> UsageRecord list \<Rightarrow> usage_row list" where
  "usage_rows seq [] = []"
| "usage_rows seq (r # rs) = \<lparr>ur_ID = seq + 1, ur_KeyID = rec_KeyID r, ur_ToolName = rec_ToolName r,
     ur_Timestamp = db_time (rec_Timestamp r), ur_DurationMs = rec_DurationMs r, ur_Success = rec_Success r\<rparr>
     # usage_rows (seq + 1) rs"

definition later :: "time option \<Rightarrow> time option \<Rightarrow> time option" where
  "later a b = (case (a, b) of (None, _) \<Rightarrow> b | (_, None) \<Rightarrow> a | (Some s, Some t) \<Rightarrow> Some (max s t))"

definition records_of :: "string \<Rightarrow> UsageRecord list \<Rightarrow> UsageRecord list" where
  "records_of i records = filter (\<lambda>r. rec_KeyID r = i) records"

definition last_use :: "UsageRecord list \<Rightarrow> time option" where
  "last_use rs = foldl later None (map (\<lambda>r. Some (db_time (rec_Timestamp r))) rs)"

definition charge :: "UsageRecord list \<Rightarrow> APIKey \<Rightarrow> APIKey" where
  "charge records k = k\<lparr>
     k_LastUsedAt := later (k_LastUsedAt k) (last_use (records_of (k_ID k) records)),
     k_TotalCalls := k_TotalCalls k + int (length (records_of (k_ID k) records))\<rparr>"

lemma insert_usage_loop_spec:
  "insert_usage_loop rs p ku db =
     (if \<forall>r \<in> set rs. key_row (rec_KeyID r) db \<noteq> None
      then Inr ((p @ zip (map ur_ID (usage_rows (usage_seq db) rs)) rs, fold note_key_update rs ku),
        db\<lparr>usage_log := usage_log db @ usage_rows (usage_seq db) rs, usage_seq := usage_seq db + int (length rs)\<rparr>)
      else Inl (StoreErrorf ''insert usage record''))"
proof (induction rs arbitrary: p ku db)
  case (Cons r rs)
  have "key_row i (db\<lparr>usage_log := l, usage_seq := q\<rparr>) = key_row i db" for i l q by (simp add: key_row_def)
  with Cons.IH show ?case by (simp add: insert_usage_def Let_def add.assoc)
qed simp

text \<open>The pending updates of the code's map, and applying them key by key.\<close>

lemma apply_key_update_later:
  "apply_key_update u k = k\<lparr>k_LastUsedAt := later (k_LastUsedAt k) (up_latestTimestamp u),
     k_TotalCalls := k_TotalCalls k + up_callCount u\<rparr>"
  by (simp add: apply_key_update_def later_def max_def split: option.splits)

definition pending :: "UsageRecord list \<Rightarrow> string \<Rightarrow> apiKeyUsageUpdate option" where
  "pending rs i = (if records_of i rs = [] then None else Some \<lparr>up_callCount = int (length (records_of i rs)),
     up_latestTimestamp = last_use (records_of i rs)\<rparr>)"

lemma fold_note_key_update:
  "distinct (map fst (fold note_key_update rs [])) \<and> lookup (fold note_key_update rs []) i = pending rs i"
proof (induction rs rule: rev_induct)
  case (snoc r rs)
  have "later l (Some t) = (case l of None \<Rightarrow> Some t | Some x \<Rightarrow> if x < t then Some t else Some x)" for l t
    by (auto simp: later_def max_def split: option.split)
  then have "last_use (xs @ [r]) = (case last_use xs of None \<Rightarrow> Some (db_time (rec_Timestamp r))
      | Some x \<Rightarrow> if x < db_time (rec_Timestamp r) then Some (db_time (rec_Timestamp r)) else Some x)" for xs
    by (simp add: last_use_def)
  with snoc show ?case
    by (auto simp: note_key_update_def Let_def pending_def records_of_def update_conv' distinct_update last_use_def [of "[]"])
qed (simp add: pending_def records_of_def)

lemma updateAPIKeyUsageBatch_spec:
  "distinct (map fst ku) \<Longrightarrow> updateAPIKeyUsageBatch ku db =
     db\<lparr>apikeys := map (\<lambda>k. case lookup ku (k_ID k) of None \<Rightarrow> k | Some u \<Rightarrow> apply_key_update u k) (apikeys db)\<rparr>"
proof (induction ku arbitrary: db)
  case (Cons a ku)
  obtain i u where a: "a = (i, u)" by force
  have "k_ID (apply_key_update u k) = k_ID k" for k by (simp add: apply_key_update_def)
  moreover have "lookup ku i = None" using Cons.prems a by (simp add: map_of_eq_None_iff)
  ultimately show ?case using Cons by (auto simp: a update_where_def)
qed simp

lemma charge_pending:
  "(case pending rs (k_ID k) of None \<Rightarrow> k | Some u \<Rightarrow> apply_key_update u k) = charge rs k"
  by (auto simp: pending_def charge_def apply_key_update_later last_use_def later_def split: option.split)

lemma usage_rows_ids:
  "map ur_ID (usage_rows q rs) = map (\<lambda>i. q + 1 + int i) [0..<length rs]"
  by (induction rs arbitrary: q) (simp_all add: upt_conv_Cons map_Suc_upt [symmetric] del: upt_Suc)

lemma usage_rows_times: "r \<in> set (usage_rows q rs) \<Longrightarrow> db_time (ur_Timestamp r) = ur_Timestamp r"
  by (induction rs arbitrary: q) auto

lemma usage_rows_keys: "ur_KeyID ` set (usage_rows q rs) = rec_KeyID ` set rs"
  by (induction rs arbitrary: q) auto

lemma usage_rows_ok:
  assumes "usage_ok l q"
  shows "usage_ok (l @ usage_rows q rs) (q + int (length rs))"
proof -
  have ids: "ur_ID ` set (usage_rows q rs) = (\<lambda>i. q + 1 + int i) ` {0..<length rs}"
    using arg_cong [OF usage_rows_ids [of q rs], of set] by simp
  have range: "q < ur_ID r \<and> ur_ID r \<le> q + int (length rs)" if "r \<in> set (usage_rows q rs)" for r
  proof -
    from that have "ur_ID r \<in> (\<lambda>i. q + 1 + int i) ` {0..<length rs}" unfolding ids [symmetric] by simp
    then show ?thesis by auto
  qed
  have "distinct (map ur_ID (usage_rows q rs))"
    unfolding usage_rows_ids by (simp add: distinct_map inj_on_def)
  moreover have "ur_ID ` set l \<inter> ur_ID ` set (usage_rows q rs) = {}"
    using assms range by (force simp: usage_ok_def)
  ultimately show ?thesis
    using assms range usage_rows_times by (fastforce simp: usage_ok_def)
qed

lemma charge_same [simp]:
  "k_ID (charge rs k) = k_ID k" "k_KeyHash (charge rs k) = k_KeyHash k" "k_UserID (charge rs k) = k_UserID k"
  "k_keyCiphertext (charge rs k) = k_keyCiphertext k" "k_keyNonce (charge rs k) = k_keyNonce k"
  "k_keyEncryptionVersion (charge rs k) = k_keyEncryptionVersion k" "k_CreatedAt (charge rs k) = k_CreatedAt k"
  "k_TotalCalls (charge rs k) = k_TotalCalls k + int (length (records_of (k_ID k) rs))"
  by (simp_all add: charge_def)

lemma charge_ok:
  assumes ok: "db_ok db" and keys: "rec_KeyID ` set rs \<subseteq> k_ID ` set (apikeys db)"
  shows "db_ok (db\<lparr>usage_log := usage_log db @ usage_rows (usage_seq db) rs,
    usage_seq := usage_seq db + int (length rs), apikeys := map (charge rs) (apikeys db)\<rparr>)"
proof -
  have "keys_ok (map (charge rs) (apikeys db))"
    using db_ok_keys [OF ok] by (auto simp: keys_ok_def comp_def)
  moreover have "usage_ok (usage_log db @ usage_rows (usage_seq db) rs) (usage_seq db + int (length rs))"
    using db_ok_rollups(3) [OF ok] by (rule usage_rows_ok)
  moreover have "k_ID ` charge rs ` set (apikeys db) = k_ID ` set (apikeys db)"
    "k_UserID ` charge rs ` set (apikeys db) = k_UserID ` set (apikeys db)"
    by (simp_all add: image_image)
  ultimately show ?thesis
    using ok keys by (simp add: db_ok_def references_ok_def image_Un usage_rows_keys)
qed

lemma persistPrimaryUsageBatch_spec:
  "persistPrimaryUsageBatch rs db =
     (if \<forall>r \<in> set rs. key_row (rec_KeyID r) db \<noteq> None
      then (Inr (zip (map ur_ID (usage_rows (usage_seq db) rs)) rs),
        db\<lparr>usage_log := usage_log db @ usage_rows (usage_seq db) rs,
           usage_seq := usage_seq db + int (length rs), apikeys := map (charge rs) (apikeys db)\<rparr>)
      else (Inl (StoreErrorf ''insert usage record''), db))"
  using fold_note_key_update [of rs]
  by (simp add: persistPrimaryUsageBatch_def run_tx_def insert_usage_loop_spec updateAPIKeyUsageBatch_spec charge_pending)

lemma persistPrimaryUsageBatch_missing:
  "\<not> (\<forall>r \<in> set rs. key_row (rec_KeyID r) db \<noteq> None) \<Longrightarrow>
     persistPrimaryUsageBatch rs db = (Inl (StoreErrorf ''insert usage record''), db)"
  unfolding persistPrimaryUsageBatch_spec by (rule if_not_P)

text \<open>
  A usage batch is all or nothing and charges every key exactly (C6): when every key of the batch
  exists, the call succeeds, one row per record is appended under fresh consecutive numbers, each
  key's total grows by the number of its records and its last use becomes the latest of what it was
  and its records' times; all other tables stay as they are (the debug rows aside, whose failure
  never fails the call). When a key is missing, the call fails and nothing is recorded.
\<close>

theorem usage_batch_exact:
  assumes ok: "db_ok db" and run: "RecordUsageBatch spool debugOk now records db = (res, db')"
  shows "if \<forall>r \<in> set records. key_row (rec_KeyID r) db \<noteq> None
    then res = Inr () \<and> db_ok db' \<and>
      db' = db\<lparr>usage_log := usage_log db @ usage_rows (usage_seq db) records,
        usage_seq := usage_seq db + int (length records), apikeys := map (charge records) (apikeys db),
        usage_debug := usage_debug db'\<rparr>
    else (\<exists>e. res = Inl e) \<and> db' = db"
proof (cases "\<forall>r \<in> set records. key_row (rec_KeyID r) db \<noteq> None")
  case True
  then have keys: "rec_KeyID ` set records \<subseteq> k_ID ` set (apikeys db)"
    by (force simp: key_row_def find_None_set)
  define db1 where "db1 = db\<lparr>usage_log := usage_log db @ usage_rows (usage_seq db) records,
        usage_seq := usage_seq db + int (length records), apikeys := map (charge records) (apikeys db)\<rparr>"
  have nil: "db = db1" if "records = []"
  proof -
    have "map (charge []) ks = ks" for ks
      by (induction ks) (auto simp: charge_def records_of_def last_use_def later_def split: option.split)
    with that show ?thesis by (simp add: db1_def)
  qed
  have "res = Inr () \<and> (\<exists>x. db' = db1\<lparr>usage_debug := x\<rparr>)"
  proof (cases "records = []")
    case True
    with run nil have "res = Inr () \<and> db' = db1\<lparr>usage_debug := usage_debug db1\<rparr>" by (simp add: RecordUsageBatch_def)
    then show ?thesis by blast
  next
    case False
    then show ?thesis using run True
      by (auto simp: RecordUsageBatch_def persistPrimaryUsageBatch_spec persistUsageDebugRecords_def Let_def
          db1_def [symmetric] split: if_splits intro: exI [of _ "usage_debug db1"])
  qed
  then obtain x where x: "res = Inr ()" "db' = db1\<lparr>usage_debug := x\<rparr>" by blast
  then show ?thesis using True charge_ok [OF ok keys] by (simp add: db1_def debug_ok)
next
  case False
  then have "records \<noteq> []" by auto
  then show ?thesis unfolding if_not_P [OF False]
    using run persistPrimaryUsageBatch_missing [OF False] by (auto simp: RecordUsageBatch_def)
qed

definition demo_record :: "time \<Rightarrow> UsageRecord" where
  "demo_record t = \<lparr>rec_KeyID = ''k1'', rec_ToolName = ''web_search'', rec_Timestamp = t, rec_DurationMs = 7,
     rec_Success = False, rec_DebugJSON = [], rec_RequestObservedBytes = 0, rec_ResponseObservedBytes = 0,
     rec_RequestTruncated = False, rec_ResponseTruncated = False, rec_RequestBodyPath = [], rec_ResponseBodyPath = []\<rparr>"

theorem usage_batch_exact_witness:
  "fst (RecordUsageBatch (\<lambda>_. None) True 0 [demo_record Hour, demo_record 0] demo_db) = Inr () \<and>
   map k_TotalCalls (apikeys (snd (RecordUsageBatch (\<lambda>_. None) True 0 [demo_record Hour, demo_record 0] demo_db))) = [2] \<and>
   map k_LastUsedAt (apikeys (snd (RecordUsageBatch (\<lambda>_. None) True 0 [demo_record Hour, demo_record 0] demo_db))) = [Some Hour]"
proof -
  let ?rs = "[demo_record Hour, demo_record 0]"
  obtain res db' where run: "RecordUsageBatch (\<lambda>_. None) True 0 ?rs demo_db = (res, db')" by force
  have k: "\<forall>r \<in> set ?rs. key_row (rec_KeyID r) demo_db \<noteq> None" by code_simp
  note p = usage_batch_exact [OF demo_db_ok run, unfolded if_P [OF k]]
  have "apikeys (db\<lparr>usage_log := l, usage_seq := q, apikeys := ks, usage_debug := d\<rparr>) = ks" for db :: DB and l q ks d
    by simp
  then have "apikeys db' = map (charge ?rs) (apikeys demo_db)" using p by metis
  moreover have "map k_TotalCalls (map (charge ?rs) (apikeys demo_db)) = [2]"
    "map k_LastUsedAt (map (charge ?rs) (apikeys demo_db)) = [Some Hour]" by code_simp+
  ultimately show ?thesis using p run by simp
qed

lemma RecordUsageBatch_ok:
  assumes ok: "db_ok db"
  shows "db_ok (snd (RecordUsageBatch spool debugOk now records db))"
proof (cases "\<forall>r \<in> set records. key_row (rec_KeyID r) db \<noteq> None")
  case True
  then have keys: "rec_KeyID ` set records \<subseteq> k_ID ` set (apikeys db)"
    by (force simp: key_row_def find_None_set)
  show ?thesis using charge_ok [OF ok keys] ok True
    by (simp add: RecordUsageBatch_def persistPrimaryUsageBatch_spec persistUsageDebugRecords_def Let_def debug_ok)
next
  case False
  with ok show ?thesis by (simp add: RecordUsageBatch_def persistPrimaryUsageBatch_missing [OF False])
qed

lemma RunUsageMaintenance_ok:
  assumes ok: "db_ok db"
  shows "db_ok (snd (RunUsageMaintenance debugOk policy now db))"
  using compactPrimaryUsage_spec(1) [OF ok cutoffs_aligned] ok
  by (simp add: RunUsageMaintenance_def Let_def debug_ok split: option.split prod.split)

end
