(* ===== verification/Store.thy ===== *)
theory Store
  imports Store_Invites Store_Settings Store_Tiers Store_Usage "HOL-Library.Sublist"
begin

text \<open>
  The store as a whole: the writing methods of the \<open>Store\<close> interface (\<open>internal/store/store.go\<close>) as the
  steps of one transition system over the database. Each step is one call as its own theory models
  it, with the caller's arguments, the clock and the randomness free; calls of concurrent requests
  interleave as whole steps, because the store keeps one writer connection. A database evolves by any
  sequence of steps.
\<close>

inductive store_step :: "crypto \<Rightarrow> DB \<Rightarrow> DB \<Rightarrow> bool" for cr :: crypto where
  create_user: "random_ok 16 rnd \<Longrightarrow> store_step cr db (snd (CreateUser rnd now username passwordHash role db))"
| update_user: "store_step cr db (snd (UpdateUser now i updates db))"
| delete_user: "store_step cr db (snd (DeleteUser debugOk i db))"
| reserve: "clock_ok now db \<Longrightarrow> store_step cr db (snd (ReserveSuccessCall rnd now userID successLimit db))"
| complete: "store_step cr db (snd (CompleteSuccessCall reservation succeeded db))"
| create_tier: "random_ok 16 rnd \<Longrightarrow> store_step cr db (snd (CreateTier rnd now name rpm successLimit isDefault db))"
| update_tier: "store_step cr db (snd (UpdateTier now i tierUpdates db))"
| delete_tier: "store_step cr db (snd (DeleteTier now i db))"
| create_key: "store_step cr db (snd (CreateKey cr keyBytes idBytes nonceBytes now userID name maximumKeys db))"
| update_key: "store_step cr db (snd (UpdateKey now i keyUpdates db))"
| delete_key: "store_step cr db (snd (DeleteKey debugOk i db))"
| create_invite: "store_step cr db (snd (CreateInviteCode cr keyBytes idBytes nonceBytes now createdBy registrationLimit db))"
| update_invite: "store_step cr db (snd (UpdateInviteCode now i inviteUpdates db))"
| delete_invite: "store_step cr db (snd (DeleteInviteCode i db))"
| register: "random_ok 16 idBytes \<Longrightarrow> store_step cr db
    (snd (RegisterUserWithCurrentMode cr idBytes redemptionBytes now username passwordHash raw fallback db))"
| upsert_settings: "store_step cr db (snd (UpsertServerSettings cr nonce1 nonce2 now settings db))"
| record_usage: "store_step cr db (snd (RecordUsageBatch spool debugOk now records db))"
| maintenance: "store_step cr db (snd (RunUsageMaintenance debugOk policy now db))"

inductive store_run :: "crypto \<Rightarrow> DB \<Rightarrow> DB \<Rightarrow> bool" for cr :: crypto where
  start: "store_run cr db db"
| step: "store_run cr db db' \<Longrightarrow> store_step cr db' db'' \<Longrightarrow> store_run cr db db''"

section \<open>Every call keeps the invariant\<close>

lemma store_step_ok: "store_step cr db db' \<Longrightarrow> db_ok db \<Longrightarrow> db_ok db'"
  by (induction rule: store_step.induct)
     (simp_all add: CreateUser_ok UpdateUser_ok DeleteUser_ok ReserveSuccessCall_ok CompleteSuccessCall_ok
       CreateTier_ok UpdateTier_ok DeleteTier_ok CreateKey_ok UpdateKey_ok DeleteKey_ok
       CreateInviteCode_ok UpdateInviteCode_ok DeleteInviteCode_ok RegisterUser_ok Upsert_ok
       RecordUsageBatch_ok RunUsageMaintenance_ok)

section \<open>Every call keeps an enabled administrator\<close>

lemma users_only:
  "users (snd (CreateTier rnd now name rpm successLimit isDefault db)) = users db"
  "users (snd (UpdateTier now i tierUpdates db)) = users db"
  "users (snd (CreateKey cr keyBytes idBytes nonceBytes now userID name maximumKeys db)) = users db"
  "users (snd (UpdateKey now i keyUpdates db)) = users db"
  "users (snd (DeleteKey debugOk i db)) = users db"
  "users (snd (CreateInviteCode cr keyBytes idBytes nonceBytes now createdBy registrationLimit db)) = users db"
  "users (snd (UpdateInviteCode now i inviteUpdates db)) = users db"
  "users (snd (DeleteInviteCode i db)) = users db"
  "users (snd (UpsertServerSettings cr nonce1 nonce2 now settings db)) = users db"
  "users (snd (RecordUsageBatch spool debugOk now records db)) = users db"
  by (auto simp: CreateTier_def run_tx_def Let_def insert_tier_def split: sum.split)
     (auto simp: UpdateTier_def CreateKey_def UpdateKey_def DeleteKey_def CreateInviteCode_def UpdateInviteCode_def
       DeleteInviteCode_def UpsertServerSettings_def run_tx_def Let_def update_tier_def insert_apikey_def
       insert_invite_def delete_apikeys_def deleteUsageDebugByKeyIDsBestEffort_def
       RecordUsageBatch_def persistPrimaryUsageBatch_spec persistUsageDebugRecords_def
       split: sum.split option.split prod.split)

lemma maintenance_users:
  assumes ok: "db_ok db"
  shows "users (snd (RunUsageMaintenance debugOk policy now db)) = users db"
proof -
  obtain result db' where c: "compactPrimaryUsage (raw_cutoff policy now) (hourly_cutoff policy now)
      (daily_cutoff policy now) db = (result, db')" by force
  have "users (without_usage db') = users (without_usage db)"
    by (simp only: compactPrimaryUsage_spec(2) [OF ok cutoffs_aligned c])
  then show ?thesis
    by (simp add: RunUsageMaintenance_def Let_def c without_usage_def split: option.split)
qed

text \<open>Calls that leave every user's role and switch alone, or only add users.\<close>

definition admin_flags :: "User list \<Rightarrow> (UserRole \<times> bool) list" where
  "admin_flags us = map (\<lambda>u. (u_Role u, u_Enabled u)) us"

lemma enabled_admins_flags:
  "enabled_admins db = count_if (\<lambda>(role, enabled). role = RoleAdmin \<and> enabled) (admin_flags (users db))"
  by (simp add: enabled_admins_def admin_flags_def count_if_def filter_map comp_def)

lemma admins_of_flags: "prefix (admin_flags (users db)) (admin_flags (users db')) \<Longrightarrow> enabled_admins db \<le> enabled_admins db'"
  by (auto simp: enabled_admins_flags prefix_def)

lemma flags_map: "(\<And>u. u_Role (f u) = u_Role u \<and> u_Enabled (f u) = u_Enabled u) \<Longrightarrow> admin_flags (map f us) = admin_flags us"
  by (simp add: admin_flags_def)

lemma flags_append: "admin_flags (us @ vs) = admin_flags us @ admin_flags vs"
  by (simp add: admin_flags_def)

lemma flags_kept:
  assumes ok: "db_ok db"
  shows "prefix (admin_flags (users db)) (admin_flags (users (snd (CreateUser rnd now username passwordHash role db))))"
    and "admin_flags (users (snd (ReserveSuccessCall rnd now userID successLimit db))) = admin_flags (users db)"
    and "admin_flags (users (snd (CompleteSuccessCall reservation succeeded db))) = admin_flags (users db)"
    and "admin_flags (users (snd (DeleteTier now i db))) = admin_flags (users db)"
proof -
  show "prefix (admin_flags (users db)) (admin_flags (users (snd (CreateUser rnd now username passwordHash role db))))"
    by (auto simp: CreateUser_def run_tx_def insert_user_def flags_append Let_def split: sum.split option.split)
  obtain r db' where r: "ReserveSuccessCall rnd now userID successLimit db = (r, db')" by force
  from ok r show "admin_flags (users (snd (ReserveSuccessCall rnd now userID successLimit db))) = admin_flags (users db)"
    by (cases rule: ReserveSuccessCall_cases) (auto simp: r update_where_def reserved_user_def split: if_splits intro!: flags_map)
  show "admin_flags (users (snd (CompleteSuccessCall reservation succeeded db))) = admin_flags (users db)"
    by (auto simp: CompleteSuccessCall_eq completed_user_def split: if_splits intro!: flags_map)
  from ok show "admin_flags (users (snd (DeleteTier now i db))) = admin_flags (users db)"
    by (cases rule: DeleteTier_cases [where i = i and now = now]) (auto simp: moved_user_def split: if_splits intro!: flags_map)
qed

lemma register_flags:
  "prefix (admin_flags (users db)) (admin_flags (users
     (snd (RegisterUserWithCurrentMode cr idBytes redemptionBytes now username passwordHash raw fallback db))))"
proof -
  obtain r db' where c: "RegisterUserWithCurrentMode cr idBytes redemptionBytes now username passwordHash raw fallback db = (r, db')"
    by fastforce
  then show ?thesis
  proof (cases rule: Register_cases)
    case (free i u)
    then show ?thesis using register_users [OF free(3)] c by (auto simp: flags_append)
  next
    case (invite i u)
    from invite(3) show ?thesis
    proof (cases rule: registerInvite_Inr)
      case (1 c' db1 rid)
      have "users db' = users db1" using 1 by simp
      then show ?thesis using register_users [OF 1(5)] c by (auto simp: flags_append)
    qed
  qed (simp add: c)
qed

lemma store_step_admins:
  assumes "store_step cr db db'" "db_ok db" "1 \<le> enabled_admins db"
  shows "1 \<le> enabled_admins db'"
  using assms
proof cases
  case (create_user rnd now username passwordHash role)
  then show ?thesis using admins_of_flags [OF flags_kept(1) [OF assms(2)]] assms(3) order_trans by blast
next
  case (register idBytes redemptionBytes now username passwordHash raw fallback)
  then show ?thesis using admins_of_flags [OF register_flags] assms(3) order_trans by blast
next
  case (update_user now i updates)
  then show ?thesis using UpdateUser_admins [OF assms(2,3)] by simp
next
  case (delete_user debugOk i)
  then show ?thesis using DeleteUser_admins [OF assms(2,3)] by simp
qed (use assms(2,3) in \<open>simp_all add: enabled_admins_flags users_only maintenance_users flags_kept(2-4)\<close>)


text \<open>A run that deletes the user and then fails to delete the last administrator.\<close>

definition demo_after_deletes :: DB where
  "demo_after_deletes = snd (DeleteUser True ''root'' (snd (DeleteUser True ''ann'' demo_db)))"


end
