(* ===== verification/Auth.thy ===== *)
theory Auth
  imports Store_Keys Store_Tiers Rate_Lib
begin

text \<open>
  HTTP authentication, \<open>internal/auth\<close>: the bearer header and API key shape of \<open>middleware.go\<close>, loading
  a user with the limits of its tier (\<open>user_context.go\<close>), and panel sessions (\<open>jwt.go\<close>). The store
  surfaces the code names as interfaces are records of functions over a state \<open>'s\<close>; signing and
  parsing of tokens belong to the \<open>jwt\<close> library and are the fields of \<open>jwt_lib\<close>, with what its
  documentation promises in \<open>jwt_ok\<close>. Log lines are not modelled.
\<close>

section \<open>The Authorization header\<close>

definition bearerPrefixLength :: nat where
  "bearerPrefixLength = 7"

definition bearerToken :: "Request \<Rightarrow> string option" where
  "bearerToken r =
     (case header_values (header r) ''Authorization'' of
        [authorizationValue] \<Rightarrow>
          if length authorizationValue \<le> bearerPrefixLength \<or>
             \<not> EqualFold (take (bearerPrefixLength - 1) authorizationValue) ''Bearer'' \<or>
             authorizationValue ! (bearerPrefixLength - 1) \<noteq> CHR '' ''
          then None
          else let token = drop bearerPrefixLength authorizationValue
            in if ContainsAny token [CHR '' '', CHR 0x09, CHR 0x0D, CHR 0x0A, CHR '','']
               then None else Some token
      | _ \<Rightarrow> None)"

function hex_digits_from :: "string \<Rightarrow> nat \<Rightarrow> bool" where
  "hex_digits_from token i =
     (if length token \<le> i then True
      else let character = token ! i
        in if (character < CHR ''0'' \<or> CHR ''9'' < character) \<and> (character < CHR ''a'' \<or> CHR ''f'' < character)
           then False else hex_digits_from token (Suc i))"
  by pat_completeness auto
termination
  by (relation "measure (\<lambda>(token, i). length token - i)") auto

declare hex_digits_from.simps [simp del]

definition isGeneratedAPIKey :: "string \<Rightarrow> bool" where
  "isGeneratedAPIKey token \<longleftrightarrow>
     (if length token \<noteq> 5 + 64 \<or> \<not> HasPrefix token ''grok_'' then False else hex_digits_from token 5)"

section \<open>Loading a user with its limits\<close>

datatype auth_error =
    AuthStoreError store_error
  | TierResolutionError string
  | AuthErrorf string
  | ErrAPIKeyResolverSaturated
  | ErrAPIKeyResolverClosed
  | errAPIKeyResolverLeaderPanicked

text \<open>\<open>errors.Is\<close> against the two store errors the HTTP answer depends on.\<close>

definition is_user_not_found :: "auth_error \<Rightarrow> bool" where
  "is_user_not_found e \<longleftrightarrow> e = AuthStoreError ErrUserNotFound"

definition is_tier_not_found :: "auth_error \<Rightarrow> bool" where
  "is_tier_not_found e \<longleftrightarrow> (case e of AuthStoreError x \<Rightarrow> x = ErrTierNotFound | TierResolutionError _ \<Rightarrow> True | _ \<Rightarrow> False)"

record 's UserTierLoader =
  load_user :: "'s \<Rightarrow> string \<Rightarrow> store_error + User"
  load_tier :: "'s \<Rightarrow> string \<Rightarrow> store_error + Tier option"

record 's APIKeyStore = "'s UserTierLoader" +
  load_key :: "'s \<Rightarrow> string \<Rightarrow> store_error + APIKey option"

definition resolveTier :: "('s, 'z) UserTierLoader_scheme \<Rightarrow> 's \<Rightarrow> User \<Rightarrow> auth_error + Tier" where
  "resolveTier loader s user =
     (let tierID = TrimSpace (u_TierID user)
      in if tierID = [] then Inl (AuthStoreError ErrTierNotAssignable)
         else case load_tier loader s tierID of
             Inl e \<Rightarrow> Inl (if e = ErrTierNotFound then TierResolutionError tierID else AuthStoreError e)
           | Inr None \<Rightarrow> Inl (TierResolutionError tierID)
           | Inr (Some tier) \<Rightarrow> Inr tier)"

definition AuthenticateUser ::
  "('s, 'z) UserTierLoader_scheme \<Rightarrow> 's \<Rightarrow> User option \<Rightarrow> auth_error + AuthenticatedUser" where
  "AuthenticateUser loader s u =
     (case u of
        None \<Rightarrow> Inl (AuthErrorf ''user is required'')
      | Some user \<Rightarrow>
          (case resolveTier loader s user of
             Inl e \<Rightarrow> Inl e
           | Inr tier \<Rightarrow> Inr \<lparr>au_User = user, au_RPM = t_RPM tier, au_SuccessLimit = t_SuccessLimit tier\<rparr>))"

definition LoadUserWithTierLimits ::
  "('s, 'z) UserTierLoader_scheme \<Rightarrow> 's \<Rightarrow> string \<Rightarrow> auth_error + AuthenticatedUser" where
  "LoadUserWithTierLimits loader s userID =
     (case load_user loader s userID of
        Inl e \<Rightarrow> Inl (AuthStoreError e)
      | Inr user \<Rightarrow> AuthenticateUser loader s (Some user))"

definition writeAuthLoadError :: "auth_error \<Rightarrow> http_error" where
  "writeAuthLoadError e =
     (if is_user_not_found e then http_Error StatusUnauthorized ''user not found''
      else if is_tier_not_found e then http_Error StatusInternalServerError ''authentication failed''
      else http_Error StatusInternalServerError ''authentication failed'')"

section \<open>API keys\<close>

text \<open>
  A resolver returns a key and a user, either of them possibly nil; \<open>'r\<close> is its own state. The
  middleware dereferences the user of a key it got.
\<close>

type_synonym 'r resolver =
  "string \<Rightarrow> 'r \<Rightarrow> (auth_error + APIKey option \<times> AuthenticatedUser option) \<times> 'r"

definition WithAPIKey :: "Context \<Rightarrow> APIKey \<Rightarrow> Context" where
  "WithAPIKey ctx key = ctx\<lparr>ctx_APIKey := Some key\<rparr>"

definition WithUser :: "Context \<Rightarrow> AuthenticatedUser \<Rightarrow> Context" where
  "WithUser ctx user = ctx\<lparr>ctx_User := Some user\<rparr>"

definition APIKeyMiddleware ::
  "(string \<Rightarrow> string) \<Rightarrow> 'r resolver \<Rightarrow> Request \<Rightarrow> Context \<Rightarrow> 'r \<Rightarrow> panic + Context outcome \<times> 'r" where
  "APIKeyMiddleware hash resolve r ctx s =
     (case bearerToken r of
        None \<Rightarrow> Inr (Respond (http_Error StatusUnauthorized ''missing or invalid Authorization header''), s)
      | Some token \<Rightarrow>
          if \<not> isGeneratedAPIKey token then Inr (Respond (http_Error StatusForbidden ''invalid API key''), s)
          else (case resolve (hash token) s of
              (Inl e, s') \<Rightarrow>
                Inr (Respond (if e = ErrAPIKeyResolverSaturated
                  then \<lparr>status = StatusServiceUnavailable, message = ''authentication temporarily unavailable'',
                        set_headers = [(''Retry-After'', ''1'')]\<rparr>
                  else writeAuthLoadError e), s')
            | (Inr (None, _), s') \<Rightarrow> Inr (Respond (http_Error StatusForbidden ''invalid API key''), s')
            | (Inr (Some key, user), s') \<Rightarrow>
                if \<not> k_Enabled key then Inr (Respond (http_Error StatusForbidden ''API key disabled''), s')
                else (case user of
                    None \<Rightarrow> Inl NilDereference
                  | Some u \<Rightarrow>
                      if \<not> u_Enabled (au_User u) then Inr (Respond (http_Error StatusForbidden ''user disabled''), s')
                      else Inr (Next (WithUser (WithAPIKey ctx key) u), s'))))"

section \<open>Panel sessions\<close>

record panelClaims =
  pc_UserID :: string
  pc_Username :: string
  pc_Role :: UserRole
  pc_TokenVersion :: int
  pc_Subject :: string
  pc_ExpiresAt :: "time option"
  pc_IssuedAt :: "time option"
  pc_NotBefore :: "time option"
  pc_Issuer :: string
  pc_Audience :: "string list"

definition panelClaims_Validate :: "panelClaims \<Rightarrow> string option" where
  "panelClaims_Validate c =
     (if pc_ExpiresAt c = None then Some ''expiration claim is required''
      else if pc_IssuedAt c = None then Some ''issued-at claim is required''
      else if pc_NotBefore c = None then Some ''not-before claim is required''
      else if TrimSpace (pc_UserID c) = [] then Some ''user identity claim is required''
      else if TrimSpace (pc_Subject c) = [] then Some ''subject claim is required''
      else if pc_UserID c \<noteq> pc_Subject c then Some ''user identity and subject claims do not match''
      else if pc_TokenVersion c < 0 then Some ''token version must be non-negative''
      else None)"

definition defaultJWTExpiry :: duration where "defaultJWTExpiry = 12 * Hour"
definition panelJWTLeeway :: duration where "panelJWTLeeway = 30 * Second"
definition jwtIssuer :: string where "jwtIssuer = ''grok-mcp''"
definition jwtAudience :: string where "jwtAudience = ''panel''"

record parser_options =
  validMethods :: "string list"
  issuer :: string
  audience :: string
  expirationRequired :: bool
  verifyIssuedAt :: bool
  leeway :: duration

record jwt_lib =
  SignedString :: "string \<Rightarrow> string \<Rightarrow> panelClaims \<Rightarrow> string + string"
  ParseWithClaims :: "parser_options \<Rightarrow> string \<Rightarrow> time \<Rightarrow> string \<Rightarrow> string + panelClaims"

definition panel_options :: parser_options where
  "panel_options = \<lparr>validMethods = [''HS256''], issuer = jwtIssuer, audience = jwtAudience,
     expirationRequired = True, verifyIssuedAt = True, leeway = panelJWTLeeway\<rparr>"

text \<open>\<open>jwt.NewNumericDate\<close> keeps whole seconds.\<close>

definition session_claims :: "time \<Rightarrow> time \<Rightarrow> User \<Rightarrow> panelClaims" where
  "session_claims now exp user = \<lparr>pc_UserID = u_ID user, pc_Username = u_Username user, pc_Role = u_Role user,
     pc_TokenVersion = u_TokenVersion user, pc_Subject = u_ID user,
     pc_ExpiresAt = Some (db_time exp), pc_IssuedAt = Some (db_time now), pc_NotBefore = Some (db_time now),
     pc_Issuer = jwtIssuer, pc_Audience = [jwtAudience]\<rparr>"

definition IssuePanelToken ::
  "jwt_lib \<Rightarrow> time \<Rightarrow> string \<Rightarrow> User \<Rightarrow> duration \<Rightarrow> string + string \<times> time" where
  "IssuePanelToken lib now secret user ttl0 =
     (let ttl = (if ttl0 \<le> 0 then defaultJWTExpiry else ttl0);
          exp = now + ttl
      in (case SignedString lib ''HS256'' secret (session_claims now exp user) of
            Inl e \<Rightarrow> Inl e
          | Inr signedToken \<Rightarrow> Inr (signedToken, exp)))"

definition parsePanelClaims :: "jwt_lib \<Rightarrow> string \<Rightarrow> time \<Rightarrow> string \<Rightarrow> string + panelClaims" where
  "parsePanelClaims lib secret now tokenString =
     (case ParseWithClaims lib panel_options secret now tokenString of
        Inl e \<Rightarrow> Inl (''parse panel token: '' @ e) | Inr claims \<Rightarrow> Inr claims)"

definition JWTMiddleware ::
  "jwt_lib \<Rightarrow> string \<Rightarrow> ('s, 'z) UserTierLoader_scheme \<Rightarrow> 's \<Rightarrow> time \<Rightarrow> Request \<Rightarrow> Context \<Rightarrow> Context outcome" where
  "JWTMiddleware lib secret st s now r ctx =
     (case bearerToken r of
        None \<Rightarrow> Respond (http_Error StatusUnauthorized ''unauthorized'')
      | Some tokenStr \<Rightarrow>
          (case parsePanelClaims lib secret now tokenStr of
             Inl _ \<Rightarrow> Respond (http_Error StatusUnauthorized ''unauthorized'')
           | Inr claims \<Rightarrow>
               (case LoadUserWithTierLimits st s (pc_UserID claims) of
                  Inl e \<Rightarrow> Respond (writeAuthLoadError e)
                | Inr user \<Rightarrow>
                    if \<not> u_Enabled (au_User user) then Respond (http_Error StatusForbidden ''user disabled'')
                    else if pc_Role claims \<noteq> u_Role (au_User user) \<or>
                       pc_TokenVersion claims \<noteq> u_TokenVersion (au_User user)
                    then Respond (http_Error StatusUnauthorized ''unauthorized'')
                    else Next (WithUser ctx user))))"

definition RequireAdmin :: "Context \<Rightarrow> Context outcome" where
  "RequireAdmin ctx =
     (case ctx_User ctx of
        None \<Rightarrow> Respond (http_Error StatusUnauthorized ''unauthorized'')
      | Some user \<Rightarrow>
          if u_Role (au_User user) \<noteq> RoleAdmin then Respond (http_Error StatusForbidden ''admin required'')
          else Next ctx)"

section \<open>Well-formed headers and keys\<close>

text \<open>What a bearer header is, as one predicate.\<close>

definition bearer_value :: "string \<Rightarrow> string \<Rightarrow> bool" where
  "bearer_value token v \<longleftrightarrow>
     (\<exists>scheme. v = scheme @ '' '' @ token \<and> EqualFold scheme ''Bearer'') \<and>
     token \<noteq> [] \<and> set token \<inter> {CHR '' '', CHR 0x09, CHR 0x0D, CHR 0x0A, CHR '',''} = {}"

lemma EqualFold_length: "EqualFold s t \<Longrightarrow> length s = length t"
  unfolding EqualFold_def by (drule arg_cong [of _ _ length]) simp

definition bearer_part :: "string \<Rightarrow> string option" where
  "bearer_part v =
     (if length v \<le> 7 \<or> \<not> EqualFold (take 6 v) ''Bearer'' \<or> v ! 6 \<noteq> CHR '' '' then None
      else if ContainsAny (drop 7 v) [CHR '' '', CHR 0x09, CHR 0x0D, CHR 0x0A, CHR '',''] then None
      else Some (drop 7 v))"

lemma bearer_part_Some: "bearer_part v = Some token \<longleftrightarrow> bearer_value token v"
proof
  assume "bearer_part v = Some token"
  then have v: "7 < length v" "EqualFold (take 6 v) ''Bearer''" "v ! 6 = CHR '' ''" "token = drop 7 v"
    "\<not> ContainsAny (drop 7 v) [CHR '' '', CHR 0x09, CHR 0x0D, CHR 0x0A, CHR '','']"
    by (auto simp: bearer_part_def split: if_splits)
  then have "v = take 6 v @ '' '' @ token" using id_take_nth_drop [of 6 v] by simp
  moreover have "set token \<inter> {CHR '' '', CHR 0x09, CHR 0x0D, CHR 0x0A, CHR '',''} = {}"
    using v(4,5) by (auto simp: ContainsAny_def list_ex_iff)
  moreover have "token \<noteq> []" using v(1,4) by simp
  ultimately show "bearer_value token v" using v(2) unfolding bearer_value_def by blast
next
  assume "bearer_value token v"
  then obtain scheme where v: "v = scheme @ '' '' @ token" "EqualFold scheme ''Bearer''" "token \<noteq> []"
    "set token \<inter> {CHR '' '', CHR 0x09, CHR 0x0D, CHR 0x0A, CHR '',''} = {}" by (auto simp: bearer_value_def)
  have six: "length scheme = 6" using EqualFold_length [OF v(2)] by simp
  have "\<not> ContainsAny token [CHR '' '', CHR 0x09, CHR 0x0D, CHR 0x0A, CHR '','']"
    using v(4) by (auto simp: ContainsAny_def list_ex_iff)
  then show "bearer_part v = Some token"
    using v(2,3) six by (simp add: bearer_part_def v(1) nth_append)
qed

lemma bearerToken_Some:
  "bearerToken r = Some token \<longleftrightarrow>
     (\<exists>v. header_values (header r) ''Authorization'' = [v] \<and> bearer_value token v)"
proof -
  have "bearerToken r = (case header_values (header r) ''Authorization'' of [v] \<Rightarrow> bearer_part v | _ \<Rightarrow> None)"
  proof (cases "header_values (header r) ''Authorization''")
    case (Cons v vs)
    then show ?thesis
      by (cases vs) (simp_all add: bearerToken_def bearerPrefixLength_def bearer_part_def Let_def)
  qed (simp add: bearerToken_def)
  then show ?thesis unfolding bearer_part_Some [symmetric]
    by (simp split: list.split)
qed

text \<open>The loop of \<open>isGeneratedAPIKey\<close> accepts exactly what \<open>generateRawKey\<close> writes.\<close>

definition hex_chars :: "char set" where
  "hex_chars = set ''0123456789abcdef''"

lemma hex_char_range:
  "c \<in> hex_chars \<longleftrightarrow> \<not> ((c < CHR ''0'' \<or> CHR ''9'' < c) \<and> (c < CHR ''a'' \<or> CHR ''f'' < c))"
proof -
  have h: "hex_chars = char_of ` (set [48..<58] \<union> set [97..<103 :: nat])" unfolding hex_chars_def by code_simp
  have m: "c \<in> char_of ` N \<longleftrightarrow> of_char c \<in> N" if "\<forall>n \<in> N. n < 256" for N :: "nat set"
  proof
    assume "c \<in> char_of ` N"
    then obtain n where "n \<in> N" "c = char_of n" by blast
    with that show "of_char c \<in> N" by (simp add: of_char_of)
  next
    assume "of_char c \<in> N"
    then have "char_of (of_char c :: nat) \<in> char_of ` N" by (rule imageI)
    then show "c \<in> char_of ` N" by simp
  qed
  have e: "set [48..<58] \<union> set [97..<103] = {n :: nat. 48 \<le> n \<and> n < 58 \<or> 97 \<le> n \<and> n < 103}"
    unfolding set_upt by auto
  have "c \<in> hex_chars \<longleftrightarrow> of_char c \<in> {n :: nat. 48 \<le> n \<and> n < 58 \<or> 97 \<le> n \<and> n < 103}"
    unfolding h e by (rule m) auto
  then show ?thesis by (auto simp: less_char_def)
qed

lemma hex_digits_from_iff: "hex_digits_from token i \<longleftrightarrow> set (drop i token) \<subseteq> hex_chars"
proof (induction token i rule: hex_digits_from.induct)
  case (1 token i)
  show ?case
  proof (cases "length token \<le> i")
    case False
    then have "drop i token = token ! i # drop (Suc i) token" by (simp add: Cons_nth_drop_Suc)
    then show ?thesis using 1 False
      by (subst hex_digits_from.simps) (auto simp: Let_def hex_char_range)
  qed (simp add: hex_digits_from.simps)
qed

lemma hex_digit_surj: "c \<in> hex_chars \<longleftrightarrow> (\<exists>n. 0 \<le> n \<and> n < 16 \<and> c = hex_digit n)"
proof -
  have "hex_chars = hex_digit ` set [0..15]" unfolding hex_chars_def by code_simp
  moreover have "set [0..15] = {n :: int. 0 \<le> n \<and> n < 16}" by auto
  ultimately show ?thesis by auto
qed

lemma hex_set: "(\<forall>b \<in> set bs. 0 \<le> b \<and> b < 256) \<Longrightarrow> set (hex bs) \<subseteq> hex_chars"
proof (induction bs)
  case (Cons b bs)
  then have "0 \<le> b div 16 \<and> b div 16 < 16" "0 \<le> b mod 16 \<and> b mod 16 < 16" by auto
  then have "hex_digit (b div 16) \<in> hex_chars" "hex_digit (b mod 16) \<in> hex_chars"
    unfolding hex_digit_surj by blast+
  with Cons show ?case by simp
qed simp

lemma hex_length: "length (hex bs) = 2 * length bs"
  by (induction bs) auto

lemma hex_inverse: "set s \<subseteq> hex_chars \<Longrightarrow> length s = 2 * n \<Longrightarrow>
    \<exists>bs. length bs = n \<and> (\<forall>b \<in> set bs. 0 \<le> b \<and> b < 256) \<and> s = hex bs"
proof (induction n arbitrary: s)
  case (Suc n)
  then obtain c d s' where s: "s = c # d # s'" by (cases s; cases "tl s") auto
  obtain m k where mk: "0 \<le> m" "m < 16" "c = hex_digit m" "0 \<le> k" "k < 16" "d = hex_digit k"
    using Suc.prems(1) by (auto simp: s hex_digit_surj)
  obtain bs where bs: "length bs = n" "\<forall>b \<in> set bs. 0 \<le> b \<and> b < 256" "s' = hex bs"
    using Suc.IH [of s'] Suc.prems by (auto simp: s)
  have "(16 * m + k) div 16 = m" "(16 * m + k) mod 16 = k" using mk by (simp_all add: div_add1_eq)
  then show ?case using bs mk by (intro exI [of _ "(16 * m + k) # bs"]) (auto simp: s)
qed simp

section \<open>Users with limits\<close>

text \<open>
  The interface of a loader: a user that loads has a tier that loads. Then every user that loads
  gets the limits of its tier, and the only failure is that of loading the user, so a consistent
  store never answers for a missing tier.
\<close>

locale user_tier_loader =
  fixes ok :: "'s \<Rightarrow> bool" and loader :: "('s, 'z) UserTierLoader_scheme"
  assumes user_has_tier: "ok s \<Longrightarrow> load_user loader s i = Inr u \<Longrightarrow>
      TrimSpace (u_TierID u) \<noteq> [] \<and> (\<exists>t. load_tier loader s (TrimSpace (u_TierID u)) = Inr (Some t))"
    and user_has_id: "ok s \<Longrightarrow> load_user loader s i = Inr u \<Longrightarrow> u_ID u = i"
begin

lemma load_limits:
  assumes "ok s"
  shows "LoadUserWithTierLimits loader s i =
    (case load_user loader s i of
       Inl e \<Rightarrow> Inl (AuthStoreError e)
     | Inr u \<Rightarrow> (case load_tier loader s (TrimSpace (u_TierID u)) of
         Inr (Some t) \<Rightarrow> Inr \<lparr>au_User = u, au_RPM = t_RPM t, au_SuccessLimit = t_SuccessLimit t\<rparr>
       | _ \<Rightarrow> Inl (AuthErrorf [])))"
  using user_has_tier [OF assms, of i]
  by (auto simp: LoadUserWithTierLimits_def AuthenticateUser_def resolveTier_def Let_def split: sum.splits option.splits)

lemma never_tier_error:
  assumes "ok s" "LoadUserWithTierLimits loader s i = Inl e"
  shows "\<exists>x. load_user loader s i = Inl x \<and> e = AuthStoreError x"
  using assms user_has_tier [OF assms(1), of i] by (auto simp: load_limits split: sum.splits option.splits)

end

definition store_loader :: "time \<Rightarrow> DB APIKeyStore" where
  "store_loader now = \<lparr>load_user = (\<lambda>db i. GetUserByID now i db),
     load_tier = (\<lambda>db i. map_sum id Some (GetTierByID i db)), load_key = (\<lambda>db h. GetKeyByHash h db)\<rparr>"

lemma store_loader_simps [simp]:
  "load_user (store_loader now) db i = GetUserByID now i db"
  "load_tier (store_loader now) db i = map_sum id Some (GetTierByID i db)"
  "load_key (store_loader now) db h = GetKeyByHash h db"
  by (simp_all add: store_loader_def)

lemma user_tier_row:
  assumes "db_ok db" "user_row i db = Some u"
  shows "\<exists>t. tier_row (u_TierID u) db = Some t \<and> TrimSpace (u_TierID u) = u_TierID u \<and> u_TierID u \<noteq> [] \<and> u_ID u = i"
proof -
  have u: "u \<in> set (users db)" "u_ID u = i" using assms user_row_Some by blast+
  then obtain t where t: "t \<in> set (tiers db)" "t_ID t = u_TierID u"
    using db_ok_references [OF assms(1)] by (auto simp: references_ok_def)
  moreover have "TrimSpace (t_ID t) = t_ID t" "t_ID t \<noteq> []"
    using db_ok_tiers [OF assms(1)] t(1) by (auto simp: tiers_ok_def)
  ultimately show ?thesis using u(2) tier_row_Some [OF assms(1)] by metis
qed

interpretation store_loads: user_tier_loader db_ok "store_loader now" for now
proof unfold_locales
  fix db i u assume ok: "db_ok db" and "load_user (store_loader now) db i = Inr u"
  then obtain r where r: "user_row i db = Some r" "u = scanUser now r"
    by (auto simp: GetUserByID_def split: option.splits)
  then show "TrimSpace (u_TierID u) \<noteq> [] \<and> (\<exists>t. load_tier (store_loader now) db (TrimSpace (u_TierID u)) = Inr (Some t))"
    "u_ID u = i"
    using user_tier_row [OF ok r(1)] by (auto simp: GetTierByID_def)
qed

text \<open>The limits a stored user gets.\<close>

definition authenticated :: "time \<Rightarrow> DB \<Rightarrow> User \<Rightarrow> AuthenticatedUser" where
  "authenticated now db u = (case tier_row (u_TierID u) db of
     Some t \<Rightarrow> \<lparr>au_User = scanUser now u, au_RPM = t_RPM t, au_SuccessLimit = t_SuccessLimit t\<rparr>)"

lemma load_stored_user:
  assumes ok: "db_ok db"
  shows "LoadUserWithTierLimits (store_loader now) db i =
    (case user_row i db of None \<Rightarrow> Inl (AuthStoreError ErrUserNotFound) | Some u \<Rightarrow> Inr (authenticated now db u))"
proof (cases "user_row i db")
  case (Some u)
  then obtain t where "tier_row (u_TierID u) db = Some t" "TrimSpace (u_TierID u) = u_TierID u"
    using user_tier_row [OF ok Some] by blast
  then show ?thesis using Some
    by (simp add: store_loads.load_limits [OF ok] GetUserByID_def GetTierByID_def authenticated_def)
qed (simp add: store_loads.load_limits [OF ok] GetUserByID_def)

section \<open>Sessions\<close>

text \<open>
  What the documentation of the \<open>jwt\<close> library promises for a parser with options: it returns the
  claims that were signed with the same secret and an accepted method, and it returns claims only if
  they pass the registered-claim checks and the claims' own \<open>Validate\<close>. A signed token is made of
  base64url characters and dots.
\<close>

definition registered_ok :: "parser_options \<Rightarrow> time \<Rightarrow> panelClaims \<Rightarrow> bool" where
  "registered_ok opts now c \<longleftrightarrow>
     (case pc_ExpiresAt c of None \<Rightarrow> \<not> expirationRequired opts | Some e \<Rightarrow> now < e + leeway opts) \<and>
     (case pc_NotBefore c of None \<Rightarrow> True | Some t \<Rightarrow> t - leeway opts \<le> now) \<and>
     (verifyIssuedAt opts \<longrightarrow> (case pc_IssuedAt c of None \<Rightarrow> True | Some t \<Rightarrow> t - leeway opts \<le> now)) \<and>
     pc_Issuer c = issuer opts \<and> audience opts \<in> set (pc_Audience c)"

definition jwt_ok :: "jwt_lib \<Rightarrow> bool" where
  "jwt_ok lib \<longleftrightarrow>
     (\<forall>opts secret now tok c. ParseWithClaims lib opts secret now tok = Inr c \<longrightarrow>
        registered_ok opts now c \<and> panelClaims_Validate c = None) \<and>
     (\<forall>opts alg secret now tok c. SignedString lib alg secret c = Inr tok \<longrightarrow> alg \<in> set (validMethods opts) \<longrightarrow>
        (case ParseWithClaims lib opts secret now tok of
           Inr c' \<Rightarrow> c' = c
         | Inl _ \<Rightarrow> \<not> (registered_ok opts now c \<and> panelClaims_Validate c = None))) \<and>
     (\<forall>alg secret tok c. SignedString lib alg secret c = Inr tok \<longrightarrow>
        tok \<noteq> [] \<and> set tok \<inter> {CHR '' '', CHR 0x09, CHR 0x0D, CHR 0x0A, CHR '',''} = {})"

definition session_request :: "string \<Rightarrow> Request \<Rightarrow> bool" where
  "session_request tok r \<longleftrightarrow> header_values (header r) ''Authorization'' = [''Bearer '' @ tok]"

lemma issued_claims:
  assumes lib: "jwt_ok lib" and iss: "IssuePanelToken lib t0 secret u ttl = Inr (tok, expiry)"
    and u: "u_ID u \<noteq> []" "TrimSpace (u_ID u) = u_ID u" "0 \<le> u_TokenVersion u" and now: "t0 \<le> now"
  shows "(\<exists>e. parsePanelClaims lib secret now tok = Inl e) \<and> db_time expiry + panelJWTLeeway \<le> now \<or>
    (\<exists>c. parsePanelClaims lib secret now tok = Inr c \<and> pc_UserID c = u_ID u \<and> pc_Role c = u_Role u \<and>
      pc_TokenVersion c = u_TokenVersion u) \<and> now < db_time expiry + panelJWTLeeway"
    and "bearer_value tok (''Bearer '' @ tok)"
proof -
  define c where "c = session_claims t0 expiry u"
  have c: "SignedString lib ''HS256'' secret c = Inr tok" "pc_UserID c = u_ID u" "pc_Subject c = u_ID u"
    "pc_Role c = u_Role u" "pc_TokenVersion c = u_TokenVersion u" "pc_ExpiresAt c = Some (db_time expiry)"
    "pc_IssuedAt c = Some (db_time t0)" "pc_NotBefore c = Some (db_time t0)"
    "pc_Issuer c = jwtIssuer" "pc_Audience c = [jwtAudience]"
    using iss by (auto simp: IssuePanelToken_def Let_def c_def session_claims_def split: sum.splits)
  have "db_time t0 - panelJWTLeeway \<le> now"
  proof -
    have "db_time t0 \<le> t0" by (simp add: db_time_def Second_def minus_mod_eq_div_mult [symmetric])
    then show ?thesis using now by (simp add: panelJWTLeeway_def Second_def)
  qed
  then have reg: "registered_ok panel_options now c \<longleftrightarrow> now < db_time expiry + panelJWTLeeway"
    using c by (simp add: registered_ok_def panel_options_def)
  have val: "panelClaims_Validate c = None" using c u by (simp add: panelClaims_Validate_def)
  have hs: "''HS256'' \<in> set (validMethods panel_options)" by (simp add: panel_options_def)
  have parse: "case ParseWithClaims lib panel_options secret now tok of
      Inr c' \<Rightarrow> c' = c | Inl _ \<Rightarrow> \<not> (registered_ok panel_options now c \<and> panelClaims_Validate c = None)"
    using lib c(1) hs unfolding jwt_ok_def by blast
  show "(\<exists>e. parsePanelClaims lib secret now tok = Inl e) \<and> db_time expiry + panelJWTLeeway \<le> now \<or>
    (\<exists>c. parsePanelClaims lib secret now tok = Inr c \<and> pc_UserID c = u_ID u \<and> pc_Role c = u_Role u \<and>
      pc_TokenVersion c = u_TokenVersion u) \<and> now < db_time expiry + panelJWTLeeway"
  proof (cases "ParseWithClaims lib panel_options secret now tok")
    case (Inl e)
    then show ?thesis using parse reg val by (auto simp: parsePanelClaims_def)
  next
    case (Inr c')
    then have "c' = c" using parse by simp
    moreover have "registered_ok panel_options now c'" using lib Inr unfolding jwt_ok_def by blast
    ultimately show ?thesis using Inr reg c by (auto simp: parsePanelClaims_def)
  qed
  have "tok \<noteq> [] \<and> set tok \<inter> {CHR '' '', CHR 0x09, CHR 0x0D, CHR 0x0A, CHR '',''} = {}"
    using lib c(1) unfolding jwt_ok_def by blast
  then show "bearer_value tok (''Bearer '' @ tok)"
    unfolding bearer_value_def by (intro conjI exI [of _ "''Bearer''"]) (simp_all add: EqualFold_def)
qed

lemma JWT_session:
  assumes lib: "jwt_ok lib" and iss: "IssuePanelToken lib t0 secret u ttl = Inr (tok, expiry)"
    and u: "u_ID u \<noteq> []" "TrimSpace (u_ID u) = u_ID u" "0 \<le> u_TokenVersion u" and now: "t0 \<le> now"
    and req: "session_request tok r" and ok: "db_ok db"
  shows "JWTMiddleware lib secret (store_loader now) db now r ctx =
    (if db_time expiry + panelJWTLeeway \<le> now then Respond (http_Error StatusUnauthorized ''unauthorized'')
     else case user_row (u_ID u) db of
         None \<Rightarrow> Respond (http_Error StatusUnauthorized ''user not found'')
       | Some v \<Rightarrow>
           if \<not> u_Enabled v then Respond (http_Error StatusForbidden ''user disabled'')
           else if u_Role v \<noteq> u_Role u \<or> u_TokenVersion v \<noteq> u_TokenVersion u
           then Respond (http_Error StatusUnauthorized ''unauthorized'')
           else Next (WithUser ctx (authenticated now db v)))"
proof -
  have b: "bearerToken r = Some tok"
    using issued_claims(2) [OF lib iss u now] req by (auto simp: bearerToken_Some session_request_def)
  have user: "au_User (authenticated now db v) = scanUser now v" if "user_row i db = Some v" for i v
    using user_tier_row [OF ok that] by (auto simp: authenticated_def)
  from issued_claims(1) [OF lib iss u now] show ?thesis
    by (auto simp: JWTMiddleware_def b load_stored_user [OF ok] writeAuthLoadError_def is_user_not_found_def user
        split: option.split)
qed

text \<open>
  Panel sessions (C7). A token issued for a stored user opens the panel exactly as long as it has not
  expired (30 seconds of leeway included) and the user still exists, is enabled and has the role and
  the token version it had; the request then carries that user with the limits of its tier. So after
  any update of the user that revokes sessions (a change of role or of the enabled switch, a new
  password, an explicit revocation) and after its deletion, every token issued before is refused with
  401 or 403.
\<close>

theorem panel_session_exact:
  assumes lib: "jwt_ok lib" and ok: "db_ok db" and row: "user_row i db = Some u"
    and iss: "IssuePanelToken lib t0 secret u ttl = Inr (tok, expiry)" and req: "session_request tok r"
    and now: "t0 \<le> now"
  shows "(\<forall>db'. db_ok db' \<longrightarrow>
      (\<forall>ctx'. JWTMiddleware lib secret (store_loader now) db' now r ctx = Next ctx' \<longleftrightarrow>
        now < db_time expiry + panelJWTLeeway \<and>
        (\<exists>v. user_row i db' = Some v \<and> u_Enabled v \<and> u_Role v = u_Role u \<and> u_TokenVersion v = u_TokenVersion u \<and>
           ctx' = WithUser ctx (authenticated now db' v)))) \<and>
    (\<forall>t updates u' db'. UpdateUser t i updates db = (Inr u', db') \<and> revokes updates u \<longrightarrow>
      (\<exists>e. JWTMiddleware lib secret (store_loader now) db' now r ctx = Respond e \<and> status e \<in> {401, 403}))"
proof -
  have u: "u \<in> set (users db)" "u_ID u = i" using row user_row_Some [OF ok] by auto
  then have ids: "u_ID u \<noteq> []" "TrimSpace (u_ID u) = u_ID u" "0 \<le> u_TokenVersion u"
    using db_ok_users [OF ok] by (auto simp: users_ok_def)
  note session = JWT_session [OF lib iss ids now req, unfolded u(2)]
  have "\<exists>e. JWTMiddleware lib secret (store_loader now) db' now r ctx = Respond e \<and> status e \<in> {401, 403}"
    if upd: "UpdateUser t i updates db = (Inr u', db')" "revokes updates u" for t updates u' db'
  proof -
    have ok': "db_ok db'" using UpdateUser_ok [OF ok, of t i updates] upd(1) by simp
    from ok upd(1) have "\<exists>v. user_row i db' = Some v \<and> u_TokenVersion v = u_TokenVersion u + 1"
    proof (cases rule: UpdateUser_cases)
      case (changed w)
      then have "w = u" using row by simp
      then show ?thesis using changed(1,3) upd(2)
        by (simp add: user_row_update) (simp add: stamped_def updated_user_def)
    next
      case (unchanged w)
      then show ?thesis using row upd(2) by simp
    qed simp
    then show ?thesis unfolding session [OF ok'] by (auto simp: http_Error_def)
  qed
  moreover have "JWTMiddleware lib secret (store_loader now) db' now r ctx = Next ctx' \<longleftrightarrow>
        now < db_time expiry + panelJWTLeeway \<and>
        (\<exists>v. user_row i db' = Some v \<and> u_Enabled v \<and> u_Role v = u_Role u \<and> u_TokenVersion v = u_TokenVersion u \<and>
           ctx' = WithUser ctx (authenticated now db' v))" if "db_ok db'" for db' ctx'
    unfolding session [OF that] by (auto split: option.splits)
  ultimately show ?thesis by blast
qed

text \<open>A library that signs one set of claims, and a session of the demo user revoked by an update.\<close>

definition demo_claims :: panelClaims where
  "demo_claims = session_claims demo_time (demo_time + Hour) (demo_user_row ''ann'' RoleUser 2)"

definition demo_jwt :: jwt_lib where
  "demo_jwt = \<lparr>SignedString = (\<lambda>alg secret c. if c = demo_claims then Inr ''abc'' else Inl ''claims''),
     ParseWithClaims = (\<lambda>opts secret now tok. if tok = ''abc'' \<and> registered_ok opts now demo_claims
        then Inr demo_claims else Inl ''token'')\<rparr>"

lemma demo_jwt_ok: "jwt_ok demo_jwt"
proof -
  have "panelClaims_Validate demo_claims = None" by code_simp
  then show ?thesis by (auto simp: jwt_ok_def demo_jwt_def split: if_splits)
qed

definition demo_session_request :: Request where
  "demo_session_request = \<lparr>RemoteAddr = ''10.0.0.1:1'', header = [(''Authorization'', [''Bearer abc''])]\<rparr>"

definition demo_revocation :: UserUpdates where
  "demo_revocation = \<lparr>uu_Enabled = None, uu_Role = None, uu_TierID = None, uu_RevokeTokens = Some True,
     uu_PasswordHash = None\<rparr>"

theorem panel_session_exact_witness:
  "(\<exists>ctx'. JWTMiddleware demo_jwt ''s'' (store_loader (demo_time + Minute)) demo_db (demo_time + Minute)
     demo_session_request emptyContext = Next ctx') \<and>
   (\<exists>e. JWTMiddleware demo_jwt ''s'' (store_loader (demo_time + Minute))
     (snd (UpdateUser demo_time ''ann'' demo_revocation demo_db)) (demo_time + Minute)
     demo_session_request emptyContext = Respond e \<and> status e \<in> {401, 403})"
proof -
  let ?u = "demo_user_row ''ann'' RoleUser 2"
  have row: "user_row ''ann'' demo_db = Some ?u" by code_simp
  have iss: "IssuePanelToken demo_jwt demo_time ''s'' ?u Hour = Inr (''abc'', demo_time + Hour)"
    by (simp add: IssuePanelToken_def demo_jwt_def demo_claims_def Hour_def Minute_def Second_def Let_def)
  have req: "session_request ''abc'' demo_session_request"
    by (simp add: session_request_def demo_session_request_def header_values_def)
  have later: "demo_time \<le> demo_time + Minute" by (simp add: Minute_def Second_def)
  note p = panel_session_exact [OF demo_jwt_ok demo_db_ok row iss req later, of emptyContext]
  have "demo_time + Minute < db_time (demo_time + Hour) + panelJWTLeeway" by code_simp
  then have "\<exists>ctx'. JWTMiddleware demo_jwt ''s'' (store_loader (demo_time + Minute)) demo_db (demo_time + Minute)
     demo_session_request emptyContext = Next ctx'" using p demo_db_ok row by (simp add: demo_user_row_def)
  moreover have "revokes demo_revocation ?u" by (simp add: revokes_def demo_revocation_def)
  moreover have "\<not> isl (fst (UpdateUser demo_time ''ann'' demo_revocation demo_db))" by code_simp
  then have "UpdateUser demo_time ''ann'' demo_revocation demo_db =
      (Inr (projr (fst (UpdateUser demo_time ''ann'' demo_revocation demo_db))), snd (UpdateUser demo_time ''ann'' demo_revocation demo_db))"
    by (simp add: prod_eq_iff)
  ultimately show ?thesis using p by blast
qed


text \<open>
  The shape test for API keys lets through exactly the strings key generation can write: \<open>grok_\<close>
  followed by the 64 lower-case hexadecimal digits of some 32 random bytes. No issued key is turned
  away unseen, and nothing else reaches the hash look-up.
\<close>

theorem api_key_shape:
  "isGeneratedAPIKey token \<longleftrightarrow>
     (\<exists>bs. length bs = 32 \<and> list_all (\<lambda>b. 0 \<le> b \<and> b < 256) bs \<and> generateRawKey (Some bs) = Inr token)"
proof
  assume t: "isGeneratedAPIKey token"
  then have p: "take 5 token = ''grok_''" "length token = 69" "hex_digits_from token 5"
    by (auto simp: isGeneratedAPIKey_def go_str starts_with_iff split: if_splits)
  then have "set (drop 5 token) \<subseteq> hex_chars" "length (drop 5 token) = 2 * 32"
    by (simp_all add: hex_digits_from_iff)
  then obtain bs where "length bs = 32" "\<forall>b \<in> set bs. 0 \<le> b \<and> b < 256" "drop 5 token = hex bs"
    using hex_inverse by blast
  moreover from this have "token = ''grok_'' @ hex bs" using p(1) by (metis append_take_drop_id)
  ultimately show "\<exists>bs. length bs = 32 \<and> list_all (\<lambda>b. 0 \<le> b \<and> b < 256) bs \<and> generateRawKey (Some bs) = Inr token"
    by (auto simp: generateRawKey_def list_all_iff)
next
  assume "\<exists>bs. length bs = 32 \<and> list_all (\<lambda>b. 0 \<le> b \<and> b < 256) bs \<and> generateRawKey (Some bs) = Inr token"
  then obtain bs where bs: "length bs = 32" "\<forall>b \<in> set bs. 0 \<le> b \<and> b < 256" "token = ''grok_'' @ hex bs"
    by (auto simp: generateRawKey_def list_all_iff)
  then have "length (hex bs) = 64" "set (hex bs) \<subseteq> hex_chars" using hex_length hex_set by simp_all
  then show "isGeneratedAPIKey token" by (simp add: isGeneratedAPIKey_def bs(3) hex_digits_from_iff go_str)
qed

end
