(* ===== verification/Resolver_Cache.thy ===== *)
theory Resolver_Cache
  imports Auth
begin

text \<open>
  The caching API key resolver, \<open>internal/auth/resolver_cache.go\<close>: a sharded LRU cache of complete
  authentication snapshots with expiry, negative entries, one load in flight per key hash, bounded
  concurrent misses, and invalidation by generation. A \<open>Resolve\<close> call is cut where the code holds no
  lock: the pieces are the definitions of the second section, and \<open>resolver_step\<close> interleaves them for
  any number of callers with changes of the store, invalidations, expiry and shutdown. List elements
  of the recency list are named by the hash of their entry; a flight is named by its index; \<open>now\<close> is
  what \<open>c.now()\<close> returned; a context error is its text.
\<close>

section \<open>State\<close>

record cacheEntry =
  en_key :: "APIKey option"
  en_user :: "AuthenticatedUser option"
  en_until :: time
  en_negative :: bool

record authCacheShard =
  byHash :: "(string, cacheEntry) gomap"
  recency :: "string list"
  maxEntries :: int

type_synonym resolved = "auth_error + APIKey option \<times> AuthenticatedUser option"

text \<open>\<open>None\<close>: the \<open>done\<close> channel is still open.\<close>

record apiKeyResolveFlight =
  fl_hash :: string
  fl_result :: "resolved option"

record APIKeyCacheConfig =
  cfg_TTL :: duration
  cfg_NegativeTTL :: duration
  cfg_CleanupInterval :: duration
  cfg_MaxEntries :: int
  cfg_ShardCount :: int
  cfg_MissMaxConcurrent :: int

record CachedAPIKeyResolver =
  rc_ttl :: duration
  rc_negativeTTL :: duration
  rc_shards :: "authCacheShard list"
  rc_generation :: "64 word"
  rc_inFlight :: "(string, nat) gomap"
  rc_flights :: "apiKeyResolveFlight list"
  rc_missAdmission :: int
  rc_missMaxConcurrent :: int
  rc_closed :: bool

definition defaultAuthCacheTTL :: duration where "defaultAuthCacheTTL = 30 * Second"
definition defaultAuthNegativeCacheTTL :: duration where "defaultAuthNegativeCacheTTL = 2 * Second"
definition authCacheCleanupInterval :: duration where "authCacheCleanupInterval = Minute"

definition normalizeAPIKeyCacheConfig :: "APIKeyCacheConfig \<Rightarrow> APIKeyCacheConfig" where
  "normalizeAPIKeyCacheConfig config =
     (let c1 = config\<lparr>cfg_TTL := (if cfg_TTL config \<le> 0 then defaultAuthCacheTTL else cfg_TTL config),
            cfg_NegativeTTL := (if cfg_NegativeTTL config \<le> 0 then defaultAuthNegativeCacheTTL else cfg_NegativeTTL config),
            cfg_CleanupInterval := (if cfg_CleanupInterval config \<le> 0 then authCacheCleanupInterval else cfg_CleanupInterval config),
            cfg_MaxEntries := (if cfg_MaxEntries config \<le> 0 then 4096 else cfg_MaxEntries config),
            cfg_ShardCount := (if cfg_ShardCount config \<le> 0 then 32 else cfg_ShardCount config)\<rparr>;
          c2 = (if cfg_MaxEntries c1 < cfg_ShardCount c1 then c1\<lparr>cfg_ShardCount := cfg_MaxEntries c1\<rparr> else c1);
          c3 = (if cfg_MissMaxConcurrent c2 \<le> 0 then c2\<lparr>cfg_MissMaxConcurrent := 32\<rparr> else c2)
      in if 1024 < cfg_MissMaxConcurrent c3 then c3\<lparr>cfg_MissMaxConcurrent := 1024\<rparr> else c3)"

definition NewCachedAPIKeyResolverWithConfig :: "APIKeyCacheConfig \<Rightarrow> CachedAPIKeyResolver" where
  "NewCachedAPIKeyResolverWithConfig config0 =
     (let config = normalizeAPIKeyCacheConfig config0;
          baseShardCapacity = cfg_MaxEntries config div cfg_ShardCount config;
          shardsWithExtraEntry = cfg_MaxEntries config mod cfg_ShardCount config
      in \<lparr>rc_ttl = cfg_TTL config, rc_negativeTTL = cfg_NegativeTTL config,
          rc_shards = map (\<lambda>shardIndex. \<lparr>byHash = [], recency = [],
             maxEntries = (if int shardIndex < shardsWithExtraEntry then baseShardCapacity + 1 else baseShardCapacity)\<rparr>)
             [0..<nat (cfg_ShardCount config)],
          rc_generation = 0, rc_inFlight = [], rc_flights = [],
          rc_missAdmission = 0, rc_missMaxConcurrent = cfg_MissMaxConcurrent config, rc_closed = False\<rparr>)"

section \<open>The cache\<close>

definition shardFor :: "string \<Rightarrow> nat \<Rightarrow> nat" where
  "shardFor keyHash shardCount =
     unat (foldl (\<lambda>hashValue ch. xor hashValue (of_nat (of_char ch)) * 1099511628211)
       (14695981039346656037 :: 64 word) keyHash mod of_nat shardCount)"

definition removeEntry :: "string \<Rightarrow> authCacheShard \<Rightarrow> authCacheShard" where
  "removeEntry keyHash s = s\<lparr>byHash := AList.delete keyHash (byHash s), recency := remove1 keyHash (recency s)\<rparr>"

definition load_shard ::
  "string \<Rightarrow> time \<Rightarrow> authCacheShard \<Rightarrow> (APIKey option \<times> AuthenticatedUser option) option \<times> authCacheShard" where
  "load_shard keyHash now shard =
     (case lookup (byHash shard) keyHash of
        None \<Rightarrow> (None, shard)
      | Some entry \<Rightarrow>
          if now < en_until entry
          then (Some (if en_negative entry then (None, None) else (en_key entry, en_user entry)),
                shard\<lparr>recency := keyHash # remove1 keyHash (recency shard)\<rparr>)
          else (None, removeEntry keyHash shard))"

definition loadCachedEntry ::
  "string \<Rightarrow> time \<Rightarrow> CachedAPIKeyResolver \<Rightarrow> (APIKey option \<times> AuthenticatedUser option) option \<times> CachedAPIKeyResolver" where
  "loadCachedEntry keyHash now c =
     (let i = shardFor keyHash (length (rc_shards c));
          (found, shard') = load_shard keyHash now (rc_shards c ! i)
      in (found, c\<lparr>rc_shards := (rc_shards c)[i := shard']\<rparr>))"

fun evict :: "nat \<Rightarrow> authCacheShard \<Rightarrow> authCacheShard" where
  "evict 0 s = s"
| "evict (Suc n) s =
     (if maxEntries s < int (length (byHash s))
      then (if recency s = [] then s else evict n (removeEntry (last (recency s)) s))
      else s)"

text \<open>The eviction loop removes one entry per round, so as many rounds as there are entries are enough.\<close>

definition store_shard :: "string \<Rightarrow> cacheEntry \<Rightarrow> authCacheShard \<Rightarrow> authCacheShard" where
  "store_shard keyHash entry shard =
     (let s1 = (if lookup (byHash shard) keyHash \<noteq> None then removeEntry keyHash shard else shard);
          s2 = s1\<lparr>recency := keyHash # recency s1, byHash := AList.update keyHash entry (byHash s1)\<rparr>
      in evict (length (byHash s2)) s2)"

definition storeEntry ::
  "string \<Rightarrow> APIKey option \<Rightarrow> AuthenticatedUser option \<Rightarrow> duration \<Rightarrow> bool \<Rightarrow> 64 word \<Rightarrow> time \<Rightarrow>
     CachedAPIKeyResolver \<Rightarrow> CachedAPIKeyResolver" where
  "storeEntry keyHash key user ttl negative loadGeneration now c =
     (if rc_closed c \<or> rc_generation c \<noteq> loadGeneration then c
      else let i = shardFor keyHash (length (rc_shards c));
             entry = \<lparr>en_key = key, en_user = user, en_until = now + ttl, en_negative = negative\<rparr>
        in c\<lparr>rc_shards := (rc_shards c)[i := store_shard keyHash entry (rc_shards c ! i)]\<rparr>)"

definition expire_shard :: "time \<Rightarrow> authCacheShard \<Rightarrow> authCacheShard" where
  "expire_shard now s =
     (let gone = map fst (filter (\<lambda>p. \<not> now < en_until (snd p)) (byHash s))
      in s\<lparr>byHash := filter (\<lambda>p. now < en_until (snd p)) (byHash s),
           recency := filter (\<lambda>h. h \<notin> set gone) (recency s)\<rparr>)"

definition removeExpiredEntries :: "time \<Rightarrow> CachedAPIKeyResolver \<Rightarrow> CachedAPIKeyResolver" where
  "removeExpiredEntries now c = c\<lparr>rc_shards := map (expire_shard now) (rc_shards c)\<rparr>"

definition InvalidateAll :: "CachedAPIKeyResolver \<Rightarrow> CachedAPIKeyResolver" where
  "InvalidateAll c = c\<lparr>rc_generation := rc_generation c + 1,
     rc_shards := map (\<lambda>s. s\<lparr>byHash := [], recency := []\<rparr>) (rc_shards c)\<rparr>"

section \<open>Loading\<close>

definition loadFromStore :: "'s APIKeyStore \<Rightarrow> 's \<Rightarrow> string \<Rightarrow> resolved" where
  "loadFromStore st s keyHash =
     (case load_key st s keyHash of
        Inl e \<Rightarrow> Inl (AuthStoreError e)
      | Inr None \<Rightarrow> Inr (None, None)
      | Inr (Some key) \<Rightarrow>
          (case LoadUserWithTierLimits st s (k_UserID key) of
             Inl e \<Rightarrow> Inl e
           | Inr user \<Rightarrow> Inr (Some key, Some user)))"

definition completeFlight :: "string \<Rightarrow> nat \<Rightarrow> resolved \<Rightarrow> CachedAPIKeyResolver \<Rightarrow> CachedAPIKeyResolver" where
  "completeFlight keyHash f result c =
     (if fl_result (rc_flights c ! f) \<noteq> None then c
      else c\<lparr>rc_flights := (rc_flights c)[f := (rc_flights c ! f)\<lparr>fl_result := Some result\<rparr>],
             rc_inFlight := (if lookup (rc_inFlight c) keyHash = Some f
               then AList.delete keyHash (rc_inFlight c) else rc_inFlight c)\<rparr>)"

text \<open>\<open>Close\<close> completes every flight it finds, in any order of the Go map; the second call does nothing.\<close>

definition resolver_Close :: "CachedAPIKeyResolver \<Rightarrow> CachedAPIKeyResolver" where
  "resolver_Close c =
     (if rc_closed c then c
      else fold (\<lambda>(keyHash, f). completeFlight keyHash f (Inl ErrAPIKeyResolverClosed)) (rc_inFlight c)
        (c\<lparr>rc_closed := True, rc_generation := rc_generation c + 1\<rparr>))"

text \<open>
  Where a \<open>Resolve\<close> call stands: at its start, past the first cache look-up, leading a flight before
  admission, admitted to load, past each of the reads of the store that a load makes (with the store
  state it saw), after loading and after caching, waiting for a flight, or returned.
\<close>

datatype 's resolve_state =
    Started
  | Missed
  | Leading nat "64 word"
  | Admitted nat "64 word"
  | KeyRead nat "64 word" 's
  | UserRead nat "64 word" 's 's
  | Loaded nat "64 word" resolved
  | Stored nat resolved
  | Waiting nat
  | Returned resolved
  | Panicked

definition resolve_begin :: "string \<Rightarrow> time \<Rightarrow> CachedAPIKeyResolver \<Rightarrow> 's resolve_state \<times> CachedAPIKeyResolver" where
  "resolve_begin keyHash now c =
     (if rc_closed c then (Returned (Inl ErrAPIKeyResolverClosed), c)
      else (case loadCachedEntry keyHash now c of
          (Some r, c') \<Rightarrow> (Returned (Inr r), c')
        | (None, c') \<Rightarrow> (Missed, c')))"

definition resolve_flight :: "string \<Rightarrow> time \<Rightarrow> CachedAPIKeyResolver \<Rightarrow> 's resolve_state \<times> CachedAPIKeyResolver" where
  "resolve_flight keyHash now c =
     (if rc_closed c then (Returned (Inl ErrAPIKeyResolverClosed), c)
      else (case lookup (rc_inFlight c) keyHash of
          Some f \<Rightarrow> (Waiting f, c)
        | None \<Rightarrow>
            (case loadCachedEntry keyHash now c of
               (Some r, c') \<Rightarrow> (Returned (Inr r), c')
             | (None, c') \<Rightarrow>
                 let f = length (rc_flights c')
                 in (Leading f (rc_generation c'),
                     c'\<lparr>rc_flights := rc_flights c' @ [\<lparr>fl_hash = keyHash, fl_result = None\<rparr>],
                        rc_inFlight := AList.update keyHash f (rc_inFlight c')\<rparr>))))"

text \<open>
  The \<open>select\<close>: a free slot is taken unless the context is done as well and Go picks that case
  (\<open>pickDone\<close>); with no slot free a done context wins over the default.
\<close>

definition resolve_admit ::
  "string \<Rightarrow> nat \<Rightarrow> 64 word \<Rightarrow> string option \<Rightarrow> bool \<Rightarrow> CachedAPIKeyResolver \<Rightarrow> 's resolve_state \<times> CachedAPIKeyResolver" where
  "resolve_admit keyHash f gen ctxErr pickDone c =
     (if rc_missAdmission c < rc_missMaxConcurrent c \<and> \<not> (ctxErr \<noteq> None \<and> pickDone)
      then (Admitted f gen, c\<lparr>rc_missAdmission := rc_missAdmission c + 1\<rparr>)
      else (case ctxErr of
          Some e \<Rightarrow> (Returned (Inl (AuthErrorf e)), completeFlight keyHash f (Inl (AuthErrorf e)) c)
        | None \<Rightarrow> (Returned (Inl ErrAPIKeyResolverSaturated), completeFlight keyHash f (Inl ErrAPIKeyResolverSaturated) c)))"

text \<open>
  The three reads of a load see the store at three moments; the load of the code over that triple.
\<close>

definition at_moments :: "'s APIKeyStore \<Rightarrow> ('s \<times> 's \<times> 's) APIKeyStore" where
  "at_moments st = \<lparr>load_user = (\<lambda>(_, s, _). load_user st s), load_tier = (\<lambda>(_, _, s). load_tier st s),
     load_key = (\<lambda>(s, _, _). load_key st s)\<rparr>"

definition resolve_load ::
  "'s APIKeyStore \<Rightarrow> 's \<times> 's \<times> 's \<Rightarrow> string \<Rightarrow> nat \<Rightarrow> 64 word \<Rightarrow> CachedAPIKeyResolver \<Rightarrow> 's resolve_state \<times> CachedAPIKeyResolver" where
  "resolve_load st moments keyHash f gen c =
     (Loaded f gen (loadFromStore (at_moments st) moments keyHash), c\<lparr>rc_missAdmission := rc_missAdmission c - 1\<rparr>)"

definition resolve_panic :: "string \<Rightarrow> nat \<Rightarrow> CachedAPIKeyResolver \<Rightarrow> 's resolve_state \<times> CachedAPIKeyResolver" where
  "resolve_panic keyHash f c =
     (Panicked, completeFlight keyHash f (Inl errAPIKeyResolverLeaderPanicked)
        (c\<lparr>rc_missAdmission := rc_missAdmission c - 1\<rparr>))"

definition resolve_store :: "string \<Rightarrow> 64 word \<Rightarrow> resolved \<Rightarrow> time \<Rightarrow> CachedAPIKeyResolver \<Rightarrow> CachedAPIKeyResolver" where
  "resolve_store keyHash gen result now c =
     (case result of
        Inl _ \<Rightarrow> c
      | Inr (key, user) \<Rightarrow>
          if rc_closed c then c
          else if key = None then storeEntry keyHash None None (rc_negativeTTL c) True gen now c
          else storeEntry keyHash key user (rc_ttl c) False gen now c)"

definition resolve_complete :: "string \<Rightarrow> nat \<Rightarrow> resolved \<Rightarrow> CachedAPIKeyResolver \<Rightarrow> 's resolve_state \<times> CachedAPIKeyResolver" where
  "resolve_complete keyHash f result c = (Waiting f, completeFlight keyHash f result c)"

definition waitForAPIKeyResolveFlight :: "nat \<Rightarrow> string option \<Rightarrow> bool \<Rightarrow> CachedAPIKeyResolver \<Rightarrow> 's resolve_state" where
  "waitForAPIKeyResolveFlight f ctxErr pickDone c =
     (case (ctxErr, fl_result (rc_flights c ! f)) of
        (None, None) \<Rightarrow> Waiting f
      | (None, Some result) \<Rightarrow> Returned result
      | (Some e, None) \<Rightarrow> Returned (Inl (AuthErrorf e))
      | (Some e, Some result) \<Rightarrow> Returned (if pickDone then Inl (AuthErrorf e) else result))"

section \<open>A shard is a bounded LRU list\<close>

text \<open>
  The specification of a shard: hashes with their entries, most recently used first. The map and the
  recency list of the code represent it when they hold the same distinct hashes.
\<close>

type_synonym lru = "(string \<times> cacheEntry) list"

definition lru_get :: "string \<Rightarrow> time \<Rightarrow> lru \<Rightarrow> (APIKey option \<times> AuthenticatedUser option) option \<times> lru" where
  "lru_get h now xs =
     (case map_of xs h of
        None \<Rightarrow> (None, xs)
      | Some e \<Rightarrow>
          let rest = filter (\<lambda>p. fst p \<noteq> h) xs
          in if now < en_until e
             then (Some (if en_negative e then (None, None) else (en_key e, en_user e)), (h, e) # rest)
             else (None, rest))"

definition lru_put :: "nat \<Rightarrow> string \<Rightarrow> cacheEntry \<Rightarrow> lru \<Rightarrow> lru" where
  "lru_put capacity h e xs = take capacity ((h, e) # filter (\<lambda>p. fst p \<noteq> h) xs)"

definition shard_rep :: "authCacheShard \<Rightarrow> bool" where
  "shard_rep s \<longleftrightarrow> map_ok (byHash s) \<and> distinct (recency s) \<and> set (recency s) = fst ` set (byHash s)"

definition shard_abs :: "authCacheShard \<Rightarrow> lru" where
  "shard_abs s = map (\<lambda>h. (h, the (lookup (byHash s) h))) (recency s)"

lemma map_of_tabulate: "map_of (map (\<lambda>h. (h, f h)) xs) h = (if h \<in> set xs then Some (f h) else None)"
  by (induction xs) auto

lemma delete_filter: "AList.delete k m = filter (\<lambda>p. fst p \<noteq> k) m"
  by (induction m) auto

lemma remove1_filter: "distinct xs \<Longrightarrow> remove1 h xs = filter (\<lambda>k. k \<noteq> h) xs"
  by (induction xs) (auto intro!: filter_True [symmetric])

lemma rep_recency: "shard_rep s \<Longrightarrow> h \<in> set (recency s) \<longleftrightarrow> lookup (byHash s) h \<noteq> None"
  by (simp add: shard_rep_def map_of_eq_None_iff)

lemma shard_abs_lookup: "shard_rep s \<Longrightarrow> map_of (shard_abs s) h = lookup (byHash s) h"
  by (simp add: shard_abs_def map_of_tabulate rep_recency)

lemma shard_abs_set: "shard_rep s \<Longrightarrow> set (shard_abs s) = set (byHash s)"
proof -
  assume r: "shard_rep s"
  have "(h, e) \<in> set (shard_abs s) \<longleftrightarrow> lookup (byHash s) h = Some e" for h e
    using r shard_abs_lookup [OF r, of h]
    by (auto simp: shard_abs_def map_of_tabulate shard_rep_def split: if_splits)
  moreover have "(h, e) \<in> set (byHash s) \<longleftrightarrow> lookup (byHash s) h = Some e" for h e
    using r by (simp add: shard_rep_def lookup_Some_iff)
  ultimately show ?thesis by auto
qed

lemma shard_abs_length: "shard_rep s \<Longrightarrow> length (shard_abs s) = length (byHash s)"
  using distinct_card [of "recency s"] distinct_card [of "map fst (byHash s)"]
  by (simp add: shard_abs_def shard_rep_def map_ok_def)

text \<open>Restricting map and list alike restricts the LRU list.\<close>

lemma restrict_rep:
  assumes "shard_rep s" "byHash s' = filter (\<lambda>p. P (fst p)) (byHash s)" "recency s' = filter P (recency s)"
  shows "shard_rep s'" "shard_abs s' = filter (\<lambda>p. P (fst p)) (shard_abs s)"
proof -
  have "lookup (filter (\<lambda>p. P (fst p)) m) h = lookup m h" if "P h" for m :: "(string, cacheEntry) gomap" and h
    using that by (induction m) auto
  then have "map (\<lambda>h. (h, the (lookup (filter (\<lambda>p. P (fst p)) (byHash s)) h))) (filter P xs) =
      filter (\<lambda>p. P (fst p)) (map (\<lambda>h. (h, the (lookup (byHash s) h))) xs)" for xs
    by (induction xs) auto
  then show "shard_abs s' = filter (\<lambda>p. P (fst p)) (shard_abs s)" by (simp add: shard_abs_def assms(2,3))
  show "shard_rep s'" using assms by (auto simp: shard_rep_def)
qed

lemma removeEntry_refines:
  assumes "shard_rep s"
  shows "shard_rep (removeEntry h s)" "shard_abs (removeEntry h s) = filter (\<lambda>p. fst p \<noteq> h) (shard_abs s)"
  using restrict_rep [OF assms, of "removeEntry h s" "\<lambda>k. k \<noteq> h"] assms
  by (simp_all add: removeEntry_def delete_filter shard_rep_def remove1_filter)

lemma expire_refines:
  assumes r: "shard_rep s"
  shows "shard_rep (expire_shard now s)" "shard_abs (expire_shard now s) = filter (\<lambda>p. now < en_until (snd p)) (shard_abs s)"
proof -
  let ?P = "\<lambda>h. case lookup (byHash s) h of Some e \<Rightarrow> now < en_until e | None \<Rightarrow> False"
  have live: "?P (fst p) \<longleftrightarrow> now < en_until (snd p)" if "p \<in> set (byHash s)" for p
  proof -
    obtain h e where p: "p = (h, e)" by force
    then have "lookup (byHash s) h = Some e" using that r by (simp add: shard_rep_def lookup_Some_iff)
    then show ?thesis by (simp add: p)
  qed
  have bh: "byHash (expire_shard now s) = filter (\<lambda>p. ?P (fst p)) (byHash s)"
    unfolding expire_shard_def Let_def by (simp add: live cong: filter_cong)
  have "h \<notin> fst ` {p \<in> set (byHash s). \<not> now < en_until (snd p)} \<longleftrightarrow> ?P h" if hs: "h \<in> set (recency s)" for h
  proof -
    obtain e where l: "lookup (byHash s) h = Some e" using hs rep_recency [OF r] by auto
    then have e: "(h, e) \<in> set (byHash s)" by (rule map_of_SomeD)
    have uniq: "p = (h, e)" if "p \<in> set (byHash s)" "fst p = h" for p
      using that l r by (metis lookup_Some_iff option.inject prod.collapse shard_rep_def)
    have "h \<in> fst ` {p \<in> set (byHash s). \<not> now < en_until (snd p)} \<longleftrightarrow> \<not> now < en_until e"
    proof
      assume "h \<in> fst ` {p \<in> set (byHash s). \<not> now < en_until (snd p)}"
      then obtain p where p: "p \<in> set (byHash s)" "\<not> now < en_until (snd p)" "fst p = h" by blast
      then show "\<not> now < en_until e" using uniq [OF p(1,3)] by simp
    qed (use e in \<open>force intro: image_eqI [of _ _ "(h, e)"]\<close>)
    then show ?thesis using l by simp
  qed
  then have rc: "recency (expire_shard now s) = filter ?P (recency s)"
    unfolding expire_shard_def Let_def by (simp cong: filter_cong)
  note e = restrict_rep [OF r bh rc]
  then show "shard_rep (expire_shard now s)" "shard_abs (expire_shard now s) = filter (\<lambda>p. now < en_until (snd p)) (shard_abs s)"
    using filter_cong [of "shard_abs s" "shard_abs s" "\<lambda>p. ?P (fst p)" "\<lambda>p. now < en_until (snd p)"]
    by (simp_all only: live shard_abs_set [OF r])
qed

lemma load_refines:
  assumes r: "shard_rep s"
  shows "shard_rep (snd (load_shard h now s)) \<and> (fst (load_shard h now s), shard_abs (snd (load_shard h now s))) = lru_get h now (shard_abs s)"
proof (cases "lookup (byHash s) h")
  case (Some e)
  have h: "h \<in> set (recency s)" using Some r by (auto simp: shard_rep_def dest: map_of_SomeD intro: rev_image_eqI)
  have front: "shard_rep (s\<lparr>recency := h # remove1 h (recency s)\<rparr>)"
    "shard_abs (s\<lparr>recency := h # remove1 h (recency s)\<rparr>) = (h, e) # filter (\<lambda>p. fst p \<noteq> h) (shard_abs s)"
    using r h Some
    by (auto simp: shard_rep_def shard_abs_def remove1_filter filter_map comp_def)
  show ?thesis using front removeEntry_refines [OF r, of h] Some
    by (simp add: load_shard_def lru_get_def shard_abs_lookup [OF r] Let_def)
qed (use r in \<open>simp add: load_shard_def lru_get_def shard_abs_lookup [OF r]\<close>)

lemma evict_refines:
  assumes "shard_rep s" "0 \<le> maxEntries s" "length (byHash s) \<le> n"
  shows "shard_rep (evict n s) \<and> maxEntries (evict n s) = maxEntries s \<and>
    shard_abs (evict n s) = take (nat (maxEntries s)) (shard_abs s)"
  using assms
proof (induction n arbitrary: s)
  case (Suc n)
  note len = shard_abs_length [OF Suc.prems(1)]
  show ?case
  proof (cases "maxEntries s < int (length (byHash s))")
    case True
    have ne: "recency s \<noteq> []" using len True Suc.prems(2) by (auto simp: shard_abs_def)
    let ?s = "removeEntry (last (recency s)) s"
    note r = removeEntry_refines [OF Suc.prems(1), of "last (recency s)"]
    have abs: "shard_abs ?s = butlast (shard_abs s)"
    proof -
      obtain ys y where rec: "recency s = ys @ [y]" using ne by (cases "recency s" rule: rev_cases) auto
      then have "y \<notin> set ys" using Suc.prems(1) by (simp add: shard_rep_def)
      then have "filter (\<lambda>p. fst p \<noteq> y) (map (\<lambda>h. (h, the (lookup (byHash s) h))) ys) = map (\<lambda>h. (h, the (lookup (byHash s) h))) ys"
        by (auto simp: filter_id_conv)
      then show ?thesis unfolding r(2) by (simp add: shard_abs_def rec)
    qed
    have "length (byHash ?s) = length (byHash s) - 1"
      using shard_abs_length [OF r(1)] len by (simp add: abs)
    then have "length (byHash ?s) \<le> n" using Suc.prems(3) by simp
    moreover have max: "maxEntries ?s = maxEntries s" by (simp add: removeEntry_def)
    ultimately have "shard_rep (evict n ?s) \<and> maxEntries (evict n ?s) = maxEntries s \<and>
        shard_abs (evict n ?s) = take (nat (maxEntries s)) (shard_abs ?s)"
      using Suc.IH [OF r(1)] Suc.prems(2) by simp
    moreover have "nat (maxEntries s) < length (shard_abs s)" using True len Suc.prems(2) by simp
    ultimately show ?thesis using True ne by (simp add: abs take_butlast)
  next
    case False
    then have "take (nat (maxEntries s)) (shard_abs s) = shard_abs s" using len by simp
    then show ?thesis using False Suc.prems by simp
  qed
qed (simp add: shard_abs_def shard_rep_def)

lemma store_refines:
  assumes r: "shard_rep s" and m: "0 \<le> maxEntries s"
  shows "shard_rep (store_shard h e s) \<and> maxEntries (store_shard h e s) = maxEntries s \<and>
    shard_abs (store_shard h e s) = lru_put (nat (maxEntries s)) h e (shard_abs s)"
proof -
  define s1 where "s1 = (if lookup (byHash s) h \<noteq> None then removeEntry h s else s)"
  define s2 where "s2 = s1\<lparr>recency := h # recency s1, byHash := AList.update h e (byHash s1)\<rparr>"
  have max: "maxEntries s2 = maxEntries s" by (simp add: s2_def s1_def removeEntry_def)
  have s1: "shard_rep s1 \<and> shard_abs s1 = filter (\<lambda>p. fst p \<noteq> h) (shard_abs s) \<and> h \<notin> set (recency s1)"
  proof (cases "lookup (byHash s) h")
    case None
    then have "\<forall>p \<in> set (shard_abs s). fst p \<noteq> h"
      unfolding shard_abs_set [OF r] by (auto simp: map_of_eq_None_iff)
    then show ?thesis using r None rep_recency [OF r, of h] by (simp add: s1_def filter_id_conv)
  next
    case (Some e')
    have "h \<notin> set (recency (removeEntry h s))" using r by (simp add: removeEntry_def shard_rep_def)
    then show ?thesis using removeEntry_refines [OF r, of h] Some by (simp add: s1_def)
  qed
  then have fresh: "h \<notin> fst ` set (byHash s1)" unfolding shard_rep_def by blast
  have "shard_rep s2" using s1 fresh by (simp add: shard_rep_def s2_def AList_update_fresh map_ok_def)
  moreover have "map (\<lambda>k. (k, the (lookup (byHash s2) k))) (recency s1) = shard_abs s1"
    unfolding shard_abs_def by (rule map_cong) (use s1 in \<open>auto simp: s2_def amap\<close>)
  moreover have "recency s2 = h # recency s1" "lookup (byHash s2) h = Some e" by (simp_all add: s2_def amap)
  ultimately have "shard_rep s2" "shard_abs s2 = (h, e) # filter (\<lambda>p. fst p \<noteq> h) (shard_abs s)"
    using s1 unfolding shard_abs_def [of s2] by simp_all
  moreover have "store_shard h e s = evict (length (byHash s2)) s2"
    unfolding store_shard_def Let_def s2_def s1_def ..
  ultimately show ?thesis
    using evict_refines [of s2 "length (byHash s2)"] m max by (simp add: lru_put_def)
qed

section \<open>The cache invariant\<close>

definition cache_ok :: "CachedAPIKeyResolver \<Rightarrow> bool" where
  "cache_ok c \<longleftrightarrow> 0 < length (rc_shards c) \<and> length (rc_shards c) < 2 ^ 64 \<and>
     list_all (\<lambda>s. shard_rep s \<and> 1 \<le> maxEntries s \<and> int (length (byHash s)) \<le> maxEntries s) (rc_shards c)"

definition cached :: "CachedAPIKeyResolver \<Rightarrow> (string \<times> cacheEntry) set" where
  "cached c = (\<Union>s \<in> set (rc_shards c). set (byHash s))"

lemma shardFor_less: "cache_ok c \<Longrightarrow> shardFor h (length (rc_shards c)) < length (rc_shards c)"
  unfolding shardFor_def cache_ok_def by (intro unat_mod_of_nat_less) auto

lemma shard_cached: "i < length (rc_shards c) \<Longrightarrow> set (byHash (rc_shards c ! i)) \<subseteq> cached c"
  unfolding cached_def by (rule UN_upper) simp

text \<open>What a change of one shard by an LRU operation keeps, and what it may add.\<close>

lemma lru_get_facts:
  "length (snd (lru_get h now xs)) \<le> length xs" "set (snd (lru_get h now xs)) \<subseteq> set xs"
  "fst (lru_get h now xs) = Some r \<Longrightarrow>
     \<exists>e. (h, e) \<in> set xs \<and> now < en_until e \<and> r = (if en_negative e then (None, None) else (en_key e, en_user e))"
proof -
  have less: "map_of xs h = Some e \<Longrightarrow> length (filter (\<lambda>p. fst p \<noteq> h) xs) < length xs" for e
    by (rule length_filter_less [of "(h, e)"]) (auto dest: map_of_SomeD)
  then show "length (snd (lru_get h now xs)) \<le> length xs"
    by (auto simp: lru_get_def Let_def Suc_le_eq intro: less_imp_le split: option.split)
  show "set (snd (lru_get h now xs)) \<subseteq> set xs"
    by (auto simp: lru_get_def Let_def dest: map_of_SomeD split: option.splits if_splits)
  show "fst (lru_get h now xs) = Some r \<Longrightarrow>
     \<exists>e. (h, e) \<in> set xs \<and> now < en_until e \<and> r = (if en_negative e then (None, None) else (en_key e, en_user e))"
    by (auto simp: lru_get_def Let_def dest: map_of_SomeD split: option.splits if_splits)
qed

lemma update_shard_ok:
  assumes c: "cache_ok c" and i: "i < length (rc_shards c)"
    and s: "shard_rep s" "1 \<le> maxEntries s" "int (length (byHash s)) \<le> maxEntries s"
    and sub: "set (byHash s) \<subseteq> set (byHash (rc_shards c ! i)) \<union> N"
  shows "cache_ok (c\<lparr>rc_shards := (rc_shards c)[i := s]\<rparr>)"
    and "cached (c\<lparr>rc_shards := (rc_shards c)[i := s]\<rparr>) \<subseteq> cached c \<union> N"
proof -
  have upd: "x = s \<or> x \<in> set (rc_shards c)" if "x \<in> set ((rc_shards c)[i := s])" for x
    using that set_update_subset_insert [of "rc_shards c" i s] by auto
  then show "cache_ok (c\<lparr>rc_shards := (rc_shards c)[i := s]\<rparr>)"
    using c s by (auto simp: cache_ok_def list_all_iff)
  show "cached (c\<lparr>rc_shards := (rc_shards c)[i := s]\<rparr>) \<subseteq> cached c \<union> N"
    using shard_cached [OF i] sub upd by (fastforce simp: cached_def)
qed

lemma load_cached:
  assumes c: "cache_ok c" and l: "loadCachedEntry h now c = (found, c')"
  shows "cache_ok c'" "cached c' \<subseteq> cached c"
    and "\<exists>ss. c' = c\<lparr>rc_shards := ss\<rparr>"
    and "found = Some r \<Longrightarrow> \<exists>e. (h, e) \<in> cached c \<and> now < en_until e \<and>
      r = (if en_negative e then (None, None) else (en_key e, en_user e))"
proof -
  define i where "i = shardFor h (length (rc_shards c))"
  define s where "s = rc_shards c ! i"
  have i: "i < length (rc_shards c)" using shardFor_less [OF c] by (simp add: i_def)
  then have s: "shard_rep s" "1 \<le> maxEntries s" "int (length (byHash s)) \<le> maxEntries s" "set (byHash s) \<subseteq> cached c"
    using c shard_cached [OF i] by (auto simp: s_def cache_ok_def list_all_iff)
  have eq: "found = fst (load_shard h now s)" "c' = c\<lparr>rc_shards := (rc_shards c)[i := snd (load_shard h now s)]\<rparr>"
    using l by (simp_all add: loadCachedEntry_def Let_def i_def [symmetric] s_def [symmetric] split: prod.splits)
  note r = load_refines [OF s(1), of h now]
  then have r': "shard_rep (snd (load_shard h now s))" "fst (lru_get h now (shard_abs s)) = found"
    "shard_abs (snd (load_shard h now s)) = snd (lru_get h now (shard_abs s))" using eq(1) by (metis fst_conv snd_conv)+
  have "length (byHash (snd (load_shard h now s))) \<le> length (byHash s)"
    using lru_get_facts(1) [of h now "shard_abs s"] r' s(1) by (metis shard_abs_length)
  moreover have "set (byHash (snd (load_shard h now s))) \<subseteq> set (byHash s)"
    using lru_get_facts(2) [of h now "shard_abs s"] r' s(1) by (metis shard_abs_set)
  moreover have "maxEntries (snd (load_shard h now s)) = maxEntries s"
    by (simp add: load_shard_def removeEntry_def split: option.split)
  ultimately show "cache_ok c'" "cached c' \<subseteq> cached c"
    using update_shard_ok [OF c i r'(1), of "{}"] s by (simp_all add: eq(2) s_def [symmetric])
  show "\<exists>ss. c' = c\<lparr>rc_shards := ss\<rparr>" using eq(2) by blast
  show "found = Some r \<Longrightarrow> \<exists>e. (h, e) \<in> cached c \<and> now < en_until e \<and>
      r = (if en_negative e then (None, None) else (en_key e, en_user e))"
    using lru_get_facts(3) [of h now "shard_abs s" r] r'(2) s(1,4) by (auto simp: shard_abs_set)
qed

lemma store_cached:
  assumes c: "cache_ok c"
  shows "cache_ok (storeEntry h key user ttl neg g now c)"
    and "cached (storeEntry h key user ttl neg g now c) \<subseteq> cached c \<union>
      (if rc_closed c \<or> rc_generation c \<noteq> g then {} else {(h, \<lparr>en_key = key, en_user = user, en_until = now + ttl, en_negative = neg\<rparr>)})"
    and "\<exists>ss. storeEntry h key user ttl neg g now c = c\<lparr>rc_shards := ss\<rparr>"
proof -
  define i where "i = shardFor h (length (rc_shards c))"
  define s where "s = rc_shards c ! i"
  define e where "e = \<lparr>en_key = key, en_user = user, en_until = now + ttl, en_negative = neg\<rparr>"
  have i: "i < length (rc_shards c)" using shardFor_less [OF c] by (simp add: i_def)
  then have s: "shard_rep s" "1 \<le> maxEntries s" using c by (auto simp: s_def cache_ok_def list_all_iff)
  note r = store_refines [OF s(1), of h e]
  have "int (length (byHash (store_shard h e s))) \<le> maxEntries s"
  proof -
    have "length (byHash (store_shard h e s)) = length (lru_put (nat (maxEntries s)) h e (shard_abs s))"
      using r s(2) shard_abs_length by (metis order.trans zero_le_one)
    then show ?thesis using s(2) by (simp add: lru_put_def)
  qed
  moreover have "set (byHash (store_shard h e s)) \<subseteq> set (byHash s) \<union> {(h, e)}"
  proof -
    have "set (byHash (store_shard h e s)) = set (lru_put (nat (maxEntries s)) h e (shard_abs s))"
      using r s(2) shard_abs_set by (metis order.trans zero_le_one)
    then show ?thesis using shard_abs_set [OF s(1)] by (auto simp: lru_put_def dest: in_set_takeD)
  qed
  ultimately have u: "cache_ok (c\<lparr>rc_shards := (rc_shards c)[i := store_shard h e s]\<rparr>)"
    "cached (c\<lparr>rc_shards := (rc_shards c)[i := store_shard h e s]\<rparr>) \<subseteq> cached c \<union> {(h, e)}"
    using update_shard_ok [OF c i, of "store_shard h e s" "{(h, e)}"] r s by (simp_all add: s_def [symmetric])
  then show "cache_ok (storeEntry h key user ttl neg g now c)"
    "cached (storeEntry h key user ttl neg g now c) \<subseteq> cached c \<union>
      (if rc_closed c \<or> rc_generation c \<noteq> g then {} else {(h, \<lparr>en_key = key, en_user = user, en_until = now + ttl, en_negative = neg\<rparr>)})"
    using c by (simp_all add: storeEntry_def Let_def i_def [symmetric] s_def [symmetric] e_def [symmetric])
  show "\<exists>ss. storeEntry h key user ttl neg g now c = c\<lparr>rc_shards := ss\<rparr>"
    by (auto simp: storeEntry_def Let_def intro: exI [of _ "rc_shards c"])
qed

lemma expire_cached:
  assumes c: "cache_ok c"
  shows "cache_ok (removeExpiredEntries now c)" "cached (removeExpiredEntries now c) \<subseteq> cached c"
proof -
  have s: "shard_rep (expire_shard now s) \<and> length (byHash (expire_shard now s)) \<le> length (byHash s) \<and>
      set (byHash (expire_shard now s)) \<subseteq> set (byHash s) \<and> maxEntries (expire_shard now s) = maxEntries s"
    if "shard_rep s" for s
    using expire_refines(1) [OF that, of now] by (simp add: expire_shard_def Let_def)
  then show "cache_ok (removeExpiredEntries now c)"
    using c by (fastforce simp: cache_ok_def removeExpiredEntries_def list_all_iff)
  show "cached (removeExpiredEntries now c) \<subseteq> cached c"
    using c s by (fastforce simp: cache_ok_def cached_def removeExpiredEntries_def list_all_iff)
qed

lemma invalidate_cached: "cache_ok c \<Longrightarrow> cache_ok (InvalidateAll c) \<and> cached (InvalidateAll c) = {}"
  by (auto simp: cache_ok_def cached_def InvalidateAll_def list_all_iff shard_rep_def)

end
