(* ===== verification/Resolver_Run.thy ===== *)
theory Resolver_Run
  imports Resolver_Cache
begin

text \<open>
  Concurrent \<open>Resolve\<close> calls over \<open>internal/auth/resolver_cache.go\<close>: the interleaving of the pieces of
  \<open>Resolver_Cache\<close> by any number of callers, the flight invariant (one leader per key hash), the bound on
  concurrent loads, and that no answer is older than the last invalidation allows.
\<close>

section \<open>The resolver under concurrent calls\<close>

text \<open>
  The calls with their hashes, the store, and for the statements below the store states since the
  last completed invalidation and since the start.
\<close>

record 's system =
  sys_cache :: CachedAPIKeyResolver
  sys_store :: 's
  sys_calls :: "(string \<times> 's resolve_state) list"
  sys_since :: "'s list"
  sys_past :: "'s list"

text \<open>
  \<open>InvalidateAll\<close> and \<open>Close\<close> are one step each: the generation moves first, and a store of an older
  load is refused from then on whether or not its shard has been cleared. The generation counter does
  not wrap around.
\<close>

definition set_call :: "nat \<Rightarrow> string \<Rightarrow> 's resolve_state \<Rightarrow> CachedAPIKeyResolver \<Rightarrow> 's system \<Rightarrow> 's system" where
  "set_call i h p c y = y\<lparr>sys_cache := c, sys_calls := (sys_calls y)[i := (h, p)]\<rparr>"

definition at_call :: "'s system \<Rightarrow> nat \<Rightarrow> string \<Rightarrow> 's resolve_state \<Rightarrow> bool" where
  "at_call y i h p \<longleftrightarrow> i < length (sys_calls y) \<and> sys_calls y ! i = (h, p)"

fun leads :: "'s resolve_state \<Rightarrow> nat option" where
  "leads (Leading f _) = Some f"
| "leads (Admitted f _) = Some f"
| "leads (KeyRead f _ _) = Some f"
| "leads (UserRead f _ _ _) = Some f"
| "leads (Loaded f _ _) = Some f"
| "leads (Stored f _) = Some f"
| "leads _ = None"

fun holds_slot :: "'s resolve_state \<Rightarrow> bool" where
  "holds_slot (Admitted _ _) = True"
| "holds_slot (KeyRead _ _ _) = True"
| "holds_slot (UserRead _ _ _ _) = True"
| "holds_slot _ = False"

inductive resolver_step :: "'s APIKeyStore \<Rightarrow> 's system \<Rightarrow> 's system \<Rightarrow> bool" for st :: "'s APIKeyStore" where
  call: "resolver_step st y (y\<lparr>sys_calls := sys_calls y @ [(h, Started)]\<rparr>)"
| begin_call: "at_call y i h Started \<Longrightarrow> resolve_begin h now (sys_cache y) = (p, c) \<Longrightarrow>
    resolver_step st y (set_call i h p c y)"
| flight: "at_call y i h Missed \<Longrightarrow> resolve_flight h now (sys_cache y) = (p, c) \<Longrightarrow>
    resolver_step st y (set_call i h p c y)"
| admit: "at_call y i h (Leading f g) \<Longrightarrow> resolve_admit h f g ctxErr pickDone (sys_cache y) = (p, c) \<Longrightarrow>
    resolver_step st y (set_call i h p c y)"
| read_key: "at_call y i h (Admitted f g) \<Longrightarrow>
    resolver_step st y (set_call i h (KeyRead f g (sys_store y)) (sys_cache y) y)"
| read_user: "at_call y i h (KeyRead f g s1) \<Longrightarrow>
    resolver_step st y (set_call i h (UserRead f g s1 (sys_store y)) (sys_cache y) y)"
| load: "at_call y i h (UserRead f g s1 s2) \<Longrightarrow> resolve_load st (s1, s2, sys_store y) h f g (sys_cache y) = (p, c) \<Longrightarrow>
    resolver_step st y (set_call i h p c y)"
| panics: "at_call y i h q \<Longrightarrow> holds_slot q \<Longrightarrow> leads q = Some f \<Longrightarrow> resolve_panic h f (sys_cache y) = (p, c) \<Longrightarrow>
    resolver_step st y (set_call i h p c y)"
| store: "at_call y i h (Loaded f g r) \<Longrightarrow>
    resolver_step st y (set_call i h (Stored f r) (resolve_store h g r now (sys_cache y)) y)"
| complete: "at_call y i h (Stored f r) \<Longrightarrow> resolve_complete h f r (sys_cache y) = (p, c) \<Longrightarrow>
    resolver_step st y (set_call i h p c y)"
| wait: "at_call y i h (Waiting f) \<Longrightarrow>
    resolver_step st y (set_call i h (waitForAPIKeyResolveFlight f ctxErr pickDone (sys_cache y)) (sys_cache y) y)"
| change: "resolver_step st y (y\<lparr>sys_store := s, sys_since := s # sys_since y, sys_past := s # sys_past y\<rparr>)"
| invalidate: "rc_generation (sys_cache y) \<noteq> - 1 \<Longrightarrow>
    resolver_step st y (y\<lparr>sys_cache := InvalidateAll (sys_cache y), sys_since := [sys_store y]\<rparr>)"
| expire: "resolver_step st y (y\<lparr>sys_cache := removeExpiredEntries now (sys_cache y)\<rparr>)"
| close: "rc_generation (sys_cache y) \<noteq> - 1 \<Longrightarrow>
    resolver_step st y (y\<lparr>sys_cache := resolver_Close (sys_cache y)\<rparr>)"

definition resolver_start :: "APIKeyCacheConfig \<Rightarrow> 's \<Rightarrow> 's system" where
  "resolver_start config s = \<lparr>sys_cache = NewCachedAPIKeyResolverWithConfig config, sys_store = s,
     sys_calls = [], sys_since = [s], sys_past = [s]\<rparr>"

inductive resolver_run :: "'s APIKeyStore \<Rightarrow> 's system \<Rightarrow> 's system \<Rightarrow> bool" for st :: "'s APIKeyStore" where
  start: "resolver_run st y y"
| step: "resolver_run st y y' \<Longrightarrow> resolver_step st y' y'' \<Longrightarrow> resolver_run st y y''"

section \<open>Flights\<close>

fun waits :: "'s resolve_state \<Rightarrow> nat option" where
  "waits (Waiting f) = Some f"
| "waits _ = None"

text \<open>
  Registered flights are open and filed under their hash; an open flight is registered and has a
  leader; a leader's flight is its own, of its hash, and open until shutdown; waiters wait for flights
  of their hash.
\<close>

definition flights_ok :: "bool \<Rightarrow> (string, nat) gomap \<Rightarrow> apiKeyResolveFlight list \<Rightarrow> (string \<times> 's resolve_state) list \<Rightarrow> bool" where
  "flights_ok closed inFl fls calls \<longleftrightarrow> map_ok inFl \<and>
     (\<forall>h f. lookup inFl h = Some f \<longrightarrow> f < length fls \<and> fl_hash (fls ! f) = h \<and> fl_result (fls ! f) = None) \<and>
     (\<forall>f < length fls. fl_result (fls ! f) = None \<longrightarrow> lookup inFl (fl_hash (fls ! f)) = Some f \<and>
        (\<exists>i < length calls. leads (snd (calls ! i)) = Some f)) \<and>
     (\<forall>i < length calls. \<forall>f. leads (snd (calls ! i)) = Some f \<longrightarrow> f < length fls \<and> fl_hash (fls ! f) = fst (calls ! i) \<and>
        (\<not> closed \<longrightarrow> fl_result (fls ! f) = None)) \<and>
     (\<forall>i < length calls. \<forall>j < length calls. \<forall>f. leads (snd (calls ! i)) = Some f \<and> leads (snd (calls ! j)) = Some f \<longrightarrow> i = j) \<and>
     (\<forall>i < length calls. \<forall>f. waits (snd (calls ! i)) = Some f \<longrightarrow> f < length fls \<and> fl_hash (fls ! f) = fst (calls ! i))"

lemma flights_okI:
  assumes "map_ok inFl"
    and "\<And>h f. lookup inFl h = Some f \<Longrightarrow> f < length fls \<and> fl_hash (fls ! f) = h \<and> fl_result (fls ! f) = None"
    and "\<And>f. f < length fls \<Longrightarrow> fl_result (fls ! f) = None \<Longrightarrow> lookup inFl (fl_hash (fls ! f)) = Some f"
    and "\<And>f. f < length fls \<Longrightarrow> fl_result (fls ! f) = None \<Longrightarrow> \<exists>i < length calls. leads (snd (calls ! i)) = Some f"
    and "\<And>i f. i < length calls \<Longrightarrow> leads (snd (calls ! i)) = Some f \<Longrightarrow>
      f < length fls \<and> fl_hash (fls ! f) = fst (calls ! i) \<and> (\<not> closed \<longrightarrow> fl_result (fls ! f) = None)"
    and "\<And>i j f. i < length calls \<Longrightarrow> j < length calls \<Longrightarrow>
      leads (snd (calls ! i)) = Some f \<Longrightarrow> leads (snd (calls ! j)) = Some f \<Longrightarrow> i = j"
    and "\<And>i f. i < length calls \<Longrightarrow> waits (snd (calls ! i)) = Some f \<Longrightarrow> f < length fls \<and> fl_hash (fls ! f) = fst (calls ! i)"
  shows "flights_ok closed inFl fls calls"
  unfolding flights_ok_def using assms by blast

lemma flights_okD:
  assumes "flights_ok closed inFl fls calls"
  shows "f < length fls \<Longrightarrow> fl_result (fls ! f) = None \<Longrightarrow>
      lookup inFl (fl_hash (fls ! f)) = Some f \<and> (\<exists>i < length calls. leads (snd (calls ! i)) = Some f)"
    and "i < length calls \<Longrightarrow> leads (snd (calls ! i)) = Some f \<Longrightarrow>
      f < length fls \<and> fl_hash (fls ! f) = fst (calls ! i) \<and> (\<not> closed \<longrightarrow> fl_result (fls ! f) = None)"
    and "i < length calls \<Longrightarrow> j < length calls \<Longrightarrow>
      leads (snd (calls ! i)) = Some f \<Longrightarrow> leads (snd (calls ! j)) = Some f \<Longrightarrow> i = j"
    and "i < length calls \<Longrightarrow> waits (snd (calls ! i)) = Some f \<Longrightarrow> f < length fls \<and> fl_hash (fls ! f) = fst (calls ! i)"
  using assms unfolding flights_ok_def by blast+

lemma flights_call:
  assumes "flights_ok closed inFl fls calls" "leads p = None" "waits p = None"
  shows "flights_ok closed inFl fls (calls @ [(h, p)])"
  using assms by (simp add: flights_ok_def nth_append less_Suc_eq all_conj_distrib) (metis less_irrefl)

lemma flights_same:
  assumes ok: "flights_ok closed inFl fls calls" and i: "i < length calls" "calls ! i = (h, p)"
    and l: "leads p' = leads p" and w: "\<And>f. waits p' = Some f \<Longrightarrow> f < length fls \<and> fl_hash (fls ! f) = h"
  shows "flights_ok closed inFl fls (calls[i := (h, p')])"
proof -
  have lead: "leads (snd (calls[i := (h, p')] ! j)) = leads (snd (calls ! j))" "fst (calls[i := (h, p')] ! j) = fst (calls ! j)"
    if "j < length calls" for j using that i l by (auto simp: nth_list_update)
  have "f < length fls \<and> fl_hash (fls ! f) = fst (calls ! j)"
    if "j < length calls" "waits (snd (calls[i := (h, p')] ! j)) = Some f" for j f
    using that i w ok by (cases "j = i") (auto simp: flights_ok_def)
  then show ?thesis using ok by (simp add: flights_ok_def lead cong: conj_cong)
qed

lemma flights_new:
  assumes ok: "flights_ok closed inFl fls calls" and i: "i < length calls" "calls ! i = (h, Missed)"
    and new: "lookup inFl h = None"
  shows "flights_ok closed (AList.update h (length fls) inFl) (fls @ [\<lparr>fl_hash = h, fl_result = None\<rparr>])
    (calls[i := (h, Leading (length fls) g)])"
proof -
  let ?calls = "calls[i := (h, Leading (length fls) g)]" and ?fls = "fls @ [\<lparr>fl_hash = h, fl_result = None\<rparr>]"
  have lead: "leads (snd (?calls ! j)) = (if j = i then Some (length fls) else leads (snd (calls ! j)))"
    "waits (snd (?calls ! j)) = (if j = i then None else waits (snd (calls ! j)))"
    "fst (?calls ! j) = fst (calls ! j)" if "j < length calls" for j
    using that i by (auto simp: nth_list_update)
  have old: "f < length fls" if "j < length calls" "leads (snd (calls ! j)) = Some f" for j f
    using ok that by (simp add: flights_ok_def)
  have inf: "f < length fls" if "lookup inFl k = Some f" for k f using ok that by (simp add: flights_ok_def)
  have "\<exists>j < length calls. leads (snd (?calls ! j)) = Some f" if f: "f < Suc (length fls)" "fl_result (?fls ! f) = None" for f
  proof (cases "f = length fls")
    case False
    then have "f < length fls" "fl_result (fls ! f) = None" using f by (simp_all add: nth_append)
    then obtain j where "j < length calls" "leads (snd (calls ! j)) = Some f" using ok by (auto simp: flights_ok_def)
    moreover from this have "j \<noteq> i" using i by auto
    ultimately show ?thesis using lead by auto
  qed (use i lead in auto)
  moreover have "lookup (AList.update h (length fls) inFl) (fl_hash (?fls ! f)) = Some f"
    if f: "f < Suc (length fls)" "fl_result (?fls ! f) = None" for f
  proof (cases "f = length fls")
    case False
    then have "f < length fls" "fl_result (fls ! f) = None" using f by (simp_all add: nth_append)
    then have "lookup inFl (fl_hash (fls ! f)) = Some f" using ok by (simp add: flights_ok_def)
    then show ?thesis using new \<open>f < length fls\<close> by (auto simp: amap nth_append)
  qed (simp add: amap)
  moreover have "f < Suc (length fls) \<and> fl_hash (?fls ! f) = k \<and> fl_result (?fls ! f) = None"
    if "lookup (AList.update h (length fls) inFl) k = Some f" for k f
    using that ok inf [of k f] by (auto simp: amap nth_append flights_ok_def split: if_splits)
  moreover have "f < Suc (length fls) \<and> fl_hash (?fls ! f) = fst (calls ! j) \<and> (\<not> closed \<longrightarrow> fl_result (?fls ! f) = None)"
    if "j < length calls" "leads (snd (?calls ! j)) = Some f" for j f
    using that ok i old [of j f] by (auto simp: lead nth_append flights_ok_def split: if_splits)
  moreover have "j = k" if "j < length calls" "k < length calls" "leads (snd (?calls ! j)) = Some f" "leads (snd (?calls ! k)) = Some f" for j k f
    using that ok old [of j f] old [of k f] by (auto simp: lead flights_ok_def split: if_splits)
  moreover have "f < Suc (length fls) \<and> fl_hash (?fls ! f) = fst (calls ! j)"
    if "j < length calls" "waits (snd (?calls ! j)) = Some f" for j f
    using that ok by (auto simp: lead nth_append flights_ok_def split: if_splits)
  moreover have "map_ok (AList.update h (length fls) inFl)" using ok by (simp add: flights_ok_def)
  ultimately show ?thesis
    by (intro flights_okI) (simp_all only: length_list_update length_append_singleton lead(3), blast+)
qed

lemma flights_complete:
  assumes ok: "flights_ok (rc_closed c) (rc_inFlight c) (rc_flights c) calls"
    and i: "i < length calls" "calls ! i = (h, p)" and l: "leads p = Some f" "leads p' = None"
    and w: "waits p' = None \<or> waits p' = Some f"
  shows "flights_ok (rc_closed (completeFlight h f r c)) (rc_inFlight (completeFlight h f r c))
    (rc_flights (completeFlight h f r c)) (calls[i := (h, p')])"
proof -
  let ?calls = "calls[i := (h, p')]" and ?fls = "rc_flights (completeFlight h f r c)"
  have f: "f < length (rc_flights c)" "fl_hash (rc_flights c ! f) = h" using ok i l by (auto simp: flights_ok_def)
  have lead: "leads (snd (?calls ! j)) = (if j = i then None else leads (snd (calls ! j)))"
    "waits (snd (?calls ! j)) = (if j = i then waits p' else waits (snd (calls ! j)))"
    "fst (?calls ! j) = fst (calls ! j)" if "j < length calls" for j
    using that i l by (auto simp: nth_list_update)
  have hash: "length ?fls = length (rc_flights c)" "fl_hash (?fls ! k) = fl_hash (rc_flights c ! k)"
    "fl_result (?fls ! k) = None \<longleftrightarrow> k \<noteq> f \<and> fl_result (rc_flights c ! k) = None" if "k < length (rc_flights c)" for k
    using that f by (auto simp: completeFlight_def nth_list_update)
  have inf: "lookup (rc_inFlight (completeFlight h f r c)) k = (if k = h \<and> lookup (rc_inFlight c) h = Some f then None else lookup (rc_inFlight c) k)" for k
    using ok by (auto simp: completeFlight_def amap flights_ok_def)
  have len: "length ?fls = length (rc_flights c)" by (simp add: completeFlight_def)
  have m: "map_ok (rc_inFlight (completeFlight h f r c))" "rc_closed (completeFlight h f r c) = rc_closed c"
    using ok by (auto simp: completeFlight_def flights_ok_def)
  have open_flight: "k < length (rc_flights c) \<and> fl_hash (rc_flights c ! k) = x \<and> fl_result (rc_flights c ! k) = None"
    if "lookup (rc_inFlight c) x = Some k" for x k using ok that by (simp add: flights_ok_def)
  have "k < length ?fls \<and> fl_hash (?fls ! k) = x \<and> fl_result (?fls ! k) = None"
    if "lookup (rc_inFlight (completeFlight h f r c)) x = Some k" for x k
    using that open_flight [of x k] f(2) hash len by (auto simp: inf split: if_splits)
  moreover have "lookup (rc_inFlight (completeFlight h f r c)) (fl_hash (?fls ! k)) = Some k \<and>
      (\<exists>j < length calls. leads (snd (?calls ! j)) = Some k)" if k: "k < length ?fls" "fl_result (?fls ! k) = None" for k
  proof -
    have k': "k < length (rc_flights c)" "k \<noteq> f" "fl_result (rc_flights c ! k) = None" using k hash len by auto
    then obtain j where "j < length calls" "leads (snd (calls ! j)) = Some k"
      "lookup (rc_inFlight c) (fl_hash (rc_flights c ! k)) = Some k" using ok by (auto simp: flights_ok_def)
    moreover from this have "j \<noteq> i" using i l k'(2) by auto
    ultimately show ?thesis using lead k'(1,2) hash by (auto simp: inf)
  qed
  moreover have "k < length ?fls \<and> fl_hash (?fls ! k) = fst (calls ! j) \<and> (\<not> rc_closed c \<longrightarrow> fl_result (?fls ! k) = None)"
    if "j < length calls" "leads (snd (?calls ! j)) = Some k" for j k
  proof -
    have j: "j \<noteq> i" "leads (snd (calls ! j)) = Some k" using that lead by (auto split: if_splits)
    then have "k \<noteq> f" using ok that(1) i l by (auto simp: flights_ok_def)
    then show ?thesis using ok j that(1) hash len by (auto simp: flights_ok_def)
  qed
  moreover have "j = k" if "j < length calls" "k < length calls" "leads (snd (?calls ! j)) = Some x" "leads (snd (?calls ! k)) = Some x" for j k x
    using that ok by (auto simp: lead flights_ok_def split: if_splits)
  moreover have "k < length ?fls \<and> fl_hash (?fls ! k) = fst (calls ! j)"
    if "j < length calls" "waits (snd (?calls ! j)) = Some k" for j k
    using that ok w f i hash len by (cases "j = i") (auto simp: lead flights_ok_def split: if_splits)
  ultimately show ?thesis unfolding m(2) using m(1)
    by (intro flights_okI) (simp_all only: length_list_update lead(3), blast+)
qed

lemma close_flights:
  assumes "rc_inFlight c = l" "map_ok l"
    and "\<And>h f. (h, f) \<in> set l \<Longrightarrow> f < length (rc_flights c) \<and> fl_hash (rc_flights c ! f) = h \<and> fl_result (rc_flights c ! f) = None"
  shows "\<exists>fls. fold (\<lambda>(h, f). completeFlight h f r) l c = c\<lparr>rc_inFlight := [], rc_flights := fls\<rparr> \<and>
    length fls = length (rc_flights c) \<and> (\<forall>k < length fls. fls ! k = (if k \<in> snd ` set l
      then (rc_flights c ! k)\<lparr>fl_result := Some r\<rparr> else rc_flights c ! k))"
  using assms
proof (induction l arbitrary: c)
  case Nil
  then have "c = c\<lparr>rc_inFlight := [], rc_flights := rc_flights c\<rparr>" by simp
  then show ?case by (intro exI [of _ "rc_flights c"]) simp
next
  case (Cons a l)
  obtain h f where a: "a = (h, f)" by force
  have f: "f < length (rc_flights c)" "fl_hash (rc_flights c ! f) = h" "fl_result (rc_flights c ! f) = None"
    using Cons.prems(3) [of h f] by (simp_all add: a)
  have h: "h \<notin> fst ` set l" "map_ok l" using Cons.prems(2) by (simp_all add: map_ok_def a)
  let ?c = "completeFlight h f r c"
  have c: "?c = c\<lparr>rc_flights := (rc_flights c)[f := (rc_flights c ! f)\<lparr>fl_result := Some r\<rparr>], rc_inFlight := l\<rparr>"
    using f h Cons.prems(1) by (simp add: completeFlight_def a delete_id)
  have rest: "k \<noteq> f" if "(x, k) \<in> set l" for x k
    using Cons.prems(3) [of x k] that f(2) h(1) by (force simp: a)
  have "k < length (rc_flights ?c) \<and> fl_hash (rc_flights ?c ! k) = x \<and> fl_result (rc_flights ?c ! k) = None"
    if "(x, k) \<in> set l" for x k using Cons.prems(3) [of x k] that rest [OF that] by (simp add: a c)
  then obtain fls where fls: "fold (\<lambda>(h, f). completeFlight h f r) l ?c = ?c\<lparr>rc_inFlight := [], rc_flights := fls\<rparr>"
    "length fls = length (rc_flights ?c)" "\<forall>k < length fls. fls ! k = (if k \<in> snd ` set l
      then (rc_flights ?c ! k)\<lparr>fl_result := Some r\<rparr> else rc_flights ?c ! k)"
    using Cons.IH [of ?c] h(2) by (auto simp: c)
  then show ?case
    by (intro exI [of _ fls]) (auto simp: a c nth_list_update f(1) dest: rest)
qed

lemma flights_close:
  assumes ok: "flights_ok (rc_closed c) (rc_inFlight c) (rc_flights c) calls"
  shows "flights_ok (rc_closed (resolver_Close c)) (rc_inFlight (resolver_Close c)) (rc_flights (resolver_Close c)) calls"
proof (cases "rc_closed c")
  case False
  have l: "map_ok (rc_inFlight c)"
    "\<And>h f. (h, f) \<in> set (rc_inFlight c) \<Longrightarrow> f < length (rc_flights c) \<and> fl_hash (rc_flights c ! f) = h \<and> fl_result (rc_flights c ! f) = None"
    using ok by (auto simp: flights_ok_def lookup_Some_iff)
  let ?c = "c\<lparr>rc_closed := True, rc_generation := rc_generation c + 1\<rparr>"
  obtain fls where fls: "resolver_Close c = ?c\<lparr>rc_inFlight := [], rc_flights := fls\<rparr>"
    "length fls = length (rc_flights c)" "\<forall>k < length fls. fls ! k = (if k \<in> snd ` set (rc_inFlight c)
      then (rc_flights c ! k)\<lparr>fl_result := Some (Inl ErrAPIKeyResolverClosed)\<rparr> else rc_flights c ! k)"
    using close_flights [of ?c "rc_inFlight c" "Inl ErrAPIKeyResolverClosed"] l False
    by (auto simp: resolver_Close_def)
  have "fl_result (fls ! k) \<noteq> None" if "k < length fls" for k
  proof (cases "fl_result (rc_flights c ! k)")
    case None
    then have "lookup (rc_inFlight c) (fl_hash (rc_flights c ! k)) = Some k" using ok that fls(2) by (simp add: flights_ok_def)
    then have "k \<in> snd ` set (rc_inFlight c)" by (force dest: map_of_SomeD)
    then show ?thesis using fls(3) that by simp
  qed (use fls(3) that in auto)
  moreover have "fl_hash (fls ! k) = fl_hash (rc_flights c ! k)" if "k < length fls" for k using fls(3) that by simp
  ultimately show ?thesis using ok fls(2) by (auto simp: flights_ok_def fls(1))
qed (use ok in \<open>simp add: resolver_Close_def\<close>)


section \<open>What each piece leaves alone\<close>

lemma complete_frame [simp]:
  "rc_shards (completeFlight h f r c) = rc_shards c" "rc_generation (completeFlight h f r c) = rc_generation c"
  "rc_missAdmission (completeFlight h f r c) = rc_missAdmission c" "rc_closed (completeFlight h f r c) = rc_closed c"
  "rc_missMaxConcurrent (completeFlight h f r c) = rc_missMaxConcurrent c"
  by (simp_all add: completeFlight_def)

lemma same_shards: "rc_shards c' = rc_shards c \<Longrightarrow> cache_ok c' = cache_ok c \<and> cached c' = cached c"
  by (simp add: cache_ok_def cached_def)

lemma close_frame:
  "rc_shards (resolver_Close c) = rc_shards c"
  "rc_missAdmission (resolver_Close c) = rc_missAdmission c"
  "rc_missMaxConcurrent (resolver_Close c) = rc_missMaxConcurrent c"
  "rc_generation (resolver_Close c) = (if rc_closed c then rc_generation c else rc_generation c + 1)"
proof -
  have "rc_shards (fold (\<lambda>(h, f). completeFlight h f r) l c) = rc_shards c \<and>
      rc_missAdmission (fold (\<lambda>(h, f). completeFlight h f r) l c) = rc_missAdmission c \<and>
      rc_missMaxConcurrent (fold (\<lambda>(h, f). completeFlight h f r) l c) = rc_missMaxConcurrent c \<and>
      rc_generation (fold (\<lambda>(h, f). completeFlight h f r) l c) = rc_generation c" for r l c
    by (induction l arbitrary: c) auto
  then show "rc_shards (resolver_Close c) = rc_shards c"
    "rc_missAdmission (resolver_Close c) = rc_missAdmission c"
    "rc_missMaxConcurrent (resolver_Close c) = rc_missMaxConcurrent c"
    "rc_generation (resolver_Close c) = (if rc_closed c then rc_generation c else rc_generation c + 1)"
    by (simp_all add: resolver_Close_def)
qed

lemma shards_same: "\<exists>ss. c = c\<lparr>rc_shards := ss\<rparr>"
  by (intro exI [of _ "rc_shards c"]) simp

definition answer :: "cacheEntry \<Rightarrow> APIKey option \<times> AuthenticatedUser option" where
  "answer e = (if en_negative e then (None, None) else (en_key e, en_user e))"

lemma begin_effect:
  assumes "resolve_begin h now c = (p, c')" "cache_ok c"
  shows "cache_ok c' \<and> cached c' \<subseteq> cached c \<and> (\<exists>ss. c' = c\<lparr>rc_shards := ss\<rparr>) \<and>
    (p = Missed \<or> p = Returned (Inl ErrAPIKeyResolverClosed) \<or> (\<exists>e. (h, e) \<in> cached c \<and> p = Returned (Inr (answer e))))"
proof (cases "rc_closed c")
  case False
  obtain found c2 where l: "loadCachedEntry h now c = (found, c2)" by force
  then have "c' = c2 \<and> (p = Missed \<or> (\<exists>r. found = Some r \<and> p = Returned (Inr r)))"
    using False assms(1) by (auto simp: resolve_begin_def split: option.splits)
  then show ?thesis using load_cached [OF assms(2) l] by (fastforce simp: answer_def)
next
  case True
  then have "c' = c" "p = Returned (Inl ErrAPIKeyResolverClosed)"
    using assms(1) by (auto simp: resolve_begin_def)
  then show ?thesis using assms(2) shards_same [of c] by auto
qed

lemma flight_effect:
  assumes "resolve_flight h now c = (p, c')" "cache_ok c"
  shows "cache_ok c' \<and> cached c' \<subseteq> cached c \<and>
    (p = Leading (length (rc_flights c)) (rc_generation c) \<and> lookup (rc_inFlight c) h = None \<and>
      (\<exists>ss. c' = c\<lparr>rc_shards := ss, rc_flights := rc_flights c @ [\<lparr>fl_hash = h, fl_result = None\<rparr>],
        rc_inFlight := AList.update h (length (rc_flights c)) (rc_inFlight c)\<rparr>) \<or>
     (\<exists>ss. c' = c\<lparr>rc_shards := ss\<rparr>) \<and>
       ((\<exists>f. lookup (rc_inFlight c) h = Some f \<and> p = Waiting f) \<or> p = Returned (Inl ErrAPIKeyResolverClosed) \<or>
        (\<exists>e. (h, e) \<in> cached c \<and> p = Returned (Inr (answer e)))))"
proof (cases "rc_closed c \<or> lookup (rc_inFlight c) h \<noteq> None")
  case False
  obtain found c2 where l: "loadCachedEntry h now c = (found, c2)" by force
  note lc = load_cached [OF assms(2) l]
  then obtain ss where c2: "c2 = c\<lparr>rc_shards := ss\<rparr>" by blast
  show ?thesis
  proof (cases found)
    case None
    then have "p = Leading (length (rc_flights c)) (rc_generation c)"
      "c' = c\<lparr>rc_shards := ss, rc_flights := rc_flights c @ [\<lparr>fl_hash = h, fl_result = None\<rparr>],
        rc_inFlight := AList.update h (length (rc_flights c)) (rc_inFlight c)\<rparr>"
      using False assms(1) l by (auto simp: resolve_flight_def c2 Let_def)
    moreover have "cache_ok c' = cache_ok c2 \<and> cached c' = cached c2" by (rule same_shards) (simp add: calculation c2)
    ultimately show ?thesis using False lc(1,2) by auto
  next
    case (Some r)
    then have "p = Returned (Inr r)" "c' = c2" using False assms(1) l by (auto simp: resolve_flight_def)
    then show ?thesis using lc(1,2) lc(4) [OF Some] c2 by (auto simp: answer_def)
  qed
next
  case True
  then have "c' = c"
    "(\<exists>f. lookup (rc_inFlight c) h = Some f \<and> p = Waiting f) \<or> p = Returned (Inl ErrAPIKeyResolverClosed)"
    using assms(1) by (auto simp: resolve_flight_def split: if_splits)
  then show ?thesis using assms(2) shards_same [of c] by blast
qed

lemma admit_effect:
  assumes "resolve_admit h f g ctxErr pickDone c = (p, c')"
  shows "p = Admitted f g \<and> rc_missAdmission c < rc_missMaxConcurrent c \<and> c' = c\<lparr>rc_missAdmission := rc_missAdmission c + 1\<rparr> \<or>
    (\<exists>e. p = Returned (Inl e) \<and> c' = completeFlight h f (Inl e) c)"
  using assms by (auto simp: resolve_admit_def split: if_splits option.splits)

lemma resolve_store_effect:
  assumes "cache_ok c"
  shows "cache_ok (resolve_store h g r now c) \<and> (\<exists>ss. resolve_store h g r now c = c\<lparr>rc_shards := ss\<rparr>) \<and>
    (\<forall>(k, e) \<in> cached (resolve_store h g r now c). (k, e) \<in> cached c \<or> k = h \<and> rc_generation c = g \<and>
       (\<exists>a. r = Inr a \<and> (answer e = a \<or> fst a = None \<and> answer e = (None, None))))"
proof (cases r)
  case (Inl e)
  then show ?thesis using assms shards_same [of c] by (auto simp: resolve_store_def)
next
  case (Inr a)
  obtain key user where a: "a = (key, user)" by force
  show ?thesis
  proof (cases "rc_closed c")
    case True
    then have "resolve_store h g r now c = c" by (auto simp: resolve_store_def split: sum.split)
    then show ?thesis using assms shards_same [of c] by auto
  next
    case open_cache: False
    show ?thesis
    proof (cases key)
      case None
      then have eq: "resolve_store h g r now c = storeEntry h None None (rc_negativeTTL c) True g now c"
        using Inr a open_cache by (simp add: resolve_store_def)
      show ?thesis unfolding eq
        using store_cached [OF assms, of h None None "rc_negativeTTL c" True g now] Inr a None
        by (auto simp: answer_def split: if_splits)
    next
      case (Some k)
      then have eq: "resolve_store h g r now c = storeEntry h key user (rc_ttl c) False g now c"
        using Inr a open_cache by (simp add: resolve_store_def)
      show ?thesis unfolding eq
        using store_cached [OF assms, of h key user "rc_ttl c" False g now] Inr a
        by (auto simp: answer_def split: if_splits)
    qed
  qed
qed


section \<open>The invariant of a run\<close>

text \<open>An answer is fresh for some store states when a load that read the store in those states gives it.\<close>

definition fresh :: "'s APIKeyStore \<Rightarrow> 's list \<Rightarrow> string \<Rightarrow> APIKey option \<times> AuthenticatedUser option \<Rightarrow> bool" where
  "fresh st M h a \<longleftrightarrow> (\<exists>s1 \<in> set M. \<exists>s2 \<in> set M. \<exists>s3 \<in> set M. loadFromStore (at_moments st) (s1, s2, s3) h = Inr a)"

definition fresh_result :: "'s APIKeyStore \<Rightarrow> 's list \<Rightarrow> string \<Rightarrow> resolved \<Rightarrow> bool" where
  "fresh_result st M h r \<longleftrightarrow> (\<forall>a. r = Inr a \<longrightarrow> fresh st M h a)"

lemma fresh_mono: "fresh st M h a \<Longrightarrow> set M \<subseteq> set M' \<Longrightarrow> fresh st M' h a"
  unfolding fresh_def by blast

lemma fresh_result_mono: "fresh_result st M h r \<Longrightarrow> set M \<subseteq> set M' \<Longrightarrow> fresh_result st M' h r"
  unfolding fresh_result_def using fresh_mono by blast

lemma load_negative: "loadFromStore st s h = Inr a \<Longrightarrow> fst a = None \<Longrightarrow> a = (None, None)"
  unfolding loadFromStore_def
  by (cases "load_key st s h") (auto split: option.split_asm sum.split_asm)

lemma fresh_negative: "fresh st M h a \<Longrightarrow> fst a = None \<Longrightarrow> a = (None, None)"
  by (auto simp: fresh_def dest: load_negative)

lemma fresh_result_Inl [simp]: "fresh_result st M h (Inl e)" by (simp add: fresh_result_def)

text \<open>\<open>g\<close>: the generation now; a load of the present generation has only seen the states since.\<close>

fun phase_ok :: "'s APIKeyStore \<Rightarrow> 64 word \<Rightarrow> 's list \<Rightarrow> 's list \<Rightarrow> string \<Rightarrow> 's resolve_state \<Rightarrow> bool" where
  "phase_ok st g since past h (Leading f lg) = (lg \<le> g)"
| "phase_ok st g since past h (Admitted f lg) = (lg \<le> g)"
| "phase_ok st g since past h (KeyRead f lg s1) = (lg \<le> g \<and> s1 \<in> set past \<and> (lg = g \<longrightarrow> s1 \<in> set since))"
| "phase_ok st g since past h (UserRead f lg s1 s2) =
     (lg \<le> g \<and> {s1, s2} \<subseteq> set past \<and> (lg = g \<longrightarrow> {s1, s2} \<subseteq> set since))"
| "phase_ok st g since past h (Loaded f lg r) =
     (lg \<le> g \<and> fresh_result st past h r \<and> (lg = g \<longrightarrow> fresh_result st since h r))"
| "phase_ok st g since past h (Stored f r) = fresh_result st past h r"
| "phase_ok st g since past h (Returned r) = fresh_result st past h r"
| "phase_ok st g since past h _ = True"

definition phases_ok :: "'s APIKeyStore \<Rightarrow> 's system \<Rightarrow> bool" where
  "phases_ok st y \<longleftrightarrow> list_all (\<lambda>(h, p). phase_ok st (rc_generation (sys_cache y)) (sys_since y) (sys_past y) h p) (sys_calls y)"

definition flight_results_ok :: "'s APIKeyStore \<Rightarrow> 's list \<Rightarrow> apiKeyResolveFlight list \<Rightarrow> bool" where
  "flight_results_ok st past fls \<longleftrightarrow>
     (\<forall>fl \<in> set fls. case fl_result fl of None \<Rightarrow> True | Some r \<Rightarrow> fresh_result st past (fl_hash fl) r)"

definition entries_ok :: "'s APIKeyStore \<Rightarrow> 's system \<Rightarrow> bool" where
  "entries_ok st y \<longleftrightarrow> sys_store y \<in> set (sys_since y) \<and> set (sys_since y) \<subseteq> set (sys_past y) \<and>
     (\<forall>(h, e) \<in> cached (sys_cache y). fresh st (sys_since y) h (answer e))"

definition slots_ok :: "'s system \<Rightarrow> bool" where
  "slots_ok y \<longleftrightarrow> rc_missAdmission (sys_cache y) = int (length (filter (holds_slot \<circ> snd) (sys_calls y))) \<and>
     rc_missAdmission (sys_cache y) \<le> rc_missMaxConcurrent (sys_cache y)"

definition system_ok :: "'s APIKeyStore \<Rightarrow> 's system \<Rightarrow> bool" where
  "system_ok st y \<longleftrightarrow> cache_ok (sys_cache y) \<and> entries_ok st y \<and> phases_ok st y \<and>
     flight_results_ok st (sys_past y) (rc_flights (sys_cache y)) \<and> slots_ok y \<and>
     flights_ok (rc_closed (sys_cache y)) (rc_inFlight (sys_cache y)) (rc_flights (sys_cache y)) (sys_calls y)"

lemma set_call_simps [simp]:
  "sys_cache (set_call i h p c y) = c" "sys_store (set_call i h p c y) = sys_store y"
  "sys_calls (set_call i h p c y) = (sys_calls y)[i := (h, p)]"
  "sys_since (set_call i h p c y) = sys_since y" "sys_past (set_call i h p c y) = sys_past y"
  by (simp_all add: set_call_def)

text \<open>Slots: one call changes its state.\<close>

lemma filter_update:
  "i < length xs \<Longrightarrow> length (filter P (xs[i := x])) + (if P (xs ! i) then 1 else 0) = length (filter P xs) + (if P x then 1 else 0)"
proof (induction xs arbitrary: i)
  case (Cons a xs)
  then show ?case by (cases i) auto
qed simp

lemma slots_call:
  assumes ok: "slots_ok y" and i: "at_call y i h p"
    and m: "rc_missMaxConcurrent c = rc_missMaxConcurrent (sys_cache y)" "rc_missAdmission c \<le> rc_missMaxConcurrent c"
    and d: "rc_missAdmission c + (if holds_slot p then 1 else 0) = rc_missAdmission (sys_cache y) + (if holds_slot p' then 1 else 0)"
  shows "slots_ok (set_call i h p' c y)"
  using filter_update [of i "sys_calls y" "holds_slot \<circ> snd" "(h, p')"] ok i m d
  by (auto simp: slots_ok_def at_call_def split: if_splits)

lemma slots_le: "slots_ok y \<Longrightarrow> rc_missAdmission (sys_cache y) \<le> rc_missMaxConcurrent (sys_cache y)"
  by (simp add: slots_ok_def)

text \<open>Phases: one call changes its state, the generation and the store states stay.\<close>

lemma phases_call:
  assumes "phases_ok st y" "rc_generation c = rc_generation (sys_cache y)"
    and "phase_ok st (rc_generation (sys_cache y)) (sys_since y) (sys_past y) h p"
  shows "phases_ok st (set_call i h p c y)"
  using assms set_update_subset_insert [of "sys_calls y" i "(h, p)"]
  by (fastforce simp: phases_ok_def list_all_iff)

lemma phase_at: "phases_ok st y \<Longrightarrow> at_call y i h p \<Longrightarrow>
    phase_ok st (rc_generation (sys_cache y)) (sys_since y) (sys_past y) h p"
  by (auto simp: phases_ok_def at_call_def list_all_length)

lemma entries_call:
  assumes "entries_ok st y" "\<forall>(h, e) \<in> cached c. (h, e) \<in> cached (sys_cache y) \<or> fresh st (sys_since y) h (answer e)"
  shows "entries_ok st (set_call i h p c y)"
  using assms by (fastforce simp: entries_ok_def)

lemma next_generation: "g' \<le> g \<Longrightarrow> g \<noteq> - 1 \<Longrightarrow> g' \<le> g + 1 \<and> g' \<noteq> g + (1 :: 64 word)"
proof -
  assume "g' \<le> g" and g: "g \<noteq> - 1"
  have "unat (g + 1) = Suc (unat g)" using g by (metis add.commute add_eq_0_iff2 unatSuc)
  then show ?thesis using \<open>g' \<le> g\<close> by (auto simp: word_le_nat_alt)
qed

lemma phase_next:
  "phase_ok st g since past h p \<Longrightarrow> g \<noteq> - 1 \<Longrightarrow> phase_ok st (g + 1) since' past h p"
  using next_generation by (cases p) auto

lemma phase_change:
  "phase_ok st g since past h p \<Longrightarrow> phase_ok st g (s # since) (s # past) h p"
  by (cases p) (auto intro: fresh_result_mono)

lemma fresh_hit: "entries_ok st y \<Longrightarrow> (h, e) \<in> cached (sys_cache y) \<Longrightarrow> fresh st (sys_past y) h (answer e)"
  unfolding entries_ok_def by (auto intro: fresh_mono)

lemma fresh_load:
  "{s1, s2, s3} \<subseteq> set M \<Longrightarrow> fresh_result st M h (loadFromStore (at_moments st) (s1, s2, s3) h)"
  by (auto simp: fresh_result_def fresh_def)

lemma results_complete:
  assumes "flight_results_ok st past (rc_flights c)" "f < length (rc_flights c)" "fresh_result st past (fl_hash (rc_flights c ! f)) r"
  shows "flight_results_ok st past (rc_flights (completeFlight h f r c))"
  using assms set_update_subset_insert [of "rc_flights c" f "(rc_flights c ! f)\<lparr>fl_result := Some r\<rparr>"]
  by (fastforce simp: completeFlight_def flight_results_ok_def)

lemma results_close:
  assumes "flight_results_ok st past (rc_flights c)"
    "\<forall>(h, f) \<in> set (rc_inFlight c). f < length (rc_flights c)"
  shows "flight_results_ok st past (rc_flights (resolver_Close c))"
proof -
  have "flight_results_ok st past (rc_flights (fold (\<lambda>(h, f). completeFlight h f (Inl e)) l c))"
    if "flight_results_ok st past (rc_flights c)" "\<forall>(h, f) \<in> set l. f < length (rc_flights c)" for l e c
    using that
  proof (induction l arbitrary: c)
    case (Cons a l)
    obtain h f where a: "a = (h, f)" by force
    have "length (rc_flights (completeFlight h f (Inl e) c)) = length (rc_flights c)" by (simp add: completeFlight_def)
    then show ?case using Cons.IH [of "completeFlight h f (Inl e) c"] Cons.prems results_complete [of st past c f "Inl e" h]
      by (simp add: a)
  qed simp
  then show ?thesis using assms by (simp add: resolver_Close_def)
qed


section \<open>Every step keeps it\<close>

text \<open>The parts of the invariant that a step of one call changes.\<close>

lemma system_call:
  assumes ok: "system_ok st y" and c: "cache_ok c" "rc_generation c = rc_generation (sys_cache y)"
    and e: "\<forall>(k, e) \<in> cached c. (k, e) \<in> cached (sys_cache y) \<or> fresh st (sys_since y) k (answer e)"
    and p: "phase_ok st (rc_generation (sys_cache y)) (sys_since y) (sys_past y) h p"
    and r: "flight_results_ok st (sys_past y) (rc_flights c)"
    and s: "slots_ok (set_call i h p c y)"
    and f: "flights_ok (rc_closed c) (rc_inFlight c) (rc_flights c) ((sys_calls y)[i := (h, p)])"
  shows "system_ok st (set_call i h p c y)"
  using entries_call [of st y c i h p] phases_call [of st y c h p i] assms
  by (simp add: system_ok_def)

lemma system_parts:
  assumes "system_ok st y"
  shows "cache_ok (sys_cache y)" "entries_ok st y" "phases_ok st y" "slots_ok y"
    "flight_results_ok st (sys_past y) (rc_flights (sys_cache y))"
    "flights_ok (rc_closed (sys_cache y)) (rc_inFlight (sys_cache y)) (rc_flights (sys_cache y)) (sys_calls y)"
  using assms by (simp_all add: system_ok_def)

text \<open>A step of a call that leaves the flights alone and takes or gives no slot.\<close>

lemma quiet_step:
  assumes ok: "system_ok st y" and i: "at_call y i h p"
    and c: "c = (sys_cache y)\<lparr>rc_shards := ss\<rparr>" "cache_ok c"
    and e: "\<forall>(k, e) \<in> cached c. (k, e) \<in> cached (sys_cache y) \<or> fresh st (sys_since y) k (answer e)"
    and p: "phase_ok st (rc_generation (sys_cache y)) (sys_since y) (sys_past y) h p'" "holds_slot p' = holds_slot p"
    and l: "leads p' = leads p" "\<And>f. waits p' = Some f \<Longrightarrow> f < length (rc_flights (sys_cache y)) \<and> fl_hash (rc_flights (sys_cache y) ! f) = h"
  shows "system_ok st (set_call i h p' c y)"
proof (rule system_call [OF ok c(2) _ e p(1)])
  note parts = system_parts [OF ok]
  show "slots_ok (set_call i h p' c y)"
    by (rule slots_call [OF parts(4) i]) (use slots_le [OF parts(4)] p(2) in \<open>simp_all add: c(1)\<close>)
  show "flights_ok (rc_closed c) (rc_inFlight c) (rc_flights c) ((sys_calls y)[i := (h, p')])"
    using flights_same [OF parts(6), of i h p p'] i l by (simp add: c(1) at_call_def)
qed (use system_parts(5) [OF ok] in \<open>simp_all add: c(1)\<close>)

text \<open>A leader that finishes its flight, in success or failure.\<close>

lemma finish_step:
  assumes ok: "system_ok st y" and i: "at_call y i h p" and l: "leads p = Some f" "leads p' = None"
    and w: "waits p' = None \<or> waits p' = Some f" and hs: "\<not> holds_slot p'" "k = (if holds_slot p then 1 else 0)"
    and r: "fresh_result st (sys_past y) h r" "phase_ok st (rc_generation (sys_cache y)) (sys_since y) (sys_past y) h p'"
    and c: "c = (sys_cache y)\<lparr>rc_missAdmission := rc_missAdmission (sys_cache y) - k\<rparr>"
  shows "system_ok st (set_call i h p' (completeFlight h f r c) y)"
proof -
  note parts = system_parts [OF ok]
  have fl: "f < length (rc_flights c)" "fl_hash (rc_flights c ! f) = h"
    using parts(6) i l by (auto simp: flights_ok_def at_call_def c)
  have sh: "cache_ok (completeFlight h f r c) = cache_ok (sys_cache y)" "cached (completeFlight h f r c) = cached (sys_cache y)"
    using same_shards [of "completeFlight h f r c" "sys_cache y"] by (simp_all add: c)
  show ?thesis
  proof (rule system_call [OF ok _ _ _ r(2)])
    show "slots_ok (set_call i h p' (completeFlight h f r c) y)"
      by (rule slots_call [OF parts(4) i]) (use slots_le [OF parts(4)] hs in \<open>simp_all add: c\<close>)
    show "flight_results_ok st (sys_past y) (rc_flights (completeFlight h f r c))"
      by (rule results_complete) (use parts(5) fl r(1) in \<open>simp_all add: c\<close>)
    show "flights_ok (rc_closed (completeFlight h f r c)) (rc_inFlight (completeFlight h f r c))
        (rc_flights (completeFlight h f r c)) ((sys_calls y)[i := (h, p')])"
      by (rule flights_complete [OF _ _ _ l w]) (use parts(6) i in \<open>simp_all add: at_call_def c\<close>)
    show "rc_generation (completeFlight h f r c) = rc_generation (sys_cache y)" by (simp add: c)
  qed (use parts(1) in \<open>auto simp: sh\<close>)
qed

lemma begin_step:
  assumes ok: "system_ok st y" and i: "at_call y i h Started" and b: "resolve_begin h now (sys_cache y) = (p, c)"
  shows "system_ok st (set_call i h p c y)"
proof -
  note parts = system_parts [OF ok] and eff = begin_effect [OF b system_parts(1) [OF ok]]
  then obtain ss where c: "c = (sys_cache y)\<lparr>rc_shards := ss\<rparr>" by blast
  show ?thesis
    by (rule quiet_step [OF ok i c]) (use eff fresh_hit [OF parts(2)] in \<open>auto simp: fresh_result_def\<close>)
qed

lemma flight_step:
  assumes ok: "system_ok st y" and i: "at_call y i h Missed" and b: "resolve_flight h now (sys_cache y) = (p, c)"
  shows "system_ok st (set_call i h p c y)"
proof -
  note parts = system_parts [OF ok] and eff = flight_effect [OF b system_parts(1) [OF ok]]
  let ?f = "length (rc_flights (sys_cache y))"
  consider (new) ss where "p = Leading ?f (rc_generation (sys_cache y))" "lookup (rc_inFlight (sys_cache y)) h = None"
      "c = (sys_cache y)\<lparr>rc_shards := ss, rc_flights := rc_flights (sys_cache y) @ [\<lparr>fl_hash = h, fl_result = None\<rparr>],
        rc_inFlight := AList.update h ?f (rc_inFlight (sys_cache y))\<rparr>"
    | (join) ss f where "c = (sys_cache y)\<lparr>rc_shards := ss\<rparr>" "lookup (rc_inFlight (sys_cache y)) h = Some f" "p = Waiting f"
    | (over) ss where "c = (sys_cache y)\<lparr>rc_shards := ss\<rparr>" "p = Returned (Inl ErrAPIKeyResolverClosed) \<or>
        (\<exists>e. (h, e) \<in> cached (sys_cache y) \<and> p = Returned (Inr (answer e)))"
    using eff by blast
  then show ?thesis
  proof cases
    case new
    show ?thesis
    proof (rule system_call [OF ok])
      show "slots_ok (set_call i h p c y)"
        by (rule slots_call [OF parts(4) i]) (use slots_le [OF parts(4)] new in simp_all)
      show "flight_results_ok st (sys_past y) (rc_flights c)"
        using parts(5) by (simp add: new(3) flight_results_ok_def)
      show "flights_ok (rc_closed c) (rc_inFlight c) (rc_flights c) ((sys_calls y)[i := (h, p)])"
        using flights_new [OF parts(6) _ _ new(2)] i by (simp add: new(1,3) at_call_def)
    qed (use eff in \<open>auto simp: new\<close>)
  next
    case join
    show ?thesis
      by (rule quiet_step [OF ok i join(1)]) (use eff join(2,3) parts(6) in \<open>auto simp: flights_ok_def\<close>)
  next
    case over
    show ?thesis
      by (rule quiet_step [OF ok i over(1)]) (use eff over(2) fresh_hit [OF parts(2)] in \<open>auto simp: fresh_result_def\<close>)
  qed
qed


lemma store_step:
  assumes ok: "system_ok st y" and i: "at_call y i h (Loaded f g r)"
  shows "system_ok st (set_call i h (Stored f r) (resolve_store h g r now (sys_cache y)) y)"
proof -
  note parts = system_parts [OF ok] and eff = resolve_store_effect [OF system_parts(1) [OF ok], of h g r now]
  have p: "fresh_result st (sys_past y) h r" "rc_generation (sys_cache y) = g \<Longrightarrow> fresh_result st (sys_since y) h r"
    using phase_at [OF parts(3) i] by auto
  obtain ss where c: "resolve_store h g r now (sys_cache y) = (sys_cache y)\<lparr>rc_shards := ss\<rparr>" using eff by blast
  have "(k, e) \<in> cached (sys_cache y) \<or> fresh st (sys_since y) k (answer e)"
    if new: "(k, e) \<in> cached (resolve_store h g r now (sys_cache y))" for k e
  proof (cases "(k, e) \<in> cached (sys_cache y)")
    case False
    then obtain a where a: "k = h" "rc_generation (sys_cache y) = g" "r = Inr a" "answer e = a \<or> fst a = None \<and> answer e = (None, None)"
      using eff new by fast
    then have "fresh st (sys_since y) h a" using p(2) by (simp add: fresh_result_def)
    then show ?thesis using a fresh_negative by metis
  qed simp
  then show ?thesis by (intro quiet_step [OF ok i c]) (use eff p in auto)
qed

lemma load_step:
  assumes ok: "system_ok st y" and i: "at_call y i h (UserRead f g s1 s2)"
    and l: "resolve_load st (s1, s2, sys_store y) h f g (sys_cache y) = (p, c)"
  shows "system_ok st (set_call i h p c y)"
proof -
  note parts = system_parts [OF ok]
  have eq: "p = Loaded f g (loadFromStore (at_moments st) (s1, s2, sys_store y) h)"
    "c = (sys_cache y)\<lparr>rc_missAdmission := rc_missAdmission (sys_cache y) - 1\<rparr>" using l by (simp_all add: resolve_load_def)
  have s: "sys_store y \<in> set (sys_since y)" "set (sys_since y) \<subseteq> set (sys_past y)" using parts(2) by (simp_all add: entries_ok_def)
  have sh: "cache_ok c = cache_ok (sys_cache y)" "cached c = cached (sys_cache y)"
    using same_shards [of c "sys_cache y"] by (simp_all add: eq(2))
  show ?thesis
  proof (rule system_call [OF ok])
    show "phase_ok st (rc_generation (sys_cache y)) (sys_since y) (sys_past y) h p"
      using phase_at [OF parts(3) i] s by (auto simp: eq(1) intro!: fresh_load)
    show "slots_ok (set_call i h p c y)"
      by (rule slots_call [OF parts(4) i]) (use slots_le [OF parts(4)] in \<open>simp_all add: eq\<close>)
    show "flights_ok (rc_closed c) (rc_inFlight c) (rc_flights c) ((sys_calls y)[i := (h, p)])"
      using flights_same [OF parts(6), of i h "UserRead f g s1 s2" p] i by (simp add: eq at_call_def)
    show "flight_results_ok st (sys_past y) (rc_flights c)" "rc_generation c = rc_generation (sys_cache y)"
      using parts(5) by (simp_all add: eq(2))
  qed (use parts(1) in \<open>auto simp: sh\<close>)
qed

lemma admit_step:
  assumes ok: "system_ok st y" and i: "at_call y i h (Leading f g)"
    and a: "resolve_admit h f g ctxErr pickDone (sys_cache y) = (p, c)"
  shows "system_ok st (set_call i h p c y)"
  using admit_effect [OF a]
proof (elim disjE conjE exE)
  fix e assume "p = Returned (Inl e)" "c = completeFlight h f (Inl e) (sys_cache y)"
  then show ?thesis using finish_step [OF ok i, of f p 0 "Inl e" "sys_cache y"] by simp
next
  note parts = system_parts [OF ok]
  assume eq: "p = Admitted f g" "c = (sys_cache y)\<lparr>rc_missAdmission := rc_missAdmission (sys_cache y) + 1\<rparr>"
    and free: "rc_missAdmission (sys_cache y) < rc_missMaxConcurrent (sys_cache y)"
  have sh: "cache_ok c = cache_ok (sys_cache y)" "cached c = cached (sys_cache y)"
    using same_shards [of c "sys_cache y"] by (simp_all add: eq(2))
  show ?thesis
  proof (rule system_call [OF ok])
    show "phase_ok st (rc_generation (sys_cache y)) (sys_since y) (sys_past y) h p"
      using phase_at [OF parts(3) i] by (simp add: eq(1))
    show "slots_ok (set_call i h p c y)"
      by (rule slots_call [OF parts(4) i]) (use free in \<open>simp_all add: eq\<close>)
    show "flights_ok (rc_closed c) (rc_inFlight c) (rc_flights c) ((sys_calls y)[i := (h, p)])"
      using flights_same [OF parts(6), of i h "Leading f g" p] i by (simp add: eq at_call_def)
    show "flight_results_ok st (sys_past y) (rc_flights c)" "rc_generation c = rc_generation (sys_cache y)"
      using parts(5) by (simp_all add: eq(2))
  qed (use parts(1) in \<open>auto simp: sh\<close>)
qed

lemma wait_step:
  assumes ok: "system_ok st y" and i: "at_call y i h (Waiting f)"
  shows "system_ok st (set_call i h (waitForAPIKeyResolveFlight f ctxErr pickDone (sys_cache y)) (sys_cache y) y)"
proof -
  note parts = system_parts [OF ok]
  have f: "f < length (rc_flights (sys_cache y))" "fl_hash (rc_flights (sys_cache y) ! f) = h"
    using parts(6) i by (auto simp: flights_ok_def at_call_def)
  have res: "fresh_result st (sys_past y) h r" if "fl_result (rc_flights (sys_cache y) ! f) = Some r" for r
    using parts(5) f that unfolding flight_results_ok_def by (metis (lifting) nth_mem option.simps(5))
  show ?thesis
    by (rule quiet_step [OF ok i, of _ "rc_shards (sys_cache y)"])
      (use parts(1) f res in \<open>auto simp: waitForAPIKeyResolveFlight_def split: option.splits\<close>)
qed

lemma system_step: "resolver_step st y y' \<Longrightarrow> system_ok st y \<Longrightarrow> system_ok st y'"
proof (induction rule: resolver_step.induct)
  case (call y h)
  note parts = system_parts [OF call.prems]
  show ?case using call.prems flights_call [OF parts(6), of Started h]
    by (simp add: system_ok_def entries_ok_def phases_ok_def slots_ok_def)
next
  case (read_key y i h f g)
  note parts = system_parts [OF read_key.prems]
  show ?case by (rule quiet_step [OF read_key.prems read_key.hyps, of _ "rc_shards (sys_cache y)"])
      (use parts(1,2) phase_at [OF parts(3) read_key.hyps] in \<open>auto simp: entries_ok_def\<close>)
next
  case (read_user y i h f g s1)
  note parts = system_parts [OF read_user.prems]
  show ?case by (rule quiet_step [OF read_user.prems read_user.hyps, of _ "rc_shards (sys_cache y)"])
      (use parts(1,2) phase_at [OF parts(3) read_user.hyps] in \<open>auto simp: entries_ok_def\<close>)
next
  case (panics y i h q f p c)
  then show ?case using finish_step [OF panics.prems panics.hyps(1,3), of p 1 "Inl errAPIKeyResolverLeaderPanicked"]
    by (auto simp: resolve_panic_def)
next
  case (complete y i h f r p c)
  note parts = system_parts [OF complete.prems]
  have "fresh_result st (sys_past y) h r" using phase_at [OF parts(3) complete.hyps(1)] by simp
  then show ?case using finish_step [OF complete.prems complete.hyps(1), of f p 0 r "sys_cache y"] complete.hyps(2)
    by (auto simp: resolve_complete_def)
next
  case (change y s)
  note parts = system_parts [OF change.prems]
  have "fresh_result st (s # sys_past y) h r" if "fresh_result st (sys_past y) h r" for h r
    using fresh_result_mono [OF that, of "s # sys_past y"] by auto
  then have "flight_results_ok st (s # sys_past y) (rc_flights (sys_cache y))"
    using parts(5) by (auto simp: flight_results_ok_def split: option.splits)
  moreover have "entries_ok st (y\<lparr>sys_store := s, sys_since := s # sys_since y, sys_past := s # sys_past y\<rparr>)"
    using parts(2) by (auto simp: entries_ok_def intro: fresh_mono)
  moreover have "phases_ok st (y\<lparr>sys_store := s, sys_since := s # sys_since y, sys_past := s # sys_past y\<rparr>)"
    using parts(3) by (auto simp: phases_ok_def list_all_iff phase_change)
  ultimately show ?case using parts by (simp add: system_ok_def slots_ok_def)
next
  case (invalidate y)
  note parts = system_parts [OF invalidate.prems]
  let ?y = "y\<lparr>sys_cache := InvalidateAll (sys_cache y), sys_since := [sys_store y]\<rparr>"
  have "phases_ok st ?y" using parts(3) invalidate.hyps
    by (auto simp: phases_ok_def list_all_iff InvalidateAll_def intro: phase_next)
  moreover have "entries_ok st ?y" using parts(2) invalidate_cached [OF parts(1)] by (auto simp: entries_ok_def)
  ultimately show ?case using parts invalidate_cached [OF parts(1)]
    by (simp add: system_ok_def slots_ok_def) (simp add: InvalidateAll_def)
next
  case (expire y now)
  note parts = system_parts [OF expire.prems] and eff = expire_cached [OF system_parts(1) [OF expire.prems], of now]
  let ?y = "y\<lparr>sys_cache := removeExpiredEntries now (sys_cache y)\<rparr>"
  have "entries_ok st ?y" using parts(2) eff(2) by (auto simp: entries_ok_def)
  moreover have "phases_ok st ?y" using parts(3) by (simp add: phases_ok_def removeExpiredEntries_def)
  ultimately show ?case using parts eff(1)
    by (simp add: system_ok_def slots_ok_def) (simp add: removeExpiredEntries_def)
next
  case (close y)
  note parts = system_parts [OF close.prems]
  let ?c = "resolver_Close (sys_cache y)"
  have sh: "cache_ok ?c = cache_ok (sys_cache y)" "cached ?c = cached (sys_cache y)"
    using same_shards [of ?c "sys_cache y"] by (simp_all add: close_frame)
  have "phases_ok st (y\<lparr>sys_cache := ?c\<rparr>)" using parts(3) close.hyps
    by (auto simp: phases_ok_def list_all_iff close_frame(4) intro: phase_next)
  moreover have "\<forall>(h, f) \<in> set (rc_inFlight (sys_cache y)). f < length (rc_flights (sys_cache y))"
    using parts(6) by (auto simp: flights_ok_def lookup_Some_iff)
  then have "flight_results_ok st (sys_past y) (rc_flights ?c)" by (rule results_close [OF parts(5)])
  moreover have "entries_ok st (y\<lparr>sys_cache := ?c\<rparr>)" using parts(2) by (simp add: entries_ok_def sh(2))
  ultimately show ?case using parts flights_close [OF parts(6)]
    by (simp add: system_ok_def slots_ok_def sh(1) close_frame(2,3))
qed (simp_all only: begin_step flight_step admit_step load_step store_step wait_step)

lemma normalize_ok:
  "1 \<le> cfg_ShardCount (normalizeAPIKeyCacheConfig k)" "cfg_ShardCount (normalizeAPIKeyCacheConfig k) \<le> cfg_MaxEntries (normalizeAPIKeyCacheConfig k)"
  "1 \<le> cfg_MissMaxConcurrent (normalizeAPIKeyCacheConfig k)" "cfg_MissMaxConcurrent (normalizeAPIKeyCacheConfig k) \<le> 1024"
  by (simp_all add: normalizeAPIKeyCacheConfig_def Let_def)

lemma start_ok:
  assumes "cfg_ShardCount config < 2 ^ 64"
  shows "system_ok st (resolver_start config s)"
proof -
  let ?k = "normalizeAPIKeyCacheConfig config" and ?c = "NewCachedAPIKeyResolverWithConfig config"
  have "1 \<le> cfg_MaxEntries ?k div cfg_ShardCount ?k" using normalize_ok [of config] by (simp add: pos_imp_zdiv_pos_iff int_one_le_iff_zero_less)
  moreover have "cfg_ShardCount ?k < 2 ^ 64"
    using assms by (auto simp: normalizeAPIKeyCacheConfig_def Let_def)
  ultimately have "cache_ok ?c" using normalize_ok [of config]
    by (auto simp: NewCachedAPIKeyResolverWithConfig_def cache_ok_def Let_def list_all_iff shard_rep_def)
  moreover have "cached ?c = {}" by (auto simp: NewCachedAPIKeyResolverWithConfig_def cached_def Let_def)
  moreover have "rc_missAdmission ?c = 0" "0 \<le> rc_missMaxConcurrent ?c" "rc_inFlight ?c = []" "rc_flights ?c = []"
    using normalize_ok [of config] by (simp_all add: NewCachedAPIKeyResolverWithConfig_def Let_def)
  ultimately show ?thesis
    by (simp add: system_ok_def resolver_start_def entries_ok_def phases_ok_def slots_ok_def flight_results_ok_def flights_ok_def)
qed

lemma run_ok:
  assumes "resolver_run st y y'" "system_ok st y" shows "system_ok st y'"
  using assms by (induction rule: resolver_run.induct) (auto dest: system_step)


text \<open>The capacities of the shards and the number of miss slots never change.\<close>

definition limits :: "CachedAPIKeyResolver \<Rightarrow> int list \<times> int" where
  "limits c = (map maxEntries (rc_shards c), rc_missMaxConcurrent c)"

lemma map_update_same: "f x = f (xs ! i) \<Longrightarrow> map f (xs[i := x]) = map f xs"
  by (cases "i < length xs") (simp_all add: map_update list_update_same_conv list_update_beyond)

lemma lookup_limits: "limits (snd (loadCachedEntry h now c)) = limits c"
proof -
  have "maxEntries (snd (load_shard h now s)) = maxEntries s" for s
    by (simp add: load_shard_def removeEntry_def split: option.split)
  then show ?thesis by (simp add: loadCachedEntry_def limits_def Let_def case_prod_beta map_update_same)
qed

lemma begin_limits: "limits (snd (resolve_begin h now c)) = limits c"
  using lookup_limits [of h now c] by (auto simp: resolve_begin_def split: prod.split option.split)

lemma flight_limits: "limits (snd (resolve_flight h now c)) = limits c"
  using lookup_limits [of h now c]
  by (auto simp: resolve_flight_def limits_def Let_def split: prod.splits option.split)

lemma evict_max: "maxEntries (evict n s) = maxEntries s"
  by (induction n s rule: evict.induct) (simp_all add: removeEntry_def)

lemma store_limits: "limits (resolve_store h g r now c) = limits c"
proof -
  have "maxEntries (store_shard k e s) = maxEntries s" for k e s
    by (simp add: store_shard_def Let_def evict_max removeEntry_def)
  then have "limits (storeEntry h key user ttl neg g now c) = limits c" for key user ttl neg
    by (simp add: storeEntry_def limits_def Let_def map_update_same)
  then show ?thesis by (auto simp: resolve_store_def split: sum.split)
qed

lemma step_limits: "resolver_step st y y' \<Longrightarrow> limits (sys_cache y') = limits (sys_cache y)"
proof (induction rule: resolver_step.induct)
  case (begin_call y i h now p c)
  then show ?case using begin_limits [of h now "sys_cache y"] by (metis set_call_simps(1) snd_conv)
next
  case (flight y i h now p c)
  then show ?case using flight_limits [of h now "sys_cache y"] by (metis set_call_simps(1) snd_conv)
next
  case (store y i h f g r now)
  show ?case by (simp add: store_limits)
qed (auto simp: limits_def resolve_load_def resolve_panic_def resolve_complete_def
    InvalidateAll_def removeExpiredEntries_def expire_shard_def Let_def close_frame comp_def dest!: admit_effect)

lemma run_limits: "resolver_run st y y' \<Longrightarrow> limits (sys_cache y') = limits (sys_cache y)"
  by (induction rule: resolver_run.induct) (auto dest: step_limits)

lemma shard_capacities:
  "0 \<le> extra \<Longrightarrow> sum_list (map (\<lambda>i. if int i < extra then b + 1 else b) [0..<n]) = int n * b + min (int n) extra"
  by (induction n) (auto simp: algebra_simps)

lemma new_limits:
  "sum_list (fst (limits (NewCachedAPIKeyResolverWithConfig config))) = cfg_MaxEntries (normalizeAPIKeyCacheConfig config)"
  "snd (limits (NewCachedAPIKeyResolverWithConfig config)) = cfg_MissMaxConcurrent (normalizeAPIKeyCacheConfig config)"
proof -
  let ?k = "normalizeAPIKeyCacheConfig config"
  have "0 \<le> cfg_MaxEntries ?k mod cfg_ShardCount ?k" "cfg_MaxEntries ?k mod cfg_ShardCount ?k \<le> cfg_ShardCount ?k"
    using normalize_ok(1) [of config] by (simp_all add: pos_mod_sign less_imp_le)
  then show "sum_list (fst (limits (NewCachedAPIKeyResolverWithConfig config))) = cfg_MaxEntries ?k"
    using normalize_ok(1) [of config] by (simp add: limits_def NewCachedAPIKeyResolverWithConfig_def Let_def comp_def
        shard_capacities if_distrib [of maxEntries] mult.commute [of "cfg_ShardCount ?k"] cong: if_cong)
  show "snd (limits (NewCachedAPIKeyResolverWithConfig config)) = cfg_MissMaxConcurrent ?k"
    by (simp add: limits_def NewCachedAPIKeyResolverWithConfig_def Let_def)
qed

lemma cache_size: "cache_ok c \<Longrightarrow> (\<Sum>s\<leftarrow>rc_shards c. int (length (byHash s))) \<le> sum_list (fst (limits c))"
  by (simp add: limits_def cache_ok_def list_all_iff sum_list_mono)


section \<open>One call by itself\<close>

text \<open>
  What a call does when no other call moves in between: the whole of \<open>Resolve\<close>, nine pieces at most,
  with the context not done.
\<close>

fun resolve_next ::
  "'s APIKeyStore \<Rightarrow> 's \<Rightarrow> string \<Rightarrow> time \<Rightarrow> 's resolve_state \<times> CachedAPIKeyResolver \<Rightarrow> 's resolve_state \<times> CachedAPIKeyResolver" where
  "resolve_next st s h now (Started, c) = resolve_begin h now c"
| "resolve_next st s h now (Missed, c) = resolve_flight h now c"
| "resolve_next st s h now (Leading f g, c) = resolve_admit h f g None False c"
| "resolve_next st s h now (Admitted f g, c) = (KeyRead f g s, c)"
| "resolve_next st s h now (KeyRead f g s1, c) = (UserRead f g s1 s, c)"
| "resolve_next st s h now (UserRead f g s1 s2, c) = resolve_load st (s1, s2, s) h f g c"
| "resolve_next st s h now (Loaded f g r, c) = (Stored f r, resolve_store h g r now c)"
| "resolve_next st s h now (Stored f r, c) = resolve_complete h f r c"
| "resolve_next st s h now (Waiting f, c) = (waitForAPIKeyResolveFlight f None False c, c)"
| "resolve_next st s h now (Returned r, c) = (Returned r, c)"
| "resolve_next st s h now (Panicked, c) = (Panicked, c)"

definition Resolve ::
  "'s APIKeyStore \<Rightarrow> 's \<Rightarrow> string \<Rightarrow> time \<Rightarrow> CachedAPIKeyResolver \<Rightarrow> 's resolve_state \<times> CachedAPIKeyResolver" where
  "Resolve st s h now c = (resolve_next st s h now ^^ 9) (Started, c)"

lemma next_run:
  assumes i: "at_call y i h p"
    and n: "resolve_next st (sys_store y) h now (p, sys_cache y) = (p', c)"
  shows "resolver_run st y (set_call i h p' c y)"
proof -
  have one: "resolver_step st y y' \<Longrightarrow> resolver_run st y y'" for y'
    using resolver_run.step [OF resolver_run.start] .
  have same: "set_call i h p (sys_cache y) y = y"
    using i by (simp add: set_call_def at_call_def list_update_same_conv)
  show ?thesis
  proof (cases p)
    case Started
    then show ?thesis using i n by (auto intro!: one resolver_step.begin_call)
  next
    case Missed
    then show ?thesis using i n by (auto intro!: one resolver_step.flight)
  next
    case (Leading f g)
    then show ?thesis using i n by (auto intro!: one resolver_step.admit)
  next
    case (Admitted f g)
    then show ?thesis using i n by (auto intro!: one resolver_step.read_key)
  next
    case (KeyRead f g s1)
    then show ?thesis using i n by (auto intro!: one resolver_step.read_user)
  next
    case (UserRead f g s1 s2)
    then show ?thesis using i n by (auto intro!: one resolver_step.load)
  next
    case (Loaded f g r)
    then show ?thesis using i n by (auto intro!: one resolver_step.store)
  next
    case (Stored f r)
    then show ?thesis using i n by (auto intro!: one resolver_step.complete)
  next
    case (Waiting f)
    then show ?thesis using i n by (auto intro!: one resolver_step.wait)
  qed (use i n same in \<open>auto intro: resolver_run.start\<close>)
qed

lemma run_trans: "resolver_run st y y' \<Longrightarrow> resolver_run st y' y'' \<Longrightarrow> resolver_run st y y''"
  by (rotate_tac, induction rule: resolver_run.induct) (auto intro: resolver_run.step)

lemma nexts_run:
  assumes "at_call y i h p" "(resolve_next st (sys_store y) h now ^^ n) (p, sys_cache y) = (p', c)"
  shows "resolver_run st y (set_call i h p' c y)"
  using assms
proof (induction n arbitrary: p' c)
  case 0
  then have "set_call i h p' c y = y" by (simp add: set_call_def at_call_def list_update_same_conv)
  then show ?case by (simp add: resolver_run.start)
next
  case (Suc n)
  obtain q d where q: "(resolve_next st (sys_store y) h now ^^ n) (p, sys_cache y) = (q, d)" by force
  let ?y = "set_call i h q d y"
  have "at_call ?y i h q" using Suc.prems(1) by (simp add: at_call_def)
  moreover have "resolve_next st (sys_store ?y) h now (q, sys_cache ?y) = (p', c)" using Suc.prems(2) q by simp
  ultimately have "resolver_run st ?y (set_call i h p' c ?y)" by (rule next_run)
  moreover have "set_call i h p' c ?y = set_call i h p' c y" by (simp add: set_call_def)
  ultimately show ?case using run_trans [OF Suc.IH [OF Suc.prems(1) q]] by simp
qed

lemma Resolve_run:
  "Resolve st (sys_store y) h now (sys_cache y) = (p, c) \<Longrightarrow> at_call y i h Started \<Longrightarrow> resolver_run st y (set_call i h p c y)"
  unfolding Resolve_def by (rule nexts_run)

lemma miss_again:
  assumes "cache_ok c" "loadCachedEntry h now c = (None, c')"
  shows "fst (loadCachedEntry h now c') = None"
proof -
  define i where "i = shardFor h (length (rc_shards c))"
  have i: "i < length (rc_shards c)" using shardFor_less [OF assms(1)] by (simp add: i_def)
  have eq: "load_shard h now (rc_shards c ! i) = (None, rc_shards c' ! i)" "length (rc_shards c') = length (rc_shards c)"
    using assms(2) i by (auto simp: loadCachedEntry_def Let_def i_def [symmetric] split: prod.splits)
  have "fst (load_shard h now (snd (load_shard h now s))) = None" if "fst (load_shard h now s) = None" for s
    using that by (auto simp: load_shard_def removeEntry_def amap split: option.splits if_splits)
  then have "fst (load_shard h now (rc_shards c' ! i)) = None" using eq(1) by (metis fst_conv snd_conv)
  then show ?thesis by (simp add: loadCachedEntry_def Let_def eq(2) i_def [symmetric] case_prod_beta)
qed

lemma at_moments_simps [simp]:
  "load_user (at_moments st) (s1, s2, s3) = load_user st s2" "load_tier (at_moments st) (s1, s2, s3) = load_tier st s3"
  "load_key (at_moments st) (s1, s2, s3) = load_key st s1"
  by (simp_all add: at_moments_def)

lemma at_one_moment: "loadFromStore (at_moments st) (s, s, s) h = loadFromStore st s h"
proof -
  have "AuthenticateUser (at_moments st) (s, s, s) u = AuthenticateUser st s u" for u
    by (cases u) (simp_all add: AuthenticateUser_def resolveTier_def Let_def)
  then have "LoadUserWithTierLimits (at_moments st) (s, s, s) i = LoadUserWithTierLimits st s i" for i
    by (simp add: LoadUserWithTierLimits_def split: sum.split)
  then show ?thesis by (simp add: loadFromStore_def split: sum.split option.split)
qed

lemma Resolve_result:
  fixes st :: "'s APIKeyStore"
  assumes ok: "cache_ok c" "\<not> rc_closed c" "rc_inFlight c = []" and free: "rc_missAdmission c < rc_missMaxConcurrent c"
  shows "fst (Resolve st s h now c) =
    Returned (case fst (loadCachedEntry h now c) of Some a \<Rightarrow> Inr a | None \<Rightarrow> loadFromStore st s h)"
proof -
  obtain found c1 where l: "loadCachedEntry h now c = (found, c1)" by force
  then obtain ss where c1: "c1 = c\<lparr>rc_shards := ss\<rparr>" using load_cached [OF ok(1) l] by blast
  show ?thesis
  proof (cases found)
    case (Some a)
    then have "resolve_begin h now c = (Returned (Inr a) :: 's resolve_state, c1)" using l ok(2) by (simp add: resolve_begin_def)
    then show ?thesis using l Some by (simp add: Resolve_def numeral_eq_Suc funpow_swap1)
  next
    case None
    define f where "f = length (rc_flights c)"
    define g where "g = rc_generation c"
    define r where "r = loadFromStore st s h"
    have b: "resolve_begin h now c = (Missed :: 's resolve_state, c1)" using l ok(2) None by (simp add: resolve_begin_def)
    obtain c2 where l2: "loadCachedEntry h now c1 = (None, c2)"
      using miss_again [OF ok(1)] l None by (metis prod.collapse)
    then obtain ss2 where c2: "c2 = c\<lparr>rc_shards := ss2\<rparr>"
      using load_cached(3) [OF load_cached(1) [OF ok(1) l] l2] c1 by auto
    define c3 where "c3 = c2\<lparr>rc_flights := rc_flights c @ [\<lparr>fl_hash = h, fl_result = None\<rparr>], rc_inFlight := [(h, f)]\<rparr>"
    have fl: "resolve_flight h now c1 = (Leading f g :: 's resolve_state, c3)"
      using ok(2,3) l2 by (simp add: resolve_flight_def c3_def f_def g_def) (simp add: c1 c2 Let_def)
    define c4 where "c4 = c3\<lparr>rc_missAdmission := rc_missAdmission c + 1\<rparr>"
    have ad: "resolve_admit h f g None False c3 = (Admitted f g :: 's resolve_state, c4)"
      using free by (simp add: resolve_admit_def c4_def) (simp add: c3_def c2)
    define c5 where "c5 = c4\<lparr>rc_missAdmission := rc_missAdmission c\<rparr>"
    have lo: "resolve_load st (s, s, s) h f g c4 = (Loaded f g r, c5)"
      by (simp add: resolve_load_def at_one_moment r_def c5_def) (simp add: c4_def)
    have "rc_shards c5 = rc_shards c2" by (simp add: c5_def c4_def c3_def)
    then have ok5: "cache_ok c5" using same_shards [of c5 c2] load_cached(1) [OF load_cached(1) [OF ok(1) l] l2] by simp
    then obtain ss6 where c6: "resolve_store h g r now c5 = c5\<lparr>rc_shards := ss6\<rparr>"
      using resolve_store_effect [OF ok5, of h g r now] by blast
    have open5: "fl_result (rc_flights c5 ! f) = None" "f < length (rc_flights c5)" by (simp_all add: c5_def c4_def c3_def f_def)
    then have "fl_result (rc_flights (completeFlight h f r (c5\<lparr>rc_shards := ss6\<rparr>)) ! f) = Some r"
      by (simp add: completeFlight_def)
    then have "fst (resolve_next st s h now (resolve_complete h f r (c5\<lparr>rc_shards := ss6\<rparr>))) = Returned r"
      by (simp add: resolve_complete_def waitForAPIKeyResolveFlight_def)
    then have "fst (Resolve st s h now c) = Returned r"
      by (simp add: Resolve_def numeral_eq_Suc funpow_swap1 b fl ad lo c6)
    then show ?thesis using None l by (simp add: r_def)
  qed
qed

section \<open>Over the database\<close>

text \<open>The store with the clock its reads take: what a load sees at one moment.\<close>

definition clocked_loader :: "(time \<times> DB) APIKeyStore" where
  "clocked_loader = \<lparr>load_user = (\<lambda>(now, db) i. GetUserByID now i db),
     load_tier = (\<lambda>(now, db) i. map_sum id Some (GetTierByID i db)), load_key = (\<lambda>(now, db) h. GetKeyByHash h db)\<rparr>"

lemma clocked_simps [simp]:
  "load_user clocked_loader (now, db) i = GetUserByID now i db"
  "load_tier clocked_loader (now, db) i = map_sum id Some (GetTierByID i db)"
  "load_key clocked_loader (now, db) h = GetKeyByHash h db"
  by (simp_all add: clocked_loader_def)

lemma clocked_load: "LoadUserWithTierLimits clocked_loader (now, db) i = LoadUserWithTierLimits (store_loader now) db i"
proof -
  have "AuthenticateUser clocked_loader (now, db) u = AuthenticateUser (store_loader now) db u" for u
    by (cases u) (simp_all add: AuthenticateUser_def resolveTier_def Let_def)
  then show ?thesis by (simp add: LoadUserWithTierLimits_def split: sum.split)
qed

interpretation clocked: user_tier_loader "\<lambda>(now, db). db_ok db" clocked_loader
  using store_loads.user_has_tier store_loads.user_has_id by unfold_locales auto

definition demo_cache_config :: APIKeyCacheConfig where
  "demo_cache_config = \<lparr>cfg_TTL = 0, cfg_NegativeTTL = 0, cfg_CleanupInterval = 0, cfg_MaxEntries = 1,
     cfg_ShardCount = 4, cfg_MissMaxConcurrent = 2\<rparr>"

text \<open>A first request with the key of the demonstration database.\<close>

definition demo_request_state :: "(time \<times> DB) system" where
  "demo_request_state = (resolver_start demo_cache_config (demo_time, demo_db))\<lparr>sys_calls := [(''h1'', Started)]\<rparr>"

definition demo_answered_state :: "(time \<times> DB) system" where
  "demo_answered_state = (case Resolve clocked_loader (demo_time, demo_db) ''h1'' demo_time (sys_cache demo_request_state) of
     (p, c) \<Rightarrow> set_call 0 ''h1'' p c demo_request_state)"

definition demo_answer :: "APIKey option \<times> AuthenticatedUser option" where
  "demo_answer = projr (loadFromStore clocked_loader (demo_time, demo_db) ''h1'')"

lemma demo_run: "resolver_run clocked_loader (resolver_start demo_cache_config (demo_time, demo_db)) demo_answered_state"
proof -
  have "resolver_run clocked_loader (resolver_start demo_cache_config (demo_time, demo_db)) demo_request_state"
    using resolver_run.step [OF resolver_run.start resolver_step.call
        [of clocked_loader "resolver_start demo_cache_config (demo_time, demo_db)" "''h1''"]]
    by (simp add: demo_request_state_def resolver_start_def)
  moreover have "at_call demo_request_state 0 ''h1'' Started" "sys_store demo_request_state = (demo_time, demo_db)"
    by (simp_all add: at_call_def demo_request_state_def resolver_start_def)
  then have "resolver_run clocked_loader demo_request_state demo_answered_state"
    using Resolve_run [of clocked_loader demo_request_state "''h1''" demo_time] by (auto simp: demo_answered_state_def split: prod.split)
  ultimately show ?thesis by (rule run_trans)
qed

lemma demo_config_shards: "cfg_ShardCount demo_cache_config < 2 ^ 64" by (simp add: demo_cache_config_def)

lemma demo_calls: "sys_calls demo_answered_state = [(''h1'', Returned (Inr demo_answer))]"
  by code_simp

section \<open>Properties\<close>

text \<open>
  (C22) No stale answers. Whatever the interleaving of callers, store changes, invalidations, expiry and
  shutdown: a request answered from the cache gets what a load that reads the store only after the
  last completed invalidation gives, so a revoked key or a changed user is never served from the
  cache after \<open>InvalidateAll\<close>; and every answer returned by any call is what a load of its own key hash
  read from the store.
\<close>

theorem resolver_never_stale:
  assumes "cfg_ShardCount config < 2 ^ 64" "resolver_run st (resolver_start config s) y"
  shows "(\<forall>h now a c. resolve_begin h now (sys_cache y) = (Returned (Inr a) :: 's resolve_state, c) \<longrightarrow> fresh st (sys_since y) h a) \<and>
    (\<forall>h a. (h, Returned (Inr a)) \<in> set (sys_calls y) \<longrightarrow> fresh st (sys_past y) h a)"
proof -
  note parts = system_parts [OF run_ok [OF assms(2) start_ok [OF assms(1)]]]
  have "fresh st (sys_since y) h a" if "resolve_begin h now (sys_cache y) = (Returned (Inr a) :: 's resolve_state, c)" for h now a c
    using begin_effect [OF that parts(1)] parts(2) by (auto simp: entries_ok_def)
  moreover have "fresh st (sys_past y) h a" if "(h, Returned (Inr a)) \<in> set (sys_calls y)" for h a
    using parts(3) that by (auto simp: phases_ok_def list_all_iff fresh_result_def)
  ultimately show ?thesis by blast
qed

theorem resolver_never_stale_witness:
  "fresh clocked_loader [(demo_time, demo_db)] ''h1'' demo_answer \<and> fst demo_answer \<noteq> None \<and>
   fst (resolve_begin ''h1'' demo_time (sys_cache demo_answered_state)) = (Returned (Inr demo_answer) :: (time \<times> DB) resolve_state)"
proof -
  note stale = resolver_never_stale [OF demo_config_shards demo_run]
  have hit: "fst (resolve_begin ''h1'' demo_time (sys_cache demo_answered_state)) = (Returned (Inr demo_answer) :: (time \<times> DB) resolve_state)"
    by code_simp
  then obtain c where "resolve_begin ''h1'' demo_time (sys_cache demo_answered_state) = (Returned (Inr demo_answer) :: (time \<times> DB) resolve_state, c)"
    by (metis prod.collapse)
  then have "fresh clocked_loader (sys_since demo_answered_state) ''h1'' demo_answer" using stale by blast
  moreover have "sys_since demo_answered_state = [(demo_time, demo_db)]"
    by (simp add: demo_answered_state_def demo_request_state_def resolver_start_def split: prod.split)
  moreover have "fst demo_answer \<noteq> None" by code_simp
  ultimately show ?thesis using hit by simp
qed

text \<open>
  Misses are coalesced and bounded. In every reachable state before shutdown at most one call leads
  a load for a given key hash; whoever waits for a flight that has no result yet waits for a call that
  is still working on it; no more loads run at once than the configured number, at most 1024; and the
  shards together never hold more entries than \<open>MaxEntries\<close>.
\<close>

theorem resolver_single_flight:
  assumes "cfg_ShardCount config < 2 ^ 64" "resolver_run st (resolver_start config s) y"
  shows "(\<not> rc_closed (sys_cache y) \<longrightarrow> (\<forall>i < length (sys_calls y). \<forall>j < length (sys_calls y).
       fst (sys_calls y ! i) = fst (sys_calls y ! j) \<and> leads (snd (sys_calls y ! i)) \<noteq> None \<and> leads (snd (sys_calls y ! j)) \<noteq> None \<longrightarrow> i = j)) \<and>
    (\<forall>i f. at_call y i h (Waiting f) \<and> fl_result (rc_flights (sys_cache y) ! f) = None \<longrightarrow> (\<exists>j p. at_call y j h p \<and> leads p = Some f)) \<and>
    int (length (filter (holds_slot \<circ> snd) (sys_calls y))) \<le> cfg_MissMaxConcurrent (normalizeAPIKeyCacheConfig config) \<and>
    cfg_MissMaxConcurrent (normalizeAPIKeyCacheConfig config) \<le> 1024 \<and>
    (\<Sum>sh\<leftarrow>rc_shards (sys_cache y). int (length (byHash sh))) \<le> cfg_MaxEntries (normalizeAPIKeyCacheConfig config)"
    (is "(_ \<longrightarrow> ?one) \<and> ?led \<and> ?slots \<and> _ \<and> ?size")
proof (intro conjI impI)
  note parts = system_parts [OF run_ok [OF assms(2) start_ok [OF assms(1)]]]
  have lim: "limits (sys_cache y) = limits (NewCachedAPIKeyResolverWithConfig config)"
    using run_limits [OF assms(2)] by (simp add: resolver_start_def)
  show ?slots using parts(4) lim new_limits(2) [of config] by (simp add: slots_ok_def limits_def)
  show ?size using cache_size [OF parts(1)] lim new_limits(1) [of config] by simp
  show "cfg_MissMaxConcurrent (normalizeAPIKeyCacheConfig config) \<le> 1024" by (rule normalize_ok)
  show ?led
  proof (intro allI impI, elim conjE)
    fix i f assume w: "at_call y i h (Waiting f)" "fl_result (rc_flights (sys_cache y) ! f) = None"
    then have f: "f < length (rc_flights (sys_cache y))" "fl_hash (rc_flights (sys_cache y) ! f) = h"
      using flights_okD(4) [OF parts(6), of i f] by (auto simp: at_call_def)
    then obtain j where j: "j < length (sys_calls y)" "leads (snd (sys_calls y ! j)) = Some f"
      using flights_okD(1) [OF parts(6) f(1) w(2)] by blast
    then have "fst (sys_calls y ! j) = h" using flights_okD(2) [OF parts(6) j] f(2) by simp
    then have "at_call y j h (snd (sys_calls y ! j))" using j(1) by (auto simp: at_call_def)
    then show "\<exists>j p. at_call y j h p \<and> leads p = Some f" using j(2) by blast
  qed
  assume op: "\<not> rc_closed (sys_cache y)"
  show ?one
  proof (intro allI impI, elim conjE exE)
    fix i j assume ij: "i < length (sys_calls y)" "j < length (sys_calls y)" "fst (sys_calls y ! i) = fst (sys_calls y ! j)"
      and l: "leads (snd (sys_calls y ! i)) \<noteq> None" "leads (snd (sys_calls y ! j)) \<noteq> None"
    then obtain f f' where ff: "leads (snd (sys_calls y ! i)) = Some f" "leads (snd (sys_calls y ! j)) = Some f'" by blast
    have own: "lookup (rc_inFlight (sys_cache y)) (fst (sys_calls y ! k)) = Some x"
      if "k < length (sys_calls y)" "leads (snd (sys_calls y ! k)) = Some x" for k x
      using flights_okD(2) [OF parts(6) that] flights_okD(1) [OF parts(6), of x] op by simp
    have "f = f'" using own [OF ij(1) ff(1)] own [OF ij(2) ff(2)] ij(3) by simp
    then show "i = j" using flights_okD(3) [OF parts(6) ij(1,2) ff(1)] ff(2) by simp
  qed
qed

theorem resolver_single_flight_witness:
  "int (length (filter (holds_slot \<circ> snd) (sys_calls demo_answered_state))) \<le> 2 \<and>
   (\<Sum>sh\<leftarrow>rc_shards (sys_cache demo_answered_state). int (length (byHash sh))) \<le> 1"
proof -
  have "cfg_MissMaxConcurrent (normalizeAPIKeyCacheConfig demo_cache_config) = 2"
    "cfg_MaxEntries (normalizeAPIKeyCacheConfig demo_cache_config) = 1" by code_simp+
  then show ?thesis using resolver_single_flight [OF demo_config_shards demo_run, of "''h1''"] by simp
qed

text \<open>
  A shard is a bounded LRU cache: the map and the recency list together implement a list of entries
  in order of use. A look-up answers and moves an entry to the front only before its expiry and drops
  it from then on, a store puts the entry in front and drops the least recently used ones beyond the
  capacity, and cleaning up removes exactly the expired entries.
\<close>

theorem lru_shard_refines:
  assumes "shard_rep sh" "0 \<le> maxEntries sh"
  shows "(fst (load_shard h now sh), shard_abs (snd (load_shard h now sh))) = lru_get h now (shard_abs sh) \<and>
    shard_abs (store_shard h e sh) = lru_put (nat (maxEntries sh)) h e (shard_abs sh) \<and>
    shard_abs (expire_shard now sh) = filter (\<lambda>p. now < en_until (snd p)) (shard_abs sh) \<and>
    shard_rep (snd (load_shard h now sh)) \<and> shard_rep (store_shard h e sh) \<and> shard_rep (expire_shard now sh)"
  using load_refines [OF assms(1)] store_refines [OF assms] expire_refines [OF assms(1)] by simp

theorem lru_shard_refines_witness:
  "shard_abs (store_shard ''h2'' \<lparr>en_key = None, en_user = None, en_until = 5, en_negative = True\<rparr>
     (hd (rc_shards (sys_cache demo_answered_state)))) =
   [(''h2'', \<lparr>en_key = None, en_user = None, en_until = 5, en_negative = True\<rparr>)]"
proof -
  let ?sh = "hd (rc_shards (sys_cache demo_answered_state))"
  have rep: "shard_rep ?sh" and max: "maxEntries ?sh = 1" by code_simp+
  then have "nat (maxEntries ?sh) = 1" "0 \<le> maxEntries ?sh" by simp_all
  then show ?thesis
    using lru_shard_refines [OF rep, of "''h2''" demo_time "\<lparr>en_key = None, en_user = None, en_until = 5, en_negative = True\<rparr>"]
    by (simp add: lru_put_def)
qed

end
