(* ===== verification/API_Gate.thy ===== *)
theory API_Gate
  imports Resolver_Run
begin

text \<open>
  API key authentication as a whole: \<open>APIKeyMiddleware\<close> of \<open>internal/auth/middleware.go\<close> over the caching
  resolver over the database. A request gets through only on a key and a user that the database held
  since the last invalidation, and on a cache miss exactly on what the database holds now.
\<close>

section \<open>A call of the resolver from the middleware\<close>

definition resolve_alone :: "'s APIKeyStore \<Rightarrow> 's \<Rightarrow> time \<Rightarrow> CachedAPIKeyResolver resolver" where
  "resolve_alone st s now h c =
     (case Resolve st s h now c of
        (Returned r, c') \<Rightarrow> (r, c') | (_, c') \<Rightarrow> (Inl errAPIKeyResolverLeaderPanicked, c'))"

text \<open>A resolver at rest: nobody else loads and a slot is free.\<close>

definition at_rest :: "CachedAPIKeyResolver \<Rightarrow> bool" where
  "at_rest c \<longleftrightarrow> \<not> rc_closed c \<and> rc_inFlight c = [] \<and> rc_missAdmission c < rc_missMaxConcurrent c"

lemma alone_result:
  assumes "cache_ok c" "at_rest c"
  shows "fst (resolve_alone st s now h c) =
    (case fst (loadCachedEntry h now c) of Some a \<Rightarrow> Inr a | None \<Rightarrow> loadFromStore st s h)"
proof -
  have "fst (Resolve st s h now c) =
      Returned (case fst (loadCachedEntry h now c) of Some a \<Rightarrow> Inr a | None \<Rightarrow> loadFromStore st s h)"
    using assms by (intro Resolve_result) (simp_all add: at_rest_def)
  then show ?thesis by (cases "Resolve st s h now c") (simp add: resolve_alone_def)
qed

text \<open>What an answer of the resolver can be in a reachable state.\<close>

lemma alone_fresh:
  assumes ok: "system_ok st y" and rest: "at_rest (sys_cache y)"
    and r: "fst (resolve_alone st (sys_store y) now h (sys_cache y)) = Inr a"
  shows "fresh st (sys_since y) h a"
proof -
  note parts = system_parts [OF ok]
  have store: "sys_store y \<in> set (sys_since y)" using parts(2) by (simp add: entries_ok_def)
  obtain found c where l: "loadCachedEntry h now (sys_cache y) = (found, c)" by force
  show ?thesis
  proof (cases found)
    case None
    then have "loadFromStore st (sys_store y) h = Inr a" using alone_result [OF parts(1) rest, of st "sys_store y" now h] r l by simp
    then show ?thesis using store at_one_moment unfolding fresh_def by metis
  next
    case (Some b)
    then have "a = b" using alone_result [OF parts(1) rest, of st "sys_store y" now h] r l by simp
    then obtain e where "(h, e) \<in> cached (sys_cache y)" "a = answer e"
      using load_cached(4) [OF parts(1) l Some] by (auto simp: answer_def)
    then show ?thesis using parts(2) by (auto simp: entries_ok_def)
  qed
qed

lemma fresh_shape:
  assumes "fresh clocked_loader M h a"
  shows "a = (None, None) \<or> (\<exists>key user. a = (Some key, Some user) \<and>
    (\<exists>(t, db) \<in> set M. GetKeyByHash h db = Inr (Some key)) \<and>
    (\<exists>(t, db) \<in> set M. GetUserByID t (k_UserID key) db = Inr (au_User user)))"
proof -
  obtain s1 s2 s3 where s: "s1 \<in> set M" "s2 \<in> set M" "s3 \<in> set M"
    and l: "loadFromStore (at_moments clocked_loader) (s1, s2, s3) h = Inr a" using assms by (auto simp: fresh_def)
  obtain t1 d1 t2 d2 where e: "s1 = (t1, d1)" "s2 = (t2, d2)" by force
  show ?thesis
  proof (cases "GetKeyByHash h d1")
    case (Inr k)
    then show ?thesis
    proof (cases k)
      case (Some key)
      then obtain user where u: "LoadUserWithTierLimits (at_moments clocked_loader) (s1, s2, s3) (k_UserID key) = Inr user"
        "a = (Some key, Some user)" using l Inr by (auto simp: loadFromStore_def e split: sum.splits)
      then have "GetUserByID t2 (k_UserID key) d2 = Inr (au_User user)"
        by (auto simp: LoadUserWithTierLimits_def AuthenticateUser_def e split: sum.splits)
      then show ?thesis using u(2) s Inr Some e by blast
    qed (use l in \<open>simp add: loadFromStore_def e\<close>)
  qed (use l in \<open>simp add: loadFromStore_def e\<close>)
qed

lemma key_has_user:
  assumes "db_ok db" "key \<in> set (apikeys db)" shows "\<exists>u. user_row (k_UserID key) db = Some u"
  using db_ok_references [OF assms(1)] assms(2)
  by (cases "user_row (k_UserID key) db") (auto simp: references_ok_def user_row_None)

section \<open>Properties\<close>


definition demo_key_token :: string where
  "demo_key_token = ''grok_'' @ replicate 64 (CHR ''0'')"

definition demo_key_request :: Request where
  "demo_key_request = \<lparr>RemoteAddr = ''10.0.0.1:1'', header = [(''Authorization'', [''Bearer '' @ demo_key_token])]\<rparr>"

lemma demo_key_request_token: "bearerToken demo_key_request = Some demo_key_token" "isGeneratedAPIKey demo_key_token"
  by code_simp+


text \<open>
  The gate is exact on a miss. When the cache holds no live entry for the token's hash, the answer
  is decided by the database as it stands: the request goes on with the stored key and its user, and
  with the limits of the user's tier, precisely if the key exists, is enabled, and its user is enabled;
  otherwise it is refused with 403.
\<close>

theorem api_key_gate_exact:
  assumes "cfg_ShardCount config < 2 ^ 64"
    and "resolver_run clocked_loader (resolver_start config s) y" "at_rest (sys_cache y)"
    and "sys_store y = (t, db)" "db_ok db"
    and "bearerToken r = Some token" "isGeneratedAPIKey token" "fst (loadCachedEntry (hash token) now (sys_cache y)) = None"
  shows "map_sum id fst (APIKeyMiddleware hash (resolve_alone clocked_loader (sys_store y) now) r ctx (sys_cache y)) =
    Inr (case find (\<lambda>k. k_KeyHash k = hash token) (apikeys db) of
        None \<Rightarrow> Respond (http_Error StatusForbidden ''invalid API key'')
      | Some key \<Rightarrow>
          if \<not> k_Enabled key then Respond (http_Error StatusForbidden ''API key disabled'')
          else case user_row (k_UserID key) db of
              None \<Rightarrow> Respond (http_Error StatusUnauthorized ''user not found'')
            | Some u \<Rightarrow>
                if \<not> u_Enabled u then Respond (http_Error StatusForbidden ''user disabled'')
                else Next (WithUser (WithAPIKey ctx key) (authenticated t db u)))"
proof -
  note ok = system_parts(1) [OF run_ok [OF assms(2) start_ok [OF assms(1)]]]
  obtain res c where l: "resolve_alone clocked_loader (sys_store y) now (hash token) (sys_cache y) = (res, c)" by force
  have res: "res = loadFromStore clocked_loader (t, db) (hash token)"
    using alone_result [OF ok assms(3), of clocked_loader "sys_store y" now "hash token"] l assms(4,8) by simp
  note mw = APIKeyMiddleware_def assms(6,7) l res loadFromStore_def clocked_load GetKeyByHash_def load_stored_user [OF assms(5)]
  show ?thesis
  proof (cases "find (\<lambda>k. k_KeyHash k = hash token) (apikeys db)")
    case (Some key)
    then have "key \<in> set (apikeys db)" by (auto simp: find_Some_iff)
    then obtain u where u: "user_row (k_UserID key) db = Some u"
      using key_has_user [OF assms(5)] by blast
    then have "u_Enabled (au_User (authenticated t db u)) = u_Enabled u"
      using user_tier_row [OF assms(5) u] by (auto simp: authenticated_def scanUser_def Let_def split: if_splits)
    then show ?thesis using Some u by (simp add: mw)
  qed (simp add: mw)
qed


theorem api_key_gate_exact_witness:
  "map_sum id fst (APIKeyMiddleware (\<lambda>_. ''h1'') (resolve_alone clocked_loader (demo_time, demo_db) demo_time)
     demo_key_request emptyContext (NewCachedAPIKeyResolverWithConfig demo_cache_config)) =
   Inr (Next (WithUser (WithAPIKey emptyContext (hd (apikeys demo_db))) (authenticated demo_time demo_db (demo_user_row ''ann'' RoleUser 2))))"
proof -
  let ?y = "resolver_start demo_cache_config (demo_time, demo_db)"
  have start: "resolver_run clocked_loader ?y ?y" by (rule resolver_run.start)
  have rest: "at_rest (sys_cache ?y)" by code_simp
  have cold: "fst (loadCachedEntry ''h1'' demo_time (sys_cache ?y)) = None" by code_simp
  have row: "find (\<lambda>k. k_KeyHash k = ''h1'') (apikeys demo_db) = Some (hd (apikeys demo_db))"
    "k_Enabled (hd (apikeys demo_db))" "user_row (k_UserID (hd (apikeys demo_db))) demo_db = Some (demo_user_row ''ann'' RoleUser 2)"
    "u_Enabled (demo_user_row ''ann'' RoleUser 2)" by code_simp+
  have "sys_store ?y = (demo_time, demo_db)" "sys_cache ?y = NewCachedAPIKeyResolverWithConfig demo_cache_config"
    by (simp_all add: resolver_start_def)
  then show ?thesis
    using api_key_gate_exact [OF demo_config_shards start rest _ demo_db_ok demo_key_request_token, of demo_time "\<lambda>_. ''h1''" demo_time emptyContext]
      cold row by simp
qed

end
