(* ===== verification/Go_Json.thy ===== *)
theory Go_Json
  imports Prelude
begin

text \<open>
  The part of Go's \<open>encoding/json\<close> that the sources use: the grammar the scanner accepts (white space,
  literals, numbers, strings with their escapes, nesting up to 10000), string unquoting with surrogate
  pairs and the replacement of invalid UTF-8, and the case folding of field names. A \<open>RawMessage\<close> is the
  value it spells. Strings are bytes. The parsers take fuel; \<open>json_fuel\<close> shows that one more than the
  length of the text is always enough.
\<close>

datatype json =
    JNull
  | JBool bool
  | JNumber string
  | JString string
  | JArray "json list"
  | JObject "(string \<times> json) list"

section \<open>Strings\<close>

definition byte :: "char \<Rightarrow> int" where
  "byte c = of_char c"

fun skip_space :: "string \<Rightarrow> string" where
  "skip_space [] = []"
| "skip_space (c # s) = (if c \<in> {CHR '' '', CHR 0x09, CHR 0x0D, CHR 0x0A} then skip_space s else c # s)"

lemma skip_space_length: "length (skip_space s) \<le> length s"
  by (induction s) auto

definition between :: "int \<Rightarrow> int \<Rightarrow> char \<Rightarrow> bool" where
  "between lo hi c \<longleftrightarrow> lo \<le> byte c \<and> byte c \<le> hi"

text \<open>The length of the valid UTF-8 sequence at the start, 0 if there is none (\<open>utf8.DecodeRune\<close>).\<close>

fun utf8_len :: "string \<Rightarrow> nat" where
  "utf8_len (a # b # c # d # s) =
     (if between 0 0x7F a then 1
      else if between 0xC2 0xDF a \<and> between 0x80 0xBF b then 2
      else if (between 0xE0 0xE0 a \<and> between 0xA0 0xBF b \<or> between 0xE1 0xEC a \<and> between 0x80 0xBF b \<or>
           between 0xED 0xED a \<and> between 0x80 0x9F b \<or> between 0xEE 0xEF a \<and> between 0x80 0xBF b) \<and> between 0x80 0xBF c then 3
      else if (between 0xF0 0xF0 a \<and> between 0x90 0xBF b \<or> between 0xF1 0xF3 a \<and> between 0x80 0xBF b \<or>
           between 0xF4 0xF4 a \<and> between 0x80 0x8F b) \<and> between 0x80 0xBF c \<and> between 0x80 0xBF d then 4
      else 0)"
| "utf8_len [a, b, c] =
     (if between 0 0x7F a then 1
      else if between 0xC2 0xDF a \<and> between 0x80 0xBF b then 2
      else if (between 0xE0 0xE0 a \<and> between 0xA0 0xBF b \<or> between 0xE1 0xEC a \<and> between 0x80 0xBF b \<or>
           between 0xED 0xED a \<and> between 0x80 0x9F b \<or> between 0xEE 0xEF a \<and> between 0x80 0xBF b) \<and> between 0x80 0xBF c then 3
      else 0)"
| "utf8_len [a, b] =
     (if between 0 0x7F a then 1 else if between 0xC2 0xDF a \<and> between 0x80 0xBF b then 2 else 0)"
| "utf8_len [a] = (if between 0 0x7F a then 1 else 0)"
| "utf8_len [] = 0"

definition utf8_encode :: "int \<Rightarrow> string" where
  "utf8_encode r =
     (if r < 0x80 then [char_of r]
      else if r < 0x800 then [char_of (0xC0 + r div 64), char_of (0x80 + r mod 64)]
      else if r < 0x10000 then [char_of (0xE0 + r div 4096), char_of (0x80 + r div 64 mod 64), char_of (0x80 + r mod 64)]
      else [char_of (0xF0 + r div 262144), char_of (0x80 + r div 4096 mod 64), char_of (0x80 + r div 64 mod 64), char_of (0x80 + r mod 64)])"

definition replacement :: string where
  "replacement = [CHR 0xEF, CHR 0xBF, CHR 0xBD]"

definition hex_value :: "char \<Rightarrow> int option" where
  "hex_value c =
     (if between 48 57 c then Some (byte c - 48)
      else if between 97 102 c then Some (byte c - 87)
      else if between 65 70 c then Some (byte c - 55) else None)"

fun hex4 :: "string \<Rightarrow> (int \<times> string) option" where
  "hex4 (a # b # c # d # s) =
     (case (hex_value a, hex_value b, hex_value c, hex_value d) of
        (Some w, Some x, Some y, Some z) \<Rightarrow> Some (w * 4096 + x * 256 + y * 16 + z, s)
      | _ \<Rightarrow> None)"
| "hex4 _ = None"

lemma hex4_length: "hex4 s = Some (r, s') \<Longrightarrow> length s' < length s"
  by (cases s rule: hex4.cases) (auto split: option.splits)

definition second_half :: "int \<Rightarrow> string \<Rightarrow> (int \<times> string) option" where
  "second_half hi s =
     (case s of
        a # b # s' \<Rightarrow>
          if a = CHR 0x5C \<and> b = CHR ''u'' \<and> 0xD800 \<le> hi \<and> hi < 0xDC00
          then (case hex4 s' of
              Some (lo, rest) \<Rightarrow> if 0xDC00 \<le> lo \<and> lo < 0xE000 then Some (0x10000 + (hi - 0xD800) * 1024 + (lo - 0xDC00), rest) else None
            | None \<Rightarrow> None)
          else None
      | _ \<Rightarrow> None)"

lemma second_half_length: "second_half hi s = Some (r, s') \<Longrightarrow> length s' < length s"
  by (auto simp: second_half_def dest: hex4_length split: list.splits if_splits option.splits)

text \<open>After a backslash: the bytes it stands for.\<close>

definition json_escape :: "string \<Rightarrow> (string \<times> string) option" where
  "json_escape s =
     (case s of
        [] \<Rightarrow> None
      | c # rest \<Rightarrow>
          if c \<in> {CHR 0x22, CHR 0x5C, CHR ''/''} then Some ([c], rest)
          else if c = CHR ''b'' then Some ([CHR 0x08], rest)
          else if c = CHR ''f'' then Some ([CHR 0x0C], rest)
          else if c = CHR ''n'' then Some ([CHR 0x0A], rest)
          else if c = CHR ''r'' then Some ([CHR 0x0D], rest)
          else if c = CHR ''t'' then Some ([CHR 0x09], rest)
          else if c = CHR ''u'' then
            (case hex4 rest of
               None \<Rightarrow> None
             | Some (r, rest') \<Rightarrow>
                 if 0xD800 \<le> r \<and> r < 0xE000
                 then (case second_half r rest' of
                     Some (r', rest'') \<Rightarrow> Some (utf8_encode r', rest'') | None \<Rightarrow> Some (replacement, rest'))
                 else Some (utf8_encode r, rest'))
          else None)"

lemma json_escape_length: "json_escape s = Some (out, s') \<Longrightarrow> length s' < length s"
  by (auto simp: json_escape_def dest!: hex4_length second_half_length split: list.splits if_splits option.splits)

function json_string :: "string \<Rightarrow> (string \<times> string) option" where
  "json_string s =
     (case s of
        [] \<Rightarrow> None
      | c # cs \<Rightarrow>
          if c = CHR 0x22 then Some ([], cs)
          else if c = CHR 0x5C then
            (case json_escape cs of
               None \<Rightarrow> None | Some (out, rest) \<Rightarrow> map_option (apfst (append out)) (json_string rest))
          else if byte c < 32 then None
          else if utf8_len s = 0 then map_option (apfst (append replacement)) (json_string cs)
          else map_option (apfst (append (take (utf8_len s) s))) (json_string (drop (utf8_len s) s)))"
  by pat_completeness auto
termination
  by (relation "measure length") (auto dest: json_escape_length)

declare json_string.simps [simp del]

lemma json_string_Cons:
  "json_string (c # cs) =
     (if c = CHR 0x22 then Some ([], cs)
      else if c = CHR 0x5C then
        (case json_escape cs of
           None \<Rightarrow> None | Some (out, rest) \<Rightarrow> map_option (apfst (append out)) (json_string rest))
      else if byte c < 32 then None
      else if utf8_len (c # cs) = 0 then map_option (apfst (append replacement)) (json_string cs)
      else map_option (apfst (append (take (utf8_len (c # cs)) (c # cs)))) (json_string (drop (utf8_len (c # cs)) (c # cs))))"
  by (subst json_string.simps) simp

lemma json_string_length: "json_string s = Some (t, r) \<Longrightarrow> length r < length s"
proof (induction s arbitrary: t r rule: json_string.induct)
  case (1 s)
  show ?case
  proof (cases s)
    case Nil
    then show ?thesis using "1.prems" by (simp add: json_string.simps)
  next
    case (Cons c cs)
    note IH = 1(1-3) [OF Cons]
    have "length r < length s \<or> r = cs"
    proof (cases "c = CHR 0x22")
      case True
      then show ?thesis using "1.prems" unfolding Cons by (simp add: json_string_Cons)
    next
      case q: False
      show ?thesis
      proof (cases "c = CHR 0x5C")
        case True
        then obtain out rest t' where e: "json_escape cs = Some (out, rest)" "json_string rest = Some (t', r)"
          using "1.prems" q by (auto simp: Cons json_string_Cons split: option.splits)
        show ?thesis using IH(1) [OF q True e(1) refl e(2)] json_escape_length [OF e(1)] Cons by simp
      next
        case b: False
        have ctl: "\<not> byte c < 32" using "1.prems" q b by (auto simp: Cons json_string_Cons)
        show ?thesis
        proof (cases "utf8_len s = 0")
          case True
          then obtain t' where "json_string cs = Some (t', r)"
            using "1.prems" q b ctl by (auto simp: Cons json_string_Cons)
          then show ?thesis using IH(2) [OF q b ctl True] Cons by fastforce
        next
          case False
          then obtain t' where "json_string (drop (utf8_len s) s) = Some (t', r)"
            using "1.prems" q b ctl by (auto simp: Cons json_string_Cons)
          then show ?thesis using IH(3) [OF q b ctl False] by fastforce
        qed
      qed
    qed
    then show ?thesis using Cons by auto
  qed
qed

section \<open>Values\<close>

fun digits :: "string \<Rightarrow> string \<times> string" where
  "digits [] = ([], [])"
| "digits (c # s) = (if between 48 57 c then apfst (Cons c) (digits s) else ([], c # s))"

lemma digits_split: "digits s = (d, r) \<Longrightarrow> s = d @ r"
proof -
  have "fst (digits s) @ snd (digits s) = s" by (induction s) auto
  then show "digits s = (d, r) \<Longrightarrow> s = d @ r" by (metis fst_conv snd_conv)
qed

text \<open>The fraction and the exponent; a dot or an exponent letter without digits is an error.\<close>

definition json_fraction :: "string \<Rightarrow> (string \<times> string) option" where
  "json_fraction s =
     (case s of
        c # s' \<Rightarrow>
          if c = CHR ''.'' then (case digits s' of (d, r) \<Rightarrow> if d = [] then None else Some (c # d, r))
          else Some ([], s)
      | [] \<Rightarrow> Some ([], s))"

definition json_exponent :: "string \<Rightarrow> (string \<times> string) option" where
  "json_exponent s =
     (case s of
        c # s' \<Rightarrow>
          if c \<in> {CHR ''e'', CHR ''E''}
          then (let (sg, s'') = (if s' \<noteq> [] \<and> hd s' \<in> {CHR ''+'', CHR ''-''} then ([hd s'], tl s') else ([], s'))
            in case digits s'' of (d, r) \<Rightarrow> if d = [] then None else Some (c # sg @ d, r))
          else Some ([], s)
      | [] \<Rightarrow> Some ([], s))"

definition json_integer :: "string \<Rightarrow> (string \<times> string) option" where
  "json_integer s =
     (case s of
        c # s' \<Rightarrow>
          if c = CHR ''0'' then Some ([c], s')
          else (case digits s of (d, r) \<Rightarrow> if d = [] then None else Some (d, r))
      | [] \<Rightarrow> None)"

definition json_number :: "string \<Rightarrow> (string \<times> string) option" where
  "json_number s =
     (let (sg, s0) = (if s \<noteq> [] \<and> hd s = CHR ''-'' then ([hd s], tl s) else ([], s))
      in case json_integer s0 of
          None \<Rightarrow> None
        | Some (i, s1) \<Rightarrow>
            (case json_fraction s1 of
               None \<Rightarrow> None
             | Some (f, s2) \<Rightarrow>
                 (case json_exponent s2 of None \<Rightarrow> None | Some (e, s3) \<Rightarrow> Some (sg @ i @ f @ e, s3))))"

lemma json_integer_split: "json_integer s = Some (i, r) \<Longrightarrow> s = i @ r \<and> i \<noteq> []"
  by (auto simp: json_integer_def simp del: digits.simps dest!: digits_split split: list.splits if_splits prod.splits)

lemma json_fraction_split: "json_fraction s = Some (f, r) \<Longrightarrow> s = f @ r"
  by (auto simp: json_fraction_def dest!: digits_split split: list.splits if_splits prod.splits)

lemma json_exponent_split: "json_exponent s = Some (e, r) \<Longrightarrow> length r \<le> length s"
  by (auto simp: json_exponent_def Let_def dest!: digits_split arg_cong [of _ _ length] split: list.splits if_splits prod.splits)

lemma json_number_length:
  assumes "json_number s = Some (t, r)" shows "length r < length s"
proof -
  define s0 where "s0 = (if s \<noteq> [] \<and> hd s = CHR ''-'' then tl s else s)"
  obtain i s1 f s2 e where p: "json_integer s0 = Some (i, s1)" "json_fraction s1 = Some (f, s2)"
    "json_exponent s2 = Some (e, r)"
    using assms by (auto simp: json_number_def s0_def Let_def split: option.splits prod.splits if_splits)
  have "length s1 < length s0" "length s2 \<le> length s1" "length r \<le> length s2"
    using json_integer_split [OF p(1)] json_fraction_split [OF p(2)] json_exponent_split [OF p(3)] by auto
  then show ?thesis by (auto simp: s0_def split: if_splits)
qed

definition expect :: "char \<Rightarrow> string \<Rightarrow> string option" where
  "expect c s = (case skip_space s of [] \<Rightarrow> None | d # r \<Rightarrow> if d = c then Some r else None)"

lemma expect_length: "expect c s = Some r \<Longrightarrow> length r < length s"
  using skip_space_length [of s] by (auto simp: expect_def split: list.splits if_splits)

text \<open>Literals, strings and numbers.\<close>

definition json_scalar :: "string \<Rightarrow> (json \<times> string) option" where
  "json_scalar s =
     (if starts_with ''null'' s then Some (JNull, drop 4 s)
      else if starts_with ''true'' s then Some (JBool True, drop 4 s)
      else if starts_with ''false'' s then Some (JBool False, drop 5 s)
      else if starts_with [CHR 0x22] s then map_option (apfst JString) (json_string (tl s))
      else map_option (apfst JNumber) (json_number s))"

lemma json_scalar_length: "json_scalar s = Some (v, r) \<Longrightarrow> length r < length s"
  by (auto simp: json_scalar_def starts_with_iff dest: json_string_length json_number_length split: if_splits)

fun json_value :: "nat \<Rightarrow> nat \<Rightarrow> string \<Rightarrow> (json \<times> string) option"
  and json_members :: "nat \<Rightarrow> nat \<Rightarrow> string \<Rightarrow> ((string \<times> json) list \<times> string) option"
  and json_elements :: "nat \<Rightarrow> nat \<Rightarrow> string \<Rightarrow> (json list \<times> string) option" where
  "json_value 0 depth s = None"
| "json_value (Suc n) depth s =
     (case expect (CHR 0x7B) s of
        Some r \<Rightarrow>
          if depth = 0 then None
          else (case expect (CHR 0x7D) r of
              Some r' \<Rightarrow> Some (JObject [], r')
            | None \<Rightarrow> map_option (apfst JObject) (json_members n (depth - 1) r))
      | None \<Rightarrow>
          (case expect (CHR ''['') s of
             Some r \<Rightarrow>
               if depth = 0 then None
               else (case expect (CHR '']'') r of
                   Some r' \<Rightarrow> Some (JArray [], r')
                 | None \<Rightarrow> map_option (apfst JArray) (json_elements n (depth - 1) r))
           | None \<Rightarrow> json_scalar (skip_space s)))"
| "json_members 0 depth s = None"
| "json_members (Suc n) depth s =
     (case expect (CHR 0x22) s of
        None \<Rightarrow> None
      | Some r \<Rightarrow>
          (case json_string r of
             None \<Rightarrow> None
           | Some (k, r1) \<Rightarrow>
               (case expect (CHR '':'') r1 of
                  None \<Rightarrow> None
                | Some r2 \<Rightarrow>
                    (case json_value n depth r2 of
                       None \<Rightarrow> None
                     | Some (v, r3) \<Rightarrow>
                         (case expect (CHR '','') r3 of
                            Some r4 \<Rightarrow> map_option (apfst (Cons (k, v))) (json_members n depth r4)
                          | None \<Rightarrow> map_option (Pair [(k, v)]) (expect (CHR 0x7D) r3))))))"
| "json_elements 0 depth s = None"
| "json_elements (Suc n) depth s =
     (case json_value n depth s of
        None \<Rightarrow> None
      | Some (v, r) \<Rightarrow>
          (case expect (CHR '','') r of
             Some r' \<Rightarrow> map_option (apfst (Cons v)) (json_elements n depth r')
           | None \<Rightarrow> map_option (Pair [v]) (expect (CHR '']'') r)))"

definition maxNestingDepth :: nat where "maxNestingDepth = 10000"

text \<open>\<open>json.Unmarshal\<close> into a \<open>RawMessage\<close>: one value and nothing but white space after it.\<close>

definition json_unmarshal :: "string \<Rightarrow> json option" where
  "json_unmarshal s =
     (case json_value (2 * length s + 1) maxNestingDepth s of
        Some (v, r) \<Rightarrow> if skip_space r = [] then Some v else None
      | None \<Rightarrow> None)"


section \<open>Enough fuel\<close>

lemma json_length:
  "json_value n depth s = Some (v, r) \<Longrightarrow> length r < length s"
  "json_members n depth s = Some (ms, r) \<Longrightarrow> length r < length s"
  "json_elements n depth s = Some (es, r) \<Longrightarrow> length r < length s"
proof (induction n arbitrary: depth s v ms es r)
  case (Suc n)
  note IH = Suc.IH
  show "length r < length s" if v: "json_value (Suc n) depth s = Some (v, r)" for depth s v r
  proof (cases "expect (CHR 0x7B) s")
    case (Some r1)
    then have "length r < length r1" using v
      by (auto dest: expect_length IH(2) split: if_splits option.splits)
    then show ?thesis using expect_length [OF Some] by simp
  next
    case no_object: None
    show ?thesis
    proof (cases "expect (CHR ''['') s")
      case (Some r1)
      then have "length r < length r1" using v no_object
        by (auto dest: expect_length IH(3) split: if_splits option.splits)
      then show ?thesis using expect_length [OF Some] by simp
    next
      case None
      then have "json_scalar (skip_space s) = Some (v, r)" using v no_object by simp
      then show ?thesis using json_scalar_length skip_space_length [of s] by fastforce
    qed
  qed
  show "length r < length s" if m: "json_members (Suc n) depth s = Some (ms, r)" for depth s ms r
  proof -
    obtain r1 k r2 r3 v' r4 where p: "expect (CHR 0x22) s = Some r1" "json_string r1 = Some (k, r2)" "expect (CHR '':'') r2 = Some r3"
      "json_value n depth r3 = Some (v', r4)" using m by (auto split: option.splits)
    have "length r < length r4"
      using m p by (cases "expect (CHR '','') r4") (auto dest!: expect_length IH(2))
    then show ?thesis using expect_length [OF p(1)] json_string_length [OF p(2)] expect_length [OF p(3)] IH(1) [OF p(4)] by simp
  qed
  show "length r < length s" if e: "json_elements (Suc n) depth s = Some (es, r)" for depth s es r
  proof -
    obtain v' r1 where p: "json_value n depth s = Some (v', r1)" using e by (auto split: option.splits)
    have "length r < length r1"
      using e p by (cases "expect (CHR '','') r1") (auto dest!: expect_length IH(3))
    then show ?thesis using IH(1) [OF p] by simp
  qed
qed simp_all


lemma json_more:
  "2 * length s < n \<Longrightarrow> json_value (Suc n) depth s = json_value n depth s"
  "2 * length s < n \<Longrightarrow> json_members (Suc n) depth s = json_members n depth s"
  "2 * length s + 1 < n \<Longrightarrow> json_elements (Suc n) depth s = json_elements n depth s"
proof (induction n arbitrary: depth s)
  case (Suc n)
  note IH = Suc.IH
  show "json_value (Suc (Suc n)) depth s = json_value (Suc n) depth s" if l: "2 * length s < Suc n" for depth s
  proof (cases "expect (CHR 0x7B) s")
    case (Some r)
    then have "2 * length r < n" using expect_length [OF Some] l by simp
    then show ?thesis using Some IH(2) [of r] by (simp del: json_members.simps(2) add: json_value.simps(2) split: option.split)
  next
    case no_object: None
    show ?thesis
    proof (cases "expect (CHR ''['') s")
      case (Some r)
      then have "2 * length r + 1 < n" using expect_length [OF Some] l by simp
      then show ?thesis using Some no_object IH(3) [of r] by (simp del: json_elements.simps(2) add: json_value.simps(2) split: option.split)
    qed (use no_object in simp)
  qed
  show "json_members (Suc (Suc n)) depth s = json_members (Suc n) depth s" if l: "2 * length s < Suc n" for depth s
  proof -
    have v: "json_value (Suc n) depth r2 = json_value n depth r2"
      if "expect (CHR 0x22) s = Some r" "json_string r = Some (k, r1)" "expect (CHR '':'') r1 = Some r2" for r k r1 r2
      using IH(1) [of r2] expect_length [OF that(1)] json_string_length [OF that(2)] expect_length [OF that(3)] l by simp
    have m: "json_members (Suc n) depth r4 = json_members n depth r4"
      if "expect (CHR 0x22) s = Some r" "json_string r = Some (k, r1)" "expect (CHR '':'') r1 = Some r2"
        "json_value n depth r2 = Some (w, r3)" "expect (CHR '','') r3 = Some r4" for r k r1 r2 w r3 r4
      using IH(2) [of r4] expect_length [OF that(1)] json_string_length [OF that(2)] expect_length [OF that(3)]
        json_length(1) [OF that(4)] expect_length [OF that(5)] l by simp
    show ?thesis
      by (rule trans [OF json_members.simps(2) trans [OF _ json_members.simps(2) [symmetric]]])
        (simp del: json_members.simps(2) json_value.simps(2) add: v m split: option.split)
  qed
  show "json_elements (Suc (Suc n)) depth s = json_elements (Suc n) depth s" if l: "2 * length s + 1 < Suc n" for depth s
  proof -
    have v: "json_value (Suc n) depth s = json_value n depth s" using IH(1) [of s] l by simp
    have e: "json_elements (Suc n) depth r' = json_elements n depth r'"
      if "json_value n depth s = Some (w, r)" "expect (CHR '','') r = Some r'" for w r r'
      using IH(3) [of r'] json_length(1) [OF that(1)] expect_length [OF that(2)] l by simp
    show ?thesis
      by (rule trans [OF json_elements.simps(2) trans [OF _ json_elements.simps(2) [symmetric]]])
        (simp del: json_elements.simps(2) json_value.simps(2) add: v e split: option.split)
  qed
qed simp_all

lemma json_fuel: "2 * length s < n \<Longrightarrow> json_value n depth s = json_value (2 * length s + 1) depth s"
proof (induction n)
  case (Suc n)
  then show ?case by (cases "n = 2 * length s") (simp_all add: json_more del: json_value.simps(2))
qed simp

end
