(* ===== verification/Tool_Inspection.thy ===== *)
theory Tool_Inspection
  imports Go_Json Rate_Lib
begin

text \<open>
  What \<open>internal/usage\<close> reads off a request and a response: the name of the tool a JSON-RPC request calls
  (\<open>inspectJSONRPCRequest\<close> of \<open>middleware.go\<close>), and whether a streamed response reports a tool error
  (\<open>response_inspector.go\<close>), with the outcome marker of \<open>outcome.go\<close>.
\<close>

section \<open>The tool a request calls\<close>

record jsonRPCRequestInspection =
  ToolName :: string
  IsBatchRequest :: bool
  HasAmbiguousToolRoutingFields :: bool

text \<open>
  Field names are compared as \<open>strings.EqualFold\<close> does with an ASCII name: beyond the ASCII letters only
  the Kelvin sign folds to k and the long s to s. Decoded names are valid UTF-8.
\<close>

function fold_name :: "string \<Rightarrow> string" where
  "fold_name s =
     (case s of
        [] \<Rightarrow> []
      | c # cs \<Rightarrow>
          if starts_with [CHR 0xE2, CHR 0x84, CHR 0xAA] s then CHR ''k'' # fold_name (drop 3 s)
          else if starts_with [CHR 0xC5, CHR 0xBF] s then CHR ''s'' # fold_name (drop 2 s)
          else to_lower c # fold_name cs)"
  by pat_completeness auto
termination
  by (relation "measure length") auto

declare fold_name.simps [simp del]

definition names :: "string \<Rightarrow> string \<Rightarrow> bool" where
  "names canonicalName fieldName \<longleftrightarrow> fold_name fieldName = map to_lower canonicalName"

record routing_fields =
  exactValues :: "(string, json) gomap"
  seenRoutingFields :: "string list"
  hasAmbiguousRoutingFields :: bool

definition inspect_field :: "string list \<Rightarrow> string \<times> json \<Rightarrow> routing_fields \<Rightarrow> routing_fields" where
  "inspect_field routingFieldNames field st =
     (case find (\<lambda>canonicalName. names canonicalName (fst field)) routingFieldNames of
        None \<Rightarrow> st
      | Some canonicalName \<Rightarrow>
          st\<lparr>hasAmbiguousRoutingFields := hasAmbiguousRoutingFields st \<or> fst field \<noteq> canonicalName \<or>
               canonicalName \<in> set (seenRoutingFields st),
             seenRoutingFields := canonicalName # seenRoutingFields st,
             exactValues := (if fst field = canonicalName then AList.update canonicalName (snd field) (exactValues st)
               else exactValues st)\<rparr>)"

definition inspect_fields :: "string list \<Rightarrow> (string \<times> json) list \<Rightarrow> routing_fields" where
  "inspect_fields routingFieldNames fs = fold (inspect_field routingFieldNames) fs
     \<lparr>exactValues = [], seenRoutingFields = [], hasAmbiguousRoutingFields = False\<rparr>"

text \<open>The token loop of the decoder: one object, its fields in order, and nothing after it.\<close>

definition json_object :: "string \<Rightarrow> (string \<times> json) list option" where
  "json_object body =
     (case expect (CHR 0x7B) body of
        None \<Rightarrow> None
      | Some r \<Rightarrow>
          (case (case expect (CHR 0x7D) r of
               Some r' \<Rightarrow> Some ([], r') | None \<Rightarrow> json_members (2 * length r + 1) maxNestingDepth r) of
             Some (fs, rest) \<Rightarrow> if skip_space rest = [] then Some fs else None
           | None \<Rightarrow> None))"

definition inspectCaseSensitiveJSONObject ::
  "string \<Rightarrow> string list \<Rightarrow> ((string, json) gomap \<times> bool) option" where
  "inspectCaseSensitiveJSONObject body routingFieldNames =
     map_option (\<lambda>fs. let r = inspect_fields routingFieldNames fs in (exactValues r, hasAmbiguousRoutingFields r))
       (json_object body)"

text \<open>The same on a raw value already read, which spells an object or is refused.\<close>

definition inspect_value :: "json \<Rightarrow> string list \<Rightarrow> ((string, json) gomap \<times> bool) option" where
  "inspect_value v routingFieldNames =
     (case v of
        JObject fs \<Rightarrow> (let r = inspect_fields routingFieldNames fs in Some (exactValues r, hasAmbiguousRoutingFields r))
      | _ \<Rightarrow> None)"

text \<open>\<open>json.Unmarshal\<close> into a \<open>string\<close>; null leaves it empty.\<close>

fun unmarshal_string :: "json \<Rightarrow> string option" where
  "unmarshal_string (JString s) = Some s"
| "unmarshal_string JNull = Some []"
| "unmarshal_string _ = None"

definition maxParseBody :: nat where "maxParseBody = 1048576"

datatype request_body = NoBody | ReadError | Body string

definition no_inspection :: jsonRPCRequestInspection where
  "no_inspection = \<lparr>ToolName = [], IsBatchRequest = False, HasAmbiguousToolRoutingFields = False\<rparr>"

definition inspect_envelope :: "string \<Rightarrow> jsonRPCRequestInspection" where
  "inspect_envelope body =
     (case inspectCaseSensitiveJSONObject body [''method'', ''params''] of
        None \<Rightarrow> no_inspection
      | Some (envelope, hasAmbiguousEnvelopeFields) \<Rightarrow>
          if hasAmbiguousEnvelopeFields then no_inspection\<lparr>HasAmbiguousToolRoutingFields := True\<rparr>
          else (case lookup envelope ''method'' of
              None \<Rightarrow> no_inspection
            | Some methodJSON \<Rightarrow>
                if unmarshal_string methodJSON \<noteq> Some ''tools/call'' then no_inspection
                else (case lookup envelope ''params'' of
                    None \<Rightarrow> no_inspection
                  | Some paramsJSON \<Rightarrow>
                      (case inspect_value paramsJSON [''name''] of
                         None \<Rightarrow> no_inspection
                       | Some (params, hasAmbiguousParamsFields) \<Rightarrow>
                           if hasAmbiguousParamsFields then no_inspection\<lparr>HasAmbiguousToolRoutingFields := True\<rparr>
                           else (case lookup params ''name'' of
                               None \<Rightarrow> no_inspection
                             | Some nameJSON \<Rightarrow>
                                 (case unmarshal_string nameJSON of
                                    None \<Rightarrow> no_inspection | Some toolName \<Rightarrow> no_inspection\<lparr>ToolName := toolName\<rparr>))))))"

definition inspectJSONRPCRequest :: "request_body \<Rightarrow> jsonRPCRequestInspection" where
  "inspectJSONRPCRequest requestBody =
     (case requestBody of
        Body content \<Rightarrow>
          (let body = take (maxParseBody + 1) content; trimmedBody = TrimSpace body
           in if trimmedBody \<noteq> [] \<and> hd trimmedBody = CHR ''['' then no_inspection\<lparr>IsBatchRequest := True\<rparr>
              else if maxParseBody < length body then no_inspection
              else inspect_envelope body)
      | _ \<Rightarrow> no_inspection)"

definition writeJSONRPCBatchUnsupported :: http_error where
  "writeJSONRPCBatchUnsupported = \<lparr>status = 400,
     message = ''{\"jsonrpc\":\"2.0\",\"error\":{\"code\":-32600,\"message\":\"JSON-RPC batch requests are not supported\"},\"id\":null}'',
     set_headers = [(''Content-Type'', ''application/json'')]\<rparr>"

definition writeJSONRPCAmbiguousToolRoutingFields :: http_error where
  "writeJSONRPCAmbiguousToolRoutingFields = \<lparr>status = 400,
     message = ''{\"jsonrpc\":\"2.0\",\"error\":{\"code\":-32600,\"message\":\"Ambiguous JSON-RPC tool routing fields are not supported\"},\"id\":null}'',
     set_headers = [(''Content-Type'', ''application/json'')]\<rparr>"

section \<open>The outcome of a response\<close>

text \<open>
  \<open>toolCallResultIsError\<close> decodes into a struct with the fields \<open>error\<close> (raw) and \<open>result.isError\<close>: names
  match up to case, later fields win, null leaves a field as it is, and a value of the wrong type makes
  \<open>Unmarshal\<close> fail in the end, whatever else was read.
\<close>

record envelope =
  env_Error :: "json option"
  env_IsError :: bool
  env_TypeError :: bool

fun decode_isError :: "(string \<times> json) list \<Rightarrow> envelope \<Rightarrow> envelope" where
  "decode_isError [] e = e"
| "decode_isError ((k, v) # fs) e =
     decode_isError fs
       (if names ''isError'' k
        then (case v of JBool b \<Rightarrow> e\<lparr>env_IsError := b\<rparr> | JNull \<Rightarrow> e | _ \<Rightarrow> e\<lparr>env_TypeError := True\<rparr>) else e)"

fun decode_envelope :: "(string \<times> json) list \<Rightarrow> envelope \<Rightarrow> envelope" where
  "decode_envelope [] e = e"
| "decode_envelope ((k, v) # fs) e =
     decode_envelope fs
       (if names ''error'' k then e\<lparr>env_Error := Some v\<rparr>
        else if names ''result'' k
        then (case v of JObject rs \<Rightarrow> decode_isError rs e | JNull \<Rightarrow> e | _ \<Rightarrow> e\<lparr>env_TypeError := True\<rparr>)
        else e)"

definition envelope_isError :: "json \<Rightarrow> bool" where
  "envelope_isError v =
     (let e0 = \<lparr>env_Error = None, env_IsError = False, env_TypeError = False\<rparr>;
          e = (case v of JObject fs \<Rightarrow> decode_envelope fs e0 | JNull \<Rightarrow> e0 | _ \<Rightarrow> e0\<lparr>env_TypeError := True\<rparr>)
      in if env_TypeError e then False
         else (case env_Error e of None \<Rightarrow> False | Some x \<Rightarrow> x \<noteq> JNull) \<or> env_IsError e)"

definition toolCallResultIsError :: "string \<Rightarrow> bool" where
  "toolCallResultIsError raw = (case json_unmarshal raw of None \<Rightarrow> False | Some v \<Rightarrow> envelope_isError v)"

definition jsonRPCPayloadHasToolError :: "string \<Rightarrow> bool" where
  "jsonRPCPayloadHasToolError payload0 =
     (let payload = TrimSpace payload0
      in if payload = [] then False
         else if hd payload = CHR ''[''
         then (case json_unmarshal payload of Some (JArray batch) \<Rightarrow> list_ex envelope_isError batch | _ \<Rightarrow> False)
         else toolCallResultIsError payload)"

record responseOutcomeInspector =
  inspectedBytes :: nat
  jsonCapture :: string
  sseLineBuffer :: string
  latchedError :: bool
  finalized :: bool

definition maxOutcomeInspectionBytes :: nat where "maxOutcomeInspectionBytes = 262144"

definition inspectSSELine :: "string \<Rightarrow> responseOutcomeInspector \<Rightarrow> responseOutcomeInspector" where
  "inspectSSELine line0 inspector =
     (if latchedError inspector then inspector
      else let line = TrimSpace line0
        in if \<not> HasPrefix line ''data:'' then inspector
           else let payload = TrimSpace (drop 5 line)
             in if payload \<noteq> [] \<and> jsonRPCPayloadHasToolError payload then inspector\<lparr>latchedError := True\<rparr> else inspector)"

definition inspect_byte :: "char \<Rightarrow> responseOutcomeInspector \<Rightarrow> responseOutcomeInspector" where
  "inspect_byte currentByte inspector =
     (if currentByte = CHR 0x0A
      then (inspectSSELine (sseLineBuffer inspector) inspector)\<lparr>sseLineBuffer := []\<rparr>
      else inspector\<lparr>sseLineBuffer := sseLineBuffer inspector @ [currentByte]\<rparr>)"

definition inspect :: "string \<Rightarrow> responseOutcomeInspector \<Rightarrow> responseOutcomeInspector" where
  "inspect body0 inspector =
     (if finalized inspector \<or> body0 = [] \<or> maxOutcomeInspectionBytes \<le> inspectedBytes inspector then inspector
      else let remainingBytes = maxOutcomeInspectionBytes - inspectedBytes inspector;
          body = (if remainingBytes < length body0 then take remainingBytes body0 else body0)
        in fold inspect_byte body
          (inspector\<lparr>inspectedBytes := inspectedBytes inspector + length body, jsonCapture := jsonCapture inspector @ body\<rparr>))"

definition finalize :: "responseOutcomeInspector \<Rightarrow> responseOutcomeInspector" where
  "finalize inspector =
     (if finalized inspector then inspector
      else let i1 = inspector\<lparr>finalized := True\<rparr>;
          i2 = (if sseLineBuffer i1 \<noteq> [] then inspectSSELine (sseLineBuffer i1) i1 else i1)
        in if \<not> latchedError i2 \<and> jsonRPCPayloadHasToolError (TrimSpace (jsonCapture i2))
           then i2\<lparr>latchedError := True\<rparr> else i2)"

definition toolError :: "responseOutcomeInspector \<Rightarrow> bool" where
  "toolError inspector = latchedError (finalize inspector)"

definition new_inspector :: responseOutcomeInspector where
  "new_inspector = \<lparr>inspectedBytes = 0, jsonCapture = [], sseLineBuffer = [], latchedError = False, finalized = False\<rparr>"

text \<open>The outcome marker: an error overrides a success, the first success stays otherwise.\<close>

datatype tool_outcome = toolOutcomeUnknown | toolOutcomeSuccess | toolOutcomeError

definition MarkToolOutcome :: "bool \<Rightarrow> tool_outcome \<Rightarrow> tool_outcome" where
  "MarkToolOutcome success marker =
     (if success then (if marker = toolOutcomeUnknown then toolOutcomeSuccess else marker) else toolOutcomeError)"

definition Outcome :: "tool_outcome \<Rightarrow> bool \<times> bool" where
  "Outcome marker = (case marker of
     toolOutcomeSuccess \<Rightarrow> (True, True) | toolOutcomeError \<Rightarrow> (False, True) | toolOutcomeUnknown \<Rightarrow> (False, False))"

section \<open>Routing fields\<close>

definition matching :: "string \<Rightarrow> (string \<times> json) list \<Rightarrow> (string \<times> json) list" where
  "matching c fs = filter (\<lambda>p. names c (fst p)) fs"

text \<open>Names that fold differently, and to themselves.\<close>

definition routing_names :: "string list \<Rightarrow> bool" where
  "routing_names ns \<longleftrightarrow> distinct (map (map to_lower) ns) \<and> list_all (\<lambda>c. names c c) ns"

lemma find_name:
  assumes "routing_names ns"
  shows "find (\<lambda>c. names c k) ns = Some c \<longleftrightarrow> c \<in> set ns \<and> names c k"
proof -
  have "find (\<lambda>c. fold_name k = map to_lower c) ns = Some c \<longleftrightarrow> c \<in> set ns \<and> fold_name k = map to_lower c"
    if "distinct (map (map to_lower) ns)"
    using that by (induction ns) (auto dest: find_Some_iff [THEN iffD1])
  then show ?thesis using assms by (simp add: routing_names_def names_def)
qed

lemma find_no_name: "find (\<lambda>c. names c k) ns = None \<longleftrightarrow> (\<forall>c \<in> set ns. \<not> names c k)"
  by (induction ns) auto

lemma inspect_fields_snoc: "inspect_fields ns (fs @ [f]) = inspect_field ns f (inspect_fields ns fs)"
  by (simp add: inspect_fields_def)

lemma inspect_fields_spec:
  assumes ns: "routing_names ns"
  shows "(\<forall>c \<in> set ns. c \<in> set (seenRoutingFields (inspect_fields ns fs)) \<longleftrightarrow> matching c fs \<noteq> []) \<and>
    (hasAmbiguousRoutingFields (inspect_fields ns fs) \<longleftrightarrow>
       (\<exists>c \<in> set ns. 1 < length (matching c fs) \<or> (\<exists>p \<in> set (matching c fs). fst p \<noteq> c))) \<and>
    (\<forall>c \<in> set ns. lookup (exactValues (inspect_fields ns fs)) c = map_of (rev fs) c)"
proof (induction fs rule: rev_induct)
  case Nil
  show ?case by (simp add: inspect_fields_def matching_def)
next
  case (snoc f fs)
  obtain k v where f: "f = (k, v)" by force
  have self: "names c c" if "c \<in> set ns" for c using ns that by (simp add: routing_names_def list_all_iff)
  show ?case
  proof (cases "find (\<lambda>c. names c k) ns")
    case None
    then have no: "\<not> names c k" if "c \<in> set ns" for c using that by (simp add: find_no_name)
    then have "c \<noteq> k" if "c \<in> set ns" for c using self that by blast
    then show ?thesis using snoc None no
      by (auto simp: inspect_fields_snoc inspect_field_def f matching_def)
  next
    case (Some d)
    then have d: "d \<in> set ns" "names d k" using find_name [OF ns, of k d] by simp_all
    have other: "names c k \<longleftrightarrow> c = d" if "c \<in> set ns" for c
      using find_name [OF ns, of k c] that Some d by auto
    have kc: "k \<noteq> c" if "c \<in> set ns" "c \<noteq> d" for c using self [OF that(1)] other [OF that(1)] that(2) by blast
    have match: "matching c (fs @ [f]) = matching c fs @ (if c = d then [f] else [])" if "c \<in> set ns" for c
      using other [OF that] by (simp add: matching_def f)
    show ?thesis
    proof (intro conjI ballI)
      fix c assume c: "c \<in> set ns"
      show "c \<in> set (seenRoutingFields (inspect_fields ns (fs @ [f]))) \<longleftrightarrow> matching c (fs @ [f]) \<noteq> []"
        using snoc c match [OF c] by (auto simp: inspect_fields_snoc inspect_field_def f Some)
      show "lookup (exactValues (inspect_fields ns (fs @ [f]))) c = map_of (rev (fs @ [f])) c"
        using snoc c kc [OF c] by (auto simp: inspect_fields_snoc inspect_field_def f Some amap)
    next
      have "hasAmbiguousRoutingFields (inspect_fields ns (fs @ [f])) \<longleftrightarrow>
          hasAmbiguousRoutingFields (inspect_fields ns fs) \<or> k \<noteq> d \<or> matching d fs \<noteq> []"
        using snoc d(1) by (auto simp: inspect_fields_snoc inspect_field_def f Some)
      moreover have bad: "1 < length (matching c (fs @ [f])) \<or> (\<exists>p \<in> set (matching c (fs @ [f])). fst p \<noteq> c) \<longleftrightarrow>
          (1 < length (matching c fs) \<or> (\<exists>p \<in> set (matching c fs). fst p \<noteq> c)) \<or> c = d \<and> (k \<noteq> d \<or> matching d fs \<noteq> [])"
        if "c \<in> set ns" for c unfolding match [OF that] by (cases "c = d") (auto simp: f)
      ultimately show "hasAmbiguousRoutingFields (inspect_fields ns (fs @ [f])) \<longleftrightarrow>
          (\<exists>c \<in> set ns. 1 < length (matching c (fs @ [f])) \<or> (\<exists>p \<in> set (matching c (fs @ [f])). fst p \<noteq> c))"
        unfolding bex_cong [OF refl bad] using snoc d(1) by auto
    qed
  qed
qed

lemma map_of_filter_key: "(\<And>v. P (k, v)) \<Longrightarrow> map_of (filter P xs) k = map_of xs k"
  by (induction xs) auto

text \<open>Without ambiguity a routing field is there once, spelt exactly, or not at all.\<close>

lemma inspect_fields_exact:
  assumes ns: "routing_names ns" and c: "c \<in> set ns"
  shows "\<not> hasAmbiguousRoutingFields (inspect_fields ns fs) \<Longrightarrow>
    matching c fs = (case lookup (exactValues (inspect_fields ns fs)) c of None \<Rightarrow> [] | Some v \<Rightarrow> [(c, v)])"
proof -
  assume "\<not> hasAmbiguousRoutingFields (inspect_fields ns fs)"
  then have one: "length (matching c fs) \<le> 1" "\<forall>p \<in> set (matching c fs). fst p = c"
    using inspect_fields_spec [OF ns, of fs] c by auto
  have "names c c" using ns c by (simp add: routing_names_def list_all_iff)
  then have "map_of (rev (matching c fs)) c = map_of (rev fs) c"
    by (simp add: matching_def rev_filter map_of_filter_key)
  then have l: "lookup (exactValues (inspect_fields ns fs)) c = map_of (rev (matching c fs)) c"
    using inspect_fields_spec [OF ns, of fs] c by simp
  show ?thesis
  proof (cases "matching c fs")
    case (Cons p ps)
    then have "ps = []" "fst p = c" using one by auto
    then show ?thesis unfolding l using Cons by (cases p) simp
  qed (simp add: l)
qed


lemma not_ambiguous:
  assumes "routing_names ns" "\<And>c. c \<in> set ns \<Longrightarrow> matching c fs = [(c, v c)]"
  shows "\<not> hasAmbiguousRoutingFields (inspect_fields ns fs)"
    and "c \<in> set ns \<Longrightarrow> lookup (exactValues (inspect_fields ns fs)) c = Some (v c)"
proof -
  show amb: "\<not> hasAmbiguousRoutingFields (inspect_fields ns fs)"
    using inspect_fields_spec [OF assms(1), of fs] assms(2) by auto
  show "c \<in> set ns \<Longrightarrow> lookup (exactValues (inspect_fields ns fs)) c = Some (v c)"
    using inspect_fields_exact [OF assms(1) _ amb, of c] assms(2) [of c] by (auto split: option.splits)
qed

lemma unmarshal_nonempty: "t \<noteq> [] \<Longrightarrow> unmarshal_string v = Some t \<longleftrightarrow> v = JString t"
  by (cases v) auto

lemma envelope_tool:
  assumes t: "t \<noteq> []"
  shows "ToolName (inspect_envelope b) = t \<longleftrightarrow>
    (\<exists>fs ps. json_object b = Some fs \<and> matching ''method'' fs = [(''method'', JString ''tools/call'')] \<and>
       matching ''params'' fs = [(''params'', JObject ps)] \<and> matching ''name'' ps = [(''name'', JString t)])" (is "?l \<longleftrightarrow> ?r")
proof
  have ns: "routing_names [''method'', ''params'']" "routing_names [''name'']" by code_simp+
  {
    assume ?l
    then obtain fs mj pj ps nj where p: "json_object b = Some fs"
      "\<not> hasAmbiguousRoutingFields (inspect_fields [''method'', ''params''] fs)"
      "lookup (exactValues (inspect_fields [''method'', ''params''] fs)) ''method'' = Some mj" "unmarshal_string mj = Some ''tools/call''"
      "lookup (exactValues (inspect_fields [''method'', ''params''] fs)) ''params'' = Some (JObject ps)"
      "\<not> hasAmbiguousRoutingFields (inspect_fields [''name''] ps)"
      "lookup (exactValues (inspect_fields [''name''] ps)) ''name'' = Some nj" "unmarshal_string nj = Some t"
      using t by (auto simp: inspect_envelope_def inspectCaseSensitiveJSONObject_def inspect_value_def no_inspection_def Let_def
          split: option.splits if_splits json.splits)
    then have "matching ''method'' fs = [(''method'', JString ''tools/call'')]" "matching ''params'' fs = [(''params'', JObject ps)]"
      "matching ''name'' ps = [(''name'', JString t)]"
      using inspect_fields_exact [OF ns(1) _ p(2)] inspect_fields_exact [OF ns(2) _ p(6)] t
      by (simp_all add: unmarshal_nonempty)
    then show ?r using p(1) by blast
  next
    assume ?r
    then obtain fs ps where p: "json_object b = Some fs" "matching ''method'' fs = [(''method'', JString ''tools/call'')]"
      "matching ''params'' fs = [(''params'', JObject ps)]" "matching ''name'' ps = [(''name'', JString t)]" by blast
    define v where "v c = (if c = ''method'' then JString ''tools/call'' else JObject ps)" for c :: string
    have "matching c fs = [(c, v c)]" if "c \<in> set [''method'', ''params'']" for c using that p(2,3) by (auto simp: v_def)
    note e = not_ambiguous [OF ns(1) this]
    have "matching c ps = [(c, JString t)]" if "c \<in> set [''name'']" for c using that p(4) by simp
    note n = not_ambiguous [OF ns(2) this]
    show ?l using e(1) e(2) [of "''method''"] e(2) [of "''params''"] n(1) n(2) [of "''name''"] p(1)
      by (simp add: inspect_envelope_def inspectCaseSensitiveJSONObject_def inspect_value_def no_inspection_def Let_def v_def)
  }
qed

text \<open>A body that is an object does not start like a batch.\<close>

lemma object_not_batch:
  assumes "json_object b = Some fs" shows "\<not> (TrimSpace b \<noteq> [] \<and> hd (TrimSpace b) = CHR ''['')"
proof -
  obtain r where r: "skip_space b = CHR 0x7B # r"
    using assms by (auto simp: json_object_def expect_def split: option.splits list.splits if_splits)
  have one: "strip_all space_encodings (c # s) = strip_all space_encodings s"
    if "c \<in> {CHR '' '', CHR 0x09, CHR 0x0D, CHR 0x0A}" for c s
  proof -
    have "strip_one space_encodings (c # s) = Some s"
      using that by (auto simp: space_encodings_def ascii_spaces_def)
    then show ?thesis by (subst strip_all.simps) simp
  qed
  have "strip_all space_encodings b = strip_all space_encodings (skip_space b)"
    by (induction b) (auto simp: one)
  also have "\<dots> = CHR 0x7B # r" unfolding r
    by (rule strip_all_other_start) (auto simp: space_encodings_def ascii_spaces_def unicode_spaces_def)
  finally have l: "strip_all space_encodings b = CHR 0x7B # r" .
  obtain a where "rev (CHR 0x7B # r) = a @ strip_all (map rev space_encodings) (rev (CHR 0x7B # r))"
    using strip_all_suffix by blast
  then have "CHR 0x7B # r = TrimSpace b @ rev a" unfolding TrimSpace_def l by (metis rev_append rev_rev_ident)
  then show ?thesis by (cases "TrimSpace b") auto
qed

section \<open>Lines of a stream\<close>

fun split_lines :: "string \<Rightarrow> string list" where
  "split_lines [] = [[]]"
| "split_lines (c # s) =
     (if c = CHR 0x0A then [] # split_lines s else (c # hd (split_lines s)) # tl (split_lines s))"

lemma split_lines_not_Nil [simp]: "split_lines s \<noteq> []"
  by (cases s) auto

lemma split_lines_snoc:
  "split_lines (s @ [c]) =
     (if c = CHR 0x0A then split_lines s @ [[]] else butlast (split_lines s) @ [last (split_lines s) @ [c]])"
proof (induction s)
  case (Cons d s)
  then show ?case by (cases "split_lines s") (auto split: if_splits)
qed simp

definition line_error :: "string \<Rightarrow> bool" where
  "line_error line \<longleftrightarrow> HasPrefix (TrimSpace line) ''data:'' \<and>
     (let payload = TrimSpace (drop 5 (TrimSpace line)) in payload \<noteq> [] \<and> jsonRPCPayloadHasToolError payload)"

lemma inspectSSELine_eq:
  "inspectSSELine line i = i\<lparr>latchedError := latchedError i \<or> line_error line\<rparr>"
  by (auto simp: inspectSSELine_def line_error_def Let_def)

text \<open>The state of the inspector after a prefix of the response.\<close>

definition inspected :: "string \<Rightarrow> responseOutcomeInspector" where
  "inspected seen = \<lparr>inspectedBytes = length seen, jsonCapture = seen, sseLineBuffer = last (split_lines seen),
     latchedError = list_ex line_error (butlast (split_lines seen)), finalized = False\<rparr>"

lemma inspect_bytes:
  "fold inspect_byte body ((inspected seen)\<lparr>inspectedBytes := n, jsonCapture := j\<rparr>) =
     (inspected (seen @ body))\<lparr>inspectedBytes := n, jsonCapture := j\<rparr>"
proof (induction body arbitrary: seen)
  case (Cons c body)
  have "list_ex line_error (split_lines seen) \<longleftrightarrow>
      list_ex line_error (butlast (split_lines seen)) \<or> line_error (last (split_lines seen))"
    by (subst append_butlast_last_id [of "split_lines seen", symmetric]) (simp_all del: append_butlast_last_id)
  then have "inspect_byte c ((inspected seen)\<lparr>inspectedBytes := n, jsonCapture := j\<rparr>) =
      (inspected (seen @ [c]))\<lparr>inspectedBytes := n, jsonCapture := j\<rparr>"
    by (simp add: inspect_byte_def inspected_def inspectSSELine_eq split_lines_snoc)
  then show ?case using Cons [of "seen @ [c]"] by simp
qed simp

lemma inspected_simps [simp]:
  "inspectedBytes (inspected seen) = length seen" "jsonCapture (inspected seen) = seen" "\<not> finalized (inspected seen)"
  by (simp_all add: inspected_def)

lemma inspect_inspected:
  assumes "length seen \<le> maxOutcomeInspectionBytes"
  shows "inspect body (inspected seen) = inspected (seen @ take (maxOutcomeInspectionBytes - length seen) body)"
proof (cases "body = [] \<or> maxOutcomeInspectionBytes \<le> length seen")
  case False
  let ?t = "take (maxOutcomeInspectionBytes - length seen) body"
  have "inspect body (inspected seen) = fold inspect_byte ?t ((inspected seen)\<lparr>inspectedBytes := length seen + length ?t, jsonCapture := seen @ ?t\<rparr>)"
    using False by (cases "maxOutcomeInspectionBytes - length seen < length body") (simp_all add: inspect_def Let_def min_def)
  also have "\<dots> = (inspected (seen @ ?t))\<lparr>inspectedBytes := length seen + length ?t, jsonCapture := seen @ ?t\<rparr>" by (rule inspect_bytes)
  also have "\<dots> = inspected (seen @ ?t)" by (simp add: inspected_def)
  finally show ?thesis .
qed (auto simp: inspect_def)

lemma inspect_chunks:
  "length seen \<le> maxOutcomeInspectionBytes \<Longrightarrow>
     fold inspect chunks (inspected seen) = inspected (take maxOutcomeInspectionBytes (seen @ concat chunks))"
proof (induction chunks arbitrary: seen)
  case (Cons b chunks)
  let ?seen = "seen @ take (maxOutcomeInspectionBytes - length seen) b"
  have "take maxOutcomeInspectionBytes (?seen @ concat chunks) = take maxOutcomeInspectionBytes (seen @ b @ concat chunks)"
    using Cons.prems by (simp add: take_append min_def)
  moreover have "length ?seen \<le> maxOutcomeInspectionBytes" using Cons.prems by simp
  ultimately show ?case using Cons.IH [of ?seen] by (simp add: inspect_inspected [OF Cons.prems])
qed simp

section \<open>Properties\<close>

text \<open>
  (C18) Tool routing is unambiguous. The middleware takes a request for a call of the non-empty tool
  \<open>t\<close> exactly if its body, within the size limit, is one JSON object in which, up to case folding, one field
  is called method and one params, both spelt exactly so, the method being \<open>tools/call\<close>, and the params are
  an object with one field called name in the same sense, the string \<open>t\<close>. So the quota and concurrency
  limits apply to the very tool that a decoder matching exact names dispatches.
\<close>

theorem tool_routing_unambiguous:
  assumes "t \<noteq> []"
  shows "ToolName (inspectJSONRPCRequest (Body b)) = t \<longleftrightarrow> length b \<le> maxParseBody \<and>
    (\<exists>fs ps. json_object b = Some fs \<and> matching ''method'' fs = [(''method'', JString ''tools/call'')] \<and>
       matching ''params'' fs = [(''params'', JObject ps)] \<and> matching ''name'' ps = [(''name'', JString t)])"
proof (cases "length b \<le> maxParseBody")
  case True
  then have b: "take (Suc maxParseBody) b = b" by simp
  show ?thesis
  proof (cases "TrimSpace b \<noteq> [] \<and> hd (TrimSpace b) = CHR ''[''")
    case batch: True
    then have "json_object b = None" using object_not_batch by (cases "json_object b") auto
    then show ?thesis using batch assms by (simp add: inspectJSONRPCRequest_def b no_inspection_def Let_def)
  next
    case False
    then have "inspectJSONRPCRequest (Body b) = inspect_envelope b" using True by (auto simp: inspectJSONRPCRequest_def b Let_def)
    then show ?thesis using envelope_tool [OF assms] True by simp
  qed
next
  case False
  then show ?thesis using assms by (auto simp: inspectJSONRPCRequest_def Let_def no_inspection_def)
qed

definition demo_call_body :: string where
  "demo_call_body = ''{ \"method\": \"tools/call\", \"params\": {\"name\": \"web_search\", \"arguments\": {\"q\": [1, -2.5e3]}}, \"id\": 1}''"

theorem tool_routing_unambiguous_witness:
  "ToolName (inspectJSONRPCRequest (Body demo_call_body)) = ''web_search''"
proof -
  let ?ps = "[(''name'', JString ''web_search''), (''arguments'', JObject [(''q'', JArray [JNumber ''1'', JNumber ''-2.5e3''])])]"
  have "json_object demo_call_body = Some [(''method'', JString ''tools/call''), (''params'', JObject ?ps), (''id'', JNumber ''1'')]"
    by code_simp
  moreover have "matching ''method'' [(''method'', JString ''tools/call''), (''params'', JObject ?ps), (''id'', JNumber ''1'')] = [(''method'', JString ''tools/call'')]"
    "matching ''params'' [(''method'', JString ''tools/call''), (''params'', JObject ?ps), (''id'', JNumber ''1'')] = [(''params'', JObject ?ps)]"
    "matching ''name'' ?ps = [(''name'', JString ''web_search'')]" by code_simp+
  moreover have "length demo_call_body \<le> maxParseBody" by (simp add: demo_call_body_def maxParseBody_def)
  ultimately show ?thesis using tool_routing_unambiguous [of "''web_search''" demo_call_body] by blast
qed

text \<open>
  The inspection of a response does not depend on how the handler cuts it into writes: whatever the
  chunks, the verdict is that of the first 256 KiB of the response as a whole, an error if the data of
  some line of it, or the whole of it, is a JSON-RPC payload that reports one.
\<close>

theorem response_chunks_irrelevant:
  "toolError (fold inspect chunks new_inspector) =
     (let seen = take maxOutcomeInspectionBytes (concat chunks)
      in list_ex line_error (split_lines seen) \<or> jsonRPCPayloadHasToolError (TrimSpace seen))"
proof -
  define seen where "seen = take maxOutcomeInspectionBytes (concat chunks)"
  have "new_inspector = inspected []" by (simp add: new_inspector_def inspected_def)
  then have i: "fold inspect chunks new_inspector = inspected seen" using inspect_chunks [of "[]" chunks] by (simp add: seen_def)
  have "\<not> line_error []" by (simp add: line_error_def go_str)
  moreover have "list_ex line_error (split_lines seen) \<longleftrightarrow>
      list_ex line_error (butlast (split_lines seen)) \<or> line_error (last (split_lines seen))"
    by (subst append_butlast_last_id [of "split_lines seen", symmetric]) (simp_all del: append_butlast_last_id)
  ultimately show ?thesis unfolding i seen_def [symmetric] Let_def
    by (auto simp: toolError_def finalize_def inspected_def inspectSSELine_eq Let_def)
qed

end
