(* ===== verification/Async_Usage.thy ===== *)
theory Async_Usage
  imports Store_Usage "HOL-Library.Multiset" "HOL-Library.Sublist"
begin

text \<open>
  The asynchronous usage writer, \<open>internal/store/async.go\<close>: a bounded queue filled by requests and
  emptied in batches by one worker, and a \<open>Close\<close> that waits for the worker up to a deadline. The
  channel is a list, oldest record first; the worker context is its \<open>aw_cancelled\<close> flag; a record's
  \<open>Cleanup\<close> callback is noted in \<open>aw_cleaned\<close> (a panic in it is recovered and only logged). The worker
  and \<open>Close\<close> are cut at every channel operation; \<open>writer_step\<close> interleaves them with callers of
  \<open>Enqueue\<close>. Log lines are not modelled, the float averages of \<open>Stats\<close> neither.
\<close>

section \<open>State\<close>

definition defaultAsyncUsageWriteTimeout :: duration where "defaultAsyncUsageWriteTimeout = 2 * Second"
definition defaultAsyncUsageCloseTimeout :: duration where "defaultAsyncUsageCloseTimeout = 3 * Second"
definition defaultAsyncUsageBatchSize :: int where "defaultAsyncUsageBatchSize = 32"
definition defaultAsyncUsageBatchWait :: duration where "defaultAsyncUsageBatchWait = 10 * Millisecond"
definition asyncUsageDropLogInterval :: duration where "asyncUsageDropLogInterval = Second"

record queuedUsageRecord =
  q_record :: UsageRecord
  q_enqueuedAt :: "time option"

record AsyncUsageWriter =
  aw_ch :: "queuedUsageRecord list"
  aw_chCap :: int
  aw_chClosed :: bool
  aw_writeTimeout :: duration
  aw_closeTimeout :: duration
  aw_batchSize :: int
  aw_batchWait :: duration
  aw_cancelled :: bool
  aw_accepting :: bool
  aw_queuedAt :: "time option list"
  aw_metricsEnabled :: bool
  aw_acceptedRecords :: "64 word"
  aw_droppedRecords :: "64 word"
  aw_writeFailures :: "64 word"
  aw_writeSuccesses :: "64 word"
  aw_writeBatches :: "64 word"
  aw_failedBatches :: "64 word"
  aw_batchedRecords :: "64 word"
  aw_inFlightRecords :: int
  aw_lastBatchSize :: int
  aw_totalWriteDurationNanos :: "64 word"
  aw_lastWriteDurationNanos :: "64 word"
  aw_maximumWriteDurationNanos :: "64 word"
  aw_totalQueueDelayNanos :: "64 word"
  aw_lastQueueDelayNanos :: "64 word"
  aw_maximumQueueDelayNanos :: "64 word"
  aw_nextDropLogAt :: time
  aw_cleaned :: "UsageRecord list"

definition newAsyncUsageWriterWithBatch ::
  "int \<Rightarrow> duration \<Rightarrow> duration \<Rightarrow> int \<Rightarrow> duration \<Rightarrow> AsyncUsageWriter" where
  "newAsyncUsageWriterWithBatch buffer writeTimeout closeTimeout batchSize batchWait =
     \<lparr>aw_ch = [], aw_chCap = (if buffer \<le> 0 then 256 else buffer), aw_chClosed = False,
      aw_writeTimeout = (if writeTimeout \<le> 0 then defaultAsyncUsageWriteTimeout else writeTimeout),
      aw_closeTimeout = (if closeTimeout \<le> 0 then defaultAsyncUsageCloseTimeout else closeTimeout),
      aw_batchSize = (if batchSize \<le> 0 then defaultAsyncUsageBatchSize else batchSize),
      aw_batchWait = (if batchWait \<le> 0 then defaultAsyncUsageBatchWait else batchWait),
      aw_cancelled = False, aw_accepting = True, aw_queuedAt = [], aw_metricsEnabled = False,
      aw_acceptedRecords = 0, aw_droppedRecords = 0, aw_writeFailures = 0, aw_writeSuccesses = 0,
      aw_writeBatches = 0, aw_failedBatches = 0, aw_batchedRecords = 0, aw_inFlightRecords = 0,
      aw_lastBatchSize = 0, aw_totalWriteDurationNanos = 0, aw_lastWriteDurationNanos = 0,
      aw_maximumWriteDurationNanos = 0, aw_totalQueueDelayNanos = 0, aw_lastQueueDelayNanos = 0,
      aw_maximumQueueDelayNanos = 0, aw_nextDropLogAt = 0, aw_cleaned = []\<rparr>"

definition NewAsyncUsageWriter :: "int \<Rightarrow> AsyncUsageWriter" where
  "NewAsyncUsageWriter buffer = newAsyncUsageWriterWithBatch buffer defaultAsyncUsageWriteTimeout
     defaultAsyncUsageCloseTimeout defaultAsyncUsageBatchSize defaultAsyncUsageBatchWait"

definition SetMetricsEnabled :: "bool \<Rightarrow> AsyncUsageWriter \<Rightarrow> AsyncUsageWriter" where
  "SetMetricsEnabled enabled w = w\<lparr>aw_metricsEnabled := enabled\<rparr>"

section \<open>Dropping a record\<close>

definition cleanupUsageRecord :: "UsageRecord \<Rightarrow> AsyncUsageWriter \<Rightarrow> AsyncUsageWriter" where
  "cleanupUsageRecord r w = w\<lparr>aw_cleaned := aw_cleaned w @ [r]\<rparr>"

definition shouldLogDrop :: "time \<Rightarrow> AsyncUsageWriter \<Rightarrow> bool \<times> AsyncUsageWriter" where
  "shouldLogDrop now w =
     (if now < aw_nextDropLogAt w then (False, w)
      else (True, w\<lparr>aw_nextDropLogAt := now + asyncUsageDropLogInterval\<rparr>))"

definition discardRecord :: "time \<Rightarrow> UsageRecord \<Rightarrow> AsyncUsageWriter \<Rightarrow> AsyncUsageWriter" where
  "discardRecord now r w =
     (let w1 = (if aw_metricsEnabled w then w\<lparr>aw_droppedRecords := aw_droppedRecords w + 1\<rparr> else w)
      in cleanupUsageRecord r (snd (shouldLogDrop now w1)))"

definition discardBatch :: "time \<Rightarrow> queuedUsageRecord list \<Rightarrow> AsyncUsageWriter \<Rightarrow> AsyncUsageWriter" where
  "discardBatch now batch w = fold (\<lambda>q. discardRecord now (q_record q)) batch w"

definition markRecordDequeued :: "AsyncUsageWriter \<Rightarrow> AsyncUsageWriter" where
  "markRecordDequeued w = (if aw_queuedAt w \<noteq> [] then w\<lparr>aw_queuedAt := tl (aw_queuedAt w)\<rparr> else w)"

text \<open>A receive from the channel: a record, or that it is closed and empty, or nothing yet.\<close>

datatype received = Got queuedUsageRecord | Drained | Blocked

definition receive :: "AsyncUsageWriter \<Rightarrow> received \<times> AsyncUsageWriter" where
  "receive w = (case aw_ch w of
       q # rest \<Rightarrow> (Got q, w\<lparr>aw_ch := rest\<rparr>)
     | [] \<Rightarrow> (if aw_chClosed w then Drained else Blocked, w))"

text \<open>One round of the loop of \<open>discardQueuedRecords\<close>: whether it goes on.\<close>

definition discardQueued_round :: "time \<Rightarrow> AsyncUsageWriter \<Rightarrow> bool \<times> AsyncUsageWriter" where
  "discardQueued_round now w =
     (case receive w of
        (Got q, w') \<Rightarrow> (True, discardRecord now (q_record q) (markRecordDequeued w'))
      | (_, w') \<Rightarrow> (False, w'))"

section \<open>Admission\<close>

definition Enqueue :: "time \<Rightarrow> UsageRecord \<Rightarrow> AsyncUsageWriter \<Rightarrow> AsyncUsageWriter" where
  "Enqueue now r w =
     (if \<not> aw_accepting w then discardRecord now r w
      else
        let q = \<lparr>q_record = r, q_enqueuedAt = (if aw_metricsEnabled w then Some now else None)\<rparr>
        in if int (length (aw_ch w)) < aw_chCap w
           then let w' = w\<lparr>aw_ch := aw_ch w @ [q], aw_queuedAt := aw_queuedAt w @ [q_enqueuedAt q]\<rparr>
             in if aw_metricsEnabled w then w'\<lparr>aw_acceptedRecords := aw_acceptedRecords w' + 1\<rparr> else w'
           else discardRecord now r w)"

section \<open>Writing a batch\<close>

definition observeWriteDuration :: "duration \<Rightarrow> AsyncUsageWriter \<Rightarrow> AsyncUsageWriter" where
  "observeWriteDuration d w =
     (let nanos = word_of_int (max d 0)
      in w\<lparr>aw_totalWriteDurationNanos := aw_totalWriteDurationNanos w + nanos,
           aw_lastWriteDurationNanos := nanos,
           aw_maximumWriteDurationNanos := max (aw_maximumWriteDurationNanos w) nanos\<rparr>)"

definition queue_delay :: "time \<Rightarrow> queuedUsageRecord \<Rightarrow> 64 word" where
  "queue_delay observedAt q = (case q_enqueuedAt q of None \<Rightarrow> 0 | Some t \<Rightarrow> word_of_int (max (observedAt - t) 0))"

definition observeQueueDelays :: "time \<Rightarrow> queuedUsageRecord list \<Rightarrow> AsyncUsageWriter \<Rightarrow> AsyncUsageWriter" where
  "observeQueueDelays observedAt batch w =
     (if batch = [] then w
      else let maximumDelay = foldl (\<lambda>m q. max m (queue_delay observedAt q)) 0 batch
        in w\<lparr>aw_totalQueueDelayNanos := aw_totalQueueDelayNanos w + sum_list (map (queue_delay observedAt) batch),
             aw_lastQueueDelayNanos := maximumDelay,
             aw_maximumQueueDelayNanos := max (aw_maximumQueueDelayNanos w) maximumDelay\<rparr>)"

text \<open>
  The store the writer is given: with the atomic batch method, or with the single-record method only.
  What \<open>write_records\<close> returns are the records written and those that failed, which the code counts.
\<close>

datatype 's usage_sink =
    usageBatchRecorder "UsageRecord list \<Rightarrow> 's \<Rightarrow> (store_error + unit) \<times> 's"
  | singleRecorder "UsageRecord \<Rightarrow> 's \<Rightarrow> (store_error + unit) \<times> 's"

fun write_single ::
  "(UsageRecord \<Rightarrow> 's \<Rightarrow> (store_error + unit) \<times> 's) \<Rightarrow> UsageRecord list \<Rightarrow> 's \<Rightarrow> UsageRecord list \<times> UsageRecord list \<times> 's" where
  "write_single record_one [] s = ([], [], s)"
| "write_single record_one (r # rs) s =
     (case record_one r s of (res, s') \<Rightarrow>
        (case write_single record_one rs s' of (good, bad, s'') \<Rightarrow>
           if isl res then (good, r # bad, s'') else (r # good, bad, s'')))"

fun write_records :: "'s usage_sink \<Rightarrow> UsageRecord list \<Rightarrow> 's \<Rightarrow> UsageRecord list \<times> UsageRecord list \<times> 's" where
  "write_records (usageBatchRecorder record_batch) records s =
     (case record_batch records s of
        (Inl _, s') \<Rightarrow> ([], records, s') | (Inr _, s') \<Rightarrow> (records, [], s'))"
| "write_records (singleRecorder record_one) records s = write_single record_one records s"

definition note_batch :: "nat \<Rightarrow> nat \<Rightarrow> AsyncUsageWriter \<Rightarrow> AsyncUsageWriter" where
  "note_batch good bad w =
     w\<lparr>aw_writeBatches := aw_writeBatches w + 1, aw_batchedRecords := aw_batchedRecords w + of_nat (good + bad),
       aw_writeSuccesses := (if 0 < good then aw_writeSuccesses w + of_nat good else aw_writeSuccesses w),
       aw_writeFailures := (if 0 < bad then aw_writeFailures w + of_nat bad else aw_writeFailures w),
       aw_failedBatches := (if 0 < bad then aw_failedBatches w + 1 else aw_failedBatches w)\<rparr>"

definition writeBatch ::
  "'s usage_sink \<Rightarrow> time \<Rightarrow> duration \<Rightarrow> queuedUsageRecord list \<Rightarrow> AsyncUsageWriter \<Rightarrow> 's \<Rightarrow>
     UsageRecord list \<times> UsageRecord list \<times> AsyncUsageWriter \<times> 's" where
  "writeBatch sink now took batch w s =
     (if batch = [] then ([], [], w, s)
      else let records = map q_record batch;
          metrics = aw_metricsEnabled w;
          w1 = (if metrics
            then observeQueueDelays now batch (w\<lparr>aw_inFlightRecords := int (length records), aw_lastBatchSize := int (length records)\<rparr>)
            else w)
        in case write_records sink records s of (good, bad, s') \<Rightarrow>
          let w2 = (if metrics then (note_batch (length good) (length bad) (observeWriteDuration took w1))\<lparr>aw_inFlightRecords := 0\<rparr> else w1)
          in (good, bad, fold cleanupUsageRecord records w2, s'))"

section \<open>Worker and shutdown\<close>

datatype worker = Idle | Collecting "queuedUsageRecord list" | Flushing "queuedUsageRecord list" bool
  | Discarding | Stopped

datatype closer = NotClosing | AwaitingWorker | DiscardingRest | Closed

text \<open>
  \<open>run\<close> and \<open>collectBatch\<close> between two channel operations. Where a \<open>select\<close> finds several cases ready,
  \<open>pick\<close> says whether Go takes the cancelled context; \<open>timer\<close> says that the batch timer has fired and
  is taken. The flag of \<open>Flushing\<close> is \<open>channelClosed\<close>.
\<close>

definition run_idle :: "time \<Rightarrow> bool \<Rightarrow> AsyncUsageWriter \<Rightarrow> worker \<times> AsyncUsageWriter" where
  "run_idle now pick w =
     (if aw_cancelled w \<and> (pick \<or> fst (receive w) = Blocked) then (Discarding, w)
      else case receive w of
          (Drained, w') \<Rightarrow> (Stopped, w')
        | (Blocked, w') \<Rightarrow> (Idle, w')
        | (Got q, w') \<Rightarrow>
            let w1 = markRecordDequeued w'
            in if aw_cancelled w1 then (Discarding, discardRecord now (q_record q) w1) else (Collecting [q], w1))"

definition collectBatch_round ::
  "time \<Rightarrow> bool \<Rightarrow> bool \<Rightarrow> queuedUsageRecord list \<Rightarrow> AsyncUsageWriter \<Rightarrow> worker \<times> AsyncUsageWriter" where
  "collectBatch_round now pick timer batch w =
     (if aw_batchSize w \<le> int (length batch) then (Flushing batch False, w)
      else if aw_cancelled w \<and> (pick \<or> fst (receive w) = Blocked \<and> \<not> timer) then (Discarding, discardBatch now batch w)
      else if timer then (Flushing batch False, w)
      else case receive w of
          (Drained, w') \<Rightarrow> (Flushing batch True, w')
        | (Blocked, w') \<Rightarrow> (Collecting batch, w')
        | (Got q, w') \<Rightarrow> (Collecting (batch @ [q]), markRecordDequeued w'))"

definition run_discard :: "time \<Rightarrow> AsyncUsageWriter \<Rightarrow> worker \<times> AsyncUsageWriter" where
  "run_discard now w =
     (case discardQueued_round now w of (True, w') \<Rightarrow> (Discarding, w') | (False, w') \<Rightarrow> (Stopped, w'))"

definition close_begin :: "AsyncUsageWriter \<Rightarrow> closer \<times> AsyncUsageWriter" where
  "close_begin w = (AwaitingWorker, w\<lparr>aw_accepting := False, aw_chClosed := True\<rparr>)"

definition close_await :: "worker \<Rightarrow> bool \<Rightarrow> AsyncUsageWriter \<Rightarrow> closer \<times> AsyncUsageWriter" where
  "close_await k deadline w =
     (if k = Stopped \<and> \<not> deadline then (Closed, w\<lparr>aw_cancelled := True\<rparr>)
      else if deadline then (DiscardingRest, w\<lparr>aw_cancelled := True\<rparr>)
      else (AwaitingWorker, w))"

definition close_discard :: "time \<Rightarrow> AsyncUsageWriter \<Rightarrow> closer \<times> AsyncUsageWriter" where
  "close_discard now w =
     (case discardQueued_round now w of (True, w') \<Rightarrow> (DiscardingRest, w') | (False, w') \<Rightarrow> (Closed, w'))"

section \<open>The writer under concurrent use\<close>

text \<open>
  The history fields record what was offered to \<open>Enqueue\<close>, what it admitted, what was handed to the
  store and which of it the store wrote. Every write uses one of the given sinks: the store at the
  moment of the write, or a write that timed out or was cancelled.
\<close>

record 's writer_system =
  ws_writer :: AsyncUsageWriter
  ws_store :: 's
  ws_worker :: worker
  ws_closer :: closer
  ws_offered :: "UsageRecord list"
  ws_admitted :: "UsageRecord list"
  ws_handed :: "UsageRecord list"
  ws_written :: "UsageRecord list"
  ws_failed :: "UsageRecord list"

definition admits :: "AsyncUsageWriter \<Rightarrow> bool" where
  "admits w \<longleftrightarrow> aw_accepting w \<and> int (length (aw_ch w)) < aw_chCap w"

inductive writer_step :: "'s usage_sink set \<Rightarrow> 's writer_system \<Rightarrow> 's writer_system \<Rightarrow> bool"
  for sinks :: "'s usage_sink set" where
  enqueue: "writer_step sinks y (y\<lparr>ws_writer := Enqueue now r (ws_writer y), ws_offered := ws_offered y @ [r],
     ws_admitted := (if admits (ws_writer y) then ws_admitted y @ [r] else ws_admitted y)\<rparr>)"
| metrics: "writer_step sinks y (y\<lparr>ws_writer := SetMetricsEnabled b (ws_writer y)\<rparr>)"
| idle: "ws_worker y = Idle \<Longrightarrow> run_idle now pick (ws_writer y) = (k, w) \<Longrightarrow>
     writer_step sinks y (y\<lparr>ws_worker := k, ws_writer := w\<rparr>)"
| collect: "ws_worker y = Collecting batch \<Longrightarrow> collectBatch_round now pick timer batch (ws_writer y) = (k, w) \<Longrightarrow>
     writer_step sinks y (y\<lparr>ws_worker := k, ws_writer := w\<rparr>)"
| flush: "ws_worker y = Flushing batch channelClosed \<Longrightarrow> sink \<in> sinks \<Longrightarrow>
     writeBatch sink now took batch (ws_writer y) (ws_store y) = (good, bad, w, s) \<Longrightarrow>
     writer_step sinks y (y\<lparr>ws_worker := (if channelClosed then Stopped else Idle), ws_writer := w, ws_store := s,
       ws_handed := ws_handed y @ map q_record batch, ws_written := ws_written y @ good, ws_failed := ws_failed y @ bad\<rparr>)"
| discard: "ws_worker y = Discarding \<Longrightarrow> run_discard now (ws_writer y) = (k, w) \<Longrightarrow>
     writer_step sinks y (y\<lparr>ws_worker := k, ws_writer := w\<rparr>)"
| begin_close: "ws_closer y = NotClosing \<Longrightarrow> close_begin (ws_writer y) = (c, w) \<Longrightarrow>
     writer_step sinks y (y\<lparr>ws_closer := c, ws_writer := w\<rparr>)"
| await: "ws_closer y = AwaitingWorker \<Longrightarrow> close_await (ws_worker y) deadline (ws_writer y) = (c, w) \<Longrightarrow>
     writer_step sinks y (y\<lparr>ws_closer := c, ws_writer := w\<rparr>)"
| discard_rest: "ws_closer y = DiscardingRest \<Longrightarrow> close_discard now (ws_writer y) = (c, w) \<Longrightarrow>
     writer_step sinks y (y\<lparr>ws_closer := c, ws_writer := w\<rparr>)"

inductive writer_run :: "'s usage_sink set \<Rightarrow> 's writer_system \<Rightarrow> 's writer_system \<Rightarrow> bool"
  for sinks :: "'s usage_sink set" where
  start: "writer_run sinks y y"
| step: "writer_run sinks y y' \<Longrightarrow> writer_step sinks y' y'' \<Longrightarrow> writer_run sinks y y''"

definition writer_start :: "AsyncUsageWriter \<Rightarrow> 's \<Rightarrow> 's writer_system" where
  "writer_start w s = \<lparr>ws_writer = w, ws_store = s, ws_worker = Idle, ws_closer = NotClosing, ws_offered = [],
     ws_admitted = [], ws_handed = [], ws_written = [], ws_failed = []\<rparr>"

section \<open>What each operation does to the records\<close>

text \<open>\<open>shape\<close>: the parts of the writer that the flow of records depends on.\<close>

definition shape :: "AsyncUsageWriter \<Rightarrow> queuedUsageRecord list \<times> int \<times> bool \<times> int \<times> bool \<times> bool" where
  "shape w = (aw_ch w, aw_chCap w, aw_chClosed w, aw_batchSize w, aw_cancelled w, aw_accepting w)"

lemma shape_eq:
  "shape w' = shape w \<longleftrightarrow> aw_ch w' = aw_ch w \<and> aw_chCap w' = aw_chCap w \<and> aw_chClosed w' = aw_chClosed w \<and>
     aw_batchSize w' = aw_batchSize w \<and> aw_cancelled w' = aw_cancelled w \<and> aw_accepting w' = aw_accepting w"
  by (auto simp: shape_def)

lemma discardRecord_facts:
  "shape (discardRecord now r w) = shape w" "aw_cleaned (discardRecord now r w) = aw_cleaned w @ [r]"
  "aw_queuedAt (discardRecord now r w) = aw_queuedAt w"
  by (simp_all add: shape_eq discardRecord_def cleanupUsageRecord_def shouldLogDrop_def Let_def)

lemma discardBatch_facts:
  "shape (discardBatch now batch w) = shape w" "aw_cleaned (discardBatch now batch w) = aw_cleaned w @ map q_record batch"
  "aw_queuedAt (discardBatch now batch w) = aw_queuedAt w"
proof -
  have "shape (discardBatch now batch w) = shape w \<and> aw_cleaned (discardBatch now batch w) = aw_cleaned w @ map q_record batch \<and>
      aw_queuedAt (discardBatch now batch w) = aw_queuedAt w"
    by (induction batch arbitrary: w) (simp_all add: discardBatch_def discardRecord_facts)
  then show "shape (discardBatch now batch w) = shape w" "aw_cleaned (discardBatch now batch w) = aw_cleaned w @ map q_record batch"
    "aw_queuedAt (discardBatch now batch w) = aw_queuedAt w" by blast+
qed

lemma cleanups_facts:
  "shape (fold cleanupUsageRecord rs w) = shape w" "aw_cleaned (fold cleanupUsageRecord rs w) = aw_cleaned w @ rs"
  "aw_queuedAt (fold cleanupUsageRecord rs w) = aw_queuedAt w"
proof -
  have "shape (fold cleanupUsageRecord rs w) = shape w \<and> aw_cleaned (fold cleanupUsageRecord rs w) = aw_cleaned w @ rs \<and>
      aw_queuedAt (fold cleanupUsageRecord rs w) = aw_queuedAt w"
    by (induction rs arbitrary: w) (simp_all add: cleanupUsageRecord_def shape_eq)
  then show "shape (fold cleanupUsageRecord rs w) = shape w" "aw_cleaned (fold cleanupUsageRecord rs w) = aw_cleaned w @ rs"
    "aw_queuedAt (fold cleanupUsageRecord rs w) = aw_queuedAt w" by blast+
qed

lemma write_single_mset: "write_single f rs s = (good, bad, s') \<Longrightarrow> mset good + mset bad = mset rs"
  by (induction rs arbitrary: s good bad s') (auto split: prod.splits if_splits)

lemma write_batch_cases:
  "write_records (usageBatchRecorder f) rs s = (if isl (fst (f rs s)) then ([], rs, snd (f rs s)) else (rs, [], snd (f rs s)))"
  by (cases "f rs s"; cases "fst (f rs s)") simp_all

lemma write_records_mset:
  assumes "write_records sink rs s = (good, bad, s')" shows "mset good + mset bad = mset rs"
proof (cases sink)
  case (usageBatchRecorder f)
  then show ?thesis using assms by (auto simp only: write_batch_cases split: if_splits) simp_all
next
  case (singleRecorder f)
  then show ?thesis using assms write_single_mset [of f rs s good bad s'] by simp
qed

lemma writeBatch_facts:
  assumes "writeBatch sink now took batch w s = (good, bad, w', s')"
  shows "shape w' = shape w" "aw_cleaned w' = aw_cleaned w @ map q_record batch" "aw_queuedAt w' = aw_queuedAt w"
    "mset good + mset bad = mset (map q_record batch)"
proof -
  let ?w1 = "if aw_metricsEnabled w then observeQueueDelays now batch
      (w\<lparr>aw_inFlightRecords := int (length batch), aw_lastBatchSize := int (length batch)\<rparr>) else w"
  obtain g b t where r: "write_records sink (map q_record batch) s = (g, b, t)" by (metis prod_cases3)
  let ?w2 = "if aw_metricsEnabled w then (note_batch (length g) (length b) (observeWriteDuration took ?w1))\<lparr>aw_inFlightRecords := 0\<rparr> else ?w1"
  have w2: "shape ?w2 = shape w" "aw_cleaned ?w2 = aw_cleaned w" "aw_queuedAt ?w2 = aw_queuedAt w"
    by (simp_all add: shape_eq observeQueueDelays_def note_batch_def observeWriteDuration_def Let_def)
  have "batch = [] \<and> good = [] \<and> bad = [] \<and> w' = w \<or> good = g \<and> bad = b \<and> w' = fold cleanupUsageRecord (map q_record batch) ?w2"
    using assms r by (auto simp: writeBatch_def Let_def split: if_splits)
  then show "shape w' = shape w" "aw_cleaned w' = aw_cleaned w @ map q_record batch" "aw_queuedAt w' = aw_queuedAt w"
    "mset good + mset bad = mset (map q_record batch)"
    using w2 write_records_mset [OF r] by (auto simp: cleanups_facts)
qed


section \<open>The invariant\<close>

fun held :: "worker \<Rightarrow> queuedUsageRecord list" where
  "held (Collecting batch) = batch"
| "held (Flushing batch _) = batch"
| "held _ = []"

text \<open>The records still on their way, oldest first.\<close>

definition pending :: "'s writer_system \<Rightarrow> UsageRecord list" where
  "pending y = map q_record (held (ws_worker y) @ aw_ch (ws_writer y))"

definition finishing :: "worker \<Rightarrow> bool" where
  "finishing k \<longleftrightarrow> k = Stopped \<or> (\<exists>batch. k = Flushing batch True)"

definition flow_ok :: "'s writer_system \<Rightarrow> bool" where
  "flow_ok y \<longleftrightarrow>
     mset (ws_offered y) = mset (aw_cleaned (ws_writer y)) + mset (pending y) \<and>
     mset (ws_written y) + mset (ws_failed y) = mset (ws_handed y) \<and> mset (ws_handed y) \<subseteq># mset (aw_cleaned (ws_writer y)) \<and>
     subseq (ws_handed y @ pending y) (ws_admitted y) \<and>
     (\<not> aw_cancelled (ws_writer y) \<longrightarrow> ws_admitted y = ws_handed y @ pending y)"

definition queue_ok :: "'s writer_system \<Rightarrow> bool" where
  "queue_ok y \<longleftrightarrow> (let w = ws_writer y in
     1 \<le> aw_batchSize w \<and> int (length (aw_ch w)) \<le> aw_chCap w \<and> int (length (held (ws_worker y))) \<le> aw_batchSize w \<and>
     length (aw_queuedAt w) = length (aw_ch w) \<and> (aw_cancelled w \<longrightarrow> aw_chClosed w) \<and> (aw_accepting w \<longleftrightarrow> \<not> aw_chClosed w) \<and>
     (ws_worker y = Discarding \<longrightarrow> aw_cancelled w) \<and>
     (ws_closer y = NotClosing \<longleftrightarrow> \<not> aw_chClosed w) \<and> (ws_closer y = DiscardingRest \<longrightarrow> aw_cancelled w) \<and>
     (finishing (ws_worker y) \<or> ws_closer y = Closed \<longrightarrow> aw_ch w = [] \<and> aw_chClosed w))"

lemma Enqueue_facts:
  "admits w \<Longrightarrow> \<exists>q. q_record q = r \<and> aw_ch (Enqueue now r w) = aw_ch w @ [q] \<and> aw_cleaned (Enqueue now r w) = aw_cleaned w"
  "\<not> admits w \<Longrightarrow> aw_ch (Enqueue now r w) = aw_ch w \<and> aw_cleaned (Enqueue now r w) = aw_cleaned w @ [r]"
  "aw_chCap (Enqueue now r w) = aw_chCap w" "aw_chClosed (Enqueue now r w) = aw_chClosed w"
  "aw_batchSize (Enqueue now r w) = aw_batchSize w" "aw_cancelled (Enqueue now r w) = aw_cancelled w"
  "aw_accepting (Enqueue now r w) = aw_accepting w"
  "length (aw_queuedAt w) = length (aw_ch w) \<Longrightarrow> length (aw_queuedAt (Enqueue now r w)) = length (aw_ch (Enqueue now r w))"
  using discardRecord_facts [of now r w] by (auto simp: Enqueue_def admits_def shape_eq Let_def)

text \<open>How the worker and the closing call move records.\<close>

lemma receive_Got:
  "receive w = (Got q, w') \<Longrightarrow> aw_ch w = q # aw_ch w' \<and> w' = w\<lparr>aw_ch := tl (aw_ch w)\<rparr>"
  by (cases "aw_ch w") (auto simp: receive_def split: if_splits)

lemma receive_other: "receive w = (r, w') \<Longrightarrow> (\<And>q. r \<noteq> Got q) \<Longrightarrow> w' = w \<and> aw_ch w = [] \<and> (r = Drained \<longleftrightarrow> aw_chClosed w)"
  by (auto simp: receive_def split: list.splits if_splits)

lemma markRecordDequeued_facts [simp]:
  "aw_ch (markRecordDequeued w) = aw_ch w" "aw_chCap (markRecordDequeued w) = aw_chCap w"
  "aw_chClosed (markRecordDequeued w) = aw_chClosed w" "aw_batchSize (markRecordDequeued w) = aw_batchSize w"
  "aw_cancelled (markRecordDequeued w) = aw_cancelled w" "aw_accepting (markRecordDequeued w) = aw_accepting w"
  "aw_cleaned (markRecordDequeued w) = aw_cleaned w"
  "length (aw_queuedAt (markRecordDequeued w)) = length (aw_queuedAt w) - 1"
  by (simp_all add: markRecordDequeued_def)

text \<open>A removal of the oldest queued record.\<close>

definition dequeued :: "AsyncUsageWriter \<Rightarrow> AsyncUsageWriter \<Rightarrow> bool" where
  "dequeued w w' \<longleftrightarrow> shape w' = shape (w\<lparr>aw_ch := tl (aw_ch w)\<rparr>) \<and> length (aw_queuedAt w') = length (aw_queuedAt w) - 1 \<and> aw_ch w \<noteq> []"

lemma round_cases:
  assumes "discardQueued_round now w = (go, w')"
  obtains (some) q where "go" "aw_ch w = q # aw_ch w'" "dequeued w w'" "aw_cleaned w' = aw_cleaned w @ [q_record q]"
  | (none) "\<not> go" "w' = w" "aw_ch w = []"
proof -
  obtain r w1 where rec: "receive w = (r, w1)" by force
  show ?thesis
  proof (cases r)
    case (Got q)
    then have w1: "aw_ch w = q # aw_ch w1" "w1 = w\<lparr>aw_ch := tl (aw_ch w)\<rparr>" using receive_Got rec by blast+
    have w': "go" "w' = discardRecord now (q_record q) (markRecordDequeued w1)"
      using assms rec Got by (auto simp: discardQueued_round_def)
    have sh: "shape w1 = shape (w\<lparr>aw_ch := tl (aw_ch w)\<rparr>)" "aw_cleaned w1 = aw_cleaned w" "aw_queuedAt w1 = aw_queuedAt w"
      by (subst w1(2), simp)+
    have w'2: "shape w' = shape w1" "aw_cleaned w' = aw_cleaned w @ [q_record q]" "length (aw_queuedAt w') = length (aw_queuedAt w) - 1"
      using sh(2,3) by (simp_all add: w'(2) discardRecord_facts) (simp add: shape_eq)
    have "aw_ch w' = aw_ch w1" using w'2(1) by (simp add: shape_eq)
    then show ?thesis using w1(1) w'(1) w'2 sh(1) by (intro some [of q]) (simp_all add: dequeued_def)
  qed (use assms rec receive_other [OF rec] in \<open>auto simp: discardQueued_round_def intro: none\<close>)
qed

lemma idle_cases:
  assumes "run_idle now pick w = (k, w')"
  obtains (stay) "w' = w" "k = Idle" | (stop) "w' = w" "k = Stopped" "aw_ch w = []" "aw_chClosed w"
  | (cancel) "w' = w" "k = Discarding" "aw_cancelled w"
  | (take) q where "aw_ch w = q # aw_ch w'" "dequeued w w'" "k = Collecting [q]" "aw_cleaned w' = aw_cleaned w" "\<not> aw_cancelled w"
  | (drop) q where "aw_ch w = q # aw_ch w'" "dequeued w w'" "k = Discarding" "aw_cleaned w' = aw_cleaned w @ [q_record q]" "aw_cancelled w"
proof -
  obtain r w1 where rec: "receive w = (r, w1)" by force
  show ?thesis
  proof (cases "aw_cancelled w \<and> (pick \<or> r = Blocked)")
    case True
    then show ?thesis using assms rec by (intro cancel) (auto simp: run_idle_def)
  next
    case False
    show ?thesis
    proof (cases r)
      case (Got q)
      then have w1: "aw_ch w = q # aw_ch w1" "w1 = w\<lparr>aw_ch := tl (aw_ch w)\<rparr>" using receive_Got rec by blast+
      have sh: "shape w1 = shape (w\<lparr>aw_ch := tl (aw_ch w)\<rparr>)" "aw_cleaned w1 = aw_cleaned w" "aw_queuedAt w1 = aw_queuedAt w"
        by (subst w1(2), simp)+
      have m: "shape (markRecordDequeued w1) = shape w1" by (simp add: shape_eq)
      have c: "aw_cancelled w1 = aw_cancelled w" using sh(1) by (simp add: shape_eq)
      have eq: "(k, w') = (if aw_cancelled w then (Discarding, discardRecord now (q_record q) (markRecordDequeued w1))
          else (Collecting [q], markRecordDequeued w1))"
        using assms rec Got False by (auto simp: run_idle_def Let_def c)
      have d: "dequeued w (markRecordDequeued w1)" using w1(1) m sh by (simp add: dequeued_def)
      have ch: "aw_ch w = q # aw_ch (markRecordDequeued w1)" using w1(1) by simp
      have cl: "aw_cleaned (markRecordDequeued w1) = aw_cleaned w" by (simp add: sh(2))
      show ?thesis
      proof (cases "aw_cancelled w")
        case True
        note dr = discardRecord_facts [of now "q_record q" "markRecordDequeued w1"]
        have "dequeued w (discardRecord now (q_record q) (markRecordDequeued w1))"
          using d dr by (simp add: dequeued_def)
        moreover have "aw_ch (discardRecord now (q_record q) (markRecordDequeued w1)) = aw_ch (markRecordDequeued w1)"
          using dr(1) by (simp add: shape_eq)
        ultimately show ?thesis using eq True ch cl dr(2) by (intro drop [of q]) auto
      next
        case False
        then show ?thesis using eq d ch cl by (intro take [of q]) auto
      qed
    qed (use assms False rec receive_other [OF rec] in \<open>auto simp: run_idle_def intro: stay stop\<close>)
  qed
qed


lemma collect_cases:
  assumes "collectBatch_round now pick timer batch w = (k, w')"
  obtains (stay) "w' = w" "k = Collecting batch"
  | (flush) "w' = w" "k = Flushing batch False"
  | (last) "w' = w" "k = Flushing batch True" "aw_ch w = []" "aw_chClosed w"
  | (take) q where "aw_ch w = q # aw_ch w'" "dequeued w w'" "k = Collecting (batch @ [q])" "aw_cleaned w' = aw_cleaned w"
      "int (length batch) < aw_batchSize w"
  | (drop) "shape w' = shape w" "aw_queuedAt w' = aw_queuedAt w" "k = Discarding"
      "aw_cleaned w' = aw_cleaned w @ map q_record batch" "aw_cancelled w"
proof -
  obtain r w1 where rec: "receive w = (r, w1)" by force
  consider (full) "aw_batchSize w \<le> int (length batch)"
    | (cancelled) "\<not> aw_batchSize w \<le> int (length batch)" "aw_cancelled w" "pick \<or> r = Blocked \<and> \<not> timer"
    | (timer) "\<not> aw_batchSize w \<le> int (length batch)" "\<not> (aw_cancelled w \<and> (pick \<or> r = Blocked \<and> \<not> timer))" timer
    | (receive) "\<not> aw_batchSize w \<le> int (length batch)" "\<not> (aw_cancelled w \<and> (pick \<or> r = Blocked \<and> \<not> timer))" "\<not> timer"
    by blast
  then show ?thesis
  proof cases
    case cancelled
    then show ?thesis using assms rec discardBatch_facts [of now batch w] by (intro drop) (auto simp: collectBatch_round_def)
  next
    case receive
    show ?thesis
    proof (cases r)
      case (Got q)
      then have w1: "aw_ch w = q # aw_ch w1" "w1 = w\<lparr>aw_ch := tl (aw_ch w)\<rparr>" using receive_Got rec by blast+
      have sh: "shape w1 = shape (w\<lparr>aw_ch := tl (aw_ch w)\<rparr>)" "aw_cleaned w1 = aw_cleaned w" "aw_queuedAt w1 = aw_queuedAt w"
        by (subst w1(2), simp)+
      have m: "shape (markRecordDequeued w1) = shape w1" by (simp add: shape_eq)
      have "(k, w') = (Collecting (batch @ [q]), markRecordDequeued w1)"
        using assms rec Got receive by (auto simp: collectBatch_round_def)
      then show ?thesis using w1(1) m sh receive by (intro take [of q]) (auto simp: dequeued_def)
    qed (use assms receive rec receive_other [OF rec] in \<open>auto simp: collectBatch_round_def intro: stay last\<close>)
  qed (use assms rec in \<open>auto simp: collectBatch_round_def intro: flush\<close>)
qed

lemmas dequeued_shape = dequeued_def shape_def

section \<open>Every step keeps it\<close>

lemma queue_step: "writer_step sinks y y' \<Longrightarrow> queue_ok y \<Longrightarrow> queue_ok y'"
proof (induction rule: writer_step.induct)
  case (enqueue y r now)
  note q = enqueue [unfolded queue_ok_def Let_def] and e = Enqueue_facts [where w = "ws_writer y" and now = now and r = r]
  have "int (length (aw_ch (Enqueue now r (ws_writer y)))) \<le> aw_chCap (ws_writer y)"
    "aw_chClosed (ws_writer y) \<longrightarrow> aw_ch (Enqueue now r (ws_writer y)) = aw_ch (ws_writer y)"
    using e(1,2) q by (cases "admits (ws_writer y)"; force simp: admits_def)+
  then show ?case using q e(3-8) by (simp add: queue_ok_def Let_def)
next
  case (idle y now pick k w)
  from idle.hyps(2) show ?case
    by (cases rule: idle_cases) (use idle in \<open>auto simp: queue_ok_def dequeued_shape finishing_def Let_def\<close>)
next
  case (collect y batch now pick timer k w)
  from collect.hyps(2) show ?case
    by (cases rule: collect_cases) (use collect in \<open>auto simp: queue_ok_def dequeued_shape finishing_def Let_def\<close>)
next
  case (flush y batch channelClosed sink now took good bad w s)
  note f = writeBatch_facts [OF flush.hyps(3)]
  show ?case using flush.prems flush.hyps(1) f(1,3)
    by (auto simp: queue_ok_def shape_eq finishing_def Let_def)
next
  case (discard y now k w)
  obtain go w' where r: "discardQueued_round now (ws_writer y) = (go, w')" by force
  from r show ?case
    by (cases rule: round_cases)
      (use discard r in \<open>auto simp: run_discard_def queue_ok_def dequeued_shape finishing_def Let_def split: bool.splits\<close>)
next
  case (discard_rest y now c w)
  obtain go w' where r: "discardQueued_round now (ws_writer y) = (go, w')" by force
  from r show ?case
    by (cases rule: round_cases)
      (use discard_rest r in \<open>auto simp: close_discard_def queue_ok_def dequeued_shape finishing_def Let_def split: bool.splits\<close>)
qed (auto simp: queue_ok_def SetMetricsEnabled_def close_begin_def close_await_def finishing_def Let_def split: if_splits)


text \<open>Taking records out of the pending ones, anywhere, keeps the order of the rest.\<close>

lemma subseq_drop_middle:
  assumes "subseq (xs @ ys @ zs) as" shows "subseq (xs @ zs) as"
proof -
  have "subseq zs (ys @ zs)" by (rule list_emb_append2) simp
  then have "subseq (xs @ zs) (xs @ ys @ zs)" by (intro list_emb_append_mono) simp_all
  then show ?thesis using assms by (rule subseq_order.order_trans)
qed

lemma flow_same:
  assumes "flow_ok y" "pending y' = pending y" "aw_cleaned (ws_writer y') = aw_cleaned (ws_writer y)"
    "aw_cancelled (ws_writer y) \<longrightarrow> aw_cancelled (ws_writer y')"
    "ws_offered y' = ws_offered y" "ws_admitted y' = ws_admitted y" "ws_handed y' = ws_handed y"
    "ws_written y' = ws_written y" "ws_failed y' = ws_failed y"
  shows "flow_ok y'"
  using assms by (auto simp: flow_ok_def)

lemma flow_drop:
  assumes ok: "flow_ok y" and p: "pending y = xs @ ds @ zs" "pending y' = xs @ zs"
    and c: "mset (aw_cleaned (ws_writer y')) = mset (aw_cleaned (ws_writer y)) + mset ds" "aw_cancelled (ws_writer y')"
    and h: "ws_offered y' = ws_offered y" "ws_admitted y' = ws_admitted y" "ws_handed y' = ws_handed y"
      "ws_written y' = ws_written y" "ws_failed y' = ws_failed y"
  shows "flow_ok y'"
proof -
  have "subseq ((ws_handed y @ xs) @ ds @ zs) (ws_admitted y)" using ok by (simp add: flow_ok_def p)
  then have "subseq ((ws_handed y @ xs) @ zs) (ws_admitted y)" by (rule subseq_drop_middle)
  then show ?thesis using ok p c h by (auto simp: flow_ok_def intro: subset_mset.order_trans)
qed

lemma flow_step: "writer_step sinks y y' \<Longrightarrow> queue_ok y \<Longrightarrow> flow_ok y \<Longrightarrow> flow_ok y'"
proof (induction rule: writer_step.induct)
  case (enqueue y r now)
  let ?w = "ws_writer y"
  note e = Enqueue_facts [where w = ?w and now = now and r = r]
  show ?case
  proof (cases "admits ?w")
    case True
    then have "map q_record (aw_ch (Enqueue now r ?w)) = map q_record (aw_ch ?w) @ [r]" "aw_cleaned (Enqueue now r ?w) = aw_cleaned ?w"
      using e(1) by auto
    moreover have "subseq ((ws_handed y @ pending y) @ [r]) (ws_admitted y @ [r])"
      using enqueue.prems(2) by (intro list_emb_append_mono) (simp_all add: flow_ok_def)
    ultimately show ?thesis using enqueue.prems(2) True e(6) by (simp add: flow_ok_def pending_def)
  next
    case False
    then show ?thesis using enqueue.prems(2) e(2,6)
      by (auto simp: flow_ok_def pending_def intro: subset_mset.order_trans)
  qed
next
  case (metrics y b)
  then show ?case by (intro flow_same [OF metrics.prems(2)]) (simp_all add: pending_def SetMetricsEnabled_def)
next
  case (idle y now pick k w)
  from idle.hyps(2) show ?case
  proof (cases rule: idle_cases)
    case (drop q)
    then show ?thesis using idle.hyps(1)
      by (intro flow_drop [OF idle.prems(2), where xs = "[]" and ds = "[q_record q]" and zs = "map q_record (aw_ch w)"])
        (simp_all add: pending_def dequeued_shape)
  next
    case (take q)
    then show ?thesis using idle.hyps(1)
      by (intro flow_same [OF idle.prems(2)]) (simp_all add: pending_def dequeued_shape)
  qed (use idle.hyps(1) in \<open>auto intro: flow_same [OF idle.prems(2)] simp: pending_def\<close>)
next
  case (collect y batch now pick timer k w)
  from collect.hyps(2) show ?case
  proof (cases rule: collect_cases)
    case drop
    then show ?thesis using collect.hyps(1)
      by (intro flow_drop [OF collect.prems(2), where xs = "[]" and ds = "map q_record batch" and zs = "map q_record (aw_ch w)"])
        (simp_all add: pending_def shape_eq)
  next
    case (take q)
    then show ?thesis using collect.hyps(1)
      by (intro flow_same [OF collect.prems(2)]) (simp_all add: pending_def dequeued_shape)
  qed (use collect.hyps(1) in \<open>auto intro: flow_same [OF collect.prems(2)] simp: pending_def\<close>)
next
  case (flush y batch channelClosed sink now took good bad w s)
  note f = writeBatch_facts [OF flush.hyps(3)]
  show ?case using flush.prems(2) flush.hyps(1) f
    by (auto simp: flow_ok_def pending_def shape_eq ac_simps intro: subset_mset.add_mono)
next
  case (discard y now k w)
  obtain go w' where r: "discardQueued_round now (ws_writer y) = (go, w')" by force
  have w: "w' = w" "k = (if go then Discarding else Stopped)" using discard.hyps(2) r by (auto simp: run_discard_def split: bool.splits)
  have cancelled: "aw_cancelled (ws_writer y)" using discard by (simp add: queue_ok_def Let_def)
  from r show ?case
  proof (cases rule: round_cases)
    case (some q)
    then show ?thesis using discard.hyps(1) cancelled
      by (intro flow_drop [OF discard.prems(2), where xs = "[]" and ds = "[q_record q]" and zs = "map q_record (aw_ch w)"])
        (simp_all add: pending_def dequeued_shape w)
  qed (use discard.hyps(1) w in \<open>auto intro: flow_same [OF discard.prems(2)] simp: pending_def\<close>)
next
  case (discard_rest y now c w)
  obtain go w' where r: "discardQueued_round now (ws_writer y) = (go, w')" by force
  have w: "w' = w" using discard_rest.hyps(2) r by (auto simp: close_discard_def split: bool.splits)
  have cancelled: "aw_cancelled (ws_writer y)" using discard_rest by (simp add: queue_ok_def Let_def)
  from r show ?case
  proof (cases rule: round_cases)
    case (some q)
    then show ?thesis using cancelled
      by (intro flow_drop [OF discard_rest.prems(2), where xs = "map q_record (held (ws_worker y))" and
            ds = "[q_record q]" and zs = "map q_record (aw_ch w)"])
        (simp_all add: pending_def dequeued_shape w)
  qed (use w in \<open>auto intro: flow_same [OF discard_rest.prems(2)] simp: pending_def\<close>)
next
  case (begin_close y c w)
  then show ?case by (intro flow_same [OF begin_close.prems(2)]) (auto simp: pending_def close_begin_def)
next
  case (await y deadline c w)
  then show ?case by (intro flow_same [OF await.prems(2)]) (auto simp: pending_def close_await_def split: if_splits)
qed


lemma writer_run_ok:
  assumes "writer_run sinks y y'" "queue_ok y" "flow_ok y"
  shows "queue_ok y'" "flow_ok y'"
  using assms by (induction rule: writer_run.induct) (auto dest: queue_step flow_step)

lemma writer_start_ok:
  assumes "w = newAsyncUsageWriterWithBatch buffer writeTimeout closeTimeout batchSize batchWait"
  shows "queue_ok (writer_start w s)" "flow_ok (writer_start w s)"
  by (simp_all add: assms writer_start_def newAsyncUsageWriterWithBatch_def queue_ok_def flow_ok_def pending_def
      defaultAsyncUsageBatchSize_def finishing_def)

section \<open>The store behind the writer\<close>

text \<open>
  What the writer relies on: a write adds a row for each record it reports as written, in order, and
  nothing else. Then after any run the rows are the initial ones and those of the written records.
\<close>

locale usage_store =
  fixes sinks :: "'s usage_sink set" and store_ok :: "'s \<Rightarrow> bool" and rows :: "'s \<Rightarrow> 'r list" and row :: "UsageRecord \<Rightarrow> 'r"
  assumes sink_rows: "sink \<in> sinks \<Longrightarrow> store_ok s \<Longrightarrow> write_records sink rs s = (good, bad, s') \<Longrightarrow>
      store_ok s' \<and> rows s' = rows s @ map row good"
begin

lemma batch_rows:
  assumes "sink \<in> sinks" "store_ok s" "writeBatch sink now took batch w s = (good, bad, w', s')"
  shows "store_ok s' \<and> rows s' = rows s @ map row good"
proof (cases "batch = []")
  case False
  obtain g b t where r: "write_records sink (map q_record batch) s = (g, b, t)" by (metis prod_cases3)
  then have "good = g" "s' = t" using assms(3) False by (auto simp: writeBatch_def Let_def)
  then show ?thesis using sink_rows [OF assms(1,2) r] by simp
qed (use assms in \<open>auto simp: writeBatch_def\<close>)

lemma step_rows:
  assumes "writer_step sinks y y'" "store_ok (ws_store y)" "rows (ws_store y) = rs0 @ map row (ws_written y)"
  shows "store_ok (ws_store y') \<and> rows (ws_store y') = rs0 @ map row (ws_written y')"
  using assms
proof (induction rule: writer_step.induct)
  case (flush y batch channelClosed sink now took good bad w s)
  then show ?case using batch_rows [OF flush.hyps(2) _ flush.hyps(3)] by simp
qed simp_all

lemma run_rows:
  assumes "writer_run sinks y y'" "store_ok (ws_store y)" "rows (ws_store y) = rs0 @ map row (ws_written y)"
  shows "store_ok (ws_store y') \<and> rows (ws_store y') = rs0 @ map row (ws_written y')"
  using assms by (induction rule: writer_run.induct) (auto dest: step_rows)

end

text \<open>The database at any moment, or a write that fails without effect.\<close>

definition usage_columns :: "usage_row \<Rightarrow> string \<times> string \<times> time \<times> int \<times> bool" where
  "usage_columns u = (ur_KeyID u, ur_ToolName u, ur_Timestamp u, ur_DurationMs u, ur_Success u)"

definition usage_values :: "UsageRecord \<Rightarrow> string \<times> string \<times> time \<times> int \<times> bool" where
  "usage_values r = (rec_KeyID r, rec_ToolName r, db_time (rec_Timestamp r), rec_DurationMs r, rec_Success r)"

definition sqlite_sinks :: "DB usage_sink set" where
  "sqlite_sinks = {usageBatchRecorder (RecordUsageBatch spool debugOk now) | spool debugOk now. True} \<union>
     {usageBatchRecorder (\<lambda>rs db. (Inl e, db)) | e. True}"

lemma usage_rows_columns: "map usage_columns (usage_rows seq rs) = map usage_values rs"
  by (induction rs arbitrary: seq) (simp_all add: usage_columns_def usage_values_def)

lemma record_batch_rows:
  "isl (fst (RecordUsageBatch spool debugOk now rs db)) \<Longrightarrow> snd (RecordUsageBatch spool debugOk now rs db) = db"
  "\<not> isl (fst (RecordUsageBatch spool debugOk now rs db)) \<Longrightarrow>
     map usage_columns (usage_log (snd (RecordUsageBatch spool debugOk now rs db))) = map usage_columns (usage_log db) @ map usage_values rs"
proof -
  have debug: "usage_log (persistUsageDebugRecords spool now ps db) = usage_log db" for ps db
    by (simp add: persistUsageDebugRecords_def Let_def)
  show "isl (fst (RecordUsageBatch spool debugOk now rs db)) \<Longrightarrow> snd (RecordUsageBatch spool debugOk now rs db) = db"
    "\<not> isl (fst (RecordUsageBatch spool debugOk now rs db)) \<Longrightarrow>
     map usage_columns (usage_log (snd (RecordUsageBatch spool debugOk now rs db))) = map usage_columns (usage_log db) @ map usage_values rs"
    by (auto simp: RecordUsageBatch_def persistPrimaryUsageBatch_spec debug usage_rows_columns split: if_splits)
qed

interpretation sqlite: usage_store sqlite_sinks db_ok "\<lambda>db. map usage_columns (usage_log db)" usage_values
proof
  fix sink s rs good bad s' assume sink: "sink \<in> sqlite_sinks" and ok: "db_ok s" and w: "write_records sink rs s = (good, bad, s')"
  consider spool debugOk now where "sink = usageBatchRecorder (RecordUsageBatch spool debugOk now)"
    | e where "sink = usageBatchRecorder (\<lambda>rs db. (Inl e, db))" using sink by (auto simp: sqlite_sinks_def)
  then show "db_ok s' \<and> map usage_columns (usage_log s') = map usage_columns (usage_log s) @ map usage_values good"
  proof cases
    case 1
    then show ?thesis
      using w record_batch_rows [of spool debugOk now rs s] RecordUsageBatch_ok [OF ok, of spool debugOk now rs]
      by (auto simp only: write_batch_cases prod.inject list.map append_Nil2 split: if_splits)
  next
    case 2
    then show ?thesis using w ok by simp
  qed
qed


section \<open>The worker alone\<close>

text \<open>The worker when nothing else moves and its context is not cancelled: an executable run of it.\<close>

definition worker_next :: "'s usage_sink \<Rightarrow> time \<Rightarrow> duration \<Rightarrow> 's writer_system \<Rightarrow> 's writer_system" where
  "worker_next sink now took y =
     (case ws_worker y of
        Idle \<Rightarrow> (case run_idle now False (ws_writer y) of (k, w) \<Rightarrow> y\<lparr>ws_worker := k, ws_writer := w\<rparr>)
      | Collecting batch \<Rightarrow>
          (case collectBatch_round now False False batch (ws_writer y) of (k, w) \<Rightarrow> y\<lparr>ws_worker := k, ws_writer := w\<rparr>)
      | Flushing batch channelClosed \<Rightarrow>
          (case writeBatch sink now took batch (ws_writer y) (ws_store y) of (good, bad, w, s) \<Rightarrow>
             y\<lparr>ws_worker := (if channelClosed then Stopped else Idle), ws_writer := w, ws_store := s,
               ws_handed := ws_handed y @ map q_record batch, ws_written := ws_written y @ good, ws_failed := ws_failed y @ bad\<rparr>)
      | Discarding \<Rightarrow> (case run_discard now (ws_writer y) of (k, w) \<Rightarrow> y\<lparr>ws_worker := k, ws_writer := w\<rparr>)
      | Stopped \<Rightarrow> y)"

lemma worker_next_run:
  assumes "sink \<in> sinks" shows "writer_run sinks y (worker_next sink now took y)"
proof (cases "ws_worker y = Stopped")
  case False
  have "writer_step sinks y (worker_next sink now took y)"
  proof (cases "ws_worker y")
    case Idle
    then show ?thesis by (simp add: worker_next_def writer_step.idle split: prod.split)
  next
    case (Collecting batch)
    then show ?thesis by (simp add: worker_next_def writer_step.collect split: prod.split)
  next
    case (Flushing batch channelClosed)
    obtain good bad w s where "writeBatch sink now took batch (ws_writer y) (ws_store y) = (good, bad, w, s)" by (metis prod_cases4)
    then show ?thesis using writer_step.flush [OF Flushing assms] Flushing by (simp add: worker_next_def)
  next
    case Discarding
    then show ?thesis by (simp add: worker_next_def writer_step.discard split: prod.split)
  qed (use False in simp)
  then show ?thesis by (rule writer_run.step [OF writer_run.start])
qed (simp add: worker_next_def writer_run.start)

definition work_left :: "'s writer_system \<Rightarrow> nat" where
  "work_left y = 3 * length (aw_ch (ws_writer y)) +
     (case ws_worker y of Idle \<Rightarrow> 1 | Collecting _ \<Rightarrow> 3 | Flushing _ _ \<Rightarrow> 2 | _ \<Rightarrow> 0)"

text \<open>While the channel is closed and the worker is not cancelled.\<close>

definition draining :: "'s writer_system \<Rightarrow> bool" where
  "draining y \<longleftrightarrow> aw_chClosed (ws_writer y) \<and> \<not> aw_cancelled (ws_writer y)"

lemma worker_next_progress:
  assumes d: "draining y" and ok: "queue_ok y" and run: "ws_worker y \<noteq> Stopped"
  shows "work_left (worker_next sink now took y) < work_left y \<and> draining (worker_next sink now took y) \<and>
    ws_offered (worker_next sink now took y) = ws_offered y \<and> ws_admitted (worker_next sink now took y) = ws_admitted y"
proof (cases "ws_worker y")
  case Idle
  obtain k w where r: "run_idle now False (ws_writer y) = (k, w)" by force
  have idle: "k \<noteq> Idle"
    using r d by (auto simp: run_idle_def receive_def draining_def Let_def split: list.splits if_splits)
  from r show ?thesis
    by (cases rule: idle_cases)
      (use Idle r d idle in \<open>auto simp: worker_next_def work_left_def draining_def dequeued_shape\<close>)
next
  case (Collecting batch)
  obtain k w where r: "collectBatch_round now False False batch (ws_writer y) = (k, w)" by force
  have stay: "\<not> (k = Collecting batch \<and> w = ws_writer y)"
    using r d by (auto simp: collectBatch_round_def receive_def draining_def split: list.splits if_splits)
  from r show ?thesis
    by (cases rule: collect_cases)
      (use Collecting r d stay in \<open>auto simp: worker_next_def work_left_def draining_def dequeued_shape\<close>)
next
  case (Flushing batch channelClosed)
  obtain good bad w s where r: "writeBatch sink now took batch (ws_writer y) (ws_store y) = (good, bad, w, s)" by (metis prod_cases4)
  have "channelClosed \<longrightarrow> aw_ch (ws_writer y) = []" using ok Flushing by (auto simp: queue_ok_def finishing_def Let_def)
  then show ?thesis using Flushing r writeBatch_facts(1) [OF r] d
    by (auto simp: worker_next_def work_left_def draining_def shape_eq)
next
  case Discarding
  then show ?thesis using ok d by (simp add: queue_ok_def draining_def Let_def)
qed (use run in simp)

lemma writer_run_trans: "writer_run sinks y y' \<Longrightarrow> writer_run sinks y' y'' \<Longrightarrow> writer_run sinks y y''"
  by (rotate_tac, induction rule: writer_run.induct) (auto intro: writer_run.step)

lemma worker_stops:
  assumes "draining y" "queue_ok y" "flow_ok y" "sink \<in> sinks" "work_left y \<le> n"
  shows "let y' = (worker_next sink now took ^^ n) y in ws_worker y' = Stopped \<and> writer_run sinks y y' \<and> draining y' \<and>
    ws_offered y' = ws_offered y \<and> ws_admitted y' = ws_admitted y"
  using assms
proof (induction n arbitrary: y)
  case 0
  then have "ws_worker y = Stopped \<or> ws_worker y = Discarding" by (auto simp: work_left_def split: worker.splits)
  then show ?case using "0.prems"(1,2) by (auto simp: queue_ok_def draining_def Let_def writer_run.start)
next
  case (Suc n)
  show ?case
  proof (cases "ws_worker y = Stopped")
    case True
    then have "worker_next sink now took y = y" by (simp add: worker_next_def)
    then have "(worker_next sink now took ^^ m) y = y" for m by (induction m) simp_all
    then show ?thesis using True Suc.prems(1) by (simp add: Let_def writer_run.start del: funpow.simps)
  next
    case False
    let ?y = "worker_next sink now took y"
    note p = worker_next_progress [OF Suc.prems(1,2) False, of sink now took] and r = worker_next_run [OF Suc.prems(4), of y now took]
    note ok = writer_run_ok [OF r Suc.prems(2,3)]
    have "work_left ?y \<le> n" using p Suc.prems(5) by simp
    then show ?thesis using Suc.IH [of ?y] p ok Suc.prems(4) writer_run_trans [OF r]
      by (simp add: Let_def funpow_swap1)
  qed
qed


section \<open>Properties\<close>

text \<open>
  (C19) No usage record is lost, duplicated or leaked unseen. After any interleaving of requests, worker,
  shutdown and failing writes over the database: every record offered is either still on its way or has
  had its temporary files cleaned up, exactly once; what was handed to the store is in the order of
  admission, at most once each, and the usage log holds exactly the rows it held before followed by
  those of the records reported as written; the queue never exceeds its capacity; and once the worker
  has stopped nothing is left on its way.
\<close>

theorem usage_writer_exact:
  assumes "db_ok db"
    and "writer_run sqlite_sinks (writer_start (newAsyncUsageWriterWithBatch buffer writeTimeout closeTimeout batchSize batchWait) db) y"
  shows "mset (ws_offered y) = mset (aw_cleaned (ws_writer y)) + mset (pending y) \<and>
    mset (ws_written y) + mset (ws_failed y) = mset (ws_handed y) \<and> mset (ws_handed y) \<subseteq># mset (aw_cleaned (ws_writer y)) \<and>
    subseq (ws_handed y @ pending y) (ws_admitted y) \<and>
    map usage_columns (usage_log (ws_store y)) = map usage_columns (usage_log db) @ map usage_values (ws_written y) \<and>
    int (length (aw_ch (ws_writer y))) \<le> aw_chCap (ws_writer y) \<and>
    (ws_worker y = Stopped \<longrightarrow> pending y = [])"
proof -
  let ?w = "newAsyncUsageWriterWithBatch buffer writeTimeout closeTimeout batchSize batchWait"
  note ok = writer_run_ok [OF assms(2) writer_start_ok [OF refl]]
  have "rows0 = rows0 @ map usage_values (ws_written (writer_start ?w db))" for rows0 by (simp add: writer_start_def)
  then have "map usage_columns (usage_log (ws_store y)) = map usage_columns (usage_log db) @ map usage_values (ws_written y)"
    using sqlite.run_rows [OF assms(2), of "map usage_columns (usage_log db)"] assms(1) by (simp add: writer_start_def)
  moreover have "pending y = []" if "ws_worker y = Stopped" using ok(1) that by (simp add: queue_ok_def pending_def finishing_def Let_def)
  ultimately show ?thesis using ok by (simp add: flow_ok_def queue_ok_def Let_def)
qed

text \<open>
  (C20) Shutdown flushes. In every reachable state where \<open>Close\<close> has stopped admission and its deadline has
  not passed, the worker by itself stops after a number of pieces bounded by the queue length, with every
  admitted record handed to the store, in order, and every offered record cleaned up.
\<close>

theorem usage_writer_drains:
  assumes "writer_run sqlite_sinks (writer_start (newAsyncUsageWriterWithBatch buffer writeTimeout closeTimeout batchSize batchWait) db) y"
    and "ws_closer y = AwaitingWorker" "\<not> aw_cancelled (ws_writer y)" "sink \<in> sqlite_sinks"
  shows "let y' = (worker_next sink now took ^^ (3 * length (aw_ch (ws_writer y)) + 3)) y in
    ws_worker y' = Stopped \<and> writer_run sqlite_sinks y y' \<and>
    ws_handed y' = ws_admitted y \<and> mset (ws_offered y) = mset (aw_cleaned (ws_writer y'))"
proof -
  define y' where "y' = (worker_next sink now took ^^ (3 * length (aw_ch (ws_writer y)) + 3)) y"
  note ok = writer_run_ok [OF assms(1) writer_start_ok [OF refl]]
  have "draining y" using ok(1) assms(2,3) by (simp add: queue_ok_def draining_def Let_def)
  moreover have "work_left y \<le> 3 * length (aw_ch (ws_writer y)) + 3" by (auto simp: work_left_def split: worker.split)
  ultimately have y': "ws_worker y' = Stopped" "writer_run sqlite_sinks y y'" "draining y'"
      "ws_offered y' = ws_offered y" "ws_admitted y' = ws_admitted y"
    using worker_stops [of y sink sqlite_sinks "3 * length (aw_ch (ws_writer y)) + 3" now took] ok assms(4)
    by (simp_all add: Let_def y'_def [symmetric])
  note ok' = writer_run_ok [OF y'(2) ok]
  have "pending y' = []" using ok'(1) y'(1) by (simp add: queue_ok_def pending_def finishing_def Let_def)
  then show ?thesis using ok'(2) y' by (simp add: flow_ok_def draining_def y'_def [symmetric])
qed

text \<open>Two records for a queue of one, then shutdown.\<close>

definition demo_writer_end :: "DB writer_system" where
  "demo_writer_end = (let w0 = newAsyncUsageWriterWithBatch 1 0 0 0 0;
     w1 = Enqueue 0 (demo_record 0) w0; w2 = Enqueue 0 (demo_record Hour) w1
   in \<lparr>ws_writer = snd (close_begin w2), ws_store = demo_db, ws_worker = Idle, ws_closer = AwaitingWorker,
       ws_offered = [demo_record 0, demo_record Hour], ws_admitted = [demo_record 0], ws_handed = [], ws_written = [], ws_failed = []\<rparr>)"

lemma demo_writer_run:
  "writer_run sqlite_sinks (writer_start (newAsyncUsageWriterWithBatch 1 0 0 0 0) demo_db) demo_writer_end"
proof -
  let ?y0 = "writer_start (newAsyncUsageWriterWithBatch 1 0 0 0 0) demo_db"
  note r1 = writer_run.step [OF writer_run.start writer_step.enqueue, of sqlite_sinks ?y0 "demo_record 0" 0]
  note r2 = writer_run.step [OF r1 writer_step.enqueue [of _ _ "demo_record Hour" 0]]
  note r3 = writer_run.step [OF r2 writer_step.begin_close [OF _ surjective_pairing]]
  have "admits (newAsyncUsageWriterWithBatch 1 0 0 0 0)" by code_simp
  moreover have "\<not> admits (Enqueue 0 (demo_record 0) (newAsyncUsageWriterWithBatch 1 0 0 0 0))" by code_simp
  ultimately show ?thesis using r3 by (simp add: writer_start_def demo_writer_end_def Let_def close_begin_def)
qed

definition demo_sink :: "DB usage_sink" where
  "demo_sink = usageBatchRecorder (RecordUsageBatch (\<lambda>_. None) True 0)"

lemma demo_sink_in: "demo_sink \<in> sqlite_sinks"
  by (auto simp: demo_sink_def sqlite_sinks_def)

theorem usage_writer_exact_witness:
  "mset (aw_cleaned (ws_writer demo_writer_end)) + mset (pending demo_writer_end) = {#demo_record 0, demo_record Hour#} \<and>
   aw_cleaned (ws_writer demo_writer_end) = [demo_record Hour]"
proof -
  have "aw_cleaned (ws_writer demo_writer_end) = [demo_record Hour]" by code_simp
  moreover have "ws_offered demo_writer_end = [demo_record 0, demo_record Hour]" by (simp add: demo_writer_end_def Let_def)
  ultimately show ?thesis using usage_writer_exact [OF demo_db_ok demo_writer_run] by simp
qed

theorem usage_writer_drains_witness:
  "ws_handed ((worker_next demo_sink 0 1 ^^ 6) demo_writer_end) = [demo_record 0] \<and>
   ws_worker ((worker_next demo_sink 0 1 ^^ 6) demo_writer_end) = Stopped"
proof -
  have "length (aw_ch (ws_writer demo_writer_end)) = 1" by code_simp
  moreover have "ws_closer demo_writer_end = AwaitingWorker" "ws_admitted demo_writer_end = [demo_record 0]"
    by (simp_all add: demo_writer_end_def Let_def)
  moreover have "\<not> aw_cancelled (ws_writer demo_writer_end)" by code_simp
  ultimately show ?thesis
    using usage_writer_drains [OF demo_writer_run _ _ demo_sink_in, of 0 1] by (simp add: Let_def)
qed

end
