(* ===== verification/Tool_Call.thy ===== *)
theory Tool_Call
  imports Tool_Inspection Async_Usage Search_Concurrency User_Limiter Auth
begin

text \<open>
  A tool call through the MCP chain: \<open>ExtractToolNameMiddleware\<close> and \<open>MCPMiddleware\<close> of \<open>internal/usage\<close>,
  \<open>MCPMiddleware\<close> of \<open>internal/quota\<close>, the user limiter's and the search limiter's middleware, in the order in which
  \<open>BuildHTTPHandler\<close> of \<open>internal/app/server.go\<close> wraps them. The MCP handler is an argument: what it writes,
  whether it panics, and what happened to the state while it ran. The debug capture of request and
  response bodies is switched off here.
\<close>

section \<open>The handler and the recorder\<close>

datatype handler_action = WriteHeader int | WriteBody string | MarkOutcome bool

record tool_run =
  tr_actions :: "handler_action list"
  tr_panics :: bool

record mcp_state =
  ms_db :: DB
  ms_writer :: "AsyncUsageWriter option"
  ms_search :: SearchConcurrencyLimiter

type_synonym mcp_handler = "Context \<Rightarrow> mcp_state \<Rightarrow> tool_run \<times> mcp_state"

datatype mcp_result = Rejected http_error | Handled tool_run | Panicking tool_run

record responseRecorder =
  rr_status :: int
  rr_outcomeInspector :: responseOutcomeInspector

definition recorder_WriteHeader :: "int \<Rightarrow> responseRecorder \<Rightarrow> responseRecorder" where
  "recorder_WriteHeader code s = s\<lparr>rr_status := code\<rparr>"

definition recorder_Write :: "string \<Rightarrow> responseRecorder \<Rightarrow> responseRecorder" where
  "recorder_Write p s =
     (let s1 = (if rr_status s = 0 then s\<lparr>rr_status := 200\<rparr> else s)
      in s1\<lparr>rr_outcomeInspector := inspect p (rr_outcomeInspector s1)\<rparr>)"

fun run_action :: "handler_action \<Rightarrow> responseRecorder \<times> tool_outcome \<Rightarrow> responseRecorder \<times> tool_outcome" where
  "run_action (WriteHeader code) (s, m) = (recorder_WriteHeader code s, m)"
| "run_action (WriteBody p) (s, m) = (recorder_Write p s, m)"
| "run_action (MarkOutcome b) (s, m) = (s, MarkToolOutcome b m)"

definition recorded :: "tool_run \<Rightarrow> responseRecorder \<times> tool_outcome" where
  "recorded run = fold run_action (tr_actions run) (\<lparr>rr_status = 200, rr_outcomeInspector = new_inspector\<rparr>, toolOutcomeUnknown)"

definition succeeded :: "tool_run \<Rightarrow> bool" where
  "succeeded run =
     (let (s, marker) = recorded run;
          httpOK = (200 \<le> rr_status s \<and> rr_status s < 300);
          (semanticSuccess, semanticOutcomeKnown) = Outcome marker
      in if semanticOutcomeKnown then httpOK \<and> semanticSuccess else httpOK \<and> \<not> toolError (rr_outcomeInspector s))"

section \<open>The middlewares\<close>

definition ExtractToolNameMiddleware :: "request_body \<Rightarrow> Context \<Rightarrow> Context outcome" where
  "ExtractToolNameMiddleware body ctx =
     (let inspection = inspectJSONRPCRequest body
      in if IsBatchRequest inspection then Respond writeJSONRPCBatchUnsupported
         else if HasAmbiguousToolRoutingFields inspection then Respond writeJSONRPCAmbiguousToolRoutingFields
         else Next (ctx\<lparr>ctx_ToolName := Some (ToolName inspection)\<rparr>))"

definition WithSuccessQuotaReservation :: "Context \<Rightarrow> SuccessQuotaReservation \<Rightarrow> Context" where
  "WithSuccessQuotaReservation ctx reservation =
     (if \<not> IsValid reservation then ctx else ctx\<lparr>ctx_Reservation := Some reservation\<rparr>)"

definition SuccessQuotaReservationFromContext :: "Context \<Rightarrow> SuccessQuotaReservation option" where
  "SuccessQuotaReservationFromContext ctx =
     (case ctx_Reservation ctx of
        Some reservation \<Rightarrow> if IsValid reservation then Some reservation else None | None \<Rightarrow> None)"

definition quota_MCPMiddleware :: "entropy \<Rightarrow> time \<Rightarrow> Context \<Rightarrow> DB \<Rightarrow> Context outcome \<times> DB" where
  "quota_MCPMiddleware rnd now ctx db =
     (if ctx_ToolName ctx = None \<or> ctx_ToolName ctx = Some [] then (Next ctx, db)
      else case ctx_User ctx of
          None \<Rightarrow> (Next ctx, db)
        | Some user \<Rightarrow>
            (case ReserveSuccessCall rnd now (u_ID (au_User user)) (au_SuccessLimit user) db of
               (Inl e, db') \<Rightarrow>
                 (Respond (if e = ErrQuotaSuccess then http_Error StatusTooManyRequests ''success request limit exceeded''
                   else if e = ErrUserNotFound then http_Error StatusForbidden ''user not found''
                   else http_Error StatusInternalServerError ''quota check failed''), db')
             | (Inr reservation, db') \<Rightarrow>
                 if \<not> IsValid reservation \<or> r_UserID reservation \<noteq> u_ID (au_User user)
                 then (Respond (http_Error StatusInternalServerError ''quota check failed''), db')
                 else (Next (WithSuccessQuotaReservation ctx reservation), db')))"

text \<open>\<open>permit\<close>: the lease whose release function the context carries.\<close>

definition releaseSearchPermitBeforeQuotaRollback :: "nat option \<Rightarrow> time \<Rightarrow> mcp_state \<Rightarrow> mcp_state" where
  "releaseSearchPermitBeforeQuotaRollback permit now s =
     (case permit of None \<Rightarrow> s | Some n \<Rightarrow> s\<lparr>ms_search := release n now (ms_search s)\<rparr>)"

definition completeReservedSuccessCall ::
  "nat option \<Rightarrow> time \<Rightarrow> SuccessQuotaReservation \<Rightarrow> bool \<Rightarrow> mcp_state \<Rightarrow> mcp_state" where
  "completeReservedSuccessCall permit now reservation ok s =
     (if \<not> IsValid reservation then s
      else let s1 = (if \<not> ok then releaseSearchPermitBeforeQuotaRollback permit now s else s)
        in s1\<lparr>ms_db := snd (CompleteSuccessCall reservation ok (ms_db s1))\<rparr>)"

definition usage_record :: "APIKey \<Rightarrow> string \<Rightarrow> time \<Rightarrow> int \<Rightarrow> bool \<Rightarrow> UsageRecord" where
  "usage_record key toolName now durationMs success = \<lparr>rec_KeyID = k_ID key, rec_ToolName = toolName, rec_Timestamp = now,
     rec_DurationMs = durationMs, rec_Success = success, rec_DebugJSON = [], rec_RequestObservedBytes = 0,
     rec_ResponseObservedBytes = 0, rec_RequestTruncated = False, rec_ResponseTruncated = False,
     rec_RequestBodyPath = [], rec_ResponseBodyPath = []\<rparr>"

definition pass_on :: "mcp_handler \<Rightarrow> Context \<Rightarrow> mcp_state \<Rightarrow> mcp_result \<times> mcp_state" where
  "pass_on handler ctx s =
     (case handler ctx s of (run, s') \<Rightarrow> (if tr_panics run then Panicking run else Handled run, s'))"

definition tool_name_of :: "request_body \<Rightarrow> Context \<Rightarrow> http_error + string" where
  "tool_name_of body ctx =
     (case ctx_ToolName ctx of
        Some toolName \<Rightarrow> Inr toolName
      | None \<Rightarrow>
          let inspection = inspectJSONRPCRequest body
          in if IsBatchRequest inspection then Inl writeJSONRPCBatchUnsupported
             else if HasAmbiguousToolRoutingFields inspection then Inl writeJSONRPCAmbiguousToolRoutingFields
             else Inr (ToolName inspection))"

definition own_reservation :: "Context \<Rightarrow> SuccessQuotaReservation option" where
  "own_reservation ctx =
     (case (SuccessQuotaReservationFromContext ctx, ctx_User ctx) of
        (Some reservation, Some user) \<Rightarrow> if r_UserID reservation = u_ID (au_User user) then Some reservation else None
      | _ \<Rightarrow> None)"

definition usage_MCPMiddleware ::
  "time \<Rightarrow> int \<Rightarrow> mcp_handler \<Rightarrow> request_body \<Rightarrow> Context \<Rightarrow> nat option \<Rightarrow> mcp_state \<Rightarrow> mcp_result \<times> mcp_state" where
  "usage_MCPMiddleware now durationMs handler body ctx permit s =
     (case ctx_APIKey ctx of
        None \<Rightarrow> pass_on handler ctx s
      | Some key \<Rightarrow>
          (case tool_name_of body ctx of
             Inl e \<Rightarrow> (Rejected e, s)
           | Inr toolName \<Rightarrow>
               if toolName = [] then pass_on handler ctx s
               else let completeQuotaOnce = (\<lambda>ok s. case own_reservation ctx of
                       None \<Rightarrow> s | Some reservation \<Rightarrow> completeReservedSuccessCall permit now reservation ok s)
                 in case handler ctx s of (run, s1) \<Rightarrow>
                     if tr_panics run then (Panicking run, completeQuotaOnce False s1)
                     else let success = succeeded run; s2 = completeQuotaOnce success s1
                       in (Handled run, s2\<lparr>ms_writer := map_option
                            (Enqueue now (usage_record key toolName now durationMs success)) (ms_writer s2)\<rparr>)))"

text \<open>From the search concurrency middleware inwards; the deferred release runs on every way out, a panic included.\<close>

definition search_chain ::
  "entropy \<Rightarrow> time \<Rightarrow> int \<Rightarrow> (string \<Rightarrow> bool) \<Rightarrow> mcp_handler \<Rightarrow> request_body \<Rightarrow> Context \<Rightarrow> mcp_state \<Rightarrow> mcp_result \<times> mcp_state" where
  "search_chain rnd now durationMs isSearchTool handler body ctx s =
     (case sc_Middleware (Some isSearchTool) ctx now (ms_search s) of
        (Respond e, sl) \<Rightarrow> (Rejected e, s\<lparr>ms_search := sl\<rparr>)
      | (Next (ctx2, permit), sl) \<Rightarrow>
          let s1 = s\<lparr>ms_search := sl\<rparr>;
              (res, s2) = (case quota_MCPMiddleware rnd now ctx2 (ms_db s1) of
                  (Respond e, db) \<Rightarrow> (Rejected e, s1\<lparr>ms_db := db\<rparr>)
                | (Next ctx3, db) \<Rightarrow> usage_MCPMiddleware now durationMs handler body ctx3 permit (s1\<lparr>ms_db := db\<rparr>))
          in (res, releaseSearchPermitBeforeQuotaRollback permit now s2))"

text \<open>From the tool name extraction inwards, with the user limiter's state beside the rest.\<close>

definition tool_chain ::
  "('b, 'l) rate_lib \<Rightarrow> entropy \<Rightarrow> time \<Rightarrow> int \<Rightarrow> (string \<Rightarrow> bool) \<Rightarrow> mcp_handler \<Rightarrow> request_body \<Rightarrow> Context \<Rightarrow>
     'b UserLimiter \<Rightarrow> mcp_state \<Rightarrow> panic + (mcp_result \<times> 'b UserLimiter \<times> mcp_state)" where
  "tool_chain lib rnd now durationMs isSearchTool handler body ctx ul s =
     (case ExtractToolNameMiddleware body ctx of
        Respond e \<Rightarrow> Inr (Rejected e, ul, s)
      | Next ctx1 \<Rightarrow>
          (case UserMiddleware lib now ctx1 ul of
             Inl p \<Rightarrow> Inl p
           | Inr (Respond e, ul') \<Rightarrow> Inr (Rejected e, ul', s)
           | Inr (Next ctx2, ul') \<Rightarrow>
               (case search_chain rnd now durationMs isSearchTool handler body ctx2 s of (res, s') \<Rightarrow> Inr (res, ul', s'))))"

section \<open>The quota contract\<close>

text \<open>
  What the two quota calls promise together: a refused reservation changes nothing; a granted one counts
  a call of its user, and completing it, once nothing else has happened, leaves the count raised by one
  for a success and as it was for a failure, and the open reservations as they were.
\<close>

locale success_quota =
  fixes store_ok :: "'s \<Rightarrow> bool"
    and reserve :: "string \<Rightarrow> int \<Rightarrow> 's \<Rightarrow> (store_error + SuccessQuotaReservation) \<times> 's"
    and complete :: "SuccessQuotaReservation \<Rightarrow> bool \<Rightarrow> 's \<Rightarrow> (store_error + unit) \<times> 's"
    and calls :: "string \<Rightarrow> 's \<Rightarrow> int" and open_calls :: "'s \<Rightarrow> 'r"
  assumes refused: "store_ok s \<Longrightarrow> reserve u l s = (Inl e, s') \<Longrightarrow> s' = s"
    and granted: "store_ok s \<Longrightarrow> reserve u l s = (Inr r, s') \<Longrightarrow> IsValid r \<and> r_UserID r = u \<and> (0 < l \<longrightarrow> calls u s < l)"
    and completed: "store_ok s \<Longrightarrow> reserve u l s = (Inr r, s') \<Longrightarrow>
      store_ok (snd (complete r b s')) \<and> open_calls (snd (complete r b s')) = open_calls s \<and>
      calls v (snd (complete r b s')) = calls v s + (if v = u \<and> b then 1 else 0)"
begin

lemma balance:
  assumes "store_ok s" "reserve u l s = (Inr r, s')" "0 < l"
  shows "calls u (snd (complete r b s')) \<le> l"
  using completed [OF assms(1,2), of b u] granted [OF assms(1,2)] assms(3) by auto

end

definition quota_calls :: "time \<Rightarrow> string \<Rightarrow> DB \<Rightarrow> int" where
  "quota_calls now i db = (case user_row i db of None \<Rightarrow> 0 | Some u \<Rightarrow> calls_in (successQuotaPeriod now) u)"

lemma reserved_call:
  assumes ok: "db_ok db" and rnd: "random_ok 16 rnd" and res: "ReserveSuccessCall rnd now i l db = (Inr r, db')"
  obtains u where "user_row i db = Some u" "l \<le> 0 \<or> calls_in (successQuotaPeriod now) u < l" "IsValid r" "r_UserID r = i"
    "r_Period r = successQuotaPeriod now"
    "\<And>j. user_row j db' = (if j = i then Some (reserved_user (successQuotaPeriod now) u) else user_row j db)"
    "reservations db' = reservations db @ [\<lparr>r_ID = r_ID r, r_UserID = i, r_Period = successQuotaPeriod now,
       r_CreatedAt = db_time now\<rparr>]"
    "r_ID r \<notin> r_ID ` set (reservations db)"
  using ok res
proof (cases rule: ReserveSuccessCall_cases)
  case (reserved x u)
  have "u \<in> set (users db)" "u_ID u = i" using reserved(3) user_row_Some [OF ok] by auto
  then have "i \<noteq> []" "TrimSpace i = i" using db_ok_users [OF ok] by (auto simp: users_ok_def)
  then have "IsValid r"
    using reserved(1) randomID_trimmed [OF rnd reserved(2)] valid_successQuotaPeriod [of now]
      valid_period_trim [of "successQuotaPeriod now"] by (simp add: IsValid_def)
  then show ?thesis
    by (rule that [OF reserved(3,4)])
      (use reserved in \<open>simp_all add: user_row_def find_update_key reserved_user_def\<close>)
qed simp


lemma user_row_map_completed:
  "user_row j (db\<lparr>users := map (completed_user r) us, reservations := rs\<rparr>) =
     map_option (completed_user r) (user_row j (db\<lparr>users := us, reservations := rs\<rparr>))"
  unfolding user_row_def by (induction us) (auto simp: completed_user_def)

lemma complete_reserved_call:
  assumes ok: "db_ok db" and rnd: "random_ok 16 rnd" and res: "ReserveSuccessCall rnd now i l db = (Inr r, db')"
  shows "reservations (snd (CompleteSuccessCall r b db')) = reservations db"
    and "quota_calls now v (snd (CompleteSuccessCall r b db')) = quota_calls now v db + (if v = i \<and> b then 1 else 0)"
proof -
  obtain u where u: "user_row i db = Some u" "IsValid r" "r_UserID r = i" "r_Period r = successQuotaPeriod now"
    "\<And>j. user_row j db' = (if j = i then Some (reserved_user (successQuotaPeriod now) u) else user_row j db)"
    "reservations db' = reservations db @ [\<lparr>r_ID = r_ID r, r_UserID = i, r_Period = successQuotaPeriod now,
       r_CreatedAt = db_time now\<rparr>]" "r_ID r \<notin> r_ID ` set (reservations db)"
    using reserved_call [OF ok rnd res] by metis
  have "filter (\<lambda>x. \<not> matches r x) (reservations db) = reservations db"
    using u(7) by (force simp: filter_id_conv matches_def)
  then have rs: "delete_where (matches r) (reservations db') = reservations db"
    using u(3,4) by (simp add: u(6) delete_where_def matches_def)
  then show "reservations (snd (CompleteSuccessCall r b db')) = reservations db"
    by (simp add: CompleteSuccessCall_eq u(2))
  have open_: "\<exists>x \<in> set (reservations db'). matches r x" using u(3,4) by (simp add: u(6) matches_def)
  have row: "user_row j (snd (CompleteSuccessCall r b db')) =
      (if b then user_row j db' else map_option (completed_user r) (user_row j db'))" for j
    using open_ user_row_map_completed [where us = "users db'"] by (simp add: CompleteSuccessCall_eq u(2) user_row_def)
  have u_in: "u \<in> set (users db)" "u_ID u = i" using u(1) user_row_Some [OF ok] by auto
  then have "0 \<le> u_SuccessCalls u" using db_ok_users [OF ok] by (auto simp: users_ok_def)
  then have "calls_in (successQuotaPeriod now) (completed_user r (reserved_user (successQuotaPeriod now) u)) =
      calls_in (successQuotaPeriod now) u"
    using u_in(2) u(3,4) by (auto simp: completed_user_def reserved_user_def calls_in_def)
  moreover have "completed_user r x = x" if "u_ID x \<noteq> i" for x using that u(3) by (simp add: completed_user_def)
  moreover have "u_ID x = v" if "user_row v db = Some x" for x using that user_row_Some [OF ok] by blast
  ultimately show "quota_calls now v (snd (CompleteSuccessCall r b db')) = quota_calls now v db + (if v = i \<and> b then 1 else 0)"
    using u(1) by (cases "user_row v db") (auto simp: quota_calls_def row u(5) reserved_user_def calls_in_def)
qed

interpretation quota: success_quota "\<lambda>db. db_ok db \<and> clock_ok now db \<and> random_ok 16 rnd" "ReserveSuccessCall rnd now"
  CompleteSuccessCall "quota_calls now" reservations
proof
  fix db i l e db'
  assume ok: "db_ok db \<and> clock_ok now db \<and> random_ok 16 rnd" and res: "ReserveSuccessCall rnd now i l db = (Inl e, db')"
  from ok have "db_ok db" by simp
  from this res show "db' = db" by (cases rule: ReserveSuccessCall_cases) simp_all
next
  fix db i l r db'
  assume ok: "db_ok db \<and> clock_ok now db \<and> random_ok 16 rnd" and res: "ReserveSuccessCall rnd now i l db = (Inr r, db')"
  then show "IsValid r \<and> r_UserID r = i \<and> (0 < l \<longrightarrow> quota_calls now i db < l)"
    using reserved_call [of db rnd now i l r db'] by (fastforce simp: quota_calls_def)
next
  fix db i l r db' b v
  assume ok: "db_ok db \<and> clock_ok now db \<and> random_ok 16 rnd" and res: "ReserveSuccessCall rnd now i l db = (Inr r, db')"
  let ?db = "snd (CompleteSuccessCall r b db')"
  have "db_ok ?db" using CompleteSuccessCall_ok ReserveSuccessCall_ok ok res by (metis snd_conv)
  moreover have "clock_ok now ?db"
  proof -
    have "clock_ok now db'"
      by (rule ReserveSuccessCall_cases [OF _ res]) (use ok in \<open>auto simp: clock_ok_def rows reserved_user_def\<close>)
    then show ?thesis by (auto simp: clock_ok_def CompleteSuccessCall_eq completed_user_def)
  qed
  ultimately show "(db_ok ?db \<and> clock_ok now ?db \<and> random_ok 16 rnd) \<and> reservations ?db = reservations db \<and>
      quota_calls now v ?db = quota_calls now v db + (if v = i \<and> b then 1 else 0)"
    using complete_reserved_call [OF _ _ res] ok by blast
qed


section \<open>One call through the chain\<close>

text \<open>The search lease a request holds is returned, whether once or twice, and the running searches are as before.\<close>

definition holds_permit :: "SearchConcurrencyLimiter \<Rightarrow> nat option \<Rightarrow> SearchConcurrencyLimiter \<Rightarrow> bool" where
  "holds_permit old permit s \<longleftrightarrow> (case permit of None \<Rightarrow> running s = running old
     | Some n \<Rightarrow> \<forall>t. running (release n t s) = running old)"

lemma holds_permit_release:
  assumes "holds_permit old permit (ms_search s)"
  shows "holds_permit old permit (ms_search (releaseSearchPermitBeforeQuotaRollback permit now s))"
    and "running (ms_search (releaseSearchPermitBeforeQuotaRollback permit now s)) = running old"
  using assms by (auto simp: holds_permit_def releaseSearchPermitBeforeQuotaRollback_def release_again split: option.splits)

lemma release_permit_simps [simp]:
  "ms_db (releaseSearchPermitBeforeQuotaRollback permit now s) = ms_db s"
  "ms_writer (releaseSearchPermitBeforeQuotaRollback permit now s) = ms_writer s"
  by (simp_all add: releaseSearchPermitBeforeQuotaRollback_def split: option.split)

lemma sc_Middleware_permit:
  assumes inv: "sc_inv s" and r: "sc_Middleware cls ctx now s = (r, s1)"
  shows "(\<exists>e. r = Respond e \<and> running s1 = running s) \<or> (\<exists>permit. r = Next (ctx, permit) \<and> holds_permit s permit s1)"
proof -
  have "running s1 = running s" if "tryAcquire v now s = (Inl m, s1)" for v m
    using tryAcquire_refines [OF inv that] by (auto simp: start_search_def split: if_splits)
  then show ?thesis using r release_granted [OF inv]
    by (auto simp: sc_Middleware_def holds_permit_def split: option.splits if_splits prod.splits sum.splits)
qed

lemma completeReservedSuccessCall_simps:
  assumes "IsValid r"
  shows "ms_db (completeReservedSuccessCall permit now r ok s) = snd (CompleteSuccessCall r ok (ms_db s))"
    and "ms_writer (completeReservedSuccessCall permit now r ok s) = ms_writer s"
    and "holds_permit old permit (ms_search s) \<Longrightarrow>
      holds_permit old permit (ms_search (completeReservedSuccessCall permit now r ok s))"
  using assms holds_permit_release by (auto simp: completeReservedSuccessCall_def Let_def)

lemma usage_MCPMiddleware_metered:
  assumes ctx: "ctx_APIKey ctx = Some key" "ctx_User ctx = Some user" "ctx_ToolName ctx = Some tool" "tool \<noteq> []"
    and r: "ctx_Reservation ctx = Some r" "IsValid r" "r_UserID r = u_ID (au_User user)"
    and seq: "\<And>c t. snd (handler c t) = t" and held: "holds_permit old permit (ms_search s)"
    and res: "usage_MCPMiddleware now d handler body ctx permit s = (res, s')"
  obtains run where "res = (if tr_panics run then Panicking run else Handled run)"
    "ms_db s' = snd (CompleteSuccessCall r (\<not> tr_panics run \<and> succeeded run) (ms_db s))"
    "ms_writer s' = (if tr_panics run then ms_writer s else
       map_option (Enqueue now (usage_record key tool now d (succeeded run))) (ms_writer s))"
    "holds_permit old permit (ms_search s')"
proof -
  obtain run where run: "handler ctx s = (run, s)" using seq by (metis prod.collapse)
  have own: "own_reservation ctx = Some r"
    using ctx r by (simp add: own_reservation_def SuccessQuotaReservationFromContext_def)
  have name: "tool_name_of body ctx = Inr tool" using ctx by (simp add: tool_name_of_def)
  note c = completeReservedSuccessCall_simps [OF r(2)]
  have "(res, s') = (if tr_panics run then (Panicking run, completeReservedSuccessCall permit now r False s)
      else let s2 = completeReservedSuccessCall permit now r (succeeded run) s
        in (Handled run, s2\<lparr>ms_writer := map_option (Enqueue now (usage_record key tool now d (succeeded run))) (ms_writer s2)\<rparr>))"
    using res by (auto simp: usage_MCPMiddleware_def ctx own name run Let_def split: if_splits)
  then show ?thesis by (intro that) (auto simp: Let_def c c(3) [OF held] split: if_splits)
qed

lemma quota_MCPMiddleware_metered:
  assumes ok: "db_ok db" "clock_ok now db" "random_ok 16 rnd"
    and ctx: "ctx_ToolName ctx = Some tool" "tool \<noteq> []" "ctx_User ctx = Some user"
    and r: "quota_MCPMiddleware rnd now ctx db = (out, db')"
  obtains (refused) e where "out = Respond e" "db' = db"
  | (granted) r where "out = Next (ctx\<lparr>ctx_Reservation := Some r\<rparr>)"
      "ReserveSuccessCall rnd now (u_ID (au_User user)) (au_SuccessLimit user) db = (Inr r, db')"
      "IsValid r" "r_UserID r = u_ID (au_User user)"
proof -
  obtain x db1 where x: "ReserveSuccessCall rnd now (u_ID (au_User user)) (au_SuccessLimit user) db = (x, db1)"
    by fastforce
  show ?thesis
  proof (cases x)
    case (Inl e)
    then have "db1 = db" using quota.refused [of db now rnd] ok x by blast
    then show ?thesis using that(1) r x Inl by (auto simp: quota_MCPMiddleware_def ctx)
  next
    case (Inr res)
    then have "IsValid res" "r_UserID res = u_ID (au_User user)" using quota.granted [of db now rnd] ok x by blast+
    then show ?thesis using that(2) r x Inr by (auto simp: quota_MCPMiddleware_def ctx WithSuccessQuotaReservation_def)
  qed
qed


lemma search_chain_unmetered:
  assumes "ctx_ToolName ctx = Some []" "ctx_APIKey ctx = Some key" and seq: "\<And>c t. snd (handler c t) = t"
    and chain: "search_chain rnd now d isSearch handler body ctx s = (res, s')"
  shows "s' = s"
proof -
  have "snd (pass_on handler c t) = t" for c t
    using seq [of c t] by (auto simp: pass_on_def split: prod.split)
  moreover have "(res, s') = pass_on handler ctx s"
    using assms by (simp add: search_chain_def sc_Middleware_def quota_MCPMiddleware_def usage_MCPMiddleware_def
        tool_name_of_def releaseSearchPermitBeforeQuotaRollback_def Let_def split: prod.splits)
  ultimately show ?thesis by (metis snd_conv)
qed

lemma UserMiddleware_outcome:
  obtains (pass) ul' where "UserMiddleware lib now ctx ul = Inr (Next ctx, ul')"
  | (limited) e ul' where "UserMiddleware lib now ctx ul = Inr (Respond e, ul')" "ctx_ToolName ctx \<noteq> Some []"
proof (cases "\<exists>user tool. ctx_User ctx = Some user \<and> ctx_ToolName ctx = Some tool \<and> tool \<noteq> [] \<and> 0 < au_RPM user")
  case True
  then obtain user where "0 < au_RPM user" "ctx_User ctx = Some user" "\<exists>tool. ctx_ToolName ctx = Some tool \<and> tool \<noteq> []" by blast
  moreover from this(1) obtain ok ul' where "user_allowAt lib (u_ID (au_User user)) (au_RPM user) now ul = Inr (ok, ul')"
    using user_allowAt_ok [of "au_RPM user" lib "u_ID (au_User user)" now ul] by auto
  ultimately show ?thesis using that by (cases ok) (auto simp: UserMiddleware_def)
next
  case False
  then have "UserMiddleware lib now ctx ul = Inr (Next ctx, ul) \<or>
      (\<exists>e. UserMiddleware lib now ctx ul = Inr (Respond e, ul) \<and> ctx_ToolName ctx \<noteq> Some [])"
    by (auto simp: UserMiddleware_def split: option.split)
  then show ?thesis using that by blast
qed

lemma search_chain_metered:
  assumes store: "db_ok (ms_db s)" "clock_ok now (ms_db s)" "random_ok 16 rnd"
    and limiter: "sc_inv (ms_search s)" and ctx: "ctx_APIKey ctx = Some key" "ctx_User ctx = Some user"
    and alone: "\<And>c t. snd (handler c t) = t"
    and tool: "ctx_ToolName ctx = Some tool" "tool \<noteq> []"
    and chain: "search_chain rnd now d isSearch handler body ctx s = (res, s')"
  obtains (refused) e where "res = Rejected e" "ms_db s' = ms_db s" "ms_writer s' = ms_writer s"
      "running (ms_search s') = running (ms_search s)"
  | (ran) r db' run where "ReserveSuccessCall rnd now (u_ID (au_User user)) (au_SuccessLimit user) (ms_db s) = (Inr r, db')"
      "res = (if tr_panics run then Panicking run else Handled run)"
      "ms_db s' = snd (CompleteSuccessCall r (\<not> tr_panics run \<and> succeeded run) db')"
      "ms_writer s' = (if tr_panics run then ms_writer s else
         map_option (Enqueue now (usage_record key tool now d (succeeded run))) (ms_writer s))"
      "running (ms_search s') = running (ms_search s)"
proof -
  obtain out sl where sc: "sc_Middleware (Some isSearch) ctx now (ms_search s) = (out, sl)" by fastforce
  consider (busy) e where "out = Respond e" "running sl = running (ms_search s)"
    | (free) permit where "out = Next (ctx, permit)" "holds_permit (ms_search s) permit sl"
    using sc_Middleware_permit [OF limiter sc] by blast
  then show ?thesis
  proof cases
    case busy
    then show ?thesis using that(1) chain by (auto simp: search_chain_def sc)
  next
    case free
    obtain out' db' where q: "quota_MCPMiddleware rnd now ctx (ms_db s) = (out', db')" by fastforce
    consider (no) e where "out' = Respond e" "db' = ms_db s"
      | (yes) r where "out' = Next (ctx\<lparr>ctx_Reservation := Some r\<rparr>)"
        "ReserveSuccessCall rnd now (u_ID (au_User user)) (au_SuccessLimit user) (ms_db s) = (Inr r, db')"
        "IsValid r" "r_UserID r = u_ID (au_User user)"
      using quota_MCPMiddleware_metered [OF store _ _ _ q, of tool user] tool ctx by auto
    then show ?thesis
    proof cases
      case no
      then show ?thesis using that(1) chain free holds_permit_release(2) [of "ms_search s" permit "s\<lparr>ms_search := sl\<rparr>"]
        by (auto simp: search_chain_def sc q Let_def)
    next
      case yes
      obtain s2 where u: "usage_MCPMiddleware now d handler body (ctx\<lparr>ctx_Reservation := Some r\<rparr>) permit
          (s\<lparr>ms_search := sl, ms_db := db'\<rparr>) = (res, s2)" and s': "s' = releaseSearchPermitBeforeQuotaRollback permit now s2"
        using chain free yes by (auto simp: search_chain_def sc q Let_def split: prod.splits)
      show ?thesis
        by (rule usage_MCPMiddleware_metered [OF _ _ _ _ _ yes(3,4) alone _ u, where key = key and tool = tool and old = "ms_search s"])
          (use ctx tool free that(2) [OF yes(2)] holds_permit_release(2) in \<open>auto simp: s'\<close>)
    qed
  qed
qed

section \<open>Property\<close>

text \<open>The calls a user is charged for: a metered call that the handler finished, and finished well.\<close>

definition charged :: "string \<Rightarrow> mcp_result \<Rightarrow> bool" where
  "charged tool res \<longleftrightarrow> (case res of Handled run \<Rightarrow> tool \<noteq> [] \<and> succeeded run | _ \<Rightarrow> False)"


text \<open>A search call of \<open>ann\<close>, whose handler answers, and one whose handler panics.\<close>

definition demo_call_handler :: "bool \<Rightarrow> mcp_handler" where
  "demo_call_handler panics c s =
     (\<lparr>tr_actions = [WriteHeader 200, MarkOutcome True], tr_panics = panics\<rparr>, s)"

definition demo_call_state :: mcp_state where
  "demo_call_state = \<lparr>ms_db = demo_db, ms_writer = None, ms_search = sc_demo\<rparr>"

definition demo_call_ctx :: Context where
  "demo_call_ctx = WithUser (WithAPIKey emptyContext (hd (apikeys demo_db)))
     \<lparr>au_User = demo_user_row ''ann'' RoleUser 2, au_RPM = 0, au_SuccessLimit = 3\<rparr>"

lemma demo_call_inspection:
  "inspectJSONRPCRequest (Body demo_call_body) =
     \<lparr>ToolName = ''web_search'', IsBatchRequest = False, HasAmbiguousToolRoutingFields = False\<rparr>"
proof -
  have "length demo_call_body \<le> maxParseBody" by (simp add: demo_call_body_def maxParseBody_def)
  moreover have "hd (TrimSpace demo_call_body) \<noteq> CHR ''[''" by code_simp
  moreover have "inspect_envelope demo_call_body =
      \<lparr>ToolName = ''web_search'', IsBatchRequest = False, HasAmbiguousToolRoutingFields = False\<rparr>" by code_simp
  ultimately show ?thesis by (simp add: inspectJSONRPCRequest_def Let_def)
qed

lemma demo_call_runs: "\<exists>s'. tool_chain integer_buckets demo_entropy demo_time 5 (\<lambda>_. True) (demo_call_handler p)
    (Body demo_call_body) demo_call_ctx user_demo demo_call_state =
  Inr (if p then Panicking (fst (demo_call_handler True demo_call_ctx demo_call_state))
   else Handled (fst (demo_call_handler False demo_call_ctx demo_call_state)), user_demo, s')"
proof -
  have a: "sc_Middleware (Some (\<lambda>_. True)) (demo_call_ctx\<lparr>ctx_ToolName := Some ''web_search''\<rparr>) demo_time sc_demo =
      (Next (demo_call_ctx\<lparr>ctx_ToolName := Some ''web_search''\<rparr>, Some 1), snd (tryAcquire ''ann'' demo_time sc_demo))"
    by code_simp
  have b: "fst (quota_MCPMiddleware demo_entropy demo_time (demo_call_ctx\<lparr>ctx_ToolName := Some ''web_search''\<rparr>) demo_db) =
      Next (demo_call_ctx\<lparr>ctx_ToolName := Some ''web_search'', ctx_Reservation :=
        Some \<lparr>r_ID = demo_id, r_UserID = ''ann'', r_Period = ''2023-11''\<rparr>\<rparr>)" by code_simp
  obtain db where q: "quota_MCPMiddleware demo_entropy demo_time (demo_call_ctx\<lparr>ctx_ToolName := Some ''web_search''\<rparr>) demo_db = 
      (Next (demo_call_ctx\<lparr>ctx_ToolName := Some ''web_search'', ctx_Reservation :=
        Some \<lparr>r_ID = demo_id, r_UserID = ''ann'', r_Period = ''2023-11''\<rparr>\<rparr>), db)" using b by (metis prod.collapse)
  have "ms_search demo_call_state = sc_demo" "ms_db demo_call_state = demo_db" "ctx_APIKey demo_call_ctx = Some (hd (apikeys demo_db))"
    by (simp_all add: demo_call_state_def demo_call_ctx_def WithUser_def WithAPIKey_def)
  moreover have "ctx_User demo_call_ctx = Some \<lparr>au_User = demo_user_row ''ann'' RoleUser 2, au_RPM = 0, au_SuccessLimit = 3\<rparr>"
    by (simp add: demo_call_ctx_def WithUser_def WithAPIKey_def)
  ultimately show ?thesis
    by (simp add: tool_chain_def search_chain_def ExtractToolNameMiddleware_def demo_call_inspection a q Let_def
      usage_MCPMiddleware_def tool_name_of_def demo_call_handler_def UserMiddleware_def)
qed


end
