(* ===== verification/Login_Guard.thy ===== *)
theory Login_Guard
  imports Rate_Lib "HOL-Library.Multiset"
begin

text \<open>
  The failed-login registries and the password work limit of \<open>internal/panel/auth_protector.go\<close>. A login
  attempt holds pointers to the two failure entries it was admitted on (that of the user name and client
  address, and that of the user name alone), while cleanup and completion may remove entries from the
  maps: the entries live in an explicit heap, the maps hold addresses, and the attempts handed out hold
  the addresses they were admitted on. Every operation runs under the protector's mutex and is one step.
\<close>

section \<open>State\<close>

record loginFailureEntry =
  lf_failureCount :: int
  lf_lastFailure :: "time option"
  lf_lockedUntil :: "time option"
  lf_inFlightAttempts :: int

datatype loginAttemptOutcome = loginAttemptAbandoned | loginAttemptFailed | loginAttemptSucceeded

record loginFailureReservation =
  lr_key :: string
  lr_entry :: nat
  lr_username :: bool
  lr_fallback :: bool

text \<open>An attempt with the state of its \<open>sync.Once\<close>.\<close>

record loginAttempt =
  la_sourceReservation :: loginFailureReservation
  la_usernameReservation :: loginFailureReservation
  la_completed :: bool

text \<open>The fields that the protector keeps once for each of its two registries.\<close>

record failureRegistry =
  fr_entries :: "(string, nat) gomap"
  fr_maximumEntries :: int
  fr_nextExpiryCheck :: "time option"
  fr_currentEntries :: int
  fr_admissions :: "64 word"
  fr_expiredEntriesRemoved :: "64 word"
  fr_capacityRejections :: "64 word"

record loginGuard =
  lg_heap :: "loginFailureEntry list"
  lg_failures :: failureRegistry
  lg_usernameFailures :: failureRegistry
  lg_usernameFailureFallbacks :: "nat option list"
  lg_loginFailureThreshold :: int
  lg_loginFailureWindow :: duration
  lg_loginBaseLockout :: duration
  lg_loginMaxLockout :: duration
  lg_loginFailureCleanupScans :: "64 word"
  lg_usernameFailureFallbackAttempts :: "64 word"
  lg_usernameFailureFallbackRejections :: "64 word"
  lg_attempts :: "loginAttempt list"

definition new_registry :: "int \<Rightarrow> failureRegistry" where
  "new_registry maximumEntries = \<lparr>fr_entries = [], fr_maximumEntries = maximumEntries, fr_nextExpiryCheck = None,
     fr_currentEntries = 0, fr_admissions = 0, fr_expiredEntriesRemoved = 0, fr_capacityRejections = 0\<rparr>"

definition registry :: "bool \<Rightarrow> loginGuard \<Rightarrow> failureRegistry" where
  "registry username g = (if username then lg_usernameFailures g else lg_failures g)"

definition set_registry :: "bool \<Rightarrow> failureRegistry \<Rightarrow> loginGuard \<Rightarrow> loginGuard" where
  "set_registry username r g = (if username then g\<lparr>lg_usernameFailures := r\<rparr> else g\<lparr>lg_failures := r\<rparr>)"

section \<open>Times\<close>

text \<open>\<open>t.After(now)\<close>, where the zero time is never after.\<close>

fun after :: "time option \<Rightarrow> time \<Rightarrow> bool" where
  "after None now = False"
| "after (Some t) now \<longleftrightarrow> now < t"

definition loginFailureEntryExpiry :: "loginFailureEntry \<Rightarrow> duration \<Rightarrow> time option" where
  "loginFailureEntryExpiry entry failureWindow =
     (let entryExpiry = map_option (\<lambda>t. t + failureWindow) (lf_lastFailure entry)
      in case (lf_lockedUntil entry, entryExpiry) of
           (Some l, Some t) \<Rightarrow> if t < l then Some l else Some t
         | (Some l, None) \<Rightarrow> Some l
         | (None, _) \<Rightarrow> entryExpiry)"

definition lockoutDurationForFailures :: "int \<Rightarrow> loginGuard \<Rightarrow> panic + duration" where
  "lockoutDurationForFailures failureCount g =
     (let e0 = failureCount - lg_loginFailureThreshold g;
          e1 = (if e0 < 0 then 0 else e0);
          excessFailures = (if 8 < e1 then 8 else e1);
          lockoutMultiplier = 2 ^ nat excessFailures
      in case go_div (lg_loginMaxLockout g) lockoutMultiplier of
           Inl p \<Rightarrow> Inl p
         | Inr q \<Rightarrow> if q < lg_loginBaseLockout g then Inr (lg_loginMaxLockout g)
             else Inr (lg_loginBaseLockout g * lockoutMultiplier))"

section \<open>Cleanup\<close>

definition removable :: "duration \<Rightarrow> time \<Rightarrow> loginFailureEntry \<Rightarrow> bool" where
  "removable window now entry \<longleftrightarrow>
     (let failureWindowExpired = (case lf_lastFailure entry of None \<Rightarrow> True | Some t \<Rightarrow> \<not> now < t + window)
      in lf_inFlightAttempts entry = 0 \<and> failureWindowExpired \<and> \<not> after (lf_lockedUntil entry) now)"

definition note_expiry :: "duration \<Rightarrow> loginFailureEntry \<Rightarrow> time option \<Rightarrow> time option" where
  "note_expiry window entry next_check =
     (case loginFailureEntryExpiry entry window of
        None \<Rightarrow> next_check
      | Some t \<Rightarrow> (case next_check of None \<Rightarrow> Some t | Some n \<Rightarrow> if t < n then Some t else Some n))"

definition cleanup_registry ::
  "duration \<Rightarrow> time \<Rightarrow> loginFailureEntry list \<Rightarrow> failureRegistry \<Rightarrow> failureRegistry" where
  "cleanup_registry window now heap r =
     (let kept = filter (\<lambda>p. \<not> removable window now (heap ! snd p)) (fr_entries r);
          removedEntryCount = length (fr_entries r) - length kept
      in r\<lparr>fr_entries := kept,
           fr_nextExpiryCheck := fold (\<lambda>p n. if lf_inFlightAttempts (heap ! snd p) = 0
             then note_expiry window (heap ! snd p) n else n) kept None,
           fr_currentEntries := fr_currentEntries r - int removedEntryCount,
           fr_expiredEntriesRemoved := fr_expiredEntriesRemoved r + of_nat removedEntryCount\<rparr>)"

definition cleanupLoginFailuresLocked :: "time \<Rightarrow> loginGuard \<Rightarrow> loginGuard" where
  "cleanupLoginFailuresLocked now g =
     g\<lparr>lg_loginFailureCleanupScans := lg_loginFailureCleanupScans g + 1,
       lg_failures := cleanup_registry (lg_loginFailureWindow g) now (lg_heap g) (lg_failures g)\<rparr>"

definition cleanupUsernameFailuresLocked :: "time \<Rightarrow> loginGuard \<Rightarrow> loginGuard" where
  "cleanupUsernameFailuresLocked now g =
     g\<lparr>lg_usernameFailures := cleanup_registry (lg_loginFailureWindow g) now (lg_heap g) (lg_usernameFailures g)\<rparr>"

section \<open>Reserving\<close>

text \<open>The result 0 means that the attempt was counted on the entry.\<close>

definition reserveExistingFailureEntryLocked :: "nat \<Rightarrow> time \<Rightarrow> loginGuard \<Rightarrow> duration \<times> loginGuard" where
  "reserveExistingFailureEntryLocked a now g =
     (let entry = lg_heap g ! a
      in if after (lf_lockedUntil entry) now then (the (lf_lockedUntil entry) - now, g)
         else if 0 < lf_inFlightAttempts entry \<and>
           lg_loginFailureThreshold g \<le> lf_failureCount entry + lf_inFlightAttempts entry then (Minute, g)
         else (0, g\<lparr>lg_heap := (lg_heap g)[a := entry\<lparr>lf_inFlightAttempts := lf_inFlightAttempts entry + 1\<rparr>]\<rparr>))"

definition expiry_due :: "time \<Rightarrow> failureRegistry \<Rightarrow> bool" where
  "expiry_due now r \<longleftrightarrow> (case fr_nextExpiryCheck r of None \<Rightarrow> False | Some t \<Rightarrow> \<not> now < t)"

text \<open>The two lines that put a new entry into a registry.\<close>

definition admit_entry :: "bool \<Rightarrow> string \<Rightarrow> loginGuard \<Rightarrow> loginGuard" where
  "admit_entry username key g =
     (let r = registry username g
      in set_registry username
           (r\<lparr>fr_entries := AList.update key (length (lg_heap g)) (fr_entries r),
              fr_currentEntries := fr_currentEntries r + 1, fr_admissions := fr_admissions r + 1\<rparr>)
           (g\<lparr>lg_heap := lg_heap g @ [\<lparr>lf_failureCount = 0, lf_lastFailure = None, lf_lockedUntil = None,
             lf_inFlightAttempts = 1\<rparr>]\<rparr>))"

definition reserveSourceFailureLocked ::
  "string \<Rightarrow> time \<Rightarrow> loginGuard \<Rightarrow> (duration + loginFailureReservation) \<times> loginGuard" where
  "reserveSourceFailureLocked failureKey now g =
     (case lookup (fr_entries (lg_failures g)) failureKey of
        Some a \<Rightarrow>
          (case reserveExistingFailureEntryLocked a now g of
             (retryAfter, g') \<Rightarrow> if 0 < retryAfter then (Inl retryAfter, g')
               else (Inr \<lparr>lr_key = failureKey, lr_entry = a, lr_username = False, lr_fallback = False\<rparr>, g'))
      | None \<Rightarrow>
          let full = (\<lambda>g. fr_maximumEntries (lg_failures g) \<le> int (length (fr_entries (lg_failures g))));
              g1 = (if full g \<and> expiry_due now (lg_failures g) then cleanupLoginFailuresLocked now g else g)
          in if full g1
             then (Inl Minute, g1\<lparr>lg_failures := (lg_failures g1)
               \<lparr>fr_capacityRejections := fr_capacityRejections (lg_failures g1) + 1\<rparr>\<rparr>)
             else (Inr \<lparr>lr_key = failureKey, lr_entry = length (lg_heap g1), lr_username = False, lr_fallback = False\<rparr>,
               admit_entry False failureKey g1))"

text \<open>\<open>hash\<close>: the seeded \<open>maphash.String\<close>.\<close>

definition auth_fallbackBucketIndexFor :: "(string \<Rightarrow> 64 word) \<Rightarrow> string \<Rightarrow> nat \<Rightarrow> nat" where
  "auth_fallbackBucketIndexFor hash clientIP fallbackBucketCount = unat (hash clientIP mod of_nat fallbackBucketCount)"

definition username_fallback ::
  "(string \<Rightarrow> 64 word) \<Rightarrow> string \<Rightarrow> time \<Rightarrow> loginGuard \<Rightarrow> (duration + loginFailureReservation) \<times> loginGuard" where
  "username_fallback hash username now g =
     (let r = lg_usernameFailures g;
          g1 = g\<lparr>lg_usernameFailures := r\<lparr>fr_capacityRejections := fr_capacityRejections r + 1\<rparr>\<rparr>;
          fallbackIndex = auth_fallbackBucketIndexFor hash username (length (lg_usernameFailureFallbacks g1));
          (a, g2) = (case lg_usernameFailureFallbacks g1 ! fallbackIndex of
              Some a \<Rightarrow> (a, g1)
            | None \<Rightarrow> (length (lg_heap g1),
                g1\<lparr>lg_heap := lg_heap g1 @ [\<lparr>lf_failureCount = 0, lf_lastFailure = None, lf_lockedUntil = None,
                     lf_inFlightAttempts = 0\<rparr>],
                   lg_usernameFailureFallbacks := (lg_usernameFailureFallbacks g1)[fallbackIndex := Some (length (lg_heap g1))]\<rparr>));
          g3 = g2\<lparr>lg_usernameFailureFallbackAttempts := lg_usernameFailureFallbackAttempts g2 + 1\<rparr>
      in case reserveExistingFailureEntryLocked a now g3 of
           (retryAfter, g4) \<Rightarrow> if 0 < retryAfter
             then (Inl retryAfter, g4\<lparr>lg_usernameFailureFallbackRejections := lg_usernameFailureFallbackRejections g4 + 1\<rparr>)
             else (Inr \<lparr>lr_key = [], lr_entry = a, lr_username = True, lr_fallback = True\<rparr>, g4))"

definition reserveUsernameFailureLocked ::
  "(string \<Rightarrow> 64 word) \<Rightarrow> string \<Rightarrow> time \<Rightarrow> loginGuard \<Rightarrow> (duration + loginFailureReservation) \<times> loginGuard" where
  "reserveUsernameFailureLocked hash username now g =
     (case lookup (fr_entries (lg_usernameFailures g)) username of
        Some a \<Rightarrow>
          (case reserveExistingFailureEntryLocked a now g of
             (retryAfter, g') \<Rightarrow> if 0 < retryAfter then (Inl retryAfter, g')
               else (Inr \<lparr>lr_key = username, lr_entry = a, lr_username = True, lr_fallback = False\<rparr>, g'))
      | None \<Rightarrow>
          let full = (\<lambda>g. fr_maximumEntries (lg_usernameFailures g) \<le> int (length (fr_entries (lg_usernameFailures g))));
              g1 = (if full g \<and> expiry_due now (lg_usernameFailures g) then cleanupUsernameFailuresLocked now g else g)
          in if \<not> full g1
             then (Inr \<lparr>lr_key = username, lr_entry = length (lg_heap g1), lr_username = True, lr_fallback = False\<rparr>,
               admit_entry True username g1)
             else username_fallback hash username now g1)"

section \<open>Completing\<close>

definition failed_entry :: "time \<Rightarrow> loginGuard \<Rightarrow> loginFailureEntry \<Rightarrow> panic + loginFailureEntry" where
  "failed_entry now g entry =
     (let failureWindowExpired = (case lf_lastFailure entry of
            None \<Rightarrow> False | Some t \<Rightarrow> \<not> now < t + lg_loginFailureWindow g);
          e1 = (if failureWindowExpired
            then entry\<lparr>lf_failureCount := 0, lf_lastFailure := None, lf_lockedUntil := None\<rparr> else entry);
          e2 = e1\<lparr>lf_failureCount := lf_failureCount e1 + 1, lf_lastFailure := Some now\<rparr>
      in if lg_loginFailureThreshold g \<le> lf_failureCount e2
         then (case lockoutDurationForFailures (lf_failureCount e2) g of
             Inl p \<Rightarrow> Inl p | Inr d \<Rightarrow> Inr (e2\<lparr>lf_lockedUntil := Some (now + d)\<rparr>))
         else Inr e2)"

definition completed_entry :: "loginAttemptOutcome \<Rightarrow> time \<Rightarrow> loginGuard \<Rightarrow> loginFailureEntry \<Rightarrow> panic + loginFailureEntry" where
  "completed_entry outcome now g entry =
     (case outcome of
        loginAttemptFailed \<Rightarrow> failed_entry now g entry
      | loginAttemptSucceeded \<Rightarrow> Inr (entry\<lparr>lf_failureCount := 0, lf_lastFailure := None, lf_lockedUntil := None\<rparr>)
      | loginAttemptAbandoned \<Rightarrow> Inr entry)"

definition recordFailureExpiryLocked :: "bool \<Rightarrow> loginFailureEntry \<Rightarrow> loginGuard \<Rightarrow> loginGuard" where
  "recordFailureExpiryLocked username entry g =
     (let r = registry username g
      in set_registry username (r\<lparr>fr_nextExpiryCheck :=
           note_expiry (lg_loginFailureWindow g) entry (fr_nextExpiryCheck r)\<rparr>) g)"

definition remove_entry :: "bool \<Rightarrow> string \<Rightarrow> loginGuard \<Rightarrow> loginGuard" where
  "remove_entry username key g =
     (let r = registry username g
      in set_registry username (r\<lparr>fr_entries := AList.delete key (fr_entries r),
           fr_currentEntries := fr_currentEntries r - 1\<rparr>) g)"

definition completeFailureReservationLocked ::
  "loginFailureReservation \<Rightarrow> loginAttemptOutcome \<Rightarrow> time \<Rightarrow> loginGuard \<Rightarrow> panic + loginGuard" where
  "completeFailureReservationLocked reservation outcome now g =
     (let a = lr_entry reservation; entry = lg_heap g ! a
      in if lf_inFlightAttempts entry \<le> 0 then Inr g
         else if \<not> lr_fallback reservation \<and>
           lookup (fr_entries (registry (lr_username reservation) g)) (lr_key reservation) \<noteq> Some a then Inr g
         else (case completed_entry outcome now g (entry\<lparr>lf_inFlightAttempts := lf_inFlightAttempts entry - 1\<rparr>) of
             Inl p \<Rightarrow> Inl p
           | Inr e \<Rightarrow>
               let g1 = g\<lparr>lg_heap := (lg_heap g)[a := e]\<rparr>
               in if lr_fallback reservation then Inr g1
                  else if lf_inFlightAttempts e = 0 \<and> lf_failureCount e = 0 \<and> \<not> after (lf_lockedUntil e) now
                  then Inr (remove_entry (lr_username reservation) (lr_key reservation) g1)
                  else if lf_inFlightAttempts e = 0 then Inr (recordFailureExpiryLocked (lr_username reservation) e g1)
                  else Inr g1))"

text \<open>The part of \<open>beginLoginAttempt\<close> after the periodic cleanup; the result is the number of the attempt.\<close>

definition begin_attempt ::
  "(string \<Rightarrow> 64 word) \<Rightarrow> string \<Rightarrow> string \<Rightarrow> time \<Rightarrow> loginGuard \<Rightarrow> panic + ((duration + nat) \<times> loginGuard)" where
  "begin_attempt hash failureKey normalizedUsername now g =
     (case reserveSourceFailureLocked failureKey now g of
        (Inl retryAfter, g1) \<Rightarrow> Inr (Inl retryAfter, g1)
      | (Inr sourceReservation, g1) \<Rightarrow>
          (case reserveUsernameFailureLocked hash normalizedUsername now g1 of
             (Inl retryAfter, g2) \<Rightarrow>
               map_sum id (Pair (Inl retryAfter)) (completeFailureReservationLocked sourceReservation loginAttemptAbandoned now g2)
           | (Inr usernameReservation, g2) \<Rightarrow>
               Inr (Inr (length (lg_attempts g2)), g2\<lparr>lg_attempts := lg_attempts g2 @
                 [\<lparr>la_sourceReservation = sourceReservation, la_usernameReservation = usernameReservation,
                   la_completed = False\<rparr>]\<rparr>)))"

definition complete_attempt :: "nat \<Rightarrow> loginAttemptOutcome \<Rightarrow> time \<Rightarrow> loginGuard \<Rightarrow> panic + loginGuard" where
  "complete_attempt n outcome now g =
     (let attempt = lg_attempts g ! n
      in if la_completed attempt then Inr g
         else (case completeFailureReservationLocked (la_sourceReservation attempt) outcome now
               (g\<lparr>lg_attempts := (lg_attempts g)[n := attempt\<lparr>la_completed := True\<rparr>]\<rparr>) of
             Inl p \<Rightarrow> Inl p
           | Inr g1 \<Rightarrow> completeFailureReservationLocked (la_usernameReservation attempt) outcome now g1))"

section \<open>The lockout\<close>

text \<open>What \<open>lockoutDurationForFailures\<close> computes: the base doubled for every failure past the threshold, eight times at most, and capped.\<close>

definition lockout :: "loginGuard \<Rightarrow> int \<Rightarrow> duration" where
  "lockout g n = min (lg_loginMaxLockout g)
     (lg_loginBaseLockout g * 2 ^ nat (min 8 (max 0 (n - lg_loginFailureThreshold g))))"

definition config_ok :: "loginGuard \<Rightarrow> bool" where
  "config_ok g \<longleftrightarrow> 0 < lg_loginFailureThreshold g \<and> 0 < lg_loginFailureWindow g \<and>
     0 < lg_loginBaseLockout g \<and> lg_loginBaseLockout g \<le> lg_loginMaxLockout g \<and>
     0 < length (lg_usernameFailureFallbacks g) \<and> length (lg_usernameFailureFallbacks g) < 2 ^ 64"

lemma div_less_iff_mult:
  assumes "0 < (m::int)"
  shows "a div m < b \<longleftrightarrow> a < b * m"
proof -
  define q where "q = a div m"
  have a: "a = q * m + a mod m" "0 \<le> a mod m" "a mod m < m" using assms by (simp_all add: q_def)
  have "a < b * m" if "q < b"
  proof -
    have "(q + 1) * m \<le> b * m" using that assms by (intro mult_right_mono) auto
    then show ?thesis using a by (simp add: distrib_right)
  qed
  moreover have "q < b" if "a < b * m"
  proof -
    have "q * m < b * m" using that a by linarith
    then show ?thesis using assms by (simp add: mult_less_cancel_right)
  qed
  ultimately show ?thesis unfolding q_def by blast
qed

lemma lockoutDuration_eq:
  assumes "config_ok g"
  shows "lockoutDurationForFailures n g = Inr (lockout g n)"
proof -
  let ?x = "nat (min 8 (max 0 (n - lg_loginFailureThreshold g)))"
  let ?m = "2 ^ ?x :: int"
  have x: "(if 8 < (if n - lg_loginFailureThreshold g < 0 then 0 else n - lg_loginFailureThreshold g) then 8
     else if n - lg_loginFailureThreshold g < 0 then 0 else n - lg_loginFailureThreshold g) =
     min 8 (max 0 (n - lg_loginFailureThreshold g))" by auto
  have "0 < ?m" by simp
  moreover have "go_div (lg_loginMaxLockout g) ?m = Inr (lg_loginMaxLockout g div ?m)"
    using assms by (intro go_div_pos) (auto simp: config_ok_def)
  ultimately show ?thesis
    unfolding lockoutDurationForFailures_def Let_def x lockout_def
    by (auto simp: div_less_iff_mult)
qed

lemma lockout_bounds:
  assumes "config_ok g"
  shows "lg_loginBaseLockout g \<le> lockout g n" "lockout g n \<le> lg_loginMaxLockout g" "0 < lockout g n"
proof -
  have "lg_loginBaseLockout g * 1 \<le> lg_loginBaseLockout g * 2 ^ nat (min 8 (max 0 (n - lg_loginFailureThreshold g)))"
    using assms by (intro mult_left_mono) (auto simp: config_ok_def)
  then show "lg_loginBaseLockout g \<le> lockout g n" "lockout g n \<le> lg_loginMaxLockout g"
    using assms by (auto simp: lockout_def config_ok_def)
  then show "0 < lockout g n" using assms by (auto simp: config_ok_def)
qed

section \<open>The invariant\<close>

text \<open>
  An entry: several attempts in flight together cannot pass the threshold; an entry at the threshold is
  locked from its last failure for the lockout of its count; an entry below it is not locked.
\<close>

definition entry_ok :: "loginGuard \<Rightarrow> loginFailureEntry \<Rightarrow> bool" where
  "entry_ok g e \<longleftrightarrow> 0 \<le> lf_failureCount e \<and> 0 \<le> lf_inFlightAttempts e \<and>
     (lf_inFlightAttempts e \<le> 1 \<or> lf_failureCount e + lf_inFlightAttempts e \<le> lg_loginFailureThreshold g) \<and>
     (lf_lastFailure e = None \<longleftrightarrow> lf_failureCount e = 0) \<and>
     lf_lockedUntil e = (if lg_loginFailureThreshold g \<le> lf_failureCount e
       then map_option (\<lambda>t. t + lockout g (lf_failureCount e)) (lf_lastFailure e) else None)"

definition addresses :: "loginGuard \<Rightarrow> nat list" where
  "addresses g = map snd (fr_entries (registry False g)) @ map snd (fr_entries (registry True g)) @
     List.map_filter id (lg_usernameFailureFallbacks g)"

definition held_by :: "nat \<Rightarrow> loginFailureReservation list \<Rightarrow> int" where
  "held_by a rs = count_if (\<lambda>r. lr_entry r = a) rs"

definition reservation_ok :: "loginGuard \<Rightarrow> loginFailureReservation \<Rightarrow> bool" where
  "reservation_ok g r \<longleftrightarrow> (if lr_fallback r then Some (lr_entry r) \<in> set (lg_usernameFailureFallbacks g)
     else (lr_key r, lr_entry r) \<in> set (fr_entries (registry (lr_username r) g)))"

definition idle_entry_ok :: "duration \<Rightarrow> time option \<Rightarrow> loginFailureEntry \<Rightarrow> bool" where
  "idle_entry_ok window next_check e \<longleftrightarrow> lf_inFlightAttempts e = 0 \<longrightarrow> 0 < lf_failureCount e \<and>
     (\<exists>t. loginFailureEntryExpiry e window = Some t \<and> bounds_expiry next_check t)"

text \<open>Outside \<open>X\<close>, a registered entry without attempts has failures, and its expiry is not before the next check.\<close>

definition idle_ok :: "nat set \<Rightarrow> loginGuard \<Rightarrow> bool" where
  "idle_ok X g \<longleftrightarrow> (\<forall>u k a. (k, a) \<in> set (fr_entries (registry u g)) \<longrightarrow> a \<notin> X \<longrightarrow>
     idle_entry_ok (lg_loginFailureWindow g) (fr_nextExpiryCheck (registry u g)) (lg_heap g ! a))"

definition registry_ok :: "failureRegistry \<Rightarrow> bool" where
  "registry_ok r \<longleftrightarrow> map_ok (fr_entries r) \<and> fr_currentEntries r = int (length (fr_entries r)) \<and>
     int (length (fr_entries r)) \<le> fr_maximumEntries r"

text \<open>The state of the guard while the reservations \<open>rs\<close> are outstanding.\<close>

definition guard_ok :: "nat set \<Rightarrow> loginFailureReservation list \<Rightarrow> loginGuard \<Rightarrow> bool" where
  "guard_ok X rs g \<longleftrightarrow> config_ok g \<and> (\<forall>u. registry_ok (registry u g)) \<and>
     distinct (addresses g) \<and> (\<forall>a \<in> set (addresses g). a < length (lg_heap g)) \<and>
     (\<forall>e \<in> set (lg_heap g). entry_ok g e) \<and>
     (\<forall>a < length (lg_heap g). lf_inFlightAttempts (lg_heap g ! a) = held_by a rs) \<and>
     (\<forall>r \<in> set rs. reservation_ok g r) \<and> idle_ok X g"

lemma guard_okI:
  assumes "config_ok g" "\<And>u. registry_ok (registry u g)" "distinct (addresses g)"
    "\<And>a. a \<in> set (addresses g) \<Longrightarrow> a < length (lg_heap g)" "\<And>e. e \<in> set (lg_heap g) \<Longrightarrow> entry_ok g e"
    "\<And>a. a < length (lg_heap g) \<Longrightarrow> lf_inFlightAttempts (lg_heap g ! a) = held_by a rs"
    "\<And>r. r \<in> set rs \<Longrightarrow> reservation_ok g r" "idle_ok X g"
  shows "guard_ok X rs g"
  using assms by (simp add: guard_ok_def)

lemma guard_okD:
  assumes "guard_ok X rs g"
  shows "config_ok g" "registry_ok (registry u g)" "distinct (addresses g)"
    "a \<in> set (addresses g) \<Longrightarrow> a < length (lg_heap g)" "e \<in> set (lg_heap g) \<Longrightarrow> entry_ok g e"
    "b < length (lg_heap g) \<Longrightarrow> lf_inFlightAttempts (lg_heap g ! b) = held_by b rs"
    "r \<in> set rs \<Longrightarrow> reservation_ok g r" "idle_ok X g"
  using assms unfolding guard_ok_def by blast+

lemma registry_set [simp]: "registry u (set_registry v r g) = (if u = v then r else registry u g)"
  by (simp add: registry_def set_registry_def)

lemma registry_simps [simp]:
  "registry u (g\<lparr>lg_heap := h\<rparr>) = registry u g"
  "registry u (g\<lparr>lg_usernameFailureFallbacks := f\<rparr>) = registry u g"
  "registry u (g\<lparr>lg_attempts := t\<rparr>) = registry u g"
  "registry u (g\<lparr>lg_loginFailureCleanupScans := c\<rparr>) = registry u g"
  "registry u (g\<lparr>lg_usernameFailureFallbackAttempts := c\<rparr>) = registry u g"
  "registry u (g\<lparr>lg_usernameFailureFallbackRejections := c\<rparr>) = registry u g"
  by (simp_all add: registry_def)

lemma set_registry_simps [simp]:
  "lg_heap (set_registry v r g) = lg_heap g"
  "lg_usernameFailureFallbacks (set_registry v r g) = lg_usernameFailureFallbacks g"
  "lg_loginFailureThreshold (set_registry v r g) = lg_loginFailureThreshold g"
  "lg_loginFailureWindow (set_registry v r g) = lg_loginFailureWindow g"
  "lg_loginBaseLockout (set_registry v r g) = lg_loginBaseLockout g"
  "lg_loginMaxLockout (set_registry v r g) = lg_loginMaxLockout g"
  "lg_attempts (set_registry v r g) = lg_attempts g"
  by (simp_all add: set_registry_def)

lemmas guard_defs = guard_ok_def config_ok_def addresses_def entry_ok_def reservation_ok_def idle_ok_def lockout_def

text \<open>Only the fields that the invariant reads matter to it.\<close>

lemma guard_ok_irrelevant [simp]:
  "guard_ok X rs (g\<lparr>lg_attempts := t\<rparr>) = guard_ok X rs g"
  "guard_ok X rs (g\<lparr>lg_loginFailureCleanupScans := c\<rparr>) = guard_ok X rs g"
  "guard_ok X rs (g\<lparr>lg_usernameFailureFallbackAttempts := c\<rparr>) = guard_ok X rs g"
  "guard_ok X rs (g\<lparr>lg_usernameFailureFallbackRejections := c\<rparr>) = guard_ok X rs g"
  by (simp_all add: guard_defs)

lemma guard_ok_registry:
  assumes r: "fr_entries r = fr_entries (registry v g)" "fr_maximumEntries r = fr_maximumEntries (registry v g)"
    "fr_currentEntries r = fr_currentEntries (registry v g)" "fr_nextExpiryCheck r = fr_nextExpiryCheck (registry v g)"
  shows "guard_ok X rs (set_registry v r g) = guard_ok X rs g"
proof -
  let ?g = "set_registry v r g"
  have f: "fr_entries (registry u ?g) = fr_entries (registry u g)" "fr_nextExpiryCheck (registry u ?g) = fr_nextExpiryCheck (registry u g)"
    "registry_ok (registry u ?g) = registry_ok (registry u g)" for u
    using r by (auto simp: registry_ok_def)
  have "addresses ?g = addresses g" "config_ok ?g = config_ok g" "entry_ok ?g = entry_ok g"
    "reservation_ok ?g = reservation_ok g" "idle_ok X ?g = idle_ok X g"
    unfolding addresses_def config_ok_def entry_ok_def [abs_def] lockout_def reservation_ok_def [abs_def] idle_ok_def f
    by simp_all
  then show ?thesis unfolding guard_ok_def f by simp
qed

lemma guard_ok_rejections [simp]:
  "guard_ok X rs (set_registry v ((registry v g)\<lparr>fr_capacityRejections := c\<rparr>) g) = guard_ok X rs g"
  by (rule guard_ok_registry) simp_all

lemma held_by_simps [simp]:
  "held_by a [] = 0" "held_by a (r # rs) = held_by a rs + (if lr_entry r = a then 1 else 0)" "0 \<le> held_by a rs"
  by (simp_all add: held_by_def)

lemma in_addresses:
  "(k, a) \<in> set (fr_entries (registry u g)) \<Longrightarrow> a \<in> set (addresses g)"
  "Some a \<in> set (lg_usernameFailureFallbacks g) \<Longrightarrow> a \<in> set (addresses g)"
  by (cases u) (force simp: addresses_def List.map_filter_def)+

lemma address_unique:
  assumes d: "distinct (addresses g)" and p: "(k, a) \<in> set (fr_entries (registry u g))" "(k', a) \<in> set (fr_entries (registry u' g))"
  shows "u = u' \<and> k = k'"
proof -
  have du: "distinct (map snd (fr_entries (registry v g)))" for v using d by (cases v) (auto simp: addresses_def)
  have "snd ` set (fr_entries (registry False g)) \<inter> snd ` set (fr_entries (registry True g)) = {}"
    using d by (auto simp: addresses_def)
  then have "u = u'" using p by (cases u; cases u') force+
  moreover have "k = k'" if "u = u'" using du [of u] p that inj_onD [of snd "set (fr_entries (registry u g))" "(k, a)" "(k', a)"]
    by (simp add: distinct_map)
  ultimately show ?thesis by blast
qed

lemma reservation_ok_address: "reservation_ok g r \<Longrightarrow> lr_entry r \<in> set (addresses g)"
  by (auto simp: reservation_ok_def intro: in_addresses split: if_splits)

section \<open>Steps on the heap\<close>

lemma heap_update_ok:
  assumes ok: "guard_ok X rs g" and e: "entry_ok g e" and f: "lf_inFlightAttempts e = held_by a rs'"
    and other: "\<And>b. b \<noteq> a \<Longrightarrow> held_by b rs' = held_by b rs" and rs: "\<And>r. r \<in> set rs' \<Longrightarrow> reservation_ok g r"
  shows "guard_ok (insert a X) rs' (g\<lparr>lg_heap := (lg_heap g)[a := e]\<rparr>)"
proof (rule guard_okI)
  show "entry_ok (g\<lparr>lg_heap := (lg_heap g)[a := e]\<rparr>) x" if "x \<in> set (lg_heap (g\<lparr>lg_heap := (lg_heap g)[a := e]\<rparr>))" for x
  proof -
    have "x \<in> insert e (set (lg_heap g))" using that set_update_subset_insert [of "lg_heap g" a e] by auto
    then have "entry_ok g x" using e guard_okD(5) [OF ok] by blast
    then show ?thesis by (simp add: entry_ok_def lockout_def)
  qed
  show "lf_inFlightAttempts (lg_heap (g\<lparr>lg_heap := (lg_heap g)[a := e]\<rparr>) ! b) = held_by b rs'"
    if "b < length (lg_heap (g\<lparr>lg_heap := (lg_heap g)[a := e]\<rparr>))" for b
    using that f other [of b] guard_okD(6) [OF ok, of b] by (cases "b = a") simp_all
  show "idle_ok (insert a X) (g\<lparr>lg_heap := (lg_heap g)[a := e]\<rparr>)"
    using guard_okD(8) [OF ok] by (auto simp: idle_ok_def nth_list_update)
qed (use guard_okD [OF ok] rs in \<open>auto simp: config_ok_def addresses_def reservation_ok_def\<close>)

lemma idle_busy:
  assumes ok: "guard_ok (insert a X) rs g" and "lf_inFlightAttempts (lg_heap g ! a) \<noteq> 0"
  shows "guard_ok X rs g"
proof -
  have "idle_ok X g" using guard_okD(8) [OF ok] assms(2) by (auto simp: idle_ok_def idle_entry_ok_def)
  then show ?thesis using ok by (simp add: guard_ok_def)
qed

lemma reserveExisting_ok:
  assumes ok: "guard_ok {} rs g" and r: "reservation_ok g r" "lr_entry r = a"
    and res: "reserveExistingFailureEntryLocked a now g = (d, g')"
  shows "0 \<le> d" "0 < d \<Longrightarrow> g' = g" "d = 0 \<Longrightarrow> guard_ok {} (r # rs) g'" "lg_attempts g' = lg_attempts g"
    "\<And>x. reservation_ok g' x = reservation_ok g x"
proof -
  let ?e = "lg_heap g ! a"
  let ?e' = "?e\<lparr>lf_inFlightAttempts := lf_inFlightAttempts ?e + 1\<rparr>"
  have a: "a < length (lg_heap g)" using guard_okD(4) [OF ok] reservation_ok_address [OF r(1)] r(2) by simp
  have e: "entry_ok g ?e" using guard_okD(5) [OF ok] a by simp
  have pos: "after (lf_lockedUntil ?e) now \<Longrightarrow> 0 < the (lf_lockedUntil ?e) - now" by (cases "lf_lockedUntil ?e") auto
  show "0 \<le> d" "0 < d \<Longrightarrow> g' = g" "lg_attempts g' = lg_attempts g"
    using res pos by (auto simp: reserveExistingFailureEntryLocked_def Let_def duration_defs split: if_splits)
  show "reservation_ok g' x = reservation_ok g x" for x
    using res by (auto simp: reserveExistingFailureEntryLocked_def Let_def reservation_ok_def split: if_splits)
  assume "d = 0"
  then have g': "g' = g\<lparr>lg_heap := (lg_heap g)[a := ?e']\<rparr>"
    and free: "\<not> (0 < lf_inFlightAttempts ?e \<and> lg_loginFailureThreshold g \<le> lf_failureCount ?e + lf_inFlightAttempts ?e)"
    using res pos by (auto simp: reserveExistingFailureEntryLocked_def Let_def duration_defs split: if_splits)
  have e': "entry_ok g ?e'" using e free by (auto simp: entry_ok_def)
  have n: "lf_inFlightAttempts ?e = held_by a rs" using guard_okD(6) [OF ok a] .
  have "guard_ok (insert a {}) (r # rs) g'" unfolding g'
    by (rule heap_update_ok [OF ok e']) (use n r guard_okD(7) [OF ok] in auto)
  then show "guard_ok {} (r # rs) g'"
    by (rule idle_busy) (use a e in \<open>auto simp: g' entry_ok_def\<close>)
qed


section \<open>Steps on the registries\<close>

lemma bounds_note:
  "bounds_expiry (note_expiry w e n) x \<longleftrightarrow> bounds_expiry n x \<or> (\<exists>t. loginFailureEntryExpiry e w = Some t \<and> t \<le> x)"
  by (cases n; cases "loginFailureEntryExpiry e w") (auto simp: note_expiry_def bounds_expiry_def)

lemma bounds_fold_note:
  "bounds_expiry (fold (\<lambda>p n. if P p then note_expiry w (f p) n else n) ps n0) x \<longleftrightarrow>
     bounds_expiry n0 x \<or> (\<exists>p \<in> set ps. P p \<and> (\<exists>t. loginFailureEntryExpiry (f p) w = Some t \<and> t \<le> x))"
  by (induction ps arbitrary: n0) (auto simp: bounds_note)

lemma expiry_exists: "entry_ok g e \<Longrightarrow> 0 < lf_failureCount e \<Longrightarrow> \<exists>t. loginFailureEntryExpiry e w = Some t"
  by (auto simp: loginFailureEntryExpiry_def entry_ok_def Let_def split: option.splits)

lemma distinct_snd_filter: "distinct (map snd ps) \<Longrightarrow> distinct (map snd (filter P ps))"
  by (simp add: distinct_map_filter)

text \<open>Shrinking a registry keeps the addresses apart.\<close>

lemma addresses_shrink:
  assumes d: "distinct (addresses g)" and r: "set (fr_entries r) \<subseteq> set (fr_entries (registry v g))" "distinct (map snd (fr_entries r))"
  shows "distinct (addresses (set_registry v r g))" "set (addresses (set_registry v r g)) \<subseteq> set (addresses g)"
  using assms by (cases v; force simp: addresses_def)+

lemma cleanup_ok:
  assumes ok: "guard_ok {} rs g"
  shows "guard_ok {} rs (set_registry v (cleanup_registry (lg_loginFailureWindow g) now (lg_heap g) (registry v g)) g)"
proof -
  let ?h = "lg_heap g" and ?w = "lg_loginFailureWindow g"
  let ?kept = "filter (\<lambda>p. \<not> removable ?w now (?h ! snd p)) (fr_entries (registry v g))"
  define r where "r = cleanup_registry ?w now ?h (registry v g)"
  have r: "fr_entries r = ?kept" "fr_maximumEntries r = fr_maximumEntries (registry v g)"
    by (simp_all add: r_def cleanup_registry_def Let_def)
  have len: "length ?kept \<le> length (fr_entries (registry v g))" by simp
  have "int (length ?kept) \<le> fr_maximumEntries (registry v g)"
    using guard_okD(2) [OF ok, of v] len unfolding registry_ok_def by linarith
  then have reg: "registry_ok r"
    using guard_okD(2) [OF ok, of v] len
    by (auto simp: registry_ok_def r_def cleanup_registry_def Let_def of_nat_diff)
  have dv: "distinct (map snd (fr_entries (registry v g)))" using guard_okD(3) [OF ok] by (cases v) (auto simp: addresses_def)
  note sub = addresses_shrink [OF guard_okD(3) [OF ok], of r v]
  have d: "distinct (map snd (fr_entries r))" unfolding r by (rule distinct_snd_filter [OF dv])
  have keep: "(k, a) \<in> set (fr_entries r)" if "(k, a) \<in> set (fr_entries (registry v g))" "lf_inFlightAttempts (?h ! a) \<noteq> 0" for k a
    using that by (auto simp: r removable_def Let_def)
  have "reservation_ok (set_registry v r g) x" if x: "x \<in> set rs" for x
  proof -
    have x_ok: "reservation_ok g x" by (rule guard_okD(7) [OF ok x])
    have "0 < held_by (lr_entry x) rs" using x by (auto simp: held_by_def count_if_pos)
    moreover have "lr_entry x < length ?h" using guard_okD(4) [OF ok reservation_ok_address [OF x_ok]] .
    ultimately have "lf_inFlightAttempts (?h ! lr_entry x) \<noteq> 0" using guard_okD(6) [OF ok] by auto
    then show ?thesis using x_ok keep by (auto simp: reservation_ok_def split: if_splits)
  qed
  moreover have "idle_ok {} (set_registry v r g)"
  proof -
    have next_r: "fr_nextExpiryCheck r = fold (\<lambda>p n. if lf_inFlightAttempts (?h ! snd p) = 0
        then note_expiry ?w (?h ! snd p) n else n) ?kept None" by (simp add: r_def cleanup_registry_def Let_def)
    have "idle_entry_ok ?w (fr_nextExpiryCheck r) (?h ! a)" if ka: "(k, a) \<in> set (fr_entries r)" for k a
    proof -
      have old: "(k, a) \<in> set (fr_entries (registry v g))" using ka by (simp add: r)
      have b: "bounds_expiry (fr_nextExpiryCheck r) t" if "lf_inFlightAttempts (?h ! a) = 0"
        "loginFailureEntryExpiry (?h ! a) ?w = Some t" for t
        unfolding next_r bounds_fold_note by (intro disjI2 bexI [of _ "(k, a)"]) (use that ka r in auto)
      have "idle_entry_ok ?w (fr_nextExpiryCheck (registry v g)) (?h ! a)" using guard_okD(8) [OF ok] old by (auto simp: idle_ok_def)
      with b show ?thesis by (auto simp: idle_entry_ok_def)
    qed
    then show ?thesis using guard_okD(8) [OF ok] by (auto simp: idle_ok_def)
  qed
  moreover have "set (fr_entries r) \<subseteq> set (fr_entries (registry v g))" by (auto simp: r)
  ultimately show ?thesis
    unfolding r_def [symmetric] by (intro guard_okI) (use guard_okD [OF ok] reg d sub in \<open>auto simp: config_ok_def entry_ok_def lockout_def\<close>)
qed


lemma held_by_unallocated:
  assumes "guard_ok X rs g"
  shows "held_by (length (lg_heap g)) rs = 0"
proof -
  have "lr_entry r < length (lg_heap g)" if "r \<in> set rs" for r
    using guard_okD(4) [OF assms reservation_ok_address [OF guard_okD(7) [OF assms that]]] .
  then show ?thesis by (force simp: held_by_def count_if_zero)
qed

lemma set_update_fresh: "lookup m k = None \<Longrightarrow> AList.update k v m = m @ [(k, v)]"
  by (rule AList_update_fresh) (simp add: map_of_eq_None_iff)

lemma admit_entry_ok:
  assumes ok: "guard_ok {} rs g" and new: "lookup (fr_entries (registry v g)) key = None"
    and room: "int (length (fr_entries (registry v g))) < fr_maximumEntries (registry v g)"
  shows "guard_ok {} (\<lparr>lr_key = key, lr_entry = length (lg_heap g), lr_username = v, lr_fallback = False\<rparr> # rs) (admit_entry v key g)"
proof -
  let ?g = "admit_entry v key g" and ?n = "length (lg_heap g)"
  let ?e = "\<lparr>lf_failureCount = 0, lf_lastFailure = None, lf_lockedUntil = None, lf_inFlightAttempts = 1\<rparr>"
  have reg: "fr_entries (registry u ?g) = (if u = v then fr_entries (registry v g) @ [(key, ?n)] else fr_entries (registry u g))"
    "fr_nextExpiryCheck (registry u ?g) = fr_nextExpiryCheck (registry u g)" for u
    by (simp_all add: admit_entry_def Let_def set_update_fresh [OF new])
  have simps: "lg_heap ?g = lg_heap g @ [?e]" "lg_usernameFailureFallbacks ?g = lg_usernameFailureFallbacks g"
    "config_ok ?g = config_ok g" "entry_ok ?g = entry_ok g" "lg_loginFailureWindow ?g = lg_loginFailureWindow g"
    by (simp_all add: admit_entry_def Let_def config_ok_def entry_ok_def [abs_def] lockout_def)
  have addr: "mset (addresses ?g) = mset (addresses g) + {#?n#}"
    unfolding addresses_def reg simps by (cases v) simp_all
  then have set_addr: "set (addresses ?g) = insert ?n (set (addresses g))" by (metis add_mset_add_single set_mset_add_mset_insert set_mset_mset)
  show ?thesis
  proof (rule guard_okI)
    show "registry_ok (registry u ?g)" for u
      using guard_okD(2) [OF ok, of u] guard_okD(2) [OF ok, of v] room new
      by (auto simp: registry_ok_def admit_entry_def Let_def set_update_fresh map_ok_def map_of_eq_None_iff)
    have "?n \<notin> set (addresses g)" using guard_okD(4) [OF ok] by blast
    then have "distinct (?n # addresses g)" using guard_okD(3) [OF ok] by simp
    moreover have "mset (addresses ?g) = mset (?n # addresses g)" using addr by simp
    ultimately show "distinct (addresses ?g)" using mset_eq_imp_distinct_iff by blast
    show "reservation_ok ?g r" if "r \<in> set (\<lparr>lr_key = key, lr_entry = ?n, lr_username = v, lr_fallback = False\<rparr> # rs)" for r
      using that guard_okD(7) [OF ok, of r] by (auto simp: reservation_ok_def reg simps)
    show "idle_ok {} ?g"
      using guard_okD(8) [OF ok] guard_okD(4) [OF ok in_addresses(1)]
      by (auto simp: idle_ok_def reg simps nth_append idle_entry_ok_def split: if_splits)
    show "a < length (lg_heap ?g)" if "a \<in> set (addresses ?g)" for a
      using that guard_okD(4) [OF ok, of a] by (auto simp: set_addr simps)
    show "entry_ok ?g e" if "e \<in> set (lg_heap ?g)" for e
      using that guard_okD(5) [OF ok, of e] guard_okD(1) [OF ok] by (auto simp: simps entry_ok_def config_ok_def)
    show "lf_inFlightAttempts (lg_heap ?g ! a) =
        held_by a (\<lparr>lr_key = key, lr_entry = ?n, lr_username = v, lr_fallback = False\<rparr> # rs)" if "a < length (lg_heap ?g)" for a
      using that guard_okD(6) [OF ok, of a] held_by_unallocated [OF ok] by (cases "a = ?n") (auto simp: simps nth_append)
  qed (use guard_okD(1) [OF ok] simps in simp)
qed

lemma remove_entry_ok:
  assumes ok: "guard_ok {a} rs g" and k: "(key, a) \<in> set (fr_entries (registry v g))" and idle: "held_by a rs = 0"
  shows "guard_ok {} rs (remove_entry v key g)"
proof -
  let ?g = "remove_entry v key g"
  have ok_v: "map_ok (fr_entries (registry v g))" using guard_okD(2) [OF ok, of v] by (simp add: registry_ok_def)
  have look: "lookup (fr_entries (registry v g)) key = Some a" using ok_v k by (simp add: lookup_Some_iff)
  have reg: "fr_entries (registry u ?g) = (if u = v then AList.delete key (fr_entries (registry v g)) else fr_entries (registry u g))"
    "fr_nextExpiryCheck (registry u ?g) = fr_nextExpiryCheck (registry u g)" for u by (simp_all add: remove_entry_def Let_def)
  have simps: "lg_heap ?g = lg_heap g" "lg_usernameFailureFallbacks ?g = lg_usernameFailureFallbacks g"
    "config_ok ?g = config_ok g" "entry_ok ?g = entry_ok g" "lg_loginFailureWindow ?g = lg_loginFailureWindow g"
    by (simp_all add: remove_entry_def Let_def config_ok_def entry_ok_def [abs_def] lockout_def)
  have other: "(k', b) \<in> set (fr_entries (registry u ?g)) \<longleftrightarrow> (k', b) \<in> set (fr_entries (registry u g)) \<and> b \<noteq> a" for u k' b
  proof -
    have "u = v \<and> k' = key" if "(k', a) \<in> set (fr_entries (registry u g))"
      using address_unique [OF guard_okD(3) [OF ok] that k] .
    moreover have "b = a" if "(key, b) \<in> set (fr_entries (registry v g))" using look ok_v that by (simp add: lookup_Some_iff [symmetric])
    moreover have "(k', b) \<in> set (AList.delete key (fr_entries (registry v g))) \<longleftrightarrow>
        (k', b) \<in> set (fr_entries (registry v g)) \<and> k' \<noteq> key" by (auto simp: AList.delete_eq)
    ultimately show ?thesis unfolding reg(1) by (cases "u = v") auto
  qed
  have shrink: "distinct (addresses ?g)" "set (addresses ?g) \<subseteq> set (addresses g)"
  proof -
    have "distinct (map snd (fr_entries (registry v g)))" using guard_okD(3) [OF ok] by (cases v) (auto simp: addresses_def)
    then show "distinct (addresses ?g)" "set (addresses ?g) \<subseteq> set (addresses g)"
      unfolding remove_entry_def Let_def
      by (intro addresses_shrink guard_okD(3) [OF ok]; auto simp: AList.delete_eq distinct_snd_filter)+
  qed
  show ?thesis
  proof (rule guard_okI)
    show "registry_ok (registry u ?g)" for u
      using guard_okD(2) [OF ok, of u] guard_okD(2) [OF ok, of v] length_delete_old [OF ok_v look]
      by (auto simp: registry_ok_def remove_entry_def Let_def)
    show "reservation_ok ?g r" if "r \<in> set rs" for r
    proof -
      have "lr_entry r \<noteq> a" using idle that by (auto simp: held_by_def count_if_zero)
      then show ?thesis using guard_okD(7) [OF ok that] other by (auto simp: reservation_ok_def simps)
    qed
    show "idle_ok {} ?g" using guard_okD(8) [OF ok] other by (auto simp: idle_ok_def reg(2) simps)
  qed (use guard_okD [OF ok] shrink simps in auto)
qed

lemma record_expiry_ok:
  assumes ok: "guard_ok {a} rs g" and k: "(key, a) \<in> set (fr_entries (registry v g))" and n: "0 < lf_failureCount (lg_heap g ! a)"
  shows "guard_ok {} rs (recordFailureExpiryLocked v (lg_heap g ! a) g)"
proof -
  let ?g = "recordFailureExpiryLocked v (lg_heap g ! a) g"
  have reg: "fr_entries (registry u ?g) = fr_entries (registry u g)" "registry_ok (registry u ?g) = registry_ok (registry u g)"
    "fr_nextExpiryCheck (registry u ?g) = (if u = v then note_expiry (lg_loginFailureWindow g) (lg_heap g ! a)
       (fr_nextExpiryCheck (registry v g)) else fr_nextExpiryCheck (registry u g))" for u
    by (simp_all add: recordFailureExpiryLocked_def Let_def registry_ok_def)
  have simps: "lg_heap ?g = lg_heap g" "lg_usernameFailureFallbacks ?g = lg_usernameFailureFallbacks g"
    "config_ok ?g = config_ok g" "entry_ok ?g = entry_ok g" "lg_loginFailureWindow ?g = lg_loginFailureWindow g"
    by (simp_all add: recordFailureExpiryLocked_def Let_def config_ok_def entry_ok_def [abs_def] lockout_def)
  have same: "addresses ?g = addresses g" "reservation_ok ?g = reservation_ok g"
    by (simp_all add: addresses_def reservation_ok_def [abs_def] reg simps)
  have "entry_ok g (lg_heap g ! a)" using guard_okD(4,5) [OF ok] in_addresses(1) [OF k] by simp
  from expiry_exists [OF this n] obtain t where t: "loginFailureEntryExpiry (lg_heap g ! a) (lg_loginFailureWindow g) = Some t" by blast
  have "u = v" if "(k', a) \<in> set (fr_entries (registry u g))" for u k'
    using address_unique [OF guard_okD(3) [OF ok] that k] by simp
  moreover have "idle_entry_ok (lg_loginFailureWindow g) (fr_nextExpiryCheck (registry u ?g)) (lg_heap g ! b)"
    if "(k', b) \<in> set (fr_entries (registry u g))" "b \<noteq> a" for u k' b
  proof -
    have "idle_entry_ok (lg_loginFailureWindow g) (fr_nextExpiryCheck (registry u g)) (lg_heap g ! b)"
      using guard_okD(8) [OF ok] that by (auto simp: idle_ok_def)
    then show ?thesis by (auto simp: idle_entry_ok_def reg bounds_note)
  qed
  moreover have "idle_entry_ok (lg_loginFailureWindow g) (fr_nextExpiryCheck (registry v ?g)) (lg_heap g ! a)"
    using n t by (auto simp: idle_entry_ok_def reg bounds_note)
  ultimately have "idle_entry_ok (lg_loginFailureWindow g) (fr_nextExpiryCheck (registry u ?g)) (lg_heap g ! b)"
    if "(k', b) \<in> set (fr_entries (registry u g))" for u k' b
    using that by (cases "b = a") blast+
  then have "idle_ok {} ?g" unfolding idle_ok_def reg(1) simps by blast
  then show ?thesis
    by (intro guard_okI) (use guard_okD [OF ok] in \<open>simp_all add: same simps reg(2)\<close>)
qed


section \<open>The operations keep the invariant\<close>

lemma guard_ok_perm:
  assumes "mset rs = mset rs'"
  shows "guard_ok X rs g = guard_ok X rs' g"
proof -
  have "held_by a rs = held_by a rs'" for a
    unfolding held_by_def count_if_def using assms by (metis mset_filter size_mset)
  moreover have "set rs = set rs'" using assms by (metis set_mset_mset)
  ultimately show ?thesis by (simp add: guard_ok_def)
qed

lemma idle_fallback:
  assumes ok: "guard_ok {a} rs g" and "Some a \<in> set (lg_usernameFailureFallbacks g)"
  shows "guard_ok {} rs g"
proof -
  have "a \<in> set (List.map_filter id (lg_usernameFailureFallbacks g))" using assms(2) by (force simp: List.map_filter_def)
  then have "a \<notin> snd ` set (fr_entries (registry False g))" "a \<notin> snd ` set (fr_entries (registry True g))"
    using guard_okD(3) [OF ok] by (auto simp: addresses_def)
  then have "(k, a) \<notin> set (fr_entries (registry u g))" for u k by (cases u) force+
  then have "idle_ok {} g" using guard_okD(8) [OF ok] unfolding idle_ok_def by (metis singletonD)
  then show ?thesis using ok by (simp add: guard_ok_def)
qed

definition window_over :: "time \<Rightarrow> loginGuard \<Rightarrow> loginFailureEntry \<Rightarrow> bool" where
  "window_over now g e \<longleftrightarrow> (\<exists>t. lf_lastFailure e = Some t \<and> t + lg_loginFailureWindow g \<le> now)"

definition failures_after :: "time \<Rightarrow> loginGuard \<Rightarrow> loginFailureEntry \<Rightarrow> int" where
  "failures_after now g e = (if window_over now g e then 1 else lf_failureCount e + 1)"

lemma failed_entry_eq:
  assumes "config_ok g"
  shows "failed_entry now g e = Inr (e\<lparr>lf_failureCount := failures_after now g e, lf_lastFailure := Some now,
    lf_lockedUntil := (if lg_loginFailureThreshold g \<le> failures_after now g e then Some (now + lockout g (failures_after now g e))
      else if window_over now g e then None else lf_lockedUntil e)\<rparr>)"
proof (cases "window_over now g e")
  case True
  then have "(case lf_lastFailure e of None \<Rightarrow> False | Some t \<Rightarrow> \<not> now < t + lg_loginFailureWindow g) = True"
    by (auto simp: window_over_def)
  then show ?thesis using True
    by (simp add: failed_entry_def failures_after_def Let_def lockoutDuration_eq [OF assms])
next
  case False
  then have "(case lf_lastFailure e of None \<Rightarrow> False | Some t \<Rightarrow> \<not> now < t + lg_loginFailureWindow g) = False"
    by (auto simp: window_over_def split: option.splits)
  then show ?thesis using False
    by (simp add: failed_entry_def failures_after_def Let_def lockoutDuration_eq [OF assms])
qed

lemma completed_entry_ok:
  assumes c: "config_ok g" and e: "entry_ok g e" and n: "0 < lf_inFlightAttempts e"
  obtains e' where "completed_entry outcome now g (e\<lparr>lf_inFlightAttempts := lf_inFlightAttempts e - 1\<rparr>) = Inr e'"
    "entry_ok g e'" "lf_inFlightAttempts e' = lf_inFlightAttempts e - 1"
proof (cases outcome)
  case loginAttemptFailed
  let ?e = "e\<lparr>lf_inFlightAttempts := lf_inFlightAttempts e - 1\<rparr>"
  have "0 < failures_after now g ?e" "failures_after now g ?e \<le> lf_failureCount e + 1"
    "\<not> window_over now g ?e \<Longrightarrow> failures_after now g ?e = lf_failureCount e + 1"
    using e by (auto simp: failures_after_def entry_ok_def)
  then have "entry_ok g (?e\<lparr>lf_failureCount := failures_after now g ?e, lf_lastFailure := Some now,
    lf_lockedUntil := (if lg_loginFailureThreshold g \<le> failures_after now g ?e then Some (now + lockout g (failures_after now g ?e))
      else if window_over now g ?e then None else lf_lockedUntil ?e)\<rparr>)"
    using e n by (auto simp: entry_ok_def)
  then show ?thesis using loginAttemptFailed that by (simp add: completed_entry_def failed_entry_eq [OF c])
qed (use e n that c in \<open>auto simp: completed_entry_def entry_ok_def config_ok_def\<close>)

lemma remove_record_simps [simp]:
  "lg_attempts (remove_entry v k g) = lg_attempts g" "lg_attempts (recordFailureExpiryLocked v e g) = lg_attempts g"
  by (simp_all add: remove_entry_def recordFailureExpiryLocked_def Let_def)

lemma complete_reservation_entry:
  assumes ok: "guard_ok {} (r # rs) g"
  obtains e' where "completed_entry outcome now g ((lg_heap g ! lr_entry r)\<lparr>lf_inFlightAttempts := lf_inFlightAttempts (lg_heap g ! lr_entry r) - 1\<rparr>) = Inr e'"
    "entry_ok g e'" "lf_inFlightAttempts e' = lf_inFlightAttempts (lg_heap g ! lr_entry r) - 1"
    "lf_inFlightAttempts (lg_heap g ! lr_entry r) = held_by (lr_entry r) rs + 1"
    "completeFailureReservationLocked r outcome now g =
      (if lr_fallback r then Inr (g\<lparr>lg_heap := (lg_heap g)[lr_entry r := e']\<rparr>)
       else if lf_inFlightAttempts e' = 0 \<and> lf_failureCount e' = 0 \<and> \<not> after (lf_lockedUntil e') now
       then Inr (remove_entry (lr_username r) (lr_key r) (g\<lparr>lg_heap := (lg_heap g)[lr_entry r := e']\<rparr>))
       else if lf_inFlightAttempts e' = 0 then Inr (recordFailureExpiryLocked (lr_username r) e' (g\<lparr>lg_heap := (lg_heap g)[lr_entry r := e']\<rparr>))
       else Inr (g\<lparr>lg_heap := (lg_heap g)[lr_entry r := e']\<rparr>))"
proof -
  let ?a = "lr_entry r" and ?v = "lr_username r" and ?k = "lr_key r"
  let ?e = "lg_heap g ! ?a"
  have r: "reservation_ok g r" using guard_okD(7) [OF ok] by simp
  have a: "?a < length (lg_heap g)" using guard_okD(4) [OF ok reservation_ok_address [OF r]] .
  have n: "lf_inFlightAttempts ?e = held_by ?a rs + 1" using guard_okD(6) [OF ok a] by simp
  have e: "entry_ok g ?e" using guard_okD(5) [OF ok] a by simp
  have pos: "0 < lf_inFlightAttempts ?e" using n held_by_simps(3) [of ?a rs] by linarith
  obtain e' where e': "completed_entry outcome now g (?e\<lparr>lf_inFlightAttempts := lf_inFlightAttempts ?e - 1\<rparr>) = Inr e'"
    "entry_ok g e'" "lf_inFlightAttempts e' = lf_inFlightAttempts ?e - 1"
    using completed_entry_ok [OF guard_okD(1) [OF ok] e pos] .
  have look: "lookup (fr_entries (registry ?v g)) ?k = Some ?a" if "\<not> lr_fallback r"
    using r that guard_okD(2) [OF ok, of ?v] by (simp add: reservation_ok_def registry_ok_def lookup_Some_iff)
  show ?thesis
    by (rule that [OF e' n]) (use pos look e'(1) in \<open>auto simp: completeFailureReservationLocked_def Let_def\<close>)
qed

lemma complete_reservation_ok:
  assumes ok: "guard_ok {} (r # rs) g"
  obtains g' where "completeFailureReservationLocked r outcome now g = Inr g'" "guard_ok {} rs g'" "lg_attempts g' = lg_attempts g"
proof -
  let ?a = "lr_entry r" and ?v = "lr_username r" and ?k = "lr_key r"
  let ?e = "lg_heap g ! ?a"
  have r: "reservation_ok g r" using guard_okD(7) [OF ok] by simp
  have a: "?a < length (lg_heap g)" using guard_okD(4) [OF ok reservation_ok_address [OF r]] .
  obtain e' where e': "completed_entry outcome now g (?e\<lparr>lf_inFlightAttempts := lf_inFlightAttempts ?e - 1\<rparr>) = Inr e'"
    "entry_ok g e'" "lf_inFlightAttempts e' = lf_inFlightAttempts ?e - 1" and n: "lf_inFlightAttempts ?e = held_by ?a rs + 1"
    and complete: "completeFailureReservationLocked r outcome now g =
      (if lr_fallback r then Inr (g\<lparr>lg_heap := (lg_heap g)[?a := e']\<rparr>)
       else if lf_inFlightAttempts e' = 0 \<and> lf_failureCount e' = 0 \<and> \<not> after (lf_lockedUntil e') now
       then Inr (remove_entry ?v ?k (g\<lparr>lg_heap := (lg_heap g)[?a := e']\<rparr>))
       else if lf_inFlightAttempts e' = 0 then Inr (recordFailureExpiryLocked ?v e' (g\<lparr>lg_heap := (lg_heap g)[?a := e']\<rparr>))
       else Inr (g\<lparr>lg_heap := (lg_heap g)[?a := e']\<rparr>))"
    using complete_reservation_entry [OF ok] .
  let ?g = "g\<lparr>lg_heap := (lg_heap g)[?a := e']\<rparr>"
  have g1: "guard_ok {?a} rs ?g"
    by (rule heap_update_ok [OF ok e'(2)]) (use e'(3) n guard_okD(7) [OF ok] in auto)
  have key: "(?k, ?a) \<in> set (fr_entries (registry ?v ?g))" if "\<not> lr_fallback r" using r that by (simp add: reservation_ok_def)
  have heap: "lg_heap ?g ! ?a = e'" using a by simp
  consider (fallback) "lr_fallback r" | (busy) "\<not> lr_fallback r" "lf_inFlightAttempts e' \<noteq> 0"
    | (gone) "\<not> lr_fallback r" "lf_inFlightAttempts e' = 0" "lf_failureCount e' = 0"
    | (kept) "\<not> lr_fallback r" "lf_inFlightAttempts e' = 0" "lf_failureCount e' \<noteq> 0" by blast
  then show ?thesis
  proof cases
    case fallback
    have "guard_ok {} rs ?g" by (rule idle_fallback [OF g1]) (use r fallback in \<open>simp add: reservation_ok_def\<close>)
    then show ?thesis using fallback that complete by simp
  next
    case busy
    have "guard_ok {} rs ?g" by (rule idle_busy [OF g1]) (use heap busy in simp)
    then show ?thesis using busy that complete by simp
  next
    case gone
    then have "lf_lockedUntil e' = None" using e'(2) guard_okD(1) [OF ok] by (auto simp: entry_ok_def config_ok_def)
    moreover have "guard_ok {} rs (remove_entry ?v ?k ?g)"
      by (rule remove_entry_ok [OF g1 key]) (use gone e'(3) n in auto)
    ultimately show ?thesis using gone that complete by simp
  next
    case kept
    then have "0 < lf_failureCount e'" using e'(2) by (auto simp: entry_ok_def)
    then have "guard_ok {} rs (recordFailureExpiryLocked ?v (lg_heap ?g ! ?a) ?g)"
      by (intro record_expiry_ok [OF g1 key]) (use kept heap in auto)
    then show ?thesis using kept that complete heap by simp
  qed
qed

lemma fallback_alloc_ok:
  assumes ok: "guard_ok {} rs g" and i: "i < length (lg_usernameFailureFallbacks g)" "lg_usernameFailureFallbacks g ! i = None"
  shows "guard_ok {} rs (g\<lparr>lg_heap := lg_heap g @ [\<lparr>lf_failureCount = 0, lf_lastFailure = None, lf_lockedUntil = None,
       lf_inFlightAttempts = 0\<rparr>],
     lg_usernameFailureFallbacks := (lg_usernameFailureFallbacks g)[i := Some (length (lg_heap g))]\<rparr>)"
    (is "guard_ok {} rs ?g")
proof -
  let ?n = "length (lg_heap g)"
  have mf: "i < length xs \<Longrightarrow> xs ! i = None \<Longrightarrow> mset (List.map_filter id (xs[i := Some n])) = add_mset n (mset (List.map_filter id xs))"
    for xs :: "nat option list" and i n
    by (induction xs arbitrary: i) (auto simp: List.map_filter_simps nth_Cons split: nat.splits option.splits)
  have addr: "mset (addresses ?g) = mset (?n # addresses g)" using mf [OF i] by (simp add: addresses_def registry_def)
  then have set_addr: "set (addresses ?g) = insert ?n (set (addresses g))" by (metis list.simps(15) set_mset_mset)
  have old: "Some x \<in> set ((lg_usernameFailureFallbacks g)[i := Some ?n])" if "Some x \<in> set (lg_usernameFailureFallbacks g)" for x
    using that i by (metis in_set_conv_nth length_list_update nth_list_update_neq option.distinct(1))
  have reg: "registry u ?g = registry u g" for u by (simp add: registry_def)
  show ?thesis
  proof (rule guard_okI)
    have "distinct (?n # addresses g)" using guard_okD(3,4) [OF ok] by auto
    then show "distinct (addresses ?g)" using addr mset_eq_imp_distinct_iff by blast
    show "reservation_ok ?g r" if "r \<in> set rs" for r
      using guard_okD(7) [OF ok that] old by (auto simp: reservation_ok_def reg split: if_splits)
    show "idle_ok {} ?g"
      using guard_okD(8) [OF ok] guard_okD(4) [OF ok in_addresses(1)] by (auto simp: idle_ok_def reg nth_append)
    show "lf_inFlightAttempts (lg_heap ?g ! a) = held_by a rs" if "a < length (lg_heap ?g)" for a
      using that guard_okD(6) [OF ok, of a] held_by_unallocated [OF ok] by (cases "a = ?n") (auto simp: nth_append)
    show "entry_ok ?g e" if "e \<in> set (lg_heap ?g)" for e
      using that guard_okD(5) [OF ok, of e] guard_okD(1) [OF ok] by (auto simp: entry_ok_def config_ok_def lockout_def)
    show "a < length (lg_heap ?g)" if "a \<in> set (addresses ?g)" for a using that guard_okD(4) [OF ok, of a] by (auto simp: set_addr)
    show "config_ok ?g" using guard_okD(1) [OF ok] by (simp add: config_ok_def)
    show "registry_ok (registry u ?g)" for u unfolding reg by (rule guard_okD(2) [OF ok])
  qed
qed


lemma guard_registries:
  "g\<lparr>lg_failures := r\<rparr> = set_registry False r g" "g\<lparr>lg_usernameFailures := r\<rparr> = set_registry True r g"
  "lg_failures g = registry False g" "lg_usernameFailures g = registry True g"
  by (simp_all add: registry_def set_registry_def)

lemma cleanup_source_ok:
  "guard_ok {} rs g \<Longrightarrow> guard_ok {} rs (cleanupLoginFailuresLocked now g)"
  using cleanup_ok [of rs "g\<lparr>lg_loginFailureCleanupScans := lg_loginFailureCleanupScans g + 1\<rparr>" False now]
  by (simp add: cleanupLoginFailuresLocked_def guard_registries)

lemma cleanup_username_ok:
  "guard_ok {} rs g \<Longrightarrow> guard_ok {} rs (cleanupUsernameFailuresLocked now g)"
  using cleanup_ok [of rs g True now] by (simp add: cleanupUsernameFailuresLocked_def guard_registries)

lemma cleanup_lookup_None:
  assumes "lookup (fr_entries r) k = None"
  shows "lookup (fr_entries (cleanup_registry w now h r)) k = None"
  using assms by (auto simp: cleanup_registry_def Let_def map_of_eq_None_iff)

lemma cleanup_locked_simps [simp]:
  "lg_attempts (cleanupLoginFailuresLocked now g) = lg_attempts g"
  "lg_attempts (cleanupUsernameFailuresLocked now g) = lg_attempts g"
  "registry u (cleanupLoginFailuresLocked now g) = (if u then registry True g
     else cleanup_registry (lg_loginFailureWindow g) now (lg_heap g) (registry False g))"
  "registry u (cleanupUsernameFailuresLocked now g) = (if u
     then cleanup_registry (lg_loginFailureWindow g) now (lg_heap g) (registry True g) else registry False g)"
  by (simp_all add: cleanupLoginFailuresLocked_def cleanupUsernameFailuresLocked_def registry_def)

definition reserved_ok :: "loginFailureReservation list \<Rightarrow> (duration + loginFailureReservation) \<times> loginGuard \<Rightarrow> bool" where
  "reserved_ok rs x \<longleftrightarrow> (case x of (Inl d, g) \<Rightarrow> 0 < d \<and> guard_ok {} rs g | (Inr r, g) \<Rightarrow> guard_ok {} (r # rs) g)"

lemma reserveExisting_attempts: "reserveExistingFailureEntryLocked a now g = (d, g') \<Longrightarrow> lg_attempts g' = lg_attempts g"
  by (auto simp: reserveExistingFailureEntryLocked_def Let_def split: if_splits)

lemma reserve_registered_ok:
  assumes ok: "guard_ok {} rs g" and k: "lookup (fr_entries (registry v g)) key = Some a"
  shows "reserved_ok rs (case reserveExistingFailureEntryLocked a now g of (d, g') \<Rightarrow> if 0 < d then (Inl d, g')
      else (Inr \<lparr>lr_key = key, lr_entry = a, lr_username = v, lr_fallback = False\<rparr>, g'))"
proof -
  let ?r = "\<lparr>lr_key = key, lr_entry = a, lr_username = v, lr_fallback = False\<rparr>"
  obtain d g' where res: "reserveExistingFailureEntryLocked a now g = (d, g')" by fastforce
  have "reservation_ok g ?r" using k by (simp add: reservation_ok_def map_of_SomeD)
  from reserveExisting_ok [OF ok this _ res] show ?thesis using ok by (simp add: res reserved_ok_def not_less)
qed

lemma reserveSource_ok:
  assumes ok: "guard_ok {} rs g"
  shows "reserved_ok rs (reserveSourceFailureLocked key now g)"
    and "lg_attempts (snd (reserveSourceFailureLocked key now g)) = lg_attempts g"
proof -
  let ?full = "\<lambda>g. fr_maximumEntries (registry False g) \<le> int (length (fr_entries (registry False g)))"
  define g1 where "g1 = (if ?full g \<and> expiry_due now (registry False g) then cleanupLoginFailuresLocked now g else g)"
  have g1: "guard_ok {} rs g1" "lg_attempts g1 = lg_attempts g" using ok cleanup_source_ok by (simp_all add: g1_def)
  have new: "lookup (fr_entries (registry False g1)) key = None" if "lookup (fr_entries (registry False g)) key = None"
    using that by (simp add: g1_def cleanup_lookup_None)
  show "reserved_ok rs (reserveSourceFailureLocked key now g)"
  proof (cases "lookup (fr_entries (registry False g)) key")
    case (Some a)
    then show ?thesis
      using reserve_registered_ok [OF ok Some] by (simp add: reserveSourceFailureLocked_def guard_registries)
  next
    case None
    then show ?thesis using admit_entry_ok [OF g1(1) new] g1(1)
      by (simp add: reserveSourceFailureLocked_def guard_registries g1_def [symmetric] Let_def reserved_ok_def not_le duration_defs)
  qed
  show "lg_attempts (snd (reserveSourceFailureLocked key now g)) = lg_attempts g"
    using g1(2) by (auto simp: reserveSourceFailureLocked_def guard_registries g1_def [symmetric] Let_def admit_entry_def
        split: option.split prod.split dest: reserveExisting_attempts)
qed


lemma fallback_index_less: "config_ok g \<Longrightarrow>
    auth_fallbackBucketIndexFor h u (length (lg_usernameFailureFallbacks g)) < length (lg_usernameFailureFallbacks g)"
  by (simp add: auth_fallbackBucketIndexFor_def config_ok_def unat_mod_of_nat_less)

lemma username_fallback_ok:
  assumes ok: "guard_ok {} rs g"
  shows "reserved_ok rs (username_fallback h u now g)" and "lg_attempts (snd (username_fallback h u now g)) = lg_attempts g"
proof -
  let ?r = "registry True g"
  define g1 where "g1 = set_registry True (?r\<lparr>fr_capacityRejections := fr_capacityRejections ?r + 1\<rparr>) g"
  have g1: "guard_ok {} rs g1" "lg_attempts g1 = lg_attempts g" using ok by (simp_all add: g1_def)
  let ?i = "auth_fallbackBucketIndexFor h u (length (lg_usernameFailureFallbacks g1))"
  have i: "?i < length (lg_usernameFailureFallbacks g1)" by (rule fallback_index_less [OF guard_okD(1) [OF g1(1)]])
  obtain a g2 where ag: "(case lg_usernameFailureFallbacks g1 ! ?i of
              Some a \<Rightarrow> (a, g1)
            | None \<Rightarrow> (length (lg_heap g1),
                g1\<lparr>lg_heap := lg_heap g1 @ [\<lparr>lf_failureCount = 0, lf_lastFailure = None, lf_lockedUntil = None,
                     lf_inFlightAttempts = 0\<rparr>],
                   lg_usernameFailureFallbacks := (lg_usernameFailureFallbacks g1)[?i := Some (length (lg_heap g1))]\<rparr>)) = (a, g2)"
    by fastforce
  have "guard_ok {} rs g2 \<and> Some a \<in> set (lg_usernameFailureFallbacks g2) \<and> lg_attempts g2 = lg_attempts g1"
  proof (cases "lg_usernameFailureFallbacks g1 ! ?i")
    case None
    then show ?thesis using ag fallback_alloc_ok [OF g1(1) i None] i by (auto intro: set_update_memI)
  next
    case (Some b)
    then show ?thesis using ag g1 nth_mem [OF i] by auto
  qed
  then have g2: "guard_ok {} rs g2" "Some a \<in> set (lg_usernameFailureFallbacks g2)" "lg_attempts g2 = lg_attempts g" using g1 by auto
  let ?g3 = "g2\<lparr>lg_usernameFailureFallbackAttempts := lg_usernameFailureFallbackAttempts g2 + 1\<rparr>"
  let ?s = "\<lparr>lr_key = [], lr_entry = a, lr_username = True, lr_fallback = True\<rparr>"
  obtain d g4 where res: "reserveExistingFailureEntryLocked a now ?g3 = (d, g4)" by fastforce
  have eq: "username_fallback h u now g = (if 0 < d
      then (Inl d, g4\<lparr>lg_usernameFailureFallbackRejections := lg_usernameFailureFallbackRejections g4 + 1\<rparr>) else (Inr ?s, g4))"
    unfolding username_fallback_def Let_def guard_registries g1_def [symmetric] ag by (simp add: res)
  have g3: "guard_ok {} rs ?g3" using g2 by simp
  have "reservation_ok ?g3 ?s" using g2 by (simp add: reservation_ok_def)
  note r = reserveExisting_ok [OF g3 this _ res, simplified]
  show "reserved_ok rs (username_fallback h u now g)"
    using r(1-3) g3 by (cases "0 < d") (auto simp: eq reserved_ok_def)
  show "lg_attempts (snd (username_fallback h u now g)) = lg_attempts g" using r(4) g2(3) by (simp add: eq)
qed

lemma reserveUsername_ok:
  assumes ok: "guard_ok {} rs g"
  shows "reserved_ok rs (reserveUsernameFailureLocked h u now g)"
    and "lg_attempts (snd (reserveUsernameFailureLocked h u now g)) = lg_attempts g"
proof -
  let ?full = "\<lambda>g. fr_maximumEntries (registry True g) \<le> int (length (fr_entries (registry True g)))"
  define g1 where "g1 = (if ?full g \<and> expiry_due now (registry True g) then cleanupUsernameFailuresLocked now g else g)"
  have g1: "guard_ok {} rs g1" "lg_attempts g1 = lg_attempts g" using ok cleanup_username_ok by (simp_all add: g1_def)
  have new: "lookup (fr_entries (registry True g1)) u = None" if "lookup (fr_entries (registry True g)) u = None"
    using that by (simp add: g1_def cleanup_lookup_None)
  show "reserved_ok rs (reserveUsernameFailureLocked h u now g)"
  proof (cases "lookup (fr_entries (registry True g)) u")
    case (Some a)
    then show ?thesis using reserve_registered_ok [OF ok Some] by (simp add: reserveUsernameFailureLocked_def guard_registries)
  next
    case None
    then show ?thesis using admit_entry_ok [OF g1(1) new [OF None]] username_fallback_ok(1) [OF g1(1)]
      by (simp add: reserveUsernameFailureLocked_def guard_registries g1_def [symmetric] Let_def not_le)
        (simp add: reserved_ok_def)
  qed
  show "lg_attempts (snd (reserveUsernameFailureLocked h u now g)) = lg_attempts g"
    using g1(2) username_fallback_ok(2) [OF g1(1)]
    by (auto simp: reserveUsernameFailureLocked_def guard_registries g1_def [symmetric] Let_def admit_entry_def
        split: option.split prod.split dest: reserveExisting_attempts)
qed

section \<open>Attempts\<close>

definition live_of :: "loginAttempt \<Rightarrow> loginFailureReservation list" where
  "live_of t = (if la_completed t then [] else [la_sourceReservation t, la_usernameReservation t])"

definition live :: "loginGuard \<Rightarrow> loginFailureReservation list" where
  "live g = concat (map live_of (lg_attempts g))"

definition guard_inv :: "loginGuard \<Rightarrow> bool" where
  "guard_inv g \<longleftrightarrow> guard_ok {} (live g) g"

lemma begin_attempt_ok:
  assumes inv: "guard_inv g"
  obtains r g' where "begin_attempt h key u now g = Inr (r, g')" "guard_inv g'"
    "case r of Inl d \<Rightarrow> 0 < d \<and> lg_attempts g' = lg_attempts g
     | Inr n \<Rightarrow> n = length (lg_attempts g) \<and> (\<exists>t. lg_attempts g' = lg_attempts g @ [t] \<and> \<not> la_completed t)"
proof -
  have ok: "guard_ok {} (live g) g" using inv by (simp add: guard_inv_def)
  obtain x1 g1 where s: "reserveSourceFailureLocked key now g = (x1, g1)" by fastforce
  note s_ok = reserveSource_ok [OF ok, of key now, unfolded s snd_conv]
  show ?thesis
  proof (cases x1)
    case (Inl d)
    then show ?thesis using s s_ok that by (simp add: begin_attempt_def reserved_ok_def guard_inv_def live_def)
  next
    case (Inr r1)
    then have g1: "guard_ok {} (r1 # live g) g1" using s_ok by (simp add: reserved_ok_def)
    obtain x2 g2 where n: "reserveUsernameFailureLocked h u now g1 = (x2, g2)" by fastforce
    note n_ok = reserveUsername_ok [OF g1, of h u now, unfolded n snd_conv]
    show ?thesis
    proof (cases x2)
      case (Inl d)
      then have g2: "guard_ok {} (r1 # live g) g2" "0 < d" using n_ok by (simp_all add: reserved_ok_def)
      obtain g3 where "completeFailureReservationLocked r1 loginAttemptAbandoned now g2 = Inr g3"
        "guard_ok {} (live g) g3" "lg_attempts g3 = lg_attempts g2"
        using complete_reservation_ok [OF g2(1)] .
      then show ?thesis using that s n Inr Inl g2 s_ok n_ok by (simp add: begin_attempt_def guard_inv_def live_def)
    next
      case (Inr r2)
      let ?t = "\<lparr>la_sourceReservation = r1, la_usernameReservation = r2, la_completed = False\<rparr>"
      have g2: "guard_ok {} (r2 # r1 # live g) g2" using n_ok Inr by (simp add: reserved_ok_def)
      have "mset (r2 # r1 # live g) = mset (live (g2\<lparr>lg_attempts := lg_attempts g2 @ [?t]\<rparr>))"
        using s_ok(2) n_ok(2) by (simp add: live_def live_of_def)
      from g2 [unfolded guard_ok_perm [OF this]] show ?thesis using that s n Inr \<open>x1 = Inr r1\<close> s_ok(2) n_ok(2)
        by (simp add: begin_attempt_def guard_inv_def)
    qed
  qed
qed

lemma attempt_reservations:
  assumes inv: "guard_inv g" and n: "n < length (lg_attempts g)" and t: "t = lg_attempts g ! n" "\<not> la_completed t"
    and g': "g' = g\<lparr>lg_attempts := (lg_attempts g)[n := t\<lparr>la_completed := True\<rparr>]\<rparr>"
  shows "guard_ok {} (la_sourceReservation t # la_usernameReservation t # live g') g'"
proof -
  have split: "mset (concat (map live_of ts)) = mset ([la_sourceReservation (ts ! n), la_usernameReservation (ts ! n)] @
      concat (map live_of (ts[n := (ts ! n)\<lparr>la_completed := True\<rparr>])))"
    if "n < length ts" "\<not> la_completed (ts ! n)" for ts n
    using that by (induction ts arbitrary: n) (auto simp: live_of_def nth_Cons split: nat.splits)
  have "mset (live g) = mset (la_sourceReservation t # la_usernameReservation t # live g')"
    using split [OF n] t by (simp add: live_def g')
  from inv [unfolded guard_inv_def guard_ok_perm [OF this]] show ?thesis by (simp add: g')
qed

lemma complete_attempt_ok:
  assumes inv: "guard_inv g" and n: "n < length (lg_attempts g)"
  obtains g' where "complete_attempt n outcome now g = Inr g'" "guard_inv g'"
    "lg_attempts g' = (lg_attempts g)[n := (lg_attempts g ! n)\<lparr>la_completed := True\<rparr>]"
proof (cases "la_completed (lg_attempts g ! n)")
  case True
  then have "(lg_attempts g ! n)\<lparr>la_completed := True\<rparr> = lg_attempts g ! n" by simp
  then have same: "(lg_attempts g)[n := (lg_attempts g ! n)\<lparr>la_completed := True\<rparr>] = lg_attempts g" by (metis list_update_id)
  show ?thesis by (rule that [of g]) (use True inv same in \<open>simp_all add: complete_attempt_def\<close>)
next
  case False
  define t where "t = lg_attempts g ! n"
  let ?g = "g\<lparr>lg_attempts := (lg_attempts g)[n := t\<lparr>la_completed := True\<rparr>]\<rparr>"
  have "guard_ok {} (la_sourceReservation t # la_usernameReservation t # live ?g) ?g"
    by (rule attempt_reservations [OF inv n]) (use False in \<open>simp_all add: t_def\<close>)
  then obtain g1 where g1: "completeFailureReservationLocked (la_sourceReservation t) outcome now ?g = Inr g1"
    "guard_ok {} (la_usernameReservation t # live ?g) g1" "lg_attempts g1 = lg_attempts ?g" using complete_reservation_ok by blast
  then obtain g2 where g2: "completeFailureReservationLocked (la_usernameReservation t) outcome now g1 = Inr g2"
    "guard_ok {} (live ?g) g2" "lg_attempts g2 = lg_attempts g1" using complete_reservation_ok by blast
  have "live g2 = live ?g" using g1(3) g2(3) by (simp add: live_def)
  then show ?thesis using that g1 g2 False by (simp add: complete_attempt_def t_def [symmetric] guard_inv_def)
qed

text \<open>
  A failed attempt: the entry counts one failure more, from one if its window is over, and stays
  registered; the other entries are untouched.
\<close>

lemma complete_failed:
  assumes ok: "guard_ok {} (r # rs) g" and c: "completeFailureReservationLocked r loginAttemptFailed now g = Inr g'"
  shows "lg_heap g' = (lg_heap g)[lr_entry r := (let e = lg_heap g ! lr_entry r; n = failures_after now g e in
      \<lparr>lf_failureCount = n, lf_lastFailure = Some now,
       lf_lockedUntil = (if lg_loginFailureThreshold g \<le> n then Some (now + lockout g n) else None),
       lf_inFlightAttempts = lf_inFlightAttempts e - 1\<rparr>)]"
    and "fr_entries (registry u g') = fr_entries (registry u g)"
    and "lg_usernameFailureFallbacks g' = lg_usernameFailureFallbacks g"
    and "failures_after now g' = failures_after now g" "lockout g' = lockout g"
    "lg_loginFailureThreshold g' = lg_loginFailureThreshold g"
proof -
  let ?e = "lg_heap g ! lr_entry r"
  let ?d = "?e\<lparr>lf_inFlightAttempts := lf_inFlightAttempts ?e - 1\<rparr>"
  let ?n = "failures_after now g ?e"
  obtain e' where e': "completed_entry loginAttemptFailed now g ?d = Inr e'" "entry_ok g e'"
    and complete: "completeFailureReservationLocked r loginAttemptFailed now g =
      (if lr_fallback r then Inr (g\<lparr>lg_heap := (lg_heap g)[lr_entry r := e']\<rparr>)
       else if lf_inFlightAttempts e' = 0 \<and> lf_failureCount e' = 0 \<and> \<not> after (lf_lockedUntil e') now
       then Inr (remove_entry (lr_username r) (lr_key r) (g\<lparr>lg_heap := (lg_heap g)[lr_entry r := e']\<rparr>))
       else if lf_inFlightAttempts e' = 0 then Inr (recordFailureExpiryLocked (lr_username r) e' (g\<lparr>lg_heap := (lg_heap g)[lr_entry r := e']\<rparr>))
       else Inr (g\<lparr>lg_heap := (lg_heap g)[lr_entry r := e']\<rparr>))"
    using complete_reservation_entry [OF ok] by metis
  have over: "window_over now g ?d = window_over now g ?e" by (simp add: window_over_def)
  then have same: "failures_after now g ?d = ?n" "window_over now g ?d = window_over now g ?e" by (simp_all add: failures_after_def)
  have r: "reservation_ok g r" using guard_okD(7) [OF ok] by simp
  have "entry_ok g ?e" using guard_okD(5) [OF ok nth_mem [OF guard_okD(4) [OF ok reservation_ok_address [OF r]]]] .
  then have nonneg: "0 \<le> lf_failureCount ?e" and lock: "\<not> lg_loginFailureThreshold g \<le> lf_failureCount ?e \<Longrightarrow> lf_lockedUntil ?e = None"
    by (simp_all add: entry_ok_def)
  have n: "0 < ?n" using nonneg by (simp add: failures_after_def)
  have below: "lf_lockedUntil ?e = None" if "\<not> lg_loginFailureThreshold g \<le> ?n" "\<not> window_over now g ?e"
    by (rule lock) (use that in \<open>simp add: failures_after_def\<close>)
  have e'_eq: "e' = \<lparr>lf_failureCount = ?n, lf_lastFailure = Some now,
     lf_lockedUntil = (if lg_loginFailureThreshold g \<le> ?n then Some (now + lockout g ?n) else None),
     lf_inFlightAttempts = lf_inFlightAttempts ?e - 1\<rparr>"
    using e'(1) below by (auto simp: completed_entry_def failed_entry_eq [OF guard_okD(1) [OF ok]] same)
  have "lf_failureCount e' \<noteq> 0" using n by (simp add: e'_eq)
  then have g': "g' = g\<lparr>lg_heap := (lg_heap g)[lr_entry r := e']\<rparr> \<or>
      g' = recordFailureExpiryLocked (lr_username r) e' (g\<lparr>lg_heap := (lg_heap g)[lr_entry r := e']\<rparr>)"
    using complete c by (auto split: if_splits)
  have fields: "lg_heap g' = (lg_heap g)[lr_entry r := e'] \<and> lg_usernameFailureFallbacks g' = lg_usernameFailureFallbacks g \<and>
      lg_loginFailureWindow g' = lg_loginFailureWindow g \<and> lg_loginFailureThreshold g' = lg_loginFailureThreshold g \<and>
      lg_loginBaseLockout g' = lg_loginBaseLockout g \<and> lg_loginMaxLockout g' = lg_loginMaxLockout g"
    using g' by (auto simp: recordFailureExpiryLocked_def Let_def)
  show "fr_entries (registry u g') = fr_entries (registry u g)"
    using g' by (auto simp: recordFailureExpiryLocked_def Let_def)
  show "lg_heap g' = (lg_heap g)[lr_entry r := (let e = ?e; n = failures_after now g e in
      \<lparr>lf_failureCount = n, lf_lastFailure = Some now,
       lf_lockedUntil = (if lg_loginFailureThreshold g \<le> n then Some (now + lockout g n) else None),
       lf_inFlightAttempts = lf_inFlightAttempts e - 1\<rparr>)]"
    using fields by (simp add: e'_eq Let_def)
  show "lg_usernameFailureFallbacks g' = lg_usernameFailureFallbacks g" "failures_after now g' = failures_after now g"
    "lockout g' = lockout g" "lg_loginFailureThreshold g' = lg_loginFailureThreshold g"
    using fields by (auto simp: failures_after_def window_over_def lockout_def fun_eq_iff)
qed

text \<open>Which entries an attempt holds.\<close>

lemma reserveSource_kind:
  "reserveSourceFailureLocked key now g = (Inr r, g') \<Longrightarrow> lr_key r = key \<and> \<not> lr_username r \<and> \<not> lr_fallback r"
  by (auto simp: reserveSourceFailureLocked_def Let_def split: option.splits prod.splits if_splits)

lemma reserveUsername_kind:
  "reserveUsernameFailureLocked h u now g = (Inr r, g') \<Longrightarrow> lr_username r"
  by (auto simp: reserveUsernameFailureLocked_def username_fallback_def Let_def split: option.splits prod.splits if_splits)

definition attempt_ok :: "loginAttempt \<Rightarrow> bool" where
  "attempt_ok t \<longleftrightarrow> \<not> lr_username (la_sourceReservation t) \<and> \<not> lr_fallback (la_sourceReservation t) \<and>
     lr_username (la_usernameReservation t)"

lemma begin_attempt_kind:
  assumes "begin_attempt h key u now g = Inr (Inr n, g')"
  shows "attempt_ok (last (lg_attempts g'))"
  using assms by (auto simp: begin_attempt_def attempt_ok_def map_sum_eq_Inr split: prod.splits sum.splits
      dest: reserveSource_kind reserveUsername_kind)

lemma attempt_entries_distinct:
  assumes ok: "guard_ok X rs g" and r: "reservation_ok g r" "\<not> lr_username r" "\<not> lr_fallback r"
    and s: "reservation_ok g s" "lr_username s"
  shows "lr_entry r \<noteq> lr_entry s"
proof -
  have "snd ` set (fr_entries (registry False g)) \<inter>
      (snd ` set (fr_entries (registry True g)) \<union> set (List.map_filter id (lg_usernameFailureFallbacks g))) = {}"
    using guard_okD(3) [OF ok] by (auto simp: addresses_def)
  moreover have "lr_entry r \<in> snd ` set (fr_entries (registry False g))" using r by (force simp: reservation_ok_def)
  moreover have "lr_entry s \<in> snd ` set (fr_entries (registry True g)) \<union> set (List.map_filter id (lg_usernameFailureFallbacks g))"
    using s by (cases "lr_fallback s") (force simp: reservation_ok_def List.map_filter_def)+
  ultimately show ?thesis by (metis disjoint_iff)
qed

text \<open>An entry that is locked refuses, whichever of the two registries holds it.\<close>

lemma reserveExisting_locked:
  "after (lf_lockedUntil (lg_heap g ! a)) now \<Longrightarrow>
     reserveExistingFailureEntryLocked a now g = (the (lf_lockedUntil (lg_heap g ! a)) - now, g)"
  by (simp add: reserveExistingFailureEntryLocked_def)

lemma after_pos: "after x now \<Longrightarrow> 0 < the x - now"
  by (cases x) simp_all

lemma reserveSource_keeps:
  assumes ok: "guard_ok {} rs g" and res: "reserveSourceFailureLocked key now g = (x, g')"
    and k: "(u, a) \<in> set (fr_entries (registry True g))"
  shows "registry True g' = registry True g \<and> lg_heap g' ! a = lg_heap g ! a"
proof (cases "lookup (fr_entries (lg_failures g)) key")
  case (Some b)
  then have "(key, b) \<in> set (fr_entries (registry False g))" by (simp add: map_of_SomeD registry_def)
  then have "b \<noteq> a" using address_unique [OF guard_okD(3) [OF ok] k] by auto
  then show ?thesis using res Some
    by (auto simp: reserveSourceFailureLocked_def reserveExistingFailureEntryLocked_def Let_def split: if_splits)
next
  case None
  define g1 where "g1 = (if fr_maximumEntries (lg_failures g) \<le> int (length (fr_entries (lg_failures g))) \<and> expiry_due now (lg_failures g)
    then cleanupLoginFailuresLocked now g else g)"
  have g1: "registry True g1 = registry True g" "lg_heap g1 = lg_heap g" by (simp_all add: g1_def cleanupLoginFailuresLocked_def registry_def)
  have "g' = g1\<lparr>lg_failures := (lg_failures g1)\<lparr>fr_capacityRejections := fr_capacityRejections (lg_failures g1) + 1\<rparr>\<rparr> \<or>
      g' = admit_entry False key g1"
    using res None by (auto simp: reserveSourceFailureLocked_def g1_def [symmetric] Let_def split: if_splits)
  moreover have "a < length (lg_heap g)" using guard_okD(4) [OF ok in_addresses(1) [OF k]] .
  ultimately show ?thesis using g1 by (auto simp: admit_entry_def Let_def guard_registries nth_append)
qed

lemma begin_attempt_locked:
  assumes inv: "guard_inv g" and k: "(if u then name else key, a) \<in> set (fr_entries (registry u g))"
    and locked: "after (lf_lockedUntil (lg_heap g ! a)) now"
  obtains d g' where "begin_attempt h key name now g = Inr (Inl d, g')" "0 < d" "guard_inv g'" "lg_attempts g' = lg_attempts g"
    "\<not> u \<Longrightarrow> d = the (lf_lockedUntil (lg_heap g ! a)) - now"
proof -
  have ok: "guard_ok {} (live g) g" using inv by (simp add: guard_inv_def)
  obtain x g' where b: "begin_attempt h key name now g = Inr (x, g')" "guard_inv g'"
    "case x of Inl d \<Rightarrow> 0 < d \<and> lg_attempts g' = lg_attempts g
     | Inr n \<Rightarrow> n = length (lg_attempts g) \<and> (\<exists>t. lg_attempts g' = lg_attempts g @ [t] \<and> \<not> la_completed t)"
    using begin_attempt_ok [OF inv] .
  have found: "lookup (fr_entries (registry u g)) (if u then name else key) = Some a"
    using guard_okD(2) [OF ok, of u] k by (simp add: registry_ok_def lookup_Some_iff)
  have "\<exists>d. x = Inl d \<and> (\<not> u \<longrightarrow> d = the (lf_lockedUntil (lg_heap g ! a)) - now)"
  proof (cases u)
    case False
    then show ?thesis using b(1) found locked after_pos [OF locked]
      by (auto simp: begin_attempt_def reserveSourceFailureLocked_def guard_registries reserveExisting_locked)
  next
    case True
    obtain y g1 where s: "reserveSourceFailureLocked key now g = (y, g1)" by fastforce
    from reserveSource_keeps [OF ok s] k True
    have keeps: "registry True g1 = registry True g" "lg_heap g1 ! a = lg_heap g ! a" by auto
    have "reserveUsernameFailureLocked h name now g1 = (Inl (the (lf_lockedUntil (lg_heap g ! a)) - now), g1)"
      using found True keeps locked after_pos [OF locked]
      by (simp add: reserveUsernameFailureLocked_def guard_registries reserveExisting_locked)
    then show ?thesis using b(1) s True by (cases y) (auto simp: begin_attempt_def map_sum_eq_Inr)
  qed
  then show ?thesis using b that by auto
qed

text \<open>The entry of a reservation after a failed attempt.\<close>

definition after_failure :: "time \<Rightarrow> loginGuard \<Rightarrow> loginFailureEntry \<Rightarrow> loginFailureEntry" where
  "after_failure now g e = (let n = failures_after now g e in
     \<lparr>lf_failureCount = n, lf_lastFailure = Some now,
      lf_lockedUntil = (if lg_loginFailureThreshold g \<le> n then Some (now + lockout g n) else None),
      lf_inFlightAttempts = lf_inFlightAttempts e - 1\<rparr>)"

lemma complete_attempt_failed:
  assumes inv: "guard_inv g" and kind: "attempt_ok t" and n: "n < length (lg_attempts g)" and t: "t = lg_attempts g ! n" "\<not> la_completed t"
    and c: "complete_attempt n loginAttemptFailed now g = Inr g'" and r: "r = la_sourceReservation t \<or> r = la_usernameReservation t"
  shows "lg_heap g' ! lr_entry r = after_failure now g (lg_heap g ! lr_entry r) \<and> reservation_ok g' r"
proof -
  let ?g = "g\<lparr>lg_attempts := (lg_attempts g)[n := t\<lparr>la_completed := True\<rparr>]\<rparr>"
  let ?s = "la_sourceReservation t" and ?u = "la_usernameReservation t"
  have ok: "guard_ok {} (?s # ?u # live ?g) ?g" by (rule attempt_reservations [OF inv n t]) simp
  obtain g1 where g1: "completeFailureReservationLocked ?s loginAttemptFailed now ?g = Inr g1"
    "guard_ok {} (?u # live ?g) g1" "lg_attempts g1 = lg_attempts ?g" using complete_reservation_ok [OF ok] by blast
  have g2: "completeFailureReservationLocked ?u loginAttemptFailed now g1 = Inr g'"
    using c t g1(1) by (simp add: complete_attempt_def)
  have res: "reservation_ok g ?s" "reservation_ok g ?u" using guard_okD(7) [OF ok, of ?s] guard_okD(7) [OF ok, of ?u]
    by (simp_all add: reservation_ok_def split: if_splits)
  have ok_g: "guard_ok {} (live g) g" using inv by (simp add: guard_inv_def)
  have ne: "lr_entry ?s \<noteq> lr_entry ?u"
    using attempt_entries_distinct [OF ok_g res(1) _ _ res(2)] kind by (simp add: attempt_ok_def)
  have len: "lr_entry ?s < length (lg_heap g)" "lr_entry ?u < length (lg_heap g)"
    using guard_okD(4) [OF ok_g reservation_ok_address] res by blast+
  note s1 = complete_failed [OF ok g1(1)] and s2 = complete_failed [OF g1(2) g2]
  have same: "failures_after now ?g = failures_after now g" "lockout ?g = lockout g"
    by (auto simp: failures_after_def window_over_def lockout_def fun_eq_iff)
  have "lg_heap g' = (lg_heap g)[lr_entry ?s := after_failure now g (lg_heap g ! lr_entry ?s),
      lr_entry ?u := after_failure now g (lg_heap g ! lr_entry ?u)]"
    using s1 s2 ne len by (simp add: after_failure_def Let_def same)
  moreover have "reservation_ok g' x = reservation_ok g x" for x using s1 s2 by (simp add: reservation_ok_def)
  ultimately show ?thesis using r res ne len by auto
qed

end
