(* ===== verification/Panel_Http.thy ===== *)
theory Panel_Http
  imports Client_IP
begin

text \<open>
  What the panel handlers share: the JSON error answers of \<open>internal/panel/http_json.go\<close>, the retry header,
  and \<open>strconv\<close> and \<open>netip.Addr.String\<close> of the standard library, as far as the panel uses them.
\<close>

section \<open>Trimming\<close>

text \<open>A byte that occurs in no white space encoding survives trimming.\<close>

lemma strip_one_keeps:
  "strip_one ps s = Some r \<Longrightarrow> c \<in> set s \<Longrightarrow> (\<And>p. p \<in> set ps \<Longrightarrow> c \<notin> set p) \<Longrightarrow> c \<in> set r"
  by (induction ps) (auto simp: starts_with_iff split: if_splits)

lemma strip_all_keeps: "c \<in> set s \<Longrightarrow> (\<And>p. p \<in> set ps \<Longrightarrow> c \<notin> set p) \<Longrightarrow> c \<in> set (strip_all ps s)"
proof (induction ps s rule: strip_all.induct)
  case (1 ps s)
  then show ?case using strip_one_keeps [of ps s _ c] by (subst strip_all.simps) (auto split: option.split)
qed

lemma TrimSpace_nonempty:
  assumes "c \<in> set s" "c \<notin> \<Union> (set ` set space_encodings)"
  shows "TrimSpace s \<noteq> []"
proof -
  have "c \<in> set (strip_all space_encodings s)" by (rule strip_all_keeps) (use assms in auto)
  then have "c \<in> set (strip_all (map rev space_encodings) (rev (strip_all space_encodings s)))"
    by (intro strip_all_keeps) (use assms(2) in auto)
  then show ?thesis by (auto simp: TrimSpace_def)
qed

section \<open>Decimal numbers\<close>

fun decimal :: "nat \<Rightarrow> string" where
  "decimal n = (if n < 10 then [char_of (48 + int n)] else decimal (n div 10) @ [char_of (48 + int (n mod 10))])"

declare decimal.simps [simp del]

definition Itoa :: "int \<Rightarrow> string" where
  "Itoa i = (if i < 0 then CHR ''-'' # decimal (nat (- i)) else decimal (nat i))"

text \<open>\<open>ParseUint\<close> and \<open>ParseInt\<close> in base 10 for 64 bits: no sign but a leading one for the latter, no underscores.\<close>

definition ParseUint :: "string \<Rightarrow> int option" where
  "ParseUint s = (if s \<noteq> [] \<and> list_all is_digit s \<and> dec_number s < 2 ^ 64 then Some (dec_number s) else None)"

definition ParseInt :: "string \<Rightarrow> int option" where
  "ParseInt s =
     (let (neg, ds) = (case s of c # r \<Rightarrow> if c = CHR ''-'' then (True, r) else if c = CHR ''+'' then (False, r) else (False, s)
          | [] \<Rightarrow> (False, s))
      in case ParseUint ds of
           None \<Rightarrow> None
         | Some n \<Rightarrow> if \<not> neg \<and> 2 ^ 63 \<le> n \<or> neg \<and> 2 ^ 63 < n then None else Some (if neg then - n else n))"

lemma digit_char_props:
  assumes "d < 10"
  shows "is_digit (char_of (48 + int d))" "digit_val (char_of (48 + int d)) = d"
  using assms by (simp_all add: is_digit_def digit_val_def Let_def)

lemma dec_number_append: "dec_number (s @ [c]) = 10 * dec_number s + int (digit_val c)"
  by (simp add: dec_number_def)

lemma decimal_props: "list_all is_digit (decimal n) \<and> decimal n \<noteq> [] \<and> dec_number (decimal n) = int n"
proof (induction n rule: decimal.induct)
  case (1 n)
  show ?case
  proof (cases "n < 10")
    case True
    then show ?thesis using digit_char_props [OF True] by (simp add: decimal.simps [of n] dec_number_def)
  next
    case False
    have "10 * int (n div 10) + int (n mod 10) = int n" by presburger
    then show ?thesis using 1 [OF False] digit_char_props [of "n mod 10"] False
      by (simp add: decimal.simps [of n] dec_number_append del: div_mult_mod_eq)
  qed
qed

lemma decimal_first: "\<exists>c r. decimal n = c # r \<and> is_digit c"
  using decimal_props [of n] by (cases "decimal n") auto

lemma ParseInt_Itoa: "- (2 ^ 63) \<le> i \<Longrightarrow> i < 2 ^ 63 \<Longrightarrow> ParseInt (Itoa i) = Some i"
proof -
  assume i: "- (2 ^ 63) \<le> i" "i < 2 ^ 63"
  obtain c r where c: "decimal (nat i) = c # r" "is_digit c" using decimal_first by blast
  then have "c \<noteq> CHR ''-''" "c \<noteq> CHR ''+''" by (auto simp: is_digit_def)
  then show ?thesis using i decimal_props [of "nat i"] decimal_props [of "nat (- i)"] c
    by (auto simp: ParseInt_def Itoa_def ParseUint_def)
qed

lemma ParseUint_decimal: "int n < 2 ^ 64 \<Longrightarrow> ParseUint (decimal n) = Some (int n)"
  using decimal_props [of n] by (simp add: ParseUint_def)

section \<open>Addresses as text\<close>

fun hex_lower :: "nat \<Rightarrow> string" where
  "hex_lower n = (if n < 16 then [hex_digit (int n)] else hex_lower (n div 16) @ [hex_digit (int (n mod 16))])"

declare hex_lower.simps [simp del]

fun groups16 :: "byte list \<Rightarrow> nat list" where
  "groups16 (a # b # r) = (256 * unat a + unat b) # groups16 r"
| "groups16 _ = []"

text \<open>The first longest run of at least two zero groups, as a start and an end; 255 and 255 when there is none.\<close>

definition zero_run :: "nat list \<Rightarrow> nat \<Rightarrow> nat" where
  "zero_run gs i = i + length (takeWhile (\<lambda>g. g = 0) (drop i gs))"

definition longest_zeros :: "nat list \<Rightarrow> nat \<times> nat" where
  "longest_zeros gs = fold (\<lambda>i (s, e). let j = zero_run gs i
     in if 2 \<le> j - i \<and> e - s < j - i then (i, j) else (s, e)) [0..<8] (255, 255)"

definition string6 :: "byte list \<Rightarrow> string" where
  "string6 bs =
     (let gs = groups16 bs; (s, e) = longest_zeros gs;
          show_groups = (\<lambda>xs. concat (map (\<lambda>(i, g). (if i = 0 then [] else '':'') @ hex_lower g) (zip [0..<length xs] xs)))
      in if s = 255 then show_groups gs else show_groups (take s gs) @ ''::'' @ show_groups (drop e gs))"

definition string4 :: "byte list \<Rightarrow> string" where
  "string4 bs = concat (map (\<lambda>(i, b). (if i = 0 then [] else ''.'') @ decimal (unat b)) (zip [0..<length bs] bs))"

fun Addr_String :: "Addr \<Rightarrow> string" where
  "Addr_String (V4 bs) = string4 bs"
| "Addr_String (V6 bs z) =
     (if Is4In6 (V6 bs z) then ''::ffff:'' @ string4 (drop 12 bs) else string6 bs) @ (if z = [] then [] else ''%'' @ z)"

section \<open>Answers\<close>

record panel_error =
  pe_status :: int
  pe_code :: string
  pe_message :: string
  pe_headers :: "(string \<times> string) list"

datatype 'a answer = Answer int 'a | Failure panel_error

definition defaultErrorCode :: "int \<Rightarrow> string" where
  "defaultErrorCode code =
     (if code = 400 then ''invalid_request'' else if code = 401 then ''unauthorized'' else if code = 403 then ''forbidden''
      else if code = 404 then ''not_found'' else if code = 405 then ''method_not_allowed'' else if code = 409 then ''conflict''
      else if code = 413 then ''payload_too_large'' else if code = 415 then ''unsupported_media_type''
      else if code = 429 then ''rate_limited'' else if code = 502 then ''upstream_error'' else if code = 503 then ''unavailable''
      else if code = 500 then ''internal_error'' else ''request_failed'')"

definition writeCodedError :: "int \<Rightarrow> string \<Rightarrow> string \<Rightarrow> panel_error" where
  "writeCodedError code name text = \<lparr>pe_status = code, pe_code = name, pe_message = text, pe_headers = []\<rparr>"

definition writeError :: "int \<Rightarrow> string \<Rightarrow> panel_error" where
  "writeError code text = writeCodedError code (defaultErrorCode code) text"

text \<open>
  The source rounds up a floating-point number of seconds, which is the exact quotient for every delay
  below 97 days.
\<close>

definition retry_seconds :: "duration \<Rightarrow> int" where
  "retry_seconds retryAfter = (let seconds = - ((- retryAfter) div Second) in if seconds < 1 then 1 else seconds)"

definition writeRetryAfter :: "duration \<Rightarrow> panel_error \<Rightarrow> panel_error" where
  "writeRetryAfter retryAfter e = e\<lparr>pe_headers := pe_headers e @ [(''Retry-After'', Itoa (retry_seconds retryAfter))]\<rparr>"

lemma retry_seconds_covers: "retryAfter \<le> retry_seconds retryAfter * Second \<and> 1 \<le> retry_seconds retryAfter"
proof -
  define q where "q = (- retryAfter) div Second"
  have "0 < Second" by (simp add: Second_def)
  then have "q * Second \<le> - retryAfter"
    unfolding q_def by (metis div_mult_mod_eq add_increasing2 dual_order.refl pos_mod_sign)
  then have "retryAfter \<le> (- q) * Second" by simp
  moreover have "(- q) * Second \<le> 1 * Second" if "- q < 1" using that \<open>0 < Second\<close> by (intro mult_right_mono) auto
  ultimately show ?thesis by (auto simp: retry_seconds_def q_def [symmetric] Let_def)
qed

definition writeClientIPResolutionError :: "client_ip_error \<Rightarrow> panel_error" where
  "writeClientIPResolutionError err =
     (if err = ErrUntrustedClientIPPeer then writeError 403 ''untrusted client IP peer''
      else writeError 400 ''invalid client IP identity'')"

end
