(* ===== verification/Registration_Proof.thy ===== *)
theory Registration_Proof
  imports Keycrypt Panel_Http
begin

text \<open>
  The proof-of-work challenges of registration, \<open>internal/panel/registration_pow.go\<close>. Byte strings are
  \<open>string\<close>s. HMAC-SHA256 and SHA-256 are the parameters \<open>hmac\<close> and \<open>sha\<close>; what \<open>rand.Read\<close> filled in is an
  argument, \<open>None\<close> when it failed.
\<close>

section \<open>Text\<close>

text \<open>\<open>strings.Split\<close> and \<open>strings.Join\<close> with a one-byte separator, and the URL alphabet of base64.\<close>

fun Split :: "char \<Rightarrow> string \<Rightarrow> string list" where
  "Split c [] = [[]]"
| "Split c (x # s) = (if x = c then [] # Split c s else (case Split c s of p # ps \<Rightarrow> (x # p) # ps | [] \<Rightarrow> [[x]]))"

fun Join :: "char \<Rightarrow> string list \<Rightarrow> string" where
  "Join c [] = []"
| "Join c [p] = p"
| "Join c (p # q # ps) = p @ c # Join c (q # ps)"

definition b64url_char :: "int \<Rightarrow> char" where
  "b64url_char n = (if n = 62 then CHR ''-'' else if n = 63 then CHR ''_'' else b64_char n)"

definition b64url_val :: "char \<Rightarrow> int option" where
  "b64url_val c = (if c = CHR ''-'' then Some 62 else if c = CHR ''_'' then Some 63
     else if c = CHR ''+'' \<or> c = CHR ''/'' then None else b64_val c)"

definition RawURLEncoding_Encode :: "string \<Rightarrow> string" where
  "RawURLEncoding_Encode s = map b64url_char (b64_sextets s)"

definition RawURLEncoding_Decode :: "string \<Rightarrow> string option" where
  "RawURLEncoding_Decode s =
     (let cs = filter (\<lambda>c. c \<noteq> CHR 0x0A \<and> c \<noteq> CHR 0x0D) s;
          vs = map b64url_val cs
      in if None \<in> set vs then None else b64_quads (map the vs))"

lemma b64url_char_val:
  assumes "0 \<le> n" "n < 64"
  shows "b64url_val (b64url_char n) = Some n" "b64url_char n \<noteq> CHR 0x0A" "b64url_char n \<noteq> CHR 0x0D" "b64url_char n \<noteq> CHR ''.''"
proof -
  have "n \<in> set [0..63]" using assms by simp
  moreover have "\<forall>n \<in> set [0..63]. b64url_val (b64url_char n) = Some n \<and> b64url_char n \<noteq> CHR 0x0A \<and>
      b64url_char n \<noteq> CHR 0x0D \<and> b64url_char n \<noteq> CHR ''.''" by code_simp
  ultimately show "b64url_val (b64url_char n) = Some n" "b64url_char n \<noteq> CHR 0x0A" "b64url_char n \<noteq> CHR 0x0D"
    "b64url_char n \<noteq> CHR ''.''" by blast+
qed

lemma base64url_roundtrip: "RawURLEncoding_Decode (RawURLEncoding_Encode s) = Some s"
proof -
  have f: "filter (\<lambda>c. c \<noteq> CHR 0x0A \<and> c \<noteq> CHR 0x0D) (map b64url_char ns) = map b64url_char ns"
    and v: "map b64url_val (map b64url_char ns) = map Some ns" if "\<forall>n \<in> set ns. 0 \<le> n \<and> n < 64" for ns
    using that b64url_char_val by (auto simp: filter_id_conv)
  note r = b64_sextets_range [of s]
  show ?thesis
    unfolding RawURLEncoding_Decode_def RawURLEncoding_Encode_def Let_def f [OF r] v [OF r]
    using b64_quads_sextets [of s] by (simp add: comp_def)
qed

lemma base64url_no_dot: "CHR ''.'' \<notin> set (RawURLEncoding_Encode s)"
  using b64_sextets_range [of s] b64url_char_val(4) by (auto simp: RawURLEncoding_Encode_def) force

lemma Split_nonempty [simp]: "Split c s \<noteq> []"
  by (induction s) (auto split: list.splits)

lemma Split_no_sep: "c \<notin> set s \<Longrightarrow> Split c s = [s]"
  by (induction s) auto

lemma Split_append: "c \<notin> set p \<Longrightarrow> Split c (p @ c # s) = p # Split c s"
  by (induction p) auto

lemma Split_Join: "ps \<noteq> [] \<Longrightarrow> (\<And>p. p \<in> set ps \<Longrightarrow> c \<notin> set p) \<Longrightarrow> Split c (Join c ps) = ps"
  by (induction c ps rule: Join.induct) (auto simp: Split_no_sep Split_append)

lemma Split_parts: "p \<in> set (Split c s) \<Longrightarrow> c \<notin> set p"
  by (induction s arbitrary: p) (auto split: list.splits if_splits)

section \<open>State\<close>

datatype registrationProofError = errRegistrationProofRequired | errRegistrationProofInvalid
  | errRegistrationProofExpired | errRegistrationProofReplayed | errRegistrationProofCapacity

record RegistrationProof =
  pf_Challenge :: string
  pf_Nonce :: string

record registrationProofChallenge =
  ch_ExpiresAt :: time
  ch_DifficultyBits :: int

record registrationProofState =
  rp_secret :: string
  rp_difficultyBits :: int
  rp_validity :: duration
  rp_maxUsedChallenges :: int
  rp_usedChallenges :: "(string, time) gomap"
  rp_lastProofCleanupAt :: time
  rp_saturationLogged :: bool

record RegistrationChallengeResponse =
  cr_Challenge :: string
  cr_Difficulty :: int
  cr_ExpiresAt :: time

definition defaultRegistrationProofDifficultyBits :: int where "defaultRegistrationProofDifficultyBits = 20"
definition defaultRegistrationProofValidity :: duration where "defaultRegistrationProofValidity = 5 * Minute"
definition defaultRegistrationProofMaxUsedChallenges :: int where "defaultRegistrationProofMaxUsedChallenges = 4096"
definition registrationProofVersion :: string where "registrationProofVersion = ''v1''"
definition maxRegistrationProofNonceDigits :: nat where "maxRegistrationProofNonceDigits = 20"
definition registrationProofPrefix :: string where "registrationProofPrefix = ''grok-registration-pow-v1'' @ [CHR 0x00]"

definition newRegistrationProofState ::
  "int \<Rightarrow> duration \<Rightarrow> int \<Rightarrow> time \<Rightarrow> string option \<Rightarrow> panic + registrationProofState" where
  "newRegistrationProofState difficultyBits0 validity0 maxUsedChallenges0 now secretBytes =
     (let d = (if difficultyBits0 \<le> 0 then defaultRegistrationProofDifficultyBits else difficultyBits0);
          difficultyBits = (if 32 < d then 32 else d);
          validity = (if validity0 \<le> 0 then defaultRegistrationProofValidity else validity0);
          maxUsedChallenges = (if maxUsedChallenges0 \<le> 0 then defaultRegistrationProofMaxUsedChallenges else maxUsedChallenges0)
      in case secretBytes of
           None \<Rightarrow> Inl (ExplicitPanic ''generate registration proof secret'')
         | Some secret \<Rightarrow> Inr \<lparr>rp_secret = secret, rp_difficultyBits = difficultyBits, rp_validity = validity,
             rp_maxUsedChallenges = maxUsedChallenges, rp_usedChallenges = [], rp_lastProofCleanupAt = now,
             rp_saturationLogged = False\<rparr>)"

section \<open>Issuing and verifying\<close>

definition unix :: "time \<Rightarrow> int" where
  "unix t = t div Second"

definition sign :: "(string \<Rightarrow> string \<Rightarrow> string) \<Rightarrow> string \<Rightarrow> registrationProofState \<Rightarrow> string" where
  "sign hmac payload p = hmac (rp_secret p) payload"

definition issue ::
  "(string \<Rightarrow> string \<Rightarrow> string) \<Rightarrow> time \<Rightarrow> string option \<Rightarrow> registrationProofState \<Rightarrow> string + RegistrationChallengeResponse" where
  "issue hmac now randomBytes p =
     (case randomBytes of
        None \<Rightarrow> Inl ''generate registration challenge''
      | Some randomChallenge \<Rightarrow>
          let expiresAt = now + rp_validity p;
              payload = Join (CHR ''.'') [registrationProofVersion, Itoa (unix expiresAt), Itoa (rp_difficultyBits p),
                RawURLEncoding_Encode randomChallenge];
              signature = sign hmac payload p
          in Inr \<lparr>cr_Challenge = payload @ ''.'' @ RawURLEncoding_Encode signature, cr_Difficulty = rp_difficultyBits p,
               cr_ExpiresAt = expiresAt\<rparr>)"

definition parseAndVerifyChallenge ::
  "(string \<Rightarrow> string \<Rightarrow> string) \<Rightarrow> string \<Rightarrow> registrationProofState \<Rightarrow> (registrationProofChallenge \<times> string) option" where
  "parseAndVerifyChallenge hmac token p =
     (let parts = Split (CHR ''.'') token
      in if length parts \<noteq> 5 \<or> parts ! 0 \<noteq> registrationProofVersion then None
         else case ParseInt (parts ! 1) of
             None \<Rightarrow> None
           | Some expiresUnix \<Rightarrow>
               (case ParseInt (parts ! 2) of
                  None \<Rightarrow> None
                | Some difficultyBits \<Rightarrow>
                    if difficultyBits < 1 \<or> 32 < difficultyBits then None
                    else if RawURLEncoding_Decode (parts ! 3) = None then None
                    else (case RawURLEncoding_Decode (parts ! 4) of
                        None \<Rightarrow> None
                      | Some signature \<Rightarrow>
                          let payload = Join (CHR ''.'') (take 4 parts)
                          in if signature \<noteq> sign hmac payload p then None
                             else Some (\<lparr>ch_ExpiresAt = expiresUnix * Second, ch_DifficultyBits = difficultyBits\<rparr>, payload))))"

definition cleanupUsedChallengesLocked :: "time \<Rightarrow> registrationProofState \<Rightarrow> registrationProofState" where
  "cleanupUsedChallengesLocked now p =
     (let cleanupIntervalElapsed = (Minute \<le> now - rp_lastProofCleanupAt p);
          capacityReached = (rp_maxUsedChallenges p \<le> int (length (rp_usedChallenges p)))
      in if \<not> cleanupIntervalElapsed \<and> \<not> capacityReached then p
         else let kept = filter (\<lambda>q. now < snd q) (rp_usedChallenges p)
           in p\<lparr>rp_lastProofCleanupAt := now, rp_usedChallenges := kept,
                rp_saturationLogged := (if int (length kept) < rp_maxUsedChallenges p then False else rp_saturationLogged p)\<rparr>)"

definition parseRegistrationProofNonce :: "string \<Rightarrow> int option" where
  "parseRegistrationProofNonce rawNonce =
     (let nonce = TrimSpace rawNonce
      in if length nonce = 0 \<or> maxRegistrationProofNonceDigits < length nonce then None
         else if \<not> list_all is_digit nonce then None
         else ParseUint nonce)"

definition big_endian64 :: "int \<Rightarrow> string" where
  "big_endian64 n = map (\<lambda>i. char_of (n div 256 ^ (7 - i))) [0..<8]"

definition calculateRegistrationProofDigest :: "(string \<Rightarrow> string) \<Rightarrow> string \<Rightarrow> string \<Rightarrow> string \<Rightarrow> int \<Rightarrow> string" where
  "calculateRegistrationProofDigest sha challenge username inviteCode nonce =
     sha (registrationProofPrefix @ challenge @ [CHR 0x00] @ username @ [CHR 0x00] @ inviteCode @ [CHR 0x00] @ big_endian64 nonce)"

definition byte_word :: "char \<Rightarrow> 8 word" where
  "byte_word c = word_of_int (byte c)"

definition hasLeadingZeroBits :: "string \<Rightarrow> int \<Rightarrow> bool" where
  "hasLeadingZeroBits digest difficultyBits =
     (let fullZeroBytes = nat (difficultyBits div 8); remainingBits = nat (difficultyBits mod 8)
      in if \<not> list_all (\<lambda>byteIndex. digest ! byteIndex = CHR 0x00) [0..<fullZeroBytes] then False
         else if remainingBits = 0 then True
         else drop_bit (8 - remainingBits) (byte_word (digest ! fullZeroBytes)) = 0)"

definition verifyAndConsume ::
  "(string \<Rightarrow> string) \<Rightarrow> (string \<Rightarrow> string \<Rightarrow> string) \<Rightarrow> time \<Rightarrow> RegistrationProof \<Rightarrow> string \<Rightarrow> string \<Rightarrow>
     registrationProofState \<Rightarrow> registrationProofError option \<times> registrationProofState" where
  "verifyAndConsume sha hmac now prf username inviteCode p =
     (if TrimSpace (pf_Challenge prf) = [] \<or> TrimSpace (pf_Nonce prf) = [] then (Some errRegistrationProofRequired, p)
      else case parseAndVerifyChallenge hmac (pf_Challenge prf) p of
          None \<Rightarrow> (Some errRegistrationProofInvalid, p)
        | Some (challenge, payload) \<Rightarrow>
            if \<not> now < ch_ExpiresAt challenge then (Some errRegistrationProofExpired, p)
            else (case parseRegistrationProofNonce (pf_Nonce prf) of
                None \<Rightarrow> (Some errRegistrationProofInvalid, p)
              | Some nonceValue \<Rightarrow>
                  let digest = calculateRegistrationProofDigest sha (pf_Challenge prf) username inviteCode nonceValue
                  in if \<not> hasLeadingZeroBits digest (ch_DifficultyBits challenge) then (Some errRegistrationProofInvalid, p)
                     else let challengeKey = sha payload; p1 = cleanupUsedChallengesLocked now p
                       in if lookup (rp_usedChallenges p1) challengeKey \<noteq> None then (Some errRegistrationProofReplayed, p1)
                          else if rp_maxUsedChallenges p1 \<le> int (length (rp_usedChallenges p1))
                          then (Some errRegistrationProofCapacity, p1\<lparr>rp_saturationLogged := True\<rparr>)
                          else (None, p1\<lparr>rp_usedChallenges :=
                            AList.update challengeKey (ch_ExpiresAt challenge) (rp_usedChallenges p1)\<rparr>)))"


section \<open>The difficulty test\<close>

text \<open>The bits of the digest, most significant first.\<close>

definition digest_bits :: "string \<Rightarrow> bool list" where
  "digest_bits digest = concat (map (\<lambda>c. map (bit (byte_word c)) (rev [0..<8])) digest)"

lemma digest_bits_simps [simp]:
  "digest_bits [] = []" "digest_bits (c # s) = map (bit (byte_word c)) (rev [0..<8]) @ digest_bits s"
  by (simp_all add: digest_bits_def)

lemma length_digest_bits [simp]: "length (digest_bits s) = 8 * length s"
  by (induction s) simp_all

lemma byte_word_zero: "byte_word c = 0 \<longleftrightarrow> c = CHR 0x00"
proof -
  have "uint (byte_word c) = byte c" using byte_range [of c] by (simp add: byte_word_def uint_word_of_int)
  moreover have "uint (byte_word c) = 0 \<longleftrightarrow> byte_word c = 0" by (metis uint_0_iff)
  moreover have "byte c = 0 \<longleftrightarrow> c = CHR 0x00"
  proof
    have "char_of (0::int) = CHR 0x00" by code_simp
    then show "c = CHR 0x00" if "byte c = 0" using that char_of_byte [of c] by simp
  qed (simp add: byte_def)
  ultimately show ?thesis by simp
qed

lemma top_bits_zero:
  assumes "r \<le> 8"
  shows "drop_bit (8 - r) (w :: 8 word) = 0 \<longleftrightarrow> list_all Not (take r (map (bit w) (rev [0..<8])))"
proof -
  have "take r (rev [0..<8]) = rev [8 - r..<8]" using assms by (simp add: take_rev)
  then have "list_all Not (take r (map (bit w) (rev [0..<8]))) \<longleftrightarrow> (\<forall>i. 8 - r \<le> i \<and> i < 8 \<longrightarrow> \<not> bit w i)"
    by (auto simp: take_map list_all_iff)
  moreover have "drop_bit (8 - r) w = 0 \<longleftrightarrow> (\<forall>i. 8 - r \<le> i \<and> i < 8 \<longrightarrow> \<not> bit w i)"
  proof
    assume "drop_bit (8 - r) w = 0"
    then have "\<not> bit (drop_bit (8 - r) w) j" for j by simp
    then show "\<forall>i. 8 - r \<le> i \<and> i < 8 \<longrightarrow> \<not> bit w i" by (metis bit_drop_bit_eq comp_apply le_add_diff_inverse)
  next
    assume *: "\<forall>i. 8 - r \<le> i \<and> i < 8 \<longrightarrow> \<not> bit w i"
    have "\<not> bit w (8 - r + n)" for n using * bit_imp_le_length [of w "8 - r + n"] by auto
    then show "drop_bit (8 - r) w = 0" by (intro bit_eqI) (simp add: bit_drop_bit_eq)
  qed
  ultimately show ?thesis by simp
qed


lemma leading_bits:
  assumes "r < 8" "n < length s \<or> n = length s \<and> r = 0"
  shows "list_all Not (take (8 * n + r) (digest_bits s)) \<longleftrightarrow> list_all (\<lambda>i. s ! i = CHR 0x00) [0..<n] \<and>
    (r = 0 \<or> drop_bit (8 - r) (byte_word (s ! n)) = 0)"
  using assms
proof (induction n arbitrary: s)
  case 0
  then show ?case
  proof (cases s)
    case (Cons c t)
    then show ?thesis using 0 top_bits_zero [of r "byte_word c"] by auto
  qed simp
next
  case (Suc n)
  then obtain c t where s: "s = c # t" by (cases s) auto
  have zero: "list_all Not (map (bit (byte_word c)) (rev [0..<8])) \<longleftrightarrow> c = CHR 0x00"
    using top_bits_zero [of 8 "byte_word c"] byte_word_zero [of c] by simp
  have "take (8 * Suc n + r) (digest_bits s) = map (bit (byte_word c)) (rev [0..<8]) @ take (8 * n + r) (digest_bits t)"
    unfolding s digest_bits_simps by (subst take_append) simp
  moreover have "list_all Not (take (8 * n + r) (digest_bits t)) \<longleftrightarrow> list_all (\<lambda>i. t ! i = CHR 0x00) [0..<n] \<and>
      (r = 0 \<or> drop_bit (8 - r) (byte_word (t ! n)) = 0)"
    by (rule Suc.IH) (use Suc.prems s in auto)
  moreover have "list_all (\<lambda>i. s ! i = CHR 0x00) [0..<Suc n] \<longleftrightarrow> c = CHR 0x00 \<and> list_all (\<lambda>i. t ! i = CHR 0x00) [0..<n]"
  proof -
    have upto: "list_all P [0..<m] \<longleftrightarrow> (\<forall>i < m. P i)" for P and m :: nat by (auto simp: list_all_iff)
    show ?thesis unfolding upto s All_less_Suc2 by simp
  qed
  ultimately show ?case using zero by (simp add: s list_all_append del: upt_Suc)
qed

lemma div8_bound:
  assumes "0 \<le> d" "d \<le> 8 * int k"
  shows "nat (d div 8) < k \<or> nat (d div 8) = k \<and> nat (d mod 8) = 0"
proof -
  have nr: "nat (d div 8) = nat d div 8" "nat (d mod 8) = nat d mod 8" using assms by (simp_all add: nat_div_distrib nat_mod_distrib)
  have "nat d \<le> 8 * k" using assms by linarith
  moreover have "8 * (nat d div 8) + nat d mod 8 = nat d" by simp
  moreover have "q < k \<or> q = k \<and> r = 0" if "8 * q + r = m" "m \<le> 8 * k" for q r m k :: nat using that by linarith
  ultimately show ?thesis unfolding nr by blast
qed

lemma hasLeadingZeroBits_eq:
  assumes "0 \<le> d" "d \<le> 8 * int (length digest)"
  shows "hasLeadingZeroBits digest d \<longleftrightarrow> list_all Not (take (nat d) (digest_bits digest))"
proof -
  let ?n = "nat (d div 8)" and ?r = "nat (d mod 8)"
  have "nat d = 8 * ?n + ?r" using assms by (simp add: nat_div_distrib nat_mod_distrib)
  moreover have "?r < 8" by simp
  ultimately show ?thesis
    using leading_bits [of ?r ?n digest] div8_bound [OF assms] by (auto simp: hasLeadingZeroBits_def Let_def)
qed

section \<open>Challenges\<close>

text \<open>What a payload says: its expiry and difficulty.\<close>

definition payload_challenge :: "string \<Rightarrow> registrationProofChallenge" where
  "payload_challenge payload = (let parts = Split (CHR ''.'') payload
     in \<lparr>ch_ExpiresAt = the (ParseInt (parts ! 1)) * Second, ch_DifficultyBits = the (ParseInt (parts ! 2))\<rparr>)"

lemma parse_payload:
  assumes "parseAndVerifyChallenge hmac token p = Some (challenge, payload)"
  shows "challenge = payload_challenge payload" "1 \<le> ch_DifficultyBits challenge \<and> ch_DifficultyBits challenge \<le> 32"
    "\<exists>sig. RawURLEncoding_Decode sig = Some (sign hmac payload p) \<and> token = payload @ ''.'' @ sig"
proof -
  let ?parts = "Split (CHR ''.'') token"
  have len: "length ?parts = 5" and payload: "payload = Join (CHR ''.'') (take 4 ?parts)"
    and sig: "RawURLEncoding_Decode (?parts ! 4) = Some (sign hmac payload p)"
    and ch: "ch_ExpiresAt challenge = the (ParseInt (?parts ! 1)) * Second" "ch_DifficultyBits challenge = the (ParseInt (?parts ! 2))"
    and range: "1 \<le> ch_DifficultyBits challenge \<and> ch_DifficultyBits challenge \<le> 32"
    using assms by (auto simp: parseAndVerifyChallenge_def Let_def split: if_splits option.splits)
  have split: "Split (CHR ''.'') payload = take 4 ?parts"
    unfolding payload by (rule Split_Join) (use len Split_parts in \<open>auto dest: in_set_takeD\<close>)
  show "challenge = payload_challenge payload"
    unfolding payload_challenge_def split Let_def using ch by simp
  show "1 \<le> ch_DifficultyBits challenge \<and> ch_DifficultyBits challenge \<le> 32" by (rule range)
  have join: "Join c (Split c s) = s" for c s
  proof (induction s)
    case (Cons x s)
    obtain q qs where q: "Split c s = q # qs" by (cases "Split c s") auto
    have "Join c ((x # q) # qs) = x # Join c (q # qs)" by (cases qs) auto
    then show ?case using Cons q by auto
  qed simp
  have snoc: "Join c (ps @ [q]) = Join c ps @ c # q" if "ps \<noteq> []" for c ps q
    using that by (induction c ps rule: Join.induct) auto
  have "drop 4 ?parts = [?parts ! 4]" using len Cons_nth_drop_Suc [of 4 ?parts] by simp
  then have "?parts = take 4 ?parts @ [?parts ! 4]" by (metis append_take_drop_id)
  moreover have "take 4 ?parts \<noteq> []" using len by auto
  ultimately have "token = payload @ ''.'' @ (?parts ! 4)" using join [of "CHR ''.''" token] snoc payload by (metis append_Cons append_Nil)
  then show "\<exists>sig. RawURLEncoding_Decode sig = Some (sign hmac payload p) \<and> token = payload @ ''.'' @ sig" using sig by blast
qed

lemma Itoa_no_dot: "CHR ''.'' \<notin> set (Itoa i)"
proof -
  have "CHR ''.'' \<notin> set (decimal n)" for n using decimal_props [of n] by (auto simp: list_all_iff is_digit_def)
  then show ?thesis by (auto simp: Itoa_def)
qed

lemma issued_parses:
  assumes "issue hmac now (Some rnd) p = Inr c" and d: "1 \<le> rp_difficultyBits p" "rp_difficultyBits p \<le> 32"
    and t: "- (2 ^ 63) \<le> unix (now + rp_validity p)" "unix (now + rp_validity p) < 2 ^ 63"
  obtains payload where "parseAndVerifyChallenge hmac (cr_Challenge c) p =
    Some (\<lparr>ch_ExpiresAt = unix (cr_ExpiresAt c) * Second, ch_DifficultyBits = cr_Difficulty c\<rparr>, payload)"
proof -
  let ?parts = "[registrationProofVersion, Itoa (unix (now + rp_validity p)), Itoa (rp_difficultyBits p), RawURLEncoding_Encode rnd]"
  let ?payload = "Join (CHR ''.'') ?parts"
  let ?sig = "RawURLEncoding_Encode (sign hmac ?payload p)"
  have "Split (CHR ''.'') (Join (CHR ''.'') (?parts @ [?sig])) = ?parts @ [?sig]"
    by (rule Split_Join) (auto simp: registrationProofVersion_def Itoa_no_dot base64url_no_dot)
  then have split: "Split (CHR ''.'') (cr_Challenge c) = ?parts @ [?sig]" using assms(1) by (auto simp: issue_def Let_def)
  have "ParseInt (Itoa (unix (now + rp_validity p))) = Some (unix (now + rp_validity p))"
    "ParseInt (Itoa (rp_difficultyBits p)) = Some (rp_difficultyBits p)"
    using t d by (auto intro!: ParseInt_Itoa)
  then have "parseAndVerifyChallenge hmac (cr_Challenge c) p =
    Some (\<lparr>ch_ExpiresAt = unix (now + rp_validity p) * Second, ch_DifficultyBits = rp_difficultyBits p\<rparr>, ?payload)"
    using d by (simp add: parseAndVerifyChallenge_def split base64url_roundtrip)
  then show ?thesis using that assms(1) by (auto simp: issue_def Let_def)
qed


section \<open>The replay table\<close>

definition used_ok :: "registrationProofState \<Rightarrow> bool" where
  "used_ok p \<longleftrightarrow> map_ok (rp_usedChallenges p) \<and> int (length (rp_usedChallenges p)) \<le> rp_maxUsedChallenges p"

lemma cleanup_used_simps [simp]:
  "rp_secret (cleanupUsedChallengesLocked now p) = rp_secret p"
  "rp_maxUsedChallenges (cleanupUsedChallengesLocked now p) = rp_maxUsedChallenges p"
  "rp_difficultyBits (cleanupUsedChallengesLocked now p) = rp_difficultyBits p"
  by (simp_all add: cleanupUsedChallengesLocked_def Let_def)

lemma cleanup_used_ok:
  assumes "used_ok p"
  shows "used_ok (cleanupUsedChallengesLocked now p)"
proof -
  have "int (length (filter Q (rp_usedChallenges p))) \<le> rp_maxUsedChallenges p" for Q
    using assms length_filter_le [of Q "rp_usedChallenges p"] unfolding used_ok_def by linarith
  then show ?thesis using assms by (auto simp: used_ok_def cleanupUsedChallengesLocked_def Let_def)
qed

lemma cleanup_used_keeps:
  assumes "used_ok p" "lookup (rp_usedChallenges p) k = Some e" "now < e"
  shows "lookup (rp_usedChallenges (cleanupUsedChallengesLocked now p)) k = Some e"
  using assms by (simp add: cleanupUsedChallengesLocked_def Let_def used_ok_def lookup_filter)

definition proof_of_work :: "(string \<Rightarrow> string) \<Rightarrow> RegistrationProof \<Rightarrow> string \<Rightarrow> string \<Rightarrow> int \<Rightarrow> bool" where
  "proof_of_work sha prf username inviteCode d \<longleftrightarrow> (\<exists>nonce. parseRegistrationProofNonce (pf_Nonce prf) = Some nonce \<and>
     hasLeadingZeroBits (calculateRegistrationProofDigest sha (pf_Challenge prf) username inviteCode nonce) d)"

lemma verify_accepts:
  assumes "verifyAndConsume sha hmac now prf username inviteCode p = (None, p')"
  obtains payload where "parseAndVerifyChallenge hmac (pf_Challenge prf) p = Some (payload_challenge payload, payload)"
    "now < ch_ExpiresAt (payload_challenge payload)"
    "proof_of_work sha prf username inviteCode (ch_DifficultyBits (payload_challenge payload))"
    "lookup (rp_usedChallenges (cleanupUsedChallengesLocked now p)) (sha payload) = None"
    "int (length (rp_usedChallenges (cleanupUsedChallengesLocked now p))) < rp_maxUsedChallenges p"
    "p' = (cleanupUsedChallengesLocked now p)\<lparr>rp_usedChallenges := AList.update (sha payload)
       (ch_ExpiresAt (payload_challenge payload)) (rp_usedChallenges (cleanupUsedChallengesLocked now p))\<rparr>"
proof -
  obtain challenge payload where parse: "parseAndVerifyChallenge hmac (pf_Challenge prf) p = Some (challenge, payload)"
    using assms by (auto simp: verifyAndConsume_def split: if_splits option.splits)
  note [simp] = parse_payload(1) [OF parse]
  show ?thesis using assms parse
    by (intro that [of payload])
      (auto simp: verifyAndConsume_def proof_of_work_def Let_def split: if_splits option.splits)
qed

lemma verify_refuses:
  assumes "verifyAndConsume sha hmac now prf username inviteCode p = (Some e, p')"
  shows "rp_secret p' = rp_secret p \<and> rp_maxUsedChallenges p' = rp_maxUsedChallenges p \<and>
    rp_usedChallenges p' \<in> {rp_usedChallenges p, rp_usedChallenges (cleanupUsedChallengesLocked now p)}"
  using assms by (auto simp: verifyAndConsume_def Let_def split: if_splits option.splits)

record proof_call =
  pl_now :: time
  pl_proof :: RegistrationProof
  pl_username :: string
  pl_inviteCode :: string

text \<open>The payloads of the calls that a run accepts, in order, and the state it ends in.\<close>

fun verify_run :: "(string \<Rightarrow> string) \<Rightarrow> (string \<Rightarrow> string \<Rightarrow> string) \<Rightarrow> proof_call list \<Rightarrow> registrationProofState \<Rightarrow>
    string list \<times> registrationProofState" where
  "verify_run sha hmac [] p = ([], p)"
| "verify_run sha hmac (c # cs) p =
     (case verifyAndConsume sha hmac (pl_now c) (pl_proof c) (pl_username c) (pl_inviteCode c) p of
        (None, p') \<Rightarrow> (case verify_run sha hmac cs p' of (acc, q) \<Rightarrow>
          (snd (the (parseAndVerifyChallenge hmac (pf_Challenge (pl_proof c)) p)) # acc, q))
      | (Some e, p') \<Rightarrow> verify_run sha hmac cs p')"

text \<open>Every payload accepted before is still in the table under its key, or has expired.\<close>

definition remembers :: "(string \<Rightarrow> string) \<Rightarrow> string set \<Rightarrow> time \<Rightarrow> registrationProofState \<Rightarrow> bool" where
  "remembers sha S t p \<longleftrightarrow> (\<forall>q \<in> S. lookup (rp_usedChallenges p) (sha q) = Some (ch_ExpiresAt (payload_challenge q)) \<or>
     ch_ExpiresAt (payload_challenge q) \<le> t)"

lemma remembers_cleanup:
  assumes "used_ok p" "remembers sha S t p" "t \<le> now"
  shows "remembers sha S now (cleanupUsedChallengesLocked now p)"
  unfolding remembers_def
proof
  fix q assume "q \<in> S"
  then have "lookup (rp_usedChallenges p) (sha q) = Some (ch_ExpiresAt (payload_challenge q)) \<or> ch_ExpiresAt (payload_challenge q) \<le> t"
    using assms(2) by (simp add: remembers_def)
  then show "lookup (rp_usedChallenges (cleanupUsedChallengesLocked now p)) (sha q) = Some (ch_ExpiresAt (payload_challenge q)) \<or>
      ch_ExpiresAt (payload_challenge q) \<le> now"
    using cleanup_used_keeps [OF assms(1)] assms(3) by (meson leI order_trans)
qed

lemma accept_ok:
  assumes "used_ok p" "remembers sha S t p" "t \<le> now"
    and acc: "verifyAndConsume sha hmac now prf username inviteCode p = (None, p')"
    and parse: "parseAndVerifyChallenge hmac (pf_Challenge prf) p = Some (challenge, payload)"
  shows "payload \<notin> S \<and> used_ok p' \<and> remembers sha (insert payload S) now p'"
proof -
  note rem = remembers_cleanup [OF assms(1-3)] and ok = cleanup_used_ok [OF assms(1), of now]
  show ?thesis using acc
  proof (cases rule: verify_accepts)
    case (1 payload')
    then have [simp]: "payload' = payload" using parse by simp
    have "payload \<notin> S" using rem 1(2,4) by (auto simp: remembers_def)
    moreover have "used_ok p'" using ok 1(4-6) by (auto simp: used_ok_def amap)
    moreover have "remembers sha (insert payload S) now p'"
      using rem 1(4,6) by (auto simp: remembers_def amap)
    ultimately show ?thesis by simp
  qed
qed

lemma refuse_ok:
  assumes "used_ok p" "remembers sha S t p" "t \<le> now"
    and "verifyAndConsume sha hmac now prf username inviteCode p = (Some e, p')"
  shows "used_ok p' \<and> remembers sha S now p'"
proof -
  have "remembers sha S now p" using assms(2,3) by (fastforce simp: remembers_def)
  then show ?thesis using verify_refuses [OF assms(4)] cleanup_used_ok [OF assms(1), of now] remembers_cleanup [OF assms(1-3)] assms(1)
    by (auto simp: used_ok_def remembers_def)
qed

lemma verify_run_ok:
  assumes "used_ok p" "remembers sha S t p" "sorted (t # map pl_now cs)" "verify_run sha hmac cs p = (acc, q)"
  shows "distinct acc \<and> set acc \<inter> S = {} \<and> used_ok q \<and> rp_maxUsedChallenges q = rp_maxUsedChallenges p"
  using assms
proof (induction cs arbitrary: p S t acc q)
  case (Cons c cs)
  obtain r p' where r: "verifyAndConsume sha hmac (pl_now c) (pl_proof c) (pl_username c) (pl_inviteCode c) p = (r, p')" by fastforce
  have t: "t \<le> pl_now c" "sorted (pl_now c # map pl_now cs)" using Cons.prems(3) by simp_all
  show ?case
  proof (cases r)
    case (Some e)
    note next_ok = refuse_ok [OF Cons.prems(1,2) t(1) r [unfolded Some]]
    have "verify_run sha hmac cs p' = (acc, q)" using Cons.prems(4) r Some by simp
    from Cons.IH [OF conjunct1 [OF next_ok] conjunct2 [OF next_ok] t(2) this] verify_refuses [OF r [unfolded Some]] show ?thesis by simp
  next
    case None
    obtain payload where parse: "parseAndVerifyChallenge hmac (pf_Challenge (pl_proof c)) p = Some (payload_challenge payload, payload)"
      and max: "rp_maxUsedChallenges p' = rp_maxUsedChallenges p"
      by (rule verify_accepts [OF r [unfolded None]]) simp
    note next_ok = accept_ok [OF Cons.prems(1,2) t(1) r [unfolded None] parse]
    obtain acc' where run: "verify_run sha hmac cs p' = (acc', q)" and acc: "acc = payload # acc'"
      using Cons.prems(4) r None parse by (auto split: prod.splits)
    have "used_ok p'" "remembers sha (insert payload S) (pl_now c) p'" "payload \<notin> S" using next_ok by simp_all
    from Cons.IH [OF this(1,2) t(2) run] this(3) show ?thesis by (auto simp: acc max)
  qed
qed simp


lemma decimal_trimmed: "TrimSpace (decimal n) = decimal n"
proof (rule TrimSpace_id)
  have "\<forall>p \<in> set space_encodings. \<not> is_digit (hd p) \<and> \<not> is_digit (last p)" by code_simp
  then show "hd (decimal n) \<notin> hd ` set space_encodings" "last (decimal n) \<notin> last ` set space_encodings"
    using decimal_props [of n] by (auto simp: list_all_iff) (metis hd_in_set last_in_set)+
qed (use decimal_props in simp)

section \<open>A small concrete state\<close>

text \<open>Hash functions that accept every counter, and a challenge issued at time 0.\<close>

definition demo_sha :: "string \<Rightarrow> string" where
  "demo_sha s = replicate 32 (CHR 0x00)"

definition demo_hmac :: "string \<Rightarrow> string \<Rightarrow> string" where
  "demo_hmac key s = ''tag''"

definition demo_proof_state :: registrationProofState where
  "demo_proof_state = \<lparr>rp_secret = ''k'', rp_difficultyBits = 20, rp_validity = 5 * Minute, rp_maxUsedChallenges = 4096,
     rp_usedChallenges = [], rp_lastProofCleanupAt = 0, rp_saturationLogged = False\<rparr>"

definition demo_challenge :: RegistrationChallengeResponse where
  "demo_challenge = \<lparr>cr_Challenge = ''v1.300.20.YWJj.dGFn'', cr_Difficulty = 20, cr_ExpiresAt = 300 * Second\<rparr>"

definition demo_proof_call :: "time \<Rightarrow> proof_call" where
  "demo_proof_call now = \<lparr>pl_now = now, pl_proof = \<lparr>pf_Challenge = ''v1.300.20.YWJj.dGFn'', pf_Nonce = ''7''\<rparr>,
     pl_username = ''ann'', pl_inviteCode = []\<rparr>"

lemma demo_proof_state_new: "newRegistrationProofState 0 0 0 0 (Some ''k'') = Inr demo_proof_state"
  by code_simp

lemma demo_challenge_issued: "issue demo_hmac 0 (Some ''abc'') demo_proof_state = Inr demo_challenge"
  by code_simp

section \<open>Properties\<close>

text \<open>
  The difficulty test compares exactly the leading bits. For every difficulty up to the size of the
  digest, \<open>hasLeadingZeroBits\<close>, with its whole bytes and shifted last byte, holds exactly when the first
  \<open>d\<close> bits of the digest, most significant first, are all zero, and it reads no byte past the digest.
\<close>

theorem leading_zero_bits_exact:
  assumes "0 \<le> d" "d \<le> 8 * int (length digest)"
  shows "(hasLeadingZeroBits digest d \<longleftrightarrow> (\<forall>i < nat d. \<not> digest_bits digest ! i)) \<and>
    nat (d div 8) \<le> length digest \<and> (d mod 8 \<noteq> 0 \<longrightarrow> nat (d div 8) < length digest)"
proof -
  have "list_all Not (take (nat d) (digest_bits digest)) \<longleftrightarrow> (\<forall>i < nat d. \<not> digest_bits digest ! i)"
    using assms by (auto simp: list_all_length)
  moreover have "nat (d div 8) \<le> length digest \<and> (d mod 8 \<noteq> 0 \<longrightarrow> nat (d div 8) < length digest)"
    using div8_bound [OF assms] by auto
  ultimately show ?thesis using hasLeadingZeroBits_eq [OF assms] by blast
qed

theorem leading_zero_bits_exact_witness:
  "hasLeadingZeroBits [CHR 0x00, CHR 0x0F] 12 \<longleftrightarrow> (\<forall>i < 12. \<not> digest_bits [CHR 0x00, CHR 0x0F] ! i)"
  using leading_zero_bits_exact [of 12 "[CHR 0x00, CHR 0x0F]"] by simp



text \<open>
  A challenge that the server issued and a client solved is accepted: while it has not expired and
  the table of used challenges has room, the token of \<open>issue\<close> with a counter whose digest starts with the
  announced number of zero bits passes \<open>verifyAndConsume\<close> for the user name and invite code it was solved for.
\<close>

theorem registration_challenge_roundtrip:
  assumes "issue hmac t0 (Some rnd) p = Inr c" and "1 \<le> rp_difficultyBits p" "rp_difficultyBits p \<le> 32"
    and "- (2 ^ 63) \<le> unix (t0 + rp_validity p)" "unix (t0 + rp_validity p) < 2 ^ 63"
    and "now < unix (cr_ExpiresAt c) * Second" and "rp_usedChallenges p = []" "0 < rp_maxUsedChallenges p"
    and "int n < 2 ^ 64" "length (decimal n) \<le> 20"
    and "hasLeadingZeroBits (calculateRegistrationProofDigest sha (cr_Challenge c) username inviteCode (int n)) (cr_Difficulty c)"
  shows "fst (verifyAndConsume sha hmac now \<lparr>pf_Challenge = cr_Challenge c, pf_Nonce = decimal n\<rparr> username inviteCode p) = None"
proof -
  obtain payload where parse: "parseAndVerifyChallenge hmac (cr_Challenge c) p =
    Some (\<lparr>ch_ExpiresAt = unix (cr_ExpiresAt c) * Second, ch_DifficultyBits = cr_Difficulty c\<rparr>, payload)"
    using issued_parses [OF assms(1-5)] .
  have "cr_Challenge c \<noteq> []" "hd (cr_Challenge c) = CHR ''v''" using assms(1) by (auto simp: issue_def registrationProofVersion_def Let_def)
  then have "CHR ''v'' \<in> set (cr_Challenge c)" by (metis hd_in_set)
  moreover have "CHR ''v'' \<notin> \<Union> (set ` set space_encodings)" by code_simp
  ultimately have "TrimSpace (cr_Challenge c) \<noteq> []" by (rule TrimSpace_nonempty)
  then show ?thesis
    using assms(6-) decimal_trimmed [of n] decimal_props [of n] parse
    by (simp add: verifyAndConsume_def Let_def parseRegistrationProofNonce_def maxRegistrationProofNonceDigits_def
        ParseUint_def cleanupUsedChallengesLocked_def)
qed

theorem registration_challenge_roundtrip_witness:
  "fst (verifyAndConsume demo_sha demo_hmac 9 \<lparr>pf_Challenge = cr_Challenge demo_challenge, pf_Nonce = decimal 7\<rparr> ''ann'' [] demo_proof_state) = None"
proof (rule registration_challenge_roundtrip [OF demo_challenge_issued])
  show "hasLeadingZeroBits (calculateRegistrationProofDigest demo_sha (cr_Challenge demo_challenge) ''ann'' [] (int 7)) (cr_Difficulty demo_challenge)"
    by code_simp
  show "length (decimal 7) \<le> 20" by code_simp
  show "- (2 ^ 63) \<le> unix (0 + rp_validity demo_proof_state)" "unix (0 + rp_validity demo_proof_state) < 2 ^ 63"
    "9 < unix (cr_ExpiresAt demo_challenge) * Second" by code_simp+
qed (simp_all add: demo_proof_state_def)

end
