(* ===== verification/Auth_Protector.thy ===== *)
theory Auth_Protector
  imports Login_Guard Registration_Proof
begin

text \<open>
  The protector of the public panel endpoints, \<open>internal/panel/auth_protector.go\<close>: token buckets per
  endpoint and client address in bounded registries with shared fallback buckets, the failed-login guard
  of \<open>Login_Guard\<close>, and the limit on concurrent password hashing. The token buckets belong to
  \<open>golang.org/x/time/rate\<close> and are a parameter, of which nothing is assumed.
\<close>

section \<open>Endpoint limiters\<close>

record ('b, 'r, 'l) reserve_lib =
  rl_Limit :: "int \<Rightarrow> int \<Rightarrow> 'l"
  rl_NewLimiter :: "'l \<Rightarrow> int \<Rightarrow> 'b"
  rl_ReserveN :: "'b \<Rightarrow> time \<Rightarrow> int \<Rightarrow> 'r \<times> 'b"
  rl_OK :: "'r \<Rightarrow> bool"
  rl_DelayFrom :: "'r \<Rightarrow> time \<Rightarrow> duration"
  rl_CancelAt :: "'r \<Rightarrow> time \<Rightarrow> 'b \<Rightarrow> 'b"

type_synonym authEndpoint = string

definition authEndpointLogin :: authEndpoint where "authEndpointLogin = ''login''"
definition authEndpointRegister :: authEndpoint where "authEndpointRegister = ''register''"
definition authEndpointRegistrationChallenge :: authEndpoint where
  "authEndpointRegistrationChallenge = ''registration-challenge''"

record authEndpointLimit =
  el_requestsPerMinute :: int
  el_burst :: int

record 'b authRateLimitEntry =
  re_limiter :: 'b
  re_lastSeen :: time

record 'b authEndpointState =
  es_limitConfig :: authEndpointLimit
  es_entries :: "(string, 'b authRateLimitEntry) gomap"
  es_fallbackLimiters :: "'b list"
  es_maximumEntries :: int
  es_nextExpiryCheck :: "time option"
  es_currentEntries :: int
  es_dedicatedAdmissions :: "64 word"
  es_expiredEntriesRemoved :: "64 word"
  es_fallbackRequests :: "64 word"
  es_fallbackRejections :: "64 word"

definition authRateLimiterIdleTTL :: duration where "authRateLimiterIdleTTL = 30 * Minute"
definition authProtectorCleanupInterval :: duration where "authProtectorCleanupInterval = 5 * Minute"

definition newAuthRateLimiter :: "('b, 'r, 'l) reserve_lib \<Rightarrow> authEndpointLimit \<Rightarrow> 'b" where
  "newAuthRateLimiter lib limitConfig =
     (let burst = (if el_burst limitConfig < 1 then 1 else el_burst limitConfig)
      in rl_NewLimiter lib (rl_Limit lib (el_requestsPerMinute limitConfig) (Minute div Second)) burst)"

definition newAuthEndpointState ::
  "('b, 'r, 'l) reserve_lib \<Rightarrow> authEndpointLimit \<Rightarrow> int \<Rightarrow> int \<Rightarrow> 'b authEndpointState" where
  "newAuthEndpointState lib limitConfig maximumEntries fallbackBucketCount =
     \<lparr>es_limitConfig = limitConfig, es_entries = [],
      es_fallbackLimiters = replicate (nat fallbackBucketCount) (newAuthRateLimiter lib limitConfig),
      es_maximumEntries = maximumEntries, es_nextExpiryCheck = None, es_currentEntries = 0,
      es_dedicatedAdmissions = 0, es_expiredEntriesRemoved = 0, es_fallbackRequests = 0, es_fallbackRejections = 0\<rparr>"

definition reserveAuthRequest :: "('b, 'r, 'l) reserve_lib \<Rightarrow> time \<Rightarrow> 'b \<Rightarrow> (bool \<times> duration) \<times> 'b" where
  "reserveAuthRequest lib now tokenBucket =
     (case rl_ReserveN lib tokenBucket now 1 of (reservation, b) \<Rightarrow>
        if \<not> rl_OK lib reservation then ((False, Minute), b)
        else let delay = rl_DelayFrom lib reservation now
          in if 0 < delay then ((False, delay), rl_CancelAt lib reservation now b) else ((True, 0), b))"

definition cleanupEndpointLimitersLocked :: "time \<Rightarrow> 'b authEndpointState \<Rightarrow> 'b authEndpointState" where
  "cleanupEndpointLimitersLocked now st =
     (let kept = filter (\<lambda>p. now < re_lastSeen (snd p) + authRateLimiterIdleTTL) (es_entries st);
          removedEntryCount = length (es_entries st) - length kept
      in st\<lparr>es_entries := kept,
            es_nextExpiryCheck := earliest_expiry authRateLimiterIdleTTL (map (\<lambda>p. re_lastSeen (snd p)) kept),
            es_currentEntries := es_currentEntries st - int removedEntryCount,
            es_expiredEntriesRemoved := es_expiredEntriesRemoved st + of_nat removedEntryCount\<rparr>)"

text \<open>\<open>allowAuthRequest\<close> on the state of its endpoint.\<close>

definition endpoint_allow ::
  "('b, 'r, 'l) reserve_lib \<Rightarrow> (string \<Rightarrow> 64 word) \<Rightarrow> string \<Rightarrow> time \<Rightarrow> 'b authEndpointState \<Rightarrow>
     (bool \<times> duration) \<times> 'b authEndpointState" where
  "endpoint_allow lib hash clientIP now st =
     (if el_requestsPerMinute (es_limitConfig st) \<le> 0 then ((True, 0), st)
      else case lookup (es_entries st) clientIP of
        Some entry \<Rightarrow>
          (case reserveAuthRequest lib now (re_limiter entry) of (res, b) \<Rightarrow>
             (res, st\<lparr>es_entries := AList.update clientIP \<lparr>re_limiter = b, re_lastSeen = now\<rparr> (es_entries st)\<rparr>))
      | None \<Rightarrow>
          let shouldCheckForExpiredEntries = (case es_nextExpiryCheck st of None \<Rightarrow> True | Some t \<Rightarrow> \<not> now < t);
              full = (\<lambda>st. es_maximumEntries st \<le> int (length (es_entries st)));
              st1 = (if full st \<and> shouldCheckForExpiredEntries then cleanupEndpointLimitersLocked now st else st)
          in if \<not> full st1
             then (case reserveAuthRequest lib now (newAuthRateLimiter lib (es_limitConfig st1)) of (res, b) \<Rightarrow>
               (res, st1\<lparr>es_entries := AList.update clientIP \<lparr>re_limiter = b, re_lastSeen = now\<rparr> (es_entries st1),
                  es_nextExpiryCheck := recordPotentialExpiry authRateLimiterIdleTTL (es_nextExpiryCheck st1) now,
                  es_currentEntries := es_currentEntries st1 + 1,
                  es_dedicatedAdmissions := es_dedicatedAdmissions st1 + 1\<rparr>))
             else let fallbackIndex = auth_fallbackBucketIndexFor hash clientIP (length (es_fallbackLimiters st1))
               in case reserveAuthRequest lib now (es_fallbackLimiters st1 ! fallbackIndex) of ((allowed, retryAfter), b) \<Rightarrow>
                 ((allowed, retryAfter),
                  st1\<lparr>es_fallbackLimiters := (es_fallbackLimiters st1)[fallbackIndex := b],
                     es_fallbackRequests := es_fallbackRequests st1 + 1,
                     es_fallbackRejections := (if allowed then es_fallbackRejections st1 else es_fallbackRejections st1 + 1)\<rparr>))"

section \<open>The protector\<close>

record AuthProtectorConfig =
  pc_LoginIPRequestsPerMinute :: int
  pc_LoginIPBurst :: int
  pc_RegisterIPRequestsPerMinute :: int
  pc_RegisterIPBurst :: int
  pc_RegistrationProofDifficultyBits :: int
  pc_RegistrationProofValidity :: duration
  pc_RegistrationProofMaxUsedChallenges :: int
  pc_LoginFailureThreshold :: int
  pc_LoginFailureWindow :: duration
  pc_LoginBaseLockout :: duration
  pc_LoginMaxLockout :: duration
  pc_LoginIPMaximumEntries :: int
  pc_RegisterIPMaximumEntries :: int
  pc_RegistrationChallengeIPMaximumEntries :: int
  pc_LoginFailureMaximumEntries :: int
  pc_UsernameFailureMaximumEntries :: int
  pc_UsernameFailureFallbackBuckets :: int
  pc_PasswordMaximumConcurrent :: int
  pc_AuthEndpointFallbackBuckets :: int

text \<open>\<open>ap_releases\<close>: the release functions handed out, each with the state of its \<open>sync.Once\<close>.\<close>

record 'b AuthProtector =
  ap_clientIPResolver :: ClientIPResolver
  ap_endpointStates :: "(authEndpoint, 'b authEndpointState) gomap"
  ap_guard :: loginGuard
  ap_registrationProof :: registrationProofState
  ap_passwordMaximumConcurrent :: int
  ap_passwordWorkCurrent :: int
  ap_passwordWorkAdmissions :: "64 word"
  ap_passwordWorkRejections :: "64 word"
  ap_releases :: "bool list"
  ap_lastCleanup :: time

definition defaultLoginIPMaximumEntries :: int where "defaultLoginIPMaximumEntries = 4096"
definition defaultRegisterIPMaximumEntries :: int where "defaultRegisterIPMaximumEntries = 2048"
definition defaultRegistrationChallengeIPMaximumEntries :: int where "defaultRegistrationChallengeIPMaximumEntries = 2048"
definition defaultLoginFailureMaximumEntries :: int where "defaultLoginFailureMaximumEntries = 8192"
definition defaultUsernameFailureMaximumEntries :: int where "defaultUsernameFailureMaximumEntries = 8192"
definition defaultUsernameFailureFallbackBuckets :: int where "defaultUsernameFailureFallbackBuckets = 16"
definition defaultPasswordMaximumConcurrent :: int where "defaultPasswordMaximumConcurrent = 4"
definition defaultAuthEndpointFallbackBuckets :: int where "defaultAuthEndpointFallbackBuckets = 16"
definition maximumAuthEndpointEntries :: int where "maximumAuthEndpointEntries = 65536"
definition maximumLoginFailureEntries :: int where "maximumLoginFailureEntries = 131072"
definition maximumAuthEndpointFallbackBuckets :: int where "maximumAuthEndpointFallbackBuckets = 1024"

lemmas auth_capacities = defaultLoginIPMaximumEntries_def defaultRegisterIPMaximumEntries_def
  defaultRegistrationChallengeIPMaximumEntries_def defaultLoginFailureMaximumEntries_def
  defaultUsernameFailureMaximumEntries_def defaultUsernameFailureFallbackBuckets_def
  defaultPasswordMaximumConcurrent_def defaultAuthEndpointFallbackBuckets_def maximumAuthEndpointEntries_def
  maximumLoginFailureEntries_def maximumAuthEndpointFallbackBuckets_def

definition normalizeBoundedAuthCapacity :: "int \<Rightarrow> int \<Rightarrow> int \<Rightarrow> int" where
  "normalizeBoundedAuthCapacity value defaultValue maximumValue =
     (if value \<le> 0 then defaultValue else if maximumValue < value then maximumValue else value)"

definition new_guard :: "int \<Rightarrow> duration \<Rightarrow> duration \<Rightarrow> duration \<Rightarrow> int \<Rightarrow> int \<Rightarrow> int \<Rightarrow> loginGuard" where
  "new_guard threshold window baseLockout maxLockout sources usernames fallbacks =
     \<lparr>lg_heap = [], lg_failures = new_registry sources, lg_usernameFailures = new_registry usernames,
      lg_usernameFailureFallbacks = replicate (nat fallbacks) None, lg_loginFailureThreshold = threshold,
      lg_loginFailureWindow = window, lg_loginBaseLockout = baseLockout, lg_loginMaxLockout = maxLockout,
      lg_loginFailureCleanupScans = 0, lg_usernameFailureFallbackAttempts = 0, lg_usernameFailureFallbackRejections = 0,
      lg_attempts = []\<rparr>"

definition NewAuthProtector ::
  "('b, 'r, 'l) reserve_lib \<Rightarrow> time \<Rightarrow> string option \<Rightarrow> ClientIPResolver \<Rightarrow> AuthProtectorConfig \<Rightarrow> panic + 'b AuthProtector" where
  "NewAuthProtector lib now secretBytes clientIPResolver config =
     (let pos = (\<lambda>x d. if x \<le> 0 then d else x);
          loginRPM = pos (pc_LoginIPRequestsPerMinute config) 30;
          loginBurst = pos (pc_LoginIPBurst config) loginRPM;
          registerRPM = pos (pc_RegisterIPRequestsPerMinute config) 10;
          registerBurst = pos (pc_RegisterIPBurst config) registerRPM;
          threshold = pos (pc_LoginFailureThreshold config) 5;
          window = pos (pc_LoginFailureWindow config) (15 * Minute);
          baseLockout = pos (pc_LoginBaseLockout config) Minute;
          maxLockout0 = pos (pc_LoginMaxLockout config) (15 * Minute);
          maxLockout = (if maxLockout0 < baseLockout then baseLockout else maxLockout0);
          loginEntries = normalizeBoundedAuthCapacity (pc_LoginIPMaximumEntries config)
            defaultLoginIPMaximumEntries maximumAuthEndpointEntries;
          registerEntries = normalizeBoundedAuthCapacity (pc_RegisterIPMaximumEntries config)
            defaultRegisterIPMaximumEntries maximumAuthEndpointEntries;
          challengeEntries = normalizeBoundedAuthCapacity (pc_RegistrationChallengeIPMaximumEntries config)
            defaultRegistrationChallengeIPMaximumEntries maximumAuthEndpointEntries;
          failureEntries = normalizeBoundedAuthCapacity (pc_LoginFailureMaximumEntries config)
            defaultLoginFailureMaximumEntries maximumLoginFailureEntries;
          usernameEntries = normalizeBoundedAuthCapacity (pc_UsernameFailureMaximumEntries config)
            defaultUsernameFailureMaximumEntries maximumLoginFailureEntries;
          usernameFallbacks = normalizeBoundedAuthCapacity (pc_UsernameFailureFallbackBuckets config)
            defaultUsernameFailureFallbackBuckets maximumAuthEndpointFallbackBuckets;
          concurrent = normalizeBoundedAuthCapacity (pc_PasswordMaximumConcurrent config) defaultPasswordMaximumConcurrent 64;
          fallbacks = normalizeBoundedAuthCapacity (pc_AuthEndpointFallbackBuckets config)
            defaultAuthEndpointFallbackBuckets maximumAuthEndpointFallbackBuckets;
          login_limit = \<lparr>el_requestsPerMinute = loginRPM, el_burst = loginBurst\<rparr>;
          register_limit = \<lparr>el_requestsPerMinute = registerRPM, el_burst = registerBurst\<rparr>
      in map_sum id (\<lambda>registrationProof. \<lparr>ap_clientIPResolver = clientIPResolver,
          ap_endpointStates =
            [(authEndpointLogin, newAuthEndpointState lib login_limit loginEntries fallbacks),
             (authEndpointRegister, newAuthEndpointState lib register_limit registerEntries fallbacks),
             (authEndpointRegistrationChallenge, newAuthEndpointState lib register_limit challengeEntries fallbacks)],
          ap_guard = new_guard threshold window baseLockout maxLockout failureEntries usernameEntries usernameFallbacks,
          ap_registrationProof = registrationProof,
          ap_passwordMaximumConcurrent = concurrent, ap_passwordWorkCurrent = 0, ap_passwordWorkAdmissions = 0,
          ap_passwordWorkRejections = 0, ap_releases = [], ap_lastCleanup = now\<rparr>)
          (newRegistrationProofState (pc_RegistrationProofDifficultyBits config) (pc_RegistrationProofValidity config)
             (pc_RegistrationProofMaxUsedChallenges config) now secretBytes))"

definition cleanupLocked :: "time \<Rightarrow> 'b AuthProtector \<Rightarrow> 'b AuthProtector" where
  "cleanupLocked now p =
     (if now - ap_lastCleanup p < authProtectorCleanupInterval then p
      else p\<lparr>ap_lastCleanup := now,
        ap_endpointStates := map (\<lambda>(e, st). (e, cleanupEndpointLimitersLocked now st)) (ap_endpointStates p),
        ap_guard := cleanupUsernameFailuresLocked now (cleanupLoginFailuresLocked now (ap_guard p))\<rparr>)"

definition clientIPForProtection :: "Request \<Rightarrow> 'b AuthProtector \<Rightarrow> client_ip_error + string" where
  "clientIPForProtection request p =
     map_sum id Addr_String (ResolveAddress (Some (ap_clientIPResolver p)) (Some request))"

definition allowAuthRequest ::
  "('b, 'r, 'l) reserve_lib \<Rightarrow> (string \<Rightarrow> 64 word) \<Rightarrow> authEndpoint \<Rightarrow> string \<Rightarrow> time \<Rightarrow> 'b AuthProtector \<Rightarrow>
     (bool \<times> duration) \<times> 'b AuthProtector" where
  "allowAuthRequest lib hash endpoint clientIP now p0 =
     (let p = cleanupLocked now p0
      in case lookup (ap_endpointStates p) endpoint of
           None \<Rightarrow> ((True, 0), p)
         | Some st \<Rightarrow> (case endpoint_allow lib hash clientIP now st of (res, st') \<Rightarrow>
             (res, p\<lparr>ap_endpointStates := AList.update endpoint st' (ap_endpointStates p)\<rparr>)))"

definition RateLimitAuthEndpoint ::
  "('b, 'r, 'l) reserve_lib \<Rightarrow> (string \<Rightarrow> 64 word) \<Rightarrow> authEndpoint \<Rightarrow> Request \<Rightarrow> time \<Rightarrow> 'b AuthProtector \<Rightarrow>
     panel_error option \<times> 'b AuthProtector" where
  "RateLimitAuthEndpoint lib hash endpoint r now p =
     (case clientIPForProtection r p of
        Inl err \<Rightarrow> (Some (writeClientIPResolutionError err), p)
      | Inr clientIP \<Rightarrow>
          (case allowAuthRequest lib hash endpoint clientIP now p of ((allowed, retryAfter), p') \<Rightarrow>
             (if allowed then None else Some (writeRetryAfter retryAfter (writeError 429 ''rate limit exceeded'')), p')))"

text \<open>\<open>lower\<close>: \<open>strings.ToLower\<close> over the Unicode case tables.\<close>

definition normalizeLoginUsername :: "(string \<Rightarrow> string) \<Rightarrow> string \<Rightarrow> string" where
  "normalizeLoginUsername lower username = lower (TrimSpace username)"

definition loginFailureKey :: "(string \<Rightarrow> string) \<Rightarrow> string \<Rightarrow> string \<Rightarrow> string" where
  "loginFailureKey lower username clientIP = normalizeLoginUsername lower username @ CHR 0x00 # clientIP"

definition beginLoginAttempt ::
  "(string \<Rightarrow> string) \<Rightarrow> (string \<Rightarrow> 64 word) \<Rightarrow> string \<Rightarrow> string \<Rightarrow> time \<Rightarrow> 'b AuthProtector \<Rightarrow>
     panic + ((duration + nat) \<times> 'b AuthProtector)" where
  "beginLoginAttempt lower hash username clientIP now p0 =
     (let p = cleanupLocked now p0
      in case begin_attempt hash (loginFailureKey lower username clientIP) (normalizeLoginUsername lower username) now (ap_guard p) of
           Inl x \<Rightarrow> Inl x | Inr (res, g) \<Rightarrow> Inr (res, p\<lparr>ap_guard := g\<rparr>))"

definition attempt_complete :: "nat \<Rightarrow> loginAttemptOutcome \<Rightarrow> time \<Rightarrow> 'b AuthProtector \<Rightarrow> panic + 'b AuthProtector" where
  "attempt_complete n outcome now p = map_sum id (\<lambda>g. p\<lparr>ap_guard := g\<rparr>) (complete_attempt n outcome now (ap_guard p))"

definition tryAcquirePasswordWork :: "'b AuthProtector \<Rightarrow> nat option \<times> 'b AuthProtector" where
  "tryAcquirePasswordWork p =
     (if ap_passwordMaximumConcurrent p \<le> ap_passwordWorkCurrent p
      then (None, p\<lparr>ap_passwordWorkRejections := ap_passwordWorkRejections p + 1\<rparr>)
      else (Some (length (ap_releases p)), p\<lparr>ap_passwordWorkCurrent := ap_passwordWorkCurrent p + 1,
        ap_passwordWorkAdmissions := ap_passwordWorkAdmissions p + 1, ap_releases := ap_releases p @ [False]\<rparr>))"

definition passwordWorkRelease :: "nat \<Rightarrow> 'b AuthProtector \<Rightarrow> 'b AuthProtector" where
  "passwordWorkRelease n p =
     (if length (ap_releases p) \<le> n \<or> ap_releases p ! n then p
      else p\<lparr>ap_passwordWorkCurrent := ap_passwordWorkCurrent p - 1, ap_releases := (ap_releases p)[n := True]\<rparr>)"

section \<open>Credentials\<close>

definition validatePanelPassword :: "string \<Rightarrow> bool" where
  "validatePanelPassword password \<longleftrightarrow> \<not> (length password < 8 \<or> 72 < length password)"

definition validatePanelAuthCredentials :: "string \<Rightarrow> string \<Rightarrow> string option" where
  "validatePanelAuthCredentials rawUsername password =
     (let username = TrimSpace rawUsername
      in if length username < 1 \<or> 128 < length username then None
         else if \<not> validatePanelPassword password then None else Some username)"


section \<open>Metrics\<close>

record AuthEndpointMetricsSnapshot =
  em_CurrentEntries :: int
  em_MaximumEntries :: int
  em_FallbackBucketCount :: int
  em_DedicatedAdmissions :: "64 word"
  em_ExpiredEntriesRemoved :: "64 word"
  em_FallbackRequests :: "64 word"
  em_FallbackRejections :: "64 word"

record LoginFailureMetricsSnapshot =
  fm_CurrentEntries :: int
  fm_MaximumEntries :: int
  fm_FallbackBucketCount :: int
  fm_Admissions :: "64 word"
  fm_ExpiredEntriesRemoved :: "64 word"
  fm_CapacityRejections :: "64 word"
  fm_FallbackAttempts :: "64 word"
  fm_FallbackRejections :: "64 word"

record PasswordWorkMetricsSnapshot =
  wm_CurrentWork :: int
  wm_Capacity :: int
  wm_Admissions :: "64 word"
  wm_Rejections :: "64 word"

record AuthProtectorMetricsSnapshot =
  pm_Login :: AuthEndpointMetricsSnapshot
  pm_Register :: AuthEndpointMetricsSnapshot
  pm_RegistrationChallenge :: AuthEndpointMetricsSnapshot
  pm_LoginFailures :: LoginFailureMetricsSnapshot
  pm_UsernameFailures :: LoginFailureMetricsSnapshot
  pm_PasswordWork :: PasswordWorkMetricsSnapshot

definition authEndpointMetricsSnapshot :: "'b authEndpointState option \<Rightarrow> AuthEndpointMetricsSnapshot" where
  "authEndpointMetricsSnapshot endpointState =
     (case endpointState of
        None \<Rightarrow> \<lparr>em_CurrentEntries = 0, em_MaximumEntries = 0, em_FallbackBucketCount = 0, em_DedicatedAdmissions = 0,
          em_ExpiredEntriesRemoved = 0, em_FallbackRequests = 0, em_FallbackRejections = 0\<rparr>
      | Some st \<Rightarrow> \<lparr>em_CurrentEntries = es_currentEntries st, em_MaximumEntries = es_maximumEntries st,
          em_FallbackBucketCount = int (length (es_fallbackLimiters st)), em_DedicatedAdmissions = es_dedicatedAdmissions st,
          em_ExpiredEntriesRemoved = es_expiredEntriesRemoved st, em_FallbackRequests = es_fallbackRequests st,
          em_FallbackRejections = es_fallbackRejections st\<rparr>)"

definition auth_Metrics :: "'b AuthProtector \<Rightarrow> AuthProtectorMetricsSnapshot" where
  "auth_Metrics p =
     (let g = ap_guard p; s = lg_failures g; u = lg_usernameFailures g
      in \<lparr>pm_Login = authEndpointMetricsSnapshot (lookup (ap_endpointStates p) authEndpointLogin),
          pm_Register = authEndpointMetricsSnapshot (lookup (ap_endpointStates p) authEndpointRegister),
          pm_RegistrationChallenge = authEndpointMetricsSnapshot (lookup (ap_endpointStates p) authEndpointRegistrationChallenge),
          pm_LoginFailures = \<lparr>fm_CurrentEntries = fr_currentEntries s, fm_MaximumEntries = fr_maximumEntries s,
            fm_FallbackBucketCount = 0, fm_Admissions = fr_admissions s, fm_ExpiredEntriesRemoved = fr_expiredEntriesRemoved s,
            fm_CapacityRejections = fr_capacityRejections s, fm_FallbackAttempts = 0, fm_FallbackRejections = 0\<rparr>,
          pm_UsernameFailures = \<lparr>fm_CurrentEntries = fr_currentEntries u, fm_MaximumEntries = fr_maximumEntries u,
            fm_FallbackBucketCount = int (length (lg_usernameFailureFallbacks g)), fm_Admissions = fr_admissions u,
            fm_ExpiredEntriesRemoved = fr_expiredEntriesRemoved u, fm_CapacityRejections = fr_capacityRejections u,
            fm_FallbackAttempts = lg_usernameFailureFallbackAttempts g,
            fm_FallbackRejections = lg_usernameFailureFallbackRejections g\<rparr>,
          pm_PasswordWork = \<lparr>wm_CurrentWork = ap_passwordWorkCurrent p, wm_Capacity = ap_passwordMaximumConcurrent p,
            wm_Admissions = ap_passwordWorkAdmissions p, wm_Rejections = ap_passwordWorkRejections p\<rparr>\<rparr>)"

section \<open>Invariants\<close>

lemma cleanup_guard_inv: "guard_inv g \<Longrightarrow> guard_inv (cleanupUsernameFailuresLocked now (cleanupLoginFailuresLocked now g))"
  by (simp add: guard_inv_def live_def cleanup_username_ok cleanup_source_ok)

lemma new_guard_inv:
  assumes "0 < thr" "0 < w" "0 < b" "b \<le> m" "0 < s" "0 < u" "0 < f" "f < 2 ^ 64"
  shows "guard_inv (new_guard thr w b m s u f)"
proof -
  have "List.map_filter id (replicate n None) = ([] :: nat list)" for n by (induction n) (simp_all add: List.map_filter_simps)
  moreover have "nat f < 2 ^ 64" using assms by (simp add: nat_less_iff)
  ultimately show ?thesis using assms
    by (auto simp: guard_inv_def guard_ok_def live_def new_guard_def config_ok_def registry_def registry_ok_def new_registry_def
        addresses_def idle_ok_def)
qed

definition endpoint_ok :: "'b authEndpointState \<Rightarrow> bool" where
  "endpoint_ok st \<longleftrightarrow> map_ok (es_entries st) \<and> es_currentEntries st = int (length (es_entries st)) \<and>
     int (length (es_entries st)) \<le> es_maximumEntries st \<and>
     0 < length (es_fallbackLimiters st) \<and> length (es_fallbackLimiters st) < 2 ^ 64"

lemma cleanupEndpoint_ok:
  assumes "endpoint_ok st"
  shows "endpoint_ok (cleanupEndpointLimitersLocked now st)"
proof -
  have "int (length (filter Q (es_entries st))) \<le> es_maximumEntries st" "length (filter Q (es_entries st)) \<le> length (es_entries st)" for Q
    using assms length_filter_le [of Q "es_entries st"] unfolding endpoint_ok_def by linarith+
  then show ?thesis using assms by (auto simp: endpoint_ok_def cleanupEndpointLimitersLocked_def Let_def of_nat_diff)
qed

lemma cleanupEndpoint_simps [simp]:
  "es_maximumEntries (cleanupEndpointLimitersLocked now st) = es_maximumEntries st"
  "es_limitConfig (cleanupEndpointLimitersLocked now st) = es_limitConfig st"
  "es_fallbackRequests (cleanupEndpointLimitersLocked now st) = es_fallbackRequests st"
  "es_fallbackLimiters (cleanupEndpointLimitersLocked now st) = es_fallbackLimiters st"
  "es_entries (cleanupEndpointLimitersLocked now st) =
     filter (\<lambda>p. now < re_lastSeen (snd p) + authRateLimiterIdleTTL) (es_entries st)"
  by (simp_all add: cleanupEndpointLimitersLocked_def Let_def)

text \<open>The endpoint after the cleanup that a request of an unknown address may start.\<close>

definition endpoint_prepared :: "time \<Rightarrow> 'b authEndpointState \<Rightarrow> 'b authEndpointState" where
  "endpoint_prepared now st = (if es_maximumEntries st \<le> int (length (es_entries st)) \<and>
     (case es_nextExpiryCheck st of None \<Rightarrow> True | Some t \<Rightarrow> \<not> now < t) then cleanupEndpointLimitersLocked now st else st)"

lemma endpoint_prepared_ok: "endpoint_ok st \<Longrightarrow> endpoint_ok (endpoint_prepared now st)"
  by (simp add: endpoint_prepared_def cleanupEndpoint_ok)

lemma endpoint_prepared_simps [simp]:
  "es_maximumEntries (endpoint_prepared now st) = es_maximumEntries st"
  "es_limitConfig (endpoint_prepared now st) = es_limitConfig st"
  "es_fallbackRequests (endpoint_prepared now st) = es_fallbackRequests st"
  "es_fallbackLimiters (endpoint_prepared now st) = es_fallbackLimiters st"
  by (simp_all add: endpoint_prepared_def)

lemma endpoint_prepared_None: "lookup (es_entries st) ip = None \<Longrightarrow> lookup (es_entries (endpoint_prepared now st)) ip = None"
  by (auto simp: endpoint_prepared_def map_of_eq_None_iff)

lemma endpoint_allow_cases:
  assumes "endpoint_allow lib hash ip now st = (res, st')"
  obtains (off) "el_requestsPerMinute (es_limitConfig st) \<le> 0" "res = (True, 0)" "st' = st"
  | (known) entry b where "0 < el_requestsPerMinute (es_limitConfig st)" "lookup (es_entries st) ip = Some entry"
      "reserveAuthRequest lib now (re_limiter entry) = (res, b)"
      "st' = st\<lparr>es_entries := AList.update ip \<lparr>re_limiter = b, re_lastSeen = now\<rparr> (es_entries st)\<rparr>"
  | (admitted) b st1 where "0 < el_requestsPerMinute (es_limitConfig st)" "lookup (es_entries st) ip = None" "st1 = endpoint_prepared now st"
      "int (length (es_entries st1)) < es_maximumEntries st1"
      "reserveAuthRequest lib now (newAuthRateLimiter lib (es_limitConfig st)) = (res, b)"
      "st' = st1\<lparr>es_entries := AList.update ip \<lparr>re_limiter = b, re_lastSeen = now\<rparr> (es_entries st1),
         es_nextExpiryCheck := recordPotentialExpiry authRateLimiterIdleTTL (es_nextExpiryCheck st1) now,
         es_currentEntries := es_currentEntries st1 + 1, es_dedicatedAdmissions := es_dedicatedAdmissions st1 + 1\<rparr>"
  | (fallback) b st1 i where "0 < el_requestsPerMinute (es_limitConfig st)" "lookup (es_entries st) ip = None" "st1 = endpoint_prepared now st"
      "es_maximumEntries st1 \<le> int (length (es_entries st1))"
      "i = auth_fallbackBucketIndexFor hash ip (length (es_fallbackLimiters st1))"
      "reserveAuthRequest lib now (es_fallbackLimiters st1 ! i) = (res, b)"
      "st' = st1\<lparr>es_fallbackLimiters := (es_fallbackLimiters st1)[i := b], es_fallbackRequests := es_fallbackRequests st1 + 1,
         es_fallbackRejections := (if fst res then es_fallbackRejections st1 else es_fallbackRejections st1 + 1)\<rparr>"
proof (cases "el_requestsPerMinute (es_limitConfig st) \<le> 0")
  case True
  with assms show ?thesis by (intro off) (simp_all add: endpoint_allow_def)
next
  case on: False
  show ?thesis
  proof (cases "lookup (es_entries st) ip")
    case (Some entry)
    obtain r b where "reserveAuthRequest lib now (re_limiter entry) = (r, b)" by fastforce
    with Some on assms show ?thesis by (intro known [of entry b]) (auto simp: endpoint_allow_def)
  next
    case None
    define st1 where "st1 = endpoint_prepared now st"
    have allow: "endpoint_allow lib hash ip now st =
        (if int (length (es_entries st1)) < es_maximumEntries st1
         then (case reserveAuthRequest lib now (newAuthRateLimiter lib (es_limitConfig st1)) of (res, b) \<Rightarrow>
           (res, st1\<lparr>es_entries := AList.update ip \<lparr>re_limiter = b, re_lastSeen = now\<rparr> (es_entries st1),
              es_nextExpiryCheck := recordPotentialExpiry authRateLimiterIdleTTL (es_nextExpiryCheck st1) now,
              es_currentEntries := es_currentEntries st1 + 1, es_dedicatedAdmissions := es_dedicatedAdmissions st1 + 1\<rparr>))
         else let i = auth_fallbackBucketIndexFor hash ip (length (es_fallbackLimiters st1))
           in case reserveAuthRequest lib now (es_fallbackLimiters st1 ! i) of ((allowed, retryAfter), b) \<Rightarrow>
             ((allowed, retryAfter), st1\<lparr>es_fallbackLimiters := (es_fallbackLimiters st1)[i := b],
                es_fallbackRequests := es_fallbackRequests st1 + 1,
                es_fallbackRejections := (if allowed then es_fallbackRejections st1 else es_fallbackRejections st1 + 1)\<rparr>))"
      using on None unfolding endpoint_allow_def st1_def endpoint_prepared_def Let_def by (simp add: not_le)
    show ?thesis
    proof (cases "int (length (es_entries st1)) < es_maximumEntries st1")
      case True
      obtain r b where "reserveAuthRequest lib now (newAuthRateLimiter lib (es_limitConfig st1)) = (r, b)" by fastforce
      with True on None assms show ?thesis unfolding allow by (intro admitted [of st1 b]) (auto simp: st1_def)
    next
      case False
      define i where "i = auth_fallbackBucketIndexFor hash ip (length (es_fallbackLimiters st1))"
      obtain a t b where "reserveAuthRequest lib now (es_fallbackLimiters st1 ! i) = ((a, t), b)" by (metis prod.exhaust)
      with False on None assms show ?thesis unfolding allow i_def [symmetric] Let_def
        by (intro fallback [of st1 i b]) (auto simp: st1_def i_def)
    qed
  qed
qed

lemma endpoint_allow_ok:
  assumes ok: "endpoint_ok st"
  shows "endpoint_ok (snd (endpoint_allow lib hash ip now st))"
proof -
  obtain res st' where r: "endpoint_allow lib hash ip now st = (res, st')" by fastforce
  then show ?thesis
  proof (cases rule: endpoint_allow_cases)
    case (known entry b)
    then show ?thesis using ok r by (simp add: endpoint_ok_def amap)
  next
    case (admitted b st1)
    then have "endpoint_ok st1" "lookup (es_entries st1) ip = None" using ok by (simp_all add: endpoint_prepared_ok endpoint_prepared_None)
    then show ?thesis using admitted r by (simp add: endpoint_ok_def amap)
  next
    case (fallback b st1 i)
    then have "endpoint_ok st1" using ok by (simp add: endpoint_prepared_ok)
    then show ?thesis using fallback r by (simp add: endpoint_ok_def)
  qed (use ok r in simp)
qed


section \<open>Endpoints while time passes\<close>

text \<open>
  A request after \<open>d\<close> nanoseconds; the clock is part of the state, since a hit moves the last use of an
  entry forward without touching the time of the next check.
\<close>

type_synonym 'b timed_endpoint = "time \<times> 'b authEndpointState"

definition endpoint_step ::
  "('b, 'r, 'l) reserve_lib \<Rightarrow> (string \<Rightarrow> 64 word) \<Rightarrow> string \<times> nat \<Rightarrow> 'b timed_endpoint \<Rightarrow> 'b timed_endpoint" where
  "endpoint_step lib hash op s =
     (case op of (ip, d) \<Rightarrow> (fst s + int d, snd (endpoint_allow lib hash ip (fst s + int d) (snd s))))"

definition timed_ok :: "'b timed_endpoint \<Rightarrow> bool" where
  "timed_ok s \<longleftrightarrow> endpoint_ok (snd s) \<and> (\<forall>(k, e) \<in> set (es_entries (snd s)). re_lastSeen e \<le> fst s \<and>
     bounds_expiry (es_nextExpiryCheck (snd s)) (re_lastSeen e + authRateLimiterIdleTTL))"

lemma timed_okD:
  assumes "timed_ok s"
  shows "endpoint_ok (snd s)" "(k, e) \<in> set (es_entries (snd s)) \<Longrightarrow> re_lastSeen e \<le> fst s"
    "(k, e) \<in> set (es_entries (snd s)) \<Longrightarrow> bounds_expiry (es_nextExpiryCheck (snd s)) (re_lastSeen e + authRateLimiterIdleTTL)"
  using assms by (auto simp: timed_ok_def)

lemma bounds_expiry_mono: "bounds_expiry n x \<Longrightarrow> x \<le> y \<Longrightarrow> bounds_expiry n y"
  by (auto simp: bounds_expiry_def)

lemma timed_prepared:
  assumes "timed_ok (t, st)"
  shows "timed_ok (t, endpoint_prepared now st)"
proof (cases "endpoint_prepared now st = st")
  case False
  then have p: "endpoint_prepared now st = cleanupEndpointLimitersLocked now st" by (simp add: endpoint_prepared_def split: if_splits)
  have "bounds_expiry (es_nextExpiryCheck (cleanupEndpointLimitersLocked now st)) (re_lastSeen e + authRateLimiterIdleTTL)"
    if "(k, e) \<in> set (es_entries (cleanupEndpointLimitersLocked now st))" for k e
    using earliest_expiry_map [OF that, of authRateLimiterIdleTTL "\<lambda>p. re_lastSeen (snd p)"]
    by (simp add: cleanupEndpointLimitersLocked_def Let_def)
  then show ?thesis using timed_okD [OF assms] cleanupEndpoint_ok [of st now] unfolding p by (auto simp: timed_ok_def)
qed (use assms in simp)

lemma set_update_elim:
  "(k, e) \<in> set (AList.update k' v m) \<Longrightarrow> map_ok m \<Longrightarrow> k = k' \<and> e = v \<or> (k, e) \<in> set m \<and> k \<noteq> k'"
  using lookup_Some_iff [of "AList.update k' v m" k e] lookup_Some_iff [of m k e] by (auto simp: amap split: if_splits)

lemma timed_step_ok:
  assumes ok: "timed_ok s"
  shows "timed_ok (endpoint_step lib hash x s)"
proof -
  obtain t st ip d where s: "s = (t, st)" and x: "x = (ip, d)" by fastforce
  define now where "now = t + int d"
  have le: "t \<le> now" by (simp add: now_def)
  have ok_t: "timed_ok (t, st)" using ok s by simp
  have ok': "timed_ok (now, st)" using timed_okD [OF ok_t] le unfolding timed_ok_def by fastforce
  obtain res st' where r: "endpoint_allow lib hash ip now st = (res, st')" by fastforce
  have e_ok: "endpoint_ok st'" using endpoint_allow_ok [of st lib hash ip now] timed_okD(1) [OF ok'] r by simp
  from r have "timed_ok (now, st')"
  proof (cases rule: endpoint_allow_cases)
    case off
    then show ?thesis using ok' by simp
  next
    case (known entry b)
    have m: "map_ok (es_entries st)" using timed_okD(1) [OF ok'] by (simp add: endpoint_ok_def)
    have old: "(ip, entry) \<in> set (es_entries st)" using known(2) by (rule map_of_SomeD)
    from timed_okD(2,3) [OF ok', simplified, OF old]
    have "bounds_expiry (es_nextExpiryCheck st) (now + authRateLimiterIdleTTL)" by (auto intro: bounds_expiry_mono)
    then show ?thesis using e_ok timed_okD(2,3) [OF ok'] set_update_elim [OF _ m] unfolding known(4) by (fastforce simp: timed_ok_def)
  next
    case (admitted b st1)
    have ok1: "timed_ok (now, st1)" using timed_prepared [OF ok'] admitted(3) by simp
    have m: "map_ok (es_entries st1)" using timed_okD(1) [OF ok1] by (simp add: endpoint_ok_def)
    show ?thesis using e_ok timed_okD(2,3) [OF ok1] set_update_elim [OF _ m]
      unfolding admitted(6) by (fastforce simp: timed_ok_def bounds_expiry_record)
  next
    case (fallback b st1 i)
    have ok1: "timed_ok (now, st1)" using timed_prepared [OF ok'] fallback(3) by simp
    show ?thesis using e_ok timed_okD(2,3) [OF ok1] unfolding fallback(7) by (auto simp: timed_ok_def)
  qed
  then show ?thesis using r by (simp add: endpoint_step_def s x now_def)
qed

lemma endpoint_allow_maximum: "es_maximumEntries (snd (endpoint_allow lib hash ip now st)) = es_maximumEntries st"
proof -
  obtain res st' where r: "endpoint_allow lib hash ip now st = (res, st')" by fastforce
  then show ?thesis by (cases rule: endpoint_allow_cases) (simp_all add: r)
qed

interpretation auth_endpoint: expiring_registry
  "\<lambda>s. es_entries (snd s)" "\<lambda>s. es_maximumEntries (snd s)" "\<lambda>s e. re_lastSeen e + authRateLimiterIdleTTL"
  "\<lambda>s. es_nextExpiryCheck (snd s)" timed_ok "endpoint_step lib hash" for lib hash
proof
  show "timed_ok s \<Longrightarrow> timed_ok (endpoint_step lib hash x s)" for s x by (rule timed_step_ok)
  show "es_maximumEntries (snd (endpoint_step lib hash x s)) = es_maximumEntries (snd s)" for x s
    by (simp add: endpoint_step_def endpoint_allow_maximum split: prod.splits)
qed (auto simp: timed_ok_def endpoint_ok_def)

lemma newEndpoint_timed_ok:
  assumes "0 < maximumEntries" "0 < buckets" "buckets < 2 ^ 64"
  shows "timed_ok (t, newAuthEndpointState lib c maximumEntries buckets)"
  using assms by (simp add: timed_ok_def endpoint_ok_def newAuthEndpointState_def map_ok_def nat_less_iff)

end
