(* ===== verification/Auth_Run.thy ===== *)
theory Auth_Run
  imports Auth_Protector
begin

text \<open>
  The protector over any sequence of requests: the step relation of the operations its mutex serializes,
  the invariant of the reachable states, and what follows for logins: attempts in flight are counted
  exactly, failures are recorded on both entries of an attempt, a locked entry refuses, and the lockout
  lies between its bounds.
\<close>

section \<open>Reachable states\<close>

text \<open>The challenge state of the registration proof has a mutex of its own and may change at any time.\<close>

inductive protector_step ::
  "('b, 'r, 'l) reserve_lib \<Rightarrow> (string \<Rightarrow> 64 word) \<Rightarrow> (string \<Rightarrow> string) \<Rightarrow> 'b AuthProtector \<Rightarrow> 'b AuthProtector \<Rightarrow> bool"
  for lib hash lower where
  request: "protector_step lib hash lower p (snd (allowAuthRequest lib hash endpoint clientIP now p))"
| attempt: "beginLoginAttempt lower hash username clientIP now p = Inr (res, p') \<Longrightarrow> protector_step lib hash lower p p'"
| finish: "n < length (lg_attempts (ap_guard p)) \<Longrightarrow> attempt_complete n outcome now p = Inr p' \<Longrightarrow> protector_step lib hash lower p p'"
| acquire: "protector_step lib hash lower p (snd (tryAcquirePasswordWork p))"
| release: "protector_step lib hash lower p (passwordWorkRelease n p)"
| challenge: "protector_step lib hash lower p (p\<lparr>ap_registrationProof := s\<rparr>)"

inductive protector_reachable ::
  "('b, 'r, 'l) reserve_lib \<Rightarrow> (string \<Rightarrow> 64 word) \<Rightarrow> (string \<Rightarrow> string) \<Rightarrow> 'b AuthProtector \<Rightarrow> bool"
  for lib hash lower where
  start: "NewAuthProtector lib now secretBytes resolver config = Inr p \<Longrightarrow> protector_reachable lib hash lower p"
| step: "protector_reachable lib hash lower p \<Longrightarrow> protector_step lib hash lower p p' \<Longrightarrow> protector_reachable lib hash lower p'"

inductive_cases protector_stepE: "protector_step lib hash lower p p'"

definition work_ok :: "'b AuthProtector \<Rightarrow> bool" where
  "work_ok p \<longleftrightarrow> ap_passwordWorkCurrent p = count_if Not (ap_releases p) \<and> ap_passwordWorkCurrent p \<le> ap_passwordMaximumConcurrent p"

definition protector_inv :: "'b AuthProtector \<Rightarrow> bool" where
  "protector_inv p \<longleftrightarrow> guard_inv (ap_guard p) \<and> list_all attempt_ok (lg_attempts (ap_guard p)) \<and>
     list_all (\<lambda>(e, st). endpoint_ok st) (ap_endpointStates p) \<and> work_ok p"

lemma protector_invD:
  assumes "protector_inv p"
  shows "guard_inv (ap_guard p)" "list_all attempt_ok (lg_attempts (ap_guard p))"
    "list_all (\<lambda>(e, st). endpoint_ok st) (ap_endpointStates p)" "work_ok p"
  using assms by (simp_all add: protector_inv_def)

lemma cleanupLocked_simps [simp]:
  "lg_attempts (ap_guard (cleanupLocked now p)) = lg_attempts (ap_guard p)"
  "work_ok (cleanupLocked now p) = work_ok p"
  by (simp_all add: cleanupLocked_def work_ok_def)

lemma cleanupLocked_inv: "protector_inv p \<Longrightarrow> protector_inv (cleanupLocked now p)"
  unfolding protector_inv_def by (auto simp: cleanupLocked_def work_ok_def cleanup_guard_inv list_all_iff cleanupEndpoint_ok)

lemma list_all_update:
  assumes "list_all (\<lambda>(k, x). P x) m" "P y"
  shows "list_all (\<lambda>(k, x). P x) (AList.update k y m)"
  using assms by (induction m) auto

lemma capacity_pos: "0 < d \<Longrightarrow> 0 < m \<Longrightarrow> 0 < normalizeBoundedAuthCapacity v d m"
  by (simp add: normalizeBoundedAuthCapacity_def)

lemma capacity_le: "d \<le> m \<Longrightarrow> normalizeBoundedAuthCapacity v d m \<le> m"
  by (simp add: normalizeBoundedAuthCapacity_def)

lemma fallback_capacity: "0 < normalizeBoundedAuthCapacity v 16 1024" "normalizeBoundedAuthCapacity v 16 1024 < 2 ^ 64"
  by (simp_all add: normalizeBoundedAuthCapacity_def)

lemma new_endpoint_ok:
  assumes "0 < d"
  shows "endpoint_ok (newAuthEndpointState lib c (normalizeBoundedAuthCapacity v d 65536) (normalizeBoundedAuthCapacity w 16 1024))"
  using timed_okD(1) [OF newEndpoint_timed_ok [OF capacity_pos [OF assms] fallback_capacity], of 65536 0 lib c v w] by simp

lemma new_guard_attempts [simp]: "lg_attempts (new_guard thr w b m s u f) = []"
  by (simp add: new_guard_def)

lemma new_protector_inv:
  assumes "NewAuthProtector lib now secretBytes resolver config = Inr p"
  shows "protector_inv p"
  using assms unfolding NewAuthProtector_def Let_def map_sum_eq_Inr protector_inv_def work_ok_def auth_capacities
  apply (elim exE conjE)
  apply (simp only: AuthProtector.select_convs)
  apply (intro conjI)
  subgoal by (rule new_guard_inv) (auto simp: duration_defs capacity_pos fallback_capacity [simplified])
  subgoal by simp
  subgoal by (simp add: new_endpoint_ok)
  subgoal by simp
  subgoal by (simp add: capacity_pos order_less_imp_le)
  done

lemma allow_inv:
  assumes "protector_inv p"
  shows "protector_inv (snd (allowAuthRequest lib hash endpoint clientIP now p))"
proof -
  have c: "protector_inv (cleanupLocked now p)" by (rule cleanupLocked_inv [OF assms])
  show ?thesis
  proof (cases "lookup (ap_endpointStates (cleanupLocked now p)) endpoint")
    case None
    then show ?thesis using c by (simp add: allowAuthRequest_def Let_def)
  next
    case (Some st)
    then have "endpoint_ok st" using protector_invD(3) [OF c] by (auto simp: list_all_iff dest: map_of_SomeD)
    then have "endpoint_ok (snd (endpoint_allow lib hash clientIP now st))" by (rule endpoint_allow_ok)
    then show ?thesis using Some protector_invD [OF c] list_all_update
      by (auto simp: allowAuthRequest_def Let_def protector_inv_def work_ok_def split: prod.split)
  qed
qed

lemma attempt_inv:
  assumes inv: "protector_inv p" and b: "beginLoginAttempt lower hash username clientIP now p = Inr (res, p')"
  shows "protector_inv p'"
proof -
  let ?c = "cleanupLocked now p"
  have c: "protector_inv ?c" by (rule cleanupLocked_inv [OF inv])
  obtain g where g: "begin_attempt hash (loginFailureKey lower username clientIP) (normalizeLoginUsername lower username) now (ap_guard ?c) = Inr (res, g)"
    "p' = ?c\<lparr>ap_guard := g\<rparr>"
    using b by (auto simp: beginLoginAttempt_def Let_def split: sum.splits prod.splits)
  obtain r g' where r: "begin_attempt hash (loginFailureKey lower username clientIP) (normalizeLoginUsername lower username) now (ap_guard ?c) = Inr (r, g')"
    "guard_inv g'" "case r of Inl d \<Rightarrow> 0 < d \<and> lg_attempts g' = lg_attempts (ap_guard ?c)
     | Inr n \<Rightarrow> n = length (lg_attempts (ap_guard ?c)) \<and> (\<exists>t. lg_attempts g' = lg_attempts (ap_guard ?c) @ [t] \<and> \<not> la_completed t)"
    using begin_attempt_ok [OF protector_invD(1) [OF c]] .
  have eq: "r = res" "g' = g" using r(1) g(1) by simp_all
  have "list_all attempt_ok (lg_attempts g)"
  proof (cases res)
    case (Inl d)
    then show ?thesis using r(3) protector_invD(2) [OF c] by (simp add: eq)
  next
    case (Inr n)
    have "attempt_ok (last (lg_attempts g))" using begin_attempt_kind g(1) Inr by blast
    then show ?thesis using r(3) Inr protector_invD(2) [OF c] by (auto simp: eq)
  qed
  then show ?thesis using r(2) protector_invD(3,4) [OF c] by (simp add: eq g(2) protector_inv_def work_ok_def)
qed

lemma finish_inv:
  assumes inv: "protector_inv p" and n: "n < length (lg_attempts (ap_guard p))" and c: "attempt_complete n outcome now p = Inr p'"
  shows "protector_inv p'"
proof -
  obtain g where g: "complete_attempt n outcome now (ap_guard p) = Inr g" "guard_inv g"
    "lg_attempts g = (lg_attempts (ap_guard p))[n := (lg_attempts (ap_guard p) ! n)\<lparr>la_completed := True\<rparr>]"
    using complete_attempt_ok [OF protector_invD(1) [OF inv] n] .
  have "attempt_ok ((lg_attempts (ap_guard p) ! n)\<lparr>la_completed := True\<rparr>)"
    using protector_invD(2) [OF inv] n by (auto simp: list_all_iff attempt_ok_def)
  moreover have "list_all attempt_ok ((lg_attempts (ap_guard p))[n := t])" if "attempt_ok t" for t
    using protector_invD(2) [OF inv] that set_update_subset_insert [of "lg_attempts (ap_guard p)" n t]
    by (auto simp: list_all_iff)
  ultimately show ?thesis using c g protector_invD(3,4) [OF inv] by (auto simp: attempt_complete_def protector_inv_def work_ok_def)
qed

lemma work_inv:
  assumes "protector_inv p"
  shows "protector_inv (snd (tryAcquirePasswordWork p))" "protector_inv (passwordWorkRelease n p)"
  using protector_invD [OF assms]
  by (auto simp: protector_inv_def tryAcquirePasswordWork_def passwordWorkRelease_def work_ok_def count_if_update not_le)

lemma reachable_inv: "protector_reachable lib hash lower p \<Longrightarrow> protector_inv p"
proof (induction rule: protector_reachable.induct)
  case (start now secretBytes resolver config p)
  then show ?case by (rule new_protector_inv)
next
  case (step p p')
  from step(2,3) show ?case
    by (elim protector_stepE)
      (auto intro: allow_inv attempt_inv finish_inv work_inv simp: protector_inv_def [of "p\<lparr>ap_registrationProof := s\<rparr>" for s]
        work_ok_def dest: protector_invD)
qed

section \<open>Properties\<close>

lemma begin_total:
  assumes "protector_inv p"
  shows "\<exists>res p'. beginLoginAttempt lower hash username clientIP now p = Inr (res, p')"
proof -
  obtain r g' where "begin_attempt hash (loginFailureKey lower username clientIP) (normalizeLoginUsername lower username) now
      (ap_guard (cleanupLocked now p)) = Inr (r, g')"
    using begin_attempt_ok [OF protector_invD(1) [OF cleanupLocked_inv [OF assms]]] .
  then show ?thesis by (simp add: beginLoginAttempt_def Let_def)
qed

lemma finish_total:
  assumes "protector_inv p" "n < length (lg_attempts (ap_guard p))"
  shows "\<exists>p'. attempt_complete n outcome now p = Inr p'"
proof -
  obtain g' where "complete_attempt n outcome now (ap_guard p) = Inr g'"
    using complete_attempt_ok [OF protector_invD(1) [OF assms(1)] assms(2)] .
  then show ?thesis by (simp add: attempt_complete_def)
qed

text \<open>
  (C8) In every reachable state of the protector the failed-login bookkeeping is exact: the number of
  attempts in flight on an entry is the number of unfinished attempts that hold it, the entries they hold
  are those the registries and fallback slots hold, both registries stay within their capacity with
  \<open>currentEntries\<close> their true size, several concurrent attempts on one entry never exceed the failure
  threshold, password hashing in progress is the number of unreleased slots and at most the maximum, and
  neither beginning nor completing an attempt panics.
\<close>

theorem login_guard_exact:
  assumes "protector_reachable lib hash lower p"
  shows "let g = ap_guard p; unfinished = concat (map (\<lambda>t. if la_completed t then [] else
             [la_sourceReservation t, la_usernameReservation t]) (lg_attempts g)) in
    (\<forall>a < length (lg_heap g). lf_inFlightAttempts (lg_heap g ! a) = int (length (filter (\<lambda>r. lr_entry r = a) unfinished))) \<and>
    (\<forall>r \<in> set unfinished. if lr_fallback r then Some (lr_entry r) \<in> set (lg_usernameFailureFallbacks g)
       else lookup (fr_entries (registry (lr_username r) g)) (lr_key r) = Some (lr_entry r)) \<and>
    (\<forall>u. fr_currentEntries (registry u g) = int (length (fr_entries (registry u g))) \<and>
       fr_currentEntries (registry u g) \<le> fr_maximumEntries (registry u g)) \<and>
    (\<forall>e \<in> set (lg_heap g). lf_inFlightAttempts e \<le> 1 \<or> lf_failureCount e + lf_inFlightAttempts e \<le> lg_loginFailureThreshold g) \<and>
    ap_passwordWorkCurrent p = int (length (filter Not (ap_releases p))) \<and>
    ap_passwordWorkCurrent p \<le> ap_passwordMaximumConcurrent p \<and>
    (\<forall>username clientIP now. \<exists>res p'. beginLoginAttempt lower hash username clientIP now p = Inr (res, p')) \<and>
    (\<forall>n < length (lg_attempts g). \<forall>outcome now. \<exists>p'. attempt_complete n outcome now p = Inr p')"
proof -
  let ?g = "ap_guard p"
  have inv: "protector_inv p" by (rule reachable_inv [OF assms])
  have ok: "guard_ok {} (live ?g) ?g" using protector_invD(1) [OF inv] by (simp add: guard_inv_def)
  have live_eq: "concat (map (\<lambda>t. if la_completed t then [] else [la_sourceReservation t, la_usernameReservation t]) (lg_attempts ?g)) = live ?g"
    unfolding live_def live_of_def by (rule refl)
  have res: "if lr_fallback r then Some (lr_entry r) \<in> set (lg_usernameFailureFallbacks ?g)
       else lookup (fr_entries (registry (lr_username r) ?g)) (lr_key r) = Some (lr_entry r)" if "r \<in> set (live ?g)" for r
    using guard_okD(7) [OF ok that] guard_okD(2) [OF ok, of "lr_username r"]
    by (simp add: reservation_ok_def registry_ok_def lookup_Some_iff split: if_splits)
  have reg: "fr_currentEntries (registry u ?g) = int (length (fr_entries (registry u ?g)))"
      "fr_currentEntries (registry u ?g) \<le> fr_maximumEntries (registry u ?g)" for u
    using guard_okD(2) [OF ok, of u] by (simp_all add: registry_ok_def)
  have held: "lf_inFlightAttempts (lg_heap ?g ! a) = int (length (filter (\<lambda>r. lr_entry r = a) (live ?g)))"
    if "a < length (lg_heap ?g)" for a
    using guard_okD(6) [OF ok that] by (simp add: held_by_def count_if_def)
  have ent: "lf_inFlightAttempts e \<le> 1 \<or> lf_failureCount e + lf_inFlightAttempts e \<le> lg_loginFailureThreshold ?g"
    if "e \<in> set (lg_heap ?g)" for e using guard_okD(5) [OF ok that] by (simp add: entry_ok_def)
  have work: "ap_passwordWorkCurrent p = int (length (filter Not (ap_releases p)))" "ap_passwordWorkCurrent p \<le> ap_passwordMaximumConcurrent p"
    using protector_invD(4) [OF inv] by (simp_all add: work_ok_def count_if_def)
  show ?thesis unfolding Let_def live_eq
    by (intro conjI allI ballI impI; (rule held res reg ent work begin_total [OF inv] finish_total [OF inv]); assumption?)
qed

text \<open>
  The lockout computed for an entry is exactly the base lockout doubled for every failure past the
  threshold, eight times at most, capped by the maximum; it never panics and lies between the base and
  the maximum.
\<close>

theorem lockout_duration_exact:
  assumes "protector_reachable lib hash lower p"
  shows "let g = ap_guard p; d = min (lg_loginMaxLockout g) (lg_loginBaseLockout g * 2 ^ nat (min 8 (max 0 (n - lg_loginFailureThreshold g))))
     in lockoutDurationForFailures n g = Inr d \<and> 0 < lg_loginBaseLockout g \<and> lg_loginBaseLockout g \<le> d \<and> d \<le> lg_loginMaxLockout g"
proof -
  have "config_ok (ap_guard p)" using protector_invD(1) [OF reachable_inv [OF assms]] by (simp add: guard_inv_def guard_ok_def)
  from lockoutDuration_eq [OF this, of n] lockout_bounds [OF this, of n] this show ?thesis
    by (simp add: Let_def lockout_def config_ok_def)
qed

text \<open>
  Completing an unfinished attempt as failed counts one failure on both of its entries (starting
  again at one when the entry's failure window is over), dates it, locks the entry for the lockout of the
  new count when that reaches the threshold, gives back the attempt's place, and leaves both entries registered.
\<close>

theorem login_failure_recorded:
  assumes "protector_reachable lib hash lower p" and "n < length (lg_attempts (ap_guard p))"
    and "\<not> la_completed (lg_attempts (ap_guard p) ! n)"
  shows "\<exists>p'. attempt_complete n loginAttemptFailed now p = Inr p' \<and>
    (\<forall>r \<in> {la_sourceReservation (lg_attempts (ap_guard p) ! n), la_usernameReservation (lg_attempts (ap_guard p) ! n)}.
       let g = ap_guard p; e = lg_heap g ! lr_entry r;
           k = (case lf_lastFailure e of Some t \<Rightarrow> if t + lg_loginFailureWindow g \<le> now then 1 else lf_failureCount e + 1 | None \<Rightarrow> 1)
       in lg_heap (ap_guard p') ! lr_entry r = \<lparr>lf_failureCount = k, lf_lastFailure = Some now,
            lf_lockedUntil = (if lg_loginFailureThreshold g \<le> k then Some (now + lockout g k) else None),
            lf_inFlightAttempts = lf_inFlightAttempts e - 1\<rparr> \<and> reservation_ok (ap_guard p') r)"
proof -
  let ?g = "ap_guard p"
  let ?t = "lg_attempts ?g ! n"
  have inv: "protector_inv p" by (rule reachable_inv [OF assms(1)])
  have g: "guard_inv ?g" and kind: "attempt_ok ?t" using protector_invD [OF inv] assms(2) by (simp_all add: list_all_length)
  have ok: "guard_ok {} (live ?g) ?g" using g by (simp add: guard_inv_def)
  obtain p' where p': "attempt_complete n loginAttemptFailed now p = Inr p'" using finish_total [OF inv assms(2)] by blast
  then have c: "complete_attempt n loginAttemptFailed now ?g = Inr (ap_guard p')" by (auto simp: attempt_complete_def map_sum_eq_Inr)
  have "lg_heap (ap_guard p') ! lr_entry r = after_failure now ?g (lg_heap ?g ! lr_entry r) \<and> reservation_ok (ap_guard p') r"
    if "r \<in> {la_sourceReservation ?t, la_usernameReservation ?t}" for r
    by (rule complete_attempt_failed [OF g kind assms(2) refl assms(3) c]) (use that in simp)
  moreover have "failures_after now ?g e = (case lf_lastFailure e of Some t \<Rightarrow> if t + lg_loginFailureWindow ?g \<le> now then 1
      else lf_failureCount e + 1 | None \<Rightarrow> 1)" if "entry_ok ?g e" for e
    using that by (auto simp: failures_after_def window_over_def entry_ok_def split: option.splits)
  moreover have "entry_ok ?g (lg_heap ?g ! lr_entry r)" if "r \<in> {la_sourceReservation ?t, la_usernameReservation ?t}" for r
  proof -
    have "r \<in> set (live ?g)" using that assms(2,3) nth_mem [OF assms(2)] by (auto simp: live_def live_of_def)
    from guard_okD(5) [OF ok nth_mem [OF guard_okD(4) [OF ok reservation_ok_address [OF guard_okD(7) [OF ok this]]]]] show ?thesis .
  qed
  ultimately show ?thesis using p' by (simp add: after_failure_def Let_def)
qed

lemma cleanup_keeps_locked:
  assumes k: "(k, a) \<in> set (fr_entries (registry u (ap_guard p)))" and locked: "after (lf_lockedUntil (lg_heap (ap_guard p) ! a)) now"
  shows "(k, a) \<in> set (fr_entries (registry u (ap_guard (cleanupLocked now p))))"
    and "lg_heap (ap_guard (cleanupLocked now p)) = lg_heap (ap_guard p)"
  using assms by (auto simp: cleanupLocked_def cleanupLoginFailuresLocked_def cleanupUsernameFailuresLocked_def cleanup_registry_def
      registry_def removable_def Let_def)

text \<open>
  (C9) An entry with at least the threshold of failures refuses every login for its lockout: in a
  reachable state, before the last failure plus the lockout of the count, an attempt for that user name
  and client address (source registry), or for that user name from any address (user name registry), is
  refused with a positive wait, no attempt is admitted, and for the source registry the wait is what is
  left of the lockout.
\<close>

theorem login_lockout_enforced:
  assumes "protector_reachable lib hash lower p"
    and "lookup (fr_entries (registry u (ap_guard p)))
      (if u then normalizeLoginUsername lower username else loginFailureKey lower username clientIP) = Some a"
    and "lg_loginFailureThreshold (ap_guard p) \<le> lf_failureCount (lg_heap (ap_guard p) ! a)"
    and "lf_lastFailure (lg_heap (ap_guard p) ! a) = Some t"
    and "now < t + lockout (ap_guard p) (lf_failureCount (lg_heap (ap_guard p) ! a))"
  shows "\<exists>d p'. beginLoginAttempt lower hash username clientIP now p = Inr (Inl d, p') \<and> 0 < d \<and>
    lg_attempts (ap_guard p') = lg_attempts (ap_guard p) \<and>
    (\<not> u \<longrightarrow> d = t + lockout (ap_guard p) (lf_failureCount (lg_heap (ap_guard p) ! a)) - now)"
proof -
  let ?g = "ap_guard p" and ?c = "cleanupLocked now p"
  let ?key = "loginFailureKey lower username clientIP" and ?name = "normalizeLoginUsername lower username"
  have inv: "protector_inv p" by (rule reachable_inv [OF assms(1)])
  have ok: "guard_ok {} (live ?g) ?g" using protector_invD(1) [OF inv] by (simp add: guard_inv_def)
  have k: "(if u then ?name else ?key, a) \<in> set (fr_entries (registry u ?g))" using assms(2) by (rule map_of_SomeD)
  have "entry_ok ?g (lg_heap ?g ! a)" using guard_okD(5) [OF ok nth_mem [OF guard_okD(4) [OF ok in_addresses(1) [OF k]]]] .
  then have until: "lf_lockedUntil (lg_heap ?g ! a) = Some (t + lockout ?g (lf_failureCount (lg_heap ?g ! a)))"
    using assms(3,4) by (simp add: entry_ok_def)
  then have locked: "after (lf_lockedUntil (lg_heap ?g ! a)) now" using assms(5) by simp
  note kept = cleanup_keeps_locked [OF k locked]
  obtain d g' where "begin_attempt hash ?key ?name now (ap_guard ?c) = Inr (Inl d, g')" "0 < d"
    "lg_attempts g' = lg_attempts (ap_guard ?c)" "\<not> u \<Longrightarrow> d = the (lf_lockedUntil (lg_heap (ap_guard ?c) ! a)) - now"
    by (rule begin_attempt_locked [OF protector_invD(1) [OF cleanupLocked_inv [OF inv, of now]] kept(1), of now hash])
      (use locked kept(2) in auto)
  then show ?thesis using until kept(2) by (simp add: beginLoginAttempt_def Let_def)
qed

text \<open>
  However many requests arrive, from whatever addresses and however time passes, an endpoint keeps
  at most its capacity of dedicated buckets, one per address, with \<open>currentEntries\<close> their true number;
  and before the recorded time of the next check no bucket has expired, so skipping the scan keeps no
  expired bucket.
\<close>

theorem auth_endpoint_bounded:
  assumes "0 < maximumEntries" "0 < buckets" "buckets \<le> maximumAuthEndpointFallbackBuckets"
    and "s = fold (endpoint_step lib hash) requests (t, newAuthEndpointState lib limits maximumEntries buckets)"
  shows "int (length (es_entries (snd s))) \<le> maximumEntries \<and> distinct (map fst (es_entries (snd s))) \<and>
    es_currentEntries (snd s) = int (length (es_entries (snd s))) \<and>
    ((case es_nextExpiryCheck (snd s) of None \<Rightarrow> True | Some check \<Rightarrow> now \<le> check) \<longrightarrow>
      list_all (\<lambda>(ip, e). now \<le> re_lastSeen e + authRateLimiterIdleTTL) (es_entries (snd s)))"
proof -
  let ?s0 = "(t, newAuthEndpointState lib limits maximumEntries buckets)"
  have "timed_ok ?s0" by (rule newEndpoint_timed_ok) (use assms in \<open>auto simp: maximumAuthEndpointFallbackBuckets_def\<close>)
  note run = auth_endpoint.reg_run_inv [OF this, of lib hash requests] auth_endpoint.reg_run_bounded [OF this, of lib hash requests]
    auth_endpoint.reg_run_distinct [OF this, of lib hash requests]
  have "now \<le> re_lastSeen e + authRateLimiterIdleTTL"
    if "case es_nextExpiryCheck (snd s) of None \<Rightarrow> True | Some check \<Rightarrow> now \<le> check" "(ip, e) \<in> set (es_entries (snd s))" for ip e
    by (rule auth_endpoint.reg_no_entry_expired_before_check [OF run(1), of now ip e]) (use that assms(4) in \<open>auto split: option.splits\<close>)
  then show ?thesis using run timed_okD(1) [OF run(1)] assms(4)
    by (auto simp: newAuthEndpointState_def map_ok_def endpoint_ok_def list_all_iff)
qed

section \<open>Witnesses\<close>

text \<open>Token buckets that never refill, and a protector that locks after one failure.\<close>

definition demo_buckets :: "(int, bool, unit) reserve_lib" where
  "demo_buckets = \<lparr>rl_Limit = (\<lambda>_ _. ()), rl_NewLimiter = (\<lambda>_ burst. burst), rl_ReserveN = (\<lambda>b _ _. (0 < b, b - 1)),
     rl_OK = id, rl_DelayFrom = (\<lambda>_ _. 0), rl_CancelAt = (\<lambda>_ _ b. b)\<rparr>"

definition demo_auth_config :: AuthProtectorConfig where
  "demo_auth_config = \<lparr>pc_LoginIPRequestsPerMinute = 0, pc_LoginIPBurst = 0, pc_RegisterIPRequestsPerMinute = 0, pc_RegisterIPBurst = 0,
     pc_RegistrationProofDifficultyBits = 0, pc_RegistrationProofValidity = 0, pc_RegistrationProofMaxUsedChallenges = 0,
     pc_LoginFailureThreshold = 1, pc_LoginFailureWindow = 0, pc_LoginBaseLockout = 0, pc_LoginMaxLockout = 0,
     pc_LoginIPMaximumEntries = 0, pc_RegisterIPMaximumEntries = 0, pc_RegistrationChallengeIPMaximumEntries = 0,
     pc_LoginFailureMaximumEntries = 0, pc_UsernameFailureMaximumEntries = 0, pc_UsernameFailureFallbackBuckets = 0,
     pc_PasswordMaximumConcurrent = 0, pc_AuthEndpointFallbackBuckets = 1\<rparr>"

definition demo_protector :: "int AuthProtector" where
  "demo_protector = projr (NewAuthProtector demo_buckets 0 (Some ''0123456789abcdef0123456789abcdef'') demo_proxy_resolver demo_auth_config)"

definition demo_hash :: "string \<Rightarrow> 64 word" where "demo_hash s = of_nat (length s)"

definition demo_attempted :: "int AuthProtector" where
  "demo_attempted = snd (projr (beginLoginAttempt id demo_hash ''ann'' ''192.0.2.1'' 5 demo_protector))"

definition demo_locked :: "int AuthProtector" where
  "demo_locked = projr (attempt_complete 0 loginAttemptFailed 7 demo_attempted)"

lemma demo_protector_reachable: "protector_reachable demo_buckets demo_hash id demo_protector"
  by (rule protector_reachable.start [where now = 0 and secretBytes = "Some ''0123456789abcdef0123456789abcdef''"
        and resolver = demo_proxy_resolver and config = demo_auth_config])
    (simp add: demo_protector_def NewAuthProtector_def newRegistrationProofState_def Let_def)

lemma demo_attempted_reachable: "protector_reachable demo_buckets demo_hash id demo_attempted"
proof -
  obtain res p' where "beginLoginAttempt id demo_hash ''ann'' ''192.0.2.1'' 5 demo_protector = Inr (res, p')"
    using begin_total [OF reachable_inv [OF demo_protector_reachable]] by blast
  then show ?thesis
    by (intro protector_reachable.step [OF demo_protector_reachable] protector_step.attempt) (auto simp: demo_attempted_def)
qed

lemma demo_attempted_live: "length (lg_attempts (ap_guard demo_attempted)) = 1 \<and> \<not> la_completed (lg_attempts (ap_guard demo_attempted) ! 0)"
  by code_simp

lemma demo_locked_reachable: "protector_reachable demo_buckets demo_hash id demo_locked"
proof -
  obtain p' where "attempt_complete 0 loginAttemptFailed 7 demo_attempted = Inr p'"
    using finish_total [OF reachable_inv [OF demo_attempted_reachable], of 0] demo_attempted_live by auto
  then show ?thesis
    by (intro protector_reachable.step [OF demo_attempted_reachable] protector_step.finish [where n = 0])
      (use demo_attempted_live in \<open>auto simp: demo_locked_def\<close>)
qed

lemma demo_locked_entry:
  "lookup (fr_entries (registry True (ap_guard demo_locked))) (normalizeLoginUsername id ''ann'') = Some 1 \<and>
   lg_loginFailureThreshold (ap_guard demo_locked) \<le> lf_failureCount (lg_heap (ap_guard demo_locked) ! 1) \<and>
   lf_lastFailure (lg_heap (ap_guard demo_locked) ! 1) = Some 7 \<and>
   8 < 7 + lockout (ap_guard demo_locked) (lf_failureCount (lg_heap (ap_guard demo_locked) ! 1))"
  by code_simp

theorem login_lockout_enforced_witness:
  "\<exists>d p'. beginLoginAttempt id demo_hash ''ann'' ''198.51.100.7'' 8 demo_locked = Inr (Inl d, p') \<and> 0 < d \<and>
     lg_attempts (ap_guard p') = lg_attempts (ap_guard demo_locked)"
proof -
  note e = demo_locked_entry
  have k: "lookup (fr_entries (registry True (ap_guard demo_locked))) (if True then normalizeLoginUsername id ''ann''
      else loginFailureKey id ''ann'' ''198.51.100.7'') = Some 1" using e by simp
  from login_lockout_enforced [OF demo_locked_reachable k, of 7 8] show ?thesis using e by auto
qed

theorem login_guard_exact_witness:
  "ap_passwordWorkCurrent demo_attempted = int (length (filter Not (ap_releases demo_attempted))) \<and>
   lf_inFlightAttempts (lg_heap (ap_guard demo_attempted) ! 1) = 1"
proof -
  have "1 < length (lg_heap (ap_guard demo_attempted))" by code_simp
  moreover have "int (length (filter (\<lambda>r. lr_entry r = 1) (concat (map (\<lambda>t. if la_completed t then [] else
      [la_sourceReservation t, la_usernameReservation t]) (lg_attempts (ap_guard demo_attempted)))))) = 1" by code_simp
  ultimately show ?thesis
    using login_guard_exact [OF demo_attempted_reachable] unfolding Let_def by (elim conjE) (simp only: simp_thms)
qed

theorem lockout_duration_exact_witness:
  "lockoutDurationForFailures 3 (ap_guard demo_protector) = Inr (4 * Minute)"
proof -
  have "lg_loginMaxLockout (ap_guard demo_protector) = 15 * Minute \<and> lg_loginBaseLockout (ap_guard demo_protector) = Minute \<and>
      lg_loginFailureThreshold (ap_guard demo_protector) = 1" by code_simp
  then show ?thesis using lockout_duration_exact [OF demo_protector_reachable, of 3] by (simp add: Let_def duration_defs)
qed

theorem login_failure_recorded_witness:
  "\<exists>p'. attempt_complete 0 loginAttemptFailed 7 demo_attempted = Inr p' \<and>
     lf_failureCount (lg_heap (ap_guard p') ! lr_entry (la_usernameReservation (lg_attempts (ap_guard demo_attempted) ! 0))) = 1"
proof -
  have "lf_lastFailure (lg_heap (ap_guard demo_attempted) ! lr_entry (la_usernameReservation (lg_attempts (ap_guard demo_attempted) ! 0))) = None"
    by code_simp
  then show ?thesis
    using login_failure_recorded [OF demo_attempted_reachable, of 0 7] demo_attempted_live by (auto simp: Let_def)
qed

theorem auth_endpoint_bounded_witness:
  "int (length (es_entries (snd (fold (endpoint_step demo_buckets demo_hash) [(''192.0.2.1'', 1), (''192.0.2.2'', 0), (''192.0.2.33'', 2)]
     (0, newAuthEndpointState demo_buckets \<lparr>el_requestsPerMinute = 30, el_burst = 30\<rparr> 2 1))))) \<le> 2"
  by (rule auth_endpoint_bounded [OF _ _ _ refl, THEN conjunct1]) (simp_all add: maximumAuthEndpointFallbackBuckets_def)

end
