(* ===== verification/Panel_Session.thy ===== *)
theory Panel_Session
  imports Auth_Run Store Auth
begin

text \<open>
  The public and session handlers of the panel: login with its human verification, password change,
  session revocation, registration and its challenge (\<open>internal/panel/session_handlers.go\<close>,
  \<open>registration_handlers.go\<close>, \<open>turnstile.go\<close>, the answers of \<open>models.go\<close>). A handler is a function of the
  database and of the protector; the body arrives decoded, or with the answer \<open>decodeJSONBody\<close> wrote. bcrypt, the token library and
  Cloudflare's siteverify endpoint are parameters.
\<close>

section \<open>Requests and answers\<close>

record LoginRequest =
  lq_Username :: string
  lq_Password :: string
  lq_TurnstileToken :: string

record RegisterRequest =
  rq_Username :: string
  rq_Password :: string
  rq_InviteCode :: string
  rq_Proof :: RegistrationProof

record ChangePasswordRequest =
  cq_CurrentPassword :: string
  cq_NewPassword :: string

record UserResponse =
  usr_ID :: string
  usr_Username :: string
  usr_Role :: UserRole
  usr_Enabled :: bool
  usr_TierID :: string
  usr_TierName :: string
  usr_LimitsUnavailable :: bool
  usr_RPM :: int
  usr_SuccessLimit :: int
  usr_SuccessCalls :: int
  usr_CreatedAt :: time
  usr_UpdatedAt :: time

text \<open>\<open>LoginResponse\<close> and \<open>SessionReplacementResponse\<close> have the same fields.\<close>

record LoginResponse =
  lp_Token :: string
  lp_ExpiresAt :: time
  lp_User :: UserResponse

type_synonym SessionReplacementResponse = LoginResponse

record RegistrationSettingsResponse =
  rs_RegistrationMode :: RegistrationMode
  rs_TurnstileEnabled :: bool
  rs_TurnstileSiteKey :: string

definition toUserResponse :: "User \<Rightarrow> UserResponse" where
  "toUserResponse u = \<lparr>usr_ID = u_ID u, usr_Username = u_Username u, usr_Role = u_Role u, usr_Enabled = u_Enabled u,
     usr_TierID = u_TierID u, usr_TierName = [], usr_LimitsUnavailable = True, usr_RPM = 0, usr_SuccessLimit = 0,
     usr_SuccessCalls = u_SuccessCalls u, usr_CreatedAt = u_CreatedAt u, usr_UpdatedAt = u_UpdatedAt u\<rparr>"

definition toUserResponseWithTier :: "User \<Rightarrow> Tier option \<Rightarrow> UserResponse" where
  "toUserResponseWithTier u tier =
     (let resp = toUserResponse u
      in case tier of
           None \<Rightarrow> resp\<lparr>usr_LimitsUnavailable := True, usr_RPM := 0, usr_SuccessLimit := 0\<rparr>
         | Some t \<Rightarrow> resp\<lparr>usr_LimitsUnavailable := False, usr_TierName := t_Name t, usr_RPM := t_RPM t,
             usr_SuccessLimit := t_SuccessLimit t\<rparr>)"

definition loadUserTierForResponse :: "DB \<Rightarrow> User \<Rightarrow> Tier option" where
  "loadUserTierForResponse db user =
     (let tierID = TrimSpace (u_TierID user)
      in if tierID = [] then None
         else case GetTierByID tierID db of Inl _ \<Rightarrow> None | Inr tier \<Rightarrow> Some tier)"

section \<open>The handler and its libraries\<close>

record LoginVerificationSettings =
  lv_TurnstileEnabled :: bool
  lv_TurnstileSiteKey :: string
  lv_TurnstileSecretKey :: string

record TurnstileVerification =
  tv_SecretKey :: string
  tv_Token :: string
  tv_RemoteIP :: string
  tv_ExpectedAction :: string

datatype turnstile_error = errTurnstileRejected | errTurnstileOverloaded | TurnstileErrorf string

text \<open>
  \<open>pl_lower\<close> and \<open>pl_EqualFold\<close>: case mapping over the Unicode tables. \<open>pl_compare\<close> and \<open>pl_generate\<close>: the bcrypt calls of one request; \<open>pl_verify\<close>: the configured verifier
  during one request, \<open>None\<close> when it is nil.
\<close>

record panel_lib =
  pl_jwt :: jwt_lib
  pl_compare :: "string \<Rightarrow> string \<Rightarrow> bool"
  pl_generate :: "string \<Rightarrow> string option"
  pl_dummyBcryptHash :: string
  pl_verify :: "(TurnstileVerification \<Rightarrow> turnstile_error option) option"
  pl_lower :: "string \<Rightarrow> string"
  pl_EqualFold :: "string \<Rightarrow> string \<Rightarrow> bool"
  pl_hash :: "string \<Rightarrow> 64 word"
  pl_sha :: "string \<Rightarrow> string"
  pl_hmac :: "string \<Rightarrow> string \<Rightarrow> string"
  pl_crypto :: crypto

record Handler =
  h_JWTSecret :: string
  h_MaxAPIKeysPerUser :: int
  h_BootstrapAdminUsername :: string
  h_BootstrapCredentialCleaner :: bool
  h_InitialServerSettings :: Runtime
  h_LoginVerificationSettingsProvider :: "LoginVerificationSettings option"

text \<open>The clock readings of one request, in the order the handlers take them.\<close>

record clock =
  ck_begin :: time
  ck_store :: time
  ck_complete :: time
  ck_token :: time

definition turnstileLoginAction :: string where "turnstileLoginAction = ''login''"
definition maximumTurnstileTokenBytes :: nat where "maximumTurnstileTokenBytes = 2048"
definition maximumTurnstileResponseBytes :: nat where "maximumTurnstileResponseBytes = 65536"
definition turnstileRequiredErrorCode :: string where "turnstileRequiredErrorCode = ''turnstile_required''"
definition turnstileRejectedErrorCode :: string where "turnstileRejectedErrorCode = ''turnstile_rejected''"
definition turnstileUnavailableErrorCode :: string where "turnstileUnavailableErrorCode = ''turnstile_unavailable''"
definition turnstileOverloadedErrorCode :: string where "turnstileOverloadedErrorCode = ''turnstile_overloaded''"

section \<open>Human verification\<close>

text \<open>What the siteverify endpoint did with the request, and the decoded body.\<close>

record cloudflareTurnstileResponse =
  tr_Success :: bool
  tr_Action :: string
  tr_ErrorCodes :: "string list"

datatype siteverify_reply = SendFailed | Reply int "string option"

text \<open>The slots in use and the capacity of the admission channel.\<close>

record cloudflareTurnstileVerifier =
  tu_used :: nat
  tu_capacity :: nat

definition newCloudflareTurnstileVerifier :: "int \<Rightarrow> cloudflareTurnstileVerifier" where
  "newCloudflareTurnstileVerifier maximumConcurrentChecks =
     \<lparr>tu_used = 0, tu_capacity = nat (if maximumConcurrentChecks < 1 then 1 else maximumConcurrentChecks)\<rparr>"

definition classifyTurnstileFailure :: "(string \<Rightarrow> string) \<Rightarrow> string list \<Rightarrow> turnstile_error" where
  "classifyTurnstileFailure lower errorCodes =
     (if errorCodes = [] then TurnstileErrorf ''Turnstile verification failed without an error code''
      else
        let normalizedErrorCodes = filter (\<lambda>c. c \<noteq> []) (map (\<lambda>c. lower (TrimSpace c)) errorCodes);
            onlyClientTokenErrors = list_all (\<lambda>c. c = ''missing-input-response'' \<or> c = ''invalid-input-response'' \<or>
              c = ''timeout-or-duplicate'') normalizedErrorCodes
        in if normalizedErrorCodes = [] then TurnstileErrorf ''Turnstile verification failed without a usable error code''
           else if onlyClientTokenErrors then errTurnstileRejected
           else TurnstileErrorf (''Turnstile verification service error: '' @ Join (CHR '','') normalizedErrorCodes))"

text \<open>
  \<open>Verify\<close>: the slot is given back before the function returns, so that only a refused admission
  depends on the slots; \<open>decode\<close> is \<open>json.Unmarshal\<close> into the response, \<open>cancelled\<close> the error of the
  request context.
\<close>

definition turnstile_Verify ::
  "(string \<Rightarrow> string) \<Rightarrow> (string \<Rightarrow> cloudflareTurnstileResponse option) \<Rightarrow> (string list \<Rightarrow> siteverify_reply) \<Rightarrow> bool \<Rightarrow>
     cloudflareTurnstileVerifier \<Rightarrow> TurnstileVerification \<Rightarrow> turnstile_error option" where
  "turnstile_Verify lower decode send cancelled v verification =
     (if cancelled then Some (TurnstileErrorf ''Turnstile verification context'')
      else if tu_capacity v \<le> tu_used v then Some errTurnstileOverloaded
      else
        let form = [tv_SecretKey verification, tv_Token verification] @
              (if TrimSpace (tv_RemoteIP verification) \<noteq> [] then [tv_RemoteIP verification] else [])
        in case send form of
             SendFailed \<Rightarrow> Some (TurnstileErrorf ''send Turnstile verification request'')
           | Reply code body \<Rightarrow>
               if code < 200 \<or> 300 \<le> code then Some (TurnstileErrorf (''Turnstile verification returned HTTP '' @ Itoa code))
               else (case body of
                   None \<Rightarrow> Some (TurnstileErrorf ''read Turnstile verification response'')
                 | Some responseBody \<Rightarrow>
                     if maximumTurnstileResponseBytes < length responseBody
                     then Some (TurnstileErrorf ''Turnstile verification response exceeded size limit'')
                     else (case decode responseBody of
                         None \<Rightarrow> Some (TurnstileErrorf ''decode Turnstile verification response'')
                       | Some response \<Rightarrow>
                           if \<not> tr_Success response then Some (classifyTurnstileFailure lower (tr_ErrorCodes response))
                           else if tv_ExpectedAction verification \<noteq> [] \<and> tr_Action response \<noteq> tv_ExpectedAction verification
                           then Some errTurnstileRejected else None)))"

section \<open>Settings\<close>

definition loginVerificationSettingsFromServerSettings :: "('z) Runtime_scheme \<Rightarrow> LoginVerificationSettings" where
  "loginVerificationSettingsFromServerSettings s =
     \<lparr>lv_TurnstileEnabled = TurnstileEnabled s, lv_TurnstileSiteKey = TurnstileSiteKey s, lv_TurnstileSecretKey = TurnstileSecretKey s\<rparr>"

definition currentAuthenticationSettings :: "panel_lib \<Rightarrow> Handler \<Rightarrow> DB \<Rightarrow> store_error + Runtime" where
  "currentAuthenticationSettings lib h db =
     (case GetServerSettings (pl_crypto lib) db of
        Inl e \<Rightarrow> Inl e
      | Inr (Some stored) \<Rightarrow> Inr (Runtime.truncate stored)
      | Inr None \<Rightarrow> Inr (h_InitialServerSettings h))"

definition currentRegistrationMode :: "panel_lib \<Rightarrow> Handler \<Rightarrow> DB \<Rightarrow> store_error + RegistrationMode" where
  "currentRegistrationMode lib h db =
     (case currentAuthenticationSettings lib h db of
        Inl e \<Rightarrow> Inl e
      | Inr s \<Rightarrow> if rt_RegistrationMode s = [] then Inr RegistrationModeDisabled else NormalizeRegistrationMode (rt_RegistrationMode s))"

definition currentLoginVerificationSettings :: "panel_lib \<Rightarrow> Handler \<Rightarrow> DB \<Rightarrow> store_error + LoginVerificationSettings" where
  "currentLoginVerificationSettings lib h db =
     (case h_LoginVerificationSettingsProvider h of
        Some s \<Rightarrow> Inr s
      | None \<Rightarrow> map_sum id loginVerificationSettingsFromServerSettings (currentAuthenticationSettings lib h db))"

definition liveLoginVerificationSettings :: "Handler \<Rightarrow> Runtime \<Rightarrow> LoginVerificationSettings" where
  "liveLoginVerificationSettings h fallbackSettings =
     (case h_LoginVerificationSettingsProvider h of
        Some s \<Rightarrow> s | None \<Rightarrow> loginVerificationSettingsFromServerSettings fallbackSettings)"

definition registrationSettings :: "panel_lib \<Rightarrow> Handler \<Rightarrow> DB \<Rightarrow> RegistrationSettingsResponse answer" where
  "registrationSettings lib h db =
     (case currentAuthenticationSettings lib h db of
        Inl _ \<Rightarrow> Failure (writeError 500 ''failed to load registration settings'')
      | Inr s \<Rightarrow>
          (case (if rt_RegistrationMode s \<noteq> [] then NormalizeRegistrationMode (rt_RegistrationMode s) else Inr RegistrationModeDisabled) of
             Inl _ \<Rightarrow> Failure (writeError 500 ''failed to load registration settings'')
           | Inr registrationMode \<Rightarrow>
               let live = liveLoginVerificationSettings h s
               in Answer 200 \<lparr>rs_RegistrationMode = registrationMode, rs_TurnstileEnabled = lv_TurnstileEnabled live,
                    rs_TurnstileSiteKey = (if lv_TurnstileEnabled live then lv_TurnstileSiteKey live else [])\<rparr>))"

section \<open>Login\<close>

text \<open>\<open>None\<close>: the request may go on.\<close>

definition verifyLoginTurnstile :: "panel_lib \<Rightarrow> Handler \<Rightarrow> string \<Rightarrow> string \<Rightarrow> DB \<Rightarrow> panel_error option" where
  "verifyLoginTurnstile lib h token clientIP db =
     (let unavailable = writeCodedError 503 turnstileUnavailableErrorCode ''human verification temporarily unavailable''
      in case currentLoginVerificationSettings lib h db of
           Inl _ \<Rightarrow> Some unavailable
         | Inr s \<Rightarrow>
             if \<not> lv_TurnstileEnabled s then None
             else
               let trimmedSiteKey = TrimSpace (lv_TurnstileSiteKey s);
                   trimmedSecretKey = TrimSpace (lv_TurnstileSecretKey s)
               in case pl_verify lib of
                    None \<Rightarrow> Some unavailable
                  | Some verify \<Rightarrow>
                      if trimmedSiteKey = [] \<or> trimmedSecretKey = [] then Some unavailable
                      else
                        let trimmedToken = TrimSpace token
                        in if trimmedToken = [] then Some (writeCodedError 400 turnstileRequiredErrorCode ''human verification is required'')
                           else if maximumTurnstileTokenBytes < length trimmedToken
                           then Some (writeCodedError 400 turnstileRejectedErrorCode ''human verification failed'')
                           else (case verify \<lparr>tv_SecretKey = trimmedSecretKey, tv_Token = trimmedToken, tv_RemoteIP = clientIP,
                                   tv_ExpectedAction = turnstileLoginAction\<rparr> of
                               None \<Rightarrow> None
                             | Some errTurnstileRejected \<Rightarrow>
                                 Some (writeCodedError 400 turnstileRejectedErrorCode ''human verification failed'')
                             | Some err \<Rightarrow>
                                 Some (writeRetryAfter Second (writeCodedError 503
                                   (if err = errTurnstileOverloaded then turnstileOverloadedErrorCode else turnstileUnavailableErrorCode)
                                   ''human verification temporarily unavailable''))))"

definition errInvalidPanelAuthCredentials :: string where
  "errInvalidPanelAuthCredentials = ''username must be 1-128 bytes and password must be 8-72 bytes''"

definition session_answer :: "panel_lib \<Rightarrow> Handler \<Rightarrow> time \<Rightarrow> DB \<Rightarrow> User \<Rightarrow> LoginResponse answer" where
  "session_answer lib h now db user =
     (case IssuePanelToken (pl_jwt lib) now (h_JWTSecret h) user 0 of
        Inl _ \<Rightarrow> Failure (writeError 500 ''token issue failed'')
      | Inr (token, expiresAt) \<Rightarrow> Answer 200 \<lparr>lp_Token = token, lp_ExpiresAt = expiresAt,
          lp_User = toUserResponseWithTier user (loadUserTierForResponse db user)\<rparr>)"

text \<open>The part of \<open>login\<close> once the attempt \<open>n\<close> is admitted, up to its completion.\<close>

definition admitted_login ::
  "panel_lib \<Rightarrow> Handler \<Rightarrow> clock \<Rightarrow> string \<Rightarrow> string \<Rightarrow> DB \<Rightarrow> 'b AuthProtector \<Rightarrow>
     LoginResponse answer \<times> loginAttemptOutcome \<times> 'b AuthProtector" where
  "admitted_login lib h clk username password db p =
     (let user = (case GetUserByUsername (ck_store clk) username db of Inl _ \<Rightarrow> None | Inr u \<Rightarrow> u);
          hashToCheck = (case user of Some u \<Rightarrow> u_PasswordHash u | None \<Rightarrow> pl_dummyBcryptHash lib)
      in case tryAcquirePasswordWork p of
           (None, p1) \<Rightarrow> (Failure (writeRetryAfter Second (writeError 503 ''authentication temporarily unavailable'')),
             loginAttemptAbandoned, p1)
         | (Some w, p1) \<Rightarrow>
             let matches = pl_compare lib hashToCheck password; p2 = passwordWorkRelease w p1
             in case user of
                  None \<Rightarrow> (Failure (writeError 401 ''invalid credentials''), loginAttemptFailed, p2)
                | Some u \<Rightarrow>
                    if \<not> matches then (Failure (writeError 401 ''invalid credentials''), loginAttemptFailed, p2)
                    else if \<not> u_Enabled u then (Failure (writeError 403 ''user disabled''), loginAttemptFailed, p2)
                    else (session_answer lib h (ck_token clk) db u, loginAttemptSucceeded, p2))"

definition login ::
  "panel_lib \<Rightarrow> Handler \<Rightarrow> clock \<Rightarrow> Request \<Rightarrow> panel_error + LoginRequest \<Rightarrow> DB \<Rightarrow> 'b AuthProtector \<Rightarrow>
     panic + LoginResponse answer \<times> 'b AuthProtector" where
  "login lib h clk request body db p =
     (case body of
        Inl e \<Rightarrow> Inr (Failure e, p)
      | Inr loginRequest \<Rightarrow>
          (case validatePanelAuthCredentials (lq_Username loginRequest) (lq_Password loginRequest) of
             None \<Rightarrow> Inr (Failure (writeError 400 errInvalidPanelAuthCredentials), p)
           | Some username \<Rightarrow>
               (case clientIPForProtection request p of
                  Inl clientIPError \<Rightarrow> Inr (Failure (writeClientIPResolutionError clientIPError), p)
                | Inr clientIP \<Rightarrow>
                    (case verifyLoginTurnstile lib h (lq_TurnstileToken loginRequest) clientIP db of
                       Some e \<Rightarrow> Inr (Failure e, p)
                     | None \<Rightarrow>
                         (case beginLoginAttempt (pl_lower lib) (pl_hash lib) username clientIP (ck_begin clk) p of
                            Inl x \<Rightarrow> Inl x
                          | Inr (Inl retryAfter, p1) \<Rightarrow>
                              Inr (Failure (writeRetryAfter retryAfter (writeError 429 ''too many failed login attempts'')), p1)
                          | Inr (Inr n, p1) \<Rightarrow>
                              (case admitted_login lib h clk username (lq_Password loginRequest) db p1 of (ans, outcome, p2) \<Rightarrow>
                                 map_sum id (Pair ans) (attempt_complete n outcome (ck_complete clk) p2)))))))"

section \<open>Sessions\<close>

definition me :: "DB \<Rightarrow> time \<Rightarrow> Context \<Rightarrow> UserResponse answer" where
  "me db now ctx =
     (case ctx_User ctx of
        None \<Rightarrow> Failure (writeError 401 ''unauthorized'')
      | Some user \<Rightarrow>
          (case GetUserByID now (u_ID (au_User user)) db of
             Inl _ \<Rightarrow> Failure (writeError 500 ''failed to load user'')
           | Inr fresh \<Rightarrow> Answer 200 (toUserResponseWithTier fresh (loadUserTierForResponse db fresh))))"

text \<open>Whether the bootstrap credential file is asked to be removed.\<close>

definition removeBootstrapCredentialAfterPasswordChange :: "panel_lib \<Rightarrow> Handler \<Rightarrow> User \<Rightarrow> bool" where
  "removeBootstrapCredentialAfterPasswordChange lib h updatedUser =
     (if \<not> h_BootstrapCredentialCleaner h then False
      else
        let trimmed = TrimSpace (h_BootstrapAdminUsername h);
            bootstrapUsername = (if trimmed = [] then ''admin'' else trimmed)
        in pl_EqualFold lib (u_Username updatedUser) bootstrapUsername)"

definition writeReplacementSession :: "panel_lib \<Rightarrow> Handler \<Rightarrow> time \<Rightarrow> DB \<Rightarrow> User \<Rightarrow> SessionReplacementResponse answer" where
  "writeReplacementSession lib h now db updatedUser = session_answer lib h now db updatedUser"

definition changePassword ::
  "panel_lib \<Rightarrow> Handler \<Rightarrow> clock \<Rightarrow> Context \<Rightarrow> panel_error + ChangePasswordRequest \<Rightarrow> DB \<Rightarrow> 'b AuthProtector \<Rightarrow>
     SessionReplacementResponse answer \<times> bool \<times> DB \<times> 'b AuthProtector" where
  "changePassword lib h clk ctx body db p =
     (case ctx_User ctx of
        None \<Rightarrow> (Failure (writeError 401 ''unauthorized''), False, db, p)
      | Some authenticatedUser \<Rightarrow>
          (case body of
             Inl e \<Rightarrow> (Failure e, False, db, p)
           | Inr changeRequest \<Rightarrow>
               if \<not> validatePanelPassword (cq_CurrentPassword changeRequest)
               then (Failure (writeError 400 ''current_password must be 8-72 bytes''), False, db, p)
               else if \<not> validatePanelPassword (cq_NewPassword changeRequest)
               then (Failure (writeError 400 ''new_password must be 8-72 bytes''), False, db, p)
               else (case GetUserByID (ck_begin clk) (u_ID (au_User authenticatedUser)) db of
                   Inl _ \<Rightarrow> (Failure (writeError 500 ''failed to change password''), False, db, p)
                 | Inr currentUser \<Rightarrow>
                     (case tryAcquirePasswordWork p of
                        (None, p1) \<Rightarrow>
                          (Failure (writeRetryAfter Second (writeError 503 ''authentication temporarily unavailable'')), False, db, p1)
                      | (Some w, p1) \<Rightarrow>
                          let p2 = passwordWorkRelease w p1
                          in if \<not> pl_compare lib (u_PasswordHash currentUser) (cq_CurrentPassword changeRequest)
                             then (Failure (writeError 400 ''current password is incorrect''), False, db, p2)
                             else (case pl_generate lib (cq_NewPassword changeRequest) of
                                 None \<Rightarrow> (Failure (writeError 500 ''failed to change password''), False, db, p2)
                               | Some replacementHash \<Rightarrow>
                                   (case UpdateUser (ck_store clk) (u_ID currentUser) \<lparr>uu_Enabled = None, uu_Role = None, uu_TierID = None,
                                         uu_RevokeTokens = Some True, uu_PasswordHash = Some replacementHash\<rparr> db of
                                      (Inl _, db') \<Rightarrow> (Failure (writeError 500 ''failed to change password''), False, db', p2)
                                    | (Inr updatedUser, db') \<Rightarrow>
                                        (writeReplacementSession lib h (ck_token clk) db' updatedUser,
                                         removeBootstrapCredentialAfterPasswordChange lib h updatedUser, db', p2)))))))"

definition revokeSessions ::
  "panel_lib \<Rightarrow> Handler \<Rightarrow> clock \<Rightarrow> Context \<Rightarrow> DB \<Rightarrow> SessionReplacementResponse answer \<times> DB" where
  "revokeSessions lib h clk ctx db =
     (case ctx_User ctx of
        None \<Rightarrow> (Failure (writeError 401 ''unauthorized''), db)
      | Some authenticatedUser \<Rightarrow>
          (case UpdateUser (ck_store clk) (u_ID (au_User authenticatedUser)) \<lparr>uu_Enabled = None, uu_Role = None, uu_TierID = None,
                uu_RevokeTokens = Some True, uu_PasswordHash = None\<rparr> db of
             (Inl _, db') \<Rightarrow> (Failure (writeError 500 ''failed to revoke sessions''), db')
           | (Inr updatedUser, db') \<Rightarrow> (writeReplacementSession lib h (ck_token clk) db' updatedUser, db')))"

section \<open>Registration\<close>

definition registrationChallenge ::
  "panel_lib \<Rightarrow> Handler \<Rightarrow> time \<Rightarrow> string option \<Rightarrow> DB \<Rightarrow> 'b AuthProtector \<Rightarrow> RegistrationChallengeResponse answer" where
  "registrationChallenge lib h now randomBytes db p =
     (case currentRegistrationMode lib h db of
        Inl _ \<Rightarrow> Failure (writeError 500 ''registration failed'')
      | Inr registrationMode \<Rightarrow>
          if registrationMode = RegistrationModeDisabled then Failure (writeError 403 ''registration is disabled'')
          else (case issue (pl_hmac lib) now randomBytes (ap_registrationProof p) of
              Inl _ \<Rightarrow> Failure (writeError 500 ''registration failed'')
            | Inr challenge \<Rightarrow> Answer 200 challenge))"

fun registrationProofError_Error :: "registrationProofError \<Rightarrow> string" where
  "registrationProofError_Error errRegistrationProofRequired = ''registration proof is required''"
| "registrationProofError_Error errRegistrationProofInvalid = ''registration proof is invalid''"
| "registrationProofError_Error errRegistrationProofExpired = ''registration proof expired''"
| "registrationProofError_Error errRegistrationProofReplayed = ''registration proof already used''"
| "registrationProofError_Error errRegistrationProofCapacity = ''registration proof replay capacity exhausted''"

definition registration_failure :: "store_error \<Rightarrow> panel_error" where
  "registration_failure err =
     (if err = ErrRegistrationDisabled then writeError 403 ''registration is disabled''
      else if err = ErrUsernameTaken then writeError 409 ''username already taken''
      else if err = ErrInviteCodeInvalid then writeError 400 ''valid invite code is required''
      else if err = ErrInviteCodeDisabled then writeError 403 ''invite code is disabled''
      else if err = ErrInviteCodeExhausted then writeError 403 ''invite code registration limit reached''
      else writeError 500 ''registration failed'')"

text \<open>The checks before the password is hashed.\<close>

definition registration_precheck :: "panel_lib \<Rightarrow> time \<Rightarrow> RegistrationMode \<Rightarrow> string \<Rightarrow> string \<Rightarrow> DB \<Rightarrow> panel_error option" where
  "registration_precheck lib now registrationMode username inviteCode db =
     (if registrationMode = RegistrationModeInvite
      then (if InviteCodeExists (pl_crypto lib) inviteCode db then None else Some (writeError 400 ''valid invite code is required''))
      else (case GetUserByUsername now username db of
          Inl _ \<Rightarrow> Some (writeError 500 ''registration failed'')
        | Inr (Some _) \<Rightarrow> Some (writeError 409 ''username already taken'')
        | Inr None \<Rightarrow> None))"

text \<open>The part of \<open>register\<close> that hashes the password and creates the user.\<close>

definition hash_and_create ::
  "panel_lib \<Rightarrow> clock \<Rightarrow> entropy \<Rightarrow> entropy \<Rightarrow> RegistrationMode \<Rightarrow> string \<Rightarrow> RegisterRequest \<Rightarrow> DB \<Rightarrow> 'b AuthProtector \<Rightarrow>
     UserResponse answer \<times> DB \<times> 'b AuthProtector" where
  "hash_and_create lib clk idBytes redemptionBytes registrationMode username registerRequest db p1 =
     (case tryAcquirePasswordWork p1 of
        (None, p2) \<Rightarrow> (Failure (writeRetryAfter Second (writeError 503 ''registration temporarily unavailable'')), db, p2)
      | (Some w, p2) \<Rightarrow>
          let p3 = passwordWorkRelease w p2
          in case pl_generate lib (rq_Password registerRequest) of
               None \<Rightarrow> (Failure (writeError 500 ''password hash failed''), db, p3)
             | Some passwordHash \<Rightarrow>
                 (case RegisterUserWithCurrentMode (pl_crypto lib) idBytes redemptionBytes (ck_store clk) username
                        passwordHash (rq_InviteCode registerRequest) registrationMode db of
                    (Inl err, db') \<Rightarrow> (Failure (registration_failure err), db', p3)
                  | (Inr user, db') \<Rightarrow>
                      (Answer 201 (toUserResponseWithTier user (loadUserTierForResponse db' user)), db', p3)))"

definition register ::
  "panel_lib \<Rightarrow> Handler \<Rightarrow> clock \<Rightarrow> entropy \<Rightarrow> entropy \<Rightarrow> panel_error + RegisterRequest \<Rightarrow> DB \<Rightarrow> 'b AuthProtector \<Rightarrow>
     UserResponse answer \<times> DB \<times> 'b AuthProtector" where
  "register lib h clk idBytes redemptionBytes body db p =
     (case body of
        Inl e \<Rightarrow> (Failure e, db, p)
      | Inr registerRequest \<Rightarrow>
          (case currentRegistrationMode lib h db of
             Inl _ \<Rightarrow> (Failure (writeError 500 ''registration failed''), db, p)
           | Inr registrationMode \<Rightarrow>
               if registrationMode = RegistrationModeDisabled then (Failure (writeError 403 ''registration is disabled''), db, p)
               else (case validatePanelAuthCredentials (rq_Username registerRequest) (rq_Password registerRequest) of
                   None \<Rightarrow> (Failure (writeError 400 errInvalidPanelAuthCredentials), db, p)
                 | Some username \<Rightarrow>
                     (case verifyAndConsume (pl_sha lib) (pl_hmac lib) (ck_begin clk) (rq_Proof registerRequest) username
                            (rq_InviteCode registerRequest) (ap_registrationProof p) of
                        (Some err, s) \<Rightarrow>
                          (Failure (if err = errRegistrationProofCapacity then writeError 503 ''registration temporarily unavailable''
                             else writeError 400 (registrationProofError_Error err)), db, p\<lparr>ap_registrationProof := s\<rparr>)
                      | (None, s) \<Rightarrow>
                          (case registration_precheck lib (ck_begin clk) registrationMode username (rq_InviteCode registerRequest) db of
                             Some e \<Rightarrow> (Failure e, db, p\<lparr>ap_registrationProof := s\<rparr>)
                           | None \<Rightarrow> hash_and_create lib clk idBytes redemptionBytes registrationMode username registerRequest db
                               (p\<lparr>ap_registrationProof := s\<rparr>))))))"

section \<open>Resources of a request\<close>

lemma acquire_release:
  assumes "tryAcquirePasswordWork p = (Some w, p1)"
  shows "ap_passwordWorkCurrent (passwordWorkRelease w p1) = ap_passwordWorkCurrent p"
    "ap_guard (passwordWorkRelease w p1) = ap_guard p"
    "ap_registrationProof (passwordWorkRelease w p1) = ap_registrationProof p"
  using assms by (auto simp: tryAcquirePasswordWork_def passwordWorkRelease_def split: if_splits)

lemma acquire_refused:
  assumes "tryAcquirePasswordWork p = (None, p1)"
  shows "ap_passwordWorkCurrent p1 = ap_passwordWorkCurrent p" "ap_guard p1 = ap_guard p" "ap_registrationProof p1 = ap_registrationProof p"
  using assms by (auto simp: tryAcquirePasswordWork_def split: if_splits)

lemma acquire_reachable:
  assumes "protector_reachable rl hash lower p" "tryAcquirePasswordWork p = (r, p1)"
  shows "protector_reachable rl hash lower p1" "protector_reachable rl hash lower (passwordWorkRelease w p1)"
proof -
  show r: "protector_reachable rl hash lower p1"
    using protector_reachable.step [OF assms(1) protector_step.acquire] assms(2) by simp
  show "protector_reachable rl hash lower (passwordWorkRelease w p1)"
    by (rule protector_reachable.step [OF r protector_step.release])
qed

definition unfinished :: "'b AuthProtector \<Rightarrow> loginAttempt list" where
  "unfinished p = filter (\<lambda>t. \<not> la_completed t) (lg_attempts (ap_guard p))"

text \<open>What an admitted login answers, and the outcome it reports.\<close>

lemma admitted_login_cases:
  assumes "admitted_login lib h clk username password db p = (ans, outcome, p')"
  shows "ap_guard p' = ap_guard p" "ap_passwordWorkCurrent p' = ap_passwordWorkCurrent p"
    "protector_reachable rl hash lower p \<Longrightarrow> protector_reachable rl hash lower p'"
    "outcome = loginAttemptSucceeded \<longleftrightarrow> (\<exists>u. GetUserByUsername (ck_store clk) username db = Inr (Some u) \<and> u_Enabled u \<and>
       pl_compare lib (u_PasswordHash u) password \<and> ap_passwordWorkCurrent p < ap_passwordMaximumConcurrent p \<and>
       ans = session_answer lib h (ck_token clk) db u)"
    "outcome \<noteq> loginAttemptSucceeded \<Longrightarrow> \<exists>e. ans = Failure e \<and> pe_status e \<in> {401, 403, 503} \<and>
       (outcome = loginAttemptFailed \<longleftrightarrow> pe_status e \<noteq> 503)"
proof -
  obtain r p1 where t: "tryAcquirePasswordWork p = (r, p1)" by fastforce
  have full: "r = None \<longleftrightarrow> \<not> ap_passwordWorkCurrent p < ap_passwordMaximumConcurrent p"
    using t by (auto simp: tryAcquirePasswordWork_def split: if_splits)
  have p': "p' = (case r of None \<Rightarrow> p1 | Some w \<Rightarrow> passwordWorkRelease w p1)"
    using assms by (auto simp: admitted_login_def t Let_def split: option.splits if_splits)
  show "ap_guard p' = ap_guard p" "ap_passwordWorkCurrent p' = ap_passwordWorkCurrent p"
    using t acquire_refused [of p p1] acquire_release [of p _ p1] by (auto simp: p' split: option.splits)
  show "protector_reachable rl hash lower p'" if "protector_reachable rl hash lower p"
    using acquire_reachable [OF that t] by (simp add: p' split: option.split)
  show "outcome = loginAttemptSucceeded \<longleftrightarrow> (\<exists>u. GetUserByUsername (ck_store clk) username db = Inr (Some u) \<and> u_Enabled u \<and>
       pl_compare lib (u_PasswordHash u) password \<and> ap_passwordWorkCurrent p < ap_passwordMaximumConcurrent p \<and>
       ans = session_answer lib h (ck_token clk) db u)"
    using assms full by (auto simp: admitted_login_def t Let_def split: option.splits sum.splits if_splits)
  show "\<exists>e. ans = Failure e \<and> pe_status e \<in> {401, 403, 503} \<and> (outcome = loginAttemptFailed \<longleftrightarrow> pe_status e \<noteq> 503)"
    if "outcome \<noteq> loginAttemptSucceeded"
    using assms that by (auto simp: admitted_login_def t Let_def writeError_def writeCodedError_def writeRetryAfter_def
        split: option.splits if_splits)
qed

lemma begin_reachable:
  assumes "protector_reachable rl hash lower p" "beginLoginAttempt lower hash username clientIP now p = Inr (res, p1)"
  shows "protector_reachable rl hash lower p1" "ap_passwordWorkCurrent p1 = ap_passwordWorkCurrent p"
    "case res of Inl d \<Rightarrow> 0 < d \<and> unfinished p1 = unfinished p
     | Inr n \<Rightarrow> n < length (lg_attempts (ap_guard p1)) \<and> \<not> la_completed (lg_attempts (ap_guard p1) ! n) \<and>
         unfinished (p1\<lparr>ap_guard := (ap_guard p1)\<lparr>lg_attempts := (lg_attempts (ap_guard p1))[n := (lg_attempts (ap_guard p1) ! n)\<lparr>la_completed := True\<rparr>]\<rparr>\<rparr>) = unfinished p"
proof -
  let ?c = "cleanupLocked now p"
  show "protector_reachable rl hash lower p1"
    by (rule protector_reachable.step [OF assms(1) protector_step.attempt [OF assms(2)]])
  have c: "protector_inv ?c" by (rule cleanupLocked_inv [OF reachable_inv [OF assms(1)]])
  obtain r g' where g: "begin_attempt hash (loginFailureKey lower username clientIP) (normalizeLoginUsername lower username) now (ap_guard ?c) = Inr (r, g')"
    "guard_inv g'" "case r of Inl d \<Rightarrow> 0 < d \<and> lg_attempts g' = lg_attempts (ap_guard ?c)
     | Inr n \<Rightarrow> n = length (lg_attempts (ap_guard ?c)) \<and> (\<exists>t. lg_attempts g' = lg_attempts (ap_guard ?c) @ [t] \<and> \<not> la_completed t)"
    using begin_attempt_ok [OF protector_invD(1) [OF c]] .
  have p1: "res = r" "p1 = ?c\<lparr>ap_guard := g'\<rparr>" using assms(2) g(1) by (auto simp: beginLoginAttempt_def Let_def)
  show "ap_passwordWorkCurrent p1 = ap_passwordWorkCurrent p" by (simp add: p1 cleanupLocked_def)
  show "case res of Inl d \<Rightarrow> 0 < d \<and> unfinished p1 = unfinished p
     | Inr n \<Rightarrow> n < length (lg_attempts (ap_guard p1)) \<and> \<not> la_completed (lg_attempts (ap_guard p1) ! n) \<and>
         unfinished (p1\<lparr>ap_guard := (ap_guard p1)\<lparr>lg_attempts := (lg_attempts (ap_guard p1))[n := (lg_attempts (ap_guard p1) ! n)\<lparr>la_completed := True\<rparr>]\<rparr>\<rparr>) = unfinished p"
  proof (cases r)
    case (Inl d)
    then show ?thesis using g(3) by (simp add: p1 unfinished_def)
  next
    case (Inr n)
    then obtain t where "n = length (lg_attempts (ap_guard p))" "lg_attempts g' = lg_attempts (ap_guard p) @ [t]" "\<not> la_completed t"
      using g(3) by auto
    then show ?thesis using Inr by (simp add: p1 unfinished_def)
  qed
qed

section \<open>Properties\<close>

lemma attempt_complete_frame:
  assumes r: "protector_reachable rl hash lower p" and n: "n < length (lg_attempts (ap_guard p))"
  obtains p' where "attempt_complete n outcome now p = Inr p'" "protector_reachable rl hash lower p'"
    "ap_passwordWorkCurrent p' = ap_passwordWorkCurrent p"
    "lg_attempts (ap_guard p') = (lg_attempts (ap_guard p))[n := (lg_attempts (ap_guard p) ! n)\<lparr>la_completed := True\<rparr>]"
proof -
  obtain g where g: "complete_attempt n outcome now (ap_guard p) = Inr g"
    "lg_attempts g = (lg_attempts (ap_guard p))[n := (lg_attempts (ap_guard p) ! n)\<lparr>la_completed := True\<rparr>]"
    using complete_attempt_ok [OF protector_invD(1) [OF reachable_inv [OF r]] n] by metis
  then have c: "attempt_complete n outcome now p = Inr (p\<lparr>ap_guard := g\<rparr>)" by (simp add: attempt_complete_def)
  show ?thesis by (rule that [OF c protector_reachable.step [OF r protector_step.finish [OF n c]]]) (simp_all add: g)
qed

lemma session_answer_Answer:
  "session_answer lib h now db u = Answer code response \<Longrightarrow> code = 200 \<and>
     IssuePanelToken (pl_jwt lib) now (h_JWTSecret h) u 0 = Inr (lp_Token response, lp_ExpiresAt response)"
  by (auto simp: session_answer_def split: sum.splits)

lemma found_user:
  "GetUserByUsername now username db = Inr (Some u) \<Longrightarrow>
     \<exists>v \<in> set (users db). u = scanUser now v \<and> nocase (u_Username v) = nocase (TrimSpace username)"
  by (auto simp: GetUserByUsername_def dest!: find_Some_set)

text \<open>
  (C11) From every reachable state of the protector a login request is answered without a panic and
  leaves no attempt open and no password slot taken. A token is handed out only to a client whose address
  resolved, whose human verification was accepted when that is switched on, and who gave the password of
  an enabled stored user of that name; the token is the one signed for that user.
\<close>

theorem login_sound:
  assumes reach: "protector_reachable rl (pl_hash lib) (pl_lower lib) p"
  shows "\<exists>ans p'. login lib h clk request body db p = Inr (ans, p') \<and>
    protector_reachable rl (pl_hash lib) (pl_lower lib) p' \<and>
    ap_passwordWorkCurrent p' = ap_passwordWorkCurrent p \<and> unfinished p' = unfinished p \<and>
    (\<forall>code response. ans = Answer code response \<longrightarrow> code = 200 \<and>
      (\<exists>q u clientIP. body = Inr q \<and> clientIPForProtection request p = Inr clientIP \<and>
        verifyLoginTurnstile lib h (lq_TurnstileToken q) clientIP db = None \<and>
        u \<in> set (users db) \<and> nocase (u_Username u) = nocase (TrimSpace (lq_Username q)) \<and> u_Enabled u \<and>
        pl_compare lib (u_PasswordHash u) (lq_Password q) \<and>
        IssuePanelToken (pl_jwt lib) (ck_token clk) (h_JWTSecret h) (scanUser (ck_store clk) u) 0 =
          Inr (lp_Token response, lp_ExpiresAt response)))"
proof (cases "\<exists>e. login lib h clk request body db p = Inr (Failure e, p)")
  case True
  then show ?thesis using reach by auto
next
  case False
  then obtain q username clientIP where q: "body = Inr q" "validatePanelAuthCredentials (lq_Username q) (lq_Password q) = Some username"
    "clientIPForProtection request p = Inr clientIP" "verifyLoginTurnstile lib h (lq_TurnstileToken q) clientIP db = None"
    by (auto simp: login_def split: sum.splits option.splits)
  have name: "TrimSpace username = TrimSpace (lq_Username q)"
    using q(2) by (auto simp: validatePanelAuthCredentials_def Let_def split: if_splits)
  obtain res p1 where b: "beginLoginAttempt (pl_lower lib) (pl_hash lib) username clientIP (ck_begin clk) p = Inr (res, p1)"
    using begin_total [OF reachable_inv [OF reach]] by blast
  note b1 = begin_reachable [OF reach b]
  show ?thesis
  proof (cases res)
    case (Inl d)
    then show ?thesis using b b1 q by (simp add: login_def)
  next
    case (Inr n)
    obtain ans outcome p2 where a: "admitted_login lib h clk username (lq_Password q) db p1 = (ans, outcome, p2)"
      using prod_cases3 by blast
    note a1 = admitted_login_cases [OF a]
    have n: "n < length (lg_attempts (ap_guard p2))" using b1(3) Inr a1(1) by simp
    obtain p3 where c: "attempt_complete n outcome (ck_complete clk) p2 = Inr p3" "protector_reachable rl (pl_hash lib) (pl_lower lib) p3"
      "ap_passwordWorkCurrent p3 = ap_passwordWorkCurrent p2"
      "lg_attempts (ap_guard p3) = (lg_attempts (ap_guard p2))[n := (lg_attempts (ap_guard p2) ! n)\<lparr>la_completed := True\<rparr>]"
      using attempt_complete_frame [OF a1(3) [OF b1(1)] n] .
    have login: "login lib h clk request body db p = Inr (ans, p3)" using q b Inr a c(1) by (simp add: login_def)
    have un: "unfinished p3 = unfinished p" using b1(3) Inr c(4) a1(1) by (simp add: unfinished_def)
    have "code = 200 \<and> (\<exists>u. u \<in> set (users db) \<and> nocase (u_Username u) = nocase (TrimSpace (lq_Username q)) \<and> u_Enabled u \<and>
        pl_compare lib (u_PasswordHash u) (lq_Password q) \<and>
        IssuePanelToken (pl_jwt lib) (ck_token clk) (h_JWTSecret h) (scanUser (ck_store clk) u) 0 =
          Inr (lp_Token response, lp_ExpiresAt response))" if ans: "ans = Answer code response" for code response
    proof -
      have "outcome = loginAttemptSucceeded" using a1(5) ans by auto
      then obtain v where v: "GetUserByUsername (ck_store clk) username db = Inr (Some v)" "u_Enabled v"
        "pl_compare lib (u_PasswordHash v) (lq_Password q)" "ans = session_answer lib h (ck_token clk) db v"
        using a1(4) by blast
      from found_user [OF v(1)] show ?thesis using v(2-4) ans name session_answer_Answer [of lib h "ck_token clk" db v code response] by auto
    qed
    then show ?thesis using login c(2,3) un a1(2) b1(2) q by auto
  qed
qed

text \<open>
  (C12) Registration through the panel: an answer 201 means that the proof of work of the request was
  accepted and consumed for that user name and invite code, that the mode in force allows registration,
  and that exactly one ordinary user of that name with the hash of that password was added; any other
  answer leaves the database as it was. No password slot stays taken.
\<close>

theorem register_sound:
  assumes reg: "register lib h clk idBytes redemptionBytes body db p = (ans, db', p')"
  shows "ap_passwordWorkCurrent p' = ap_passwordWorkCurrent p \<and> ap_guard p' = ap_guard p \<and>
    (case ans of Failure e \<Rightarrow> db' = db
     | Answer code response \<Rightarrow> code = 201 \<and>
        (\<exists>q mode u. body = Inr q \<and> validatePanelAuthCredentials (rq_Username q) (rq_Password q) = Some (u_Username u) \<and>
          verifyAndConsume (pl_sha lib) (pl_hmac lib) (ck_begin clk) (rq_Proof q) (u_Username u) (rq_InviteCode q)
            (ap_registrationProof p) = (None, ap_registrationProof p') \<and>
          currentRegistrationMode lib h db = Inr mode \<and> mode \<noteq> RegistrationModeDisabled \<and>
          readRegistrationMode mode db \<in> {Inr RegistrationModeFree, Inr RegistrationModeInvite} \<and>
          users db' = users db @ [u] \<and> u_Role u = RoleUser \<and> pl_generate lib (rq_Password q) = Some (u_PasswordHash u) \<and>
          (\<forall>v \<in> set (users db). nocase (u_Username v) \<noteq> nocase (u_Username u))))"
proof (cases "\<exists>e s. register lib h clk idBytes redemptionBytes body db p = (Failure e, db, p\<lparr>ap_registrationProof := s\<rparr>)")
  case True
  then show ?thesis using reg by auto
next
  case False
  have same: "p\<lparr>ap_registrationProof := ap_registrationProof p\<rparr> = p" by simp
  obtain q mode username s where q: "body = Inr q" "currentRegistrationMode lib h db = Inr mode" "mode \<noteq> RegistrationModeDisabled"
    "validatePanelAuthCredentials (rq_Username q) (rq_Password q) = Some username"
    "verifyAndConsume (pl_sha lib) (pl_hmac lib) (ck_begin clk) (rq_Proof q) username (rq_InviteCode q) (ap_registrationProof p) = (None, s)"
    "register lib h clk idBytes redemptionBytes body db p =
       hash_and_create lib clk idBytes redemptionBytes mode username q db (p\<lparr>ap_registrationProof := s\<rparr>)"
    using False same unfolding register_def
    by (auto split: sum.splits option.splits if_splits prod.splits) (metis same)+
  let ?p = "p\<lparr>ap_registrationProof := s\<rparr>"
  have name: "TrimSpace username = username"
    using q(4) by (auto simp: validatePanelAuthCredentials_def Let_def split: if_splits)
  obtain w p2 where t: "tryAcquirePasswordWork ?p = (w, p2)" by fastforce
  note work = acquire_refused [of ?p p2] acquire_release [of ?p _ p2]
  have frame: "ap_passwordWorkCurrent p' = ap_passwordWorkCurrent p \<and> ap_guard p' = ap_guard p \<and> ap_registrationProof p' = s"
    using reg t work unfolding q(6) hash_and_create_def by (auto simp: Let_def split: option.splits prod.splits sum.splits)
  show ?thesis
  proof (cases ans)
    case (Failure e)
    have "db' = db" using reg t Failure unfolding q(6) hash_and_create_def
      by (auto simp: Let_def split: option.splits prod.splits sum.splits elim: Register_cases)
    then show ?thesis using frame Failure by simp
  next
    case (Answer code response)
    then obtain u hash where u: "RegisterUserWithCurrentMode (pl_crypto lib) idBytes redemptionBytes (ck_store clk) username hash
        (rq_InviteCode q) mode db = (Inr u, db')" "pl_generate lib (rq_Password q) = Some hash" "code = 201"
      using reg t unfolding q(6) hash_and_create_def by (auto simp: Let_def split: option.splits prod.splits sum.splits)
    define i where "i = u_ID u"
    obtain m and td :: Tier where r: "readRegistrationMode mode db = Inr m" "m \<in> {RegistrationModeFree, RegistrationModeInvite}"
      "u = new_user_row (ck_store clk) i username hash RoleUser (t_ID td)"
      "\<forall>v \<in> set (users db). nocase (u_Username v) \<noteq> nocase username" "users db' = users db @ [u]"
      using Register_user [OF u(1)] unfolding name i_def [symmetric] by blast
    have "u_Username u = username" "u_Role u = RoleUser" "u_PasswordHash u = hash" by (subst r(3), simp add: new_user_row_def)+
    then show ?thesis using frame Answer u q(1-5) r by auto
  qed
qed

text \<open>What an update that revokes tokens and touches neither role nor status leaves in the user's row.\<close>

lemma revoking_update:
  assumes ok: "db_ok db" and upd: "UpdateUser now i updates db = (Inr u', db')"
    and kind: "uu_RevokeTokens updates = Some True" "uu_Enabled updates = None" "uu_Role updates = None"
  obtains u v where "user_row i db = Some u" "user_row i db' = Some v" "u' = scanUser now v" "u_TokenVersion v = u_TokenVersion u + 1"
    "u_Role v = u_Role u" "u_Enabled v = u_Enabled u" "u_PasswordHash v = case_option (u_PasswordHash u) TrimSpace (uu_PasswordHash updates)"
    "\<And>j. j \<noteq> i \<Longrightarrow> user_row j db' = user_row j db"
  using ok upd
proof (cases rule: UpdateUser_cases)
  case (unchanged u)
  then show ?thesis using kind by (simp add: revokes_def)
next
  case (changed u)
  then have "revokes updates u" using kind by (simp add: revokes_def)
  then show ?thesis using changed kind
    by (intro that [of u "stamped now updates True u"]) (simp_all add: user_row_update, simp_all add: stamped_def updated_user_def)
qed simp

lemma changePassword_Answer:
  assumes "changePassword lib h clk ctx body db p = (Answer code response, removed, db', p')" "ctx_User ctx = Some au"
  obtains q u hash u' where "body = Inr q" "GetUserByID (ck_begin clk) (u_ID (au_User au)) db = Inr u"
    "pl_compare lib (u_PasswordHash u) (cq_CurrentPassword q)" "pl_generate lib (cq_NewPassword q) = Some hash"
    "UpdateUser (ck_store clk) (u_ID u) \<lparr>uu_Enabled = None, uu_Role = None, uu_TierID = None, uu_RevokeTokens = Some True,
       uu_PasswordHash = Some hash\<rparr> db = (Inr u', db')"
    "session_answer lib h (ck_token clk) db' u' = Answer code response"
  using assms
  by (auto simp: changePassword_def writeReplacementSession_def Let_def split: sum.splits option.splits prod.splits if_splits)

lemma revokeSessions_Answer:
  assumes "revokeSessions lib h clk ctx db = (Answer code response, db')" "ctx_User ctx = Some au"
  obtains u' where "UpdateUser (ck_store clk) (u_ID (au_User au)) \<lparr>uu_Enabled = None, uu_Role = None, uu_TierID = None,
       uu_RevokeTokens = Some True, uu_PasswordHash = None\<rparr> db = (Inr u', db')"
    "session_answer lib h (ck_token clk) db' u' = Answer code response"
  using assms by (auto simp: revokeSessions_def writeReplacementSession_def split: sum.splits option.splits prod.splits)

text \<open>
  A password change and a revocation of sessions replace the session: afterwards every token issued
  for the user before is refused by the session middleware, whatever its expiry, and the token handed out
  is accepted until it expires, if the user is enabled.
\<close>

theorem session_replacement_exact:
  assumes jwt: "jwt_ok (pl_jwt lib)" and ok: "db_ok db" and ctx: "ctx_User ctx = Some au"
    and finished: "changePassword lib h clk ctx body db p = (Answer code response, removed, db', p') \<or>
      revokeSessions lib h clk ctx db = (Answer code response, db')"
  shows "code = 200 \<and> (\<exists>u. user_row (u_ID (au_User au)) db = Some u \<and>
    (\<forall>t ttl tok expiry r now c. IssuePanelToken (pl_jwt lib) t (h_JWTSecret h) u ttl = Inr (tok, expiry) \<and> session_request tok r \<and>
       t \<le> now \<longrightarrow> (\<exists>e. JWTMiddleware (pl_jwt lib) (h_JWTSecret h) (store_loader now) db' now r c = Respond e \<and> status e \<in> {401, 403})) \<and>
    (\<forall>r now c. session_request (lp_Token response) r \<and> ck_token clk \<le> now \<and>
       now < db_time (lp_ExpiresAt response) + panelJWTLeeway \<and> u_Enabled u \<longrightarrow>
       (\<exists>c'. JWTMiddleware (pl_jwt lib) (h_JWTSecret h) (store_loader now) db' now r c = Next c')))"
proof -
  let ?i = "u_ID (au_User au)"
  obtain updates u' where upd: "UpdateUser (ck_store clk) ?i updates db = (Inr u', db')"
    "uu_RevokeTokens updates = Some True" "uu_Enabled updates = None" "uu_Role updates = None"
    and ans: "session_answer lib h (ck_token clk) db' u' = Answer code response"
    using finished
  proof
    assume "changePassword lib h clk ctx body db p = (Answer code response, removed, db', p')"
    then obtain q w hash x where c: "body = Inr q" "GetUserByID (ck_begin clk) ?i db = Inr w"
      "pl_compare lib (u_PasswordHash w) (cq_CurrentPassword q)" "pl_generate lib (cq_NewPassword q) = Some hash"
      "UpdateUser (ck_store clk) (u_ID w) \<lparr>uu_Enabled = None, uu_Role = None, uu_TierID = None, uu_RevokeTokens = Some True,
         uu_PasswordHash = Some hash\<rparr> db = (Inr x, db')" "session_answer lib h (ck_token clk) db' x = Answer code response"
      using changePassword_Answer [OF _ ctx] by metis
    have "u_ID w = ?i" using c(2) user_row_Some [OF ok] by (auto simp: GetUserByID_def split: option.splits)
    then show ?thesis using c(5,6) that by simp
  next
    assume "revokeSessions lib h clk ctx db = (Answer code response, db')"
    then show ?thesis using revokeSessions_Answer [OF _ ctx] that by (metis UserUpdates.select_convs(1,2,4))
  qed
  obtain u v where row: "user_row ?i db = Some u" "user_row ?i db' = Some v" "u' = scanUser (ck_store clk) v"
    "u_TokenVersion v = u_TokenVersion u + 1" "u_Role v = u_Role u" "u_Enabled v = u_Enabled u"
    using revoking_update [OF ok upd] by metis
  have ok': "db_ok db'" using UpdateUser_ok [OF ok, of "ck_store clk" ?i updates] upd(1) by simp
  have ids: "u_ID w \<noteq> []" "TrimSpace (u_ID w) = u_ID w" "0 \<le> u_TokenVersion w" "u_ID w = ?i"
    if "user_row ?i d = Some w" "db_ok d" for w d
  proof -
    have w: "w \<in> set (users d)" "u_ID w = ?i" using that user_row_Some by auto
    then show "u_ID w \<noteq> []" "TrimSpace (u_ID w) = u_ID w" "0 \<le> u_TokenVersion w" "u_ID w = ?i"
      using db_ok_users [OF that(2)] by (auto simp: users_ok_def)
  qed
  have old: "\<exists>e. JWTMiddleware (pl_jwt lib) (h_JWTSecret h) (store_loader now) db' now r c = Respond e \<and> status e \<in> {401, 403}"
    if "IssuePanelToken (pl_jwt lib) t (h_JWTSecret h) u ttl = Inr (tok, expiry)" "session_request tok r" "t \<le> now" for t ttl tok expiry r now c
    using JWT_session [OF jwt that(1) ids(1-3) [OF row(1) ok] that(3,2) ok', of c] row ids(4) [OF row(1) ok]
    by (simp add: http_Error_def)
  have new: "\<exists>c'. JWTMiddleware (pl_jwt lib) (h_JWTSecret h) (store_loader now) db' now r c = Next c'"
    if "session_request (lp_Token response) r" "ck_token clk \<le> now" "now < db_time (lp_ExpiresAt response) + panelJWTLeeway"
      "u_Enabled u" for r now c
    using JWT_session [OF jwt conjunct2 [OF session_answer_Answer [OF ans]], of now r db' c] ids [OF row(2) ok'] that ok' row by simp
  show ?thesis using session_answer_Answer [OF ans] row(1) old new by blast
qed

text \<open>
  A password change succeeds only with the current password; the row then holds the hash of the new
  password and the other users are untouched. Unless the update itself was committed and only the new
  token could not be signed, a failure leaves the database as it was; a password slot is always given back.
\<close>

theorem password_change_sound:
  assumes ok: "db_ok db" and ctx: "ctx_User ctx = Some au"
    and res: "changePassword lib h clk ctx body db p = (ans, removed, db', p')"
  shows "ap_passwordWorkCurrent p' = ap_passwordWorkCurrent p \<and>
    (case ans of Failure e \<Rightarrow> db' = db \<or> pe_message e = ''token issue failed''
     | Answer code response \<Rightarrow> \<exists>q u v hash. body = Inr q \<and> user_row (u_ID (au_User au)) db = Some u \<and>
         pl_compare lib (u_PasswordHash u) (cq_CurrentPassword q) \<and> pl_generate lib (cq_NewPassword q) = Some hash \<and>
         user_row (u_ID (au_User au)) db' = Some v \<and> u_PasswordHash v = TrimSpace hash \<and>
         (\<forall>j. j \<noteq> u_ID (au_User au) \<longrightarrow> user_row j db' = user_row j db))"
proof -
  obtain w p2 where t: "tryAcquirePasswordWork p = (w, p2)" by fastforce
  have frame: "ap_passwordWorkCurrent p' = ap_passwordWorkCurrent p"
    using res t acquire_refused(1) [of p p2] acquire_release(1) [of p _ p2] ctx
    by (auto simp: changePassword_def Let_def split: sum.splits option.splits prod.splits if_splits)
  show ?thesis
  proof (cases ans)
    case (Failure e)
    have "db' = db \<or> pe_message e = ''token issue failed''" using res ctx t unfolding Failure
      by (auto simp: changePassword_def writeReplacementSession_def session_answer_def writeError_def writeCodedError_def Let_def UpdateUser_def
          run_tx_Inl split: sum.splits option.splits prod.splits if_splits)
    then show ?thesis using frame Failure by simp
  next
    case (Answer code response)
    let ?i = "u_ID (au_User au)"
    obtain q x hash y where c: "body = Inr q" "GetUserByID (ck_begin clk) ?i db = Inr x"
      "pl_compare lib (u_PasswordHash x) (cq_CurrentPassword q)" "pl_generate lib (cq_NewPassword q) = Some hash"
      "UpdateUser (ck_store clk) (u_ID x) \<lparr>uu_Enabled = None, uu_Role = None, uu_TierID = None, uu_RevokeTokens = Some True,
         uu_PasswordHash = Some hash\<rparr> db = (Inr y, db')"
      using changePassword_Answer [OF _ ctx] res Answer by metis
    obtain u where u: "user_row ?i db = Some u" "x = scanUser (ck_begin clk) u" using c(2) by (auto simp: GetUserByID_def split: option.splits)
    then have "u_ID x = ?i" using user_row_Some [OF ok] by auto
    then obtain u2 v where "user_row ?i db' = Some v" "u_PasswordHash v = TrimSpace hash" "\<And>j. j \<noteq> ?i \<Longrightarrow> user_row j db' = user_row j db"
      using revoking_update [OF ok c(5)] by (metis UserUpdates.select_convs(1,2,4,5) option.case(2))
    then show ?thesis using frame Answer c u by auto
  qed
qed

section \<open>Witnesses\<close>

text \<open>A token library that signs the session of the demo user before and after a revocation.\<close>

definition demo_session_claims :: "int \<Rightarrow> panelClaims" where
  "demo_session_claims version = session_claims demo_time (demo_time + 12 * Hour) ((demo_user_row ''ann'' RoleUser 2)\<lparr>u_TokenVersion := version\<rparr>)"

definition demo_session_jwt :: jwt_lib where
  "demo_session_jwt = \<lparr>SignedString = (\<lambda>alg secret c. if c = demo_session_claims 0 then Inr ''abc''
       else if c = demo_session_claims 1 then Inr ''abd'' else Inl ''claims''),
     ParseWithClaims = (\<lambda>opts secret now tok. let c = demo_session_claims (if tok = ''abc'' then 0 else 1)
       in if tok \<in> {''abc'', ''abd''} \<and> registered_ok opts now c then Inr c else Inl ''token'')\<rparr>"

lemma demo_session_jwt_ok: "jwt_ok demo_session_jwt"
proof -
  have valid: "panelClaims_Validate (demo_session_claims 0) = None" "panelClaims_Validate (demo_session_claims 1) = None" by code_simp+
  have "demo_session_claims 1 \<noteq> demo_session_claims 0" by code_simp
  then show ?thesis using valid by (auto simp: jwt_ok_def demo_session_jwt_def Let_def split: if_splits)
qed

definition demo_panel_lib :: panel_lib where
  "demo_panel_lib = \<lparr>pl_jwt = demo_session_jwt, pl_compare = (\<lambda>hash password. hash = ''h'' \<and> password = ''open sesame''),
     pl_generate = (\<lambda>password. Some (''#'' @ password)), pl_dummyBcryptHash = ''d'', pl_verify = None, pl_lower = id, pl_EqualFold = (=),
     pl_hash = demo_hash, pl_sha = demo_sha, pl_hmac = demo_hmac, pl_crypto = demo_crypto\<rparr>"

definition demo_handler :: Handler where
  "demo_handler = \<lparr>h_JWTSecret = ''s'', h_MaxAPIKeysPerUser = 0, h_BootstrapAdminUsername = [], h_BootstrapCredentialCleaner = False,
     h_InitialServerSettings = \<lparr>CPABaseURL = [], CPAAPIKey = [], rt_UpstreamProtocol = [], Model = [], TimeoutSeconds = 0,
       MCPGlobalSearchConcurrency = 0, MCPUserSearchConcurrency = 0, ProxyURL = [], ProxyEnabled = False,
       rt_RegistrationMode = RegistrationModeFree, TurnstileEnabled = False, TurnstileSiteKey = [], TurnstileSecretKey = [], Debug = False,
       OperationsMetricsEnabled = False\<rparr>, h_LoginVerificationSettingsProvider = None\<rparr>"

definition demo_clock :: clock where
  "demo_clock = \<lparr>ck_begin = demo_time, ck_store = demo_time, ck_complete = demo_time, ck_token = demo_time\<rparr>"

definition demo_login :: "panic + LoginResponse answer \<times> int AuthProtector" where
  "demo_login = login demo_panel_lib demo_handler demo_clock demo_proxy_request
     (Inr \<lparr>lq_Username = '' Ann '', lq_Password = ''open sesame'', lq_TurnstileToken = []\<rparr>) demo_db demo_protector"

theorem login_sound_witness:
  "\<exists>response p'. demo_login = Inr (Answer 200 response, p') \<and> lp_Token response = ''abc'' \<and> unfinished p' = [] \<and> ap_passwordWorkCurrent p' = 0"
proof -
  have reach: "protector_reachable demo_buckets (pl_hash demo_panel_lib) (pl_lower demo_panel_lib) demo_protector"
    using demo_protector_reachable by (simp add: demo_panel_lib_def)
  have "case demo_login of Inr (Answer code response, p') \<Rightarrow> lp_Token response = ''abc'' | _ \<Rightarrow> False" by code_simp
  moreover have "unfinished demo_protector = [] \<and> ap_passwordWorkCurrent demo_protector = 0" by code_simp
  moreover obtain ans p' where l: "demo_login = Inr (ans, p')" "ap_passwordWorkCurrent p' = ap_passwordWorkCurrent demo_protector"
    "unfinished p' = unfinished demo_protector" "\<And>code response. ans = Answer code response \<Longrightarrow> code = 200"
    using login_sound [OF reach, of demo_handler demo_clock demo_proxy_request
        "Inr \<lparr>lq_Username = '' Ann '', lq_Password = ''open sesame'', lq_TurnstileToken = []\<rparr>" demo_db]
    unfolding demo_login_def [symmetric] by blast
  ultimately show ?thesis unfolding l(1) by (cases ans) auto
qed

definition demo_registration :: "UserResponse answer \<times> DB \<times> int AuthProtector" where
  "demo_registration = register demo_panel_lib demo_handler (demo_clock\<lparr>ck_begin := 1\<rparr>) demo_entropy demo_entropy
     (Inr \<lparr>rq_Username = ''bob'', rq_Password = ''open sesame'', rq_InviteCode = [], rq_Proof = pl_proof (demo_proof_call 1)\<rparr>) demo_db
     (demo_protector\<lparr>ap_registrationProof := demo_proof_state\<rparr>)"

theorem register_sound_witness:
  "\<exists>u. users (fst (snd demo_registration)) = users demo_db @ [u] \<and> u_Role u = RoleUser \<and> u_PasswordHash u = ''#open sesame''"
proof -
  have "case fst demo_registration of Answer code response \<Rightarrow> True | _ \<Rightarrow> False" by code_simp
  moreover have "demo_registration = (fst demo_registration, fst (snd demo_registration), snd (snd demo_registration))" by simp
  ultimately show ?thesis using register_sound [OF demo_registration_def [symmetric, THEN trans]]
    by (fastforce simp: demo_panel_lib_def split: answer.splits)
qed

definition demo_session_context :: Context where
  "demo_session_context = WithUser emptyContext (authenticated demo_time demo_db (demo_user_row ''ann'' RoleUser 2))"

definition demo_change :: "SessionReplacementResponse answer \<times> bool \<times> DB \<times> int AuthProtector" where
  "demo_change = changePassword demo_panel_lib demo_handler demo_clock demo_session_context
     (Inr \<lparr>cq_CurrentPassword = ''open sesame'', cq_NewPassword = ''let me in'' \<rparr>) demo_db demo_protector"

lemma demo_change_parts:
  "fst demo_change = Answer 200 (case fst demo_change of Answer code r \<Rightarrow> r) \<and> lp_Token (case fst demo_change of Answer code r \<Rightarrow> r) = ''abd'' \<and>
   lp_ExpiresAt (case fst demo_change of Answer code r \<Rightarrow> r) = demo_time + 12 * Hour"
  by code_simp

lemma demo_session_user: "ctx_User demo_session_context = Some (authenticated demo_time demo_db (demo_user_row ''ann'' RoleUser 2)) \<and>
    u_ID (au_User (authenticated demo_time demo_db (demo_user_row ''ann'' RoleUser 2))) = ''ann''"
  by code_simp

theorem session_replacement_exact_witness:
  "(\<exists>e. JWTMiddleware demo_session_jwt ''s'' (store_loader (demo_time + Minute)) (fst (snd (snd demo_change))) (demo_time + Minute)
      demo_session_request emptyContext = Respond e \<and> status e \<in> {401, 403}) \<and>
   (\<exists>c'. JWTMiddleware demo_session_jwt ''s'' (store_loader (demo_time + Minute)) (fst (snd (snd demo_change))) (demo_time + Minute)
      \<lparr>RemoteAddr = ''10.0.0.1:1'', header = [(''Authorization'', [''Bearer abd''])]\<rparr> emptyContext = Next c')"
proof -
  obtain response removed db' p' where c: "demo_change = (Answer 200 response, removed, db', p')" "lp_Token response = ''abd''"
    "lp_ExpiresAt response = demo_time + 12 * Hour"
    using demo_change_parts by (metis prod.collapse)
  have user: "user_row ''ann'' demo_db = Some (demo_user_row ''ann'' RoleUser 2)" by code_simp
  have iss: "IssuePanelToken demo_session_jwt demo_time ''s'' (demo_user_row ''ann'' RoleUser 2) 0 = Inr (''abc'', demo_time + 12 * Hour)"
    by code_simp
  have req: "session_request ''abc'' demo_session_request"
    "session_request ''abd'' \<lparr>RemoteAddr = ''10.0.0.1:1'', header = [(''Authorization'', [''Bearer abd''])]\<rparr>"
    by (simp_all add: session_request_def demo_session_request_def header_values_def)
  have time: "demo_time \<le> demo_time + Minute" "demo_time + Minute < db_time (demo_time + 12 * Hour) + panelJWTLeeway" by code_simp+
  have lib: "pl_jwt demo_panel_lib = demo_session_jwt" "h_JWTSecret demo_handler = ''s''" "ck_token demo_clock = demo_time"
    "u_Enabled (demo_user_row ''ann'' RoleUser 2)" by (simp_all add: demo_panel_lib_def demo_handler_def demo_clock_def demo_user_row_def)
  note e = session_replacement_exact [of demo_panel_lib demo_db demo_session_context _ demo_handler demo_clock, unfolded lib,
      OF demo_session_jwt_ok demo_db_ok conjunct1 [OF demo_session_user] disjI1 [OF c(1) [unfolded demo_change_def]]]
  have db': "fst (snd (snd demo_change)) = db'" unfolding c(1) by simp
  have ann: "P (demo_user_row ''ann'' RoleUser 2)" if "\<exists>u. user_row ''ann'' demo_db = Some u \<and> P u" for P using that user by auto
  note f = ann [OF e [THEN conjunct2, unfolded conjunct2 [OF demo_session_user]]]
  have "\<exists>e. JWTMiddleware demo_session_jwt ''s'' (store_loader (demo_time + Minute)) db' (demo_time + Minute)
      demo_session_request emptyContext = Respond e \<and> status e \<in> {401, 403}"
    by (rule f [THEN conjunct1, rule_format, of demo_time 0 "''abc''"]) (use iss req time in auto)
  moreover have "\<exists>c'. JWTMiddleware demo_session_jwt ''s'' (store_loader (demo_time + Minute)) db' (demo_time + Minute)
      \<lparr>RemoteAddr = ''10.0.0.1:1'', header = [(''Authorization'', [''Bearer abd''])]\<rparr> emptyContext = Next c'"
    by (rule f [THEN conjunct2, rule_format]) (use req time lib(4) c(2,3) in auto)
  ultimately show ?thesis unfolding db' by (rule conjI)
qed

theorem password_change_sound_witness:
  "\<exists>v. user_row ''ann'' (fst (snd (snd demo_change))) = Some v \<and> u_PasswordHash v = TrimSpace ''#let me in''"
proof -
  obtain response removed db' p' where c: "demo_change = (Answer 200 response, removed, db', p')"
    using demo_change_parts by (metis prod.collapse)
  then have db': "fst (snd (snd demo_change)) = db'" unfolding c by simp
  from password_change_sound [OF demo_db_ok conjunct1 [OF demo_session_user] c [unfolded demo_change_def]] show ?thesis
    unfolding db' conjunct2 [OF demo_session_user] by (auto simp: demo_panel_lib_def)
qed

end
