(* ===== verification/Panel_Admin.thy ===== *)
theory Panel_Admin
  imports Panel_Session
begin

text \<open>
  The key, user, tier and invite code handlers of the panel (\<open>key_handlers.go\<close>, \<open>admin_users.go\<close>,
  \<open>admin_tiers.go\<close>, \<open>invite_codes.go\<close>, \<open>cache_invalidate.go\<close>) with their answers (\<open>models.go\<close>). A handler
  works on the database and on the authentication cache of the MCP side, of which it only calls
  \<open>InvalidateAll\<close>: the state counts these calls, and is \<open>None\<close> where no cache is configured. Listings take
  the cursor decoded, and return the boundary that is encoded as the next one.
\<close>

section \<open>State and routes\<close>

record panel_state =
  ps_db :: DB
  ps_AuthCache :: "nat option"

definition invalidateAuthCache :: "panel_state \<Rightarrow> panel_state" where
  "invalidateAuthCache s = s\<lparr>ps_AuthCache := map_option Suc (ps_AuthCache s)\<rparr>"

definition defaultPanelPageLimit :: int where "defaultPanelPageLimit = 50"
definition maximumPanelPageLimit :: int where "maximumPanelPageLimit = 100"

definition parsePanelPageLimit :: "string \<Rightarrow> panel_error + int" where
  "parsePanelPageLimit queryLimit =
     (let rawLimit = TrimSpace queryLimit
      in if rawLimit = [] then Inr defaultPanelPageLimit
         else case ParseInt rawLimit of
             None \<Rightarrow> Inl (writeError 400 ''limit must be a positive integer'')
           | Some limit \<Rightarrow>
               if limit \<le> 0 then Inl (writeError 400 ''limit must be a positive integer'')
               else if maximumPanelPageLimit < limit then Inr maximumPanelPageLimit else Inr limit)"

section \<open>API keys\<close>

record KeyResponse =
  kr_ID :: string
  kr_Name :: string
  kr_KeyPrefix :: string
  kr_Enabled :: bool
  kr_CreatedAt :: time
  kr_UpdatedAt :: time
  kr_LastUsedAt :: "time option"
  kr_TotalCalls :: int

definition toKeyResponse :: "APIKey \<Rightarrow> KeyResponse" where
  "toKeyResponse k = \<lparr>kr_ID = k_ID k, kr_Name = k_Name k, kr_KeyPrefix = k_KeyPrefix k, kr_Enabled = k_Enabled k,
     kr_CreatedAt = k_CreatedAt k, kr_UpdatedAt = k_UpdatedAt k, kr_LastUsedAt = k_LastUsedAt k, kr_TotalCalls = k_TotalCalls k\<rparr>"

record KeysResponse =
  ks_Keys :: "KeyResponse list"
  ks_NextCursor :: "(time \<times> string) option"
  ks_HasMore :: bool
  ks_TotalCount :: int
  ks_ActiveCount :: int

record UpdateKeyRequest =
  ukr_Name :: "string option"
  ukr_Enabled :: "bool option"

record CreateKeyResponse =
  ckr_Key :: KeyResponse
  ckr_APIKey :: string

definition defaultMaximumAPIKeysPerUser :: int where "defaultMaximumAPIKeysPerUser = 20"

definition listKeys :: "Context \<Rightarrow> string \<Rightarrow> panel_error + (time \<times> string) option \<Rightarrow> panel_state \<Rightarrow> KeysResponse answer" where
  "listKeys ctx queryLimit queryCursor s =
     (case ctx_User ctx of
        None \<Rightarrow> Failure (writeError 401 ''unauthorized'')
      | Some user \<Rightarrow>
          (case parsePanelPageLimit queryLimit of
             Inl e \<Rightarrow> Failure e
           | Inr limit \<Rightarrow>
               (case queryCursor of
                  Inl e \<Rightarrow> Failure e
                | Inr cursor \<Rightarrow>
                    let page = ListKeysByUserPage (u_ID (au_User user)) cursor limit (ps_db s)
                    in Answer 200 \<lparr>ks_Keys = map toKeyResponse (kp_Keys page), ks_NextCursor = kp_NextCursor page,
                         ks_HasMore = kp_HasMore page, ks_TotalCount = kp_TotalCount page, ks_ActiveCount = kp_ActiveCount page\<rparr>)))"

definition createKey ::
  "crypto \<Rightarrow> Handler \<Rightarrow> entropy \<Rightarrow> entropy \<Rightarrow> string option \<Rightarrow> time \<Rightarrow> Context \<Rightarrow> panel_error + string \<Rightarrow> panel_state \<Rightarrow>
     CreateKeyResponse answer \<times> panel_state" where
  "createKey cr h keyBytes idBytes nonceBytes now ctx body s =
     (case ctx_User ctx of
        None \<Rightarrow> (Failure (writeError 401 ''unauthorized''), s)
      | Some user \<Rightarrow>
          (case body of
             Inl e \<Rightarrow> (Failure e, s)
           | Inr name \<Rightarrow>
               if TrimSpace name = [] then (Failure (writeError 400 ''name is required''), s)
               else
                 let maximumKeys = (if h_MaxAPIKeysPerUser h \<le> 0 then defaultMaximumAPIKeysPerUser else h_MaxAPIKeysPerUser h)
                 in case CreateKey cr keyBytes idBytes nonceBytes now (u_ID (au_User user)) name maximumKeys (ps_db s) of
                      (Inl err, db') \<Rightarrow>
                        (Failure (if err = ErrAPIKeyLimit then writeError 409 ''API key limit reached''
                           else writeError 500 ''failed to create key''), s\<lparr>ps_db := db'\<rparr>)
                    | (Inr (apiKey, rawAPIKey), db') \<Rightarrow>
                        (Answer 201 \<lparr>ckr_Key = toKeyResponse apiKey, ckr_APIKey = rawAPIKey\<rparr>, s\<lparr>ps_db := db'\<rparr>)))"

text \<open>The key of a request path, if it belongs to the session's user.\<close>

definition own_key :: "Context \<Rightarrow> string \<Rightarrow> DB \<Rightarrow> panel_error + APIKey" where
  "own_key ctx keyID db =
     (case ctx_User ctx of
        None \<Rightarrow> Inl (writeError 401 ''unauthorized'')
      | Some user \<Rightarrow>
          (case GetKeyByID keyID db of
             Inl _ \<Rightarrow> Inl (writeError 404 ''api key not found'')
           | Inr apiKey \<Rightarrow> if k_UserID apiKey \<noteq> u_ID (au_User user) then Inl (writeError 404 ''api key not found'') else Inr apiKey))"

definition revealKey :: "crypto \<Rightarrow> Context \<Rightarrow> string \<Rightarrow> panel_state \<Rightarrow> string answer" where
  "revealKey cr ctx keyID s =
     (case own_key ctx keyID (ps_db s) of
        Inl e \<Rightarrow> Failure e
      | Inr _ \<Rightarrow>
          (case RevealKey cr keyID (ps_db s) of
             Inl _ \<Rightarrow> Failure (writeError 500 ''failed to reveal key'')
           | Inr rawAPIKey \<Rightarrow> Answer 200 rawAPIKey))"

definition updateKey :: "time \<Rightarrow> Context \<Rightarrow> string \<Rightarrow> panel_error + UpdateKeyRequest \<Rightarrow> panel_state \<Rightarrow> KeyResponse answer \<times> panel_state" where
  "updateKey now ctx keyID body s =
     (case own_key ctx keyID (ps_db s) of
        Inl e \<Rightarrow> (Failure e, s)
      | Inr _ \<Rightarrow>
          (case body of
             Inl e \<Rightarrow> (Failure e, s)
           | Inr updateRequest \<Rightarrow>
               if (case ukr_Name updateRequest of None \<Rightarrow> False | Some name \<Rightarrow> TrimSpace name = [])
               then (Failure (writeError 400 ''name must not be empty''), s)
               else (case UpdateKey now keyID \<lparr>ku_Name = ukr_Name updateRequest, ku_Enabled = ukr_Enabled updateRequest\<rparr> (ps_db s) of
                   (Inl _, db') \<Rightarrow> (Failure (writeError 400 ''failed to update key''), s\<lparr>ps_db := db'\<rparr>)
                 | (Inr updatedKey, db') \<Rightarrow> (Answer 200 (toKeyResponse updatedKey), invalidateAuthCache (s\<lparr>ps_db := db'\<rparr>)))))"

definition deleteKey :: "bool \<Rightarrow> Context \<Rightarrow> string \<Rightarrow> panel_state \<Rightarrow> unit answer \<times> panel_state" where
  "deleteKey debugOk ctx keyID s =
     (case own_key ctx keyID (ps_db s) of
        Inl e \<Rightarrow> (Failure e, s)
      | Inr _ \<Rightarrow>
          (case DeleteKey debugOk keyID (ps_db s) of
             (Inl _, db') \<Rightarrow> (Failure (writeError 500 ''failed to delete key''), s\<lparr>ps_db := db'\<rparr>)
           | (Inr _, db') \<Rightarrow> (Answer 204 (), invalidateAuthCache (s\<lparr>ps_db := db'\<rparr>))))"

section \<open>Users\<close>

record UsersResponse =
  ur_Users :: "UserResponse list"
  ur_NextCursor :: "(time \<times> string) option"
  ur_HasMore :: bool
  ur_TotalCount :: int

record UpdateUserRequest =
  uur_Enabled :: "bool option"
  uur_Role :: "UserRole option"
  uur_TierID :: "string option"
  uur_RevokeTokens :: "bool option"

text \<open>The distinct trimmed tier ids of a page, in order of first occurrence.\<close>

fun page_tier_ids :: "User list \<Rightarrow> string list \<Rightarrow> string list" where
  "page_tier_ids [] seen = []"
| "page_tier_ids (u # us) seen =
     (let tierID = TrimSpace (u_TierID u)
      in if tierID = [] \<or> tierID \<in> set seen then page_tier_ids us seen else tierID # page_tier_ids us (tierID # seen))"

definition adminListUsers :: "time \<Rightarrow> string \<Rightarrow> panel_error + (time \<times> string) option \<Rightarrow> panel_state \<Rightarrow> UsersResponse answer" where
  "adminListUsers now queryLimit queryCursor s =
     (case parsePanelPageLimit queryLimit of
        Inl e \<Rightarrow> Failure e
      | Inr limit \<Rightarrow>
          (case queryCursor of
             Inl e \<Rightarrow> Failure e
           | Inr cursor \<Rightarrow>
               let page = ListUsersPage now cursor limit (ps_db s);
                   tierByID = GetTiersByIDs (page_tier_ids (up_Users page) []) (ps_db s)
               in Answer 200 \<lparr>ur_Users = map (\<lambda>u. toUserResponseWithTier u (lookup tierByID (TrimSpace (u_TierID u)))) (up_Users page),
                    ur_NextCursor = up_NextCursor page, ur_HasMore = up_HasMore page, ur_TotalCount = up_TotalCount page\<rparr>))"

definition adminGetUser :: "time \<Rightarrow> string \<Rightarrow> panel_state \<Rightarrow> UserResponse answer" where
  "adminGetUser now userID s =
     (case GetUserByID now userID (ps_db s) of
        Inl _ \<Rightarrow> Failure (writeError 404 ''user not found'')
      | Inr user \<Rightarrow> Answer 200 (toUserResponseWithTier user (loadUserTierForResponse (ps_db s) user)))"

definition adminUpdateUser ::
  "time \<Rightarrow> Context \<Rightarrow> string \<Rightarrow> panel_error + UpdateUserRequest \<Rightarrow> panel_state \<Rightarrow> UserResponse answer \<times> panel_state" where
  "adminUpdateUser now ctx userID body s =
     (case body of
        Inl e \<Rightarrow> (Failure e, s)
      | Inr updateRequest \<Rightarrow>
          let self = (case ctx_User ctx of None \<Rightarrow> False | Some currentUser \<Rightarrow> u_ID (au_User currentUser) = userID)
          in if self \<and> uur_Enabled updateRequest = Some False then (Failure (writeError 409 ''cannot disable current user''), s)
             else if self \<and> uur_Role updateRequest = Some RoleUser then (Failure (writeError 409 ''cannot downgrade current user''), s)
             else (case UpdateUser now userID \<lparr>uu_Enabled = uur_Enabled updateRequest, uu_Role = uur_Role updateRequest,
                     uu_TierID = uur_TierID updateRequest, uu_RevokeTokens = uur_RevokeTokens updateRequest, uu_PasswordHash = None\<rparr> (ps_db s) of
                 (Inl err, db') \<Rightarrow>
                   (Failure (if err = ErrUserNotFound then writeError 404 ''user not found''
                      else if err = ErrLastAdmin then writeError 409 ''cannot remove last enabled admin''
                      else if err = ErrTierNotAssignable then writeError 400 ''tier_id must reference an existing tier''
                      else writeError 400 ''failed to update user''), s\<lparr>ps_db := db'\<rparr>)
               | (Inr user, db') \<Rightarrow>
                   (Answer 200 (toUserResponseWithTier user (loadUserTierForResponse db' user)), invalidateAuthCache (s\<lparr>ps_db := db'\<rparr>))))"

definition adminDeleteUser :: "bool \<Rightarrow> Context \<Rightarrow> string \<Rightarrow> panel_state \<Rightarrow> unit answer \<times> panel_state" where
  "adminDeleteUser debugOk ctx userID s =
     (if (case ctx_User ctx of None \<Rightarrow> False | Some currentUser \<Rightarrow> u_ID (au_User currentUser) = userID)
      then (Failure (writeError 409 ''cannot delete current user''), s)
      else (case DeleteUser debugOk userID (ps_db s) of
          (Inl err, db') \<Rightarrow>
            (Failure (if err = ErrUserNotFound then writeError 404 ''user not found''
               else if err = ErrLastAdmin then writeError 409 ''cannot remove last enabled admin''
               else writeError 500 ''failed to delete user''), s\<lparr>ps_db := db'\<rparr>)
        | (Inr _, db') \<Rightarrow> (Answer 204 (), invalidateAuthCache (s\<lparr>ps_db := db'\<rparr>))))"

section \<open>Tiers\<close>

record TierResponse =
  tir_ID :: string
  tir_Name :: string
  tir_RPM :: int
  tir_SuccessLimit :: int
  tir_IsDefault :: bool
  tir_UserCount :: int
  tir_CreatedAt :: time
  tir_UpdatedAt :: time

record TiersResponse =
  tsr_Tiers :: "TierResponse list"
  tsr_DefaultTier :: "TierResponse option"
  tsr_NextCursor :: "(time \<times> string) option"
  tsr_HasMore :: bool
  tsr_TotalCount :: int
  tsr_AssignedUserCount :: int

record CreateTierRequest =
  ctr_Name :: string
  ctr_RPM :: int
  ctr_SuccessLimit :: int
  ctr_IsDefault :: bool

record UpdateTierRequest =
  utr_Name :: "string option"
  utr_RPM :: "int option"
  utr_SuccessLimit :: "int option"
  utr_IsDefault :: "bool option"

definition toTierResponse :: "Tier \<Rightarrow> int \<Rightarrow> TierResponse" where
  "toTierResponse t userCount = \<lparr>tir_ID = t_ID t, tir_Name = t_Name t, tir_RPM = t_RPM t, tir_SuccessLimit = t_SuccessLimit t,
     tir_IsDefault = t_IsDefault t, tir_UserCount = userCount, tir_CreatedAt = t_CreatedAt t, tir_UpdatedAt = t_UpdatedAt t\<rparr>"

definition adminListTiers :: "string \<Rightarrow> panel_error + (time \<times> string) option \<Rightarrow> panel_state \<Rightarrow> TiersResponse answer" where
  "adminListTiers queryLimit queryCursor s =
     (case parsePanelPageLimit queryLimit of
        Inl e \<Rightarrow> Failure e
      | Inr limit \<Rightarrow>
          (case queryCursor of
             Inl e \<Rightarrow> Failure e
           | Inr cursor \<Rightarrow>
               let db = ps_db s;
                   page = ListTiersPage cursor limit db;
                   tierWithUsers = (\<lambda>tier. toTierResponse tier (CountUsersByTier (t_ID tier) db));
                   response = \<lparr>tsr_Tiers = map tierWithUsers (tp_Tiers page), tsr_DefaultTier = None, tsr_NextCursor = tp_NextCursor page,
                     tsr_HasMore = tp_HasMore page, tsr_TotalCount = tp_TotalCount page, tsr_AssignedUserCount = CountUsers db\<rparr>
               in (case GetDefaultTier db of
                     Inr defaultTier \<Rightarrow> Answer 200 (response\<lparr>tsr_DefaultTier := Some (tierWithUsers defaultTier)\<rparr>)
                   | Inl err \<Rightarrow> if err = ErrTierNotFound then Answer 200 response
                       else Failure (writeError 500 ''failed to load default tier''))))"

definition adminCreateTier :: "entropy \<Rightarrow> time \<Rightarrow> panel_error + CreateTierRequest \<Rightarrow> panel_state \<Rightarrow> TierResponse answer \<times> panel_state" where
  "adminCreateTier rnd now body s =
     (case body of
        Inl e \<Rightarrow> (Failure e, s)
      | Inr createRequest \<Rightarrow>
          let name = TrimSpace (ctr_Name createRequest)
          in if name = [] then (Failure (writeError 400 ''tier name is required''), s)
             else (case CreateTier rnd now name (ctr_RPM createRequest) (ctr_SuccessLimit createRequest) (ctr_IsDefault createRequest) (ps_db s) of
                 (Inl err, db') \<Rightarrow>
                   (Failure (if err = ErrTierNameTaken then writeError 409 ''tier name already taken''
                      else writeError 400 ''failed to create tier''), s\<lparr>ps_db := db'\<rparr>)
               | (Inr tier, db') \<Rightarrow> (Answer 201 (toTierResponse tier 0), invalidateAuthCache (s\<lparr>ps_db := db'\<rparr>))))"

definition adminUpdateTier :: "time \<Rightarrow> string \<Rightarrow> panel_error + UpdateTierRequest \<Rightarrow> panel_state \<Rightarrow> TierResponse answer \<times> panel_state" where
  "adminUpdateTier now tierID body s =
     (case body of
        Inl e \<Rightarrow> (Failure e, s)
      | Inr updateRequest \<Rightarrow>
          (case UpdateTier now tierID \<lparr>tu_Name = utr_Name updateRequest, tu_RPM = utr_RPM updateRequest,
                  tu_SuccessLimit = utr_SuccessLimit updateRequest, tu_IsDefault = utr_IsDefault updateRequest\<rparr> (ps_db s) of
             (Inl err, db') \<Rightarrow>
               (Failure (if err = ErrTierNotFound then writeError 404 ''tier not found''
                  else if err = ErrTierNameTaken then writeError 409 ''tier name already taken''
                  else if err = ErrDefaultTierProtected then writeError 409 ''set another tier as default before removing the current default''
                  else writeError 400 ''failed to update tier''), s\<lparr>ps_db := db'\<rparr>)
           | (Inr tier, db') \<Rightarrow>
               (Answer 200 (toTierResponse tier (CountUsersByTier (t_ID tier) db')), invalidateAuthCache (s\<lparr>ps_db := db'\<rparr>))))"

definition adminDeleteTier :: "time \<Rightarrow> string \<Rightarrow> panel_state \<Rightarrow> unit answer \<times> panel_state" where
  "adminDeleteTier now tierID s =
     (case DeleteTier now tierID (ps_db s) of
        (Inl err, db') \<Rightarrow>
          (Failure (if err = ErrTierNotFound then writeError 404 ''tier not found''
             else if err = ErrDefaultTierProtected then writeError 409 ''set another tier as default before deleting this tier''
             else if err = ErrDefaultTierMissing then writeError 409 ''no default tier configured''
             else writeError 500 ''failed to delete tier''), s\<lparr>ps_db := db'\<rparr>)
      | (Inr _, db') \<Rightarrow> (Answer 204 (), invalidateAuthCache (s\<lparr>ps_db := db'\<rparr>)))"

section \<open>Invite codes\<close>

record InviteCodeResponse =
  icr_ID :: string
  icr_CodePrefix :: string
  icr_RegistrationLimit :: int
  icr_RegistrationCount :: int
  icr_Enabled :: bool
  icr_CreatedByUserID :: "string option"
  icr_CreatedAt :: time
  icr_UpdatedAt :: time

record InviteCodesResponse =
  ics_InviteCodes :: "InviteCodeResponse list"
  ics_NextCursor :: "(time \<times> string) option"
  ics_HasMore :: bool
  ics_TotalCount :: int

record InviteCodeRedemptionsResponse =
  rdr_Redemptions :: "InviteCodeRedemption list"
  rdr_NextCursor :: "(time \<times> string) option"
  rdr_HasMore :: bool

record UpdateInviteCodeRequest =
  uic_RegistrationLimit :: "int option"
  uic_Enabled :: "bool option"

definition toInviteCodeResponse :: "InviteCode \<Rightarrow> InviteCodeResponse" where
  "toInviteCodeResponse c = \<lparr>icr_ID = ic_ID c, icr_CodePrefix = ic_CodePrefix c, icr_RegistrationLimit = ic_RegistrationLimit c,
     icr_RegistrationCount = ic_RegistrationCount c, icr_Enabled = ic_Enabled c, icr_CreatedByUserID = ic_CreatedByUserID c,
     icr_CreatedAt = ic_CreatedAt c, icr_UpdatedAt = ic_UpdatedAt c\<rparr>"

definition toInviteCodeRedemptionsResponse :: "InviteCodeRedemptionPage \<Rightarrow> InviteCodeRedemptionsResponse" where
  "toInviteCodeRedemptionsResponse page =
     \<lparr>rdr_Redemptions = rp_Redemptions page, rdr_NextCursor = rp_NextCursor page, rdr_HasMore = rp_HasMore page\<rparr>"

definition adminListInviteCodes :: "string \<Rightarrow> panel_error + (time \<times> string) option \<Rightarrow> panel_state \<Rightarrow> InviteCodesResponse answer" where
  "adminListInviteCodes queryLimit queryCursor s =
     (case parsePanelPageLimit queryLimit of
        Inl e \<Rightarrow> Failure e
      | Inr limit \<Rightarrow>
          (case queryCursor of
             Inl e \<Rightarrow> Failure e
           | Inr cursor \<Rightarrow>
               let page = ListInviteCodesPage cursor limit (ps_db s)
               in Answer 200 \<lparr>ics_InviteCodes = map toInviteCodeResponse (ip_InviteCodes page), ics_NextCursor = ip_NextCursor page,
                    ics_HasMore = ip_HasMore page, ics_TotalCount = ip_TotalCount page\<rparr>))"

definition adminListInviteCodeRedemptions ::
  "string \<Rightarrow> string \<Rightarrow> panel_error + (time \<times> string) option \<Rightarrow> panel_state \<Rightarrow> InviteCodeRedemptionsResponse answer" where
  "adminListInviteCodeRedemptions pathID queryLimit queryCursor s =
     (let inviteCodeID = TrimSpace pathID
      in if inviteCodeID = [] then Failure (writeError 400 ''invite code id is required'')
         else case parsePanelPageLimit queryLimit of
             Inl e \<Rightarrow> Failure e
           | Inr limit \<Rightarrow>
               (case queryCursor of
                  Inl e \<Rightarrow> Failure e
                | Inr cursor \<Rightarrow>
                    Answer 200 (toInviteCodeRedemptionsResponse (ListInviteCodeRedemptionsPage inviteCodeID cursor limit (ps_db s)))))"

definition adminCreateInviteCode ::
  "crypto \<Rightarrow> entropy \<Rightarrow> entropy \<Rightarrow> string option \<Rightarrow> time \<Rightarrow> Context \<Rightarrow> panel_error + int \<Rightarrow> panel_state \<Rightarrow>
     (InviteCodeResponse \<times> string) answer \<times> panel_state" where
  "adminCreateInviteCode cr keyBytes idBytes nonceBytes now ctx body s =
     (case body of
        Inl e \<Rightarrow> (Failure e, s)
      | Inr registrationLimit \<Rightarrow>
          if registrationLimit \<le> 0 then (Failure (writeError 400 ''registration_limit must be positive''), s)
          else
            let createdByUserID = (case ctx_User ctx of None \<Rightarrow> [] | Some user \<Rightarrow> u_ID (au_User user))
            in case CreateInviteCode cr keyBytes idBytes nonceBytes now createdByUserID registrationLimit (ps_db s) of
                 (Inl _, db') \<Rightarrow> (Failure (writeError 500 ''failed to create invite code''), s\<lparr>ps_db := db'\<rparr>)
               | (Inr (inviteCode, rawInviteCode), db') \<Rightarrow>
                   (Answer 201 (toInviteCodeResponse inviteCode, rawInviteCode), s\<lparr>ps_db := db'\<rparr>))"

definition adminRevealInviteCode :: "crypto \<Rightarrow> string \<Rightarrow> panel_state \<Rightarrow> string answer" where
  "adminRevealInviteCode cr pathID s =
     (let inviteCodeID = TrimSpace pathID
      in if inviteCodeID = [] then Failure (writeError 400 ''invite code id is required'')
         else case RevealInviteCode cr inviteCodeID (ps_db s) of
             Inl err \<Rightarrow> Failure (if err = ErrInviteCodeNotFound then writeError 404 ''invite code not found''
               else if err = ErrInviteCodeSecretUnavailable then writeError 409 ''invite code secret is unavailable''
               else writeError 500 ''failed to reveal invite code'')
           | Inr rawInviteCode \<Rightarrow> Answer 200 rawInviteCode)"

definition adminUpdateInviteCode ::
  "time \<Rightarrow> string \<Rightarrow> panel_error + UpdateInviteCodeRequest \<Rightarrow> panel_state \<Rightarrow> InviteCodeResponse answer \<times> panel_state" where
  "adminUpdateInviteCode now pathID body s =
     (let inviteCodeID = TrimSpace pathID
      in if inviteCodeID = [] then (Failure (writeError 400 ''invite code id is required''), s)
         else case body of
             Inl e \<Rightarrow> (Failure e, s)
           | Inr req \<Rightarrow>
               if (case uic_RegistrationLimit req of None \<Rightarrow> False | Some l \<Rightarrow> l \<le> 0)
               then (Failure (writeError 400 ''registration_limit must be positive''), s)
               else (case UpdateInviteCode now inviteCodeID \<lparr>icu_RegistrationLimit = uic_RegistrationLimit req, icu_Enabled = uic_Enabled req\<rparr> (ps_db s) of
                   (Inl err, db') \<Rightarrow>
                     (Failure (if err = ErrInviteCodeNotFound then writeError 404 ''invite code not found''
                        else if err = ErrInviteCodeLimitTooLow then writeError 400 ''registration_limit cannot be lower than current usage''
                        else writeError 500 ''failed to update invite code''), s\<lparr>ps_db := db'\<rparr>)
                 | (Inr inviteCode, db') \<Rightarrow> (Answer 200 (toInviteCodeResponse inviteCode), s\<lparr>ps_db := db'\<rparr>)))"

definition adminDeleteInviteCode :: "string \<Rightarrow> panel_state \<Rightarrow> unit answer \<times> panel_state" where
  "adminDeleteInviteCode pathID s =
     (let inviteCodeID = TrimSpace pathID
      in if inviteCodeID = [] then (Failure (writeError 400 ''invite code id is required''), s)
         else case DeleteInviteCode inviteCodeID (ps_db s) of
             (Inl err, db') \<Rightarrow> (Failure (if err = ErrInviteCodeNotFound then writeError 404 ''invite code not found''
               else writeError 500 ''failed to delete invite code''), s\<lparr>ps_db := db'\<rparr>)
           | (Inr _, db') \<Rightarrow> (Answer 204 (), s\<lparr>ps_db := db'\<rparr>))"

end
