(* ===== verification/Panel_Routes.thy ===== *)
theory Panel_Routes
  imports Panel_Admin
begin

text \<open>
  The routes behind the session middleware (\<open>internal/panel/routes.go\<close>) and what they promise together:
  administration only for administrators, keys only for their owner, and no change of a user, a tier or
  an existing key that the authentication cache of the MCP side is not told about.
\<close>

section \<open>Failures leave the store alone\<close>

lemma key_row_update:
  "(\<And>k. k_ID (f k) = k_ID k) \<Longrightarrow> key_row i (db\<lparr>apikeys := update_where (\<lambda>k. k_ID k = i) f (apikeys db)\<rparr>) = map_option f (key_row i db)"
  by (simp add: key_row_def find_update_key)

lemma UpdateKey_cases:
  assumes "UpdateKey now i ku db = (r, db')"
  obtains (refused) e where "r = Inl e" "db' = db"
  | (same) k where "r = Inr k" "key_row i db = Some k" "db' = db"
  | (changed) f k where "r = Inr (f k)" "key_row i db = Some k" "db' = db\<lparr>apikeys := update_where (\<lambda>k. k_ID k = i) f (apikeys db)\<rparr>"
      "\<And>k. k_ID (f k) = k_ID k \<and> k_UserID (f k) = k_UserID k"
proof (cases "key_row i db")
  case None
  show ?thesis by (rule refused [of "StoreErrorf ''api key not found''"]) (use assms None in \<open>simp_all add: UpdateKey_def GetKeyByID_def\<close>)
next
  case (Some k)
  let ?upd = "\<lambda>f k. (f k)\<lparr>k_UpdatedAt := db_time now\<rparr>"
  have step: thesis if "(\<And>k. k_ID (f k) = k_ID k \<and> k_UserID (f k) = k_UserID k)"
    "(r, db') = (case key_row i (db\<lparr>apikeys := update_where (\<lambda>k. k_ID k = i) (?upd f) (apikeys db)\<rparr>) of
       None \<Rightarrow> (Inl (StoreErrorf ''api key not found''), db\<lparr>apikeys := update_where (\<lambda>k. k_ID k = i) (?upd f) (apikeys db)\<rparr>)
     | Some k \<Rightarrow> (Inr k, db\<lparr>apikeys := update_where (\<lambda>k. k_ID k = i) (?upd f) (apikeys db)\<rparr>))" for f
    by (rule changed [of "?upd f" k]) (use that Some in \<open>simp_all add: key_row_update\<close>)
  show ?thesis
  proof (cases "ku_Name ku")
    case None
    show ?thesis
    proof (cases "ku_Enabled ku")
      case none: None
      show ?thesis by (rule same [of k]) (use assms Some None none in \<open>simp_all add: UpdateKey_def GetKeyByID_def Let_def\<close>)
    next
      case (Some e)
      show ?thesis by (rule step [of "\<lambda>k. k\<lparr>k_Enabled := e\<rparr>"])
          (use assms \<open>key_row i db = Some k\<close> None Some in \<open>simp_all add: UpdateKey_def GetKeyByID_def Let_def apply_sets_def\<close>)
    qed
  next
    case name: (Some raw)
    show ?thesis
    proof (cases "TrimSpace raw = []")
      case True
      show ?thesis by (rule refused [of "StoreErrorf ''name must not be empty''"])
          (use assms Some name True in \<open>simp_all add: UpdateKey_def GetKeyByID_def Let_def\<close>)
    next
      case False
      show ?thesis by (rule step [of "\<lambda>k. case ku_Enabled ku of None \<Rightarrow> k\<lparr>k_Name := TrimSpace raw\<rparr> | Some e \<Rightarrow> k\<lparr>k_Name := TrimSpace raw, k_Enabled := e\<rparr>"])
          (use assms Some name False in \<open>auto simp: UpdateKey_def GetKeyByID_def Let_def apply_sets_def split: option.splits\<close>)
    qed
  qed
qed

lemma store_failures:
  "UpdateKey now i ku db = (Inl e, db') \<Longrightarrow> db' = db"
  "DeleteKey debugOk i db = (Inl e, db') \<Longrightarrow> db' = db"
  "UpdateUser now i uu db = (Inl e, db') \<Longrightarrow> db' = db"
  "DeleteUser debugOk i db = (Inl e, db') \<Longrightarrow> db' = db"
  "CreateTier rnd now name rpm l d db = (Inl e, db') \<Longrightarrow> db' = db"
  "UpdateTier now i tu db = (Inl e, db') \<Longrightarrow> db' = db"
  "DeleteTier now i db = (Inl e, db') \<Longrightarrow> db' = db"
  "CreateKey cr kb ib nb now uid name m db = (Inl e, db') \<Longrightarrow> db' = db"
proof -
  show "UpdateKey now i ku db = (Inl e, db') \<Longrightarrow> db' = db" by (erule UpdateKey_cases) simp_all
  show "DeleteUser debugOk i db = (Inl e, db') \<Longrightarrow> db' = db"
    by (auto simp: DeleteUser_def run_tx_def split: sum.splits prod.splits)
qed (auto simp: DeleteKey_def UpdateUser_def UpdateTier_def DeleteTier_def CreateTier_def CreateKey_def run_tx_Inl Let_def
    split: if_splits sum.splits prod.splits)

section \<open>The contract of a handler that invalidates\<close>

locale invalidating_handler =
  fixes run :: "panel_state \<Rightarrow> 'a answer \<times> panel_state"
  assumes refused: "run s = (Failure e, s') \<Longrightarrow> s' = s"
    and applied: "run s = (Answer code x, s') \<Longrightarrow> \<exists>db'. s' = invalidateAuthCache (s\<lparr>ps_db := db'\<rparr>)"
begin

lemma unchanged_or_invalidated: "snd (run s) = s \<or> ps_AuthCache (snd (run s)) = map_option Suc (ps_AuthCache s)"
proof (cases "run s")
  case (Pair ans s')
  then show ?thesis using refused [of s _ s'] applied [of s _ _ s'] by (cases ans) (auto simp: invalidateAuthCache_def)
qed

end

interpretation update_key: invalidating_handler "updateKey now ctx keyID body" for now ctx keyID body
  by unfold_locales (auto simp: updateKey_def store_failures split: sum.splits prod.splits if_splits)

interpretation delete_key: invalidating_handler "deleteKey debugOk ctx keyID" for debugOk ctx keyID
  by unfold_locales (auto simp: deleteKey_def store_failures split: sum.splits prod.splits)

interpretation update_user: invalidating_handler "adminUpdateUser now ctx userID body" for now ctx userID body
  by unfold_locales (auto simp: adminUpdateUser_def store_failures Let_def split: sum.splits prod.splits if_splits)

interpretation delete_user: invalidating_handler "adminDeleteUser debugOk ctx userID" for debugOk ctx userID
  by unfold_locales (auto simp: adminDeleteUser_def store_failures split: sum.splits prod.splits if_splits)

interpretation create_tier: invalidating_handler "adminCreateTier rnd now body" for rnd now body
  by unfold_locales (auto simp: adminCreateTier_def store_failures Let_def split: sum.splits prod.splits if_splits)

interpretation update_tier: invalidating_handler "adminUpdateTier now tierID body" for now tierID body
  by unfold_locales (auto simp: adminUpdateTier_def store_failures split: sum.splits prod.splits)

interpretation delete_tier: invalidating_handler "adminDeleteTier now tierID" for now tierID
  by unfold_locales (auto simp: adminDeleteTier_def store_failures split: sum.splits prod.splits)

section \<open>Routes\<close>

datatype panel_route =
    CreateKeyRoute entropy entropy "string option" "panel_error + string"
  | UpdateKeyRoute string "panel_error + UpdateKeyRequest"
  | DeleteKeyRoute bool string
  | UpdateUserRoute string "panel_error + UpdateUserRequest"
  | DeleteUserRoute bool string
  | CreateTierRoute entropy "panel_error + CreateTierRequest"
  | UpdateTierRoute string "panel_error + UpdateTierRequest"
  | DeleteTierRoute string
  | CreateInviteRoute entropy entropy "string option" "panel_error + int"
  | UpdateInviteRoute string "panel_error + UpdateInviteCodeRequest"
  | DeleteInviteRoute string

fun is_admin_route :: "panel_route \<Rightarrow> bool" where
  "is_admin_route (CreateKeyRoute _ _ _ _) = False"
| "is_admin_route (UpdateKeyRoute _ _) = False"
| "is_admin_route (DeleteKeyRoute _ _) = False"
| "is_admin_route _ = True"

text \<open>The status written, and the state left.\<close>

definition status_of :: "'a answer \<times> panel_state \<Rightarrow> int \<times> panel_state" where
  "status_of x = (case x of (Answer code _, s) \<Rightarrow> (code, s) | (Failure e, s) \<Rightarrow> (pe_status e, s))"

fun panel_handle :: "crypto \<Rightarrow> Handler \<Rightarrow> time \<Rightarrow> Context \<Rightarrow> panel_route \<Rightarrow> panel_state \<Rightarrow> int \<times> panel_state" where
  "panel_handle cr h now ctx (CreateKeyRoute kb ib nb body) s = status_of (createKey cr h kb ib nb now ctx body s)"
| "panel_handle cr h now ctx (UpdateKeyRoute i body) s = status_of (updateKey now ctx i body s)"
| "panel_handle cr h now ctx (DeleteKeyRoute debugOk i) s = status_of (deleteKey debugOk ctx i s)"
| "panel_handle cr h now ctx (UpdateUserRoute i body) s = status_of (adminUpdateUser now ctx i body s)"
| "panel_handle cr h now ctx (DeleteUserRoute debugOk i) s = status_of (adminDeleteUser debugOk ctx i s)"
| "panel_handle cr h now ctx (CreateTierRoute rnd body) s = status_of (adminCreateTier rnd now body s)"
| "panel_handle cr h now ctx (UpdateTierRoute i body) s = status_of (adminUpdateTier now i body s)"
| "panel_handle cr h now ctx (DeleteTierRoute i) s = status_of (adminDeleteTier now i s)"
| "panel_handle cr h now ctx (CreateInviteRoute kb ib nb body) s = status_of (adminCreateInviteCode cr kb ib nb now ctx body s)"
| "panel_handle cr h now ctx (UpdateInviteRoute i body) s = status_of (adminUpdateInviteCode now i body s)"
| "panel_handle cr h now ctx (DeleteInviteRoute i) s = status_of (adminDeleteInviteCode i s)"

definition panel_serve :: "panel_lib \<Rightarrow> Handler \<Rightarrow> time \<Rightarrow> Request \<Rightarrow> panel_route \<Rightarrow> panel_state \<Rightarrow> int \<times> panel_state" where
  "panel_serve lib h now r route s =
     (case JWTMiddleware (pl_jwt lib) (h_JWTSecret h) (store_loader now) (ps_db s) now r emptyContext of
        Respond e \<Rightarrow> (status e, s)
      | Next ctx \<Rightarrow>
          (case (if is_admin_route route then RequireAdmin ctx else Next ctx) of
             Respond e \<Rightarrow> (status e, s)
           | Next ctx' \<Rightarrow> panel_handle (pl_crypto lib) h now ctx' route s))"

section \<open>The store calls behind a route\<close>

fun route_entropy_ok :: "panel_route \<Rightarrow> bool" where
  "route_entropy_ok (CreateTierRoute rnd body) = random_ok 16 rnd"
| "route_entropy_ok _ = True"

lemma snd_status_of: "snd (status_of x) = snd x"
  by (cases x) (simp add: status_of_def split: answer.split)

text \<open>A route performs at most one writing call of the store, the one named here.\<close>

inductive route_call :: "crypto \<Rightarrow> time \<Rightarrow> panel_route \<Rightarrow> DB \<Rightarrow> DB \<Rightarrow> bool" for cr now where
  create_key: "route_call cr now (CreateKeyRoute kb ib nb body) db (snd (CreateKey cr kb ib nb now uid name m db))"
| update_key: "route_call cr now (UpdateKeyRoute i kbody) db (snd (UpdateKey now i keyUpdates db))"
| delete_key: "route_call cr now (DeleteKeyRoute debugOk i) db (snd (DeleteKey debugOk i db))"
| update_user: "route_call cr now (UpdateUserRoute i ubody) db (snd (UpdateUser now i userUpdates db))"
| delete_user: "route_call cr now (DeleteUserRoute debugOk i) db (snd (DeleteUser debugOk i db))"
| create_tier: "route_call cr now (CreateTierRoute rnd tbody) db (snd (CreateTier rnd now name rpm successLimit isDefault db))"
| update_tier: "route_call cr now (UpdateTierRoute i tubody) db (snd (UpdateTier now i tierUpdates db))"
| delete_tier: "route_call cr now (DeleteTierRoute i) db (snd (DeleteTier now i db))"
| create_invite: "route_call cr now (CreateInviteRoute kb ib nb ibody) db (snd (CreateInviteCode cr kb ib nb now createdBy registrationLimit db))"
| update_invite: "route_call cr now (UpdateInviteRoute i iubody) db (snd (UpdateInviteCode now (TrimSpace i) inviteUpdates db))"
| delete_invite: "route_call cr now (DeleteInviteRoute i) db (snd (DeleteInviteCode (TrimSpace i) db))"

lemma route_call_snd: "route_call cr now route db (snd f) \<Longrightarrow> f = (r, x) \<Longrightarrow> route_call cr now route db x"
  by simp

lemmas route_call_of = route_call.intros [THEN route_call_snd]

lemma panel_handle_call:
  "ps_db (snd (panel_handle cr h now ctx route s)) = ps_db s \<or> route_call cr now route (ps_db s) (ps_db (snd (panel_handle cr h now ctx route s)))"
  by (cases route)
     (auto simp: snd_status_of createKey_def updateKey_def deleteKey_def adminUpdateUser_def adminDeleteUser_def adminCreateTier_def
       adminUpdateTier_def adminDeleteTier_def adminCreateInviteCode_def adminUpdateInviteCode_def adminDeleteInviteCode_def
       invalidateAuthCache_def Let_def split: option.split sum.split prod.split intro: route_call_of)

lemma route_call_step: "route_call cr now route db db' \<Longrightarrow> route_entropy_ok route \<Longrightarrow> store_step cr db db'"
  by (induction rule: route_call.induct) (auto intro: store_step.intros)

lemma panel_handle_step:
  assumes "route_entropy_ok route"
  shows "ps_db (snd (panel_handle cr h now ctx route s)) = ps_db s \<or> store_step cr (ps_db s) (ps_db (snd (panel_handle cr h now ctx route s)))"
  using panel_handle_call route_call_step assms by blast

section \<open>The authentication data behind the cache\<close>

text \<open>
  What the cached resolver answers from: the users, the tiers and the keys found by hash. A new key
  has a hash nobody asked for with success before.
\<close>

definition auth_view_kept :: "DB \<Rightarrow> DB \<Rightarrow> bool" where
  "auth_view_kept db db' \<longleftrightarrow> users db' = users db \<and> tiers db' = tiers db \<and>
     (\<forall>hash k. GetKeyByHash hash db = Inr (Some k) \<longrightarrow> GetKeyByHash hash db' = Inr (Some k))"

lemma auth_view_refl [simp]: "auth_view_kept db db"
  by (simp add: auth_view_kept_def)

lemma find_append_Some: "find P xs = Some x \<Longrightarrow> find P (xs @ ys) = Some x"
  by (induction xs) auto

lemma CreateKey_view: "auth_view_kept db (snd (CreateKey cr kb ib nb now uid name m db))"
proof -
  obtain r db' where c: "CreateKey cr kb ib nb now uid name m db = (r, db')" by fastforce
  then show ?thesis
    by (cases rule: CreateKey_cases) (auto simp: c auth_view_kept_def insert_apikey_Inr GetKeyByHash_def find_append_Some)
qed

lemma invite_views:
  "auth_view_kept db (snd (CreateInviteCode cr kb ib nb now createdBy registrationLimit db))"
  "auth_view_kept db (snd (UpdateInviteCode now i inviteUpdates db))"
  "auth_view_kept db (snd (DeleteInviteCode i db))"
  by (auto simp: auth_view_kept_def CreateInviteCode_def UpdateInviteCode_def DeleteInviteCode_def run_tx_def Let_def
      insert_invite_def GetKeyByHash_def split: sum.split option.split prod.split)

lemmas invalidations = update_key.unchanged_or_invalidated delete_key.unchanged_or_invalidated update_user.unchanged_or_invalidated
  delete_user.unchanged_or_invalidated create_tier.unchanged_or_invalidated update_tier.unchanged_or_invalidated
  delete_tier.unchanged_or_invalidated

text \<open>Key creation and the invite codes are the only writing routes that leave the cache alone.\<close>

fun is_quiet_route :: "panel_route \<Rightarrow> bool" where
  "is_quiet_route (CreateKeyRoute _ _ _ _) = True"
| "is_quiet_route (CreateInviteRoute _ _ _ _) = True"
| "is_quiet_route (UpdateInviteRoute _ _) = True"
| "is_quiet_route (DeleteInviteRoute _) = True"
| "is_quiet_route _ = False"

lemma quiet_cache: "is_quiet_route route \<Longrightarrow> ps_AuthCache (snd (panel_handle cr h now ctx route s)) = ps_AuthCache s"
  by (cases route)
     (auto simp: snd_status_of createKey_def adminCreateInviteCode_def adminUpdateInviteCode_def adminDeleteInviteCode_def Let_def
       split: option.split sum.split prod.split)

lemma loud_cache:
  "\<not> is_quiet_route route \<Longrightarrow> snd (panel_handle cr h now ctx route s) = s \<or>
     ps_AuthCache (snd (panel_handle cr h now ctx route s)) = map_option Suc (ps_AuthCache s)"
  by (cases route) (simp_all add: snd_status_of invalidations)

lemma quiet_view: "route_call cr now route db db' \<Longrightarrow> is_quiet_route route \<Longrightarrow> auth_view_kept db db'"
  by (induction rule: route_call.induct) (simp_all add: CreateKey_view invite_views)


section \<open>Who may do what\<close>

text \<open>A request that carries a live session of the stored user \<open>u\<close>.\<close>

definition session_of :: "panel_lib \<Rightarrow> Handler \<Rightarrow> time \<Rightarrow> Request \<Rightarrow> DB \<Rightarrow> User \<Rightarrow> bool" where
  "session_of lib h now r db u \<longleftrightarrow>
     (\<exists>token claims. bearerToken r = Some token \<and> parsePanelClaims (pl_jwt lib) (h_JWTSecret h) now token = Inr claims \<and>
        user_row (pc_UserID claims) db = Some u \<and> u_Enabled u \<and> pc_Role claims = u_Role u \<and> pc_TokenVersion claims = u_TokenVersion u)"

lemma session_unique: "session_of lib h now r db u \<Longrightarrow> session_of lib h now r db v \<Longrightarrow> u = v"
  by (auto simp: session_of_def)

lemma authenticated_user: "db_ok db \<Longrightarrow> user_row i db = Some u \<Longrightarrow> au_User (authenticated now db u) = scanUser now u"
  using user_tier_row [of db i u] by (auto simp: authenticated_def)

lemma JWT_by_session:
  assumes ok: "db_ok db"
  shows "case JWTMiddleware (pl_jwt lib) (h_JWTSecret h) (store_loader now) db now r ctx of
      Next ctx' \<Rightarrow> \<exists>u. session_of lib h now r db u \<and> ctx' = WithUser ctx (authenticated now db u)
    | Respond e \<Rightarrow> (\<nexists>u. session_of lib h now r db u) \<and> status e \<in> {401, 403}"
  by (auto simp: JWTMiddleware_def session_of_def load_stored_user [OF ok] writeAuthLoadError_def is_user_not_found_def
      http_Error_def authenticated_user [OF ok] split: option.splits sum.splits)

lemma served_by_session:
  assumes ok: "db_ok (ps_db s)" and session: "session_of lib h now r (ps_db s) u"
  shows "panel_serve lib h now r route s = (403, s) \<and> is_admin_route route \<and> u_Role u \<noteq> RoleAdmin \<or>
    (is_admin_route route \<longrightarrow> u_Role u = RoleAdmin) \<and>
    panel_serve lib h now r route s = panel_handle (pl_crypto lib) h now (WithUser emptyContext (authenticated now (ps_db s) u)) route s"
proof -
  have "JWTMiddleware (pl_jwt lib) (h_JWTSecret h) (store_loader now) (ps_db s) now r emptyContext =
      Next (WithUser emptyContext (authenticated now (ps_db s) u))"
  proof (cases "JWTMiddleware (pl_jwt lib) (h_JWTSecret h) (store_loader now) (ps_db s) now r emptyContext")
    case (Respond e)
    then show ?thesis using JWT_by_session [OF ok, of lib h now r emptyContext] session by auto
  next
    case (Next ctx)
    then obtain v where "session_of lib h now r (ps_db s) v" "ctx = WithUser emptyContext (authenticated now (ps_db s) v)"
      using JWT_by_session [OF ok, of lib h now r emptyContext] by auto
    then show ?thesis using Next session_unique [OF session] by blast
  qed
  moreover have "u_Role (au_User (authenticated now (ps_db s) u)) = u_Role u"
    using session authenticated_user [OF ok] by (auto simp: session_of_def)
  ultimately show ?thesis by (auto simp: panel_serve_def RequireAdmin_def WithUser_def http_Error_def)
qed

lemma refused_without_session:
  assumes "db_ok (ps_db s)" "\<nexists>u. session_of lib h now r (ps_db s) u"
  shows "snd (panel_serve lib h now r route s) = s \<and> fst (panel_serve lib h now r route s) \<in> {401, 403}"
  using JWT_by_session [OF assms(1), of lib h now r emptyContext] assms(2) by (auto simp: panel_serve_def split: outcome.splits)

text \<open>
  Access to the panel (C13). A request is handled exactly if it carries a token of a stored, enabled
  user whose role and token version are still the ones in the token, and for the administration
  routes exactly if that user is moreover an administrator; it is then handled in the name of that
  user. Every other request is answered 401 or 403 and changes nothing.
\<close>

theorem panel_access_control:
  assumes "db_ok (ps_db s)"
  shows "if \<exists>u. session_of lib h now r (ps_db s) u \<and> (is_admin_route route \<longrightarrow> u_Role u = RoleAdmin)
    then \<exists>u. session_of lib h now r (ps_db s) u \<and> (is_admin_route route \<longrightarrow> u_Role u = RoleAdmin) \<and>
      panel_serve lib h now r route s =
        panel_handle (pl_crypto lib) h now (WithUser emptyContext (authenticated now (ps_db s) u)) route s
    else snd (panel_serve lib h now r route s) = s \<and> fst (panel_serve lib h now r route s) \<in> {401, 403}"
proof (cases "\<exists>u. session_of lib h now r (ps_db s) u")
  case True
  then obtain u where u: "session_of lib h now r (ps_db s) u" by blast
  have only: "(\<exists>v. session_of lib h now r (ps_db s) v \<and> P v) \<longleftrightarrow> P u" for P
    using u session_unique [OF u] by blast
  show ?thesis unfolding only using served_by_session [OF assms u, of route] by auto
next
  case False
  then show ?thesis using refused_without_session [OF assms False, of route] by auto
qed

section \<open>Whose keys\<close>

lemma own_key_Inr:
  "own_key ctx i db = Inr k \<longleftrightarrow> (\<exists>user. ctx_User ctx = Some user \<and> key_row i db = Some k \<and> k_UserID k = u_ID (au_User user))"
  by (auto simp: own_key_def GetKeyByID_def split: option.splits)

lemma key_row_member: "key_row i db = Some k \<Longrightarrow> k \<in> set (apikeys db) \<and> k_ID k = i"
  by (auto simp: key_row_def find_Some_iff)

lemma key_owner:
  assumes "db_ok db" "key_row i db = Some k" "j \<in> set (apikeys db)" "k_ID j = i"
  shows "j = k"
  using db_ok_keys [OF assms(1)] key_row_member [OF assms(2)] assms(3,4) by (auto simp: keys_ok_def distinct_map inj_on_def)

lemma keys_of_update:
  assumes "\<And>j. j \<in> set (apikeys db) \<Longrightarrow> k_ID j = i \<Longrightarrow> k_UserID j \<noteq> uid" "\<And>k. k_UserID (f k) = k_UserID k"
  shows "keys_of uid (db\<lparr>apikeys := update_where (\<lambda>k. k_ID k = i) f (apikeys db)\<rparr>) = keys_of uid db"
proof -
  have "filter (\<lambda>k. k_UserID k = uid) (map (\<lambda>k. if k_ID k = i then f k else k) ks) = filter (\<lambda>k. k_UserID k = uid) ks"
    if "\<And>j. j \<in> set ks \<Longrightarrow> k_ID j = i \<Longrightarrow> k_UserID j \<noteq> uid" for ks
    using that by (induction ks) (auto simp: assms(2))
  from this [OF assms(1)] show ?thesis by (simp add: keys_of_def update_where_def)
qed

lemma keys_of_delete:
  assumes "\<And>j. j \<in> set (apikeys db) \<Longrightarrow> k_ID j = i \<Longrightarrow> k_UserID j \<noteq> uid"
  shows "keys_of uid (snd (DeleteKey debugOk i db)) = keys_of uid db"
proof -
  have "apikeys (snd (DeleteKey debugOk i db)) \<in> {apikeys db, delete_where (\<lambda>k. k_ID k = i) (apikeys db)}"
    by (simp add: DeleteKey_def deleteUsageDebugByKeyIDsBestEffort_def delete_apikeys_def Let_def)
  moreover have "filter (\<lambda>k. k_UserID k = uid \<and> k_ID k \<noteq> i) (apikeys db) = filter (\<lambda>k. k_UserID k = uid) (apikeys db)"
    by (rule filter_cong) (use assms in auto)
  ultimately show ?thesis by (auto simp: keys_of_def delete_where_def conj_commute)
qed

lemma key_frames:
  "tiers (snd (DeleteKey debugOk i db)) = tiers db"
  "tiers (snd (UpdateKey now i updates db)) = tiers db"
  by (auto simp: DeleteKey_def deleteUsageDebugByKeyIDsBestEffort_def delete_apikeys_def UpdateKey_def Let_def
      split: sum.split option.split)

lemma keyset_page_subset: "set (fst (keyset_page d key cursor limit rows)) \<subseteq> set rows"
proof -
  have "set (rows_after d key cursor rows) \<subseteq> set rows" by (auto simp: rows_after_def split: option.split)
  then show ?thesis
    by (auto simp: keyset_page_def keyset_query_def finalizeTimeIDPage_def Let_def dest!: in_set_takeD)
qed

text \<open>What the three key routes do to the keys of a user who is not the session's.\<close>

lemma CreateKey_foreign:
  assumes "TrimSpace owner = owner"
  shows "users (snd (CreateKey cr kb ib nb now owner name m db)) = users db \<and> tiers (snd (CreateKey cr kb ib nb now owner name m db)) = tiers db \<and>
    (uid \<noteq> owner \<longrightarrow> keys_of uid (snd (CreateKey cr kb ib nb now owner name m db)) = keys_of uid db)"
proof -
  obtain r db' where c: "CreateKey cr kb ib nb now owner name m db = (r, db')" by fastforce
  then show ?thesis by (cases rule: CreateKey_cases) (auto simp: c insert_apikey_Inr keys_of_def assms)
qed

lemma UpdateKey_foreign:
  assumes "\<And>j. j \<in> set (apikeys db) \<Longrightarrow> k_ID j = i \<Longrightarrow> k_UserID j \<noteq> uid"
  shows "keys_of uid (snd (UpdateKey now i updates db)) = keys_of uid db"
proof -
  obtain r db' where c: "UpdateKey now i updates db = (r, db')" by fastforce
  then show ?thesis
  proof (cases rule: UpdateKey_cases)
    case (changed f k')
    then show ?thesis unfolding c using keys_of_update [of db i uid f] assms by simp
  qed (simp_all add: c)
qed

lemma key_route_db:
  assumes "ctx_User ctx = Some user"
  shows "\<exists>name m. ps_db (snd (panel_handle cr h now ctx (CreateKeyRoute kb ib nb body) s)) \<in>
      {ps_db s, snd (CreateKey cr kb ib nb now (u_ID (au_User user)) name m (ps_db s))}"
    and "ps_db (snd (panel_handle cr h now ctx (UpdateKeyRoute i ubody) s)) = ps_db s \<or>
      (\<exists>updates k. own_key ctx i (ps_db s) = Inr k \<and>
        ps_db (snd (panel_handle cr h now ctx (UpdateKeyRoute i ubody) s)) = snd (UpdateKey now i updates (ps_db s)))"
    and "ps_db (snd (panel_handle cr h now ctx (DeleteKeyRoute debugOk i) s)) = ps_db s \<or>
      (\<exists>k. own_key ctx i (ps_db s) = Inr k \<and>
        ps_db (snd (panel_handle cr h now ctx (DeleteKeyRoute debugOk i) s)) = snd (DeleteKey debugOk i (ps_db s)))"
proof -
  show "\<exists>name m. ps_db (snd (panel_handle cr h now ctx (CreateKeyRoute kb ib nb body) s)) \<in>
      {ps_db s, snd (CreateKey cr kb ib nb now (u_ID (au_User user)) name m (ps_db s))}"
    using assms by (auto simp: snd_status_of createKey_def Let_def split: option.split sum.split prod.split) (metis snd_conv)+
qed (use assms in \<open>auto simp: snd_status_of updateKey_def deleteKey_def invalidateAuthCache_def split: option.split sum.split prod.split\<close>, (metis snd_conv)+)

text \<open>
  Keys belong to their owner (C15). In a session of a stored user, the key routes never touch a key of
  anybody else, nor any user or tier; a key is shown in the clear only if it is the session user's
  own, and the key list holds nothing but the session user's keys.
\<close>

theorem panel_key_isolation:
  assumes ok: "db_ok (ps_db s)" and user: "ctx_User ctx = Some user" "user_row (u_ID (au_User user)) (ps_db s) = Some u"
  shows "(\<not> is_admin_route route \<longrightarrow>
       (\<forall>uid. uid \<noteq> u_ID (au_User user) \<longrightarrow>
          keys_of uid (ps_db (snd (panel_handle cr h now ctx route s))) = keys_of uid (ps_db s)) \<and>
       users (ps_db (snd (panel_handle cr h now ctx route s))) = users (ps_db s) \<and>
       tiers (ps_db (snd (panel_handle cr h now ctx route s))) = tiers (ps_db s)) \<and>
    (\<forall>i code raw. revealKey cr ctx i s = Answer code raw \<longrightarrow> (\<exists>k \<in> set (keys_of (u_ID (au_User user)) (ps_db s)). k_ID k = i)) \<and>
    (\<forall>l c code response. listKeys ctx l c s = Answer code response \<longrightarrow>
       set (ks_Keys response) \<subseteq> toKeyResponse ` set (keys_of (u_ID (au_User user)) (ps_db s)))"
proof -
  let ?me = "u_ID (au_User user)" and ?db = "ps_db s"
  have foreign: "k_UserID j \<noteq> uid" if "key_row i ?db = Some k" "k_UserID k = ?me" "uid \<noteq> ?me" "j \<in> set (apikeys ?db)" "k_ID j = i"
    for i j k uid using key_owner [OF ok that(1,4,5)] that(2,3) by simp
  have me: "TrimSpace ?me = ?me" using db_ok_users [OF ok] user_row_Some [OF ok] user(2) by (auto simp: users_ok_def)
  note frames = users_only key_frames
  have "(\<forall>uid. uid \<noteq> ?me \<longrightarrow> keys_of uid (ps_db (snd (panel_handle cr h now ctx route s))) = keys_of uid ?db) \<and>
       users (ps_db (snd (panel_handle cr h now ctx route s))) = users ?db \<and>
       tiers (ps_db (snd (panel_handle cr h now ctx route s))) = tiers ?db" if "\<not> is_admin_route route"
  proof (cases route)
    case (CreateKeyRoute kb ib nb body)
    then show ?thesis using key_route_db(1) [OF user(1), of cr h now kb ib nb body s] CreateKey_foreign [OF me]
      by (auto simp del: panel_handle.simps)
  next
    case (UpdateKeyRoute i body)
    then show ?thesis using key_route_db(2) [OF user(1), of cr h now i body s] UpdateKey_foreign [of ?db i] foreign user(1)
      by (auto simp: own_key_Inr frames simp del: panel_handle.simps)
  next
    case (DeleteKeyRoute debugOk i)
    then show ?thesis using key_route_db(3) [OF user(1), of cr h now debugOk i s] keys_of_delete [of ?db i] foreign user(1)
      by (auto simp: own_key_Inr frames simp del: panel_handle.simps)
  qed (use that in simp_all)
  moreover have "\<exists>k \<in> set (keys_of ?me ?db). k_ID k = i" if "revealKey cr ctx i s = Answer code raw" for i code raw
    using that user(1) key_row_member [of i ?db] by (fastforce simp: revealKey_def own_key_Inr keys_of_def split: sum.splits)
  moreover have "set (ks_Keys response) \<subseteq> toKeyResponse ` set (keys_of ?me ?db)" if listed: "listKeys ctx l c s = Answer code response" for l c code response
  proof -
    obtain cursor limit where "ks_Keys response = map toKeyResponse (kp_Keys (ListKeysByUserPage ?me cursor limit ?db))"
      using listed user(1) by (auto simp: listKeys_def Let_def split: sum.splits)
    then show ?thesis using keyset_page_subset [of timeIDDescending apikey_key cursor limit "keys_of ?me ?db"]
      by (auto simp: ListKeysByUserPage_def split: prod.splits)
  qed
  ultimately show ?thesis by blast
qed

section \<open>Sequences of requests\<close>

inductive panel_run :: "panel_lib \<Rightarrow> Handler \<Rightarrow> panel_state \<Rightarrow> panel_state \<Rightarrow> bool" for lib h where
  start: "panel_run lib h s s"
| serve: "panel_run lib h s s' \<Longrightarrow> route_entropy_ok route \<Longrightarrow> panel_run lib h s (snd (panel_serve lib h now r route s'))"

lemma panel_serve_step:
  assumes "route_entropy_ok route"
  shows "ps_db (snd (panel_serve lib h now r route s)) = ps_db s \<or>
    store_step (pl_crypto lib) (ps_db s) (ps_db (snd (panel_serve lib h now r route s)))"
  using panel_handle_step [OF assms] by (simp add: panel_serve_def split: outcome.split)

lemma user_row_map: "(\<And>u. u_ID (f u) = u_ID u) \<Longrightarrow> find (\<lambda>u. u_ID u = i) (map f us) = map_option f (find (\<lambda>u. u_ID u = i) us)"
  by (induction us) auto

lemma user_row_frame: "users db' = users db \<Longrightarrow> user_row i db' = user_row i db"
  by (simp add: user_row_def)

lemma user_row_delete: "j \<noteq> i \<Longrightarrow> find (\<lambda>u. u_ID u = i) (filter (\<lambda>u. u_ID u \<noteq> j) us) = find (\<lambda>u. u_ID u = i) us"
  by (induction us) auto

definition keeps_user :: "string \<Rightarrow> User \<Rightarrow> DB \<Rightarrow> bool" where
  "keeps_user i u db \<longleftrightarrow> (\<exists>v. user_row i db = Some v \<and> u_Enabled v = u_Enabled u \<and> u_Role v = u_Role u)"

lemma DeleteUser_other:
  assumes "j \<noteq> i"
  shows "user_row i (snd (DeleteUser debugOk j db)) = user_row i db"
proof -
  obtain r db' where c: "DeleteUser debugOk j db = (r, db')" by fastforce
  then show ?thesis
    by (cases rule: DeleteUser_cases)
       (use assms in \<open>simp_all add: c user_row_def user_row_delete deleteUsageDebugByKeyIDsBestEffort_def delete_user_def
         delete_apikeys_def delete_where_def Let_def\<close>)
qed

lemma DeleteTier_keeps:
  assumes ok: "db_ok db" and "user_row i db = Some u"
  shows "keeps_user i u (snd (DeleteTier now j db))"
  using ok
proof (cases rule: DeleteTier_cases [where i = j and now = now])
  case (deleted t d)
  then show ?thesis using assms(2)
    by (auto simp: keeps_user_def user_row_def user_row_map moved_user_def)
qed (use assms(2) in \<open>simp_all add: keeps_user_def\<close>)

lemma UpdateUser_keeps:
  assumes ok: "db_ok db" and row: "user_row i db = Some u"
    and safe: "j = i \<Longrightarrow> uu_Enabled updates \<noteq> Some (\<not> u_Enabled u)"
      "\<And>role. j = i \<Longrightarrow> uu_Role updates = Some role \<Longrightarrow> role \<in> {RoleAdmin, RoleUser} \<Longrightarrow> role = u_Role u"
  shows "keeps_user i u (snd (UpdateUser now j updates db))"
proof -
  obtain r db' where c: "UpdateUser now j updates db = (r, db')" by fastforce
  from ok c show ?thesis
  proof (cases rule: UpdateUser_cases)
    case (changed w)
    have "find (\<lambda>u. u_ID u = i) (users db) = Some u" "u_ID u = i" using row user_row_Some [OF ok] by (auto simp: user_row_def)
    then have "user_row i db' = Some (if j = i then stamped now updates (revokes updates w) u else u)"
      using changed(3) by (simp add: user_row_def update_where_def user_row_map stamped_def updated_user_def)
    then show ?thesis using safe changed(2) unfolding c
      by (auto simp: keeps_user_def stamped_def updated_user_def updates_valid_def split: option.split)
  qed (use row in \<open>simp_all add: c keeps_user_def\<close>)
qed

lemma quiet_keeps:
  assumes ok: "db_ok db" and row: "user_row i db = Some u" and call: "route_call cr now route db db'"
    and "\<nexists>j body. route = UpdateUserRoute j body" "\<nexists>debugOk j. route = DeleteUserRoute debugOk j"
  shows "keeps_user i u db'"
proof -
  have same: "keeps_user i u db'" if "users db' = users db" for db'
    using row user_row_frame [OF that] by (simp add: keeps_user_def)
  from call show ?thesis
    by cases (use assms(4,5) DeleteTier_keeps [OF ok row] in \<open>auto simp: users_only intro!: same\<close>)
qed

lemma panel_handle_keeps:
  assumes ok: "db_ok (ps_db s)" and row: "user_row i (ps_db s) = Some u"
    and ctx: "ctx_User ctx = Some user" "u_ID (au_User user) = i"
    and u: "u_Enabled u" "is_admin_route route \<Longrightarrow> u_Role u = RoleAdmin"
  shows "keeps_user i u (ps_db (snd (panel_handle cr h now ctx route s)))"
proof (cases "snd (panel_handle cr h now ctx route s) = s")
  case True
  then show ?thesis using row by (simp add: keeps_user_def)
next
  case False
  consider (update) j body where "route = UpdateUserRoute j body" | (delete) debugOk j where "route = DeleteUserRoute debugOk j"
    | (other) "\<nexists>j body. route = UpdateUserRoute j body" "\<nexists>debugOk j. route = DeleteUserRoute debugOk j" by blast
  then show ?thesis
  proof cases
    case (update j body)
    then obtain req where req: "body = Inr req" "\<not> (j = i \<and> uur_Enabled req = Some False)" "\<not> (j = i \<and> uur_Role req = Some RoleUser)"
      using False ctx by (auto simp: snd_status_of adminUpdateUser_def Let_def split: sum.splits if_splits)
    let ?updates = "\<lparr>uu_Enabled = uur_Enabled req, uu_Role = uur_Role req, uu_TierID = uur_TierID req,
      uu_RevokeTokens = uur_RevokeTokens req, uu_PasswordHash = None\<rparr>"
    have "ps_db (snd (panel_handle cr h now ctx route s)) = snd (UpdateUser now j ?updates (ps_db s))"
      using update ctx req by (auto simp: snd_status_of adminUpdateUser_def Let_def invalidateAuthCache_def split: sum.split prod.split)
    then show ?thesis using UpdateUser_keeps [OF ok row, of j ?updates now] req(2,3) u update by auto
  next
    case (delete debugOk j)
    then have "j \<noteq> i" "ps_db (snd (panel_handle cr h now ctx route s)) = snd (DeleteUser debugOk j (ps_db s))"
      using False ctx by (auto simp: snd_status_of adminDeleteUser_def invalidateAuthCache_def split: sum.splits prod.splits if_splits)
    then show ?thesis using DeleteUser_other [of j i debugOk "ps_db s"] row by (simp add: keeps_user_def)
  next
    case other
    then show ?thesis using quiet_keeps [OF ok row] panel_handle_call [of cr h now ctx route s] row by (auto simp: keeps_user_def)
  qed
qed


section \<open>Witnesses\<close>

definition demo_panel_state :: panel_state where
  "demo_panel_state = \<lparr>ps_db = demo_db, ps_AuthCache = Some 0\<rparr>"

lemma demo_panel_session:
  "session_of demo_panel_lib demo_handler (demo_time + Minute) demo_session_request demo_db (demo_user_row ''ann'' RoleUser 2)"
proof -
  have "bearerToken demo_session_request = Some ''abc''" by code_simp
  moreover have "parsePanelClaims demo_session_jwt ''s'' (demo_time + Minute) ''abc'' = Inr (demo_session_claims 0)" by code_simp
  moreover have "user_row (pc_UserID (demo_session_claims 0)) demo_db = Some (demo_user_row ''ann'' RoleUser 2)" by code_simp
  ultimately show ?thesis
    by (auto simp: session_of_def demo_panel_lib_def demo_handler_def demo_session_claims_def session_claims_def demo_user_row_def)
qed

definition demo_serve :: "panel_route \<Rightarrow> int \<times> panel_state" where
  "demo_serve route = panel_serve demo_panel_lib demo_handler (demo_time + Minute) demo_session_request route demo_panel_state"

text \<open>The demo user may delete its key, but not a tier.\<close>

theorem panel_access_control_witness:
  "fst (demo_serve (DeleteTierRoute ''t1'')) \<in> {401, 403} \<and> snd (demo_serve (DeleteTierRoute ''t1'')) = demo_panel_state \<and>
   demo_serve (DeleteKeyRoute True ''k1'') = panel_handle demo_crypto demo_handler (demo_time + Minute)
     (WithUser emptyContext (authenticated (demo_time + Minute) demo_db (demo_user_row ''ann'' RoleUser 2))) (DeleteKeyRoute True ''k1'') demo_panel_state"
proof -
  have db: "ps_db demo_panel_state = demo_db" "pl_crypto demo_panel_lib = demo_crypto" by (simp_all add: demo_panel_state_def demo_panel_lib_def)
  have only: "(\<exists>v. session_of demo_panel_lib demo_handler (demo_time + Minute) demo_session_request demo_db v \<and> P v) \<longleftrightarrow>
      P (demo_user_row ''ann'' RoleUser 2)" for P
    using demo_panel_session session_unique [OF demo_panel_session] by blast
  note a = panel_access_control [of demo_panel_state demo_panel_lib demo_handler "demo_time + Minute" demo_session_request,
      unfolded db only, OF demo_db_ok, folded demo_serve_def]
  show ?thesis using a [of "DeleteTierRoute ''t1''"] a [of "DeleteKeyRoute True ''k1''"]
    by (simp add: demo_user_row_def del: panel_handle.simps)
qed

theorem panel_key_isolation_witness:
  "keys_of ''root'' (ps_db (snd (panel_handle demo_crypto demo_handler demo_time demo_session_context (DeleteKeyRoute True ''k1'') demo_panel_state))) =
     keys_of ''root'' demo_db \<and>
   keys_of ''ann'' (ps_db (snd (panel_handle demo_crypto demo_handler demo_time demo_session_context (DeleteKeyRoute True ''k1'') demo_panel_state))) = [] \<and>
   keys_of ''ann'' demo_db \<noteq> []"
proof -
  have db: "ps_db demo_panel_state = demo_db" by (simp add: demo_panel_state_def)
  have row: "user_row ''ann'' demo_db = Some (demo_user_row ''ann'' RoleUser 2)" by code_simp
  have "keys_of ''ann'' (ps_db (snd (panel_handle demo_crypto demo_handler demo_time demo_session_context (DeleteKeyRoute True ''k1'') demo_panel_state))) = []"
    by code_simp
  moreover have "keys_of ''ann'' demo_db \<noteq> []" by code_simp
  moreover note panel_key_isolation [of demo_panel_state, unfolded db, OF demo_db_ok conjunct1 [OF demo_session_user],
      unfolded conjunct2 [OF demo_session_user], OF row, of "DeleteKeyRoute True ''k1''" demo_crypto demo_handler demo_time]
  ultimately show ?thesis by (simp del: panel_handle.simps)
qed


end
