(* ===== verification/Configuration.thy ===== *)
theory Configuration
  imports Registration_Proof Client_IP Store_Usage
begin

text \<open>
  The configuration read from the environment (\<open>internal/config/config.go\<close>) and the validation of the
  settings an administrator may change. An environment maps variables to values; a failed \<open>Load\<close> is the
  format text of its error without the quoted input. Durations are 64-bit nanosecond counts, so the
  product of a number of seconds with \<open>time.Second\<close> wraps around. \<open>strings.ToLower\<close>, \<open>url.Parse\<close> (its scheme
  and host) and \<open>time.ParseDuration\<close> are parameters. What \<open>Load\<close> lets through is proved to satisfy the
  bounds that the limiters, the retention policy and the token signature rely on.
\<close>

section \<open>Failing steps in sequence\<close>

definition and_then :: "'e + 'a \<Rightarrow> ('a \<Rightarrow> 'e + 'b) \<Rightarrow> 'e + 'b" where
  "and_then m f = (case m of Inl e \<Rightarrow> Inl e | Inr x \<Rightarrow> f x)"

lemma and_then_simps [simp]:
  "and_then (Inl e) f = Inl e" "and_then (Inr x) f = f x"
  by (simp_all add: and_then_def)

lemma and_then_Inr: "and_then m f = Inr y \<longleftrightarrow> (\<exists>x. m = Inr x \<and> f x = Inr y)"
  by (simp add: and_then_def split: sum.split)

lemma and_then_cong [fundef_cong]: "m = m' \<Longrightarrow> (\<And>x. m' = Inr x \<Longrightarrow> f x = f' x) \<Longrightarrow> and_then m f = and_then m' f'"
  by (simp add: and_then_def split: sum.split)

definition ensure :: "bool \<Rightarrow> string \<Rightarrow> string + unit" where
  "ensure ok msg = (if ok then Inr () else Inl msg)"

lemma ensure_Inr [simp]: "ensure ok msg = Inr x \<longleftrightarrow> ok"
  by (simp add: ensure_def)

section \<open>The standard library\<close>

record config_lib =
  lib_ToLower :: "string \<Rightarrow> string"
  lib_url_Parse :: "string \<Rightarrow> (string \<times> string) option"
  lib_ParseDuration :: "string \<Rightarrow> duration option"

text \<open>Signed 64-bit arithmetic on durations, and Go's quotient.\<close>

definition wrap64 :: "int \<Rightarrow> int" where
  "wrap64 x = (x + 2 ^ 63) mod 2 ^ 64 - 2 ^ 63"

lemma wrap64_id: "- (2 ^ 63) \<le> x \<Longrightarrow> x < 2 ^ 63 \<Longrightarrow> wrap64 x = x"
  by (simp add: wrap64_def)

lemma wrap64_range: "- (2 ^ 63) \<le> wrap64 x \<and> wrap64 x < 2 ^ 63"
proof -
  have "0 \<le> (x + 2 ^ 63) mod 2 ^ 64" "(x + 2 ^ 63) mod 2 ^ 64 < (2 ^ 64 :: int)" by simp_all
  then show ?thesis by (simp add: wrap64_def)
qed

definition quot :: "int \<Rightarrow> int \<Rightarrow> int" where
  "quot a b = (if a < 0 then - ((- a) div b) else a div b)"

definition TrimRightSlash :: "string \<Rightarrow> string" where
  "TrimRightSlash s = rev (dropWhile (\<lambda>c. c = CHR ''/'') (rev s))"

fun str_Contains :: "string \<Rightarrow> string \<Rightarrow> bool" where
  "str_Contains [] p \<longleftrightarrow> p = []"
| "str_Contains (c # s) p \<longleftrightarrow> HasPrefix (c # s) p \<or> str_Contains s p"

text \<open>\<open>netip.ParsePrefix\<close>, and \<open>Masked\<close>, which clears the host bits.\<close>

definition ParsePrefix :: "string \<Rightarrow> Prefix option" where
  "ParsePrefix s =
     (case LastIndexByte s (CHR ''/'') of
        None \<Rightarrow> None
      | Some i \<Rightarrow>
          (case ParseAddr (take i s) of
             None \<Rightarrow> None
           | Some ip \<Rightarrow>
               if Zone ip \<noteq> [] then None
               else let bitsStr = drop (i + 1) s
                 in if 1 < length bitsStr \<and> \<not> (is_digit (hd bitsStr) \<and> hd bitsStr \<noteq> CHR ''0'') then None
                    else case ParseInt bitsStr of
                        None \<Rightarrow> None
                      | Some bits \<Rightarrow>
                          if bits < 0 \<or> (if Is4 ip then 32 else 128) < bits then None
                          else Some \<lparr>prefix_addr = ip, prefix_bits = nat bits\<rparr>))"

definition mask_byte :: "nat \<Rightarrow> byte \<Rightarrow> byte" where
  "mask_byte k b = (if 8 \<le> k then b else push_bit (8 - k) (drop_bit (8 - k) b))"

fun mask_bytes :: "nat \<Rightarrow> byte list \<Rightarrow> byte list" where
  "mask_bytes n [] = []"
| "mask_bytes n (b # bs) = mask_byte n b # mask_bytes (n - 8) bs"

fun mask_addr :: "nat \<Rightarrow> Addr \<Rightarrow> Addr" where
  "mask_addr n (V4 bs) = V4 (mask_bytes n bs)"
| "mask_addr n (V6 bs z) = V6 (mask_bytes n bs) []"

definition Masked :: "Prefix \<Rightarrow> Prefix" where
  "Masked p = p\<lparr>prefix_addr := mask_addr (prefix_bits p) (prefix_addr p)\<rparr>"

section \<open>Reading variables\<close>

type_synonym environment = "string \<Rightarrow> string option"

definition Getenv :: "environment \<Rightarrow> string \<Rightarrow> string" where
  "Getenv env key = (case env key of None \<Rightarrow> [] | Some v \<Rightarrow> v)"

definition envOrDefault :: "environment \<Rightarrow> string \<Rightarrow> string \<Rightarrow> string" where
  "envOrDefault env key fallback = (let v = TrimSpace (Getenv env key) in if v \<noteq> [] then v else fallback)"

definition parseBoolEnv :: "config_lib \<Rightarrow> environment \<Rightarrow> string \<Rightarrow> bool" where
  "parseBoolEnv lib env key =
     (let raw = TrimSpace (lib_ToLower lib (Getenv env key)) in raw = ''1'' \<or> raw = ''true'' \<or> raw = ''yes'')"

definition aliasedEnvironmentVariableValue :: "environment \<Rightarrow> string \<Rightarrow> string \<Rightarrow> string \<times> string" where
  "aliasedEnvironmentVariableValue env primary legacy =
     (case env primary of
        Some primaryValue \<Rightarrow> (TrimSpace primaryValue, primary)
      | None \<Rightarrow> (case env legacy of Some legacyValue \<Rightarrow> (TrimSpace legacyValue, legacy) | None \<Rightarrow> ([], primary)))"

definition parseAliasedBoolEnvironmentVariable :: "config_lib \<Rightarrow> environment \<Rightarrow> string \<Rightarrow> string \<Rightarrow> bool" where
  "parseAliasedBoolEnvironmentVariable lib env primary legacy =
     (let v = lib_ToLower lib (fst (aliasedEnvironmentVariableValue env primary legacy)) in v = ''1'' \<or> v = ''true'' \<or> v = ''yes'')"

definition parseAliasedPositiveIntegerEnvironmentVariable ::
  "environment \<Rightarrow> string \<Rightarrow> string \<Rightarrow> int \<Rightarrow> string \<Rightarrow> string + int" where
  "parseAliasedPositiveIntegerEnvironmentVariable env primary legacy defaultValue errorSuffix =
     (case aliasedEnvironmentVariableValue env primary legacy of (rawValue, configured) \<Rightarrow>
        if rawValue = [] then Inr defaultValue
        else case ParseInt rawValue of
            None \<Rightarrow> Inl (configured @ '' must be a positive integer'' @ errorSuffix)
          | Some parsedValue \<Rightarrow>
              if parsedValue \<le> 0 then Inl (configured @ '' must be a positive integer'' @ errorSuffix) else Inr parsedValue)"

definition parsePositiveIntegerEnvironmentVariable :: "environment \<Rightarrow> string \<Rightarrow> int \<Rightarrow> string \<Rightarrow> string + int" where
  "parsePositiveIntegerEnvironmentVariable env key defaultValue errorSuffix =
     (let rawValue = TrimSpace (Getenv env key)
      in if rawValue = [] then Inr defaultValue
         else case ParseInt rawValue of
             None \<Rightarrow> Inl (key @ '' must be a positive integer'' @ errorSuffix)
           | Some parsedValue \<Rightarrow>
               if parsedValue \<le> 0 then Inl (key @ '' must be a positive integer'' @ errorSuffix) else Inr parsedValue)"

definition parseBoundedPositiveIntegerEnvironmentVariable :: "environment \<Rightarrow> string \<Rightarrow> int \<Rightarrow> int \<Rightarrow> string + int" where
  "parseBoundedPositiveIntegerEnvironmentVariable env key defaultValue maximumValue =
     and_then (parsePositiveIntegerEnvironmentVariable env key defaultValue []) (\<lambda>parsedValue.
       if maximumValue < parsedValue then Inl (key @ '' must not exceed '' @ Itoa maximumValue @ '', got '' @ Itoa parsedValue)
       else Inr parsedValue)"

definition maximumRetentionDays :: int where "maximumRetentionDays = 36500"

definition parseRetentionDays :: "environment \<Rightarrow> string \<Rightarrow> duration \<Rightarrow> string + duration" where
  "parseRetentionDays env key fallback =
     (let raw = TrimSpace (Getenv env key)
      in if raw = [] then Inr fallback
         else case ParseInt raw of
             None \<Rightarrow> Inl (key @ '' must be a positive integer (days)'')
           | Some days \<Rightarrow>
               if days \<le> 0 then Inl (key @ '' must be a positive integer (days)'')
               else if maximumRetentionDays < days then Inl (key @ '' must not exceed '' @ Itoa maximumRetentionDays @ '' days'')
               else Inr (wrap64 (wrap64 (days * 24) * Hour)))"

section \<open>Modes and prefixes\<close>

definition parseClientIPMode :: "config_lib \<Rightarrow> string \<Rightarrow> string + ClientIPMode" where
  "parseClientIPMode lib rawMode =
     (let normalizedMode = lib_ToLower lib (TrimSpace rawMode)
      in if normalizedMode = [] then Inr ClientIPModeDirect
         else if normalizedMode = ClientIPModeDirect \<or> normalizedMode = ClientIPModeTrustedProxy then Inr normalizedMode
         else Inl ''GROK_CLIENT_IP_MODE must be direct or trusted_proxy'')"

definition maximumTrustedProxyPrefixes :: nat where "maximumTrustedProxyPrefixes = 256"

definition canonicalizeTrustedProxyPrefix :: "Prefix \<Rightarrow> string + Prefix" where
  "canonicalizeTrustedProxyPrefix p =
     (if \<not> Is4In6 (prefix_addr p) then Inr (Masked p)
      else if prefix_bits p < 96 then Inl ''mapped IPv6 prefixes must have at least 96 prefix bits''
      else Inr (Masked \<lparr>prefix_addr = Unmap (prefix_addr p), prefix_bits = prefix_bits p - 96\<rparr>))"

fun parse_prefixes :: "string list \<Rightarrow> string + Prefix list" where
  "parse_prefixes [] = Inr []"
| "parse_prefixes (rawPrefix # rest) =
     (let prefixText = TrimSpace rawPrefix
      in if prefixText = [] then Inl ''GROK_TRUSTED_PROXY_CIDRS must not contain empty list elements''
         else case ParsePrefix prefixText of
             None \<Rightarrow> Inl ''GROK_TRUSTED_PROXY_CIDRS contains invalid prefix''
           | Some p \<Rightarrow>
               if Zone (prefix_addr p) \<noteq> [] then Inl ''GROK_TRUSTED_PROXY_CIDRS contains invalid prefix''
               else and_then (canonicalizeTrustedProxyPrefix p) (\<lambda>canonicalPrefix.
                 and_then (parse_prefixes rest) (\<lambda>ps. Inr (canonicalPrefix # ps))))"

definition parseTrustedProxyCIDRs :: "string \<Rightarrow> string + Prefix list" where
  "parseTrustedProxyCIDRs rawCIDRs =
     (if TrimSpace rawCIDRs = [] then Inr []
      else let rawPrefixes = Split (CHR '','') rawCIDRs
        in if maximumTrustedProxyPrefixes < length rawPrefixes
           then Inl ''GROK_TRUSTED_PROXY_CIDRS must contain at most 256 prefixes''
           else parse_prefixes rawPrefixes)"

definition parseInitialRegistrationMode :: "config_lib \<Rightarrow> string \<Rightarrow> string + RegistrationMode" where
  "parseInitialRegistrationMode lib rawMode =
     (let normalizedMode = lib_ToLower lib (TrimSpace rawMode)
      in if normalizedMode = [] then Inr RegistrationModeDisabled
         else case NormalizeRegistrationMode normalizedMode of
             Inl _ \<Rightarrow> Inl ''GROK_INITIAL_REGISTRATION_MODE must be disabled, invite, or free''
           | Inr registrationMode \<Rightarrow> Inr registrationMode)"

section \<open>Settings an administrator may change\<close>

definition validateSearchConcurrencyLimits :: "int \<Rightarrow> int \<Rightarrow> string option" where
  "validateSearchConcurrencyLimits globalLimit perUserLimit =
     (if globalLimit \<le> 0 then Some (''GROK_SEARCH_MCP_GLOBAL_SEARCH_CONCURRENCY must be a positive integer, got '' @ Itoa globalLimit)
      else if perUserLimit \<le> 0 then Some (''GROK_SEARCH_MCP_USER_SEARCH_CONCURRENCY must be a positive integer, got '' @ Itoa perUserLimit)
      else if globalLimit < perUserLimit
      then Some ''GROK_SEARCH_MCP_USER_SEARCH_CONCURRENCY must not exceed GROK_SEARCH_MCP_GLOBAL_SEARCH_CONCURRENCY''
      else None)"

definition NormalizeUpstreamProtocol :: "config_lib \<Rightarrow> UpstreamProtocol \<Rightarrow> string + UpstreamProtocol" where
  "NormalizeUpstreamProtocol lib protocol =
     (let normalizedProtocol = lib_ToLower lib (TrimSpace protocol)
      in if normalizedProtocol = UpstreamProtocolResponses then Inr UpstreamProtocolResponses
         else if normalizedProtocol = UpstreamProtocolChatCompletions then Inr UpstreamProtocolChatCompletions
         else if normalizedProtocol = UpstreamProtocolAnthropicMessages then Inr UpstreamProtocolAnthropicMessages
         else Inl ''upstream_protocol must be one of responses, chat_completions, or anthropic_messages'')"

definition ValidateModel :: "config_lib \<Rightarrow> string \<Rightarrow> string option" where
  "ValidateModel lib model =
     (if str_Contains (lib_ToLower lib model) ''grok'' then None else Some ''unsupported model (must contain 'grok')'')"

definition validateHTTPURL :: "config_lib \<Rightarrow> string \<Rightarrow> string \<Rightarrow> string option" where
  "validateHTTPURL lib name rawURL =
     (case lib_url_Parse lib rawURL of
        None \<Rightarrow> Some (name @ '' must be a valid http(s) URL'')
      | Some (Scheme, Host) \<Rightarrow>
          if Scheme = [] \<or> Host = [] then Some (name @ '' must be a valid http(s) URL'')
          else if Scheme \<noteq> ''http'' \<and> Scheme \<noteq> ''https'' then Some (name @ '' must use http or https'')
          else None)"

definition validateProxyURL :: "config_lib \<Rightarrow> string \<Rightarrow> string \<Rightarrow> string option" where
  "validateProxyURL lib name rawURL =
     (case lib_url_Parse lib rawURL of
        None \<Rightarrow> Some (name @ '' must be a valid proxy URL'')
      | Some (Scheme, Host) \<Rightarrow>
          if Scheme = [] \<or> Host = [] then Some (name @ '' must be a valid proxy URL'')
          else if lib_ToLower lib Scheme \<in> {''http'', ''https'', ''socks5'', ''socks5h''} then None
          else Some (name @ '' must use http, https, socks5, or socks5h''))"

text \<open>The checks on settings whose texts are trimmed and whose modes are canonical.\<close>

fun first_error :: "string option list \<Rightarrow> string option" where
  "first_error [] = None"
| "first_error (None # rest) = first_error rest"
| "first_error (Some e # rest) = Some e"

lemma first_error_None [simp]: "first_error xs = None \<longleftrightarrow> list_all (\<lambda>x. x = None) xs"
  by (induction xs rule: first_error.induct) auto

definition complain :: "bool \<Rightarrow> string \<Rightarrow> string option" where
  "complain bad msg = (if bad then Some msg else None)"

definition validate_settings :: "config_lib \<Rightarrow> bool \<Rightarrow> Runtime \<Rightarrow> string option" where
  "validate_settings lib requireAPIKey s = first_error
     [complain (requireAPIKey \<and> CPAAPIKey s = []) ''CPA_API_KEY is required'',
      complain (CPABaseURL s = []) ''CPA_BASE_URL must not be empty'',
      validateHTTPURL lib ''CPA_BASE_URL'' (CPABaseURL s),
      complain (Model s = []) ''GROK_MODEL must not be empty'',
      ValidateModel lib (Model s),
      complain (TimeoutSeconds s \<le> 0) (''GROK_HTTP_TIMEOUT must be a positive integer (seconds), got '' @ Itoa (TimeoutSeconds s)),
      validateSearchConcurrencyLimits (MCPGlobalSearchConcurrency s) (MCPUserSearchConcurrency s),
      complain (ProxyEnabled s \<and> ProxyURL s = []) ''GROK_PROXY_URL is required when proxy is enabled'',
      if ProxyEnabled s then validateProxyURL lib ''GROK_PROXY_URL'' (ProxyURL s) else None,
      complain (TurnstileEnabled s \<and> TurnstileSiteKey s = []) ''turnstile_site_key is required when Turnstile is enabled'',
      complain (TurnstileEnabled s \<and> TurnstileSecretKey s = []) ''turnstile_secret_key is required when Turnstile is enabled'']"

definition normalizeServerSettings :: "config_lib \<Rightarrow> Runtime \<Rightarrow> bool \<Rightarrow> string + Runtime" where
  "normalizeServerSettings lib settings requireAPIKey =
     and_then (NormalizeUpstreamProtocol lib (rt_UpstreamProtocol settings)) (\<lambda>upstreamProtocol.
     and_then (case NormalizeRegistrationMode (rt_RegistrationMode settings) of
         Inl _ \<Rightarrow> Inl ''registration_mode must be one of free, invite, or disabled'' | Inr m \<Rightarrow> Inr m) (\<lambda>registrationMode.
       let s = settings\<lparr>CPABaseURL := TrimRightSlash (TrimSpace (CPABaseURL settings)), CPAAPIKey := TrimSpace (CPAAPIKey settings),
             rt_UpstreamProtocol := upstreamProtocol, Model := TrimSpace (Model settings), ProxyURL := TrimSpace (ProxyURL settings),
             TurnstileSiteKey := TrimSpace (TurnstileSiteKey settings), TurnstileSecretKey := TrimSpace (TurnstileSecretKey settings),
             rt_RegistrationMode := registrationMode\<rparr>
       in case validate_settings lib requireAPIKey s of Some e \<Rightarrow> Inl e | None \<Rightarrow> Inr s))"

definition NormalizeServerSettings :: "config_lib \<Rightarrow> Runtime \<Rightarrow> string + Runtime" where
  "NormalizeServerSettings lib settings = normalizeServerSettings lib settings True"


section \<open>The configuration of the process\<close>

record Config =
  cf_CPABaseURL :: string
  cf_CPAAPIKey :: string
  cf_UpstreamProtocol :: UpstreamProtocol
  cf_Model :: string
  cf_Timeout :: duration
  cf_Debug :: bool
  cf_HTTPAddr :: string
  cf_DBPath :: string
  cf_JWTSecret :: string
  cf_ClientIPMode :: ClientIPMode
  cf_TrustedProxyCIDRs :: "Prefix list"
  cf_MCPIPRPM :: int
  cf_MCPIPMaxEntriesPerShard :: int
  cf_MCPIPFallbackBucketsPerShard :: int
  cf_MCPGlobalSearchConcurrency :: int
  cf_MCPUserSearchConcurrency :: int
  cf_AuthPasswordMaxConcurrent :: int
  cf_AuthKeyMissMaxConcurrent :: int
  cf_MaxAPIKeysPerUser :: int
  cf_UserRPMMaximumEntries :: int
  cf_UserRPMFallbackBuckets :: int
  cf_UsageRawRetention :: duration
  cf_UsageHourlyRetention :: duration
  cf_UsageDailyRetention :: duration
  cf_UsageMaintenanceInterval :: duration
  cf_ProxyURL :: string
  cf_ProxyEnabled :: bool
  cf_RegistrationMode :: RegistrationMode
  cf_BootstrapCredentialsPath :: string

definition defaultTimeout :: duration where "defaultTimeout = 120 * Second"

definition config_ServerSettings :: "Config \<Rightarrow> Runtime" where
  "config_ServerSettings c =
     (let seconds = quot (cf_Timeout c) Second;
          timeoutSeconds = (if seconds \<le> 0 then quot defaultTimeout Second else seconds)
      in \<lparr>CPABaseURL = cf_CPABaseURL c, CPAAPIKey = cf_CPAAPIKey c, rt_UpstreamProtocol = cf_UpstreamProtocol c, Model = cf_Model c,
          TimeoutSeconds = timeoutSeconds, MCPGlobalSearchConcurrency = cf_MCPGlobalSearchConcurrency c,
          MCPUserSearchConcurrency = cf_MCPUserSearchConcurrency c, ProxyURL = cf_ProxyURL c, ProxyEnabled = cf_ProxyEnabled c,
          rt_RegistrationMode = cf_RegistrationMode c, TurnstileEnabled = False, TurnstileSiteKey = [], TurnstileSecretKey = [],
          Debug = cf_Debug c, OperationsMetricsEnabled = False\<rparr>)"

definition load_proxies :: "environment \<Rightarrow> ClientIPMode \<Rightarrow> string + Prefix list" where
  "load_proxies env clientIPMode =
     (if clientIPMode = ClientIPModeTrustedProxy
      then and_then (parseTrustedProxyCIDRs (Getenv env ''GROK_TRUSTED_PROXY_CIDRS'')) (\<lambda>ps.
        and_then (ensure (ps \<noteq> []) ''GROK_TRUSTED_PROXY_CIDRS is required in trusted_proxy mode'') (\<lambda>_. Inr ps))
      else Inr [])"

text \<open>The defaults and the variables that are only trimmed.\<close>

definition initial_config :: "config_lib \<Rightarrow> environment \<Rightarrow> ClientIPMode \<Rightarrow> Prefix list \<Rightarrow> RegistrationMode \<Rightarrow> Config" where
  "initial_config lib env clientIPMode proxies registrationMode =
     (let DBPath = envOrDefault env ''GROK_DB_PATH'' ''./grok-search-mcp.db'';
          credentials = TrimSpace (Getenv env ''GROK_BOOTSTRAP_CREDENTIALS_PATH'')
      in \<lparr>cf_CPABaseURL = TrimRightSlash (envOrDefault env ''CPA_BASE_URL'' ''http://127.0.0.1:8317''),
       cf_CPAAPIKey = TrimSpace (Getenv env ''CPA_API_KEY''),
       cf_UpstreamProtocol = envOrDefault env ''GROK_UPSTREAM_PROTOCOL'' UpstreamProtocolResponses,
       cf_Model = envOrDefault env ''GROK_MODEL'' ''grok-4.5'', cf_Timeout = defaultTimeout,
       cf_Debug = parseAliasedBoolEnvironmentVariable lib env ''GROK_SEARCH_MCP_DEBUG'' ''GROK_MCP_DEBUG'',
       cf_HTTPAddr = envOrDefault env ''GROK_HTTP_ADDR'' '':8080'', cf_DBPath = DBPath,
       cf_JWTSecret = TrimSpace (Getenv env ''GROK_JWT_SECRET''),
       cf_ClientIPMode = clientIPMode, cf_TrustedProxyCIDRs = proxies, cf_MCPIPRPM = 300, cf_MCPIPMaxEntriesPerShard = 2048,
       cf_MCPIPFallbackBucketsPerShard = 16, cf_MCPGlobalSearchConcurrency = 16, cf_MCPUserSearchConcurrency = 4,
       cf_AuthPasswordMaxConcurrent = 4, cf_AuthKeyMissMaxConcurrent = 32, cf_MaxAPIKeysPerUser = 20, cf_UserRPMMaximumEntries = 16384,
       cf_UserRPMFallbackBuckets = 64, cf_UsageRawRetention = 7 * 24 * Hour, cf_UsageHourlyRetention = 90 * 24 * Hour,
       cf_UsageDailyRetention = 730 * 24 * Hour, cf_UsageMaintenanceInterval = Hour,
       cf_ProxyURL = TrimSpace (Getenv env ''GROK_PROXY_URL''), cf_ProxyEnabled = parseBoolEnv lib env ''GROK_PROXY_ENABLED'',
       cf_RegistrationMode = registrationMode,
       cf_BootstrapCredentialsPath = (if credentials = [] then DBPath @ ''.bootstrap-admin'' else credentials)\<rparr>)"

text \<open>The timeout and the limits of the IP limiter and of the searches.\<close>

definition load_request_limits :: "environment \<Rightarrow> Config \<Rightarrow> string + Config" where
  "load_request_limits env cfg =
     and_then (parsePositiveIntegerEnvironmentVariable env ''GROK_HTTP_TIMEOUT'' (quot defaultTimeout Second) '' (seconds)'') (\<lambda>timeoutSeconds.
     and_then (parseAliasedPositiveIntegerEnvironmentVariable env ''GROK_SEARCH_MCP_IP_RPM'' ''GROK_MCP_IP_RPM'' 300 []) (\<lambda>rpm.
     and_then (parsePositiveIntegerEnvironmentVariable env ''GROK_SEARCH_MCP_IP_MAX_ENTRIES_PER_SHARD'' 2048 []) (\<lambda>entries.
     and_then (ensure (entries \<le> 65536) (''GROK_SEARCH_MCP_IP_MAX_ENTRIES_PER_SHARD must not exceed 65536, got '' @ Itoa entries)) (\<lambda>_.
     and_then (parsePositiveIntegerEnvironmentVariable env ''GROK_SEARCH_MCP_IP_FALLBACK_BUCKETS_PER_SHARD'' 16 []) (\<lambda>buckets.
     and_then (ensure (buckets \<le> 1024) (''GROK_SEARCH_MCP_IP_FALLBACK_BUCKETS_PER_SHARD must not exceed 1024, got '' @ Itoa buckets)) (\<lambda>_.
     and_then (parseAliasedPositiveIntegerEnvironmentVariable env ''GROK_SEARCH_MCP_GLOBAL_SEARCH_CONCURRENCY''
       ''GROK_MCP_GLOBAL_SEARCH_CONCURRENCY'' 16 []) (\<lambda>global.
     and_then (parseAliasedPositiveIntegerEnvironmentVariable env ''GROK_SEARCH_MCP_USER_SEARCH_CONCURRENCY''
       ''GROK_MCP_USER_SEARCH_CONCURRENCY'' 4 []) (\<lambda>user.
     and_then (ensure (user \<le> global)
       ''GROK_SEARCH_MCP_USER_SEARCH_CONCURRENCY must not exceed GROK_SEARCH_MCP_GLOBAL_SEARCH_CONCURRENCY'') (\<lambda>_.
       Inr (cfg\<lparr>cf_Timeout := wrap64 (timeoutSeconds * Second), cf_MCPIPRPM := rpm, cf_MCPIPMaxEntriesPerShard := entries,
         cf_MCPIPFallbackBucketsPerShard := buckets, cf_MCPGlobalSearchConcurrency := global, cf_MCPUserSearchConcurrency := user\<rparr>))))))))))"

text \<open>The limits of the authentication components.\<close>

definition load_auth_limits :: "environment \<Rightarrow> Config \<Rightarrow> string + Config" where
  "load_auth_limits env cfg =
     and_then (parseBoundedPositiveIntegerEnvironmentVariable env ''GROK_AUTH_PASSWORD_MAX_CONCURRENT'' 4 64) (\<lambda>password.
     and_then (parseBoundedPositiveIntegerEnvironmentVariable env ''GROK_AUTH_KEY_MISS_MAX_CONCURRENT'' 32 1024) (\<lambda>misses.
     and_then (parseBoundedPositiveIntegerEnvironmentVariable env ''GROK_MAX_API_KEYS_PER_USER'' 20 1000) (\<lambda>keys.
     and_then (parseBoundedPositiveIntegerEnvironmentVariable env ''GROK_AUTH_USER_RPM_MAX_ENTRIES'' 16384 65536) (\<lambda>entries.
     and_then (parseBoundedPositiveIntegerEnvironmentVariable env ''GROK_AUTH_USER_RPM_FALLBACK_BUCKETS'' 64 1024) (\<lambda>buckets.
       Inr (cfg\<lparr>cf_AuthPasswordMaxConcurrent := password, cf_AuthKeyMissMaxConcurrent := misses, cf_MaxAPIKeysPerUser := keys,
         cf_UserRPMMaximumEntries := entries, cf_UserRPMFallbackBuckets := buckets\<rparr>))))))"

text \<open>The retention of usage data.\<close>

definition load_retention :: "config_lib \<Rightarrow> environment \<Rightarrow> Config \<Rightarrow> string + Config" where
  "load_retention lib env cfg =
     and_then (parseRetentionDays env ''GROK_USAGE_RAW_RETENTION_DAYS'' (7 * 24 * Hour)) (\<lambda>raw.
     and_then (parseRetentionDays env ''GROK_USAGE_HOURLY_RETENTION_DAYS'' (90 * 24 * Hour)) (\<lambda>hourly.
     and_then (parseRetentionDays env ''GROK_USAGE_DAILY_RETENTION_DAYS'' (730 * 24 * Hour)) (\<lambda>daily.
     and_then (let rawInterval = TrimSpace (Getenv env ''GROK_USAGE_MAINTENANCE_INTERVAL'')
        in if rawInterval = [] then Inr (cf_UsageMaintenanceInterval cfg)
           else case lib_ParseDuration lib rawInterval of
               None \<Rightarrow> Inl ''GROK_USAGE_MAINTENANCE_INTERVAL must be a positive duration''
             | Some d \<Rightarrow> if d \<le> 0 then Inl ''GROK_USAGE_MAINTENANCE_INTERVAL must be a positive duration'' else Inr d) (\<lambda>interval.
     and_then (ensure (raw < hourly) ''GROK_USAGE_HOURLY_RETENTION_DAYS must exceed GROK_USAGE_RAW_RETENTION_DAYS'') (\<lambda>_.
     and_then (ensure (hourly < daily) ''GROK_USAGE_DAILY_RETENTION_DAYS must exceed GROK_USAGE_HOURLY_RETENTION_DAYS'') (\<lambda>_.
       Inr (cfg\<lparr>cf_UsageRawRetention := raw, cf_UsageHourlyRetention := hourly, cf_UsageDailyRetention := daily,
         cf_UsageMaintenanceInterval := interval\<rparr>)))))))"

definition minJWTSecretLen :: nat where "minJWTSecretLen = 32"

text \<open>The canonical runtime settings, and the strength of the signing secret.\<close>

definition load_settings :: "config_lib \<Rightarrow> Config \<Rightarrow> string + Config" where
  "load_settings lib cfg =
     and_then (normalizeServerSettings lib (config_ServerSettings cfg) False) (\<lambda>s.
     and_then (ensure (cf_JWTSecret cfg \<noteq> []) ''GROK_JWT_SECRET is required'') (\<lambda>_.
     and_then (ensure (minJWTSecretLen \<le> length (cf_JWTSecret cfg))
       ''GROK_JWT_SECRET must be at least 32 bytes to avoid weak-key attacks on HS256'') (\<lambda>_.
       Inr (cfg\<lparr>cf_CPABaseURL := CPABaseURL s, cf_CPAAPIKey := CPAAPIKey s, cf_UpstreamProtocol := rt_UpstreamProtocol s,
         cf_Model := Model s, cf_Timeout := wrap64 (TimeoutSeconds s * Second), cf_ProxyURL := ProxyURL s, cf_ProxyEnabled := ProxyEnabled s,
         cf_RegistrationMode := rt_RegistrationMode s, cf_Debug := Debug s\<rparr>))))"

definition Load :: "config_lib \<Rightarrow> environment \<Rightarrow> string + Config" where
  "Load lib env =
     and_then (parseClientIPMode lib (Getenv env ''GROK_CLIENT_IP_MODE'')) (\<lambda>clientIPMode.
     and_then (load_proxies env clientIPMode) (\<lambda>proxies.
     and_then (parseInitialRegistrationMode lib (Getenv env ''GROK_INITIAL_REGISTRATION_MODE'')) (\<lambda>registrationMode.
     and_then (load_request_limits env (initial_config lib env clientIPMode proxies registrationMode)) (\<lambda>cfg1.
     and_then (load_auth_limits env cfg1) (\<lambda>cfg2.
     and_then (load_retention lib env cfg2) (\<lambda>cfg3. load_settings lib cfg3))))))"


section \<open>Prefixes keep their meaning\<close>

lemma mask_bytes_length [simp]: "length (mask_bytes n bs) = length bs"
  by (induction n bs rule: mask_bytes.induct) simp_all

lemma addr_bits_simps [simp]:
  "addr_bits [] = []" "addr_bits (b # bs) = map (bit b) (rev [0..<8]) @ addr_bits bs"
  "addr_bits (bs @ cs) = addr_bits bs @ addr_bits cs" "length (addr_bits bs) = 8 * length bs"
  by (simp_all add: addr_bits_def length_concat comp_def sum_list_triv)

lemma mask_byte_bits: "take k (map (bit (mask_byte k b)) (rev [0..<8])) = take k (map (bit b) (rev [0..<8]))"
  by (rule nth_equalityI) (auto simp: mask_byte_def rev_nth bit_simps)

lemma mask_bytes_bits: "take n (addr_bits (mask_bytes n bs)) = take n (addr_bits bs)"
proof (induction n bs rule: mask_bytes.induct)
  case (2 n b bs)
  have "take n (addr_bits (mask_bytes n (b # bs))) =
      take n (map (bit (mask_byte n b)) (rev [0..<8])) @ take (n - 8) (addr_bits (mask_bytes (n - 8) bs))"
    by (simp only: mask_bytes.simps addr_bits_simps take_append) simp
  also have "\<dots> = take n (addr_bits (b # bs))"
    by (simp only: mask_byte_bits 2 addr_bits_simps take_append) simp
  finally show ?case .
qed simp

lemma mask_addr_simps [simp]:
  "addr_bytes (mask_addr n a) = mask_bytes n (addr_bytes a)" "Is4 (mask_addr n a) = Is4 a"
  by (cases a; simp)+

lemma Contains_Masked: "Contains (Masked p) a = Contains p a"
  by (simp add: Contains_def Masked_def mask_bytes_bits)

text \<open>
  Trusted prefixes. Making a prefix canonical does not change whom it trusts: it contains the same
  client addresses, which are compared in canonical form, a prefix written over IPv4-mapped IPv6
  addresses standing for the IPv4 addresses it maps.
\<close>

theorem trusted_prefix_exact:
  assumes "wf_addr (prefix_addr p)" "canonicalizeTrustedProxyPrefix p = Inr q" "canonical a"
  shows "Contains q a \<longleftrightarrow>
    (if Is4In6 (prefix_addr p) then \<exists>bs. a = V4 bs \<and> Contains p (V6 (v4_in_v6_prefix @ bs) []) else Contains p a)"
proof (cases "Is4In6 (prefix_addr p)")
  case False
  then show ?thesis using assms(2) by (auto simp: canonicalizeTrustedProxyPrefix_def Contains_Masked)
next
  case True
  then obtain bs z where v6: "prefix_addr p = V6 bs z" "take 12 bs = v4_in_v6_prefix" "length bs = 16"
    using assms(1) by (cases "prefix_addr p") auto
  define cs where "cs = drop 12 bs"
  have bs: "bs = v4_in_v6_prefix @ cs" "length cs = 4" using v6(2,3) append_take_drop_id [of 12 bs] by (simp_all add: cs_def)
  have q: "96 \<le> prefix_bits p" "q = Masked \<lparr>prefix_addr = V4 cs, prefix_bits = prefix_bits p - 96\<rparr>"
    using assms(2) True v6 by (auto simp: canonicalizeTrustedProxyPrefix_def cs_def split: if_splits)
  have len: "length (addr_bits v4_in_v6_prefix) = 96" by (simp add: v4_in_v6_prefix_def)
  have "take (prefix_bits p) (addr_bits v4_in_v6_prefix @ x) = addr_bits v4_in_v6_prefix @ take (prefix_bits p - 96) x" for x
    using q(1) len by simp
  moreover have "Contains q a = Contains \<lparr>prefix_addr = V4 cs, prefix_bits = prefix_bits p - 96\<rparr> a"
    by (simp only: q(2) Contains_Masked)
  ultimately show ?thesis using True bs v6(1,3) q(1) assms(3)
    by (cases a) (auto simp: Contains_def canonical_def)
qed

section \<open>What the readers return\<close>

lemma dec_number_nonneg: "0 \<le> dec_number s"
  by (induction s rule: rev_induct) (simp_all add: dec_number_append, simp add: dec_number_def)

lemma dec_number_fits: "- dec_number s < 9223372036854775808" "- 9223372036854775808 \<le> dec_number s"
  using dec_number_nonneg [of s] by simp_all

lemma ParseInt_range: "ParseInt s = Some n \<Longrightarrow> - (2 ^ 63) \<le> n \<and> n < 2 ^ 63"
  by (auto simp: ParseInt_def ParseUint_def dec_number_fits Let_def split: prod.splits if_splits option.splits)

lemma parsePositive_Inr:
  assumes "parsePositiveIntegerEnvironmentVariable env key d suffix = Inr v" "0 < d" "d < 2 ^ 63"
  shows "0 < v \<and> v < 2 ^ 63"
  using assms ParseInt_range by (auto simp: parsePositiveIntegerEnvironmentVariable_def Let_def split: if_splits option.splits)

lemma parseAliased_Inr:
  assumes "parseAliasedPositiveIntegerEnvironmentVariable env key legacy d suffix = Inr v" "0 < d"
  shows "0 < v"
  using assms by (auto simp: parseAliasedPositiveIntegerEnvironmentVariable_def split: if_splits option.splits prod.splits)

lemma parseBounded_Inr:
  assumes "parseBoundedPositiveIntegerEnvironmentVariable env key d m = Inr v" "0 < d" "d < 2 ^ 63"
  shows "0 < v \<and> v \<le> m"
  using assms parsePositive_Inr by (fastforce simp: parseBoundedPositiveIntegerEnvironmentVariable_def and_then_Inr split: if_splits)

lemma retention_fits:
  assumes "0 < days" "days \<le> maximumRetentionDays"
  shows "wrap64 (wrap64 (days * 24) * Hour) = days * 24 * Hour"
proof -
  have "days \<le> 36500" using assms(2) by (simp add: maximumRetentionDays_def)
  then have "days * 24 < 2 ^ 63" "days * 24 * Hour < 2 ^ 63" by (simp_all add: Hour_def Minute_def Second_def)
  then show ?thesis using assms(1) by (simp add: wrap64_id Hour_def Minute_def Second_def)
qed

lemma parseRetentionDays_Inr:
  assumes "parseRetentionDays env key fallback = Inr v" "0 < fallback" "fallback \<le> maximumRetentionDays * 24 * Hour"
  shows "0 < v \<and> v \<le> maximumRetentionDays * 24 * Hour"
proof -
  show ?thesis
  proof (cases "TrimSpace (Getenv env key) = []")
    case True
    then show ?thesis using assms by (simp add: parseRetentionDays_def)
  next
    case False
    then obtain days where parsed: "ParseInt (TrimSpace (Getenv env key)) = Some days"
      using assms(1) by (cases "ParseInt (TrimSpace (Getenv env key))") (auto simp: parseRetentionDays_def Let_def)
    then have d: "0 < days" "days \<le> maximumRetentionDays" "v = wrap64 (wrap64 (days * 24) * Hour)"
      using assms(1) False by (auto simp: parseRetentionDays_def Let_def split: if_splits)
    then show ?thesis unfolding d(3) retention_fits [OF d(1,2)] by (simp add: Hour_def Minute_def Second_def)
  qed
qed

lemma parse_prefixes_length: "parse_prefixes raws = Inr ps \<Longrightarrow> length ps = length raws"
  by (induction raws arbitrary: ps) (auto simp: Let_def and_then_Inr split: if_splits option.splits)

lemma load_proxies_Inr:
  assumes "load_proxies env mode = Inr ps"
  shows "(mode = ClientIPModeTrustedProxy \<longleftrightarrow> ps \<noteq> []) \<and> length ps \<le> maximumTrustedProxyPrefixes"
  using assms by (auto simp: load_proxies_def and_then_Inr parseTrustedProxyCIDRs_def Let_def
      dest!: parse_prefixes_length split: if_splits)

text \<open>What holds of the fields each part of \<open>Load\<close> sets, and that it leaves the others alone.\<close>

lemma load_request_limits_Inr:
  assumes "load_request_limits env cfg = Inr cfg'"
  obtains n where "parsePositiveIntegerEnvironmentVariable env ''GROK_HTTP_TIMEOUT'' 120 '' (seconds)'' = Inr n"
    "cf_Timeout cfg' = wrap64 (n * Second)" "0 < cf_MCPIPRPM cfg'"
    "0 < cf_MCPIPMaxEntriesPerShard cfg'" "cf_MCPIPMaxEntriesPerShard cfg' \<le> 65536"
    "0 < cf_MCPIPFallbackBucketsPerShard cfg'" "cf_MCPIPFallbackBucketsPerShard cfg' \<le> 1024"
    "0 < cf_MCPUserSearchConcurrency cfg'" "cf_MCPUserSearchConcurrency cfg' \<le> cf_MCPGlobalSearchConcurrency cfg'"
    "cf_JWTSecret cfg' = cf_JWTSecret cfg" "cf_ClientIPMode cfg' = cf_ClientIPMode cfg"
    "cf_TrustedProxyCIDRs cfg' = cf_TrustedProxyCIDRs cfg" "cf_UsageMaintenanceInterval cfg' = cf_UsageMaintenanceInterval cfg"
proof -
  have d: "quot defaultTimeout Second = 120" by (simp add: quot_def defaultTimeout_def Second_def)
  from assms show ?thesis
    by (auto simp: load_request_limits_def and_then_Inr d intro!: that dest: parsePositive_Inr parseAliased_Inr)
qed

lemma load_auth_limits_Inr:
  assumes "load_auth_limits env cfg = Inr cfg'"
  obtains a b c d e where "cfg' = cfg\<lparr>cf_AuthPasswordMaxConcurrent := a, cf_AuthKeyMissMaxConcurrent := b, cf_MaxAPIKeysPerUser := c,
         cf_UserRPMMaximumEntries := d, cf_UserRPMFallbackBuckets := e\<rparr>"
    "0 < a" "a \<le> 64" "0 < b" "b \<le> 1024" "0 < c" "c \<le> 1000" "0 < d" "d \<le> 65536" "0 < e" "e \<le> 1024"
proof -
  obtain a b c d e where cfg': "cfg' = cfg\<lparr>cf_AuthPasswordMaxConcurrent := a, cf_AuthKeyMissMaxConcurrent := b, cf_MaxAPIKeysPerUser := c,
         cf_UserRPMMaximumEntries := d, cf_UserRPMFallbackBuckets := e\<rparr>"
    and r: "parseBoundedPositiveIntegerEnvironmentVariable env ''GROK_AUTH_PASSWORD_MAX_CONCURRENT'' 4 64 = Inr a"
      "parseBoundedPositiveIntegerEnvironmentVariable env ''GROK_AUTH_KEY_MISS_MAX_CONCURRENT'' 32 1024 = Inr b"
      "parseBoundedPositiveIntegerEnvironmentVariable env ''GROK_MAX_API_KEYS_PER_USER'' 20 1000 = Inr c"
      "parseBoundedPositiveIntegerEnvironmentVariable env ''GROK_AUTH_USER_RPM_MAX_ENTRIES'' 16384 65536 = Inr d"
      "parseBoundedPositiveIntegerEnvironmentVariable env ''GROK_AUTH_USER_RPM_FALLBACK_BUCKETS'' 64 1024 = Inr e"
    using assms unfolding load_auth_limits_def and_then_Inr sum.inject by (elim exE conjE) (rule that, erule sym, assumption+)
  from r(1-5) [THEN parseBounded_Inr] show ?thesis by (intro that [OF cfg']) simp_all
qed

lemma load_retention_Inr:
  assumes "load_retention lib env cfg = Inr cfg'" "0 < cf_UsageMaintenanceInterval cfg"
  obtains a b c d where "cfg' = cfg\<lparr>cf_UsageRawRetention := a, cf_UsageHourlyRetention := b, cf_UsageDailyRetention := c, cf_UsageMaintenanceInterval := d\<rparr>"
    "0 < a" "a < b" "b < c" "c \<le> maximumRetentionDays * 24 * Hour" "0 < d"
proof -
  obtain a b c d where cfg': "cfg' = cfg\<lparr>cf_UsageRawRetention := a, cf_UsageHourlyRetention := b, cf_UsageDailyRetention := c, cf_UsageMaintenanceInterval := d\<rparr>"
    and r: "parseRetentionDays env ''GROK_USAGE_RAW_RETENTION_DAYS'' (7 * 24 * Hour) = Inr a"
      "parseRetentionDays env ''GROK_USAGE_DAILY_RETENTION_DAYS'' (730 * 24 * Hour) = Inr c" "a < b" "b < c"
    and d: "(let rawInterval = TrimSpace (Getenv env ''GROK_USAGE_MAINTENANCE_INTERVAL'')
        in if rawInterval = [] then Inr (cf_UsageMaintenanceInterval cfg)
           else case lib_ParseDuration lib rawInterval of
               None \<Rightarrow> Inl ''GROK_USAGE_MAINTENANCE_INTERVAL must be a positive duration''
             | Some d \<Rightarrow> if d \<le> 0 then Inl ''GROK_USAGE_MAINTENANCE_INTERVAL must be a positive duration'' else Inr d) = Inr d"
    using assms(1) unfolding load_retention_def and_then_Inr sum.inject ensure_Inr by (elim exE conjE) (rule that, erule sym, assumption+)
  have "0 < 7 * 24 * Hour" "0 < 730 * 24 * Hour" "7 * 24 * Hour \<le> maximumRetentionDays * 24 * Hour"
    "730 * 24 * Hour \<le> maximumRetentionDays * 24 * Hour"
    by (simp_all add: maximumRetentionDays_def Hour_def Minute_def Second_def)
  then have "0 < a" "c \<le> maximumRetentionDays * 24 * Hour" using r(1,2) [THEN parseRetentionDays_Inr] by simp_all
  moreover have "0 < d" using d assms(2) by (simp add: Let_def split: if_splits option.splits)
  ultimately show ?thesis by (intro that [OF cfg']) (use r in simp_all)
qed


section \<open>Settings\<close>

text \<open>\<open>TrimSpace\<close> and \<open>ToLower\<close> on a word of lower-case letters and underscores.\<close>

definition lower_ok :: "(string \<Rightarrow> string) \<Rightarrow> bool" where
  "lower_ok lower \<longleftrightarrow> (\<forall>s. list_all (\<lambda>c. c \<in> set ''abcdefghijklmnopqrstuvwxyz_'') s \<longrightarrow> lower s = s)"

lemma protocol_words:
  "TrimSpace UpstreamProtocolResponses = UpstreamProtocolResponses"
  "TrimSpace UpstreamProtocolChatCompletions = UpstreamProtocolChatCompletions"
  "TrimSpace UpstreamProtocolAnthropicMessages = UpstreamProtocolAnthropicMessages"
  by code_simp+

lemma NormalizeUpstreamProtocol_Inr:
  "NormalizeUpstreamProtocol lib p = Inr q \<Longrightarrow>
     q \<in> {UpstreamProtocolResponses, UpstreamProtocolChatCompletions, UpstreamProtocolAnthropicMessages}"
  by (auto simp: NormalizeUpstreamProtocol_def Let_def split: if_splits)

lemma NormalizeUpstreamProtocol_again:
  assumes "lower_ok (lib_ToLower lib)" "q \<in> {UpstreamProtocolResponses, UpstreamProtocolChatCompletions, UpstreamProtocolAnthropicMessages}"
  shows "NormalizeUpstreamProtocol lib q = Inr q"
proof -
  have "list_all (\<lambda>c. c \<in> set ''abcdefghijklmnopqrstuvwxyz_'') q" "TrimSpace q = q"
    using assms(2) protocol_words
    by (auto simp: UpstreamProtocolResponses_def UpstreamProtocolChatCompletions_def UpstreamProtocolAnthropicMessages_def)
  then have "lib_ToLower lib (TrimSpace q) = q" using assms(1) by (simp add: lower_ok_def)
  then show ?thesis using assms(2) by (auto simp: NormalizeUpstreamProtocol_def)
qed

lemma normalizeServerSettings_Inr:
  "normalizeServerSettings lib r req = Inr s \<longleftrightarrow>
     (\<exists>p. NormalizeUpstreamProtocol lib (rt_UpstreamProtocol r) = Inr p \<and>
       rt_RegistrationMode r \<in> {RegistrationModeFree, RegistrationModeInvite, RegistrationModeDisabled} \<and>
       s = r\<lparr>CPABaseURL := TrimRightSlash (TrimSpace (CPABaseURL r)), CPAAPIKey := TrimSpace (CPAAPIKey r),
             rt_UpstreamProtocol := p, Model := TrimSpace (Model r), ProxyURL := TrimSpace (ProxyURL r),
             TurnstileSiteKey := TrimSpace (TurnstileSiteKey r), TurnstileSecretKey := TrimSpace (TurnstileSecretKey r)\<rparr> \<and>
       validate_settings lib req s = None)"
proof -
  have mode: "(case NormalizeRegistrationMode x of Inl _ \<Rightarrow> Inl msg | Inr m \<Rightarrow> Inr m) = Inr y \<longleftrightarrow>
      y = x \<and> x \<in> {RegistrationModeFree, RegistrationModeInvite, RegistrationModeDisabled}" for x y and msg :: string
    by (auto simp: NormalizeRegistrationMode_def)
  show ?thesis unfolding normalizeServerSettings_def and_then_Inr mode Let_def by (auto split: option.splits)
qed

text \<open>What the validation asks of settings, read without its order.\<close>

definition settings_valid :: "config_lib \<Rightarrow> bool \<Rightarrow> Runtime \<Rightarrow> bool" where
  "settings_valid lib requireAPIKey s \<longleftrightarrow>
     (requireAPIKey \<longrightarrow> CPAAPIKey s \<noteq> []) \<and>
     (\<exists>host. lib_url_Parse lib (CPABaseURL s) = Some (''http'', host) \<and> host \<noteq> [] \<or>
        lib_url_Parse lib (CPABaseURL s) = Some (''https'', host) \<and> host \<noteq> []) \<and> CPABaseURL s \<noteq> [] \<and>
     str_Contains (lib_ToLower lib (Model s)) ''grok'' \<and> Model s \<noteq> [] \<and> 0 < TimeoutSeconds s \<and>
     0 < MCPUserSearchConcurrency s \<and> MCPUserSearchConcurrency s \<le> MCPGlobalSearchConcurrency s \<and>
     (ProxyEnabled s \<longrightarrow> ProxyURL s \<noteq> [] \<and> (\<exists>scheme host. lib_url_Parse lib (ProxyURL s) = Some (scheme, host) \<and> scheme \<noteq> [] \<and> host \<noteq> [] \<and>
        lib_ToLower lib scheme \<in> {''http'', ''https'', ''socks5'', ''socks5h''})) \<and>
     (TurnstileEnabled s \<longrightarrow> TurnstileSiteKey s \<noteq> [] \<and> TurnstileSecretKey s \<noteq> [])"

lemma validate_settings_None: "validate_settings lib req s = None \<longleftrightarrow> settings_valid lib req s"
proof -
  have http: "validateHTTPURL lib name u = None \<longleftrightarrow> (\<exists>host. lib_url_Parse lib u = Some (''http'', host) \<and> host \<noteq> [] \<or>
      lib_url_Parse lib u = Some (''https'', host) \<and> host \<noteq> [])" for name u
    by (auto simp: validateHTTPURL_def split: option.splits)
  have proxy: "validateProxyURL lib name u = None \<longleftrightarrow> (\<exists>scheme host. lib_url_Parse lib u = Some (scheme, host) \<and> scheme \<noteq> [] \<and> host \<noteq> [] \<and>
        lib_ToLower lib scheme \<in> {''http'', ''https'', ''socks5'', ''socks5h''})" for name u
    by (auto simp: validateProxyURL_def split: option.splits)
  have limits: "validateSearchConcurrencyLimits g u = None \<longleftrightarrow> 0 < u \<and> u \<le> g" for g u
    by (auto simp: validateSearchConcurrencyLimits_def)
  have model: "ValidateModel lib m = None \<longleftrightarrow> str_Contains (lib_ToLower lib m) ''grok''" for m by (simp add: ValidateModel_def)
  have none: "complain b msg = None \<longleftrightarrow> \<not> b" for b msg by (simp add: complain_def)
  show ?thesis
    unfolding validate_settings_def settings_valid_def first_error_None list.pred_inject none http model limits
    by (cases "ProxyEnabled s"; cases "TurnstileEnabled s") (auto simp: proxy not_le)
qed


lemma TrimRightSlash_again [simp]: "TrimRightSlash (TrimRightSlash s) = TrimRightSlash s"
  by (simp add: TrimRightSlash_def)

text \<open>
  Validated settings. What \<open>NormalizeServerSettings\<close> returns passes every check (a key, an
  http or https upstream with a host, a grok model, a positive timeout, positive search limits with the
  user's not above the global one, a usable proxy and complete Turnstile keys where enabled), with
  canonical protocol and registration mode and trimmed texts; unless stripping slashes uncovered white
  space at the end of the upstream URL, normalising again changes nothing.
\<close>

theorem settings_normalization:
  assumes lower: "lower_ok (lib_ToLower lib)" and norm: "NormalizeServerSettings lib r = Inr s"
  shows "settings_valid lib True s \<and>
    rt_UpstreamProtocol s \<in> {UpstreamProtocolResponses, UpstreamProtocolChatCompletions, UpstreamProtocolAnthropicMessages} \<and>
    rt_RegistrationMode s \<in> {RegistrationModeFree, RegistrationModeInvite, RegistrationModeDisabled} \<and>
    TrimSpace (CPAAPIKey s) = CPAAPIKey s \<and> TrimSpace (Model s) = Model s \<and> TrimSpace (ProxyURL s) = ProxyURL s \<and>
    (TrimSpace (CPABaseURL s) = CPABaseURL s \<longrightarrow> NormalizeServerSettings lib s = Inr s)"
proof -
  obtain p where p: "NormalizeUpstreamProtocol lib (rt_UpstreamProtocol r) = Inr p"
    "rt_RegistrationMode r \<in> {RegistrationModeFree, RegistrationModeInvite, RegistrationModeDisabled}"
    "s = r\<lparr>CPABaseURL := TrimRightSlash (TrimSpace (CPABaseURL r)), CPAAPIKey := TrimSpace (CPAAPIKey r),
             rt_UpstreamProtocol := p, Model := TrimSpace (Model r), ProxyURL := TrimSpace (ProxyURL r),
             TurnstileSiteKey := TrimSpace (TurnstileSiteKey r), TurnstileSecretKey := TrimSpace (TurnstileSecretKey r)\<rparr>"
    "validate_settings lib True s = None"
    using norm unfolding NormalizeServerSettings_def normalizeServerSettings_Inr by blast
  note q = NormalizeUpstreamProtocol_Inr [OF p(1)]
  have "NormalizeServerSettings lib s = Inr s" if url: "TrimSpace (CPABaseURL s) = CPABaseURL s"
    unfolding NormalizeServerSettings_def normalizeServerSettings_Inr
  proof (intro exI [of _ p] conjI)
    show "NormalizeUpstreamProtocol lib (rt_UpstreamProtocol s) = Inr p"
      using NormalizeUpstreamProtocol_again [OF lower q] p(3) by simp
    show "s = s\<lparr>CPABaseURL := TrimRightSlash (TrimSpace (CPABaseURL s)), CPAAPIKey := TrimSpace (CPAAPIKey s), rt_UpstreamProtocol := p,
        Model := TrimSpace (Model s), ProxyURL := TrimSpace (ProxyURL s), TurnstileSiteKey := TrimSpace (TurnstileSiteKey s),
        TurnstileSecretKey := TrimSpace (TurnstileSecretKey s)\<rparr>" unfolding url using p(3) by simp
  qed (use p(2,3,4) in simp_all)
  moreover have "settings_valid lib True s" using p(4) by (simp add: validate_settings_None)
  ultimately show ?thesis using p(2,3) q by simp
qed

section \<open>The configuration\<close>

definition config_ok :: "config_lib \<Rightarrow> Config \<Rightarrow> bool" where
  "config_ok lib c \<longleftrightarrow>
     minJWTSecretLen \<le> length (cf_JWTSecret c) \<and>
     cf_ClientIPMode c \<in> {ClientIPModeDirect, ClientIPModeTrustedProxy} \<and>
     (cf_ClientIPMode c = ClientIPModeTrustedProxy \<longleftrightarrow> cf_TrustedProxyCIDRs c \<noteq> []) \<and>
     length (cf_TrustedProxyCIDRs c) \<le> maximumTrustedProxyPrefixes \<and>
     0 < cf_MCPIPRPM c \<and> 0 < cf_MCPIPMaxEntriesPerShard c \<and> cf_MCPIPMaxEntriesPerShard c \<le> 65536 \<and>
     0 < cf_MCPIPFallbackBucketsPerShard c \<and> cf_MCPIPFallbackBucketsPerShard c \<le> 1024 \<and>
     0 < cf_MCPUserSearchConcurrency c \<and> cf_MCPUserSearchConcurrency c \<le> cf_MCPGlobalSearchConcurrency c \<and>
     0 < cf_AuthPasswordMaxConcurrent c \<and> cf_AuthPasswordMaxConcurrent c \<le> 64 \<and>
     0 < cf_AuthKeyMissMaxConcurrent c \<and> cf_AuthKeyMissMaxConcurrent c \<le> 1024 \<and>
     0 < cf_MaxAPIKeysPerUser c \<and> cf_MaxAPIKeysPerUser c \<le> 1000 \<and>
     0 < cf_UserRPMMaximumEntries c \<and> cf_UserRPMMaximumEntries c \<le> 65536 \<and>
     0 < cf_UserRPMFallbackBuckets c \<and> cf_UserRPMFallbackBuckets c \<le> 1024 \<and>
     policy_Validate \<lparr>RawRetention = cf_UsageRawRetention c, HourlyRetention = cf_UsageHourlyRetention c, DailyRetention = cf_UsageDailyRetention c\<rparr> = None \<and>
     cf_UsageDailyRetention c < 2 ^ 63 \<and> 0 < cf_UsageMaintenanceInterval c \<and>
     settings_valid lib False (config_ServerSettings c)"

text \<open>The seconds the settings carry, for any duration in the range of the type.\<close>

lemma settings_timeout:
  assumes "t < 2 ^ 63" "n = (if quot t Second \<le> 0 then 120 else quot t Second)"
  shows "0 < n" "wrap64 (n * Second) = n * Second" "quot (n * Second) Second = n"
proof -
  show n: "0 < n" using assms(2) by auto
  have "n * Second < 2 ^ 63"
  proof (cases "quot t Second \<le> 0")
    case False
    then have "n = t div Second" "0 \<le> t" using assms(2) by (auto simp: quot_def Second_def split: if_splits)
    then have "n * Second \<le> t" by (simp add: Second_def)
    then show ?thesis using assms(1) by linarith
  qed (use assms(2) in \<open>simp add: Second_def\<close>)
  then show "wrap64 (n * Second) = n * Second" using n by (intro wrap64_id) (simp_all add: Second_def)
  show "quot (n * Second) Second = n" using n by (simp add: quot_def Second_def)
qed

lemma load_settings_Inr:
  assumes "load_settings lib cfg = Inr c" "cf_Timeout cfg < 2 ^ 63"
  obtains s where "normalizeServerSettings lib (config_ServerSettings cfg) False = Inr s" "config_ServerSettings c = s"
    "minJWTSecretLen \<le> length (cf_JWTSecret cfg)"
    "c = cfg\<lparr>cf_CPABaseURL := CPABaseURL s, cf_CPAAPIKey := CPAAPIKey s, cf_UpstreamProtocol := rt_UpstreamProtocol s,
         cf_Model := Model s, cf_Timeout := TimeoutSeconds s * Second, cf_ProxyURL := ProxyURL s, cf_ProxyEnabled := ProxyEnabled s,
         cf_RegistrationMode := rt_RegistrationMode s, cf_Debug := Debug s\<rparr>"
proof -
  obtain s where s: "normalizeServerSettings lib (config_ServerSettings cfg) False = Inr s" "minJWTSecretLen \<le> length (cf_JWTSecret cfg)"
    "c = cfg\<lparr>cf_CPABaseURL := CPABaseURL s, cf_CPAAPIKey := CPAAPIKey s, cf_UpstreamProtocol := rt_UpstreamProtocol s,
         cf_Model := Model s, cf_Timeout := wrap64 (TimeoutSeconds s * Second), cf_ProxyURL := ProxyURL s, cf_ProxyEnabled := ProxyEnabled s,
         cf_RegistrationMode := rt_RegistrationMode s, cf_Debug := Debug s\<rparr>"
    using assms(1) by (auto simp: load_settings_def and_then_Inr)
  have d: "quot defaultTimeout Second = 120" by (simp add: quot_def defaultTimeout_def Second_def)
  obtain p where r: "s = (config_ServerSettings cfg)\<lparr>CPABaseURL := TrimRightSlash (TrimSpace (cf_CPABaseURL cfg)), CPAAPIKey := TrimSpace (cf_CPAAPIKey cfg),
             rt_UpstreamProtocol := p, Model := TrimSpace (cf_Model cfg), ProxyURL := TrimSpace (cf_ProxyURL cfg)\<rparr>"
    using s(1) by (auto simp: normalizeServerSettings_Inr config_ServerSettings_def Let_def)
  then have "TimeoutSeconds s = (if quot (cf_Timeout cfg) Second \<le> 0 then 120 else quot (cf_Timeout cfg) Second)"
    by (simp add: config_ServerSettings_def Let_def d)
  note t = settings_timeout [OF assms(2) this]
  have f: "MCPGlobalSearchConcurrency s = cf_MCPGlobalSearchConcurrency cfg" "MCPUserSearchConcurrency s = cf_MCPUserSearchConcurrency cfg"
    "\<not> TurnstileEnabled s" "TurnstileSiteKey s = []" "TurnstileSecretKey s = []" "\<not> OperationsMetricsEnabled s"
    unfolding r by (simp_all add: config_ServerSettings_def Let_def)
  have "config_ServerSettings c = s"
    unfolding s(3) using t f by (intro Runtime.equality) (simp_all add: config_ServerSettings_def Let_def d)
  then show ?thesis using that [OF s(1) _ s(2)] s(3) t(2) by simp
qed


text \<open>
  A loaded configuration is within its bounds (C26). Whatever the environment, if \<open>Load\<close> returns a
  configuration then the signing secret has at least 32 bytes, trusted proxy mode comes with 1 to 256
  prefixes and direct mode with none, every capacity is positive and at most its maximum, a user's
  searches do not exceed the global limit, the retention periods make a valid policy whose durations do
  not overflow, and the runtime settings pass their validation.
\<close>

theorem config_load_sound:
  assumes "Load lib env = Inr c"
  shows "config_ok lib c"
proof -
  obtain mode ps rm c1 c2 c3 where l: "parseClientIPMode lib (Getenv env ''GROK_CLIENT_IP_MODE'') = Inr mode" "load_proxies env mode = Inr ps"
    "load_request_limits env (initial_config lib env mode ps rm) = Inr c1" "load_auth_limits env c1 = Inr c2"
    "load_retention lib env c2 = Inr c3" "load_settings lib c3 = Inr c"
    using assms unfolding Load_def and_then_Inr by blast
  obtain n where c1: "cf_Timeout c1 = wrap64 (n * Second)" "0 < cf_MCPIPRPM c1"
    "0 < cf_MCPIPMaxEntriesPerShard c1" "cf_MCPIPMaxEntriesPerShard c1 \<le> 65536"
    "0 < cf_MCPIPFallbackBucketsPerShard c1" "cf_MCPIPFallbackBucketsPerShard c1 \<le> 1024"
    "0 < cf_MCPUserSearchConcurrency c1" "cf_MCPUserSearchConcurrency c1 \<le> cf_MCPGlobalSearchConcurrency c1"
    "cf_ClientIPMode c1 = mode" "cf_TrustedProxyCIDRs c1 = ps" "cf_UsageMaintenanceInterval c1 = Hour"
    using l(3) by (rule load_request_limits_Inr) (simp_all add: initial_config_def Let_def that)
  obtain a b d e f where c2: "c2 = c1\<lparr>cf_AuthPasswordMaxConcurrent := a, cf_AuthKeyMissMaxConcurrent := b, cf_MaxAPIKeysPerUser := d,
         cf_UserRPMMaximumEntries := e, cf_UserRPMFallbackBuckets := f\<rparr>"
    "0 < a" "a \<le> 64" "0 < b" "b \<le> 1024" "0 < d" "d \<le> 1000" "0 < e" "e \<le> 65536" "0 < f" "f \<le> 1024"
    using l(4) by (rule load_auth_limits_Inr)
  have interval: "0 < cf_UsageMaintenanceInterval c2" using c2(1) c1(11) by (simp add: Hour_def Minute_def Second_def)
  obtain g h i j where c3: "c3 = c2\<lparr>cf_UsageRawRetention := g, cf_UsageHourlyRetention := h, cf_UsageDailyRetention := i, cf_UsageMaintenanceInterval := j\<rparr>"
    "0 < g" "g < h" "h < i" "i \<le> maximumRetentionDays * 24 * Hour" "0 < j"
    using l(5) interval by (rule load_retention_Inr)
  have "cf_Timeout c3 < 2 ^ 63" using wrap64_range [of "n * Second"] c1(1) c2(1) c3(1) by simp
  with l(6) obtain s where c: "normalizeServerSettings lib (config_ServerSettings c3) False = Inr s" "config_ServerSettings c = s"
    "minJWTSecretLen \<le> length (cf_JWTSecret c3)"
    "c = c3\<lparr>cf_CPABaseURL := CPABaseURL s, cf_CPAAPIKey := CPAAPIKey s, cf_UpstreamProtocol := rt_UpstreamProtocol s,
         cf_Model := Model s, cf_Timeout := TimeoutSeconds s * Second, cf_ProxyURL := ProxyURL s, cf_ProxyEnabled := ProxyEnabled s,
         cf_RegistrationMode := rt_RegistrationMode s, cf_Debug := Debug s\<rparr>"
    by (rule load_settings_Inr)
  have "settings_valid lib False s" using c(1) by (auto simp: normalizeServerSettings_Inr validate_settings_None)
  moreover have "mode \<in> {ClientIPModeDirect, ClientIPModeTrustedProxy}"
    using l(1) by (auto simp: parseClientIPMode_def Let_def split: if_splits)
  moreover have "i < 2 ^ 63" using c3(5) by (simp add: maximumRetentionDays_def Hour_def Minute_def Second_def)
  ultimately show ?thesis
    unfolding config_ok_def c(2) using load_proxies_Inr [OF l(2)] c1 c2 c3 c(3,4) by (simp add: policy_Validate_def)
qed

text \<open>
  The upstream timeout. A loaded configuration has the timeout asked for as long as its
  nanoseconds fit in 64 bits; beyond that the product wraps around silently, and what is left is cut to
  whole seconds, or replaced by the default of 120 seconds if it is less than one.
\<close>

theorem config_timeout_exact:
  assumes "Load lib env = Inr c" "ParseInt (TrimSpace (Getenv env ''GROK_HTTP_TIMEOUT'')) = Some n"
  shows "0 < n \<and> cf_Timeout c = (if n * Second < 2 ^ 63 then n * Second
      else let t = wrap64 (n * Second) in if t < Second then 120 * Second else t div Second * Second)"
proof -
  obtain cfg1 c0 c2 c3 where l: "load_request_limits env c0 = Inr cfg1" "load_auth_limits env cfg1 = Inr c2"
    "load_retention lib env c2 = Inr c3" "load_settings lib c3 = Inr c"
    using assms(1) unfolding Load_def and_then_Inr by blast
  obtain m where m: "parsePositiveIntegerEnvironmentVariable env ''GROK_HTTP_TIMEOUT'' 120 '' (seconds)'' = Inr m"
    "cf_Timeout cfg1 = wrap64 (m * Second)"
    using l(1) by (rule load_request_limits_Inr)
  have ne: "TrimSpace (Getenv env ''GROK_HTTP_TIMEOUT'') \<noteq> []"
    using assms(2) by (auto simp: ParseInt_def ParseUint_def)
  then have n: "0 < n" "m = n"
    using m(1) assms(2) by (auto simp: parsePositiveIntegerEnvironmentVariable_def Let_def split: if_splits)
  have t3: "cf_Timeout c3 = wrap64 (n * Second)"
    using l(2,3) m(2) n(2) by (auto simp: load_auth_limits_def load_retention_def and_then_Inr)
  then have "cf_Timeout c3 < 2 ^ 63" using wrap64_range by simp
  with l(4) obtain s where "normalizeServerSettings lib (config_ServerSettings c3) False = Inr s" "cf_Timeout c = TimeoutSeconds s * Second"
    by (rule load_settings_Inr) simp
  moreover have d: "quot defaultTimeout Second = 120" by (simp add: quot_def defaultTimeout_def Second_def)
  ultimately have c: "cf_Timeout c = (if quot (wrap64 (n * Second)) Second \<le> 0 then 120 else quot (wrap64 (n * Second)) Second) * Second"
    using t3 by (auto simp: normalizeServerSettings_Inr config_ServerSettings_def Let_def)
  have q: "quot t Second \<le> 0 \<longleftrightarrow> t < Second" for t
    by (auto simp: quot_def Second_def)
  have "wrap64 (n * Second) = n * Second" if "n * Second < 2 ^ 63" using that n(1) by (intro wrap64_id) (simp_all add: Second_def)
  then show ?thesis using c n(1) q [of "wrap64 (n * Second)"] by (auto simp: Let_def quot_def Second_def)
qed


section \<open>Witnesses\<close>

text \<open>A library whose URL parser knows a scheme and takes the rest as the host.\<close>

definition demo_url_Parse :: "string \<Rightarrow> (string \<times> string) option" where
  "demo_url_Parse u = (if HasPrefix u ''http://'' then Some (''http'', drop 7 u) else None)"

definition demo_config_lib :: config_lib where
  "demo_config_lib = \<lparr>lib_ToLower = map to_lower, lib_url_Parse = demo_url_Parse, lib_ParseDuration = (\<lambda>s. None)\<rparr>"

lemma demo_lower_ok: "lower_ok (lib_ToLower demo_config_lib)"
proof -
  have "to_lower c = c" if "c \<in> set ''abcdefghijklmnopqrstuvwxyz_''" for c
    using that by (simp add: to_lower_def, elim disjE) simp_all
  then show ?thesis by (auto simp: lower_ok_def demo_config_lib_def list_all_iff map_idI)
qed

definition demo_environment :: "string \<Rightarrow> environment" where
  "demo_environment timeout = [''GROK_JWT_SECRET'' \<mapsto> ''0123456789abcdef0123456789abcdef'', ''GROK_HTTP_TIMEOUT'' \<mapsto> timeout,
     ''GROK_USAGE_RAW_RETENTION_DAYS'' \<mapsto> '' 8 '']"

definition demo_config :: "string \<Rightarrow> Config" where
  "demo_config timeout = (case Load demo_config_lib (demo_environment timeout) of Inr c \<Rightarrow> c)"

lemma demo_config_loaded:
  "Load demo_config_lib (demo_environment ''30'') = Inr (demo_config ''30'')"
  "Load demo_config_lib (demo_environment ''18446744075'') = Inr (demo_config ''18446744075'')"
proof -
  have "case Load demo_config_lib (demo_environment ''30'') of Inr c \<Rightarrow> True | Inl e \<Rightarrow> False"
    "case Load demo_config_lib (demo_environment ''18446744075'') of Inr c \<Rightarrow> True | Inl e \<Rightarrow> False" by code_simp+
  then show "Load demo_config_lib (demo_environment ''30'') = Inr (demo_config ''30'')"
    "Load demo_config_lib (demo_environment ''18446744075'') = Inr (demo_config ''18446744075'')"
    by (auto simp: demo_config_def split: sum.splits)
qed

theorem config_load_sound_witness:
  "config_ok demo_config_lib (demo_config ''30'') \<and> cf_UsageRawRetention (demo_config ''30'') = 8 * 24 * Hour"
proof -
  have "cf_UsageRawRetention (demo_config ''30'') = 8 * 24 * Hour" by code_simp
  then show ?thesis using config_load_sound [OF demo_config_loaded(1)] by blast
qed

text \<open>18446744075 seconds become one second.\<close>

theorem config_timeout_exact_witness:
  "cf_Timeout (demo_config ''30'') = 30 * Second \<and> cf_Timeout (demo_config ''18446744075'') = 1 * Second"
proof -
  have p: "ParseInt (TrimSpace (Getenv (demo_environment ''30'') ''GROK_HTTP_TIMEOUT'')) = Some 30"
    "ParseInt (TrimSpace (Getenv (demo_environment ''18446744075'') ''GROK_HTTP_TIMEOUT'')) = Some 18446744075" by code_simp+
  show ?thesis
    using config_timeout_exact [OF demo_config_loaded(1) p(1)] config_timeout_exact [OF demo_config_loaded(2) p(2)]
    by (simp add: Second_def wrap64_def)
qed

text \<open>The prefix of all mapped addresses trusts every IPv4 address.\<close>

definition demo_prefix :: Prefix where
  "demo_prefix = \<lparr>prefix_addr = V6 (v4_in_v6_prefix @ [0, 0, 0, 0]) [], prefix_bits = 96\<rparr>"

theorem trusted_prefix_exact_witness:
  "canonicalizeTrustedProxyPrefix demo_prefix = Inr (Masked \<lparr>prefix_addr = V4 [0, 0, 0, 0], prefix_bits = 0\<rparr>) \<and>
   Contains (Masked \<lparr>prefix_addr = V4 [0, 0, 0, 0], prefix_bits = 0\<rparr>) (V4 [10, 1, 2, 3])"
proof -
  have p: "length v4_in_v6_prefix = 12" by (simp add: v4_in_v6_prefix_def)
  have c: "canonicalizeTrustedProxyPrefix demo_prefix = Inr (Masked \<lparr>prefix_addr = V4 [0, 0, 0, 0], prefix_bits = 0\<rparr>)"
    "wf_addr (prefix_addr demo_prefix)" "canonical (V4 [10, 1, 2, 3])" "Is4In6 (prefix_addr demo_prefix)"
    using p by (simp_all add: canonicalizeTrustedProxyPrefix_def demo_prefix_def canonical_def)
  have "Contains demo_prefix (V6 (v4_in_v6_prefix @ [10, 1, 2, 3]) [])"
    using p by (simp add: Contains_def demo_prefix_def del: addr_bits_simps(2))
  then show ?thesis using trusted_prefix_exact [OF c(2,1,3)] c(1,4) by simp
qed

definition demo_settings :: "string \<Rightarrow> Runtime" where
  "demo_settings url = \<lparr>CPABaseURL = url, CPAAPIKey = ''k '', rt_UpstreamProtocol = ''Responses'', Model = ''Grok-4'', TimeoutSeconds = 60,
     MCPGlobalSearchConcurrency = 16, MCPUserSearchConcurrency = 4, ProxyURL = [], ProxyEnabled = False,
     rt_RegistrationMode = RegistrationModeFree, TurnstileEnabled = False, TurnstileSiteKey = [], TurnstileSecretKey = [], Debug = False,
     OperationsMetricsEnabled = False\<rparr>"

definition demo_normal :: "string \<Rightarrow> Runtime" where
  "demo_normal url = (demo_settings url)\<lparr>CPAAPIKey := ''k'', rt_UpstreamProtocol := UpstreamProtocolResponses\<rparr>"

lemma demo_normalized: "NormalizeServerSettings demo_config_lib (demo_settings ''http://up/'') = Inr (demo_normal ''http://up'')"
  by code_simp

theorem settings_normalization_witness:
  "settings_valid demo_config_lib True (demo_normal ''http://up'') \<and>
   NormalizeServerSettings demo_config_lib (demo_normal ''http://up'') = Inr (demo_normal ''http://up'')"
proof -
  have "TrimSpace (CPABaseURL (demo_normal ''http://up'')) = CPABaseURL (demo_normal ''http://up'')" by code_simp
  then show ?thesis using settings_normalization [OF demo_lower_ok demo_normalized] by blast
qed

text \<open>White space before the trailing slashes survives the first normalisation and not the second.\<close>

lemma normalization_not_idempotent:
  "NormalizeServerSettings demo_config_lib (demo_settings ''http://up/v1 /'') = Inr (demo_normal ''http://up/v1 '') \<and>
   NormalizeServerSettings demo_config_lib (demo_normal ''http://up/v1 '') = Inr (demo_normal ''http://up/v1'')"
  by code_simp

end
