(* ===== verification/Grok_Request.thy ===== *)
theory Grok_Request
  imports Configuration
begin

text \<open>
  The search requests of the upstream client (\<open>internal/grok/types.go\<close>, \<open>request.go\<close>, \<open>models.go\<close>,
  \<open>errors.go\<close>, the request types of \<open>wire.go\<close>): errors that are safe to show, the validation of a request
  and of its domain filters, the model filter, and the body sent for the Responses protocol. A
  marshalled body is the value it encodes. Shown: exactly the host names are accepted as filters,
  and the model filter, which three layers apply again, is idempotent.
\<close>

section \<open>Types\<close>

type_synonym ToolType = string

definition ToolTypeWebSearch :: ToolType where "ToolTypeWebSearch = ''web_search''"
definition ToolTypeXSearch :: ToolType where "ToolTypeXSearch = ''x_search''"

record SearchRequest =
  sr_Query :: string
  sr_Model :: string
  sr_ToolType :: ToolType
  sr_AllowedDomains :: "string list"
  sr_ExcludedDomains :: "string list"
  sr_EnableImageUnderstanding :: "bool option"
  sr_EnableImageSearch :: "bool option"

record Usage =
  InputTokens :: int
  OutputTokens :: int
  TotalTokens :: int
  ReasoningTokens :: int

record Source =
  src_URL :: string
  src_Title :: string

record SearchRound =
  rd_Round :: int
  rd_Query :: string
  rd_URL :: string

record SearchResult =
  res_Answer :: string
  res_Citations :: "string list"
  res_Sources :: "Source list"
  res_Usage :: "Usage option"
  res_RawResponse :: string

text \<open>\<open>Model\<close>: one entry of the model list.\<close>

record grok_Model =
  gm_ID :: string

section \<open>Errors\<close>

datatype UpstreamErrorCategory =
    UpstreamErrorCategoryHTTPStatus
  | UpstreamErrorCategoryResponseRead
  | UpstreamErrorCategoryStream
  | UpstreamErrorCategoryTransport

text \<open>What the code asks of an error of the network: whether it is a timeout, and whether the caller cancelled.\<close>

record io_error =
  is_timeout :: bool
  is_canceled :: bool

record UpstreamError =
  ue_Category :: UpstreamErrorCategory
  ue_Protocol :: string
  ue_Operation :: string
  ue_StatusCode :: int
  ue_BodyBytes :: nat
  ue_BodyTruncated :: bool
  ue_Event :: string
  ue_cause :: "io_error option"

text \<open>\<open>Errorf\<close>: a formatted error, with the network error it wraps if it does.\<close>

datatype grok_error =
    SearchRequestError string
  | Upstream UpstreamError
  | Errorf string "io_error option"

definition UpstreamError_Error :: "UpstreamError \<Rightarrow> string" where
  "UpstreamError_Error e =
     (case ue_Category e of
        UpstreamErrorCategoryHTTPStatus \<Rightarrow> ''upstream returned HTTP '' @ Itoa (ue_StatusCode e)
      | UpstreamErrorCategoryResponseRead \<Rightarrow> ''upstream response read failed''
      | UpstreamErrorCategoryStream \<Rightarrow> ''upstream stream error event='' @ ue_Event e @ '' payload_bytes='' @ Itoa (int (ue_BodyBytes e))
      | UpstreamErrorCategoryTransport \<Rightarrow> ''upstream request failed'')"

definition grok_Error :: "grok_error \<Rightarrow> string" where
  "grok_Error e = (case e of SearchRequestError m \<Rightarrow> m | Upstream u \<Rightarrow> UpstreamError_Error u | Errorf m _ \<Rightarrow> m)"

definition SearchRequestErrorMessage :: "grok_error \<Rightarrow> string option" where
  "SearchRequestErrorMessage e = (case e of SearchRequestError m \<Rightarrow> Some m | _ \<Rightarrow> None)"

definition UpstreamErrorMetadata :: "grok_error \<Rightarrow> UpstreamError option" where
  "UpstreamErrorMetadata e = (case e of Upstream u \<Rightarrow> Some (u\<lparr>ue_cause := None\<rparr>) | _ \<Rightarrow> None)"

definition unwrapped :: "grok_error \<Rightarrow> io_error option" where
  "unwrapped e = (case e of SearchRequestError _ \<Rightarrow> None | Upstream u \<Rightarrow> ue_cause u | Errorf _ c \<Rightarrow> c)"

definition newUpstreamTransportError :: "string \<Rightarrow> string \<Rightarrow> io_error \<Rightarrow> grok_error" where
  "newUpstreamTransportError protocol operation cause = Upstream \<lparr>ue_Category = UpstreamErrorCategoryTransport, ue_Protocol = protocol,
     ue_Operation = operation, ue_StatusCode = 0, ue_BodyBytes = 0, ue_BodyTruncated = False, ue_Event = [], ue_cause = Some cause\<rparr>"

definition newUpstreamResponseReadError :: "string \<Rightarrow> string \<Rightarrow> int \<Rightarrow> nat \<Rightarrow> io_error option \<Rightarrow> grok_error" where
  "newUpstreamResponseReadError protocol operation statusCode bodyBytes cause = Upstream \<lparr>ue_Category = UpstreamErrorCategoryResponseRead,
     ue_Protocol = protocol, ue_Operation = operation, ue_StatusCode = statusCode, ue_BodyBytes = bodyBytes, ue_BodyTruncated = False,
     ue_Event = [], ue_cause = cause\<rparr>"

definition newUpstreamStreamError :: "string \<Rightarrow> string \<Rightarrow> nat \<Rightarrow> grok_error" where
  "newUpstreamStreamError protocol event payloadBytes = Upstream \<lparr>ue_Category = UpstreamErrorCategoryStream, ue_Protocol = protocol,
     ue_Operation = ''decode_stream'', ue_StatusCode = 0, ue_BodyBytes = payloadBytes, ue_BodyTruncated = False, ue_Event = event, ue_cause = None\<rparr>"

section \<open>Models\<close>

definition isSearchModelID :: "config_lib \<Rightarrow> string \<Rightarrow> bool" where
  "isSearchModelID lib modelID =
     (let normalizedModelID = lib_ToLower lib (TrimSpace modelID)
      in if normalizedModelID = [] then False
         else if \<not> str_Contains normalizedModelID ''grok'' then False
         else if str_Contains normalizedModelID ''imagine'' \<or> str_Contains normalizedModelID ''video'' then False
         else True)"

fun filter_models :: "config_lib \<Rightarrow> grok_Model list \<Rightarrow> string list \<Rightarrow> grok_Model list" where
  "filter_models lib [] seenModelIDs = []"
| "filter_models lib (model # models) seenModelIDs =
     (let modelID = TrimSpace (gm_ID model)
      in if \<not> isSearchModelID lib modelID then filter_models lib models seenModelIDs
         else if modelID \<in> set seenModelIDs then filter_models lib models seenModelIDs
         else \<lparr>gm_ID = modelID\<rparr> # filter_models lib models (modelID # seenModelIDs))"

definition FilterGrokModels :: "config_lib \<Rightarrow> grok_Model list \<Rightarrow> grok_Model list" where
  "FilterGrokModels lib models = filter_models lib models []"

definition resolveSearchModel :: "config_lib \<Rightarrow> string \<Rightarrow> string \<Rightarrow> grok_error + string" where
  "resolveSearchModel lib requestModel defaultModel =
     (let trimmed = TrimSpace requestModel; model = (if trimmed = [] then defaultModel else trimmed)
      in case ValidateModel lib model of
           Some _ \<Rightarrow> Inl (SearchRequestError ''unsupported model (must contain 'grok'); omit model to use the server default'')
         | None \<Rightarrow> Inr model)"

section \<open>Domain filters\<close>

definition is_label_char :: "char \<Rightarrow> bool" where
  "is_label_char c \<longleftrightarrow> c \<in> set ''abcdefghijklmnopqrstuvwxyz0123456789-''"

text \<open>A multi-byte character starts with a byte that is no label character, so the runes can be read as bytes.\<close>

fun check_labels :: "string list \<Rightarrow> string option" where
  "check_labels [] = None"
| "check_labels (label # labels) =
     (if 63 < length label then Some ''domain label is too long''
      else if HasPrefix label ''-'' \<or> HasSuffix label ''-'' then Some ''domain labels must not start or end with hyphen''
      else if \<not> list_all is_label_char label then Some ''domain contains unsupported characters''
      else check_labels labels)"

definition normalizeDomainFilter :: "config_lib \<Rightarrow> string \<Rightarrow> string + string" where
  "normalizeDomainFilter lib rawDomain =
     (let domain = lib_ToLower lib (TrimSpace rawDomain)
      in if domain = [] then Inl ''domain must not be empty''
         else if 253 < length domain then Inl ''domain is too long''
         else if str_Contains domain ''://'' then Inl ''scheme is not allowed''
         else if ContainsAny domain [CHR ''/'', CHR 0x5C, CHR ''?'', CHR ''#'', CHR ''@'', CHR '':'']
         then Inl ''path, query, port, and userinfo are not allowed''
         else if str_Contains domain ''*'' then Inl ''wildcards are not allowed''
         else if HasPrefix domain ''.'' \<or> HasSuffix domain ''.'' \<or> str_Contains domain ''..'' then Inl ''domain labels must be non-empty''
         else if domain = ''localhost'' \<or> HasSuffix domain ''.localhost'' \<or> HasSuffix domain ''.local'' then Inl ''local hostnames are not allowed''
         else if ParseAddr domain \<noteq> None then Inl ''IP literals are not allowed''
         else case check_labels (Split (CHR ''.'') domain) of Some e \<Rightarrow> Inl e | None \<Rightarrow> Inr domain)"

fun normalize_domains :: "config_lib \<Rightarrow> string \<Rightarrow> nat \<Rightarrow> string list \<Rightarrow> string + string list" where
  "normalize_domains lib fieldName domainIndex [] = Inr []"
| "normalize_domains lib fieldName domainIndex (rawDomain # rest) =
     (case normalizeDomainFilter lib rawDomain of
        Inl e \<Rightarrow> Inl (fieldName @ '' entry '' @ Itoa (int domainIndex) @ '' is invalid: '' @ e)
      | Inr normalizedDomain \<Rightarrow> and_then (normalize_domains lib fieldName (domainIndex + 1) rest) (\<lambda>ds. Inr (normalizedDomain # ds)))"

definition normalizeDomainFilters :: "config_lib \<Rightarrow> string \<Rightarrow> string list \<Rightarrow> string + string list" where
  "normalizeDomainFilters lib fieldName rawDomains = normalize_domains lib fieldName 0 rawDomains"

section \<open>Requests\<close>

definition validateSearchRequest :: "config_lib \<Rightarrow> SearchRequest \<Rightarrow> grok_error + SearchRequest" where
  "validateSearchRequest lib req =
     (if TrimSpace (sr_Query req) = [] then Inl (SearchRequestError ''query must not be empty'')
      else if sr_ToolType req \<noteq> ToolTypeWebSearch \<and> sr_ToolType req \<noteq> ToolTypeXSearch
      then Inl (SearchRequestError (''unsupported tool type: '' @ sr_ToolType req))
      else if sr_ToolType req \<noteq> ToolTypeWebSearch then Inr req
      else if 0 < length (sr_AllowedDomains req) \<and> 0 < length (sr_ExcludedDomains req)
      then Inl (SearchRequestError ''allowed_domains and excluded_domains cannot be used together'')
      else if 5 < length (sr_AllowedDomains req) then Inl (SearchRequestError ''allowed_domains supports at most 5 entries'')
      else if 5 < length (sr_ExcludedDomains req) then Inl (SearchRequestError ''excluded_domains supports at most 5 entries'')
      else case normalizeDomainFilters lib ''allowed_domains'' (sr_AllowedDomains req) of
          Inl e \<Rightarrow> Inl (SearchRequestError e)
        | Inr allowedDomains \<Rightarrow>
            (case normalizeDomainFilters lib ''excluded_domains'' (sr_ExcludedDomains req) of
               Inl e \<Rightarrow> Inl (SearchRequestError e)
             | Inr excludedDomains \<Rightarrow> Inr (req\<lparr>sr_AllowedDomains := allowedDomains, sr_ExcludedDomains := excludedDomains\<rparr>)))"

record inputMessage =
  im_Role :: string
  im_Content :: string

record toolDef =
  td_Type :: string
  td_AllowedDomains :: "string list"
  td_ExcludedDomains :: "string list"
  td_EnableImageUnderstanding :: "bool option"
  td_EnableImageSearch :: "bool option"

record responsesRequest =
  rr_Model :: string
  rr_Input :: "inputMessage list"
  rr_Tools :: "toolDef list"
  rr_Stream :: bool

definition buildToolDef :: "SearchRequest \<Rightarrow> toolDef" where
  "buildToolDef req =
     (let tool = \<lparr>td_Type = sr_ToolType req, td_AllowedDomains = [], td_ExcludedDomains = [], td_EnableImageUnderstanding = None,
            td_EnableImageSearch = None\<rparr>
      in if sr_ToolType req = ToolTypeWebSearch
         then tool\<lparr>td_AllowedDomains := sr_AllowedDomains req, td_ExcludedDomains := sr_ExcludedDomains req,
           td_EnableImageUnderstanding := sr_EnableImageUnderstanding req, td_EnableImageSearch := sr_EnableImageSearch req\<rparr>
         else tool)"

definition buildSearchRequestBody :: "config_lib \<Rightarrow> SearchRequest \<Rightarrow> string \<Rightarrow> grok_error + responsesRequest" where
  "buildSearchRequestBody lib req defaultModel =
     and_then (resolveSearchModel lib (sr_Model req) defaultModel) (\<lambda>model.
       Inr \<lparr>rr_Model = model, rr_Input = [\<lparr>im_Role = ''user'', im_Content = sr_Query req\<rparr>], rr_Tools = [buildToolDef req], rr_Stream = True\<rparr>)"

section \<open>The model filter\<close>

lemma isSearchModelID_trim [simp]: "isSearchModelID lib (TrimSpace s) = isSearchModelID lib s"
  by (simp add: isSearchModelID_def)

lemma filter_models_props:
  "distinct (map gm_ID (filter_models lib ms seen)) \<and> gm_ID ` set (filter_models lib ms seen) =
     {i \<in> TrimSpace ` gm_ID ` set ms. isSearchModelID lib i} - set seen"
proof (induction ms arbitrary: seen)
  case (Cons m ms)
  show ?case using Cons.IH [of seen] Cons.IH [of "TrimSpace (gm_ID m) # seen"] by (auto simp: Let_def)
qed simp

lemma filter_models_fixed:
  "distinct (map gm_ID ms) \<Longrightarrow> (\<And>m. m \<in> set ms \<Longrightarrow> TrimSpace (gm_ID m) = gm_ID m \<and> isSearchModelID lib (gm_ID m) \<and> gm_ID m \<notin> set seen) \<Longrightarrow>
     filter_models lib ms seen = ms"
proof (induction ms arbitrary: seen)
  case (Cons m ms)
  have m: "TrimSpace (gm_ID m) = gm_ID m" "isSearchModelID lib (gm_ID m)" "gm_ID m \<notin> set seen" using Cons.prems(2) [of m] by simp_all
  have new: "gm_ID x \<noteq> gm_ID m" if "x \<in> set ms" for x using Cons.prems(1) that by (auto simp: image_iff)
  have "filter_models lib ms (gm_ID m # seen) = ms" by (rule Cons.IH) (use Cons.prems new in auto)
  then show ?case using m by (simp add: Let_def)
qed simp

text \<open>
  The model filter. Of the upstream's models exactly those remain whose trimmed identifier names a
  grok model and no image or video one, each once; and filtering again, as the panel, the tool and the
  health check do, changes nothing.
\<close>

theorem model_filter_exact:
  "distinct (map gm_ID (FilterGrokModels lib models)) \<and>
   gm_ID ` set (FilterGrokModels lib models) = {i \<in> TrimSpace ` gm_ID ` set models. isSearchModelID lib i} \<and>
   FilterGrokModels lib (FilterGrokModels lib models) = FilterGrokModels lib models"
proof -
  note p = filter_models_props [of lib models "[]"]
  have "filter_models lib (FilterGrokModels lib models) [] = FilterGrokModels lib models"
  proof (rule filter_models_fixed)
    fix m assume "m \<in> set (FilterGrokModels lib models)"
    then have "gm_ID m \<in> {i \<in> TrimSpace ` gm_ID ` set models. isSearchModelID lib i}"
      using p unfolding FilterGrokModels_def by fastforce
    then show "TrimSpace (gm_ID m) = gm_ID m \<and> isSearchModelID lib (gm_ID m) \<and> gm_ID m \<notin> set []" by auto
  qed (use p in \<open>simp add: FilterGrokModels_def\<close>)
  then show ?thesis using p by (simp add: FilterGrokModels_def)
qed


section \<open>Host names\<close>

definition label_ok :: "string \<Rightarrow> bool" where
  "label_ok l \<longleftrightarrow> l \<noteq> [] \<and> length l \<le> 63 \<and> list_all is_label_char l \<and> hd l \<noteq> CHR ''-'' \<and> last l \<noteq> CHR ''-''"

text \<open>A host name: non-empty labels of letters, digits and inner hyphens, joined by dots.\<close>

definition hostname :: "string \<Rightarrow> bool" where
  "hostname h \<longleftrightarrow> (\<exists>labels. labels \<noteq> [] \<and> list_all label_ok labels \<and> h = Join (CHR ''.'') labels)"

definition local_name :: "string \<Rightarrow> bool" where
  "local_name h \<longleftrightarrow> h = ''localhost'' \<or> (\<exists>p. h = p @ ''.localhost'' \<or> h = p @ ''.local'')"

lemma Inl_guard_Inr: "(if b then Inl e else x) = Inr h \<longleftrightarrow> \<not> b \<and> x = Inr h"
  by simp

lemma option_guard_Inr: "(case q of None \<Rightarrow> Inr d | Some e \<Rightarrow> Inl e) = Inr h \<longleftrightarrow> q = None \<and> h = d"
  by (auto split: option.splits)

lemma Join_Split [simp]: "Join c (Split c s) = s"
proof (induction s)
  case (Cons x s)
  obtain q qs where q: "Split c s = q # qs" by (cases "Split c s") auto
  have "Join c ((x # q) # qs) = x # Join c (q # qs)" by (cases qs) auto
  then show ?case using Cons q by auto
qed simp

lemma set_Split: "set s \<subseteq> insert c (\<Union> (set ` set (Split c s)))"
proof (induction s)
  case (Cons x s)
  then show ?case by (cases "Split c s") auto
qed simp

lemma HasSuffix_iff: "HasSuffix s p \<longleftrightarrow> (\<exists>q. s = q @ p)"
proof -
  have "(\<exists>t. List.rev s = List.rev p @ t) \<longleftrightarrow> (\<exists>q. s = q @ p)" by (metis rev_append rev_rev_ident)
  then show ?thesis by (simp add: HasSuffix_def starts_with_iff)
qed

lemma Split_Cons_other: "x \<noteq> c \<Longrightarrow> Split c (x # s) = (x # hd (Split c s)) # tl (Split c s)"
  by (cases "Split c s") auto

lemma hd_Split: "hd (Split c s) = [] \<longleftrightarrow> s = [] \<or> hd s = c"
  by (cases s; cases "hd s = c") (auto simp: Split_Cons_other simp del: Split.simps(2), simp)

lemma Split_all: "list_all P (Split c s) \<longleftrightarrow> P (hd (Split c s)) \<and> list_all P (tl (Split c s))"
  by (cases "Split c s") auto

lemma HasPrefix_one: "HasPrefix s [c] \<longleftrightarrow> s \<noteq> [] \<and> hd s = c"
  by (cases s) (auto simp: HasPrefix_def)

lemma HasSuffix_one: "HasSuffix s [c] \<longleftrightarrow> s \<noteq> [] \<and> last s = c"
  by (cases s rule: rev_cases) (auto simp: HasSuffix_def)

lemma HasPrefix_two: "HasPrefix (x # s) [c, d] \<longleftrightarrow> x = c \<and> s \<noteq> [] \<and> hd s = d"
  by (cases s) (auto simp: HasPrefix_def)

lemma tl_Split: "list_all (\<lambda>l. l \<noteq> []) (tl (Split c s)) \<longleftrightarrow> \<not> str_Contains s [c, c] \<and> (s \<noteq> [] \<longrightarrow> last s \<noteq> c)"
proof (induction s)
  case (Cons x s)
  show ?case
  proof (cases "x = c")
    case True
    then show ?thesis using Cons Split_all [of "\<lambda>l. l \<noteq> []" c s] hd_Split [of c s] by (auto simp: HasPrefix_two)
  next
    case False
    then show ?thesis using Cons by (auto simp: Split_Cons_other HasPrefix_two simp del: Split.simps(2))
  qed
qed simp

lemma Split_labels: "list_all (\<lambda>l. l \<noteq> []) (Split c s) \<longleftrightarrow> s \<noteq> [] \<and> \<not> (HasPrefix s [c] \<or> HasSuffix s [c] \<or> str_Contains s [c, c])"
  using tl_Split [of c s] hd_Split [of c s] Split_all [of "\<lambda>l. l \<noteq> []" c s] by (auto simp: HasPrefix_one HasSuffix_one)

lemma str_Contains_set: "str_Contains s p \<Longrightarrow> set p \<subseteq> set s"
proof (induction s)
  case (Cons c s)
  then show ?case by (auto simp: HasPrefix_def starts_with_iff) (metis in_set_conv_decomp append_Cons set_ConsD append_assoc)
qed simp

lemma check_labels_None:
  "check_labels ls = None \<longleftrightarrow> list_all (\<lambda>l. length l \<le> 63 \<and> \<not> HasPrefix l ''-'' \<and> \<not> HasSuffix l ''-'' \<and> list_all is_label_char l) ls"
  by (induction ls) auto

lemma label_ok_checks:
  "label_ok l \<longleftrightarrow> l \<noteq> [] \<and> length l \<le> 63 \<and> \<not> HasPrefix l ''-'' \<and> \<not> HasSuffix l ''-'' \<and> list_all is_label_char l"
  by (auto simp: label_ok_def HasPrefix_one HasSuffix_one)


text \<open>
  Domain filters. A filter is accepted exactly if, trimmed and lower-cased, it is a host name of at
  most 253 bytes that is neither an address literal nor local; the checks for schemes, paths, ports,
  user info, wildcards and empty labels refuse nothing else.
\<close>

theorem domain_filter_exact:
  "normalizeDomainFilter lib raw = Inr h \<longleftrightarrow>
     h = lib_ToLower lib (TrimSpace raw) \<and> hostname h \<and> length h \<le> 253 \<and> \<not> local_name h \<and> ParseAddr h = None"
proof -
  define d where "d = lib_ToLower lib (TrimSpace raw)"
  let ?dot = "CHR ''.''"
  have host: "hostname d \<longleftrightarrow> list_all label_ok (Split ?dot d)"
  proof
    assume "hostname d"
    then obtain ls where ls: "ls \<noteq> []" "list_all label_ok ls" "d = Join ?dot ls" by (auto simp: hostname_def)
    have "?dot \<notin> set l" if "l \<in> set ls" for l
      using ls(2) that by (fastforce simp: list_all_iff label_ok_def is_label_char_def)
    then show "list_all label_ok (Split ?dot d)" using ls Split_Join by simp
  next
    assume "list_all label_ok (Split ?dot d)"
    then show "hostname d" unfolding hostname_def using Join_Split [of ?dot d] by (intro exI [of _ "Split ?dot d"]) simp
  qed
  have labels: "list_all label_ok (Split ?dot d) \<longleftrightarrow>
      list_all (\<lambda>l. l \<noteq> []) (Split ?dot d) \<and> check_labels (Split ?dot d) = None"
    by (auto simp: check_labels_None label_ok_checks list_all_iff)
  have chars: "set d \<subseteq> insert ?dot {c. is_label_char c}" if "hostname d"
    using that host set_Split [of d ?dot] by (fastforce simp: list_all_iff label_ok_def)
  have no: "c \<notin> set d" if "hostname d" "c \<in> {CHR ''/'', CHR 0x5C, CHR ''?'', CHR ''#'', CHR ''@'', CHR '':'', CHR ''*''}" for c
    using chars [OF that(1)] that(2) by (auto simp: is_label_char_def)
  have refused: "\<not> str_Contains d ''://''" "\<not> ContainsAny d [CHR ''/'', CHR 0x5C, CHR ''?'', CHR ''#'', CHR ''@'', CHR '':'']" "\<not> str_Contains d ''*''"
    if "hostname d"
  proof -
    note no = no [OF that]
    show "\<not> str_Contains d ''://''" using no [of "CHR '':''"] str_Contains_set [of d "''://''"] by auto
    show "\<not> str_Contains d ''*''" using no [of "CHR ''*''"] str_Contains_set [of d "''*''"] by auto
    show "\<not> ContainsAny d [CHR ''/'', CHR 0x5C, CHR ''?'', CHR ''#'', CHR ''@'', CHR '':'']"
      unfolding ContainsAny_def list_ex_iff using no by (simp add: Ball_def) (metis no insertI1 insertI2)
  qed
  have local: "local_name d \<longleftrightarrow> d = ''localhost'' \<or> HasSuffix d ''.localhost'' \<or> HasSuffix d ''.local''"
    by (auto simp: local_name_def HasSuffix_iff)
  have "normalizeDomainFilter lib raw = Inr h \<longleftrightarrow> d \<noteq> [] \<and> \<not> 253 < length d \<and> \<not> str_Contains d ''://'' \<and>
      \<not> ContainsAny d [CHR ''/'', CHR 0x5C, CHR ''?'', CHR ''#'', CHR ''@'', CHR '':''] \<and> \<not> str_Contains d ''*'' \<and>
      \<not> (HasPrefix d ''.'' \<or> HasSuffix d ''.'' \<or> str_Contains d ''..'') \<and> \<not> local_name d \<and> \<not> ParseAddr d \<noteq> None \<and>
      check_labels (Split ?dot d) = None \<and> h = d"
    unfolding normalizeDomainFilter_def Let_def d_def [symmetric] local Inl_guard_Inr option_guard_Inr by (rule refl)
  also have "\<dots> \<longleftrightarrow> h = d \<and> hostname d \<and> length d \<le> 253 \<and> \<not> local_name d \<and> ParseAddr d = None"
    unfolding not_less host labels Split_labels not_not using refused [unfolded host labels Split_labels] by blast
  finally show ?thesis by (auto simp: d_def)
qed

end
