(* ===== verification/Grok_SSE.thy ===== *)
theory Grok_SSE
  imports Grok_Request
begin

text \<open>
  Server-sent events of the upstream (\<open>internal/grok/sse.go\<close>): the line scanner, the event buffer with
  its limits, the callbacks, and the bounded growth of an answer. A body is the bytes it delivers and
  the error it then fails with, if it does; the end of a body is reported by a read of its own.
  Shown: what the callbacks see are the events of the body, cut by blank lines, and a body beyond a
  limit is an error after a bounded number of bounded events.
\<close>

section \<open>Limits\<close>

definition maxUpstreamResponseBytes :: nat where "maxUpstreamResponseBytes = 8 * 1024 * 1024"
definition maxSSEEventBytes :: nat where "maxSSEEventBytes = 1 * 1024 * 1024"
definition maxSSEEventCount :: nat where "maxSSEEventCount = 4096"
definition maxSearchRoundCount :: nat where "maxSearchRoundCount = 64"
definition maxAggregatedAnswerBytes :: nat where "maxAggregatedAnswerBytes = 2 * 1024 * 1024"
definition maxCitationCount :: nat where "maxCitationCount = 256"
definition maxAggregatedCitationBytes :: nat where "maxAggregatedCitationBytes = 256 * 1024"
definition maxSSELineBytes :: nat where "maxSSELineBytes = maxSSEEventBytes + length ''data: '' + 3"

text \<open>Evaluation compares these as integers.\<close>

lemma limits_int [code_unfold]:
  "int maxSSEEventBytes = 1048576" "int maxAggregatedAnswerBytes = 2097152" "int maxAggregatedCitationBytes = 262144"
  by (simp_all add: maxSSEEventBytes_def maxAggregatedAnswerBytes_def maxAggregatedCitationBytes_def)

section \<open>Bodies and lines\<close>

record stream_body =
  sb_bytes :: string
  sb_error :: "io_error option"

text \<open>\<open>io.LimitedReader\<close>: after \<open>n\<close> bytes the end is reported and nothing more is read.\<close>

definition limited :: "nat \<Rightarrow> stream_body \<Rightarrow> stream_body" where
  "limited n body = (if n \<le> length (sb_bytes body) then \<lparr>sb_bytes = take n (sb_bytes body), sb_error = None\<rparr> else body)"

abbreviation newline :: char where "newline \<equiv> CHR 0x0A"

definition dropCR :: "string \<Rightarrow> string" where
  "dropCR l = (if l \<noteq> [] \<and> last l = CHR 0x0D then butlast l else l)"

text \<open>
  \<open>bufio.Scanner\<close> over lines with a buffer of at most \<open>maximum\<close> bytes: the lines, and whether the next
  one did not fit. A rest without line end is a line.
\<close>

function scan_lines :: "nat \<Rightarrow> string \<Rightarrow> string list \<times> bool" where
  "scan_lines maximum s =
     (if s = [] then ([], False)
      else (let l = takeWhile (\<lambda>c. c \<noteq> newline) s
        in if maximum \<le> length l then ([], True)
           else apfst (Cons (dropCR l)) (scan_lines maximum (drop (Suc (length l)) s))))"
  by pat_completeness auto
termination
  by (relation "measure (\<lambda>(maximum, s). length s)") auto

declare scan_lines.simps [simp del]

section \<open>Events\<close>

record 's sse_state =
  sse_user :: 's
  eventBuffer :: string
  dataLineCount :: nat
  eventCount :: nat

type_synonym 's called = "'s \<times> grok_error option"

definition plain_error :: "string \<Rightarrow> grok_error" where
  "plain_error m = Errorf m None"

text \<open>An error that neither quotes a request nor carries a status: what reading and decoding a response may end with.\<close>

definition internal_error :: "grok_error \<Rightarrow> bool" where
  "internal_error e \<longleftrightarrow> (case e of SearchRequestError _ \<Rightarrow> False | Upstream u \<Rightarrow> ue_Category u \<noteq> UpstreamErrorCategoryHTTPStatus | Errorf _ _ \<Rightarrow> True)"

lemma internal_errors [simp]:
  "internal_error (plain_error m)" "internal_error (Errorf m c)" "internal_error (newUpstreamStreamError protocol event n)"
  "internal_error (newUpstreamResponseReadError protocol operation code k c)" "internal_error (newUpstreamTransportError protocol operation io)"
  by (simp_all add: internal_error_def plain_error_def newUpstreamStreamError_def newUpstreamResponseReadError_def newUpstreamTransportError_def)

definition flushEvent :: "('s \<Rightarrow> string \<Rightarrow> 's called) \<Rightarrow> ('s \<Rightarrow> 's called) \<Rightarrow> 's sse_state \<Rightarrow> 's sse_state called" where
  "flushEvent onEvent onDone st =
     (if dataLineCount st = 0 then (st, None)
      else let payload = eventBuffer st; st = st\<lparr>eventCount := eventCount st + 1\<rparr>
        in if maxSSEEventCount < eventCount st
           then (st, Some (plain_error (''upstream stream exceeded event limit of '' @ Itoa (int maxSSEEventCount))))
           else if payload = ''[DONE]''
           then (case onDone (sse_user st) of (u, e) \<Rightarrow> (st\<lparr>sse_user := u, eventBuffer := [], dataLineCount := 0\<rparr>, e))
           else (case onEvent (sse_user st) payload of
               (u, Some e) \<Rightarrow> (st\<lparr>sse_user := u\<rparr>, Some e)
             | (u, None) \<Rightarrow> (st\<lparr>sse_user := u, eventBuffer := [], dataLineCount := 0\<rparr>, None)))"

definition sse_data :: "string \<Rightarrow> 's sse_state \<Rightarrow> 's sse_state called" where
  "sse_data dataLine st =
     (let additionalBytes = length dataLine + (if 0 < dataLineCount st then 1 else 0)
      in if int maxSSEEventBytes < int additionalBytes \<or> int maxSSEEventBytes - int additionalBytes < int (length (eventBuffer st))
         then (st, Some (plain_error (''upstream stream event exceeded byte limit of '' @ Itoa (int maxSSEEventBytes))))
         else (st\<lparr>eventBuffer := eventBuffer st @ (if 0 < dataLineCount st then [newline] else []) @ dataLine,
            dataLineCount := dataLineCount st + 1\<rparr>, None))"

fun sse_lines :: "('s \<Rightarrow> string \<Rightarrow> 's called) \<Rightarrow> ('s \<Rightarrow> 's called) \<Rightarrow> string list \<Rightarrow> 's sse_state \<Rightarrow> 's sse_state called" where
  "sse_lines onEvent onDone [] st = (st, None)"
| "sse_lines onEvent onDone (l # ls) st =
     (case (if l = [] then flushEvent onEvent onDone st
            else if HasPrefix l ''data:'' then sse_data (TrimSpace (drop 5 l)) st
            else (st, None)) of
        (st', Some e) \<Rightarrow> (st', Some e)
      | (st', None) \<Rightarrow> sse_lines onEvent onDone ls st')"

definition forEachSSEEventWithDone ::
  "stream_body \<Rightarrow> ('s \<Rightarrow> string \<Rightarrow> 's called) \<Rightarrow> ('s \<Rightarrow> 's called) \<Rightarrow> 's \<Rightarrow> 's called" where
  "forEachSSEEventWithDone r onEvent onDone u =
     (let limitedReader = limited (maxUpstreamResponseBytes + 1) r;
          (ls, tooLong) = scan_lines maxSSELineBytes (sb_bytes limitedReader)
      in case sse_lines onEvent onDone ls \<lparr>sse_user = u, eventBuffer = [], dataLineCount = 0, eventCount = 0\<rparr> of
           (st, Some e) \<Rightarrow> (sse_user st, Some e)
         | (st, None) \<Rightarrow>
             if tooLong then (sse_user st, Some (plain_error ''read stream: bufio.Scanner: token too long''))
             else (case sb_error limitedReader of
                 Some e \<Rightarrow> (sse_user st, Some (Errorf ''read stream'' (Some e)))
               | None \<Rightarrow>
                   if maxUpstreamResponseBytes + 1 \<le> length (sb_bytes limitedReader)
                   then (sse_user st, Some (plain_error (''upstream stream exceeded total byte limit of '' @ Itoa (int maxUpstreamResponseBytes))))
                   else apfst sse_user (flushEvent onEvent onDone st)))"

definition forEachSSEEvent :: "stream_body \<Rightarrow> ('s \<Rightarrow> string \<Rightarrow> 's called) \<Rightarrow> 's \<Rightarrow> 's called" where
  "forEachSSEEvent r onEvent u = forEachSSEEventWithDone r onEvent (\<lambda>u. (u, None)) u"

definition readAllUpstreamResponse :: "stream_body \<Rightarrow> grok_error + string" where
  "readAllUpstreamResponse r =
     (let limitedReader = limited (maxUpstreamResponseBytes + 1) r; responseBody = sb_bytes limitedReader
      in case sb_error limitedReader of
           Some e \<Rightarrow> Inl (Errorf [] (Some e))
         | None \<Rightarrow>
             if maxUpstreamResponseBytes < length responseBody
             then Inl (plain_error (''upstream response exceeded total byte limit of '' @ Itoa (int maxUpstreamResponseBytes)))
             else Inr responseBody)"

definition answer_limit_error :: grok_error where
  "answer_limit_error = plain_error (''upstream response exceeded aggregated answer byte limit of '' @ Itoa (int maxAggregatedAnswerBytes))"

fun answer_parts :: "int \<Rightarrow> string list \<Rightarrow> int option" where
  "answer_parts additionalBytes [] = Some additionalBytes"
| "answer_parts additionalBytes (textPart # textParts) =
     (if int maxAggregatedAnswerBytes - int (length textPart) < additionalBytes then None
      else answer_parts (additionalBytes + int (length textPart)) textParts)"

definition appendAnswerText :: "string \<Rightarrow> string list \<Rightarrow> grok_error + string" where
  "appendAnswerText answer textParts =
     (case answer_parts 0 textParts of
        None \<Rightarrow> Inl answer_limit_error
      | Some additionalBytes \<Rightarrow>
          if int maxAggregatedAnswerBytes - additionalBytes < int (length answer) then Inl answer_limit_error
          else Inr (answer @ concat textParts))"

section \<open>The events of a body\<close>

text \<open>Lines end at newlines, the last one at the end if it is not empty; blank lines end events; an event is its data lines joined.\<close>

definition body_lines :: "string \<Rightarrow> string list" where
  "body_lines s = map dropCR (let parts = Split newline s in if last parts = [] then butlast parts else parts)"

fun blocks :: "string list \<Rightarrow> string list list" where
  "blocks [] = [[]]"
| "blocks (l # ls) = (if l = [] then [] # blocks ls else (l # hd (blocks ls)) # tl (blocks ls))"

definition data_lines :: "string list \<Rightarrow> string list" where
  "data_lines b = map (\<lambda>l. TrimSpace (drop 5 l)) (filter (\<lambda>l. HasPrefix l ''data:'') b)"

definition sse_payloads :: "string list \<Rightarrow> string list" where
  "sse_payloads ls = map (Join newline) (filter (\<lambda>ds. ds \<noteq> []) (map data_lines (blocks ls)))"

fun deliver :: "('s \<Rightarrow> string \<Rightarrow> 's called) \<Rightarrow> ('s \<Rightarrow> 's called) \<Rightarrow> string list \<Rightarrow> 's \<Rightarrow> 's called" where
  "deliver onEvent onDone [] u = (u, None)"
| "deliver onEvent onDone (p # ps) u =
     (case (if p = ''[DONE]'' then onDone u else onEvent u p) of
        (u', Some e) \<Rightarrow> (u', Some e)
      | (u', None) \<Rightarrow> deliver onEvent onDone ps u')"

definition within_limits :: "stream_body \<Rightarrow> bool" where
  "within_limits r \<longleftrightarrow> sb_error r = None \<and> length (sb_bytes r) \<le> maxUpstreamResponseBytes \<and>
     list_all (\<lambda>l. length l < maxSSELineBytes) (Split newline (sb_bytes r)) \<and>
     length (sse_payloads (body_lines (sb_bytes r))) \<le> maxSSEEventCount \<and>
     list_all (\<lambda>p. length p \<le> maxSSEEventBytes) (sse_payloads (body_lines (sb_bytes r)))"


section \<open>Scanning lines\<close>

lemma Split_takeWhile:
  "Split c s = takeWhile (\<lambda>x. x \<noteq> c) s # (if c \<in> set s then Split c (drop (Suc (length (takeWhile (\<lambda>x. x \<noteq> c) s))) s) else [])"
proof (induction s)
  case (Cons x s)
  show ?case
  proof (cases "x = c")
    case False
    then show ?thesis by (subst Split.simps(2), subst Cons) auto
  qed simp
qed simp

lemma body_lines_Nil [simp]: "body_lines [] = []"
  by (simp add: body_lines_def)

lemma body_lines_next:
  assumes "s \<noteq> []"
  shows "body_lines s = dropCR (takeWhile (\<lambda>c. c \<noteq> newline) s) #
    body_lines (drop (Suc (length (takeWhile (\<lambda>c. c \<noteq> newline) s))) s)"
proof (cases "newline \<in> set s")
  case True
  have "body_lines s = map dropCR (let parts = takeWhile (\<lambda>c. c \<noteq> newline) s #
      Split newline (drop (Suc (length (takeWhile (\<lambda>c. c \<noteq> newline) s))) s) in if last parts = [] then butlast parts else parts)"
    unfolding body_lines_def by (subst Split_takeWhile) (use True in simp)
  then show ?thesis by (simp add: body_lines_def Let_def)
next
  case False
  then have all: "takeWhile (\<lambda>c. c \<noteq> newline) s = s" by (auto simp: takeWhile_eq_all_conv)
  have "Split newline s = [s]" by (subst Split_takeWhile) (use False all in simp)
  then show ?thesis unfolding all using assms by (simp add: body_lines_def)
qed

lemma short_next:
  assumes "0 < M"
  shows "list_all (\<lambda>l. length l < M) (Split newline s) \<longleftrightarrow> length (takeWhile (\<lambda>c. c \<noteq> newline) s) < M \<and>
    list_all (\<lambda>l. length l < M) (Split newline (drop (Suc (length (takeWhile (\<lambda>c. c \<noteq> newline) s))) s))"
proof (cases "newline \<in> set s")
  case True
  then show ?thesis by (subst Split_takeWhile) simp
next
  case False
  then have all: "takeWhile (\<lambda>c. c \<noteq> newline) s = s" by (auto simp: takeWhile_eq_all_conv)
  have "Split newline s = [s]" by (subst Split_takeWhile) (use False all in simp)
  then show ?thesis unfolding all using assms by simp
qed

lemma scan_lines_exact:
  "0 < M \<Longrightarrow> if list_all (\<lambda>l. length l < M) (Split newline s) then scan_lines M s = (body_lines s, False)
     else \<exists>ls rest. scan_lines M s = (ls, True) \<and> body_lines s = ls @ rest"
proof (induction M s rule: scan_lines.induct)
  case (1 M s)
  let ?l = "takeWhile (\<lambda>c. c \<noteq> newline) s"
  consider (empty) "s = []" | (long) "s \<noteq> []" "M \<le> length ?l" | (short) "s \<noteq> []" "length ?l < M" by fastforce
  then show ?case
  proof cases
    case empty
    then show ?thesis using 1 by (simp add: scan_lines.simps [of M])
  next
    case long
    then show ?thesis using short_next [OF 1(2), of s] by (simp add: scan_lines.simps [of M])
  next
    case short
    define s' where "s' = drop (Suc (length ?l)) s"
    have step: "scan_lines M s = apfst (Cons (dropCR ?l)) (scan_lines M s')"
      using short by (subst scan_lines.simps) (simp add: Let_def s'_def)
    have IH: "if list_all (\<lambda>l. length l < M) (Split newline s') then scan_lines M s' = (body_lines s', False)
        else \<exists>ls rest. scan_lines M s' = (ls, True) \<and> body_lines s' = ls @ rest"
      unfolding s'_def by (rule 1(1)) (use 1(2) short in auto)
    have lines: "body_lines s = dropCR ?l # body_lines s'" unfolding s'_def by (rule body_lines_next [OF short(1)])
    show ?thesis using IH short(2) unfolding step lines short_next [OF 1(2), of s, folded s'_def] by (auto split: if_splits)
  qed
qed

section \<open>From lines to events\<close>

definition opened :: "string list \<Rightarrow> string list" where
  "opened ds = (if ds = [] then [] else [Join newline ds])"

text \<open>The events that blank lines have ended, given the data lines of the open event, and the data lines open at the end.\<close>

fun closed :: "string list \<Rightarrow> string list \<Rightarrow> string list \<times> string list" where
  "closed ds [] = ([], ds)"
| "closed ds (l # ls) =
     (if l = [] then apfst (append (opened ds)) (closed [] ls)
      else closed (if HasPrefix l ''data:'' then ds @ [TrimSpace (drop 5 l)] else ds) ls)"

lemma blocks_nonempty [simp]: "blocks ls \<noteq> []"
  by (cases ls) auto

lemma data_lines_Nil [simp]: "data_lines [] = []"
  by (simp add: data_lines_def)

lemma data_lines_Cons: "data_lines (l # b) = (if HasPrefix l ''data:'' then [TrimSpace (drop 5 l)] else []) @ data_lines b"
  by (simp add: data_lines_def)

lemma closed_payloads:
  "fst (closed ds ls) @ opened (snd (closed ds ls)) =
     opened (ds @ data_lines (hd (blocks ls))) @ map (Join newline) (filter (\<lambda>ds. ds \<noteq> []) (map data_lines (tl (blocks ls))))"
proof (induction ds ls rule: closed.induct)
  case (2 ds l ls)
  have split: "map (Join newline) (filter (\<lambda>ds. ds \<noteq> []) (map data_lines (blocks ls))) =
      opened (data_lines (hd (blocks ls))) @ map (Join newline) (filter (\<lambda>ds. ds \<noteq> []) (map data_lines (tl (blocks ls))))"
    by (cases "blocks ls") (auto simp: opened_def)
  show ?case
  proof (cases "l = []")
    case True
    then show ?thesis using 2(1) [OF True] split by simp
  next
    case False
    then show ?thesis using 2(2) [OF False] by (simp add: data_lines_Cons)
  qed
qed simp

lemma sse_payloads_closed: "sse_payloads ls = fst (closed [] ls) @ opened (snd (closed [] ls))"
  unfolding closed_payloads sse_payloads_def by (cases "blocks ls") (auto simp: opened_def)

lemma closed_append: "closed ds (ls @ ms) = apfst (append (fst (closed ds ls))) (closed (snd (closed ds ls)) ms)"
  by (induction ds ls rule: closed.induct) (auto simp: apfst_def map_prod_def split: prod.splits)

lemma Join_snoc: "ds \<noteq> [] \<Longrightarrow> Join c (ds @ [d]) = Join c ds @ c # d"
  by (induction c ds rule: Join.induct) auto

lemma deliver_append:
  "deliver onEvent onDone (ps @ qs) u =
     (case deliver onEvent onDone ps u of (u', Some e) \<Rightarrow> (u', Some e) | (u', None) \<Rightarrow> deliver onEvent onDone qs u')"
  by (induction ps arbitrary: u) (auto split: prod.splits option.splits)

text \<open>A run over lines: the user state is that of a delivery of the first events, all of the ended ones if no limit was met and no callback failed.\<close>

definition small :: "string list \<Rightarrow> bool" where
  "small ps \<longleftrightarrow> list_all (\<lambda>p. length p \<le> maxSSEEventBytes) ps"

lemma small_append [simp]: "small (ps @ qs) \<longleftrightarrow> small ps \<and> small qs"
  by (simp add: small_def)

lemma small_Nil [simp]: "small []" and small_Cons [simp]: "small (p # ps) \<longleftrightarrow> length p \<le> maxSSEEventBytes \<and> small ps"
  by (simp_all add: small_def)

definition sse_rep :: "'s \<Rightarrow> string list \<Rightarrow> nat \<Rightarrow> 's sse_state" where
  "sse_rep u ds n = \<lparr>sse_user = u, eventBuffer = Join newline ds, dataLineCount = length ds, eventCount = n\<rparr>"

lemma sse_user_rep [simp]: "sse_user (sse_rep u ds n) = u"
  by (simp add: sse_rep_def)

definition event_error :: "grok_error" where
  "event_error = plain_error (''upstream stream exceeded event limit of '' @ Itoa (int maxSSEEventCount))"

lemma flushEvent_rep:
  "flushEvent onEvent onDone (sse_rep u ds n) =
     (if ds = [] then (sse_rep u [] n, None)
      else if maxSSEEventCount < n + 1 then (sse_rep u ds (n + 1), Some event_error)
      else (case deliver onEvent onDone [Join newline ds] u of
          (u', None) \<Rightarrow> (sse_rep u' [] (n + 1), None)
        | (u', Some e) \<Rightarrow> (sse_rep u' (if Join newline ds = ''[DONE]'' then [] else ds) (n + 1), Some e)))"
  by (auto simp: flushEvent_def sse_rep_def Let_def event_error_def split: prod.splits option.splits)

lemma sse_data_rep:
  "sse_data d (sse_rep u ds n) =
     (if small [Join newline (ds @ [d])] then (sse_rep u (ds @ [d]) n, None)
      else (sse_rep u ds n, Some (plain_error (''upstream stream event exceeded byte limit of '' @ Itoa (int maxSSEEventBytes)))))"
  by (cases "ds = []") (auto simp: sse_data_def sse_rep_def Let_def small_def Join_snoc)

lemma closed_large: "ds \<noteq> [] \<Longrightarrow> \<not> small [Join newline ds] \<Longrightarrow> \<not> small (fst (closed ds ls) @ opened (snd (closed ds ls)))"
proof (induction ds ls rule: closed.induct)
  case (2 ds l ls)
  have "\<not> small [Join newline (ds @ [d])]" for d using 2(3,4) by (auto simp: Join_snoc)
  then show ?case using 2 by (auto simp: opened_def)
qed (simp add: opened_def)

definition run_ok :: "('s \<Rightarrow> string \<Rightarrow> 's called) \<Rightarrow> ('s \<Rightarrow> 's called) \<Rightarrow> 's \<Rightarrow> nat \<Rightarrow> string list \<Rightarrow> string list \<Rightarrow> 's sse_state called \<Rightarrow> bool" where
  "run_ok onEvent onDone u n ps ds' r \<longleftrightarrow>
     (case r of
        (st, None) \<Rightarrow> st = sse_rep (sse_user st) ds' (n + length ps) \<and> deliver onEvent onDone ps u = (sse_user st, None) \<and>
          n + length ps \<le> maxSSEEventCount \<and> small (ps @ opened ds')
      | (st, Some e) \<Rightarrow>
          (\<exists>qs rest. ps = qs @ rest \<and> n + length qs \<le> maxSSEEventCount \<and> small qs \<and> sse_user st = fst (deliver onEvent onDone qs u)) \<and>
          (deliver onEvent onDone ps u = (sse_user st, Some e) \<or> \<not> (n + length ps \<le> maxSSEEventCount \<and> small (ps @ opened ds'))))"

lemma run_ok_stop:
  assumes "n \<le> maxSSEEventCount" "\<not> (n + length ps \<le> maxSSEEventCount \<and> small (ps @ opened ds'))" "sse_user st = u"
  shows "run_ok onEvent onDone u n ps ds' (st, Some e)"
  unfolding run_ok_def prod.case option.case
  by (intro conjI exI [of _ "[]"] exI [of _ ps] disjI2) (use assms in simp_all)

lemma run_ok_fail:
  assumes "deliver onEvent onDone [p] u = (sse_user st, Some e)" "n + 1 \<le> maxSSEEventCount" "small [p]"
  shows "run_ok onEvent onDone u n (p # ps) ds' (st, Some e)"
proof -
  have "deliver onEvent onDone (p # ps) u = (sse_user st, Some e)"
    using deliver_append [of onEvent onDone "[p]" ps u] assms(1) by simp
  then show ?thesis unfolding run_ok_def prod.case option.case
    by (intro conjI exI [of _ "[p]"] exI [of _ ps] disjI1) (use assms in \<open>simp_all del: deliver.simps\<close>)
qed

lemma run_ok_Cons:
  assumes "run_ok onEvent onDone u' (n + 1) ps ds' r" "deliver onEvent onDone [p] u = (u', None)" "small [p]"
  shows "run_ok onEvent onDone u n (p # ps) ds' r"
proof -
  obtain st e where r: "r = (st, e)" by fastforce
  have d: "deliver onEvent onDone (p # qs) u = deliver onEvent onDone qs u'" for qs
    using deliver_append [of onEvent onDone "[p]" qs u] assms(2) by simp
  show ?thesis
  proof (cases e)
    case None
    then show ?thesis using assms(1,3) d unfolding r run_ok_def by (simp del: deliver.simps)
  next
    case (Some x)
    then obtain qs rest where q: "ps = qs @ rest" "n + 1 + length qs \<le> maxSSEEventCount" "small qs"
        "sse_user st = fst (deliver onEvent onDone qs u')"
      and f: "deliver onEvent onDone ps u' = (sse_user st, Some x) \<or> \<not> (n + 1 + length ps \<le> maxSSEEventCount \<and> small (ps @ opened ds'))"
      using assms(1) unfolding r run_ok_def Some prod.case option.case by blast
    have "p # ps = (p # qs) @ rest \<and> n + length (p # qs) \<le> maxSSEEventCount \<and> small (p # qs) \<and>
        sse_user st = fst (deliver onEvent onDone (p # qs) u)" using q d assms(3) by (simp del: deliver.simps)
    moreover have "deliver onEvent onDone (p # ps) u = (sse_user st, Some x) \<or>
        \<not> (n + length (p # ps) \<le> maxSSEEventCount \<and> small ((p # ps) @ opened ds'))" using f d assms(3) by (auto simp del: deliver.simps)
    ultimately show ?thesis unfolding r run_ok_def Some prod.case option.case by blast
  qed
qed

lemma sse_lines_run:
  "n \<le> maxSSEEventCount \<Longrightarrow> small (opened ds) \<Longrightarrow>
     run_ok onEvent onDone u n (fst (closed ds ls)) (snd (closed ds ls)) (sse_lines onEvent onDone ls (sse_rep u ds n))"
proof (induction ls arbitrary: u ds n)
  case Nil
  then show ?case by (simp add: run_ok_def)
next
  case (Cons l ls)
  consider (blank) "l = []" "ds = []" | (over) "l = []" "ds \<noteq> []" "maxSSEEventCount < n + 1" | (flush) "l = []" "ds \<noteq> []" "n + 1 \<le> maxSSEEventCount"
    | (large) "l \<noteq> []" "HasPrefix l ''data:''" "\<not> small [Join newline (ds @ [TrimSpace (drop 5 l)])]"
    | (data) "l \<noteq> []" "HasPrefix l ''data:''" "small [Join newline (ds @ [TrimSpace (drop 5 l)])]"
    | (skip) "l \<noteq> []" "\<not> HasPrefix l ''data:''" by linarith
  then show ?case
  proof cases
    case blank
    then show ?thesis using Cons.IH [OF Cons.prems(1), of "[]" u] by (simp add: flushEvent_rep opened_def)
  next
    case over
    show ?thesis using over Cons.prems
      by (simp add: flushEvent_rep opened_def) (intro run_ok_stop, auto simp: opened_def)
  next
    case flush
    let ?p = "Join newline ds"
    have s: "small [?p]" using Cons.prems(2) flush by (simp add: opened_def)
    obtain u' e where d: "deliver onEvent onDone [?p] u = (u', e)" by fastforce
    show ?thesis
    proof (cases e)
      case None
      have "run_ok onEvent onDone u n (?p # fst (closed [] ls)) (snd (closed [] ls)) (sse_lines onEvent onDone ls (sse_rep u' [] (n + 1)))"
        by (rule run_ok_Cons [OF Cons.IH d [unfolded None] s]) (use flush in \<open>simp_all add: opened_def\<close>)
      then show ?thesis using flush None d by (simp add: flushEvent_rep opened_def del: deliver.simps)
    next
      case (Some x)
      define ds2 where "ds2 = (if ?p = ''[DONE]'' then [] else ds)"
      have "flushEvent onEvent onDone (sse_rep u ds n) = (sse_rep u' ds2 (n + 1), Some x)"
        using flush d Some by (simp add: flushEvent_rep ds2_def del: deliver.simps)
      then have "sse_lines onEvent onDone (l # ls) (sse_rep u ds n) = (sse_rep u' ds2 (n + 1), Some x)" using flush by simp
      moreover have "run_ok onEvent onDone u n (?p # fst (closed [] ls)) (snd (closed [] ls)) (sse_rep u' ds2 (n + 1), Some x)"
        by (rule run_ok_fail) (use d Some flush s in simp_all)
      ultimately show ?thesis using flush by (simp add: opened_def del: sse_lines.simps)
    qed
  next
    case large
    have "\<not> small (fst (closed (ds @ [TrimSpace (drop 5 l)]) ls) @ opened (snd (closed (ds @ [TrimSpace (drop 5 l)]) ls)))"
      by (rule closed_large) (use large in auto)
    then show ?thesis using large Cons.prems by (simp add: sse_data_rep) (rule run_ok_stop, auto)
  next
    case data
    then show ?thesis using Cons.IH [OF Cons.prems(1), of "ds @ [TrimSpace (drop 5 l)]" u] by (simp add: sse_data_rep opened_def)
  next
    case skip
    then show ?thesis using Cons.IH [OF Cons.prems, of u] by simp
  qed
qed

section \<open>The reader\<close>

lemma limited_short: "length (sb_bytes r) < n \<Longrightarrow> limited n r = r"
  by (simp add: limited_def)

text \<open>The parts of a read: the lines scanned, the events they end, the data lines left open, and the run over them.\<close>

definition read_rest :: "('s \<Rightarrow> string \<Rightarrow> 's called) \<Rightarrow> ('s \<Rightarrow> 's called) \<Rightarrow> stream_body \<Rightarrow> bool \<Rightarrow> 's sse_state \<Rightarrow> 's called" where
  "read_rest onEvent onDone lr tooLong st =
     (if tooLong then (sse_user st, Some (plain_error ''read stream: bufio.Scanner: token too long''))
      else (case sb_error lr of
          Some e \<Rightarrow> (sse_user st, Some (Errorf ''read stream'' (Some e)))
        | None \<Rightarrow> if maxUpstreamResponseBytes + 1 \<le> length (sb_bytes lr)
            then (sse_user st, Some (plain_error (''upstream stream exceeded total byte limit of '' @ Itoa (int maxUpstreamResponseBytes))))
            else apfst sse_user (flushEvent onEvent onDone st)))"

lemma limited_bytes: "sb_bytes (limited n r) = take n (sb_bytes r)"
  by (simp add: limited_def)

lemma sse_read_run:
  obtains ls tooLong st e where "scan_lines maxSSELineBytes (take (maxUpstreamResponseBytes + 1) (sb_bytes r)) = (ls, tooLong)"
    "sse_lines onEvent onDone ls (sse_rep u [] 0) = (st, e)"
    "forEachSSEEventWithDone r onEvent onDone u =
       (case e of Some x \<Rightarrow> (sse_user st, Some x) | None \<Rightarrow> read_rest onEvent onDone (limited (maxUpstreamResponseBytes + 1) r) tooLong st)"
proof -
  obtain ls tooLong where scan: "scan_lines maxSSELineBytes (take (maxUpstreamResponseBytes + 1) (sb_bytes r)) = (ls, tooLong)" by fastforce
  obtain st e where run: "sse_lines onEvent onDone ls (sse_rep u [] 0) = (st, e)" by fastforce
  have init: "\<lparr>sse_user = u, eventBuffer = [], dataLineCount = 0, eventCount = 0\<rparr> = sse_rep u [] 0" by (simp add: sse_rep_def)
  show ?thesis
    by (rule that [OF scan run], unfold forEachSSEEventWithDone_def Let_def limited_bytes scan prod.case init run read_rest_def) (cases e, simp_all)
qed

lemma sse_read_parts:
  obtains ps ds tooLong st e where
    "run_ok onEvent onDone u 0 ps ds (st, e)"
    "forEachSSEEventWithDone r onEvent onDone u =
       (case e of Some x \<Rightarrow> (sse_user st, Some x) | None \<Rightarrow> read_rest onEvent onDone (limited (maxUpstreamResponseBytes + 1) r) tooLong st)"
    "\<exists>rest. sse_payloads (body_lines (take (maxUpstreamResponseBytes + 1) (sb_bytes r))) = ps @ rest"
    "\<not> tooLong \<longrightarrow> sse_payloads (body_lines (take (maxUpstreamResponseBytes + 1) (sb_bytes r))) = ps @ opened ds"
    "tooLong \<longleftrightarrow> \<not> list_all (\<lambda>l. length l < maxSSELineBytes) (Split newline (take (maxUpstreamResponseBytes + 1) (sb_bytes r)))"
proof -
  let ?B = "take (maxUpstreamResponseBytes + 1) (sb_bytes r)"
  obtain ls tooLong st e where scan: "scan_lines maxSSELineBytes ?B = (ls, tooLong)"
    and run: "sse_lines onEvent onDone ls (sse_rep u [] 0) = (st, e)"
    and read: "forEachSSEEventWithDone r onEvent onDone u =
      (case e of Some x \<Rightarrow> (sse_user st, Some x) | None \<Rightarrow> read_rest onEvent onDone (limited (maxUpstreamResponseBytes + 1) r) tooLong st)"
    by (rule sse_read_run [of r onEvent onDone u]) (rule that, assumption+)
  obtain ms where ms: "body_lines ?B = ls @ ms" "\<not> tooLong \<Longrightarrow> ms = []"
    and long: "tooLong \<longleftrightarrow> \<not> list_all (\<lambda>l. length l < maxSSELineBytes) (Split newline ?B)"
    using scan_lines_exact [of maxSSELineBytes ?B] scan by (cases tooLong) (fastforce simp: maxSSELineBytes_def split: if_splits)+
  have ok: "run_ok onEvent onDone u 0 (fst (closed [] ls)) (snd (closed [] ls)) (st, e)"
    using sse_lines_run [of 0 "[]" onEvent onDone u ls] run by (simp add: opened_def)
  show ?thesis
    by (rule that [OF ok read _ _ long]) (use ms in \<open>auto simp: sse_payloads_closed closed_append\<close>)
qed

lemma sse_reader:
  "if within_limits r
   then forEachSSEEventWithDone r onEvent onDone u = deliver onEvent onDone (sse_payloads (body_lines (sb_bytes r))) u
   else \<exists>ps rest. sse_payloads (body_lines (take (maxUpstreamResponseBytes + 1) (sb_bytes r))) = ps @ rest \<and>
     length ps \<le> maxSSEEventCount \<and> list_all (\<lambda>p. length p \<le> maxSSEEventBytes) ps \<and>
     fst (forEachSSEEventWithDone r onEvent onDone u) = fst (deliver onEvent onDone ps u) \<and>
     snd (forEachSSEEventWithDone r onEvent onDone u) \<noteq> None"
proof -
  let ?read = "forEachSSEEventWithDone r onEvent onDone u"
  let ?B = "take (maxUpstreamResponseBytes + 1) (sb_bytes r)"
  obtain ps ds tooLong st e where ok: "run_ok onEvent onDone u 0 ps ds (st, e)"
    and read: "?read = (case e of Some x \<Rightarrow> (sse_user st, Some x) | None \<Rightarrow> read_rest onEvent onDone (limited (maxUpstreamResponseBytes + 1) r) tooLong st)"
    and all: "\<exists>rest. sse_payloads (body_lines ?B) = ps @ rest"
    and whole: "\<not> tooLong \<longrightarrow> sse_payloads (body_lines ?B) = ps @ opened ds"
    and long: "tooLong \<longleftrightarrow> \<not> list_all (\<lambda>l. length l < maxSSELineBytes) (Split newline ?B)"
    by (rule sse_read_parts [of onEvent onDone u r]) (rule that, assumption+)
  have within: "within_limits r \<longleftrightarrow> \<not> tooLong \<and> sb_error r = None \<and> length (sb_bytes r) \<le> maxUpstreamResponseBytes \<and>
      length (ps @ opened ds) \<le> maxSSEEventCount \<and> small (ps @ opened ds)"
    using whole long unfolding within_limits_def small_def by (cases "length (sb_bytes r) \<le> maxUpstreamResponseBytes") auto
  have exact: ?thesis if "if within_limits r then ?read = deliver onEvent onDone (ps @ opened ds) u
      else \<exists>qs rest. ps = qs @ rest \<and> length qs \<le> maxSSEEventCount \<and> small qs \<and> fst ?read = fst (deliver onEvent onDone qs u) \<and> snd ?read \<noteq> None"
  proof (cases "within_limits r")
    case True
    then show ?thesis using that whole within by simp
  next
    case False
    then show ?thesis using that all unfolding small_def by fastforce
  qed
  show ?thesis
  proof (cases e)
    case (Some x)
    show ?thesis
      by (rule exact) (use ok read Some within in \<open>auto simp: run_ok_def deliver_append\<close>)
  next
    case None
    have run_None: "st = sse_rep (sse_user st) ds (length ps)" "deliver onEvent onDone ps u = (sse_user st, None)"
      "length ps \<le> maxSSEEventCount" "small ps" "small (opened ds)"
      using ok unfolding run_ok_def None prod.case option.case by simp_all
    have read: "?read = read_rest onEvent onDone (limited (maxUpstreamResponseBytes + 1) r) tooLong st" using read None by simp
    have failed: ?thesis if "\<not> within_limits r" "fst ?read = sse_user st" "snd ?read \<noteq> None"
    proof -
      have "\<exists>qs rest. ps = qs @ rest \<and> length qs \<le> maxSSEEventCount \<and> small qs \<and> fst ?read = fst (deliver onEvent onDone qs u) \<and> snd ?read \<noteq> None"
        by (intro exI [of _ ps] exI [of _ "[]"]) (use that run_None in simp)
      then show ?thesis using exact that(1) by argo
    qed
    show ?thesis
    proof (cases "tooLong \<or> sb_error r \<noteq> None \<or> maxUpstreamResponseBytes < length (sb_bytes r)")
      case True
      then have "fst ?read = sse_user st \<and> snd ?read \<noteq> None"
        unfolding read read_rest_def limited_def by (auto split: option.splits)
      then show ?thesis using failed True within by auto
    next
      case False
      then have rest: "?read = apfst sse_user (flushEvent onEvent onDone (sse_rep (sse_user st) ds (length ps)))"
        unfolding read read_rest_def using run_None(1) by (simp add: limited_short)
      have w: "within_limits r \<longleftrightarrow> ds = [] \<or> length ps + 1 \<le> maxSSEEventCount" using within False run_None by (auto simp: opened_def)
      show ?thesis
      proof (cases "within_limits r")
        case True
        have "?read = deliver onEvent onDone (ps @ opened ds) u" unfolding rest flushEvent_rep deliver_append run_None(2)
          using True w by (auto simp: opened_def split: prod.splits option.splits)
        then show ?thesis using exact True by argo
      next
        case False
        then show ?thesis by (intro failed) (use w in \<open>auto simp: rest flushEvent_rep\<close>)
      qed
    qed
  qed
qed

lemma sse_reader_success:
  assumes "forEachSSEEventWithDone r onEvent onDone u = (u', None)"
  shows "within_limits r" "deliver onEvent onDone (sse_payloads (body_lines (sb_bytes r))) u = (u', None)"
  using sse_reader [of r onEvent onDone u] assms by (auto split: if_splits)

text \<open>
  Server-sent events (C30). Within the limits the callbacks receive exactly the events of the body, in
  order, until one fails; beyond a limit or after a read error the reader fails, and what it had
  delivered are at most 4096 leading events of at most 1 MiB each.
\<close>

theorem sse_reader_exact:
  "if within_limits r
   then forEachSSEEventWithDone r onEvent onDone u = deliver onEvent onDone (sse_payloads (body_lines (sb_bytes r))) u
   else \<exists>ps rest. sse_payloads (body_lines (take (maxUpstreamResponseBytes + 1) (sb_bytes r))) = ps @ rest \<and>
     length ps \<le> maxSSEEventCount \<and> list_all (\<lambda>p. length p \<le> maxSSEEventBytes) ps \<and>
     fst (forEachSSEEventWithDone r onEvent onDone u) = fst (deliver onEvent onDone ps u) \<and>
     snd (forEachSSEEventWithDone r onEvent onDone u) \<noteq> None"
  by (rule sse_reader)

section \<open>Consumers of events\<close>

text \<open>What the callbacks keep, the reader keeps, whatever the body and wherever it stops.\<close>

locale sse_consumer =
  fixes onEvent :: "'s \<Rightarrow> string \<Rightarrow> 's called" and onDone :: "'s \<Rightarrow> 's called" and inv :: "'s \<Rightarrow> bool"
  assumes event_inv: "inv u \<Longrightarrow> inv (fst (onEvent u p))"
    and done_inv: "inv u \<Longrightarrow> inv (fst (onDone u))"
begin

lemma flush_inv: "inv (sse_user st) \<Longrightarrow> inv (sse_user (fst (flushEvent onEvent onDone st)))"
  using event_inv [of "sse_user st" "eventBuffer st"] done_inv [of "sse_user st"]
  by (auto simp: flushEvent_def Let_def split: prod.splits option.splits)

lemma data_user: "sse_user (fst (sse_data d st)) = sse_user st"
  by (simp add: sse_data_def Let_def)

lemma lines_inv: "inv (sse_user st) \<Longrightarrow> inv (sse_user (fst (sse_lines onEvent onDone ls st)))"
proof (induction ls arbitrary: st)
  case (Cons l ls)
  let ?r = "if l = [] then flushEvent onEvent onDone st else if HasPrefix l ''data:'' then sse_data (TrimSpace (drop 5 l)) st else (st, None)"
  have "inv (sse_user (fst ?r))" using Cons.prems flush_inv by (simp add: data_user)
  then show ?case using Cons.IH by (cases ?r) (auto split: option.splits)
qed simp

lemma reader_inv:
  assumes "inv u"
  shows "inv (fst (forEachSSEEventWithDone r onEvent onDone u))"
proof -
  obtain ls tooLong st e where run: "sse_lines onEvent onDone ls (sse_rep u [] 0) = (st, e)"
    and read: "forEachSSEEventWithDone r onEvent onDone u =
      (case e of Some x \<Rightarrow> (sse_user st, Some x) | None \<Rightarrow> read_rest onEvent onDone (limited (maxUpstreamResponseBytes + 1) r) tooLong st)"
    by (rule sse_read_run) (rule that, assumption+)
  have st: "inv (sse_user st)" using lines_inv [of "sse_rep u [] 0" ls] assms run by simp
  then show ?thesis using flush_inv [OF st] unfolding read read_rest_def by (auto split: option.splits)
qed

end

text \<open>And what holds of the errors of the callbacks holds of the reader's, if it holds of its own.\<close>

locale sse_error_consumer = sse_consumer onEvent onDone inv
  for onEvent :: "'s \<Rightarrow> string \<Rightarrow> 's called" and onDone :: "'s \<Rightarrow> 's called" and inv :: "'s \<Rightarrow> bool" +
  fixes err_ok :: "grok_error \<Rightarrow> bool"
  assumes event_err: "inv u \<Longrightarrow> snd (onEvent u p) = Some e \<Longrightarrow> err_ok e"
    and done_err: "inv u \<Longrightarrow> snd (onDone u) = Some e \<Longrightarrow> err_ok e"
    and own_err: "err_ok (Errorf m cause)"
begin

lemma flush_err: "inv (sse_user st) \<Longrightarrow> snd (flushEvent onEvent onDone st) = Some e \<Longrightarrow> err_ok e"
  using event_err [of "sse_user st" "eventBuffer st" e] done_err [of "sse_user st" e]
  by (auto simp: flushEvent_def Let_def plain_error_def own_err split: prod.splits option.splits if_splits)

lemma data_err: "snd (sse_data d st) = Some e \<Longrightarrow> err_ok e"
  by (auto simp: sse_data_def Let_def plain_error_def own_err split: if_splits)

lemma lines_err: "inv (sse_user st) \<Longrightarrow> snd (sse_lines onEvent onDone ls st) = Some e \<Longrightarrow> err_ok e"
proof (induction ls arbitrary: st)
  case (Cons l ls)
  let ?r = "if l = [] then flushEvent onEvent onDone st else if HasPrefix l ''data:'' then sse_data (TrimSpace (drop 5 l)) st else (st, None)"
  have "inv (sse_user (fst ?r))" "\<And>x. snd ?r = Some x \<Longrightarrow> err_ok x"
    using Cons.prems(1) flush_inv flush_err data_err by (auto simp: data_user split: if_splits)
  then show ?case using Cons.IH Cons.prems(2) by (cases ?r) (auto split: option.splits)
qed simp

lemma reader_err:
  assumes "inv u" "snd (forEachSSEEventWithDone r onEvent onDone u) = Some e"
  shows "err_ok e"
proof -
  obtain ls tooLong st e' where run: "sse_lines onEvent onDone ls (sse_rep u [] 0) = (st, e')"
    and read: "forEachSSEEventWithDone r onEvent onDone u =
      (case e' of Some x \<Rightarrow> (sse_user st, Some x) | None \<Rightarrow> read_rest onEvent onDone (limited (maxUpstreamResponseBytes + 1) r) tooLong st)"
    by (rule sse_read_run) (rule that, assumption+)
  have st: "inv (sse_user st)" "\<And>x. e' = Some x \<Longrightarrow> err_ok x"
    using lines_inv [of "sse_rep u [] 0" ls] lines_err [of "sse_rep u [] 0" ls] assms(1) run by simp_all
  then show ?thesis using assms(2) flush_err [OF st(1)] unfolding read read_rest_def
    by (auto simp: plain_error_def own_err split: option.splits if_splits)
qed

end

section \<open>Answers\<close>

lemma answer_parts_sum: "answer_parts n parts = Some m \<Longrightarrow> m = n + int (length (concat parts))"
  by (induction n parts rule: answer_parts.induct) (auto split: if_splits)

lemma appendAnswerText_Inr:
  "appendAnswerText answer parts = Inr answer' \<Longrightarrow> answer' = answer @ concat parts \<and> length answer' \<le> maxAggregatedAnswerBytes"
  by (auto simp: appendAnswerText_def dest: answer_parts_sum split: option.splits if_splits)

lemma appendAnswerText_Inl: "appendAnswerText answer parts = Inl e \<Longrightarrow> internal_error e"
  by (auto simp: appendAnswerText_def answer_limit_error_def split: option.splits if_splits)

end
