(* ===== verification/Json_Decode.thy ===== *)
theory Json_Decode
  imports Tool_Inspection Panel_Http
begin

text \<open>
  Decoding a JSON value into Go data, as \<open>json.Unmarshal\<close> of the standard library does it: into what is
  already there, field by field, names matched up to case, null leaving a value alone and emptying a
  slice or pointer, unknown members skipped. A mismatch makes the whole call fail, and every caller
  drops the data then, so a failure is \<open>None\<close>. A slice keeps the memory behind its end, into which a
  second list for the same field is decoded.
\<close>

type_synonym 'a decoder = "'a \<Rightarrow> json \<Rightarrow> 'a option"

type_synonym 'a slice = "'a list \<times> 'a list"

definition elems :: "'a slice \<Rightarrow> 'a list" where
  "elems = fst"

lemma elems_Pair [simp]: "elems (xs, memory) = xs"
  by (simp add: elems_def)

definition dec_string :: "string decoder" where
  "dec_string s j = (case j of JNull \<Rightarrow> Some s | JString t \<Rightarrow> Some t | _ \<Rightarrow> None)"

definition dec_int :: "int decoder" where
  "dec_int i j = (case j of JNull \<Rightarrow> Some i | JNumber t \<Rightarrow> ParseInt t | _ \<Rightarrow> None)"

text \<open>\<open>json.RawMessage\<close>: \<open>None\<close> while nothing has been decoded.\<close>

definition dec_raw :: "json option decoder" where
  "dec_raw r j = Some (Some j)"

fun dec_elems :: "'a decoder \<Rightarrow> 'a \<Rightarrow> 'a list \<Rightarrow> json list \<Rightarrow> 'a slice option" where
  "dec_elems d zero memory [] = Some ([], memory)"
| "dec_elems d zero memory (j # js) =
     (case d (case memory of [] \<Rightarrow> zero | m # _ \<Rightarrow> m) j of
        None \<Rightarrow> None
      | Some x \<Rightarrow> map_option (apfst (Cons x)) (dec_elems d zero (tl memory) js))"

definition dec_slice :: "'a \<Rightarrow> 'a decoder \<Rightarrow> 'a slice decoder" where
  "dec_slice zero d s j =
     (case j of
        JNull \<Rightarrow> Some ([], [])
      | JArray js \<Rightarrow> if js = [] then Some ([], []) else dec_elems d zero (fst s @ snd s) js
      | _ \<Rightarrow> None)"

definition dec_pointer :: "'a \<Rightarrow> 'a decoder \<Rightarrow> 'a option decoder" where
  "dec_pointer zero d p j = (case j of JNull \<Rightarrow> Some None | _ \<Rightarrow> map_option Some (d (case p of None \<Rightarrow> zero | Some x \<Rightarrow> x) j))"

text \<open>A field of a struct: how to read it and how to write it.\<close>

definition field :: "'v decoder \<Rightarrow> ('r \<Rightarrow> 'v) \<Rightarrow> (('v \<Rightarrow> 'v) \<Rightarrow> 'r \<Rightarrow> 'r) \<Rightarrow> 'r decoder" where
  "field d get upd r j = map_option (\<lambda>v. upd (\<lambda>_. v) r) (d (get r) j)"

fun dec_members :: "(string \<times> 'r decoder) list \<Rightarrow> (string \<times> json) list \<Rightarrow> 'r \<Rightarrow> 'r option" where
  "dec_members fs [] r = Some r"
| "dec_members fs ((k, v) # ms) r =
     (case find (\<lambda>f. names (fst f) k) fs of
        None \<Rightarrow> dec_members fs ms r
      | Some f \<Rightarrow> (case snd f r v of None \<Rightarrow> None | Some r' \<Rightarrow> dec_members fs ms r'))"

definition dec_struct :: "(string \<times> 'r decoder) list \<Rightarrow> 'r decoder" where
  "dec_struct fs r j = (case j of JNull \<Rightarrow> Some r | JObject ms \<Rightarrow> dec_members fs ms r | _ \<Rightarrow> None)"

definition Unmarshal :: "'a decoder \<Rightarrow> 'a \<Rightarrow> string \<Rightarrow> 'a option" where
  "Unmarshal d zero s = (case json_unmarshal s of None \<Rightarrow> None | Some j \<Rightarrow> d zero j)"

section \<open>What decoding keeps\<close>

text \<open>An invariant of a struct that every field decoder keeps on the members' values is kept.\<close>

lemma dec_members_keeps:
  assumes "dec_members fs ms r = Some r'" "P r"
    and "\<And>n d k v x y. (n, d) \<in> set fs \<Longrightarrow> (k, v) \<in> set ms \<Longrightarrow> d x v = Some y \<Longrightarrow> P x \<Longrightarrow> P y"
  shows "P r'"
  using assms
proof (induction fs ms r rule: dec_members.induct)
  case (2 fs k v ms r)
  show ?case
  proof (cases "find (\<lambda>f. names (fst f) k) fs")
    case None
    then show ?thesis using 2 by (metis dec_members.simps(2) list.set_intros(2) option.case(1))
  next
    case (Some f)
    then have f: "f \<in> set fs" by (auto simp: find_Some_iff)
    obtain x where x: "snd f r v = Some x" "dec_members fs ms x = Some r'" using "2.prems"(1) Some by (auto split: option.splits)
    have "P x" using "2.prems"(3) [of "fst f" "snd f" k v r x] f x(1) "2.prems"(2) by simp
    then show ?thesis using "2.IH"(2) [OF Some x(1) x(2)] "2.prems"(3) by (metis list.set_intros(2))
  qed
qed simp

lemma field_Some: "field d get upd r j = Some r' \<longleftrightarrow> (\<exists>v. d (get r) j = Some v \<and> r' = upd (\<lambda>_. v) r)"
  by (auto simp: field_def)

end
