(* ===== verification/Grok_Stream.thy ===== *)
theory Grok_Stream
  imports Grok_SSE Json_Decode
begin

text \<open>
  Search results of the Responses protocol (\<open>internal/grok/response.go\<close>, \<open>stream.go\<close>, the response types
  of \<open>wire.go\<close>): the citation collector, the search rounds reported while the stream runs, and the
  result built from the completed response. Rounds are returned in the order they were reported.
  The texts of JSON errors are the parameter \<open>js_Error\<close>. Shown: every result is bounded and its
  citations are distinct, rounds are numbered and at most 64, and a stream without a completed
  response gives no result.
\<close>

text \<open>
  \<open>js_Error\<close> and \<open>js_Mismatch\<close>: the text of the error of a decoder on a text, or on a value, it refuses. \<open>js_rejects\<close>: whether the scanner of a
  streaming decoder refuses the text before its end, so that the error of a broken connection is
  not reached.
\<close>

record json_lib =
  js_Error :: "string \<Rightarrow> string"
  js_Mismatch :: "json \<Rightarrow> string"
  js_rejects :: "string \<Rightarrow> bool"

section \<open>Citations\<close>

record citationCollector =
  cc_citations :: "string list"
  cc_sources :: "Source list"
  cc_seen :: "string list"
  aggregatedBytes :: int
  cc_err :: "grok_error option"

definition newCitationCollector :: citationCollector where
  "newCitationCollector = \<lparr>cc_citations = [], cc_sources = [], cc_seen = [], aggregatedBytes = 0, cc_err = None\<rparr>"

definition cc_add :: "string \<Rightarrow> string \<Rightarrow> citationCollector \<Rightarrow> citationCollector" where
  "cc_add url title c =
     (if cc_err c \<noteq> None then c
      else let url = TrimSpace url
        in if url = [] then c
           else if url \<in> set (cc_seen c) then c
           else if maxCitationCount \<le> length (cc_citations c)
           then c\<lparr>cc_err := Some (plain_error (''upstream response exceeded citation limit of '' @ Itoa (int maxCitationCount)))\<rparr>
           else let title = TrimSpace title; additionalBytes = int (length url) + int (length title)
             in if int maxAggregatedCitationBytes < additionalBytes \<or> int maxAggregatedCitationBytes - additionalBytes < aggregatedBytes c
                then c\<lparr>cc_err := Some (plain_error (''upstream response exceeded aggregated citation byte limit of '' @ Itoa (int maxAggregatedCitationBytes)))\<rparr>
                else c\<lparr>cc_seen := url # cc_seen c, aggregatedBytes := aggregatedBytes c + additionalBytes, cc_citations := cc_citations c @ [url],
                  cc_sources := cc_sources c @ [\<lparr>src_URL = url, src_Title = title\<rparr>]\<rparr>)"

fun firstNonEmptyString :: "string list \<Rightarrow> string" where
  "firstNonEmptyString [] = []"
| "firstNonEmptyString (v # vs) = (let normalizedValue = TrimSpace v in if normalizedValue \<noteq> [] then normalizedValue else firstNonEmptyString vs)"

record citationExtension =
  ce_URL :: string
  ce_URI :: string
  ce_SourceURL :: string
  ce_Title :: string
  ce_Name :: string
  ce_URLCitation :: "json option"
  ce_Citation :: "json option"
  ce_Source :: "json option"

definition zero_citationExtension :: citationExtension where
  "zero_citationExtension = \<lparr>ce_URL = [], ce_URI = [], ce_SourceURL = [], ce_Title = [], ce_Name = [], ce_URLCitation = None, ce_Citation = None, ce_Source = None\<rparr>"

definition citationExtension_fields :: "(string \<times> citationExtension decoder) list" where
  "citationExtension_fields =
     [(''url'', field dec_string ce_URL ce_URL_update), (''uri'', field dec_string ce_URI ce_URI_update),
      (''source_url'', field dec_string ce_SourceURL ce_SourceURL_update), (''title'', field dec_string ce_Title ce_Title_update),
      (''name'', field dec_string ce_Name ce_Name_update), (''url_citation'', field dec_raw ce_URLCitation ce_URLCitation_update),
      (''citation'', field dec_raw ce_Citation ce_Citation_update), (''source'', field dec_raw ce_Source ce_Source_update)]"

definition dec_citationExtension :: "citationExtension decoder" where
  "dec_citationExtension = dec_struct citationExtension_fields"

definition nested_citations :: "citationExtension \<Rightarrow> json list" where
  "nested_citations citation =
     map the (filter (\<lambda>r. r \<noteq> None \<and> r \<noteq> Some JNull) [ce_URLCitation citation, ce_Citation citation, ce_Source citation])"

lemma member_size: "(k, v) \<in> set ms \<Longrightarrow> size v < size (JObject ms)"
  by (induction ms) auto

lemma element_size: "v \<in> set vs \<Longrightarrow> size v < size (JArray vs)"
  by (induction vs) auto

lemma nested_citations_set:
  "set (nested_citations c) = {j. j \<noteq> JNull \<and> Some j \<in> {ce_URLCitation c, ce_Citation c, ce_Source c}}"
  by (auto simp: nested_citations_def image_iff)

lemma citation_field_raws:
  assumes "(n, d) \<in> set citationExtension_fields" "d x v = Some y"
  shows "set (nested_citations y) \<subseteq> insert v (set (nested_citations x))"
  using assms unfolding citationExtension_fields_def list.set nested_citations_set
  by (elim insertE emptyE) (auto simp: field_Some dec_raw_def)

lemma nested_citations_size:
  assumes "dec_citationExtension zero_citationExtension raw = Some citation" "j \<in> set (nested_citations citation)"
  shows "size j < size raw"
proof (cases raw)
  case (JObject ms)
  let ?P = "\<lambda>c. \<forall>j \<in> set (nested_citations c). size j < size raw"
  have "?P citation"
  proof (rule dec_members_keeps [where P = ?P])
    show "dec_members citationExtension_fields ms zero_citationExtension = Some citation"
      using assms(1) JObject by (simp add: dec_citationExtension_def dec_struct_def)
    show "?P zero_citationExtension" by (simp add: nested_citations_def zero_citationExtension_def)
    show "?P y" if "(n, d) \<in> set citationExtension_fields" "(k, v) \<in> set ms" "d x v = Some y" "?P x" for n d k v x y
      using citation_field_raws [OF that(1,3)] member_size [OF that(2)] that(4) JObject by auto
  qed
  then show ?thesis using assms(2) by blast
qed (use assms in \<open>auto simp: dec_citationExtension_def dec_struct_def nested_citations_def zero_citationExtension_def\<close>)

function addRaw :: "json \<Rightarrow> citationCollector \<Rightarrow> citationCollector" where
  "addRaw raw c =
     (if cc_err c \<noteq> None then c
      else case raw of
          JArray items \<Rightarrow> fold (\<lambda>item c. addRaw item c) items c
        | JString url \<Rightarrow> cc_add url [] c
        | _ \<Rightarrow>
            (case dec_citationExtension zero_citationExtension raw of
               None \<Rightarrow> c
             | Some citation \<Rightarrow>
                 let url = firstNonEmptyString [ce_URL citation, ce_URI citation, ce_SourceURL citation];
                     title = firstNonEmptyString [ce_Title citation, ce_Name citation];
                     c = (if url \<noteq> [] then cc_add url title c else c)
                 in fold (\<lambda>nestedCitation c. addRaw nestedCitation c) (nested_citations citation) c))"
  by pat_completeness auto
termination
  by (relation "measure (size \<circ> fst)") (auto dest: nested_citations_size element_size)

declare addRaw.simps [simp del]

section \<open>The completed response\<close>

record annotation =
  an_Type :: string
  an_URL :: string
  an_Title :: string

record contentBlock =
  cb_Type :: string
  cb_Text :: string
  cb_Annotations :: "annotation slice"

record outputItem =
  oi_Type :: string
  oi_Role :: string
  oi_Content :: "contentBlock slice"

record responsesResponse =
  rs_Output :: "outputItem slice"
  rs_Usage :: "json option"
  rs_Citations :: "json option"

record webSearchAction =
  wa_Query :: string
  wa_URL :: string

record streamOutputItem =
  so_ID :: string
  so_Type :: string
  so_Action :: webSearchAction
  so_Query :: string
  so_URL :: string

record streamEvent =
  ev_Type :: string
  ev_Item :: streamOutputItem
  ev_Response :: responsesResponse

text \<open>The zero values and the decoders of these types.\<close>

definition zero_annotation :: annotation where
  "zero_annotation = \<lparr>an_Type = [], an_URL = [], an_Title = []\<rparr>"

definition dec_annotation :: "annotation decoder" where
  "dec_annotation = dec_struct [(''type'', field dec_string an_Type an_Type_update), (''url'', field dec_string an_URL an_URL_update),
     (''title'', field dec_string an_Title an_Title_update)]"

definition zero_contentBlock :: contentBlock where
  "zero_contentBlock = \<lparr>cb_Type = [], cb_Text = [], cb_Annotations = ([], [])\<rparr>"

definition dec_contentBlock :: "contentBlock decoder" where
  "dec_contentBlock = dec_struct [(''type'', field dec_string cb_Type cb_Type_update), (''text'', field dec_string cb_Text cb_Text_update),
     (''annotations'', field (dec_slice zero_annotation dec_annotation) cb_Annotations cb_Annotations_update)]"

definition zero_outputItem :: outputItem where
  "zero_outputItem = \<lparr>oi_Type = [], oi_Role = [], oi_Content = ([], [])\<rparr>"

definition dec_outputItem :: "outputItem decoder" where
  "dec_outputItem = dec_struct [(''type'', field dec_string oi_Type oi_Type_update), (''role'', field dec_string oi_Role oi_Role_update),
     (''content'', field (dec_slice zero_contentBlock dec_contentBlock) oi_Content oi_Content_update)]"

definition zero_responsesResponse :: responsesResponse where
  "zero_responsesResponse = \<lparr>rs_Output = ([], []), rs_Usage = None, rs_Citations = None\<rparr>"

definition dec_responsesResponse :: "responsesResponse decoder" where
  "dec_responsesResponse = dec_struct [(''output'', field (dec_slice zero_outputItem dec_outputItem) rs_Output rs_Output_update),
     (''usage'', field dec_raw rs_Usage rs_Usage_update), (''citations'', field dec_raw rs_Citations rs_Citations_update)]"

definition dec_webSearchAction :: "webSearchAction decoder" where
  "dec_webSearchAction = dec_struct [(''query'', field dec_string wa_Query wa_Query_update), (''url'', field dec_string wa_URL wa_URL_update)]"

definition zero_streamOutputItem :: streamOutputItem where
  "zero_streamOutputItem = \<lparr>so_ID = [], so_Type = [], so_Action = \<lparr>wa_Query = [], wa_URL = []\<rparr>, so_Query = [], so_URL = []\<rparr>"

definition dec_streamOutputItem :: "streamOutputItem decoder" where
  "dec_streamOutputItem = dec_struct [(''id'', field dec_string so_ID so_ID_update), (''type'', field dec_string so_Type so_Type_update),
     (''action'', field dec_webSearchAction so_Action so_Action_update), (''query'', field dec_string so_Query so_Query_update),
     (''url'', field dec_string so_URL so_URL_update)]"

definition zero_streamEvent :: streamEvent where
  "zero_streamEvent = \<lparr>ev_Type = [], ev_Item = zero_streamOutputItem, ev_Response = zero_responsesResponse\<rparr>"

definition dec_streamEvent :: "streamEvent decoder" where
  "dec_streamEvent = dec_struct [(''type'', field dec_string ev_Type ev_Type_update), (''item'', field dec_streamOutputItem ev_Item ev_Item_update),
     (''response'', field dec_responsesResponse ev_Response ev_Response_update)]"

definition zero_Usage :: Usage where
  "zero_Usage = \<lparr>InputTokens = 0, OutputTokens = 0, TotalTokens = 0, ReasoningTokens = 0\<rparr>"

definition dec_Usage :: "Usage decoder" where
  "dec_Usage = dec_struct [(''input_tokens'', field dec_int InputTokens InputTokens_update), (''output_tokens'', field dec_int OutputTokens OutputTokens_update),
     (''total_tokens'', field dec_int TotalTokens TotalTokens_update), (''reasoning_tokens'', field dec_int ReasoningTokens ReasoningTokens_update)]"

definition parseUsage :: "json_lib \<Rightarrow> json option \<Rightarrow> grok_error + Usage option" where
  "parseUsage js raw =
     (case raw of
        None \<Rightarrow> Inr None
      | Some j \<Rightarrow>
          if j = JNull then Inr None
          else (case dec_Usage zero_Usage j of None \<Rightarrow> Inl (plain_error (''decode usage: '' @ js_Mismatch js j)) | Some usage \<Rightarrow> Inr (Some usage)))"

section \<open>Results\<close>

fun add_annotations :: "annotation list \<Rightarrow> citationCollector \<Rightarrow> citationCollector" where
  "add_annotations [] c = c"
| "add_annotations (ann # anns) c = add_annotations anns (if an_Type ann = ''url_citation'' then cc_add (an_URL ann) (an_Title ann) c else c)"

text \<open>The content blocks of all output items, in order.\<close>

fun collect_blocks :: "contentBlock list \<Rightarrow> string \<Rightarrow> citationCollector \<Rightarrow> grok_error + (string \<times> citationCollector)" where
  "collect_blocks [] answer c = Inr (answer, c)"
| "collect_blocks (block # rest) answer c =
     (let txt = TrimSpace (cb_Text block)
      in case (if txt = [] then Inr answer else if 0 < length answer then appendAnswerText answer [[newline], txt] else appendAnswerText answer [txt]) of
           Inl e \<Rightarrow> Inl e
         | Inr answer2 \<Rightarrow> collect_blocks rest answer2 (add_annotations (elems (cb_Annotations block)) c))"

definition buildSearchResult :: "json_lib \<Rightarrow> responsesResponse \<Rightarrow> string \<Rightarrow> grok_error + SearchResult" where
  "buildSearchResult js parsed rawBody =
     and_then (collect_blocks (concat (map (\<lambda>item. elems (oi_Content item)) (elems (rs_Output parsed)))) [] newCitationCollector) (\<lambda>(answer, c).
       let collector = (case rs_Citations parsed of Some (JArray rawCites) \<Rightarrow> fold addRaw rawCites c | _ \<Rightarrow> c)
       in case cc_err collector of
            Some e \<Rightarrow> Inl e
          | None \<Rightarrow>
              and_then (parseUsage js (rs_Usage parsed)) (\<lambda>usage.
                let answerText = TrimSpace answer
                in if answerText = [] then Inl (plain_error ''upstream response did not contain answer text'')
                   else Inr \<lparr>res_Answer = answerText, res_Citations = cc_citations collector, res_Sources = cc_sources collector,
                     res_Usage = usage, res_RawResponse = rawBody\<rparr>))"

section \<open>The stream\<close>

record searchRoundTracker =
  nextRound :: int
  rt_seen :: "string list"

definition newSearchRoundTracker :: searchRoundTracker where
  "newSearchRoundTracker = \<lparr>nextRound = 0, rt_seen = []\<rparr>"

definition isSearchCallItem :: "string \<Rightarrow> bool" where
  "isSearchCallItem itemType \<longleftrightarrow> itemType = ''web_search_call'' \<or> itemType = ''x_search_call''"

text \<open>The rounds reported so far are carried along.\<close>

definition emitSearchRound ::
  "string \<Rightarrow> streamOutputItem \<Rightarrow> searchRoundTracker \<times> SearchRound list \<Rightarrow> (searchRoundTracker \<times> SearchRound list) called" where
  "emitSearchRound eventType item st =
     (let (t, rounds) = st
      in if eventType \<noteq> ''response.output_item.done'' \<or> \<not> isSearchCallItem (so_Type item) then (st, None)
         else let itemType = so_Type item;
                  query = firstNonEmptyString [wa_Query (so_Action item), so_Query item];
                  url = firstNonEmptyString [wa_URL (so_Action item), so_URL item];
                  eventID = so_ID item;
                  deduplicationKey = (if eventID = [] then itemType @ CHR 0x00 # query @ CHR 0x00 # url else eventID)
           in if deduplicationKey \<in> set (rt_seen t) then (st, None)
              else if int maxSearchRoundCount \<le> nextRound t
              then (st, Some (plain_error (''upstream stream exceeded search round limit of '' @ Itoa (int maxSearchRoundCount))))
              else let t = t\<lparr>rt_seen := deduplicationKey # rt_seen t, nextRound := nextRound t + 1\<rparr>
                in ((t, rounds @ [\<lparr>rd_Round = nextRound t, rd_Query = query, rd_URL = url\<rparr>]), None))"

record search_stream =
  completedBody :: string
  searchRounds :: "searchRoundTracker \<times> SearchRound list"

definition search_event :: "json_lib \<Rightarrow> search_stream \<Rightarrow> string \<Rightarrow> search_stream called" where
  "search_event js st payload =
     (case Unmarshal dec_streamEvent zero_streamEvent payload of
        None \<Rightarrow> (st, Some (plain_error (''decode stream event: '' @ js_Error js payload)))
      | Some event \<Rightarrow>
          if ev_Type event = ''response.output_item.done''
          then (case emitSearchRound (ev_Type event) (ev_Item event) (searchRounds st) of (sr, e) \<Rightarrow> (st\<lparr>searchRounds := sr\<rparr>, e))
          else if ev_Type event = ''response.completed'' then (st\<lparr>completedBody := payload\<rparr>, None)
          else if ev_Type event = ''error'' then (st, Some (newUpstreamStreamError ''responses'' (ev_Type event) (length payload)))
          else (st, None))"

definition parseSearchStream :: "json_lib \<Rightarrow> stream_body \<Rightarrow> SearchRound list \<times> (grok_error + SearchResult)" where
  "parseSearchStream js body =
     (let (st, err) = forEachSSEEvent body (search_event js) \<lparr>completedBody = [], searchRounds = (newSearchRoundTracker, [])\<rparr>
      in (snd (searchRounds st),
          case err of
            Some e \<Rightarrow> Inl e
          | None \<Rightarrow>
              if completedBody st = [] then Inl (plain_error ''upstream stream ended without response.completed event'')
              else (case Unmarshal dec_streamEvent zero_streamEvent (completedBody st) of
                  None \<Rightarrow> Inl (plain_error (''decode response.completed: '' @ js_Error js (completedBody st)))
                | Some completed \<Rightarrow> buildSearchResult js (ev_Response completed) (completedBody st))))"

section \<open>Bounded results\<close>

definition source_bytes :: "Source list \<Rightarrow> int" where
  "source_bytes ss = sum_list (map (\<lambda>s. int (length (src_URL s)) + int (length (src_Title s))) ss)"

text \<open>Citations as a result carries them.\<close>

definition citations_ok :: "string list \<Rightarrow> Source list \<Rightarrow> bool" where
  "citations_ok cs ss \<longleftrightarrow> distinct cs \<and> length cs \<le> maxCitationCount \<and> map src_URL ss = cs \<and> source_bytes ss \<le> int maxAggregatedCitationBytes \<and>
     list_all (\<lambda>u. u \<noteq> [] \<and> TrimSpace u = u) cs"

definition collector_ok :: "citationCollector \<Rightarrow> bool" where
  "collector_ok c \<longleftrightarrow> citations_ok (cc_citations c) (cc_sources c) \<and> set (cc_seen c) = set (cc_citations c) \<and>
     aggregatedBytes c = source_bytes (cc_sources c) \<and> (case cc_err c of None \<Rightarrow> True | Some e \<Rightarrow> internal_error e)"

lemma collector_ok_new: "collector_ok newCitationCollector"
  by (simp add: collector_ok_def citations_ok_def newCitationCollector_def source_bytes_def)

lemma collector_ok_err: "collector_ok c \<Longrightarrow> collector_ok (c\<lparr>cc_err := Some (plain_error m)\<rparr>)"
  by (simp add: collector_ok_def)

lemma collector_err: "collector_ok c \<Longrightarrow> cc_err c = Some e \<Longrightarrow> internal_error e"
  by (simp add: collector_ok_def)

lemma cc_add_ok: "collector_ok c \<Longrightarrow> collector_ok (cc_add url title c)"
  by (auto simp: cc_add_def Let_def collector_ok_err) (auto simp: collector_ok_def citations_ok_def source_bytes_def)

text \<open>What an object, or a value that is no array and no string, adds.\<close>

definition object_citations :: "json \<Rightarrow> citationCollector \<Rightarrow> citationCollector" where
  "object_citations raw c =
     (case dec_citationExtension zero_citationExtension raw of
        None \<Rightarrow> c
      | Some citation \<Rightarrow>
          let url = firstNonEmptyString [ce_URL citation, ce_URI citation, ce_SourceURL citation];
              title = firstNonEmptyString [ce_Title citation, ce_Name citation];
              c = (if url \<noteq> [] then cc_add url title c else c)
          in fold (\<lambda>nestedCitation c. addRaw nestedCitation c) (nested_citations citation) c)"

lemma addRaw_cases:
  "addRaw raw c =
     (if cc_err c \<noteq> None then c
      else case raw of JArray items \<Rightarrow> fold (\<lambda>item c. addRaw item c) items c | JString url \<Rightarrow> cc_add url [] c | _ \<Rightarrow> object_citations raw c)"
  by (subst addRaw.simps) (simp only: object_citations_def)

lemma fold_keeps:
  assumes "\<And>j c. j \<in> set js \<Longrightarrow> P c \<Longrightarrow> P (f j c)" "P c"
  shows "P (fold f js c)"
  using assms by (induction js arbitrary: c) auto

lemma addRaw_ok: "collector_ok c \<Longrightarrow> collector_ok (addRaw raw c)"
proof (induction "size raw" arbitrary: raw c rule: less_induct)
  case less
  have object: "collector_ok (object_citations raw c)"
  proof (cases "dec_citationExtension zero_citationExtension raw")
    case (Some citation)
    have "collector_ok (fold (\<lambda>nestedCitation c. addRaw nestedCitation c) (nested_citations citation) c')" if "collector_ok c'" for c'
      by (rule fold_keeps) (use that less(1) nested_citations_size [OF Some] in auto)
    then show ?thesis using less(2) by (simp add: object_citations_def Some Let_def cc_add_ok)
  qed (use less(2) in \<open>simp add: object_citations_def\<close>)
  have array: "collector_ok (fold (\<lambda>item c. addRaw item c) items c)" if "raw = JArray items" for items
    by (rule fold_keeps) (use that less element_size in auto)
  show ?case by (cases raw) (subst addRaw_cases, use less(2) object array in \<open>simp add: cc_add_ok\<close>)+
qed

lemma fold_addRaw_ok: "collector_ok c \<Longrightarrow> collector_ok (fold addRaw js c)"
  by (induction js arbitrary: c) (auto simp: addRaw_ok)

lemma add_annotations_ok: "collector_ok c \<Longrightarrow> collector_ok (add_annotations anns c)"
  by (induction anns c rule: add_annotations.induct) (auto simp: cc_add_ok)

lemma collect_blocks_ok:
  "collect_blocks bs answer c = Inr (answer', c') \<Longrightarrow> collector_ok c \<Longrightarrow> length answer \<le> maxAggregatedAnswerBytes \<Longrightarrow>
     collector_ok c' \<and> length answer' \<le> maxAggregatedAnswerBytes"
  by (induction bs answer c rule: collect_blocks.induct)
    (auto simp: Let_def add_annotations_ok dest: appendAnswerText_Inr split: sum.splits if_splits)

definition result_ok :: "SearchResult \<Rightarrow> bool" where
  "result_ok res \<longleftrightarrow> res_Answer res \<noteq> [] \<and> TrimSpace (res_Answer res) = res_Answer res \<and> length (res_Answer res) \<le> maxAggregatedAnswerBytes \<and>
     citations_ok (res_Citations res) (res_Sources res)"

lemma collect_blocks_err: "collect_blocks bs answer c = Inl e \<Longrightarrow> internal_error e"
  by (induction bs answer c rule: collect_blocks.induct) (auto simp: Let_def dest: appendAnswerText_Inl split: sum.splits if_splits)

lemma parseUsage_err: "parseUsage js raw = Inl e \<Longrightarrow> internal_error e"
  by (auto simp: parseUsage_def split: option.splits if_splits)

lemma buildSearchResult_err:
  assumes "buildSearchResult js parsed rawBody = Inl e"
  shows "internal_error e"
proof (cases "collect_blocks (concat (map (\<lambda>item. elems (oi_Content item)) (elems (rs_Output parsed)))) [] newCitationCollector")
  case (Inl x)
  then show ?thesis using assms collect_blocks_err by (auto simp: buildSearchResult_def)
next
  case (Inr ac)
  obtain answer c where ac: "ac = (answer, c)" by fastforce
  define collector where "collector = (case rs_Citations parsed of Some (JArray rawCites) \<Rightarrow> fold addRaw rawCites c | _ \<Rightarrow> c)"
  have "collector_ok c" using collect_blocks_ok [OF Inr [unfolded ac]] by (simp add: collector_ok_new)
  then have "collector_ok collector" unfolding collector_def by (auto simp: fold_addRaw_ok split: option.split json.split)
  then show ?thesis using assms collector_err [of collector] parseUsage_err
    unfolding buildSearchResult_def Inr ac and_then_simps Let_def prod.case collector_def [symmetric]
    by (auto simp: and_then_def split: option.splits sum.splits if_splits)
qed

lemma buildSearchResult_ok:
  assumes "buildSearchResult js parsed rawBody = Inr res"
  shows "result_ok res" "res_RawResponse res = rawBody"
proof -
  obtain answer c collector where b: "collect_blocks (concat (map (\<lambda>item. elems (oi_Content item)) (elems (rs_Output parsed)))) [] newCitationCollector = Inr (answer, c)"
    and col: "collector = (case rs_Citations parsed of Some (JArray rawCites) \<Rightarrow> fold addRaw rawCites c | _ \<Rightarrow> c)"
    and res: "TrimSpace answer \<noteq> []" "res_Answer res = TrimSpace answer" "res_Citations res = cc_citations collector" "res_Sources res = cc_sources collector"
      "res_RawResponse res = rawBody"
    using assms by (auto simp: buildSearchResult_def and_then_Inr Let_def split: option.splits json.splits if_splits)
  have "collector_ok c" "length answer \<le> maxAggregatedAnswerBytes"
    using collect_blocks_ok [OF b] by (auto simp: collector_ok_new)
  moreover then have "collector_ok collector" unfolding col by (auto simp: fold_addRaw_ok split: option.split json.split)
  ultimately show "result_ok res" using res TrimSpace_length [of answer] by (auto simp: result_ok_def collector_ok_def)
  show "res_RawResponse res = rawBody" by (rule res)
qed

text \<open>Rounds are numbered from 1 without gaps, and there are at most 64.\<close>

definition rounds_ok :: "SearchRound list \<Rightarrow> bool" where
  "rounds_ok rounds \<longleftrightarrow> map rd_Round rounds = map int [1..<length rounds + 1] \<and> length rounds \<le> maxSearchRoundCount"

definition tracker_ok :: "searchRoundTracker \<times> SearchRound list \<Rightarrow> bool" where
  "tracker_ok st \<longleftrightarrow> nextRound (fst st) = int (length (snd st)) \<and> rounds_ok (snd st)"

lemma tracker_ok_new: "tracker_ok (newSearchRoundTracker, [])"
  by (simp add: tracker_ok_def newSearchRoundTracker_def rounds_ok_def)

lemma emitSearchRound_ok: "emitSearchRound eventType item st = (st', e) \<Longrightarrow> tracker_ok st \<Longrightarrow> tracker_ok st'"
  by (cases st) (auto simp: emitSearchRound_def Let_def tracker_ok_def rounds_ok_def split: if_splits)

lemma emitSearchRound_err: "snd (emitSearchRound eventType item st) = Some e \<Longrightarrow> internal_error e"
  by (auto simp: emitSearchRound_def Let_def split: prod.splits if_splits)

lemma search_event_err: "snd (search_event js st p) = Some e \<Longrightarrow> internal_error e"
proof (cases "Unmarshal dec_streamEvent zero_streamEvent p")
  case (Some event)
  assume "snd (search_event js st p) = Some e"
  then show "internal_error e"
    using emitSearchRound_err [of "ev_Type event" "ev_Item event" "searchRounds st" e] Some
    by (auto simp: search_event_def split: prod.splits if_splits)
qed (auto simp: search_event_def)

interpretation search_stream_consumer: sse_error_consumer "search_event js" "\<lambda>u. (u, None)" "\<lambda>st. tracker_ok (searchRounds st)" internal_error
proof unfold_locales
  show "tracker_ok (searchRounds (fst (search_event js u p)))" if "tracker_ok (searchRounds u)" for u p
    using that by (auto simp: search_event_def dest: emitSearchRound_ok split: option.splits prod.splits)
qed (simp_all add: search_event_err)

section \<open>The Responses protocol\<close>

definition event_type :: "string \<Rightarrow> string option" where
  "event_type payload = map_option ev_Type (Unmarshal dec_streamEvent zero_streamEvent payload)"

definition completed_payloads :: "string list \<Rightarrow> string list" where
  "completed_payloads ps = filter (\<lambda>p. event_type p = Some ''response.completed'') ps"

lemma done_no_event: "event_type ''[DONE]'' = None"
  by code_simp

lemma search_event_success:
  assumes "search_event js st p = (st', None)"
  shows "event_type p \<noteq> None" "event_type p \<noteq> Some ''error''"
    "completedBody st' = (if event_type p = Some ''response.completed'' then p else completedBody st)"
  using assms by (auto simp: search_event_def event_type_def split: option.splits if_splits prod.splits)

lemma deliver_search:
  "deliver (search_event js) (\<lambda>u. (u, None)) ps st = (st', None) \<Longrightarrow>
     completedBody st' = last (completedBody st # completed_payloads ps) \<and> Some ''error'' \<notin> event_type ` set ps"
proof (induction ps arbitrary: st)
  case (Cons p ps)
  show ?case
  proof (cases "p = ''[DONE]''")
    case True
    then show ?thesis using Cons by (auto simp: completed_payloads_def done_no_event)
  next
    case False
    then obtain st1 where st1: "search_event js st p = (st1, None)" "deliver (search_event js) (\<lambda>u. (u, None)) ps st1 = (st', None)"
      using Cons.prems by (auto split: prod.splits option.splits)
    show ?thesis using Cons.IH [OF st1(2)] search_event_success [OF st1(1)] by (auto simp: completed_payloads_def)
  qed
qed (simp add: completed_payloads_def)

lemma rounds_always: "rounds_ok (fst (parseSearchStream js body))"
proof -
  have "tracker_ok (searchRounds (fst (forEachSSEEvent body (search_event js) \<lparr>completedBody = [], searchRounds = (newSearchRoundTracker, [])\<rparr>)))"
    unfolding forEachSSEEvent_def by (rule search_stream_consumer.reader_inv) (simp add: tracker_ok_new)
  then show ?thesis by (auto simp: parseSearchStream_def tracker_ok_def split: prod.splits)
qed

lemma search_stream:
  assumes "parseSearchStream js body = (rounds, Inr res)"
  shows "within_limits body \<and> Some ''error'' \<notin> event_type ` set (sse_payloads (body_lines (sb_bytes body))) \<and>
    completed_payloads (sse_payloads (body_lines (sb_bytes body))) \<noteq> [] \<and>
    res_RawResponse res = last (completed_payloads (sse_payloads (body_lines (sb_bytes body)))) \<and> result_ok res \<and> rounds_ok rounds"
proof -
  obtain st where run: "forEachSSEEvent body (search_event js) \<lparr>completedBody = [], searchRounds = (newSearchRoundTracker, [])\<rparr> = (st, None)"
    using assms by (auto simp: parseSearchStream_def split: prod.splits option.splits)
  have some: "completedBody st \<noteq> []" using assms unfolding parseSearchStream_def run by (auto split: if_splits)
  then obtain completed :: streamEvent where c: "buildSearchResult js (ev_Response completed) (completedBody st) = Inr res"
    using assms unfolding parseSearchStream_def run by (auto split: option.splits)
  note read = sse_reader_success [OF run [unfolded forEachSSEEvent_def]]
  note d = deliver_search [OF read(2)]
  have ne: "completed_payloads (sse_payloads (body_lines (sb_bytes body))) \<noteq> []" using d some by auto
  have raw: "res_RawResponse res = last (completed_payloads (sse_payloads (body_lines (sb_bytes body))))"
    using d ne buildSearchResult_ok(2) [OF c] by simp
  have rounds: "rounds_ok rounds" using rounds_always [of js body] assms by simp
  show ?thesis using read(1) d ne raw rounds buildSearchResult_ok(1) [OF c] by blast
qed

lemma parseSearchStream_err: "parseSearchStream js body = (rounds, Inl e) \<Longrightarrow> internal_error e"
  using search_stream_consumer.reader_err [of "\<lparr>completedBody = [], searchRounds = (newSearchRoundTracker, [])\<rparr>" body js e] tracker_ok_new
  by (auto simp: parseSearchStream_def forEachSSEEvent_def dest: buildSearchResult_err split: prod.splits option.splits if_splits)

text \<open>
  Responses streams. A search over the Responses protocol returns a result only if the whole
  stream was read within the limits, no event reported an error and a completed response arrived; the
  result is built from the last one, and its answer, its distinct citations and its rounds are bounded.
\<close>

theorem search_stream_sound:
  assumes "parseSearchStream js body = (rounds, Inr res)"
  shows "within_limits body \<and> Some ''error'' \<notin> event_type ` set (sse_payloads (body_lines (sb_bytes body))) \<and>
    completed_payloads (sse_payloads (body_lines (sb_bytes body))) \<noteq> [] \<and>
    res_RawResponse res = last (completed_payloads (sse_payloads (body_lines (sb_bytes body)))) \<and> result_ok res \<and> rounds_ok rounds"
  by (rule search_stream [OF assms])

definition demo_stream :: stream_body where
  "demo_stream = \<lparr>sb_bytes = ''data: {\"type\":\"response.completed\",\"response\":{\"output\":[{\"content\":[{\"text\":\"42\"}]}]}}'' @ [newline, newline],
     sb_error = None\<rparr>"

definition demo_json_lib :: json_lib where
  "demo_json_lib = \<lparr>js_Error = (\<lambda>_. []), js_Mismatch = (\<lambda>_. []), js_rejects = (\<lambda>_. True)\<rparr>"

definition demo_result :: SearchResult where
  "demo_result = \<lparr>res_Answer = ''42'', res_Citations = [], res_Sources = [], res_Usage = None,
     res_RawResponse = ''{\"type\":\"response.completed\",\"response\":{\"output\":[{\"content\":[{\"text\":\"42\"}]}]}}''\<rparr>"

lemma demo_payloads: "sse_payloads (body_lines (sb_bytes demo_stream)) = [res_RawResponse demo_result]"
  by code_simp

lemma demo_within_limits: "within_limits demo_stream"
proof -
  have "Split newline (sb_bytes demo_stream) = [''data: '' @ res_RawResponse demo_result, [], []]" by code_simp
  moreover have "length (res_RawResponse demo_result) < 100" "length (sb_bytes demo_stream) < 100" by code_simp+
  ultimately show ?thesis unfolding within_limits_def demo_payloads
    by (simp add: maxSSELineBytes_def maxSSEEventBytes_def maxSSEEventCount_def maxUpstreamResponseBytes_def) (simp add: demo_stream_def)
qed

lemma demo_stream_parsed: "parseSearchStream demo_json_lib demo_stream = ([], Inr demo_result)"
proof -
  let ?raw = "res_RawResponse demo_result"
  let ?st = "\<lparr>completedBody = [], searchRounds = (newSearchRoundTracker, [])\<rparr>"
  have event: "search_event demo_json_lib ?st ?raw = (?st\<lparr>completedBody := ?raw\<rparr>, None)" "?raw \<noteq> ''[DONE]''" "?raw \<noteq> []" by code_simp+
  have build: "map_option (\<lambda>completed. buildSearchResult demo_json_lib (ev_Response completed) ?raw) (Unmarshal dec_streamEvent zero_streamEvent ?raw) =
      Some (Inr demo_result)" by code_simp
  have "forEachSSEEvent demo_stream (search_event demo_json_lib) ?st = deliver (search_event demo_json_lib) (\<lambda>u. (u, None)) [?raw] ?st"
    using sse_reader [of demo_stream "search_event demo_json_lib" "\<lambda>u. (u, None)" ?st] demo_within_limits unfolding forEachSSEEvent_def demo_payloads by argo
  also have "\<dots> = (?st\<lparr>completedBody := ?raw\<rparr>, None)" using event by simp
  finally show ?thesis using build event(3) unfolding parseSearchStream_def by (auto split: option.splits)
qed

theorem search_stream_sound_witness: "within_limits demo_stream \<and> rounds_ok [] \<and> result_ok demo_result"
  using search_stream_sound [OF demo_stream_parsed] by blast

end
