(* ===== verification/Grok_Chat.thy ===== *)
theory Grok_Chat
  imports Grok_Stream
begin

text \<open>
  The Chat Completions protocol (\<open>internal/grok/chat_completions.go\<close>): its request, the recognition of an
  event stream by the first bytes of a body, the decoding of either form and the parsing of a response.
  The number of bytes the buffered readers had taken from the body when parsing stopped early is a
  parameter. Shown: recognition loses no byte, a stream counts only with its end marker, and every
  result is bounded.
\<close>

section \<open>Requests\<close>

definition maxChatContinuationAttempts :: nat where "maxChatContinuationAttempts = 2"
definition chatCompletionsProtocolName :: string where "chatCompletionsProtocolName = ''chat_completions''"
definition chatFinalAnswerInstruction :: string where
  "chatFinalAnswerInstruction = ''Complete the requested research and return the final answer now. Do not only describe that you are searching, researching, checking, or preparing an answer.''"

record chatMessage =
  cg_Role :: string
  cg_Content :: string

record chatSearchSource =
  css_Type :: string
  css_AllowedWebsites :: "string list"
  css_ExcludedWebsites :: "string list"

record chatSearchParameters =
  csp_Mode :: string
  csp_ReturnCitations :: bool
  csp_Sources :: "chatSearchSource list"

record chatStreamOptions =
  cso_IncludeUsage :: bool

record chatCompletionsRequest =
  cr_Model :: string
  cr_Messages :: "chatMessage list"
  cr_Stream :: bool
  cr_StreamOptions :: chatStreamOptions
  cr_SearchParameters :: chatSearchParameters

definition buildChatCompletionsRequest :: "config_lib \<Rightarrow> SearchRequest \<Rightarrow> string \<Rightarrow> grok_error + chatCompletionsRequest" where
  "buildChatCompletionsRequest lib req defaultModel =
     and_then (resolveSearchModel lib (sr_Model req) defaultModel) (\<lambda>model.
       let searchSource = (if sr_ToolType req = ToolTypeWebSearch
             then \<lparr>css_Type = ''web'', css_AllowedWebsites = sr_AllowedDomains req, css_ExcludedWebsites = sr_ExcludedDomains req\<rparr>
             else \<lparr>css_Type = ''x'', css_AllowedWebsites = [], css_ExcludedWebsites = []\<rparr>)
       in Inr \<lparr>cr_Model = model, cr_Messages = [\<lparr>cg_Role = ''user'', cg_Content = sr_Query req\<rparr>], cr_Stream = True,
         cr_StreamOptions = \<lparr>cso_IncludeUsage = True\<rparr>,
         cr_SearchParameters = \<lparr>csp_Mode = ''on'', csp_ReturnCitations = True, csp_Sources = [searchSource]\<rparr>\<rparr>)"

section \<open>Intermediate answers\<close>

text \<open>The phrases, the Chinese ones in UTF-8.\<close>

definition intermediatePhrases :: "string list" where
  "intermediatePhrases =
    [[CHR 0xE6, CHR 0xAD, CHR 0xA3, CHR 0xE5, CHR 0x9C, CHR 0xA8, CHR 0xE6, CHR 0xA3, CHR 0x80, CHR 0xE7, CHR 0xB4, CHR 0xA2],
     [CHR 0xE6, CHR 0xAD, CHR 0xA3, CHR 0xE5, CHR 0x9C, CHR 0xA8, CHR 0xE6, CHR 0x90, CHR 0x9C, CHR 0xE7, CHR 0xB4, CHR 0xA2],
     [CHR 0xE6, CHR 0xAD, CHR 0xA3, CHR 0xE5, CHR 0x9C, CHR 0xA8, CHR 0xE6, CHR 0x9F, CHR 0xA5, CHR 0xE8, CHR 0xAF, CHR 0xA2],
     [CHR 0xE6, CHR 0xAD, CHR 0xA3, CHR 0xE5, CHR 0x9C, CHR 0xA8, CHR 0xE6, CHR 0x9F, CHR 0xA5, CHR 0xE6, CHR 0x89, CHR 0xBE],
     [CHR 0xE6, CHR 0xAD, CHR 0xA3, CHR 0xE5, CHR 0x9C, CHR 0xA8, CHR 0xE6, CHR 0x9F, CHR 0xA5, CHR 0xE9, CHR 0x98, CHR 0x85],
     [CHR 0xE6, CHR 0xAD, CHR 0xA3, CHR 0xE5, CHR 0x9C, CHR 0xA8, CHR 0xE9, CHR 0x98, CHR 0x85, CHR 0xE8, CHR 0xAF, CHR 0xBB],
     [CHR 0xE6, CHR 0xAD, CHR 0xA3, CHR 0xE5, CHR 0x9C, CHR 0xA8, CHR 0xE6, CHR 0xB5, CHR 0x8F, CHR 0xE8, CHR 0xA7, CHR 0x88],
     [CHR 0xE6, CHR 0xAD, CHR 0xA3, CHR 0xE5, CHR 0x9C, CHR 0xA8, CHR 0xE6, CHR 0xA0, CHR 0xB8, CHR 0xE9, CHR 0xAA, CHR 0x8C],
     [CHR 0xE6, CHR 0xAD, CHR 0xA3, CHR 0xE5, CHR 0x9C, CHR 0xA8, CHR 0xE6, CHR 0x94, CHR 0xB6, CHR 0xE9, CHR 0x9B, CHR 0x86],
     [CHR 0xE6, CHR 0x8E, CHR 0xA5, CHR 0xE4, CHR 0xB8, CHR 0x8B, CHR 0xE6, CHR 0x9D, CHR 0xA5, CHR 0xE6, CHR 0x88, CHR 0x91, CHR 0xE4, CHR 0xBC, CHR 0x9A],
     [CHR 0xE4, CHR 0xBB, CHR 0xA5, CHR 0xE4, CHR 0xBE, CHR 0xBF, CHR 0xE4, CHR 0xBA, CHR 0xA4, CHR 0xE5, CHR 0x8F, CHR 0x89, CHR 0xE6, CHR 0xA0, CHR 0xB8, CHR 0xE9, CHR 0xAA, CHR 0x8C],
     ''let me search'',
     ''i will search'',
     ''i'' @ [CHR 0x27] @ ''ll search'',
     ''i am searching'',
     ''i'' @ [CHR 0x27] @ ''m searching'',
     ''searching for'',
     ''researching the'',
     ''i will research'',
     ''i'' @ [CHR 0x27] @ ''ll research'',
     ''checking the official'',
     ''gathering information'']"

text \<open>\<open>range\<close> over a string counts an invalid byte as a character.\<close>

function rune_count :: "string \<Rightarrow> nat" where
  "rune_count s = (if s = [] then 0 else Suc (rune_count (drop (max 1 (utf8_len s)) s)))"
  by pat_completeness auto
termination
  by (relation "measure length") auto

declare rune_count.simps [simp del]

definition exceedsRuneLimit :: "string \<Rightarrow> nat \<Rightarrow> bool" where
  "exceedsRuneLimit v maximumRunes \<longleftrightarrow> maximumRunes < rune_count v"

definition isChatIntermediateAnswer :: "config_lib \<Rightarrow> string \<Rightarrow> bool" where
  "isChatIntermediateAnswer lib answer =
     (let trimmedAnswer = TrimSpace answer
      in if trimmedAnswer = [] \<or> exceedsRuneLimit trimmedAnswer 320 then False
         else let normalizedAnswer = lib_ToLower lib trimmedAnswer
           in list_ex (\<lambda>phrase. str_Contains normalizedAnswer phrase) intermediatePhrases)"

section \<open>Recognising an event stream\<close>

text \<open>What is left of the body, and what has been inspected.\<close>

fun readFirstNonWhitespaceByte :: "string \<Rightarrow> string \<Rightarrow> char option \<times> string \<times> string" where
  "readFirstNonWhitespaceByte [] inspectedPrefix = (None, [], inspectedPrefix)"
| "readFirstNonWhitespaceByte (v # rest) inspectedPrefix =
     (if v \<noteq> CHR '' '' \<and> v \<noteq> CHR 0x09 \<and> v \<noteq> CHR 0x0D \<and> v \<noteq> newline then (Some v, rest, inspectedPrefix @ [v])
      else readFirstNonWhitespaceByte rest (inspectedPrefix @ [v]))"

text \<open>Whether the bytes matched, whether the body ended before.\<close>

fun captureExpectedBytes :: "string \<Rightarrow> string \<Rightarrow> string \<Rightarrow> bool \<times> bool \<times> string \<times> string" where
  "captureExpectedBytes rest inspectedPrefix [] = (True, False, rest, inspectedPrefix)"
| "captureExpectedBytes [] inspectedPrefix (c # expected) = (False, True, [], inspectedPrefix)"
| "captureExpectedBytes (v # rest) inspectedPrefix (c # expected) =
     (if v \<noteq> c then (False, False, rest, inspectedPrefix @ [v]) else captureExpectedBytes rest (inspectedPrefix @ [v]) expected)"

lemma readFirst_parts:
  "readFirstNonWhitespaceByte rest p = (c, rest', p') \<Longrightarrow> p' @ rest' = p @ rest \<and> (c \<noteq> None \<longrightarrow> length rest' < length rest) \<and> (c = None \<longrightarrow> rest' = [])"
  by (induction rest p rule: readFirstNonWhitespaceByte.induct) (auto split: if_splits)

lemma capture_parts:
  "captureExpectedBytes rest p expected = (matched, atEnd, rest', p') \<Longrightarrow> p' @ rest' = p @ rest \<and> length rest' \<le> length rest \<and> (atEnd \<longrightarrow> rest' = [])"
  by (induction rest p expected rule: captureExpectedBytes.induct) (auto split: if_splits)

definition inspect_error :: "io_error \<Rightarrow> grok_error" where
  "inspect_error e = Errorf ''inspect chat completions response'' (Some e)"

text \<open>One round of the loop: a verdict, or what is left to inspect. A verdict names the content to read from.\<close>

definition at_end :: "io_error option \<Rightarrow> string \<Rightarrow> grok_error + (string \<times> bool)" where
  "at_end readErr inspectedPrefix = (case readErr of None \<Rightarrow> Inr (inspectedPrefix, False) | Some e \<Rightarrow> Inl (inspect_error e))"

definition inspect_line ::
  "io_error option \<Rightarrow> bool \<Rightarrow> char \<Rightarrow> string \<Rightarrow> string \<Rightarrow> (grok_error + (string \<times> bool)) + (string \<times> string)" where
  "inspect_line readErr checkedStreamPrefix firstNonWhitespaceByte rest inspectedPrefix =
     (let line = takeWhile (\<lambda>c. c \<noteq> newline) rest;
          lineRemainder = take (Suc (length line)) rest;
          rest' = drop (Suc (length line)) rest;
          inspectedPrefix' = inspectedPrefix @ lineRemainder;
          trimmedLine = TrimSpace (utf8_encode (of_char firstNonWhitespaceByte) @ lineRemainder)
      in if \<not> checkedStreamPrefix \<and> (HasPrefix trimmedLine ''data:'' \<or> HasPrefix trimmedLine ''event:'') then Inl (Inr (inspectedPrefix' @ rest', True))
         else if \<not> checkedStreamPrefix \<and> (HasPrefix trimmedLine [CHR 0x7B] \<or> HasPrefix trimmedLine ''['') then Inl (Inr (inspectedPrefix' @ rest', False))
         else if length line < length rest then Inr (rest', inspectedPrefix')
         else Inl (at_end readErr inspectedPrefix'))"

definition identify_round :: "io_error option \<Rightarrow> string \<Rightarrow> string \<Rightarrow> (grok_error + (string \<times> bool)) + (string \<times> string)" where
  "identify_round readErr rest inspectedPrefix =
     (case readFirstNonWhitespaceByte rest inspectedPrefix of
        (None, rest1, p1) \<Rightarrow> Inl (at_end readErr p1)
      | (Some c, rest1, p1) \<Rightarrow>
          if c = CHR 0x7B \<or> c = CHR ''['' then Inl (Inr (p1 @ rest1, False))
          else if c = CHR ''d'' \<or> c = CHR ''e''
          then (case captureExpectedBytes rest1 p1 (if c = CHR ''e'' then ''vent:'' else ''ata:'') of
              (matched, reachedEnd, rest2, p2) \<Rightarrow>
                if matched then Inl (Inr (p2 @ rest2, True))
                else if reachedEnd then Inl (at_end readErr p2)
                else inspect_line readErr True c rest2 p2)
          else inspect_line readErr False c rest1 p1)"

lemma inspect_line_parts:
  "inspect_line readErr checked c rest p = Inr (rest', p') \<Longrightarrow> p' @ rest' = p @ rest \<and> length rest' < length rest"
  "inspect_line readErr checked c rest p = Inl (Inr (content, sse)) \<Longrightarrow> content = p @ rest"
  by (auto simp: inspect_line_def Let_def at_end_def split: if_splits option.splits)

lemma identify_round_parts:
  assumes "identify_round readErr rest p = r"
  shows "r = Inr (rest', p') \<Longrightarrow> p' @ rest' = p @ rest \<and> length rest' < length rest"
    and "r = Inl (Inr (content, sse)) \<Longrightarrow> content = p @ rest"
proof -
  obtain c rest1 p1 where first: "readFirstNonWhitespaceByte rest p = (c, rest1, p1)" by (cases "readFirstNonWhitespaceByte rest p") auto
  obtain matched e rest2 p2 where capture: "captureExpectedBytes rest1 p1 (if the c = CHR ''e'' then ''vent:'' else ''ata:'') = (matched, e, rest2, p2)"
    by (cases "captureExpectedBytes rest1 p1 (if the c = CHR ''e'' then ''vent:'' else ''ata:'')") auto
  note parts = readFirst_parts [OF first] capture_parts [OF capture]
  show "p' @ rest' = p @ rest \<and> length rest' < length rest" if "r = Inr (rest', p')"
    using assms parts first capture that unfolding identify_round_def
    by (auto split: option.splits if_splits dest!: inspect_line_parts(1))
  show "content = p @ rest" if "r = Inl (Inr (content, sse))"
    using assms parts first capture that unfolding identify_round_def
    by (auto simp: at_end_def split: option.splits if_splits dest!: inspect_line_parts(2))
qed

function identify_chat :: "io_error option \<Rightarrow> string \<Rightarrow> string \<Rightarrow> grok_error + (string \<times> bool)" where
  "identify_chat readErr rest inspectedPrefix =
     (case identify_round readErr rest inspectedPrefix of
        Inl verdict \<Rightarrow> verdict
      | Inr (rest', inspectedPrefix') \<Rightarrow> identify_chat readErr rest' inspectedPrefix')"
  by pat_completeness auto
termination
  by (relation "measure (\<lambda>(readErr, rest, p). length rest)") (auto dest: identify_round_parts(1))

declare identify_chat.simps [simp del]

text \<open>The content the response is read from, and whether it is an event stream.\<close>

definition identifyChatCompletionsResponse :: "stream_body \<Rightarrow> grok_error + (string \<times> bool)" where
  "identifyChatCompletionsResponse body = identify_chat (sb_error body) (sb_bytes body) []"

lemma identify_chat_content: "identify_chat readErr rest p = Inr (content, sse) \<Longrightarrow> content = p @ rest"
proof (induction readErr rest p rule: identify_chat.induct)
  case (1 readErr rest p)
  show ?case
  proof (cases "identify_round readErr rest p")
    case (Inl v)
    then show ?thesis using 1(2) identify_round_parts(2) by (subst (asm) identify_chat.simps) auto
  next
    case (Inr q)
    then show ?thesis using 1(1) [OF Inr] 1(2) identify_round_parts(1) [OF Inr]
      by (subst (asm) (2) identify_chat.simps) (auto split: prod.splits)
  qed
qed

section \<open>Responses\<close>

record chatUsage =
  PromptTokens :: int
  CompletionTokens :: int
  chat_TotalTokens :: int

record chatResponseMessage =
  cm_Content :: string
  cm_Annotations :: "json slice"
  cm_Citations :: "json slice"
  cm_Sources :: "json slice"

record chatChoice =
  co_Delta :: chatResponseMessage
  co_Message :: chatResponseMessage
  co_FinishReason :: string
  co_Citations :: "json slice"
  co_Sources :: "json slice"
  co_Annotations :: "json slice"

record chatCompletionsResponse =
  cp_Type :: string
  cp_Item :: streamOutputItem
  cp_Choices :: "chatChoice slice"
  cp_Usage :: chatUsage
  cp_Citations :: "json slice"
  cp_Sources :: "json slice"
  cp_Annotations :: "json slice"
  cp_SearchResults :: "json slice"

definition dec_raws :: "json slice decoder" where
  "dec_raws = dec_slice JNull (\<lambda>_ j. Some j)"

definition dec_chatUsage :: "chatUsage decoder" where
  "dec_chatUsage = dec_struct [(''prompt_tokens'', field dec_int PromptTokens PromptTokens_update),
     (''completion_tokens'', field dec_int CompletionTokens CompletionTokens_update),
     (''total_tokens'', field dec_int chat_TotalTokens chat_TotalTokens_update)]"

definition zero_chatResponseMessage :: chatResponseMessage where
  "zero_chatResponseMessage = \<lparr>cm_Content = [], cm_Annotations = ([], []), cm_Citations = ([], []), cm_Sources = ([], [])\<rparr>"

definition dec_chatResponseMessage :: "chatResponseMessage decoder" where
  "dec_chatResponseMessage = dec_struct [(''content'', field dec_string cm_Content cm_Content_update),
     (''annotations'', field dec_raws cm_Annotations cm_Annotations_update), (''citations'', field dec_raws cm_Citations cm_Citations_update),
     (''sources'', field dec_raws cm_Sources cm_Sources_update)]"

definition zero_chatChoice :: chatChoice where
  "zero_chatChoice = \<lparr>co_Delta = zero_chatResponseMessage, co_Message = zero_chatResponseMessage, co_FinishReason = [],
     co_Citations = ([], []), co_Sources = ([], []), co_Annotations = ([], [])\<rparr>"

definition dec_chatChoice :: "chatChoice decoder" where
  "dec_chatChoice = dec_struct [(''delta'', field dec_chatResponseMessage co_Delta co_Delta_update),
     (''message'', field dec_chatResponseMessage co_Message co_Message_update), (''finish_reason'', field dec_string co_FinishReason co_FinishReason_update),
     (''citations'', field dec_raws co_Citations co_Citations_update), (''sources'', field dec_raws co_Sources co_Sources_update),
     (''annotations'', field dec_raws co_Annotations co_Annotations_update)]"

definition zero_chatCompletionsResponse :: chatCompletionsResponse where
  "zero_chatCompletionsResponse = \<lparr>cp_Type = [], cp_Item = zero_streamOutputItem, cp_Choices = ([], []),
     cp_Usage = \<lparr>PromptTokens = 0, CompletionTokens = 0, chat_TotalTokens = 0\<rparr>, cp_Citations = ([], []), cp_Sources = ([], []),
     cp_Annotations = ([], []), cp_SearchResults = ([], [])\<rparr>"

definition dec_chatCompletionsResponse :: "chatCompletionsResponse decoder" where
  "dec_chatCompletionsResponse = dec_struct [(''type'', field dec_string cp_Type cp_Type_update),
     (''item'', field dec_streamOutputItem cp_Item cp_Item_update), (''choices'', field (dec_slice zero_chatChoice dec_chatChoice) cp_Choices cp_Choices_update),
     (''usage'', field dec_chatUsage cp_Usage cp_Usage_update), (''citations'', field dec_raws cp_Citations cp_Citations_update),
     (''sources'', field dec_raws cp_Sources cp_Sources_update), (''annotations'', field dec_raws cp_Annotations cp_Annotations_update),
     (''search_results'', field dec_raws cp_SearchResults cp_SearchResults_update)]"

text \<open>
  One value and nothing after it. The error of the connection is met where the scanner would go on
  reading: in an incomplete value, or after a complete one.
\<close>

definition stream_cause :: "json_lib \<Rightarrow> io_error option \<Rightarrow> string \<Rightarrow> io_error option" where
  "stream_cause js readErr txt = (if js_rejects js txt then None else readErr)"

definition decodeSingleChatCompletionsResponse :: "json_lib \<Rightarrow> io_error option \<Rightarrow> string \<Rightarrow> grok_error + chatCompletionsResponse" where
  "decodeSingleChatCompletionsResponse js readErr content =
     (case json_value (2 * length content + 1) maxNestingDepth content of
        None \<Rightarrow> Inl (Errorf (''decode chat completions response: '' @ js_Error js content) (stream_cause js readErr content))
      | Some (v, rest) \<Rightarrow>
          (case dec_chatCompletionsResponse zero_chatCompletionsResponse v of
             None \<Rightarrow> Inl (plain_error (''decode chat completions response: '' @ js_Mismatch js v))
           | Some response \<Rightarrow>
               if skip_space rest = []
               then (case readErr of None \<Rightarrow> Inr response | Some e \<Rightarrow> Inl (Errorf ''decode chat completions response trailing data'' (Some e)))
               else (case json_value (2 * length rest + 1) maxNestingDepth rest of
                   Some _ \<Rightarrow> Inl (plain_error ''decode chat completions response: unexpected trailing JSON value'')
                 | None \<Rightarrow> Inl (Errorf (''decode chat completions response trailing data: '' @ js_Error js rest) (stream_cause js readErr rest)))))"

definition collectRawCitations :: "json slice \<Rightarrow> citationCollector \<Rightarrow> citationCollector" where
  "collectRawCitations rawCitations c = fold addRaw (elems rawCitations) c"

definition collectChatMessageCitations :: "chatResponseMessage \<Rightarrow> citationCollector \<Rightarrow> citationCollector" where
  "collectChatMessageCitations msg c =
     collectRawCitations (cm_Sources msg) (collectRawCitations (cm_Citations msg) (collectRawCitations (cm_Annotations msg) c))"

record chat_state =
  ct_answer :: string
  ct_collector :: citationCollector
  ct_usage :: "Usage option"
  sawTerminalEvent :: bool
  ct_rounds :: "searchRoundTracker \<times> SearchRound list"

fun consume_choices :: "chatChoice list \<Rightarrow> chat_state \<Rightarrow> grok_error + chat_state" where
  "consume_choices [] st = Inr st"
| "consume_choices (choice # choices) st =
     and_then (appendAnswerText (ct_answer st) [cm_Content (co_Delta choice)]) (\<lambda>answer1.
     and_then (if cm_Content (co_Delta choice) = [] then appendAnswerText answer1 [cm_Content (co_Message choice)] else Inr answer1) (\<lambda>answer2.
       consume_choices choices (st\<lparr>ct_answer := answer2,
         ct_collector := collectRawCitations (co_Annotations choice) (collectRawCitations (co_Sources choice) (collectRawCitations (co_Citations choice)
           (collectChatMessageCitations (co_Message choice) (collectChatMessageCitations (co_Delta choice) (ct_collector st)))))\<rparr>)))"

definition consumeResponse :: "chatCompletionsResponse \<Rightarrow> nat \<Rightarrow> chat_state \<Rightarrow> chat_state called" where
  "consumeResponse response payloadBytes st =
     (if cp_Type response = ''error'' then (st, Some (newUpstreamStreamError chatCompletionsProtocolName (cp_Type response) payloadBytes))
      else case consume_choices (elems (cp_Choices response)) st of
          Inl e \<Rightarrow> (st, Some e)
        | Inr st1 \<Rightarrow>
            let collector = collectRawCitations (cp_SearchResults response) (collectRawCitations (cp_Annotations response)
                  (collectRawCitations (cp_Sources response) (collectRawCitations (cp_Citations response) (ct_collector st1))));
                u = cp_Usage response;
                normalizedUsage = (if PromptTokens u \<noteq> 0 \<or> CompletionTokens u \<noteq> 0 \<or> chat_TotalTokens u \<noteq> 0
                  then Some \<lparr>InputTokens = PromptTokens u, OutputTokens = CompletionTokens u, TotalTokens = chat_TotalTokens u, ReasoningTokens = 0\<rparr>
                  else ct_usage st1)
            in (st1\<lparr>ct_collector := collector, ct_usage := normalizedUsage\<rparr>, cc_err collector))"

definition chat_event :: "json_lib \<Rightarrow> chat_state \<Rightarrow> string \<Rightarrow> chat_state called" where
  "chat_event js st payload =
     (case Unmarshal dec_chatCompletionsResponse zero_chatCompletionsResponse payload of
        None \<Rightarrow> (st, Some (plain_error (''decode chat completions stream event: '' @ js_Error js payload)))
      | Some response \<Rightarrow>
          let st1 = (if list_ex (\<lambda>choice. TrimSpace (co_FinishReason choice) \<noteq> []) (elems (cp_Choices response)) then st\<lparr>sawTerminalEvent := True\<rparr> else st)
          in (case emitSearchRound (cp_Type response) (cp_Item response) (ct_rounds st1) of
                (sr, Some e) \<Rightarrow> (st1\<lparr>ct_rounds := sr\<rparr>, Some e)
              | (sr, None) \<Rightarrow> consumeResponse response (length payload) (st1\<lparr>ct_rounds := sr\<rparr>)))"

definition chat_done :: "chat_state \<Rightarrow> chat_state called" where
  "chat_done st = (st\<lparr>sawTerminalEvent := True\<rparr>, None)"

definition new_chat_state :: chat_state where
  "new_chat_state = \<lparr>ct_answer = [], ct_collector = newCitationCollector, ct_usage = None, sawTerminalEvent = False,
     ct_rounds = (newSearchRoundTracker, [])\<rparr>"

definition no_answer_error :: grok_error where
  "no_answer_error = plain_error ''upstream response did not contain answer text''"

definition response_limit_error :: grok_error where
  "response_limit_error = plain_error (''upstream response exceeded total byte limit of '' @ Itoa (int maxUpstreamResponseBytes))"

text \<open>
  \<open>taken\<close>: the bytes the buffered readers had taken from the body when parsing stopped with an error; without
  one they have met its end. The limited reader is drained once it has given one byte too many.
\<close>

definition parseChatCompletionsResponse :: "json_lib \<Rightarrow> nat \<Rightarrow> stream_body \<Rightarrow> SearchRound list \<times> (grok_error + SearchResult)" where
  "parseChatCompletionsResponse js taken body =
     (let limitedBody = limited (maxUpstreamResponseBytes + 1) body;
          drained = (\<lambda>err. maxUpstreamResponseBytes + 1 \<le> length (sb_bytes limitedBody) \<and> (err = None \<or> maxUpstreamResponseBytes + 1 \<le> taken))
      in case identifyChatCompletionsResponse limitedBody of
           Inl e \<Rightarrow> ([], Inl (if drained None then response_limit_error else e))
         | Inr (content, isSSE) \<Rightarrow>
             (case (if isSSE then forEachSSEEventWithDone \<lparr>sb_bytes = content, sb_error = sb_error limitedBody\<rparr> (chat_event js) chat_done new_chat_state
                    else case decodeSingleChatCompletionsResponse js (sb_error limitedBody) content of
                        Inl e \<Rightarrow> (new_chat_state, Some e)
                      | Inr response \<Rightarrow> consumeResponse response (length content) new_chat_state) of
                (st, err) \<Rightarrow>
                  (snd (ct_rounds st),
                   if isSSE \<and> err = None \<and> \<not> sawTerminalEvent st
                   then Inl (plain_error ''upstream chat completions stream ended prematurely without [DONE] marker or finish_reason'')
                   else if drained err then Inl response_limit_error
                   else case err of
                       Some e \<Rightarrow> Inl e
                     | None \<Rightarrow>
                         let answerText = TrimSpace (ct_answer st)
                         in if answerText = [] then Inl no_answer_error
                            else Inr \<lparr>res_Answer = answerText, res_Citations = cc_citations (ct_collector st), res_Sources = cc_sources (ct_collector st),
                              res_Usage = ct_usage st, res_RawResponse = content\<rparr>)))"

section \<open>Bounded results\<close>

definition chat_ok :: "chat_state \<Rightarrow> bool" where
  "chat_ok st \<longleftrightarrow> length (ct_answer st) \<le> maxAggregatedAnswerBytes \<and> collector_ok (ct_collector st) \<and> tracker_ok (ct_rounds st)"

lemma collectRawCitations_ok: "collector_ok c \<Longrightarrow> collector_ok (collectRawCitations raws c)"
  by (simp add: collectRawCitations_def fold_addRaw_ok)

lemma consume_choices_ok: "consume_choices choices st = Inr st' \<Longrightarrow> chat_ok st \<Longrightarrow> chat_ok st'"
proof (induction choices st rule: consume_choices.induct)
  case (2 choice choices st)
  obtain answer1 answer2 where a: "appendAnswerText (ct_answer st) [cm_Content (co_Delta choice)] = Inr answer1"
      "(if cm_Content (co_Delta choice) = [] then appendAnswerText answer1 [cm_Content (co_Message choice)] else Inr answer1) = Inr answer2"
    and rest: "consume_choices choices (st\<lparr>ct_answer := answer2,
         ct_collector := collectRawCitations (co_Annotations choice) (collectRawCitations (co_Sources choice) (collectRawCitations (co_Citations choice)
           (collectChatMessageCitations (co_Message choice) (collectChatMessageCitations (co_Delta choice) (ct_collector st)))))\<rparr>) = Inr st'"
    using 2(2) unfolding consume_choices.simps(2) and_then_Inr by blast
  show ?case
    by (rule 2(1) [OF a rest])
      (use 2(3) a in \<open>auto simp: chat_ok_def collectChatMessageCitations_def collectRawCitations_ok dest!: appendAnswerText_Inr split: if_splits\<close>)
qed simp

lemma consumeResponse_ok: "chat_ok st \<Longrightarrow> chat_ok (fst (consumeResponse response n st))"
  by (auto simp: consumeResponse_def Let_def split: sum.split)
    (auto simp: chat_ok_def collectRawCitations_ok dest!: consume_choices_ok)

lemma chat_event_ok: "chat_ok st \<Longrightarrow> chat_ok (fst (chat_event js st p))"
  unfolding chat_event_def Let_def
  by (auto split: option.split prod.split intro!: consumeResponse_ok) (auto simp: chat_ok_def dest: emitSearchRound_ok)

lemma consume_choices_err: "consume_choices choices st = Inl e \<Longrightarrow> internal_error e"
  by (induction choices st rule: consume_choices.induct)
    (auto simp: and_then_def dest: appendAnswerText_Inl split: sum.splits if_splits)

lemma consumeResponse_err: "chat_ok st \<Longrightarrow> snd (consumeResponse response n st) = Some e \<Longrightarrow> internal_error e"
  by (auto simp: consumeResponse_def Let_def chat_ok_def collectRawCitations_ok dest!: consume_choices_ok [unfolded chat_ok_def] consume_choices_err
      intro: collector_err [OF collectRawCitations_ok] collectRawCitations_ok split: sum.splits if_splits)

lemma chat_event_err: "chat_ok st \<Longrightarrow> snd (chat_event js st p) = Some e \<Longrightarrow> internal_error e"
proof (cases "Unmarshal dec_chatCompletionsResponse zero_chatCompletionsResponse p")
  case (Some response)
  assume st: "chat_ok st" and e: "snd (chat_event js st p) = Some e"
  define st1 where "st1 = (if list_ex (\<lambda>choice. TrimSpace (co_FinishReason choice) \<noteq> []) (elems (cp_Choices response)) then st\<lparr>sawTerminalEvent := True\<rparr> else st)"
  obtain sr err where round: "emitSearchRound (cp_Type response) (cp_Item response) (ct_rounds st1) = (sr, err)" by fastforce
  have ok: "chat_ok (st1\<lparr>ct_rounds := sr\<rparr>)" using st emitSearchRound_ok [OF round] by (auto simp: st1_def chat_ok_def)
  have "snd (case err of Some e \<Rightarrow> (st1\<lparr>ct_rounds := sr\<rparr>, Some e) | None \<Rightarrow> consumeResponse response (length p) (st1\<lparr>ct_rounds := sr\<rparr>)) = Some e"
    using e unfolding chat_event_def Some option.case Let_def st1_def [symmetric] round prod.case by (cases err) simp_all
  then show ?thesis
    using consumeResponse_err [OF ok] emitSearchRound_err [of "cp_Type response" "cp_Item response" "ct_rounds st1"] round by (auto split: option.splits)
qed (auto simp: chat_event_def)

interpretation chat_consumer: sse_error_consumer "chat_event js" chat_done chat_ok internal_error
  by unfold_locales (rule chat_event_ok, simp_all add: chat_done_def chat_ok_def chat_event_err)

lemma new_chat_ok: "chat_ok new_chat_state"
  by (simp add: chat_ok_def new_chat_state_def collector_ok_new tracker_ok_new)

text \<open>The events that end a stream.\<close>

definition terminal_event :: "string \<Rightarrow> bool" where
  "terminal_event p \<longleftrightarrow> p = ''[DONE]'' \<or>
     (case Unmarshal dec_chatCompletionsResponse zero_chatCompletionsResponse p of
        None \<Rightarrow> False
      | Some response \<Rightarrow> list_ex (\<lambda>choice. TrimSpace (co_FinishReason choice) \<noteq> []) (elems (cp_Choices response)))"

lemma consume_choices_terminal: "consume_choices choices st = Inr st' \<Longrightarrow> sawTerminalEvent st' = sawTerminalEvent st"
  by (induction choices st rule: consume_choices.induct) (auto simp: and_then_Inr)

lemma chat_event_terminal: "chat_event js st p = (st', None) \<Longrightarrow> sawTerminalEvent st' \<Longrightarrow> sawTerminalEvent st \<or> terminal_event p"
  by (auto simp: chat_event_def Let_def consumeResponse_def terminal_event_def dest!: consume_choices_terminal
      split: option.splits prod.splits sum.splits if_splits)

lemma deliver_terminal:
  "deliver (chat_event js) chat_done ps st = (st', None) \<Longrightarrow> sawTerminalEvent st' \<Longrightarrow> sawTerminalEvent st \<or> list_ex terminal_event ps"
proof (induction ps arbitrary: st)
  case (Cons p ps)
  show ?case
  proof (cases "p = ''[DONE]''")
    case False
    then obtain st1 where st1: "chat_event js st p = (st1, None)" "deliver (chat_event js) chat_done ps st1 = (st', None)"
      using Cons.prems(1) by (auto split: prod.splits option.splits)
    show ?thesis using Cons.IH [OF st1(2) Cons.prems(2)] chat_event_terminal [OF st1(1)] by auto
  qed (simp add: terminal_event_def)
qed simp

lemma decodeSingle_complete: "decodeSingleChatCompletionsResponse js readErr content = Inr response \<Longrightarrow> readErr = None"
  by (auto simp: decodeSingleChatCompletionsResponse_def split: option.splits prod.splits if_splits)

text \<open>
  Chat completions. A response gives a result only if its whole body was read, stayed within 8 MiB
  and, when it is an event stream, carried an end marker; the raw response is then the body, and the
  answer, the citations and the rounds are bounded.
\<close>

theorem chat_response_sound:
  assumes "parseChatCompletionsResponse js taken body = (rounds, Inr res)"
  shows "sb_error body = None \<and> length (sb_bytes body) \<le> maxUpstreamResponseBytes \<and> res_RawResponse res = sb_bytes body \<and>
    (\<exists>isSSE. identifyChatCompletionsResponse body = Inr (sb_bytes body, isSSE) \<and>
      (isSSE \<longrightarrow> within_limits body \<and> list_ex terminal_event (sse_payloads (body_lines (sb_bytes body))))) \<and>
    result_ok res \<and> rounds_ok rounds"
proof -
  let ?limited = "limited (maxUpstreamResponseBytes + 1) body"
  obtain content isSSE where i: "identifyChatCompletionsResponse ?limited = Inr (content, isSSE)"
    using assms by (auto simp: parseChatCompletionsResponse_def Let_def split: sum.splits prod.splits)
  have content: "content = sb_bytes ?limited"
    using identify_chat_content [OF i [unfolded identifyChatCompletionsResponse_def]] by simp
  obtain st err where run: "(if isSSE then forEachSSEEventWithDone \<lparr>sb_bytes = content, sb_error = sb_error ?limited\<rparr> (chat_event js) chat_done new_chat_state
      else case decodeSingleChatCompletionsResponse js (sb_error ?limited) content of
          Inl e \<Rightarrow> (new_chat_state, Some e)
        | Inr response \<Rightarrow> consumeResponse response (length content) new_chat_state) = (st, err)" (is "?run = _") by fastforce
  have r: "err = None" "isSSE \<Longrightarrow> sawTerminalEvent st" "\<not> maxUpstreamResponseBytes + 1 \<le> length (sb_bytes ?limited)"
    "TrimSpace (ct_answer st) \<noteq> []" "rounds = snd (ct_rounds st)" "res_RawResponse res = content"
    "res_Answer res = TrimSpace (ct_answer st)" "res_Citations res = cc_citations (ct_collector st)" "res_Sources res = cc_sources (ct_collector st)"
    using assms unfolding parseChatCompletionsResponse_def Let_def i sum.case prod.case run by (auto split: if_splits option.splits)
  have body: "?limited = body" "length (sb_bytes body) \<le> maxUpstreamResponseBytes" using r(3) by (auto simp: limited_def split: if_splits)
  have same: "\<lparr>sb_bytes = content, sb_error = sb_error ?limited\<rparr> = body" unfolding body(1) content by simp
  have sse: "within_limits body \<and> list_ex terminal_event (sse_payloads (body_lines (sb_bytes body)))" if isSSE
  proof -
    have "forEachSSEEventWithDone body (chat_event js) chat_done new_chat_state = (st, None)" using run that r(1) same by simp
    note d = sse_reader_success [OF this]
    show ?thesis using d(1) deliver_terminal [OF d(2) r(2) [OF that]] by (simp add: new_chat_state_def)
  qed
  have read: "sb_error body = None"
  proof (cases isSSE)
    case True
    then show ?thesis using sse by (simp add: within_limits_def)
  next
    case False
    then show ?thesis using run r(1) body(1) by (auto split: sum.splits dest: decodeSingle_complete)
  qed
  have ok: "chat_ok st"
  proof (cases isSSE)
    case True
    then show ?thesis using chat_consumer.reader_inv [OF new_chat_ok, of body js] run same by simp
  next
    case False
    then show ?thesis using consumeResponse_ok [OF new_chat_ok] new_chat_ok run by (auto split: sum.splits) (metis fst_conv)
  qed
  have "result_ok res" using ok r TrimSpace_length [of "ct_answer st"] by (auto simp: chat_ok_def result_ok_def collector_ok_def)
  then show ?thesis using read body sse ok r i content by (auto simp: chat_ok_def tracker_ok_def)
qed

lemma identify_chat_err: "identify_chat readErr rest p = Inl e \<Longrightarrow> internal_error e"
proof (induction readErr rest p rule: identify_chat.induct)
  case (1 readErr rest p)
  have line: "internal_error x" if "inspect_line r checked c s q = Inl (Inl x)" for r checked c s q x
    using that by (auto simp: inspect_line_def Let_def at_end_def inspect_error_def split: if_splits option.splits)
  have round: "internal_error x" if "identify_round readErr rest p = Inl (Inl x)" for x
    using that by (auto simp: identify_round_def at_end_def inspect_error_def dest: line split: option.splits prod.splits if_splits)
  show ?case
  proof (cases "identify_round readErr rest p")
    case (Inl v)
    then show ?thesis using 1(2) round by (subst (asm) identify_chat.simps) auto
  next
    case (Inr q)
    then show ?thesis using 1(1) [OF Inr] 1(2) by (subst (asm) (2) identify_chat.simps) (auto split: prod.splits)
  qed
qed

lemma parseChatCompletionsResponse_err:
  assumes "parseChatCompletionsResponse js taken body = (rounds, Inl e)"
  shows "internal_error e"
proof -
  let ?limited = "limited (maxUpstreamResponseBytes + 1) body"
  have own: "internal_error response_limit_error" "internal_error no_answer_error" by (simp_all add: response_limit_error_def no_answer_error_def)
  show ?thesis
  proof (cases "identifyChatCompletionsResponse ?limited")
    case (Inl x)
    then show ?thesis using assms own identify_chat_err unfolding parseChatCompletionsResponse_def Let_def
      by (auto simp: identifyChatCompletionsResponse_def split: if_splits)
  next
    case (Inr ci)
    obtain content isSSE where ci: "ci = (content, isSSE)" by fastforce
    obtain st err where run: "(if isSSE then forEachSSEEventWithDone \<lparr>sb_bytes = content, sb_error = sb_error ?limited\<rparr> (chat_event js) chat_done new_chat_state
        else case decodeSingleChatCompletionsResponse js (sb_error ?limited) content of
            Inl e \<Rightarrow> (new_chat_state, Some e)
          | Inr response \<Rightarrow> consumeResponse response (length content) new_chat_state) = (st, err)" by fastforce
    have decode: "internal_error x" if "decodeSingleChatCompletionsResponse js r content = Inl x" for r x
      using that by (auto simp: decodeSingleChatCompletionsResponse_def split: option.splits prod.splits if_splits)
    have err: "internal_error x" if "err = Some x" for x
    proof (cases isSSE)
      case True
      then show ?thesis using chat_consumer.reader_err [OF new_chat_ok, of "\<lparr>sb_bytes = content, sb_error = sb_error ?limited\<rparr>" js x] run that by simp
    next
      case False
      then show ?thesis using consumeResponse_err [OF new_chat_ok, of _ _ x] decode run that by (auto split: sum.splits) (metis snd_conv)
    qed
    show ?thesis using assms own err unfolding parseChatCompletionsResponse_def Let_def Inr ci sum.case prod.case run
      by (auto split: if_splits option.splits)
  qed
qed

definition demo_chat_event :: string where
  "demo_chat_event = ''{\"choices\":[{\"delta\":{\"content\":\"42\"}}]}''"

definition demo_chat_body :: stream_body where
  "demo_chat_body = \<lparr>sb_bytes = ''data: '' @ demo_chat_event @ [newline, newline] @ ''data: [DONE]'' @ [newline, newline], sb_error = None\<rparr>"

definition demo_chat_result :: SearchResult where
  "demo_chat_result = \<lparr>res_Answer = ''42'', res_Citations = [], res_Sources = [], res_Usage = None, res_RawResponse = sb_bytes demo_chat_body\<rparr>"

lemma demo_chat_payloads: "sse_payloads (body_lines (sb_bytes demo_chat_body)) = [demo_chat_event, ''[DONE]'']"
  by code_simp

lemma demo_chat_lengths: "length demo_chat_event < 100" "length (sb_bytes demo_chat_body) < 100"
  by code_simp+

lemma demo_chat_within_limits: "within_limits demo_chat_body"
proof -
  have "Split newline (sb_bytes demo_chat_body) = [''data: '' @ demo_chat_event, [], ''data: [DONE]'', [], []]" by code_simp
  then show ?thesis unfolding within_limits_def demo_chat_payloads using demo_chat_lengths
    by (simp add: maxSSELineBytes_def maxSSEEventBytes_def maxSSEEventCount_def maxUpstreamResponseBytes_def) (simp add: demo_chat_body_def)
qed

lemma demo_chat_parsed: "parseChatCompletionsResponse demo_json_lib 0 demo_chat_body = ([], Inr demo_chat_result)"
proof -
  have lim: "limited (maxUpstreamResponseBytes + 1) demo_chat_body = demo_chat_body"
    using demo_chat_lengths(2) by (intro limited_short) (simp add: maxUpstreamResponseBytes_def)
  have identified: "identifyChatCompletionsResponse demo_chat_body = Inr (sb_bytes demo_chat_body, True)" by code_simp
  define st where "st = new_chat_state\<lparr>ct_answer := ''42'', sawTerminalEvent := True\<rparr>"
  have run: "deliver (chat_event demo_json_lib) chat_done [demo_chat_event, ''[DONE]''] new_chat_state = (st, None)"
    unfolding st_def by code_simp
  have read: "forEachSSEEventWithDone demo_chat_body (chat_event demo_json_lib) chat_done new_chat_state = (st, None)"
    using sse_reader [of demo_chat_body "chat_event demo_json_lib" chat_done new_chat_state] demo_chat_within_limits
    unfolding demo_chat_payloads run by argo
  have same: "\<lparr>sb_bytes = sb_bytes demo_chat_body, sb_error = sb_error demo_chat_body\<rparr> = demo_chat_body" by simp
  have "TrimSpace ''42'' = ''42''" by code_simp
  then show ?thesis using demo_chat_lengths(2) unfolding parseChatCompletionsResponse_def Let_def lim identified sum.case prod.case if_True same read
    by (simp add: maxUpstreamResponseBytes_def demo_chat_result_def st_def new_chat_state_def newCitationCollector_def newSearchRoundTracker_def)
qed

theorem chat_response_sound_witness: "list_ex terminal_event [demo_chat_event, ''[DONE]''] \<and> result_ok demo_chat_result"
proof -
  have "identifyChatCompletionsResponse demo_chat_body = Inr (sb_bytes demo_chat_body, True)" by code_simp
  then show ?thesis using chat_response_sound [OF demo_chat_parsed] unfolding demo_chat_payloads by auto
qed

end
