(* ===== verification/Grok_Messages.thy ===== *)
theory Grok_Messages
  imports Grok_Stream
begin

text \<open>
  The Messages protocol (\<open>internal/grok/anthropic_messages.go\<close>): its request, the recognition of an event
  stream in a body that is read as a whole, and the parsing of either form. Shown: a result needs the
  whole body and, for a stream, its stop event, and is bounded.
\<close>

section \<open>Requests\<close>

definition anthropicDefaultMaxTokens :: int where "anthropicDefaultMaxTokens = 4096"
definition anthropicProtocolName :: string where "anthropicProtocolName = ''anthropic_messages''"
definition anthropicXSearchInstruction :: string where
  "anthropicXSearchInstruction = ''Search public posts on X (x.com) only. '' @
     ''Use the web search tool to find relevant posts, then return a final answer with direct X post URLs.''"

record anthropicMessage =
  ag_Role :: string
  ag_Content :: string

text \<open>The description and the input schema are never set.\<close>

record anthropicTool =
  at_Type :: string
  at_Name :: string
  at_MaxUses :: int
  at_AllowedDomains :: "string list"
  at_BlockedDomains :: "string list"

record anthropicMessagesRequest =
  ar_Model :: string
  ar_MaxTokens :: int
  ar_Messages :: "anthropicMessage list"
  ar_Tools :: "anthropicTool list"
  ar_Stream :: bool

definition buildAnthropicMessagesRequestBody :: "config_lib \<Rightarrow> SearchRequest \<Rightarrow> string \<Rightarrow> grok_error + anthropicMessagesRequest" where
  "buildAnthropicMessagesRequestBody lib req defaultModel =
     and_then (resolveSearchModel lib (sr_Model req) defaultModel) (\<lambda>model.
       let (messageContent, tool) =
             (if sr_ToolType req = ToolTypeWebSearch
              then (sr_Query req, \<lparr>at_Type = ''web_search_20250305'', at_Name = ''web_search'', at_MaxUses = 8,
                at_AllowedDomains = sr_AllowedDomains req, at_BlockedDomains = sr_ExcludedDomains req\<rparr>)
              else (anthropicXSearchInstruction @ [newline, newline] @ ''User query: '' @ sr_Query req,
                \<lparr>at_Type = ''web_search_20250305'', at_Name = ''web_search'', at_MaxUses = 8, at_AllowedDomains = [''x.com''], at_BlockedDomains = []\<rparr>))
       in Inr \<lparr>ar_Model = model, ar_MaxTokens = anthropicDefaultMaxTokens, ar_Messages = [\<lparr>ag_Role = ''user'', ag_Content = messageContent\<rparr>],
         ar_Tools = [tool], ar_Stream = True\<rparr>)"

section \<open>Responses\<close>

record anthropicUsage =
  au_InputTokens :: int
  au_OutputTokens :: int

record anthropicCitation =
  ac_Type :: string
  ac_URL :: string
  ac_Title :: string

record anthropicTextResult =
  atr_Type :: string
  atr_Title :: string
  atr_URL :: string
  atr_Text :: string

record anthropicContentBlock =
  ab_Type :: string
  ab_Text :: string
  ab_Citations :: "anthropicCitation slice"
  ab_Content :: "anthropicTextResult slice"

record anthropicDelta =
  ad_Type :: string
  ad_Text :: string
  ad_Citation :: anthropicCitation
  ad_Usage :: anthropicUsage

record anthropicMessageResult =
  amr_Content :: "anthropicContentBlock slice"
  amr_Usage :: anthropicUsage

record anthropicMessagesResponse =
  ap_Type :: string
  ap_Content :: "anthropicContentBlock slice"
  ap_Usage :: anthropicUsage
  ap_Message :: "anthropicMessageResult option"
  ap_Delta :: anthropicDelta

definition zero_anthropicUsage :: anthropicUsage where
  "zero_anthropicUsage = \<lparr>au_InputTokens = 0, au_OutputTokens = 0\<rparr>"

definition dec_anthropicUsage :: "anthropicUsage decoder" where
  "dec_anthropicUsage = dec_struct [(''input_tokens'', field dec_int au_InputTokens au_InputTokens_update),
     (''output_tokens'', field dec_int au_OutputTokens au_OutputTokens_update)]"

definition zero_anthropicCitation :: anthropicCitation where
  "zero_anthropicCitation = \<lparr>ac_Type = [], ac_URL = [], ac_Title = []\<rparr>"

definition dec_anthropicCitation :: "anthropicCitation decoder" where
  "dec_anthropicCitation = dec_struct [(''type'', field dec_string ac_Type ac_Type_update), (''url'', field dec_string ac_URL ac_URL_update),
     (''title'', field dec_string ac_Title ac_Title_update)]"

definition zero_anthropicTextResult :: anthropicTextResult where
  "zero_anthropicTextResult = \<lparr>atr_Type = [], atr_Title = [], atr_URL = [], atr_Text = []\<rparr>"

definition dec_anthropicTextResult :: "anthropicTextResult decoder" where
  "dec_anthropicTextResult = dec_struct [(''type'', field dec_string atr_Type atr_Type_update), (''title'', field dec_string atr_Title atr_Title_update),
     (''url'', field dec_string atr_URL atr_URL_update), (''text'', field dec_string atr_Text atr_Text_update)]"

definition zero_anthropicContentBlock :: anthropicContentBlock where
  "zero_anthropicContentBlock = \<lparr>ab_Type = [], ab_Text = [], ab_Citations = ([], []), ab_Content = ([], [])\<rparr>"

definition dec_anthropicContentBlock :: "anthropicContentBlock decoder" where
  "dec_anthropicContentBlock = dec_struct [(''type'', field dec_string ab_Type ab_Type_update), (''text'', field dec_string ab_Text ab_Text_update),
     (''citations'', field (dec_slice zero_anthropicCitation dec_anthropicCitation) ab_Citations ab_Citations_update),
     (''content'', field (dec_slice zero_anthropicTextResult dec_anthropicTextResult) ab_Content ab_Content_update)]"

definition zero_anthropicDelta :: anthropicDelta where
  "zero_anthropicDelta = \<lparr>ad_Type = [], ad_Text = [], ad_Citation = zero_anthropicCitation, ad_Usage = zero_anthropicUsage\<rparr>"

definition dec_anthropicDelta :: "anthropicDelta decoder" where
  "dec_anthropicDelta = dec_struct [(''type'', field dec_string ad_Type ad_Type_update), (''text'', field dec_string ad_Text ad_Text_update),
     (''citation'', field dec_anthropicCitation ad_Citation ad_Citation_update), (''usage'', field dec_anthropicUsage ad_Usage ad_Usage_update)]"

definition zero_anthropicMessageResult :: anthropicMessageResult where
  "zero_anthropicMessageResult = \<lparr>amr_Content = ([], []), amr_Usage = zero_anthropicUsage\<rparr>"

definition dec_anthropicMessageResult :: "anthropicMessageResult decoder" where
  "dec_anthropicMessageResult = dec_struct
     [(''content'', field (dec_slice zero_anthropicContentBlock dec_anthropicContentBlock) amr_Content amr_Content_update),
      (''usage'', field dec_anthropicUsage amr_Usage amr_Usage_update)]"

definition zero_anthropicMessagesResponse :: anthropicMessagesResponse where
  "zero_anthropicMessagesResponse = \<lparr>ap_Type = [], ap_Content = ([], []), ap_Usage = zero_anthropicUsage, ap_Message = None, ap_Delta = zero_anthropicDelta\<rparr>"

definition dec_anthropicMessagesResponse :: "anthropicMessagesResponse decoder" where
  "dec_anthropicMessagesResponse = dec_struct [(''type'', field dec_string ap_Type ap_Type_update),
     (''content'', field (dec_slice zero_anthropicContentBlock dec_anthropicContentBlock) ap_Content ap_Content_update),
     (''usage'', field dec_anthropicUsage ap_Usage ap_Usage_update),
     (''message'', field (dec_pointer zero_anthropicMessageResult dec_anthropicMessageResult) ap_Message ap_Message_update),
     (''delta'', field dec_anthropicDelta ap_Delta ap_Delta_update)]"

section \<open>Parsing\<close>

fun sse_line_verdict :: "string list \<Rightarrow> bool" where
  "sse_line_verdict [] = False"
| "sse_line_verdict (responseLine # ls) =
     (let trimmedLine = TrimSpace responseLine
      in if length trimmedLine = 0 \<or> HasPrefix trimmedLine '':'' then sse_line_verdict ls
         else if HasPrefix trimmedLine [CHR 0x7B] \<or> HasPrefix trimmedLine ''['' then False
         else if HasPrefix trimmedLine ''data:'' \<or> HasPrefix trimmedLine ''event:'' then True
         else sse_line_verdict ls)"

definition isAnthropicSSEResponse :: "string \<Rightarrow> bool" where
  "isAnthropicSSEResponse body = sse_line_verdict (Split newline body)"

fun collectAnthropicContent :: "anthropicContentBlock list \<Rightarrow> string \<times> citationCollector \<Rightarrow> grok_error + (string \<times> citationCollector)" where
  "collectAnthropicContent [] st = Inr st"
| "collectAnthropicContent (block # rest) st =
     and_then (appendAnswerText (fst st) [ab_Text block]) (\<lambda>answer.
       let c1 = fold (\<lambda>citation c. cc_add (ac_URL citation) (ac_Title citation) c) (elems (ab_Citations block)) (snd st);
           c2 = fold (\<lambda>result c. cc_add (atr_URL result) (atr_Title result) c) (elems (ab_Content block)) c1
       in case cc_err c2 of Some e \<Rightarrow> Inl e | None \<Rightarrow> collectAnthropicContent rest (answer, c2))"

definition mergeAnthropicUsage :: "anthropicUsage \<Rightarrow> anthropicUsage \<Rightarrow> anthropicUsage" where
  "mergeAnthropicUsage current upd =
     \<lparr>au_InputTokens = (if au_InputTokens upd \<noteq> 0 then au_InputTokens upd else au_InputTokens current),
      au_OutputTokens = (if au_OutputTokens upd \<noteq> 0 then au_OutputTokens upd else au_OutputTokens current)\<rparr>"

record messages_state =
  ms_answer :: string
  ms_collector :: citationCollector
  ms_usage :: anthropicUsage
  sawMessageStop :: bool

text \<open>\<open>consumeResponse\<close>; on an error the caller drops the state.\<close>

definition consume_message :: "anthropicMessagesResponse \<Rightarrow> nat \<Rightarrow> messages_state \<Rightarrow> grok_error + messages_state" where
  "consume_message response payloadBytes st =
     (if ap_Type response = ''error'' then Inl (newUpstreamStreamError anthropicProtocolName (ap_Type response) payloadBytes)
      else and_then (case ap_Message response of
               None \<Rightarrow> Inr (ms_answer st, ms_collector st)
             | Some m \<Rightarrow> collectAnthropicContent (elems (amr_Content m)) (ms_answer st, ms_collector st)) (\<lambda>ac1.
           let usage1 = (case ap_Message response of None \<Rightarrow> ms_usage st | Some m \<Rightarrow> mergeAnthropicUsage (ms_usage st) (amr_Usage m))
           in and_then (collectAnthropicContent (elems (ap_Content response)) ac1) (\<lambda>ac2.
             let usage2 = mergeAnthropicUsage usage1 (ap_Usage response)
             in and_then (if ad_Type (ap_Delta response) = ''text_delta'' then appendAnswerText (fst ac2) [ad_Text (ap_Delta response)] else Inr (fst ac2)) (\<lambda>answer.
               let collector = (if ad_Type (ap_Delta response) = ''citations_delta''
                     then cc_add (ac_URL (ad_Citation (ap_Delta response))) (ac_Title (ad_Citation (ap_Delta response))) (snd ac2) else snd ac2)
               in case cc_err collector of
                    Some e \<Rightarrow> Inl e
                  | None \<Rightarrow> Inr (st\<lparr>ms_answer := answer, ms_collector := collector, ms_usage := mergeAnthropicUsage usage2 (ad_Usage (ap_Delta response))\<rparr>)))))"

definition message_event :: "json_lib \<Rightarrow> messages_state \<Rightarrow> string \<Rightarrow> messages_state called" where
  "message_event js st payload =
     (case Unmarshal dec_anthropicMessagesResponse zero_anthropicMessagesResponse payload of
        None \<Rightarrow> (st, Some (plain_error (''decode anthropic stream event: '' @ js_Error js payload)))
      | Some response \<Rightarrow>
          let st1 = (if ap_Type response = ''message_stop'' then st\<lparr>sawMessageStop := True\<rparr> else st)
          in case consume_message response (length payload) st1 of Inl e \<Rightarrow> (st1, Some e) | Inr st2 \<Rightarrow> (st2, None))"

definition new_messages_state :: messages_state where
  "new_messages_state = \<lparr>ms_answer = [], ms_collector = newCitationCollector, ms_usage = zero_anthropicUsage, sawMessageStop = False\<rparr>"

definition parseAnthropicMessagesResponse :: "json_lib \<Rightarrow> stream_body \<Rightarrow> grok_error + SearchResult" where
  "parseAnthropicMessagesResponse js body =
     (case readAllUpstreamResponse body of
        Inl e \<Rightarrow> Inl (newUpstreamResponseReadError anthropicProtocolName ''read_messages_response'' 0 0 (unwrapped e))
      | Inr rawBody \<Rightarrow>
          (let isSSE = isAnthropicSSEResponse rawBody
           in case (if isSSE then forEachSSEEvent \<lparr>sb_bytes = rawBody, sb_error = None\<rparr> (message_event js) new_messages_state
                    else case Unmarshal dec_anthropicMessagesResponse zero_anthropicMessagesResponse rawBody of
                        None \<Rightarrow> (new_messages_state, Some (plain_error (js_Error js rawBody)))
                      | Some response \<Rightarrow>
                          (case consume_message response (length rawBody) new_messages_state of
                             Inl e \<Rightarrow> (new_messages_state, Some e) | Inr st \<Rightarrow> (st, None))) of
                (st, err) \<Rightarrow>
                  if isSSE \<and> err = None \<and> \<not> sawMessageStop st
                  then Inl (plain_error ''upstream anthropic messages stream ended prematurely without message_stop event'')
                  else case err of
                      Some e \<Rightarrow> Inl e
                    | None \<Rightarrow>
                        let answerText = TrimSpace (ms_answer st); u = ms_usage st
                        in if answerText = [] then Inl (plain_error ''upstream response did not contain answer text'')
                           else Inr \<lparr>res_Answer = answerText, res_Citations = cc_citations (ms_collector st), res_Sources = cc_sources (ms_collector st),
                             res_Usage = (if au_InputTokens u \<noteq> 0 \<or> au_OutputTokens u \<noteq> 0
                               then Some \<lparr>InputTokens = au_InputTokens u, OutputTokens = au_OutputTokens u,
                                 TotalTokens = wrap64 (au_InputTokens u + au_OutputTokens u), ReasoningTokens = 0\<rparr>
                               else None),
                             res_RawResponse = rawBody\<rparr>))"

section \<open>Bounded results\<close>

definition messages_ok :: "messages_state \<Rightarrow> bool" where
  "messages_ok st \<longleftrightarrow> length (ms_answer st) \<le> maxAggregatedAnswerBytes \<and> collector_ok (ms_collector st)"

lemma fold_cc_add_ok: "collector_ok c \<Longrightarrow> collector_ok (fold (\<lambda>x c. cc_add (url x) (title x) c) xs c)"
  by (rule fold_keeps) (simp_all add: cc_add_ok)

lemma collectAnthropicContent_ok:
  "collectAnthropicContent bs st = Inr st' \<Longrightarrow> length (fst st) \<le> maxAggregatedAnswerBytes \<Longrightarrow> collector_ok (snd st) \<Longrightarrow>
     length (fst st') \<le> maxAggregatedAnswerBytes \<and> collector_ok (snd st')"
proof (induction bs arbitrary: st)
  case (Cons block rest)
  define c2 where "c2 = fold (\<lambda>result c. cc_add (atr_URL result) (atr_Title result) c) (elems (ab_Content block))
    (fold (\<lambda>citation c. cc_add (ac_URL citation) (ac_Title citation) c) (elems (ab_Citations block)) (snd st))"
  obtain answer where a: "appendAnswerText (fst st) [ab_Text block] = Inr answer" "collectAnthropicContent rest (answer, c2) = Inr st'"
    using Cons.prems(1) by (auto simp: and_then_Inr Let_def c2_def split: option.splits)
  have "collector_ok c2" unfolding c2_def using Cons.prems(3) by (simp only: fold_cc_add_ok)
  then show ?case using Cons.IH [OF a(2)] appendAnswerText_Inr [OF a(1)] by auto
qed simp

lemma consume_message_ok:
  assumes "consume_message response n st = Inr st'" "messages_ok st"
  shows "messages_ok st' \<and> sawMessageStop st' = sawMessageStop st"
proof -
  have ne: "ap_Type response \<noteq> ''error''" using assms(1) by (auto simp: consume_message_def)
  obtain ac1 ac2 answer where q:
    "(case ap_Message response of None \<Rightarrow> Inr (ms_answer st, ms_collector st)
      | Some m \<Rightarrow> collectAnthropicContent (elems (amr_Content m)) (ms_answer st, ms_collector st)) = Inr ac1"
    "collectAnthropicContent (elems (ap_Content response)) ac1 = Inr ac2"
    "(if ad_Type (ap_Delta response) = ''text_delta'' then appendAnswerText (fst ac2) [ad_Text (ap_Delta response)] else Inr (fst ac2)) = Inr answer"
    "(case cc_err (if ad_Type (ap_Delta response) = ''citations_delta''
         then cc_add (ac_URL (ad_Citation (ap_Delta response))) (ac_Title (ad_Citation (ap_Delta response))) (snd ac2) else snd ac2) of
        Some e \<Rightarrow> Inl e
      | None \<Rightarrow> Inr (st\<lparr>ms_answer := answer, ms_collector := (if ad_Type (ap_Delta response) = ''citations_delta''
          then cc_add (ac_URL (ad_Citation (ap_Delta response))) (ac_Title (ad_Citation (ap_Delta response))) (snd ac2) else snd ac2),
          ms_usage := mergeAnthropicUsage (mergeAnthropicUsage (case ap_Message response of None \<Rightarrow> ms_usage st | Some m \<Rightarrow> mergeAnthropicUsage (ms_usage st) (amr_Usage m))
            (ap_Usage response)) (ad_Usage (ap_Delta response))\<rparr>)) = Inr st'"
    using assms(1) unfolding consume_message_def if_not_P [OF ne] and_then_Inr Let_def by blast
  note p = q(1-3)
  have s: "ms_answer st' = answer" "sawMessageStop st' = sawMessageStop st"
    "ms_collector st' = (if ad_Type (ap_Delta response) = ''citations_delta''
       then cc_add (ac_URL (ad_Citation (ap_Delta response))) (ac_Title (ad_Citation (ap_Delta response))) (snd ac2) else snd ac2)"
    using q(4) by (auto split: option.splits)
  have "length (fst ac1) \<le> maxAggregatedAnswerBytes \<and> collector_ok (snd ac1)"
    using p(1) assms(2) by (auto simp: messages_ok_def dest: collectAnthropicContent_ok split: option.splits)
  then have "length (fst ac2) \<le> maxAggregatedAnswerBytes \<and> collector_ok (snd ac2)" using collectAnthropicContent_ok [OF p(2)] by blast
  then show ?thesis using p(3) s by (auto simp: messages_ok_def cc_add_ok dest: appendAnswerText_Inr split: if_splits)
qed

definition stop_event :: "string \<Rightarrow> bool" where
  "stop_event p \<longleftrightarrow> map_option ap_Type (Unmarshal dec_anthropicMessagesResponse zero_anthropicMessagesResponse p) = Some ''message_stop''"

lemma message_event_parts:
  assumes "messages_ok st" "message_event js st p = (st', e)"
  shows "messages_ok st'" "e = None \<Longrightarrow> sawMessageStop st' \<Longrightarrow> sawMessageStop st \<or> stop_event p"
proof -
  have "messages_ok st' \<and> (e = None \<longrightarrow> sawMessageStop st' \<longrightarrow> sawMessageStop st \<or> stop_event p)"
  proof (cases "Unmarshal dec_anthropicMessagesResponse zero_anthropicMessagesResponse p")
    case None
    then show ?thesis using assms by (simp add: message_event_def)
  next
    case (Some response)
    define st1 where "st1 = (if ap_Type response = ''message_stop'' then st\<lparr>sawMessageStop := True\<rparr> else st)"
    have st1: "messages_ok st1" "sawMessageStop st1 \<Longrightarrow> sawMessageStop st \<or> stop_event p"
      using assms(1) Some by (auto simp: st1_def messages_ok_def stop_event_def)
    have "(case consume_message response (length p) st1 of Inl e \<Rightarrow> (st1, Some e) | Inr st2 \<Rightarrow> (st2, None)) = (st', e)"
      using assms(2) unfolding message_event_def Some option.case Let_def st1_def .
    then show ?thesis using st1 consume_message_ok [OF _ st1(1)] by (auto split: sum.splits)
  qed
  then show "messages_ok st'" "e = None \<Longrightarrow> sawMessageStop st' \<Longrightarrow> sawMessageStop st \<or> stop_event p" by simp_all
qed

lemma message_event_ok: "messages_ok st \<Longrightarrow> messages_ok (fst (message_event js st p))"
  using message_event_parts(1) by (cases "message_event js st p") auto

lemma collectAnthropicContent_err:
  "collectAnthropicContent bs st = Inl e \<Longrightarrow> collector_ok (snd st) \<Longrightarrow> internal_error e"
proof (induction bs arbitrary: st)
  case (Cons block rest)
  define c2 where "c2 = fold (\<lambda>result c. cc_add (atr_URL result) (atr_Title result) c) (elems (ab_Content block))
    (fold (\<lambda>citation c. cc_add (ac_URL citation) (ac_Title citation) c) (elems (ab_Citations block)) (snd st))"
  have c2: "collector_ok c2" unfolding c2_def using Cons.prems(2) by (simp only: fold_cc_add_ok)
  have "and_then (appendAnswerText (fst st) [ab_Text block]) (\<lambda>answer.
      case cc_err c2 of Some e \<Rightarrow> Inl e | None \<Rightarrow> collectAnthropicContent rest (answer, c2)) = Inl e"
    using Cons.prems(1) unfolding collectAnthropicContent.simps(2) Let_def c2_def .
  then show ?case using Cons.IH c2 collector_err [OF c2] appendAnswerText_Inl by (auto simp: and_then_def split: sum.splits option.splits)
qed simp

lemma consume_message_err:
  assumes "consume_message response n st = Inl e" "messages_ok st"
  shows "internal_error e"
proof (cases "ap_Type response = ''error''")
  case False
  let ?first = "case ap_Message response of None \<Rightarrow> Inr (ms_answer st, ms_collector st)
      | Some m \<Rightarrow> collectAnthropicContent (elems (amr_Content m)) (ms_answer st, ms_collector st)"
  have col: "collector_ok (snd (ms_answer st, ms_collector st))" "length (fst (ms_answer st, ms_collector st)) \<le> maxAggregatedAnswerBytes"
    using assms(2) by (simp_all add: messages_ok_def)
  have first: "internal_error x" if "?first = Inl x" for x
    using that collectAnthropicContent_err [OF _ col(1)] by (auto split: option.splits)
  have first_ok: "length (fst ac) \<le> maxAggregatedAnswerBytes \<and> collector_ok (snd ac)" if "?first = Inr ac" for ac
    using that col collectAnthropicContent_ok [OF _ col(2,1)] by (auto split: option.splits)
  have add: "internal_error x" if "cc_err (if b then cc_add url title c else c) = Some x" "collector_ok c" for b url title c x
    using collector_err [OF _ that(1)] that(2) cc_add_ok by (auto split: if_splits)
  show ?thesis
  proof (cases ?first)
    case (Inl x)
    then show ?thesis using assms(1) first unfolding consume_message_def if_not_P [OF False] by simp
  next
    case (Inr ac1)
    note ac1 = first_ok [OF Inr]
    show ?thesis
    proof (cases "collectAnthropicContent (elems (ap_Content response)) ac1")
      case (Inl x)
      then show ?thesis using assms(1) collectAnthropicContent_err [OF Inl] ac1 unfolding consume_message_def if_not_P [OF False] Inr by (simp add: Let_def)
    next
      case ac2: (Inr ac2)
      have "collector_ok (snd ac2)" using collectAnthropicContent_ok [OF ac2] ac1 by simp
      then show ?thesis using assms(1) add unfolding consume_message_def if_not_P [OF False] Inr and_then_simps Let_def ac2
        by (auto simp: and_then_def dest!: appendAnswerText_Inl split: sum.splits option.splits if_splits)
    qed
  qed
qed (use assms(1) in \<open>auto simp: consume_message_def\<close>)

lemma message_event_err: "messages_ok st \<Longrightarrow> snd (message_event js st p) = Some e \<Longrightarrow> internal_error e"
proof (cases "Unmarshal dec_anthropicMessagesResponse zero_anthropicMessagesResponse p")
  case (Some response)
  assume st: "messages_ok st" and e: "snd (message_event js st p) = Some e"
  have ok: "messages_ok (if b then st\<lparr>sawMessageStop := True\<rparr> else st)" for b using st by (simp add: messages_ok_def)
  show ?thesis using e consume_message_err [OF _ ok [of "ap_Type response = ''message_stop''"]] unfolding message_event_def Some option.case Let_def
    by (auto split: sum.splits)
qed (auto simp: message_event_def)

interpretation messages_consumer: sse_error_consumer "message_event js" "\<lambda>u. (u, None)" messages_ok internal_error
  by unfold_locales (rule message_event_ok, simp_all add: message_event_err)

lemma new_messages_ok: "messages_ok new_messages_state"
  by (simp add: messages_ok_def new_messages_state_def collector_ok_new)

lemma deliver_stop:
  "deliver (message_event js) (\<lambda>u. (u, None)) ps st = (st', None) \<Longrightarrow> sawMessageStop st' \<Longrightarrow> messages_ok st \<Longrightarrow>
     sawMessageStop st \<or> list_ex stop_event ps"
proof (induction ps arbitrary: st)
  case (Cons p ps)
  show ?case
  proof (cases "p = ''[DONE]''")
    case True
    then show ?thesis using Cons by (auto split: prod.splits option.splits)
  next
    case False
    then obtain st1 where st1: "message_event js st p = (st1, None)" "deliver (message_event js) (\<lambda>u. (u, None)) ps st1 = (st', None)"
      using Cons.prems(1) by (auto split: prod.splits option.splits)
    have "messages_ok st1" using message_event_ok [OF Cons.prems(3), of js p] st1(1) by simp
    then have "sawMessageStop st1 \<or> list_ex stop_event ps" using Cons.IH [OF st1(2) Cons.prems(2)] by simp
    then show ?thesis using message_event_parts(2) [OF Cons.prems(3) st1(1)] by auto
  qed
qed simp

text \<open>
  Messages. A response gives a result only if its whole body was read within 8 MiB and, when it is
  an event stream, carried a stop event; the raw response is the body, and answer and citations are
  bounded.
\<close>

theorem messages_response_sound:
  assumes "parseAnthropicMessagesResponse js body = Inr res"
  shows "sb_error body = None \<and> length (sb_bytes body) \<le> maxUpstreamResponseBytes \<and> res_RawResponse res = sb_bytes body \<and>
    (isAnthropicSSEResponse (sb_bytes body) \<longrightarrow> list_ex stop_event (sse_payloads (body_lines (sb_bytes body)))) \<and> result_ok res"
proof -
  obtain rawBody where raw: "readAllUpstreamResponse body = Inr rawBody"
    using assms by (auto simp: parseAnthropicMessagesResponse_def split: sum.splits)
  have body: "rawBody = sb_bytes body" "length (sb_bytes body) \<le> maxUpstreamResponseBytes" "sb_error body = None"
    using raw by (auto simp: readAllUpstreamResponse_def Let_def limited_def split: option.splits if_splits)
  let ?sse = "isAnthropicSSEResponse rawBody"
  obtain st err where run: "(if ?sse then forEachSSEEvent \<lparr>sb_bytes = rawBody, sb_error = None\<rparr> (message_event js) new_messages_state
      else case Unmarshal dec_anthropicMessagesResponse zero_anthropicMessagesResponse rawBody of
          None \<Rightarrow> (new_messages_state, Some (plain_error (js_Error js rawBody)))
        | Some response \<Rightarrow>
            (case consume_message response (length rawBody) new_messages_state of
               Inl e \<Rightarrow> (new_messages_state, Some e) | Inr st \<Rightarrow> (st, None))) = (st, err)" (is "?run = _") by fastforce
  have r: "err = None" "?sse \<Longrightarrow> sawMessageStop st" "TrimSpace (ms_answer st) \<noteq> []" "res_RawResponse res = rawBody"
    "res_Answer res = TrimSpace (ms_answer st)" "res_Citations res = cc_citations (ms_collector st)" "res_Sources res = cc_sources (ms_collector st)"
    using assms unfolding parseAnthropicMessagesResponse_def raw sum.case Let_def run prod.case by (auto split: if_splits option.splits)
  have ok: "messages_ok st \<and> (?sse \<longrightarrow> list_ex stop_event (sse_payloads (body_lines (sb_bytes body))))"
  proof (cases ?sse)
    case True
    then have read: "forEachSSEEventWithDone \<lparr>sb_bytes = rawBody, sb_error = None\<rparr> (message_event js) (\<lambda>u. (u, None)) new_messages_state = (st, None)"
      using run r(1) by (simp add: forEachSSEEvent_def)
    have "messages_ok st" using messages_consumer.reader_inv [OF new_messages_ok, of "\<lparr>sb_bytes = rawBody, sb_error = None\<rparr>" js] read by simp
    then show ?thesis using deliver_stop [OF sse_reader_success(2) [OF read] r(2) [OF True] new_messages_ok] body(1) by (simp add: new_messages_state_def)
  next
    case False
    then show ?thesis using run r(1) consume_message_ok [OF _ new_messages_ok] by (auto split: option.splits sum.splits)
  qed
  have "result_ok res" using ok r TrimSpace_length [of "ms_answer st"] by (auto simp: messages_ok_def result_ok_def collector_ok_def)
  then show ?thesis using body ok r(4) by simp
qed

lemma parseAnthropicMessagesResponse_err:
  assumes "parseAnthropicMessagesResponse js body = Inl e"
  shows "internal_error e"
proof (cases "readAllUpstreamResponse body")
  case (Inl x)
  then show ?thesis using assms by (auto simp: parseAnthropicMessagesResponse_def)
next
  case (Inr rawBody)
  let ?sse = "isAnthropicSSEResponse rawBody"
  obtain st err where run: "(if ?sse then forEachSSEEvent \<lparr>sb_bytes = rawBody, sb_error = None\<rparr> (message_event js) new_messages_state
      else case Unmarshal dec_anthropicMessagesResponse zero_anthropicMessagesResponse rawBody of
          None \<Rightarrow> (new_messages_state, Some (plain_error (js_Error js rawBody)))
        | Some response \<Rightarrow>
            (case consume_message response (length rawBody) new_messages_state of
               Inl e \<Rightarrow> (new_messages_state, Some e) | Inr st \<Rightarrow> (st, None))) = (st, err)" by fastforce
  have err: "internal_error x" if "err = Some x" for x
  proof (cases ?sse)
    case True
    then show ?thesis using messages_consumer.reader_err [OF new_messages_ok, of "\<lparr>sb_bytes = rawBody, sb_error = None\<rparr>" js x] run that
      by (simp add: forEachSSEEvent_def)
  next
    case False
    then show ?thesis using run that consume_message_err [OF _ new_messages_ok] by (auto split: option.splits sum.splits)
  qed
  show ?thesis using assms err unfolding parseAnthropicMessagesResponse_def Inr sum.case Let_def run prod.case by (auto split: if_splits option.splits)
qed

definition demo_message :: string where
  "demo_message = ''{\"content\":[{\"text\":\"42\"}]}''"

definition demo_message_result :: SearchResult where
  "demo_message_result = \<lparr>res_Answer = ''42'', res_Citations = [], res_Sources = [], res_Usage = None, res_RawResponse = demo_message\<rparr>"

lemma demo_message_parsed: "parseAnthropicMessagesResponse demo_json_lib \<lparr>sb_bytes = demo_message, sb_error = None\<rparr> = Inr demo_message_result"
proof -
  have "length demo_message < 100" by code_simp
  then have raw: "readAllUpstreamResponse \<lparr>sb_bytes = demo_message, sb_error = None\<rparr> = Inr demo_message"
    by (simp add: readAllUpstreamResponse_def limited_def maxUpstreamResponseBytes_def Let_def)
  have sse: "\<not> isAnthropicSSEResponse demo_message" by code_simp
  have run: "map_option (\<lambda>response. consume_message response (length demo_message) new_messages_state)
      (Unmarshal dec_anthropicMessagesResponse zero_anthropicMessagesResponse demo_message) = Some (Inr (new_messages_state\<lparr>ms_answer := ''42''\<rparr>))"
    by code_simp
  have "TrimSpace ''42'' = ''42''" by code_simp
  then show ?thesis using sse run unfolding parseAnthropicMessagesResponse_def raw sum.case Let_def
    by (auto simp: demo_message_result_def new_messages_state_def newCitationCollector_def zero_anthropicUsage_def split: option.splits)
qed

theorem messages_response_sound_witness: "result_ok demo_message_result \<and> \<not> isAnthropicSSEResponse demo_message"
proof -
  have "\<not> isAnthropicSSEResponse demo_message" by code_simp
  then show ?thesis using messages_response_sound [OF demo_message_parsed] by simp
qed

end
