(* ===== verification/Grok_Client.thy ===== *)
theory Grok_Client
  imports Grok_Chat Grok_Messages
begin

text \<open>
  The upstream client (\<open>internal/grok/client.go\<close>, \<open>ListModels\<close> of \<open>models.go\<close> and the search loops of the
  three protocols): settings swapped as a whole, searches that keep the snapshot they began with,
  requests, HTTP errors and the continuation of chat answers. The network is a function from the number
  of a request within the call and the request to the error or the response. Timings and debug logs are
  left out. Shown: every call sends at most three requests, all to the configured endpoint, an invalid
  request sends none, and every result is bounded and final.
\<close>

section \<open>The client\<close>

definition upstreamIdleConnectionPoolSize :: int where "upstreamIdleConnectionPoolSize = 100"
definition maxUpstreamErrorBodyBytes :: nat where "maxUpstreamErrorBodyBytes = 64 * 1024"

text \<open>\<open>http.Client\<close>: the timeouts of its phases and the proxy, \<open>None\<close> for the one of the environment; redirects are never followed.\<close>

record http_client =
  hc_phaseTimeout :: duration
  hc_MaxIdleConns :: int
  hc_Proxy :: "string option"

record clientSnapshot =
  cl_baseURL :: string
  cl_apiKey :: string
  cl_protocol :: UpstreamProtocol
  cl_defaultModel :: string
  cl_httpClient :: http_client

record Client = clientSnapshot +
  cl_debug :: bool

definition snapshot :: "Client \<Rightarrow> clientSnapshot" where
  "snapshot c = clientSnapshot.truncate c"

definition defaultTimeoutFallback :: duration where "defaultTimeoutFallback = 120 * Second"

definition newHTTPClientWithProxy :: "config_lib \<Rightarrow> duration \<Rightarrow> string \<Rightarrow> bool \<Rightarrow> string + http_client" where
  "newHTTPClientWithProxy lib phaseTimeout proxyURL proxyEnabled =
     (let phaseTimeout = (if phaseTimeout \<le> 0 then defaultTimeoutFallback else phaseTimeout);
          explicitProxyURL = TrimSpace proxyURL;
          transport = (\<lambda>proxy. \<lparr>hc_phaseTimeout = phaseTimeout, hc_MaxIdleConns = upstreamIdleConnectionPoolSize, hc_Proxy = proxy\<rparr>)
      in if proxyEnabled
         then if explicitProxyURL = [] then Inl ''proxy URL is required when proxy is enabled''
              else if lib_url_Parse lib explicitProxyURL = None then Inl ''proxy URL is invalid''
              else Inr (transport (Some explicitProxyURL))
         else Inr (transport None))"

definition client_ApplyServerSettings :: "config_lib \<Rightarrow> Runtime \<Rightarrow> Client \<Rightarrow> string + Client" where
  "client_ApplyServerSettings lib s c =
     and_then (NormalizeUpstreamProtocol lib (rt_UpstreamProtocol s)) (\<lambda>protocol.
     and_then (newHTTPClientWithProxy lib (wrap64 (TimeoutSeconds s * Second)) (ProxyURL s) (ProxyEnabled s)) (\<lambda>httpClient.
       Inr (c\<lparr>cl_baseURL := CPABaseURL s, cl_apiKey := CPAAPIKey s, cl_protocol := protocol, cl_defaultModel := Model s,
         cl_httpClient := httpClient, cl_debug := Debug s\<rparr>)))"

definition NewClientWithServerSettings :: "config_lib \<Rightarrow> Runtime \<Rightarrow> string + Client" where
  "NewClientWithServerSettings lib s =
     client_ApplyServerSettings lib s \<lparr>cl_baseURL = [], cl_apiKey = [], cl_protocol = [], cl_defaultModel = [],
       cl_httpClient = \<lparr>hc_phaseTimeout = 0, hc_MaxIdleConns = 0, hc_Proxy = None\<rparr>, cl_debug = Debug s\<rparr>"

section \<open>Requests and responses\<close>

datatype wire_body =
    NoBody
  | ResponsesBody responsesRequest
  | ChatBody chatCompletionsRequest
  | MessagesBody anthropicMessagesRequest

record http_request =
  hq_Method :: string
  hq_URL :: string
  hq_Headers :: "(string \<times> string) list"
  hq_Body :: wire_body
  hq_client :: http_client

text \<open>\<open>hr_taken\<close>: how many bytes the buffered readers have taken from the body when its parsing fails early.\<close>

record http_response =
  hr_StatusCode :: int
  hr_Body :: stream_body
  hr_taken :: nat

type_synonym network = "nat \<Rightarrow> http_request \<Rightarrow> io_error + http_response"

text \<open>The error of a URL that does not parse is neither a timeout nor a cancellation.\<close>

definition url_error :: io_error where
  "url_error = \<lparr>is_timeout = False, is_canceled = False\<rparr>"

text \<open>The request that was sent, if one was, and what came back.\<close>

definition postJSON ::
  "config_lib \<Rightarrow> network \<Rightarrow> nat \<Rightarrow> clientSnapshot \<Rightarrow> string \<Rightarrow> wire_body \<Rightarrow> bool \<Rightarrow> http_request list \<times> (grok_error + http_response)" where
  "postJSON lib net n s endpoint body anthropicHeaders =
     (if lib_url_Parse lib (cl_baseURL s @ endpoint) = None
      then ([], Inl (newUpstreamTransportError (cl_protocol s) ''create_request'' url_error))
      else let httpReq = \<lparr>hq_Method = ''POST'', hq_URL = cl_baseURL s @ endpoint,
             hq_Headers = [(''Content-Type'', ''application/json''), (''Authorization'', ''Bearer '' @ cl_apiKey s)] @
               (if anthropicHeaders then [(''x-api-key'', cl_apiKey s), (''anthropic-version'', ''2023-06-01'')] else []) @
               [(''Accept'', ''text/event-stream'')],
             hq_Body = body, hq_client = cl_httpClient s\<rparr>
        in ([httpReq],
            case net n httpReq of Inl e \<Rightarrow> Inl (newUpstreamTransportError (cl_protocol s) endpoint e) | Inr resp \<Rightarrow> Inr resp))"

definition client_httpError :: "clientSnapshot \<Rightarrow> http_response \<Rightarrow> grok_error" where
  "client_httpError s resp =
     (let limitedBody = limited (maxUpstreamErrorBodyBytes + 1) (hr_Body resp); respBody = sb_bytes limitedBody
      in case sb_error limitedBody of
           Some e \<Rightarrow> newUpstreamResponseReadError (cl_protocol s) ''read_error_response'' (hr_StatusCode resp) (length respBody) (Some e)
         | None \<Rightarrow> Upstream \<lparr>ue_Category = UpstreamErrorCategoryHTTPStatus, ue_Protocol = cl_protocol s, ue_Operation = ''upstream_response'',
             ue_StatusCode = hr_StatusCode resp, ue_BodyBytes = length respBody,
             ue_BodyTruncated = (maxUpstreamErrorBodyBytes < length respBody), ue_Event = [], ue_cause = None\<rparr>)"

definition is_success :: "http_response \<Rightarrow> bool" where
  "is_success resp \<longleftrightarrow> \<not> (hr_StatusCode resp < 200 \<or> 300 \<le> hr_StatusCode resp)"

section \<open>Searches\<close>

text \<open>The requests a call sends, the rounds it reports and what it returns.\<close>

record search_run =
  sn_requests :: "http_request list"
  sn_rounds :: "SearchRound list"
  sn_result :: "grok_error + SearchResult"

definition failed_search :: "http_request list \<Rightarrow> grok_error \<Rightarrow> search_run" where
  "failed_search requests e = \<lparr>sn_requests = requests, sn_rounds = [], sn_result = Inl e\<rparr>"

definition searchResponses :: "config_lib \<Rightarrow> json_lib \<Rightarrow> network \<Rightarrow> clientSnapshot \<Rightarrow> SearchRequest \<Rightarrow> search_run" where
  "searchResponses lib js net s req =
     (case buildSearchRequestBody lib req (cl_defaultModel s) of
        Inl e \<Rightarrow> failed_search [] e
      | Inr body \<Rightarrow>
          (case postJSON lib net 0 s ''/v1/responses'' (ResponsesBody body) False of
             (requests, Inl e) \<Rightarrow> failed_search requests e
           | (requests, Inr response) \<Rightarrow>
               if \<not> is_success response then failed_search requests (client_httpError s response)
               else (case parseSearchStream js (hr_Body response) of
                   (rounds, result) \<Rightarrow> \<lparr>sn_requests = requests, sn_rounds = rounds, sn_result = result\<rparr>)))"

definition searchAnthropicMessages :: "config_lib \<Rightarrow> json_lib \<Rightarrow> network \<Rightarrow> clientSnapshot \<Rightarrow> SearchRequest \<Rightarrow> search_run" where
  "searchAnthropicMessages lib js net s req =
     (case buildAnthropicMessagesRequestBody lib req (cl_defaultModel s) of
        Inl e \<Rightarrow> failed_search [] e
      | Inr body \<Rightarrow>
          (case postJSON lib net 0 s ''/v1/messages'' (MessagesBody body) True of
             (requests, Inl e) \<Rightarrow> failed_search requests e
           | (requests, Inr response) \<Rightarrow>
               if \<not> is_success response then failed_search requests (client_httpError s response)
               else \<lparr>sn_requests = requests, sn_rounds = [], sn_result = parseAnthropicMessagesResponse js (hr_Body response)\<rparr>))"

definition accumulate_usage :: "Usage \<Rightarrow> Usage \<Rightarrow> Usage" where
  "accumulate_usage acc u = \<lparr>InputTokens = wrap64 (InputTokens acc + InputTokens u), OutputTokens = wrap64 (OutputTokens acc + OutputTokens u),
     TotalTokens = wrap64 (TotalTokens acc + TotalTokens u), ReasoningTokens = wrap64 (ReasoningTokens acc + ReasoningTokens u)\<rparr>"

text \<open>The attempts that are left, counted down, and the usage accumulated so far, \<open>None\<close> without any.\<close>

fun chat_attempts :: "config_lib \<Rightarrow> json_lib \<Rightarrow> network \<Rightarrow> clientSnapshot \<Rightarrow> nat \<Rightarrow> chatCompletionsRequest \<Rightarrow> Usage option \<Rightarrow> search_run" where
  "chat_attempts lib js net s left upstreamRequest accumulatedUsage =
     (case postJSON lib net (maxChatContinuationAttempts - left) s ''/v1/chat/completions'' (ChatBody upstreamRequest) False of
        (requests, Inl e) \<Rightarrow> failed_search requests e
      | (requests, Inr response) \<Rightarrow>
          if \<not> is_success response then failed_search requests (client_httpError s response)
          else (case parseChatCompletionsResponse js (hr_taken response) (hr_Body response) of
              (rounds, Inl e) \<Rightarrow> \<lparr>sn_requests = requests, sn_rounds = rounds, sn_result = Inl e\<rparr>
            | (rounds, Inr result) \<Rightarrow>
                let accumulatedUsage = (case res_Usage result of
                      None \<Rightarrow> accumulatedUsage
                    | Some u \<Rightarrow> Some (accumulate_usage (case accumulatedUsage of None \<Rightarrow> zero_Usage | Some a \<Rightarrow> a) u))
                in if \<not> isChatIntermediateAnswer lib (res_Answer result)
                   then \<lparr>sn_requests = requests, sn_rounds = rounds,
                     sn_result = Inr (if accumulatedUsage \<noteq> None then result\<lparr>res_Usage := accumulatedUsage\<rparr> else result)\<rparr>
                   else (case left of
                       0 \<Rightarrow> \<lparr>sn_requests = requests, sn_rounds = rounds, sn_result = Inl (plain_error
                         (''chat completions did not return a final answer after '' @ Itoa (int maxChatContinuationAttempts) @ '' continuation attempts''))\<rparr>
                     | Suc left' \<Rightarrow>
                         let continued = chat_attempts lib js net s left' (upstreamRequest\<lparr>cr_Messages := cr_Messages upstreamRequest @
                               [\<lparr>cg_Role = ''assistant'', cg_Content = res_Answer result\<rparr>,
                                \<lparr>cg_Role = ''user'', cg_Content = chatFinalAnswerInstruction\<rparr>]\<rparr>) accumulatedUsage
                         in continued\<lparr>sn_requests := requests @ sn_requests continued, sn_rounds := rounds @ sn_rounds continued\<rparr>)))"

declare chat_attempts.simps [simp del]

definition searchChatCompletions :: "config_lib \<Rightarrow> json_lib \<Rightarrow> network \<Rightarrow> clientSnapshot \<Rightarrow> SearchRequest \<Rightarrow> search_run" where
  "searchChatCompletions lib js net s req =
     (case buildChatCompletionsRequest lib req (cl_defaultModel s) of
        Inl e \<Rightarrow> failed_search [] e
      | Inr upstreamRequest \<Rightarrow> chat_attempts lib js net s maxChatContinuationAttempts upstreamRequest None)"

definition SearchStream :: "config_lib \<Rightarrow> json_lib \<Rightarrow> network \<Rightarrow> Client \<Rightarrow> SearchRequest \<Rightarrow> search_run" where
  "SearchStream lib js net c req =
     (let s = snapshot c
      in case validateSearchRequest lib req of
           Inl e \<Rightarrow> failed_search [] e
         | Inr req \<Rightarrow>
             if cl_protocol s = UpstreamProtocolResponses then searchResponses lib js net s req
             else if cl_protocol s = UpstreamProtocolChatCompletions then searchChatCompletions lib js net s req
             else if cl_protocol s = UpstreamProtocolAnthropicMessages then searchAnthropicMessages lib js net s req
             else failed_search [] (plain_error (''unsupported upstream protocol: '' @ [CHR 0x22] @ cl_protocol s @ [CHR 0x22])))"

section \<open>Models\<close>

definition maxModelsResponseBytes :: nat where "maxModelsResponseBytes = 2 ^ 20"

record upstreamModel =
  um_ID :: string

record upstreamModelsResponse =
  um_Data :: "upstreamModel slice"

definition dec_upstreamModelsResponse :: "upstreamModelsResponse decoder" where
  "dec_upstreamModelsResponse = dec_struct [(''data'', field (dec_slice \<lparr>um_ID = []\<rparr> (dec_struct [(''id'', field dec_string um_ID um_ID_update)]))
     um_Data um_Data_update)]"

text \<open>The decoder reads one value; what follows it is not looked at.\<close>

definition decodeModelsResponse :: "json_lib \<Rightarrow> stream_body \<Rightarrow> grok_error + grok_Model list" where
  "decodeModelsResponse js body =
     (let limitedBody = limited maxModelsResponseBytes body; content = sb_bytes limitedBody
      in case json_value (2 * length content + 1) maxNestingDepth content of
           None \<Rightarrow> Inl (Errorf (''decode models response: '' @ js_Error js content) (stream_cause js (sb_error limitedBody) content))
         | Some (v, rest) \<Rightarrow>
             (case dec_upstreamModelsResponse \<lparr>um_Data = ([], [])\<rparr> v of
                None \<Rightarrow> Inl (plain_error (''decode models response: '' @ js_Mismatch js v))
              | Some upstreamResponse \<Rightarrow> Inr (map (\<lambda>m. \<lparr>gm_ID = um_ID m\<rparr>) (elems (um_Data upstreamResponse)))))"

definition getModels :: "config_lib \<Rightarrow> network \<Rightarrow> clientSnapshot \<Rightarrow> http_request list \<times> (grok_error + http_response)" where
  "getModels lib net s =
     (if lib_url_Parse lib (cl_baseURL s @ ''/v1/models'') = None
      then ([], Inl (newUpstreamTransportError (cl_protocol s) ''create_models_request'' url_error))
      else let httpReq = \<lparr>hq_Method = ''GET'', hq_URL = cl_baseURL s @ ''/v1/models'',
             hq_Headers = [(''Authorization'', ''Bearer '' @ cl_apiKey s), (''Accept'', ''application/json'')], hq_Body = NoBody, hq_client = cl_httpClient s\<rparr>
        in ([httpReq],
            case net 0 httpReq of Inl e \<Rightarrow> Inl (newUpstreamTransportError (cl_protocol s) ''list_models'' e) | Inr resp \<Rightarrow> Inr resp))"

definition ListModels :: "config_lib \<Rightarrow> json_lib \<Rightarrow> network \<Rightarrow> Client \<Rightarrow> grok_error + grok_Model list" where
  "ListModels lib js net c =
     (let s = snapshot c
      in case snd (getModels lib net s) of
           Inl e \<Rightarrow> Inl e
         | Inr resp \<Rightarrow>
             if \<not> is_success resp then Inl (client_httpError s resp)
             else and_then (decodeModelsResponse js (hr_Body resp)) (\<lambda>models. Inr (FilterGrokModels lib models)))"

section \<open>What a search sends\<close>

text \<open>A request of the client, with its key, to one endpoint of the configured upstream.\<close>

definition own_request :: "clientSnapshot \<Rightarrow> string \<Rightarrow> http_request \<Rightarrow> bool" where
  "own_request s endpoint q \<longleftrightarrow> hq_Method q = ''POST'' \<and> hq_URL q = cl_baseURL s @ endpoint \<and>
     (''Authorization'', ''Bearer '' @ cl_apiKey s) \<in> set (hq_Headers q) \<and> hq_client q = cl_httpClient s"

definition search_endpoint :: "UpstreamProtocol \<Rightarrow> string" where
  "search_endpoint p = (if p = UpstreamProtocolResponses then ''/v1/responses''
     else if p = UpstreamProtocolChatCompletions then ''/v1/chat/completions'' else ''/v1/messages'')"

lemma postJSON_requests:
  assumes "postJSON lib net n s endpoint body h = (requests, r)"
  shows "length requests \<le> 1" "list_all (own_request s endpoint) requests"
  using assms by (auto simp: postJSON_def Let_def own_request_def split: if_splits)

lemma chat_attempts_requests:
  "length (sn_requests (chat_attempts lib js net s left q u)) \<le> left + 1 \<and>
     list_all (own_request s ''/v1/chat/completions'') (sn_requests (chat_attempts lib js net s left q u))"
proof (induction left arbitrary: q u)
  case 0
  obtain requests r where p: "postJSON lib net (maxChatContinuationAttempts - 0) s ''/v1/chat/completions'' (ChatBody q) False = (requests, r)" by fastforce
  show ?case using postJSON_requests [OF p] unfolding chat_attempts.simps [of lib js net s 0] p prod.case
    by (simp add: failed_search_def Let_def split: sum.split prod.split option.split)
next
  case (Suc left)
  obtain requests r where p: "postJSON lib net (maxChatContinuationAttempts - Suc left) s ''/v1/chat/completions'' (ChatBody q) False = (requests, r)" by fastforce
  have own: "length requests \<le> 1" "list_all (own_request s ''/v1/chat/completions'') requests" by (rule postJSON_requests [OF p])+
  have more: "length (requests @ sn_requests (chat_attempts lib js net s left q' u')) \<le> Suc left + 1 \<and>
      list_all (own_request s ''/v1/chat/completions'') (requests @ sn_requests (chat_attempts lib js net s left q' u'))" for q' u'
    using Suc [of q' u'] own by simp
  show ?case using own more unfolding chat_attempts.simps [of lib js net s "Suc left"] p prod.case
    by (simp add: failed_search_def Let_def split: sum.split prod.split option.split)
qed

lemma single_requests:
  "length (sn_requests (searchResponses lib js net s req)) \<le> 1"
  "list_all (own_request s ''/v1/responses'') (sn_requests (searchResponses lib js net s req))"
  "length (sn_requests (searchAnthropicMessages lib js net s req)) \<le> 1"
  "list_all (own_request s ''/v1/messages'') (sn_requests (searchAnthropicMessages lib js net s req))"
  by (auto simp: searchResponses_def searchAnthropicMessages_def failed_search_def dest: postJSON_requests split: sum.split prod.split)

lemma chat_requests:
  "length (sn_requests (searchChatCompletions lib js net s req)) \<le> 3 \<and>
     list_all (own_request s ''/v1/chat/completions'') (sn_requests (searchChatCompletions lib js net s req))"
  using chat_attempts_requests [of lib js net s maxChatContinuationAttempts _ None]
  by (auto simp: searchChatCompletions_def failed_search_def maxChatContinuationAttempts_def numeral_3_eq_3 split: sum.split)

text \<open>
  Upstream requests (C28). A search ends after at most three requests, one for the protocols without
  continuation and none for an invalid request; each is a POST to the endpoint of the protocol in force
  when the search began, over that configuration's connection and with its key.
\<close>

theorem search_requests_bounded:
  "length (sn_requests (SearchStream lib js net c req)) \<le> (if cl_protocol c = UpstreamProtocolChatCompletions then 3 else 1) \<and>
   list_all (own_request (snapshot c) (search_endpoint (cl_protocol c))) (sn_requests (SearchStream lib js net c req)) \<and>
   (case validateSearchRequest lib req of Inl e \<Rightarrow> SearchStream lib js net c req = failed_search [] e | Inr _ \<Rightarrow> True)"
proof (cases "validateSearchRequest lib req")
  case (Inl e)
  then show ?thesis by (simp add: SearchStream_def failed_search_def)
next
  case (Inr r)
  have protocol: "cl_protocol (snapshot c) = cl_protocol c" by (simp add: snapshot_def clientSnapshot.truncate_def)
  have distinct: "UpstreamProtocolResponses \<noteq> UpstreamProtocolChatCompletions" "UpstreamProtocolResponses \<noteq> UpstreamProtocolAnthropicMessages"
    "UpstreamProtocolChatCompletions \<noteq> UpstreamProtocolAnthropicMessages"
    by (simp_all add: UpstreamProtocolResponses_def UpstreamProtocolChatCompletions_def UpstreamProtocolAnthropicMessages_def)
  show ?thesis using single_requests chat_requests distinct unfolding SearchStream_def Let_def protocol
    by (auto simp: Inr search_endpoint_def failed_search_def)
qed

section \<open>What a search returns\<close>

lemma result_ok_usage [simp]: "result_ok (res\<lparr>res_Usage := u\<rparr>) = result_ok res"
  by (simp add: result_ok_def)

lemma rounds_ok_length: "rounds_ok rounds \<Longrightarrow> length rounds \<le> 64"
  by (simp add: rounds_ok_def maxSearchRoundCount_def)

lemma chat_attempts_cases:
  assumes "sn_result (chat_attempts lib js net s left q u) = Inr res"
  obtains (final) "rounds_ok (sn_rounds (chat_attempts lib js net s left q u))" "result_ok res" "\<not> isChatIntermediateAnswer lib (res_Answer res)"
    | (continued) rounds left' q' u' where "left = Suc left'" "rounds_ok rounds"
      "sn_result (chat_attempts lib js net s left' q' u') = Inr res"
      "sn_rounds (chat_attempts lib js net s left q u) = rounds @ sn_rounds (chat_attempts lib js net s left' q' u')"
proof -
  obtain requests r where p: "postJSON lib net (maxChatContinuationAttempts - left) s ''/v1/chat/completions'' (ChatBody q) False = (requests, r)" by fastforce
  note run = chat_attempts.simps [of lib js net s left q u, unfolded p prod.case]
  obtain response where response: "r = Inr response" "is_success response"
    using assms unfolding run by (auto simp: failed_search_def split: sum.splits if_splits)
  obtain rounds parsed where parsed: "parseChatCompletionsResponse js (hr_taken response) (hr_Body response) = (rounds, parsed)" by fastforce
  obtain result where result: "parsed = Inr result"
    using assms unfolding run by (auto simp: response parsed split: sum.splits)
  have ok: "result_ok result" "rounds_ok rounds" using chat_response_sound [OF parsed [unfolded result]] by blast+
  note step = run [unfolded response(1) sum.case not_not, simplified response(2) not_True_eq_False if_False parsed result prod.case sum.case]
  show ?thesis
  proof (cases "isChatIntermediateAnswer lib (res_Answer result)")
    case False
    have "sn_rounds (chat_attempts lib js net s left q u) = rounds" unfolding step using False by (simp add: Let_def)
    moreover have "res = result \<or> (\<exists>v. res = result\<lparr>res_Usage := v\<rparr>)" using assms False unfolding step by (auto simp: Let_def split: if_splits)
    ultimately show ?thesis using final ok False by auto
  next
    case True
    then obtain left' where left: "left = Suc left'" using assms unfolding step by (cases left) (auto simp: Let_def)
    define q' where "q' = q\<lparr>cr_Messages := cr_Messages q @
      [\<lparr>cg_Role = ''assistant'', cg_Content = res_Answer result\<rparr>, \<lparr>cg_Role = ''user'', cg_Content = chatFinalAnswerInstruction\<rparr>]\<rparr>"
    define u' where "u' = (case res_Usage result of
        None \<Rightarrow> u | Some v \<Rightarrow> Some (accumulate_usage (case u of None \<Rightarrow> zero_Usage | Some a \<Rightarrow> a) v))"
    define more where "more = chat_attempts lib js net s left' q' u'"
    have "chat_attempts lib js net s left q u = more\<lparr>sn_requests := requests @ sn_requests more, sn_rounds := rounds @ sn_rounds more\<rparr>"
      unfolding step unfolding Let_def left nat.case more_def q'_def u'_def using True by simp
    then show ?thesis using continued [OF left ok(2), of q' u'] assms by (simp add: more_def)
  qed
qed

lemma chat_attempts_result:
  "sn_result (chat_attempts lib js net s left q u) = Inr res \<Longrightarrow>
     result_ok res \<and> \<not> isChatIntermediateAnswer lib (res_Answer res) \<and> length (sn_rounds (chat_attempts lib js net s left q u)) \<le> (left + 1) * 64"
proof (induction left arbitrary: q u)
  case 0
  then show ?case by (cases rule: chat_attempts_cases) (auto dest: rounds_ok_length)
next
  case (Suc left)
  from Suc.prems show ?case
    by (cases rule: chat_attempts_cases) (fastforce dest!: rounds_ok_length Suc.IH)+
qed

text \<open>
  Search results (C29). Whatever the upstream answers, a search that succeeds returns a trimmed, non-empty
  answer of at most 2 MiB, at most 256 distinct citations of at most 256 KiB with their sources, after
  at most 64 rounds for each request; a chat answer is never an announcement that the search goes on.
\<close>

theorem search_result_sound:
  assumes "sn_result (SearchStream lib js net c req) = Inr res"
  shows "result_ok res \<and> length (sn_rounds (SearchStream lib js net c req)) \<le> 192 \<and>
    (cl_protocol c = UpstreamProtocolChatCompletions \<longrightarrow> \<not> isChatIntermediateAnswer lib (res_Answer res))"
proof -
  have protocol: "cl_protocol (snapshot c) = cl_protocol c" by (simp add: snapshot_def clientSnapshot.truncate_def)
  obtain r where r: "validateSearchRequest lib req = Inr r"
    using assms by (auto simp: SearchStream_def failed_search_def Let_def split: sum.splits)
  consider (responses) "SearchStream lib js net c req = searchResponses lib js net (snapshot c) r" "cl_protocol c = UpstreamProtocolResponses"
    | (chat) "SearchStream lib js net c req = searchChatCompletions lib js net (snapshot c) r" "cl_protocol c = UpstreamProtocolChatCompletions"
    | (messages) "SearchStream lib js net c req = searchAnthropicMessages lib js net (snapshot c) r" "cl_protocol c = UpstreamProtocolAnthropicMessages"
    using assms by (auto simp: SearchStream_def Let_def r protocol failed_search_def split: if_splits)
  then show ?thesis
  proof cases
    case responses
    then obtain body rounds where "parseSearchStream js body = (rounds, Inr res)" "sn_rounds (SearchStream lib js net c req) = rounds"
      using assms by (auto simp: searchResponses_def failed_search_def split: sum.splits prod.splits if_splits)
    then show ?thesis using search_stream [of js body rounds res] rounds_ok_length [of rounds] responses(2)
      by (auto simp: UpstreamProtocolResponses_def UpstreamProtocolChatCompletions_def)
  next
    case chat
    then obtain q where "SearchStream lib js net c req = chat_attempts lib js net (snapshot c) maxChatContinuationAttempts q None"
      using assms by (auto simp: searchChatCompletions_def failed_search_def split: sum.splits)
    then show ?thesis using chat_attempts_result assms by (fastforce simp: maxChatContinuationAttempts_def)
  next
    case messages
    then obtain body where "parseAnthropicMessagesResponse js body = Inr res" "sn_rounds (SearchStream lib js net c req) = []"
      using assms by (auto simp: searchAnthropicMessages_def failed_search_def split: sum.splits prod.splits if_splits)
    then show ?thesis using messages_response_sound [of js body res] messages(2)
      by (auto simp: UpstreamProtocolAnthropicMessages_def UpstreamProtocolChatCompletions_def)
  qed
qed

definition demo_client :: Client where
  "demo_client = \<lparr>cl_baseURL = ''http://cpa'', cl_apiKey = ''k'', cl_protocol = UpstreamProtocolChatCompletions, cl_defaultModel = ''grok-4'',
     cl_httpClient = \<lparr>hc_phaseTimeout = 120, hc_MaxIdleConns = 100, hc_Proxy = None\<rparr>, cl_debug = False\<rparr>"

definition demo_search :: SearchRequest where
  "demo_search = \<lparr>sr_Query = ''answer?'', sr_Model = [], sr_ToolType = ToolTypeXSearch, sr_AllowedDomains = [], sr_ExcludedDomains = [],
     sr_EnableImageUnderstanding = None, sr_EnableImageSearch = None\<rparr>"

definition demo_network :: network where
  "demo_network n q = Inr \<lparr>hr_StatusCode = 200, hr_Body = demo_chat_body, hr_taken = 0\<rparr>"

lemma demo_search_result: "sn_result (SearchStream demo_config_lib demo_json_lib demo_network demo_client demo_search) = Inr demo_chat_result"
proof -
  have valid: "validateSearchRequest demo_config_lib demo_search = Inr demo_search" by code_simp
  obtain q where q: "buildChatCompletionsRequest demo_config_lib demo_search (cl_defaultModel (snapshot demo_client)) = Inr q"
  proof -
    have "case buildChatCompletionsRequest demo_config_lib demo_search (cl_defaultModel (snapshot demo_client)) of Inl e \<Rightarrow> False | Inr _ \<Rightarrow> True" by code_simp
    then show ?thesis using that by (auto split: sum.splits)
  qed
  have url: "lib_url_Parse demo_config_lib (cl_baseURL (snapshot demo_client) @ ''/v1/chat/completions'') \<noteq> None" by code_simp
  have protocol: "cl_protocol (snapshot demo_client) = UpstreamProtocolChatCompletions" "UpstreamProtocolChatCompletions \<noteq> UpstreamProtocolResponses"
    by (simp_all add: snapshot_def clientSnapshot.truncate_def demo_client_def UpstreamProtocolChatCompletions_def UpstreamProtocolResponses_def)
  have final: "\<not> isChatIntermediateAnswer demo_config_lib (res_Answer demo_chat_result)" by code_simp
  obtain requests where sent: "postJSON demo_config_lib demo_network n (snapshot demo_client) ''/v1/chat/completions'' (ChatBody q) False =
      (requests, Inr \<lparr>hr_StatusCode = 200, hr_Body = demo_chat_body, hr_taken = 0\<rparr>)" for n
    using url by (simp add: postJSON_def demo_network_def Let_def)
  show ?thesis using final demo_chat_parsed
    by (simp add: SearchStream_def Let_def valid protocol searchChatCompletions_def q chat_attempts.simps sent is_success_def demo_chat_result_def)
qed

theorem search_result_sound_witness:
  "result_ok demo_chat_result \<and> cl_protocol demo_client = UpstreamProtocolChatCompletions \<and> \<not> isChatIntermediateAnswer demo_config_lib ''42''"
  using search_result_sound [OF demo_search_result] by (simp add: demo_client_def demo_chat_result_def)

end
