(* ===== verification/Search_Tools.thy ===== *)
theory Search_Tools
  imports Grok_Client
begin

text \<open>
  The tools a client of the server calls (\<open>internal/mcp/tools.go\<close>): their names, the mapping of their
  inputs to a search, the run of a search with its progress notifications, the list of models, and the
  texts of their errors. Shown: what an upstream answers never shows in an error text, the outcome
  marked for the accounting is the one the caller sees, and every reported round is one notification.
\<close>

section \<open>Inputs and outputs\<close>

definition webSearchToolName :: string where "webSearchToolName = ''grok_web_search''"
definition xSearchToolName :: string where "xSearchToolName = ''grok_x_search''"
definition listModelsToolName :: string where "listModelsToolName = ''grok_list_models''"

definition tools_IsSearchToolName :: "string \<Rightarrow> bool" where
  "tools_IsSearchToolName toolName \<longleftrightarrow> toolName = webSearchToolName \<or> toolName = xSearchToolName"

record WebSearchInput =
  wi_Query :: string
  wi_Model :: string
  wi_AllowedDomains :: "string list"
  wi_ExcludedDomains :: "string list"
  wi_EnableImageUnderstanding :: "bool option"
  wi_EnableImageSearch :: "bool option"

record XSearchInput =
  xi_Query :: string
  xi_Model :: string

record SearchOutput =
  out_Answer :: string
  out_Citations :: "string list"
  out_Sources :: "Source list"
  out_Usage :: "Usage option"

record ListModelsOutput =
  lm_Models :: "grok_Model list"

definition web_search_request :: "WebSearchInput \<Rightarrow> SearchRequest" where
  "web_search_request input = \<lparr>sr_Query = wi_Query input, sr_Model = wi_Model input, sr_ToolType = ToolTypeWebSearch,
     sr_AllowedDomains = wi_AllowedDomains input, sr_ExcludedDomains = wi_ExcludedDomains input,
     sr_EnableImageUnderstanding = wi_EnableImageUnderstanding input, sr_EnableImageSearch = wi_EnableImageSearch input\<rparr>"

definition x_search_request :: "XSearchInput \<Rightarrow> SearchRequest" where
  "x_search_request input = \<lparr>sr_Query = xi_Query input, sr_Model = xi_Model input, sr_ToolType = ToolTypeXSearch,
     sr_AllowedDomains = [], sr_ExcludedDomains = [], sr_EnableImageUnderstanding = None, sr_EnableImageSearch = None\<rparr>"

section \<open>Error texts\<close>

definition isTimeoutError :: "grok_error \<Rightarrow> bool" where
  "isTimeoutError e = (case unwrapped e of None \<Rightarrow> False | Some io \<Rightarrow> is_timeout io)"

definition is_canceled_error :: "grok_error \<Rightarrow> bool" where
  "is_canceled_error e = (case unwrapped e of None \<Rightarrow> False | Some io \<Rightarrow> is_canceled io)"

definition classifySearchError :: "grok_error \<Rightarrow> string" where
  "classifySearchError err =
     (case SearchRequestErrorMessage err of
        Some validationMessage \<Rightarrow> validationMessage
      | None \<Rightarrow>
          (case UpstreamErrorMetadata err of
             Some upstreamError \<Rightarrow>
               (case ue_Category upstreamError of
                  UpstreamErrorCategoryHTTPStatus \<Rightarrow> ''upstream returned HTTP '' @ Itoa (ue_StatusCode upstreamError)
                | UpstreamErrorCategoryStream \<Rightarrow> ''upstream stream error''
                | UpstreamErrorCategoryTransport \<Rightarrow> if isTimeoutError err then ''upstream search timed out'' else ''search request failed''
                | _ \<Rightarrow> ''search request failed'')
           | None \<Rightarrow>
               let msg = grok_Error err
               in if isTimeoutError err then ''upstream search timed out''
                  else if str_Contains msg ''did not contain answer text'' then ''upstream returned empty answer''
                  else if str_Contains msg ''ended without response.completed'' then ''upstream stream ended prematurely''
                  else if str_Contains msg ''upstream stream error'' then ''upstream stream error''
                  else ''search request failed''))"

definition classifyListModelsError :: "grok_error \<Rightarrow> string" where
  "classifyListModelsError err =
     (let other = (if isTimeoutError err then ''upstream model list timed out'' else ''model list request failed'')
      in case UpstreamErrorMetadata err of
           Some upstreamError \<Rightarrow>
             if ue_Category upstreamError = UpstreamErrorCategoryHTTPStatus then ''upstream returned HTTP '' @ Itoa (ue_StatusCode upstreamError) else other
         | None \<Rightarrow> other)"

text \<open>The category a debug log names.\<close>

definition category_text :: "UpstreamErrorCategory \<Rightarrow> string" where
  "category_text c =
     (case c of
        UpstreamErrorCategoryHTTPStatus \<Rightarrow> ''http_status''
      | UpstreamErrorCategoryResponseRead \<Rightarrow> ''response_read''
      | UpstreamErrorCategoryStream \<Rightarrow> ''stream''
      | UpstreamErrorCategoryTransport \<Rightarrow> ''transport'')"

definition safeErrorCategory :: "grok_error \<Rightarrow> string" where
  "safeErrorCategory err =
     (if SearchRequestErrorMessage err \<noteq> None then ''validation''
      else case UpstreamErrorMetadata err of
          Some upstreamError \<Rightarrow> category_text (ue_Category upstreamError)
        | None \<Rightarrow> if isTimeoutError err then ''timeout'' else if is_canceled_error err then ''canceled'' else ''request'')"

section \<open>Runs\<close>

text \<open>What the tool answers, the progress notifications it sends, the outcomes it marks and the requests it sends upstream.\<close>

datatype 'o tool_reply = toolError string | toolOutput 'o

record 'o tool_run =
  tl_reply :: "'o tool_reply"
  tl_progress :: "(nat \<times> string) list"
  tl_success :: bool
  tl_requests :: "http_request list"

definition formatSearchRoundMessage :: "SearchRound \<Rightarrow> string" where
  "formatSearchRoundMessage r =
     (let q = TrimSpace (rd_Query r); u = TrimSpace (rd_URL r)
      in if q \<noteq> [] then ''Search round '' @ Itoa (rd_Round r) @ '': querying '' @ [CHR 0x22] @ q @ [CHR 0x22]
         else if u \<noteq> [] then ''Search round '' @ Itoa (rd_Round r) @ '': reading '' @ u
         else ''Search round '' @ Itoa (rd_Round r) @ '': searching'')"

definition progress_notifications :: "SearchRound list \<Rightarrow> (nat \<times> string) list" where
  "progress_notifications rounds = zip [1..<length rounds + 1] (map formatSearchRoundMessage rounds)"

definition runSearch :: "config_lib \<Rightarrow> json_lib \<Rightarrow> network \<Rightarrow> Client \<Rightarrow> bool \<Rightarrow> SearchRequest \<Rightarrow> SearchOutput tool_run" where
  "runSearch lib js net client hasProgressToken searchReq =
     (let query = TrimSpace (sr_Query searchReq)
      in if query = [] then \<lparr>tl_reply = toolError ''query must be non-empty'', tl_progress = [], tl_success = False, tl_requests = []\<rparr>
         else let searchReq = searchReq\<lparr>sr_Query := query, sr_Model := TrimSpace (sr_Model searchReq)\<rparr>;
                  run = SearchStream lib js net client searchReq;
                  progress = (if hasProgressToken then progress_notifications (sn_rounds run) else [])
           in case sn_result run of
                Inl err \<Rightarrow> \<lparr>tl_reply = toolError (classifySearchError err), tl_progress = progress, tl_success = False, tl_requests = sn_requests run\<rparr>
              | Inr result \<Rightarrow> \<lparr>tl_reply = toolOutput \<lparr>out_Answer = res_Answer result, out_Citations = res_Citations result,
                  out_Sources = res_Sources result, out_Usage = res_Usage result\<rparr>,
                  tl_progress = progress, tl_success = True, tl_requests = sn_requests run\<rparr>)"

definition runListModels :: "config_lib \<Rightarrow> json_lib \<Rightarrow> network \<Rightarrow> Client option \<Rightarrow> ListModelsOutput tool_run" where
  "runListModels lib js net client =
     (case client of
        None \<Rightarrow> \<lparr>tl_reply = toolError ''model listing is not configured'', tl_progress = [], tl_success = False, tl_requests = []\<rparr>
      | Some c \<Rightarrow>
          (case ListModels lib js net c of
             Inl err \<Rightarrow> \<lparr>tl_reply = toolError (classifyListModelsError err), tl_progress = [], tl_success = False,
               tl_requests = fst (getModels lib net (snapshot c))\<rparr>
           | Inr models \<Rightarrow> \<lparr>tl_reply = toolOutput \<lparr>lm_Models = FilterGrokModels lib models\<rparr>, tl_progress = [], tl_success = True,
               tl_requests = fst (getModels lib net (snapshot c))\<rparr>))"

section \<open>Where errors come from\<close>

text \<open>
  The errors of a search: refusals of the request, decided before the network is asked, the status of a
  response that was no success, and errors without either.
\<close>

definition search_error :: "network \<Rightarrow> grok_error \<Rightarrow> bool" where
  "search_error net e \<longleftrightarrow> internal_error e \<or>
     (\<exists>n q resp. net n q = Inr resp \<and> \<not> is_success resp \<and> classifySearchError e = ''upstream returned HTTP '' @ Itoa (hr_StatusCode resp))"

lemma httpError_search_error:
  assumes "net n q = Inr resp" "\<not> is_success resp"
  shows "search_error net (client_httpError s resp)"
proof (cases "sb_error (limited (maxUpstreamErrorBodyBytes + 1) (hr_Body resp))")
  case None
  then have "classifySearchError (client_httpError s resp) = ''upstream returned HTTP '' @ Itoa (hr_StatusCode resp)"
    by (simp add: client_httpError_def Let_def classifySearchError_def SearchRequestErrorMessage_def UpstreamErrorMetadata_def)
  then show ?thesis using assms unfolding search_error_def by blast
qed (simp add: client_httpError_def Let_def search_error_def)

lemma postJSON_error: "postJSON lib net n s endpoint body h = (requests, Inl e) \<Longrightarrow> internal_error e"
  by (auto simp: postJSON_def Let_def split: if_splits sum.splits)

lemma postJSON_response: "postJSON lib net n s endpoint body h = (requests, Inr resp) \<Longrightarrow> \<exists>q. net n q = Inr resp"
  by (auto simp: postJSON_def Let_def split: if_splits sum.splits)

lemma chat_attempts_error_step:
  assumes "sn_result (chat_attempts lib js net s left q u) = Inl e"
  shows "search_error net e \<or> (\<exists>left' q' u'. left = Suc left' \<and> sn_result (chat_attempts lib js net s left' q' u') = Inl e)"
proof -
  obtain requests r where p: "postJSON lib net (maxChatContinuationAttempts - left) s ''/v1/chat/completions'' (ChatBody q) False = (requests, r)" by fastforce
  note run = chat_attempts.simps [of lib js net s left q u, unfolded p prod.case]
  show ?thesis
  proof (cases r)
    case (Inl x)
    then show ?thesis using assms postJSON_error p unfolding run by (auto simp: failed_search_def search_error_def)
  next
    case (Inr response)
    obtain sent where sent: "net (maxChatContinuationAttempts - left) sent = Inr response" using postJSON_response [OF p [unfolded Inr]] by blast
    show ?thesis
    proof (cases "is_success response")
      case False
      then show ?thesis using assms httpError_search_error [of net _ sent, OF sent False] unfolding run by (auto simp: Inr failed_search_def)
    next
      case success: True
      obtain rounds parsed where parsed: "parseChatCompletionsResponse js (hr_taken response) (hr_Body response) = (rounds, parsed)" by fastforce
      show ?thesis
      proof (cases parsed)
        case (Inl x)
        then show ?thesis using assms parseChatCompletionsResponse_err parsed unfolding run by (auto simp: Inr success search_error_def)
      next
        case (Inr result)
        then show ?thesis using assms \<open>r = Inr response\<close> success parsed unfolding run
          by (auto simp: Let_def search_error_def split: if_splits nat.splits)
      qed
    qed
  qed
qed

lemma chat_attempts_error: "sn_result (chat_attempts lib js net s left q u) = Inl e \<Longrightarrow> search_error net e"
  by (induction left arbitrary: q u) (blast dest: chat_attempts_error_step)+

text \<open>Refusals by the client itself depend on the request and the default model only.\<close>

definition refusal :: "config_lib \<Rightarrow> Client \<Rightarrow> SearchRequest \<Rightarrow> grok_error \<Rightarrow> bool" where
  "refusal lib c req e \<longleftrightarrow> (\<forall>js net. SearchStream lib js net c req = failed_search [] e)"

lemma search_error_cases:
  assumes "sn_result (SearchStream lib js net c req) = Inl e"
  shows "search_error net e \<or> refusal lib c req e"
proof (cases "validateSearchRequest lib req")
  case (Inl x)
  then have "SearchStream lib js' net' c req = failed_search [] x" for js' net' by (simp add: SearchStream_def Let_def)
  then show ?thesis using assms unfolding refusal_def by (simp add: failed_search_def)
next
  case (Inr r)
  note valid = Inr
  define s where "s = snapshot c"
  have post: "search_error net e" if sent: "postJSON lib net 0 s endpoint body h = (requests, resp)" and outcome: "resp = Inl e \<or> (\<exists>x. resp = Inr x \<and> \<not> is_success x \<and> e = client_httpError s x)"
    for endpoint body h requests resp
    using outcome
  proof (elim disjE exE conjE)
    assume "resp = Inl e"
    then show "search_error net e" using postJSON_error sent by (simp add: search_error_def)
  next
    fix x assume x: "resp = Inr x" "\<not> is_success x" "e = client_httpError s x"
    obtain q where "net 0 q = Inr x" using postJSON_response sent x(1) by blast
    then show "search_error net e" unfolding x(3) using x(2) by (rule httpError_search_error [of net 0 q])
  qed
  consider (responses) "cl_protocol s = UpstreamProtocolResponses"
    | (chat) "cl_protocol s \<noteq> UpstreamProtocolResponses" "cl_protocol s = UpstreamProtocolChatCompletions"
    | (messages) "cl_protocol s \<noteq> UpstreamProtocolResponses" "cl_protocol s \<noteq> UpstreamProtocolChatCompletions" "cl_protocol s = UpstreamProtocolAnthropicMessages"
    | (none) "cl_protocol s \<noteq> UpstreamProtocolResponses" "cl_protocol s \<noteq> UpstreamProtocolChatCompletions" "cl_protocol s \<noteq> UpstreamProtocolAnthropicMessages" by blast
  then show ?thesis
  proof cases
    case responses
    then have run: "SearchStream lib js' net' c req = searchResponses lib js' net' s r" for js' net' by (simp add: SearchStream_def Let_def valid s_def)
    show ?thesis
    proof (cases "buildSearchRequestBody lib r (cl_defaultModel s)")
      case (Inl x)
      then show ?thesis using assms unfolding run refusal_def by (simp add: searchResponses_def failed_search_def)
    next
      case (Inr body)
      obtain requests resp where p: "postJSON lib net 0 s ''/v1/responses'' (ResponsesBody body) False = (requests, resp)" by fastforce
      show ?thesis using assms post [OF p] parseSearchStream_err unfolding run
        by (auto simp: searchResponses_def Inr p failed_search_def search_error_def split: sum.splits if_splits prod.splits)
    qed
  next
    case chat
    then have run: "SearchStream lib js' net' c req = searchChatCompletions lib js' net' s r" for js' net' by (simp add: SearchStream_def Let_def valid s_def)
    show ?thesis using assms chat_attempts_error unfolding run refusal_def
      by (auto simp: searchChatCompletions_def failed_search_def split: sum.splits)
  next
    case messages
    then have run: "SearchStream lib js' net' c req = searchAnthropicMessages lib js' net' s r" for js' net' by (simp add: SearchStream_def Let_def valid s_def)
    show ?thesis
    proof (cases "buildAnthropicMessagesRequestBody lib r (cl_defaultModel s)")
      case (Inl x)
      then show ?thesis using assms unfolding run refusal_def by (simp add: searchAnthropicMessages_def failed_search_def)
    next
      case (Inr body)
      obtain requests resp where p: "postJSON lib net 0 s ''/v1/messages'' (MessagesBody body) True = (requests, resp)" by fastforce
      show ?thesis using assms post [OF p] parseAnthropicMessagesResponse_err unfolding run
        by (auto simp: searchAnthropicMessages_def Inr p failed_search_def search_error_def split: sum.splits if_splits prod.splits)
    qed
  next
    case none
    then show ?thesis using assms by (auto simp: SearchStream_def Let_def valid s_def [symmetric] failed_search_def search_error_def)
  qed
qed

text \<open>The texts an error without a status shows.\<close>

definition fixed_texts :: "string list" where
  "fixed_texts = [''query must be non-empty'', ''search request failed'', ''upstream search timed out'', ''upstream stream error'',
     ''upstream returned empty answer'', ''upstream stream ended prematurely'']"

lemma internal_error_text: "internal_error e \<Longrightarrow> classifySearchError e \<in> set fixed_texts"
  by (auto simp: internal_error_def classifySearchError_def SearchRequestErrorMessage_def UpstreamErrorMetadata_def fixed_texts_def Let_def
      split: grok_error.splits UpstreamErrorCategory.splits)

text \<open>
  Tool errors (C27). A search tool that fails shows the caller one of six fixed texts, the number of an
  HTTP status the upstream sent, or a text about its own request that is the same whatever the upstream
  answers: nothing an upstream puts into a response reaches the caller through an error. The outcome
  marked for the accounting is success exactly if no error is shown.
\<close>

theorem tool_errors_safe:
  "case tl_reply (runSearch lib js net c hasProgressToken req) of
     toolOutput out \<Rightarrow> tl_success (runSearch lib js net c hasProgressToken req)
   | toolError t \<Rightarrow> \<not> tl_success (runSearch lib js net c hasProgressToken req) \<and>
       (t \<in> set fixed_texts \<or> (\<exists>n q resp. net n q = Inr resp \<and> \<not> is_success resp \<and> t = ''upstream returned HTTP '' @ Itoa (hr_StatusCode resp)) \<or>
        (\<forall>js' net'. tl_reply (runSearch lib js' net' c hasProgressToken req) = toolError t))"
proof (cases "TrimSpace (sr_Query req) = []")
  case True
  then show ?thesis by (simp add: runSearch_def fixed_texts_def)
next
  case False
  define req' where "req' = req\<lparr>sr_Query := TrimSpace (sr_Query req), sr_Model := TrimSpace (sr_Model req)\<rparr>"
  have reply: "tl_reply (runSearch lib js' net' c hasProgressToken req) = (case sn_result (SearchStream lib js' net' c req') of
      Inl err \<Rightarrow> toolError (classifySearchError err)
    | Inr result \<Rightarrow> toolOutput \<lparr>out_Answer = res_Answer result, out_Citations = res_Citations result, out_Sources = res_Sources result, out_Usage = res_Usage result\<rparr>)"
    for js' net' using False by (simp add: runSearch_def Let_def req'_def split: sum.split)
  have success: "tl_success (runSearch lib js net c hasProgressToken req) \<longleftrightarrow> (case sn_result (SearchStream lib js net c req') of Inl _ \<Rightarrow> False | Inr _ \<Rightarrow> True)"
    using False by (simp add: runSearch_def Let_def req'_def split: sum.split)
  show ?thesis
  proof (cases "sn_result (SearchStream lib js net c req')")
    case (Inl err)
    from search_error_cases [OF Inl] show ?thesis
    proof
      assume "search_error net err"
      then show ?thesis using internal_error_text [of err] unfolding reply success Inl search_error_def by auto
    next
      assume "refusal lib c req' err"
      then have "tl_reply (runSearch lib js' net' c hasProgressToken req) = toolError (classifySearchError err)" for js' net'
        unfolding reply refusal_def by (simp add: failed_search_def)
      then show ?thesis unfolding reply [of js net] success Inl by simp
    qed
  qed (simp add: reply success)
qed

end
