(* ===== verification/Panel_Settings.thy ===== *)
theory Panel_Settings
  imports Panel_Routes Search_Tools Async_Usage Search_Concurrency
begin

text \<open>
  The runtime settings behind the panel: reading and updating them (\<open>internal/panel/settings.go\<close>), their
  answers (\<open>internal/panel/models.go\<close>), and the applier that switches the running components
  (\<open>runtimeServerSettingsApplier\<close> and \<open>InitializeServerSettings\<close> of \<open>internal/app/server.go\<close>). An update is
  persisted first and applied then; the components it touches are the upstream client, the search
  limiter, the metrics switches and the published snapshot. Shown: what every answer says about the
  stored and the live settings, and how little of a secret an answer depends on.
\<close>

section \<open>The applier\<close>

record liveServerSettingsSnapshot =
  lss_revision :: int
  lss_loginVerificationSettings :: LoginVerificationSettings

text \<open>
  The components are \<open>None\<close> where the pointer is nil. Of the SQLite store the applier only sets the
  metrics switch.
\<close>

record runtimeServerSettingsApplier =
  ra_upstreamApplier :: "Client option"
  ra_searchConcurrencyLimiter :: "SearchConcurrencyLimiter option"
  ra_sqliteStore :: "bool option"
  ra_usageWriter :: "AsyncUsageWriter option"
  ra_liveSettings :: "liveServerSettingsSnapshot option"

definition publishLiveServerSettings ::
  "Runtime \<Rightarrow> int \<Rightarrow> runtimeServerSettingsApplier \<Rightarrow> runtimeServerSettingsApplier" where
  "publishLiveServerSettings settings revision a = a\<lparr>ra_liveSettings := Some \<lparr>lss_revision = revision,
     lss_loginVerificationSettings = loginVerificationSettingsFromServerSettings settings\<rparr>\<rparr>"

definition LiveServerSettingsVersion :: "runtimeServerSettingsApplier \<Rightarrow> int" where
  "LiveServerSettingsVersion a = (case ra_liveSettings a of None \<Rightarrow> 0 | Some snap \<Rightarrow> lss_revision snap)"

definition LiveLoginVerificationSettings :: "runtimeServerSettingsApplier \<Rightarrow> LoginVerificationSettings" where
  "LiveLoginVerificationSettings a =
     (case ra_liveSettings a of
        None \<Rightarrow> \<lparr>lv_TurnstileEnabled = False, lv_TurnstileSiteKey = [], lv_TurnstileSecretKey = []\<rparr>
      | Some snap \<Rightarrow> lss_loginVerificationSettings snap)"

text \<open>The error, if any, and the applier left: an error of a later component leaves the earlier ones switched.\<close>

definition apply_upstream ::
  "config_lib \<Rightarrow> Runtime \<Rightarrow> runtimeServerSettingsApplier \<Rightarrow> string option \<times> runtimeServerSettingsApplier" where
  "apply_upstream cl settings a =
     (case ra_upstreamApplier a of
        None \<Rightarrow> (None, a)
      | Some c \<Rightarrow>
          (case client_ApplyServerSettings cl settings c of
             Inl e \<Rightarrow> (Some e, a) | Inr c' \<Rightarrow> (None, a\<lparr>ra_upstreamApplier := Some c'\<rparr>)))"

definition apply_limits :: "Runtime \<Rightarrow> runtimeServerSettingsApplier \<Rightarrow> string option \<times> runtimeServerSettingsApplier" where
  "apply_limits settings a =
     (case ra_searchConcurrencyLimiter a of
        None \<Rightarrow> (None, a)
      | Some l \<Rightarrow>
          (case UpdateLimits (MCPGlobalSearchConcurrency settings) (MCPUserSearchConcurrency settings) l of
             Inl e \<Rightarrow> (Some e, a) | Inr l' \<Rightarrow> (None, a\<lparr>ra_searchConcurrencyLimiter := Some l'\<rparr>)))"

definition apply_metrics :: "Runtime \<Rightarrow> runtimeServerSettingsApplier \<Rightarrow> runtimeServerSettingsApplier" where
  "apply_metrics settings a =
     a\<lparr>ra_sqliteStore := map_option (\<lambda>_. OperationsMetricsEnabled settings) (ra_sqliteStore a),
       ra_usageWriter := map_option (SetMetricsEnabled (OperationsMetricsEnabled settings)) (ra_usageWriter a)\<rparr>"

definition apply_rest ::
  "Runtime \<Rightarrow> int \<Rightarrow> runtimeServerSettingsApplier \<Rightarrow> string option \<times> runtimeServerSettingsApplier" where
  "apply_rest settings persistedVersion a =
     (case apply_limits settings a of
        (Some e, a1) \<Rightarrow> (Some e, a1)
      | (None, a1) \<Rightarrow> (None, publishLiveServerSettings settings persistedVersion (apply_metrics settings a1)))"

definition ApplyServerSettings ::
  "config_lib \<Rightarrow> Runtime \<Rightarrow> int \<Rightarrow> runtimeServerSettingsApplier \<Rightarrow> string option \<times> runtimeServerSettingsApplier" where
  "ApplyServerSettings cl settings persistedVersion a =
     (case apply_upstream cl settings a of
        (Some e, a1) \<Rightarrow> (Some e, a1)
      | (None, a1) \<Rightarrow> apply_rest settings persistedVersion a1)"

section \<open>Answers\<close>

datatype ServerSettingsApplyState = ServerSettingsApplied | ServerSettingsSavedNotApplied

record ServerSettingsResponse =
  sv_Version :: string
  sv_PersistedVersion :: int
  sv_LiveVersion :: int
  sv_ApplyState :: ServerSettingsApplyState
  sv_CPABaseURL :: string
  sv_CPAAPIKeySet :: bool
  sv_CPAAPIKeyPreview :: string
  sv_UpstreamProtocol :: UpstreamProtocol
  sv_Model :: string
  sv_TimeoutSeconds :: int
  sv_MCPGlobalSearchConcurrency :: int
  sv_MCPUserSearchConcurrency :: int
  sv_ProxyURL :: string
  sv_ProxyEnabled :: bool
  sv_RegistrationMode :: RegistrationMode
  sv_TurnstileEnabled :: bool
  sv_TurnstileSiteKey :: string
  sv_TurnstileSecretKeySet :: bool
  sv_TurnstileSecretKeyPreview :: string
  sv_Debug :: bool
  sv_OperationsMetricsEnabled :: bool
  sv_UpdatedAt :: "time option"

definition maskSecret :: "string \<Rightarrow> string" where
  "maskSecret secret =
     (if length secret \<le> 8 then ''configured''
      else take 4 secret @ ''...'' @ drop (length secret - 4) secret)"

text \<open>The version of the build is an argument: the variable may be set by the linker.\<close>

definition toServerSettingsResponse :: "string \<Rightarrow> Runtime \<Rightarrow> time option \<Rightarrow> int \<Rightarrow> int \<Rightarrow> ServerSettingsResponse" where
  "toServerSettingsResponse version settings updatedAt persistedVersion liveVersion =
     \<lparr>sv_Version = version, sv_PersistedVersion = persistedVersion, sv_LiveVersion = liveVersion,
      sv_ApplyState = (if persistedVersion \<noteq> liveVersion then ServerSettingsSavedNotApplied else ServerSettingsApplied),
      sv_CPABaseURL = CPABaseURL settings, sv_CPAAPIKeySet = (CPAAPIKey settings \<noteq> []),
      sv_CPAAPIKeyPreview = (if CPAAPIKey settings \<noteq> [] then maskSecret (CPAAPIKey settings) else []),
      sv_UpstreamProtocol = rt_UpstreamProtocol settings, sv_Model = Model settings, sv_TimeoutSeconds = TimeoutSeconds settings,
      sv_MCPGlobalSearchConcurrency = MCPGlobalSearchConcurrency settings,
      sv_MCPUserSearchConcurrency = MCPUserSearchConcurrency settings, sv_ProxyURL = ProxyURL settings,
      sv_ProxyEnabled = ProxyEnabled settings, sv_RegistrationMode = rt_RegistrationMode settings,
      sv_TurnstileEnabled = TurnstileEnabled settings, sv_TurnstileSiteKey = TurnstileSiteKey settings,
      sv_TurnstileSecretKeySet = (TurnstileSecretKey settings \<noteq> []),
      sv_TurnstileSecretKeyPreview = (if TurnstileSecretKey settings \<noteq> [] then maskSecret (TurnstileSecretKey settings) else []),
      sv_Debug = Debug settings, sv_OperationsMetricsEnabled = OperationsMetricsEnabled settings, sv_UpdatedAt = updatedAt\<rparr>"

record savedNotAppliedErrorResponse =
  sna_Code :: string
  sna_Error :: string
  sna_PersistedVersion :: int
  sna_LiveVersion :: int

definition settingsSavedNotAppliedCode :: string where
  "settingsSavedNotAppliedCode = ''settings_saved_not_applied''"

datatype settings_reply = SettingsReply ServerSettingsResponse | SavedNotApplied savedNotAppliedErrorResponse

definition toModelsResponse :: "config_lib \<Rightarrow> grok_Model list \<Rightarrow> string list" where
  "toModelsResponse cl models = map gm_ID (FilterGrokModels cl models)"

section \<open>Requests\<close>

record UpdateServerSettingsRequest =
  us_ExpectedVersion :: "int option"
  us_CPABaseURL :: "string option"
  us_CPAAPIKey :: "string option"
  us_UpstreamProtocol :: "UpstreamProtocol option"
  us_Model :: "string option"
  us_TimeoutSeconds :: "int option"
  us_MCPGlobalSearchConcurrency :: "int option"
  us_MCPUserSearchConcurrency :: "int option"
  us_ProxyURL :: "string option"
  us_ProxyEnabled :: "bool option"
  us_RegistrationMode :: "RegistrationMode option"
  us_TurnstileEnabled :: "bool option"
  us_TurnstileSiteKey :: "string option"
  us_TurnstileSecretKey :: "string option"
  us_Debug :: "bool option"
  us_OperationsMetricsEnabled :: "bool option"

fun given :: "'a \<Rightarrow> 'a option \<Rightarrow> 'a" where
  "given current None = current"
| "given current (Some v) = v"

text \<open>A secret is only replaced by a text that is not blank.\<close>

fun given_secret :: "string \<Rightarrow> string option \<Rightarrow> string" where
  "given_secret current None = current"
| "given_secret current (Some v) = (if TrimSpace v \<noteq> [] then v else current)"

definition mergeServerSettingsRequest :: "Runtime \<Rightarrow> UpdateServerSettingsRequest \<Rightarrow> Runtime" where
  "mergeServerSettingsRequest currentSettings req =
     \<lparr>CPABaseURL = given (CPABaseURL currentSettings) (us_CPABaseURL req),
      CPAAPIKey = given_secret (CPAAPIKey currentSettings) (us_CPAAPIKey req),
      rt_UpstreamProtocol = given (rt_UpstreamProtocol currentSettings) (us_UpstreamProtocol req),
      Model = given (Model currentSettings) (us_Model req),
      TimeoutSeconds = given (TimeoutSeconds currentSettings) (us_TimeoutSeconds req),
      MCPGlobalSearchConcurrency = given (MCPGlobalSearchConcurrency currentSettings) (us_MCPGlobalSearchConcurrency req),
      MCPUserSearchConcurrency = given (MCPUserSearchConcurrency currentSettings) (us_MCPUserSearchConcurrency req),
      ProxyURL = given (ProxyURL currentSettings) (us_ProxyURL req),
      ProxyEnabled = given (ProxyEnabled currentSettings) (us_ProxyEnabled req),
      rt_RegistrationMode = given (rt_RegistrationMode currentSettings) (us_RegistrationMode req),
      TurnstileEnabled = given (TurnstileEnabled currentSettings) (us_TurnstileEnabled req),
      TurnstileSiteKey = given (TurnstileSiteKey currentSettings) (us_TurnstileSiteKey req),
      TurnstileSecretKey = given_secret (TurnstileSecretKey currentSettings) (us_TurnstileSecretKey req),
      Debug = given (Debug currentSettings) (us_Debug req),
      OperationsMetricsEnabled = given (OperationsMetricsEnabled currentSettings) (us_OperationsMetricsEnabled req)\<rparr>"

definition turnstileSiteKeyChangeRequiresSecret :: "Runtime \<Rightarrow> UpdateServerSettingsRequest \<Rightarrow> bool" where
  "turnstileSiteKeyChangeRequiresSecret currentSettings request =
     (case us_TurnstileSiteKey request of
        None \<Rightarrow> False
      | Some siteKey \<Rightarrow>
          if TrimSpace (TurnstileSecretKey currentSettings) = [] then False
          else if TrimSpace siteKey = TrimSpace (TurnstileSiteKey currentSettings) then False
          else (case us_TurnstileSecretKey request of None \<Rightarrow> True | Some k \<Rightarrow> TrimSpace k = []))"

section \<open>The effective settings\<close>

record effectiveServerSettings =
  ef_Runtime :: Runtime
  ef_Revision :: int
  ef_UpdatedAt :: "time option"

definition zero_settings :: Runtime where
  "zero_settings = \<lparr>CPABaseURL = [], CPAAPIKey = [], rt_UpstreamProtocol = [], Model = [], TimeoutSeconds = 0,
     MCPGlobalSearchConcurrency = 0, MCPUserSearchConcurrency = 0, ProxyURL = [], ProxyEnabled = False,
     rt_RegistrationMode = [], TurnstileEnabled = False, TurnstileSiteKey = [], TurnstileSecretKey = [], Debug = False,
     OperationsMetricsEnabled = False\<rparr>"

definition loadEffectiveServerSettingsContext ::
  "panel_lib \<Rightarrow> config_lib \<Rightarrow> Handler \<Rightarrow> DB \<Rightarrow> (store_error + string) + effectiveServerSettings" where
  "loadEffectiveServerSettingsContext lib cl h db =
     (case GetServerSettings (pl_crypto lib) db of
        Inl e \<Rightarrow> Inl (Inl e)
      | Inr (Some stored) \<Rightarrow>
          Inr \<lparr>ef_Runtime = Runtime.truncate stored, ef_Revision = ss_Revision stored, ef_UpdatedAt = Some (ss_UpdatedAt stored)\<rparr>
      | Inr None \<Rightarrow>
          if h_InitialServerSettings h = zero_settings
          then Inr \<lparr>ef_Runtime = zero_settings, ef_Revision = 0, ef_UpdatedAt = None\<rparr>
          else (case NormalizeServerSettings cl (h_InitialServerSettings h) of
                  Inl e \<Rightarrow> Inl (Inr e)
                | Inr settings \<Rightarrow> Inr \<lparr>ef_Runtime = settings, ef_Revision = 0, ef_UpdatedAt = None\<rparr>))"

definition currentLiveServerSettingsVersion :: "runtimeServerSettingsApplier option \<Rightarrow> int \<Rightarrow> int" where
  "currentLiveServerSettingsVersion applier persistedVersion =
     (case applier of None \<Rightarrow> persistedVersion | Some a \<Rightarrow> LiveServerSettingsVersion a)"

definition adminGetServerSettings ::
  "panel_lib \<Rightarrow> config_lib \<Rightarrow> string \<Rightarrow> Handler \<Rightarrow> runtimeServerSettingsApplier option \<Rightarrow> DB \<Rightarrow> ServerSettingsResponse answer" where
  "adminGetServerSettings lib cl version h applier db =
     (case loadEffectiveServerSettingsContext lib cl h db of
        Inl _ \<Rightarrow> Failure (writeError 500 ''failed to load server settings'')
      | Inr eff \<Rightarrow> Answer 200 (toServerSettingsResponse version (ef_Runtime eff) (ef_UpdatedAt eff) (ef_Revision eff)
          (currentLiveServerSettingsVersion applier (ef_Revision eff))))"

definition adminListModels ::
  "config_lib \<Rightarrow> json_lib \<Rightarrow> network \<Rightarrow> Client option \<Rightarrow> string list answer" where
  "adminListModels cl js net modelLister =
     (case modelLister of
        None \<Rightarrow> Failure (writeError 503 ''model listing is not configured'')
      | Some c \<Rightarrow>
          (case ListModels cl js net c of
             Inl _ \<Rightarrow> Failure (writeError 502 ''failed to list upstream models'')
           | Inr models \<Rightarrow> Answer 200 (toModelsResponse cl models)))"

section \<open>Start-up\<close>

definition with_expected :: "Runtime \<Rightarrow> int option \<Rightarrow> ServerSettings" where
  "with_expected settings expected = Runtime.extend settings
     \<lparr>ss_ID = [], ss_Revision = 0, ss_ExpectedRevision = expected, ss_CreatedAt = 0, ss_UpdatedAt = 0\<rparr>"

text \<open>The stored settings with migrated limits, or those of the environment, normalised and written back.\<close>

definition initial_settings :: "Config \<Rightarrow> ServerSettings option \<Rightarrow> Runtime" where
  "initial_settings cfg loaded =
     (case loaded of
        None \<Rightarrow> config_ServerSettings cfg
      | Some t \<Rightarrow> (Runtime.truncate t)\<lparr>
          MCPGlobalSearchConcurrency := (if MCPGlobalSearchConcurrency t \<le> 0 then cf_MCPGlobalSearchConcurrency cfg else MCPGlobalSearchConcurrency t),
          MCPUserSearchConcurrency := (if MCPUserSearchConcurrency t \<le> 0 then cf_MCPUserSearchConcurrency cfg else MCPUserSearchConcurrency t)\<rparr>)"

definition InitializeServerSettings ::
  "crypto \<Rightarrow> config_lib \<Rightarrow> Config \<Rightarrow> string option \<Rightarrow> string option \<Rightarrow> time \<Rightarrow> DB \<Rightarrow>
     ((store_error + string) + ServerSettings option) \<times> DB" where
  "InitializeServerSettings cr cl cfg n1 n2 now db =
     (case GetServerSettings cr db of
        Inl e \<Rightarrow> (Inl (Inl e), db)
      | Inr loaded \<Rightarrow>
          (case NormalizeServerSettings cl (initial_settings cfg loaded) of
             Inl e \<Rightarrow> (Inl (Inr e), db)
           | Inr normalizedSettings \<Rightarrow>
               (case UpsertServerSettings cr n1 n2 now (with_expected normalizedSettings None) db of
                  (Inl e, db') \<Rightarrow> (Inl (Inl e), db')
                | (Inr persisted, db') \<Rightarrow> (Inr persisted, db'))))"

section \<open>What is persisted\<close>

text \<open>
  The store trims the texts once more, which normalised settings only notice at the end of the upstream
  URL: white space there that a stripped slash followed.
\<close>

definition persisted_form :: "Runtime \<Rightarrow> Runtime" where
  "persisted_form n = n\<lparr>CPABaseURL := TrimSpace (CPABaseURL n)\<rparr>"

lemma persisted_form_again [simp]: "persisted_form (persisted_form n) = persisted_form n"
  by (simp add: persisted_form_def)

lemma with_expected_simps [simp]:
  "Runtime.truncate (with_expected n x) = n" "ss_ExpectedRevision (with_expected n x) = x"
  by (simp_all add: with_expected_def Runtime.defs)

lemma validate_normalized:
  assumes "NormalizeServerSettings cl r = Inr n" "validateServerSettings (with_expected n x) = Inr s"
  shows "Runtime.truncate s = persisted_form n"
proof -
  have "rt_UpstreamProtocol n \<in> {UpstreamProtocolResponses, UpstreamProtocolChatCompletions, UpstreamProtocolAnthropicMessages}"
    "TrimSpace (CPAAPIKey n) = CPAAPIKey n" "TrimSpace (Model n) = Model n" "TrimSpace (ProxyURL n) = ProxyURL n"
    "TrimSpace (TurnstileSiteKey n) = TurnstileSiteKey n" "TrimSpace (TurnstileSecretKey n) = TurnstileSecretKey n"
    using assms(1) by (auto simp: NormalizeServerSettings_def normalizeServerSettings_Inr dest: NormalizeUpstreamProtocol_Inr)
  then show ?thesis using assms(2) protocol_words
    by (auto simp: validateServerSettings_def Let_def NormalizeRegistrationMode_Inr with_expected_def persisted_form_def Runtime.defs
        split: if_splits sum.splits)
qed

lemma stored_settings_truncate [simp]: "Runtime.truncate (stored_settings s revision c u) = Runtime.truncate s"
  by (simp add: stored_settings_def Runtime.defs)

lemma upsert_normalized:
  assumes c: "cipher_ok (secretCipher cr)" "nonce_ok (secretCipher cr) n1" "nonce_ok (secretCipher cr) n2"
    and n: "NormalizeServerSettings cl r = Inr n"
    and up: "UpsertServerSettings cr n1 n2 now (with_expected n x) db = (Inr stored, db')"
  shows "\<exists>t. stored = Some t \<and> GetServerSettings cr db' = Inr (Some t) \<and> Runtime.truncate t = persisted_form n \<and>
    ss_Revision t = revision_of db + 1 \<and> revision_of db' = revision_of db + 1"
proof -
  obtain s t where t: "validateServerSettings (with_expected n x) = Inr s" "stored = Some t"
    "t = stored_settings s (revision_of db + 1) (ss_CreatedAt t) (db_time now)"
    "GetServerSettings cr db' = Inr (Some t)" "revision_of db' = revision_of db + 1"
    using upsert_outcome [OF c up] by auto
  have "Runtime.truncate t = Runtime.truncate s" "ss_Revision t = revision_of db + 1"
    by (subst t(3), simp add: stored_settings_revision)+
  then show ?thesis using t validate_normalized [OF n t(1)] by simp
qed

lemma upsert_failed:
  assumes "cipher_ok (secretCipher cr)" "nonce_ok (secretCipher cr) n1" "nonce_ok (secretCipher cr) n2"
    and "UpsertServerSettings cr n1 n2 now settings db = (Inl e, db')"
  shows "db' = db"
  using upsert_outcome [OF assms] by simp

lemma loaded_revision: "GetServerSettings cr db = Inr (Some t) \<Longrightarrow> ss_Revision t = revision_of db"
  by (auto simp: GetServerSettings_def scanAndDecryptServerSettings_def revision_of_def split: option.splits sum.splits)

lemma loaded_none: "GetServerSettings cr db = Inr None \<Longrightarrow> server_settings db = None"
  by (auto simp: GetServerSettings_def scanAndDecryptServerSettings_def split: option.splits sum.splits)

lemma effective_revision: "loadEffectiveServerSettingsContext lib cl h db = Inr eff \<Longrightarrow> ef_Revision eff = revision_of db"
  by (auto simp: loadEffectiveServerSettingsContext_def loaded_revision revision_of_def dest!: loaded_none split: sum.splits option.splits if_splits)

lemma effective_frame:
  "server_settings db' = server_settings db \<Longrightarrow>
     loadEffectiveServerSettingsContext lib cl h db' = loadEffectiveServerSettingsContext lib cl h db \<and> revision_of db' = revision_of db"
  by (simp add: loadEffectiveServerSettingsContext_def GetServerSettings_def revision_of_def)

section \<open>Secrets\<close>

text \<open>What an answer may depend on of a secret: whether there is one, and four characters at each end of a longer one.\<close>

definition secret_view :: "string \<Rightarrow> bool \<times> (string \<times> string) option" where
  "secret_view secret = (secret = [], if length secret \<le> 8 then None else Some (take 4 secret, drop (length secret - 4) secret))"

text \<open>
  Secrets stay secret. Two settings that differ in nothing but their API key and Turnstile secret are
  answered alike as soon as both secrets look alike from outside: both set or both not, and either both at most
  eight bytes long or with the same four bytes at the beginning and at the end. No other byte, nor the
  length, of a secret reaches the answer; a preview has at most eleven bytes, and that of a longer secret
  is the secret only where the secret itself is four bytes, three dots and four bytes.
\<close>

theorem settings_answer_hides_secrets:
  assumes "s' = s\<lparr>CPAAPIKey := k, TurnstileSecretKey := t\<rparr>"
    and "secret_view k = secret_view (CPAAPIKey s)" "secret_view t = secret_view (TurnstileSecretKey s)"
  shows "toServerSettingsResponse version s' at persistedVersion liveVersion = toServerSettingsResponse version s at persistedVersion liveVersion \<and>
    length (sv_CPAAPIKeyPreview (toServerSettingsResponse version s at persistedVersion liveVersion)) \<le> 11 \<and>
    (8 < length (CPAAPIKey s) \<longrightarrow> sv_CPAAPIKeyPreview (toServerSettingsResponse version s at persistedVersion liveVersion) \<noteq> CPAAPIKey s \<or>
       (\<exists>a b. CPAAPIKey s = a @ ''...'' @ b \<and> length a = 4 \<and> length b = 4))"
proof -
  have mask: "(if x = [] then [] else maskSecret x) = (if y = [] then [] else maskSecret y)" if "secret_view x = secret_view y" for x y
    using that by (auto simp: secret_view_def maskSecret_def split: if_splits)
  have empty: "(x = []) = (y = [])" if "secret_view x = secret_view y" for x y using that by (simp add: secret_view_def)
  have short: "length (maskSecret x) \<le> 11" for x by (auto simp: maskSecret_def)
  have shape: "maskSecret x = x \<Longrightarrow> 8 < length x \<Longrightarrow> \<exists>a b. x = a @ ''...'' @ b \<and> length a = 4 \<and> length b = 4" for x
    by (rule exI [of _ "take 4 x"], rule exI [of _ "drop (length x - 4) x"]) (auto simp: maskSecret_def)
  show ?thesis using assms(1) mask [OF assms(2)] mask [OF assms(3)] empty [OF assms(2)] empty [OF assms(3)] short [of "CPAAPIKey s"] shape [of "CPAAPIKey s"]
    by (auto simp: toServerSettingsResponse_def)
qed

theorem settings_answer_hides_secrets_witness:
  "toServerSettingsResponse ''0.2.4'' (zero_settings\<lparr>CPAAPIKey := ''abcd-one-wxyz'', TurnstileSecretKey := ''x''\<rparr>) None 1 1 =
   toServerSettingsResponse ''0.2.4'' (zero_settings\<lparr>CPAAPIKey := ''abcd-another-wxyz'', TurnstileSecretKey := ''secret''\<rparr>) None 1 1"
proof -
  let ?s = "zero_settings\<lparr>CPAAPIKey := ''abcd-another-wxyz'', TurnstileSecretKey := ''secret''\<rparr>"
  have "zero_settings\<lparr>CPAAPIKey := ''abcd-one-wxyz'', TurnstileSecretKey := ''x''\<rparr> =
      ?s\<lparr>CPAAPIKey := ''abcd-one-wxyz'', TurnstileSecretKey := ''x''\<rparr>" by simp
  moreover have "secret_view ''abcd-one-wxyz'' = secret_view (CPAAPIKey ?s)" "secret_view ''x'' = secret_view (TurnstileSecretKey ?s)"
    by code_simp+
  ultimately show ?thesis by (rule settings_answer_hides_secrets [THEN conjunct1])
qed

end
