(* ===== verification/Overview_Health.thy ===== *)
theory Overview_Health
  imports Panel_Settings
begin

text \<open>
  The health shown on the overview, \<open>internal/panel/overview_health.go\<close>: one cached result with a time to
  live, at most one probe of the current generation in flight, and an evaluation that reads the stored
  settings, the live version and the models of the upstream one after the other, so that each may change
  in between. A probe is an index into the list of probes, with its local progress.
\<close>

section \<open>State\<close>

datatype OverviewHealthStatus =
  OverviewHealthHealthy | OverviewHealthDegraded | OverviewHealthUnhealthy | OverviewHealthUnknown

text \<open>The zero value of \<open>CheckedAt\<close>, which marks an empty cache, is \<open>None\<close>; so is that of \<open>cacheExpiresAt\<close>.\<close>

record OverviewHealthResponse =
  oh_Status :: OverviewHealthStatus
  oh_CheckedAt :: time

datatype probe_progress =
    Starting
  | SettingsRead effectiveServerSettings
  | VersionRead Runtime
  | Decided OverviewHealthStatus

record overviewHealthProbe =
  pb_generation :: "64 word"
  pb_done :: bool
  pb_progress :: probe_progress

record overviewHealthState =
  oh_generation :: "64 word"
  oh_cached :: "(OverviewHealthResponse \<times> time) option"
  oh_inFlightProbe :: "nat option"
  oh_probes :: "overviewHealthProbe list"

definition overviewHealthProbeTimeout :: duration where "overviewHealthProbeTimeout = 5 * Second"
definition overviewHealthCacheTTL :: duration where "overviewHealthCacheTTL = 30 * Second"

definition new_health :: overviewHealthState where
  "new_health = \<lparr>oh_generation = 0, oh_cached = None, oh_inFlightProbe = None, oh_probes = []\<rparr>"

section \<open>Evaluation\<close>

text \<open>The three readings of the evaluation, each with the status of an early return on the left.\<close>

definition evaluate_settings ::
  "Client option \<Rightarrow> (store_error + string) + effectiveServerSettings \<Rightarrow> OverviewHealthStatus + effectiveServerSettings" where
  "evaluate_settings modelLister loaded =
     (if modelLister = None then Inl OverviewHealthUnknown
      else case loaded of Inl _ \<Rightarrow> Inl OverviewHealthUnknown | Inr eff \<Rightarrow> Inr eff)"

definition evaluate_version ::
  "config_lib \<Rightarrow> runtimeServerSettingsApplier option \<Rightarrow> effectiveServerSettings \<Rightarrow> OverviewHealthStatus + Runtime" where
  "evaluate_version cl applier eff =
     (if ef_Revision eff \<noteq> currentLiveServerSettingsVersion applier (ef_Revision eff) then Inl OverviewHealthUnknown
      else case NormalizeServerSettings cl (ef_Runtime eff) of
          Inl _ \<Rightarrow> Inl OverviewHealthUnknown | Inr s \<Rightarrow> Inr s)"

definition evaluate_models :: "panel_lib \<Rightarrow> config_lib \<Rightarrow> Runtime \<Rightarrow> grok_error + grok_Model list \<Rightarrow> OverviewHealthStatus" where
  "evaluate_models lib cl serverSettings listed =
     (case listed of
        Inl _ \<Rightarrow> OverviewHealthUnhealthy
      | Inr models \<Rightarrow>
          let configuredModel = TrimSpace (Model serverSettings)
          in if list_ex (\<lambda>m. pl_EqualFold lib (TrimSpace (gm_ID m)) configuredModel) (FilterGrokModels cl models)
             then OverviewHealthHealthy else OverviewHealthDegraded)"

text \<open>The evaluation when nothing changes while it runs. A probe has a store; the lister is the upstream client.\<close>

definition evaluateOverviewHealth ::
  "panel_lib \<Rightarrow> config_lib \<Rightarrow> Handler \<Rightarrow> Client option \<Rightarrow> runtimeServerSettingsApplier option \<Rightarrow> DB \<Rightarrow>
     (Client \<Rightarrow> grok_error + grok_Model list) \<Rightarrow> OverviewHealthStatus" where
  "evaluateOverviewHealth lib cl h modelLister applier db list_models =
     (case evaluate_settings modelLister (loadEffectiveServerSettingsContext lib cl h db) of
        Inl verdict \<Rightarrow> verdict
      | Inr eff \<Rightarrow>
          (case evaluate_version cl applier eff of
             Inl verdict \<Rightarrow> verdict
           | Inr s \<Rightarrow> evaluate_models lib cl s (list_models (the modelLister))))"

section \<open>Requests and probes\<close>

datatype health_answer = Cached OverviewHealthResponse | Joined nat

text \<open>
  One turn of the loop of \<open>loadOverviewHealth\<close>: the cached response, or the probe to wait for, which is
  started when there is none. When that probe is done the request takes another turn.
\<close>

definition join_probe :: "overviewHealthState \<Rightarrow> health_answer \<times> overviewHealthState" where
  "join_probe hs =
     (case oh_inFlightProbe hs of
        Some p \<Rightarrow> (Joined p, hs)
      | None \<Rightarrow> (Joined (length (oh_probes hs)),
          hs\<lparr>oh_inFlightProbe := Some (length (oh_probes hs)),
            oh_probes := oh_probes hs @ [\<lparr>pb_generation = oh_generation hs, pb_done = False, pb_progress = Starting\<rparr>]\<rparr>))"

definition loadOverviewHealth :: "time \<Rightarrow> overviewHealthState \<Rightarrow> health_answer \<times> overviewHealthState" where
  "loadOverviewHealth now hs =
     (case oh_cached hs of
        Some (response, expiresAt) \<Rightarrow> if now < expiresAt then (Cached response, hs) else join_probe hs
      | None \<Rightarrow> join_probe hs)"

text \<open>What the probe does between two readings, and the end of \<open>runOverviewHealthProbe\<close>.\<close>

definition set_progress :: "nat \<Rightarrow> probe_progress \<Rightarrow> overviewHealthState \<Rightarrow> overviewHealthState" where
  "set_progress p progress hs = hs\<lparr>oh_probes := (oh_probes hs)[p := (oh_probes hs ! p)\<lparr>pb_progress := progress\<rparr>]\<rparr>"

definition finish_probe :: "nat \<Rightarrow> OverviewHealthStatus \<Rightarrow> time \<Rightarrow> overviewHealthState \<Rightarrow> overviewHealthState" where
  "finish_probe p verdict checkedAt hs =
     (let hs1 = (if oh_inFlightProbe hs = Some p then hs\<lparr>oh_inFlightProbe := None\<rparr> else hs);
          hs2 = (if oh_generation hs1 = pb_generation (oh_probes hs1 ! p)
                then hs1\<lparr>oh_cached := Some (\<lparr>oh_Status = verdict, oh_CheckedAt = checkedAt\<rparr>, checkedAt + overviewHealthCacheTTL)\<rparr>
                else hs1)
      in hs2\<lparr>oh_probes := (oh_probes hs2)[p := (oh_probes hs2 ! p)\<lparr>pb_done := True\<rparr>]\<rparr>)"

definition invalidateOverviewHealthCache :: "overviewHealthState \<Rightarrow> overviewHealthState" where
  "invalidateOverviewHealthCache hs =
     hs\<lparr>oh_generation := oh_generation hs + 1, oh_cached := None, oh_inFlightProbe := None\<rparr>"

end
