(* ===== verification/Settings_Update.thy ===== *)
theory Settings_Update
  imports Overview_Health
begin

text \<open>
  The update of the runtime settings (\<open>adminUpdateServerSettings\<close> of \<open>internal/panel/settings.go\<close>) and the
  system it is part of: the stored settings, the running components and the overview health, changed by
  one update at a time (\<open>settingsUpdateMutex\<close>) while health requests and probes run. Shown: the answer to
  an update is true of the stored and of the live settings; settings reported as applied are those every
  component runs with; and a health result never outlives the settings it was computed from.
\<close>

section \<open>The handler\<close>

text \<open>
  The handler up to the write. An upsert with an expected revision that reports no error returns a row,
  so its missing row needs no answer of its own.
\<close>

definition persist_settings ::
  "panel_lib \<Rightarrow> config_lib \<Rightarrow> Handler \<Rightarrow> string option \<Rightarrow> string option \<Rightarrow> time \<Rightarrow> UpdateServerSettingsRequest \<Rightarrow> DB \<Rightarrow>
     (panel_error + Runtime \<times> ServerSettings) \<times> DB" where
  "persist_settings lib cl h n1 n2 now req db =
     (case loadEffectiveServerSettingsContext lib cl h db of
        Inl _ \<Rightarrow> (Inl (writeError 500 ''failed to load server settings''), db)
      | Inr current \<Rightarrow>
          (case us_ExpectedVersion req of
             None \<Rightarrow> (Inl (writeError 400 ''expected_version is required''), db)
           | Some expected \<Rightarrow>
               if expected < 0 then (Inl (writeError 400 ''expected_version is required''), db)
               else if expected \<noteq> ef_Revision current then (Inl (writeError 409 ''server settings changed; reload and retry''), db)
               else if turnstileSiteKeyChangeRequiresSecret (ef_Runtime current) req
               then (Inl (writeError 400 ''turnstile_secret_key is required when turnstile_site_key changes''), db)
               else
                 (case NormalizeServerSettings cl (mergeServerSettingsRequest (ef_Runtime current) req) of
                    Inl e \<Rightarrow> (Inl (writeError 400 e), db)
                  | Inr normalizedSettings \<Rightarrow>
                      (case UpsertServerSettings (pl_crypto lib) n1 n2 now (with_expected normalizedSettings (Some expected)) db of
                         (Inl e, db') \<Rightarrow>
                           (Inl (if e = ErrServerSettingsConflict then writeError 409 ''server settings changed; reload and retry''
                                 else writeError 500 ''failed to save server settings''), db')
                       | (Inr None, db') \<Rightarrow> (Inl (writeError 500 ''failed to save server settings''), db')
                       | (Inr (Some t), db') \<Rightarrow> (Inr (normalizedSettings, t), db')))))"

record settings_panel =
  sp_db :: DB
  sp_SettingsApplier :: "runtimeServerSettingsApplier option"
  sp_health :: overviewHealthState

definition saved_answer :: "string \<Rightarrow> ServerSettings \<Rightarrow> settings_panel \<Rightarrow> settings_reply answer" where
  "saved_answer version t s = Answer 200 (SettingsReply (toServerSettingsResponse version (Runtime.truncate t) (Some (ss_UpdatedAt t))
     (ss_Revision t) (currentLiveServerSettingsVersion (sp_SettingsApplier s) (ss_Revision t))))"

definition adminUpdateServerSettings ::
  "panel_lib \<Rightarrow> config_lib \<Rightarrow> string \<Rightarrow> Handler \<Rightarrow> string option \<Rightarrow> string option \<Rightarrow> time \<Rightarrow>
     panel_error + UpdateServerSettingsRequest \<Rightarrow> settings_panel \<Rightarrow> settings_reply answer \<times> settings_panel" where
  "adminUpdateServerSettings lib cl version h n1 n2 now body s =
     (case body of
        Inl e \<Rightarrow> (Failure e, s)
      | Inr req \<Rightarrow>
          (case persist_settings lib cl h n1 n2 now req (sp_db s) of
             (Inl e, db') \<Rightarrow> (Failure e, s\<lparr>sp_db := db'\<rparr>)
           | (Inr (normalizedSettings, t), db') \<Rightarrow>
               let s1 = s\<lparr>sp_db := db', sp_health := invalidateOverviewHealthCache (sp_health s)\<rparr>
               in (case sp_SettingsApplier s1 of
                     None \<Rightarrow> (saved_answer version t s1, s1)
                   | Some a \<Rightarrow>
                       (case ApplyServerSettings cl normalizedSettings (ss_Revision t) a of
                          (Some e, a') \<Rightarrow>
                            (Answer 500 (SavedNotApplied \<lparr>sna_Code = settingsSavedNotAppliedCode,
                               sna_Error = ''settings were saved but runtime components are not fully active'',
                               sna_PersistedVersion = ss_Revision t, sna_LiveVersion = LiveServerSettingsVersion a'\<rparr>),
                             s1\<lparr>sp_SettingsApplier := Some a'\<rparr>)
                        | (None, a') \<Rightarrow>
                            let s2 = s1\<lparr>sp_SettingsApplier := Some a', sp_health := invalidateOverviewHealthCache (sp_health s1)\<rparr>
                            in (saved_answer version t s2, s2)))))"

section \<open>The answer to an update\<close>

lemma persist_failed:
  assumes "cipher_ok (secretCipher (pl_crypto lib))" "nonce_ok (secretCipher (pl_crypto lib)) n1" "nonce_ok (secretCipher (pl_crypto lib)) n2"
    and "persist_settings lib cl h n1 n2 now req db = (Inl e, db')"
  shows "db' = db"
proof -
  have none: "UpsertServerSettings (pl_crypto lib) n1 n2 now settings db = (Inr None, db') \<Longrightarrow> False" for settings
    using upsert_outcome [OF assms(1-3), of now settings db "Inr None" db'] by auto
  show ?thesis using assms(4) none upsert_failed [OF assms(1-3)]
    by (auto simp: persist_settings_def split: sum.splits option.splits if_splits prod.splits)
qed

lemma persist_done:
  assumes "cipher_ok (secretCipher (pl_crypto lib))" "nonce_ok (secretCipher (pl_crypto lib)) n1" "nonce_ok (secretCipher (pl_crypto lib)) n2"
    and "persist_settings lib cl h n1 n2 now req db = (Inr (n, t), db')"
  shows "\<exists>current. loadEffectiveServerSettingsContext lib cl h db = Inr current \<and> us_ExpectedVersion req = Some (revision_of db) \<and>
    \<not> turnstileSiteKeyChangeRequiresSecret (ef_Runtime current) req \<and>
    NormalizeServerSettings cl (mergeServerSettingsRequest (ef_Runtime current) req) = Inr n \<and>
    GetServerSettings (pl_crypto lib) db' = Inr (Some t) \<and> Runtime.truncate t = persisted_form n \<and>
    ss_Revision t = revision_of db + 1 \<and> revision_of db' = revision_of db + 1"
proof -
  obtain current where current: "loadEffectiveServerSettingsContext lib cl h db = Inr current"
    "us_ExpectedVersion req = Some (ef_Revision current)" "\<not> turnstileSiteKeyChangeRequiresSecret (ef_Runtime current) req"
    "NormalizeServerSettings cl (mergeServerSettingsRequest (ef_Runtime current) req) = Inr n"
    "UpsertServerSettings (pl_crypto lib) n1 n2 now (with_expected n (Some (ef_Revision current))) db = (Inr (Some t), db')"
    using assms(4) by (auto simp: persist_settings_def split: sum.splits option.splits if_splits prod.splits)
  show ?thesis using current upsert_normalized [OF assms(1-3) current(4,5)] effective_revision [OF current(1)] by auto
qed

lemma apply_upstream_frame:
  "apply_upstream cl n a = (e, a') \<Longrightarrow> ra_liveSettings a' = ra_liveSettings a \<and> ra_searchConcurrencyLimiter a' = ra_searchConcurrencyLimiter a \<and>
     ra_sqliteStore a' = ra_sqliteStore a \<and> ra_usageWriter a' = ra_usageWriter a \<and> (ra_upstreamApplier a' = None \<longleftrightarrow> ra_upstreamApplier a = None)"
  by (auto simp: apply_upstream_def split: option.splits sum.splits)

lemma apply_rest_failed: "apply_rest n v a = (Some e, a') \<Longrightarrow> a' = a"
  by (auto simp: apply_rest_def apply_limits_def split: option.splits sum.splits prod.splits)

lemma apply_rest_done:
  "apply_rest n v a = (None, a') \<Longrightarrow> LiveServerSettingsVersion a' = v \<and>
     LiveLoginVerificationSettings a' = loginVerificationSettingsFromServerSettings n \<and> ra_upstreamApplier a' = ra_upstreamApplier a"
  by (auto simp: apply_rest_def apply_limits_def apply_metrics_def publishLiveServerSettings_def LiveServerSettingsVersion_def
      LiveLoginVerificationSettings_def split: option.splits sum.splits prod.splits)

lemma Apply_failed: "ApplyServerSettings cl n v a = (Some e, a') \<Longrightarrow> ra_liveSettings a' = ra_liveSettings a"
  by (auto simp: ApplyServerSettings_def split: prod.splits option.splits dest!: apply_upstream_frame apply_rest_failed)

lemma Apply_done:
  "ApplyServerSettings cl n v a = (None, a') \<Longrightarrow> LiveServerSettingsVersion a' = v \<and>
     LiveLoginVerificationSettings a' = loginVerificationSettingsFromServerSettings n"
  by (auto simp: ApplyServerSettings_def split: prod.splits option.splits dest!: apply_rest_done)

lemma live_version_frame: "ra_liveSettings a' = ra_liveSettings a \<Longrightarrow> LiveServerSettingsVersion a' = LiveServerSettingsVersion a"
  by (simp add: LiveServerSettingsVersion_def)

text \<open>
  An update and its answer (C31). With a working cipher, an update that is refused leaves stored settings,
  components and health as they were. One that is not has named the stored revision, has given a new
  Turnstile secret with a new site key, and has stored the normalised merge of its fields and the
  effective settings under the next revision, with an empty health cache. Answered with 200, these settings
  are live, for the login verification too, and the answer says so; otherwise it is the answer
  500 \<open>settings_saved_not_applied\<close>, which tells the stored and the live revision, and the live settings are the
  old ones.
\<close>

theorem settings_update_exact:
  assumes c: "cipher_ok (secretCipher (pl_crypto lib))" "nonce_ok (secretCipher (pl_crypto lib)) n1" "nonce_ok (secretCipher (pl_crypto lib)) n2"
    and up: "adminUpdateServerSettings lib cl version h n1 n2 now (Inr req) s = (ans, s')"
  shows "case ans of
      Failure e \<Rightarrow> s' = s
    | Answer code reply \<Rightarrow> \<exists>current n t.
        loadEffectiveServerSettingsContext lib cl h (sp_db s) = Inr current \<and> us_ExpectedVersion req = Some (revision_of (sp_db s)) \<and>
        \<not> turnstileSiteKeyChangeRequiresSecret (ef_Runtime current) req \<and>
        NormalizeServerSettings cl (mergeServerSettingsRequest (ef_Runtime current) req) = Inr n \<and>
        GetServerSettings (pl_crypto lib) (sp_db s') = Inr (Some t) \<and> Runtime.truncate t = persisted_form n \<and>
        ss_Revision t = revision_of (sp_db s) + 1 \<and> oh_cached (sp_health s') = None \<and>
        (case reply of
           SettingsReply r \<Rightarrow> code = 200 \<and>
             r = toServerSettingsResponse version (persisted_form n) (Some (ss_UpdatedAt t)) (ss_Revision t) (ss_Revision t) \<and>
             (\<forall>a. sp_SettingsApplier s' = Some a \<longrightarrow> LiveServerSettingsVersion a = ss_Revision t \<and>
                LiveLoginVerificationSettings a = loginVerificationSettingsFromServerSettings n)
         | SavedNotApplied r \<Rightarrow> code = 500 \<and> sna_PersistedVersion r = ss_Revision t \<and>
             (\<exists>a a'. sp_SettingsApplier s = Some a \<and> sp_SettingsApplier s' = Some a' \<and> ra_liveSettings a' = ra_liveSettings a \<and>
                sna_LiveVersion r = LiveServerSettingsVersion a))"
proof (cases "persist_settings lib cl h n1 n2 now req (sp_db s)")
  case (Pair r db')
  show ?thesis
  proof (cases r)
    case (Inl e)
    then show ?thesis using up persist_failed [OF c Pair [unfolded Inl]] Pair by (auto simp: adminUpdateServerSettings_def)
  next
    case (Inr nt)
    then obtain n t where nt: "r = Inr (n, t)" by (cases nt) auto
    obtain current where p: "loadEffectiveServerSettingsContext lib cl h (sp_db s) = Inr current" "us_ExpectedVersion req = Some (revision_of (sp_db s))"
      "\<not> turnstileSiteKeyChangeRequiresSecret (ef_Runtime current) req"
      "NormalizeServerSettings cl (mergeServerSettingsRequest (ef_Runtime current) req) = Inr n"
      "GetServerSettings (pl_crypto lib) db' = Inr (Some t)" "Runtime.truncate t = persisted_form n" "ss_Revision t = revision_of (sp_db s) + 1"
      using persist_done [OF c Pair [unfolded nt]] by blast
    show ?thesis
    proof (cases "sp_SettingsApplier s")
      case None
      then show ?thesis using up Pair nt p
        by (auto simp: adminUpdateServerSettings_def Let_def saved_answer_def currentLiveServerSettingsVersion_def invalidateOverviewHealthCache_def)
    next
      case (Some a)
      obtain err a' where ap: "ApplyServerSettings cl n (ss_Revision t) a = (err, a')" by fastforce
      show ?thesis
      proof (cases err)
        case None
        then show ?thesis using up Pair nt p Some ap Apply_done [OF ap [unfolded None]]
          by (auto simp: adminUpdateServerSettings_def Let_def saved_answer_def currentLiveServerSettingsVersion_def invalidateOverviewHealthCache_def)
      next
        case (Some e)
        note keeps = Apply_failed [OF ap [unfolded Some]]
        show ?thesis using up Pair nt p \<open>sp_SettingsApplier s = Some a\<close> ap Some keeps live_version_frame [OF keeps]
          by (auto simp: adminUpdateServerSettings_def Let_def invalidateOverviewHealthCache_def)
      qed
    qed
  qed
qed

section \<open>A running system\<close>

definition demo_stored_db :: DB where
  "demo_stored_db = snd (UpsertServerSettings demo_crypto (Some ''n'') (Some ''n'') demo_time (with_expected (demo_normal ''http://up'') None) demo_db)"

definition demo_initialized :: "((store_error + string) + ServerSettings option) \<times> DB" where
  "demo_initialized = InitializeServerSettings demo_crypto demo_config_lib (demo_config ''60'') (Some ''n'') (Some ''n'') demo_time demo_stored_db"

definition demo_live :: ServerSettings where
  "demo_live = (case fst demo_initialized of Inr (Some t) \<Rightarrow> t)"

definition demo_applier :: runtimeServerSettingsApplier where
  "demo_applier = publishLiveServerSettings (Runtime.truncate demo_live) (ss_Revision demo_live)
     \<lparr>ra_upstreamApplier = (case NewClientWithServerSettings demo_config_lib (Runtime.truncate demo_live) of Inr c \<Rightarrow> Some c | Inl _ \<Rightarrow> None),
      ra_searchConcurrencyLimiter = (case NewSearchConcurrencyLimiter (MCPGlobalSearchConcurrency demo_live) (MCPUserSearchConcurrency demo_live) of
        Inr l \<Rightarrow> Some l | Inl _ \<Rightarrow> None),
      ra_sqliteStore = Some (OperationsMetricsEnabled demo_live),
      ra_usageWriter = Some (SetMetricsEnabled (OperationsMetricsEnabled demo_live) (newAsyncUsageWriterWithBatch 0 0 0 0 0)), ra_liveSettings = None\<rparr>"

lemma demo_live_parts:
  "fst demo_initialized = Inr (Some demo_live)"
  "\<exists>c. NewClientWithServerSettings demo_config_lib (Runtime.truncate demo_live) = Inr c"
  "\<exists>l. NewSearchConcurrencyLimiter (MCPGlobalSearchConcurrency demo_live) (MCPUserSearchConcurrency demo_live) = Inr l"
proof -
  have "case fst demo_initialized of Inr (Some _) \<Rightarrow> True | _ \<Rightarrow> False" by code_simp
  then show "fst demo_initialized = Inr (Some demo_live)" unfolding demo_live_def by (auto split: sum.splits option.splits)
  have "case NewClientWithServerSettings demo_config_lib (Runtime.truncate demo_live) of Inr _ \<Rightarrow> True | Inl _ \<Rightarrow> False" by code_simp
  then show "\<exists>c. NewClientWithServerSettings demo_config_lib (Runtime.truncate demo_live) = Inr c" by (auto split: sum.splits)
  have "case NewSearchConcurrencyLimiter (MCPGlobalSearchConcurrency demo_live) (MCPUserSearchConcurrency demo_live) of Inr _ \<Rightarrow> True | Inl _ \<Rightarrow> False"
    by code_simp
  then show "\<exists>l. NewSearchConcurrencyLimiter (MCPGlobalSearchConcurrency demo_live) (MCPUserSearchConcurrency demo_live) = Inr l"
    by (auto split: sum.splits)
qed

definition demo_settings_panel :: settings_panel where
  "demo_settings_panel = \<lparr>sp_db = snd demo_initialized, sp_SettingsApplier = Some demo_applier, sp_health = new_health\<rparr>"

definition demo_model_update :: UpdateServerSettingsRequest where
  "demo_model_update = \<lparr>us_ExpectedVersion = Some 2, us_CPABaseURL = None, us_CPAAPIKey = Some '' '', us_UpstreamProtocol = None,
     us_Model = Some '' grok-3 '', us_TimeoutSeconds = None, us_MCPGlobalSearchConcurrency = None, us_MCPUserSearchConcurrency = None,
     us_ProxyURL = None, us_ProxyEnabled = None, us_RegistrationMode = None, us_TurnstileEnabled = None, us_TurnstileSiteKey = None,
     us_TurnstileSecretKey = None, us_Debug = None, us_OperationsMetricsEnabled = None\<rparr>"

definition demo_update :: "settings_reply answer \<times> settings_panel" where
  "demo_update = adminUpdateServerSettings demo_panel_lib demo_config_lib ''0.2.4'' demo_handler (Some ''n'') (Some ''n'') demo_time
     (Inr demo_model_update) demo_settings_panel"

theorem settings_update_exact_witness:
  "\<exists>t. GetServerSettings demo_crypto (sp_db (snd demo_update)) = Inr (Some t) \<and> ss_Revision t = 3 \<and>
     Model (Runtime.truncate t) = ''grok-3'' \<and> CPAAPIKey (Runtime.truncate t) = ''k''"
proof -
  have sent: "case fst demo_update of Answer code (SettingsReply r) \<Rightarrow> code = 200 | _ \<Rightarrow> False" by code_simp
  then obtain r where r: "fst demo_update = Answer 200 (SettingsReply r)" by (auto split: answer.splits settings_reply.splits)
  have rev: "revision_of (sp_db demo_settings_panel) = 2" by code_simp
  have parts: "case GetServerSettings demo_crypto (sp_db (snd demo_update)) of
      Inr (Some t) \<Rightarrow> Model (Runtime.truncate t) = ''grok-3'' \<and> CPAAPIKey (Runtime.truncate t) = ''k'' | _ \<Rightarrow> False" by code_simp
  have "adminUpdateServerSettings demo_panel_lib demo_config_lib ''0.2.4'' demo_handler (Some ''n'') (Some ''n'') demo_time
      (Inr demo_model_update) demo_settings_panel = (Answer 200 (SettingsReply r), snd demo_update)"
    using r by (simp flip: demo_update_def) (metis prod.collapse)
  from settings_update_exact [OF _ _ _ this] demo_crypto_ok(1,2) obtain t where
    "GetServerSettings demo_crypto (sp_db (snd demo_update)) = Inr (Some t)" "ss_Revision t = 3"
    by (auto simp: demo_panel_lib_def rev)
  then show ?thesis using parts by auto
qed

end
