(* ===== verification/Settings_System.thy ===== *)
theory Settings_System
  imports Settings_Update
begin

text \<open>
  The stored settings, the running components and the overview health as one transition system: an update
  cut at its writes, its two invalidations and the components it switches, health requests, and probes cut
  at their readings, in any interleaving. \<open>settingsUpdateMutex\<close> admits one update at a time, and nothing but
  an update writes settings after the start. The wiring is that of \<open>Run\<close> in \<open>internal/app/server.go\<close>: the
  applier has every component, and the model lister is its upstream client.
\<close>

section \<open>Steps\<close>

datatype update_phase =
    NoUpdate
  | SettingsPersisted Runtime int
  | CacheInvalidated Runtime int
  | UpstreamSwitched Runtime int
  | SettingsLive

record settings_system =
  sy_db :: DB
  sy_applier :: runtimeServerSettingsApplier
  sy_health :: overviewHealthState
  sy_update :: update_phase

definition sy_load :: "panel_lib \<Rightarrow> config_lib \<Rightarrow> Handler \<Rightarrow> settings_system \<Rightarrow> (store_error + string) + effectiveServerSettings" where
  "sy_load lib cl h y = loadEffectiveServerSettingsContext lib cl h (sy_db y)"

definition probe_at :: "settings_system \<Rightarrow> nat \<Rightarrow> probe_progress \<Rightarrow> bool" where
  "probe_at y p progress \<longleftrightarrow> p < length (oh_probes (sy_health y)) \<and> \<not> pb_done (oh_probes (sy_health y) ! p) \<and>
     pb_progress (oh_probes (sy_health y) ! p) = progress"

fun decided :: "('a \<Rightarrow> probe_progress) \<Rightarrow> OverviewHealthStatus + 'a \<Rightarrow> probe_progress" where
  "decided go_on (Inl verdict) = Decided verdict"
| "decided go_on (Inr x) = go_on x"

text \<open>The generation counter does not wrap around.\<close>

inductive settings_step :: "panel_lib \<Rightarrow> config_lib \<Rightarrow> json_lib \<Rightarrow> Handler \<Rightarrow> settings_system \<Rightarrow> settings_system \<Rightarrow> bool"
  for lib :: panel_lib and cl :: config_lib and js :: json_lib and h :: Handler where
  persist: "sy_update y = NoUpdate \<Longrightarrow> nonce_ok (secretCipher (pl_crypto lib)) n1 \<Longrightarrow> nonce_ok (secretCipher (pl_crypto lib)) n2 \<Longrightarrow>
    persist_settings lib cl h n1 n2 now req (sy_db y) = (Inr (n, t), db') \<Longrightarrow>
    settings_step lib cl js h y (y\<lparr>sy_db := db', sy_update := SettingsPersisted n (ss_Revision t)\<rparr>)"
| refuse: "sy_update y = NoUpdate \<Longrightarrow> nonce_ok (secretCipher (pl_crypto lib)) n1 \<Longrightarrow> nonce_ok (secretCipher (pl_crypto lib)) n2 \<Longrightarrow>
    persist_settings lib cl h n1 n2 now req (sy_db y) = (Inl e, db') \<Longrightarrow>
    settings_step lib cl js h y (y\<lparr>sy_db := db'\<rparr>)"
| invalidate: "sy_update y = SettingsPersisted n r \<Longrightarrow> oh_generation (sy_health y) \<noteq> - 1 \<Longrightarrow>
    settings_step lib cl js h y (y\<lparr>sy_health := invalidateOverviewHealthCache (sy_health y), sy_update := CacheInvalidated n r\<rparr>)"
| switch: "sy_update y = CacheInvalidated n r \<Longrightarrow> apply_upstream cl n (sy_applier y) = (None, a) \<Longrightarrow>
    settings_step lib cl js h y (y\<lparr>sy_applier := a, sy_update := UpstreamSwitched n r\<rparr>)"
| switch_fails: "sy_update y = CacheInvalidated n r \<Longrightarrow> apply_upstream cl n (sy_applier y) = (Some e, a) \<Longrightarrow>
    settings_step lib cl js h y (y\<lparr>sy_applier := a, sy_update := NoUpdate\<rparr>)"
| publish: "sy_update y = UpstreamSwitched n r \<Longrightarrow> apply_rest n r (sy_applier y) = (None, a) \<Longrightarrow>
    settings_step lib cl js h y (y\<lparr>sy_applier := a, sy_update := SettingsLive\<rparr>)"
| publish_fails: "sy_update y = UpstreamSwitched n r \<Longrightarrow> apply_rest n r (sy_applier y) = (Some e, a) \<Longrightarrow>
    settings_step lib cl js h y (y\<lparr>sy_applier := a, sy_update := NoUpdate\<rparr>)"
| invalidate_again: "sy_update y = SettingsLive \<Longrightarrow> oh_generation (sy_health y) \<noteq> - 1 \<Longrightarrow>
    settings_step lib cl js h y (y\<lparr>sy_health := invalidateOverviewHealthCache (sy_health y), sy_update := NoUpdate\<rparr>)"
| other: "server_settings db' = server_settings (sy_db y) \<Longrightarrow> settings_step lib cl js h y (y\<lparr>sy_db := db'\<rparr>)"
| request: "settings_step lib cl js h y (y\<lparr>sy_health := snd (loadOverviewHealth now (sy_health y))\<rparr>)"
| read_settings: "probe_at y p Starting \<Longrightarrow>
    settings_step lib cl js h y (y\<lparr>sy_health := set_progress p
      (decided SettingsRead (evaluate_settings (ra_upstreamApplier (sy_applier y)) (sy_load lib cl h y))) (sy_health y)\<rparr>)"
| read_version: "probe_at y p (SettingsRead eff) \<Longrightarrow>
    settings_step lib cl js h y (y\<lparr>sy_health := set_progress p
      (decided VersionRead (evaluate_version cl (Some (sy_applier y)) eff)) (sy_health y)\<rparr>)"
| read_models: "probe_at y p (VersionRead s) \<Longrightarrow>
    settings_step lib cl js h y (y\<lparr>sy_health := set_progress p
      (Decided (evaluate_models lib cl s (ListModels cl js net (the (ra_upstreamApplier (sy_applier y)))))) (sy_health y)\<rparr>)"
| finish: "probe_at y p (Decided verdict) \<Longrightarrow>
    settings_step lib cl js h y (y\<lparr>sy_health := finish_probe p verdict checkedAt (sy_health y)\<rparr>)"

text \<open>The start: the settings are initialised, the components built from them and the revision published.\<close>

definition settings_start ::
  "panel_lib \<Rightarrow> config_lib \<Rightarrow> settings_system \<Rightarrow> bool" where
  "settings_start lib cl y \<longleftrightarrow>
     (\<exists>cfg n1 n2 now db t c l w.
        nonce_ok (secretCipher (pl_crypto lib)) n1 \<and> nonce_ok (secretCipher (pl_crypto lib)) n2 \<and>
        InitializeServerSettings (pl_crypto lib) cl cfg n1 n2 now db = (Inr (Some t), sy_db y) \<and>
        NewClientWithServerSettings cl (Runtime.truncate t) = Inr c \<and>
        NewSearchConcurrencyLimiter (MCPGlobalSearchConcurrency t) (MCPUserSearchConcurrency t) = Inr l \<and>
        sy_applier y = publishLiveServerSettings (Runtime.truncate t) (ss_Revision t)
          \<lparr>ra_upstreamApplier = Some c, ra_searchConcurrencyLimiter = Some l, ra_sqliteStore = Some (OperationsMetricsEnabled t),
           ra_usageWriter = Some (SetMetricsEnabled (OperationsMetricsEnabled t) w), ra_liveSettings = None\<rparr> \<and>
        sy_health y = new_health \<and> sy_update y = NoUpdate)"

inductive settings_reachable :: "panel_lib \<Rightarrow> config_lib \<Rightarrow> json_lib \<Rightarrow> Handler \<Rightarrow> settings_system \<Rightarrow> bool"
  for lib :: panel_lib and cl :: config_lib and js :: json_lib and h :: Handler where
  start: "settings_start lib cl y \<Longrightarrow> settings_reachable lib cl js h y"
| step: "settings_reachable lib cl js h y \<Longrightarrow> settings_step lib cl js h y y' \<Longrightarrow> settings_reachable lib cl js h y'"

section \<open>Settings in force\<close>

text \<open>The components run with the settings.\<close>

definition runs_with :: "config_lib \<Rightarrow> Runtime \<Rightarrow> runtimeServerSettingsApplier \<Rightarrow> bool" where
  "runs_with cl n a \<longleftrightarrow>
     (\<exists>c l w hc. ra_upstreamApplier a = Some c \<and> ra_searchConcurrencyLimiter a = Some l \<and> ra_usageWriter a = Some w \<and>
        cl_baseURL c = CPABaseURL n \<and> cl_apiKey c = CPAAPIKey n \<and> cl_defaultModel c = Model n \<and> cl_debug c = Debug n \<and>
        NormalizeUpstreamProtocol cl (rt_UpstreamProtocol n) = Inr (cl_protocol c) \<and>
        newHTTPClientWithProxy cl (wrap64 (TimeoutSeconds n * Second)) (ProxyURL n) (ProxyEnabled n) = Inr hc \<and> cl_httpClient c = hc \<and>
        sc_globalLimit l = MCPGlobalSearchConcurrency n \<and> sc_perUserLimit l = MCPUserSearchConcurrency n \<and>
        ra_sqliteStore a = Some (OperationsMetricsEnabled n) \<and> aw_metricsEnabled w = OperationsMetricsEnabled n) \<and>
     LiveLoginVerificationSettings a = loginVerificationSettingsFromServerSettings n"

text \<open>Stored settings of a revision, read back, are the persisted form of the settings given.\<close>

definition stores :: "crypto \<Rightarrow> DB \<Rightarrow> Runtime \<Rightarrow> int \<Rightarrow> bool" where
  "stores cr db n r \<longleftrightarrow> (\<exists>t. GetServerSettings cr db = Inr (Some t) \<and> Runtime.truncate t = persisted_form n \<and> ss_Revision t = r)"

definition components_ready :: "runtimeServerSettingsApplier \<Rightarrow> bool" where
  "components_ready a \<longleftrightarrow> ra_upstreamApplier a \<noteq> None \<and> ra_searchConcurrencyLimiter a \<noteq> None \<and> ra_sqliteStore a \<noteq> None \<and> ra_usageWriter a \<noteq> None"

text \<open>While an update is on its way the live revision is behind the stored one.\<close>

fun phase_ok :: "crypto \<Rightarrow> config_lib \<Rightarrow> update_phase \<Rightarrow> DB \<Rightarrow> runtimeServerSettingsApplier \<Rightarrow> bool" where
  "phase_ok cr cl NoUpdate db a \<longleftrightarrow>
     LiveServerSettingsVersion a = revision_of db \<longrightarrow> (\<exists>n. stores cr db n (revision_of db) \<and> runs_with cl n a)"
| "phase_ok cr cl (SettingsPersisted n r) db a \<longleftrightarrow> stores cr db n r \<and> LiveServerSettingsVersion a < revision_of db"
| "phase_ok cr cl (CacheInvalidated n r) db a \<longleftrightarrow> stores cr db n r \<and> LiveServerSettingsVersion a < revision_of db"
| "phase_ok cr cl (UpstreamSwitched n r) db a \<longleftrightarrow> stores cr db n r \<and> LiveServerSettingsVersion a < revision_of db \<and>
     (\<exists>c c'. client_ApplyServerSettings cl n c = Inr c' \<and> ra_upstreamApplier a = Some c')"
| "phase_ok cr cl SettingsLive db a \<longleftrightarrow> (\<exists>n. stores cr db n (revision_of db) \<and> runs_with cl n a) \<and> LiveServerSettingsVersion a = revision_of db"

definition versions_ok :: "crypto \<Rightarrow> config_lib \<Rightarrow> settings_system \<Rightarrow> bool" where
  "versions_ok cr cl y \<longleftrightarrow> components_ready (sy_applier y) \<and> LiveServerSettingsVersion (sy_applier y) \<le> revision_of (sy_db y) \<and>
     phase_ok cr cl (sy_update y) (sy_db y) (sy_applier y)"

lemma storesI: "GetServerSettings cr db = Inr (Some t) \<Longrightarrow> Runtime.truncate t = persisted_form n \<Longrightarrow> ss_Revision t = r \<Longrightarrow> stores cr db n r"
  by (auto simp: stores_def)

lemma stores_revision: "stores cr db n r \<Longrightarrow> r = revision_of db"
  by (auto simp: stores_def loaded_revision)

lemma settings_frame:
  "server_settings db' = server_settings db \<Longrightarrow> stores cr db' n r = stores cr db n r \<and> revision_of db' = revision_of db"
  by (simp add: stores_def GetServerSettings_def revision_of_def)

lemma phase_frame: "server_settings db' = server_settings db \<Longrightarrow> phase_ok cr cl ph db' a = phase_ok cr cl ph db a"
  using settings_frame [of db' db cr] by (cases ph) simp_all

lemma client_applied:
  "client_ApplyServerSettings cl n c = Inr c' \<Longrightarrow>
     cl_baseURL c' = CPABaseURL n \<and> cl_apiKey c' = CPAAPIKey n \<and> cl_defaultModel c' = Model n \<and> cl_debug c' = Debug n \<and>
     NormalizeUpstreamProtocol cl (rt_UpstreamProtocol n) = Inr (cl_protocol c') \<and>
     newHTTPClientWithProxy cl (wrap64 (TimeoutSeconds n * Second)) (ProxyURL n) (ProxyEnabled n) = Inr (cl_httpClient c')"
  by (auto simp: client_ApplyServerSettings_def and_then_Inr)

lemma published_runs:
  assumes ready: "components_ready a" and up: "client_ApplyServerSettings cl n c = Inr c'" "ra_upstreamApplier a = Some c'"
    and done': "apply_rest n r a = (None, a')"
  shows "runs_with cl n a' \<and> components_ready a' \<and> LiveServerSettingsVersion a' = r"
proof -
  obtain l w b where parts: "ra_searchConcurrencyLimiter a = Some l" "ra_usageWriter a = Some w" "ra_sqliteStore a = Some b"
    using ready by (auto simp: components_ready_def)
  obtain l' where l': "UpdateLimits (MCPGlobalSearchConcurrency n) (MCPUserSearchConcurrency n) l = Inr l'"
    "a' = publishLiveServerSettings n r (apply_metrics n (a\<lparr>ra_searchConcurrencyLimiter := Some l'\<rparr>))"
    using done' parts(1) by (auto simp: apply_rest_def apply_limits_def split: sum.splits prod.splits option.splits)
  have "sc_globalLimit l' = MCPGlobalSearchConcurrency n" "sc_perUserLimit l' = MCPUserSearchConcurrency n"
    using l'(1) by (auto simp: UpdateLimits_def split: if_splits)
  then show ?thesis using parts up(2) client_applied [OF up(1)]
    by (simp add: l'(2) runs_with_def components_ready_def publishLiveServerSettings_def apply_metrics_def LiveServerSettingsVersion_def
        LiveLoginVerificationSettings_def SetMetricsEnabled_def)
qed

lemma initialized:
  assumes "cipher_ok (secretCipher cr)" "nonce_ok (secretCipher cr) n1" "nonce_ok (secretCipher cr) n2"
    and "InitializeServerSettings cr cl cfg n1 n2 now db = (Inr stored, db')"
  shows "\<exists>t. stored = Some t \<and> stores cr db' (Runtime.truncate t) (ss_Revision t) \<and> ss_Revision t = revision_of db' \<and>
    persisted_form (Runtime.truncate t) = Runtime.truncate t"
proof -
  obtain loaded n where n: "NormalizeServerSettings cl (initial_settings cfg loaded) = Inr n"
    "UpsertServerSettings cr n1 n2 now (with_expected n None) db = (Inr stored, db')"
    using assms(4) by (auto simp: InitializeServerSettings_def split: sum.splits prod.splits)
  obtain t where t: "stored = Some t" "GetServerSettings cr db' = Inr (Some t)" "Runtime.truncate t = persisted_form n" "ss_Revision t = revision_of db'"
    using upsert_normalized [OF assms(1-3) n] by auto
  then show ?thesis by (auto simp: stores_def)
qed

lemma start_versions:
  assumes c: "cipher_ok (secretCipher (pl_crypto lib))" and y: "settings_start lib cl y"
  shows "versions_ok (pl_crypto lib) cl y"
proof -
  obtain cfg n1 n2 now db t c l w where s: "nonce_ok (secretCipher (pl_crypto lib)) n1" "nonce_ok (secretCipher (pl_crypto lib)) n2"
    "InitializeServerSettings (pl_crypto lib) cl cfg n1 n2 now db = (Inr (Some t), sy_db y)"
    "NewClientWithServerSettings cl (Runtime.truncate t) = Inr c"
    "NewSearchConcurrencyLimiter (MCPGlobalSearchConcurrency t) (MCPUserSearchConcurrency t) = Inr l"
    "sy_applier y = publishLiveServerSettings (Runtime.truncate t) (ss_Revision t)
          \<lparr>ra_upstreamApplier = Some c, ra_searchConcurrencyLimiter = Some l, ra_sqliteStore = Some (OperationsMetricsEnabled t),
           ra_usageWriter = Some (SetMetricsEnabled (OperationsMetricsEnabled t) w), ra_liveSettings = None\<rparr>" "sy_update y = NoUpdate"
    using y unfolding settings_start_def by blast
  have "sc_globalLimit l = MCPGlobalSearchConcurrency (Runtime.truncate t)" "sc_perUserLimit l = MCPUserSearchConcurrency (Runtime.truncate t)"
    using s(5) by (auto simp: NewSearchConcurrencyLimiter_def Runtime.defs split: if_splits)
  moreover have "OperationsMetricsEnabled (Runtime.truncate t) = OperationsMetricsEnabled t" by (simp add: Runtime.defs)
  ultimately have "runs_with cl (Runtime.truncate t) (sy_applier y)" "components_ready (sy_applier y)"
    using client_applied [OF s(4) [unfolded NewClientWithServerSettings_def]]
    by (simp_all add: s(6) runs_with_def components_ready_def publishLiveServerSettings_def LiveLoginVerificationSettings_def SetMetricsEnabled_def)
  moreover have "LiveServerSettingsVersion (sy_applier y) = ss_Revision t"
    by (simp add: s(6) publishLiveServerSettings_def LiveServerSettingsVersion_def)
  ultimately show ?thesis using initialized [OF c s(1-3)] s(7) by (auto simp: versions_ok_def)
qed

lemma step_versions:
  assumes c: "cipher_ok (secretCipher (pl_crypto lib))"
  shows "settings_step lib cl js h y y' \<Longrightarrow> versions_ok (pl_crypto lib) cl y \<Longrightarrow> versions_ok (pl_crypto lib) cl y'"
proof (induction rule: settings_step.induct)
  case (persist y n1 n2 now req n t db')
  then show ?case using persist_done [OF c persist(2-4)] by (auto simp: versions_ok_def intro!: storesI)
next
  case (refuse y n1 n2 now req e db')
  then show ?case using persist_failed [OF c refuse(2-4)] by simp
next
  case (switch y n r a)
  obtain c0 where c0: "ra_upstreamApplier (sy_applier y) = Some c0" using switch(3) by (auto simp: versions_ok_def components_ready_def)
  then obtain c1 where c1: "client_ApplyServerSettings cl n c0 = Inr c1" "a = (sy_applier y)\<lparr>ra_upstreamApplier := Some c1\<rparr>"
    using switch(2) by (auto simp: apply_upstream_def split: sum.splits)
  have "LiveServerSettingsVersion a = LiveServerSettingsVersion (sy_applier y)" by (simp add: c1(2) LiveServerSettingsVersion_def)
  then show ?case using switch c1 by (auto simp: versions_ok_def components_ready_def)
next
  case (switch_fails y n r e a)
  then have "a = sy_applier y" by (auto simp: apply_upstream_def split: option.splits sum.splits)
  then show ?case using switch_fails by (auto simp: versions_ok_def)
next
  case (publish y n r a)
  then obtain c0 c1 where c1: "client_ApplyServerSettings cl n c0 = Inr c1" "ra_upstreamApplier (sy_applier y) = Some c1"
    "stores (pl_crypto lib) (sy_db y) n r" "components_ready (sy_applier y)" by (auto simp: versions_ok_def)
  show ?case using published_runs [OF c1(4,1,2) publish(2)] c1(3) stores_revision [OF c1(3)] by (auto simp: versions_ok_def)
next
  case (publish_fails y n r e a)
  then show ?case using apply_rest_failed [OF publish_fails(2)] by (auto simp: versions_ok_def)
next
  case (other db' y)
  then show ?case using settings_frame [OF other(1)] phase_frame [OF other(1)] by (auto simp: versions_ok_def)
qed (auto simp: versions_ok_def)

lemma reachable_versions:
  assumes "cipher_ok (secretCipher (pl_crypto lib))"
  shows "settings_reachable lib cl js h y \<Longrightarrow> versions_ok (pl_crypto lib) cl y"
  by (induction rule: settings_reachable.induct) (auto intro: start_versions [OF assms] step_versions [OF assms])


section \<open>Health\<close>

text \<open>
  A status that the evaluation gives in the present state, for some behaviour of the network, and the
  progress of a probe whose readings still are those of the present state.
\<close>

definition accurate :: "panel_lib \<Rightarrow> config_lib \<Rightarrow> json_lib \<Rightarrow> Handler \<Rightarrow> settings_system \<Rightarrow> OverviewHealthStatus \<Rightarrow> bool" where
  "accurate lib cl js h y verdict \<longleftrightarrow> (\<exists>net. verdict = evaluateOverviewHealth lib cl h (ra_upstreamApplier (sy_applier y))
     (Some (sy_applier y)) (sy_db y) (ListModels cl js net))"

fun progress_ok :: "panel_lib \<Rightarrow> config_lib \<Rightarrow> json_lib \<Rightarrow> Handler \<Rightarrow> settings_system \<Rightarrow> probe_progress \<Rightarrow> bool" where
  "progress_ok lib cl js h y Starting = True"
| "progress_ok lib cl js h y (SettingsRead eff) = (sy_load lib cl h y = Inr eff)"
| "progress_ok lib cl js h y (VersionRead s) =
     (\<exists>eff. sy_load lib cl h y = Inr eff \<and> evaluate_version cl (Some (sy_applier y)) eff = Inr s)"
| "progress_ok lib cl js h y (Decided verdict) = accurate lib cl js h y verdict"

text \<open>Between a write and the invalidation that follows it, health may be out of date.\<close>

fun settled :: "update_phase \<Rightarrow> bool" where
  "settled (SettingsPersisted _ _) = False"
| "settled SettingsLive = False"
| "settled _ = True"

text \<open>
  The in-flight probe is open and of the current generation; an open probe of the current generation is the
  in-flight one; the cache holds a result until its time to live has passed.
\<close>

definition health_shape :: "overviewHealthState \<Rightarrow> bool" where
  "health_shape hs \<longleftrightarrow>
     (\<forall>p. oh_inFlightProbe hs = Some p \<longrightarrow> p < length (oh_probes hs)) \<and>
     (\<forall>p < length (oh_probes hs). pb_generation (oh_probes hs ! p) \<le> oh_generation hs) \<and>
     (\<forall>p < length (oh_probes hs). (oh_inFlightProbe hs = Some p) =
        (pb_generation (oh_probes hs ! p) = oh_generation hs \<and> \<not> pb_done (oh_probes hs ! p))) \<and>
     (\<forall>r e. oh_cached hs = Some (r, e) \<longrightarrow> e = oh_CheckedAt r + overviewHealthCacheTTL)"

definition health_fresh :: "panel_lib \<Rightarrow> config_lib \<Rightarrow> json_lib \<Rightarrow> Handler \<Rightarrow> settings_system \<Rightarrow> bool" where
  "health_fresh lib cl js h y \<longleftrightarrow>
     (\<forall>r e. oh_cached (sy_health y) = Some (r, e) \<longrightarrow> accurate lib cl js h y (oh_Status r)) \<and>
     (\<forall>p < length (oh_probes (sy_health y)). pb_generation (oh_probes (sy_health y) ! p) = oh_generation (sy_health y) \<longrightarrow>
        progress_ok lib cl js h y (pb_progress (oh_probes (sy_health y) ! p)))"

lemma health_shapeI:
  assumes "\<And>p. oh_inFlightProbe hs = Some p \<Longrightarrow> p < length (oh_probes hs)"
    and "\<And>p. p < length (oh_probes hs) \<Longrightarrow> pb_generation (oh_probes hs ! p) \<le> oh_generation hs"
    and "\<And>p. p < length (oh_probes hs) \<Longrightarrow> (oh_inFlightProbe hs = Some p) =
        (pb_generation (oh_probes hs ! p) = oh_generation hs \<and> \<not> pb_done (oh_probes hs ! p))"
    and "\<And>r e. oh_cached hs = Some (r, e) \<Longrightarrow> e = oh_CheckedAt r + overviewHealthCacheTTL"
  shows "health_shape hs"
  unfolding health_shape_def using assms by blast

lemma health_shapeD:
  assumes "health_shape hs"
  shows "oh_inFlightProbe hs = Some p \<Longrightarrow> p < length (oh_probes hs)"
    and "p < length (oh_probes hs) \<Longrightarrow> pb_generation (oh_probes hs ! p) \<le> oh_generation hs"
    and "p < length (oh_probes hs) \<Longrightarrow> (oh_inFlightProbe hs = Some p) =
        (pb_generation (oh_probes hs ! p) = oh_generation hs \<and> \<not> pb_done (oh_probes hs ! p))"
    and "oh_cached hs = Some (r, e) \<Longrightarrow> e = oh_CheckedAt r + overviewHealthCacheTTL"
  using assms unfolding health_shape_def by blast+

lemma invalidated_shape:
  assumes "health_shape hs" "oh_generation hs \<noteq> - 1"
  shows "health_shape (invalidateOverviewHealthCache hs)"
    "p < length (oh_probes hs) \<Longrightarrow> pb_generation (oh_probes hs ! p) \<noteq> oh_generation hs + 1"
proof -
  have "1 + oh_generation hs \<noteq> 0" using assms(2) by (metis add.inverse_unique)
  then have "unat (oh_generation hs + 1) = Suc (unat (oh_generation hs))" using unatSuc by (metis add.commute)
  then have up: "g < oh_generation hs + 1" if "g \<le> oh_generation hs" for g
    using that by (simp add: word_less_nat_alt word_le_nat_alt)
  show "p < length (oh_probes hs) \<Longrightarrow> pb_generation (oh_probes hs ! p) \<noteq> oh_generation hs + 1"
    using up health_shapeD(2) [OF assms(1)] by fastforce
  show "health_shape (invalidateOverviewHealthCache hs)"
    using up health_shapeD(2) [OF assms(1)] by (intro health_shapeI) (fastforce simp: invalidateOverviewHealthCache_def less_imp_le)+
qed

lemma nth_update: "xs[p := x] ! q = (if p = q \<and> q < length xs then x else xs ! q)"
  by (cases "p < length xs") (auto simp: nth_list_update list_update_beyond)

lemma join_shape: "health_shape hs \<Longrightarrow> health_shape (snd (join_probe hs))"
proof (cases "oh_inFlightProbe hs")
  case None
  assume shape: "health_shape hs"
  note d = health_shapeD [OF shape]
  show ?thesis
    by (rule health_shapeI) (use d None in \<open>auto simp: join_probe_def nth_append less_Suc_eq\<close>)
qed (simp add: join_probe_def)

lemma load_shape: "health_shape hs \<Longrightarrow> health_shape (snd (loadOverviewHealth now hs))"
  by (auto simp: loadOverviewHealth_def join_shape split: option.splits prod.splits)

lemma progress_shape: "health_shape hs \<Longrightarrow> health_shape (set_progress p progress hs)"
proof -
  assume shape: "health_shape hs"
  note d = health_shapeD [OF shape]
  show ?thesis by (rule health_shapeI) (use d in \<open>auto simp: set_progress_def nth_update\<close>)
qed

lemma finish_shape:
  assumes shape: "health_shape hs" and p: "p < length (oh_probes hs)"
  shows "health_shape (finish_probe p verdict checkedAt hs)"
proof -
  note d = health_shapeD [OF shape]
  have one: "q = p" if "oh_inFlightProbe hs = Some p" "q < length (oh_probes hs)" "pb_generation (oh_probes hs ! q) = oh_generation hs"
    "\<not> pb_done (oh_probes hs ! q)" for q
    using that d(3) [of q] by simp
  have probes: "oh_probes (finish_probe p verdict checkedAt hs) = (oh_probes hs)[p := (oh_probes hs ! p)\<lparr>pb_done := True\<rparr>]"
    "oh_generation (finish_probe p verdict checkedAt hs) = oh_generation hs"
    "oh_inFlightProbe (finish_probe p verdict checkedAt hs) = (if oh_inFlightProbe hs = Some p then None else oh_inFlightProbe hs)"
    by (simp_all add: finish_probe_def Let_def)
  show ?thesis
  proof (rule health_shapeI)
    fix q assume q: "q < length (oh_probes (finish_probe p verdict checkedAt hs))"
    show "pb_generation (oh_probes (finish_probe p verdict checkedAt hs) ! q) \<le> oh_generation (finish_probe p verdict checkedAt hs)"
      using q d(2) [of q] by (simp add: probes nth_update)
    show "(oh_inFlightProbe (finish_probe p verdict checkedAt hs) = Some q) =
        (pb_generation (oh_probes (finish_probe p verdict checkedAt hs) ! q) = oh_generation (finish_probe p verdict checkedAt hs) \<and>
         \<not> pb_done (oh_probes (finish_probe p verdict checkedAt hs) ! q))"
      using q d(3) [of q] one [of q] by (auto simp: probes nth_update)
  next
    fix q assume "oh_inFlightProbe (finish_probe p verdict checkedAt hs) = Some q"
    then show "q < length (oh_probes (finish_probe p verdict checkedAt hs))" using d(1) [of q] by (simp add: probes split: if_splits)
  next
    fix r e assume "oh_cached (finish_probe p verdict checkedAt hs) = Some (r, e)"
    then show "e = oh_CheckedAt r + overviewHealthCacheTTL" using d(4) [of r e] by (auto simp: finish_probe_def Let_def split: if_splits)
  qed
qed

lemma step_shape: "settings_step lib cl js h y y' \<Longrightarrow> health_shape (sy_health y) \<Longrightarrow> health_shape (sy_health y')"
  by (induction rule: settings_step.induct)
    (auto simp: probe_at_def intro: invalidated_shape load_shape progress_shape finish_shape)

lemma diverged:
  assumes "LiveServerSettingsVersion a \<noteq> revision_of db"
  shows "evaluateOverviewHealth lib cl h ml (Some a) db f = OverviewHealthUnknown"
    "loadEffectiveServerSettingsContext lib cl h db = Inr eff \<Longrightarrow> evaluate_version cl (Some a) eff = Inl OverviewHealthUnknown"
proof -
  show version: "evaluate_version cl (Some a) eff = Inl OverviewHealthUnknown" if "loadEffectiveServerSettingsContext lib cl h db = Inr eff" for eff
    using assms effective_revision [OF that] by (simp add: evaluate_version_def currentLiveServerSettingsVersion_def)
  show "evaluateOverviewHealth lib cl h ml (Some a) db f = OverviewHealthUnknown"
    using version by (auto simp: evaluateOverviewHealth_def evaluate_settings_def split: sum.splits)
qed

lemma fresh_cong:
  assumes "health_fresh lib cl js h y" "sy_health y' = sy_health y" "sy_load lib cl h y' = sy_load lib cl h y"
    and version: "\<And>eff. sy_load lib cl h y = Inr eff \<Longrightarrow> evaluate_version cl (Some (sy_applier y')) eff = evaluate_version cl (Some (sy_applier y)) eff"
    and verdicts: "\<And>v. accurate lib cl js h y v \<Longrightarrow> accurate lib cl js h y' v"
  shows "health_fresh lib cl js h y'"
proof -
  have "progress_ok lib cl js h y q \<Longrightarrow> progress_ok lib cl js h y' q" for q
    using assms(3) version verdicts by (cases q) auto
  then show ?thesis using assms(1,2) verdicts unfolding health_fresh_def by auto
qed

lemma fresh_empty:
  assumes "oh_cached (sy_health y) = None"
    and "\<And>p. p < length (oh_probes (sy_health y)) \<Longrightarrow> pb_generation (oh_probes (sy_health y) ! p) \<noteq> oh_generation (sy_health y)"
  shows "health_fresh lib cl js h y"
  using assms by (simp add: health_fresh_def)

lemma health_only [simp]:
  "accurate lib cl js h (y\<lparr>sy_health := hs\<rparr>) v = accurate lib cl js h y v"
  "progress_ok lib cl js h (y\<lparr>sy_health := hs\<rparr>) q = progress_ok lib cl js h y q"
  by (simp add: accurate_def) (cases q, simp_all add: accurate_def sy_load_def)

lemma fresh_progress:
  assumes "health_fresh lib cl js h y" "progress_ok lib cl js h y q"
  shows "health_fresh lib cl js h (y\<lparr>sy_health := set_progress p q (sy_health y)\<rparr>)"
proof -
  show ?thesis using assms unfolding health_fresh_def by (auto simp: set_progress_def nth_update)
qed

lemma accurate_cong:
  assumes "sy_load lib cl h y' = sy_load lib cl h y" "ra_upstreamApplier (sy_applier y') = ra_upstreamApplier (sy_applier y)"
    "LiveServerSettingsVersion (sy_applier y') = LiveServerSettingsVersion (sy_applier y)"
  shows "accurate lib cl js h y' v = accurate lib cl js h y v"
proof -
  have version: "evaluate_version cl (Some (sy_applier y')) = evaluate_version cl (Some (sy_applier y))"
    by (simp add: fun_eq_iff evaluate_version_def currentLiveServerSettingsVersion_def assms(3))
  show ?thesis unfolding accurate_def evaluateOverviewHealth_def assms(2) assms(1) [unfolded sy_load_def] version by (rule refl)
qed

lemma switch_fresh:
  assumes fresh: "health_fresh lib cl js h y" and behind: "LiveServerSettingsVersion (sy_applier y) < revision_of (sy_db y)"
    and sw: "apply_upstream cl n (sy_applier y) = (e, a)"
  shows "health_fresh lib cl js h (y\<lparr>sy_applier := a, sy_update := ph\<rparr>)"
proof (rule fresh_cong [OF fresh])
  have same: "LiveServerSettingsVersion a = LiveServerSettingsVersion (sy_applier y)"
    using apply_upstream_frame [OF sw] live_version_frame by blast
  show "evaluate_version cl (Some (sy_applier (y\<lparr>sy_applier := a, sy_update := ph\<rparr>))) eff = evaluate_version cl (Some (sy_applier y)) eff" for eff
    by (simp add: evaluate_version_def currentLiveServerSettingsVersion_def same)
  show "accurate lib cl js h y v \<Longrightarrow> accurate lib cl js h (y\<lparr>sy_applier := a, sy_update := ph\<rparr>) v" for v
    using behind same by (simp add: accurate_def diverged(1))
qed (simp_all add: sy_load_def)

lemma load_fresh:
  assumes "health_fresh lib cl js h y"
  shows "health_fresh lib cl js h (y\<lparr>sy_health := snd (loadOverviewHealth now (sy_health y))\<rparr>)"
proof -
  have join: "oh_cached (snd (join_probe hs)) = oh_cached hs \<and> oh_generation (snd (join_probe hs)) = oh_generation hs \<and>
      (\<forall>p < length (oh_probes (snd (join_probe hs))). p < length (oh_probes hs) \<and> oh_probes (snd (join_probe hs)) ! p = oh_probes hs ! p \<or>
         pb_progress (oh_probes (snd (join_probe hs)) ! p) = Starting)" for hs
    by (auto simp: join_probe_def nth_append less_Suc_eq split: option.splits)
  have "snd (loadOverviewHealth now hs) = hs \<or> snd (loadOverviewHealth now hs) = snd (join_probe hs)" for hs
    by (auto simp: loadOverviewHealth_def split: option.splits)
  then consider "snd (loadOverviewHealth now (sy_health y)) = sy_health y" | "snd (loadOverviewHealth now (sy_health y)) = snd (join_probe (sy_health y))"
    by blast
  then show ?thesis
  proof cases
    case 2
    then show ?thesis using join [of "sy_health y"] assms unfolding health_fresh_def health_only by fastforce
  qed (use assms in simp)
qed

lemma finish_fresh:
  assumes fresh: "health_fresh lib cl js h y" and p: "probe_at y p (Decided verdict)"
  shows "health_fresh lib cl js h (y\<lparr>sy_health := finish_probe p verdict checkedAt (sy_health y)\<rparr>)"
proof -
  have "accurate lib cl js h y verdict" if "pb_generation (oh_probes (sy_health y) ! p) = oh_generation (sy_health y)"
    using fresh p that unfolding health_fresh_def probe_at_def by (metis progress_ok.simps(4))
  then show ?thesis using fresh unfolding health_fresh_def
    by (auto simp: finish_probe_def Let_def nth_update split: if_splits)
qed

lemma current_progress:
  "health_fresh lib cl js h y \<Longrightarrow> probe_at y p q \<Longrightarrow> pb_generation (oh_probes (sy_health y) ! p) = oh_generation (sy_health y) \<Longrightarrow>
     progress_ok lib cl js h y q"
  by (auto simp: health_fresh_def probe_at_def)

text \<open>A probe of an older generation may say anything.\<close>

lemma stale_fresh:
  assumes "health_fresh lib cl js h y" "pb_generation (oh_probes (sy_health y) ! p) \<noteq> oh_generation (sy_health y)"
  shows "health_fresh lib cl js h (y\<lparr>sy_health := set_progress p q (sy_health y)\<rparr>)"
proof -
  show ?thesis using assms unfolding health_fresh_def by (auto simp: set_progress_def nth_update)
qed

lemma read_fresh:
  assumes "health_fresh lib cl js h y" "probe_at y p q" "progress_ok lib cl js h y q \<Longrightarrow> progress_ok lib cl js h y q'"
  shows "health_fresh lib cl js h (y\<lparr>sy_health := set_progress p q' (sy_health y)\<rparr>)"
  using fresh_progress stale_fresh current_progress assms by metis

lemma step_fresh:
  assumes c: "cipher_ok (secretCipher (pl_crypto lib))"
  shows "settings_step lib cl js h y y' \<Longrightarrow> versions_ok (pl_crypto lib) cl y \<Longrightarrow> health_shape (sy_health y) \<Longrightarrow>
    (settled (sy_update y) \<Longrightarrow> health_fresh lib cl js h y) \<Longrightarrow> settled (sy_update y') \<Longrightarrow> health_fresh lib cl js h y'"
proof (induction rule: settings_step.induct)
  case (refuse y n1 n2 now req e db')
  then show ?case using persist_failed [OF c refuse(2-4)] by simp
next
  case (invalidate y n r)
  show ?case using invalidated_shape(2) [OF invalidate(4) invalidate(2)]
    by (intro fresh_empty) (simp_all add: invalidateOverviewHealthCache_def)
next
  case (invalidate_again y)
  show ?case using invalidated_shape(2) [OF invalidate_again(4) invalidate_again(2)]
    by (intro fresh_empty) (simp_all add: invalidateOverviewHealthCache_def)
next
  case (switch y n r a)
  then show ?case by (intro switch_fresh) (auto simp: versions_ok_def)
next
  case (switch_fails y n r e a)
  then show ?case by (intro switch_fresh) (auto simp: versions_ok_def)
next
  case (publish_fails y n r e a)
  then have fresh: "health_fresh lib cl js h y" and a: "a = sy_applier y" by (auto dest: apply_rest_failed)
  show ?case unfolding a by (rule fresh_cong [OF fresh]) (simp_all add: sy_load_def accurate_def)
next
  case (other db' y)
  have "sy_load lib cl h (y\<lparr>sy_db := db'\<rparr>) = sy_load lib cl h y" using effective_frame [OF other(1)] by (simp add: sy_load_def)
  moreover have "accurate lib cl js h (y\<lparr>sy_db := db'\<rparr>) v = accurate lib cl js h y v" for v by (rule accurate_cong) (simp_all add: calculation)
  moreover have "health_fresh lib cl js h y" using other by simp
  ultimately show ?case by (elim fresh_cong) simp_all
next
  case (read_settings y p)
  have "progress_ok lib cl js h y (decided SettingsRead (evaluate_settings (ra_upstreamApplier (sy_applier y)) (sy_load lib cl h y)))"
    by (auto simp: evaluate_settings_def accurate_def evaluateOverviewHealth_def sy_load_def split: sum.splits)
  then show ?case using read_settings by (auto intro: read_fresh)
next
  case (read_version y p eff)
  have "progress_ok lib cl js h y (decided VersionRead (evaluate_version cl (Some (sy_applier y)) eff))" if "sy_load lib cl h y = Inr eff"
    using that read_version(2) by (cases "evaluate_version cl (Some (sy_applier y)) eff")
      (auto simp: evaluate_settings_def accurate_def evaluateOverviewHealth_def sy_load_def versions_ok_def components_ready_def)
  then show ?case using read_version by (auto intro: read_fresh)
next
  case (read_models y p s net)
  have "progress_ok lib cl js h y (Decided (evaluate_models lib cl s (ListModels cl js net (the (ra_upstreamApplier (sy_applier y))))))"
    if "progress_ok lib cl js h y (VersionRead s)"
    using that read_models(2) by (auto simp: evaluate_settings_def accurate_def evaluateOverviewHealth_def sy_load_def versions_ok_def components_ready_def)
  then show ?case using read_models by (auto intro: read_fresh)
next
  case (finish y p verdict checkedAt)
  then show ?case by (intro finish_fresh) auto
next
  case (request y now)
  then show ?case by (intro load_fresh) auto
qed simp_all

lemma reachable_health:
  assumes c: "cipher_ok (secretCipher (pl_crypto lib))"
  shows "settings_reachable lib cl js h y \<Longrightarrow>
    health_shape (sy_health y) \<and> (settled (sy_update y) \<longrightarrow> health_fresh lib cl js h y)"
proof (induction rule: settings_reachable.induct)
  case (start y)
  then have new: "sy_health y = new_health" by (auto simp: settings_start_def)
  then show ?case by (auto simp: health_shape_def new_health_def intro!: fresh_empty)
next
  case (step y y')
  then show ?case using step_shape [OF step(2)] step_fresh [OF c step(2) reachable_versions [OF c step(1)]] by blast
qed

text \<open>
  Health is never stale (C33). While no update is under way, a cached health answer is one the evaluation
  would give of the settings now stored, the revision now live and the upstream client now in use, and is
  less than thirty seconds old; any other request waits for the one open probe of the current generation.
  So no result computed before an update shows after it, and requests share one probe.
\<close>

theorem health_never_stale:
  assumes c: "cipher_ok (secretCipher (pl_crypto lib))" and y: "settings_reachable lib cl js h y"
    and idle: "sy_update y = NoUpdate" and load: "loadOverviewHealth now (sy_health y) = (ans, hs)"
  shows "case ans of
      Cached r \<Rightarrow> (\<exists>net. oh_Status r = evaluateOverviewHealth lib cl h (ra_upstreamApplier (sy_applier y)) (Some (sy_applier y))
          (sy_db y) (ListModels cl js net)) \<and> now < oh_CheckedAt r + 30 * Second
    | Joined p \<Rightarrow> p < length (oh_probes hs) \<and> \<not> pb_done (oh_probes hs ! p) \<and> pb_generation (oh_probes hs ! p) = oh_generation hs \<and>
        (\<forall>q < length (oh_probes hs). q \<noteq> p \<longrightarrow> pb_done (oh_probes hs ! q) \<or> pb_generation (oh_probes hs ! q) \<noteq> oh_generation hs)"
proof -
  note ok = reachable_health [OF c y]
  have shape: "health_shape hs" using load_shape [of "sy_health y" now] ok load by simp
  show ?thesis
  proof (cases ans)
    case (Cached r)
    then obtain e where r: "oh_cached (sy_health y) = Some (r, e)" "now < e"
      using load by (auto simp: loadOverviewHealth_def join_probe_def split: option.splits if_splits)
    have fresh: "health_fresh lib cl js h y" using ok idle by simp
    have "accurate lib cl js h y (oh_Status r)" using fresh r(1) unfolding health_fresh_def by blast
    moreover have "e = oh_CheckedAt r + overviewHealthCacheTTL" using ok r(1) health_shapeD(4) by blast
    ultimately show ?thesis using r(2) Cached by (simp add: accurate_def overviewHealthCacheTTL_def)
  next
    case (Joined p)
    then have "oh_inFlightProbe hs = Some p"
      using load by (auto simp: loadOverviewHealth_def join_probe_def split: option.splits if_splits)
    then show ?thesis using Joined health_shapeD(1,3) [OF shape] by auto
  qed
qed

section \<open>A reachable system\<close>

definition demo_system :: settings_system where
  "demo_system = \<lparr>sy_db = snd demo_initialized, sy_applier = demo_applier, sy_health = new_health, sy_update = NoUpdate\<rparr>"

lemma demo_system_reachable: "settings_reachable demo_panel_lib demo_config_lib demo_json_lib demo_handler demo_system"
proof (rule settings_reachable.start)
  obtain c l where c: "NewClientWithServerSettings demo_config_lib (Runtime.truncate demo_live) = Inr c"
    "NewSearchConcurrencyLimiter (MCPGlobalSearchConcurrency demo_live) (MCPUserSearchConcurrency demo_live) = Inr l"
    using demo_live_parts(2,3) by blast
  have cr: "pl_crypto demo_panel_lib = demo_crypto" by (simp add: demo_panel_lib_def)
  have "InitializeServerSettings demo_crypto demo_config_lib (demo_config ''60'') (Some ''n'') (Some ''n'') demo_time demo_stored_db =
      (Inr (Some demo_live), sy_db demo_system)"
    using demo_live_parts(1) by (simp add: demo_system_def flip: demo_initialized_def) (metis prod.collapse)
  then show "settings_start demo_panel_lib demo_config_lib demo_system"
    unfolding settings_start_def cr using c demo_crypto_ok(2)
    by (intro exI conjI) (assumption | simp add: demo_system_def demo_applier_def)+
qed


theorem health_never_stale_witness:
  "fst (loadOverviewHealth demo_time (sy_health demo_system)) = Joined 0 \<and>
   \<not> pb_done (oh_probes (snd (loadOverviewHealth demo_time (sy_health demo_system))) ! 0)"
proof -
  have load: "loadOverviewHealth demo_time (sy_health demo_system) =
      (Joined 0, snd (loadOverviewHealth demo_time (sy_health demo_system)))" by code_simp
  have "cipher_ok (secretCipher (pl_crypto demo_panel_lib))" using demo_crypto_ok(1) by (simp add: demo_panel_lib_def)
  moreover have "fst (loadOverviewHealth demo_time (sy_health demo_system)) = Joined 0" using load by (metis fst_conv)
  ultimately show ?thesis using health_never_stale [OF _ demo_system_reachable _ load] by (simp add: demo_system_def)
qed

end
