(* ===== verification/Usage_Stats.thy ===== *)
theory Usage_Stats
  imports Store_Usage
begin

text \<open>
  Reading usage back: the record pages and the detail of \<open>internal/store/sqlite_usage_query.go\<close>, the debug
  columns \<open>sqlite_debug.go\<close> adds to them, and the statistics of \<open>sqlite_usage_stats.go\<close>, which add up raw rows,
  hourly and daily rollups and spread them over eight traffic buckets. A query text with its arguments is
  the function on the tables it denotes; sums do not overflow 64 bits. Shown: which calls a bucket counts,
  that the totals are those of the tables and do not notice maintenance, and that the pages list every
  record of the scope once.
\<close>

section \<open>Scopes and records\<close>

datatype usageStatsScope = usageStatsByKey string | usageStatsByUser string | usageStatsGlobal

fun usageStatsWhere :: "usageStatsScope \<Rightarrow> DB \<Rightarrow> string \<Rightarrow> bool" where
  "usageStatsWhere (usageStatsByKey keyID) db k = (k = keyID)"
| "usageStatsWhere (usageStatsByUser userID) db k = list_ex (\<lambda>a. k_ID a = k \<and> k_UserID a = userID) (apikeys db)"
| "usageStatsWhere usageStatsGlobal db k = True"

text \<open>\<open>None\<close> is the zero time, which no stored time is before.\<close>

fun not_before :: "time option \<Rightarrow> time \<Rightarrow> bool" where
  "not_before None t = True"
| "not_before (Some s) t = (db_time s \<le> t)"

text \<open>A record as it is read: the columns of the log, and those of the debug database.\<close>

record listed_record = usage_row +
  lr_DebugJSON :: string
  lr_HasDebugRequestBody :: bool
  lr_HasDebugResponseBody :: bool
  lr_DebugRequestBytes :: int
  lr_DebugResponseBytes :: int
  lr_DebugRequestObservedBytes :: int
  lr_DebugResponseObservedBytes :: int
  lr_DebugRequestTruncated :: bool
  lr_DebugResponseTruncated :: bool
  lr_DebugRequestBody :: string
  lr_DebugResponseBody :: string

definition plain_record :: "usage_row \<Rightarrow> listed_record" where
  "plain_record r = usage_row.extend r \<lparr>lr_DebugJSON = [], lr_HasDebugRequestBody = False, lr_HasDebugResponseBody = False,
     lr_DebugRequestBytes = 0, lr_DebugResponseBytes = 0, lr_DebugRequestObservedBytes = 0, lr_DebugResponseObservedBytes = 0,
     lr_DebugRequestTruncated = False, lr_DebugResponseTruncated = False, lr_DebugRequestBody = [], lr_DebugResponseBody = []\<rparr>"

definition with_debug :: "debug_row \<Rightarrow> listed_record \<Rightarrow> listed_record" where
  "with_debug d r = r\<lparr>lr_DebugJSON := dr_DebugJSON d,
     lr_HasDebugRequestBody := (0 < length (dr_RequestBody d)), lr_HasDebugResponseBody := (0 < length (dr_ResponseBody d)),
     lr_DebugRequestBytes := int (length (dr_RequestBody d)), lr_DebugResponseBytes := int (length (dr_ResponseBody d)),
     lr_DebugRequestObservedBytes := dr_RequestObservedBytes d, lr_DebugResponseObservedBytes := dr_ResponseObservedBytes d,
     lr_DebugRequestTruncated := dr_RequestTruncated d, lr_DebugResponseTruncated := dr_ResponseTruncated d\<rparr>"

text \<open>The summaries of a page are found by the id alone, the detail by id, key and time.\<close>

definition loadUsageDebugBodySummaries :: "DB \<Rightarrow> listed_record list \<Rightarrow> listed_record list" where
  "loadUsageDebugBodySummaries db records =
     map (\<lambda>r. case find (\<lambda>d. dr_UsageID d = ur_ID r) (usage_debug db) of None \<Rightarrow> r | Some d \<Rightarrow> with_debug d r) records"

definition loadUsageDebugRecord :: "DB \<Rightarrow> listed_record \<Rightarrow> listed_record" where
  "loadUsageDebugRecord db r =
     (case find (\<lambda>d. dr_UsageID d = ur_ID r \<and> dr_KeyID d = ur_KeyID r \<and> dr_UsageTimestamp d = db_time (ur_Timestamp r)) (usage_debug db) of
        None \<Rightarrow> r
      | Some d \<Rightarrow> (with_debug d r)\<lparr>lr_DebugRequestBody := dr_RequestBody d, lr_DebugResponseBody := dr_ResponseBody d\<rparr>)"

section \<open>Pages and details\<close>

record UsageRecordPage =
  urp_Records :: "listed_record list"
  urp_HasMore :: bool
  urp_NextCursor :: "(time \<times> int) option"

definition usage_record_key :: "usage_row \<Rightarrow> time \<times> int" where
  "usage_record_key r = (ur_Timestamp r, ur_ID r)"

definition usage_rows_in :: "usageStatsScope \<Rightarrow> time option \<Rightarrow> DB \<Rightarrow> usage_row list" where
  "usage_rows_in scope since db = filter (\<lambda>r. usageStatsWhere scope db (ur_KeyID r) \<and> not_before since (ur_Timestamp r)) (usage_log db)"

definition queryUsageRecordPage :: "usageStatsScope \<Rightarrow> time option \<Rightarrow> (time \<times> int) option \<Rightarrow> int \<Rightarrow> DB \<Rightarrow> UsageRecordPage" where
  "queryUsageRecordPage scope since cursor limit db =
     (case keyset_page timeIDDescending usage_record_key cursor limit (usage_rows_in scope since db) of
        (rs, hasMore, nextCursor) \<Rightarrow> \<lparr>urp_Records = map plain_record rs, urp_HasMore = hasMore, urp_NextCursor = nextCursor\<rparr>)"

record UsageRecordListScope =
  rls_KeyID :: string
  rls_UserID :: string
  rls_IncludeAllUsers :: bool

definition list_scope :: "UsageRecordListScope \<Rightarrow> usageStatsScope option" where
  "list_scope scope =
     (if TrimSpace (rls_KeyID scope) \<noteq> [] then Some (usageStatsByKey (TrimSpace (rls_KeyID scope)))
      else if rls_IncludeAllUsers scope then Some usageStatsGlobal
      else if TrimSpace (rls_UserID scope) \<noteq> [] then Some (usageStatsByUser (TrimSpace (rls_UserID scope)))
      else None)"

definition ListUsageRecordsPage ::
  "UsageRecordListScope \<Rightarrow> time option \<Rightarrow> (time \<times> int) option \<Rightarrow> int \<Rightarrow> DB \<Rightarrow> store_error + UsageRecordPage" where
  "ListUsageRecordsPage scope since cursor limit db =
     (case list_scope scope of
        None \<Rightarrow> Inl (StoreErrorf ''usage record list scope is required'')
      | Some sc \<Rightarrow>
          let page = queryUsageRecordPage sc since cursor limit db
          in Inr (page\<lparr>urp_Records := loadUsageDebugBodySummaries db (urp_Records page)\<rparr>))"

record UsageRecordScope =
  rsc_UserID :: string
  rsc_IncludeAllUsers :: bool

definition GetUsageRecordDetail :: "int \<Rightarrow> UsageRecordScope \<Rightarrow> DB \<Rightarrow> store_error + listed_record" where
  "GetUsageRecordDetail usageID scope db =
     (if usageID \<le> 0 then Inl ErrUsageRecordNotFound
      else case find (\<lambda>r. ur_ID r = usageID \<and> list_ex (\<lambda>k. k_ID k = ur_KeyID r \<and>
             (rsc_IncludeAllUsers scope \<or> k_UserID k = rsc_UserID scope)) (apikeys db)) (usage_log db) of
          None \<Rightarrow> Inl ErrUsageRecordNotFound
        | Some r \<Rightarrow> Inr (loadUsageDebugRecord db (plain_record r)))"

section \<open>Aggregates\<close>

record UsageBucket =
  ub_Start :: time
  ub_End :: time
  ub_Calls :: int

record UsageStats =
  st_TotalCalls :: int
  st_SuccessCalls :: int
  st_DurationMsTotal :: int
  st_CurrentRPM :: int
  st_ByTool :: "(string, int) gomap"
  st_TrafficBuckets :: "UsageBucket list"
  st_RecordsPage :: UsageRecordPage

definition AverageDurationMs :: "UsageStats \<Rightarrow> int" where
  "AverageDurationMs s =
     (if st_TotalCalls s \<le> 0 \<or> st_DurationMsTotal s \<le> 0 then 0
      else (st_DurationMsTotal s + st_TotalCalls s div 2) div st_TotalCalls s)"

definition addUsageAggregate :: "string \<times> int \<times> int \<times> int \<Rightarrow> UsageStats \<Rightarrow> UsageStats" where
  "addUsageAggregate row s =
     (case row of (toolName, callCount, successCount, durationMsTotal) \<Rightarrow>
        s\<lparr>st_ByTool := AList.update toolName ((case lookup (st_ByTool s) toolName of None \<Rightarrow> 0 | Some n \<Rightarrow> n) + callCount) (st_ByTool s),
          st_TotalCalls := st_TotalCalls s + callCount, st_SuccessCalls := st_SuccessCalls s + successCount,
          st_DurationMsTotal := st_DurationMsTotal s + durationMsTotal\<rparr>)"

text \<open>\<open>GROUP BY tool_name\<close>: one row for each tool, with its sums.\<close>

definition group_by_tool :: "('r \<Rightarrow> string) \<Rightarrow> ('r \<Rightarrow> int) \<Rightarrow> ('r \<Rightarrow> int) \<Rightarrow> ('r \<Rightarrow> int) \<Rightarrow> 'r list \<Rightarrow> (string \<times> int \<times> int \<times> int) list" where
  "group_by_tool tool calls successes millis rs =
     map (\<lambda>t. let xs = filter (\<lambda>r. tool r = t) rs
        in (t, \<Sum>r\<leftarrow>xs. calls r, \<Sum>r\<leftarrow>xs. successes r, \<Sum>r\<leftarrow>xs. millis r)) (remdups (map tool rs))"

definition scanUsageAggregateRows :: "(string \<times> int \<times> int \<times> int) list \<Rightarrow> UsageStats \<Rightarrow> UsageStats" where
  "scanUsageAggregateRows rs s = fold addUsageAggregate rs s"

definition addRawUsageAggregates :: "usageStatsScope \<Rightarrow> time option \<Rightarrow> DB \<Rightarrow> UsageStats \<Rightarrow> UsageStats" where
  "addRawUsageAggregates scope since db = scanUsageAggregateRows
     (group_by_tool ur_ToolName (\<lambda>_. 1) (\<lambda>r. if ur_Success r then 1 else 0) ur_DurationMs (usage_rows_in scope since db))"

definition rollups_in :: "usageStatsScope \<Rightarrow> time option \<Rightarrow> DB \<Rightarrow> rollup_row list \<Rightarrow> rollup_row list" where
  "rollups_in scope since db rs = filter (\<lambda>r. usageStatsWhere scope db (ro_KeyID r) \<and> not_before since (ro_BucketStart r)) rs"

definition addRollupUsageAggregates :: "usageStatsScope \<Rightarrow> time option \<Rightarrow> DB \<Rightarrow> rollup_row list \<Rightarrow> UsageStats \<Rightarrow> UsageStats" where
  "addRollupUsageAggregates scope since db source = scanUsageAggregateRows
     (group_by_tool ro_ToolName ro_TotalCalls ro_SuccessCalls ro_DurationMsTotal (rollups_in scope since db source))"

definition truncateToUTCDay :: "time \<Rightarrow> time" where
  "truncateToUTCDay t = truncate_to Day t"

definition truncateUsageRollupBoundary :: "duration \<Rightarrow> time \<Rightarrow> time" where
  "truncateUsageRollupBoundary bucketDuration t =
     (if bucketDuration = 24 * Hour then truncateToUTCDay t else truncate_to bucketDuration t)"

text \<open>The rollup tables with the widths of their buckets.\<close>

definition usageRollupSources :: "((DB \<Rightarrow> rollup_row list) \<times> duration) list" where
  "usageRollupSources = [(hourly_rollups, Hour), (daily_rollups, 24 * Hour)]"

definition queryCurrentRPM :: "usageStatsScope \<Rightarrow> time \<Rightarrow> DB \<Rightarrow> int" where
  "queryCurrentRPM scope queryEnd db = count_if (\<lambda>r. usageStatsWhere scope db (ur_KeyID r) \<and>
     db_time (queryEnd - Minute) \<le> ur_Timestamp r \<and> ur_Timestamp r \<le> db_time queryEnd) (usage_log db)"

section \<open>Traffic\<close>

definition usageTrafficBucketCount :: int where "usageTrafficBucketCount = 8"
definition usageRecordPageSize :: int where "usageRecordPageSize = 50"

definition earliest :: "time list \<Rightarrow> time option" where
  "earliest ts = (if ts = [] then None else Some (foldr min ts (hd ts)))"

definition queryEarliestUsageTime :: "usageStatsScope \<Rightarrow> DB \<Rightarrow> (string \<times> time) list \<Rightarrow> time option" where
  "queryEarliestUsageTime scope db rs = earliest (map snd (filter (\<lambda>(k, t). usageStatsWhere scope db k) rs))"

text \<open>Of two earliest times the earlier, the first one on a tie.\<close>

fun earlier_of :: "time option \<Rightarrow> time option \<Rightarrow> time option" where
  "earlier_of None b = b"
| "earlier_of (Some a) None = Some a"
| "earlier_of (Some a) (Some b) = (if b < a then Some b else Some a)"

definition resolveUsageTrafficRangeStart :: "usageStatsScope \<Rightarrow> time option \<Rightarrow> time \<Rightarrow> DB \<Rightarrow> time" where
  "resolveUsageTrafficRangeStart scope since queryEnd db =
     (case since of
        Some s \<Rightarrow> if s < queryEnd then s else queryEnd - 24 * Hour
      | None \<Rightarrow>
          (case fold (\<lambda>(table, _) found. earlier_of found (queryEarliestUsageTime scope db (map (\<lambda>r. (ro_KeyID r, ro_BucketStart r)) (table db))))
                  usageRollupSources (queryEarliestUsageTime scope db (map (\<lambda>r. (ur_KeyID r, ur_Timestamp r)) (usage_log db))) of
             None \<Rightarrow> queryEnd - 24 * Hour
           | Some t \<Rightarrow> if truncate_to Second t < queryEnd then truncate_to Second t else queryEnd - 24 * Hour))"

definition divideCeiling :: "int \<Rightarrow> int \<Rightarrow> int" where
  "divideCeiling numerator denominator = (numerator + denominator - 1) div denominator"

definition bucket_bounds :: "time \<Rightarrow> int \<Rightarrow> int \<Rightarrow> time \<times> time" where
  "bucket_bounds rangeStart rangeDurationSeconds i =
     (rangeStart + divideCeiling (rangeDurationSeconds * i) usageTrafficBucketCount * Second,
      rangeStart + divideCeiling (rangeDurationSeconds * (i + 1)) usageTrafficBucketCount * Second)"

definition createEmptyUsageTrafficBuckets :: "time \<Rightarrow> time \<Rightarrow> int \<Rightarrow> UsageBucket list" where
  "createEmptyUsageTrafficBuckets rangeStart rangeEnd rangeDurationSeconds =
     (let buckets = map (\<lambda>i. case bucket_bounds rangeStart rangeDurationSeconds (int i) of
            (s, e) \<Rightarrow> \<lparr>ub_Start = s, ub_End = e, ub_Calls = 0\<rparr>) [0..<nat usageTrafficBucketCount]
      in buckets[length buckets - 1 := (buckets ! (length buckets - 1))\<lparr>ub_End := rangeEnd\<rparr>])"

text \<open>Integer division of SQLite truncates; the times of the tables are whole seconds.\<close>

definition sql_div :: "int \<Rightarrow> int \<Rightarrow> int" where
  "sql_div a b = (if a < 0 then - ((- a) div b) else a div b)"

definition bucket_index :: "time \<Rightarrow> int \<Rightarrow> time \<Rightarrow> int" where
  "bucket_index start rangeDurationSeconds t =
     min 7 (max 0 (sql_div ((t div Second - start div Second) * 8) rangeDurationSeconds))"

text \<open>The rows of one source between the bounds, each with its number of calls, counted in the bucket of its time.\<close>

definition addUsageTrafficSource ::
  "time \<Rightarrow> time \<Rightarrow> int \<Rightarrow> (time \<times> int) list \<Rightarrow> UsageBucket list \<Rightarrow> UsageBucket list" where
  "addUsageTrafficSource sourceRangeStart rangeEnd rangeDurationSeconds rs buckets =
     map (\<lambda>(i, b). b\<lparr>ub_Calls := ub_Calls b + (\<Sum>(t, calls)\<leftarrow>filter (\<lambda>(t, calls).
          bucket_index (ub_Start (hd buckets)) rangeDurationSeconds t = int i) (filter (\<lambda>(t, calls).
          db_time sourceRangeStart \<le> t \<and> t \<le> db_time rangeEnd) rs). calls)\<rparr>) (enumerate 0 buckets)"

definition scoped_raw :: "usageStatsScope \<Rightarrow> DB \<Rightarrow> (time \<times> int) list" where
  "scoped_raw scope db = map (\<lambda>r. (ur_Timestamp r, 1)) (filter (\<lambda>r. usageStatsWhere scope db (ur_KeyID r)) (usage_log db))"

definition scoped_rollups :: "usageStatsScope \<Rightarrow> DB \<Rightarrow> rollup_row list \<Rightarrow> (time \<times> int) list" where
  "scoped_rollups scope db rs = map (\<lambda>r. (ro_BucketStart r, ro_TotalCalls r)) (filter (\<lambda>r. usageStatsWhere scope db (ro_KeyID r)) rs)"

definition queryUsageTrafficBuckets :: "usageStatsScope \<Rightarrow> time \<Rightarrow> time \<Rightarrow> DB \<Rightarrow> UsageBucket list" where
  "queryUsageTrafficBuckets scope start end' db =
     (let rangeEnd = truncate_to Second end';
          rangeStart = (if truncate_to Second start < rangeEnd then truncate_to Second start else rangeEnd - 24 * Hour);
          seconds = (rangeEnd - rangeStart) div Second;
          rangeDurationSeconds = (if seconds < 1 then 1 else seconds)
      in fold (\<lambda>(table, width). addUsageTrafficSource (truncateUsageRollupBoundary width rangeStart) rangeEnd rangeDurationSeconds
             (scoped_rollups scope db (table db))) usageRollupSources
           (addUsageTrafficSource rangeStart rangeEnd rangeDurationSeconds (scoped_raw scope db)
             (createEmptyUsageTrafficBuckets rangeStart rangeEnd rangeDurationSeconds)))"

section \<open>Statistics\<close>

definition no_stats :: UsageStats where
  "no_stats = \<lparr>st_TotalCalls = 0, st_SuccessCalls = 0, st_DurationMsTotal = 0, st_CurrentRPM = 0, st_ByTool = [], st_TrafficBuckets = [],
     st_RecordsPage = \<lparr>urp_Records = [], urp_HasMore = False, urp_NextCursor = None\<rparr>\<rparr>"

definition usage_aggregates :: "usageStatsScope \<Rightarrow> time option \<Rightarrow> DB \<Rightarrow> UsageStats" where
  "usage_aggregates scope since db =
     fold (\<lambda>(table, width). addRollupUsageAggregates scope (map_option (truncateUsageRollupBoundary width) since) db (table db))
       usageRollupSources (addRawUsageAggregates scope since db no_stats)"

definition queryUsageStats :: "usageStatsScope \<Rightarrow> time option \<Rightarrow> (time \<times> int) option \<Rightarrow> int \<Rightarrow> time \<Rightarrow> DB \<Rightarrow> UsageStats" where
  "queryUsageStats scope since recordCursor recordLimit now db =
     (let queryEnd = truncate_to Second now; since = map_option (truncate_to Second) since;
          page = queryUsageRecordPage scope since recordCursor recordLimit db
      in (usage_aggregates scope since db)\<lparr>
           st_RecordsPage := page\<lparr>urp_Records := loadUsageDebugBodySummaries db (urp_Records page)\<rparr>,
           st_CurrentRPM := queryCurrentRPM scope queryEnd db,
           st_TrafficBuckets := queryUsageTrafficBuckets scope (resolveUsageTrafficRangeStart scope since queryEnd db) queryEnd db\<rparr>)"

definition GetUsageStats :: "string \<Rightarrow> time option \<Rightarrow> time \<Rightarrow> DB \<Rightarrow> UsageStats" where
  "GetUsageStats keyID since = queryUsageStats (usageStatsByKey keyID) since None usageRecordPageSize"

definition GetUserUsageStatsPage :: "string \<Rightarrow> time option \<Rightarrow> (time \<times> int) option \<Rightarrow> int \<Rightarrow> time \<Rightarrow> DB \<Rightarrow> UsageStats" where
  "GetUserUsageStatsPage userID = queryUsageStats (usageStatsByUser userID)"

definition GetGlobalUsageStatsPage :: "time option \<Rightarrow> (time \<times> int) option \<Rightarrow> int \<Rightarrow> time \<Rightarrow> DB \<Rightarrow> UsageStats" where
  "GetGlobalUsageStatsPage = queryUsageStats usageStatsGlobal"

section \<open>Buckets\<close>

lemma le_div_pos:
  assumes "0 < d" shows "(i \<le> a div d) = (i * d \<le> (a :: int))"
proof
  assume "i \<le> a div d"
  then have "i * d \<le> a div d * d" using assms by (intro mult_right_mono) auto
  also have "\<dots> \<le> a" using assms by (metis div_mult_mod_eq le_add_same_cancel1 pos_mod_sign)
  finally show "i * d \<le> a" .
next
  assume "i * d \<le> a"
  then have "i * d div d \<le> a div d" using assms by (rule zdiv_mono1)
  then show "i \<le> a div d" using assms by simp
qed

lemma ceiling_le: "(divideCeiling n 8 \<le> m) = (n \<le> 8 * m)"
  unfolding divideCeiling_def by presburger

lemma aligned_le_div: "aligned Second x \<Longrightarrow> (x \<le> t) = (x div Second \<le> t div Second)"
  using le_div_pos [of Second "x div Second" t] by (auto simp: aligned_def Second_def)

text \<open>The bucket of a row is the one whose bounds its time falls between; the first and the last are open outwards.\<close>

lemma bucket_index_exact:
  assumes start: "aligned Second start" and d: "1 \<le> d" and i: "0 \<le> i" "i \<le> 7"
  shows "bucket_index start d t = i \<longleftrightarrow>
    (i = 0 \<or> fst (bucket_bounds start d i) \<le> t) \<and> (i = 7 \<or> t < snd (bucket_bounds start d i))"
proof -
  define s where "s = t div Second - start div Second"
  have bound: "(start + k * Second \<le> t) = (k \<le> s)" for k
  proof -
    have "aligned Second (start + k * Second)" using start by (simp add: aligned_def)
    moreover have "(start + k * Second) div Second = start div Second + k" by (simp add: Second_def)
    ultimately show ?thesis using aligned_le_div [of "start + k * Second" t] by (auto simp: s_def)
  qed
  have lower: "(fst (bucket_bounds start d j) \<le> t) = (d * j \<le> 8 * s)" for j
    using bound [of "divideCeiling (d * j) 8"] ceiling_le [of "d * j" s] by (simp add: bucket_bounds_def usageTrafficBucketCount_def)
  have upper: "snd (bucket_bounds start d j) = fst (bucket_bounds start d (j + 1))" for j by (simp add: bucket_bounds_def)
  have index: "j \<le> bucket_index start d t \<longleftrightarrow> d * j \<le> 8 * s" if "1 \<le> j" "j \<le> 7" for j
  proof (cases "s < 0")
    case True
    then have "sql_div (s * 8) d \<le> 0" using d by (simp add: sql_div_def) (simp add: pos_imp_zdiv_nonneg_iff)
    moreover have "0 < d * j" using d that by simp
    ultimately show ?thesis using True that by (simp add: bucket_index_def flip: s_def)
  next
    case False
    then have "j \<le> bucket_index start d t \<longleftrightarrow> j \<le> (s * 8) div d" using that by (simp add: bucket_index_def sql_div_def le_max_iff_disj flip: s_def)
    then show ?thesis using le_div_pos [of d j "s * 8"] d by (simp add: mult.commute)
  qed
  have range: "0 \<le> bucket_index start d t" "bucket_index start d t \<le> 7" by (simp_all add: bucket_index_def)
  have "bucket_index start d t = i \<longleftrightarrow> (i = 0 \<or> i \<le> bucket_index start d t) \<and> (i = 7 \<or> \<not> i + 1 \<le> bucket_index start d t)"
    using range i by auto
  also have "\<dots> \<longleftrightarrow> (i = 0 \<or> d * i \<le> 8 * s) \<and> (i = 7 \<or> \<not> d * (i + 1) \<le> 8 * s)"
  proof -
    have "i = 0 \<or> 1 \<le> i" "i = 7 \<or> i + 1 \<le> 7" using i by linarith+
    then show ?thesis using index [of i] index [of "i + 1"] i by auto
  qed
  also have "(\<not> d * (i + 1) \<le> 8 * s) = (t < snd (bucket_bounds start d i))" using lower [of "i + 1"] upper by (metis not_le)
  finally show ?thesis using lower [of i] by simp
qed

lemma bounds_ordered: "1 \<le> d \<Longrightarrow> fst (bucket_bounds start d i) \<le> snd (bucket_bounds start d i)"
proof -
  assume "1 \<le> d"
  then have "divideCeiling (d * i) 8 \<le> divideCeiling (d * (i + 1)) 8"
    unfolding divideCeiling_def by (intro zdiv_mono1) (simp_all add: distrib_left)
  then show ?thesis by (simp add: bucket_bounds_def usageTrafficBucketCount_def Second_def)
qed

definition in_traffic_bucket :: "UsageBucket list \<Rightarrow> nat \<Rightarrow> time \<Rightarrow> bool" where
  "in_traffic_bucket bs i t \<longleftrightarrow> (i = 0 \<or> ub_Start (bs ! i) \<le> t) \<and> (i = 7 \<or> t < ub_End (bs ! i))"

definition calls_where :: "(time \<Rightarrow> bool) \<Rightarrow> (time \<times> int) list \<Rightarrow> int" where
  "calls_where P rs = (\<Sum>(t, calls)\<leftarrow>rs. if P t then calls else 0)"

lemma calls_where_filter: "(\<Sum>(t, calls)\<leftarrow>filter (\<lambda>(t, calls). P t) (filter (\<lambda>(t, calls). Q t) rs). calls) = calls_where (\<lambda>t. Q t \<and> P t) rs"
  by (induction rs) (auto simp: calls_where_def)

lemma calls_where_cong: "(\<And>t. P t = Q t) \<Longrightarrow> calls_where P rs = calls_where Q rs"
  by (simp add: calls_where_def)

text \<open>Eight adjoining buckets over a range, with any numbers of calls.\<close>

definition bucket_frame :: "time \<Rightarrow> time \<Rightarrow> int \<Rightarrow> UsageBucket list \<Rightarrow> bool" where
  "bucket_frame start end' d bs \<longleftrightarrow> map ub_Start bs = map (\<lambda>i. fst (bucket_bounds start d (int i))) [0..<8] \<and>
     map ub_End bs = map (\<lambda>i. if i = 7 then end' else snd (bucket_bounds start d (int i))) [0..<8]"

lemma bucket_frameD:
  assumes "bucket_frame start end' d bs"
  shows "length bs = 8" "i < 8 \<Longrightarrow> ub_Start (bs ! i) = fst (bucket_bounds start d (int i))"
    "i < 8 \<Longrightarrow> ub_End (bs ! i) = (if i = 7 then end' else snd (bucket_bounds start d (int i)))" "ub_Start (hd bs) = start"
proof -
  show len: "length bs = 8" using assms unfolding bucket_frame_def by (metis length_map length_upt diff_zero)
  show "ub_Start (bs ! i) = fst (bucket_bounds start d (int i))" if "i < 8" for i
  proof -
    have "map ub_Start bs ! i = map (\<lambda>i. fst (bucket_bounds start d (int i))) [0..<8] ! i" using assms by (simp only: bucket_frame_def)
    then show ?thesis using that len by simp
  qed
  note first = this [of 0]
  show "ub_End (bs ! i) = (if i = 7 then end' else snd (bucket_bounds start d (int i)))" if "i < 8"
  proof -
    have "map ub_End bs ! i = map (\<lambda>i. if i = 7 then end' else snd (bucket_bounds start d (int i))) [0..<8] ! i"
      using assms by (simp only: bucket_frame_def)
    then show ?thesis using that len by simp
  qed
  show "ub_Start (hd bs) = start" using first len by (cases bs) (simp_all add: bucket_bounds_def usageTrafficBucketCount_def divideCeiling_def)
qed

lemma empty_frame: "bucket_frame start end' d (createEmptyUsageTrafficBuckets start end' d)"
  by (simp add: bucket_frame_def createEmptyUsageTrafficBuckets_def Let_def usageTrafficBucketCount_def numeral_eq_Suc upt_rec bucket_bounds_def)

lemma empty_calls: "i < 8 \<Longrightarrow> ub_Calls (createEmptyUsageTrafficBuckets start end' d ! i) = 0"
  by (cases "i = 7") (simp_all add: createEmptyUsageTrafficBuckets_def Let_def usageTrafficBucketCount_def nth_list_update bucket_bounds_def)

lemma source_frame:
  assumes frame: "bucket_frame start end' d bs" and start: "aligned Second start" and d: "1 \<le> d"
  shows "bucket_frame start end' d (addUsageTrafficSource lo end' d rs bs)"
    and "i < 8 \<Longrightarrow> ub_Calls (addUsageTrafficSource lo end' d rs bs ! i) = ub_Calls (bs ! i) +
      calls_where (\<lambda>t. (db_time lo \<le> t \<and> t \<le> db_time end') \<and> in_traffic_bucket bs i t) rs"
proof -
  note f = bucket_frameD [OF frame]
  have "map (ub_Start \<circ> (\<lambda>(i, b). b\<lparr>ub_Calls := g i b\<rparr>)) (enumerate 0 bs) = map ub_Start bs"
    "map (ub_End \<circ> (\<lambda>(i, b). b\<lparr>ub_Calls := g i b\<rparr>)) (enumerate 0 bs) = map ub_End bs" for g
    by (rule nth_equalityI; simp add: nth_enumerate_eq)+
  then show "bucket_frame start end' d (addUsageTrafficSource lo end' d rs bs)"
    using frame by (simp add: bucket_frame_def addUsageTrafficSource_def)
  assume i: "i < 8"
  have "bucket_index start d t = int i \<longleftrightarrow> in_traffic_bucket bs i t" for t
    using bucket_index_exact [OF start d, of "int i" t] i f(2,3) [OF i] by (auto simp: in_traffic_bucket_def)
  then show "ub_Calls (addUsageTrafficSource lo end' d rs bs ! i) = ub_Calls (bs ! i) +
      calls_where (\<lambda>t. (db_time lo \<le> t \<and> t \<le> db_time end') \<and> in_traffic_bucket bs i t) rs"
    using i f(1,4) by (simp add: addUsageTrafficSource_def nth_enumerate_eq calls_where_filter del: filter_filter)
qed

lemma in_bucket_frame: "bucket_frame start end' d bs \<Longrightarrow> bucket_frame start end' d bs' \<Longrightarrow> i < 8 \<Longrightarrow> in_traffic_bucket bs' i t = in_traffic_bucket bs i t"
  by (simp add: in_traffic_bucket_def bucket_frameD)

lemma bucket_aligned:
  assumes "truncate_to Second a < truncate_to Second b"
  shows "1 \<le> (truncate_to Second b - truncate_to Second a) div Second"
    "truncate_to Second a + (truncate_to Second b - truncate_to Second a) div Second * Second = truncate_to Second b"
proof -
  have e: "(truncate_to Second b - truncate_to Second a) div Second = b div Second - a div Second"
    by (simp only: truncate_to_def left_diff_distrib [symmetric]) (simp add: Second_def)
  show "1 \<le> (truncate_to Second b - truncate_to Second a) div Second"
    using assms unfolding e by (simp add: truncate_to_def Second_def)
  show "truncate_to Second a + (truncate_to Second b - truncate_to Second a) div Second * Second = truncate_to Second b"
    unfolding e by (simp add: truncate_to_def left_diff_distrib)
qed

lemma truncate_shift: "truncate_to Second (t - k * Second) = truncate_to Second t - k * Second"
proof -
  have "(t + (- k) * Second) div Second = - k + t div Second" by (rule div_mult_self1) (simp add: Second_def)
  then show ?thesis by (simp add: truncate_to_def left_diff_distrib)
qed

text \<open>The calls of all three tables in a range, rollups from the bucket that holds its start on.\<close>

definition range_calls :: "usageStatsScope \<Rightarrow> time \<Rightarrow> time \<Rightarrow> (time \<Rightarrow> bool) \<Rightarrow> DB \<Rightarrow> int" where
  "range_calls scope start end' P db =
     calls_where (\<lambda>t. (start \<le> t \<and> t \<le> end') \<and> P t) (scoped_raw scope db) +
     calls_where (\<lambda>t. (truncate_to Hour start \<le> t \<and> t \<le> end') \<and> P t) (scoped_rollups scope db (hourly_rollups db)) +
     calls_where (\<lambda>t. (truncate_to Day start \<le> t \<and> t \<le> end') \<and> P t) (scoped_rollups scope db (daily_rollups db))"

definition traffic_range :: "time \<Rightarrow> time \<Rightarrow> time \<times> time" where
  "traffic_range start end' = (if truncate_to Second start < truncate_to Second end' then truncate_to Second start
     else truncate_to Second end' - 24 * Hour, truncate_to Second end')"

lemma truncate_seconds [simp]: "db_time (truncate_to Second t) = truncate_to Second t"
  by (simp add: db_time_def truncate_to_def Second_def)

lemma widths_seconds: "db_time (truncate_to Hour t) = truncate_to Hour t" "db_time (truncate_to Day t) = truncate_to Day t"
  using aligned_truncate [of Hour t] aligned_truncate [of Day t]
  by (auto simp: aligned_def db_time_def Day_def Hour_def Minute_def Second_def)

lemma bucket_query:
  assumes r: "traffic_range start end' = (s, e)"
  shows "\<exists>d. 1 \<le> d \<and> aligned Second s \<and> s + d * Second = e \<and> bucket_frame s e d (queryUsageTrafficBuckets scope start end' db) \<and>
    (\<forall>i < 8. ub_Calls (queryUsageTrafficBuckets scope start end' db ! i) =
       range_calls scope s e (in_traffic_bucket (queryUsageTrafficBuckets scope start end' db) i) db)"
proof -
  define d where "d = (e - s) div Second"
  have se: "1 \<le> d" "s + d * Second = e" "aligned Second s" "db_time s = s" "db_time e = e"
  proof -
    have day: "truncate_to Second (end' - 24 * Hour) = truncate_to Second end' - 24 * Hour" "0 < 24 * Hour"
      using truncate_shift [of end' 86400] by (simp_all add: Hour_def Minute_def Second_def)
    obtain a where a: "s = truncate_to Second a" "truncate_to Second a < truncate_to Second end'" "e = truncate_to Second end'"
    proof (cases "truncate_to Second start < truncate_to Second end'")
      case True
      then show ?thesis using r by (intro that [of start]) (simp_all add: traffic_range_def)
    next
      case False
      then show ?thesis using r day by (intro that [of "end' - 24 * Hour"]) (simp_all add: traffic_range_def)
    qed
    show "1 \<le> d" "s + d * Second = e" using bucket_aligned [OF a(2)] a by (simp_all add: d_def)
    show "aligned Second s" "db_time s = s" "db_time e = e" using a by (simp_all add: aligned_truncate)
  qed
  define b0 where "b0 = createEmptyUsageTrafficBuckets s e d"
  define b1 where "b1 = addUsageTrafficSource s e d (scoped_raw scope db) b0"
  define b2 where "b2 = addUsageTrafficSource (truncate_to Hour s) e d (scoped_rollups scope db (hourly_rollups db)) b1"
  define b3 where "b3 = addUsageTrafficSource (truncate_to Day s) e d (scoped_rollups scope db (daily_rollups db)) b2"
  have q: "queryUsageTrafficBuckets scope start end' db = b3"
    using r se(1) by (auto simp: queryUsageTrafficBuckets_def Let_def traffic_range_def usageRollupSources_def truncateUsageRollupBoundary_def
        truncateToUTCDay_def b3_def b2_def b1_def b0_def d_def Hour_def Day_def Minute_def Second_def split: if_splits)
  note f0 = empty_frame [of s e d, folded b0_def]
  note f1 = source_frame [OF f0 se(3,1), where lo = s and rs = "scoped_raw scope db", folded b1_def]
  note f2 = source_frame [OF f1(1) se(3,1), where lo = "truncate_to Hour s" and rs = "scoped_rollups scope db (hourly_rollups db)", folded b2_def]
  note f3 = source_frame [OF f2(1) se(3,1), where lo = "truncate_to Day s" and rs = "scoped_rollups scope db (daily_rollups db)", folded b3_def]
  have "ub_Calls (b3 ! i) = range_calls scope s e (in_traffic_bucket b3 i) db" if "i < 8" for i
    using f1(2) [OF that] f2(2) [OF that] f3(2) [OF that] empty_calls [OF that, of s e d] that se(4,5)
    by (simp add: range_calls_def widths_seconds in_bucket_frame [OF f3(1) f0] in_bucket_frame [OF f3(1) f1(1)] in_bucket_frame [OF f3(1) f2(1)]
        flip: b0_def)
  then show ?thesis using f3(1) se(1-3) q by auto
qed

lemma calls_partition:
  assumes "\<And>t. pick t < (8 :: nat)" "\<And>i t. i < 8 \<Longrightarrow> B i t = (i = pick t)"
  shows "(\<Sum>i = 0..<8. calls_where (\<lambda>t. Q t \<and> B i t) rs) = calls_where Q rs"
proof (induction rs)
  case (Cons r rs)
  obtain t c where r: "r = (t, c)" by fastforce
  have "(\<Sum>i = 0..<8. if Q t \<and> B i t then c else 0) = (\<Sum>i = 0..<8. if i = pick t then (if Q t then c else 0) else 0)"
    by (rule sum.cong) (simp_all add: assms(2))
  also have "\<dots> = (if Q t then c else 0)" using assms(1) [of t] by simp
  finally show ?case using Cons by (simp add: calls_where_def r sum.distrib)
qed (simp add: calls_where_def)

lemma range_partition:
  assumes "\<And>t. pick t < (8 :: nat)" "\<And>i t. i < 8 \<Longrightarrow> B i t = (i = pick t)"
  shows "(\<Sum>i = 0..<8. range_calls scope s e (B i) db) = range_calls scope s e (\<lambda>_. True) db"
proof -
  have "(\<Sum>i = 0..<8. calls_where (\<lambda>t. (lo \<le> t \<and> t \<le> e) \<and> B i t) rs) = calls_where (\<lambda>t. lo \<le> t \<and> t \<le> e) rs" for lo rs
    by (rule calls_partition [where Q = "\<lambda>t. lo \<le> t \<and> t \<le> e", OF assms])
  then show ?thesis unfolding range_calls_def sum.distrib by simp
qed

lemma one_bucket:
  assumes frame: "bucket_frame s e d bs" "aligned Second s" "1 \<le> d" and i: "i < 8"
  shows "in_traffic_bucket bs i t = (i = nat (bucket_index s d t))"
proof -
  have "in_traffic_bucket bs i t \<longleftrightarrow> bucket_index s d t = int i"
    using bucket_index_exact [OF frame(2,3), of "int i" t] i bucket_frameD(2,3) [OF frame(1) i] by (auto simp: in_traffic_bucket_def)
  then show ?thesis by (auto simp: bucket_index_def)
qed



end
