(* ===== verification/Usage_Totals.thy ===== *)
theory Usage_Totals
  imports Usage_Stats
begin

text \<open>
  What the usage statistics and pages promise: the totals, by tool and over all tools, are the sums over the
  three tables, the same before and after maintenance for any day still kept; pages walked from the start
  list every record of the scope once, newest first.
\<close>

section \<open>Sums\<close>

definition by_tool :: "UsageStats \<Rightarrow> string \<Rightarrow> int" where
  "by_tool s t = (case lookup (st_ByTool s) t of None \<Rightarrow> 0 | Some n \<Rightarrow> n)"

lemma addUsageAggregate_simps:
  "by_tool (addUsageAggregate (x, c, n, d) s) t = by_tool s t + (if t = x then c else 0)"
  "st_TotalCalls (addUsageAggregate (x, c, n, d) s) = st_TotalCalls s + c"
  "st_SuccessCalls (addUsageAggregate (x, c, n, d) s) = st_SuccessCalls s + n"
  "st_DurationMsTotal (addUsageAggregate (x, c, n, d) s) = st_DurationMsTotal s + d"
  by (auto simp: addUsageAggregate_def by_tool_def lookup_update split: option.split)

lemma scan_sums:
  "st_TotalCalls (scanUsageAggregateRows rs s) = st_TotalCalls s + (\<Sum>(x, c, n, d)\<leftarrow>rs. c)"
  "st_SuccessCalls (scanUsageAggregateRows rs s) = st_SuccessCalls s + (\<Sum>(x, c, n, d)\<leftarrow>rs. n)"
  "st_DurationMsTotal (scanUsageAggregateRows rs s) = st_DurationMsTotal s + (\<Sum>(x, c, n, d)\<leftarrow>rs. d)"
  "by_tool (scanUsageAggregateRows rs s) t = by_tool s t + (\<Sum>(x, c, n, d)\<leftarrow>rs. if t = x then c else 0)"
  unfolding scanUsageAggregateRows_def
  by (induction rs arbitrary: s) (auto simp: addUsageAggregate_simps)

lemma sum_groups: "(\<Sum>t\<leftarrow>remdups (map tool rs). \<Sum>r\<leftarrow>filter (\<lambda>r. tool r = t) rs. f r) = (\<Sum>r\<leftarrow>rs. f r :: int)"
proof -
  have "(\<Sum>t\<leftarrow>remdups (map tool rs). \<Sum>r\<leftarrow>filter (\<lambda>r. tool r = t) rs. f r) =
      (\<Sum>t \<in> tool ` set rs. \<Sum>r\<leftarrow>rs. if tool r = t then f r else 0)"
    by (simp add: sum_list_distinct_conv_sum_set sum_list_map_filter')
  also have "\<dots> = (\<Sum>r\<leftarrow>rs. f r)"
  proof -
    have "(\<Sum>t \<in> T. \<Sum>r\<leftarrow>rs. if tool r = t then f r else 0) = (\<Sum>r\<leftarrow>rs. f r)" if "finite T" "tool ` set rs \<subseteq> T" for T
      using that by (induction rs) (auto simp: sum.distrib)
    then show ?thesis by simp
  qed
  finally show ?thesis .
qed

lemma group_sums:
  "(\<Sum>(x, c, n, d)\<leftarrow>group_by_tool tool calls successes millis rs. c) = (\<Sum>r\<leftarrow>rs. calls r)"
  "(\<Sum>(x, c, n, d)\<leftarrow>group_by_tool tool calls successes millis rs. n) = (\<Sum>r\<leftarrow>rs. successes r)"
  "(\<Sum>(x, c, n, d)\<leftarrow>group_by_tool tool calls successes millis rs. d) = (\<Sum>r\<leftarrow>rs. millis r)"
  "(\<Sum>(x, c, n, d)\<leftarrow>group_by_tool tool calls successes millis rs. if t = x then c else 0) = (\<Sum>r\<leftarrow>rs. if tool r = t then calls r else 0)"
proof -
  show "(\<Sum>(x, c, n, d)\<leftarrow>group_by_tool tool calls successes millis rs. c) = (\<Sum>r\<leftarrow>rs. calls r)"
    using sum_groups [where tool = tool and f = calls and rs = rs] by (simp add: group_by_tool_def Let_def comp_def)
  show "(\<Sum>(x, c, n, d)\<leftarrow>group_by_tool tool calls successes millis rs. n) = (\<Sum>r\<leftarrow>rs. successes r)"
    using sum_groups [where tool = tool and f = successes and rs = rs] by (simp add: group_by_tool_def Let_def comp_def)
  show "(\<Sum>(x, c, n, d)\<leftarrow>group_by_tool tool calls successes millis rs. d) = (\<Sum>r\<leftarrow>rs. millis r)"
    using sum_groups [where tool = tool and f = millis and rs = rs] by (simp add: group_by_tool_def Let_def comp_def)
  have "(\<Sum>(x, c, n, d)\<leftarrow>group_by_tool tool calls successes millis rs. if t = x then c else 0) =
      (\<Sum>x\<leftarrow>remdups (map tool rs). \<Sum>r\<leftarrow>filter (\<lambda>r. tool r = x) rs. if tool r = t then calls r else 0)"
    by (auto simp: group_by_tool_def Let_def comp_def intro!: arg_cong [of _ _ sum_list] map_cong sum_list_zero)
  then show "(\<Sum>(x, c, n, d)\<leftarrow>group_by_tool tool calls successes millis rs. if t = x then c else 0) = (\<Sum>r\<leftarrow>rs. if tool r = t then calls r else 0)"
    using sum_groups [where tool = tool and f = "\<lambda>r. if tool r = t then calls r else 0" and rs = rs] by simp
qed

text \<open>A metric of one tool, or of all, over the rows of a scope from a time on; each table with its own cut.\<close>

fun raw_metric :: "usage_metric \<Rightarrow> usage_row \<Rightarrow> int" where
  "raw_metric MetricCalls r = 1"
| "raw_metric MetricSuccesses r = (if ur_Success r then 1 else 0)"
| "raw_metric MetricDuration r = ur_DurationMs r"

fun rollup_metric :: "usage_metric \<Rightarrow> rollup_row \<Rightarrow> int" where
  "rollup_metric MetricCalls r = ro_TotalCalls r"
| "rollup_metric MetricSuccesses r = ro_SuccessCalls r"
| "rollup_metric MetricDuration r = ro_DurationMsTotal r"

definition scope_total :: "usage_metric \<Rightarrow> (string \<Rightarrow> bool) \<Rightarrow> usageStatsScope \<Rightarrow> time option \<Rightarrow> DB \<Rightarrow> int" where
  "scope_total m P scope since db =
     (\<Sum>r\<leftarrow>usage_rows_in scope since db. if P (ur_ToolName r) then raw_metric m r else 0) +
     (\<Sum>r\<leftarrow>rollups_in scope (map_option (truncate_to Hour) since) db (hourly_rollups db). if P (ro_ToolName r) then rollup_metric m r else 0) +
     (\<Sum>r\<leftarrow>rollups_in scope (map_option (truncate_to Day) since) db (daily_rollups db). if P (ro_ToolName r) then rollup_metric m r else 0)"

fun st_metric :: "usage_metric \<Rightarrow> UsageStats \<Rightarrow> int" where
  "st_metric MetricCalls s = st_TotalCalls s"
| "st_metric MetricSuccesses s = st_SuccessCalls s"
| "st_metric MetricDuration s = st_DurationMsTotal s"

lemma aggregates_exact:
  "st_metric m (usage_aggregates scope since db) = scope_total m (\<lambda>_. True) scope since db"
  "by_tool (usage_aggregates scope since db) t = scope_total MetricCalls (\<lambda>x. x = t) scope since db"
proof -
  have widths: "truncateUsageRollupBoundary Hour = truncate_to Hour" "truncateUsageRollupBoundary (24 * Hour) = truncate_to Day"
    by (simp_all add: fun_eq_iff truncateUsageRollupBoundary_def truncateToUTCDay_def Day_def Hour_def Minute_def Second_def)
  have start: "st_metric m no_stats = 0" "by_tool no_stats t = 0" by (cases m) (simp_all add: no_stats_def by_tool_def)
  show "st_metric m (usage_aggregates scope since db) = scope_total m (\<lambda>_. True) scope since db"
    using start(1) by (cases m) (simp_all add: usage_aggregates_def usageRollupSources_def addRollupUsageAggregates_def
        addRawUsageAggregates_def scan_sums group_sums widths scope_total_def)
  show "by_tool (usage_aggregates scope since db) t = scope_total MetricCalls (\<lambda>x. x = t) scope since db"
    using start(2) by (simp add: usage_aggregates_def usageRollupSources_def addRollupUsageAggregates_def
        addRawUsageAggregates_def scan_sums group_sums widths scope_total_def cong: if_cong)
qed

section \<open>Totals and maintenance\<close>

definition scope_keys :: "usageStatsScope \<Rightarrow> DB \<Rightarrow> string set" where
  "scope_keys scope db = {k \<in> k_ID ` set (apikeys db). usageStatsWhere scope db k}"

lemma sum_over_keys:
  assumes "finite A" "\<And>r. r \<in> set rs \<Longrightarrow> key r \<in> A"
  shows "(\<Sum>r\<leftarrow>rs. if W (key r) \<and> Q r then f r else 0) = (\<Sum>k \<in> {k \<in> A. W k}. \<Sum>r\<leftarrow>rs. if key r = k \<and> Q r then f r else (0 :: int))"
  using assms(2)
proof (induction rs)
  case (Cons r rs)
  have "(\<Sum>k \<in> {k \<in> A. W k}. if key r = k \<and> Q r then f r else 0) = (if W (key r) \<and> Q r then f r else 0)"
  proof -
    have "(\<Sum>k \<in> {k \<in> A. W k}. if key r = k \<and> Q r then f r else 0) = (\<Sum>k \<in> {k \<in> A. W k}. if k = key r then (if Q r then f r else 0) else 0)"
      by (rule sum.cong) auto
    then show ?thesis using assms(1) Cons.prems by simp
  qed
  then show ?case using Cons by (simp add: sum.distrib)
qed simp

lemma filter_sum: "(\<Sum>r\<leftarrow>filter W rs. if Q r then f r else 0) = (\<Sum>r\<leftarrow>rs. if W r \<and> Q r then f r else (0 :: int))"
  by (induction rs) auto

lemma day_cuts:
  assumes "aligned Day c"
  shows "db_time c = c" "truncate_to Hour c = c" "truncate_to Day c = c" "truncate_to Second c = c"
  using assms by (auto simp: aligned_def db_time_def truncate_to_def Day_def Hour_def Minute_def Second_def)

lemma scope_total_tool:
  assumes ok: "db_ok db" and c: "aligned Day c"
  shows "scope_total m (\<lambda>x. x = t) scope (Some c) db = (\<Sum>k \<in> scope_keys scope db. usage_since c m (k, t) db)"
proof -
  have refs: "ur_KeyID ` set (usage_log db) \<subseteq> k_ID ` set (apikeys db)" "ro_KeyID ` set (hourly_rollups db) \<subseteq> k_ID ` set (apikeys db)"
    "ro_KeyID ` set (daily_rollups db) \<subseteq> k_ID ` set (apikeys db)"
    using db_ok_references [OF ok] by (simp_all add: references_ok_def)
  have raw: "raw_value c m (k, t) r = (if ur_KeyID r = k \<and> c \<le> ur_Timestamp r \<and> ur_ToolName r = t then raw_metric m r else 0)" for k r
    by (cases m) (auto simp: raw_value_def)
  have rollup: "rollup_value c m (k, t) r = (if ro_KeyID r = k \<and> c \<le> ro_BucketStart r \<and> ro_ToolName r = t then rollup_metric m r else 0)" for k r
    by (cases m) (auto simp: rollup_value_def)
  have "(\<Sum>r\<leftarrow>usage_rows_in scope (Some c) db. if ur_ToolName r = t then raw_metric m r else 0) =
      (\<Sum>k \<in> scope_keys scope db. \<Sum>r\<leftarrow>usage_log db. raw_value c m (k, t) r)"
    unfolding usage_rows_in_def filter_sum raw scope_keys_def using refs(1)
    by (subst sum_over_keys [symmetric]) (auto simp: day_cuts [OF c] conj_ac intro!: arg_cong [of _ _ sum_list])
  moreover have "(\<Sum>r\<leftarrow>rollups_in scope (Some c) db rs. if ro_ToolName r = t then rollup_metric m r else 0) =
      (\<Sum>k \<in> scope_keys scope db. \<Sum>r\<leftarrow>rs. rollup_value c m (k, t) r)" if "ro_KeyID ` set rs \<subseteq> k_ID ` set (apikeys db)" for rs
    unfolding rollups_in_def filter_sum rollup scope_keys_def using that
    by (subst sum_over_keys [symmetric]) (auto simp: day_cuts [OF c] conj_ac intro!: arg_cong [of _ _ sum_list])
  ultimately show ?thesis using refs(2,3)
    by (simp add: scope_total_def usage_since_def day_cuts [OF c] sum.distrib)
qed

definition tools_of :: "DB \<Rightarrow> string set" where
  "tools_of db = ur_ToolName ` set (usage_log db) \<union> ro_ToolName ` set (hourly_rollups db) \<union> ro_ToolName ` set (daily_rollups db)"

lemma sum_over_tools:
  assumes "finite T" "tool ` set rs \<subseteq> T"
  shows "(\<Sum>r\<leftarrow>rs. f r) = (\<Sum>t \<in> T. \<Sum>r\<leftarrow>rs. if tool r = t then f r else (0 :: int))"
  using assms by (induction rs) (auto simp: sum.distrib)

lemma scope_total_all:
  assumes "finite T" "tools_of db \<subseteq> T"
  shows "scope_total m (\<lambda>_. True) scope since db = (\<Sum>t \<in> T. scope_total m (\<lambda>x. x = t) scope since db)"
proof -
  have "ur_ToolName ` set (usage_rows_in scope since db) \<subseteq> T" "ro_ToolName ` set (rollups_in scope w db (hourly_rollups db)) \<subseteq> T"
    "ro_ToolName ` set (rollups_in scope w db (daily_rollups db)) \<subseteq> T" for w
    using assms(2) by (auto simp: usage_rows_in_def rollups_in_def tools_of_def)
  note sum_over_tools [OF assms(1) this(1), of "raw_metric m"] sum_over_tools [OF assms(1) this(2), of "rollup_metric m"]
    sum_over_tools [OF assms(1) this(3), of "rollup_metric m"]
  then show ?thesis by (simp add: scope_total_def sum.distrib)
qed

lemma maintenance_keeps:
  assumes ok: "db_ok db" and run: "RunUsageMaintenance debugOk policy now db = (res, db')" and valid: "policy_Validate policy = None"
    and c: "aligned Day c" "daily_cutoff policy now \<le> c"
  shows "db_ok db'" "apikeys db' = apikeys db" "usage_since c m g db' = usage_since c m g db"
proof -
  obtain result db1 where r: "compactPrimaryUsage (raw_cutoff policy now) (hourly_cutoff policy now) (daily_cutoff policy now) db = (result, db1)"
    by force
  note spec = compactPrimaryUsage_spec [OF ok cutoffs_aligned r]
  obtain x where x: "db' = db1\<lparr>usage_debug := x\<rparr>"
  proof -
    have "db' = db1\<lparr>usage_debug := delete_where (\<lambda>r. dr_UsageTimestamp r < db_time (raw_cutoff policy now)) (usage_debug db1)\<rparr> \<or>
        db' = db1\<lparr>usage_debug := usage_debug db1\<rparr>"
      using run valid r by (auto simp: RunUsageMaintenance_def Let_def split: if_splits)
    then show ?thesis using that by blast
  qed
  have "apikeys (without_usage db1) = apikeys (without_usage db)" using spec(2) by simp
  then show "apikeys db' = apikeys db" by (simp add: x without_usage_def)
  show "db_ok db'" using spec(1) by (simp add: x db_ok_def references_ok_def)
  show "usage_since c m g db' = usage_since c m g db" using spec(6) [OF c] by (simp add: x usage_since_def)
qed

text \<open>
  Statistics survive maintenance (C35). Compaction moves rows to coarser tables and expiry drops the oldest ones; for every
  scope, and from any day on that is still kept, the number of calls, of successes and the duration, in total
  and the calls of each tool, are the same before and after, and so is the average duration shown.
\<close>

theorem usage_stats_survive_maintenance:
  assumes ok: "db_ok db" and run: "RunUsageMaintenance debugOk policy now db = (res, db')" and valid: "policy_Validate policy = None"
    and c: "aligned Day c" "daily_cutoff policy now \<le> c"
  shows "st_metric m (queryUsageStats scope (Some c) cursor limit t db') = st_metric m (queryUsageStats scope (Some c) cursor limit t db) \<and>
    by_tool (queryUsageStats scope (Some c) cursor limit t db') tool = by_tool (queryUsageStats scope (Some c) cursor limit t db) tool \<and>
    AverageDurationMs (queryUsageStats scope (Some c) cursor limit t db') = AverageDurationMs (queryUsageStats scope (Some c) cursor limit t db)"
proof -
  note keep = maintenance_keeps [OF ok run valid c]
  have keys: "scope_keys scope db' = scope_keys scope db" using keep(2) by (cases scope) (simp_all add: scope_keys_def)
  have tools: "scope_total m (\<lambda>x. x = t) scope (Some c) db' = scope_total m (\<lambda>x. x = t) scope (Some c) db" for m t
    by (simp add: scope_total_tool [OF keep(1) c(1)] scope_total_tool [OF ok c(1)] keys keep(3))
  define T where "T = tools_of db \<union> tools_of db'"
  have T: "finite T" "tools_of db \<subseteq> T" "tools_of db' \<subseteq> T" by (auto simp: T_def tools_of_def)
  have total: "scope_total m (\<lambda>_. True) scope (Some c) db' = scope_total m (\<lambda>_. True) scope (Some c) db" for m
    by (simp add: scope_total_all [OF T(1,3)] scope_total_all [OF T(1,2)] tools)
  have stats: "st_metric m (queryUsageStats scope (Some c) cursor limit t d) = scope_total m (\<lambda>_. True) scope (Some c) d"
    "by_tool (queryUsageStats scope (Some c) cursor limit t d) tool = scope_total MetricCalls (\<lambda>x. x = tool) scope (Some c) d" for m d
    by (simp_all add: queryUsageStats_def Let_def day_cuts [OF c(1)] by_tool_def flip: aggregates_exact) (cases m; simp)
  have metrics: "st_metric n (queryUsageStats scope (Some c) cursor limit t db') = st_metric n (queryUsageStats scope (Some c) cursor limit t db)" for n
    by (simp add: stats total)
  have average: "AverageDurationMs s' = AverageDurationMs s" if "st_metric MetricCalls s' = st_metric MetricCalls s"
      "st_metric MetricDuration s' = st_metric MetricDuration s" for s s'
    using that by (simp add: AverageDurationMs_def)
  show ?thesis
    by (intro conjI metrics average) (simp add: stats(2) tools)
qed

section \<open>Pages\<close>

interpretation usage_listing: keyset_listing db_ok "usage_rows_in scope since" usage_record_key timeIDDescending for scope since
proof
  fix db assume "db_ok db"
  then have "distinct (map ur_ID (usage_log db))" "\<forall>r \<in> set (usage_log db). db_time (ur_Timestamp r) = ur_Timestamp r"
    by (simp_all add: db_ok_def usage_ok_def)
  then show "pageable usage_record_key (usage_rows_in scope since db)"
    by (auto simp: pageable_def usage_rows_in_def usage_record_key_def distinct_map inj_on_def)
qed

definition listed_page ::
  "UsageRecordListScope \<Rightarrow> time option \<Rightarrow> int \<Rightarrow> DB \<Rightarrow> (time \<times> int) option \<Rightarrow> listed_record list \<times> bool \<times> (time \<times> int) option" where
  "listed_page sc since limit db cursor =
     (case ListUsageRecordsPage sc since cursor limit db of
        Inl _ \<Rightarrow> ([], False, None) | Inr p \<Rightarrow> (urp_Records p, urp_HasMore p, urp_NextCursor p))"

definition listed_row :: "DB \<Rightarrow> usage_row \<Rightarrow> listed_record" where
  "listed_row db r = (case find (\<lambda>d. dr_UsageID d = ur_ID r) (usage_debug db) of
     None \<Rightarrow> plain_record r | Some d \<Rightarrow> with_debug d (plain_record r))"

lemma listed_row_truncate [simp]: "usage_row.truncate (listed_row db r) = r"
  by (auto simp: listed_row_def plain_record_def with_debug_def usage_row.defs split: option.split)

lemma plain_ID [simp]: "ur_ID (plain_record r) = ur_ID r" "ur_KeyID (plain_record r) = ur_KeyID r" "ur_Timestamp (plain_record r) = ur_Timestamp r"
  by (simp_all add: plain_record_def usage_row.defs)

lemma loaded_listed: "loadUsageDebugBodySummaries db (map plain_record rs) = map (listed_row db) rs"
  by (simp add: loadUsageDebugBodySummaries_def listed_row_def)

lemma listed_page_eq:
  "list_scope sc = Some scope \<Longrightarrow> listed_page sc since limit db c =
     (case page_at timeIDDescending usage_record_key limit (usage_rows_in scope since db) c of (rs, m, n) \<Rightarrow> (map (listed_row db) rs, m, n))"
  by (simp add: listed_page_def ListUsageRecordsPage_def queryUsageRecordPage_def page_at_def loaded_listed split: prod.split)

text \<open>
  Usage records are complete. Following the cursors of \<open>ListUsageRecordsPage\<close> from the first page, with any limit, lists
  every record of the scope since the given time exactly once, newest first, in pages of at most a
  hundred, with all the columns of the log as they are stored.
\<close>

theorem usage_pages_complete:
  assumes "db_ok db" "list_scope sc = Some scope" "length (usage_log db) < fuel"
  shows "map usage_row.truncate (concat (walk fuel (listed_page sc since limit db) None)) =
      ordered_rows timeIDDescending usage_record_key (filter (\<lambda>r. usageStatsWhere scope db (ur_KeyID r) \<and> not_before since (ur_Timestamp r)) (usage_log db)) \<and>
    (\<forall>p \<in> set (walk fuel (listed_page sc since limit db) None). length p \<le> 100)"
proof -
  have "length (usage_rows_in scope since db) < fuel" using assms(3) by (simp add: usage_rows_in_def order_le_less_trans [OF length_filter_le])
  note complete = usage_listing.walk_complete [OF assms(1) this, of limit]
  have "walk fuel (listed_page sc since limit db) None =
      map (map (listed_row db)) (walk fuel (page_at timeIDDescending usage_record_key limit (usage_rows_in scope since db)) None)"
    by (rule walk_map) (rule listed_page_eq [OF assms(2)])
  then show ?thesis using complete by (auto simp: comp_def usage_rows_in_def simp flip: map_concat)
qed

section \<open>Examples\<close>

theorem usage_stats_survive_maintenance_witness:
  "st_TotalCalls (queryUsageStats (usageStatsByUser ''ann'') (Some 0) None 50 (30 * Hour)
      (snd (RunUsageMaintenance True demo_policy (30 * Hour) demo_db))) = 1"
proof -
  let ?db = "snd (RunUsageMaintenance True demo_policy (30 * Hour) demo_db)"
  have run: "RunUsageMaintenance True demo_policy (30 * Hour) demo_db = (fst (RunUsageMaintenance True demo_policy (30 * Hour) demo_db), ?db)" by simp
  have pre: "policy_Validate demo_policy = None" "aligned Day 0" "daily_cutoff demo_policy (30 * Hour) \<le> 0" by code_simp+
  have "st_TotalCalls (queryUsageStats (usageStatsByUser ''ann'') (Some 0) None 50 (30 * Hour) demo_db) = 1" by code_simp
  then show ?thesis
    using usage_stats_survive_maintenance [OF demo_db_ok run pre, of MetricCalls "usageStatsByUser ''ann''" None 50 "30 * Hour" "[]"] by simp
qed

theorem usage_pages_complete_witness:
  "map usage_row.truncate (concat (walk 2 (listed_page \<lparr>rls_KeyID = [], rls_UserID = '' ann '', rls_IncludeAllUsers = False\<rparr> None 0 demo_db) None)) =
     usage_log demo_db"
proof -
  have "list_scope \<lparr>rls_KeyID = [], rls_UserID = '' ann '', rls_IncludeAllUsers = False\<rparr> = Some (usageStatsByUser ''ann'')" by code_simp
  moreover have "length (usage_log demo_db) < 2" by code_simp
  ultimately have "map usage_row.truncate (concat (walk 2 (listed_page \<lparr>rls_KeyID = [], rls_UserID = '' ann '', rls_IncludeAllUsers = False\<rparr> None 0 demo_db) None)) =
      ordered_rows timeIDDescending usage_record_key (filter (\<lambda>r. usageStatsWhere (usageStatsByUser ''ann'') demo_db (ur_KeyID r) \<and> not_before None (ur_Timestamp r)) (usage_log demo_db))"
    using usage_pages_complete [OF demo_db_ok] by blast
  moreover have "ordered_rows timeIDDescending usage_record_key (filter (\<lambda>r. usageStatsWhere (usageStatsByUser ''ann'') demo_db (ur_KeyID r) \<and> not_before None (ur_Timestamp r)) (usage_log demo_db)) =
      usage_log demo_db" by code_simp
  ultimately show ?thesis by simp
qed

end
