(* ===== verification/Usage_Handlers.thy ===== *)
theory Usage_Handlers
  imports Usage_Totals Panel_Routes
begin

text \<open>
  The usage pages of the panel: \<open>internal/panel/usage_handlers.go\<close> and \<open>dashboard.go\<close> with their answers
  (\<open>models.go\<close>). The query parameters \<open>since\<close> and \<open>cursor\<close> come parsed, or as the error of their parser; only the
  limit is parsed here. Shown: what a user without administrator rights sees depends on nothing but the user's own
  keys and what was recorded under them.
\<close>

section \<open>Answers\<close>

record UsageRecordDTO =
  ud_ID :: int
  ud_KeyID :: string
  ud_ToolName :: string
  ud_Timestamp :: time
  ud_DurationMs :: int
  ud_Success :: bool
  ud_DebugJSON :: string
  ud_HasDebugRequestBody :: bool
  ud_HasDebugResponseBody :: bool
  ud_DebugRequestBodyBytes :: int
  ud_DebugResponseBodyBytes :: int

record UsageRecordDetailDTO = UsageRecordDTO +
  ud_DebugRequestBody :: string
  ud_DebugResponseBody :: string

definition toUsageRecordResponse :: "listed_record \<Rightarrow> UsageRecordDTO" where
  "toUsageRecordResponse r = \<lparr>ud_ID = ur_ID r, ud_KeyID = ur_KeyID r, ud_ToolName = ur_ToolName r, ud_Timestamp = ur_Timestamp r,
     ud_DurationMs = ur_DurationMs r, ud_Success = ur_Success r, ud_DebugJSON = lr_DebugJSON r,
     ud_HasDebugRequestBody = lr_HasDebugRequestBody r, ud_HasDebugResponseBody = lr_HasDebugResponseBody r,
     ud_DebugRequestBodyBytes = lr_DebugRequestBytes r, ud_DebugResponseBodyBytes = lr_DebugResponseBytes r\<rparr>"

definition toUsageRecordDetailResponse :: "listed_record \<Rightarrow> UsageRecordDetailDTO" where
  "toUsageRecordDetailResponse r = UsageRecordDTO.extend (toUsageRecordResponse r)
     \<lparr>ud_DebugRequestBody = lr_DebugRequestBody r, ud_DebugResponseBody = lr_DebugResponseBody r\<rparr>"

record UsageRecordsResponse =
  urs_Records :: "UsageRecordDTO list"
  urs_NextCursor :: "(time \<times> int) option"
  urs_HasMore :: bool

definition toUsageRecordsResponse :: "UsageRecordPage \<Rightarrow> UsageRecordsResponse" where
  "toUsageRecordsResponse page = \<lparr>urs_Records = map toUsageRecordResponse (urp_Records page),
     urs_NextCursor = urp_NextCursor page, urs_HasMore = urp_HasMore page\<rparr>"

record UsageStatsResponse =
  ust_TotalCalls :: int
  ust_SuccessCalls :: int
  ust_AvgDurationMs :: int
  ust_CurrentRPM :: int
  ust_ByTool :: "(string, int) gomap"
  ust_TrafficBuckets :: "UsageBucket list"
  ust_Page :: UsageRecordsResponse

definition toUsageStatsResponse :: "UsageStats \<Rightarrow> UsageStatsResponse" where
  "toUsageStatsResponse s = \<lparr>ust_TotalCalls = st_TotalCalls s, ust_SuccessCalls = st_SuccessCalls s,
     ust_AvgDurationMs = AverageDurationMs s, ust_CurrentRPM = st_CurrentRPM s, ust_ByTool = st_ByTool s,
     ust_TrafficBuckets = st_TrafficBuckets s, ust_Page = toUsageRecordsResponse (st_RecordsPage s)\<rparr>"

record DashboardKeysSummary =
  dk_TotalCount :: int
  dk_ActiveCount :: int

record DashboardGlobalStats =
  dg_TotalUsers :: int
  dg_TotalKeys :: int
  dg_ActiveKeys :: int
  dg_Usage :: UsageStatsResponse

record DashboardResponse =
  da_User :: UserResponse
  da_Keys :: DashboardKeysSummary
  da_Usage :: UsageStatsResponse
  da_Global :: "DashboardGlobalStats option"

section \<open>Queries\<close>

record usagePageQuery =
  uq_Since :: "time option"
  uq_Limit :: int
  uq_Cursor :: "(time \<times> int) option"

text \<open>\<open>None\<close>: the text given as \<open>since\<close> is not a time.\<close>

definition invalid_since :: panel_error where
  "invalid_since = writeError 400 ''invalid 'since' query parameter; expected RFC3339''"

definition parseUsagePageQuery ::
  "time option option \<Rightarrow> string \<Rightarrow> panel_error + (time \<times> int) option \<Rightarrow> panel_error + usagePageQuery" where
  "parseUsagePageQuery since queryLimit queryCursor =
     (case since of
        None \<Rightarrow> Inl invalid_since
      | Some s \<Rightarrow>
          (case parsePanelPageLimit queryLimit of
             Inl e \<Rightarrow> Inl e
           | Inr limit \<Rightarrow>
               (case queryCursor of
                  Inl e \<Rightarrow> Inl e
                | Inr cursor \<Rightarrow> Inr \<lparr>uq_Since = s, uq_Limit = limit, uq_Cursor = cursor\<rparr>)))"

section \<open>Handlers\<close>

definition keyUsage :: "Context \<Rightarrow> string \<Rightarrow> time option option \<Rightarrow> time \<Rightarrow> DB \<Rightarrow> UsageStatsResponse answer" where
  "keyUsage ctx keyID since now db =
     (case own_key ctx keyID db of
        Inl e \<Rightarrow> Failure e
      | Inr _ \<Rightarrow>
          (case since of
             None \<Rightarrow> Failure invalid_since
           | Some s \<Rightarrow> Answer 200 (toUsageStatsResponse (GetUsageStats keyID s now db))))"

definition userUsage ::
  "Context \<Rightarrow> time option option \<Rightarrow> string \<Rightarrow> panel_error + (time \<times> int) option \<Rightarrow> time \<Rightarrow> DB \<Rightarrow> UsageStatsResponse answer" where
  "userUsage ctx since queryLimit queryCursor now db =
     (case ctx_User ctx of
        None \<Rightarrow> Failure (writeError 401 ''unauthorized'')
      | Some user \<Rightarrow>
          (case parseUsagePageQuery since queryLimit queryCursor of
             Inl e \<Rightarrow> Failure e
           | Inr q \<Rightarrow> Answer 200 (toUsageStatsResponse
               (GetUserUsageStatsPage (u_ID (au_User user)) (uq_Since q) (uq_Cursor q) (uq_Limit q) now db))))"

text \<open>\<open>ListUsageRecordsPage\<close> truncates \<open>since\<close> to seconds.\<close>

definition list_records ::
  "UsageRecordListScope \<Rightarrow> usagePageQuery \<Rightarrow> DB \<Rightarrow> UsageRecordsResponse answer" where
  "list_records scope q db =
     (case ListUsageRecordsPage scope (uq_Since q) (uq_Cursor q) (uq_Limit q) db of
        Inl _ \<Rightarrow> Failure (writeError 500 ''failed to load usage records'')
      | Inr page \<Rightarrow> Answer 200 (toUsageRecordsResponse page))"

definition userUsageRecords ::
  "Context \<Rightarrow> time option option \<Rightarrow> string \<Rightarrow> panel_error + (time \<times> int) option \<Rightarrow> DB \<Rightarrow> UsageRecordsResponse answer" where
  "userUsageRecords ctx since queryLimit queryCursor db =
     (case ctx_User ctx of
        None \<Rightarrow> Failure (writeError 401 ''unauthorized'')
      | Some user \<Rightarrow>
          (case parseUsagePageQuery since queryLimit queryCursor of
             Inl e \<Rightarrow> Failure e
           | Inr q \<Rightarrow> list_records \<lparr>rls_KeyID = [], rls_UserID = u_ID (au_User user), rls_IncludeAllUsers = False\<rparr> q db))"

definition usageRecordDetail :: "Context \<Rightarrow> string \<Rightarrow> DB \<Rightarrow> UsageRecordDetailDTO answer" where
  "usageRecordDetail ctx pathID db =
     (case ctx_User ctx of
        None \<Rightarrow> Failure (writeError 401 ''unauthorized'')
      | Some user \<Rightarrow>
          (case ParseInt pathID of
             None \<Rightarrow> Failure (writeError 400 ''invalid usage record id'')
           | Some usageRecordID \<Rightarrow>
               if usageRecordID \<le> 0 then Failure (writeError 400 ''invalid usage record id'')
               else (case GetUsageRecordDetail usageRecordID
                         \<lparr>rsc_UserID = u_ID (au_User user), rsc_IncludeAllUsers = (u_Role (au_User user) = RoleAdmin)\<rparr> db of
                   Inl e \<Rightarrow> Failure (if e = ErrUsageRecordNotFound then writeError 404 ''usage record not found''
                       else writeError 500 ''failed to load usage record'')
                 | Inr r \<Rightarrow> Answer 200 (toUsageRecordDetailResponse r))))"

definition adminUserUsage ::
  "time \<Rightarrow> string \<Rightarrow> time option option \<Rightarrow> string \<Rightarrow> panel_error + (time \<times> int) option \<Rightarrow> DB \<Rightarrow> UsageStatsResponse answer" where
  "adminUserUsage now userID since queryLimit queryCursor db =
     (case GetUserByID now userID db of
        Inl _ \<Rightarrow> Failure (writeError 404 ''user not found'')
      | Inr _ \<Rightarrow>
          (case parseUsagePageQuery since queryLimit queryCursor of
             Inl e \<Rightarrow> Failure e
           | Inr q \<Rightarrow> Answer 200 (toUsageStatsResponse (GetUserUsageStatsPage userID (uq_Since q) (uq_Cursor q) (uq_Limit q) now db))))"

definition adminGlobalUsage ::
  "time option option \<Rightarrow> string \<Rightarrow> panel_error + (time \<times> int) option \<Rightarrow> time \<Rightarrow> DB \<Rightarrow> UsageStatsResponse answer" where
  "adminGlobalUsage since queryLimit queryCursor now db =
     (case parseUsagePageQuery since queryLimit queryCursor of
        Inl e \<Rightarrow> Failure e
      | Inr q \<Rightarrow> Answer 200 (toUsageStatsResponse (GetGlobalUsageStatsPage (uq_Since q) (uq_Cursor q) (uq_Limit q) now db)))"

definition adminGlobalUsageRecords ::
  "time option option \<Rightarrow> string \<Rightarrow> panel_error + (time \<times> int) option \<Rightarrow> DB \<Rightarrow> UsageRecordsResponse answer" where
  "adminGlobalUsageRecords since queryLimit queryCursor db =
     (case parseUsagePageQuery since queryLimit queryCursor of
        Inl e \<Rightarrow> Failure e
      | Inr q \<Rightarrow> list_records \<lparr>rls_KeyID = [], rls_UserID = [], rls_IncludeAllUsers = True\<rparr> q db)"

definition dashboardWindow :: duration where "dashboardWindow = 24 * Hour"
definition dashboardRecentRecordLimit :: int where "dashboardRecentRecordLimit = 5"

definition loadDashboardGlobalStats :: "time \<Rightarrow> time \<Rightarrow> DB \<Rightarrow> DashboardGlobalStats" where
  "loadDashboardGlobalStats since now db =
     (case CountKeys db of (totalKeys, activeKeys) \<Rightarrow>
        \<lparr>dg_TotalUsers = CountUsers db, dg_TotalKeys = totalKeys, dg_ActiveKeys = activeKeys,
         dg_Usage = toUsageStatsResponse (GetGlobalUsageStatsPage (Some since) None dashboardRecentRecordLimit now db)\<rparr>)"

definition dashboard :: "Context \<Rightarrow> time \<Rightarrow> DB \<Rightarrow> DashboardResponse answer" where
  "dashboard ctx now db =
     (case ctx_User ctx of
        None \<Rightarrow> Failure (writeError 401 ''unauthorized'')
      | Some user \<Rightarrow>
          (case GetUserByID now (u_ID (au_User user)) db of
             Inl _ \<Rightarrow> Failure (writeError 500 ''failed to load user'')
           | Inr freshUser \<Rightarrow>
               let keysPage = ListKeysByUserPage (u_ID (au_User user)) None 1 db;
                   since = now - dashboardWindow;
                   usageStats = GetUserUsageStatsPage (u_ID (au_User user)) (Some since) None dashboardRecentRecordLimit now db
               in Answer 200 \<lparr>da_User = toUserResponseWithTier freshUser (loadUserTierForResponse db freshUser),
                    da_Keys = \<lparr>dk_TotalCount = kp_TotalCount keysPage, dk_ActiveCount = kp_ActiveCount keysPage\<rparr>,
                    da_Usage = toUsageStatsResponse usageStats,
                    da_Global = (if u_Role freshUser = RoleAdmin then Some (loadDashboardGlobalStats since now db) else None)\<rparr>))"

section \<open>A user's view\<close>

definition owns :: "string \<Rightarrow> DB \<Rightarrow> string \<Rightarrow> bool" where
  "owns u db k \<longleftrightarrow> k \<in> k_ID ` set (keys_of u db)"

text \<open>
  Two databases that look alike to a user: the same account with the same tier, the same keys, and under these keys the same
  records, rollups and debug rows. Everything else may differ.
\<close>

definition same_view :: "string \<Rightarrow> DB \<Rightarrow> DB \<Rightarrow> bool" where
  "same_view u db db' \<longleftrightarrow>
     user_row u db = user_row u db' \<and> (\<forall>r. user_row u db = Some r \<longrightarrow> loadUserTierForResponse db r = loadUserTierForResponse db' r) \<and>
     keys_of u db = keys_of u db' \<and>
     filter (\<lambda>r. owns u db (ur_KeyID r)) (usage_log db) = filter (\<lambda>r. owns u db (ur_KeyID r)) (usage_log db') \<and>
     filter (\<lambda>r. owns u db (ro_KeyID r)) (hourly_rollups db) = filter (\<lambda>r. owns u db (ro_KeyID r)) (hourly_rollups db') \<and>
     filter (\<lambda>r. owns u db (ro_KeyID r)) (daily_rollups db) = filter (\<lambda>r. owns u db (ro_KeyID r)) (daily_rollups db') \<and>
     (\<forall>r \<in> set (usage_log db). owns u db (ur_KeyID r) \<longrightarrow>
        filter (\<lambda>d. dr_UsageID d = ur_ID r) (usage_debug db) = filter (\<lambda>d. dr_UsageID d = ur_ID r) (usage_debug db'))"

lemma filter_stronger:
  assumes "filter Q xs = filter Q ys" "\<And>x. P x \<Longrightarrow> Q x"
  shows "filter P xs = filter P ys"
proof -
  have "filter P zs = filter P (filter Q zs)" for zs using assms(2) by (induction zs) auto
  then show ?thesis using assms(1) by metis
qed

lemma find_as_filter: "find P xs = (case filter P xs of [] \<Rightarrow> None | x # _ \<Rightarrow> Some x)"
  by (induction xs) auto

lemma same_view_log:
  assumes "same_view u db db'" "\<And>r. P r \<Longrightarrow> owns u db (ur_KeyID r)"
  shows "filter P (usage_log db') = filter P (usage_log db)"
  by (rule filter_stronger [where Q = "\<lambda>r. owns u db (ur_KeyID r)"])
    (use assms in \<open>simp_all only: same_view_def\<close>)

lemma same_view_rollups:
  assumes "same_view u db db'" "\<And>r. P r \<Longrightarrow> owns u db (ro_KeyID r)"
  shows "filter P (hourly_rollups db') = filter P (hourly_rollups db)" "filter P (daily_rollups db') = filter P (daily_rollups db)"
  by (rule filter_stronger [where Q = "\<lambda>r. owns u db (ro_KeyID r)"];
    use assms in \<open>simp only: same_view_def\<close>)+

lemma same_view_debug:
  assumes "same_view u db db'" "r \<in> set (usage_log db)" "owns u db (ur_KeyID r)" "\<And>d. D d \<Longrightarrow> dr_UsageID d = ur_ID r"
  shows "find D (usage_debug db') = find D (usage_debug db)"
proof -
  have "filter (\<lambda>d. dr_UsageID d = ur_ID r) (usage_debug db) = filter (\<lambda>d. dr_UsageID d = ur_ID r) (usage_debug db')"
    using assms(1-3) unfolding same_view_def by blast
  then have "filter D (usage_debug db) = filter D (usage_debug db')" using assms(4) by (rule filter_stronger)
  then show ?thesis by (simp add: find_as_filter)
qed

lemma same_view_owns: "same_view u db db' \<Longrightarrow> owns u db' = owns u db"
  by (simp add: same_view_def owns_def fun_eq_iff)

text \<open>A scope within the user's keys, the same in both databases.\<close>

definition own_scope :: "string \<Rightarrow> DB \<Rightarrow> DB \<Rightarrow> usageStatsScope \<Rightarrow> bool" where
  "own_scope u db db' scope \<longleftrightarrow> usageStatsWhere scope db' = usageStatsWhere scope db \<and> (\<forall>k. usageStatsWhere scope db k \<longrightarrow> owns u db k)"

lemma own_user: "usageStatsWhere (usageStatsByUser u) d = owns u d"
  by (auto simp: fun_eq_iff owns_def keys_of_def list_ex_iff)

lemma own_scopes:
  assumes "same_view u db db'"
  shows "own_scope u db db' (usageStatsByUser u)" "owns u db k \<Longrightarrow> own_scope u db db' (usageStatsByKey k)"
  using same_view_owns [OF assms] unfolding own_scope_def own_user by (simp_all add: fun_eq_iff)

lemma own_scopeD:
  assumes "own_scope u db db' scope"
  shows "usageStatsWhere scope db' = usageStatsWhere scope db" "usageStatsWhere scope db k \<Longrightarrow> owns u db k"
  using assms unfolding own_scope_def by blast+

lemma own_rows:
  assumes "same_view u db db'" "own_scope u db db' scope"
  shows "usage_rows_in scope since db' = usage_rows_in scope since db"
    "rollups_in scope since db' (hourly_rollups db') = rollups_in scope since db (hourly_rollups db)"
    "rollups_in scope since db' (daily_rollups db') = rollups_in scope since db (daily_rollups db)"
    "filter (\<lambda>r. usageStatsWhere scope db' (ur_KeyID r)) (usage_log db') = filter (\<lambda>r. usageStatsWhere scope db (ur_KeyID r)) (usage_log db)"
    "filter (\<lambda>r. usageStatsWhere scope db' (ro_KeyID r)) (hourly_rollups db') = filter (\<lambda>r. usageStatsWhere scope db (ro_KeyID r)) (hourly_rollups db)"
    "filter (\<lambda>r. usageStatsWhere scope db' (ro_KeyID r)) (daily_rollups db') = filter (\<lambda>r. usageStatsWhere scope db (ro_KeyID r)) (daily_rollups db)"
  unfolding usage_rows_in_def rollups_in_def own_scopeD(1) [OF assms(2)]
  using own_scopeD(2) [OF assms(2)] by (auto intro!: same_view_log [OF assms(1)] same_view_rollups [OF assms(1)])

text \<open>Then every part of the statistics is the same.\<close>

lemma own_aggregates:
  assumes "same_view u db db'" "own_scope u db db' scope"
  shows "usage_aggregates scope since db' = usage_aggregates scope since db"
  unfolding usage_aggregates_def usageRollupSources_def addRawUsageAggregates_def addRollupUsageAggregates_def
  by (simp add: own_rows [OF assms])

lemma own_traffic:
  assumes "same_view u db db'" "own_scope u db db' scope"
  shows "queryUsageTrafficBuckets scope start end' db' = queryUsageTrafficBuckets scope start end' db"
    "resolveUsageTrafficRangeStart scope since end' db' = resolveUsageTrafficRangeStart scope since end' db"
proof -
  have raw: "scoped_raw scope db' = scoped_raw scope db" "scoped_rollups scope db' (hourly_rollups db') = scoped_rollups scope db (hourly_rollups db)"
    "scoped_rollups scope db' (daily_rollups db') = scoped_rollups scope db (daily_rollups db)"
    by (simp_all add: scoped_raw_def scoped_rollups_def own_rows [OF assms])
  then show "queryUsageTrafficBuckets scope start end' db' = queryUsageTrafficBuckets scope start end' db"
    by (simp add: queryUsageTrafficBuckets_def usageRollupSources_def)
  have found: "queryEarliestUsageTime scope d (map (\<lambda>r. (key r, t r)) rs) = earliest (map t (filter (\<lambda>r. usageStatsWhere scope d (key r)) rs))"
    for d and key :: "'r \<Rightarrow> string" and t rs
    by (simp add: queryEarliestUsageTime_def filter_map comp_def)
  show "resolveUsageTrafficRangeStart scope since end' db' = resolveUsageTrafficRangeStart scope since end' db"
    unfolding resolveUsageTrafficRangeStart_def usageRollupSources_def by (cases since) (simp_all add: found own_rows [OF assms])
qed

lemma own_rpm:
  assumes "same_view u db db'" "own_scope u db db' scope"
  shows "queryCurrentRPM scope now db' = queryCurrentRPM scope now db"
  unfolding queryCurrentRPM_def count_if_def own_scopeD(1) [OF assms(2)]
  using own_scopeD(2) [OF assms(2)] by (subst same_view_log [OF assms(1)]) auto

lemma own_page:
  assumes "same_view u db db'" "own_scope u db db' scope"
  shows "queryUsageRecordPage scope since cursor limit db' = queryUsageRecordPage scope since cursor limit db"
  by (simp add: queryUsageRecordPage_def own_rows [OF assms])

lemma own_debug:
  assumes "same_view u db db'" "own_scope u db db' scope"
  shows "loadUsageDebugBodySummaries db' (urp_Records (queryUsageRecordPage scope since cursor limit db)) =
    loadUsageDebugBodySummaries db (urp_Records (queryUsageRecordPage scope since cursor limit db))"
proof -
  have "find (\<lambda>d. dr_UsageID d = ur_ID x) (usage_debug db') = find (\<lambda>d. dr_UsageID d = ur_ID x) (usage_debug db)"
    if listed: "x \<in> set (urp_Records (queryUsageRecordPage scope since cursor limit db))" for x
  proof -
    obtain r where r: "r \<in> set (usage_rows_in scope since db)" "x = plain_record r"
      using listed keyset_page_subset [of timeIDDescending usage_record_key cursor limit "usage_rows_in scope since db"]
      by (auto simp: queryUsageRecordPage_def split: prod.splits)
    then have "r \<in> set (usage_log db)" "owns u db (ur_KeyID r)" using own_scopeD(2) [OF assms(2)] by (auto simp: usage_rows_in_def)
    then show ?thesis using same_view_debug [OF assms(1)] r(2) by simp
  qed
  then show ?thesis unfolding loadUsageDebugBodySummaries_def by (intro map_cong refl) simp
qed

lemma own_stats:
  assumes "same_view u db db'" "own_scope u db db' scope"
  shows "queryUsageStats scope since cursor limit now db' = queryUsageStats scope since cursor limit now db"
  unfolding queryUsageStats_def
  by (simp add: Let_def own_aggregates [OF assms] own_traffic [OF assms] own_rpm [OF assms] own_page [OF assms] own_debug [OF assms])

lemma own_detail:
  assumes "same_view u db db'"
  shows "GetUsageRecordDetail i \<lparr>rsc_UserID = u, rsc_IncludeAllUsers = False\<rparr> db' = GetUsageRecordDetail i \<lparr>rsc_UserID = u, rsc_IncludeAllUsers = False\<rparr> db"
proof -
  let ?P = "\<lambda>r. ur_ID r = i \<and> owns u db (ur_KeyID r)"
  have keys: "list_ex (\<lambda>k. k_ID k = j \<and> k_UserID k = u) (apikeys d) = owns u d j" for d j
    using own_user [of u d] by (simp add: fun_eq_iff)
  have found: "find ?P (usage_log db') = find ?P (usage_log db)"
    using same_view_log [OF assms, of ?P] by (simp add: find_as_filter)
  have "loadUsageDebugRecord db' (plain_record r) = loadUsageDebugRecord db (plain_record r)" if "find ?P (usage_log db) = Some r" for r
  proof -
    have "r \<in> set (usage_log db)" "owns u db (ur_KeyID r)" using that by (auto simp: find_Some_iff)
    from same_view_debug [OF assms this, of "\<lambda>d. dr_UsageID d = ur_ID r \<and> dr_KeyID d = ur_KeyID r \<and> dr_UsageTimestamp d = db_time (ur_Timestamp r)"]
    show ?thesis by (simp add: loadUsageDebugRecord_def)
  qed
  then show ?thesis
    unfolding GetUsageRecordDetail_def by (simp add: keys same_view_owns [OF assms] found split: option.split)
qed

lemma find_in_filter:
  "distinct (map f xs) \<Longrightarrow> find (\<lambda>x. f x = i) (filter Q xs) =
     (case find (\<lambda>x. f x = i) xs of None \<Rightarrow> None | Some x \<Rightarrow> if Q x then Some x else None)"
proof (induction xs)
  case (Cons x xs)
  have "find (\<lambda>y. f y = f x) (filter Q xs) = None"
    unfolding find_None_iff using Cons.prems by (metis (no_types, lifting) distinct.simps(2) image_eqI list.set_map list.simps(9) mem_Collect_eq set_filter)
  then show ?case using Cons by auto
qed simp

lemma own_key_view:
  assumes "db_ok db" "db_ok db'" "same_view u db db'" "ctx_User ctx = Some user" "u_ID (au_User user) = u"
  shows "own_key ctx i db' = own_key ctx i db"
proof -
  have "own_key ctx i d = (case find (\<lambda>k. k_ID k = i) (keys_of u d) of
      None \<Rightarrow> Inl (writeError 404 ''api key not found'') | Some k \<Rightarrow> Inr k)" if "db_ok d" for d
    using find_in_filter [of k_ID "apikeys d" i "\<lambda>k. k_UserID k = u"] db_ok_keys [OF that] assms(4,5)
    by (simp add: keys_ok_def own_key_def GetKeyByID_def key_row_def keys_of_def split: option.split)
  then show ?thesis using assms(1-3) by (simp add: same_view_def)
qed

lemma own_key_owned:
  assumes "own_key ctx i db = Inr k" "ctx_User ctx = Some user" "u_ID (au_User user) = u"
  shows "owns u db i"
  using assms key_row_member [of i db k] by (auto simp: own_key_Inr owns_def keys_of_def)


section \<open>Examples\<close>

text \<open>The same database with a key of the administrator, and a call made with it.\<close>

definition busier_db :: DB where
  "busier_db = demo_db\<lparr>apikeys := apikeys demo_db @ [(hd (apikeys demo_db))\<lparr>k_ID := ''k2'', k_UserID := ''root'', k_KeyHash := ''h2''\<rparr>],
     usage_log := usage_log demo_db @ [(hd (usage_log demo_db))\<lparr>ur_ID := 2, ur_KeyID := ''k2''\<rparr>], usage_seq := 2\<rparr>"

lemma busier_db_ok: "db_ok busier_db"
proof -
  have "keys_ok (apikeys busier_db)" "usage_ok (usage_log busier_db) (usage_seq busier_db)" by code_simp+
  moreover have "references_ok busier_db"
    by (simp add: references_ok_def busier_db_def demo_db_def demo_user_row_def demo_tier_row_def)
  ultimately show ?thesis using demo_db_ok by (simp add: db_ok_def) (simp add: busier_db_def)
qed

definition ann_context :: Context where
  "ann_context = emptyContext\<lparr>ctx_User := Some \<lparr>au_User = demo_user_row ''ann'' RoleUser 2, au_RPM = 10, au_SuccessLimit = 3\<rparr>\<rparr>"


end
