(* ===== verification/Json_Encode.thy ===== *)
theory Json_Encode
  imports Json_Decode
begin

text \<open>
  The part of \<open>json.Marshal\<close> the sources use: objects of strings and integers. Strings are escaped as the standard library
  does it for HTML. Shown: what is written without escapes is read back.
\<close>

definition hex_digit_char :: "int \<Rightarrow> char" where
  "hex_digit_char n = (if n < 10 then char_of (48 + n) else char_of (87 + n))"

definition escape_ascii :: "char \<Rightarrow> string" where
  "escape_ascii c =
     (if c \<in> {CHR 0x22, CHR 0x5C} then [CHR 0x5C, c]
      else if c = CHR 0x08 then [CHR 0x5C, CHR ''b''] else if c = CHR 0x0C then [CHR 0x5C, CHR ''f'']
      else if c = CHR 0x0A then [CHR 0x5C, CHR ''n''] else if c = CHR 0x0D then [CHR 0x5C, CHR ''r'']
      else if c = CHR 0x09 then [CHR 0x5C, CHR ''t'']
      else if byte c < 32 \<or> c \<in> {CHR ''<'', CHR ''>'', CHR ''&''}
        then CHR 0x5C # ''u00'' @ [hex_digit_char (byte c div 16), hex_digit_char (byte c mod 16)]
      else [c])"

text \<open>Bytes that are no UTF-8 become the replacement character; U+2028 and U+2029 are escaped.\<close>

function json_escaped :: "string \<Rightarrow> string" where
  "json_escaped s =
     (case s of
        [] \<Rightarrow> []
      | c # cs \<Rightarrow>
          if byte c < 128 then escape_ascii c @ json_escaped cs
          else if utf8_len s = 0 then CHR 0x5C # ''ufffd'' @ json_escaped cs
          else let t = take (utf8_len s) s
            in (if t = [CHR 0xE2, CHR 0x80, CHR 0xA8] then CHR 0x5C # ''u2028''
                else if t = [CHR 0xE2, CHR 0x80, CHR 0xA9] then CHR 0x5C # ''u2029'' else t) @ json_escaped (drop (utf8_len s) s))"
  by pat_completeness auto
termination by (relation "measure length") auto

declare json_escaped.simps [simp del]

lemma json_escaped_Nil: "json_escaped [] = []"
  by (rule trans [OF json_escaped.simps]) simp

lemma json_escaped_Cons: "byte c < 128 \<Longrightarrow> json_escaped (c # cs) = escape_ascii c @ json_escaped cs"
  by (rule trans [OF json_escaped.simps]) (simp only: list.case if_True)

definition quoted :: "string \<Rightarrow> string" where
  "quoted s = CHR 0x22 # json_escaped s @ [CHR 0x22]"

definition plain_char :: "char \<Rightarrow> bool" where
  "plain_char c \<longleftrightarrow> 32 \<le> byte c \<and> byte c \<le> 126 \<and> byte c \<notin> {34, 38, 60, 62, 92}"

lemma plain_char_ascii:
  assumes "plain_char c"
  shows "c \<noteq> CHR 0x22" "c \<noteq> CHR 0x5C" "\<not> byte c < 32" "between 0 0x7F c" "escape_ascii c = [c]" "byte c < 128"
proof -
  have "list_all (\<lambda>d. \<not> plain_char d) [CHR 0x22, CHR 0x5C, CHR 0x08, CHR 0x0C, CHR 0x0A, CHR 0x0D, CHR 0x09, CHR ''<'', CHR ''>'', CHR ''&'']"
    by code_simp
  then have other: "c \<notin> set [CHR 0x22, CHR 0x5C, CHR 0x08, CHR 0x0C, CHR 0x0A, CHR 0x0D, CHR 0x09, CHR ''<'', CHR ''>'', CHR ''&'']"
    using assms unfolding list_all_iff by blast
  show range: "\<not> byte c < 32" "between 0 0x7F c" "byte c < 128" using assms by (simp_all add: plain_char_def between_def)
  show "c \<noteq> CHR 0x22" "c \<noteq> CHR 0x5C" using other by simp_all
  show "escape_ascii c = [c]" using other range(1) by (simp add: escape_ascii_def)
qed

lemma utf8_len_ascii: "between 0 0x7F c \<Longrightarrow> utf8_len (c # cs) = 1"
  by (cases cs rule: utf8_len.cases) auto

lemma escaped_plain: "list_all plain_char p \<Longrightarrow> json_escaped p = p"
  by (induction p) (simp_all add: json_escaped_Nil json_escaped_Cons plain_char_ascii)

lemma quoted_plain: "list_all plain_char p \<Longrightarrow> quoted p = CHR 0x22 # p @ [CHR 0x22]"
  by (simp add: quoted_def escaped_plain)

lemma json_string_plain: "list_all plain_char p \<Longrightarrow> json_string (p @ CHR 0x22 # r) = Some (p, r)"
proof (induction p)
  case (Cons c p)
  then show ?case using plain_char_ascii [of c] utf8_len_ascii [of c "p @ CHR 0x22 # r"] by (simp add: json_string_Cons)
qed (simp add: json_string_Cons)

lemma json_string_quoted: "list_all plain_char p \<Longrightarrow> json_string (json_escaped p @ CHR 0x22 # r) = Some (p, r)"
  by (simp add: escaped_plain json_string_plain)

lemma value_quoted: "list_all plain_char p \<Longrightarrow> json_value (Suc n) d (quoted p @ r) = Some (JString p, r)"
  using json_string_quoted [of p r] by (simp add: quoted_def expect_def json_scalar_def)

text \<open>One member of an object, and the next or the end.\<close>

lemma members_quoted:
  assumes "list_all plain_char k" "list_all plain_char p"
  shows "json_members (Suc (Suc n)) d (quoted k @ CHR '':'' # quoted p @ CHR '','' # r) =
      map_option (apfst (Cons (k, JString p))) (json_members (Suc n) d r)"
    "json_members (Suc (Suc n)) d (quoted k @ CHR '':'' # quoted p @ CHR 0x7D # r) = Some ([(k, JString p)], r)"
  using json_string_quoted [OF assms(1)] value_quoted [OF assms(2), of n d]
  by (simp_all add: quoted_def expect_def)

end
