(* ===== verification/Panel_Cursor.thy ===== *)
theory Panel_Cursor
  imports Usage_Handlers Json_Encode
begin

text \<open>
  The cursors of the panel's listings as the texts a client holds (\<open>internal/panel/pagination.go\<close>): JSON in
  URL-safe base64. Formatting and parsing of RFC 3339 times are arguments. Shown: a cursor comes back as it was
  sent and opens no other collection, and a client that follows the texts of the usage listing gets every
  record.
\<close>

section \<open>Encodings\<close>

text \<open>\<open>base64.RawURLEncoding\<close>: the standard alphabet with two letters exchanged.\<close>

definition RawURLEncoding_Encode :: "string \<Rightarrow> string" where
  "RawURLEncoding_Encode s = map (\<lambda>c. if c = CHR ''+'' then CHR ''-'' else if c = CHR ''/'' then CHR ''_'' else c) (RawStdEncoding_Encode s)"

definition RawURLEncoding_Decode :: "string \<Rightarrow> string option" where
  "RawURLEncoding_Decode s =
     (if CHR ''+'' \<in> set s \<or> CHR ''/'' \<in> set s then None
      else RawStdEncoding_Decode (map (\<lambda>c. if c = CHR ''-'' then CHR ''+'' else if c = CHR ''_'' then CHR ''/'' else c) s))"

record time_lib =
  tl_Format :: "time \<Rightarrow> string"
  tl_Parse :: "string \<Rightarrow> time option"

text \<open>What the code relies on for a time: its text parses to it, and has no character JSON escapes.\<close>

definition time_text_ok :: "time_lib \<Rightarrow> time \<Rightarrow> bool" where
  "time_text_ok tm t \<longleftrightarrow> tl_Parse tm (tl_Format tm t) = Some t \<and> tl_Format tm t \<noteq> [] \<and> list_all plain_char (tl_Format tm t)"

definition cursorKindKeys :: string where "cursorKindKeys = ''keys''"
definition cursorKindUsers :: string where "cursorKindUsers = ''users''"
definition cursorKindTiers :: string where "cursorKindTiers = ''tiers''"
definition cursorKindInvites :: string where "cursorKindInvites = ''invites''"
definition cursorKindInviteRedemptions :: string where "cursorKindInviteRedemptions = ''invite_redemptions''"
definition cursorKindUsageRecords :: string where "cursorKindUsageRecords = ''usage_records''"

record panelCursor =
  pc_Kind :: string
  pc_Timestamp :: string
  pc_StringID :: string
  pc_NumericID :: int

definition dec_panelCursor :: "panelCursor decoder" where
  "dec_panelCursor = dec_struct [(''kind'', field dec_string pc_Kind pc_Kind_update),
     (''timestamp'', field dec_string pc_Timestamp pc_Timestamp_update),
     (''string_id'', field dec_string pc_StringID pc_StringID_update),
     (''numeric_id'', field dec_int pc_NumericID pc_NumericID_update)]"

text \<open>\<open>json.Marshal\<close>; empty fields but the first are omitted.\<close>

definition marshal_cursor :: "panelCursor \<Rightarrow> string" where
  "marshal_cursor c = CHR 0x7B # quoted ''kind'' @ CHR '':'' # quoted (pc_Kind c) @
     (if pc_Timestamp c = [] then [] else CHR '','' # quoted ''timestamp'' @ CHR '':'' # quoted (pc_Timestamp c)) @
     (if pc_StringID c = [] then [] else CHR '','' # quoted ''string_id'' @ CHR '':'' # quoted (pc_StringID c)) @
     (if pc_NumericID c = 0 then [] else CHR '','' # quoted ''numeric_id'' @ CHR '':'' # Itoa (pc_NumericID c)) @ [CHR 0x7D]"

definition decodePanelCursor :: "string \<Rightarrow> string \<Rightarrow> string + panelCursor option" where
  "decodePanelCursor rawCursor expectedKind =
     (if TrimSpace rawCursor = [] then Inr None
      else case RawURLEncoding_Decode (TrimSpace rawCursor) of
          None \<Rightarrow> Inl ''invalid cursor encoding''
        | Some encodedPayload \<Rightarrow>
            (case Unmarshal dec_panelCursor \<lparr>pc_Kind = [], pc_Timestamp = [], pc_StringID = [], pc_NumericID = 0\<rparr> encodedPayload of
               None \<Rightarrow> Inl ''invalid cursor payload''
             | Some cursor \<Rightarrow>
                 if pc_Kind cursor \<noteq> expectedKind then Inl ''cursor does not match this collection'' else Inr (Some cursor)))"

definition encodePanelCursor :: "panelCursor \<Rightarrow> string" where
  "encodePanelCursor cursor = RawURLEncoding_Encode (marshal_cursor cursor)"

definition parseTimeIDCursor :: "time_lib \<Rightarrow> string \<Rightarrow> string \<Rightarrow> string + (time \<times> string) option" where
  "parseTimeIDCursor tm rawCursor kind =
     (case decodePanelCursor rawCursor kind of
        Inl e \<Rightarrow> Inl e
      | Inr None \<Rightarrow> Inr None
      | Inr (Some cursor) \<Rightarrow>
          if pc_Timestamp cursor = [] \<or> pc_StringID cursor = [] then Inl ''cursor is missing its keyset boundary''
          else (case tl_Parse tm (pc_Timestamp cursor) of
              None \<Rightarrow> Inl ''cursor timestamp is invalid''
            | Some t \<Rightarrow> Inr (Some (t, pc_StringID cursor))))"

definition encodeTimeIDCursor :: "time_lib \<Rightarrow> string \<Rightarrow> (time \<times> string) option \<Rightarrow> string" where
  "encodeTimeIDCursor tm kind cursor =
     (case cursor of
        None \<Rightarrow> []
      | Some (t, i) \<Rightarrow> encodePanelCursor \<lparr>pc_Kind = kind, pc_Timestamp = tl_Format tm t, pc_StringID = i, pc_NumericID = 0\<rparr>)"

definition parseTierCursor :: "time_lib \<Rightarrow> string \<Rightarrow> string + (time \<times> string) option" where
  "parseTierCursor tm rawCursor =
     (case decodePanelCursor rawCursor cursorKindTiers of
        Inl e \<Rightarrow> Inl e
      | Inr None \<Rightarrow> Inr None
      | Inr (Some cursor) \<Rightarrow>
          if pc_Timestamp cursor = [] \<or> pc_StringID cursor = [] then Inl ''cursor is missing its keyset boundary''
          else (case tl_Parse tm (pc_Timestamp cursor) of
              None \<Rightarrow> Inl ''cursor timestamp is invalid''
            | Some createdAt \<Rightarrow> Inr (Some (createdAt, pc_StringID cursor))))"

definition encodeTierCursor :: "time_lib \<Rightarrow> (time \<times> string) option \<Rightarrow> string" where
  "encodeTierCursor tm cursor =
     (case cursor of
        None \<Rightarrow> []
      | Some (t, i) \<Rightarrow> encodePanelCursor \<lparr>pc_Kind = cursorKindTiers, pc_Timestamp = tl_Format tm t, pc_StringID = i, pc_NumericID = 0\<rparr>)"

definition parseUsageRecordCursor :: "time_lib \<Rightarrow> string \<Rightarrow> string + (time \<times> int) option" where
  "parseUsageRecordCursor tm rawCursor =
     (case decodePanelCursor rawCursor cursorKindUsageRecords of
        Inl e \<Rightarrow> Inl e
      | Inr None \<Rightarrow> Inr None
      | Inr (Some cursor) \<Rightarrow>
          if pc_Timestamp cursor = [] \<or> pc_NumericID cursor \<le> 0 then Inl ''cursor is missing its keyset boundary''
          else (case tl_Parse tm (pc_Timestamp cursor) of
              None \<Rightarrow> Inl ''cursor timestamp is invalid''
            | Some t \<Rightarrow> Inr (Some (t, pc_NumericID cursor))))"

definition encodeUsageRecordCursor :: "time_lib \<Rightarrow> (time \<times> int) option \<Rightarrow> string" where
  "encodeUsageRecordCursor tm cursor =
     (case cursor of
        None \<Rightarrow> []
      | Some (t, i) \<Rightarrow> encodePanelCursor \<lparr>pc_Kind = cursorKindUsageRecords, pc_Timestamp = tl_Format tm t, pc_StringID = [], pc_NumericID = i\<rparr>)"

section \<open>A cursor comes back\<close>

lemma base64_letters:
  assumes "c \<in> set (RawStdEncoding_Encode s)"
  shows "c \<notin> {CHR ''-'', CHR ''_''} \<and> c \<notin> hd ` set space_encodings \<and> c \<notin> last ` set space_encodings"
proof -
  obtain n where n: "c = b64_char n" "0 \<le> n" "n < 64"
    using assms b64_sextets_range [of s] by (auto simp: RawStdEncoding_Encode_def)
  have "list_all (\<lambda>n. b64_char n \<notin> {CHR ''-'', CHR ''_''} \<and> b64_char n \<notin> hd ` set space_encodings \<and> b64_char n \<notin> last ` set space_encodings)
      (map int [0..<64])" by code_simp
  moreover have "n \<in> set (map int [0..<64])" using n(2,3) by (auto simp: image_iff intro: bexI [of _ "nat n"])
  ultimately show ?thesis unfolding n(1) list_all_iff by blast
qed

lemma raw_url_roundtrip: "RawURLEncoding_Decode (RawURLEncoding_Encode s) = Some s"
proof -
  let ?to = "\<lambda>c. if c = CHR ''+'' then CHR ''-'' else if c = CHR ''/'' then CHR ''_'' else c"
  let ?ofurl = "\<lambda>c. if c = CHR ''-'' then CHR ''+'' else if c = CHR ''_'' then CHR ''/'' else c"
  have "map ?ofurl (map ?to (RawStdEncoding_Encode s)) = RawStdEncoding_Encode s"
    using base64_letters [of _ s] by (auto simp: map_idI)
  moreover have "CHR ''+'' \<notin> set (RawURLEncoding_Encode s)" "CHR ''/'' \<notin> set (RawURLEncoding_Encode s)"
    by (auto simp: RawURLEncoding_Encode_def split: if_splits)
  ultimately show ?thesis by (simp add: RawURLEncoding_Decode_def RawURLEncoding_Encode_def base64_roundtrip del: map_map)
qed

lemma raw_url_trimmed: "s \<noteq> [] \<Longrightarrow> TrimSpace (RawURLEncoding_Encode s) = RawURLEncoding_Encode s \<and> RawURLEncoding_Encode s \<noteq> []"
proof -
  assume s: "s \<noteq> []"
  have other: "CHR ''-'' \<notin> hd ` set space_encodings" "CHR ''_'' \<notin> hd ` set space_encodings"
    "CHR ''-'' \<notin> last ` set space_encodings" "CHR ''_'' \<notin> last ` set space_encodings" by code_simp+
  have ne: "RawURLEncoding_Encode s \<noteq> []" using s by (simp add: RawURLEncoding_Encode_def base64_nonempty)
  have "c \<notin> hd ` set space_encodings \<and> c \<notin> last ` set space_encodings" if "c \<in> set (RawURLEncoding_Encode s)" for c
    using that base64_letters [of _ s] other by (auto simp: RawURLEncoding_Encode_def split: if_splits)
  then show ?thesis using ne TrimSpace_id [OF ne] by simp
qed

lemma decimal_head: "0 < n \<Longrightarrow> hd (decimal n) \<noteq> CHR ''0''"
proof (induction n rule: decimal.induct)
  case (1 n)
  show ?case
  proof (cases "n < 10")
    case True
    have "digit_val (CHR ''0'') = 0" by code_simp
    then have "char_of (48 + int n) \<noteq> CHR ''0''" using digit_char_props(2) [OF True] 1(2) by (metis less_irrefl)
    then show ?thesis using True by (simp add: decimal.simps [of n])
  next
    case False
    then show ?thesis using 1(1) decimal_props [of "n div 10"] by (simp add: decimal.simps [of n])
  qed
qed

lemma digits_decimal: "list_all is_digit d \<Longrightarrow> digits (d @ CHR 0x7D # r) = (d, CHR 0x7D # r)"
  by (induction d) (auto simp: is_digit_def between_def Go_Json.byte_def Let_def)

lemma number_decimal:
  assumes "0 < n"
  shows "json_number (decimal n @ CHR 0x7D # r) = Some (decimal n, CHR 0x7D # r)"
proof -
  obtain c d where c: "decimal n = c # d" "is_digit c" using decimal_first by blast
  have "c \<noteq> CHR ''0''" "c \<noteq> CHR ''-''" using decimal_head [OF assms] c by (auto simp: is_digit_def)
  moreover have "digits (c # d @ CHR 0x7D # r) = (c # d, CHR 0x7D # r)" using digits_decimal [of "decimal n" r] decimal_props [of n] c by simp
  ultimately show ?thesis unfolding c(1)
    by (simp add: json_number_def json_integer_def json_fraction_def json_exponent_def del: digits.simps)
qed

lemma value_decimal:
  assumes "0 < n"
  shows "json_value (Suc k) depth (decimal n @ CHR 0x7D # r) = Some (JNumber (decimal n), CHR 0x7D # r)"
proof -
  obtain c d where c: "decimal n = c # d" "is_digit c" using decimal_first by blast
  have "list_all (\<lambda>x. c \<noteq> x \<and> x \<noteq> c) [CHR 0x7B, CHR ''['', CHR ''n'', CHR ''t'', CHR ''f'', CHR 0x22, CHR '' '', CHR 0x09, CHR 0x0D, CHR 0x0A]"
    using c(2) by (auto simp: is_digit_def)
  then show ?thesis using number_decimal [OF assms, of r] unfolding c(1) by (simp add: expect_def json_scalar_def)
qed

lemma field_names: "list_all plain_char ''kind''" "list_all plain_char ''timestamp''" "list_all plain_char ''string_id''" "list_all plain_char ''numeric_id''"
  by code_simp+

lemma member_decimal:
  assumes "0 < n"
  shows "json_members (Suc (Suc k)) depth (quoted ''numeric_id'' @ CHR '':'' # decimal n @ CHR 0x7D # r) = Some ([(''numeric_id'', JNumber (decimal n))], r)"
  using json_string_quoted [OF field_names(4)] value_decimal [OF assms, of k depth]
  by (simp add: quoted_def expect_def)

lemma names_apart:
  "names ''kind'' ''kind''" "names ''kind'' ''timestamp'' = False" "names ''kind'' ''string_id'' = False" "names ''kind'' ''numeric_id'' = False"
  "names ''timestamp'' ''timestamp''" "names ''timestamp'' ''string_id'' = False" "names ''timestamp'' ''numeric_id'' = False"
  "names ''string_id'' ''string_id''" "names ''string_id'' ''numeric_id'' = False" "names ''numeric_id'' ''numeric_id''"
  by code_simp+

text \<open>Both shapes of cursor the code makes.\<close>

lemma unmarshal_cursor:
  assumes plain: "list_all plain_char kind" "list_all plain_char stamp" "list_all plain_char i" and "stamp \<noteq> []" "i \<noteq> []"
  shows "Unmarshal dec_panelCursor z (marshal_cursor \<lparr>pc_Kind = kind, pc_Timestamp = stamp, pc_StringID = i, pc_NumericID = 0\<rparr>) =
    Some (z\<lparr>pc_Kind := kind, pc_Timestamp := stamp, pc_StringID := i\<rparr>)"
    (is "Unmarshal _ _ ?text = _")
proof -
  obtain k where fuel: "2 * length ?text + 1 = Suc (Suc (Suc (Suc (Suc k))))"
  proof
    show "2 * length ?text + 1 = Suc (Suc (Suc (Suc (Suc (2 * length ?text - 4)))))"
      by (simp add: marshal_cursor_def quoted_def)
  qed
  have start: "expect (CHR 0x7B) (CHR 0x7B # r) = Some r" "expect (CHR 0x7D) (quoted q @ r) = None" for q r
    by (simp_all add: expect_def quoted_def)
  have "json_value (Suc (Suc (Suc (Suc (Suc k))))) maxNestingDepth ?text =
      Some (JObject [(''kind'', JString kind), (''timestamp'', JString stamp), (''string_id'', JString i)], [])"
    using assms(4,5) unfolding json_value.simps
    by (simp add: marshal_cursor_def start members_quoted [OF field_names(1) plain(1)] members_quoted [OF field_names(2) plain(2)]
        members_quoted [OF field_names(3) plain(3)] maxNestingDepth_def del: json_members.simps)
  then show ?thesis
    unfolding Unmarshal_def json_unmarshal_def fuel
    by (simp add: dec_panelCursor_def dec_struct_def names_apart field_def dec_string_def del: json_value.simps)
qed

lemma unmarshal_numeric_cursor:
  assumes plain: "list_all plain_char kind" "list_all plain_char stamp" and "stamp \<noteq> []" and n: "0 < n" "n < 2 ^ 63"
  shows "Unmarshal dec_panelCursor z (marshal_cursor \<lparr>pc_Kind = kind, pc_Timestamp = stamp, pc_StringID = [], pc_NumericID = n\<rparr>) =
    Some (z\<lparr>pc_Kind := kind, pc_Timestamp := stamp, pc_NumericID := n\<rparr>)"
    (is "Unmarshal _ _ ?text = _")
proof -
  obtain k where fuel: "2 * length ?text + 1 = Suc (Suc (Suc (Suc (Suc k))))"
  proof
    show "2 * length ?text + 1 = Suc (Suc (Suc (Suc (Suc (2 * length ?text - 4)))))"
      by (simp add: marshal_cursor_def quoted_def)
  qed
  have start: "expect (CHR 0x7B) (CHR 0x7B # r) = Some r" "expect (CHR 0x7D) (quoted q @ r) = None" for q r
    by (simp_all add: expect_def quoted_def)
  have itoa: "Itoa n = decimal (nat n)" "ParseInt (decimal (nat n)) = Some n"
    using n ParseInt_Itoa [of n] by (simp_all add: Itoa_def)
  have "json_value (Suc (Suc (Suc (Suc (Suc k))))) maxNestingDepth ?text =
      Some (JObject [(''kind'', JString kind), (''timestamp'', JString stamp), (''numeric_id'', JNumber (decimal (nat n)))], [])"
    using assms(3) n unfolding json_value.simps
    by (simp add: marshal_cursor_def itoa(1) start members_quoted [OF field_names(1) plain(1)] members_quoted [OF field_names(2) plain(2)]
        member_decimal maxNestingDepth_def del: json_members.simps)
  then show ?thesis
    unfolding Unmarshal_def json_unmarshal_def fuel
    by (simp add: dec_panelCursor_def dec_struct_def names_apart field_def dec_string_def dec_int_def itoa(2) del: json_value.simps)
qed

lemma decode_encoded:
  assumes "Unmarshal dec_panelCursor \<lparr>pc_Kind = [], pc_Timestamp = [], pc_StringID = [], pc_NumericID = 0\<rparr> (marshal_cursor c) = Some c"
  shows "decodePanelCursor (encodePanelCursor c) kind =
    (if pc_Kind c = kind then Inr (Some c) else Inl ''cursor does not match this collection'')"
  using raw_url_trimmed [of "marshal_cursor c"] raw_url_roundtrip [of "marshal_cursor c"] assms
  by (simp add: decodePanelCursor_def encodePanelCursor_def marshal_cursor_def)

lemma time_id_cursor:
  assumes "time_text_ok tm t" "list_all plain_char kind" "list_all plain_char i" "i \<noteq> []"
  shows "decodePanelCursor (encodeTimeIDCursor tm kind (Some (t, i))) kind' =
    (if kind = kind' then Inr (Some \<lparr>pc_Kind = kind, pc_Timestamp = tl_Format tm t, pc_StringID = i, pc_NumericID = 0\<rparr>)
     else Inl ''cursor does not match this collection'')"
  using assms unfolding encodeTimeIDCursor_def option.case prod.case time_text_ok_def
  by (subst decode_encoded) (simp_all add: unmarshal_cursor)

lemma usage_cursor:
  assumes "time_text_ok tm t" "0 < n" "n < 2 ^ 63"
  shows "parseUsageRecordCursor tm (encodeUsageRecordCursor tm (Some (t, n))) = Inr (Some (t, n))"
proof -
  have "list_all plain_char cursorKindUsageRecords" by code_simp
  then show ?thesis
    using assms unfolding parseUsageRecordCursor_def encodeUsageRecordCursor_def option.case prod.case time_text_ok_def
    by (subst decode_encoded) (simp_all add: unmarshal_numeric_cursor)
qed

lemma no_cursor: "decodePanelCursor [] kind = Inr None"
  by (simp add: decodePanelCursor_def)


section \<open>Following the texts\<close>

text \<open>A client that walks the usage listing: it sends the cursor text of the last answer, none at first.\<close>

definition usage_text_page ::
  "time_lib \<Rightarrow> Context \<Rightarrow> time option option \<Rightarrow> string \<Rightarrow> DB \<Rightarrow> string option \<Rightarrow> UsageRecordDTO list \<times> bool \<times> string option" where
  "usage_text_page tm ctx since queryLimit db raw =
     (case userUsageRecords ctx since queryLimit
          (map_sum (writeError 400) id (parseUsageRecordCursor tm (case raw of None \<Rightarrow> [] | Some s \<Rightarrow> s))) db of
        Failure e \<Rightarrow> ([], False, None)
      | Answer code r \<Rightarrow> (urs_Records r, urs_HasMore r, Some (encodeUsageRecordCursor tm (urs_NextCursor r))))"

lemma walk_recode:
  assumes "\<And>c. valid c \<Longrightarrow> page' (enc c) = (case page c of (items, m, n) \<Rightarrow> (map f items, m, next n))"
    and "\<And>c items n. valid c \<Longrightarrow> page c = (items, True, n) \<Longrightarrow> valid n \<and> next n = enc n" and "valid c"
  shows "walk fuel page' (enc c) = map (map f) (walk fuel page c)"
  using assms(3)
proof (induction fuel arbitrary: c)
  case (Suc fuel)
  obtain items m n where p: "page c = (items, m, n)" by (cases "page c")
  then show ?case using assms(1) [OF Suc.prems] assms(2) [OF Suc.prems] Suc.IH [of n] by (cases m) auto
qed simp

lemma next_cursor_row:
  assumes "keyset_page d key cursor limit rows = (items, True, n)"
  shows "\<exists>r \<in> set rows. n = Some (key r)"
proof -
  define k where "k = normalizePanelPageLimit limit"
  define fetched where "fetched = keyset_query d key cursor (keysetFetchLimit k) rows"
  have k: "1 \<le> k" using page_limit_range [of limit] by (simp add: k_def)
  have page: "finalizeTimeIDPage fetched k key = (items, True, n)" using assms by (simp add: keyset_page_def Let_def fetched_def k_def)
  then have more: "k < int (length fetched)" "n = Some (key (last (take (nat k) fetched)))"
    by (auto simp: finalizeTimeIDPage_def Let_def split: if_splits)
  then have "take (nat k) fetched \<noteq> []" using k by (cases fetched) auto
  then have "last (take (nat k) fetched) \<in> set fetched" by (metis in_set_takeD last_in_set)
  also have "set fetched \<subseteq> set rows" unfolding fetched_def keyset_query_def rows_after_def
    by (auto dest!: in_set_takeD split: option.splits)
  finally show ?thesis using more(2) by blast
qed

definition cursor_text :: "time_lib \<Rightarrow> (time \<times> int) option \<Rightarrow> string option" where
  "cursor_text tm c = (case c of None \<Rightarrow> None | Some k \<Rightarrow> Some (encodeUsageRecordCursor tm (Some k)))"

definition sendable :: "time_lib \<Rightarrow> (time \<times> int) option \<Rightarrow> bool" where
  "sendable tm c \<longleftrightarrow> (\<forall>t i. c = Some (t, i) \<longrightarrow> time_text_ok tm t \<and> 0 < i \<and> i < 2 ^ 63)"

lemma text_page_eq:
  assumes "ctx_User ctx = Some user" "u_ID (au_User user) = u" "TrimSpace u = u" "u \<noteq> []" "parsePanelPageLimit queryLimit = Inr limit"
    and "sendable tm c"
  shows "usage_text_page tm ctx (Some since) queryLimit db (cursor_text tm c) =
    (case page_at timeIDDescending usage_record_key limit (usage_rows_in (usageStatsByUser u) since db) c of
       (rs, m, n) \<Rightarrow> (map (\<lambda>r. toUsageRecordResponse (listed_row db r)) rs, m, Some (encodeUsageRecordCursor tm n)))"
proof -
  let ?sc = "\<lparr>rls_KeyID = [], rls_UserID = u, rls_IncludeAllUsers = False\<rparr>"
  have "parseUsageRecordCursor tm (case cursor_text tm c of None \<Rightarrow> [] | Some s \<Rightarrow> s) = Inr c"
    using assms(6) usage_cursor by (auto simp: cursor_text_def sendable_def parseUsageRecordCursor_def no_cursor split: option.split)
  then have page: "usage_text_page tm ctx (Some since) queryLimit db (cursor_text tm c) =
      (case ListUsageRecordsPage ?sc since c limit db of
         Inl _ \<Rightarrow> ([], False, None)
       | Inr p \<Rightarrow> (map toUsageRecordResponse (urp_Records p), urp_HasMore p, Some (encodeUsageRecordCursor tm (urp_NextCursor p))))"
    using assms(1,2,5) by (simp add: usage_text_page_def userUsageRecords_def parseUsagePageQuery_def list_records_def
        toUsageRecordsResponse_def split: sum.split)
  have scope: "list_scope ?sc = Some (usageStatsByUser u)" using assms(3,4) by (simp add: list_scope_def)
  obtain p where p: "ListUsageRecordsPage ?sc since c limit db = Inr p" using scope by (simp add: ListUsageRecordsPage_def Let_def)
  then show ?thesis using listed_page_eq [OF scope, of since limit db c] unfolding page
    by (auto simp: listed_page_def split: prod.splits)
qed

text \<open>
  The usage listing is complete over HTTP (C40). A client of the panel that follows the cursor texts of its usage records, with any limit the
  handler accepts, gets every record of the user since the given time exactly once, newest first, in pages of at most a hundred.
\<close>

theorem usage_listing_complete:
  assumes "db_ok db" "ctx_User ctx = Some user" "u_ID (au_User user) = u" "TrimSpace u = u" "u \<noteq> []"
    and "parsePanelPageLimit queryLimit = Inr limit" "length (usage_log db) < fuel"
    and "\<forall>r \<in> set (usage_log db). time_text_ok tm (ur_Timestamp r)" "usage_seq db < 2 ^ 63"
  shows "concat (walk fuel (usage_text_page tm ctx (Some since) queryLimit db) None) =
      map (\<lambda>r. toUsageRecordResponse (listed_row db r)) (ordered_rows timeIDDescending usage_record_key
        (filter (\<lambda>r. usageStatsWhere (usageStatsByUser u) db (ur_KeyID r) \<and> not_before since (ur_Timestamp r)) (usage_log db))) \<and>
    (\<forall>p \<in> set (walk fuel (usage_text_page tm ctx (Some since) queryLimit db) None). length p \<le> 100)"
proof -
  let ?rows = "usage_rows_in (usageStatsByUser u) since db"
  let ?page = "page_at timeIDDescending usage_record_key limit ?rows"
  let ?f = "\<lambda>r. toUsageRecordResponse (listed_row db r)"
  have rows: "set ?rows \<subseteq> set (usage_log db)" "length ?rows < fuel"
    using assms(7) by (auto simp: usage_rows_in_def order_le_less_trans [OF length_filter_le])
  have "walk fuel (usage_text_page tm ctx (Some since) queryLimit db) (cursor_text tm None) = map (map ?f) (walk fuel ?page None)"
  proof (rule walk_recode [where valid = "sendable tm" and ?next = "\<lambda>n. Some (encodeUsageRecordCursor tm n)"])
    show "usage_text_page tm ctx (Some since) queryLimit db (cursor_text tm c) =
        (case ?page c of (items, m, n) \<Rightarrow> (map ?f items, m, Some (encodeUsageRecordCursor tm n)))" if "sendable tm c" for c
      by (rule text_page_eq [OF assms(2-6) that])
    show "sendable tm n \<and> Some (encodeUsageRecordCursor tm n) = cursor_text tm n" if more: "?page c = (items, True, n)" for c items n
    proof -
      obtain r where r: "r \<in> set (usage_log db)" "n = Some (usage_record_key r)"
        using next_cursor_row [OF more [unfolded page_at_def]] rows(1) by blast
      have "0 < ur_ID r" "ur_ID r < 2 ^ 63" using assms(1,9) r(1) by (auto simp: db_ok_def usage_ok_def)
      then show ?thesis using r assms(8) by (simp add: sendable_def usage_record_key_def cursor_text_def)
    qed
  qed (simp add: sendable_def)
  then have pages: "walk fuel (usage_text_page tm ctx (Some since) queryLimit db) None = map (map ?f) (walk fuel ?page None)"
    by (simp add: cursor_text_def)
  show ?thesis using usage_listing.walk_complete [OF assms(1) rows(2), of limit] unfolding pages
    by (auto simp: usage_rows_in_def simp flip: map_concat)
qed

section \<open>Examples\<close>

text \<open>A stand-in for the time package: seconds as a number.\<close>

definition demo_times :: time_lib where
  "demo_times = \<lparr>tl_Format = Itoa, tl_Parse = ParseInt\<rparr>"

lemma demo_time_text: "time_text_ok demo_times 0"
  unfolding time_text_ok_def by code_simp


theorem usage_listing_complete_witness:
  "map ud_ID (concat (walk 2 (usage_text_page demo_times ann_context (Some None) ''1'' demo_db) None)) = [1]"
proof -
  have user: "ctx_User ann_context = Some \<lparr>au_User = demo_user_row ''ann'' RoleUser 2, au_RPM = 10, au_SuccessLimit = 3\<rparr>"
    by (simp add: ann_context_def)
  have pre: "TrimSpace ''ann'' = ''ann''" "''ann'' \<noteq> []" "parsePanelPageLimit ''1'' = Inr 1" by code_simp+
  have log: "length (usage_log demo_db) < 2" "\<forall>r \<in> set (usage_log demo_db). time_text_ok demo_times (ur_Timestamp r)" "usage_seq demo_db < 2 ^ 63"
    using demo_time_text by (simp_all add: demo_db_def)
  have "map (\<lambda>r. ud_ID (toUsageRecordResponse (listed_row demo_db r))) (ordered_rows timeIDDescending usage_record_key
      (filter (\<lambda>r. usageStatsWhere (usageStatsByUser ''ann'') demo_db (ur_KeyID r) \<and> not_before None (ur_Timestamp r)) (usage_log demo_db))) = [1]"
    by code_simp
  then show ?thesis
    using usage_listing_complete [OF demo_db_ok user _ pre log, of None] by (simp add: demo_user_row_def comp_def)
qed

end
