(* ===== verification/Debug_Capture.thy ===== *)
theory Debug_Capture
  imports Store_Usage
begin

text \<open>
  The debug capture of a tool call, \<open>internal/usage/debug_capture.go\<close>, with the headers and the usage record
  that \<open>internal/usage/middleware.go\<close> takes from it. Bodies are copied into temporary files while they are forwarded; the files
  are a map from paths to contents, and what the operating system answers to a creation or a write is an
  argument. Shown: up to the debug row of the store, the sample kept is exactly the start of what passed, or
  nothing if the disk failed, and no file is left behind.
\<close>

section \<open>Spool files\<close>

type_synonym file_store = "string \<Rightarrow> string option"

record debugBodySpool =
  sp_path :: string
  sp_bytesCount :: int
  sp_observedBytes :: int
  sp_truncated :: bool
  sp_writeErr :: "string option"
  sp_closed :: bool

definition maxDebugCapturedBodyBytes :: int where "maxDebugCapturedBodyBytes = 1048576"

text \<open>\<open>CreateTemp\<close> fails, \<open>Chmod\<close> fails on the new file, or both succeed; the temporary file has a new name.\<close>

datatype spool_creation = CreateTempFails string | ChmodFails string string | SpoolCreated string

fun createDebugBodySpool :: "spool_creation \<Rightarrow> file_store \<Rightarrow> (string + debugBodySpool) \<times> file_store" where
  "createDebugBodySpool (CreateTempFails e) files = (Inl e, files)"
| "createDebugBodySpool (ChmodFails path e) files = (Inl e, files(path := None))"
| "createDebugBodySpool (SpoolCreated path) files =
     (Inr \<lparr>sp_path = path, sp_bytesCount = 0, sp_observedBytes = 0, sp_truncated = False, sp_writeErr = None, sp_closed = False\<rparr>,
      files(path := Some []))"

text \<open>
  The write loop. The first argument is what \<open>file.Write\<close> answers, call by call: how many of the
  remaining bytes it took, and its error; when it has no more to say, a call takes all. A closed file takes nothing.
\<close>

definition take_bytes :: "nat \<Rightarrow> string \<Rightarrow> debugBodySpool \<times> file_store \<Rightarrow> debugBodySpool \<times> file_store" where
  "take_bytes n body st =
     (case st of (s, files) \<Rightarrow> (s\<lparr>sp_bytesCount := sp_bytesCount s + int n\<rparr>,
        files(sp_path s := map_option (\<lambda>c. c @ take n body) (files (sp_path s)))))"

fun write_file :: "(nat \<times> string option) list \<Rightarrow> string \<Rightarrow> debugBodySpool \<times> file_store \<Rightarrow> debugBodySpool \<times> file_store" where
  "write_file [] body st = (if body = [] then st else take_bytes (length body) body st)"
| "write_file ((k, err) # outs) body st =
     (if body = [] then st
      else case take_bytes (min k (length body)) body st of (s, files) \<Rightarrow>
        (case err of
           Some e \<Rightarrow> (s\<lparr>sp_writeErr := Some e\<rparr>, files)
         | None \<Rightarrow> if k = 0 then (s\<lparr>sp_writeErr := Some ''short write''\<rparr>, files) else write_file outs (drop k body) (s, files)))"

definition spool_write :: "(nat \<times> string option) list \<Rightarrow> string \<Rightarrow> debugBodySpool \<times> file_store \<Rightarrow> debugBodySpool \<times> file_store" where
  "spool_write outs body st =
     (case st of (s, files) \<Rightarrow>
        if body = [] then st
        else let s = s\<lparr>sp_observedBytes := sp_observedBytes s + int (length body)\<rparr>
          in if sp_writeErr s \<noteq> None then (s, files)
             else let remainingCaptureBytes = maxDebugCapturedBodyBytes - sp_bytesCount s
               in if remainingCaptureBytes \<le> 0 then (s\<lparr>sp_truncated := True\<rparr>, files)
                  else if sp_closed s then (s\<lparr>sp_truncated := (sp_truncated s \<or> remainingCaptureBytes < int (length body)),
                      sp_writeErr := Some ''file already closed''\<rparr>, files)
                  else if remainingCaptureBytes < int (length body)
                    then write_file outs (take (nat remainingCaptureBytes) body) (s\<lparr>sp_truncated := True\<rparr>, files)
                    else write_file outs body (s, files))"

definition spool_close :: "string option \<Rightarrow> debugBodySpool \<Rightarrow> debugBodySpool" where
  "spool_close closeErr s =
     (if sp_closed s then s
      else s\<lparr>sp_closed := True, sp_writeErr := (if sp_writeErr s = None then closeErr else sp_writeErr s)\<rparr>)"

section \<open>Sessions\<close>

record debugCaptureSession =
  dc_requestSpool :: "debugBodySpool option"
  dc_responseSpool :: "debugBodySpool option"
  dc_requestReader :: bool
  dc_requestCaptureErr :: "string option"
  dc_responseCaptureErr :: "string option"
  dc_finalized :: bool

fun spool_of :: "string + debugBodySpool \<Rightarrow> debugBodySpool option" where
  "spool_of (Inl e) = None" | "spool_of (Inr s) = Some s"

fun error_of :: "string + debugBodySpool \<Rightarrow> string option" where
  "error_of (Inl e) = Some e" | "error_of (Inr s) = None"

definition startDebugCapture ::
  "bool \<Rightarrow> spool_creation \<Rightarrow> spool_creation \<Rightarrow> file_store \<Rightarrow> debugCaptureSession \<times> file_store" where
  "startDebugCapture hasBody creation1 creation2 files =
     (case createDebugBodySpool creation1 files of (request, files1) \<Rightarrow>
        case createDebugBodySpool creation2 files1 of (response, files2) \<Rightarrow>
          (\<lparr>dc_requestSpool = spool_of request, dc_responseSpool = spool_of response,
            dc_requestReader = (hasBody \<and> spool_of request \<noteq> None),
            dc_requestCaptureErr = error_of request, dc_responseCaptureErr = error_of response, dc_finalized = False\<rparr>, files2))"

text \<open>A read of the request body hands on what the body gave and copies it; a write of the response is copied before it is forwarded.\<close>

definition write_spool ::
  "(nat \<times> string option) list \<Rightarrow> string \<Rightarrow> debugBodySpool option \<times> file_store \<Rightarrow> debugBodySpool option \<times> file_store" where
  "write_spool outs body st =
     (case st of (None, files) \<Rightarrow> (None, files) | (Some s, files) \<Rightarrow> apfst Some (spool_write outs body (s, files)))"

datatype capture_event = BodyRead "(nat \<times> string option) list" string | ResponseWrite "(nat \<times> string option) list" string

fun capture_step :: "capture_event \<Rightarrow> debugCaptureSession \<times> file_store \<Rightarrow> debugCaptureSession \<times> file_store" where
  "capture_step (BodyRead outs bytes) (c, files) =
     (if dc_requestReader c
      then (case write_spool outs bytes (dc_requestSpool c, files) of (s, files') \<Rightarrow> (c\<lparr>dc_requestSpool := s\<rparr>, files'))
      else (c, files))"
| "capture_step (ResponseWrite outs bytes) (c, files) =
     (case write_spool outs bytes (dc_responseSpool c, files) of (s, files') \<Rightarrow> (c\<lparr>dc_responseSpool := s\<rparr>, files'))"

definition capture_finalize :: "string option \<Rightarrow> string option \<Rightarrow> string option \<Rightarrow> debugCaptureSession \<Rightarrow> debugCaptureSession" where
  "capture_finalize sourceErr closeErr1 closeErr2 c =
     (if dc_finalized c then c
      else c\<lparr>dc_finalized := True, dc_requestReader := False,
        dc_requestSpool := map_option (\<lambda>s. spool_close closeErr1
          (if dc_requestReader c \<and> sp_writeErr s = None then s\<lparr>sp_writeErr := sourceErr\<rparr> else s)) (dc_requestSpool c),
        dc_responseSpool := map_option (spool_close closeErr2) (dc_responseSpool c)\<rparr>)"

text \<open>\<open>cleanup\<close> of a spool and of the session: what is removed does not depend on the errors of closing.\<close>

definition spool_cleanup :: "debugBodySpool option \<Rightarrow> file_store \<Rightarrow> file_store" where
  "spool_cleanup s files = (case s of None \<Rightarrow> files | Some s \<Rightarrow> if sp_path s \<noteq> [] then files(sp_path s := None) else files)"

definition capture_cleanup :: "debugCaptureSession \<Rightarrow> file_store \<Rightarrow> file_store" where
  "capture_cleanup c files = spool_cleanup (dc_responseSpool c) (spool_cleanup (dc_requestSpool c) files)"

definition spoolPath :: "debugBodySpool option \<Rightarrow> string" where
  "spoolPath s = (case s of None \<Rightarrow> [] | Some s \<Rightarrow> if sp_writeErr s \<noteq> None then [] else sp_path s)"

definition requestPath :: "debugCaptureSession \<Rightarrow> string" where "requestPath c = spoolPath (dc_requestSpool c)"
definition responsePath :: "debugCaptureSession \<Rightarrow> string" where "responsePath c = spoolPath (dc_responseSpool c)"
definition requestBytes :: "debugCaptureSession \<Rightarrow> int" where
  "requestBytes c = (case dc_requestSpool c of None \<Rightarrow> 0 | Some s \<Rightarrow> sp_bytesCount s)"
definition responseBytes :: "debugCaptureSession \<Rightarrow> int" where
  "responseBytes c = (case dc_responseSpool c of None \<Rightarrow> 0 | Some s \<Rightarrow> sp_bytesCount s)"
definition requestObservedBytes :: "debugCaptureSession \<Rightarrow> int" where
  "requestObservedBytes c = (case dc_requestSpool c of None \<Rightarrow> 0 | Some s \<Rightarrow> sp_observedBytes s)"
definition responseObservedBytes :: "debugCaptureSession \<Rightarrow> int" where
  "responseObservedBytes c = (case dc_responseSpool c of None \<Rightarrow> 0 | Some s \<Rightarrow> sp_observedBytes s)"
definition requestTruncated :: "debugCaptureSession \<Rightarrow> bool" where
  "requestTruncated c = (case dc_requestSpool c of None \<Rightarrow> False | Some s \<Rightarrow> sp_truncated s)"
definition responseTruncated :: "debugCaptureSession \<Rightarrow> bool" where
  "responseTruncated c = (case dc_responseSpool c of None \<Rightarrow> False | Some s \<Rightarrow> sp_truncated s)"

definition capture_error_of :: "string option \<Rightarrow> debugBodySpool option \<Rightarrow> string option" where
  "capture_error_of err s = (if err = None then (case s of None \<Rightarrow> None | Some s \<Rightarrow> sp_writeErr s) else err)"

definition captureError :: "debugCaptureSession \<Rightarrow> string" where
  "captureError c =
     (case (capture_error_of (dc_requestCaptureErr c) (dc_requestSpool c), capture_error_of (dc_responseCaptureErr c) (dc_responseSpool c)) of
        (None, None) \<Rightarrow> []
      | (Some e, None) \<Rightarrow> ''request: '' @ e
      | (None, Some e) \<Rightarrow> ''response: '' @ e
      | (Some e, Some e') \<Rightarrow> ''request: '' @ e @ ''; '' @ ''response: '' @ e')"

text \<open>What \<open>MCPMiddleware\<close> copies from a finalized session into the usage record.\<close>

definition with_capture :: "debugCaptureSession \<Rightarrow> UsageRecord \<Rightarrow> UsageRecord" where
  "with_capture c r = r\<lparr>rec_RequestBodyPath := requestPath c, rec_ResponseBodyPath := responsePath c,
     rec_RequestObservedBytes := requestObservedBytes c, rec_ResponseObservedBytes := responseObservedBytes c,
     rec_RequestTruncated := requestTruncated c, rec_ResponseTruncated := responseTruncated c\<rparr>"

section \<open>Headers\<close>

text \<open>\<open>lower\<close> is \<open>strings.ToLower\<close>.\<close>

definition isSensitiveHeader :: "(string \<Rightarrow> string) \<Rightarrow> string \<Rightarrow> bool" where
  "isSensitiveHeader lower name \<longleftrightarrow> lower (TrimSpace name) \<in>
     set [''authorization'', ''proxy-authorization'', ''cookie'', ''set-cookie'', ''api-key'', ''apikey'', ''x-api-key'', ''x-auth-token'',
      ''x-access-token'', ''x-csrf-token'', ''x-xsrf-token'', ''x-amz-security-token'', ''x-goog-api-key'']"

definition headerSnapshot :: "(string \<Rightarrow> string) \<Rightarrow> (string, string list) gomap \<Rightarrow> (string, string list) gomap" where
  "headerSnapshot lower headers =
     map (\<lambda>(name, values). (name, if isSensitiveHeader lower name then map (\<lambda>_. ''[redacted]'') values else values)) headers"

section \<open>The sample\<close>

text \<open>A spool that has seen the given bytes: unless the disk failed, its file is their start.\<close>

definition spool_saw :: "string \<Rightarrow> debugBodySpool \<Rightarrow> file_store \<Rightarrow> bool" where
  "spool_saw seen s files \<longleftrightarrow> sp_observedBytes s = int (length seen) \<and>
     (sp_writeErr s = None \<longrightarrow> files (sp_path s) = Some (take (nat maxDebugCapturedBodyBytes) seen) \<and>
        sp_bytesCount s = min maxDebugCapturedBodyBytes (int (length seen)) \<and>
        sp_truncated s = (maxDebugCapturedBodyBytes < int (length seen)))"

lemma write_file_frame:
  assumes "write_file outs body (s, files) = (s', files')"
  shows "sp_path s' = sp_path s \<and> sp_observedBytes s' = sp_observedBytes s \<and> sp_truncated s' = sp_truncated s \<and> sp_closed s' = sp_closed s \<and>
    (\<forall>q. q \<noteq> sp_path s \<longrightarrow> files' q = files q)"
  using assms
proof (induction outs arbitrary: body s files)
  case (Cons out outs)
  obtain k err where out: "out = (k, err)" by (cases out)
  show ?case
  proof (cases "body = [] \<or> err \<noteq> None \<or> k = 0")
    case True
    then show ?thesis using Cons.prems out by (auto simp: take_bytes_def split: if_splits option.splits)
  next
    case False
    then show ?thesis
      using Cons.prems out by (auto simp: take_bytes_def dest!: Cons.IH)
  qed
qed (auto simp: take_bytes_def split: if_splits)

lemma write_file_all:
  assumes "write_file outs body (s, files) = (s', files')" "files (sp_path s) = Some c" "sp_writeErr s' = None"
  shows "files' (sp_path s) = Some (c @ body) \<and> sp_bytesCount s' = sp_bytesCount s + int (length body)"
  using assms
proof (induction outs arbitrary: body s files c)
  case (Cons out outs)
  obtain k err where out: "out = (k, err)" by (cases out)
  show ?case
  proof (cases "body = [] \<or> err \<noteq> None \<or> k = 0")
    case True
    then show ?thesis using Cons.prems out by (auto simp: take_bytes_def split: if_splits option.splits)
  next
    case False
    let ?n = "min k (length body)"
    let ?s = "s\<lparr>sp_bytesCount := sp_bytesCount s + int ?n\<rparr>" and ?files = "files(sp_path s := Some (c @ take ?n body))"
    have "write_file outs (drop k body) (?s, ?files) = (s', files')"
      using Cons.prems(1,2) False out by (simp add: take_bytes_def)
    from Cons.IH [OF this _ Cons.prems(3), of "c @ take ?n body"]
    have "files' (sp_path s) = Some ((c @ take ?n body) @ drop k body) \<and> sp_bytesCount s' = sp_bytesCount s + int ?n + int (length (drop k body))"
      by simp
    then show ?thesis by (cases "k \<le> length body") (simp_all add: min_def)
  qed
qed (auto simp: take_bytes_def split: if_splits)

lemma spool_write_cases:
  "spool_write outs [] st = st"
  "body \<noteq> [] \<Longrightarrow> sp_writeErr s = Some e \<Longrightarrow>
     spool_write outs body (s, files) = (s\<lparr>sp_observedBytes := sp_observedBytes s + int (length body)\<rparr>, files)"
  "body \<noteq> [] \<Longrightarrow> sp_writeErr s = None \<Longrightarrow> maxDebugCapturedBodyBytes \<le> sp_bytesCount s \<Longrightarrow>
     spool_write outs body (s, files) = (s\<lparr>sp_observedBytes := sp_observedBytes s + int (length body), sp_truncated := True\<rparr>, files)"
  "body \<noteq> [] \<Longrightarrow> sp_writeErr s = None \<Longrightarrow> sp_bytesCount s < maxDebugCapturedBodyBytes \<Longrightarrow> \<not> sp_closed s \<Longrightarrow>
     spool_write outs body (s, files) = write_file outs (take (nat (maxDebugCapturedBodyBytes - sp_bytesCount s)) body)
       (s\<lparr>sp_observedBytes := sp_observedBytes s + int (length body),
          sp_truncated := (sp_truncated s \<or> maxDebugCapturedBodyBytes - sp_bytesCount s < int (length body))\<rparr>, files)"
  by (auto simp: spool_write_def Let_def not_less split: if_splits)

lemma spool_write_saw:
  assumes "spool_saw seen s files" "spool_write outs body (s, files) = (s', files')" "\<not> sp_closed s"
  shows "spool_saw (seen @ body) s' files' \<and> sp_path s' = sp_path s \<and> \<not> sp_closed s' \<and> (\<forall>q. q \<noteq> sp_path s \<longrightarrow> files' q = files q)"
proof -
  let ?cap = "nat maxDebugCapturedBodyBytes"
  note saw = assms(1) [unfolded spool_saw_def]
  consider "body = []" | e where "body \<noteq> []" "sp_writeErr s = Some e"
    | "body \<noteq> []" "sp_writeErr s = None" "maxDebugCapturedBodyBytes \<le> sp_bytesCount s"
    | "body \<noteq> []" "sp_writeErr s = None" "sp_bytesCount s < maxDebugCapturedBodyBytes" by (cases "sp_writeErr s") fastforce+
  then show ?thesis
  proof cases
    case 1
    then show ?thesis using assms by (simp add: spool_write_cases)
  next
    case 2
    then show ?thesis using assms saw by (auto simp: spool_write_cases spool_saw_def)
  next
    case 3
    then have "maxDebugCapturedBodyBytes \<le> int (length seen)" "0 < length body" using saw by (auto simp: min_def split: if_splits)
    then show ?thesis using 3 assms saw by (auto simp: spool_write_cases spool_saw_def min_def)
  next
    case 4
    let ?rest = "maxDebugCapturedBodyBytes - sp_bytesCount s"
    let ?s = "s\<lparr>sp_observedBytes := sp_observedBytes s + int (length body), sp_truncated := (sp_truncated s \<or> ?rest < int (length body))\<rparr>"
    let ?body = "take (nat ?rest) body"
    have whole: "take ?cap seen = seen" "sp_bytesCount s = int (length seen)" "\<not> sp_truncated s"
      using 4 saw by (auto simp: min_def split: if_splits)
    have run: "write_file outs ?body (?s, files) = (s', files')" using 4 assms(2,3) by (simp add: spool_write_cases)
    have frame: "sp_path s' = sp_path s" "sp_observedBytes s' = int (length (seen @ body))" "sp_truncated s' = (?rest < int (length body))"
      "\<not> sp_closed s'" "\<forall>q. q \<noteq> sp_path s \<longrightarrow> files' q = files q"
      using write_file_frame [OF run] saw assms(3) whole(3) by simp_all
    have "files' (sp_path s) = Some (take ?cap (seen @ body)) \<and> sp_bytesCount s' = min maxDebugCapturedBodyBytes (int (length (seen @ body)))"
      if "sp_writeErr s' = None"
    proof -
      have "files' (sp_path s) = Some (seen @ ?body) \<and> sp_bytesCount s' = int (length seen) + int (length ?body)"
        using write_file_all [OF run _ that, of seen] saw whole 4 by simp
      moreover have "take ?cap (seen @ body) = seen @ ?body" using whole(1,2) 4
        by (simp add: nat_diff_distrib)
      moreover have "int (length seen) + int (length ?body) = min maxDebugCapturedBodyBytes (int (length (seen @ body)))"
        using whole(2) 4 by (simp add: min_def) arith
      ultimately show ?thesis by simp
    qed
    then show ?thesis using frame whole(2) by (auto simp: spool_saw_def)
  qed
qed

text \<open>A disk that takes at least one byte in each call and reports no error.\<close>

definition disk_works :: "(nat \<times> string option) list \<Rightarrow> bool" where
  "disk_works outs \<longleftrightarrow> (\<forall>(k, err) \<in> set outs. 0 < k \<and> err = None)"

lemma write_file_works:
  "disk_works outs \<Longrightarrow> sp_writeErr (fst (write_file outs body st)) = sp_writeErr (fst st)"
  by (induction outs body st rule: write_file.induct) (auto simp: disk_works_def take_bytes_def split: prod.splits)

lemma spool_write_works:
  "disk_works outs \<Longrightarrow> \<not> sp_closed s \<Longrightarrow> sp_writeErr (fst (spool_write outs body (s, files))) = sp_writeErr s"
  by (simp add: spool_write_def Let_def write_file_works)

section \<open>Sessions over their events\<close>

fun read_bytes :: "capture_event \<Rightarrow> string" where
  "read_bytes (BodyRead outs bytes) = bytes" | "read_bytes (ResponseWrite outs bytes) = []"

fun written_bytes :: "capture_event \<Rightarrow> string" where
  "written_bytes (BodyRead outs bytes) = []" | "written_bytes (ResponseWrite outs bytes) = bytes"

fun event_works :: "capture_event \<Rightarrow> bool" where
  "event_works (BodyRead outs bytes) = disk_works outs" | "event_works (ResponseWrite outs bytes) = disk_works outs"

text \<open>An open session on two files that has seen the given bytes, among files otherwise as given; the last argument: without a failure.\<close>

definition session_saw :: "string \<Rightarrow> string \<Rightarrow> bool \<Rightarrow> file_store \<Rightarrow> string \<Rightarrow> string \<Rightarrow> bool \<Rightarrow> debugCaptureSession \<times> file_store \<Rightarrow> bool" where
  "session_saw p q hasBody files seen sent fine st \<longleftrightarrow>
     (\<exists>c files' s1 s2. st = (c, files') \<and> dc_requestSpool c = Some s1 \<and> dc_responseSpool c = Some s2 \<and> dc_requestReader c = hasBody \<and>
        \<not> dc_finalized c \<and> sp_path s1 = p \<and> sp_path s2 = q \<and> \<not> sp_closed s1 \<and> \<not> sp_closed s2 \<and>
        spool_saw seen s1 files' \<and> spool_saw sent s2 files' \<and> (\<forall>x. x \<noteq> p \<longrightarrow> x \<noteq> q \<longrightarrow> files' x = files x) \<and>
        (fine \<longrightarrow> sp_writeErr s1 = None \<and> sp_writeErr s2 = None))"

lemma spool_saw_other: "spool_saw seen s files \<Longrightarrow> files' (sp_path s) = files (sp_path s) \<Longrightarrow> spool_saw seen s files'"
  by (simp add: spool_saw_def)

lemma capture_step_saw:
  assumes "session_saw p q hasBody files seen sent fine st" "p \<noteq> q"
  shows "session_saw p q hasBody files (seen @ (if hasBody then read_bytes e else [])) (sent @ written_bytes e) (fine \<and> event_works e) (capture_step e st)"
proof -
  obtain c files' s1 s2 where st: "st = (c, files')" "dc_requestSpool c = Some s1" "dc_responseSpool c = Some s2" "dc_requestReader c = hasBody"
      "\<not> dc_finalized c" "sp_path s1 = p" "sp_path s2 = q" "\<not> sp_closed s1" "\<not> sp_closed s2" "spool_saw seen s1 files'" "spool_saw sent s2 files'"
      "\<forall>x. x \<noteq> p \<longrightarrow> x \<noteq> q \<longrightarrow> files' x = files x" "fine \<longrightarrow> sp_writeErr s1 = None \<and> sp_writeErr s2 = None"
    using assms(1) unfolding session_saw_def by blast
  show ?thesis
  proof (cases e)
    case (BodyRead outs bytes)
    obtain s f where w: "spool_write outs bytes (s1, files') = (s, f)" by fastforce
    from spool_write_saw [OF st(10) w st(8)] spool_write_works [of outs s1 bytes files'] st assms(2) BodyRead
    show ?thesis by (auto simp: session_saw_def write_spool_def w elim!: spool_saw_other)
  next
    case (ResponseWrite outs bytes)
    obtain s f where w: "spool_write outs bytes (s2, files') = (s, f)" by fastforce
    from spool_write_saw [OF st(11) w st(9)] spool_write_works [of outs s2 bytes files'] st assms(2) ResponseWrite
    show ?thesis by (auto simp: session_saw_def write_spool_def w elim!: spool_saw_other)
  qed
qed

lemma capture_run_saw:
  assumes "session_saw p q hasBody files seen sent fine st" "p \<noteq> q"
  shows "session_saw p q hasBody files (seen @ (if hasBody then concat (map read_bytes es) else [])) (sent @ concat (map written_bytes es))
    (fine \<and> (\<forall>e \<in> set es. event_works e)) (fold capture_step es st)"
  using assms(1)
proof (induction es arbitrary: seen sent fine st)
  case (Cons e es)
  from Cons.IH [OF capture_step_saw [OF Cons.prems assms(2), of e]] show ?case
    by (simp add: conj_assoc if_distrib [of "\<lambda>x. seen @ x @ _"]) (cases hasBody; simp)
qed (cases hasBody; simp)

lemma start_saw:
  assumes "startDebugCapture hasBody (SpoolCreated p) (SpoolCreated q) files = st" "p \<noteq> q"
  shows "session_saw p q hasBody files [] [] True st"
  using assms by (auto simp: startDebugCapture_def session_saw_def spool_saw_def maxDebugCapturedBodyBytes_def)

text \<open>After the session is finalized the spools still tell what they saw.\<close>

lemma spool_close_saw:
  assumes "spool_saw seen s files"
  shows "spool_saw seen (spool_close e s) files" "sp_path (spool_close e s) = sp_path s"
    "sp_writeErr s = None \<Longrightarrow> sp_writeErr (spool_close None s) = None"
  using assms by (auto simp: spool_close_def spool_saw_def)

lemma source_close_saw:
  assumes "spool_saw seen s files"
  shows "spool_saw seen (if b \<and> sp_writeErr s = None then s\<lparr>sp_writeErr := e\<rparr> else s) files"
  using assms by (auto simp: spool_saw_def)

lemma capture_finalize_saw:
  assumes "session_saw p q hasBody files seen sent fine (c, files')"
  shows "\<exists>s1 s2. dc_requestSpool (capture_finalize e e1 e2 c) = Some s1 \<and> dc_responseSpool (capture_finalize e e1 e2 c) = Some s2 \<and>
    sp_path s1 = p \<and> sp_path s2 = q \<and> spool_saw seen s1 files' \<and> spool_saw sent s2 files' \<and>
    (\<forall>x. x \<noteq> p \<longrightarrow> x \<noteq> q \<longrightarrow> files' x = files x) \<and>
    (fine \<and> e = None \<and> e1 = None \<and> e2 = None \<longrightarrow> sp_writeErr s1 = None \<and> sp_writeErr s2 = None)"
proof -
  obtain s1 s2 where st: "dc_requestSpool c = Some s1" "dc_responseSpool c = Some s2" "\<not> dc_finalized c" "sp_path s1 = p" "sp_path s2 = q"
      "spool_saw seen s1 files'" "spool_saw sent s2 files'" "\<forall>x. x \<noteq> p \<longrightarrow> x \<noteq> q \<longrightarrow> files' x = files x"
      "fine \<longrightarrow> sp_writeErr s1 = None \<and> sp_writeErr s2 = None"
    using assms unfolding session_saw_def by blast
  define t1 where "t1 = (if dc_requestReader c \<and> sp_writeErr s1 = None then s1\<lparr>sp_writeErr := e\<rparr> else s1)"
  have t1: "spool_saw seen t1 files'" "sp_path t1 = p" "fine \<and> e = None \<longrightarrow> sp_writeErr t1 = None"
    unfolding t1_def using st(4,9) source_close_saw [OF st(6), of "dc_requestReader c" e] by auto
  have "dc_requestSpool (capture_finalize e e1 e2 c) = Some (spool_close e1 t1)" "dc_responseSpool (capture_finalize e e1 e2 c) = Some (spool_close e2 s2)"
    using st(1-3) by (simp_all add: capture_finalize_def t1_def)
  then show ?thesis
    using spool_close_saw(1,2) [OF t1(1), of e1] spool_close_saw(3) [OF t1(1)] spool_close_saw(1,2) [OF st(7), of e2] spool_close_saw(3) [OF st(7)] t1 st(5,8,9)
    by auto
qed

text \<open>What the store reads back from a spool that saw the given bytes.\<close>

lemma read_spool:
  assumes "spool_saw seen s files" "TrimSpace (sp_path s) \<noteq> []"
  shows "\<exists>body k. readBoundedDebugBody files (spoolPath (Some s)) = Some (body, k, False) \<and> k \<le> int (length seen) \<and>
    body = (if spoolPath (Some s) = [] then [] else take maxPersistedDebugBodyBytes seen)"
proof -
  have "nat maxDebugCapturedBodyBytes = maxPersistedDebugBodyBytes"
    by (simp add: maxDebugCapturedBodyBytes_def maxPersistedDebugBodyBytes_def)
  moreover have "sp_path s \<noteq> []" using assms(2) by auto
  ultimately show ?thesis using assms by (auto simp: spool_saw_def spoolPath_def readBoundedDebugBody_def)
qed

text \<open>
  The debug sample is exact (C37). Through any reads of the request and writes of the response, and whatever the disk
  does, the debug row the store makes of a captured call counts all the bytes that passed; a body in it is the first MiB of
  what passed, marked as truncated exactly if there was more, and is left out only if the disk failed for it. After the cleanup
  the temporary files are gone and no other file is touched.
\<close>

theorem debug_capture_exact:
  assumes "startDebugCapture hasBody (SpoolCreated p) (SpoolCreated q) files = st" "fold capture_step es st = (c1, files')"
    and "p \<noteq> q" "files p = None" "files q = None" "TrimSpace p \<noteq> []" "TrimSpace q \<noteq> []" "TrimSpace (rec_DebugJSON r) \<noteq> []"
    and c: "c = capture_finalize err err' err'' c1"
    and seen: "seen = (if hasBody then concat (map read_bytes es) else [])" and sent: "sent = concat (map written_bytes es)"
  shows "\<exists>d. prepareUsageDebugRecord files' now (i, with_capture c r) = Some (Some d) \<and>
    dr_RequestObservedBytes d = int (length seen) \<and> dr_ResponseObservedBytes d = int (length sent) \<and>
    (if requestPath c = [] then dr_RequestBody d = []
     else dr_RequestBody d = take 1048576 seen \<and> dr_RequestTruncated d = (1048576 < length seen)) \<and>
    (if responsePath c = [] then dr_ResponseBody d = []
     else dr_ResponseBody d = take 1048576 sent \<and> dr_ResponseTruncated d = (1048576 < length sent)) \<and>
    ((\<forall>ev \<in> set es. event_works ev) \<and> err = None \<and> err' = None \<and> err'' = None \<longrightarrow> requestPath c = p \<and> responsePath c = q) \<and>
    capture_cleanup c files' = files"
proof -
  have "session_saw p q hasBody files seen sent (\<forall>ev \<in> set es. event_works ev) (c1, files')"
    using capture_run_saw [OF start_saw [OF assms(1,3)] assms(3), of es] assms(2) by (simp add: seen sent)
  from capture_finalize_saw [OF this, of err err' err''] obtain s1 s2 where s: "dc_requestSpool c = Some s1" "dc_responseSpool c = Some s2"
      "sp_path s1 = p" "sp_path s2 = q" "spool_saw seen s1 files'" "spool_saw sent s2 files'" "\<forall>x. x \<noteq> p \<longrightarrow> x \<noteq> q \<longrightarrow> files' x = files x"
      "(\<forall>ev \<in> set es. event_works ev) \<and> err = None \<and> err' = None \<and> err'' = None \<longrightarrow> sp_writeErr s1 = None \<and> sp_writeErr s2 = None"
    unfolding c by blast
  have paths: "requestPath c = spoolPath (Some s1)" "responsePath c = spoolPath (Some s2)" using s by (simp_all add: requestPath_def responsePath_def)
  obtain k1 where r1: "readBoundedDebugBody files' (requestPath c) = Some (if requestPath c = [] then [] else take maxPersistedDebugBodyBytes seen, k1, False)"
      "k1 \<le> int (length seen)" using read_spool [OF s(5)] s(3) assms(6) paths(1) by auto
  obtain k2 where r2: "readBoundedDebugBody files' (responsePath c) = Some (if responsePath c = [] then [] else take maxPersistedDebugBodyBytes sent, k2, False)"
      "k2 \<le> int (length sent)" using read_spool [OF s(6)] s(4) assms(7) paths(2) by auto
  have observed: "requestObservedBytes c = int (length seen)" "responseObservedBytes c = int (length sent)"
    using s(1,2,5,6) by (simp_all add: requestObservedBytes_def responseObservedBytes_def spool_saw_def)
  have truncated: "requestPath c \<noteq> [] \<longrightarrow> requestTruncated c = (1048576 < length seen)" "responsePath c \<noteq> [] \<longrightarrow> responseTruncated c = (1048576 < length sent)"
    using s(1,2,5,6) by (auto simp: paths spoolPath_def requestTruncated_def responseTruncated_def spool_saw_def maxDebugCapturedBodyBytes_def)
  have "p \<noteq> []" "q \<noteq> []" using assms(6,7) by auto
  then have "capture_cleanup c files' = files'(p := None, q := None)" using s(1-4) by (simp add: capture_cleanup_def spool_cleanup_def)
  also have "\<dots> = files" using s(7) assms(4,5) by (simp add: fun_eq_iff)
  finally have clean: "capture_cleanup c files' = files" .
  have named: "(requestPath c = []) = (sp_writeErr s1 \<noteq> None)" "(responsePath c = []) = (sp_writeErr s2 \<noteq> None)"
    "requestPath c \<noteq> [] \<Longrightarrow> requestPath c = p" "responsePath c \<noteq> [] \<Longrightarrow> responsePath c = q"
    using assms(6,7) s(3,4) by (auto simp: paths spoolPath_def)
  obtain d where d: "prepareUsageDebugRecord files' now (i, with_capture c r) = Some (Some d)"
      "dr_RequestBody d = (if requestPath c = [] then [] else take maxPersistedDebugBodyBytes seen)"
      "dr_ResponseBody d = (if responsePath c = [] then [] else take maxPersistedDebugBodyBytes sent)"
      "dr_RequestObservedBytes d = int (length seen)" "dr_ResponseObservedBytes d = int (length sent)"
      "dr_RequestTruncated d = requestTruncated c" "dr_ResponseTruncated d = responseTruncated c"
    using assms(8) observed r1(2) r2(2) by (simp add: prepareUsageDebugRecord_def with_capture_def r1(1) r2(1) max_absorb1)
  have "(\<forall>ev \<in> set es. event_works ev) \<and> err = None \<and> err' = None \<and> err'' = None \<longrightarrow> requestPath c = p \<and> responsePath c = q"
    using s(8) named by blast
  moreover have "if requestPath c = [] then dr_RequestBody d = []
      else dr_RequestBody d = take 1048576 seen \<and> dr_RequestTruncated d = (1048576 < length seen)"
    using truncated(1) by (simp add: d maxPersistedDebugBodyBytes_def)
  moreover have "if responsePath c = [] then dr_ResponseBody d = []
      else dr_ResponseBody d = take 1048576 sent \<and> dr_ResponseTruncated d = (1048576 < length sent)"
    using truncated(2) by (simp add: d maxPersistedDebugBodyBytes_def)
  ultimately show ?thesis using d(1,4,5) clean by (intro exI [of _ d] conjI)
qed

section \<open>Examples\<close>

definition demo_capture :: "debugCaptureSession \<times> file_store" where
  "demo_capture = fold capture_step [BodyRead [(1, None)] ''ab'', ResponseWrite [(1, Some ''disk full'')] ''xyz'', BodyRead [] ''c'']
     (startDebugCapture True (SpoolCreated ''/tmp/a'') (SpoolCreated ''/tmp/b'') (\<lambda>_. None))"

definition captured_demo :: UsageRecord where
  "captured_demo = \<lparr>rec_KeyID = ''k1'', rec_ToolName = ''web_search'', rec_Timestamp = 0, rec_DurationMs = 5, rec_Success = True,
     rec_DebugJSON = ''{}'', rec_RequestObservedBytes = 0, rec_ResponseObservedBytes = 0, rec_RequestTruncated = False,
     rec_ResponseTruncated = False, rec_RequestBodyPath = [], rec_ResponseBodyPath = []\<rparr>"

text \<open>The request is kept whole, the response is dropped with its failed write but counted.\<close>

theorem debug_capture_exact_witness:
  "\<exists>d. prepareUsageDebugRecord (snd demo_capture) 0 (1, with_capture (capture_finalize None None None (fst demo_capture)) captured_demo) = Some (Some d) \<and>
     dr_RequestBody d = ''abc'' \<and> dr_ResponseBody d = [] \<and> dr_ResponseObservedBytes d = 3"
proof -
  let ?c = "capture_finalize None None None (fst demo_capture)"
  obtain st where start: "startDebugCapture True (SpoolCreated ''/tmp/a'') (SpoolCreated ''/tmp/b'') (\<lambda>_. None) = st" by simp
  have run: "fold capture_step [BodyRead [(1, None)] ''ab'', ResponseWrite [(1, Some ''disk full'')] ''xyz'', BodyRead [] ''c''] st =
      (fst demo_capture, snd demo_capture)" using start by (simp add: demo_capture_def)
  have trims: "TrimSpace ''/tmp/a'' \<noteq> []" "TrimSpace ''/tmp/b'' \<noteq> []" "TrimSpace (rec_DebugJSON captured_demo) \<noteq> []" by code_simp+
  have paths: "requestPath ?c = ''/tmp/a''" "responsePath ?c = []" by code_simp+
  show ?thesis
    using debug_capture_exact [OF start run _ refl refl trims refl refl refl, where err = None and err' = None and err'' = None and now = 0 and i = 1]
    by (simp add: paths) blast
qed

end
