(* ===== verification/Bootstrap.thy ===== *)
theory Bootstrap
  imports Store Json_Encode
begin

text \<open>
  The first administrator, \<open>internal/app/bootstrap_credentials.go\<close>: when no enabled administrator is left at
  start-up, one is created or restored with the credentials of a file that only the operator can read, which is
  written first if there is none. The file is what stands at its path; what the operating system answers
  is an argument, and so is what another process puts at the path in between. bcrypt is an argument.
  Shown: an administrator can log in with what the file says, whatever fails nothing is changed
  half-way, and a start that fails after writing the file is made good by the next one.
\<close>

section \<open>The file\<close>

text \<open>Nothing, a regular file with its permissions and content, or something else (a link, a directory).\<close>

datatype fs_node = NoFile | RegularFile nat string | OtherNode

text \<open>
  \<open>ff_writes\<close>: how much each call of \<open>Write\<close> takes, and its error; \<open>ff_swap\<close>: what stands at the path when it is
  looked at again, if not the same file.
\<close>

record file_faults =
  ff_create :: "string option"
  ff_chmod :: "string option"
  ff_writes :: "(nat \<times> string option) list"
  ff_sync :: "string option"
  ff_close :: "string option"
  ff_directory :: "string option"
  ff_lstat :: "string option"
  ff_open :: "string option"
  ff_stat :: "string option"
  ff_read :: "string option"
  ff_swap :: "fs_node option"

definition no_faults :: file_faults where
  "no_faults = \<lparr>ff_create = None, ff_chmod = None, ff_writes = [], ff_sync = None, ff_close = None, ff_directory = None,
     ff_lstat = None, ff_open = None, ff_stat = None, ff_read = None, ff_swap = None\<rparr>"

datatype bootstrap_error = BootstrapErrorf string | WrappedIO string string | WrappedStore string store_error

record BootstrapAdminCredentials =
  bc_Username :: string
  bc_Password :: string

definition bootstrapAdminUsername :: string where "bootstrapAdminUsername = ''admin''"
definition bootstrapPasswordLength :: nat where "bootstrapPasswordLength = 12"
definition maximumBootstrapFileBytes :: nat where "maximumBootstrapFileBytes = 4096"
definition minimumBootstrapPasswordBytes :: nat where "minimumBootstrapPasswordBytes = 8"
definition maximumBootstrapPasswordBytes :: nat where "maximumBootstrapPasswordBytes = 72"

text \<open>Permission bits \<open>0o600\<close>.\<close>

definition owner_only :: nat where "owner_only = 384"

definition passwordAlphabet :: string where
  "passwordAlphabet = ''ABCDEFGHJKLMNPQRSTUVWXYZabcdefghijkmnopqrstuvwxyz23456789''"

text \<open>\<open>draws i\<close>: the index \<open>rand.Int\<close> gives for the position, \<open>None\<close> if it fails.\<close>

fun draw_password :: "nat \<Rightarrow> (nat \<Rightarrow> nat option) \<Rightarrow> bootstrap_error + string" where
  "draw_password 0 draws = Inr []"
| "draw_password (Suc n) draws =
     (case draw_password n draws of
        Inl e \<Rightarrow> Inl e
      | Inr p \<Rightarrow> (case draws n of None \<Rightarrow> Inl (BootstrapErrorf ''random source'') | Some i \<Rightarrow> Inr (p @ [passwordAlphabet ! i])))"

definition randomBootstrapPassword :: "nat \<Rightarrow> (nat \<Rightarrow> nat option) \<Rightarrow> bootstrap_error + string" where
  "randomBootstrapPassword len draws =
     (if len = 0 then Inl (BootstrapErrorf ''password length must be positive'') else draw_password len draws)"

definition marshal_credentials :: "BootstrapAdminCredentials \<Rightarrow> string" where
  "marshal_credentials cr = CHR 0x7B # quoted ''username'' @ CHR '':'' # quoted (bc_Username cr) @ CHR '','' #
     quoted ''password'' @ CHR '':'' # quoted (bc_Password cr) @ [CHR 0x7D]"

text \<open>The bytes written, and the error.\<close>

fun writeAll :: "(nat \<times> string option) list \<Rightarrow> string \<Rightarrow> string \<times> string option" where
  "writeAll [] content = (content, None)"
| "writeAll ((k, err) # outs) content =
     (if content = [] then ([], None)
      else case err of
          Some e \<Rightarrow> (take k content, Some e)
        | None \<Rightarrow> if k = 0 then ([], Some ''short write'') else apfst (append (take k content)) (writeAll outs (drop k content)))"

definition validateBootstrapCredentialFileInfo :: "fs_node \<Rightarrow> bootstrap_error option" where
  "validateBootstrapCredentialFileInfo node =
     (case node of
        RegularFile perm content \<Rightarrow>
          if perm \<noteq> owner_only then Some (BootstrapErrorf ''bootstrap credential file permissions, require 0600'') else None
      | _ \<Rightarrow> Some (BootstrapErrorf ''bootstrap credential path must be a regular file''))"

definition looked_at :: "file_faults \<Rightarrow> fs_node \<Rightarrow> fs_node" where
  "looked_at ff node = (case ff_swap ff of None \<Rightarrow> node | Some node' \<Rightarrow> node')"

definition verifyBootstrapCredentialPath :: "file_faults \<Rightarrow> fs_node \<Rightarrow> bootstrap_error option" where
  "verifyBootstrapCredentialPath ff node =
     (case ff_lstat ff of
        Some e \<Rightarrow> Some (WrappedIO ''verify bootstrap credential file'' e)
      | None \<Rightarrow> if node = NoFile then Some (WrappedIO ''verify bootstrap credential file'' ''file does not exist'')
          else validateBootstrapCredentialFileInfo node)"

definition syncParentDirectory :: "file_faults \<Rightarrow> bootstrap_error option" where
  "syncParentDirectory ff = map_option (WrappedIO ''sync bootstrap credential directory'') (ff_directory ff)"

text \<open>The new file; whatever is at the path is removed when a step fails.\<close>

definition writeNewBootstrapCredentials ::
  "(nat \<Rightarrow> nat option) \<Rightarrow> file_faults \<Rightarrow> (bootstrap_error + BootstrapAdminCredentials) \<times> fs_node" where
  "writeNewBootstrapCredentials draws ff =
     (case randomBootstrapPassword bootstrapPasswordLength draws of
        Inl e \<Rightarrow> (Inl e, NoFile)
      | Inr password \<Rightarrow>
          let credentials = \<lparr>bc_Username = bootstrapAdminUsername, bc_Password = password\<rparr>;
              credentialJSON = marshal_credentials credentials
          in if maximumBootstrapFileBytes < length credentialJSON
             then (Inl (BootstrapErrorf ''encoded bootstrap credentials exceed size limit''), NoFile)
             else case ff_chmod ff of
                 Some e \<Rightarrow> (Inl (WrappedIO ''set bootstrap credential permissions'' e), NoFile)
               | None \<Rightarrow>
                   (case writeAll (ff_writes ff) credentialJSON of
                      (_, Some e) \<Rightarrow> (Inl (WrappedIO ''write bootstrap credential file'' e), NoFile)
                    | (written, None) \<Rightarrow>
                        (case ff_sync ff of
                           Some e \<Rightarrow> (Inl (WrappedIO ''sync bootstrap credential file'' e), NoFile)
                         | None \<Rightarrow>
                             (case ff_close ff of
                                Some e \<Rightarrow> (Inl (WrappedIO ''close bootstrap credential file'' e), NoFile)
                              | None \<Rightarrow>
                                  (case syncParentDirectory ff of
                                     Some e \<Rightarrow> (Inl e, NoFile)
                                   | None \<Rightarrow>
                                       let node = looked_at ff (RegularFile owner_only written)
                                       in case verifyBootstrapCredentialPath ff node of
                                            Some e \<Rightarrow> (Inl e, NoFile)
                                          | None \<Rightarrow> (Inr credentials, node))))))"

section \<open>Reading\<close>

definition dec_credentials :: "BootstrapAdminCredentials decoder" where
  "dec_credentials = dec_struct [(''username'', field dec_string bc_Username bc_Username_update),
     (''password'', field dec_string bc_Password bc_Password_update)]"

text \<open>\<open>DisallowUnknownFields\<close>, then exactly the end of the input.\<close>

definition known_fields :: "json \<Rightarrow> bool" where
  "known_fields j = (case j of JObject ms \<Rightarrow> list_all (\<lambda>(k, v). names ''username'' k \<or> names ''password'' k) ms | _ \<Rightarrow> True)"

definition decodeBootstrapCredentials :: "string \<Rightarrow> bootstrap_error + BootstrapAdminCredentials" where
  "decodeBootstrapCredentials credentialJSON =
     (case json_value (2 * length credentialJSON + 1) maxNestingDepth credentialJSON of
        None \<Rightarrow> Inl (BootstrapErrorf ''decode bootstrap credential file'')
      | Some (j, rest) \<Rightarrow>
          if \<not> known_fields j then Inl (BootstrapErrorf ''decode bootstrap credential file'')
          else case dec_credentials \<lparr>bc_Username = [], bc_Password = []\<rparr> j of
              None \<Rightarrow> Inl (BootstrapErrorf ''decode bootstrap credential file'')
            | Some credentials \<Rightarrow>
                if skip_space rest \<noteq> [] then Inl (BootstrapErrorf ''bootstrap credential file contains trailing JSON data'')
                else if bc_Username credentials \<noteq> bootstrapAdminUsername then Inl (BootstrapErrorf ''bootstrap credential username'')
                else if length (bc_Password credentials) < minimumBootstrapPasswordBytes \<or>
                    maximumBootstrapPasswordBytes < length (bc_Password credentials)
                  then Inl (BootstrapErrorf ''bootstrap credential password must be 8-72 bytes'')
                else Inr credentials)"

text \<open>\<open>O_NOFOLLOW\<close>: a link that has been put at the path cannot be opened.\<close>

definition openBootstrapCredentialFile :: "file_faults \<Rightarrow> fs_node \<Rightarrow> bootstrap_error + nat \<times> string" where
  "openBootstrapCredentialFile ff node =
     (case ff_open ff of
        Some e \<Rightarrow> Inl (WrappedIO ''open bootstrap credential file'' e)
      | None \<Rightarrow>
          (case looked_at ff node of
             RegularFile perm content \<Rightarrow> Inr (perm, content)
           | _ \<Rightarrow> Inl (WrappedIO ''open bootstrap credential file'' ''not a file'')))"

definition readExistingBootstrapCredentials :: "file_faults \<Rightarrow> fs_node \<Rightarrow> bootstrap_error + BootstrapAdminCredentials" where
  "readExistingBootstrapCredentials ff node =
     (case ff_lstat ff of
        Some e \<Rightarrow> Inl (WrappedIO ''inspect bootstrap credential file'' e)
      | None \<Rightarrow>
          (case validateBootstrapCredentialFileInfo node of
             Some e \<Rightarrow> Inl e
           | None \<Rightarrow>
               (case openBootstrapCredentialFile ff node of
                  Inl e \<Rightarrow> Inl e
                | Inr (perm, content) \<Rightarrow>
                    (case ff_stat ff of
                       Some e \<Rightarrow> Inl (WrappedIO ''inspect opened bootstrap credential file'' e)
                     | None \<Rightarrow>
                         (case validateBootstrapCredentialFileInfo (RegularFile perm content) of
                            Some e \<Rightarrow> Inl e
                          | None \<Rightarrow>
                              if ff_swap ff \<noteq> None then Inl (BootstrapErrorf ''bootstrap credential file changed while opening'')
                              else let credentialJSON = take (maximumBootstrapFileBytes + 1) content
                                in case ff_read ff of
                                    Some e \<Rightarrow> Inl (WrappedIO ''read bootstrap credential file'' e)
                                  | None \<Rightarrow>
                                      (case ff_close ff of
                                         Some e \<Rightarrow> Inl (WrappedIO ''close bootstrap credential file'' e)
                                       | None \<Rightarrow>
                                           if maximumBootstrapFileBytes < length credentialJSON
                                           then Inl (BootstrapErrorf ''bootstrap credential file exceeds 4096 bytes'')
                                           else decodeBootstrapCredentials credentialJSON))))))"

definition loadOrCreateBootstrapCredentials ::
  "string \<Rightarrow> (nat \<Rightarrow> nat option) \<Rightarrow> file_faults \<Rightarrow> fs_node \<Rightarrow> (bootstrap_error + BootstrapAdminCredentials) \<times> fs_node" where
  "loadOrCreateBootstrapCredentials path draws ff node =
     (if TrimSpace path = [] then (Inl (BootstrapErrorf ''bootstrap credential path is required''), node)
      else if node = NoFile then
        (case ff_create ff of
           Some e \<Rightarrow> (Inl (WrappedIO ''exclusively create bootstrap credential file'' e), node)
         | None \<Rightarrow> writeNewBootstrapCredentials draws ff)
      else (readExistingBootstrapCredentials ff node, looked_at ff node))"

section \<open>The administrator\<close>

definition promoteExistingBootstrapAdmin ::
  "time \<Rightarrow> string \<Rightarrow> BootstrapAdminCredentials \<Rightarrow> DB \<Rightarrow> (bootstrap_error + BootstrapAdminCredentials) \<times> DB" where
  "promoteExistingBootstrapAdmin now passwordHash credentials db =
     (case GetUserByUsername now bootstrapAdminUsername db of
        Inl e \<Rightarrow> (Inl (WrappedStore ''lookup existing admin user'' e), db)
      | Inr None \<Rightarrow> (Inl (BootstrapErrorf ''username taken but user not found''), db)
      | Inr (Some existingUser) \<Rightarrow>
          (case UpdateUser now (u_ID existingUser) \<lparr>uu_Enabled = Some True, uu_Role = Some RoleAdmin, uu_TierID = None,
                uu_RevokeTokens = Some True, uu_PasswordHash = Some passwordHash\<rparr> db of
             (Inl e, db') \<Rightarrow> (Inl (WrappedStore ''promote existing admin'' e), db')
           | (Inr _, db') \<Rightarrow> (Inr credentials, db')))"

text \<open>\<open>generate\<close>: the bcrypt hash of a password, or its error.\<close>

definition EnsureBootstrapAdmin ::
  "(string \<Rightarrow> string + string) \<Rightarrow> entropy \<Rightarrow> (nat \<Rightarrow> nat option) \<Rightarrow> file_faults \<Rightarrow> time \<Rightarrow> string \<Rightarrow> fs_node \<Rightarrow> DB \<Rightarrow>
     (bootstrap_error + BootstrapAdminCredentials option) \<times> fs_node \<times> DB" where
  "EnsureBootstrapAdmin generate rnd draws ff now credentialPath node db =
     (if 0 < enabled_admins db then (Inr None, node, db)
      else case loadOrCreateBootstrapCredentials credentialPath draws ff node of
          (Inl e, node') \<Rightarrow> (Inl e, node', db)
        | (Inr credentials, node') \<Rightarrow>
            (case generate (bc_Password credentials) of
               Inl e \<Rightarrow> (Inl (WrappedIO ''hash bootstrap password'' e), node', db)
             | Inr passwordHash \<Rightarrow>
                 (case CreateUser rnd now (bc_Username credentials) passwordHash RoleAdmin db of
                    (Inr _, db') \<Rightarrow> (Inr (Some credentials), node', db')
                  | (Inl e, db') \<Rightarrow>
                      if e = ErrUsernameTaken
                      then (case promoteExistingBootstrapAdmin now passwordHash credentials db' of
                          (r, db'') \<Rightarrow> (map_sum id Some r, node', db''))
                      else (Inl (WrappedStore ''create admin user'' e), node', db'))))"

section \<open>What is written can be read\<close>

lemma password_alphabet: "length passwordAlphabet = 57" "list_all plain_char passwordAlphabet"
  by code_simp+

definition draws_ok :: "(nat \<Rightarrow> nat option) \<Rightarrow> bool" where
  "draws_ok draws \<longleftrightarrow> (\<forall>n i. draws n = Some i \<longrightarrow> i < 57)"

lemma draw_password_plain:
  "draws_ok draws \<Longrightarrow> draw_password n draws = Inr p \<Longrightarrow> length p = n \<and> list_all plain_char p"
proof (induction n arbitrary: p)
  case (Suc n)
  then obtain q i where "draw_password n draws = Inr q" "draws n = Some i" "p = q @ [passwordAlphabet ! i]"
    by (auto split: sum.splits option.splits)
  moreover have "i < 57" using calculation(2) Suc.prems(1) by (simp add: draws_ok_def)
  moreover have "plain_char (passwordAlphabet ! i)" using calculation(4) password_alphabet by (simp add: list_all_length)
  ultimately show ?case using Suc.IH [of q] Suc.prems(1) by simp
qed simp

lemma writeAll_complete: "writeAll outs content = (written, None) \<Longrightarrow> written = content"
proof (induction outs content arbitrary: written rule: writeAll.induct)
  case (2 k err outs content)
  show ?case
  proof (cases "content = [] \<or> err \<noteq> None \<or> k = 0")
    case False
    obtain w where "writeAll outs (drop k content) = (w, None)" "written = take k content @ w"
      using "2.prems" False by (cases "writeAll outs (drop k content)") auto
    then show ?thesis using "2.IH" False by simp
  qed (use "2.prems" in \<open>auto split: option.splits if_splits\<close>)
qed simp

lemma decode_marshal:
  assumes "list_all plain_char p" "8 \<le> length p" "length p \<le> 72" and cr: "cr = \<lparr>bc_Username = ''admin'', bc_Password = p\<rparr>"
  shows "decodeBootstrapCredentials (marshal_credentials cr) = Inr cr"
proof -
  have plain: "list_all plain_char ''username''" "list_all plain_char ''password''" "list_all plain_char ''admin''" by code_simp+
  obtain k where fuel: "2 * length (marshal_credentials cr) + 1 = Suc (Suc (Suc (Suc k)))"
  proof
    show "2 * length (marshal_credentials cr) + 1 = Suc (Suc (Suc (Suc (2 * length (marshal_credentials cr) - 3))))"
      by (simp add: marshal_credentials_def quoted_def)
  qed
  have names: "names ''username'' ''username''" "names ''username'' ''password'' = False" "names ''password'' ''password''" by code_simp+
  have start: "expect (CHR 0x7B) (CHR 0x7B # r) = Some r" "expect (CHR 0x7D) (quoted q @ r) = None" for q r
    by (simp_all add: expect_def quoted_def)
  have "json_value (Suc (Suc (Suc (Suc k)))) maxNestingDepth (marshal_credentials cr) =
      Some (JObject [(''username'', JString ''admin''), (''password'', JString p)], [])"
    unfolding marshal_credentials_def json_value.simps start
    by (simp add: start members_quoted [OF plain(1,3)] members_quoted [OF plain(2) assms(1)] cr maxNestingDepth_def
        del: json_members.simps)
  then show ?thesis
    unfolding decodeBootstrapCredentials_def fuel
    by (simp del: json_value.simps add: not_less known_fields_def dec_credentials_def dec_struct_def names field_def dec_string_def cr assms(2,3)
        bootstrapAdminUsername_def minimumBootstrapPasswordBytes_def maximumBootstrapPasswordBytes_def)
qed

lemma decoded_credentials:
  "decodeBootstrapCredentials c = Inr cr \<Longrightarrow> bc_Username cr = ''admin'' \<and> 8 \<le> length (bc_Password cr) \<and> length (bc_Password cr) \<le> 72"
  by (auto simp: decodeBootstrapCredentials_def bootstrapAdminUsername_def minimumBootstrapPasswordBytes_def
      maximumBootstrapPasswordBytes_def split: option.splits prod.splits if_splits)

lemma written_credentials:
  assumes "writeNewBootstrapCredentials draws ff = (Inr cr, node)" "draws_ok draws"
  shows "bc_Username cr = ''admin'' \<and> list_all plain_char (bc_Password cr) \<and> length (bc_Password cr) = 12 \<and>
    node = looked_at ff (RegularFile owner_only (marshal_credentials cr)) \<and> validateBootstrapCredentialFileInfo node = None"
proof -
  obtain p where p: "draw_password 12 draws = Inr p" "cr = \<lparr>bc_Username = ''admin'', bc_Password = p\<rparr>"
    "node = looked_at ff (RegularFile owner_only (fst (writeAll (ff_writes ff) (marshal_credentials cr))))"
    "snd (writeAll (ff_writes ff) (marshal_credentials cr)) = None" "verifyBootstrapCredentialPath ff node = None"
    using assms(1) by (auto simp: writeNewBootstrapCredentials_def randomBootstrapPassword_def bootstrapPasswordLength_def
        bootstrapAdminUsername_def Let_def split: sum.splits if_splits option.splits prod.splits)
  have "fst (writeAll (ff_writes ff) (marshal_credentials cr)) = marshal_credentials cr"
    using writeAll_complete [of "ff_writes ff" "marshal_credentials cr"] p(4) by (metis prod.collapse)
  then show ?thesis using p draw_password_plain [OF assms(2) p(1)]
    by (auto simp: verifyBootstrapCredentialPath_def split: option.splits if_splits)
qed

text \<open>The credentials in force and the file that stands for them.\<close>

definition file_tells :: "fs_node \<Rightarrow> BootstrapAdminCredentials \<Rightarrow> bool" where
  "file_tells node cr \<longleftrightarrow> (\<exists>content. node = RegularFile owner_only content \<and> length content \<le> maximumBootstrapFileBytes \<and>
     decodeBootstrapCredentials content = Inr cr)"

lemma loaded_credentials:
  assumes "loadOrCreateBootstrapCredentials path draws ff node = (Inr cr, node')" "draws_ok draws" "ff_swap ff = None"
  shows "file_tells node' cr"
proof (cases "node = NoFile")
  case True
  then have "writeNewBootstrapCredentials draws ff = (Inr cr, node')"
    using assms(1) by (auto simp: loadOrCreateBootstrapCredentials_def split: if_splits option.splits)
  note w = written_credentials [OF this assms(2)]
  have "list_all plain_char ''username''" "list_all plain_char ''password''" "list_all plain_char ''admin''" by code_simp+
  then have "length (marshal_credentials cr) \<le> maximumBootstrapFileBytes"
    using w by (simp add: marshal_credentials_def quoted_plain maximumBootstrapFileBytes_def)
  moreover have "decodeBootstrapCredentials (marshal_credentials cr) = Inr cr"
    using w by (intro decode_marshal [of "bc_Password cr"]) auto
  ultimately show ?thesis using w assms(3) by (simp add: file_tells_def looked_at_def)
next
  case False
  then show ?thesis using assms
    by (auto simp: loadOrCreateBootstrapCredentials_def readExistingBootstrapCredentials_def openBootstrapCredentialFile_def looked_at_def
        validateBootstrapCredentialFileInfo_def file_tells_def Let_def split: if_splits option.splits sum.splits fs_node.splits)
qed

text \<open>What stays at the path when the call fails: what was there, nothing, or a file that tells credentials.\<close>

lemma created_admin:
  assumes "db_ok db" "random_ok 16 rnd" "CreateUser rnd now ''admin'' h RoleAdmin db = (Inr u, db')"
  shows "\<exists>row. users db' = users db @ [row] \<and> u_Username row = ''admin'' \<and> u_Role row = RoleAdmin \<and> u_Enabled row \<and> u_PasswordHash row = h"
proof -
  have "TrimSpace ''admin'' = ''admin''" by code_simp
  then show ?thesis using assms(3)
    by (auto simp: CreateUser_def Let_def run_tx_Inr insert_user_Inr new_user_row_def split: sum.splits option.splits if_splits)
qed

lemma admin_counted: "u \<in> set (users db) \<Longrightarrow> u_Role u = RoleAdmin \<Longrightarrow> u_Enabled u \<Longrightarrow> 0 < enabled_admins db"
  by (auto simp: enabled_admins_def count_if_pos)

text \<open>The administrator the credentials open, and what the other users notice of it.\<close>

definition admin_restored :: "string \<Rightarrow> DB \<Rightarrow> DB \<Rightarrow> bool" where
  "admin_restored h db db' \<longleftrightarrow> (\<exists>u \<in> set (users db'). nocase (u_Username u) = ''admin'' \<and> u_Role u = RoleAdmin \<and> u_Enabled u \<and>
     u_PasswordHash u = h \<and> (\<forall>v \<in> set (users db). if u_ID v = u_ID u then u_TokenVersion v < u_TokenVersion u else v \<in> set (users db')))"

lemma restored_counted: "admin_restored h db db' \<Longrightarrow> 0 < enabled_admins db'"
  unfolding admin_restored_def using admin_counted by blast

lemma created_restores:
  assumes "db_ok db" "random_ok 16 rnd" "CreateUser rnd now ''admin'' h RoleAdmin db = (Inr u, db')"
  shows "admin_restored h db db'"
proof -
  obtain row where row: "users db' = users db @ [row]" "u_Username row = ''admin''" "u_Role row = RoleAdmin" "u_Enabled row" "u_PasswordHash row = h"
    using created_admin [OF assms] by blast
  have "db_ok db'" using CreateUser_ok [OF assms(1,2), of now "''admin''" h RoleAdmin] assms(3) by simp
  then have "distinct (map u_ID (users db @ [row]))" using row(1) db_ok_users by (metis users_ok_def)
  then have "\<forall>v \<in> set (users db). u_ID v \<noteq> u_ID row" by simp (metis image_eqI)
  then show ?thesis unfolding admin_restored_def row(1)
    by (intro bexI [of _ row]) (auto simp: row nocase_def to_lower_def)
qed

lemma promoted_restores:
  assumes ok: "db_ok db" and h: "TrimSpace h = h" "h \<noteq> []"
    and run: "promoteExistingBootstrapAdmin now h cr db = (Inr cr', db')"
  shows "cr' = cr \<and> admin_restored h db db'"
proof -
  let ?up = "\<lparr>uu_Enabled = Some True, uu_Role = Some RoleAdmin, uu_TierID = None, uu_RevokeTokens = Some True, uu_PasswordHash = Some h\<rparr>"
  obtain v u' where v: "find (\<lambda>u. nocase (u_Username u) = nocase (TrimSpace bootstrapAdminUsername)) (users db) = Some v"
      "UpdateUser now (u_ID v) ?up db = (Inr u', db')" "cr' = cr"
    using run by (auto simp: promoteExistingBootstrapAdmin_def GetUserByUsername_def split: option.splits sum.splits prod.splits)
  have "nocase (TrimSpace bootstrapAdminUsername) = ''admin''" by code_simp
  then have name: "v \<in> set (users db)" "nocase (u_Username v) = ''admin''" using v(1) by (auto simp: find_Some_iff)
  have row: "user_row (u_ID v) db = Some v" using name(1) user_row_Some [OF ok] by blast
  from ok v(2) show ?thesis
  proof (cases rule: UpdateUser_cases)
    case (changed u)
    then have u: "u = v" using row by simp
    let ?f = "stamped now ?up True"
    have db': "users db' = update_where (\<lambda>x. u_ID x = u_ID v) ?f (users db)" using changed(3) by (simp add: revokes_def u)
    have "?f v \<in> set (users db')" using db' name(1) by (auto simp: update_where_def)
    moreover have "nocase (u_Username (?f v)) = ''admin''" "u_Role (?f v) = RoleAdmin" "u_Enabled (?f v)" "u_PasswordHash (?f v) = h"
      "u_TokenVersion (?f v) = u_TokenVersion v + 1" "u_ID (?f v) = u_ID v"
      using name(2) h by (simp_all add: stamped_def updated_user_def)
    moreover have "x \<in> set (users db')" if "x \<in> set (users db)" "u_ID x \<noteq> u_ID v" for x using that db' by (auto simp: update_where_def)
    moreover have "x = v" if "x \<in> set (users db)" "u_ID x = u_ID v" for x
      using that name(1) db_ok_users [OF ok] by (auto simp: users_ok_def distinct_map inj_on_def)
    ultimately show ?thesis using v(3) unfolding admin_restored_def by (metis less_add_one)
  qed (use row in \<open>auto simp: revokes_def\<close>)
qed

text \<open>Once the credentials are there and hashed, the administrator is created or restored.\<close>

lemma ensured:
  assumes "db_ok db" "random_ok 16 rnd" "TrimSpace h = h" "h \<noteq> []" "\<not> 0 < enabled_admins db"
    and load: "loadOrCreateBootstrapCredentials path draws ff node = (Inr cr, node1)" "bc_Username cr = ''admin''"
    and h: "generate (bc_Password cr) = Inr h"
    and run: "EnsureBootstrapAdmin generate rnd draws ff now path node db = (r, node', db')"
  shows "node' = node1 \<and> db_ok db' \<and>
    (case r of Inl e \<Rightarrow> db' = db | Inr None \<Rightarrow> False | Inr (Some c) \<Rightarrow> c = cr \<and> admin_restored h db db')"
proof -
  obtain cres db1 where create: "CreateUser rnd now ''admin'' h RoleAdmin db = (cres, db1)" by fastforce
  have good: "db_ok db1" using CreateUser_ok [OF assms(1,2), of now "''admin''" h RoleAdmin] create by simp
  note here = EnsureBootstrapAdmin_def assms(5) load h create
  show ?thesis
  proof (cases cres)
    case (Inr u)
    then have "admin_restored h db db1" using created_restores [OF assms(1,2)] create by simp
    then show ?thesis using run good Inr by (auto simp: here)
  next
    case (Inl e)
    then have same: "db1 = db" using create by (auto simp: CreateUser_def Let_def run_tx_def split: if_splits sum.splits)
    obtain pres db2 where promote: "promoteExistingBootstrapAdmin now h cr db = (pres, db2)" by fastforce
    show ?thesis
    proof (cases pres)
      case failed: (Inl e')
      then have "db2 = db" using promote
        by (auto simp: promoteExistingBootstrapAdmin_def UpdateUser_def run_tx_def split: sum.splits option.splits prod.splits)
      then show ?thesis using run same Inl assms(1) promote failed by (auto simp: here split: if_splits)
    next
      case restored: (Inr cr')
      have "db_ok db2" using promote UpdateUser_ok [OF assms(1)] restored
        by (auto simp: promoteExistingBootstrapAdmin_def split: sum.splits option.splits prod.splits) (metis snd_conv)
      then show ?thesis using promoted_restores [OF assms(1,3,4) promote [unfolded restored]] run same Inl assms(1) promote restored
        by (auto simp: here split: if_splits)
    qed
  qed
qed

text \<open>
  The first administrator (C38). As long as there is an enabled administrator nothing happens. Otherwise, when the
  call succeeds, the file is a regular file for its owner only that tells the credentials, and the database has an enabled administrator
  \<open>admin\<close> with the hash of their password: a new user, or the one of that name with its older sessions revoked; no other user
  is changed. When it fails at any step the database is as it was, and so is a file that was there.
\<close>

theorem bootstrap_admin_exact:
  assumes "db_ok db" "random_ok 16 rnd" "draws_ok draws" "ff_swap ff = None"
    and "\<And>p h. generate p = Inr h \<Longrightarrow> TrimSpace h = h \<and> h \<noteq> []"
    and "EnsureBootstrapAdmin generate rnd draws ff now path node db = (r, node', db')"
  shows "db_ok db' \<and>
    (case r of
       Inl e \<Rightarrow> db' = db \<and> enabled_admins db \<le> 0 \<and> (node' = node \<or> node = NoFile \<and> (\<exists>cr. file_tells node' cr))
     | Inr None \<Rightarrow> db' = db \<and> 0 < enabled_admins db \<and> node' = node
     | Inr (Some cr) \<Rightarrow> enabled_admins db \<le> 0 \<and> 0 < enabled_admins db' \<and> file_tells node' cr \<and>
         (\<exists>h. generate (bc_Password cr) = Inr h \<and> admin_restored h db db'))"
proof (cases "0 < enabled_admins db")
  case True
  then show ?thesis using assms(1,6) by (auto simp: EnsureBootstrapAdmin_def)
next
  case False
  obtain res node1 where load: "loadOrCreateBootstrapCredentials path draws ff node = (res, node1)" by fastforce
  have kept: "node1 = node \<or> node = NoFile" and failed: "res = Inl e \<Longrightarrow> node1 = node" for e
    using load assms(4) by (auto simp: loadOrCreateBootstrapCredentials_def writeNewBootstrapCredentials_def looked_at_def Let_def
        split: if_splits option.splits sum.splits prod.splits)
  show ?thesis
  proof (cases res)
    case (Inl e)
    then show ?thesis using assms(1,6) False load failed by (auto simp: EnsureBootstrapAdmin_def)
  next
    case (Inr cr)
    have tells: "file_tells node1 cr" using loaded_credentials [OF _ assms(3,4)] load Inr by blast
    then have name: "bc_Username cr = ''admin''" using decoded_credentials by (auto simp: file_tells_def)
    show ?thesis
    proof (cases "generate (bc_Password cr)")
      case (Inl e)
      then show ?thesis using assms(1,6) False load Inr kept tells by (auto simp: EnsureBootstrapAdmin_def)
    next
      case h: (Inr h)
      have "TrimSpace h = h" "h \<noteq> []" using assms(5) [OF h] by simp_all
      from ensured [OF assms(1,2) this False load [unfolded Inr] name h assms(6)] show ?thesis
        using kept tells False h by (auto split: sum.splits option.splits intro: restored_counted)
    qed
  qed
qed

text \<open>
  Credentials survive a restart. When the credentials were written or read once, by a start that may have failed later, the
  next start reads the same ones from the file, whatever its random source would give, and leaves the file as it is.
\<close>

theorem bootstrap_credentials_roundtrip:
  assumes "loadOrCreateBootstrapCredentials path draws ff node = (Inr cr, node')" "draws_ok draws" "ff_swap ff = None"
  shows "loadOrCreateBootstrapCredentials path draws' no_faults node' = (Inr cr, node')"
proof -
  have "TrimSpace path \<noteq> []" using assms(1) by (auto simp: loadOrCreateBootstrapCredentials_def)
  moreover obtain content where "node' = RegularFile owner_only content" "length content \<le> maximumBootstrapFileBytes"
      "decodeBootstrapCredentials content = Inr cr"
    using loaded_credentials [OF assms] unfolding file_tells_def by blast
  ultimately show ?thesis
    by (simp add: loadOrCreateBootstrapCredentials_def readExistingBootstrapCredentials_def openBootstrapCredentialFile_def looked_at_def
        validateBootstrapCredentialFileInfo_def no_faults_def)
qed

section \<open>Examples\<close>

text \<open>The example database with its administrator switched off.\<close>

definition locked_db :: DB where
  "locked_db = demo_db\<lparr>users := map (\<lambda>u. if u_Role u = RoleAdmin then u\<lparr>u_Enabled := False\<rparr> else u) (users demo_db)\<rparr>"

lemma locked_db_ok: "db_ok locked_db"
proof -
  have "users_ok (users locked_db)" "quota_ok (users locked_db) (reservations locked_db)" by code_simp+
  moreover have "references_ok locked_db"
    by (simp add: references_ok_def locked_db_def demo_db_def demo_user_row_def demo_tier_row_def)
  ultimately show ?thesis using demo_db_ok by (simp add: db_ok_def) (simp add: locked_db_def)
qed

definition demo_draws :: "nat \<Rightarrow> nat option" where "demo_draws i = Some (i mod 57)"

lemma demo_draws_ok: "draws_ok demo_draws"
  by (simp add: draws_ok_def demo_draws_def)

theorem bootstrap_admin_exact_witness:
  "0 < enabled_admins (snd (snd (EnsureBootstrapAdmin (\<lambda>p. Inr ''hash'') demo_entropy demo_draws no_faults demo_time ''f'' NoFile locked_db))) \<and>
   file_tells (fst (snd (EnsureBootstrapAdmin (\<lambda>p. Inr ''hash'') demo_entropy demo_draws no_faults demo_time ''f'' NoFile locked_db)))
     \<lparr>bc_Username = ''admin'', bc_Password = ''ABCDEFGHJKLM''\<rparr>"
proof -
  let ?run = "EnsureBootstrapAdmin (\<lambda>p. Inr ''hash'') demo_entropy demo_draws no_faults demo_time ''f'' NoFile locked_db"
  have run: "?run = (fst ?run, fst (snd ?run), snd (snd ?run))" by simp
  have result: "fst ?run = Inr (Some \<lparr>bc_Username = ''admin'', bc_Password = ''ABCDEFGHJKLM''\<rparr>)" by code_simp
  have trim: "TrimSpace ''hash'' = ''hash''" by code_simp
  have swap: "ff_swap no_faults = None" by (simp add: no_faults_def)
  show ?thesis
    using bootstrap_admin_exact [OF locked_db_ok demo_entropy_ok demo_draws_ok swap _ run] trim by (simp add: result)
qed

theorem bootstrap_credentials_roundtrip_witness:
  "\<exists>node. loadOrCreateBootstrapCredentials ''f'' demo_draws no_faults NoFile = (Inr \<lparr>bc_Username = ''admin'', bc_Password = ''ABCDEFGHJKLM''\<rparr>, node) \<and>
     loadOrCreateBootstrapCredentials ''f'' (\<lambda>_. None) no_faults node = (Inr \<lparr>bc_Username = ''admin'', bc_Password = ''ABCDEFGHJKLM''\<rparr>, node)"
proof -
  let ?load = "loadOrCreateBootstrapCredentials ''f'' demo_draws no_faults NoFile"
  have "fst ?load = Inr \<lparr>bc_Username = ''admin'', bc_Password = ''ABCDEFGHJKLM''\<rparr>" by code_simp
  then have load: "?load = (Inr \<lparr>bc_Username = ''admin'', bc_Password = ''ABCDEFGHJKLM''\<rparr>, snd ?load)" by (metis prod.collapse)
  have "ff_swap no_faults = None" by (simp add: no_faults_def)
  then show ?thesis using bootstrap_credentials_roundtrip [OF load demo_draws_ok] load by blast
qed

end
